(* ===== verification/CviPrelude.thy ===== *)
theory CviPrelude
  imports Main "HOL-Library.Word" "HOL-Library.AList" "HOL-Library.Multiset"
begin

text \<open>
  Shared vocabulary of the development: 64-bit unsigned arithmetic with its wrap-around,
  faults (a failed \<^verbatim>\<open>assert\<close>, a null dereference, an access out of range) as values of a
  sum type, the result codes of \<^verbatim>\<open>CVI_RC\<close>, \<^verbatim>\<open>std::vector\<close> and \<^verbatim>\<open>std::map\<close> operations on lists,
  and the lemmas on them that the component theories use.
\<close>

section \<open>Automation collections\<close>

named_theorems u64_simps \<open>rewriting of the wrap-around arithmetic when nothing wraps\<close>
named_theorems result_simps \<open>inversion of fault-carrying results\<close>

section \<open>Unsigned 64-bit and 32-bit arithmetic\<close>

text \<open>
  An unsigned machine integer is kept as the natural number it denotes, below
  \<^verbatim>\<open>2^64\<close> or \<^verbatim>\<open>2^32\<close>; the operations that can wrap write the modulus out.
\<close>

type_synonym u64 = nat
type_synonym u32 = nat
type_synonym byte = "8 word"

definition M64 :: nat where
  "M64 = 2 ^ 64"

definition M32 :: nat where
  "M32 = 2 ^ 32"

definition add64 :: "u64 \<Rightarrow> u64 \<Rightarrow> u64" where
  "add64 a b = (a + b) mod M64"

definition sub64 :: "u64 \<Rightarrow> u64 \<Rightarrow> u64" where
  "sub64 a b = (if b \<le> a then a - b else (a + (M64 - b mod M64)) mod M64)"

definition mul64 :: "u64 \<Rightarrow> u64 \<Rightarrow> u64" where
  "mul64 a b = (a * b) mod M64"

definition add32 :: "u32 \<Rightarrow> u32 \<Rightarrow> u32" where
  "add32 a b = (a + b) mod M32"

definition sub32 :: "u32 \<Rightarrow> u32 \<Rightarrow> u32" where
  "sub32 a b = (if b \<le> a then a - b else (a + (M32 - b mod M32)) mod M32)"

definition mul32 :: "u32 \<Rightarrow> u32 \<Rightarrow> u32" where
  "mul32 a b = (a * b) mod M32"

text \<open>A 32-bit pattern read as a signed \<^verbatim>\<open>int\<close>.\<close>

definition to_s32 :: "int \<Rightarrow> int" where
  "to_s32 i = (i + 2147483648) mod 4294967296 - 2147483648"

text \<open>The macro \<^verbatim>\<open>ALIGN(x, a)\<close>: \<^verbatim>\<open>(x + (a-1)) & ~(a-1)\<close> in 64 bits.\<close>

definition align_mask64 :: "u64 \<Rightarrow> u64 \<Rightarrow> u64" where
  "align_mask64 x a = unat (and (of_nat x + (of_nat a - 1)) (not (of_nat a - 1)) :: 64 word)"

section \<open>Faults\<close>

text \<open>
  What stops the process: \<^verbatim>\<open>assert\<close> and \<^verbatim>\<open>TPU_ASSERT\<close> abort, a null or dangling pointer and an
  index outside its array are undefined behaviour, an integer division by zero traps.
  \<open>Diverged\<close> stands for a polling loop that did not end within the fuel of the model.
\<close>

datatype fault = AssertFailed | NullDeref | OutOfRange | DivByZero | Uninitialised | Diverged

type_synonym 'a res = "fault + 'a"

definition bind_res :: "'a res \<Rightarrow> ('a \<Rightarrow> 'b res) \<Rightarrow> 'b res" where
  "bind_res r k = (case r of Inl e \<Rightarrow> Inl e | Inr a \<Rightarrow> k a)"

definition assert_res :: "bool \<Rightarrow> 'a res \<Rightarrow> 'a res" where
  "assert_res b r = (if b then r else Inl AssertFailed)"

section \<open>State passing with faults\<close>

text \<open>
  Stateful code is a function from the state to a fault or a result with the new state.  A pointer
  is the number of an object in a heap of the state, \<^const>\<open>None\<close> the null pointer.
\<close>

type_synonym ('s, 'a) sm = "'s \<Rightarrow> ('a \<times> 's) res"
type_synonym ptr = "nat option"

definition dret :: "'a \<Rightarrow> ('s, 'a) sm" where
  "dret a s = Inr (a, s)"

definition dbind :: "('s, 'a) sm \<Rightarrow> ('a \<Rightarrow> ('s, 'b) sm) \<Rightarrow> ('s, 'b) sm" where
  "dbind m k s = (case m s of Inl e \<Rightarrow> Inl e | Inr (a, s') \<Rightarrow> k a s')"

definition dthen :: "('s, 'a) sm \<Rightarrow> ('s, 'b) sm \<Rightarrow> ('s, 'b) sm" where
  "dthen m k = dbind m (\<lambda>_. k)"

definition dfail :: "fault \<Rightarrow> ('s, 'a) sm" where
  "dfail e s = Inl e"

definition dassert :: "bool \<Rightarrow> ('s, unit) sm" where
  "dassert b = (if b then dret () else dfail AssertFailed)"

definition dget :: "('s \<Rightarrow> 'a) \<Rightarrow> ('s, 'a) sm" where
  "dget f s = Inr (f s, s)"

definition dmodify :: "('s \<Rightarrow> 's) \<Rightarrow> ('s, unit) sm" where
  "dmodify f s = Inr ((), f s)"

text \<open>Following a pointer; a null or stale one is a fault.\<close>

definition deref :: "('s \<Rightarrow> nat \<rightharpoonup> 'a) \<Rightarrow> ptr \<Rightarrow> ('s, 'a) sm" where
  "deref heap p s = (case p of
     None \<Rightarrow> Inl NullDeref
   | Some i \<Rightarrow> (case heap s i of None \<Rightarrow> Inl NullDeref | Some x \<Rightarrow> Inr (x, s)))"

text \<open>A loop over a list that stops at the first result code other than success.\<close>

fun until_error :: "('x \<Rightarrow> ('s, int) sm) \<Rightarrow> 'x list \<Rightarrow> ('s, int) sm" where
  "until_error f [] = dret 0"
| "until_error f (x # xs) = dbind (f x) (\<lambda>r. if r \<noteq> 0 then dret r else until_error f xs)"

fun for_each :: "('x \<Rightarrow> ('s, unit) sm) \<Rightarrow> 'x list \<Rightarrow> ('s, unit) sm" where
  "for_each f [] = dret ()"
| "for_each f (x # xs) = dthen (f x) (for_each f xs)"

section \<open>Result codes\<close>

text \<open>
  \<^verbatim>\<open>CVI_RC\<close> is a C \<^verbatim>\<open>int\<close>; the error codes carry the module, the level and an error number in bit
  fields below the two top bits (\<^verbatim>\<open>include/cvitpu_debug.h\<close>).
\<close>

type_synonym cvi_rc = int

definition CVI_TPU_ERR :: "int \<Rightarrow> int \<Rightarrow> int \<Rightarrow> cvi_rc" where
  "CVI_TPU_ERR module level errid = to_s32 (or (or (or 0xC0000000 (push_bit 16 module)) (push_bit 13 level)) errid)"

definition CVI_RC_SUCCESS :: cvi_rc where "CVI_RC_SUCCESS = 0"
definition CVI_RC_FAILURE :: cvi_rc where "CVI_RC_FAILURE = -1"
definition CVI_RC_AGAIN :: cvi_rc where "CVI_RC_AGAIN = CVI_TPU_ERR 0x77 4 16"
definition CVI_RC_TIMEOUT :: cvi_rc where "CVI_RC_TIMEOUT = CVI_TPU_ERR 0x77 4 21"
definition CVI_RC_UNINIT :: cvi_rc where "CVI_RC_UNINIT = CVI_TPU_ERR 0x77 4 7"
definition CVI_RC_INVALID_ARG :: cvi_rc where "CVI_RC_INVALID_ARG = CVI_TPU_ERR 0x77 4 3"
definition CVI_RC_NOMEM :: cvi_rc where "CVI_RC_NOMEM = CVI_TPU_ERR 0x77 4 12"
definition CVI_RC_DATA_ERR :: cvi_rc where "CVI_RC_DATA_ERR = CVI_TPU_ERR 0x77 4 22"
definition CVI_RC_BUSY :: cvi_rc where "CVI_RC_BUSY = CVI_TPU_ERR 0x77 4 18"
definition CVI_RC_UNSUPPORT :: cvi_rc where "CVI_RC_UNSUPPORT = CVI_TPU_ERR 0x77 4 8"

section \<open>Containers\<close>

definition erase_at :: "nat \<Rightarrow> 'a list \<Rightarrow> 'a list" where
  "erase_at i xs = take i xs @ drop (Suc i) xs"

text \<open>\<^verbatim>\<open>std::map::insert\<close> keeps the old entry when the key is present.\<close>

definition map_insert :: "'k \<Rightarrow> 'v \<Rightarrow> ('k \<times> 'v) list \<Rightarrow> ('k \<times> 'v) list" where
  "map_insert k v m = (if map_of m k = None then (k, v) # m else m)"

text \<open>\<^verbatim>\<open>std::find_if\<close>: the index of the first element that satisfies the predicate.\<close>

fun find_index :: "('a \<Rightarrow> bool) \<Rightarrow> 'a list \<Rightarrow> nat option" where
  "find_index P [] = None"
| "find_index P (x # xs) = (if P x then Some 0 else map_option Suc (find_index P xs))"

section \<open>Reasoning about state passing\<close>

named_theorems dm_inv \<open>inversion of the state-passing operations\<close>

lemma dbind_Inr [dm_inv]:
  "dbind m k s = Inr (b, t) \<longleftrightarrow> (\<exists>a u. m s = Inr (a, u) \<and> k a u = Inr (b, t))"
  by (auto simp: dbind_def split: sum.splits)

lemma dthen_Inr [dm_inv]:
  "dthen m k s = Inr (b, t) \<longleftrightarrow> (\<exists>a u. m s = Inr (a, u) \<and> k u = Inr (b, t))"
  by (auto simp: dthen_def dbind_Inr)

lemma dm_basic_Inr [dm_inv]:
  "dret a s = Inr (b, t) \<longleftrightarrow> b = a \<and> t = s"
  "dfail e s = Inr (b, t) \<longleftrightarrow> False"
  "dassert p s = Inr (u, t) \<longleftrightarrow> p \<and> t = s"
  "dget f s = Inr (c, t) \<longleftrightarrow> c = f s \<and> t = s"
  "dmodify g s = Inr (u, t) \<longleftrightarrow> t = g s"
  "deref heap q s = Inr (x, t) \<longleftrightarrow> (\<exists>i. q = Some i \<and> heap s i = Some x) \<and> t = s"
  by (auto simp: dret_def dfail_def dassert_def dget_def dmodify_def deref_def split: option.splits)

lemma deref_bind_Inr:
  "dbind (deref heap q) k s = Inr (b, t) \<longleftrightarrow> (\<exists>i x. q = Some i \<and> heap s i = Some x \<and> k x s = Inr (b, t))"
  by (auto simp: dm_inv)

lemma dbind_step: "m s = Inr (a, t) \<Longrightarrow> dbind m k s = k a t" "m s = Inr (a, t) \<Longrightarrow> dthen m n s = n t"
  by (simp_all add: dthen_def dbind_def)

lemma dbind_dget [simp]: "dbind (dget f) k s = k (f s) s"
  by (simp add: dbind_def dget_def)

lemmas sm_run = dbind_def dthen_def dret_def dfail_def dassert_def dget_def dmodify_def deref_def

section \<open>Lemmas\<close>

lemma add64_id [u64_simps]: "a + b < M64 \<Longrightarrow> add64 a b = a + b"
  by (simp add: add64_def)

lemma add64_less [simp]: "add64 a b < M64"
  by (simp add: add64_def M64_def)

lemma sub64_id [u64_simps]: "b \<le> a \<Longrightarrow> sub64 a b = a - b"
  by (simp add: sub64_def)

lemma mul64_id [u64_simps]: "a * b < M64 \<Longrightarrow> mul64 a b = a * b"
  by (simp add: mul64_def)

lemma add32_id [u64_simps]: "a + b < M32 \<Longrightarrow> add32 a b = a + b"
  by (simp add: add32_def)

lemma sub32_id [u64_simps]: "b \<le> a \<Longrightarrow> sub32 a b = a - b"
  by (simp add: sub32_def)

lemma mul32_id [u64_simps]: "a * b < M32 \<Longrightarrow> mul32 a b = a * b"
  by (simp add: mul32_def)

lemma to_s32_id: "- 2147483648 \<le> i \<Longrightarrow> i < 2147483648 \<Longrightarrow> to_s32 i = i"
  by (simp add: to_s32_def)

lemma M64_pos [simp]: "0 < M64"
  by (simp add: M64_def)

lemma M32_pos [simp]: "0 < M32"
  by (simp add: M32_def)

lemma word_and_not_mask: "and w (not (mask n)) = w - take_bit n (w :: 'a::len word)"
proof -
  have "w - take_bit n w = and w (not (take_bit n w))"
    by (rule disjunctive_diff_eq_and_not) (rule bit_word_eqI, auto simp: bit_simps)
  also have "\<dots> = and w (not (mask n))"
    by (rule bit_word_eqI) (auto simp: bit_simps)
  finally show ?thesis by simp
qed

lemma unat_and_not_mask: "unat (and w (not (mask n)) :: 'a::len word) = unat w div 2 ^ n * 2 ^ n"
proof -
  have "unat (take_bit n w) = unat w mod 2 ^ n" by (simp only: unsigned_take_bit_eq take_bit_eq_mod[of n "unat w"])
  moreover have "take_bit n w \<le> w" by (simp add: word_le_nat_alt unsigned_take_bit_eq)
  ultimately have "unat (w - take_bit n w) = unat w - unat w mod 2 ^ n" by (simp add: unat_sub)
  then show ?thesis by (simp add: word_and_not_mask minus_mod_eq_div_mult)
qed

lemma align_mask64_eq:
  assumes "x + (2 ^ k - 1) < M64" "k < 64"
  shows "align_mask64 x (2 ^ k) = (x + (2 ^ k - 1)) div 2 ^ k * 2 ^ k"
proof -
  have "(of_nat (2 ^ k) - 1 :: 64 word) = mask k" by (simp add: mask_eq_decr_exp)
  moreover have "(of_nat (2 ^ k - 1) :: 64 word) = mask k" by (simp add: mask_eq_decr_exp of_nat_diff)
  then have "(of_nat x + mask k :: 64 word) = of_nat (x + (2 ^ k - 1))" by (simp only: of_nat_add)
  moreover have "unat (of_nat (x + (2 ^ k - 1)) :: 64 word) = x + (2 ^ k - 1)"
    using assms by (simp add: unsigned_of_nat take_bit_nat_eq_self M64_def)
  ultimately show ?thesis by (simp add: align_mask64_def unat_and_not_mask)
qed
lemma bind_res_simps [simp]:
  "bind_res (Inl e) k = Inl e"
  "bind_res (Inr a) k = k a"
  by (simp_all add: bind_res_def)

lemma bind_res_Inr [result_simps]:
  "bind_res r k = Inr b \<longleftrightarrow> (\<exists>a. r = Inr a \<and> k a = Inr b)"
  by (cases r) simp_all

lemma assert_res_Inr [result_simps]:
  "assert_res b r = Inr a \<longleftrightarrow> b \<and> r = Inr a"
  by (simp add: assert_res_def)

lemma assert_res_simps [simp]:
  "assert_res True r = r"
  "assert_res False r = Inl AssertFailed"
  by (simp_all add: assert_res_def)

lemmas cvi_rc_defs = CVI_TPU_ERR_def to_s32_def CVI_RC_SUCCESS_def CVI_RC_FAILURE_def CVI_RC_AGAIN_def
  CVI_RC_TIMEOUT_def CVI_RC_UNINIT_def CVI_RC_INVALID_ARG_def CVI_RC_NOMEM_def CVI_RC_DATA_ERR_def
  CVI_RC_BUSY_def CVI_RC_UNSUPPORT_def

lemma cvi_rc_values:
  "CVI_RC_SUCCESS = 0" "CVI_RC_FAILURE = -1" "CVI_RC_AGAIN = -1065910256" "CVI_RC_TIMEOUT = -1065910251"
  "CVI_RC_UNINIT = -1065910265" "CVI_RC_INVALID_ARG = -1065910269" "CVI_RC_NOMEM = -1065910260"
  "CVI_RC_DATA_ERR = -1065910250" "CVI_RC_BUSY = -1065910254" "CVI_RC_UNSUPPORT = -1065910264"
  by (simp_all add: cvi_rc_defs)

text \<open>Two positions of a ring of size \<open>c\<close> less than \<open>c\<close> apart are the same cell only when equal.\<close>

lemma ring_cell_inj:
  assumes "(h + k) mod c = (h + j) mod c" "k < c" "j < c" shows "k = (j::nat)"
proof -
  have "k \<le> j" if "(h + k) mod c = (h + j) mod c" "k < c" "j < c" for k j :: nat
  proof (rule ccontr)
    assume "\<not> k \<le> j"
    then have "c dvd (h + k) - (h + j)" using that(1) by (intro mod_eq_dvd_iff_nat[THEN iffD1]) auto
    with \<open>\<not> k \<le> j\<close> that show False by (auto dest: dvd_imp_le)
  qed
  from this[of k j] this[of j k] assms show ?thesis by simp
qed

lemma length_erase_at [simp]: "i < length xs \<Longrightarrow> length (erase_at i xs) = length xs - 1"
  by (simp add: erase_at_def)

lemma set_erase_at_subset: "set (erase_at i xs) \<subseteq> set xs"
  by (auto simp: erase_at_def dest: in_set_takeD in_set_dropD)

lemma mset_erase_at:
  "i < length xs \<Longrightarrow> mset xs = add_mset (xs ! i) (mset (erase_at i xs))"
  by (metis append_take_drop_id erase_at_def id_take_nth_drop mset_append mset.simps(2)
      union_mset_add_mset_right)

lemma mset_list_update_erase_at:
  "i < length xs \<Longrightarrow> mset (xs[i := v]) = add_mset v (mset (erase_at i xs))"
  by (simp add: upd_conv_take_nth_drop erase_at_def)

lemma nth_in_erase_at:
  assumes "i \<noteq> j" "j < length xs" shows "xs ! j \<in> set (erase_at i xs)"
proof (cases "j < i")
  case True
  with assms have "xs ! j = take i xs ! j" "j < length (take i xs)" by auto
  then show ?thesis unfolding erase_at_def by (metis UnCI nth_mem set_append)
next
  case False
  with assms have "xs ! j = drop (Suc i) xs ! (j - Suc i)" "j - Suc i < length (drop (Suc i) xs)" by auto
  then show ?thesis unfolding erase_at_def by (metis UnCI nth_mem set_append)
qed

lemma mset_erase_at_update:
  assumes "i \<noteq> j" "i < length xs" "j < length xs"
  obtains R where "mset xs = add_mset (xs ! i) (add_mset (xs ! j) R)"
    and "mset (erase_at j (xs[i := v])) = add_mset v R"
proof -
  obtain R where R: "mset (erase_at i xs) = add_mset (xs ! j) R"
    using nth_in_erase_at[OF assms(1,3)] by (metis mset_add set_mset_mset)
  have "add_mset (xs ! j) (mset (erase_at j (xs[i := v]))) = add_mset v (mset (erase_at i xs))"
    using mset_erase_at[of j "xs[i := v]"] mset_list_update_erase_at[of i xs v] assms by simp
  then have "mset (erase_at j (xs[i := v])) = add_mset v R"
    by (simp add: R add_mset_commute[of v])
  with that mset_erase_at[OF assms(2)] R show thesis by simp
qed

lemma find_index_NoneD: "find_index P xs = None \<Longrightarrow> x \<in> set xs \<Longrightarrow> \<not> P x"
  by (induction xs) (auto split: if_splits)

lemma find_index_None_iff: "find_index P xs = None \<longleftrightarrow> (\<forall>x\<in>set xs. \<not> P x)"
  by (induction xs) auto

lemma find_index_SomeD:
  "find_index P xs = Some i \<Longrightarrow> i < length xs \<and> P (xs ! i) \<and> (\<forall>j<i. \<not> P (xs ! j))"
proof (induction xs arbitrary: i)
  case (Cons x xs)
  show ?case
  proof (cases "P x")
    case False
    with Cons.prems obtain k where k: "find_index P xs = Some k" "i = Suc k" by auto
    with Cons.IH[OF k(1)] False show ?thesis
      by (auto simp: less_Suc_eq_0_disj)
  qed (use Cons.prems in auto)
qed simp

lemma find_index_eqI:
  "i < length xs \<Longrightarrow> P (xs ! i) \<Longrightarrow> (\<And>j. j < i \<Longrightarrow> \<not> P (xs ! j)) \<Longrightarrow> find_index P xs = Some i"
proof (induction xs arbitrary: i)
  case (Cons x xs)
  show ?case
  proof (cases i)
    case (Suc k)
    have "\<not> P (xs ! j)" if "j < k" for j using Cons.prems(3)[of "Suc j"] that Suc by simp
    then have "find_index P xs = Some k" using Cons.prems(1,2) Suc by (intro Cons.IH) auto
    moreover have "\<not> P x" using Cons.prems(3)[of 0] Suc by simp
    ultimately show ?thesis using Suc by simp
  qed (use Cons.prems in simp)
qed simp

lemma mset_delete_key:
  "distinct (map fst m) \<Longrightarrow> map_of m k = Some v \<Longrightarrow>
   mset m = add_mset (k, v) (mset (AList.delete k m))"
proof (induction m)
  case (Cons p m)
  obtain a b where p: "p = (a, b)" by (cases p)
  show ?case
  proof (cases "a = k")
    case True
    with Cons.prems p have "k \<notin> fst ` set m" by simp
    then have "AList.delete k m = m" by (simp add: AList.delete_eq filter_id_conv) force
    with True Cons.prems p show ?thesis by (simp add: AList.delete_eq)
  next
    case False
    with Cons p show ?thesis by (simp add: AList.delete_eq)
  qed
qed simp

end
