(* ===== verification/MemPool.thy ===== *)
theory MemPool
  imports CviPrelude
begin

text \<open>
  The slot allocator of \<^verbatim>\<open>src/common/mmpool.cpp\<close> and \<^verbatim>\<open>mmpool.h\<close> (the \<^verbatim>\<open>MEM_POOL_NAIVE_PLUS\<close>
  branch, the one that is compiled): it hands out the device memory of the simulated TPU.
  A pool keeps the vector of free slots and the map of slots in use.  Every operation runs
  under the pool's mutex, so each is one atomic function here; a failed \<^verbatim>\<open>assert\<close> is the
  fault \<^const>\<open>AssertFailed\<close>.
\<close>

section \<open>State\<close>

type_synonym pool_addr_t = u64
type_synonym pool_size_t = u64
type_synonym pool_pair_t = "pool_addr_t \<times> pool_size_t"

definition MIN_SLOT_SIZE :: nat where
  "MIN_SLOT_SIZE = 4 * 1024"

definition MEM_POOL_SLOT_NUM :: int where
  "MEM_POOL_SLOT_NUM = 2048 * 8"

definition BANK_SIZE :: nat where
  "BANK_SIZE = 0x80000000"

definition MEM_POOL_ADDR_INVALID :: pool_addr_t where
  "MEM_POOL_ADDR_INVALID = 0x000000ffffffffff"

record pool_struct =
  num_slots_in_use :: int
  slot_avail :: "pool_pair_t list"
  slot_in_use :: "pool_pair_t list"

record mem_pool =
  total_size :: u64
  mem_pool_list0 :: pool_struct
  mem_pool_count :: int

section \<open>Operations\<close>

definition mem_pool_init :: "mem_pool \<Rightarrow> mem_pool" where
  "mem_pool_init pool = pool\<lparr>mem_pool_list0 :=
     (mem_pool_list0 pool)\<lparr>slot_avail := [(0, total_size pool)], slot_in_use := []\<rparr>\<rparr>"

text \<open>
  The search loop of \<^verbatim>\<open>find_slot\<close>: \<open>i\<close> is the position of the iterator, \<open>it_min\<close> is
  \<^const>\<open>None\<close> for \<^verbatim>\<open>end()\<close>, \<open>min_size\<close> is \<^verbatim>\<open>min_size_among_sufficient\<close>.
\<close>

fun find_slot_loop :: "pool_size_t \<Rightarrow> pool_pair_t list \<Rightarrow> nat \<Rightarrow> nat option \<Rightarrow> pool_size_t
    \<Rightarrow> nat option" where
  "find_slot_loop sz [] i it_min min_size = it_min"
| "find_slot_loop sz (slot # rest) i it_min min_size =
    (if snd slot \<ge> sz \<and> (min_size = 0 \<or> snd slot < min_size)
     then find_slot_loop sz rest (Suc i) (Some i) (snd slot)
     else find_slot_loop sz rest (Suc i) it_min min_size)"

definition take_slot_front :: "pool_struct \<Rightarrow> nat \<Rightarrow> pool_size_t \<Rightarrow> pool_struct" where
  "take_slot_front P i sz =
    (let (addr, slot_size) = slot_avail P ! i in
     P\<lparr>slot_avail := (if slot_size = sz then erase_at i (slot_avail P)
                      else (slot_avail P)[i := (add64 addr sz, sub64 slot_size sz)]),
       slot_in_use := map_insert addr sz (slot_in_use P)\<rparr>)"

definition find_slot :: "pool_struct \<Rightarrow> pool_size_t \<Rightarrow> (pool_addr_t \<times> pool_struct) res" where
  "find_slot P sz = assert_res (sz mod MIN_SLOT_SIZE = 0)
    (case find_slot_loop sz (slot_avail P) 0 None 0 of
       None \<Rightarrow> Inr (MEM_POOL_ADDR_INVALID, P)
     | Some i \<Rightarrow>
         if snd (slot_avail P ! i) = 0 then Inr (MEM_POOL_ADDR_INVALID, P)
         else Inr (fst (slot_avail P ! i), take_slot_front P i sz))"

definition round_slot :: "pool_size_t \<Rightarrow> pool_size_t" where
  "round_slot sz = mul64 (sub64 (add64 sz MIN_SLOT_SIZE) 1 div MIN_SLOT_SIZE) MIN_SLOT_SIZE"

text \<open>The part \<^verbatim>\<open>mem_pool_alloc\<close> and \<^verbatim>\<open>mem_pool_alloc_in_bank\<close> have in common.\<close>

definition alloc_with :: "(pool_struct \<Rightarrow> pool_size_t \<Rightarrow> (pool_addr_t \<times> pool_struct) res)
    \<Rightarrow> mem_pool \<Rightarrow> pool_size_t \<Rightarrow> (pool_addr_t \<times> mem_pool) res" where
  "alloc_with find_op pool sz =
    (let P = mem_pool_list0 pool; size_to_alloc = round_slot sz in
     assert_res (num_slots_in_use P < MEM_POOL_SLOT_NUM)
      (bind_res (find_op P size_to_alloc) (\<lambda>(addr_to_alloc, P').
        if addr_to_alloc = MEM_POOL_ADDR_INVALID then Inl AssertFailed
        else if add64 addr_to_alloc size_to_alloc > total_size pool then Inl AssertFailed
        else Inr (addr_to_alloc, pool\<lparr>mem_pool_list0 :=
               P'\<lparr>num_slots_in_use := num_slots_in_use P' + 1\<rparr>\<rparr>))))"

definition mem_pool_alloc :: "mem_pool \<Rightarrow> pool_size_t \<Rightarrow> (pool_addr_t \<times> mem_pool) res" where
  "mem_pool_alloc = alloc_with find_slot"

definition offset_prev_finder :: "pool_addr_t \<Rightarrow> pool_pair_t \<Rightarrow> bool" where
  "offset_prev_finder offset_prev slot \<longleftrightarrow> add64 (fst slot) (snd slot) = offset_prev"

definition offset_next_finder :: "pool_addr_t \<Rightarrow> pool_pair_t \<Rightarrow> bool" where
  "offset_next_finder offset_next slot \<longleftrightarrow> fst slot = offset_next"

text \<open>Putting a freed slot back among the free ones, with its neighbours when they are free.\<close>

definition merge_slot :: "pool_pair_t list \<Rightarrow> pool_addr_t \<Rightarrow> pool_size_t \<Rightarrow> pool_pair_t list" where
  "merge_slot av addr_to_free size_to_free =
    (let addr_next = add64 addr_to_free size_to_free in
     case (find_index (offset_prev_finder addr_to_free) av,
           find_index (offset_next_finder addr_next) av) of
       (None, None) \<Rightarrow> av @ [(addr_to_free, size_to_free)]
     | (None, Some n) \<Rightarrow> av[n := (addr_to_free, add64 (snd (av ! n)) size_to_free)]
     | (Some p, None) \<Rightarrow> av[p := (fst (av ! p), add64 (snd (av ! p)) size_to_free)]
     | (Some p, Some n) \<Rightarrow>
         erase_at n (av[p := (fst (av ! p),
                              add64 (snd (av ! p)) (add64 size_to_free (snd (av ! n))))]))"

definition mem_pool_free :: "mem_pool \<Rightarrow> pool_addr_t \<Rightarrow> mem_pool res" where
  "mem_pool_free pool addr_to_free =
    (let P = mem_pool_list0 pool in
     case map_of (slot_in_use P) addr_to_free of
       None \<Rightarrow> Inl AssertFailed
     | Some size_to_free \<Rightarrow> assert_res (size_to_free mod MIN_SLOT_SIZE = 0)
         (Inr (pool\<lparr>mem_pool_list0 :=
            P\<lparr>num_slots_in_use := num_slots_in_use P - 1,
              slot_avail := merge_slot (slot_avail P) addr_to_free size_to_free,
              slot_in_use := AList.delete addr_to_free (slot_in_use P)\<rparr>\<rparr>)))"

definition mem_pool_create :: "u64 \<Rightarrow> mem_pool" where
  "mem_pool_create tsize =
    (let tpool = mem_pool_init \<lparr>total_size = tsize,
           mem_pool_list0 = \<lparr>num_slots_in_use = 0, slot_avail = [], slot_in_use = []\<rparr>,
           mem_pool_count = 0\<rparr>
     in tpool\<lparr>mem_pool_count := 1,
              mem_pool_list0 := (mem_pool_list0 tpool)\<lparr>num_slots_in_use := 0\<rparr>\<rparr>)"

definition mem_pool_destroy :: "mem_pool \<Rightarrow> unit res" where
  "mem_pool_destroy pool =
    (let P = mem_pool_list0 pool in
     case slot_avail P of
       [] \<Rightarrow> Inl OutOfRange
     | slot0 # _ \<Rightarrow>
         assert_res (fst slot0 = 0)
        (assert_res (snd slot0 = total_size pool)
        (assert_res (slot_in_use P = [])
        (assert_res (num_slots_in_use P = 0) (Inr ())))))"

definition slot_in_bank :: "pool_addr_t \<Rightarrow> pool_size_t \<Rightarrow> bool" where
  "slot_in_bank addr sz \<longleftrightarrow> add64 (addr mod BANK_SIZE) sz \<le> BANK_SIZE"

text \<open>
  The search loop of \<^verbatim>\<open>find_slot_in_bank\<close>: the first slot whose front (\<^verbatim>\<open>find_case\<close> 1) or whose
  back (\<^verbatim>\<open>find_case\<close> 2) can hold the size inside one bank.
\<close>

fun find_bank_loop :: "pool_size_t \<Rightarrow> pool_pair_t list \<Rightarrow> nat \<Rightarrow> (nat \<times> nat) option" where
  "find_bank_loop sz [] i = None"
| "find_bank_loop sz (slot # rest) i =
    (if snd slot \<ge> sz \<and> slot_in_bank (fst slot) sz then Some (1, i)
     else if snd slot \<ge> sz \<and> slot_in_bank (sub64 (add64 (fst slot) (snd slot)) sz) sz
     then Some (2, i)
     else find_bank_loop sz rest (Suc i))"

definition take_slot_back :: "pool_struct \<Rightarrow> nat \<Rightarrow> pool_size_t \<Rightarrow> pool_struct" where
  "take_slot_back P i sz =
    (let (addr, slot_size) = slot_avail P ! i in
     P\<lparr>slot_avail := (if slot_size = sz then erase_at i (slot_avail P)
                      else (slot_avail P)[i := (addr, sub64 slot_size sz)]),
       slot_in_use := map_insert (sub64 (add64 addr slot_size) sz) sz (slot_in_use P)\<rparr>)"

definition find_slot_in_bank :: "pool_struct \<Rightarrow> pool_size_t \<Rightarrow> (pool_addr_t \<times> pool_struct) res"
  where
  "find_slot_in_bank P size_to_alloc = assert_res (size_to_alloc mod MIN_SLOT_SIZE = 0)
    (case find_bank_loop size_to_alloc (slot_avail P) 0 of
       None \<Rightarrow> Inr (MEM_POOL_ADDR_INVALID, P)
     | Some (find_case, i) \<Rightarrow>
         let (first, second) = slot_avail P ! i in
         if find_case = 1
         then Inr (first, take_slot_front P i size_to_alloc)
         else Inr (sub64 (add64 first second) size_to_alloc, take_slot_back P i size_to_alloc))"

definition mem_pool_alloc_in_bank :: "mem_pool \<Rightarrow> pool_size_t \<Rightarrow> (pool_addr_t \<times> mem_pool) res"
  where
  "mem_pool_alloc_in_bank = alloc_with find_slot_in_bank"


section \<open>Tilings\<close>

text \<open>
  The blocks of a pool, free or in use, tile its address range: every address below the total
  size lies in exactly one block.  \<open>covers\<close> counts the blocks over an address, so splitting
  and joining blocks preserves it by plain addition.
\<close>

definition block_covers :: "nat \<Rightarrow> pool_pair_t \<Rightarrow> nat" where
  "block_covers x b = (if fst b \<le> x \<and> x < fst b + snd b then 1 else 0)"

definition covers :: "pool_pair_t multiset \<Rightarrow> nat \<Rightarrow> nat" where
  "covers M x = (\<Sum>b\<in>#M. block_covers x b)"

definition block_ok :: "pool_pair_t \<Rightarrow> bool" where
  "block_ok b \<longleftrightarrow> 0 < snd b \<and> MIN_SLOT_SIZE dvd fst b \<and> MIN_SLOT_SIZE dvd snd b"

definition tiles :: "nat \<Rightarrow> pool_pair_t multiset \<Rightarrow> bool" where
  "tiles T M \<longleftrightarrow> (\<forall>b\<in>#M. block_ok b) \<and> (\<forall>x. covers M x = (if x < T then 1 else 0))"

definition coalesced :: "pool_pair_t multiset \<Rightarrow> bool" where
  "coalesced A \<longleftrightarrow> (\<forall>b\<in>#A. \<forall>c\<in>#A. fst b + snd b \<noteq> fst c)"

definition slots_ok :: "nat \<Rightarrow> pool_pair_t multiset \<Rightarrow> pool_pair_t multiset \<Rightarrow> bool" where
  "slots_ok T A U \<longleftrightarrow> tiles T (A + U) \<and> coalesced A"

definition pool_inv :: "mem_pool \<Rightarrow> bool" where
  "pool_inv pool \<longleftrightarrow> (let P = mem_pool_list0 pool; T = total_size pool in
     0 < T \<and> T < M64 \<and> MIN_SLOT_SIZE dvd T \<and>
     slots_ok T (mset (slot_avail P)) (mset (slot_in_use P)) \<and>
     num_slots_in_use P = int (length (slot_in_use P)) \<and>
     num_slots_in_use P \<le> MEM_POOL_SLOT_NUM)"

text \<open>A maximal range of addresses that no block of \<open>U\<close> covers.\<close>

definition is_gap :: "nat \<Rightarrow> pool_pair_t multiset \<Rightarrow> pool_pair_t \<Rightarrow> bool" where
  "is_gap T U b \<longleftrightarrow> 0 < snd b \<and> fst b + snd b \<le> T \<and>
     (\<forall>x. fst b \<le> x \<and> x < fst b + snd b \<longrightarrow> covers U x = 0) \<and>
     (fst b = 0 \<or> covers U (fst b - 1) \<noteq> 0) \<and>
     (fst b + snd b = T \<or> covers U (fst b + snd b) \<noteq> 0)"

definition disjoint_blocks :: "pool_pair_t \<Rightarrow> pool_pair_t \<Rightarrow> bool" where
  "disjoint_blocks b c \<longleftrightarrow> fst b + snd b \<le> fst c \<or> fst c + snd c \<le> fst b"

lemma covers_simps [simp]:
  "covers {#} x = 0"
  "covers (add_mset b M) x = block_covers x b + covers M x"
  "covers (M + N) x = covers M x + covers N x"
  by (simp_all add: covers_def)

lemma block_covers_split:
  "k \<le> s \<Longrightarrow> block_covers x (p, s) = block_covers x (p, k) + block_covers x (p + k, s - k)"
  by (auto simp: block_covers_def)

lemma covers_pos_iff: "covers M x \<noteq> 0 \<longleftrightarrow> (\<exists>b\<in>#M. fst b \<le> x \<and> x < fst b + snd b)"
  by (induction M) (auto simp: block_covers_def)

lemma tiles_block_ok: "tiles T M \<Longrightarrow> b \<in># M \<Longrightarrow> block_ok b"
  by (simp add: tiles_def)

lemma tiles_covers: "tiles T M \<Longrightarrow> covers M x = (if x < T then 1 else 0)"
  by (simp add: tiles_def)

lemma tiles_in_range:
  assumes "tiles T M" "b \<in># M" shows "fst b + snd b \<le> T"
proof -
  have "covers M (fst b + snd b - 1) \<noteq> 0"
    using assms tiles_block_ok[OF assms] by (subst covers_pos_iff) (auto intro!: bexI[of _ b] simp: block_ok_def)
  with assms(1) show ?thesis by (auto simp: tiles_covers split: if_splits)
qed

lemma tiles_disjoint:
  assumes "tiles T (add_mset b N)" "c \<in># N" shows "disjoint_blocks b c"
proof (rule ccontr)
  assume "\<not> disjoint_blocks b c"
  then have x: "block_covers (max (fst b) (fst c)) b = 1" "block_covers (max (fst b) (fst c)) c = 1"
    using assms by (auto simp: disjoint_blocks_def block_covers_def tiles_def block_ok_def not_le)
  obtain N' where "N = add_mset c N'" using assms(2) by (metis mset_add)
  with x have "covers (add_mset b N) (max (fst b) (fst c)) \<ge> 2" by simp
  with tiles_covers[OF assms(1), of "max (fst b) (fst c)"] show False by (simp split: if_splits)
qed

lemma tiles_recover:
  assumes "tiles T M" "\<And>x. covers N x = covers M x" "\<And>b. b \<in># N \<Longrightarrow> block_ok b"
  shows "tiles T N"
  using assms by (simp add: tiles_def)

lemma tiles_split:
  assumes t: "tiles T (add_mset (p, s) N)" and k: "0 < k" "k < s" "MIN_SLOT_SIZE dvd k"
  shows "tiles T (add_mset (p, k) (add_mset (p + k, s - k) N))"
proof (rule tiles_recover[OF t])
  show "covers (add_mset (p, k) (add_mset (p + k, s - k) N)) x = covers (add_mset (p, s) N) x" for x
    using k block_covers_split[of k s x p] by simp
  show "block_ok b" if "b \<in># add_mset (p, k) (add_mset (p + k, s - k) N)" for b
    using that k t by (auto simp: tiles_def block_ok_def dvd_diff_nat)
qed

lemma tiles_join:
  assumes t: "tiles T (add_mset (p, k) (add_mset (p + k, r) N))"
  shows "tiles T (add_mset (p, k + r) N)"
proof (rule tiles_recover[OF t])
  show "covers (add_mset (p, k + r) N) x = covers (add_mset (p, k) (add_mset (p + k, r) N)) x" for x
    using block_covers_split[of k "k + r" x p] by simp
  show "block_ok b" if "b \<in># add_mset (p, k + r) N" for b
    using that t by (auto simp: tiles_def block_ok_def)
qed

lemma slots_ok_disjoint:
  assumes "slots_ok T (add_mset b A) U" "c \<in># A + U" shows "disjoint_blocks b c"
  using assms tiles_disjoint[of T b "A + U" c] by (simp add: slots_ok_def)

lemma slots_ok_block:
  assumes "slots_ok T A U" "b \<in># A + U" shows "block_ok b" "fst b + snd b \<le> T"
  using assms tiles_block_ok tiles_in_range unfolding slots_ok_def by blast+

lemma coalesced_subset: "coalesced A \<Longrightarrow> B \<subseteq># A \<Longrightarrow> coalesced B"
  by (auto simp: coalesced_def dest: mset_subset_eqD)

lemma coalesced_add:
  "coalesced (add_mset b A) \<longleftrightarrow> coalesced A \<and> snd b \<noteq> 0 \<and>
     (\<forall>c\<in>#A. fst b + snd b \<noteq> fst c \<and> fst c + snd c \<noteq> fst b)"
  by (auto simp: coalesced_def)

lemma slots_take_whole:
  "slots_ok T (add_mset b A) U \<Longrightarrow> slots_ok T A (add_mset b U)"
  by (auto simp: slots_ok_def coalesced_def)

lemma slots_take_front:
  assumes ok: "slots_ok T (add_mset (p, s) A) U" and k: "0 < k" "k < s" "MIN_SLOT_SIZE dvd k"
  shows "slots_ok T (add_mset (p + k, s - k) A) (add_mset (p, k) U)"
proof -
  have "tiles T (add_mset (p, k) (add_mset (p + k, s - k) (A + U)))"
    using tiles_split[OF _ k, of T p "A + U"] ok by (simp add: slots_ok_def)
  moreover have "fst c + snd c \<noteq> p + k" if "c \<in># A" for c
    using slots_ok_disjoint[OF ok, of c] slots_ok_block(1)[OF ok, of c] that k
    by (auto simp: disjoint_blocks_def block_ok_def)
  ultimately show ?thesis using ok k by (auto simp: slots_ok_def coalesced_add add_mset_commute)
qed

lemma slots_take_back:
  assumes ok: "slots_ok T (add_mset (p, s) A) U" and k: "0 < k" "k < s" "MIN_SLOT_SIZE dvd k"
  shows "slots_ok T (add_mset (p, s - k) A) (add_mset (p + s - k, k) U)"
proof -
  have s: "MIN_SLOT_SIZE dvd s" using slots_ok_block(1)[OF ok, of "(p, s)"] by (simp add: block_ok_def)
  have "tiles T (add_mset (p, s - k) (add_mset (p + (s - k), s - (s - k)) (A + U)))"
    using tiles_split[of T p s "A + U" "s - k"] ok k s by (simp add: slots_ok_def dvd_diff_nat)
  moreover have "p + (s - k) \<noteq> fst c" if "c \<in># A" for c
    using slots_ok_disjoint[OF ok, of c] slots_ok_block(1)[OF ok, of c] that k
    by (auto simp: disjoint_blocks_def block_ok_def)
  ultimately show ?thesis using ok k by (auto simp: slots_ok_def coalesced_add add_mset_commute)
qed

text \<open>The four ways a freed slot goes back.\<close>

lemma slots_give:
  assumes ok: "slots_ok T A (add_mset (a, s) U)"
    and prev: "\<And>c. c \<in># A \<Longrightarrow> fst c + snd c \<noteq> a" and nxt: "\<And>c. c \<in># A \<Longrightarrow> fst c \<noteq> a + s"
  shows "slots_ok T (add_mset (a, s) A) U"
  using ok prev nxt slots_ok_block(1)[OF ok, of "(a, s)"]
  by (fastforce simp: slots_ok_def coalesced_add block_ok_def)

lemma slots_give_next:
  assumes ok: "slots_ok T (add_mset (a + s, t) A) (add_mset (a, s) U)"
    and prev: "\<And>c. c \<in># A \<Longrightarrow> fst c + snd c \<noteq> a"
  shows "slots_ok T (add_mset (a, t + s) A) U"
proof -
  have "tiles T (add_mset (a, s) (add_mset (a + s, t) (A + U)))"
    using ok by (simp add: slots_ok_def add_mset_commute)
  from tiles_join[OF this] show ?thesis
    using ok prev by (auto simp: slots_ok_def coalesced_add add.commute)
qed

lemma slots_give_prev:
  assumes ok: "slots_ok T (add_mset (p, t) A) (add_mset (p + t, s) U)"
    and nxt: "\<And>c. c \<in># A \<Longrightarrow> fst c \<noteq> p + t + s"
  shows "slots_ok T (add_mset (p, t + s) A) U"
proof -
  have "tiles T (add_mset (p, t) (add_mset (p + t, s) (A + U)))"
    using ok by (simp add: slots_ok_def add_mset_commute)
  from tiles_join[OF this] show ?thesis
    using ok nxt by (force simp: slots_ok_def coalesced_add)
qed

lemma slots_give_both:
  assumes ok: "slots_ok T (add_mset (p, t) (add_mset (p + t + s, r) A)) (add_mset (p + t, s) U)"
  shows "slots_ok T (add_mset (p, t + (s + r)) A) U"
proof -
  have "tiles T (add_mset (p + t, s) (add_mset (p + t + s, r) (add_mset (p, t) (A + U))))"
    using ok by (simp add: slots_ok_def add_mset_commute)
  from tiles_join[OF this] have "tiles T (add_mset (p, t) (add_mset (p + t, s + r) (A + U)))"
    by (simp add: add_mset_commute)
  from tiles_join[OF this] show ?thesis
    using ok by (force simp: slots_ok_def coalesced_add)
qed

text \<open>The free slots are exactly the maximal gaps between the slots in use.\<close>

lemma slots_ok_gap:
  assumes ok: "slots_ok T A U" and b: "b \<in># A" shows "is_gap T U b"
proof -
  obtain A' where A: "A = add_mset b A'" using b by (metis mset_add)
  have t: "covers A x + covers U x = (if x < T then 1 else 0)" for x
    using ok tiles_covers[of T "A + U" x] by (simp add: slots_ok_def)
  have b1: "0 < snd b" "fst b + snd b \<le> T" using slots_ok_block[OF ok, of b] b by (auto simp: block_ok_def)
  have in0: "covers U x = 0" if "fst b \<le> x" "x < fst b + snd b" for x
    using t[of x] that by (simp add: A block_covers_def split: if_splits)
  have edge: "covers U x \<noteq> 0" if x: "x < T" "x + 1 = fst b \<or> x = fst b + snd b" for x
  proof
    assume "covers U x = 0"
    then have "covers A x \<noteq> 0" using t[of x] x by simp
    then obtain c where c: "c \<in># A" "fst c \<le> x" "x < fst c + snd c"
      using covers_pos_iff[of A x] by blast
    then have "c \<in># A'" using x b1 by (auto simp: A)
    then have "disjoint_blocks b c" using slots_ok_disjoint[of T b A' U c] ok by (simp add: A)
    moreover have "fst b + snd b \<noteq> fst c \<and> fst c + snd c \<noteq> fst b"
      using ok c(1) b by (simp add: slots_ok_def coalesced_def)
    ultimately show False using c x by (auto simp: disjoint_blocks_def)
  qed
  have "fst b = 0 \<or> covers U (fst b - 1) \<noteq> 0" using edge[of "fst b - 1"] b1 by (cases "fst b = 0") auto
  moreover have "fst b + snd b = T \<or> covers U (fst b + snd b) \<noteq> 0"
    using edge[of "fst b + snd b"] b1 by (cases "fst b + snd b = T") auto
  ultimately show ?thesis unfolding is_gap_def using b1 in0 by simp
qed

lemma gaps_unique:
  assumes "is_gap T U b" "is_gap T U c" "fst b \<le> x" "x < fst b + snd b" "fst c \<le> x" "x < fst c + snd c"
  shows "b = c"
proof -
  have lo: "fst u \<le> fst v"
    if u: "is_gap T U u" and v: "is_gap T U v" and x: "fst u \<le> x" "x < fst v + snd v" for u v
  proof (rule ccontr)
    assume "\<not> fst u \<le> fst v"
    then have "fst v \<le> fst u - 1" "fst u - 1 < fst v + snd v" "fst u \<noteq> 0" using x by auto
    then have "covers U (fst u - 1) = 0" "fst u \<noteq> 0" using v by (auto simp: is_gap_def)
    with u show False by (simp add: is_gap_def)
  qed
  have hi: "fst u + snd u \<le> fst v + snd v"
    if u: "is_gap T U u" and v: "is_gap T U v" and x: "fst u \<le> x" "x < fst v + snd v" for u v
  proof (rule ccontr)
    assume "\<not> fst u + snd u \<le> fst v + snd v"
    then have "covers U (fst v + snd v) = 0" "fst v + snd v \<noteq> T" using u x by (auto simp: is_gap_def)
    with v show False by (simp add: is_gap_def)
  qed
  show ?thesis using lo[of b c] lo[of c b] hi[of b c] hi[of c b] assms
    by (metis add_left_cancel le_antisym prod_eqI)
qed

lemma slots_ok_gaps:
  assumes ok: "slots_ok T A U" shows "b \<in># A \<longleftrightarrow> is_gap T U b"
proof
  assume gap: "is_gap T U b"
  then have "covers U (fst b) = 0" "fst b < T" by (auto simp: is_gap_def)
  moreover have "covers A (fst b) + covers U (fst b) = (if fst b < T then 1 else 0)"
    using ok tiles_covers[of T "A + U"] by (simp add: slots_ok_def)
  ultimately have "covers A (fst b) \<noteq> 0" by simp
  then obtain c where c: "c \<in># A" "fst c \<le> fst b" "fst b < fst c + snd c"
    using covers_pos_iff[of A "fst b"] by blast
  with gaps_unique[OF gap slots_ok_gap[OF ok c(1)], of "fst b"] gap show "b \<in># A"
    by (auto simp: is_gap_def)
qed (rule slots_ok_gap[OF ok])

lemma slots_ok_count:
  assumes ok: "slots_ok T A U" and b: "b \<in># A" shows "count A b = 1"
proof -
  obtain A' where A: "A = add_mset b A'" using b by (metis mset_add)
  have "b \<notin># A'"
    using slots_ok_disjoint[of T b A' U b] slots_ok_block(1)[OF ok, of b] ok b
    by (auto simp: A disjoint_blocks_def block_ok_def)
  then show ?thesis by (simp add: A not_in_iff)
qed

lemma slots_ok_unique: "slots_ok T A U \<Longrightarrow> slots_ok T B U \<Longrightarrow> A = B"
  by (rule multiset_eqI) (metis slots_ok_gaps slots_ok_count not_in_iff)

section \<open>The search loops\<close>

definition best_fit :: "nat \<Rightarrow> pool_pair_t list \<Rightarrow> nat option \<Rightarrow> bool" where
  "best_fit sz xs r = (case r of
      None \<Rightarrow> \<forall>s\<in>set xs. snd s < sz
    | Some i \<Rightarrow> i < length xs \<and> sz \<le> snd (xs ! i) \<and>
        (\<forall>j<length xs. sz \<le> snd (xs ! j) \<longrightarrow>
           snd (xs ! i) \<le> snd (xs ! j) \<and> (j < i \<longrightarrow> snd (xs ! i) < snd (xs ! j))))"

lemma best_fit_snoc_take:
  assumes "best_fit sz pre it" "m = (case it of None \<Rightarrow> 0 | Some i \<Rightarrow> snd (pre ! i))"
    "sz \<le> snd b" "m = 0 \<or> snd b < m" "\<forall>s\<in>set pre. 0 < snd s"
  shows "best_fit sz (pre @ [b]) (Some (length pre))"
proof (cases it)
  case None
  with assms(1) have "snd (pre ! j) < sz" if "j < length pre" for j using that by (simp add: best_fit_def)
  with assms(3) show ?thesis by (fastforce simp: best_fit_def nth_append less_Suc_eq)
next
  case (Some i)
  with assms have i: "i < length pre" "snd b < snd (pre ! i)"
    by (auto simp: best_fit_def dest: bspec[OF _ nth_mem])
  then have "snd b < snd (pre ! j)" if "j < length pre" "sz \<le> snd (pre ! j)" for j
    using assms(1) that Some by (fastforce simp: best_fit_def)
  then show ?thesis using assms(3)
    by (auto simp: best_fit_def nth_append less_Suc_eq intro: less_imp_le)
qed

lemma best_fit_snoc_skip:
  assumes "best_fit sz pre it" "m = (case it of None \<Rightarrow> 0 | Some i \<Rightarrow> snd (pre ! i))"
    "\<not> (sz \<le> snd b \<and> (m = 0 \<or> snd b < m))"
  shows "best_fit sz (pre @ [b]) it"
  using assms by (auto simp: best_fit_def nth_append less_Suc_eq split: option.splits)

lemma find_slot_loop_best:
  assumes "best_fit sz pre it" "m = (case it of None \<Rightarrow> 0 | Some i \<Rightarrow> snd (pre ! i))"
    "\<forall>s\<in>set (pre @ ys). 0 < snd s"
  shows "best_fit sz (pre @ ys) (find_slot_loop sz ys (length pre) it m)"
  using assms
proof (induction ys arbitrary: pre it m)
  case (Cons b ys)
  show ?case
  proof (cases "sz \<le> snd b \<and> (m = 0 \<or> snd b < m)")
    case True
    then have "best_fit sz (pre @ [b]) (Some (length pre))"
      using Cons.prems by (intro best_fit_snoc_take) auto
    with Cons.IH[of "pre @ [b]" "Some (length pre)" "snd b"] Cons.prems True show ?thesis by simp
  next
    case False
    then have "best_fit sz (pre @ [b]) it" by (rule best_fit_snoc_skip[OF Cons.prems(1,2)])
    moreover have "m = (case it of None \<Rightarrow> 0 | Some i \<Rightarrow> snd ((pre @ [b]) ! i))"
      using Cons.prems(1,2) by (auto simp: best_fit_def nth_append split: option.splits)
    ultimately show ?thesis using Cons.IH[of "pre @ [b]" it m] Cons.prems(3) False by auto
  qed
qed simp

lemma best_fit_None [simp]: "best_fit sz [] None"
  by (simp add: best_fit_def)

lemmas find_slot_loop_start =
  find_slot_loop_best[where pre = "[]" and it = None and m = 0, simplified]

lemma find_bank_loop_Some:
  "find_bank_loop sz xs i = Some (c, j) \<Longrightarrow>
   \<exists>k<length xs. j = i + k \<and> sz \<le> snd (xs ! k) \<and>
     (c = 1 \<and> slot_in_bank (fst (xs ! k)) sz \<or>
      c = 2 \<and> slot_in_bank (sub64 (add64 (fst (xs ! k)) (snd (xs ! k))) sz) sz)"
proof (induction xs arbitrary: i)
  case (Cons b xs)
  show ?case
  proof (cases "find_bank_loop sz xs (Suc i) = Some (c, j) \<and>
        find_bank_loop sz (b # xs) i = find_bank_loop sz xs (Suc i)")
    case True
    with Cons.IH[of "Suc i"] obtain k where "k < length xs" "j = Suc i + k" "sz \<le> snd (xs ! k)"
      "c = 1 \<and> slot_in_bank (fst (xs ! k)) sz \<or>
       c = 2 \<and> slot_in_bank (sub64 (add64 (fst (xs ! k)) (snd (xs ! k))) sz) sz" by blast
    then show ?thesis by (intro exI[of _ "Suc k"]) simp
  next
    case False
    with Cons.prems show ?thesis by (intro exI[of _ 0]) (auto split: if_splits)
  qed
qed simp

lemma find_bank_loop_None:
  "find_bank_loop sz xs i = None \<longleftrightarrow>
   (\<forall>b\<in>set xs. sz \<le> snd b \<longrightarrow> \<not> slot_in_bank (fst b) sz \<and>
      \<not> slot_in_bank (sub64 (add64 (fst b) (snd b)) sz) sz)"
  by (induction xs arbitrary: i) auto

section \<open>The operations on the tiling\<close>

lemma slots_ok_fresh_key:
  assumes ok: "slots_ok T (add_mset (p, s) A) U" and a: "p \<le> a" "a < p + s"
  shows "a \<notin> fst ` set_mset U"
proof
  assume "a \<in> fst ` set_mset U"
  then obtain c where c: "c \<in># U" "fst c = a" by auto
  with slots_ok_disjoint[OF ok, of c] slots_ok_block(1)[OF ok, of c] a show False
    by (auto simp: disjoint_blocks_def block_ok_def)
qed

lemma map_insert_fresh: "k \<notin> fst ` set m \<Longrightarrow> map_insert k v m = (k, v) # m"
  by (simp add: map_insert_def map_of_eq_None_iff)

text \<open>What one successful search does: \<open>(addr, sz)\<close> moves from the free to the used blocks.\<close>

definition takes_slot :: "nat \<Rightarrow> pool_struct \<Rightarrow> pool_addr_t \<Rightarrow> pool_size_t \<Rightarrow> pool_struct \<Rightarrow> bool" where
  "takes_slot T P addr sz P' \<longleftrightarrow>
     slots_ok T (mset (slot_avail P')) (mset (slot_in_use P')) \<and>
     mset (slot_in_use P') = add_mset (addr, sz) (mset (slot_in_use P)) \<and>
     num_slots_in_use P' = num_slots_in_use P"

lemma take_slot_front_takes:
  assumes ok: "slots_ok T (mset (slot_avail P)) (mset (slot_in_use P))" "T < M64"
    and i: "i < length (slot_avail P)" "sz \<le> snd (slot_avail P ! i)"
    and sz: "0 < sz" "MIN_SLOT_SIZE dvd sz"
  shows "takes_slot T P (fst (slot_avail P ! i)) sz (take_slot_front P i sz)"
proof -
  obtain p s where b: "slot_avail P ! i = (p, s)" by (cases "slot_avail P ! i")
  let ?A = "mset (erase_at i (slot_avail P))"
  have A: "mset (slot_avail P) = add_mset (p, s) ?A" using mset_erase_at[OF i(1)] b by simp
  have ok': "slots_ok T (add_mset (p, s) ?A) (mset (slot_in_use P))" using ok(1) A by simp
  have fresh: "map_insert p sz (slot_in_use P) = (p, sz) # slot_in_use P"
    using slots_ok_fresh_key[OF ok', of p] i sz b by (intro map_insert_fresh) auto
  have r: "p + s \<le> T" using slots_ok_block(2)[OF ok', of "(p, s)"] by simp
  show ?thesis
  proof (cases "s = sz")
    case True
    with slots_take_whole[OF ok'] show ?thesis
      by (simp add: takes_slot_def take_slot_front_def b fresh)
  next
    case False
    with i b have "sz < s" by simp
    with slots_take_front[OF ok' sz(1) _ sz(2)] r ok(2) i show ?thesis
      by (simp add: takes_slot_def take_slot_front_def b fresh mset_list_update_erase_at u64_simps)
  qed
qed

lemma take_slot_back_takes:
  assumes ok: "slots_ok T (mset (slot_avail P)) (mset (slot_in_use P))" "T < M64"
    and i: "i < length (slot_avail P)" "sz \<le> snd (slot_avail P ! i)" "slot_avail P ! i = (p, s)"
    and sz: "0 < sz" "MIN_SLOT_SIZE dvd sz"
  shows "takes_slot T P (p + s - sz) sz (take_slot_back P i sz)"
    and "sub64 (add64 p s) sz = p + s - sz"
proof -
  let ?A = "mset (erase_at i (slot_avail P))"
  have A: "mset (slot_avail P) = add_mset (p, s) ?A" using mset_erase_at[OF i(1)] i by simp
  have ok': "slots_ok T (add_mset (p, s) ?A) (mset (slot_in_use P))" using ok(1) A by simp
  have r: "p + s \<le> T" using slots_ok_block(2)[OF ok', of "(p, s)"] by simp
  show bk: "sub64 (add64 p s) sz = p + s - sz" using r ok(2) i by (simp add: u64_simps)
  have fresh: "map_insert (p + s - sz) sz (slot_in_use P) = (p + s - sz, sz) # slot_in_use P"
    using slots_ok_fresh_key[OF ok', of "p + s - sz"] i sz by (intro map_insert_fresh) auto
  show "takes_slot T P (p + s - sz) sz (take_slot_back P i sz)"
  proof (cases "s = sz")
    case True
    with slots_take_whole[OF ok'] bk fresh show ?thesis
      by (simp add: takes_slot_def take_slot_back_def i)
  next
    case False
    with i have "sz < s" by simp
    with slots_take_back[OF ok' sz(1) _ sz(2)] i bk show ?thesis
      by (simp add: takes_slot_def take_slot_back_def fresh mset_list_update_erase_at u64_simps)
  qed
qed

text \<open>What the two neighbour searches of \<^verbatim>\<open>mem_pool_free\<close> find.\<close>

lemma merge_finders:
  assumes ok: "slots_ok T (mset av) (add_mset (a, s) U)" and T: "T < M64"
  shows finders_next_addr: "add64 a s = a + s"
    and finders_no_prev: "\<lbrakk>find_index (offset_prev_finder a) av = None; c \<in> set av\<rbrakk> \<Longrightarrow> fst c + snd c \<noteq> a"
    and finders_no_next: "\<lbrakk>find_index (offset_next_finder (a + s)) av = None; c \<in> set av\<rbrakk> \<Longrightarrow> fst c \<noteq> a + s"
    and finders_prev: "find_index (offset_prev_finder a) av = Some i \<Longrightarrow>
          i < length av \<and> fst (av ! i) + snd (av ! i) = a"
    and finders_next: "find_index (offset_next_finder (a + s)) av = Some j \<Longrightarrow>
          j < length av \<and> av ! j = (a + s, snd (av ! j))"
    and finders_sum: "\<lbrakk>c \<in> set av; fst c + snd c = a \<or> fst c = a + s\<rbrakk> \<Longrightarrow> add64 (snd c) s = snd c + s"
proof -
  have blk: "fst b + snd b \<le> T" if "b \<in> set av" for b
    using slots_ok_block(2)[OF ok, of b] that by simp
  have ra: "a + s \<le> T" using slots_ok_block(2)[OF ok, of "(a, s)"] by simp
  show "add64 a s = a + s" using ra T by (simp add: u64_simps)
  have pf: "offset_prev_finder a b \<longleftrightarrow> fst b + snd b = a" if "b \<in> set av" for b
    using blk[OF that] T by (simp add: offset_prev_finder_def u64_simps)
  show "fst c + snd c \<noteq> a" if "find_index (offset_prev_finder a) av = None" "c \<in> set av"
    using find_index_NoneD[OF that] pf that(2) by simp
  show "fst c \<noteq> a + s" if "find_index (offset_next_finder (a + s)) av = None" "c \<in> set av"
    using find_index_NoneD[OF that] by (simp add: offset_next_finder_def)
  show "i < length av \<and> fst (av ! i) + snd (av ! i) = a" if "find_index (offset_prev_finder a) av = Some i"
    using find_index_SomeD[OF that] pf[of "av ! i"] by simp
  show "j < length av \<and> av ! j = (a + s, snd (av ! j))"
    if "find_index (offset_next_finder (a + s)) av = Some j"
    using find_index_SomeD[OF that] by (simp add: offset_next_finder_def prod_eq_iff)
  show "add64 (snd c) s = snd c + s" if "c \<in> set av" "fst c + snd c = a \<or> fst c = a + s"
    using blk[OF that(1)] that(2) ra T by (intro add64_id) auto
qed

lemma merge_slot_ok:
  assumes ok: "slots_ok T (mset av) (add_mset (a, s) U)" and T: "T < M64"
  shows "slots_ok T (mset (merge_slot av a s)) U"
proof -
  note F = merge_finders[OF ok T]
  let ?p = "find_index (offset_prev_finder a) av" and ?n = "find_index (offset_next_finder (a + s)) av"
  have sub: "c \<in> set av" if "c \<in># mset (erase_at k av)" for c k using that set_erase_at_subset[of k av] by auto
  show ?thesis
  proof (cases ?p; cases ?n)
    assume c: "?p = None" "?n = None"
    with slots_give[OF ok] F(2,3) show ?thesis by (simp add: merge_slot_def F(1))
  next
    fix j assume c: "?p = None" "?n = Some j"
    note j = F(5)[OF c(2)]
    have A: "mset av = add_mset (a + s, snd (av ! j)) (mset (erase_at j av))"
      using mset_erase_at[of j av] j by simp
    have "slots_ok T (add_mset (a, snd (av ! j) + s) (mset (erase_at j av))) U"
      using ok A F(2)[OF c(1) sub] by (intro slots_give_next) auto
    with c j F(6)[of "av ! j"] show ?thesis
      by (simp add: merge_slot_def F(1) mset_list_update_erase_at prod_eq_iff)
  next
    fix i assume c: "?p = Some i" "?n = None"
    note i = F(4)[OF c(1)]
    have A: "mset av = add_mset (fst (av ! i), snd (av ! i)) (mset (erase_at i av))"
      using mset_erase_at[of i av] i by simp
    have "slots_ok T (add_mset (fst (av ! i), snd (av ! i) + s) (mset (erase_at i av))) U"
      using ok A i F(3)[OF c(2) sub] by (intro slots_give_prev) auto
    with c i F(6)[of "av ! i"] show ?thesis by (simp add: merge_slot_def F(1) mset_list_update_erase_at)
  next
    fix i j assume c: "?p = Some i" "?n = Some j"
    note ij = F(4)[OF c(1)] F(5)[OF c(2)]
    let ?v = "(fst (av ! i), snd (av ! i) + (s + snd (av ! j)))"
    have "i \<noteq> j" using ij slots_ok_block(1)[OF ok, of "(a, s)"] by (auto simp: prod_eq_iff block_ok_def)
    with ij obtain R where R: "mset av = add_mset (av ! i) (add_mset (av ! j) R)"
      "mset (erase_at j (av[i := ?v])) = add_mset ?v R" by (metis mset_erase_at_update)
    have "slots_ok T (add_mset (fst (av ! i), snd (av ! i))
        (add_mset (fst (av ! i) + snd (av ! i) + s, snd (av ! j)) R)) (add_mset (fst (av ! i) + snd (av ! i), s) U)"
      using ok R(1) ij by simp
    from slots_give_both[OF this] have *: "slots_ok T (add_mset ?v R) U" .
    then have "fst (av ! i) + (snd (av ! i) + (s + snd (av ! j))) \<le> T"
      using slots_ok_block(2)[OF *, of ?v] by simp
    with * c T R(2) show ?thesis by (simp add: merge_slot_def F(1) u64_simps)
  qed
qed

section \<open>Allocation and release\<close>

text \<open>Requests for which the size computation of the allocator neither wraps nor gives zero.\<close>

definition valid_request :: "pool_size_t \<Rightarrow> bool" where
  "valid_request sz \<longleftrightarrow> 0 < sz \<and> sz + MIN_SLOT_SIZE < M64"

definition live :: "mem_pool \<Rightarrow> pool_pair_t multiset" where
  "live pool = mset (slot_in_use (mem_pool_list0 pool))"

definition free_slots :: "mem_pool \<Rightarrow> pool_pair_t multiset" where
  "free_slots pool = mset (slot_avail (mem_pool_list0 pool))"

lemma MIN_SLOT_SIZE_pos [simp]: "0 < MIN_SLOT_SIZE" "MIN_SLOT_SIZE \<noteq> 0"
  by (simp_all add: MIN_SLOT_SIZE_def)

lemma round_slot_eq:
  assumes "valid_request sz"
  shows "round_slot sz = (sz + (MIN_SLOT_SIZE - 1)) div MIN_SLOT_SIZE * MIN_SLOT_SIZE"
proof -
  have "(sz + (MIN_SLOT_SIZE - 1)) div MIN_SLOT_SIZE * MIN_SLOT_SIZE < M64"
    using assms by (auto simp: valid_request_def intro: le_less_trans[OF div_times_less_eq_dividend])
  then show ?thesis using assms
    by (simp add: round_slot_def valid_request_def u64_simps Suc_leI trans_le_add2)
qed

lemma round_slot_bounds:
  assumes "valid_request sz"
  shows "sz \<le> round_slot sz" "round_slot sz < sz + MIN_SLOT_SIZE" "MIN_SLOT_SIZE dvd round_slot sz"
    "0 < round_slot sz"
proof -
  have r: "round_slot sz = (sz + 4095) div 4096 * 4096"
    using round_slot_eq[OF assms] by (simp add: MIN_SLOT_SIZE_def)
  have "(sz + 4095) div 4096 * 4096 + (sz + 4095) mod 4096 = sz + 4095" by (rule div_mult_mod_eq)
  moreover have "(sz + 4095) mod 4096 < 4096" by simp
  ultimately show *: "sz \<le> round_slot sz" and "round_slot sz < sz + MIN_SLOT_SIZE"
    unfolding r MIN_SLOT_SIZE_def by linarith+
  show "MIN_SLOT_SIZE dvd round_slot sz" using assms by (simp add: round_slot_eq)
  show "0 < round_slot sz" using * assms by (simp add: valid_request_def)
qed

lemma find_slot_takes:
  assumes ok: "slots_ok T (mset (slot_avail P)) (mset (slot_in_use P))" "T < M64"
    and sz: "0 < sz" "MIN_SLOT_SIZE dvd sz"
    and r: "find_slot P sz = Inr (a, P')" "a \<noteq> MEM_POOL_ADDR_INVALID"
  shows "takes_slot T P a sz P'"
proof -
  have pos: "\<forall>s\<in>set (slot_avail P). 0 < snd s"
    using slots_ok_block(1)[OF ok(1)] by (auto simp: block_ok_def)
  obtain i where i: "find_slot_loop sz (slot_avail P) 0 None 0 = Some i"
    "a = fst (slot_avail P ! i)" "P' = take_slot_front P i sz"
    using r by (auto simp: find_slot_def result_simps split: option.splits if_splits)
  then have "i < length (slot_avail P)" "sz \<le> snd (slot_avail P ! i)"
    using find_slot_loop_start[OF pos, of sz] by (simp_all add: best_fit_def)
  with take_slot_front_takes[OF ok _ _ sz] i show ?thesis by simp
qed

lemma find_slot_in_bank_takes:
  assumes ok: "slots_ok T (mset (slot_avail P)) (mset (slot_in_use P))" "T < M64"
    and sz: "0 < sz" "MIN_SLOT_SIZE dvd sz"
    and r: "find_slot_in_bank P sz = Inr (a, P')" "a \<noteq> MEM_POOL_ADDR_INVALID"
  shows "takes_slot T P a sz P' \<and> slot_in_bank a sz"
proof -
  obtain c i where ci: "find_bank_loop sz (slot_avail P) 0 = Some (c, i)"
    using r by (auto simp: find_slot_in_bank_def result_simps split: option.splits)
  obtain p s where b: "slot_avail P ! i = (p, s)" by (cases "slot_avail P ! i")
  from find_bank_loop_Some[OF ci] b have i: "i < length (slot_avail P)" "sz \<le> snd (slot_avail P ! i)"
    and c: "c = 1 \<and> slot_in_bank p sz \<or> c = 2 \<and> slot_in_bank (sub64 (add64 p s) sz) sz" by auto
  note bk = take_slot_back_takes[OF ok i b sz]
  from c show ?thesis
  proof
    assume "c = 1 \<and> slot_in_bank p sz"
    with take_slot_front_takes[OF ok i sz] r ci b show ?thesis
      by (auto simp: find_slot_in_bank_def result_simps)
  next
    assume "c = 2 \<and> slot_in_bank (sub64 (add64 p s) sz) sz"
    with bk r ci b show ?thesis by (auto simp: find_slot_in_bank_def result_simps)
  qed
qed

lemma takes_slot_inv:
  assumes "pool_inv pool" "takes_slot (total_size pool) (mem_pool_list0 pool) a sz P'"
    "num_slots_in_use (mem_pool_list0 pool) < MEM_POOL_SLOT_NUM"
    "pool' = pool\<lparr>mem_pool_list0 := P'\<lparr>num_slots_in_use := num_slots_in_use P' + 1\<rparr>\<rparr>"
  shows "pool_inv pool' \<and> live pool' = add_mset (a, sz) (live pool) \<and> total_size pool' = total_size pool"
proof -
  have "length (slot_in_use P') = Suc (length (slot_in_use (mem_pool_list0 pool)))"
    using assms(2) unfolding takes_slot_def by (metis size_add_mset size_mset)
  with assms show ?thesis by (auto simp: pool_inv_def takes_slot_def live_def Let_def)
qed

text \<open>Both allocation functions, by the same argument over their search.\<close>

lemma alloc_with_ok:
  assumes inv: "pool_inv pool" and v: "valid_request sz"
    and takes: "\<And>P'. find_op (mem_pool_list0 pool) (round_slot sz) = Inr (a, P') \<Longrightarrow>
        a \<noteq> MEM_POOL_ADDR_INVALID \<Longrightarrow>
        takes_slot (total_size pool) (mem_pool_list0 pool) a (round_slot sz) P'"
    and r: "alloc_with find_op pool sz = Inr (a, pool')"
  shows "pool_inv pool' \<and> live pool' = add_mset (a, round_slot sz) (live pool) \<and>
         total_size pool' = total_size pool"
proof -
  obtain P' where P': "num_slots_in_use (mem_pool_list0 pool) < MEM_POOL_SLOT_NUM"
    "find_op (mem_pool_list0 pool) (round_slot sz) = Inr (a, P')" "a \<noteq> MEM_POOL_ADDR_INVALID"
    "pool' = pool\<lparr>mem_pool_list0 := P'\<lparr>num_slots_in_use := num_slots_in_use P' + 1\<rparr>\<rparr>"
    using r by (auto simp: alloc_with_def Let_def result_simps split: if_splits)
  from takes_slot_inv[OF inv takes[OF P'(2,3)] P'(1,4)] show ?thesis .
qed

lemma pool_inv_slots:
  assumes "pool_inv pool"
  shows "slots_ok (total_size pool) (free_slots pool) (live pool)" "total_size pool < M64"
    "slots_ok (total_size pool) (mset (slot_avail (mem_pool_list0 pool))) (mset (slot_in_use (mem_pool_list0 pool)))"
  using assms by (auto simp: pool_inv_def free_slots_def live_def Let_def)

lemma mem_pool_alloc_ok:
  assumes "pool_inv pool" "valid_request sz" "mem_pool_alloc pool sz = Inr (a, pool')"
  shows "pool_inv pool' \<and> live pool' = add_mset (a, round_slot sz) (live pool) \<and>
         total_size pool' = total_size pool"
proof -
  note v = round_slot_bounds[OF assms(2)] and s = pool_inv_slots[OF assms(1)]
  show ?thesis
    by (rule alloc_with_ok[OF assms(1,2) find_slot_takes[OF s(3,2) v(4,3)]
          assms(3)[unfolded mem_pool_alloc_def]])
qed

lemma mem_pool_alloc_in_bank_ok:
  assumes "pool_inv pool" "valid_request sz" "mem_pool_alloc_in_bank pool sz = Inr (a, pool')"
  shows "pool_inv pool' \<and> live pool' = add_mset (a, round_slot sz) (live pool) \<and>
         total_size pool' = total_size pool"
    and "slot_in_bank a (round_slot sz)"
proof -
  note v = round_slot_bounds[OF assms(2)] and s = pool_inv_slots[OF assms(1)]
  note t = find_slot_in_bank_takes[OF s(3,2) v(4,3)]
  show "pool_inv pool' \<and> live pool' = add_mset (a, round_slot sz) (live pool) \<and>
        total_size pool' = total_size pool"
    by (rule alloc_with_ok[OF assms(1,2) t[THEN conjunct1]
          assms(3)[unfolded mem_pool_alloc_in_bank_def]])
  show "slot_in_bank a (round_slot sz)" using assms(3) t
    by (auto simp: mem_pool_alloc_in_bank_def alloc_with_def Let_def result_simps split: if_splits)
qed

lemma live_distinct_keys:
  assumes "pool_inv pool" shows "distinct (map fst (slot_in_use (mem_pool_list0 pool)))"
proof -
  have "distinct (map fst us)" if "tiles T (A + mset us)" for T A and us :: "pool_pair_t list"
    using that
  proof (induction us arbitrary: A)
    case (Cons u us)
    have "fst u \<noteq> fst w" if "w \<in> set us" for w
      using tiles_disjoint[of T u "A + mset us" w] Cons.prems that
        tiles_block_ok[OF Cons.prems, of u] tiles_block_ok[OF Cons.prems, of w] by (auto simp: disjoint_blocks_def block_ok_def)
    with Cons.IH[of "add_mset u A"] Cons.prems show ?case by auto
  qed simp
  with pool_inv_slots(3)[OF assms] show ?thesis unfolding slots_ok_def by blast
qed

lemma mem_pool_free_ok:
  assumes inv: "pool_inv pool" and a: "(a, s) \<in># live pool"
  shows "\<exists>pool'. mem_pool_free pool a = Inr pool' \<and> pool_inv pool' \<and>
           live pool = add_mset (a, s) (live pool') \<and> total_size pool' = total_size pool"
proof -
  let ?P = "mem_pool_list0 pool"
  have lookup: "map_of (slot_in_use ?P) a = Some s"
    using live_distinct_keys[OF inv] a by (simp add: live_def map_of_eq_Some_iff)
  have del: "mset (slot_in_use ?P) = add_mset (a, s) (mset (AList.delete a (slot_in_use ?P)))"
    by (rule mset_delete_key[OF live_distinct_keys[OF inv] lookup])
  have len: "length (slot_in_use ?P) = Suc (length (AList.delete a (slot_in_use ?P)))"
    using del by (metis size_add_mset size_mset)
  have al: "s mod MIN_SLOT_SIZE = 0"
    using slots_ok_block(1)[OF pool_inv_slots(1)[OF inv], of "(a, s)"] a by (auto simp: block_ok_def)
  show ?thesis
    using merge_slot_ok[of "total_size pool" "slot_avail ?P" a s "mset (AList.delete a (slot_in_use ?P))"]
      inv lookup al del len
    by (simp add: mem_pool_free_def pool_inv_def Let_def live_def)
qed

lemma mem_pool_free_unknown:
  "a \<notin> fst ` set_mset (live pool) \<Longrightarrow> mem_pool_free pool a = Inl AssertFailed"
  by (simp add: mem_pool_free_def live_def Let_def map_of_eq_None_iff[THEN iffD2])

lemma mem_pool_create_inv:
  assumes "0 < T" "T < M64" "MIN_SLOT_SIZE dvd T"
  shows "pool_inv (mem_pool_create T)" "live (mem_pool_create T) = {#}" "total_size (mem_pool_create T) = T"
proof -
  have "slots_ok T {#(0, T)#} {#}"
    using assms by (auto simp: slots_ok_def tiles_def coalesced_def block_ok_def block_covers_def)
  with assms show "pool_inv (mem_pool_create T)" "live (mem_pool_create T) = {#}"
    "total_size (mem_pool_create T) = T"
    by (simp_all add: pool_inv_def mem_pool_create_def mem_pool_init_def Let_def live_def MEM_POOL_SLOT_NUM_def)
qed

lemma free_slots_empty_live:
  assumes inv: "pool_inv pool" and e: "live pool = {#}"
  shows "slot_avail (mem_pool_list0 pool) = [(0, total_size pool)]"
proof -
  let ?T = "total_size pool"
  have T: "0 < ?T" "?T < M64" "MIN_SLOT_SIZE dvd ?T" using inv by (auto simp: pool_inv_def Let_def)
  have "slots_ok ?T {#(0, ?T)#} {#}"
    using mem_pool_create_inv(1)[OF T] by (simp add: pool_inv_def mem_pool_create_def mem_pool_init_def Let_def)
  from slots_ok_unique[OF _ this] pool_inv_slots(3)[OF inv] e
  have "mset (slot_avail (mem_pool_list0 pool)) = mset [(0, ?T)]" by (simp add: live_def)
  then show ?thesis by simp
qed

lemma mem_pool_destroy_ok:
  assumes "pool_inv pool" "live pool = {#}" shows "mem_pool_destroy pool = Inr ()"
  using assms free_slots_empty_live[OF assms]
  by (simp add: mem_pool_destroy_def Let_def live_def pool_inv_def)

section \<open>The allocator as an interface\<close>

datatype 'r alloc_op = Acquire 'r | Release nat

primrec run_ops :: "('p \<Rightarrow> 'r \<Rightarrow> (nat \<times> 'p) res) \<Rightarrow> ('p \<Rightarrow> nat \<Rightarrow> 'p res) \<Rightarrow>
    'r alloc_op list \<Rightarrow> 'p \<Rightarrow> 'p res" where
  "run_ops alloc free [] p = Inr p"
| "run_ops alloc free (op # ops) p = (case op of
      Acquire r \<Rightarrow> bind_res (alloc p r) (\<lambda>(_, p'). run_ops alloc free ops p')
    | Release a \<Rightarrow> bind_res (free p a) (run_ops alloc free ops))"

primrec release_all :: "('p \<Rightarrow> nat \<Rightarrow> 'p res) \<Rightarrow> nat list \<Rightarrow> 'p \<Rightarrow> 'p res" where
  "release_all free [] p = Inr p"
| "release_all free (a # as) p = bind_res (free p a) (release_all free as)"

locale block_allocator =
  fixes alloc :: "'p \<Rightarrow> 'r \<Rightarrow> (nat \<times> 'p) res"
    and free :: "'p \<Rightarrow> nat \<Rightarrow> 'p res"
    and inv :: "'p \<Rightarrow> bool"
    and blocks :: "'p \<Rightarrow> pool_pair_t multiset"
    and admissible :: "'r \<Rightarrow> bool"
    and granted :: "'r \<Rightarrow> nat"
    and limit :: "'p \<Rightarrow> nat"
  assumes alloc_grants: "\<lbrakk>inv p; admissible r; alloc p r = Inr (a, p')\<rbrakk> \<Longrightarrow>
      inv p' \<and> blocks p' = add_mset (a, granted r) (blocks p) \<and> limit p' = limit p"
    and free_returns: "\<lbrakk>inv p; (a, s) \<in># blocks p\<rbrakk> \<Longrightarrow>
      \<exists>p'. free p a = Inr p' \<and> inv p' \<and> blocks p = add_mset (a, s) (blocks p') \<and> limit p' = limit p"
    and free_unknown: "a \<notin> fst ` set_mset (blocks p) \<Longrightarrow> free p a = Inl AssertFailed"
    and blocks_disjoint: "\<lbrakk>inv p; blocks p = add_mset b (add_mset c N)\<rbrakk> \<Longrightarrow> disjoint_blocks b c"
    and blocks_in_range: "\<lbrakk>inv p; b \<in># blocks p\<rbrakk> \<Longrightarrow> fst b + snd b \<le> limit p"
begin

lemma granted_fresh:
  assumes "inv p" "admissible r" "alloc p r = Inr (a, p')" "b \<in># blocks p"
  shows "disjoint_blocks (a, granted r) b \<and> a + granted r \<le> limit p"
proof -
  obtain N where "blocks p = add_mset b N" using assms(4) by (metis mset_add)
  with alloc_grants[OF assms(1-3)] blocks_disjoint[of p' "(a, granted r)" b N]
    blocks_in_range[of p' "(a, granted r)"] show ?thesis by simp
qed

lemma alloc_then_free:
  assumes "inv p" "admissible r" "alloc p r = Inr (a, p')"
  obtains p'' where "free p' a = Inr p''" "inv p''" "blocks p'' = blocks p" "limit p'' = limit p"
  using alloc_grants[OF assms] free_returns[of p' a "granted r"] by auto

lemma free_live_or_fault:
  assumes "inv p" "free p a = Inr p'"
  shows "inv p' \<and> limit p' = limit p \<and> (\<exists>s. blocks p = add_mset (a, s) (blocks p'))"
proof -
  have "a \<in> fst ` set_mset (blocks p)" using free_unknown[of a p] assms(2) by auto
  then obtain s where "(a, s) \<in># blocks p" by auto
  with free_returns[OF assms(1)] assms(2) show ?thesis by force
qed

lemma run_ops_inv:
  "\<lbrakk>inv p; \<forall>r. Acquire r \<in> set ops \<longrightarrow> admissible r; run_ops alloc free ops p = Inr p'\<rbrakk> \<Longrightarrow>
   inv p' \<and> limit p' = limit p"
proof (induction ops arbitrary: p)
  case (Cons op ops)
  show ?case
  proof (cases op)
    case (Acquire r)
    with Cons.prems obtain a q where q: "alloc p r = Inr (a, q)" "run_ops alloc free ops q = Inr p'"
      by (auto simp: result_simps)
    with alloc_grants[OF Cons.prems(1) _ q(1)] Cons.prems(2) Acquire Cons.IH[of q] show ?thesis by auto
  next
    case (Release a)
    with Cons.prems obtain q where q: "free p a = Inr q" "run_ops alloc free ops q = Inr p'"
      by (auto simp: result_simps)
    with free_live_or_fault[OF Cons.prems(1) q(1)] Cons.prems(2) Cons.IH[of q] show ?thesis by auto
  qed
qed simp

lemma release_all_ok:
  "\<lbrakk>inv p; mset as = image_mset fst (blocks p)\<rbrakk> \<Longrightarrow>
   \<exists>p'. release_all free as p = Inr p' \<and> inv p' \<and> blocks p' = {#}"
proof (induction as arbitrary: p)
  case (Cons a as)
  then have "a \<in># image_mset fst (blocks p)" by (metis list.set_intros(1) set_mset_mset)
  then obtain s where "(a, s) \<in># blocks p" by auto
  from free_returns[OF Cons.prems(1) this] obtain q where
    q: "free p a = Inr q" "inv q" "blocks p = add_mset (a, s) (blocks q)" by blast
  with Cons.IH[of q] Cons.prems(2) show ?case by simp
qed simp

end

text \<open>The two allocation entry points as the requests of one allocator.\<close>

datatype pool_request = AnyBank pool_size_t | OneBank pool_size_t

fun request_size :: "pool_request \<Rightarrow> pool_size_t" where
  "request_size (AnyBank sz) = sz"
| "request_size (OneBank sz) = sz"

fun pool_alloc :: "mem_pool \<Rightarrow> pool_request \<Rightarrow> (pool_addr_t \<times> mem_pool) res" where
  "pool_alloc pool (AnyBank sz) = mem_pool_alloc pool sz"
| "pool_alloc pool (OneBank sz) = mem_pool_alloc_in_bank pool sz"

lemma live_pairwise:
  assumes "pool_inv pool" "live pool = add_mset b (add_mset c N)"
  shows "disjoint_blocks b c"
  using tiles_disjoint[of "total_size pool" b "free_slots pool + add_mset c N" c]
    pool_inv_slots(1)[OF assms(1)] assms(2) by (simp add: slots_ok_def)

interpretation pool: block_allocator pool_alloc mem_pool_free pool_inv live
  "\<lambda>r. valid_request (request_size r)" "\<lambda>r. round_slot (request_size r)" total_size
proof (unfold_locales, goal_cases)
  case (1 p r a p')
  then show ?case
    by (cases r) (auto dest: mem_pool_alloc_ok mem_pool_alloc_in_bank_ok)
next
  case (2 p a s)
  then show ?case by (rule mem_pool_free_ok)
next
  case (3 a p)
  then show ?case by (rule mem_pool_free_unknown)
next
  case (4 p b c N)
  then show ?case by (rule live_pairwise)
next
  case (5 p b)
  then show ?case using slots_ok_block(2)[OF pool_inv_slots(1), of p b] by simp
qed

section \<open>Properties\<close>

text \<open>A 64 KiB pool, for the concrete instances below.\<close>

lemma pool64k:
  "pool_inv (mem_pool_create 65536)" "live (mem_pool_create 65536) = {#}"
  "total_size (mem_pool_create 65536) = 65536" "free_slots (mem_pool_create 65536) = {#(0, 65536)#}"
proof -
  have "0 < (65536::nat)" "65536 < M64" "MIN_SLOT_SIZE dvd 65536"
    by (simp_all add: M64_def MIN_SLOT_SIZE_def)
  from mem_pool_create_inv[OF this]
  show "pool_inv (mem_pool_create 65536)" "live (mem_pool_create 65536) = {#}"
    "total_size (mem_pool_create 65536) = 65536" by simp_all
  show "free_slots (mem_pool_create 65536) = {#(0, 65536)#}"
    by (simp add: free_slots_def mem_pool_create_def mem_pool_init_def Let_def)
qed

lemma request4k: "valid_request 4096" "valid_request 5000" "round_slot 4096 = 4096" "round_slot 5000 = 8192"
  by (simp_all add: valid_request_def round_slot_def add64_def sub64_def mul64_def M64_def MIN_SLOT_SIZE_def)

lemmas pool_eval = mem_pool_alloc_def mem_pool_alloc_in_bank_def mem_pool_free_def alloc_with_def
  Let_def mem_pool_create_def mem_pool_init_def find_slot_def assert_res_def MIN_SLOT_SIZE_def
  MEM_POOL_SLOT_NUM_def MEM_POOL_ADDR_INVALID_def add64_def sub64_def mul64_def M64_def
  take_slot_front_def take_slot_back_def map_insert_def merge_slot_def offset_prev_finder_def
  offset_next_finder_def erase_at_def round_slot_def find_slot_in_bank_def slot_in_bank_def BANK_SIZE_def

lemma invalid_unaligned: "MIN_SLOT_SIZE dvd a \<Longrightarrow> a \<noteq> MEM_POOL_ADDR_INVALID"
  by (auto simp: MIN_SLOT_SIZE_def MEM_POOL_ADDR_INVALID_def)

lemma mem_pool_alloc_at:
  assumes inv: "pool_inv pool" and v: "valid_request sz" and n: "size (live pool) < 16384"
    and i: "find_slot_loop (round_slot sz) (slot_avail (mem_pool_list0 pool)) 0 None 0 = Some i"
      "i < length (slot_avail (mem_pool_list0 pool))" "round_slot sz \<le> snd (slot_avail (mem_pool_list0 pool) ! i)"
  shows "\<exists>pool'. mem_pool_alloc pool sz = Inr (fst (slot_avail (mem_pool_list0 pool) ! i), pool')"
proof -
  note r = round_slot_bounds[OF v] and s = pool_inv_slots[OF inv]
  let ?b = "slot_avail (mem_pool_list0 pool) ! i"
  have b: "?b \<in># free_slots pool" using i(2) by (simp add: free_slots_def)
  have num: "num_slots_in_use (mem_pool_list0 pool) < MEM_POOL_SLOT_NUM"
    using inv n by (simp add: pool_inv_def Let_def live_def MEM_POOL_SLOT_NUM_def)
  have ok: "block_ok ?b" "fst ?b + snd ?b \<le> total_size pool" using slots_ok_block[OF s(1), of ?b] b by auto
  moreover have "round_slot sz mod MIN_SLOT_SIZE = 0" using r(3) by auto
  moreover have "fst ?b \<noteq> MEM_POOL_ADDR_INVALID" using ok(1) invalid_unaligned by (simp add: block_ok_def)
  moreover have "add64 (fst ?b) (round_slot sz) \<le> total_size pool"
    using ok(2) i(3) s(2) by (simp add: u64_simps)
  ultimately show ?thesis using i(1) num
    by (simp add: mem_pool_alloc_def alloc_with_def Let_def find_slot_def block_ok_def)
qed

lemma mem_pool_alloc_none:
  assumes inv: "pool_inv pool" and v: "valid_request sz"
    and none: "find_slot_loop (round_slot sz) (slot_avail (mem_pool_list0 pool)) 0 None 0 = None"
  shows "mem_pool_alloc pool sz = Inl AssertFailed"
  using none round_slot_bounds(3)[OF v]
  by (simp add: mem_pool_alloc_def alloc_with_def Let_def find_slot_def assert_res_def dvd_eq_mod_eq_0)

text \<open>
  C4: a successful allocation, through \<^verbatim>\<open>mem_pool_alloc\<close> or \<^verbatim>\<open>mem_pool_alloc_in_bank\<close>, returns a
  page-aligned block of the rounded size inside the pool, disjoint from every block already
  handed out, and changes the set of live blocks by exactly that block.
\<close>

theorem pool_alloc_sound:
  assumes "pool_inv pool" "valid_request (request_size r)" "pool_alloc pool r = Inr (a, pool')"
  shows "pool_inv pool' \<and> live pool' = add_mset (a, round_slot (request_size r)) (live pool) \<and>
    request_size r \<le> round_slot (request_size r) \<and>
    round_slot (request_size r) < request_size r + MIN_SLOT_SIZE \<and>
    MIN_SLOT_SIZE dvd a \<and> a + round_slot (request_size r) \<le> total_size pool \<and>
    (\<forall>b\<in>#live pool. disjoint_blocks (a, round_slot (request_size r)) b)"
proof -
  note g = pool.alloc_grants[OF assms]
  then have in': "(a, round_slot (request_size r)) \<in># live pool'" by simp
  with g have "block_ok (a, round_slot (request_size r))"
    using slots_ok_block(1)[OF pool_inv_slots(1), of pool'] by (metis union_iff)
  moreover have "a + round_slot (request_size r) \<le> total_size pool"
    using pool.blocks_in_range[OF _ in'] g by simp
  ultimately show ?thesis using g round_slot_bounds[OF assms(2)] pool.granted_fresh[OF assms]
    by (simp add: block_ok_def)
qed

theorem pool_alloc_sound_witness:
  "\<exists>pool'. pool_alloc (mem_pool_create 65536) (AnyBank 5000) = Inr (0, pool') \<and>
     live pool' = {#(0, 8192)#} \<and> pool_inv pool'"
proof -
  obtain pool' where p: "pool_alloc (mem_pool_create 65536) (AnyBank 5000) = Inr (0, pool')"
    by (simp add: pool_eval)
  from pool_alloc_sound[OF pool64k(1) _ p] p show ?thesis by (simp add: pool64k(2) request4k)
qed

text \<open>
  C33: \<^verbatim>\<open>mem_pool_alloc\<close> is best fit and fails only for want of space: it succeeds exactly when a
  slot number is left and some free slot is large enough, and then it takes the start of a
  smallest sufficient slot; otherwise its assertion fires.
\<close>

theorem mem_pool_alloc_best_fit:
  assumes "pool_inv pool" "valid_request sz"
  shows "if size (live pool) < 16384 \<and> (\<exists>b\<in>#free_slots pool. round_slot sz \<le> snd b)
    then \<exists>a s pool'. mem_pool_alloc pool sz = Inr (a, pool') \<and> (a, s) \<in># free_slots pool \<and>
           round_slot sz \<le> s \<and> (\<forall>b\<in>#free_slots pool. round_slot sz \<le> snd b \<longrightarrow> s \<le> snd b)
    else mem_pool_alloc pool sz = Inl AssertFailed"
proof -
  let ?av = "slot_avail (mem_pool_list0 pool)" and ?k = "round_slot sz"
  note inv = assms(1)
  have pos: "\<forall>s\<in>set ?av. 0 < snd s"
    using slots_ok_block(1)[OF pool_inv_slots(3)[OF inv]] by (auto simp: block_ok_def)
  note bf = find_slot_loop_start[OF pos, of ?k]
  have full: "mem_pool_alloc pool sz = Inl AssertFailed" if "\<not> size (live pool) < 16384"
    using that inv by (simp add: mem_pool_alloc_def alloc_with_def Let_def pool_inv_def live_def
        MEM_POOL_SLOT_NUM_def assert_res_def)
  show ?thesis
  proof (cases "find_slot_loop ?k ?av 0 None 0")
    case None
    with bf have "\<not> (\<exists>b\<in>#free_slots pool. ?k \<le> snd b)" by (auto simp: best_fit_def free_slots_def not_le)
    with mem_pool_alloc_none[OF assms None] show ?thesis by simp
  next
    case (Some i)
    with bf have i: "i < length ?av" "?k \<le> snd (?av ! i)"
      and least: "b \<in># free_slots pool \<Longrightarrow> ?k \<le> snd b \<Longrightarrow> snd (?av ! i) \<le> snd b" for b
      by (auto simp: best_fit_def free_slots_def in_set_conv_nth)
    from i(1) have mem: "?av ! i \<in># free_slots pool" by (simp add: free_slots_def)
    with i mem_pool_alloc_at[OF assms _ Some i] full least show ?thesis
      by (smt (verit) prod.collapse)
  qed
qed

theorem mem_pool_alloc_best_fit_witness:
  "\<exists>a s pool'. mem_pool_alloc (mem_pool_create 65536) 4096 = Inr (a, pool') \<and>
     (a, s) \<in># free_slots (mem_pool_create 65536)"
  using mem_pool_alloc_best_fit[OF pool64k(1) request4k(1)] by (simp add: pool64k request4k)

text \<open>
  C23: releasing a block that was just allocated succeeds and brings the pool back to the same
  live blocks and the same free slots (up to their order in the vector), whichever search was
  used and however the slot was split.
\<close>

theorem pool_alloc_free_roundtrip:
  assumes "pool_inv pool" "valid_request (request_size r)" "pool_alloc pool r = Inr (a, pool')"
  shows "\<exists>pool''. mem_pool_free pool' a = Inr pool'' \<and> pool_inv pool'' \<and>
    live pool'' = live pool \<and> free_slots pool'' = free_slots pool"
proof -
  obtain q where q: "mem_pool_free pool' a = Inr q" "pool_inv q" "live q = live pool"
    "total_size q = total_size pool" by (rule pool.alloc_then_free[OF assms])
  then have "free_slots q = free_slots pool"
    using slots_ok_unique[OF pool_inv_slots(1)[OF q(2)]] pool_inv_slots(1)[OF assms(1)] by simp
  with q show ?thesis by blast
qed

theorem pool_alloc_free_roundtrip_witness:
  "\<exists>pool' pool''. pool_alloc (mem_pool_create 65536) (OneBank 5000) = Inr (0, pool') \<and>
     mem_pool_free pool' 0 = Inr pool'' \<and> free_slots pool'' = {#(0, 65536)#}"
proof -
  obtain pool' where p: "pool_alloc (mem_pool_create 65536) (OneBank 5000) = Inr (0, pool')"
    by (simp add: pool_eval)
  from pool_alloc_free_roundtrip[OF pool64k(1) _ p] p show ?thesis by (auto simp: pool64k request4k)
qed

text \<open>
  C34: for a pool created with a positive page-aligned size, after any sequence of allocations
  and releases that returned, the blocks still live can be released in any order, every release
  succeeds, and \<^verbatim>\<open>mem_pool_destroy\<close> then passes all its assertions: no sequence leaks or
  fragments the pool beyond recovery.
\<close>

theorem pool_lifecycle:
  assumes "0 < T" "T < M64" "MIN_SLOT_SIZE dvd T"
    "\<forall>r. Acquire r \<in> set ops \<longrightarrow> valid_request (request_size r)"
    "run_ops pool_alloc mem_pool_free ops (mem_pool_create T) = Inr pool"
    "mset addrs = image_mset fst (live pool)"
  shows "\<exists>pool'. release_all mem_pool_free addrs pool = Inr pool' \<and> mem_pool_destroy pool' = Inr ()"
proof -
  from pool.run_ops_inv[OF mem_pool_create_inv(1)[OF assms(1-3)] assms(4,5)] have "pool_inv pool" by simp
  from pool.release_all_ok[OF this assms(6)] mem_pool_destroy_ok show ?thesis by blast
qed

theorem pool_lifecycle_witness:
  "\<exists>pool pool'. run_ops pool_alloc mem_pool_free
       [Acquire (AnyBank 5000), Acquire (OneBank 4096), Release 0] (mem_pool_create 65536) = Inr pool \<and>
     release_all mem_pool_free [8192] pool = Inr pool' \<and> mem_pool_destroy pool' = Inr ()"
proof -
  let ?ops = "[Acquire (AnyBank 5000), Acquire (OneBank 4096), Release 0]"
  obtain pool where p: "run_ops pool_alloc mem_pool_free ?ops (mem_pool_create 65536) = Inr pool"
    "live pool = {#(8192, 4096)#}" by (simp add: pool_eval live_def)
  have "\<exists>pool'. release_all mem_pool_free [8192] pool = Inr pool' \<and> mem_pool_destroy pool' = Inr ()"
    by (rule pool_lifecycle[OF _ _ _ _ p(1)]) (auto simp: p(2) request4k M64_def MIN_SLOT_SIZE_def)
  with p(1) show ?thesis by blast
qed

text \<open>
  In a pool that satisfies the invariant the free slots are the gaps between the live blocks.
\<close>

lemma inv_free_slots_gaps:
  assumes "pool_inv pool"
  shows "set (slot_avail (mem_pool_list0 pool)) = {b. is_gap (total_size pool) (live pool) b} \<and> distinct (slot_avail (mem_pool_list0 pool))"
proof -
  note s = pool_inv_slots(1)[OF assms]
  have "distinct (slot_avail (mem_pool_list0 pool))"
    using slots_ok_count[OF s] by (auto simp: distinct_count_atmost_1 free_slots_def not_in_iff[symmetric])
  then show ?thesis using slots_ok_gaps[OF s] by (auto simp: free_slots_def)
qed

text \<open>
  C35: for a pool created with a positive page-aligned size, after any sequence of allocations of either kind
  and releases that returned, the vector of free slots holds exactly the maximal address ranges of the
  pool that no live block covers, each once: an allocation cuts no more than it returns and a
  release merges its block completely with both neighbours.
\<close>

theorem free_slots_are_gaps:
  assumes "0 < T" "T < M64" "MIN_SLOT_SIZE dvd T"
    "\<forall>r. Acquire r \<in> set ops \<longrightarrow> valid_request (request_size r)"
    "run_ops pool_alloc mem_pool_free ops (mem_pool_create T) = Inr pool"
  shows "set (slot_avail (mem_pool_list0 pool)) = {b. is_gap T (live pool) b} \<and> distinct (slot_avail (mem_pool_list0 pool))"
proof -
  from pool.run_ops_inv[OF mem_pool_create_inv(1)[OF assms(1-3)] assms(4,5)] have "pool_inv pool" "total_size pool = T"
    using mem_pool_create_inv(3)[OF assms(1-3)] by simp_all
  with inv_free_slots_gaps[of pool] show ?thesis by simp
qed

theorem free_slots_are_gaps_witness:
  "\<exists>pool. run_ops pool_alloc mem_pool_free
       [Acquire (AnyBank 5000), Acquire (OneBank 4096), Acquire (AnyBank 1), Release 0, Release 12288] (mem_pool_create 65536) = Inr pool \<and>
     set (slot_avail (mem_pool_list0 pool)) = {(12288, 53248), (0, 8192)} \<and> {b. is_gap 65536 {#(8192, 4096)#} b} = {(12288, 53248), (0, 8192)}"
proof -
  let ?ops = "[Acquire (AnyBank 5000), Acquire (OneBank 4096), Acquire (AnyBank 1), Release 0, Release 12288]"
  obtain pool where p: "run_ops pool_alloc mem_pool_free ?ops (mem_pool_create 65536) = Inr pool"
    "live pool = {#(8192, 4096)#}" "set (slot_avail (mem_pool_list0 pool)) = {(12288, 53248), (0, 8192)}" by (simp add: pool_eval live_def)
  have "set (slot_avail (mem_pool_list0 pool)) = {b. is_gap 65536 (live pool) b} \<and> distinct (slot_avail (mem_pool_list0 pool))"
    by (rule free_slots_are_gaps[OF _ _ _ _ p(1)]) (auto simp: request4k M64_def MIN_SLOT_SIZE_def valid_request_def)
  with p show ?thesis by auto
qed

text \<open>
  A block returned by \<^verbatim>\<open>mem_pool_alloc_in_bank\<close> never crosses a boundary between 2 GiB banks
  (for pools whose size stays one bank below the 64-bit limit).
\<close>

lemma alloc_in_bank_one_bank:
  assumes "pool_inv pool" "total_size pool + BANK_SIZE \<le> M64" "valid_request sz"
    "mem_pool_alloc_in_bank pool sz = Inr (a, pool')"
  shows "a div BANK_SIZE = (a + round_slot sz - 1) div BANK_SIZE"
proof -
  note ok = mem_pool_alloc_in_bank_ok[OF assms(1,3,4)]
  have "(a, round_slot sz) \<in># live pool'" using ok by simp
  then have "a + round_slot sz \<le> total_size pool" using pool.blocks_in_range[of pool'] ok by fastforce
  then have "a mod BANK_SIZE + round_slot sz < M64"
    using assms(2) mod_less_divisor[of BANK_SIZE a] by (simp add: BANK_SIZE_def)
  with ok(2) have fits: "a mod BANK_SIZE + round_slot sz \<le> BANK_SIZE"
    by (simp add: slot_in_bank_def u64_simps)
  have "a + round_slot sz - 1 = (a mod BANK_SIZE + round_slot sz - 1) + BANK_SIZE * (a div BANK_SIZE)"
    using mult_div_mod_eq[of BANK_SIZE a] round_slot_bounds(4)[OF assms(3)] by linarith
  then have "(a + round_slot sz - 1) div BANK_SIZE = (a mod BANK_SIZE + round_slot sz - 1) div BANK_SIZE + a div BANK_SIZE"
    by (simp add: BANK_SIZE_def)
  with fits round_slot_bounds(4)[OF assms(3)] show ?thesis by (simp add: BANK_SIZE_def)
qed

lemma alloc_in_bank_one_bank_witness:
  "\<exists>pool'. mem_pool_alloc_in_bank (mem_pool_create 65536) 5000 = Inr (0, pool') \<and>
     0 div BANK_SIZE = (0 + round_slot 5000 - 1) div BANK_SIZE"
proof -
  obtain pool' where p: "mem_pool_alloc_in_bank (mem_pool_create 65536) 5000 = Inr (0, pool')"
    by (simp add: pool_eval)
  from alloc_in_bank_one_bank[OF pool64k(1) _ request4k(2) p] p show ?thesis
    by (simp add: pool64k M64_def BANK_SIZE_def)
qed

text \<open>
  A request of zero bytes breaks the pool: the address it returns is handed out again by the
  next request, and because \<^verbatim>\<open>std::map::insert\<close> keeps the zero-size entry, releasing that second
  block gives nothing back, so its page is lost.
\<close>

lemma zero_size_alloc_loses_page:
  "\<exists>p1 p2 p3. mem_pool_alloc (mem_pool_create 65536) 0 = Inr (0, p1) \<and>
     mem_pool_alloc p1 4096 = Inr (0, p2) \<and> mem_pool_free p2 0 = Inr p3 \<and>
     live p3 = {#} \<and> covers (free_slots p3) 0 = 0 \<and> mem_pool_destroy p3 = Inl AssertFailed"
  by (simp add: pool_eval live_def free_slots_def mem_pool_destroy_def block_covers_def)

end
