(* ===== verification/RingQueue.thy ===== *)
theory RingQueue
  imports CviPrelude
begin

text \<open>
  The bounded task queue of \<^verbatim>\<open>include/runtime/taskpool.hpp\<close> (class \<^verbatim>\<open>RingQueue\<close>): a ring over a
  vector with 32-bit head, tail and length.  \<^verbatim>\<open>put\<close> and \<^verbatim>\<open>get\<close> hold the queue's mutex, so the
  bodies below their wait loops are atomic functions; the wait loops and the condition
  variables are part of the thread model in theory \<^verbatim>\<open>TaskPool\<close>, which uses the tests
  \<open>rq_full\<close>, \<open>rq_empty\<close> and \<open>rq_get_notifies\<close> given here.
\<close>

section \<open>State and operations\<close>

text \<open>A \<^verbatim>\<open>Task *\<close> is an option here, \<^const>\<open>None\<close> for \<^verbatim>\<open>nullptr\<close>, the mark of a terminate task.\<close>

record 'a ring_queue =
  q_capacity :: u32
  q_head :: u32
  q_tail :: u32
  q_length :: u32
  q_slots :: "'a option list"

definition RingQueue_new :: "u32 \<Rightarrow> 'a ring_queue" where
  "RingQueue_new capacity = \<lparr>q_capacity = capacity, q_head = 0, q_tail = 0, q_length = 0,
     q_slots = replicate capacity None\<rparr>"

text \<open>\<^verbatim>\<open>move\<close>: increment modulo the capacity.\<close>

definition rq_move :: "u32 \<Rightarrow> u32 \<Rightarrow> u32" where
  "rq_move capacity index = add32 index 1 mod capacity"

text \<open>The condition of the wait loop of \<^verbatim>\<open>put\<close>.\<close>

definition rq_full :: "'a ring_queue \<Rightarrow> bool" where
  "rq_full q \<longleftrightarrow> sub32 (q_capacity q) (q_length q) \<le> 1"

definition rq_put :: "'a option \<Rightarrow> 'a ring_queue \<Rightarrow> 'a ring_queue" where
  "rq_put task q = q\<lparr>q_slots := (q_slots q)[q_tail q := task],
     q_tail := rq_move (q_capacity q) (q_tail q),
     q_length := add32 (q_length q) 1\<rparr>"

text \<open>The condition of the wait loop of \<^verbatim>\<open>get\<close>, and its test for notifying a producer.\<close>

definition rq_empty :: "'a ring_queue \<Rightarrow> bool" where
  "rq_empty q \<longleftrightarrow> q_length q = 0"

definition rq_get_notifies :: "'a ring_queue \<Rightarrow> bool" where
  "rq_get_notifies q \<longleftrightarrow> sub32 (q_capacity q) (q_length q) = 1"

definition rq_get :: "'a ring_queue \<Rightarrow> ('a option \<times> 'a ring_queue) res" where
  "rq_get q = (if q_head q < length (q_slots q)
    then Inr (q_slots q ! q_head q, q\<lparr>q_head := rq_move (q_capacity q) (q_head q),
                                      q_length := sub32 (q_length q) 1\<rparr>)
    else Inl OutOfRange)"

section \<open>Invariant and abstraction\<close>

definition rq_inv :: "'a ring_queue \<Rightarrow> bool" where
  "rq_inv q \<longleftrightarrow> 2 \<le> q_capacity q \<and> q_capacity q < M32 \<and>
     length (q_slots q) = q_capacity q \<and> q_head q < q_capacity q \<and>
     q_length q < q_capacity q \<and> q_tail q = (q_head q + q_length q) mod q_capacity q"

definition rq_elems :: "'a ring_queue \<Rightarrow> 'a option list" where
  "rq_elems q = map (\<lambda>k. q_slots q ! ((q_head q + k) mod q_capacity q)) [0..<q_length q]"

lemma rq_move_eq: "i < c \<Longrightarrow> c < M32 \<Longrightarrow> rq_move c i = (i + 1) mod c"
  by (simp add: rq_move_def u64_simps)

lemma rq_new_inv: "2 \<le> n \<Longrightarrow> n < M32 \<Longrightarrow> rq_inv (RingQueue_new n) \<and> rq_elems (RingQueue_new n) = []"
  by (simp add: rq_inv_def RingQueue_new_def rq_elems_def)

lemma length_rq_elems [simp]: "length (rq_elems q) = q_length q"
  by (simp add: rq_elems_def)

lemma rq_full_iff: "rq_inv q \<Longrightarrow> rq_full q \<longleftrightarrow> q_length q + 1 = q_capacity q"
  by (auto simp: rq_full_def rq_inv_def u64_simps)

lemma rq_get_notifies_iff: "rq_inv q \<Longrightarrow> rq_get_notifies q \<longleftrightarrow> rq_full q"
  by (auto simp: rq_full_def rq_get_notifies_def rq_inv_def u64_simps)

lemma rq_empty_iff: "rq_empty q \<longleftrightarrow> rq_elems q = []"
  by (simp add: rq_empty_def rq_elems_def)

lemma rq_put_ok:
  assumes inv: "rq_inv q" and room: "\<not> rq_full q"
  shows "rq_inv (rq_put x q) \<and> rq_elems (rq_put x q) = rq_elems q @ [x] \<and>
         q_capacity (rq_put x q) = q_capacity q"
proof -
  let ?c = "q_capacity q" and ?h = "q_head q" and ?n = "q_length q"
  have b: "?n + 1 < ?c" "?c < M32" "?h < ?c" "length (q_slots q) = ?c" "q_tail q = (?h + ?n) mod ?c"
    using inv room by (auto simp: rq_full_iff rq_inv_def)
  have t: "rq_move ?c (q_tail q) = (?h + (?n + 1)) mod ?c"
    using b by (subst rq_move_eq) (auto simp: mod_Suc_eq)
  have n: "add32 ?n 1 = ?n + 1" using b by (simp add: u64_simps)
  have "(q_slots q)[q_tail q := x] ! ((?h + k) mod ?c) = q_slots q ! ((?h + k) mod ?c)" if "k < ?n" for k
    using ring_cell_inj[of ?h k ?c ?n] that b by (auto simp: nth_list_update)
  moreover have "(q_slots q)[q_tail q := x] ! ((?h + ?n) mod ?c) = x"
    using b by (simp add: nth_list_update)
  ultimately have "rq_elems (rq_put x q) = rq_elems q @ [x]"
    by (simp add: rq_elems_def rq_put_def n[simplified])
  then show ?thesis using b t n by (simp add: rq_inv_def rq_put_def del: One_nat_def)
qed

lemma rq_get_ok:
  assumes inv: "rq_inv q" and ne: "\<not> rq_empty q"
  shows "\<exists>q'. rq_get q = Inr (hd (rq_elems q), q') \<and> rq_inv q' \<and> rq_elems q' = tl (rq_elems q) \<and>
         q_capacity q' = q_capacity q"
proof -
  let ?c = "q_capacity q" and ?h = "q_head q" and ?n = "q_length q"
  have b: "0 < ?n" "?n < ?c" "?c < M32" "?h < ?c" "length (q_slots q) = ?c" "2 \<le> ?c"
    "q_tail q = (?h + ?n) mod ?c"
    using inv ne by (auto simp: rq_empty_def rq_inv_def)
  obtain m where m: "?n = Suc m" using b(1) by (cases ?n) auto
  have n: "sub32 ?n 1 = m" using m by (simp add: u64_simps)
  have h: "rq_move ?c ?h = Suc ?h mod ?c" using b by (simp add: rq_move_eq)
  have e: "rq_elems q = q_slots q ! ?h # map (\<lambda>k. q_slots q ! ((?h + Suc k) mod ?c)) [0..<m]"
    using b m by (simp add: rq_elems_def upt_conv_Cons map_Suc_upt[symmetric] del: upt_Suc)
  have tl: "rq_elems (q\<lparr>q_head := Suc ?h mod ?c, q_length := m\<rparr>) = tl (rq_elems q)"
    unfolding e by (simp add: rq_elems_def mod_add_left_eq)
  show ?thesis using b m n h tl e by (simp add: rq_get_def rq_inv_def mod_add_left_eq)
qed

lemmas rq_eval = RingQueue_new_def rq_put_def rq_get_def rq_full_def rq_empty_def rq_get_notifies_def
  rq_move_def add32_def sub32_def M32_def

section \<open>The queue as an interface\<close>

text \<open>
  What the task pool relies on: on a well-formed queue a \<^verbatim>\<open>put\<close> that does not have to wait
  appends, and a \<^verbatim>\<open>get\<close> that does not have to wait takes the oldest element.
\<close>

datatype 'x queue_op = QPut 'x | QGet

primrec run_queue :: "('x \<Rightarrow> 'q \<Rightarrow> 'q) \<Rightarrow> ('q \<Rightarrow> ('x \<times> 'q) res) \<Rightarrow> ('q \<Rightarrow> bool) \<Rightarrow> ('q \<Rightarrow> bool) \<Rightarrow>
    'x queue_op list \<Rightarrow> 'q \<Rightarrow> ('x list \<times> 'q) option" where
  "run_queue put get is_full is_empty [] q = Some ([], q)"
| "run_queue put get is_full is_empty (op # ops) q = (case op of
      QPut x \<Rightarrow> if is_full q then None else run_queue put get is_full is_empty ops (put x q)
    | QGet \<Rightarrow> if is_empty q then None else (case get q of
          Inl _ \<Rightarrow> None
        | Inr (x, q') \<Rightarrow> map_option (\<lambda>(xs, r). (x # xs, r)) (run_queue put get is_full is_empty ops q')))"

definition puts_of :: "'x queue_op list \<Rightarrow> 'x list" where
  "puts_of ops = concat (map (\<lambda>op. case op of QPut x \<Rightarrow> [x] | QGet \<Rightarrow> []) ops)"

locale bounded_fifo =
  fixes put :: "'x \<Rightarrow> 'q \<Rightarrow> 'q"
    and get :: "'q \<Rightarrow> ('x \<times> 'q) res"
    and is_full :: "'q \<Rightarrow> bool"
    and is_empty :: "'q \<Rightarrow> bool"
    and inv :: "'q \<Rightarrow> bool"
    and elems :: "'q \<Rightarrow> 'x list"
    and bound :: "'q \<Rightarrow> nat"
  assumes put_appends: "\<lbrakk>inv q; \<not> is_full q\<rbrakk> \<Longrightarrow> inv (put x q) \<and> elems (put x q) = elems q @ [x] \<and> bound (put x q) = bound q"
    and get_takes: "\<lbrakk>inv q; \<not> is_empty q\<rbrakk> \<Longrightarrow>
      \<exists>q'. get q = Inr (hd (elems q), q') \<and> inv q' \<and> elems q' = tl (elems q) \<and> bound q' = bound q"
    and empty_iff: "inv q \<Longrightarrow> is_empty q \<longleftrightarrow> elems q = []"
    and full_iff: "inv q \<Longrightarrow> is_full q \<longleftrightarrow> length (elems q) = bound q"
    and bounded: "inv q \<Longrightarrow> length (elems q) \<le> bound q"
begin

lemma run_fifo:
  "inv q \<Longrightarrow> run_queue put get is_full is_empty ops q = Some (out, q') \<Longrightarrow>
   inv q' \<and> out @ elems q' = elems q @ puts_of ops \<and> bound q' = bound q"
proof (induction ops arbitrary: q out)
  case Nil
  then show ?case by (simp add: puts_of_def)
next
  case (Cons op ops)
  show ?case
  proof (cases op)
    case (QPut x)
    with Cons.prems put_appends[of q x] Cons.IH[of "put x q" out] show ?thesis
      by (auto simp: puts_of_def split: if_splits)
  next
    case QGet
    with Cons.prems have ne: "\<not> is_empty q" by (auto split: if_splits)
    from get_takes[OF Cons.prems(1) ne] obtain p where
      p: "get q = Inr (hd (elems q), p)" "inv p" "elems p = tl (elems q)" "bound p = bound q" by blast
    with Cons.prems QGet ne obtain xs where xs: "run_queue put get is_full is_empty ops p = Some (xs, q')"
      "out = hd (elems q) # xs" by auto
    from Cons.IH[OF p(2) xs(1)] p xs ne empty_iff[OF Cons.prems(1)] QGet show ?thesis
      by (auto simp: puts_of_def hd_Cons_tl)
  qed
qed

lemma run_fits:
  "\<lbrakk>inv q; length (elems q) + length xs \<le> bound q\<rbrakk> \<Longrightarrow>
   \<exists>q'. run_queue put get is_full is_empty (map QPut xs) q = Some ([], q') \<and> elems q' = elems q @ xs"
proof (induction xs arbitrary: q)
  case (Cons x xs)
  have "\<not> is_full q" using full_iff[OF Cons.prems(1)] Cons.prems(2) by simp
  with put_appends[OF Cons.prems(1), of x] Cons.IH[of "put x q"] Cons.prems(2) show ?case by simp
qed simp

end

interpretation ring: bounded_fifo rq_put rq_get rq_full rq_empty rq_inv rq_elems "\<lambda>q. q_capacity q - 1"
proof (unfold_locales, goal_cases)
  case (1 q x)
  then show ?case using rq_put_ok[of q x] by simp
next
  case (2 q)
  then show ?case using rq_get_ok[of q] by auto
next
  case (3 q)
  then show ?case by (simp add: rq_empty_iff)
next
  case (4 q)
  then show ?case by (auto simp: rq_full_iff rq_inv_def)
next
  case (5 q)
  then show ?case by (auto simp: rq_inv_def)
qed

lemma replicate3: "replicate 3 x = [x, x, x]"
  by (simp add: numeral_3_eq_3)

text \<open>
  C22: the ring buffer is a first-in first-out queue of capacity minus one elements: along any
  sequence of \<^verbatim>\<open>put\<close> and \<^verbatim>\<open>get\<close> that never has to wait, the tasks taken out followed by the tasks
  left in the ring are the tasks put in, in order, through every wrap-around of head and tail.
\<close>

theorem ring_queue_fifo:
  assumes "2 \<le> n" "n < M32" "run_queue rq_put rq_get rq_full rq_empty ops (RingQueue_new n) = Some (out, q)"
  shows "out @ rq_elems q = puts_of ops \<and> q_length q \<le> n - 1 \<and> rq_inv q"
proof -
  have new: "rq_inv (RingQueue_new n)" "rq_elems (RingQueue_new n) = []" using rq_new_inv[of n] assms by auto
  from ring.run_fifo[OF new(1) assms(3)] new(2) have
    r: "rq_inv q" "out @ rq_elems q = puts_of ops" "q_capacity q - 1 = n - 1" by (auto simp: RingQueue_new_def)
  with ring.bounded[OF r(1)] show ?thesis by simp
qed

theorem ring_queue_fifo_witness:
  "run_queue rq_put rq_get rq_full rq_empty
     [QPut (Some 1), QPut (Some (2::nat)), QGet, QPut None, QGet, QPut (Some 3), QGet, QGet] (RingQueue_new 3) =
     Some ([Some 1, Some 2, None, Some 3],
       \<lparr>q_capacity = 3, q_head = 1, q_tail = 1, q_length = 0, q_slots = [Some 3, Some 2, None]\<rparr>) \<and>
   [Some 1, Some 2, None, Some 3] = puts_of [QPut (Some 1), QPut (Some (2::nat)), QGet, QPut None, QGet, QPut (Some 3), QGet, QGet]"
proof -
  let ?ops = "[QPut (Some 1), QPut (Some (2::nat)), QGet, QPut None, QGet, QPut (Some 3), QGet, QGet]"
  have r: "run_queue rq_put rq_get rq_full rq_empty ?ops (RingQueue_new 3) =
     Some ([Some 1, Some 2, None, Some 3],
       \<lparr>q_capacity = 3, q_head = 1, q_tail = 1, q_length = 0, q_slots = [Some 3, Some 2, None]\<rparr>)"
    by (simp add: rq_eval replicate3)
  from ring_queue_fifo[OF _ _ r] r show ?thesis by (simp add: rq_elems_def M32_def)
qed

end
