(* ===== verification/TaskPool.thy ===== *)
theory TaskPool
  imports RingQueue
begin

text \<open>
  The worker pool behind asynchronous inference (\<^verbatim>\<open>src/common/taskpool.cpp\<close>,
  \<^verbatim>\<open>include/runtime/taskpool.hpp\<close>, with \<^verbatim>\<open>Program::forwardAsync\<close> and \<^verbatim>\<open>forwardWait\<close> of
  \<^verbatim>\<open>src/common/program.cpp\<close>) as a transition system of threads.  A thread is its program counter;
  one step is one critical section, one access to an atomic or one call.  A thread inside
  \<^verbatim>\<open>condition_variable::wait\<close> has a \<open>Blocked\<close> program counter and moves only when a notification
  picks it; the thread picked by \<^verbatim>\<open>notify_one\<close> is a choice of the step.  \<^verbatim>\<open>Program::forward\<close> is a
  parameter, the outcome of each task.
\<close>

section \<open>State\<close>

datatype pc =
    CIdle | CStart | CLock | CSpawn nat | CSpin | CNew | CPut nat | CPutBlocked nat
  | CSubmitted nat | CWait nat | CWaitBlocked nat | CDone nat cvi_rc
  | WEntry | WLoop | WGet | WGetBlocked | WRun nat | WNotify nat | WExit
  | DStart | DPut nat | DPutBlocked nat | DJoin | DEnd

record task_pool =
  tp_pool_size :: nat
  tp_queue :: "nat ring_queue"
  tp_started :: bool
  tp_done :: bool
  tp_mutex :: "nat option"
  tp_ret :: "cvi_rc list"
  tp_threads :: "pc list"

fun is_worker :: "pc \<Rightarrow> bool" where
  "is_worker WEntry = True" | "is_worker WLoop = True" | "is_worker WGet = True"
| "is_worker WGetBlocked = True" | "is_worker (WRun t) = True" | "is_worker (WNotify t) = True"
| "is_worker WExit = True" | "is_worker _ = False"

fun is_put_blocked :: "pc \<Rightarrow> bool" where
  "is_put_blocked (CPutBlocked t) = True" | "is_put_blocked (DPutBlocked k) = True"
| "is_put_blocked _ = False"

definition is_get_blocked :: "pc \<Rightarrow> bool" where
  "is_get_blocked p \<longleftrightarrow> p = WGetBlocked"

text \<open>Where a thread goes when it is woken: back to the head of its wait loop.\<close>

fun woken_pc :: "pc \<Rightarrow> pc" where
  "woken_pc (CPutBlocked t) = CPut t"
| "woken_pc (DPutBlocked k) = DPut k"
| "woken_pc (CWaitBlocked t) = CWait t"
| "woken_pc WGetBlocked = WGet"
| "woken_pc p = p"

fun is_feedback_blocked :: "pc \<Rightarrow> bool" where
  "is_feedback_blocked (CWaitBlocked t) = True"
| "is_feedback_blocked _ = False"

section \<open>Steps\<close>

definition TaskPool_new :: "nat \<Rightarrow> nat \<Rightarrow> task_pool" where
  "TaskPool_new pool_size clients = \<lparr>tp_pool_size = pool_size,
     tp_queue = RingQueue_new (pool_size * 4), tp_started = False, tp_done = False,
     tp_mutex = None, tp_ret = [], tp_threads = replicate clients CIdle @ [DStart]\<rparr>"

definition set_pc :: "nat \<Rightarrow> pc \<Rightarrow> task_pool \<Rightarrow> task_pool" where
  "set_pc i p s = s\<lparr>tp_threads := (tp_threads s)[i := p]\<rparr>"

text \<open>\<^verbatim>\<open>notify_one\<close>: without a waiter nothing happens, otherwise the chosen waiter is woken.\<close>

definition notify_one :: "(pc \<Rightarrow> bool) \<Rightarrow> nat option \<Rightarrow> task_pool \<Rightarrow> task_pool option" where
  "notify_one blocked w s = (case w of
      None \<Rightarrow> if list_ex blocked (tp_threads s) then None else Some s
    | Some j \<Rightarrow> if j < length (tp_threads s) \<and> blocked (tp_threads s ! j)
        then Some (set_pc j (woken_pc (tp_threads s ! j)) s) else None)"

definition notify_all :: "(pc \<Rightarrow> bool) \<Rightarrow> task_pool \<Rightarrow> task_pool" where
  "notify_all blocked s =
    s\<lparr>tp_threads := map (\<lambda>p. if blocked p then woken_pc p else p) (tp_threads s)\<rparr>"

text \<open>One pass of \<^verbatim>\<open>RingQueue::put\<close>: wait, or store the task and notify a consumer.\<close>

definition put_step :: "nat \<Rightarrow> nat option \<Rightarrow> nat option \<Rightarrow> pc \<Rightarrow> pc \<Rightarrow> task_pool \<Rightarrow> task_pool option"
  where
  "put_step i w task blocked_pc next_pc s =
    (if rq_full (tp_queue s) then Some (set_pc i blocked_pc s)
     else notify_one is_get_blocked w
            (set_pc i next_pc (s\<lparr>tp_queue := rq_put task (tp_queue s)\<rparr>)))"

text \<open>One pass of \<^verbatim>\<open>RingQueue::get\<close> in \<^verbatim>\<open>workFunc\<close>.\<close>

definition get_step :: "nat \<Rightarrow> nat option \<Rightarrow> task_pool \<Rightarrow> task_pool option" where
  "get_step i w s =
    (if rq_empty (tp_queue s) then Some (set_pc i WGetBlocked s)
     else case (if rq_get_notifies (tp_queue s) then notify_one is_put_blocked w s else Some s) of
       None \<Rightarrow> None
     | Some s' \<Rightarrow> (case rq_get (tp_queue s') of
           Inl _ \<Rightarrow> None
         | Inr (task, q') \<Rightarrow> Some (set_pc i
             (case task of None \<Rightarrow> WLoop | Some t \<Rightarrow> WRun t) (s'\<lparr>tp_queue := q'\<rparr>))))"

text \<open>\<^verbatim>\<open>(CVI_RC)program->forward(...)\<close>: the \<^verbatim>\<open>bool\<close> result converted to the code type.\<close>

definition forward_code :: "bool \<Rightarrow> cvi_rc" where
  "forward_code ok = (if ok then 1 else 0)"

text \<open>
  One pass of \<^verbatim>\<open>waitTask\<close>, under the mutex: sleep while the code is unset, otherwise return, and
  \<^verbatim>\<open>forwardWait\<close> reads the code.
\<close>

definition wait_step :: "nat \<Rightarrow> nat \<Rightarrow> task_pool \<Rightarrow> task_pool option" where
  "wait_step i t s = (if tp_mutex s = None
     then Some (set_pc i (if tp_ret s ! t = CVI_RC_UNINIT then CWaitBlocked t
                          else CDone t (tp_ret s ! t)) s) else None)"

text \<open>
  The next step of thread \<open>i\<close>: \<open>w\<close> is the thread a notification wakes, \<open>b\<close> the decision of a
  client (wait for the submitted task, or go on without), \<open>fwd t\<close> what \<^verbatim>\<open>forward\<close> returns for
  task \<open>t\<close>.  \<^const>\<open>None\<close> when the thread cannot move.
\<close>

fun client_step :: "nat \<Rightarrow> nat option \<Rightarrow> bool \<Rightarrow> task_pool \<Rightarrow> pc \<Rightarrow> task_pool option" where
  "client_step i w b s CIdle = Some (set_pc i CStart s)"
| "client_step i w b s CStart = Some (set_pc i (if tp_started s then CNew else CLock) s)"
| "client_step i w b s CLock = (if tp_mutex s = None
     then Some (set_pc i (CSpawn (tp_pool_size s)) (s\<lparr>tp_mutex := Some i\<rparr>)) else None)"
| "client_step i w b s (CSpawn k) = (case k of
     0 \<Rightarrow> Some (set_pc i CSpin s)
   | Suc k' \<Rightarrow> Some (set_pc i (CSpawn k') (s\<lparr>tp_threads := tp_threads s @ [WEntry]\<rparr>)))"
| "client_step i w b s CSpin = (if tp_started s
     then Some (set_pc i CNew (s\<lparr>tp_mutex := None\<rparr>)) else Some s)"
| "client_step i w b s CNew =
     Some (set_pc i (CPut (length (tp_ret s))) (s\<lparr>tp_ret := tp_ret s @ [CVI_RC_UNINIT]\<rparr>))"
| "client_step i w b s (CPut t) = put_step i w (Some t) (CPutBlocked t) (CSubmitted t) s"
| "client_step i w b s (CSubmitted t) = Some (set_pc i (if b then CWait t else CIdle) s)"
| "client_step i w b s (CWait t) = wait_step i t s"
| "client_step i w b s (CDone t r) = Some (set_pc i CIdle s)"
| "client_step i w b s _ = None"

fun worker_step :: "(nat \<Rightarrow> bool) \<Rightarrow> nat \<Rightarrow> nat option \<Rightarrow> task_pool \<Rightarrow> pc \<Rightarrow> task_pool option" where
  "worker_step fwd i w s WEntry = Some (set_pc i WLoop (s\<lparr>tp_started := True\<rparr>))"
| "worker_step fwd i w s WLoop = Some (set_pc i (if tp_done s then WExit else WGet) s)"
| "worker_step fwd i w s WGet = get_step i w s"
| "worker_step fwd i w s (WRun t) =
     Some (set_pc i (WNotify t) (s\<lparr>tp_ret := (tp_ret s)[t := forward_code (fwd t)]\<rparr>))"
| "worker_step fwd i w s (WNotify t) = (if tp_mutex s = None
     then Some (set_pc i WLoop (notify_all is_feedback_blocked s)) else None)"
| "worker_step fwd i w s _ = None"

fun destroy_step :: "nat \<Rightarrow> nat option \<Rightarrow> task_pool \<Rightarrow> pc \<Rightarrow> task_pool option" where
  "destroy_step i w s DStart = (if tp_started s
     then Some (set_pc i (DPut (tp_pool_size s)) (s\<lparr>tp_done := True\<rparr>))
     else Some (set_pc i DEnd s))"
| "destroy_step i w s (DPut k) = (case k of
     0 \<Rightarrow> Some (set_pc i DJoin s)
   | Suc k' \<Rightarrow> put_step i w None (DPutBlocked k) (DPut k') s)"
| "destroy_step i w s DJoin = (if list_all (\<lambda>p. is_worker p \<longrightarrow> p = WExit) (tp_threads s)
     then Some (set_pc i DEnd s) else None)"
| "destroy_step i w s _ = None"

definition is_destroyer :: "pc \<Rightarrow> bool" where
  "is_destroyer p \<longleftrightarrow> (case p of DStart \<Rightarrow> True | DPut _ \<Rightarrow> True | DPutBlocked _ \<Rightarrow> True
     | DJoin \<Rightarrow> True | DEnd \<Rightarrow> True | _ \<Rightarrow> False)"

definition tp_act :: "(nat \<Rightarrow> bool) \<Rightarrow> nat \<Rightarrow> nat option \<Rightarrow> bool \<Rightarrow> task_pool \<Rightarrow> task_pool option" where
  "tp_act fwd i w b s = (if i < length (tp_threads s) then
      let p = tp_threads s ! i in
      if is_worker p then worker_step fwd i w s p
      else if is_destroyer p then destroy_step i w s p
      else client_step i w b s p
    else None)"

inductive tp_step :: "(nat \<Rightarrow> bool) \<Rightarrow> task_pool \<Rightarrow> task_pool \<Rightarrow> bool" for fwd where
  "tp_act fwd i w b s = Some s' \<Longrightarrow> tp_step fwd s s'"

inductive tp_reach :: "(nat \<Rightarrow> bool) \<Rightarrow> nat \<Rightarrow> nat \<Rightarrow> task_pool \<Rightarrow> bool" for fwd pool_size clients where
  start: "tp_reach fwd pool_size clients (TaskPool_new pool_size clients)"
| step: "tp_reach fwd pool_size clients s \<Longrightarrow> tp_step fwd s s' \<Longrightarrow> tp_reach fwd pool_size clients s'"

text \<open>Running a schedule, for concrete executions.\<close>

primrec tp_run :: "(nat \<Rightarrow> bool) \<Rightarrow> (nat \<times> nat option \<times> bool) list \<Rightarrow> task_pool \<Rightarrow> task_pool option" where
  "tp_run fwd [] s = Some s"
| "tp_run fwd (a # as) s = (case a of (i, w, b) \<Rightarrow>
     (case tp_act fwd i w b s of None \<Rightarrow> None | Some s' \<Rightarrow> tp_run fwd as s'))"

inductive_cases tp_stepE: "tp_step fwd s s'"

lemma tp_run_reach:
  "tp_run fwd as s = Some s' \<Longrightarrow> tp_reach fwd n m s \<Longrightarrow> tp_reach fwd n m s'"
proof (induction as arbitrary: s)
  case (Cons a as)
  obtain i w b where a: "a = (i, w, b)" by (cases a)
  with Cons.prems(1) obtain u where u: "tp_act fwd i w b s = Some u" "tp_run fwd as u = Some s'"
    by (auto split: option.splits)
  from Cons.IH[OF u(2)] tp_reach.step[OF Cons.prems(2) tp_step.intros[OF u(1)]] show ?case .
qed simp

section \<open>Invariants\<close>

text \<open>
  The invariants speak of the multiset of program counters: a step replaces one of them, and
  possibly the ones it wakes.
\<close>

abbreviation pcs :: "task_pool \<Rightarrow> pc multiset" where
  "pcs s \<equiv> mset (tp_threads s)"

fun pc_task :: "pc \<Rightarrow> nat option" where
  "pc_task (CPut t) = Some t" | "pc_task (CPutBlocked t) = Some t" | "pc_task (CSubmitted t) = Some t"
| "pc_task (CWait t) = Some t" | "pc_task (CWaitBlocked t) = Some t" | "pc_task (CDone t r) = Some t"
| "pc_task (WRun t) = Some t" | "pc_task (WNotify t) = Some t" | "pc_task _ = None"

text \<open>Every task a thread or the queue refers to exists.\<close>

definition tasks_ok :: "nat \<Rightarrow> nat ring_queue \<Rightarrow> pc multiset \<Rightarrow> bool" where
  "tasks_ok n q M \<longleftrightarrow> (\<forall>p\<in>#M. \<forall>t. pc_task p = Some t \<longrightarrow> t < n) \<and>
     (\<forall>t. Some t \<in> set (rq_elems q) \<longrightarrow> t < n)"

text \<open>The code of a task is unset or tells the outcome of \<^verbatim>\<open>forward\<close>; so does what a client got.\<close>

definition codes_ok :: "(nat \<Rightarrow> bool) \<Rightarrow> cvi_rc list \<Rightarrow> pc multiset \<Rightarrow> bool" where
  "codes_ok fwd ret M \<longleftrightarrow> (\<forall>t<length ret. ret ! t = CVI_RC_UNINIT \<or> ret ! t = forward_code (fwd t)) \<and>
     (\<forall>t r. CDone t r \<in># M \<longrightarrow> r = forward_code (fwd t))"

text \<open>A client asleep in \<^verbatim>\<open>waitTask\<close> has an unfinished task, or a worker is about to wake it.\<close>

definition feedback_ok :: "cvi_rc list \<Rightarrow> pc multiset \<Rightarrow> bool" where
  "feedback_ok ret M \<longleftrightarrow>
     (\<forall>t. CWaitBlocked t \<in># M \<longrightarrow> ret ! t = CVI_RC_UNINIT \<or> WNotify t \<in># M)"

text \<open>While a worker sleeps in \<^verbatim>\<open>get\<close>, every queued task has a worker on its way to take it.\<close>

definition consumers_ok :: "nat ring_queue \<Rightarrow> pc multiset \<Rightarrow> bool" where
  "consumers_ok q M \<longleftrightarrow> (WGetBlocked \<in># M \<longrightarrow> q_length q \<le> count M WGet)"

definition workers :: "pc multiset \<Rightarrow> nat" where
  "workers M = size (filter_mset is_worker M)"

definition getters :: "pc multiset \<Rightarrow> nat" where
  "getters M = count M WGet + count M WGetBlocked"

text \<open>
  During destruction there are enough tasks, queued or still owed by the destructor, for every
  worker in \<^verbatim>\<open>get\<close>.
\<close>

fun owed :: "pc \<Rightarrow> nat option" where
  "owed (DPut k) = Some k" | "owed (DPutBlocked k) = Some k" | "owed DJoin = Some 0" | "owed _ = None"

definition shutdown_ok :: "nat \<Rightarrow> nat ring_queue \<Rightarrow> bool \<Rightarrow> pc multiset \<Rightarrow> bool" where
  "shutdown_ok n q dn M \<longleftrightarrow>
     (\<forall>p\<in>#M. \<forall>k. owed p = Some k \<longrightarrow> dn \<and> getters M \<le> k + q_length q + (workers M - n))"

definition pool_ok :: "(nat \<Rightarrow> bool) \<Rightarrow> nat \<Rightarrow> nat ring_queue \<Rightarrow> bool \<Rightarrow> cvi_rc list \<Rightarrow> pc multiset \<Rightarrow> bool" where
  "pool_ok fwd n q dn ret M \<longleftrightarrow> rq_inv q \<and> q_capacity q = n * 4 \<and> tasks_ok (length ret) q M \<and>
     codes_ok fwd ret M \<and> feedback_ok ret M \<and> consumers_ok q M \<and> shutdown_ok n q dn M"

definition tp_inv :: "(nat \<Rightarrow> bool) \<Rightarrow> nat \<Rightarrow> task_pool \<Rightarrow> bool" where
  "tp_inv fwd n s \<longleftrightarrow> tp_pool_size s = n \<and> pool_ok fwd n (tp_queue s) (tp_done s) (tp_ret s) (pcs s)"

lemmas pool_ok_defs = pool_ok_def tasks_ok_def codes_ok_def feedback_ok_def consumers_ok_def shutdown_ok_def

lemma forward_code_set [simp]: "forward_code b \<noteq> CVI_RC_UNINIT"
  by (simp add: forward_code_def cvi_rc_values)

lemma workers_simps [simp]:
  "workers (add_mset p M) = (if is_worker p then 1 else 0) + workers M"
  by (simp add: workers_def)

lemma getters_simps [simp]:
  "getters (add_mset p M) = (if p = WGet \<or> p = WGetBlocked then 1 else 0) + getters M"
  by (auto simp: getters_def)

lemma getters_le_workers: "getters M \<le> workers M"
  by (induction M) (auto simp: getters_def)

lemma pcs_set_pc:
  assumes "pcs s = add_mset (tp_threads s ! i) R" "i < length (tp_threads s)"
  shows "pcs (set_pc i p s) = add_mset p R"
  using assms mset_erase_at[of i "tp_threads s"] mset_list_update_erase_at[of i "tp_threads s" p]
  by (simp add: set_pc_def)

lemma set_pc_sel [simp]:
  "tp_queue (set_pc i p s) = tp_queue s" "tp_ret (set_pc i p s) = tp_ret s"
  "tp_done (set_pc i p s) = tp_done s" "tp_pool_size (set_pc i p s) = tp_pool_size s"
  "tp_started (set_pc i p s) = tp_started s" "tp_mutex (set_pc i p s) = tp_mutex s"
  "length (tp_threads (set_pc i p s)) = length (tp_threads s)"
  by (simp_all add: set_pc_def)

text \<open>What \<^verbatim>\<open>notify_one\<close> does to the multiset of program counters.\<close>

lemma notify_one_pcs:
  assumes "notify_one blk w s = Some s'"
  obtains (none) "s' = s" "\<forall>p\<in>#pcs s. \<not> blk p"
  | (woken) j p R where "s' = set_pc j (woken_pc p) s" "blk p" "pcs s = add_mset p R"
      "pcs s' = add_mset (woken_pc p) R" "j < length (tp_threads s)" "p = tp_threads s ! j"
proof (cases w)
  case None
  with assms none show ?thesis by (auto simp: notify_one_def list_ex_iff split: if_splits)
next
  case (Some j)
  with assms have j: "j < length (tp_threads s)" "blk (tp_threads s ! j)"
    "s' = set_pc j (woken_pc (tp_threads s ! j)) s"
    by (auto simp: notify_one_def split: if_splits)
  have R: "pcs s = add_mset (tp_threads s ! j) (mset (erase_at j (tp_threads s)))"
    using mset_erase_at[OF j(1)] .
  from woken[OF j(3,2) R] pcs_set_pc[OF R j(1)] j show ?thesis by simp
qed

lemma shutdown_weaken:
  assumes sd: "shutdown_ok n q dn M" and wk: "workers M \<le> workers M'"
    and owe: "\<And>p k. p \<in># M' \<Longrightarrow> owed p = Some k \<Longrightarrow>
      \<exists>p0 k0. p0 \<in># M \<and> owed p0 = Some k0 \<and> k0 + q_length q + getters M' \<le> k + q_length q' + getters M"
  shows "shutdown_ok n q' dn M'"
  unfolding shutdown_ok_def
proof (intro ballI allI impI)
  fix p k assume "p \<in># M'" "owed p = Some k"
  from owe[OF this] obtain p0 k0 where p0: "p0 \<in># M" "owed p0 = Some k0"
    "k0 + q_length q + getters M' \<le> k + q_length q' + getters M" by blast
  with sd have "dn" "getters M \<le> k0 + q_length q + (workers M - n)" by (auto simp: shutdown_ok_def)
  with p0(3) wk show "dn \<and> getters M' \<le> k + q_length q' + (workers M' - n)" by linarith
qed

text \<open>A program counter the invariants do not look at, apart from the task it names.\<close>

definition quiet :: "pc \<Rightarrow> bool" where
  "quiet p \<longleftrightarrow> (\<forall>t. p \<noteq> CWaitBlocked t) \<and> (\<forall>t r. p \<noteq> CDone t r) \<and> p \<noteq> WGet \<and> p \<noteq> WGetBlocked \<and>
     (\<forall>t. p \<noteq> WNotify t) \<and> owed p = None"

lemma ok_quiet:
  assumes ok: "pool_ok fwd n q dn ret (add_mset p R)" and qt: "quiet p" "quiet p'"
    and "is_worker p = is_worker p'" "pc_task p' = None \<or> pc_task p' = pc_task p"
  shows "pool_ok fwd n q dn ret (add_mset p' R)"
proof -
  have "shutdown_ok n q dn (add_mset p' R)"
    by (rule shutdown_weaken[of n q dn "add_mset p R"]) (use assms in \<open>auto simp: pool_ok_def quiet_def\<close>)
  with assms show ?thesis
    by (auto simp: pool_ok_def tasks_ok_def codes_ok_def feedback_ok_def consumers_ok_def quiet_def)
qed

lemma ok_new:
  assumes "pool_ok fwd n q dn ret (add_mset CNew R)"
  shows "pool_ok fwd n q dn (ret @ [CVI_RC_UNINIT]) (add_mset (CPut (length ret)) R)"
proof -
  have "t < length ret" if "CWaitBlocked t \<in># R" for t
    using assms that by (fastforce simp: pool_ok_def tasks_ok_def)
  then show ?thesis using assms by (auto simp: pool_ok_defs nth_append less_Suc_eq)
qed

lemma ok_wait:
  assumes "pool_ok fwd n q dn ret (add_mset (CWait t) R)"
  shows "pool_ok fwd n q dn ret
    (add_mset (if ret ! t = CVI_RC_UNINIT then CWaitBlocked t else CDone t (ret ! t)) R)"
  using assms by (auto simp: pool_ok_defs)

lemma ok_done:
  "pool_ok fwd n q dn ret (add_mset (CDone t r) R) \<Longrightarrow> pool_ok fwd n q dn ret (add_mset CIdle R)"
  by (auto simp: pool_ok_defs)

lemma ok_spawn:
  assumes "pool_ok fwd n q dn ret M" shows "pool_ok fwd n q dn ret (add_mset WEntry M)"
proof -
  have "shutdown_ok n q dn (add_mset WEntry M)"
    by (rule shutdown_weaken[of n q dn M]) (use assms in \<open>auto simp: pool_ok_def\<close>)
  with assms show ?thesis
    by (auto simp: pool_ok_def tasks_ok_def codes_ok_def feedback_ok_def consumers_ok_def)
qed

lemma ok_loop_get:
  "pool_ok fwd n q False ret (add_mset WLoop R) \<Longrightarrow> pool_ok fwd n q False ret (add_mset WGet R)"
  by (auto simp: pool_ok_defs)

lemma ok_get_block:
  "pool_ok fwd n q dn ret (add_mset WGet R) \<Longrightarrow> q_length q = 0 \<Longrightarrow>
   pool_ok fwd n q dn ret (add_mset WGetBlocked R)"
  by (auto simp: pool_ok_defs)

lemma ok_run:
  "pool_ok fwd n q dn ret (add_mset (WRun t) R) \<Longrightarrow>
   pool_ok fwd n q dn (ret[t := forward_code (fwd t)]) (add_mset (WNotify t) R)"
  by (auto simp: pool_ok_defs nth_list_update)

lemma ok_shut_start:
  assumes "pool_ok fwd n q dn ret (add_mset DStart R)"
  shows "pool_ok fwd n q True ret (add_mset (DPut n) R)"
proof -
  have "shutdown_ok n q True (add_mset (DPut n) R)"
    using assms getters_le_workers[of R] by (auto simp: pool_ok_def shutdown_ok_def)
  with assms show ?thesis
    by (auto simp: pool_ok_def tasks_ok_def codes_ok_def feedback_ok_def consumers_ok_def)
qed

lemma ok_shut_move:
  assumes "pool_ok fwd n q dn ret (add_mset p R)"
    "p = DPut 0 \<and> p' = DJoin \<or> p = DJoin \<and> p' = DEnd \<or> p = DPut k \<and> p' = DPutBlocked k \<or>
     p = DPutBlocked k \<and> p' = DPut k"
  shows "pool_ok fwd n q dn ret (add_mset p' R)"
  using assms by (auto simp: pool_ok_defs)

text \<open>Queueing a task: a sleeping worker, if there is one, is woken.\<close>

lemma ok_put:
  assumes ok: "pool_ok fwd n q dn ret (add_mset p R)" and room: "\<not> rq_full q"
    and p: "p = CPut t \<and> p' = CSubmitted t \<and> x = Some t \<or> p = DPut (Suc k) \<and> p' = DPut k \<and> x = None"
    and w: "R' = R \<and> WGetBlocked \<notin># R \<or> (\<exists>R0. R = add_mset WGetBlocked R0 \<and> R' = add_mset WGet R0)"
  shows "pool_ok fwd n (rq_put x q) dn ret (add_mset p' R')"
proof -
  have inv: "rq_inv q" using ok by (simp add: pool_ok_def)
  note put = ring.put_appends[OF inv room, of x]
  then have len: "q_length (rq_put x q) = Suc (q_length q)" using length_rq_elems[of "rq_put x q"] by simp
  have cap: "q_capacity (rq_put x q) = q_capacity q" by (simp add: rq_put_def)
  have "tasks_ok (length ret) (rq_put x q) (add_mset p' R')"
    using ok p w put by (auto simp: pool_ok_def tasks_ok_def)
  moreover have "codes_ok fwd ret (add_mset p' R')" using ok p w by (auto simp: pool_ok_def codes_ok_def)
  moreover have "feedback_ok ret (add_mset p' R')" using ok p w by (auto simp: pool_ok_def feedback_ok_def)
  moreover have "consumers_ok (rq_put x q) (add_mset p' R')"
    using ok p w len by (auto simp: pool_ok_def consumers_ok_def)
  moreover have "shutdown_ok n (rq_put x q) dn (add_mset p' R')"
  proof (rule shutdown_weaken[of n q dn "add_mset p R"])
    show "shutdown_ok n q dn (add_mset p R)" using ok by (simp add: pool_ok_def)
    show "workers (add_mset p R) \<le> workers (add_mset p' R')" using p w by auto
    fix u j assume u: "u \<in># add_mset p' R'" "owed u = Some j"
    have g: "getters (add_mset p' R') = getters (add_mset p R)" using p w by auto
    have "u \<in># R \<or> p = DPut (Suc k) \<and> j = k" using u p w by auto
    then show "\<exists>p0 k0. p0 \<in># add_mset p R \<and> owed p0 = Some k0 \<and>
        k0 + q_length q + getters (add_mset p' R') \<le> j + q_length (rq_put x q) + getters (add_mset p R)"
    proof
      assume "u \<in># R"
      with u g len show ?thesis by (intro exI[of _ u] exI[of _ j]) simp
    next
      assume "p = DPut (Suc k) \<and> j = k"
      with g len show ?thesis by (intro exI[of _ p] exI[of _ "Suc k"]) simp
    qed
  qed
  ultimately show ?thesis using ok put cap by (simp add: pool_ok_def)
qed

text \<open>Taking a task; waking a producer moves it back to its \<^verbatim>\<open>put\<close>.\<close>

lemma ok_get:
  assumes ok: "pool_ok fwd n q dn ret (add_mset WGet R)" and ne: "\<not> rq_empty q"
    and g: "rq_get q = Inr (x, q')"
  shows "pool_ok fwd n q' dn ret (add_mset (case x of None \<Rightarrow> WLoop | Some t \<Rightarrow> WRun t) R)"
proof -
  have inv: "rq_inv q" using ok by (simp add: pool_ok_def)
  from ring.get_takes[OF inv ne] g have t: "x = hd (rq_elems q)" "rq_inv q'" "rq_elems q' = tl (rq_elems q)" by auto
  have cap: "q_capacity q' = q_capacity q" using g by (auto simp: rq_get_def split: if_splits)
  have nonempty: "rq_elems q \<noteq> []" using ne by (simp add: rq_empty_iff)
  then have len: "q_length q = Suc (q_length q')"
    using t(3) length_rq_elems[of q] length_rq_elems[of q'] by (cases "rq_elems q") auto
  have elems: "set (rq_elems q') \<subseteq> set (rq_elems q)" "x \<in> set (rq_elems q)"
    using t nonempty by (auto dest: list.set_sel(2))
  show ?thesis using ok t(2) cap len elems by (cases x) (auto simp: pool_ok_defs)
qed

lemma ok_wake_put:
  assumes "pool_ok fwd n q dn ret (add_mset p R)" "is_put_blocked p"
  shows "pool_ok fwd n q dn ret (add_mset (woken_pc p) R)"
  using assms by (cases p) (auto intro: ok_shut_move ok_quiet simp: quiet_def)

lemma ok_wake_feedback:
  "pool_ok fwd n q dn ret (add_mset (CWaitBlocked t) R) \<Longrightarrow> pool_ok fwd n q dn ret (add_mset (CWait t) R)"
  by (auto simp: pool_ok_defs)

lemma ok_notify_all:
  "pool_ok fwd n q dn ret (A + R) \<Longrightarrow>
   pool_ok fwd n q dn ret (A + image_mset (\<lambda>p. if is_feedback_blocked p then woken_pc p else p) R)"
proof (induction R arbitrary: A)
  case (add p R)
  let ?p' = "if is_feedback_blocked p then woken_pc p else p"
  have "pool_ok fwd n q dn ret (add_mset ?p' A + R)"
    using add.prems ok_wake_feedback by (cases p) auto
  from add.IH[OF this] show ?case by simp
qed simp

lemma no_feedback_blocked:
  "CWaitBlocked t \<notin># image_mset (\<lambda>p. if is_feedback_blocked p then woken_pc p else p) R"
proof (induction R)
  case (add p R)
  then show ?case by (cases p) auto
qed simp

lemma ok_notify_move:
  "pool_ok fwd n q dn ret (add_mset (WNotify t) R) \<Longrightarrow> \<forall>u. CWaitBlocked u \<notin># R \<Longrightarrow>
   pool_ok fwd n q dn ret (add_mset WLoop R)"
  by (auto simp: pool_ok_defs)

section \<open>Every step keeps the invariant\<close>

lemma put_step_ok:
  assumes inv: "tp_inv fwd n s" and i: "i < length (tp_threads s)" "tp_threads s ! i = p"
    and p: "p = CPut t \<and> b = CPutBlocked t \<and> p' = CSubmitted t \<and> x = Some t \<or>
            p = DPut (Suc k) \<and> b = DPutBlocked (Suc k) \<and> p' = DPut k \<and> x = None"
    and r: "put_step i w x b p' s = Some s'"
  shows "tp_inv fwd n s'"
proof -
  let ?R = "mset (erase_at i (tp_threads s))"
  have R: "pcs s = add_mset p ?R" using mset_erase_at[OF i(1)] i(2) by simp
  have ok: "pool_ok fwd n (tp_queue s) (tp_done s) (tp_ret s) (add_mset p ?R)" "tp_pool_size s = n"
    using inv R by (simp_all add: tp_inv_def)
  note set = pcs_set_pc[OF R[folded i(2)] i(1)]
  show ?thesis
  proof (cases "rq_full (tp_queue s)")
    case True
    then have s': "s' = set_pc i b s" using r by (simp add: put_step_def)
    have "pool_ok fwd n (tp_queue s) (tp_done s) (tp_ret s) (add_mset b ?R)"
      using p
    proof
      assume "p = CPut t \<and> b = CPutBlocked t \<and> p' = CSubmitted t \<and> x = Some t"
      then show ?thesis by (intro ok_quiet[OF ok(1)]) (auto simp: quiet_def)
    next
      assume "p = DPut (Suc k) \<and> b = DPutBlocked (Suc k) \<and> p' = DPut k \<and> x = None"
      then show ?thesis by (intro ok_shut_move[OF ok(1), of b "Suc k"]) auto
    qed
    with s' set ok(2) show ?thesis by (simp add: tp_inv_def)
  next
    case False
    let ?s1 = "set_pc i p' (s\<lparr>tp_queue := rq_put x (tp_queue s)\<rparr>)"
    have s1: "pcs ?s1 = add_mset p' ?R" using set[of p'] by (simp add: set_pc_def)
    have n1: "notify_one is_get_blocked w ?s1 = Some s'" using r False by (simp add: put_step_def)
    have p2: "p = CPut t \<and> p' = CSubmitted t \<and> x = Some t \<or> p = DPut (Suc k) \<and> p' = DPut k \<and> x = None"
      using p by blast
    from n1 show ?thesis
    proof (cases rule: notify_one_pcs)
      case none
      with s1 have "WGetBlocked \<notin># ?R" by (auto simp: is_get_blocked_def)
      with ok_put[OF ok(1) False p2, of ?R] none s1 ok(2) show ?thesis by (simp add: tp_inv_def)
    next
      case (woken j v R2)
      then have v: "v = WGetBlocked" by (simp add: is_get_blocked_def)
      have "v \<noteq> p'" using p v by auto
      moreover have "v \<in># add_mset p' ?R" unfolding s1[symmetric] woken(3) by simp
      ultimately have "v \<in># ?R" by simp
      then obtain R0 where R0: "?R = add_mset WGetBlocked R0" using v by (metis mset_add)
      have "pcs s' = add_mset p' (add_mset WGet R0)"
        using woken(3,4) s1 R0 v by (simp add: add_mset_commute)
      with ok_put[OF ok(1) False p2, of "add_mset WGet R0"] R0 woken(1) ok(2) show ?thesis
        by (simp add: tp_inv_def)
    qed
  qed
qed

lemma get_step_ok:
  assumes inv: "tp_inv fwd n s" and i: "i < length (tp_threads s)" "tp_threads s ! i = WGet"
    and r: "get_step i w s = Some s'"
  shows "tp_inv fwd n s'"
proof -
  have take: "tp_inv fwd n (set_pc i (case x of None \<Rightarrow> WLoop | Some t \<Rightarrow> WRun t) (u\<lparr>tp_queue := q'\<rparr>))"
    if u: "tp_inv fwd n u" "i < length (tp_threads u)" "tp_threads u ! i = WGet"
      "\<not> rq_empty (tp_queue u)" "rq_get (tp_queue u) = Inr (x, q')" for u x q'
  proof -
    let ?R = "mset (erase_at i (tp_threads u))"
    have R: "pcs u = add_mset WGet ?R" using mset_erase_at[OF u(2)] u(3) by simp
    from ok_get[of fwd n "tp_queue u" "tp_done u" "tp_ret u" ?R x q'] u R
    show ?thesis using pcs_set_pc[OF R[folded u(3)] u(2)] by (simp add: tp_inv_def set_pc_def)
  qed
  show ?thesis
  proof (cases "rq_empty (tp_queue s)")
    case True
    let ?R = "mset (erase_at i (tp_threads s))"
    have R: "pcs s = add_mset WGet ?R" using mset_erase_at[OF i(1)] i(2) by simp
    from True r have "s' = set_pc i WGetBlocked s" "q_length (tp_queue s) = 0"
      by (auto simp: get_step_def rq_empty_def)
    with ok_get_block[of fwd n "tp_queue s" "tp_done s" "tp_ret s" ?R] inv R pcs_set_pc[OF R[folded i(2)] i(1)]
    show ?thesis by (simp add: tp_inv_def)
  next
    case False
    with r obtain u x q' where u: "(if rq_get_notifies (tp_queue s) then notify_one is_put_blocked w s else Some s) = Some u"
      "rq_get (tp_queue u) = Inr (x, q')" "s' = set_pc i (case x of None \<Rightarrow> WLoop | Some t \<Rightarrow> WRun t) (u\<lparr>tp_queue := q'\<rparr>)"
      by (auto simp: get_step_def split: option.splits sum.splits)
    have "tp_inv fwd n u \<and> i < length (tp_threads u) \<and> tp_threads u ! i = WGet \<and> tp_queue u = tp_queue s"
    proof (cases "rq_get_notifies (tp_queue s)")
      case True
      with u(1) have "notify_one is_put_blocked w s = Some u" by simp
      then show ?thesis
      proof (cases rule: notify_one_pcs)
        case none
        with inv i show ?thesis by simp
      next
        case (woken j v R)
        then have "j \<noteq> i" using i by auto
        with woken inv i ok_wake_put[of fwd n "tp_queue s" "tp_done s" "tp_ret s" v R] show ?thesis
          by (simp add: tp_inv_def set_pc_def)
      qed
    qed (use u(1) inv i in simp)
    with take[of u x q'] u False show ?thesis by simp
  qed
qed

lemma pcs_move:
  assumes inv: "tp_inv fwd n s" and i: "i < length (tp_threads s)" "tp_threads s ! i = p"
    and s': "tp_threads s' = tp_threads s" "tp_pool_size s' = n"
    and ok: "\<And>R. pool_ok fwd n (tp_queue s) (tp_done s) (tp_ret s) (add_mset p R) \<Longrightarrow>
      pool_ok fwd n (tp_queue s') (tp_done s') (tp_ret s') (add_mset p' R)"
  shows "tp_inv fwd n (set_pc i p' s')"
proof -
  have R: "pcs s = add_mset p (mset (erase_at i (tp_threads s)))" using mset_erase_at[OF i(1)] i(2) by simp
  have "pcs (set_pc i p' s') = add_mset p' (mset (erase_at i (tp_threads s)))"
    using pcs_set_pc[of s' i] R i s'(1) by simp
  with ok[of "mset (erase_at i (tp_threads s))"] inv R s'(2) show ?thesis by (simp add: tp_inv_def)
qed

lemma client_step_ok:
  assumes inv: "tp_inv fwd n s" and i: "i < length (tp_threads s)" "tp_threads s ! i = p"
    and r: "client_step i w b s p = Some s'"
  shows "tp_inv fwd n s'"
proof -
  have size [simp]: "tp_pool_size s = n" using inv by (simp add: tp_inv_def)
  note quiet_move = pcs_move[OF inv i _ _ ok_quiet]
  show ?thesis
  proof (cases p)
    case (CSpawn k)
    show ?thesis
    proof (cases k)
      case 0
      with r CSpawn show ?thesis by (auto intro!: quiet_move simp: quiet_def)
    next
      case (Suc k')
      let ?s = "s\<lparr>tp_threads := tp_threads s @ [WEntry]\<rparr>"
      have inv': "tp_inv fwd n ?s" using inv ok_spawn by (simp add: tp_inv_def)
      have i': "i < length (tp_threads ?s)" "tp_threads ?s ! i = CSpawn k"
        using i CSpawn by (simp_all add: nth_append)
      have "tp_inv fwd n (set_pc i (CSpawn k') ?s)"
        by (rule pcs_move[OF inv' i']) (simp_all add: ok_quiet quiet_def)
      with r CSpawn Suc show ?thesis by simp
    qed
  next
    case (CPut t)
    with put_step_ok[OF inv i, of t "CPutBlocked t" "CSubmitted t" "Some t" 0 w s'] r show ?thesis by simp
  next
    case CNew
    with r show ?thesis by (auto intro!: pcs_move[OF inv i] ok_new)
  next
    case (CWait t)
    with r have "s' = set_pc i (if tp_ret s ! t = CVI_RC_UNINIT then CWaitBlocked t
      else CDone t (tp_ret s ! t)) s" by (simp add: wait_step_def split: if_splits)
    moreover have "tp_inv fwd n (set_pc i (if tp_ret s ! t = CVI_RC_UNINIT then CWaitBlocked t
      else CDone t (tp_ret s ! t)) s)" using CWait by (intro pcs_move[OF inv i] ok_wait) auto
    ultimately show ?thesis by simp
  next
    case (CDone t rc)
    with r show ?thesis by (auto intro!: pcs_move[OF inv i] intro: ok_done)
  qed (use r inv in \<open>auto intro!: quiet_move simp: quiet_def split: if_splits\<close>)
qed

lemma worker_step_ok:
  assumes inv: "tp_inv fwd n s" and i: "i < length (tp_threads s)" "tp_threads s ! i = p"
    and r: "worker_step fwd i w s p = Some s'"
  shows "tp_inv fwd n s'"
proof -
  have size [simp]: "tp_pool_size s = n" using inv by (simp add: tp_inv_def)
  note quiet_move = pcs_move[OF inv i _ _ ok_quiet]
  show ?thesis
  proof (cases p)
    case WLoop
    show ?thesis
    proof (cases "tp_done s")
      case True
      with r WLoop show ?thesis by (auto intro!: quiet_move simp: quiet_def)
    next
      case False
      with r WLoop show ?thesis by (auto intro!: pcs_move[OF inv i] ok_loop_get)
    qed
  next
    case WGet
    with get_step_ok[OF inv i(1)] i(2) r show ?thesis by simp
  next
    case (WRun t)
    with r show ?thesis by (auto intro!: pcs_move[OF inv i] ok_run)
  next
    case (WNotify t)
    let ?f = "\<lambda>p. if is_feedback_blocked p then woken_pc p else p"
    let ?R = "mset (erase_at i (tp_threads s))" and ?s = "notify_all is_feedback_blocked s"
    have R: "pcs s = add_mset (WNotify t) ?R" using mset_erase_at[OF i(1)] i(2) WNotify by simp
    then have R': "pcs ?s = add_mset (tp_threads ?s ! i) (image_mset ?f ?R)"
      using i WNotify by (simp add: notify_all_def)
    have ok: "pool_ok fwd n (tp_queue s) (tp_done s) (tp_ret s) ({#WNotify t#} + ?R)"
      using inv R by (simp add: tp_inv_def)
    have "pool_ok fwd n (tp_queue s) (tp_done s) (tp_ret s) (add_mset (WNotify t) (image_mset ?f ?R))"
      using ok_notify_all[OF ok] by (simp only: union_mset_add_mset_left add_0)
    then have "pool_ok fwd n (tp_queue s) (tp_done s) (tp_ret s) (add_mset WLoop (image_mset ?f ?R))"
      by (rule ok_notify_move) (rule allI, rule no_feedback_blocked)
    moreover have "s' = set_pc i WLoop ?s" using r WNotify by (simp split: if_splits)
    ultimately show ?thesis using pcs_set_pc[OF R'] i size by (simp add: tp_inv_def notify_all_def)
  next
    case WEntry
    with r show ?thesis by (auto intro!: quiet_move simp: quiet_def)
  qed (use r in auto)
qed

lemma destroy_step_ok:
  assumes inv: "tp_inv fwd n s" and i: "i < length (tp_threads s)" "tp_threads s ! i = p"
    and r: "destroy_step i w s p = Some s'"
  shows "tp_inv fwd n s'"
proof -
  have size [simp]: "tp_pool_size s = n" using inv by (simp add: tp_inv_def)
  show ?thesis
  proof (cases p)
    case DStart
    show ?thesis
    proof (cases "tp_started s")
      case True
      with r DStart show ?thesis by (auto intro!: pcs_move[OF inv i] intro: ok_shut_start)
    next
      case False
      with r DStart show ?thesis
        by (auto intro!: pcs_move[OF inv i _ _ ok_quiet] simp: quiet_def)
    qed
  next
    case (DPut k)
    show ?thesis
    proof (cases k)
      case 0
      with r DPut show ?thesis by (auto intro!: pcs_move[OF inv i] intro: ok_shut_move)
    next
      case (Suc k')
      with put_step_ok[OF inv i, of 0 "DPutBlocked k" "DPut k'" None k' w s'] r DPut show ?thesis by simp
    qed
  next
    case DJoin
    with r show ?thesis by (auto intro!: pcs_move[OF inv i] intro: ok_shut_move split: if_splits)
  qed (use r in auto)
qed

lemma tp_act_ok: "tp_inv fwd n s \<Longrightarrow> tp_act fwd i w b s = Some s' \<Longrightarrow> tp_inv fwd n s'"
  by (auto simp: tp_act_def Let_def split: if_splits
      intro: worker_step_ok destroy_step_ok client_step_ok)

lemma tp_inv_new:
  assumes "0 < n" "n * 4 < M32" shows "tp_inv fwd n (TaskPool_new n m)"
proof -
  have "rq_inv (RingQueue_new (n * 4) :: nat ring_queue)" "rq_elems (RingQueue_new (n * 4) :: nat ring_queue) = []"
    using rq_new_inv[of "n * 4"] assms by auto
  moreover have "p = CIdle" if "p \<in># replicate_mset m CIdle" for p using that by (simp split: if_splits)
  ultimately show ?thesis
    by (auto simp: tp_inv_def pool_ok_defs TaskPool_new_def RingQueue_new_def)
qed

lemma tp_reach_inv:
  assumes "tp_reach fwd n m s" "0 < n" "n * 4 < M32" shows "tp_inv fwd n s"
  using assms(1)
proof induction
  case start
  show ?case using tp_inv_new assms(2,3) by blast
next
  case (step s s')
  from step(2) step(3) show ?case by (auto elim: tp_stepE intro: tp_act_ok)
qed

section \<open>Properties\<close>

lemma notify_one_total: "\<exists>w s'. notify_one blk w s = Some s'"
proof (cases "list_ex blk (tp_threads s)")
  case True
  then obtain j where "j < length (tp_threads s)" "blk (tp_threads s ! j)"
    by (auto simp: list_ex_iff in_set_conv_nth)
  then show ?thesis by (intro exI[of _ "Some j"]) (simp add: notify_one_def)
qed (auto intro!: exI[of _ None] simp: notify_one_def)

lemma get_enabled:
  assumes inv: "rq_inv (tp_queue s)" and ne: "\<not> rq_empty (tp_queue s)"
    and i: "i < length (tp_threads s)" "tp_threads s ! i = WGet"
  shows "\<exists>w s'. tp_act fwd i w b s = Some s' \<and> rq_elems (tp_queue s') = tl (rq_elems (tp_queue s))"
proof -
  obtain w u where u: "(if rq_get_notifies (tp_queue s) then notify_one is_put_blocked w s else Some s) = Some u"
    using notify_one_total[of is_put_blocked s] by (cases "rq_get_notifies (tp_queue s)") auto
  then have q: "tp_queue u = tp_queue s"
    by (auto elim!: notify_one_pcs split: if_splits)
  from ring.get_takes[OF inv ne] obtain q' where
    "rq_get (tp_queue s) = Inr (hd (rq_elems (tp_queue s)), q')" "rq_elems q' = tl (rq_elems (tp_queue s))" by blast
  with u q ne i show ?thesis
    by (intro exI[of _ w] exI[of _ "set_pc i _ (u\<lparr>tp_queue := q'\<rparr>)"])
       (simp add: tp_act_def get_step_def)
qed

lemma consumer_no_lost_wakeup_aux:
  assumes "tp_inv fwd n s" "WGetBlocked \<in> set (tp_threads s)" "\<not> rq_empty (tp_queue s)"
  shows "\<exists>j w s'. j < length (tp_threads s) \<and> tp_threads s ! j = WGet \<and> tp_act fwd j w b s = Some s' \<and>
    rq_elems (tp_queue s') = tl (rq_elems (tp_queue s))"
proof -
  have inv: "rq_inv (tp_queue s)" "consumers_ok (tp_queue s) (pcs s)"
    using assms(1) by (simp_all add: tp_inv_def pool_ok_def)
  then have "0 < count (pcs s) WGet"
    using assms(2,3) unfolding consumers_ok_def rq_empty_def set_mset_mset by linarith
  then have "WGet \<in> set (tp_threads s)" by (simp add: count_greater_zero_iff)
  then obtain j where "j < length (tp_threads s)" "tp_threads s ! j = WGet" by (auto simp: in_set_conv_nth)
  with get_enabled[OF inv(1) assms(3) this] show ?thesis by blast
qed

text \<open>
  Concrete executions of a pool of one worker: thread 0 is a client, the next one after the
  clients the destructor, the one after that the worker.
\<close>

lemma replicate_small: "replicate 2 x = [x, x]" "replicate 4 x = [x, x, x, x]"
  by (simp_all add: numeral_eq_Suc)

lemmas tp_eval = replicate_small wait_step_def TaskPool_new_def tp_act_def set_pc_def put_step_def get_step_def notify_one_def
  notify_all_def is_get_blocked_def is_destroyer_def forward_code_def cvi_rc_values rq_eval

text \<open>
  C16: no wake-up of \<^verbatim>\<open>waitTask\<close> is lost: in every reachable state, if a client sleeps on a task
  whose code has been stored, a worker stands before the notification of that very task, and as
  soon as the pool's mutex is free its step moves the client back to its test.
\<close>

theorem wait_task_no_lost_wakeup:
  assumes "tp_reach fwd n m s" "0 < n" "n * 4 < M32"
    and i: "i < length (tp_threads s)" "tp_threads s ! i = CWaitBlocked t" and r: "tp_ret s ! t \<noteq> CVI_RC_UNINIT"
  shows "\<exists>j<length (tp_threads s). tp_threads s ! j = WNotify t \<and>
    (tp_mutex s = None \<longrightarrow> (\<exists>s'. tp_act fwd j None b s = Some s' \<and> tp_threads s' ! i = CWait t))"
proof -
  have "feedback_ok (tp_ret s) (pcs s)" using tp_reach_inv[OF assms(1-3)] by (simp add: tp_inv_def pool_ok_def)
  moreover have "CWaitBlocked t \<in># pcs s" using i by (metis nth_mem set_mset_mset)
  ultimately obtain j where j: "j < length (tp_threads s)" "tp_threads s ! j = WNotify t"
    using r by (auto simp: feedback_ok_def in_set_conv_nth)
  then have "j \<noteq> i" using i by auto
  with i j show ?thesis by (intro exI[of _ j]) (simp add: tp_act_def notify_all_def set_pc_def)
qed

theorem wait_task_no_lost_wakeup_witness:
  "\<exists>s. tp_reach (\<lambda>_. True) 1 1 s \<and> tp_threads s ! 0 = CWaitBlocked 0 \<and>
     (\<exists>j<length (tp_threads s). tp_threads s ! j = WNotify 0)"
proof -
  let ?as = "[(0,None,True), (0,None,True), (0,None,True), (0,None,True), (0,None,True), (2,None,True),
     (0,None,True), (0,None,True), (0,None,True), (2,None,True), (2,None,True), (0,None,True),
     (0,None,True), (2,None,True)]"
  obtain s where s: "tp_run (\<lambda>_. True) ?as (TaskPool_new 1 1) = Some s"
    "tp_threads s = [CWaitBlocked 0, DStart, WNotify 0]" "tp_ret s = [1]"
    by (simp add: tp_eval)
  have r: "tp_reach (\<lambda>_. True) 1 1 s" by (rule tp_run_reach[OF s(1) tp_reach.start])
  have "\<exists>j<length (tp_threads s). tp_threads s ! j = WNotify 0 \<and>
    (tp_mutex s = None \<longrightarrow> (\<exists>s'. tp_act (\<lambda>_. True) j None True s = Some s' \<and> tp_threads s' ! 0 = CWait 0))"
    by (rule wait_task_no_lost_wakeup[OF r]) (simp_all add: s(2,3) M32_def cvi_rc_values)
  moreover have "tp_threads s ! 0 = CWaitBlocked 0" by (simp add: s(2))
  ultimately show ?thesis using r by blast
qed

text \<open>
  No worker sleeps beside work: in every reachable state with a worker asleep in
  \<^verbatim>\<open>RingQueue::get\<close> and a task in the queue, some worker is on its way into \<^verbatim>\<open>get\<close> and its next
  step takes the oldest task.
\<close>

lemma consumer_no_lost_wakeup:
  assumes "tp_reach fwd n m s" "0 < n" "n * 4 < M32"
    and "WGetBlocked \<in> set (tp_threads s)" "\<not> rq_empty (tp_queue s)"
  shows "\<exists>j w s'. j < length (tp_threads s) \<and> tp_threads s ! j = WGet \<and> tp_act fwd j w b s = Some s' \<and>
    rq_elems (tp_queue s') = tl (rq_elems (tp_queue s))"
  by (rule consumer_no_lost_wakeup_aux[OF tp_reach_inv[OF assms(1-3)] assms(4,5)])

lemma consumer_no_lost_wakeup_witness:
  "\<exists>s. tp_reach (\<lambda>_. True) 2 1 s \<and> WGetBlocked \<in> set (tp_threads s) \<and>
     (\<exists>j w s'. j < length (tp_threads s) \<and> tp_threads s ! j = WGet \<and>
       tp_act (\<lambda>_. True) j w True s = Some s' \<and> rq_elems (tp_queue s') = tl (rq_elems (tp_queue s)))"
proof -
  let ?as = "[(0,None,True), (0,None,True), (0,None,True), (0,None,True), (0,None,True), (0,None,True),
     (2,None,True), (3,None,True), (0,None,True), (2,None,True), (2,None,True), (3,None,True), (3,None,True),
     (0,None,True), (0,Some 2,True)]"
  obtain s where s: "tp_run (\<lambda>_. True) ?as (TaskPool_new 2 1) = Some s"
    "tp_threads s = [CSubmitted 0, DStart, WGet, WGetBlocked]" "q_length (tp_queue s) = 1"
    by (simp add: tp_eval)
  have r: "tp_reach (\<lambda>_. True) 2 1 s" by (rule tp_run_reach[OF s(1) tp_reach.start])
  have "\<exists>j w s'. j < length (tp_threads s) \<and> tp_threads s ! j = WGet \<and> tp_act (\<lambda>_. True) j w True s = Some s' \<and>
    rq_elems (tp_queue s') = tl (rq_elems (tp_queue s))"
    by (rule consumer_no_lost_wakeup[OF r]) (simp_all add: s(2,3) M32_def rq_empty_def)
  moreover have "WGetBlocked \<in> set (tp_threads s)" by (simp add: s(2))
  ultimately show ?thesis using r by blast
qed

text \<open>
  C36: joining the workers cannot deadlock: once the destructor has queued its terminate tasks,
  if no more workers than \<^verbatim>\<open>_pool_size\<close> were ever spawned and no \<^verbatim>\<open>startPool\<close> holds the mutex,
  then either every worker has returned and the join completes, or some worker can take a step.
\<close>

theorem destructor_join_progress:
  assumes "tp_reach fwd n m s" "0 < n" "n * 4 < M32"
    and i: "i < length (tp_threads s)" "tp_threads s ! i = DJoin"
    and w: "workers (pcs s) \<le> n" and mtx: "tp_mutex s = None"
  shows "(\<exists>s'. tp_act fwd i None b s = Some s' \<and> tp_threads s' ! i = DEnd) \<or>
    (\<exists>j w s'. j < length (tp_threads s) \<and> is_worker (tp_threads s ! j) \<and> tp_act fwd j w b s = Some s')"
proof (cases "list_all (\<lambda>p. is_worker p \<longrightarrow> p = WExit) (tp_threads s)")
  case True
  with i show ?thesis by (simp add: tp_act_def is_destroyer_def set_pc_def)
next
  case False
  then obtain j where j: "j < length (tp_threads s)" "is_worker (tp_threads s ! j)" "tp_threads s ! j \<noteq> WExit"
    by (auto simp: list_all_iff in_set_conv_nth)
  note inv = tp_reach_inv[OF assms(1-3)]
  have rq: "rq_inv (tp_queue s)" using inv by (simp add: tp_inv_def pool_ok_def)
  have other: ?thesis if "tp_threads s ! j \<notin> {WGet, WGetBlocked}"
    using that j mtx by (cases "tp_threads s ! j") (auto simp: tp_act_def)
  show ?thesis
  proof (cases "WGetBlocked \<in> set (tp_threads s)")
    case True
    have "DJoin \<in># pcs s" using i by (metis nth_mem set_mset_mset)
    then have "getters (pcs s) \<le> q_length (tp_queue s)"
      using inv w by (force simp: tp_inv_def pool_ok_def shutdown_ok_def)
    moreover have "0 < getters (pcs s)" using True by (simp add: getters_def count_greater_zero_iff)
    ultimately have "\<not> rq_empty (tp_queue s)" by (simp add: rq_empty_def)
    from consumer_no_lost_wakeup_aux[OF inv True this, of b] obtain k v s' where
      "k < length (tp_threads s)" "tp_threads s ! k = WGet" "tp_act fwd k v b s = Some s'" by blast
    then show ?thesis by (metis is_worker.simps(3))
  next
    case False
    show ?thesis
    proof (cases "tp_threads s ! j = WGet")
      case True
      show ?thesis
      proof (cases "rq_empty (tp_queue s)")
        case empty: True
        with True j have "tp_act fwd j None b s = Some (set_pc j WGetBlocked s)"
          by (simp add: tp_act_def get_step_def)
        with j show ?thesis by blast
      next
        case False
        from get_enabled[OF rq this j(1) True] j show ?thesis by blast
      qed
    next
      case nget: False
      have "tp_threads s ! j \<noteq> WGetBlocked" using False nth_mem[OF j(1)] by metis
      with nget show ?thesis by (intro other) simp
    qed
  qed
qed

theorem destructor_join_progress_witness:
  "\<exists>s. tp_reach (\<lambda>_. True) 1 1 s \<and> tp_threads s = [CNew, DJoin, WLoop] \<and>
     ((\<exists>s'. tp_act (\<lambda>_. True) 1 None True s = Some s' \<and> tp_threads s' ! 1 = DEnd) \<or>
      (\<exists>j w s'. j < length (tp_threads s) \<and> is_worker (tp_threads s ! j) \<and>
         tp_act (\<lambda>_. True) j w True s = Some s'))"
proof -
  let ?as = "[(0,None,True), (0,None,True), (0,None,True), (0,None,True), (0,None,True), (2,None,True),
     (0,None,True), (1,None,True), (1,None,True), (1,None,True)]"
  obtain s where s: "tp_run (\<lambda>_. True) ?as (TaskPool_new 1 1) = Some s"
    "tp_threads s = [CNew, DJoin, WLoop]" "tp_mutex s = None" by (simp add: tp_eval)
  have r: "tp_reach (\<lambda>_. True) 1 1 s" by (rule tp_run_reach[OF s(1) tp_reach.start])
  have "(\<exists>s'. tp_act (\<lambda>_. True) 1 None True s = Some s' \<and> tp_threads s' ! 1 = DEnd) \<or>
      (\<exists>j w s'. j < length (tp_threads s) \<and> is_worker (tp_threads s ! j) \<and>
         tp_act (\<lambda>_. True) j w True s = Some s')"
    by (rule destructor_join_progress[OF r]) (simp_all add: s(2,3) M32_def workers_def)
  with r s(2) show ?thesis by blast
qed

text \<open>
  What \<^verbatim>\<open>forwardWait\<close> returns is never a failure code, and it is \<^verbatim>\<open>CVI_RC_SUCCESS\<close> exactly for
  the tasks whose \<^verbatim>\<open>forward\<close> failed: the \<^verbatim>\<open>bool\<close> is stored as if it were a \<^verbatim>\<open>CVI_RC\<close>.
\<close>

lemma forward_wait_code:
  assumes "tp_reach fwd n m s" "0 < n" "n * 4 < M32" "CDone t r \<in> set (tp_threads s)"
  shows "r = (if fwd t then 1 else 0) \<and> (r = CVI_RC_SUCCESS \<longleftrightarrow> \<not> fwd t)"
proof -
  have "codes_ok fwd (tp_ret s) (pcs s)"
    using tp_reach_inv[OF assms(1-3)] by (simp add: tp_inv_def pool_ok_def)
  with assms(4) have "r = forward_code (fwd t)" by (simp add: codes_ok_def)
  then show ?thesis by (simp add: forward_code_def CVI_RC_SUCCESS_def)
qed

lemma forward_wait_code_witness:
  "\<exists>s. tp_reach (\<lambda>_. False) 1 1 s \<and> CDone 0 CVI_RC_SUCCESS \<in> set (tp_threads s)"
proof -
  let ?as = "[(0,None,True), (0,None,True), (0,None,True), (0,None,True), (0,None,True), (2,None,True),
     (0,None,True), (0,None,True), (0,None,True), (2,None,True), (2,None,True), (0,None,True),
     (0,None,True), (2,None,True), (2,None,True), (0,None,True)]"
  obtain s r where s: "tp_run (\<lambda>_. False) ?as (TaskPool_new 1 1) = Some s" "CDone 0 r \<in> set (tp_threads s)"
    by (simp add: tp_eval)
  have r: "tp_reach (\<lambda>_. False) 1 1 s" by (rule tp_run_reach[OF s(1) tp_reach.start])
  from forward_wait_code[OF r _ _ s(2)] s(2) r show ?thesis by (auto simp: M32_def)
qed

text \<open>
  A wake-up of \<^verbatim>\<open>RingQueue::put\<close> can be lost: \<^verbatim>\<open>get\<close> notifies a producer only when the queue was
  full, so with two producers asleep, two removals wake one of them; a reachable state has a
  producer asleep in \<^verbatim>\<open>put\<close> beside an empty queue and a sleeping worker.
\<close>

lemma producer_lost_wakeup:
  "\<exists>s. tp_reach (\<lambda>_. True) 1 2 s \<and> tp_threads s = [CDone 3 1, CPutBlocked 4, DStart, WGetBlocked] \<and>
     rq_empty (tp_queue s) \<and> (\<forall>w b. tp_act (\<lambda>_. True) 1 w b s = None \<and> tp_act (\<lambda>_. True) 3 w b s = None)"
proof -
  let ?c = "(0::nat, None::nat option, False)" and ?p = "(1::nat, None::nat option, False)"
    and ?w = "(3::nat, None::nat option, False)"
  let ?a1 = "[?c, ?c, ?c, ?c, ?c, ?w, ?c, ?c, ?c]"
  let ?a2 = "[?c, ?c, ?c, ?c, ?c, ?c, ?c, ?c, ?c, ?c, ?c, ?c, ?c, ?c, ?c, ?p, ?p, ?p, ?p]"
  let ?a3 = "[?w, (3, Some 0, False), ?w, ?w, ?w, ?w, ?w, ?w, ?c]"
  let ?a4 = "[?w, ?w, ?w, ?w, ?w, ?w, ?w, ?w, ?w, ?w, (0, None, True), ?c]"
  obtain s where s: "tp_run (\<lambda>_. True) (?a1 @ ?a2 @ ?a3 @ ?a4) (TaskPool_new 1 2) = Some s"
    "tp_threads s = [CDone 3 1, CPutBlocked 4, DStart, WGetBlocked]" "rq_empty (tp_queue s)"
    by (simp add: tp_eval)
  have "tp_reach (\<lambda>_. True) 1 2 s" by (rule tp_run_reach[OF s(1) tp_reach.start])
  with s(2,3) show ?thesis by (intro exI[of _ s]) (simp add: tp_act_def is_destroyer_def)
qed

text \<open>
  A destructor that cannot go on: it stands before or sleeps in the \<^verbatim>\<open>put\<close> of a terminate task, the
  queue is full, every worker has returned, and no client is about to spawn new ones.
\<close>

definition stuck :: "nat \<Rightarrow> nat \<Rightarrow> task_pool \<Rightarrow> bool" where
  "stuck i k s \<longleftrightarrow> i < length (tp_threads s) \<and> tp_threads s ! i \<in> {DPut (Suc k), DPutBlocked (Suc k)} \<and> rq_full (tp_queue s) \<and> tp_started s \<and>
     (\<forall>p\<in>set (tp_threads s). (is_worker p \<longrightarrow> p = WExit) \<and> p \<noteq> CLock \<and> (\<forall>j. p \<noteq> CSpawn j))"

lemma stuck_set_pc:
  assumes "stuck i k s" "j < length (tp_threads s)" "j = i \<Longrightarrow> p \<in> {DPut (Suc k), DPutBlocked (Suc k)}" "is_worker p \<Longrightarrow> p = WExit" "p \<noteq> CLock" "\<And>n. p \<noteq> CSpawn n"
  shows "stuck i k (set_pc j p s)"
proof -
  have "\<forall>q\<in>set ((tp_threads s)[j := p]). (is_worker q \<longrightarrow> q = WExit) \<and> q \<noteq> CLock \<and> (\<forall>n. q \<noteq> CSpawn n)"
    using assms(1,4-6) set_update_subset_insert[of "tp_threads s" j p] unfolding stuck_def by blast
  then show ?thesis using assms(1-3) by (auto simp: stuck_def set_pc_def nth_list_update)
qed

lemma stuck_ret: "stuck i k (s\<lparr>tp_ret := r\<rparr>) = stuck i k s" "stuck i k (s\<lparr>tp_mutex := x\<rparr>) = stuck i k s" "stuck i k (s\<lparr>tp_done := b\<rparr>) = stuck i k s"
  by (simp_all add: stuck_def)

lemma stuck_step:
  assumes "stuck i k s" "tp_act fwd j w b s = Some s'"
  shows "stuck i k s'"
proof -
  have j: "j < length (tp_threads s)" using assms(2) by (auto simp: tp_act_def split: if_splits)
  let ?p = "tp_threads s ! j"
  have p: "is_worker ?p \<longrightarrow> ?p = WExit" "?p \<noteq> CLock" "\<And>n. ?p \<noteq> CSpawn n" "j = i \<Longrightarrow> ?p \<in> {DPut (Suc k), DPutBlocked (Suc k)}"
    using assms(1) j unfolding stuck_def by (auto dest!: nth_mem[OF j, THEN bspec[rotated]])
  have full: "rq_full (tp_queue s)" "tp_started s" using assms(1) by (auto simp: stuck_def)
  show ?thesis using assms(2) j p full
    by (cases ?p) (auto simp: tp_act_def is_destroyer_def put_step_def wait_step_def stuck_ret split: if_splits nat.splits
        intro!: stuck_set_pc[OF assms(1)] stuck_set_pc[OF stuck_ret(1)[THEN iffD2, OF assms(1)]] stuck_set_pc[OF stuck_ret(2)[THEN iffD2, OF assms(1)]]
          stuck_set_pc[OF stuck_ret(3)[THEN iffD2, OF assms(1)]])
qed

text \<open>
  C40: the destructor can wait for ever: workers leave as soon as they see \<^verbatim>\<open>_done\<close>, whatever is still
  queued. If the queue is full when the last of them is gone and the destructor has not queued all
  of its terminate tasks, then, unless a client is just starting the pool, it never gets any further: after every continuation of the run, by
  any interleaving of the clients, it is still before the same \<^verbatim>\<open>put\<close> and the queue is still full.
\<close>

theorem destructor_deadlock:
  assumes "tp_started s" and i: "i < length (tp_threads s)" "tp_threads s ! i \<in> {DPut (Suc k), DPutBlocked (Suc k)}"
    and full: "rq_full (tp_queue s)" and gone: "\<forall>p\<in>set (tp_threads s). is_worker p \<longrightarrow> p = WExit"
    and "\<forall>p\<in>set (tp_threads s). p \<noteq> CLock \<and> (\<forall>j. p \<noteq> CSpawn j)"
    and run: "(tp_step fwd)\<^sup>*\<^sup>* s s'"
  shows "tp_threads s' ! i \<in> {DPut (Suc k), DPutBlocked (Suc k)} \<and> rq_full (tp_queue s') \<and> (\<forall>p\<in>set (tp_threads s'). is_worker p \<longrightarrow> p = WExit)"
proof -
  have "stuck i k s" using assms by (auto simp: stuck_def)
  with run have "stuck i k s'" by (induction rule: rtranclp_induct) (auto elim!: tp_stepE intro: stuck_step)
  then show ?thesis by (auto simp: stuck_def)
qed

theorem destructor_deadlock_witness:
  "\<exists>s. tp_reach (\<lambda>_. True) 1 1 s \<and> tp_threads s = [CSubmitted 2, DPutBlocked 1, WExit] \<and> rq_full (tp_queue s) \<and>
     (\<forall>s'. (tp_step (\<lambda>_. True))\<^sup>*\<^sup>* s s' \<longrightarrow> tp_threads s' ! 1 \<in> {DPut 1, DPutBlocked 1} \<and> rq_full (tp_queue s'))"
proof -
  let ?c = "(0::nat, None::nat option, False)" and ?d = "(1::nat, None::nat option, False)"
    and ?w = "(2::nat, None::nat option, False)"
  obtain s where s: "tp_run (\<lambda>_. True) [?c, ?c, ?c, ?c, ?c, ?w, ?c, ?c, ?c, ?c, ?c, ?c, ?c, ?c,
      ?c, ?c, ?c, ?c, ?c, ?d, ?w, ?d] (TaskPool_new 1 1) = Some s"
    "tp_threads s = [CSubmitted 2, DPutBlocked 1, WExit]" "rq_full (tp_queue s)" "tp_started s"
    by (simp add: tp_eval)
  have r: "tp_reach (\<lambda>_. True) 1 1 s" by (rule tp_run_reach[OF s(1) tp_reach.start])
  have "tp_threads s' ! 1 \<in> {DPut (Suc 0), DPutBlocked (Suc 0)} \<and> rq_full (tp_queue s') \<and> (\<forall>p\<in>set (tp_threads s'). is_worker p \<longrightarrow> p = WExit)"
    if "(tp_step (\<lambda>_. True))\<^sup>*\<^sup>* s s'" for s'
    by (rule destructor_deadlock[OF s(4) _ _ s(3) _ _ that]) (simp_all add: s(2))
  with r s(2,3) show ?thesis by auto
qed

text \<open>
  \<^verbatim>\<open>startPool\<close> tests \<^verbatim>\<open>_started\<close> before it takes the mutex, so two clients that submit their
  first tasks together both spawn workers; the destructor then queues one terminate task for two
  workers and its join waits forever on the one left asleep in \<^verbatim>\<open>get\<close>.
\<close>

lemma double_start_join_deadlock:
  "\<exists>s. tp_reach (\<lambda>_. True) 1 2 s \<and> tp_threads s = [CNew, CNew, DJoin, WExit, WGetBlocked] \<and>
     rq_empty (tp_queue s) \<and>
     (\<forall>w b. tp_act (\<lambda>_. True) 2 w b s = None \<and> tp_act (\<lambda>_. True) 3 w b s = None \<and>
       tp_act (\<lambda>_. True) 4 w b s = None)"
proof -
  let ?c = "(0::nat, None::nat option, False)" and ?p = "(1::nat, None::nat option, False)"
    and ?d = "(2::nat, None::nat option, False)"
    and ?v = "(3::nat, None::nat option, False)" and ?w = "(4::nat, None::nat option, False)"
  obtain s where s: "tp_run (\<lambda>_. True) [?c, ?c, ?p, ?p, ?c, ?c, ?c, ?v, ?c, ?p, ?p, ?p, ?w, ?p,
      ?v, ?v, ?w, ?w, ?d, (2, Some 3, False), ?d, ?v, ?v] (TaskPool_new 1 2) = Some s"
    "tp_threads s = [CNew, CNew, DJoin, WExit, WGetBlocked]" "rq_empty (tp_queue s)"
    by (simp add: tp_eval)
  have "tp_reach (\<lambda>_. True) 1 2 s" by (rule tp_run_reach[OF s(1) tp_reach.start])
  with s(2,3) show ?thesis by (intro exI[of _ s]) (simp add: tp_act_def is_destroyer_def)
qed

end
