(* ===== verification/ModelStream.thy ===== *)
theory ModelStream
  imports CviPrelude
begin

text \<open>
  The model sources of \<^verbatim>\<open>src/common/stream.cpp\<close> (a file, a buffer in memory, a file descriptor with
  a user offset) and the loader of custom CPU functions of \<^verbatim>\<open>src/common/section.cpp\<close>.
  A read yields the bytes that reach the caller's buffer and the returned count.  \<^verbatim>\<open>size_t\<close> is
  64 bits wide (the aarch64 and riscv64 builds).
\<close>

section \<open>Streams\<close>


record file_stream =
  fs_file :: "byte list"
  fs_length :: u64

record buffer_stream =
  bs_buffer :: "byte list"
  bs_length :: u64

record fd_stream =
  fd_file :: "byte list"
  fd_offset :: u64
  fd_length :: u64

text \<open>
  The constructors.  A file that cannot be opened leaves \<^verbatim>\<open>_length\<close> at its initial 0; the length
  of a descriptor stream is what \<^verbatim>\<open>lseek\<close> to the end gives, less the user offset.
\<close>

definition FileStream_open :: "byte list option \<Rightarrow> file_stream" where
  "FileStream_open file = (case file of
     None \<Rightarrow> \<lparr>fs_file = [], fs_length = 0\<rparr>
   | Some bytes \<Rightarrow> \<lparr>fs_file = bytes, fs_length = length bytes\<rparr>)"

definition BufferStream_open :: "byte list \<Rightarrow> u64 \<Rightarrow> buffer_stream" where
  "BufferStream_open buf sz = \<lparr>bs_buffer = buf, bs_length = sz\<rparr>"

definition FdStream_open :: "byte list \<Rightarrow> u64 \<Rightarrow> fd_stream" where
  "FdStream_open file ud_offset = \<lparr>fd_file = file, fd_offset = ud_offset,
     fd_length = sub64 (length file) ud_offset\<rparr>"

text \<open>What a read at an absolute file position delivers: at most the bytes up to the end.\<close>

definition read_at :: "byte list \<Rightarrow> u64 \<Rightarrow> u64 \<Rightarrow> byte list" where
  "read_at file pos sz = take sz (drop pos file)"

definition FileStream_read :: "file_stream \<Rightarrow> u64 \<Rightarrow> u64 \<Rightarrow> (byte list \<times> u64) res" where
  "FileStream_read s offset sz = assert_res (add64 offset sz \<le> fs_length s)
     (Inr (read_at (fs_file s) offset sz, sz))"

definition BufferStream_read :: "buffer_stream \<Rightarrow> u64 \<Rightarrow> u64 \<Rightarrow> (byte list \<times> u64) res" where
  "BufferStream_read s offset sz = assert_res (add64 offset sz \<le> bs_length s)
     (if offset + sz \<le> length (bs_buffer s) then Inr (read_at (bs_buffer s) offset sz, sz)
      else Inl OutOfRange)"

definition FdStream_read :: "fd_stream \<Rightarrow> u64 \<Rightarrow> u64 \<Rightarrow> (byte list \<times> u64) res" where
  "FdStream_read s offset sz = assert_res (add64 offset sz \<le> fd_length s)
     (let bytes = read_at (fd_file s) (add64 offset (fd_offset s)) sz
      in Inr (bytes, length bytes))"

section \<open>Loading custom functions\<close>

text \<open>
  The operating system answers of \<^verbatim>\<open>CustomFunctionSection::load\<close>: whether the write to the memory
  file succeeded, whether the library could be opened, and its two symbols.
\<close>

record dso_env =
  dso_write_ok :: "byte list \<Rightarrow> bool"
  dso_open_ok :: "byte list \<Rightarrow> bool"
  dso_num :: "byte list \<Rightarrow> int option"
  dso_funcs :: "byte list \<Rightarrow> (string \<times> nat) list option"

record cpu_runtime_function =
  crf_name :: string
  crf_open :: nat

text \<open>The loop that registers the functions; reading past the exported table is out of range.\<close>

fun push_custom :: "(string \<times> nat) list \<Rightarrow> nat \<Rightarrow> cpu_runtime_function list \<Rightarrow> cpu_runtime_function list res"
  where
  "push_custom funcs 0 acc = Inr acc"
| "push_custom [] (Suc k) acc = Inl OutOfRange"
| "push_custom (f # fs) (Suc k) acc = push_custom fs k (acc @ [\<lparr>crf_name = fst f, crf_open = snd f\<rparr>])"

definition CustomFunctionSection_load :: "dso_env \<Rightarrow> (u64 \<Rightarrow> u64 \<Rightarrow> (byte list \<times> u64) res) \<Rightarrow> u64 \<Rightarrow> u64 \<Rightarrow>
    cpu_runtime_function list \<Rightarrow> (bool \<times> cpu_runtime_function list) res" where
  "CustomFunctionSection_load env rd offset sz cpu_functions =
    bind_res (rd offset sz) (\<lambda>(buf, _).
      if \<not> dso_write_ok env buf then Inr (False, cpu_functions)
      else if \<not> dso_open_ok env buf then Inr (False, cpu_functions)
      else case dso_num env buf of
        None \<Rightarrow> Inr (False, cpu_functions)
      | Some num \<Rightarrow> (case dso_funcs env buf of
          None \<Rightarrow> Inr (False, cpu_functions)
        | Some custom_funcs \<Rightarrow>
            bind_res (push_custom custom_funcs (nat num) cpu_functions) (\<lambda>fs. Inr (True, fs))))"

section \<open>The stream interface\<close>

text \<open>
  \<^verbatim>\<open>BaseStream\<close> as the loader of a model uses it: inside its contents a read delivers exactly the
  bytes asked for, outside (as far as the sum does not wrap) it asserts.
\<close>

locale base_stream =
  fixes rd :: "'s \<Rightarrow> u64 \<Rightarrow> u64 \<Rightarrow> (byte list \<times> u64) res"
    and len :: "'s \<Rightarrow> u64"
    and contents :: "'s \<Rightarrow> byte list"
    and inv :: "'s \<Rightarrow> bool"
  assumes len_contents: "inv s \<Longrightarrow> len s = length (contents s)"
    and read_inside: "\<lbrakk>inv s; off + sz \<le> len s\<rbrakk> \<Longrightarrow> rd s off sz = Inr (take sz (drop off (contents s)), sz)"
    and read_outside: "\<lbrakk>inv s; len s < off + sz; off + sz < M64\<rbrakk> \<Longrightarrow> rd s off sz = Inl AssertFailed"
begin

lemma read_all: "inv s \<Longrightarrow> rd s 0 (len s) = Inr (contents s, len s)"
  by (simp add: read_inside len_contents)

lemma read_split:
  assumes "inv s" "rd s off (a + b) = Inr (bytes, n)" "off + (a + b) < M64"
  obtains xs ys where "rd s off a = Inr (xs, a)" "rd s (off + a) b = Inr (ys, b)" "bytes = xs @ ys" "n = a + b"
proof -
  have "off + (a + b) \<le> len s" using read_outside[OF assms(1), of off "a + b"] assms(2,3) by (metis Inl_Inr_False not_le)
  then have "bytes = take (a + b) (drop off (contents s))" "n = a + b"
    "rd s off a = Inr (take a (drop off (contents s)), a)"
    "rd s (off + a) b = Inr (take b (drop (off + a) (contents s)), b)"
    using read_inside[OF assms(1)] assms(2) by (auto simp: add.assoc)
  then show thesis using that by (simp add: take_add drop_drop add.commute)
qed

lemma read_length:
  assumes "inv s" "rd s off sz = Inr (bytes, n)" "off + sz < M64"
  shows "length bytes = sz \<and> n = sz"
proof -
  have "off + sz \<le> len s" using read_outside[OF assms(1), of off sz] assms(2,3) by (metis Inl_Inr_False not_le)
  with read_inside[OF assms(1) this] assms(2) len_contents[OF assms(1)] show ?thesis by auto
qed

end

lemma FileStream_sel [simp]:
  "fs_file (FileStream_open (Some f)) = f" "fs_length (FileStream_open (Some f)) = length f"
  by (simp_all add: FileStream_open_def)

interpretation file_rd: base_stream FileStream_read fs_length fs_file
  "\<lambda>s. fs_length s = length (fs_file s) \<and> fs_length s < M64"
  by unfold_locales (auto simp: FileStream_read_def assert_res_def read_at_def u64_simps)

interpretation buf_rd: base_stream BufferStream_read bs_length bs_buffer
  "\<lambda>s. bs_length s = length (bs_buffer s) \<and> bs_length s < M64"
  by unfold_locales (auto simp: BufferStream_read_def assert_res_def read_at_def u64_simps)

interpretation fd_rd: base_stream FdStream_read fd_length "\<lambda>s. drop (fd_offset s) (fd_file s)"
  "\<lambda>s. fd_offset s \<le> length (fd_file s) \<and> length (fd_file s) < M64 \<and>
       fd_length s = length (fd_file s) - fd_offset s"
proof (unfold_locales, goal_cases)
  case (2 s off sz)
  then show ?case
    by (auto simp: FdStream_read_def assert_res_def read_at_def u64_simps drop_drop Let_def)
qed (auto simp: FdStream_read_def assert_res_def u64_simps)

text \<open>
  The three stream classes are interchangeable: over the same bytes (for a descriptor, the
  bytes behind the user offset), every read whose end does not wrap past 64 bits gives the same
  result from a file, from a buffer and from a descriptor: the requested bytes when they are all
  there, a failed assertion otherwise.
\<close>

lemma stream_kinds_agree:
  assumes "length file < M64" "ud \<le> length file" "off + sz < M64" "bytes = drop ud file"
  shows "FileStream_read (FileStream_open (Some bytes)) off sz = FdStream_read (FdStream_open file ud) off sz \<and>
    BufferStream_read (BufferStream_open bytes (length bytes)) off sz =
      FdStream_read (FdStream_open file ud) off sz \<and>
    FdStream_read (FdStream_open file ud) off sz =
      (if off + sz \<le> length bytes then Inr (take sz (drop off bytes), sz) else Inl AssertFailed)"
proof -
  have i: "fs_length (FileStream_open (Some bytes)) = length (fs_file (FileStream_open (Some bytes))) \<and>
      fs_length (FileStream_open (Some bytes)) < M64"
    "bs_length (BufferStream_open bytes (length bytes)) = length (bs_buffer (BufferStream_open bytes (length bytes))) \<and>
      bs_length (BufferStream_open bytes (length bytes)) < M64"
    "fd_offset (FdStream_open file ud) \<le> length (fd_file (FdStream_open file ud)) \<and>
      length (fd_file (FdStream_open file ud)) < M64 \<and>
      fd_length (FdStream_open file ud) = length (fd_file (FdStream_open file ud)) - fd_offset (FdStream_open file ud)"
    using assms by (auto simp: BufferStream_open_def FdStream_open_def u64_simps)
  show ?thesis
  proof (cases "off + sz \<le> length bytes")
    case True
    with file_rd.read_inside[OF i(1), of off sz] buf_rd.read_inside[OF i(2), of off sz]
      fd_rd.read_inside[OF i(3), of off sz] assms(4) show ?thesis
      by (simp add: BufferStream_open_def FdStream_open_def u64_simps assms(2))
  next
    case False
    with file_rd.read_outside[OF i(1), of off sz] buf_rd.read_outside[OF i(2), of off sz]
      fd_rd.read_outside[OF i(3), of off sz] assms(2-4) show ?thesis
      by (simp add: BufferStream_open_def FdStream_open_def u64_simps)
  qed
qed

lemma stream_kinds_agree_witness:
  "FdStream_read (FdStream_open [1, 2, 3, 4, 5] 1) 1 2 = Inr ([3, 4], 2) \<and>
   FileStream_read (FileStream_open (Some [2, 3, 4, 5])) 1 2 = Inr ([3, 4], 2)"
  using stream_kinds_agree[of "[1, 2, 3, 4, 5]" 1 1 2 "[2, 3, 4, 5]"] by (simp add: M64_def)

text \<open>
  The bounds test of the streams adds offset and size in 64 bits, so a range that wraps past
  the end of the address space passes it: the buffer stream then copies from outside its buffer
  instead of failing the assertion.
\<close>

lemma stream_bounds_wrap:
  assumes "bs_length s < M64" "offset < M64" "sz < M64" "M64 \<le> offset + sz"
    "offset + sz - M64 \<le> bs_length s" "bs_length s = length (bs_buffer s)"
  shows "BufferStream_read s offset sz = Inl OutOfRange"
proof -
  have "add64 offset sz = offset + sz - M64"
    using assms(2-4) by (simp add: add64_def le_mod_geq)
  with assms show ?thesis by (simp add: BufferStream_read_def)
qed

lemma push_custom_ok:
  "push_custom funcs k acc = Inr fs \<Longrightarrow>
   k \<le> length funcs \<and> fs = acc @ map (\<lambda>f. \<lparr>crf_name = fst f, crf_open = snd f\<rparr>) (take k funcs)"
  by (induction funcs k acc rule: push_custom.induct) auto

text \<open>
  Loading custom functions adds all of the library's functions behind the registered ones, in
  the order of its table, or on any failure leaves the registry as it was.
\<close>

lemma custom_functions_load:
  assumes "CustomFunctionSection_load env rd offset sz fs = Inr (ok, fs')"
  shows "if ok then \<exists>buf n num funcs. rd offset sz = Inr (buf, n) \<and> dso_write_ok env buf \<and> dso_open_ok env buf \<and>
       dso_num env buf = Some num \<and> dso_funcs env buf = Some funcs \<and> nat num \<le> length funcs \<and>
       fs' = fs @ map (\<lambda>f. \<lparr>crf_name = fst f, crf_open = snd f\<rparr>) (take (nat num) funcs)
     else fs' = fs"
proof -
  obtain buf n where rd: "rd offset sz = Inr (buf, n)"
    using assms by (auto simp: CustomFunctionSection_load_def result_simps)
  show ?thesis
  proof (cases "dso_write_ok env buf \<and> dso_open_ok env buf")
    case True
    with assms rd show ?thesis
      by (cases "dso_num env buf"; cases "dso_funcs env buf")
         (auto simp: CustomFunctionSection_load_def result_simps dest!: push_custom_ok)
  next
    case False
    with assms rd show ?thesis by (auto simp: CustomFunctionSection_load_def split: if_splits)
  qed
qed

lemma custom_functions_load_witness:
  "\<exists>fs'. CustomFunctionSection_load \<lparr>dso_write_ok = \<lambda>_. True, dso_open_ok = \<lambda>_. True, dso_num = \<lambda>_. Some 1,
       dso_funcs = \<lambda>_. Some [(''op'', 7)]\<rparr> (\<lambda>_ _. Inr ([0], 1)) 0 1 [] = Inr (True, fs') \<and>
     fs' = [\<lparr>crf_name = ''op'', crf_open = 7\<rparr>]"
proof -
  let ?env = "\<lparr>dso_write_ok = \<lambda>_. True, dso_open_ok = \<lambda>_. True, dso_num = \<lambda>_. Some 1,
       dso_funcs = \<lambda>_. Some [(''op'', 7)]\<rparr>"
  obtain fs' where r: "CustomFunctionSection_load ?env (\<lambda>_ _. Inr ([0], 1)) 0 1 [] = Inr (True, fs')"
    by (simp add: CustomFunctionSection_load_def)
  from custom_functions_load[OF r] r show ?thesis by simp
qed

end
