(* ===== verification/DeviceMem.thy ===== *)
theory DeviceMem
  imports CviPrelude
begin

text \<open>
  The device layer shared by all chips (\<^verbatim>\<open>src/soc/common/cvi_device_mem.cpp\<close>, class
  \<^verbatim>\<open>CviDeviceMem\<close>, with the structures of \<^verbatim>\<open>bm_types.h\<close>): device memory, cache maintenance,
  command buffer submission and the process-wide tables.

  The operating system is a parameter: a function that answers a call from the list of all calls
  made so far, so the answers may depend on the whole history.  Every operation appends its calls
  to the log kept in the state; the theorems about what is requested from the kernel are theorems
  about that log.  Objects behind pointers live in heaps indexed by the pointer's number,
  \<^const>\<open>None\<close> is the null pointer, and mapped memory is a function from virtual addresses to
  bytes.  The mutexes \<^verbatim>\<open>root_daemon_lock\<close> and the device lock make the table updates atomic.
\<close>

section \<open>The operating system\<close>

datatype syscall =
    SysOpen string | SysClose int
  | SysFlushFd int int | SysInvldFd int int
  | SysFlush int u64 u64 int | SysInvld int u64 u64 int
  | SysSubmit int int u32 | SysWait int u32
  | SysIonAlloc int u32 u64 | SysIonAllocLegacy int u32 u64
  | SysMmap u64 int | SysMunmap u64 u64
  | SysHeapQuery int
  | SysLoadTee int u64 u32 u64 u32 u64
  | SysSubmitTee int u64 "u64 list" u32
  | SysUnloadTee int u64 u64
  | SysMprotect u64 u64 bool

record sysret =
  sr_ret :: int
  sr_errno :: int
  sr_paddr :: u64
  sr_fd :: int
  sr_len :: u64
  sr_addr :: "u64 option"
  sr_status :: int
  sr_heaps :: "(nat \<times> u32) list"

text \<open>
  The environment of a run: the kernel, the constants a chip's constructor sets
  (\<^verbatim>\<open>GLOBAL_MEM_START_ADDR\<close>, \<^verbatim>\<open>g_gmem_size\<close>, \<^verbatim>\<open>tpu_dmabuf_header_m\<close>), whether
  \<^verbatim>\<open>TPU_ENABLE_PROTECT\<close> is set, the name of the TPU device, the page size, the kernel library's
  \<^verbatim>\<open>align_up\<close>, and the fuel of the polling loop of \<^verbatim>\<open>wait_dmabuf\<close>.
\<close>

record env =
  env_kernel :: "syscall list \<Rightarrow> syscall \<Rightarrow> sysret"
  env_start :: u64
  env_gmem :: u64
  env_magic :: "16 word"
  env_protect :: bool
  env_tpu_dev :: string
  env_pagesize :: u64
  env_align_up :: "u64 \<Rightarrow> u64 \<Rightarrow> u64"
  env_wait_fuel :: nat

section \<open>Objects and state\<close>

datatype bmerr = BM_SUCCESS | BM_ERR_FAILURE | BM_ERR_INVALID_ARGUMENT | BM_ERR_NOMEM | BM_ERR_OTHER int

datatype bmmem_type = BMMEM_TYPE_DEVICE | BMMEM_TYPE_DEVICE_NEURON | BMMEM_TYPE_DEVICE_COEFF
  | BMMEM_TYPE_HOST | BMMEM_TYPE_SYSTEM | BMMEM_TYPE_INVALID

record bm_memory =
  bm_v_addr :: u64
  bm_p_addr :: u64
  bm_size :: u64
  bm_type :: bmmem_type
  bm_is_prealloc :: bool
  bm_dma_fd :: int
  bm_user_ref_cnt :: int
  bm_offset :: u64

record bm_device =
  bd_index :: int
  bd_dev_fd :: int
  bd_ion_fd :: int
  bd_ion_heap_id :: u32
  bd_gmem_size :: u64

record bm_context =
  bc_dev :: ptr
  bc_seq_no :: nat
  bc_array_base0 :: u64
  bc_array_base1 :: u64
  bc_root_mem_array :: "(u64 \<times> ptr) list"

definition MEMARRAY_MAX_CNT :: nat where "MEMARRAY_MAX_CNT = 1000"
definition CTX_MAX_CNT :: nat where "CTX_MAX_CNT = 100"
definition SUBMIT_QUEUE_MAX :: nat where "SUBMIT_QUEUE_MAX = 100"
definition MAX_HEAP_COUNT :: nat where "MAX_HEAP_COUNT = 5"
definition ION_HEAP_TYPE_CARVEOUT :: nat where "ION_HEAP_TYPE_CARVEOUT = 2"

record dstate =
  ds_log :: "syscall list"
  ds_next :: nat
  ds_mems :: "nat \<rightharpoonup> bm_memory"
  ds_devs :: "nat \<rightharpoonup> bm_device"
  ds_ctxs :: "nat \<rightharpoonup> bm_context"
  ds_ram :: "u64 \<Rightarrow> byte"
  ds_ion_legacy :: bool
  ds_root_ctx_array :: "ptr list"
  ds_root_submit_array :: "nat list"
  ds_tee_firewall :: "u64 list"

definition dstate_init :: dstate where
  "dstate_init = \<lparr>ds_log = [], ds_next = 1, ds_mems = Map.empty, ds_devs = Map.empty,
     ds_ctxs = Map.empty, ds_ram = (\<lambda>_. 0), ds_ion_legacy = False,
     ds_root_ctx_array = replicate CTX_MAX_CNT None,
     ds_root_submit_array = replicate SUBMIT_QUEUE_MAX 0, ds_tee_firewall = replicate 6 0\<rparr>"

section \<open>Operations on the state\<close>

type_synonym 'a dm = "(dstate, 'a) sm"

definition sys :: "env \<Rightarrow> syscall \<Rightarrow> sysret dm" where
  "sys E c s = Inr (env_kernel E (ds_log s) c, s\<lparr>ds_log := ds_log s @ [c]\<rparr>)"

definition set_dev :: "ptr \<Rightarrow> bm_device \<Rightarrow> unit dm" where
  "set_dev p d = dmodify (\<lambda>s. s\<lparr>ds_devs := (ds_devs s)(the p \<mapsto> d)\<rparr>)"

definition set_ctx :: "ptr \<Rightarrow> bm_context \<Rightarrow> unit dm" where
  "set_ctx p c = dmodify (\<lambda>s. s\<lparr>ds_ctxs := (ds_ctxs s)(the p \<mapsto> c)\<rparr>)"

definition set_mem :: "ptr \<Rightarrow> bm_memory \<Rightarrow> unit dm" where
  "set_mem p m = dmodify (\<lambda>s. s\<lparr>ds_mems := (ds_mems s)(the p \<mapsto> m)\<rparr>)"

definition new_mem :: "bm_memory \<Rightarrow> ptr dm" where
  "new_mem m s = Inr (Some (ds_next s), s\<lparr>ds_next := ds_next s + 1, ds_mems := (ds_mems s)(ds_next s \<mapsto> m)\<rparr>)"

definition delete_mem :: "ptr \<Rightarrow> unit dm" where
  "delete_mem p = (case p of None \<Rightarrow> dret () | Some i \<Rightarrow> dmodify (\<lambda>s. s\<lparr>ds_mems := (ds_mems s)(i := None)\<rparr>))"

section \<open>Cache maintenance\<close>

definition mem_flush_fd :: "env \<Rightarrow> ptr \<Rightarrow> int \<Rightarrow> bmerr dm" where
  "mem_flush_fd E dev dma_fd = dbind (deref ds_devs dev) (\<lambda>d.
     dbind (sys E (SysFlushFd (bd_dev_fd d) dma_fd)) (\<lambda>r.
     dret (if sr_ret r \<noteq> 0 then BM_ERR_FAILURE else BM_SUCCESS)))"

definition mem_invld_fd :: "env \<Rightarrow> ptr \<Rightarrow> int \<Rightarrow> bmerr dm" where
  "mem_invld_fd E dev dma_fd = dbind (deref ds_devs dev) (\<lambda>d.
     dbind (sys E (SysInvldFd (bd_dev_fd d) dma_fd)) (\<lambda>r.
     dret (if sr_ret r \<noteq> 0 then BM_ERR_FAILURE else BM_SUCCESS)))"

text \<open>In some special cases the descriptor is broken, so a failed call reopens the device.\<close>

definition reopen_dev :: "env \<Rightarrow> ptr \<Rightarrow> nat \<Rightarrow> bmerr dm" where
  "reopen_dev E dev flag =
    (if flag = 1 then
       dbind (sys E (SysOpen (env_tpu_dev E))) (\<lambda>r.
         if sr_ret r \<le> 0 then dret BM_ERR_FAILURE
         else dbind (deref ds_devs dev) (\<lambda>d.
           dthen (sys E (SysClose (bd_dev_fd d)))
          (dthen (set_dev dev (d\<lparr>bd_dev_fd := sr_ret r\<rparr>)) (dret BM_SUCCESS))))
     else if flag = 2 then
       dbind (sys E (SysOpen ''/dev/ion'')) (\<lambda>r.
         if sr_ret r \<le> 0 then dret BM_ERR_FAILURE
         else dbind (deref ds_devs dev) (\<lambda>d.
           dthen (sys E (SysClose (bd_ion_fd d)))
          (dthen (set_dev dev (d\<lparr>bd_ion_fd := sr_ret r\<rparr>)) (dret BM_SUCCESS))))
     else dret BM_ERR_INVALID_ARGUMENT)"

text \<open>The cache-line aligned range \<^verbatim>\<open>mem_flush_ext\<close> and \<^verbatim>\<open>mem_invld_ext\<close> compute: address and size.\<close>

definition cache_range :: "env \<Rightarrow> u64 \<Rightarrow> u64 \<Rightarrow> u64 \<times> u64" where
  "cache_range E paddr sz =
    (let arg_paddr = add64 paddr (env_start E);
         addr_new = align_mask64 arg_paddr 0x40;
         arg_size = align_mask64 sz 0x40
     in if addr_new \<noteq> arg_paddr then (sub64 addr_new 0x40, add64 arg_size 0x40)
        else (arg_paddr, arg_size))"

text \<open>The retry loop of both: at most three calls, reopening the TPU device after each failure.\<close>

fun cache_retry :: "env \<Rightarrow> ptr \<Rightarrow> (int \<Rightarrow> syscall) \<Rightarrow> nat \<Rightarrow> int \<Rightarrow> bmerr dm" where
  "cache_retry E dev call 0 ret = dret (if ret = 0 then BM_SUCCESS else BM_ERR_FAILURE)"
| "cache_retry E dev call (Suc n) ret = dbind (deref ds_devs dev) (\<lambda>d.
     dbind (sys E (call (bd_dev_fd d))) (\<lambda>r.
       if sr_ret r \<noteq> 0 then dthen (reopen_dev E dev 1) (cache_retry E dev call n (sr_ret r))
       else dret BM_SUCCESS))"

definition mem_flush_ext :: "env \<Rightarrow> ptr \<Rightarrow> int \<Rightarrow> u64 \<Rightarrow> u64 \<Rightarrow> bmerr dm" where
  "mem_flush_ext E dev dma_fd paddr sz = (case cache_range E paddr sz of (a, n) \<Rightarrow>
     cache_retry E dev (\<lambda>fd. SysFlush fd a n dma_fd) 3 0)"

definition mem_invld_ext :: "env \<Rightarrow> ptr \<Rightarrow> int \<Rightarrow> u64 \<Rightarrow> u64 \<Rightarrow> bmerr dm" where
  "mem_invld_ext E dev dma_fd paddr sz = (case cache_range E paddr sz of (a, n) \<Rightarrow>
     cache_retry E dev (\<lambda>fd. SysInvld fd a n dma_fd) 3 0)"

section \<open>Command buffers and the kernel\<close>

definition submit_dmabuf :: "env \<Rightarrow> ptr \<Rightarrow> int \<Rightarrow> u32 \<Rightarrow> bmerr dm" where
  "submit_dmabuf E dev dma_fd seq_no = dbind (deref ds_devs dev) (\<lambda>d.
     dbind (sys E (SysSubmit (bd_dev_fd d) dma_fd seq_no)) (\<lambda>r.
       if sr_ret r \<noteq> 0 then dthen (reopen_dev E dev 1) (dret BM_ERR_FAILURE)
       else dret BM_SUCCESS))"

fun wait_loop :: "env \<Rightarrow> int \<Rightarrow> u32 \<Rightarrow> nat \<Rightarrow> sysret dm" where
  "wait_loop E fd seq_no 0 = dfail Diverged"
| "wait_loop E fd seq_no (Suc n) = dbind (sys E (SysWait fd seq_no)) (\<lambda>r.
     if sr_ret r \<noteq> 0 then wait_loop E fd seq_no n else dret r)"

definition wait_dmabuf :: "env \<Rightarrow> ptr \<Rightarrow> u32 \<Rightarrow> bmerr dm" where
  "wait_dmabuf E dev seq_no = dbind (deref ds_devs dev) (\<lambda>d.
     dbind (wait_loop E (bd_dev_fd d) seq_no (env_wait_fuel E)) (\<lambda>r.
     dret (if sr_status r \<noteq> 0 then BM_ERR_FAILURE else BM_SUCCESS)))"

section \<open>Allocation\<close>

definition EINVAL :: int where "EINVAL = 22"

text \<open>
  \<^verbatim>\<open>ion_ioctl\<close>: the current interface first, the legacy one once the kernel rejected the former.
  The result carries the address, the descriptor and the size the kernel granted.
\<close>

definition ion_ioctl :: "env \<Rightarrow> int \<Rightarrow> u32 \<Rightarrow> u64 \<Rightarrow> (u64 \<times> int \<times> u64) option dm" where
  "ion_ioctl E fd heap_id_mask sz =
    (let legacy = dbind (sys E (SysIonAllocLegacy fd heap_id_mask sz)) (\<lambda>r.
           dret (if sr_ret r = 0 then Some (sr_paddr r, sr_fd r, sr_len r) else None))
     in dbind (dget ds_ion_legacy) (\<lambda>ion_legacy.
       if \<not> ion_legacy then
         dbind (sys E (SysIonAlloc fd heap_id_mask sz)) (\<lambda>r.
           if sr_ret r = 0 then dret (Some (sr_paddr r, sr_fd r, sr_len r))
           else if sr_errno r = EINVAL then
             dthen (dmodify (\<lambda>s. s\<lparr>ds_ion_legacy := True\<rparr>)) legacy
           else dret None)
       else legacy))"

text \<open>
  One round of the loop of \<^verbatim>\<open>mem_alloc\<close>: the allocated block, or the size to go on with and the
  device to reopen (0 for none).
\<close>

definition alloc_round :: "env \<Rightarrow> ptr \<Rightarrow> u64 \<Rightarrow> ((u64 \<times> nat \<times> bmerr) + (u64 \<times> u64 \<times> int)) dm" where
  "alloc_round E dev sz = dbind (deref ds_devs dev) (\<lambda>d.
     dbind (ion_ioctl E (bd_ion_fd d) (push_bit (bd_ion_heap_id d) 1) sz) (\<lambda>got.
       case got of
         None \<Rightarrow> dret (Inl (sz, 2, BM_ERR_FAILURE))
       | Some (paddr, dma_fd, sz') \<Rightarrow>
           dbind (sys E (SysMmap sz' dma_fd)) (\<lambda>r.
             case sr_addr r of
               None \<Rightarrow> dthen (sys E (SysClose dma_fd)) (dret (Inl (sz', 0, BM_ERR_OTHER (-1))))
             | Some user_addr \<Rightarrow>
                 let p = sub64 paddr (env_start E) in
                 dbind (mem_invld_ext E dev dma_fd p sz') (\<lambda>ret.
                   if ret \<noteq> BM_SUCCESS then
                     dthen (sys E (SysMunmap user_addr sz'))
                    (dthen (sys E (SysClose dma_fd)) (dret (Inl (sz', 1, ret))))
                   else dret (Inr (p, user_addr, dma_fd))))))"

fun alloc_loop :: "env \<Rightarrow> ptr \<Rightarrow> nat \<Rightarrow> u64 \<Rightarrow> bmerr \<Rightarrow> (bmerr + (u64 \<times> u64 \<times> int)) dm" where
  "alloc_loop E dev 0 sz ret = dret (Inl ret)"
| "alloc_loop E dev (Suc n) sz ret = dbind (alloc_round E dev sz) (\<lambda>r.
     case r of
       Inr blk \<Rightarrow> dret (Inr blk)
     | Inl (sz', err_flag, ret') \<Rightarrow>
         if err_flag > 0 then dthen (reopen_dev E dev err_flag) (alloc_loop E dev n sz' ret')
         else alloc_loop E dev n sz' ret')"

definition mem_alloc :: "env \<Rightarrow> ptr \<Rightarrow> u64 \<Rightarrow> (bmerr + (u64 \<times> u64 \<times> int)) dm" where
  "mem_alloc E dev sz = alloc_loop E dev 3 sz BM_SUCCESS"

definition mem_free :: "env \<Rightarrow> u64 \<Rightarrow> u64 \<Rightarrow> int \<Rightarrow> bmerr dm" where
  "mem_free E vaddr sz dma_fd =
     dthen (sys E (SysMunmap vaddr sz)) (dthen (sys E (SysClose dma_fd)) (dret BM_SUCCESS))"

text \<open>The search for the carve-out heap among the heaps the kernel reports.\<close>

definition ion_query_heap :: "env \<Rightarrow> ptr \<Rightarrow> bmerr dm" where
  "ion_query_heap E dev = dbind (deref ds_devs dev) (\<lambda>d.
     dbind (sys E (SysHeapQuery (bd_ion_fd d))) (\<lambda>r.
       if sr_ret r \<noteq> 0 then dret BM_ERR_FAILURE
       else let heap_id = (case find (\<lambda>h. fst h = ION_HEAP_TYPE_CARVEOUT) (sr_heaps r) of
                  None \<Rightarrow> MAX_HEAP_COUNT + 1 | Some h \<Rightarrow> snd h)
            in if heap_id > MAX_HEAP_COUNT then dret BM_ERR_FAILURE
               else dthen (set_dev dev (d\<lparr>bd_ion_heap_id := heap_id\<rparr>)) (dret BM_SUCCESS)))"

section \<open>Trusted execution\<close>

definition load_tee :: "env \<Rightarrow> ptr \<Rightarrow> u64 \<Rightarrow> u32 \<Rightarrow> u64 \<Rightarrow> u32 \<Rightarrow> u64 \<Rightarrow> bmerr dm" where
  "load_tee E ctx cmdbuf_addr_ree cmdbuf_len_ree weight_addr_ree weight_len_ree neuron_addr_ree =
    dbind (deref ds_ctxs ctx) (\<lambda>c. dbind (deref ds_devs (bc_dev c)) (\<lambda>d.
    dbind (sys E (SysLoadTee (bd_dev_fd d) (add64 cmdbuf_addr_ree (env_start E)) cmdbuf_len_ree
        (add64 weight_addr_ree (env_start E)) weight_len_ree (add64 neuron_addr_ree (env_start E)))) (\<lambda>r.
    dthen (dassert (sr_ret r = 0)) (dret BM_SUCCESS))))"

definition run_tee :: "env \<Rightarrow> ptr \<Rightarrow> u32 \<Rightarrow> u64 \<Rightarrow> u64 list \<Rightarrow> bmerr dm" where
  "run_tee E ctx seq_no dmabuf_addr bases =
    dbind (deref ds_ctxs ctx) (\<lambda>c. dbind (deref ds_devs (bc_dev c)) (\<lambda>d.
    dbind (sys E (SysSubmitTee (bd_dev_fd d) dmabuf_addr bases seq_no)) (\<lambda>r.
    dthen (dassert (sr_ret r = 0)) (dret BM_SUCCESS))))"

section \<open>Memory objects\<close>

text \<open>
  Recording an allocation in the first free entry of the context's table (an entry is free when
  its address is 0); a full table only logs a warning.
\<close>

definition root_mem_insert :: "u64 \<Rightarrow> ptr \<Rightarrow> (u64 \<times> ptr) list \<Rightarrow> (u64 \<times> ptr) list" where
  "root_mem_insert p_addr mem arr = (case find_index (\<lambda>e. fst e = 0) arr of
     None \<Rightarrow> arr | Some i \<Rightarrow> arr[i := (p_addr, mem)])"

definition root_mem_remove :: "u64 \<Rightarrow> (u64 \<times> ptr) list \<Rightarrow> (u64 \<times> ptr) list" where
  "root_mem_remove p_addr arr = (case find_index (\<lambda>e. fst e = p_addr) arr of
     None \<Rightarrow> arr | Some i \<Rightarrow> arr[i := (0, None)])"

definition alloc_object :: "env \<Rightarrow> ptr \<Rightarrow> u64 \<Rightarrow> ptr dm" where
  "alloc_object E ctx sz = dbind (deref ds_ctxs ctx) (\<lambda>c.
     dbind (mem_alloc E (bc_dev c) sz) (\<lambda>r. case r of
       Inl _ \<Rightarrow> dfail AssertFailed
     | Inr (p_addr, v_addr, dma_fd) \<Rightarrow>
         dbind (new_mem \<lparr>bm_v_addr = v_addr, bm_p_addr = p_addr, bm_size = sz,
             bm_type = BMMEM_TYPE_DEVICE, bm_is_prealloc = False, bm_dma_fd = dma_fd,
             bm_user_ref_cnt = 0, bm_offset = 0\<rparr>) (\<lambda>mem.
         dbind (deref ds_ctxs ctx) (\<lambda>c'.
         dthen (set_ctx ctx (c'\<lparr>bc_root_mem_array := root_mem_insert p_addr mem (bc_root_mem_array c')\<rparr>))
         (dret mem)))))"

definition mem_alloc_raw :: "env \<Rightarrow> ptr \<Rightarrow> u64 \<Rightarrow> ptr dm" where
  "mem_alloc_raw E ctx sz = alloc_object E ctx sz"

definition mem_alloc_pagesize :: "env \<Rightarrow> ptr \<Rightarrow> u64 \<Rightarrow> ptr dm" where
  "mem_alloc_pagesize E ctx sz = alloc_object E ctx (env_align_up E sz (env_pagesize E))"

definition mem_prealloc_raw :: "ptr \<Rightarrow> ptr \<Rightarrow> u64 \<Rightarrow> u64 \<Rightarrow> ptr dm" where
  "mem_prealloc_raw ctx mem offset sz = dthen (dassert (mem \<noteq> None))
    (dbind (deref ds_mems mem) (\<lambda>m.
     dthen (dassert (bm_size m \<ge> add64 sz offset))
    (new_mem \<lparr>bm_v_addr = add64 (bm_v_addr m) offset, bm_p_addr = add64 (bm_p_addr m) offset,
       bm_size = sz, bm_type = BMMEM_TYPE_DEVICE, bm_is_prealloc = True, bm_dma_fd = bm_dma_fd m,
       bm_user_ref_cnt = 0, bm_offset = offset\<rparr>)))"

text \<open>
  \<^verbatim>\<open>mem_free_ex\<close> walks the contexts of the process; in each one's table it frees the first entry
  with the given address.  The variable \<^verbatim>\<open>device_mem\<close> keeps the last object found, which is deleted
  at the end.
\<close>

fun free_ex_loop :: "env \<Rightarrow> u64 \<Rightarrow> ptr list \<Rightarrow> ptr \<Rightarrow> ptr dm" where
  "free_ex_loop E p_addr [] found = dret found"
| "free_ex_loop E p_addr (None # rest) found = free_ex_loop E p_addr rest found"
| "free_ex_loop E p_addr (Some i # rest) found = dbind (deref ds_ctxs (Some i)) (\<lambda>c.
     case find_index (\<lambda>e. fst e = p_addr) (bc_root_mem_array c) of
       None \<Rightarrow> free_ex_loop E p_addr rest found
     | Some k \<Rightarrow>
         let mem = snd (bc_root_mem_array c ! k) in
         dbind (deref ds_mems mem) (\<lambda>m.
         dthen (mem_free E (bm_v_addr m) (bm_size m) (bm_dma_fd m))
        (dthen (set_ctx (Some i) (c\<lparr>bc_root_mem_array := (bc_root_mem_array c)[k := (0, None)]\<rparr>))
         (free_ex_loop E p_addr rest mem))))"

definition mem_free_ex :: "env \<Rightarrow> u64 \<Rightarrow> unit dm" where
  "mem_free_ex E p_addr = dbind (dget ds_root_ctx_array) (\<lambda>arr.
     dbind (free_ex_loop E p_addr arr None) delete_mem)"

definition checked_mem :: "ptr \<Rightarrow> bm_memory dm" where
  "checked_mem mem = dbind (deref ds_mems mem) (\<lambda>m.
     dthen (dassert (bm_type m = BMMEM_TYPE_DEVICE)) (dret m))"

definition mem_size :: "ptr \<Rightarrow> u64 dm" where
  "mem_size mem = (if mem = None then dret 0 else dbind (checked_mem mem) (\<lambda>m. dret (bm_size m)))"

definition mem_p_addr :: "ptr \<Rightarrow> u64 dm" where
  "mem_p_addr mem = (if mem = None then dret 0 else dbind (checked_mem mem) (\<lambda>m. dret (bm_p_addr m)))"

definition mem_v_addr :: "ptr \<Rightarrow> u64 dm" where
  "mem_v_addr mem = dbind (checked_mem mem) (\<lambda>m. dret (bm_v_addr m))"

definition mem_inc_ref :: "ptr \<Rightarrow> int dm" where
  "mem_inc_ref mem = dbind (checked_mem mem) (\<lambda>m. let n = to_s32 (bm_user_ref_cnt m + 1) in
     dthen (set_mem mem (m\<lparr>bm_user_ref_cnt := n\<rparr>)) (dret n))"

definition mem_dec_ref :: "ptr \<Rightarrow> int dm" where
  "mem_dec_ref mem = dbind (checked_mem mem) (\<lambda>m. let n = to_s32 (bm_user_ref_cnt m - 1) in
     dthen (set_mem mem (m\<lparr>bm_user_ref_cnt := n\<rparr>)) (dret n))"

section \<open>Copies\<close>

definition store_bytes :: "u64 \<Rightarrow> byte list \<Rightarrow> (u64 \<Rightarrow> byte) \<Rightarrow> u64 \<Rightarrow> byte" where
  "store_bytes a bs ram x = (if a \<le> x \<and> x < a + length bs then bs ! (x - a) else ram x)"

definition load_bytes :: "u64 \<Rightarrow> nat \<Rightarrow> (u64 \<Rightarrow> byte) \<Rightarrow> byte list" where
  "load_bytes a n ram = map (\<lambda>i. ram (a + i)) [0..<n]"

text \<open>\<^verbatim>\<open>memcpy\<close> from a caller's buffer that must hold the bytes, and to one.\<close>

definition memcpy_in :: "u64 \<Rightarrow> byte list \<Rightarrow> u64 \<Rightarrow> unit dm" where
  "memcpy_in v_addr src sz = (if sz \<le> length src
     then dmodify (\<lambda>s. s\<lparr>ds_ram := store_bytes v_addr (take sz src) (ds_ram s)\<rparr>)
     else dfail OutOfRange)"

definition ctx_dev :: "ptr \<Rightarrow> ptr dm" where
  "ctx_dev ctx = dbind (deref ds_ctxs ctx) (\<lambda>c. dret (bc_dev c))"

definition mem_memcpy_s2d :: "env \<Rightarrow> ptr \<Rightarrow> ptr \<Rightarrow> byte list \<Rightarrow> bmerr dm" where
  "mem_memcpy_s2d E ctx dst src = dbind (deref ds_mems dst) (\<lambda>m.
     dthen (memcpy_in (bm_v_addr m) src (bm_size m))
    (dbind (ctx_dev ctx) (\<lambda>dev.
     dbind (mem_flush_ext E dev (bm_dma_fd m) (bm_p_addr m) (bm_size m)) (\<lambda>r.
     dthen (dassert (r = BM_SUCCESS)) (dret BM_SUCCESS)))))"

definition mem_memcpy_s2d_ex :: "env \<Rightarrow> ptr \<Rightarrow> ptr \<Rightarrow> byte list \<Rightarrow> u64 \<Rightarrow> u64 \<Rightarrow> bmerr dm" where
  "mem_memcpy_s2d_ex E ctx dst src offset sz = dbind (deref ds_mems dst) (\<lambda>m.
     dthen (memcpy_in (add64 (bm_v_addr m) offset) src sz)
    (dbind (ctx_dev ctx) (\<lambda>dev.
     dbind (mem_flush_ext E dev (bm_dma_fd m) (add64 (bm_p_addr m) offset) sz) (\<lambda>r.
     dthen (dassert (r = BM_SUCCESS)) (dret BM_SUCCESS)))))"

definition mem_memcpy_d2s :: "env \<Rightarrow> ptr \<Rightarrow> ptr \<Rightarrow> byte list dm" where
  "mem_memcpy_d2s E ctx src = dbind (deref ds_mems src) (\<lambda>m.
     dbind (ctx_dev ctx) (\<lambda>dev.
     dbind (mem_invld_ext E dev (bm_dma_fd m) (bm_p_addr m) (bm_size m)) (\<lambda>r.
     dthen (dassert (r = BM_SUCCESS))
    (dget (\<lambda>s. load_bytes (bm_v_addr m) (bm_size m) (ds_ram s))))))"

definition mem_memcpy_d2s_ex :: "env \<Rightarrow> ptr \<Rightarrow> ptr \<Rightarrow> u64 \<Rightarrow> u64 \<Rightarrow> byte list dm" where
  "mem_memcpy_d2s_ex E ctx src offset sz = dbind (deref ds_mems src) (\<lambda>m.
     dbind (ctx_dev ctx) (\<lambda>dev.
     dbind (mem_invld_ext E dev (bm_dma_fd m) (add64 (bm_p_addr m) offset) sz) (\<lambda>r.
     dthen (dassert (r = BM_SUCCESS))
    (dget (\<lambda>s. load_bytes (add64 (bm_v_addr m) offset) sz (ds_ram s))))))"

definition mem_device_flush :: "env \<Rightarrow> ptr \<Rightarrow> ptr \<Rightarrow> bmerr dm" where
  "mem_device_flush E ctx mem = dbind (ctx_dev ctx) (\<lambda>dev. dbind (deref ds_mems mem) (\<lambda>m.
     mem_flush_ext E dev (bm_dma_fd m) (bm_p_addr m) (bm_size m)))"

definition mem_device_flush_len :: "env \<Rightarrow> ptr \<Rightarrow> ptr \<Rightarrow> u64 \<Rightarrow> bmerr dm" where
  "mem_device_flush_len E ctx mem len = dbind (ctx_dev ctx) (\<lambda>dev. dbind (deref ds_mems mem) (\<lambda>m.
     mem_flush_ext E dev (bm_dma_fd m) (bm_p_addr m) len))"

definition mem_device_invld :: "env \<Rightarrow> ptr \<Rightarrow> ptr \<Rightarrow> bmerr dm" where
  "mem_device_invld E ctx mem = dbind (ctx_dev ctx) (\<lambda>dev. dbind (deref ds_mems mem) (\<lambda>m.
     mem_invld_ext E dev (bm_dma_fd m) (bm_p_addr m) (bm_size m)))"

definition mem_device_invld_len :: "env \<Rightarrow> ptr \<Rightarrow> ptr \<Rightarrow> u64 \<Rightarrow> bmerr dm" where
  "mem_device_invld_len E ctx mem len = dbind (ctx_dev ctx) (\<lambda>dev. dbind (deref ds_mems mem) (\<lambda>m.
     mem_invld_ext E dev (bm_dma_fd m) (bm_p_addr m) len))"

section \<open>Contexts\<close>

definition context_create :: "ptr dm" where
  "context_create s =
    (let i = ds_next s;
         c = \<lparr>bc_dev = None, bc_seq_no = 0, bc_array_base0 = 0, bc_array_base1 = 0,
              bc_root_mem_array = replicate MEMARRAY_MAX_CNT (0, None)\<rparr>;
         arr = (case find_index (\<lambda>p. p = None) (ds_root_ctx_array s) of
                  None \<Rightarrow> ds_root_ctx_array s | Some k \<Rightarrow> (ds_root_ctx_array s)[k := Some i])
     in Inr (Some i, s\<lparr>ds_next := i + 1, ds_ctxs := (ds_ctxs s)(i \<mapsto> c), ds_root_ctx_array := arr\<rparr>))"

definition context_destroy :: "ptr \<Rightarrow> unit dm" where
  "context_destroy ctx = dthen (dassert (ctx \<noteq> None)) (dmodify (\<lambda>s.
     s\<lparr>ds_root_ctx_array := (case find_index (\<lambda>p. p = ctx) (ds_root_ctx_array s) of
          None \<Rightarrow> ds_root_ctx_array s | Some k \<Rightarrow> (ds_root_ctx_array s)[k := None]),
       ds_ctxs := (ds_ctxs s)(the ctx := None)\<rparr>))"

definition bind_device :: "ptr \<Rightarrow> ptr \<Rightarrow> bmerr dm" where
  "bind_device ctx dev = dthen (dassert (ctx \<noteq> None)) (dbind (deref ds_ctxs ctx) (\<lambda>c.
     dthen (set_ctx ctx (c\<lparr>bc_dev := dev\<rparr>)) (dret BM_SUCCESS)))"

definition unbind_device :: "ptr \<Rightarrow> unit dm" where
  "unbind_device ctx = dthen (dassert (ctx \<noteq> None)) (dbind (deref ds_ctxs ctx) (\<lambda>c.
     set_ctx ctx (c\<lparr>bc_dev := None\<rparr>)))"

definition get_device :: "ptr \<Rightarrow> ptr dm" where
  "get_device ctx = dbind (ctx_dev ctx) (\<lambda>dev. dthen (dassert (dev \<noteq> None)) (dret dev))"

text \<open>\<^verbatim>\<open>device_exit\<close> and \<^verbatim>\<open>device_init\<close> over the chip's \<^verbatim>\<open>device_close\<close> and \<^verbatim>\<open>device_open\<close>.\<close>

definition device_exit :: "(ptr \<Rightarrow> unit dm) \<Rightarrow> ptr \<Rightarrow> unit dm" where
  "device_exit device_close ctx = dbind (ctx_dev ctx) (\<lambda>dev.
     dthen (unbind_device ctx) (dthen (context_destroy ctx) (device_close dev)))"

definition device_init :: "(int \<Rightarrow> (bmerr \<times> ptr) dm) \<Rightarrow> int \<Rightarrow> ptr dm" where
  "device_init device_open index = dthen (dassert (index = 0))
    (dbind (device_open index) (\<lambda>(ret, dev).
     dthen (dassert (ret = BM_SUCCESS))
    (dbind context_create (\<lambda>ctx.
     dbind (bind_device ctx dev) (\<lambda>ret'.
     dthen (dassert (ret' = BM_SUCCESS)) (dret ctx))))))"

section \<open>Running command buffers\<close>

text \<open>The fields of \<^verbatim>\<open>dma_hdr_t\<close> in memory: little endian at their byte offsets.\<close>

definition u32_bytes :: "nat \<Rightarrow> byte list" where
  "u32_bytes v = [of_nat v, of_nat (v div 2 ^ 8), of_nat (v div 2 ^ 16), of_nat (v div 2 ^ 24)]"

definition load_u16 :: "u64 \<Rightarrow> (u64 \<Rightarrow> byte) \<Rightarrow> 16 word" where
  "load_u16 a ram = ucast (ram a) + push_bit 8 (ucast (ram (a + 1)))"

definition load_u32 :: "u64 \<Rightarrow> (u64 \<Rightarrow> byte) \<Rightarrow> nat" where
  "load_u32 a ram = unat (ram a) + 2 ^ 8 * unat (ram (a + 1)) + 2 ^ 16 * unat (ram (a + 2)) + 2 ^ 24 * unat (ram (a + 3))"

definition store_u32 :: "u64 \<Rightarrow> nat \<Rightarrow> unit dm" where
  "store_u32 a v = dmodify (\<lambda>s. s\<lparr>ds_ram := store_bytes a (u32_bytes v) (ds_ram s)\<rparr>)"

definition hdr_arraybase_L :: "nat \<Rightarrow> u64" where
  "hdr_arraybase_L k = 32 + 8 * k"

definition hdr_arraybase_H :: "nat \<Rightarrow> u64" where
  "hdr_arraybase_H k = 36 + 8 * k"

definition set_base_reg :: "ptr \<Rightarrow> u32 \<Rightarrow> u64 \<Rightarrow> unit dm" where
  "set_base_reg ctx inx addr = dbind (deref ds_ctxs ctx) (\<lambda>c.
     if inx = 0 then set_ctx ctx (c\<lparr>bc_array_base0 := addr\<rparr>)
     else if inx = 1 then set_ctx ctx (c\<lparr>bc_array_base1 := addr\<rparr>)
     else dfail AssertFailed)"

definition read_base_reg :: "ptr \<Rightarrow> u32 \<Rightarrow> u64 dm" where
  "read_base_reg ctx inx = dbind (deref ds_ctxs ctx) (\<lambda>c.
     if inx = 0 then dret (bc_array_base0 c)
     else if inx = 1 then dret (bc_array_base1 c)
     else dfail AssertFailed)"

definition run_cmdbuf_pio :: "ptr \<Rightarrow> byte list \<Rightarrow> u64 \<Rightarrow> bmerr dm" where
  "run_cmdbuf_pio ctx cmdbuf sz = dthen (dassert False) (dret BM_SUCCESS)"

text \<open>\<^verbatim>\<open>*seq_no = ctx->seq_no++\<close>, in 16 bits.\<close>

definition next_seq :: "ptr \<Rightarrow> nat dm" where
  "next_seq ctx = dbind (deref ds_ctxs ctx) (\<lambda>c.
     dthen (set_ctx ctx (c\<lparr>bc_seq_no := (bc_seq_no c + 1) mod 2 ^ 16\<rparr>)) (dret (bc_seq_no c)))"

definition submit_next :: "env \<Rightarrow> ptr \<Rightarrow> int \<Rightarrow> (bmerr \<times> nat) dm" where
  "submit_next E ctx dma_fd = dbind (deref ds_ctxs ctx) (\<lambda>c.
     dbind (submit_dmabuf E (bc_dev c) dma_fd (bc_seq_no c)) (\<lambda>ret.
     dbind (next_seq ctx) (\<lambda>n.
     dret (if ret = BM_SUCCESS then BM_SUCCESS else BM_ERR_FAILURE, n))))"

definition run_cmdbuf_tee :: "env \<Rightarrow> ptr \<Rightarrow> u64 \<Rightarrow> u64 list \<Rightarrow> (bmerr \<times> nat) dm" where
  "run_cmdbuf_tee E ctx dmabuf_addr bases = dbind (deref ds_ctxs ctx) (\<lambda>c.
     dbind (run_tee E ctx (bc_seq_no c) (add64 dmabuf_addr (env_start E)) bases) (\<lambda>ret.
     dbind (next_seq ctx) (\<lambda>n. dret (ret, n))))"

definition run_cmdbuf :: "env \<Rightarrow> ptr \<Rightarrow> ptr \<Rightarrow> (bmerr \<times> nat) dm" where
  "run_cmdbuf E ctx cmdbuf_mem = dbind (deref ds_mems cmdbuf_mem) (\<lambda>m.
     submit_next E ctx (bm_dma_fd m))"

definition mem_protect :: "env \<Rightarrow> u64 \<Rightarrow> u64 \<Rightarrow> unit dm" where
  "mem_protect E vaddr sz = dbind (sys E (SysMprotect vaddr sz False)) (\<lambda>_. dret ())"

definition mem_unprotect :: "env \<Rightarrow> u64 \<Rightarrow> u64 \<Rightarrow> unit dm" where
  "mem_unprotect E vaddr sz = dbind (sys E (SysMprotect vaddr sz True)) (\<lambda>_. dret ())"

text \<open>
  \<^verbatim>\<open>run_cmdbuf_ex\<close>: input and output bases go into the header.  The early return on a wrong magic
  number has no sequence number and leaves the buffer writable.
\<close>

definition run_cmdbuf_ex :: "env \<Rightarrow> ptr \<Rightarrow> ptr \<Rightarrow> u64 \<Rightarrow> u64 \<Rightarrow> (bmerr \<times> nat option) dm" where
  "run_cmdbuf_ex E ctx cmdbuf_mem input_base_addr output_base_addr =
    dbind (deref ds_mems cmdbuf_mem) (\<lambda>m.
    dthen (if env_protect E then mem_unprotect E (bm_v_addr m) (bm_size m) else dret ())
   (dbind (dget (\<lambda>s. load_u16 (bm_v_addr m) (ds_ram s))) (\<lambda>magic.
    if magic \<noteq> env_magic E then dret (BM_ERR_FAILURE, None)
    else
      dthen (store_u32 (bm_v_addr m + hdr_arraybase_L 2) (input_base_addr mod M32))
     (dthen (store_u32 (bm_v_addr m + hdr_arraybase_H 2) 0)
     (dthen (store_u32 (bm_v_addr m + hdr_arraybase_L 3) (output_base_addr mod M32))
     (dthen (store_u32 (bm_v_addr m + hdr_arraybase_H 3) 0)
     (dthen (if env_protect E then mem_protect E (bm_v_addr m) (bm_size m) else dret ())
     (dbind (submit_next E ctx (bm_dma_fd m)) (\<lambda>(ret, n). dret (ret, Some n))))))))))"

fun store_bases :: "u64 \<Rightarrow> nat \<Rightarrow> u64 list \<Rightarrow> unit dm" where
  "store_bases v_addr k [] = dret ()"
| "store_bases v_addr k (b # bs) =
     dthen (store_u32 (v_addr + hdr_arraybase_L k) (b mod M32)) (store_bases v_addr (Suc k) bs)"

definition run_cmdbuf_ex2 :: "env \<Rightarrow> ptr \<Rightarrow> ptr \<Rightarrow> u64 list \<Rightarrow> (bmerr \<times> nat) dm" where
  "run_cmdbuf_ex2 E ctx cmdbuf_mem array_base =
    dbind (deref ds_mems cmdbuf_mem) (\<lambda>m.
    dthen (if env_protect E then mem_unprotect E (bm_v_addr m) (bm_size m) else dret ())
   (dbind (dget (\<lambda>s. load_u16 (bm_v_addr m) (ds_ram s))) (\<lambda>magic.
    dthen (dassert (magic = env_magic E))
   (dthen (store_bases (bm_v_addr m) 0 (take 8 array_base))
   (dthen (if env_protect E then mem_protect E (bm_v_addr m) (bm_size m) else dret ())
   (submit_next E ctx (bm_dma_fd m)))))))"

text \<open>Asynchronous submission: the sequence number goes into the first empty cell of the table.\<close>

definition submit_record :: "nat \<Rightarrow> nat list \<Rightarrow> nat list" where
  "submit_record n arr = (case find_index (\<lambda>e. e = 0) arr of None \<Rightarrow> arr | Some i \<Rightarrow> arr[i := n])"

definition run_async :: "env \<Rightarrow> ptr \<Rightarrow> ptr \<Rightarrow> bmerr dm" where
  "run_async E ctx cmdbuf_mem = dbind (deref ds_mems cmdbuf_mem) (\<lambda>m.
     dbind (submit_next E ctx (bm_dma_fd m)) (\<lambda>(ret, n).
     dthen (dmodify (\<lambda>s. s\<lparr>ds_root_submit_array := submit_record n (ds_root_submit_array s)\<rparr>))
     (dret ret)))"

definition wait_cmdbuf_done :: "env \<Rightarrow> ptr \<Rightarrow> nat \<Rightarrow> bmerr dm" where
  "wait_cmdbuf_done E ctx seq_no = dbind (ctx_dev ctx) (\<lambda>dev. wait_dmabuf E dev seq_no)"

fun wait_all_loop :: "env \<Rightarrow> ptr \<Rightarrow> nat list \<Rightarrow> unit dm" where
  "wait_all_loop E ctx [] = dret ()"
| "wait_all_loop E ctx (i # is) = dbind (dget (\<lambda>s. ds_root_submit_array s ! i)) (\<lambda>n.
     if n \<noteq> 0 then
       dbind (wait_cmdbuf_done E ctx n) (\<lambda>ret.
       dthen (dassert (ret = BM_SUCCESS))
      (dthen (dmodify (\<lambda>s. s\<lparr>ds_root_submit_array := (ds_root_submit_array s)[i := 0]\<rparr>))
       (wait_all_loop E ctx is)))
     else wait_all_loop E ctx is)"

definition wait_cmdbuf_all :: "env \<Rightarrow> ptr \<Rightarrow> bmerr dm" where
  "wait_cmdbuf_all E ctx = dthen (wait_all_loop E ctx [0..<SUBMIT_QUEUE_MAX]) (dret BM_SUCCESS)"

text \<open>\<^verbatim>\<open>send_cmdbuf\<close> over the chip's \<^verbatim>\<open>load_cmdbuf\<close> and \<^verbatim>\<open>mem_free_raw\<close>: load, run, wait, free.\<close>

definition send_cmdbuf :: "env \<Rightarrow> (ptr \<Rightarrow> byte list \<Rightarrow> u64 \<Rightarrow> u64 \<Rightarrow> u64 \<Rightarrow> bool \<Rightarrow> (bmerr \<times> ptr option) dm) \<Rightarrow>
    (ptr \<Rightarrow> ptr \<Rightarrow> unit dm) \<Rightarrow> ptr \<Rightarrow> byte list \<Rightarrow> u64 \<Rightarrow> (bmerr \<times> nat option) dm" where
  "send_cmdbuf E load_cmdbuf mem_free_raw ctx cmdbuf sz =
    dbind (load_cmdbuf ctx cmdbuf sz 0 0 False) (\<lambda>(ret, written).
    if ret \<noteq> BM_SUCCESS then dret (BM_ERR_FAILURE, None)
    else dbind (case written of None \<Rightarrow> dfail Uninitialised | Some p \<Rightarrow> dret p) (\<lambda>cmdbuf_mem.
      dbind (run_cmdbuf E ctx cmdbuf_mem) (\<lambda>(ret2, n).
      dbind (if ret2 = BM_SUCCESS then wait_cmdbuf_done E ctx n else dret ret2) (\<lambda>ret3.
      dthen (mem_free_raw ctx cmdbuf_mem) (dret (ret3, Some n))))))"

lemma sys_Inr [dm_inv]:
  "sys E call s = Inr (r, t) \<longleftrightarrow> r = env_kernel E (ds_log s) call \<and> t = s\<lparr>ds_log := ds_log s @ [call]\<rparr>"
  by (auto simp: sys_def)

lemmas dm_run = sm_run sys_def
  set_dev_def set_ctx_def set_mem_def new_mem_def delete_mem_def checked_mem_def ctx_dev_def

section \<open>Cache ranges\<close>

lemma align64_bounds:
  assumes "x + 63 < M64"
  shows "x \<le> align_mask64 x 64" "align_mask64 x 64 < x + 64" "64 dvd align_mask64 x 64"
    "align_mask64 x 64 = x \<longleftrightarrow> 64 dvd x"
proof -
  have e: "align_mask64 x 64 = (x + 63) div 64 * 64" using align_mask64_eq[of x 6] assms by simp
  have d: "(x + 63) div 64 * 64 + (x + 63) mod 64 = x + 63" "(x + 63) mod 64 < 64" by simp_all
  show "x \<le> align_mask64 x 64" "align_mask64 x 64 < x + 64" unfolding e using d by linarith+
  show dv: "64 dvd align_mask64 x 64" unfolding e by simp
  show "align_mask64 x 64 = x \<longleftrightarrow> 64 dvd x"
  proof
    assume "64 dvd x"
    then obtain q where "x = 64 * q" by (auto elim: dvdE)
    then show "align_mask64 x 64 = x" unfolding e by simp
  qed (use dv in metis)
qed

lemma cache_range_bounds:
  assumes "paddr + env_start E + 127 < M64" "sz + 127 < M64" "cache_range E paddr sz = (a, n)"
  shows "64 dvd a" "64 dvd n" "a \<le> paddr + env_start E" "paddr + env_start E < a + 64"
    "paddr + env_start E + sz \<le> a + n" "n < sz + 128"
proof -
  let ?p = "paddr + env_start E"
  have p: "add64 paddr (env_start E) = ?p" using assms(1) by (simp add: u64_simps)
  have b: "?p + 63 < M64" "sz + 63 < M64" using assms by simp_all
  note P = align64_bounds[OF b(1)] and N = align64_bounds[OF b(2)]
  have all: "64 dvd a \<and> 64 dvd n \<and> a \<le> ?p \<and> ?p < a + 64 \<and> ?p + sz \<le> a + n \<and> n < sz + 128"
  proof (cases "align_mask64 ?p 64 = ?p")
    case True
    with assms(3) p have "a = ?p" "n = align_mask64 sz 64" by (auto simp: cache_range_def Let_def)
    with True P N show ?thesis by auto
  next
    case False
    then have "0 < align_mask64 ?p 64" using P(1) by (cases "?p = 0") (auto simp: align_mask64_def)
    then have "64 \<le> align_mask64 ?p 64" using P(3) by (auto dest: dvd_imp_le)
    moreover have "a = align_mask64 ?p 64 - 64" "n = align_mask64 sz 64 + 64"
      using False assms(2,3) p calculation N(2) by (auto simp: cache_range_def Let_def u64_simps)
    ultimately show ?thesis using False P N by (auto simp: dvd_diff_nat)
  qed
  then show "64 dvd a" "64 dvd n" "a \<le> ?p" "?p < a + 64" "?p + sz \<le> a + n" "n < sz + 128" by auto
qed

section \<open>Descriptors and mappings\<close>

text \<open>
  What a segment of the log, run after the calls \<open>pre\<close>, was granted: the descriptors of successful
  allocations and the addresses of successful mappings; and what it gave back.
\<close>

fun granted_fds :: "env \<Rightarrow> syscall list \<Rightarrow> syscall list \<Rightarrow> int multiset" where
  "granted_fds E pre [] = {#}"
| "granted_fds E pre (c # cs) =
    (let r = env_kernel E pre c in
     (case c of SysIonAlloc _ _ _ \<Rightarrow> if sr_ret r = 0 then {#sr_fd r#} else {#}
      | SysIonAllocLegacy _ _ _ \<Rightarrow> if sr_ret r = 0 then {#sr_fd r#} else {#}
      | _ \<Rightarrow> {#})) + granted_fds E (pre @ [c]) cs"

fun granted_maps :: "env \<Rightarrow> syscall list \<Rightarrow> syscall list \<Rightarrow> u64 multiset" where
  "granted_maps E pre [] = {#}"
| "granted_maps E pre (c # cs) =
    (case c of SysMmap _ _ \<Rightarrow> (case sr_addr (env_kernel E pre c) of None \<Rightarrow> {#} | Some a \<Rightarrow> {#a#})
     | _ \<Rightarrow> {#}) + granted_maps E (pre @ [c]) cs"

fun closed_fds :: "syscall list \<Rightarrow> int multiset" where
  "closed_fds [] = {#}"
| "closed_fds (c # cs) = (case c of SysClose fd \<Rightarrow> {#fd#} | _ \<Rightarrow> {#}) + closed_fds cs"

fun unmapped :: "syscall list \<Rightarrow> u64 multiset" where
  "unmapped [] = {#}"
| "unmapped (c # cs) = (case c of SysMunmap a _ \<Rightarrow> {#a#} | _ \<Rightarrow> {#}) + unmapped cs"

lemma granted_append:
  "granted_fds E pre (xs @ ys) = granted_fds E pre xs + granted_fds E (pre @ xs) ys"
  "granted_maps E pre (xs @ ys) = granted_maps E pre xs + granted_maps E (pre @ xs) ys"
  "closed_fds (xs @ ys) = closed_fds xs + closed_fds ys"
  "unmapped (xs @ ys) = unmapped xs + unmapped ys"
  by (induction xs arbitrary: pre) (auto simp: Let_def add.assoc)

text \<open>
  Between two states, everything granted was given back, except the descriptors \<open>F\<close> and the
  mappings \<open>V\<close>.
\<close>

definition balanced :: "env \<Rightarrow> dstate \<Rightarrow> dstate \<Rightarrow> int multiset \<Rightarrow> u64 multiset \<Rightarrow> bool" where
  "balanced E s t F V \<longleftrightarrow> (\<exists>seg. ds_log t = ds_log s @ seg \<and>
     granted_fds E (ds_log s) seg \<subseteq># closed_fds seg + F \<and>
     granted_maps E (ds_log s) seg \<subseteq># unmapped seg + V)"

lemma balanced_refl: "balanced E s s {#} {#}"
  by (auto simp: balanced_def)

lemma balanced_same_log: "ds_log t = ds_log s \<Longrightarrow> balanced E s t {#} {#}"
  by (auto simp: balanced_def)

lemma balanced_trans:
  assumes "balanced E s t F1 V1" "balanced E t u F2 V2"
  shows "balanced E s u (F1 + F2) (V1 + V2)"
proof -
  from assms(1) obtain x where x: "ds_log t = ds_log s @ x"
    "granted_fds E (ds_log s) x \<subseteq># closed_fds x + F1" "granted_maps E (ds_log s) x \<subseteq># unmapped x + V1"
    by (auto simp: balanced_def)
  from assms(2) obtain y where y: "ds_log u = ds_log t @ y"
    "granted_fds E (ds_log t) y \<subseteq># closed_fds y + F2" "granted_maps E (ds_log t) y \<subseteq># unmapped y + V2"
    by (auto simp: balanced_def)
  have "granted_fds E (ds_log s) (x @ y) \<subseteq># closed_fds (x @ y) + (F1 + F2)"
    using subset_mset.add_mono[OF x(2) y(2)] by (simp add: granted_append x(1) ac_simps)
  moreover have "granted_maps E (ds_log s) (x @ y) \<subseteq># unmapped (x @ y) + (V1 + V2)"
    using subset_mset.add_mono[OF x(3) y(3)] by (simp add: granted_append x(1) ac_simps)
  ultimately show ?thesis using x(1) y(1) by (auto simp: balanced_def)
qed

lemmas balanced_then = balanced_trans[where ?F1.0 = "{#}" and ?V1.0 = "{#}", simplified]

text \<open>Calls that neither allocate nor map.\<close>

fun plain_call :: "syscall \<Rightarrow> bool" where
  "plain_call (SysIonAlloc _ _ _) = False"
| "plain_call (SysIonAllocLegacy _ _ _) = False"
| "plain_call (SysMmap _ _) = False"
| "plain_call _ = True"

lemma balanced_plain:
  assumes "sys E c s = Inr (r, t)" "plain_call c" shows "balanced E s t {#} {#}"
proof -
  have "ds_log t = ds_log s @ [c]" using assms(1) by (auto simp: dm_inv)
  with assms(2) show ?thesis unfolding balanced_def by (intro exI[of _ "[c]"]) (cases c; simp)
qed

lemma reopen_dev_balanced: "reopen_dev E dev flag s = Inr (r, t) \<Longrightarrow> balanced E s t {#} {#}"
  by (auto simp: reopen_dev_def set_dev_def dm_inv split: if_splits intro!: balanced_refl)
     (auto simp: balanced_def)

lemma cache_retry_balanced:
  assumes "\<And>fd. plain_call (call fd)"
  shows "cache_retry E dev call n ret s = Inr (r, t) \<Longrightarrow> balanced E s t {#} {#}"
proof (induction n arbitrary: ret s)
  case 0
  then show ?case by (auto simp: dm_inv intro: balanced_refl)
next
  case (Suc n)
  from Suc.prems obtain d :: bm_device and a u where u: "sys E (call (bd_dev_fd d)) s = Inr (a, u)"
    "(if sr_ret a \<noteq> 0 then dthen (reopen_dev E dev 1) (cache_retry E dev call n (sr_ret a)) else dret BM_SUCCESS) u = Inr (r, t)"
    unfolding cache_retry.simps deref_bind_Inr unfolding dbind_Inr by blast
  have su: "balanced E s u {#} {#}" by (rule balanced_plain[OF u(1) assms])
  show ?case
  proof (cases "sr_ret a = 0")
    case True
    with u(2) su show ?thesis by (auto simp: dm_inv)
  next
    case False
    with u(2) obtain x v where "reopen_dev E dev 1 u = Inr (x, v)" "cache_retry E dev call n (sr_ret a) v = Inr (r, t)"
      by (auto simp: dm_inv)
    from balanced_then[OF su balanced_then[OF reopen_dev_balanced[OF this(1)] Suc.IH[OF this(2)]]] show ?thesis .
  qed
qed

lemma mem_invld_ext_balanced: "mem_invld_ext E dev fd p sz s = Inr (r, t) \<Longrightarrow> balanced E s t {#} {#}"
  unfolding mem_invld_ext_def by (auto split: prod.splits elim!: cache_retry_balanced[rotated])

lemma mem_flush_ext_balanced: "mem_flush_ext E dev fd p sz s = Inr (r, t) \<Longrightarrow> balanced E s t {#} {#}"
  unfolding mem_flush_ext_def by (auto split: prod.splits elim!: cache_retry_balanced[rotated])

lemma ion_ioctl_balanced:
  assumes "ion_ioctl E fd hmask sz s = Inr (r, t)"
  shows "balanced E s t (case r of None \<Rightarrow> {#} | Some (p, dfd, n) \<Rightarrow> {#dfd#}) {#}"
  using assms
  by (auto simp: ion_ioctl_def Let_def dm_inv balanced_def split: if_splits)

lemma close_balanced:
  assumes "balanced E s t (add_mset fd F) V" "sys E (SysClose fd) t = Inr (x, u)"
  shows "balanced E s u F V"
proof -
  from assms(1) obtain seg where "ds_log t = ds_log s @ seg"
    "granted_fds E (ds_log s) seg \<subseteq># closed_fds seg + add_mset fd F"
    "granted_maps E (ds_log s) seg \<subseteq># unmapped seg + V" by (auto simp: balanced_def)
  with assms(2) show ?thesis unfolding balanced_def
    by (intro exI[of _ "seg @ [SysClose fd]"]) (auto simp: dm_inv granted_append)
qed

lemma unmap_balanced:
  assumes "balanced E s t F (add_mset v V)" "sys E (SysMunmap v n) t = Inr (x, u)"
  shows "balanced E s u F V"
proof -
  from assms(1) obtain seg where "ds_log t = ds_log s @ seg"
    "granted_fds E (ds_log s) seg \<subseteq># closed_fds seg + F"
    "granted_maps E (ds_log s) seg \<subseteq># unmapped seg + add_mset v V" by (auto simp: balanced_def)
  with assms(2) show ?thesis unfolding balanced_def
    by (intro exI[of _ "seg @ [SysMunmap v n]"]) (auto simp: dm_inv granted_append)
qed

lemma mmap_balanced:
  assumes "sys E (SysMmap n fd) s = Inr (r, t)"
  shows "balanced E s t {#} (case sr_addr r of None \<Rightarrow> {#} | Some a \<Rightarrow> {#a#})"
  using assms unfolding balanced_def
  by (intro exI[of _ "[SysMmap n fd]"]) (auto simp: dm_inv split: option.splits)

text \<open>The part of a round after the descriptor was granted.\<close>

lemma map_round_balanced:
  assumes fd: "balanced E s u {#dma_fd#} {#}"
    and r: "dbind (sys E (SysMmap sz' dma_fd)) (\<lambda>r. case sr_addr r of
               None \<Rightarrow> dthen (sys E (SysClose dma_fd)) (dret (Inl (sz', 0, BM_ERR_OTHER (-1))))
             | Some user_addr \<Rightarrow>
                 dbind (mem_invld_ext E dev dma_fd p sz') (\<lambda>ret.
                   if ret \<noteq> BM_SUCCESS then dthen (sys E (SysMunmap user_addr sz'))
                    (dthen (sys E (SysClose dma_fd)) (dret (Inl (sz', 1, ret))))
                   else dret (Inr (p, user_addr, dma_fd)))) u = Inr (r, t)"
  shows "case r of Inl _ \<Rightarrow> balanced E s t {#} {#} | Inr (p, v, fd) \<Rightarrow> balanced E s t {#fd#} {#v#}"
proof -
  obtain m w where w: "sys E (SysMmap sz' dma_fd) u = Inr (m, w)"
    "(case sr_addr m of
        None \<Rightarrow> dthen (sys E (SysClose dma_fd)) (dret (Inl (sz', 0, BM_ERR_OTHER (-1))))
      | Some user_addr \<Rightarrow>
          dbind (mem_invld_ext E dev dma_fd p sz') (\<lambda>ret.
            if ret \<noteq> BM_SUCCESS then dthen (sys E (SysMunmap user_addr sz'))
              (dthen (sys E (SysClose dma_fd)) (dret (Inl (sz', 1, ret))))
            else dret (Inr (p, user_addr, dma_fd)))) w = Inr (r, t)"
    using r by (simp add: dbind_Inr) blast
  note mm = balanced_trans[OF fd mmap_balanced[OF w(1)]]
  show ?thesis
  proof (cases "sr_addr m")
    case None
    with w(2) obtain x where "sys E (SysClose dma_fd) w = Inr (x, t)" "\<exists>y. r = Inl y"
      by (simp add: dthen_Inr dm_basic_Inr(1)) metis
    with close_balanced[of E s w dma_fd "{#}" "{#}"] mm None show ?thesis by auto
  next
    case (Some v)
    with w(2) obtain ret i where i: "mem_invld_ext E dev dma_fd p sz' w = Inr (ret, i)"
      "(if ret \<noteq> BM_SUCCESS then dthen (sys E (SysMunmap v sz'))
              (dthen (sys E (SysClose dma_fd)) (dret (Inl (sz', 1, ret))))
            else dret (Inr (p, v, dma_fd))) i = Inr (r, t)"
      by (simp add: dbind_Inr) blast
    have bi: "balanced E s i {#dma_fd#} {#v#}"
      using balanced_trans[OF mm mem_invld_ext_balanced[OF i(1)]] Some by simp
    show ?thesis
    proof (cases "ret = BM_SUCCESS")
      case True
      with i(2) bi show ?thesis by (auto simp: dm_basic_Inr)
    next
      case False
      with i(2) obtain x y j where "sys E (SysMunmap v sz') i = Inr (x, j)" "sys E (SysClose dma_fd) j = Inr (y, t)"
        and z: "\<exists>z. r = Inl z" by (simp add: dthen_Inr dm_basic_Inr(1)) metis
      from close_balanced[OF unmap_balanced[OF bi this(1)] this(2)] z show ?thesis by auto
    qed
  qed
qed

lemma alloc_round_balanced:
  assumes "alloc_round E dev sz s = Inr (r, t)"
  shows "case r of Inl _ \<Rightarrow> balanced E s t {#} {#} | Inr (p, v, fd) \<Rightarrow> balanced E s t {#fd#} {#v#}"
proof -
  obtain d :: bm_device and got u where d: "ion_ioctl E (bd_ion_fd d) (push_bit (bd_ion_heap_id d) 1) sz s = Inr (got, u)"
    and k: "(case got of None \<Rightarrow> dret (Inl (sz, 2, BM_ERR_FAILURE))
       | Some (paddr, dma_fd, sz') \<Rightarrow> dbind (sys E (SysMmap sz' dma_fd)) (\<lambda>r. case sr_addr r of
               None \<Rightarrow> dthen (sys E (SysClose dma_fd)) (dret (Inl (sz', 0, BM_ERR_OTHER (-1))))
             | Some user_addr \<Rightarrow>
                 dbind (mem_invld_ext E dev dma_fd (sub64 paddr (env_start E)) sz') (\<lambda>ret.
                   if ret \<noteq> BM_SUCCESS then dthen (sys E (SysMunmap user_addr sz'))
                    (dthen (sys E (SysClose dma_fd)) (dret (Inl (sz', 1, ret))))
                   else dret (Inr (sub64 paddr (env_start E), user_addr, dma_fd))))) u = Inr (r, t)"
    using assms unfolding alloc_round_def Let_def deref_bind_Inr unfolding dbind_Inr by blast
  note io = ion_ioctl_balanced[OF d]
  show ?thesis
  proof (cases got)
    case None
    with k io show ?thesis by (auto simp: dm_basic_Inr)
  next
    case (Some g)
    obtain paddr dma_fd sz' where g: "g = (paddr, dma_fd, sz')" by (cases g)
    show ?thesis using io k Some g by (intro map_round_balanced[of E s u dma_fd sz' dev "sub64 paddr (env_start E)"]) simp_all
  qed
qed

lemma alloc_loop_balanced:
  "alloc_loop E dev n sz ret s = Inr (r, t) \<Longrightarrow>
   (case r of Inl _ \<Rightarrow> balanced E s t {#} {#} | Inr (p, v, fd) \<Rightarrow> balanced E s t {#fd#} {#v#})"
proof (induction n arbitrary: sz ret s)
  case 0
  then show ?case by (auto simp: dm_basic_Inr intro: balanced_refl)
next
  case (Suc n)
  then obtain a u where a: "alloc_round E dev sz s = Inr (a, u)"
    "(case a of Inr blk \<Rightarrow> dret (Inr blk)
      | Inl (sz', err_flag, ret') \<Rightarrow>
         if err_flag > 0 then dthen (reopen_dev E dev err_flag) (alloc_loop E dev n sz' ret')
         else alloc_loop E dev n sz' ret') u = Inr (r, t)"
    by (simp add: dbind_Inr) blast
  note rb = alloc_round_balanced[OF a(1)]
  show ?case
  proof (cases a)
    case (Inr blk)
    with a(2) rb show ?thesis by (auto simp: dm_basic_Inr)
  next
    case (Inl q)
    obtain sz' flag ret' where q: "q = (sz', flag, ret')" by (cases q)
    have su: "balanced E s u {#} {#}" using rb Inl by simp
    obtain v where v: "balanced E s v {#} {#}" "alloc_loop E dev n sz' ret' v = Inr (r, t)"
    proof (cases "flag > 0")
      case True
      with a(2) Inl q obtain x v where "reopen_dev E dev flag u = Inr (x, v)" "alloc_loop E dev n sz' ret' v = Inr (r, t)"
        by (auto simp: dthen_Inr)
      with that[OF balanced_then[OF su reopen_dev_balanced]] show ?thesis by blast
    next
      case False
      with that[OF su] a(2) Inl q show ?thesis by simp
    qed
    from Suc.IH[OF v(2)] balanced_then[OF v(1)] show ?thesis by (auto split: sum.splits prod.splits)
  qed
qed

section \<open>Cache maintenance requests\<close>

lemma reopen_tpu_log:
  "reopen_dev E dev 1 s = Inr (r, t) \<Longrightarrow>
   \<exists>seg. ds_log t = ds_log s @ seg \<and> (\<forall>c\<in>set seg. c = SysOpen (env_tpu_dev E) \<or> (\<exists>fd. c = SysClose fd))"
  by (auto simp: reopen_dev_def set_dev_def dm_inv split: if_splits)

lemma cache_retry_log:
  assumes "cache_retry E dev call n ret s = Inr (r, t)" "0 < n \<or> ret \<noteq> 0"
  shows "\<exists>seg. ds_log t = ds_log s @ seg \<and>
    (\<forall>c\<in>set seg. (\<exists>fd. c = call fd) \<or> c = SysOpen (env_tpu_dev E) \<or> (\<exists>fd. c = SysClose fd)) \<and>
    (r = BM_SUCCESS \<longrightarrow> (\<exists>pre fd. seg = pre @ [call fd] \<and> sr_ret (env_kernel E (ds_log s @ pre) (call fd)) = 0))"
  using assms
proof (induction n arbitrary: ret s)
  case 0
  then show ?case by (auto simp: dm_basic_Inr)
next
  case (Suc n)
  from Suc.prems(1) obtain d :: bm_device and a u where u: "sys E (call (bd_dev_fd d)) s = Inr (a, u)"
    "(if sr_ret a \<noteq> 0 then dthen (reopen_dev E dev 1) (cache_retry E dev call n (sr_ret a)) else dret BM_SUCCESS) u = Inr (r, t)"
    unfolding cache_retry.simps deref_bind_Inr unfolding dbind_Inr by blast
  let ?c = "call (bd_dev_fd d)"
  have lu: "ds_log u = ds_log s @ [?c]" "a = env_kernel E (ds_log s) ?c" using u(1) by (auto simp: sys_Inr)
  show ?case
  proof (cases "sr_ret a = 0")
    case True
    with u(2) lu show ?thesis by (intro exI[of _ "[?c]"]) (auto simp: dm_basic_Inr)
  next
    case False
    with u(2) obtain x v where v: "reopen_dev E dev 1 u = Inr (x, v)" "cache_retry E dev call n (sr_ret a) v = Inr (r, t)"
      by (auto simp: dthen_Inr)
    from reopen_tpu_log[OF v(1)] obtain s1 where s1: "ds_log v = ds_log u @ s1"
      "\<forall>c\<in>set s1. c = SysOpen (env_tpu_dev E) \<or> (\<exists>fd. c = SysClose fd)" by blast
    from Suc.IH[OF v(2)] False obtain s2 where s2: "ds_log t = ds_log v @ s2"
      "\<forall>c\<in>set s2. (\<exists>fd. c = call fd) \<or> c = SysOpen (env_tpu_dev E) \<or> (\<exists>fd. c = SysClose fd)"
      "r = BM_SUCCESS \<longrightarrow> (\<exists>pre fd. s2 = pre @ [call fd] \<and> sr_ret (env_kernel E (ds_log v @ pre) (call fd)) = 0)" by blast
    have "r = BM_SUCCESS \<longrightarrow> (\<exists>pre fd. ?c # s1 @ s2 = pre @ [call fd] \<and>
        sr_ret (env_kernel E (ds_log s @ pre) (call fd)) = 0)"
    proof
      assume "r = BM_SUCCESS"
      with s2(3) obtain pre fd where "s2 = pre @ [call fd]" "sr_ret (env_kernel E (ds_log v @ pre) (call fd)) = 0" by blast
      then show "\<exists>pre fd. ?c # s1 @ s2 = pre @ [call fd] \<and> sr_ret (env_kernel E (ds_log s @ pre) (call fd)) = 0"
        using lu(1) s1(1) by (intro exI[of _ "?c # s1 @ pre"] exI[of _ fd]) simp
    qed
    then show ?thesis using lu(1) s1 s2(1,2) by (intro exI[of _ "?c # s1 @ s2"]) auto
  qed
qed

section \<open>Properties\<close>

text \<open>An environment whose kernel accepts every call, for the concrete instances below.\<close>

definition demo_kernel :: "syscall list \<Rightarrow> syscall \<Rightarrow> sysret" where
  "demo_kernel log c = \<lparr>sr_ret = 0, sr_errno = 0, sr_paddr = 4096, sr_fd = 7, sr_len = 256,
     sr_addr = Some 8192, sr_status = 0, sr_heaps = []\<rparr>"

definition demo_env :: env where
  "demo_env = \<lparr>env_kernel = demo_kernel, env_start = 0, env_gmem = 2 ^ 30, env_magic = 0xB5B5,
     env_protect = False, env_tpu_dev = ''/dev/cvi-tpu0'', env_pagesize = 4096,
     env_align_up = (\<lambda>x n. x), env_wait_fuel = 1\<rparr>"

definition demo_dev :: bm_device where
  "demo_dev = \<lparr>bd_index = 0, bd_dev_fd = 3, bd_ion_fd = 4, bd_ion_heap_id = 2, bd_gmem_size = 2 ^ 30\<rparr>"

definition demo_ctx :: bm_context where
  "demo_ctx = \<lparr>bc_dev = Some 1, bc_seq_no = 0, bc_array_base0 = 0, bc_array_base1 = 0,
     bc_root_mem_array = [(0, None), (0, None)]\<rparr>"

definition demo_mem :: bm_memory where
  "demo_mem = \<lparr>bm_v_addr = 8192, bm_p_addr = 4096, bm_size = 256, bm_type = BMMEM_TYPE_DEVICE,
     bm_is_prealloc = False, bm_dma_fd = 7, bm_user_ref_cnt = 0, bm_offset = 0\<rparr>"

definition demo_state :: dstate where
  "demo_state = \<lparr>ds_log = [], ds_next = 4, ds_mems = [3 \<mapsto> demo_mem], ds_devs = [1 \<mapsto> demo_dev],
     ds_ctxs = [2 \<mapsto> demo_ctx], ds_ram = (\<lambda>_. 0xB5), ds_ion_legacy = False,
     ds_root_ctx_array = [Some 2], ds_root_submit_array = [0, 0], ds_tee_firewall = replicate 6 0\<rparr>"

lemmas demo_defs = demo_kernel_def demo_dev_def demo_ctx_def demo_mem_def demo_state_def

lemma demo_env_sel [simp]:
  "env_kernel demo_env = demo_kernel" "env_start demo_env = 0" "env_magic demo_env = 0xB5B5"
  "env_protect demo_env = False" "env_tpu_dev demo_env = ''/dev/cvi-tpu0''" "env_wait_fuel demo_env = 1"
  "env_gmem demo_env = 2 ^ 30"
  by (simp_all add: demo_env_def)

lemma demo_ranges:
  "cache_range demo_env 4100 100 = (4096, 192)" "cache_range demo_env 4096 256 = (4096, 256)"
  by (simp_all add: cache_range_def demo_env_def add64_def sub64_def M64_def align_mask64_def)

lemma demo_cache_ops:
  "ds_devs s (Suc 0) = Some demo_dev \<Longrightarrow> cache_range demo_env p n = (a, m) \<Longrightarrow>
   mem_flush_ext demo_env (Some (Suc 0)) fd p n s = Inr (BM_SUCCESS, s\<lparr>ds_log := ds_log s @ [SysFlush 3 a m fd]\<rparr>)"
  "ds_devs s (Suc 0) = Some demo_dev \<Longrightarrow> cache_range demo_env p n = (a, m) \<Longrightarrow>
   mem_invld_ext demo_env (Some (Suc 0)) fd p n s = Inr (BM_SUCCESS, s\<lparr>ds_log := ds_log s @ [SysInvld 3 a m fd]\<rparr>)"
  by (simp_all add: mem_flush_ext_def mem_invld_ext_def dm_run numeral_3_eq_3 demo_kernel_def demo_dev_def)

text \<open>
  C24: cache maintenance covers what was asked for: every kernel request \<^verbatim>\<open>mem_flush_ext\<close> makes, other
  than reopening the device, has one cache-line aligned range that contains the physical range of
  the call and exceeds it by less than a line in front and two lines in size; and it reports
  success only when the kernel accepted such a request last.
\<close>

theorem mem_flush_ext_covers:
  assumes "mem_flush_ext E dev dma_fd paddr sz s = Inr (r, t)"
    "paddr + env_start E + 127 < M64" "sz + 127 < M64"
  shows "\<exists>a n seg. ds_log t = ds_log s @ seg \<and> 64 dvd a \<and> 64 dvd n \<and>
    a \<le> paddr + env_start E \<and> paddr + env_start E < a + 64 \<and>
    paddr + env_start E + sz \<le> a + n \<and> n < sz + 128 \<and>
    (\<forall>c\<in>set seg. (\<exists>fd. c = SysFlush fd a n dma_fd) \<or> c = SysOpen (env_tpu_dev E) \<or> (\<exists>fd. c = SysClose fd)) \<and>
    (r = BM_SUCCESS \<longrightarrow> (\<exists>pre fd. seg = pre @ [SysFlush fd a n dma_fd] \<and>
       sr_ret (env_kernel E (ds_log s @ pre) (SysFlush fd a n dma_fd)) = 0))"
proof -
  obtain a n where an: "cache_range E paddr sz = (a, n)" by (cases "cache_range E paddr sz")
  have "cache_retry E dev (\<lambda>fd. SysFlush fd a n dma_fd) 3 0 s = Inr (r, t)"
    using assms(1) an by (simp add: mem_flush_ext_def)
  from cache_retry_log[OF this] cache_range_bounds[OF assms(2,3) an] show ?thesis by auto
qed

theorem mem_flush_ext_covers_witness:
  "\<exists>t a n. mem_flush_ext demo_env (Some 1) 7 4100 100 demo_state = Inr (BM_SUCCESS, t) \<and>
     64 dvd a \<and> a \<le> 4100 \<and> 4100 + 100 \<le> (a + n :: u64)"
proof -
  obtain t where t: "mem_flush_ext demo_env (Some 1) 7 4100 100 demo_state = Inr (BM_SUCCESS, t)"
    by (simp add: demo_cache_ops demo_ranges demo_state_def)
  have "4100 + env_start demo_env + 127 < M64" "100 + 127 < M64" by (simp_all add: M64_def)
  from mem_flush_ext_covers[OF t this] obtain a n where
    "64 dvd a" "a \<le> 4100 + env_start demo_env" "4100 + env_start demo_env + 100 \<le> a + n" by blast
  with t show ?thesis by (intro exI[of _ t] exI[of _ a] exI[of _ n]) simp
qed

lemma mem_alloc_step:
  "mem_alloc E dev sz = dbind (alloc_round E dev sz) (\<lambda>r. case r of
       Inr blk \<Rightarrow> dret (Inr blk)
     | Inl (sz', err_flag, ret') \<Rightarrow>
         if err_flag > 0 then dthen (reopen_dev E dev err_flag) (alloc_loop E dev 2 sz' ret')
         else alloc_loop E dev 2 sz' ret')"
  unfolding mem_alloc_def numeral_3_eq_3 numeral_2_eq_2 alloc_loop.simps(2)[of E dev "Suc (Suc 0)"] ..

lemma demo_mem_alloc:
  assumes "ds_devs s (Suc 0) = Some demo_dev" "\<not> ds_ion_legacy s"
  shows "\<exists>t. mem_alloc demo_env (Some (Suc 0)) 256 s = Inr (Inr (4096, 8192, 7), t) \<and> ds_devs t (Suc 0) = Some demo_dev"
  using assms by (simp add: mem_alloc_step alloc_round_def ion_ioctl_def dm_run Let_def demo_defs demo_cache_ops[unfolded demo_dev_def] demo_ranges sub64_def)

text \<open>
  C21: \<^verbatim>\<open>mem_alloc\<close> leaks nothing: over its up to three rounds, every descriptor the kernel granted is
  closed and every mapping it made is undone, except, when it succeeds, the one descriptor and the
  one mapping it returns.
\<close>

theorem mem_alloc_no_leak:
  assumes "mem_alloc E dev sz s = Inr (r, t)"
  shows "\<exists>seg. ds_log t = ds_log s @ seg \<and>
    granted_fds E (ds_log s) seg \<subseteq># closed_fds seg + (case r of Inl _ \<Rightarrow> {#} | Inr (p, v, fd) \<Rightarrow> {#fd#}) \<and>
    granted_maps E (ds_log s) seg \<subseteq># unmapped seg + (case r of Inl _ \<Rightarrow> {#} | Inr (p, v, fd) \<Rightarrow> {#v#})"
  using alloc_loop_balanced[OF assms[unfolded mem_alloc_def]]
  by (auto simp: balanced_def split: sum.splits prod.splits)

theorem mem_alloc_no_leak_witness:
  "\<exists>t seg. mem_alloc demo_env (Some 1) 256 demo_state = Inr (Inr (4096, 8192, 7), t) \<and>
     ds_log t = seg \<and> granted_fds demo_env [] seg \<subseteq># closed_fds seg + {#7#}"
proof -
  obtain t where t: "mem_alloc demo_env (Some 1) 256 demo_state = Inr (Inr (4096, 8192, 7), t)"
    using demo_mem_alloc[of demo_state] by (auto simp: demo_state_def)
  from mem_alloc_no_leak[OF t] t show ?thesis by (auto simp: demo_state_def)
qed

section \<open>What the kernel calls leave alone\<close>

definition same_store :: "dstate \<Rightarrow> dstate \<Rightarrow> bool" where
  "same_store s t \<longleftrightarrow> ds_ram t = ds_ram s \<and> ds_mems t = ds_mems s \<and> ds_ctxs t = ds_ctxs s \<and>
     ds_root_submit_array t = ds_root_submit_array s \<and> ds_root_ctx_array t = ds_root_ctx_array s \<and>
     ds_next t = ds_next s \<and> ds_tee_firewall t = ds_tee_firewall s \<and> (\<exists>seg. ds_log t = ds_log s @ seg)"

lemma same_store_refl [simp]: "same_store s s"
  by (simp add: same_store_def)

lemma same_store_trans: "same_store s t \<Longrightarrow> same_store t u \<Longrightarrow> same_store s u"
  by (auto simp: same_store_def)

lemma reopen_same: "reopen_dev E dev flag s = Inr (r, t) \<Longrightarrow> same_store s t"
  by (auto simp: reopen_dev_def set_dev_def dm_inv same_store_def split: if_splits)

lemma cache_retry_same: "cache_retry E dev call n ret s = Inr (r, t) \<Longrightarrow> same_store s t"
proof (induction n arbitrary: ret s)
  case 0
  then show ?case by (simp add: dm_basic_Inr)
next
  case (Suc n)
  from Suc.prems obtain d :: bm_device and a u where u: "sys E (call (bd_dev_fd d)) s = Inr (a, u)"
    "(if sr_ret a \<noteq> 0 then dthen (reopen_dev E dev 1) (cache_retry E dev call n (sr_ret a)) else dret BM_SUCCESS) u = Inr (r, t)"
    unfolding cache_retry.simps deref_bind_Inr unfolding dbind_Inr by blast
  have su: "same_store s u" using u(1) by (auto simp: dm_basic_Inr sys_Inr same_store_def)
  show ?case
  proof (cases "sr_ret a = 0")
    case True
    with u(2) su show ?thesis by (auto simp: dm_basic_Inr)
  next
    case False
    with u(2) obtain x v where "reopen_dev E dev 1 u = Inr (x, v)" "cache_retry E dev call n (sr_ret a) v = Inr (r, t)"
      by (auto simp: dthen_Inr)
    from same_store_trans[OF su same_store_trans[OF reopen_same[OF this(1)] Suc.IH[OF this(2)]]] show ?thesis .
  qed
qed

lemma mem_flush_ext_same: "mem_flush_ext E dev fd p sz s = Inr (r, t) \<Longrightarrow> same_store s t"
  unfolding mem_flush_ext_def by (auto split: prod.splits elim: cache_retry_same)

lemma mem_invld_ext_same: "mem_invld_ext E dev fd p sz s = Inr (r, t) \<Longrightarrow> same_store s t"
  unfolding mem_invld_ext_def by (auto split: prod.splits elim: cache_retry_same)

lemma load_store_bytes: "n = length bs \<Longrightarrow> load_bytes a n (store_bytes a bs ram) = bs"
  by (rule nth_equalityI) (simp_all add: load_bytes_def store_bytes_def)

lemma store_bytes_other: "x < a \<or> a + length bs \<le> x \<Longrightarrow> store_bytes a bs ram x = ram x"
  by (auto simp: store_bytes_def)

text \<open>
  Data round trip: after \<^verbatim>\<open>mem_memcpy_s2d_ex\<close> has copied a caller's buffer into device memory, a
  \<^verbatim>\<open>mem_memcpy_d2s_ex\<close> of the same range returns the same bytes, and no byte outside that range
  changed.
\<close>

lemma device_copy_roundtrip:
  assumes "mem_memcpy_s2d_ex E ctx mem src offset sz s = Inr (r, t)"
    "mem_memcpy_d2s_ex E ctx mem offset sz t = Inr (bytes, u)" "ds_mems s (the mem) = Some m"
  shows "bytes = take sz src \<and>
    (\<forall>x. x < add64 (bm_v_addr m) offset \<or> add64 (bm_v_addr m) offset + sz \<le> x \<longrightarrow> ds_ram u x = ds_ram s x)"
proof -
  let ?a = "add64 (bm_v_addr m) offset"
  obtain dev s1 x where sz: "sz \<le> length src"
    and s1: "s1 = s\<lparr>ds_ram := store_bytes ?a (take sz src) (ds_ram s)\<rparr>"
    and fl: "mem_flush_ext E dev (bm_dma_fd m) (add64 (bm_p_addr m) offset) sz s1 = Inr (x, t)"
    and mem: "mem = Some (the mem)"
    using assms(1,3) by (auto simp: mem_memcpy_s2d_ex_def memcpy_in_def ctx_dev_def dm_inv split: if_splits)
  have t: "ds_ram t = ds_ram s1" "ds_mems t = ds_mems s" using mem_flush_ext_same[OF fl] s1 by (auto simp: same_store_def)
  then have "ds_mems t (the mem) = Some m" using assms(3) by simp
  then obtain dev' y where iv: "mem_invld_ext E dev' (bm_dma_fd m) (add64 (bm_p_addr m) offset) sz t = Inr (y, u)"
    and b: "bytes = load_bytes ?a sz (ds_ram u)"
    using assms(2) by (auto simp: mem_memcpy_d2s_ex_def ctx_dev_def dm_inv)
  have "ds_ram u = store_bytes ?a (take sz src) (ds_ram s)"
    using mem_invld_ext_same[OF iv] t s1 by (simp add: same_store_def)
  with b sz show ?thesis by (simp add: load_store_bytes store_bytes_other)
qed

lemma device_copy_roundtrip_witness:
  "\<exists>t u. mem_memcpy_s2d_ex demo_env (Some 2) (Some 3) [1, 2, 3] 4 3 demo_state = Inr (BM_SUCCESS, t) \<and>
     mem_memcpy_d2s_ex demo_env (Some 2) (Some 3) 4 3 t = Inr ([1, 2, 3], u)"
proof -
  have rg: "cache_range demo_env 4100 3 = (4096, 128)"
    by (simp add: cache_range_def add64_def sub64_def M64_def align_mask64_def)
  have ex: "\<exists>t bytes u. mem_memcpy_s2d_ex demo_env (Some 2) (Some 3) [1, 2, 3] 4 3 demo_state = Inr (BM_SUCCESS, t) \<and>
     mem_memcpy_d2s_ex demo_env (Some 2) (Some 3) 4 3 t = Inr (bytes, u)"
    by (simp add: mem_memcpy_s2d_ex_def mem_memcpy_d2s_ex_def memcpy_in_def dm_run demo_state_def demo_ctx_def
        demo_mem_def add64_def M64_def demo_cache_ops rg)
  then obtain t bytes u where tu: "mem_memcpy_s2d_ex demo_env (Some 2) (Some 3) [1, 2, 3] 4 3 demo_state = Inr (BM_SUCCESS, t)"
    "mem_memcpy_d2s_ex demo_env (Some 2) (Some 3) 4 3 t = Inr (bytes, u)" by blast
  have "ds_mems demo_state (the (Some 3)) = Some demo_mem" by (simp add: demo_state_def)
  from device_copy_roundtrip[OF tu this] tu show ?thesis by auto
qed

text \<open>
  A buffer carved out of another one (\<^verbatim>\<open>mem_prealloc_raw\<close>) lies inside it, in physical and in
  virtual addresses, and shares its descriptor, as long as offset plus size and the parent's
  addresses do not wrap.
\<close>

lemma mem_prealloc_inside:
  assumes "mem_prealloc_raw ctx mem offset sz s = Inr (p, t)" "ds_mems s (the mem) = Some m"
    "sz + offset < M64" "bm_p_addr m + bm_size m < M64" "bm_v_addr m + bm_size m < M64"
  shows "\<exists>k. p = Some (ds_next s) \<and> ds_mems t (ds_next s) = Some k \<and> bm_is_prealloc k \<and>
    bm_p_addr m \<le> bm_p_addr k \<and> bm_p_addr k + bm_size k \<le> bm_p_addr m + bm_size m \<and>
    bm_v_addr m \<le> bm_v_addr k \<and> bm_v_addr k + bm_size k \<le> bm_v_addr m + bm_size m \<and>
    bm_dma_fd k = bm_dma_fd m \<and> bm_size k = sz"
proof -
  have fit: "sz + offset \<le> bm_size m" and t: "p = Some (ds_next s)"
    "ds_mems t (ds_next s) = Some \<lparr>bm_v_addr = add64 (bm_v_addr m) offset, bm_p_addr = add64 (bm_p_addr m) offset,
       bm_size = sz, bm_type = BMMEM_TYPE_DEVICE, bm_is_prealloc = True, bm_dma_fd = bm_dma_fd m,
       bm_user_ref_cnt = 0, bm_offset = offset\<rparr>"
    using assms(1-3) by (auto simp: mem_prealloc_raw_def new_mem_def dm_inv u64_simps)
  with assms(4,5) show ?thesis by (simp add: u64_simps)
qed

lemma mem_prealloc_inside_witness:
  "\<exists>t k. mem_prealloc_raw (Some 2) (Some 3) 64 128 demo_state = Inr (Some 4, t) \<and>
     ds_mems t 4 = Some k \<and> bm_p_addr k + bm_size k \<le> 4096 + 256"
proof -
  obtain t where t: "mem_prealloc_raw (Some 2) (Some 3) 64 128 demo_state = Inr (Some 4, t)"
    by (simp add: mem_prealloc_raw_def dm_run demo_defs add64_def M64_def)
  have "ds_mems demo_state (the (Some 3)) = Some demo_mem" "ds_next demo_state = 4" by (simp_all add: demo_state_def)
  with mem_prealloc_inside[OF t this(1)] t show ?thesis by (auto simp: demo_mem_def M64_def)
qed

text \<open>
  The size test of \<^verbatim>\<open>mem_prealloc_raw\<close> adds size and offset in 64 bits: an offset close to the
  top of the address space passes it, and the new buffer begins before its parent.
\<close>

lemma mem_prealloc_wraps:
  "\<exists>t k. mem_prealloc_raw (Some 2) (Some 3) (2 ^ 64 - 64) 128 demo_state = Inr (Some 4, t) \<and>
     ds_mems t 4 = Some k \<and> bm_p_addr k < bm_p_addr demo_mem"
  by (simp add: mem_prealloc_raw_def dm_run demo_defs add64_def M64_def)

section \<open>Submission\<close>

lemma length_u32_bytes [simp]: "length (u32_bytes v) = 4"
  by (simp add: u32_bytes_def)

lemma byte_sum:
  "(v::nat) mod 4294967296 =
   v mod 256 + 256 * (v div 256 mod 256) + 65536 * (v div 65536 mod 256) + 16777216 * (v div 16777216 mod 256)"
proof -
  have 1: "v mod (256 * 16777216) = 256 * (v div 256 mod 16777216) + v mod 256" by (rule mod_mult2_eq)
  have 2: "v div 256 mod (256 * 65536) = 256 * (v div 256 div 256 mod 65536) + v div 256 mod 256" by (rule mod_mult2_eq)
  have 3: "v div 256 div 256 mod (256 * 256) = 256 * (v div 256 div 256 div 256 mod 256) + v div 256 div 256 mod 256"
    by (rule mod_mult2_eq)
  have "v div 256 div 256 = v div 65536" "v div 65536 div 256 = v div 16777216"
    by (simp_all add: div_mult2_eq[symmetric])
  with 1 2 3 show ?thesis by simp
qed

lemma load_store_u32: "load_u32 a (store_bytes a (u32_bytes v) ram) = v mod 2 ^ 32"
proof -
  have b: "unat (of_nat n :: byte) = n mod 256" for n by (simp add: unsigned_of_nat take_bit_eq_mod)
  have "load_u32 a (store_bytes a (u32_bytes v) ram) =
      v mod 256 + 256 * (v div 256 mod 256) + 65536 * (v div 65536 mod 256) + 16777216 * (v div 16777216 mod 256)"
    by (simp add: load_u32_def store_bytes_def u32_bytes_def b)
  with byte_sum[of v] show ?thesis by simp
qed

lemma load_u32_other:
  "a + 4 \<le> b \<or> b + length bs \<le> a \<Longrightarrow> load_u32 a (store_bytes b bs ram) = load_u32 a ram"
  by (auto simp: load_u32_def store_bytes_def)

lemma store_bases_effect:
  "store_bases v k bs s = Inr (x, t) \<Longrightarrow>
   (\<forall>j<length bs. load_u32 (v + hdr_arraybase_L (k + j)) (ds_ram t) = bs ! j mod M32) \<and>
   (\<forall>j<k. load_u32 (v + hdr_arraybase_L j) (ds_ram t) = load_u32 (v + hdr_arraybase_L j) (ds_ram s)) \<and>
   t = s\<lparr>ds_ram := ds_ram t\<rparr>"
proof (induction bs arbitrary: k s)
  case (Cons b bs)
  let ?u = "s\<lparr>ds_ram := store_bytes (v + hdr_arraybase_L k) (u32_bytes (b mod M32)) (ds_ram s)\<rparr>"
  have u: "store_bases v (Suc k) bs ?u = Inr (x, t)" using Cons.prems by (simp add: store_u32_def dm_inv)
  note IH = Cons.IH[OF u]
  have "load_u32 (v + hdr_arraybase_L (k + j)) (ds_ram t) = (b # bs) ! j mod M32" if "j < length (b # bs)" for j
  proof (cases j)
    case 0
    then show ?thesis using IH by (simp add: load_store_u32 M32_def)
  next
    case (Suc i)
    then show ?thesis using IH that by simp
  qed
  moreover have "load_u32 (v + hdr_arraybase_L j) (ds_ram t) = load_u32 (v + hdr_arraybase_L j) (ds_ram s)" if "j < k" for j
    using IH that by (simp add: load_u32_other hdr_arraybase_L_def)
  moreover have "t = s\<lparr>ds_ram := ds_ram t\<rparr>" using IH by (metis dstate.surjective dstate.update_convs(6))
  ultimately show ?case by blast
qed (simp add: dm_inv)

lemma submit_dmabuf_log:
  assumes "submit_dmabuf E dev fd n s = Inr (r, t)"
  shows "\<exists>d seg. ds_log t = ds_log s @ SysSubmit d fd n # seg \<and> same_store s t \<and>
    (r = BM_SUCCESS \<longleftrightarrow> sr_ret (env_kernel E (ds_log s) (SysSubmit d fd n)) = 0)"
proof -
  obtain d :: bm_device and a u where u: "sys E (SysSubmit (bd_dev_fd d) fd n) s = Inr (a, u)"
    "(if sr_ret a \<noteq> 0 then dthen (reopen_dev E dev 1) (dret BM_ERR_FAILURE) else dret BM_SUCCESS) u = Inr (r, t)"
    using assms unfolding submit_dmabuf_def deref_bind_Inr unfolding dbind_Inr by blast
  have su: "same_store s u" "ds_log u = ds_log s @ [SysSubmit (bd_dev_fd d) fd n]"
    "a = env_kernel E (ds_log s) (SysSubmit (bd_dev_fd d) fd n)"
    using u(1) by (auto simp: dm_basic_Inr sys_Inr same_store_def)
  show ?thesis
  proof (cases "sr_ret a = 0")
    case True
    with u(2) su show ?thesis by (intro exI[of _ "bd_dev_fd d"] exI[of _ "[]"]) (auto simp: dm_basic_Inr)
  next
    case False
    with u(2) obtain x where "reopen_dev E dev 1 u = Inr (x, t)" "r = BM_ERR_FAILURE" by (auto simp: dm_inv)
    from reopen_same[OF this(1)] this(2) su False show ?thesis
      by (auto simp: same_store_def)
  qed
qed

lemma submit_next_effect:
  assumes "submit_next E ctx fd s = Inr ((r, n), t)" "ds_ctxs s (the ctx) = Some c"
  shows "n = bc_seq_no c \<and> ds_ctxs t (the ctx) = Some (c\<lparr>bc_seq_no := (n + 1) mod 2 ^ 16\<rparr>) \<and>
    ds_ram t = ds_ram s \<and> ds_mems t = ds_mems s \<and> ds_root_submit_array t = ds_root_submit_array s \<and>
    (\<exists>d seg. ds_log t = ds_log s @ SysSubmit d fd n # seg \<and>
      (r = BM_SUCCESS \<longleftrightarrow> sr_ret (env_kernel E (ds_log s) (SysSubmit d fd n)) = 0))"
proof -
  obtain i ret u where i: "ctx = Some i" "submit_dmabuf E (bc_dev c) fd (bc_seq_no c) s = Inr (ret, u)"
    "dbind (next_seq ctx) (\<lambda>n. dret (if ret = BM_SUCCESS then BM_SUCCESS else BM_ERR_FAILURE, n)) u = Inr ((r, n), t)"
    using assms unfolding submit_next_def deref_bind_Inr unfolding dbind_Inr by auto
  from submit_dmabuf_log[OF i(2)] obtain d seg where d: "ds_log u = ds_log s @ SysSubmit d fd (bc_seq_no c) # seg"
    "same_store s u" "ret = BM_SUCCESS \<longleftrightarrow> sr_ret (env_kernel E (ds_log s) (SysSubmit d fd (bc_seq_no c))) = 0" by blast
  have "ds_ctxs u i = Some c" using d(2) assms(2) i(1) by (simp add: same_store_def)
  with i(1,3) d show ?thesis by (auto simp: next_seq_def set_ctx_def dm_inv same_store_def)
qed

lemma protect_same:
  "(if b then mem_protect E v n else dret ()) s = Inr (x, t) \<or>
   (if b then mem_unprotect E v n else dret ()) s = Inr (x, t) \<Longrightarrow>
   ds_ram t = ds_ram s \<and> ds_mems t = ds_mems s \<and> ds_ctxs t = ds_ctxs s"
  by (auto simp: mem_protect_def mem_unprotect_def dm_inv split: if_splits)

text \<open>
  A successful return of \<^verbatim>\<open>run_cmdbuf_ex2\<close> has written the low 32 bits of all eight bases into the
  command buffer's header, has submitted the buffer with the context's current sequence number,
  returns that number, and advances the context's number by one modulo 2^16, also when the kernel
  refuses the submission; the result is success exactly when the kernel accepted.
\<close>

lemma run_cmdbuf_ex2_submits:
  assumes "run_cmdbuf_ex2 E ctx mem bases s = Inr ((r, n), t)" "length bases = 8"
    "ds_mems s (the mem) = Some m" "ds_ctxs s (the ctx) = Some c"
  shows "load_u16 (bm_v_addr m) (ds_ram s) = env_magic E \<and>
    (\<forall>k<8. load_u32 (bm_v_addr m + hdr_arraybase_L k) (ds_ram t) = bases ! k mod M32) \<and>
    n = bc_seq_no c \<and> ds_ctxs t (the ctx) = Some (c\<lparr>bc_seq_no := (n + 1) mod 2 ^ 16\<rparr>) \<and>
    (\<exists>pre d seg. ds_log t = pre @ SysSubmit d (bm_dma_fd m) n # seg \<and>
      (r = BM_SUCCESS \<longleftrightarrow> sr_ret (env_kernel E pre (SysSubmit d (bm_dma_fd m) n)) = 0))"
proof -
  obtain s1 s2 s3 x y z where p1: "(if env_protect E then mem_unprotect E (bm_v_addr m) (bm_size m) else dret ()) s = Inr (y, s1)"
    and magic: "load_u16 (bm_v_addr m) (ds_ram s1) = env_magic E"
    and s2: "store_bases (bm_v_addr m) 0 (take 8 bases) s1 = Inr (x, s2)"
    and p3: "(if env_protect E then mem_protect E (bm_v_addr m) (bm_size m) else dret ()) s2 = Inr (z, s3)"
    and sub: "submit_next E ctx (bm_dma_fd m) s3 = Inr ((r, n), t)"
    using assms(1,3) unfolding run_cmdbuf_ex2_def deref_bind_Inr unfolding dbind_Inr dthen_Inr dm_basic_Inr by fastforce
  note s1 = protect_same[OF disjI2, OF p1] and s3 = protect_same[OF disjI1, OF p3]
  note st = store_bases_effect[OF s2]
  have "ds_ctxs s2 = ds_ctxs s1" using st by (metis dstate.select_convs(5) dstate.surjective dstate.update_convs(6))
  then have c3: "ds_ctxs s3 (the ctx) = Some c" using s3 s1 assms(4) by simp
  from submit_next_effect[OF sub c3] st magic s1 s3 assms(2) show ?thesis by auto
qed

lemma run_cmdbuf_ex2_submits_witness:
  "\<exists>t. run_cmdbuf_ex2 demo_env (Some 2) (Some 3) [1, 2, 3, 4, 5, 6, 7, 8] demo_state = Inr ((BM_SUCCESS, 0), t) \<and>
     (\<forall>k<8. load_u32 (bm_v_addr demo_mem + hdr_arraybase_L k) (ds_ram t) = [1, 2, 3, 4, 5, 6, 7, 8] ! k mod M32)"
proof -
  obtain t where t: "run_cmdbuf_ex2 demo_env (Some 2) (Some 3) [1, 2, 3, 4, 5, 6, 7, 8] demo_state = Inr ((BM_SUCCESS, 0), t)"
    by (simp add: run_cmdbuf_ex2_def submit_next_def submit_dmabuf_def next_seq_def store_u32_def load_u16_def
        dm_run demo_defs)
  have "ds_mems demo_state (the (Some 3)) = Some demo_mem" "ds_ctxs demo_state (the (Some 2)) = Some demo_ctx"
    by (simp_all add: demo_state_def)
  with run_cmdbuf_ex2_submits[OF t _ this] t show ?thesis by auto
qed

section \<open>Waiting\<close>

text \<open>
  The polling loop of \<^verbatim>\<open>wait_dmabuf\<close> stops at the first answer of zero: if the kernel would answer some
  poll within the fuel with zero, it returns after at most that many polls.
\<close>

lemma wait_loop_returns:
  assumes "k < fuel" "sr_ret (env_kernel E (ds_log s @ replicate k (SysWait fd n)) (SysWait fd n)) = 0"
  shows "\<exists>j\<le>k. wait_loop E fd n fuel s =
    Inr (env_kernel E (ds_log s @ replicate j (SysWait fd n)) (SysWait fd n),
         s\<lparr>ds_log := ds_log s @ replicate (Suc j) (SysWait fd n)\<rparr>) \<and>
    sr_ret (env_kernel E (ds_log s @ replicate j (SysWait fd n)) (SysWait fd n)) = 0"
  using assms
proof (induction fuel arbitrary: k s)
  case (Suc fuel)
  let ?c = "SysWait fd n"
  let ?u = "s\<lparr>ds_log := ds_log s @ [?c]\<rparr>"
  show ?case
  proof (cases "sr_ret (env_kernel E (ds_log s) ?c) = 0")
    case True
    then show ?thesis by (intro exI[of _ 0]) (simp add: dm_run)
  next
    case False
    then have "k \<noteq> 0" using Suc.prems(2) by (cases k) auto
    then obtain k' where k: "k = Suc k'" by (cases k) auto
    then have "\<exists>j\<le>k'. wait_loop E fd n fuel ?u =
      Inr (env_kernel E (ds_log ?u @ replicate j ?c) ?c, ?u\<lparr>ds_log := ds_log ?u @ replicate (Suc j) ?c\<rparr>) \<and>
      sr_ret (env_kernel E (ds_log ?u @ replicate j ?c) ?c) = 0"
      using Suc.prems by (intro Suc.IH) auto
    then obtain j where j: "j \<le> k'" "wait_loop E fd n fuel ?u =
      Inr (env_kernel E (ds_log ?u @ replicate j ?c) ?c, ?u\<lparr>ds_log := ds_log ?u @ replicate (Suc j) ?c\<rparr>)"
      "sr_ret (env_kernel E (ds_log ?u @ replicate j ?c) ?c) = 0" by blast
    with False k show ?thesis by (intro exI[of _ "Suc j"]) (simp add: dm_run)
  qed
qed simp

lemma wait_loop_log:
  "wait_loop E fd n fuel s = Inr (r, t) \<Longrightarrow>
   (\<exists>j. t = s\<lparr>ds_log := ds_log s @ replicate (Suc j) (SysWait fd n)\<rparr>) \<and> sr_ret r = 0"
proof (induction fuel arbitrary: s)
  case (Suc fuel)
  let ?c = "SysWait fd n"
  show ?case
  proof (cases "sr_ret (env_kernel E (ds_log s) ?c) = 0")
    case True
    with Suc.prems show ?thesis by (auto simp: dm_inv intro!: exI[of _ 0])
  next
    case False
    with Suc.prems have "wait_loop E fd n fuel (s\<lparr>ds_log := ds_log s @ [?c]\<rparr>) = Inr (r, t)" by (auto simp: dm_inv)
    from Suc.IH[OF this] obtain j where "t = s\<lparr>ds_log := ds_log s @ [?c] @ replicate (Suc j) ?c\<rparr>" "sr_ret r = 0" by auto
    then show ?thesis by (intro conjI exI[of _ "Suc j"]) simp_all
  qed
qed (simp add: dm_inv)

lemma wait_dmabuf_log:
  assumes "wait_dmabuf E dev n s = Inr (r, t)"
  shows "\<exists>fd seg. t = s\<lparr>ds_log := ds_log s @ seg\<rparr> \<and> SysWait fd n \<in> set seg"
proof -
  obtain d :: bm_device and a where "wait_loop E (bd_dev_fd d) n (env_wait_fuel E) s = Inr (a, t)"
    using assms by (auto simp: wait_dmabuf_def dm_inv)
  from wait_loop_log[OF this] obtain j where
    "t = s\<lparr>ds_log := ds_log s @ replicate (Suc j) (SysWait (bd_dev_fd d) n)\<rparr>" by blast
  moreover have "SysWait (bd_dev_fd d) n \<in> set (replicate (Suc j) (SysWait (bd_dev_fd d) n))" by simp
  ultimately show ?thesis by blast
qed

lemma wait_all_loop_effect:
  "wait_all_loop E ctx is s = Inr (x, t) \<Longrightarrow> distinct is \<Longrightarrow> \<forall>i\<in>set is. i < length (ds_root_submit_array s) \<Longrightarrow>
   (\<exists>seg. ds_log t = ds_log s @ seg \<and>
      (\<forall>i\<in>set is. ds_root_submit_array s ! i \<noteq> 0 \<longrightarrow> (\<exists>fd. SysWait fd (ds_root_submit_array s ! i) \<in> set seg))) \<and>
   length (ds_root_submit_array t) = length (ds_root_submit_array s) \<and>
   (\<forall>i\<in>set is. ds_root_submit_array t ! i = 0) \<and>
   (\<forall>i<length (ds_root_submit_array s). i \<notin> set is \<longrightarrow> ds_root_submit_array t ! i = ds_root_submit_array s ! i)"
proof (induction "is" arbitrary: s)
  case (Cons i "is")
  let ?n = "ds_root_submit_array s ! i"
  show ?case
  proof (cases "?n = 0")
    case True
    with Cons.prems(1) have "wait_all_loop E ctx is s = Inr (x, t)" by (simp add: dm_inv)
    from Cons.IH[OF this] Cons.prems True show ?thesis by auto
  next
    case False
    with Cons.prems(1) obtain u where u: "wait_cmdbuf_done E ctx ?n s = Inr (BM_SUCCESS, u)"
      "wait_all_loop E ctx is (u\<lparr>ds_root_submit_array := (ds_root_submit_array u)[i := 0]\<rparr>) = Inr (x, t)"
      by (auto simp: dm_inv)
    from u(1) obtain fd seg where w: "u = s\<lparr>ds_log := ds_log s @ seg\<rparr>" "SysWait fd ?n \<in> set seg"
      by (auto simp: wait_cmdbuf_done_def ctx_dev_def dm_inv dest!: wait_dmabuf_log)
    let ?v = "u\<lparr>ds_root_submit_array := (ds_root_submit_array u)[i := 0]\<rparr>"
    have "distinct is" "i \<notin> set is" "\<forall>j\<in>set is. j < length (ds_root_submit_array ?v)" using Cons.prems w(1) by auto
    note IH = Cons.IH[OF u(2) this(1,3)]
    from IH obtain seg2 where s2: "ds_log t = ds_log ?v @ seg2"
      "\<forall>j\<in>set is. ds_root_submit_array ?v ! j \<noteq> 0 \<longrightarrow> (\<exists>fd. SysWait fd (ds_root_submit_array ?v ! j) \<in> set seg2)" by blast
    have same: "ds_root_submit_array ?v ! j = ds_root_submit_array s ! j" if "j \<noteq> i" for j using that w(1) by simp
    have "\<exists>sg. ds_log t = ds_log s @ sg \<and> (\<forall>j\<in>set (i # is). ds_root_submit_array s ! j \<noteq> 0 \<longrightarrow>
        (\<exists>fd. SysWait fd (ds_root_submit_array s ! j) \<in> set sg))"
    proof (intro exI[of _ "seg @ seg2"] conjI ballI impI)
      show "ds_log t = ds_log s @ seg @ seg2" using s2(1) w(1) by simp
      fix j assume j: "j \<in> set (i # is)" "ds_root_submit_array s ! j \<noteq> 0"
      show "\<exists>fd. SysWait fd (ds_root_submit_array s ! j) \<in> set (seg @ seg2)"
      proof (cases "j = i")
        case False
        with j s2(2) same[OF False] show ?thesis by fastforce
      qed (use w(2) in auto)
    qed
    moreover have "ds_root_submit_array t ! i = 0"
      using IH \<open>i \<notin> set is\<close> Cons.prems(3) w(1) by simp
    ultimately show ?thesis using IH same w(1) by auto
  qed
qed (simp add: dm_inv)

lemma wait_all_loop_empty:
  "\<forall>i\<in>set is. ds_root_submit_array s ! i = 0 \<Longrightarrow> wait_all_loop E ctx is s = Inr ((), s)"
  by (induction "is") (auto simp: dm_run)

text \<open>
  \<^verbatim>\<open>wait_cmdbuf_all\<close>, when it returns, has waited in the kernel for every sequence number that was
  recorded in the table of asynchronous submissions, and has emptied the table.
\<close>

lemma wait_cmdbuf_all_complete:
  assumes "wait_cmdbuf_all E ctx s = Inr (r, t)" "length (ds_root_submit_array s) = SUBMIT_QUEUE_MAX"
  shows "r = BM_SUCCESS \<and> set (ds_root_submit_array t) \<subseteq> {0} \<and>
    (\<forall>n\<in>set (ds_root_submit_array s). n \<noteq> 0 \<longrightarrow> (\<exists>fd. SysWait fd n \<in> set (drop (length (ds_log s)) (ds_log t))))"
proof -
  obtain x where l: "wait_all_loop E ctx [0..<SUBMIT_QUEUE_MAX] s = Inr (x, t)" "r = BM_SUCCESS"
    using assms(1) by (auto simp: wait_cmdbuf_all_def dm_inv)
  have "\<forall>i\<in>set [0..<SUBMIT_QUEUE_MAX]. i < length (ds_root_submit_array s)" using assms(2) by simp
  from wait_all_loop_effect[OF l(1) distinct_upt this] assms(2) l(2) show ?thesis
    by (force simp: in_set_conv_nth)
qed

lemma wait_cmdbuf_all_complete_witness:
  "\<exists>t. wait_cmdbuf_all demo_env (Some 2) (demo_state\<lparr>ds_root_submit_array := 5 # replicate 99 0\<rparr>) = Inr (BM_SUCCESS, t) \<and>
     (\<exists>fd. SysWait fd 5 \<in> set (ds_log t))"
proof -
  let ?s = "demo_state\<lparr>ds_root_submit_array := 5 # replicate 99 0\<rparr>"
  let ?u = "demo_state\<lparr>ds_log := [SysWait 3 5], ds_root_submit_array := 0 # replicate 99 0\<rparr>"
  have up: "[0..<SUBMIT_QUEUE_MAX] = 0 # [1..<SUBMIT_QUEUE_MAX]"
    by (simp add: SUBMIT_QUEUE_MAX_def upt_rec)
  have z: "wait_all_loop demo_env (Some 2) [1..<SUBMIT_QUEUE_MAX] ?u = Inr ((), ?u)"
    by (rule wait_all_loop_empty) (auto simp: nth_Cons SUBMIT_QUEUE_MAX_def split: nat.splits)
  have w: "wait_cmdbuf_done demo_env (Some 2) 5 ?s = Inr (BM_SUCCESS, ?s\<lparr>ds_log := [SysWait 3 5]\<rparr>)"
    by (simp add: wait_cmdbuf_done_def wait_dmabuf_def dm_run demo_defs)
  have r: "wait_cmdbuf_all demo_env (Some 2) ?s = Inr (BM_SUCCESS, ?u)"
    unfolding wait_cmdbuf_all_def up using z w by (simp add: dm_run)
  have "length (ds_root_submit_array ?s) = SUBMIT_QUEUE_MAX" by (simp add: SUBMIT_QUEUE_MAX_def)
  from wait_cmdbuf_all_complete[OF r this] r show ?thesis by (auto simp: demo_state_def)
qed

text \<open>
  A sequence number the kernel answers for: whatever was called before, one of the next polls within the
  fuel is answered with zero, and an answer of zero carries the status of a finished buffer.
\<close>

definition answers :: "env \<Rightarrow> int \<Rightarrow> nat \<Rightarrow> bool" where
  "answers E fd n \<longleftrightarrow> (\<forall>log. \<exists>k<env_wait_fuel E. sr_ret (env_kernel E (log @ replicate k (SysWait fd n)) (SysWait fd n)) = 0) \<and>
     (\<forall>log. sr_ret (env_kernel E log (SysWait fd n)) = 0 \<longrightarrow> sr_status (env_kernel E log (SysWait fd n)) = 0)"

text \<open>The calls of the waits for the numbers \<open>ns\<close>, where the wait for each takes one poll more than \<open>ps\<close> says.\<close>

definition polls :: "int \<Rightarrow> nat list \<Rightarrow> nat list \<Rightarrow> syscall list" where
  "polls fd ns ps = concat (map2 (\<lambda>n p. replicate (Suc p) (SysWait fd n)) ns ps)"

lemma wait_cmdbuf_done_answered:
  assumes "ds_ctxs s c = Some C" "bc_dev C = Some d" "ds_devs s d = Some D" "answers E (bd_dev_fd D) n"
  shows "\<exists>p<env_wait_fuel E. wait_cmdbuf_done E (Some c) n s = Inr (BM_SUCCESS, s\<lparr>ds_log := ds_log s @ replicate (Suc p) (SysWait (bd_dev_fd D) n)\<rparr>)"
proof -
  obtain k where k: "k < env_wait_fuel E" "sr_ret (env_kernel E (ds_log s @ replicate k (SysWait (bd_dev_fd D) n)) (SysWait (bd_dev_fd D) n)) = 0"
    using assms(4) unfolding answers_def by blast
  obtain j where j: "j \<le> k" "wait_loop E (bd_dev_fd D) n (env_wait_fuel E) s =
      Inr (env_kernel E (ds_log s @ replicate j (SysWait (bd_dev_fd D) n)) (SysWait (bd_dev_fd D) n), s\<lparr>ds_log := ds_log s @ replicate (Suc j) (SysWait (bd_dev_fd D) n)\<rparr>)"
    "sr_ret (env_kernel E (ds_log s @ replicate j (SysWait (bd_dev_fd D) n)) (SysWait (bd_dev_fd D) n)) = 0"
    using wait_loop_returns[OF k] by blast
  have "sr_status (env_kernel E (ds_log s @ replicate j (SysWait (bd_dev_fd D) n)) (SysWait (bd_dev_fd D) n)) = 0"
    using assms(4) j(3) unfolding answers_def by blast
  then show ?thesis
    by (intro exI[of _ j]) (use j k(1) assms(1-3) in \<open>simp add: wait_cmdbuf_done_def wait_dmabuf_def dm_run del: replicate_Suc wait_loop.simps\<close>)
qed

lemma wait_all_loop_returns:
  assumes "ds_ctxs s c = Some C" "bc_dev C = Some d" "ds_devs s d = Some D" "distinct is" "\<forall>i\<in>set is. i < length (ds_root_submit_array s)"
    and "\<forall>i\<in>set is. ds_root_submit_array s ! i \<noteq> 0 \<longrightarrow> answers E (bd_dev_fd D) (ds_root_submit_array s ! i)"
  shows "\<exists>ps. length ps = length (filter (\<lambda>n. n \<noteq> 0) (map ((!) (ds_root_submit_array s)) is)) \<and> (\<forall>p\<in>set ps. p < env_wait_fuel E) \<and>
    wait_all_loop E (Some c) is s = Inr ((), s\<lparr>ds_log := ds_log s @ polls (bd_dev_fd D) (filter (\<lambda>n. n \<noteq> 0) (map ((!) (ds_root_submit_array s)) is)) ps,
      ds_root_submit_array := fold (\<lambda>i a. a[i := 0]) is (ds_root_submit_array s)\<rparr>)"
  using assms
proof (induction "is" arbitrary: s)
  case Nil
  then show ?case by (simp add: polls_def dm_run)
next
  case (Cons i "is")
  let ?A = "ds_root_submit_array s"
  show ?case
  proof (cases "?A ! i = 0")
    case True
    then have "?A[i := 0] = ?A" by (metis list_update_id)
    with Cons.IH[OF Cons.prems(1-3)] Cons.prems(4-6) True show ?thesis by (simp add: dm_run)
  next
    case False
    obtain p where p: "p < env_wait_fuel E" "wait_cmdbuf_done E (Some c) (?A ! i) s = Inr (BM_SUCCESS, s\<lparr>ds_log := ds_log s @ replicate (Suc p) (SysWait (bd_dev_fd D) (?A ! i))\<rparr>)"
      using wait_cmdbuf_done_answered[OF Cons.prems(1-3), of E "?A ! i"] Cons.prems(6) False by auto
    let ?u = "s\<lparr>ds_log := ds_log s @ replicate (Suc p) (SysWait (bd_dev_fd D) (?A ! i)), ds_root_submit_array := ?A[i := 0]\<rparr>"
    have same: "map ((!) (?A[i := 0])) is = map ((!) ?A) is" "\<forall>j\<in>set is. ?A[i := 0] ! j = ?A ! j" using Cons.prems(4) by (auto intro!: nth_list_update_neq)
    obtain ps where ps: "length ps = length (filter (\<lambda>n. n \<noteq> 0) (map ((!) ?A) is))" "\<forall>p\<in>set ps. p < env_wait_fuel E"
      "wait_all_loop E (Some c) is ?u = Inr ((), ?u\<lparr>ds_log := ds_log ?u @ polls (bd_dev_fd D) (filter (\<lambda>n. n \<noteq> 0) (map ((!) ?A) is)) ps,
        ds_root_submit_array := fold (\<lambda>i a. a[i := 0]) is (?A[i := 0])\<rparr>)"
      using Cons.IH[of ?u] Cons.prems same by auto
    show ?thesis
      by (rule exI[of _ "p # ps"]) (use ps p False in \<open>simp add: polls_def dm_run del: replicate_Suc\<close>)
  qed
qed

lemma fold_clear: "length (fold (\<lambda>i a. a[i := 0 :: nat]) is A) = length A"
  "j < length A \<Longrightarrow> fold (\<lambda>i a. a[i := 0]) is A ! j = (if j \<in> set is then 0 else A ! j)"
  by (induction "is" arbitrary: A) (auto simp: nth_list_update)

text \<open>
  C37: \<^verbatim>\<open>wait_cmdbuf_all\<close> returns: if the kernel answers for every sequence number in the table of asynchronous
  submissions, each within the fuel of one wait but after any number of polls below it, then the
  call returns success; it has polled for the recorded numbers one after the other in the order of the
  table and for no other number, each at least once and no more often than the fuel allows, and has
  emptied the whole table; nothing else of the state has changed.
\<close>

theorem wait_cmdbuf_all_returns:
  assumes "ds_ctxs s c = Some C" "bc_dev C = Some d" "ds_devs s d = Some D" "length (ds_root_submit_array s) = SUBMIT_QUEUE_MAX"
    and "\<forall>n\<in>set (ds_root_submit_array s). n \<noteq> 0 \<longrightarrow> answers E (bd_dev_fd D) n"
  shows "\<exists>ps. length ps = length (filter (\<lambda>n. n \<noteq> 0) (ds_root_submit_array s)) \<and> (\<forall>p\<in>set ps. p < env_wait_fuel E) \<and>
    wait_cmdbuf_all E (Some c) s = Inr (BM_SUCCESS, s\<lparr>ds_log := ds_log s @ polls (bd_dev_fd D) (filter (\<lambda>n. n \<noteq> 0) (ds_root_submit_array s)) ps,
      ds_root_submit_array := replicate SUBMIT_QUEUE_MAX 0\<rparr>)"
proof -
  let ?A = "ds_root_submit_array s"
  have A: "map ((!) ?A) [0..<SUBMIT_QUEUE_MAX] = ?A" using assms(4) by (metis map_nth)
  have "fold (\<lambda>i a. a[i := 0]) [0..<SUBMIT_QUEUE_MAX] ?A = replicate SUBMIT_QUEUE_MAX 0"
    by (rule nth_equalityI) (auto simp: fold_clear assms(4))
  moreover have "\<forall>i\<in>set [0..<SUBMIT_QUEUE_MAX]. i < length ?A" "\<forall>i\<in>set [0..<SUBMIT_QUEUE_MAX]. ?A ! i \<noteq> 0 \<longrightarrow> answers E (bd_dev_fd D) (?A ! i)"
    using assms(4,5) by auto
  ultimately show ?thesis
    using wait_all_loop_returns[OF assms(1-3) distinct_upt, of 0 SUBMIT_QUEUE_MAX E] unfolding A
    by (auto simp: wait_cmdbuf_all_def dm_run simp del: wait_all_loop.simps)
qed

text \<open>A kernel that answers every second poll.\<close>

definition busy_env :: env where
  "busy_env = demo_env\<lparr>env_kernel := \<lambda>log c. (demo_kernel log c)\<lparr>sr_ret := if log \<noteq> [] \<and> last log = c then 0 else 1\<rparr>, env_wait_fuel := 2\<rparr>"

lemma busy_answers: "answers busy_env fd n"
proof -
  have "\<exists>k<2. sr_ret (env_kernel busy_env (log @ replicate k (SysWait fd n)) (SysWait fd n)) = 0" for log
    by (rule exI[of _ 1]) (simp add: busy_env_def)
  then show ?thesis by (simp add: answers_def busy_env_def demo_kernel_def)
qed

theorem wait_cmdbuf_all_returns_witness:
  "\<exists>ps. length ps = 2 \<and> (\<forall>p\<in>set ps. p < 2) \<and> wait_cmdbuf_all busy_env (Some 2) (demo_state\<lparr>ds_root_submit_array := 5 # 9 # replicate 98 0\<rparr>) =
     Inr (BM_SUCCESS, demo_state\<lparr>ds_log := polls 3 [5, 9] ps, ds_root_submit_array := replicate SUBMIT_QUEUE_MAX 0\<rparr>)"
proof -
  let ?s = "demo_state\<lparr>ds_root_submit_array := 5 # 9 # replicate 98 0\<rparr>"
  have s: "ds_ctxs ?s 2 = Some demo_ctx" "bc_dev demo_ctx = Some 1" "ds_devs ?s 1 = Some demo_dev" "length (ds_root_submit_array ?s) = SUBMIT_QUEUE_MAX"
    by (simp_all add: demo_state_def demo_ctx_def SUBMIT_QUEUE_MAX_def)
  have f: "filter (\<lambda>n. n \<noteq> 0) (5 # 9 # replicate 98 0) = [5, 9 :: nat]" by simp
  have "\<forall>n\<in>set (ds_root_submit_array ?s). n \<noteq> 0 \<longrightarrow> answers busy_env (bd_dev_fd demo_dev) n" by (simp add: busy_answers)
  moreover have "env_wait_fuel busy_env = 2" "bd_dev_fd demo_dev = 3" "ds_log demo_state = []" "length [5, 9 :: nat] = 2"
    by (simp_all add: busy_env_def demo_dev_def demo_state_def)
  ultimately show ?thesis using wait_cmdbuf_all_returns[OF s, of busy_env] f by (simp del: list.size)
qed

lemma submit_record_zero: "submit_record 0 arr = arr"
  by (auto simp: submit_record_def list_update_same_conv split: option.splits dest!: find_index_SomeD)

text \<open>
  The first asynchronous submission of a context is never waited for: its sequence number is 0,
  which also marks an empty cell of the table, so \<^verbatim>\<open>run_async\<close> records nothing, and a
  \<^verbatim>\<open>wait_cmdbuf_all\<close> right after it makes no call to the kernel at all.
\<close>

lemma first_async_not_waited:
  assumes "run_async E ctx mem s = Inr (r, t)" "ds_ctxs s (the ctx) = Some c" "bc_seq_no c = 0"
    "ds_root_submit_array s = replicate SUBMIT_QUEUE_MAX 0"
  shows "wait_cmdbuf_all E ctx t = Inr (BM_SUCCESS, t) \<and> (\<exists>d fd seg. ds_log t = ds_log s @ SysSubmit d fd 0 # seg)"
proof -
  obtain m n u where u: "submit_next E ctx (bm_dma_fd (m :: bm_memory)) s = Inr ((r, n), u)"
    "t = u\<lparr>ds_root_submit_array := submit_record n (ds_root_submit_array u)\<rparr>"
    using assms(1) unfolding run_async_def deref_bind_Inr unfolding dbind_Inr by (auto simp: dm_inv)
  note e = submit_next_effect[OF u(1) assms(2)]
  then have "ds_root_submit_array t = replicate SUBMIT_QUEUE_MAX 0"
    using u(2) assms(3,4) by (simp add: submit_record_zero)
  then have "wait_all_loop E ctx [0..<SUBMIT_QUEUE_MAX] t = Inr ((), t)" by (intro wait_all_loop_empty) simp
  with e u(2) assms(3) show ?thesis by (auto simp: wait_cmdbuf_all_def dm_run)
qed

lemma first_async_not_waited_witness:
  "\<exists>t. run_async demo_env (Some 2) (Some 3) (demo_state\<lparr>ds_root_submit_array := replicate SUBMIT_QUEUE_MAX 0\<rparr>) =
       Inr (BM_SUCCESS, t) \<and> wait_cmdbuf_all demo_env (Some 2) t = Inr (BM_SUCCESS, t)"
proof -
  let ?s = "demo_state\<lparr>ds_root_submit_array := replicate SUBMIT_QUEUE_MAX 0\<rparr>"
  obtain t where t: "run_async demo_env (Some 2) (Some 3) ?s = Inr (BM_SUCCESS, t)"
    by (simp add: run_async_def submit_next_def submit_dmabuf_def next_seq_def dm_run demo_defs)
  have "ds_ctxs ?s (the (Some 2)) = Some demo_ctx" "bc_seq_no demo_ctx = 0" by (simp_all add: demo_defs)
  from first_async_not_waited[OF t this] t show ?thesis by simp
qed

text \<open>
  \<^verbatim>\<open>mem_free_ex(0)\<close> dereferences a null pointer: address 0 marks the free entries of a context's
  table, so the search matches one of them, whose object pointer is null.
\<close>

lemma mem_free_ex_zero_null:
  assumes "ds_root_ctx_array s = Some i # rest" "ds_ctxs s i = Some c"
    "find_index (\<lambda>e. fst e = 0) (bc_root_mem_array c) = Some k" "snd (bc_root_mem_array c ! k) = None"
  shows "mem_free_ex E 0 s = Inl NullDeref"
  using assms by (simp add: mem_free_ex_def dm_run)

end
