(* ===== verification/ChipMem.thy ===== *)
theory ChipMem
  imports DeviceMem
begin

text \<open>
  The chip-specific device layers (\<^verbatim>\<open>src/soc/18?x/cvi18?x_device_mem.cpp\<close>, classes
  \<^verbatim>\<open>Cvi180xDeviceMem\<close> to \<^verbatim>\<open>Cvi183xDeviceMem\<close>) with the header operations of \<^verbatim>\<open>bm_dmabuf.c\<close> they
  use.  A chip is a table of its virtual methods, which the runtime layer above calls.

  The command buffer format belongs to the kernel library \<^verbatim>\<open>bmkernel\<close>, which is not part of the
  repository: its constants, the size computation and the conversion of a command buffer are
  fields of a parameter.
\<close>

section \<open>The kernel library\<close>

record bmk =
  bk_bdc_bit :: nat
  bk_tdma_bit :: nat
  bk_desc_bytes :: nat
  bk_enable_pmu :: bool
  bk_dmabuf_size :: "byte list \<Rightarrow> u64 \<Rightarrow> (bmerr \<times> u64 \<times> u64) res"
  bk_dmabuf_convert :: "byte list \<Rightarrow> u64 \<Rightarrow> u64 \<Rightarrow> (u64 \<Rightarrow> byte) \<Rightarrow> (bmerr \<times> (u64 \<Rightarrow> byte)) res"
  bk_err_data :: bmerr

definition TPU_DMABUF_HEADER_M :: "16 word" where "TPU_DMABUF_HEADER_M = 0xB5B5"
definition SIZEOF_DMA_HDR :: nat where "SIZEOF_DMA_HDR = 128"
definition TEE_FIREWALL_MAX :: nat where "TEE_FIREWALL_MAX = 6"

definition ram_u32 :: "u64 \<Rightarrow> nat dm" where
  "ram_u32 a = dget (\<lambda>s. load_u32 a (ds_ram s))"

definition from_res :: "'a res \<Rightarrow> 'a dm" where
  "from_res r = (case r of Inl e \<Rightarrow> dfail e | Inr a \<Rightarrow> dret a)"

definition convert_ram :: "bmk \<Rightarrow> byte list \<Rightarrow> u64 \<Rightarrow> u64 \<Rightarrow> bmerr dm" where
  "convert_ram K cmdbuf sz v_addr = dbind (dget ds_ram) (\<lambda>ram.
     dbind (from_res (bk_dmabuf_convert K cmdbuf sz v_addr ram)) (\<lambda>(ret, ram').
     dthen (dmodify (\<lambda>s. s\<lparr>ds_ram := ram'\<rparr>)) (dret ret)))"

section \<open>The header of a dma buffer\<close>

text \<open>Whether the buffer at an address starts with the header's magic number.\<close>

definition magic_ok :: "u64 \<Rightarrow> bool dm" where
  "magic_ok dmabuf = dget (\<lambda>s. load_u16 dmabuf (ds_ram s) = TPU_DMABUF_HEADER_M)"

text \<open>
  One descriptor of \<^verbatim>\<open>dmabuf_relocate\<close>: the offsets of its TIU and TDMA commands become addresses in
  units of the engines' alignments, the old offsets are kept beside them.
\<close>

definition relocate_desc :: "bmk \<Rightarrow> u64 \<Rightarrow> u64 \<Rightarrow> unit dm" where
  "relocate_desc K devaddr desc =
    dbind (ram_u32 (desc + 4)) (\<lambda>num_tiu. dbind (ram_u32 (desc + 8)) (\<lambda>num_tdma.
    dthen (if num_tiu mod 2 ^ 16 \<noteq> 0
           then dbind (ram_u32 (desc + 12)) (\<lambda>off.
             dthen (store_u32 (desc + 20) off) (store_u32 (desc + 12) (add64 devaddr off div 2 ^ bk_bdc_bit K)))
           else dret ())
   (if num_tdma mod 2 ^ 16 \<noteq> 0
    then dbind (ram_u32 (desc + 16)) (\<lambda>off.
      dthen (store_u32 (desc + 24) off) (store_u32 (desc + 16) (add64 devaddr off div 2 ^ bk_tdma_bit K)))
    else dret ())))"

fun relocate_loop :: "bmk \<Rightarrow> u64 \<Rightarrow> u64 \<Rightarrow> u32 \<Rightarrow> u32 \<Rightarrow> nat \<Rightarrow> u64 \<Rightarrow> unit dm" where
  "relocate_loop K dmabuf devaddr original_size pmubuf_size 0 desc = dret ()"
| "relocate_loop K dmabuf devaddr original_size pmubuf_size (Suc n) desc =
     dthen (relocate_desc K devaddr desc)
    (dthen (store_u32 (dmabuf + 24) pmubuf_size)
    (dthen (store_u32 (dmabuf + 28) original_size)
     (relocate_loop K dmabuf devaddr original_size pmubuf_size n (desc + bk_desc_bytes K))))"

definition dmabuf_relocate :: "bmk \<Rightarrow> u64 \<Rightarrow> u64 \<Rightarrow> u32 \<Rightarrow> u32 \<Rightarrow> bmerr dm" where
  "dmabuf_relocate K dmabuf devaddr original_size pmubuf_size = dbind (magic_ok dmabuf) (\<lambda>ok.
     dthen (dassert ok) (dbind (ram_u32 (dmabuf + 8)) (\<lambda>n.
     dthen (relocate_loop K dmabuf devaddr (original_size mod M32) (pmubuf_size mod M32) n (dmabuf + SIZEOF_DMA_HDR))
     (dret BM_SUCCESS))))"

definition store_bases01 :: "u64 \<Rightarrow> u32 \<Rightarrow> u32 \<Rightarrow> u32 \<Rightarrow> u32 \<Rightarrow> unit dm" where
  "store_bases01 dmabuf base0L base1L base0H base1H =
     dthen (store_u32 (dmabuf + hdr_arraybase_L 0) base0L)
    (dthen (store_u32 (dmabuf + hdr_arraybase_L 1) base1L)
    (dthen (store_u32 (dmabuf + hdr_arraybase_H 0) base0H)
     (store_u32 (dmabuf + hdr_arraybase_H 1) base1H)))"

definition arraybase_set :: "u64 \<Rightarrow> u32 \<Rightarrow> u32 \<Rightarrow> u32 \<Rightarrow> u32 \<Rightarrow> unit dm" where
  "arraybase_set dmabuf base0L base1L base0H base1H =
     dthen (dassert (dmabuf \<noteq> 0)) (dbind (magic_ok dmabuf) (\<lambda>ok.
     dthen (dassert ok) (store_bases01 dmabuf base0L base1L base0H base1H)))"

fun count_cmds :: "bmk \<Rightarrow> nat \<Rightarrow> u64 \<Rightarrow> u32 \<Rightarrow> u32 \<Rightarrow> (u32 \<times> u32) dm" where
  "count_cmds K 0 desc tiu tdma = dret (tiu, tdma)"
| "count_cmds K (Suc n) desc tiu tdma =
     dbind (ram_u32 (desc + 4)) (\<lambda>a. dbind (ram_u32 (desc + 8)) (\<lambda>b.
     count_cmds K n (desc + bk_desc_bytes K) (add32 tiu (a mod 2 ^ 16)) (add32 tdma (b mod 2 ^ 16))))"

text \<open>\<^verbatim>\<open>ALIGN((tiu_cnt + tdma_cnt) * PER_DES_SIZE + PADDING_SIZE, 0x1000)\<close>, in 32 bits.\<close>

definition pmu_bytes :: "u32 \<Rightarrow> u32 \<Rightarrow> u64" where
  "pmu_bytes tiu tdma = add32 (add32 (mul32 (add32 tiu tdma) 16) (1024 * 1024)) 0xFFF div 0x1000 * 0x1000"

definition get_pmusize :: "bmk \<Rightarrow> u64 \<Rightarrow> u64 dm" where
  "get_pmusize K dmabuf = dthen (dassert (dmabuf \<noteq> 0)) (dbind (magic_ok dmabuf) (\<lambda>ok.
     dthen (dassert ok) (dbind (ram_u32 (dmabuf + 8)) (\<lambda>n.
     dbind (count_cmds K n (dmabuf + SIZEOF_DMA_HDR) 0 0) (\<lambda>(tiu, tdma). dret (pmu_bytes tiu tdma))))))"

text \<open>The variants of cv180x report a bad buffer instead of aborting.\<close>

definition dmabuf_relocate_180x :: "bmk \<Rightarrow> u64 \<Rightarrow> u64 \<Rightarrow> u32 \<Rightarrow> u32 \<Rightarrow> bmerr dm" where
  "dmabuf_relocate_180x K dmabuf devaddr original_size pmubuf_size = dbind (magic_ok dmabuf) (\<lambda>ok.
     if \<not> ok then dret (bk_err_data K)
     else dbind (ram_u32 (dmabuf + 8)) (\<lambda>n.
       dthen (relocate_loop K dmabuf devaddr (original_size mod M32) (pmubuf_size mod M32) n (dmabuf + SIZEOF_DMA_HDR))
       (dret BM_SUCCESS)))"

definition arraybase_set_180x :: "bmk \<Rightarrow> u64 \<Rightarrow> u32 \<Rightarrow> u32 \<Rightarrow> u32 \<Rightarrow> u32 \<Rightarrow> bmerr dm" where
  "arraybase_set_180x K dmabuf base0L base1L base0H base1H =
    (if dmabuf = 0 then dret (bk_err_data K)
     else dbind (magic_ok dmabuf) (\<lambda>ok.
       if \<not> ok then dret (bk_err_data K)
       else dthen (store_bases01 dmabuf base0L base1L base0H base1H) (dret BM_SUCCESS)))"

definition get_pmusize_180x :: "bmk \<Rightarrow> u64 \<Rightarrow> (bmerr \<times> u64) dm" where
  "get_pmusize_180x K dmabuf =
    (if dmabuf = 0 then dret (bk_err_data K, 0)
     else dbind (magic_ok dmabuf) (\<lambda>ok.
       if \<not> ok then dret (bk_err_data K, 0)
       else dbind (ram_u32 (dmabuf + 8)) (\<lambda>n.
         dbind (count_cmds K n (dmabuf + SIZEOF_DMA_HDR) 0 0) (\<lambda>(tiu, tdma). dret (BM_SUCCESS, pmu_bytes tiu tdma)))))"

section \<open>Devices\<close>

definition new_dev :: "bm_device \<Rightarrow> ptr dm" where
  "new_dev d s = Inr (Some (ds_next s), s\<lparr>ds_next := ds_next s + 1, ds_devs := (ds_devs s)(ds_next s \<mapsto> d)\<rparr>)"

text \<open>
  \<^verbatim>\<open>device_open\<close>: a failure to open a device node returns without giving back what was acquired
  before.  The result pointer is only written on success.
\<close>

definition device_open :: "env \<Rightarrow> int \<Rightarrow> (bmerr \<times> ptr) dm" where
  "device_open E index =
    dbind (new_dev \<lparr>bd_index = index, bd_dev_fd = 0, bd_ion_fd = 0, bd_ion_heap_id = 0,
               bd_gmem_size = env_gmem E\<rparr>) (\<lambda>dev. dbind (deref ds_devs dev) (\<lambda>d.
    dbind (sys E (SysOpen (env_tpu_dev E))) (\<lambda>r.
    dthen (set_dev dev (d\<lparr>bd_dev_fd := sr_ret r\<rparr>))
   (if sr_ret r \<le> 0 then dret (BM_ERR_FAILURE, None)
    else dbind (sys E (SysOpen ''/dev/ion'')) (\<lambda>r2.
      dthen (set_dev dev (d\<lparr>bd_dev_fd := sr_ret r, bd_ion_fd := sr_ret r2\<rparr>))
     (if sr_ret r2 \<le> 0 then dret (BM_ERR_FAILURE, None)
      else dbind (ion_query_heap E dev) (\<lambda>ret.
        dthen (dassert (ret = BM_SUCCESS)) (dret (BM_SUCCESS, dev)))))))))"

definition device_close :: "env \<Rightarrow> ptr \<Rightarrow> unit dm" where
  "device_close E dev = dbind (deref ds_devs dev) (\<lambda>d.
     dthen (sys E (SysClose (bd_ion_fd d)))
    (dthen (sys E (SysClose (bd_dev_fd d)))
     (dmodify (\<lambda>s. s\<lparr>ds_devs := (ds_devs s)(the dev := None)\<rparr>))))"

section \<open>Releasing memory\<close>

definition forget_mem :: "ptr \<Rightarrow> bm_memory \<Rightarrow> unit dm" where
  "forget_mem ctx m = dbind (deref ds_ctxs ctx) (\<lambda>c.
     set_ctx ctx (c\<lparr>bc_root_mem_array := root_mem_remove (bm_p_addr m) (bc_root_mem_array c)\<rparr>))"

definition mem_free_raw :: "env \<Rightarrow> ptr \<Rightarrow> ptr \<Rightarrow> unit dm" where
  "mem_free_raw E ctx mem = dbind (checked_mem mem) (\<lambda>m.
     dthen (if \<not> bm_is_prealloc m
            then dthen (mem_free E (bm_v_addr m) (bm_size m) (bm_dma_fd m)) (forget_mem ctx m)
            else dret ())
     (delete_mem mem))"

text \<open>cv183x: a block recorded in the firewall table is unloaded from the TEE first.\<close>

definition unload_tee_183x :: "env \<Rightarrow> ptr \<Rightarrow> u64 \<Rightarrow> u64 \<Rightarrow> bmerr dm" where
  "unload_tee_183x E ctx paddr sz = dbind (ctx_dev ctx) (\<lambda>dev. dbind (deref ds_devs dev) (\<lambda>d.
     dbind (sys E (SysUnloadTee (bd_dev_fd d) (add64 paddr (env_start E)) sz)) (\<lambda>r.
     dret (if sr_ret r \<noteq> 0 then BM_ERR_FAILURE else BM_SUCCESS))))"

definition unload_tee :: "ptr \<Rightarrow> u64 \<Rightarrow> u64 \<Rightarrow> bmerr dm" where
  "unload_tee ctx paddr sz = dthen (dassert False) (dret BM_SUCCESS)"

definition firewall_release :: "env \<Rightarrow> ptr \<Rightarrow> bm_memory \<Rightarrow> unit dm" where
  "firewall_release E ctx m = dbind (dget ds_tee_firewall) (\<lambda>fw.
     case find_index (\<lambda>a. a = bm_p_addr m) fw of
       None \<Rightarrow> dret ()
     | Some i \<Rightarrow> dthen (unload_tee_183x E ctx (bm_p_addr m) (bm_size m))
         (dmodify (\<lambda>s. s\<lparr>ds_tee_firewall := (ds_tee_firewall s)[i := 0]\<rparr>)))"

definition mem_free_raw_183x :: "env \<Rightarrow> ptr \<Rightarrow> ptr \<Rightarrow> unit dm" where
  "mem_free_raw_183x E ctx mem = dbind (checked_mem mem) (\<lambda>m.
     dthen (if \<not> bm_is_prealloc m
            then dthen (firewall_release E ctx m)
                (dthen (mem_free E (bm_v_addr m) (bm_size m) (bm_dma_fd m)) (forget_mem ctx m))
            else dret ())
     (delete_mem mem))"

section \<open>Loading command buffers\<close>

definition alloc_cmdbuf :: "env \<Rightarrow> ptr \<Rightarrow> u64 \<Rightarrow> ptr dm" where
  "alloc_cmdbuf E ctx sz = (if env_protect E then mem_alloc_pagesize E ctx sz else mem_alloc_raw E ctx sz)"

text \<open>
  The result of a load is the error and what was written to the caller's variable, \<^const>\<open>None\<close> for
  nothing.
\<close>

definition load_cmdbuf_181x :: "env \<Rightarrow> bmk \<Rightarrow> ptr \<Rightarrow> byte list \<Rightarrow> u64 \<Rightarrow> u64 \<Rightarrow> u64 \<Rightarrow> bool \<Rightarrow> (bmerr \<times> ptr option) dm" where
  "load_cmdbuf_181x E K ctx cmdbuf sz neuron_gaddr weight_gaddr enable_pmu =
    dbind (from_res (bk_dmabuf_size K cmdbuf sz)) (\<lambda>(_, dmabuf_size, pmu).
    let pmubuf_size = (if bk_enable_pmu K \<and> enable_pmu then pmu else 0) in
    dbind (alloc_cmdbuf E ctx (add64 dmabuf_size pmubuf_size)) (\<lambda>mem.
    if mem = None then dret (BM_ERR_NOMEM, None)
    else dbind (mem_p_addr mem) (\<lambda>devaddr. dbind (deref ds_mems mem) (\<lambda>m.
      dbind (convert_ram K cmdbuf sz (bm_v_addr m)) (\<lambda>ret.
      dthen (set_base_reg ctx 0 neuron_gaddr) (dthen (set_base_reg ctx 1 weight_gaddr)
     (dthen (arraybase_set (bm_v_addr m) (neuron_gaddr mod M32) (weight_gaddr mod M32) 0 0)
     (dthen (dmabuf_relocate K (bm_v_addr m) devaddr dmabuf_size pmubuf_size)
     (dbind (ctx_dev ctx) (\<lambda>dev. dbind (mem_flush_ext E dev (bm_dma_fd m) (bm_p_addr m) dmabuf_size) (\<lambda>fl.
      dthen (dassert (fl = BM_SUCCESS)) (dret (ret, Some mem)))))))))))))"

definition load_cmdbuf_182x :: "env \<Rightarrow> bmk \<Rightarrow> ptr \<Rightarrow> byte list \<Rightarrow> u64 \<Rightarrow> u64 \<Rightarrow> u64 \<Rightarrow> bool \<Rightarrow> (bmerr \<times> ptr option) dm" where
  "load_cmdbuf_182x E K ctx cmdbuf sz neuron_gaddr weight_gaddr enable_pmu =
    dbind (from_res (bk_dmabuf_size K cmdbuf sz)) (\<lambda>(_, dmabuf_size, pmu).
    let pmubuf_size = (if enable_pmu then pmu else 0) in
    dbind (alloc_cmdbuf E ctx (add64 dmabuf_size pmubuf_size)) (\<lambda>mem.
    if mem = None then dret (BM_ERR_NOMEM, None)
    else dbind (mem_p_addr mem) (\<lambda>devaddr. dbind (deref ds_mems mem) (\<lambda>m.
      dthen (convert_ram K cmdbuf sz (bm_v_addr m))
     (dthen (set_base_reg ctx 0 neuron_gaddr) (dthen (set_base_reg ctx 1 weight_gaddr)
     (dthen (arraybase_set (bm_v_addr m) (neuron_gaddr mod M32) (weight_gaddr mod M32) 0 0)
     (dthen (dmabuf_relocate K (bm_v_addr m) devaddr dmabuf_size pmubuf_size)
     (dbind (ctx_dev ctx) (\<lambda>dev. dbind (mem_flush_ext E dev (bm_dma_fd m) (bm_p_addr m) dmabuf_size) (\<lambda>fl.
      if fl \<noteq> BM_SUCCESS then dthen (mem_free_raw E ctx mem) (dret (fl, None))
      else dret (fl, Some mem))))))))))))"

definition load_cmdbuf_183x :: "env \<Rightarrow> bmk \<Rightarrow> ptr \<Rightarrow> byte list \<Rightarrow> u64 \<Rightarrow> u64 \<Rightarrow> u64 \<Rightarrow> bool \<Rightarrow> (bmerr \<times> ptr option) dm" where
  "load_cmdbuf_183x E K ctx cmdbuf sz neuron_gaddr weight_gaddr enable_pmu =
    dbind (from_res (bk_dmabuf_size K cmdbuf sz)) (\<lambda>(_, dmabuf_size, pmu).
    let pmubuf_size = (if enable_pmu then pmu else 0) in
    dbind (alloc_cmdbuf E ctx (add64 dmabuf_size pmubuf_size)) (\<lambda>mem.
    if mem = None then dret (BM_ERR_NOMEM, None)
    else dbind (mem_p_addr mem) (\<lambda>devaddr. dbind (deref ds_mems mem) (\<lambda>m.
      dbind (convert_ram K cmdbuf sz (bm_v_addr m)) (\<lambda>ret.
      dthen (set_base_reg ctx 0 neuron_gaddr) (dthen (set_base_reg ctx 1 weight_gaddr)
     (dthen (arraybase_set (bm_v_addr m) (neuron_gaddr mod M32) (weight_gaddr mod M32) 0 0)
     (dthen (dmabuf_relocate K (bm_v_addr m) (add64 devaddr (env_start E)) dmabuf_size pmubuf_size)
     (dbind (ctx_dev ctx) (\<lambda>dev. dbind (mem_flush_ext E dev (bm_dma_fd m) (bm_p_addr m) dmabuf_size) (\<lambda>fl.
      dthen (dassert (fl = BM_SUCCESS)) (dret (ret, Some mem)))))))))))))"

text \<open>cv180x: every step reports its error, and the buffer is given back.\<close>

definition load_cmdbuf_180x :: "env \<Rightarrow> bmk \<Rightarrow> ptr \<Rightarrow> byte list \<Rightarrow> u64 \<Rightarrow> u64 \<Rightarrow> u64 \<Rightarrow> bool \<Rightarrow> (bmerr \<times> ptr option) dm" where
  "load_cmdbuf_180x E K ctx cmdbuf sz neuron_gaddr weight_gaddr enable_pmu =
    dbind (from_res (bk_dmabuf_size K cmdbuf sz)) (\<lambda>(ret0, dmabuf_size, pmu).
    if ret0 \<noteq> BM_SUCCESS then dret (ret0, None)
    else let pmubuf_size = (if enable_pmu then pmu else 0) in
    dbind (alloc_cmdbuf E ctx (add64 dmabuf_size pmubuf_size)) (\<lambda>mem.
    let failed = (\<lambda>ret. dthen (mem_free_raw E ctx mem) (dret (ret, None))) in
    dbind (mem_p_addr mem) (\<lambda>devaddr. dbind (deref ds_mems mem) (\<lambda>m.
    dbind (convert_ram K cmdbuf sz (bm_v_addr m)) (\<lambda>ret.
    if ret \<noteq> BM_SUCCESS then failed ret
    else dthen (set_base_reg ctx 0 neuron_gaddr) (dthen (set_base_reg ctx 1 weight_gaddr)
     (dbind (arraybase_set_180x K (bm_v_addr m) (neuron_gaddr mod M32) (weight_gaddr mod M32) 0 0) (\<lambda>ret.
      if ret \<noteq> BM_SUCCESS then failed ret
      else dbind (dmabuf_relocate_180x K (bm_v_addr m) devaddr dmabuf_size pmubuf_size) (\<lambda>ret.
        if ret \<noteq> BM_SUCCESS then failed ret
        else dbind (ctx_dev ctx) (\<lambda>dev. dbind (mem_flush_ext E dev (bm_dma_fd m) (bm_p_addr m) dmabuf_size) (\<lambda>ret.
          if ret \<noteq> BM_SUCCESS then failed ret else dret (ret, Some mem))))))))))))"

section \<open>Loading converted buffers\<close>

definition memcpy_ram :: "u64 \<Rightarrow> u64 \<Rightarrow> nat \<Rightarrow> unit dm" where
  "memcpy_ram dst src n = dmodify (\<lambda>s. s\<lparr>ds_ram := store_bytes dst (load_bytes src n (ds_ram s)) (ds_ram s)\<rparr>)"

definition load_dmabuf_with :: "u64 \<Rightarrow> env \<Rightarrow> bmk \<Rightarrow> ptr \<Rightarrow> ptr \<Rightarrow> u64 \<Rightarrow> u64 \<Rightarrow> u64 \<Rightarrow> bool \<Rightarrow> (bmerr \<times> ptr option) dm" where
  "load_dmabuf_with start E K ctx dmabuf sz neuron_gaddr weight_gaddr enable_pmu =
    dbind (if enable_pmu
           then dbind (deref ds_mems dmabuf) (\<lambda>b. dbind (get_pmusize K (bm_v_addr b)) (\<lambda>pmu.
             dbind (mem_alloc_raw E ctx (add64 sz pmu)) (\<lambda>mem. dret (mem, pmu))))
           else dret (dmabuf, 0)) (\<lambda>(mem, pmubuf_size).
    if enable_pmu \<and> mem = None then dret (BM_ERR_NOMEM, Some None)
    else
      dthen (if enable_pmu
             then dbind (deref ds_mems mem) (\<lambda>m. dbind (deref ds_mems dmabuf) (\<lambda>b.
               memcpy_ram (bm_v_addr m) (bm_v_addr b) sz))
             else dret ())
     (dbind (mem_p_addr mem) (\<lambda>devaddr. dbind (deref ds_mems mem) (\<lambda>m.
      dthen (arraybase_set (bm_v_addr m) (neuron_gaddr mod M32) (weight_gaddr mod M32) 0 0)
     (dthen (dmabuf_relocate K (bm_v_addr m) (add64 devaddr start) sz pmubuf_size)
     (dbind (ctx_dev ctx) (\<lambda>dev. dbind (mem_flush_ext E dev (bm_dma_fd m) (bm_p_addr m) sz) (\<lambda>fl.
      dthen (dassert (fl = BM_SUCCESS)) (dret (BM_SUCCESS, Some mem))))))))))"

definition load_dmabuf_181x :: "env \<Rightarrow> bmk \<Rightarrow> ptr \<Rightarrow> ptr \<Rightarrow> u64 \<Rightarrow> u64 \<Rightarrow> u64 \<Rightarrow> bool \<Rightarrow> (bmerr \<times> ptr option) dm" where
  "load_dmabuf_181x = load_dmabuf_with 0"

definition load_dmabuf_182x :: "env \<Rightarrow> bmk \<Rightarrow> ptr \<Rightarrow> ptr \<Rightarrow> u64 \<Rightarrow> u64 \<Rightarrow> u64 \<Rightarrow> bool \<Rightarrow> (bmerr \<times> ptr option) dm" where
  "load_dmabuf_182x = load_dmabuf_with 0"

definition load_dmabuf_183x :: "env \<Rightarrow> bmk \<Rightarrow> ptr \<Rightarrow> ptr \<Rightarrow> u64 \<Rightarrow> u64 \<Rightarrow> u64 \<Rightarrow> bool \<Rightarrow> (bmerr \<times> ptr option) dm" where
  "load_dmabuf_183x E = load_dmabuf_with (env_start E) E"

definition load_dmabuf_180x :: "env \<Rightarrow> bmk \<Rightarrow> ptr \<Rightarrow> ptr \<Rightarrow> u64 \<Rightarrow> u64 \<Rightarrow> u64 \<Rightarrow> bool \<Rightarrow> (bmerr \<times> ptr option) dm" where
  "load_dmabuf_180x E K ctx dmabuf sz neuron_gaddr weight_gaddr enable_pmu =
    (let failed = (\<lambda>mem ret. dthen (if enable_pmu then mem_free_raw E ctx mem else dret ()) (dret (ret, Some mem)));
         rest = (\<lambda>mem pmubuf_size.
           dbind (mem_p_addr mem) (\<lambda>devaddr. dbind (deref ds_mems mem) (\<lambda>m.
           dbind (arraybase_set_180x K (bm_v_addr m) (neuron_gaddr mod M32) (weight_gaddr mod M32) 0 0) (\<lambda>ret.
           if ret \<noteq> BM_SUCCESS then failed mem ret
           else dbind (dmabuf_relocate_180x K (bm_v_addr m) devaddr sz pmubuf_size) (\<lambda>ret.
             if ret \<noteq> BM_SUCCESS then failed mem ret
             else dbind (ctx_dev ctx) (\<lambda>dev. dbind (mem_flush_ext E dev (bm_dma_fd m) (bm_p_addr m) sz) (\<lambda>ret.
               if ret \<noteq> BM_SUCCESS then failed mem ret else dret (BM_SUCCESS, Some mem))))))))
     in if enable_pmu then
          dbind (deref ds_mems dmabuf) (\<lambda>b. dbind (get_pmusize_180x K (bm_v_addr b)) (\<lambda>(ret, pmu).
          if ret \<noteq> BM_SUCCESS then dret (ret, None)
          else dbind (mem_alloc_raw E ctx (add64 sz pmu)) (\<lambda>mem.
            if mem = None then dret (BM_ERR_FAILURE, Some None)
            else dbind (deref ds_mems mem) (\<lambda>m.
              dthen (memcpy_ram (bm_v_addr m) (bm_v_addr b) sz) (rest mem pmu)))))
        else rest dmabuf 0)"

section \<open>Loading encrypted command buffers\<close>

definition send_to_tee :: "env \<Rightarrow> ptr \<Rightarrow> ptr \<Rightarrow> byte list \<Rightarrow> u64 \<Rightarrow> bm_memory dm" where
  "send_to_tee E ctx mem cmdbuf sz = dbind (deref ds_mems mem) (\<lambda>m.
     dthen (memcpy_in (bm_v_addr m) cmdbuf sz)
    (dbind (ctx_dev ctx) (\<lambda>dev. dbind (mem_flush_ext E dev (bm_dma_fd m) (bm_p_addr m) sz) (\<lambda>fl.
     dthen (dassert (fl = BM_SUCCESS)) (dret m)))))"

definition load_cmdbuf_tee :: "env \<Rightarrow> ptr \<Rightarrow> byte list \<Rightarrow> u64 \<Rightarrow> u64 \<Rightarrow> u64 \<Rightarrow> u32 \<Rightarrow> (bmerr \<times> ptr option) dm" where
  "load_cmdbuf_tee E ctx cmdbuf sz neuron_gaddr weight_gaddr weight_len =
    dbind (alloc_cmdbuf E ctx (add64 sz sz)) (\<lambda>mem.
    if mem = None then dret (BM_ERR_NOMEM, None)
    else dbind (send_to_tee E ctx mem cmdbuf sz) (\<lambda>m.
      dthen (load_tee E ctx (bm_p_addr m) (sz mod M32) weight_gaddr weight_len neuron_gaddr)
      (dret (BM_SUCCESS, Some mem))))"

definition load_cmdbuf_tee_180x :: "env \<Rightarrow> ptr \<Rightarrow> byte list \<Rightarrow> u64 \<Rightarrow> u64 \<Rightarrow> u64 \<Rightarrow> u32 \<Rightarrow> (bmerr \<times> ptr option) dm" where
  "load_cmdbuf_tee_180x E ctx cmdbuf sz neuron_gaddr weight_gaddr weight_len =
    dbind (mem_alloc_raw E ctx (add64 sz sz)) (\<lambda>mem.
    dbind (send_to_tee E ctx mem cmdbuf sz) (\<lambda>m.
    dthen (load_tee E ctx (bm_p_addr m) (sz mod M32) weight_gaddr weight_len neuron_gaddr)
    (dret (BM_SUCCESS, Some mem))))"

text \<open>
  The firewall table of cv183x: the entry of the weight address if there is one, otherwise the
  first free one (address 0) is taken; \<^const>\<open>None\<close> when the table is full.
\<close>

definition firewall_claim :: "u64 \<Rightarrow> u64 list \<Rightarrow> u64 list option" where
  "firewall_claim weight_gaddr fw =
    (case find_index (\<lambda>a. a = weight_gaddr) fw of
       Some _ \<Rightarrow> Some fw
     | None \<Rightarrow> (case find_index (\<lambda>a. a = 0) fw of
         Some i \<Rightarrow> Some (fw[i := weight_gaddr]) | None \<Rightarrow> None))"

definition load_cmdbuf_tee_183x :: "env \<Rightarrow> ptr \<Rightarrow> byte list \<Rightarrow> u64 \<Rightarrow> u64 \<Rightarrow> u64 \<Rightarrow> u32 \<Rightarrow> (bmerr \<times> ptr option) dm" where
  "load_cmdbuf_tee_183x E ctx cmdbuf sz neuron_gaddr weight_gaddr weight_len =
    dbind (alloc_cmdbuf E ctx (add64 sz sz)) (\<lambda>mem.
    if mem = None then dret (BM_ERR_NOMEM, None)
    else dbind (send_to_tee E ctx mem cmdbuf sz) (\<lambda>m.
      dbind (dget ds_tee_firewall) (\<lambda>fw.
      case firewall_claim weight_gaddr fw of
        None \<Rightarrow> dret (BM_ERR_FAILURE, None)
      | Some fw' \<Rightarrow> dthen (dmodify (\<lambda>s. s\<lparr>ds_tee_firewall := fw'\<rparr>))
         (dthen (load_tee E ctx (bm_p_addr m) (sz mod M32) weight_gaddr weight_len neuron_gaddr)
          (dret (BM_SUCCESS, Some mem))))))"

text \<open>\<^verbatim>\<open>parse_pmubuf\<close>: the buffer's address and size; the dump itself only prints.\<close>

definition parse_pmubuf :: "ptr \<Rightarrow> (bmerr \<times> u64 \<times> u32) dm" where
  "parse_pmubuf cmdbuf_mem = dbind (deref ds_mems cmdbuf_mem) (\<lambda>m.
     dret (BM_SUCCESS, bm_v_addr m, bm_size m mod M32))"

section \<open>The virtual methods\<close>

record chip =
  ch_name :: string
  ch_submit_magic :: u32
  ch_mem_free_raw :: "env \<Rightarrow> ptr \<Rightarrow> ptr \<Rightarrow> unit dm"
  ch_load_cmdbuf :: "env \<Rightarrow> bmk \<Rightarrow> ptr \<Rightarrow> byte list \<Rightarrow> u64 \<Rightarrow> u64 \<Rightarrow> u64 \<Rightarrow> bool \<Rightarrow> (bmerr \<times> ptr option) dm"
  ch_load_dmabuf :: "env \<Rightarrow> bmk \<Rightarrow> ptr \<Rightarrow> ptr \<Rightarrow> u64 \<Rightarrow> u64 \<Rightarrow> u64 \<Rightarrow> bool \<Rightarrow> (bmerr \<times> ptr option) dm"
  ch_load_cmdbuf_tee :: "env \<Rightarrow> ptr \<Rightarrow> byte list \<Rightarrow> u64 \<Rightarrow> u64 \<Rightarrow> u64 \<Rightarrow> u32 \<Rightarrow> (bmerr \<times> ptr option) dm"
  ch_tee_supported :: bool

definition cv180x :: chip where
  "cv180x = \<lparr>ch_name = ''cv180x'', ch_submit_magic = 0x18225678, ch_mem_free_raw = mem_free_raw,
     ch_load_cmdbuf = load_cmdbuf_180x, ch_load_dmabuf = load_dmabuf_180x,
     ch_load_cmdbuf_tee = load_cmdbuf_tee_180x, ch_tee_supported = False\<rparr>"

definition cv181x :: chip where
  "cv181x = \<lparr>ch_name = ''cv181x'', ch_submit_magic = 0x18225678, ch_mem_free_raw = mem_free_raw,
     ch_load_cmdbuf = load_cmdbuf_181x, ch_load_dmabuf = load_dmabuf_181x,
     ch_load_cmdbuf_tee = load_cmdbuf_tee, ch_tee_supported = False\<rparr>"

definition cv182x :: chip where
  "cv182x = \<lparr>ch_name = ''cv182x'', ch_submit_magic = 0x18225678, ch_mem_free_raw = mem_free_raw,
     ch_load_cmdbuf = load_cmdbuf_182x, ch_load_dmabuf = load_dmabuf_182x,
     ch_load_cmdbuf_tee = load_cmdbuf_tee, ch_tee_supported = False\<rparr>"

definition cv183x :: chip where
  "cv183x = \<lparr>ch_name = ''cv183x'', ch_submit_magic = 0x18325678, ch_mem_free_raw = mem_free_raw_183x,
     ch_load_cmdbuf = load_cmdbuf_183x, ch_load_dmabuf = load_dmabuf_183x,
     ch_load_cmdbuf_tee = load_cmdbuf_tee_183x, ch_tee_supported = True\<rparr>"

section \<open>The memory contract\<close>

text \<open>
  What the runtime above relies on: an allocation makes one fresh, unreferenced memory object of
  the requested size, a release removes exactly the object it is given.
\<close>

locale mem_provider =
  fixes alloc :: "ptr \<Rightarrow> u64 \<Rightarrow> ptr dm" and release :: "ptr \<Rightarrow> ptr \<Rightarrow> unit dm"
    and okay :: "dstate \<Rightarrow> bool"
  assumes alloc_law: "\<lbrakk>alloc ctx sz s = Inr (p, t); okay s\<rbrakk> \<Longrightarrow> \<exists>i m. p = Some i \<and> ds_mems s i = None \<and>
      ds_mems t = (ds_mems s)(i \<mapsto> m) \<and> bm_size m = sz \<and> bm_user_ref_cnt m = 0 \<and>
      bm_type m = BMMEM_TYPE_DEVICE \<and> \<not> bm_is_prealloc m \<and> okay t"
    and release_law: "\<lbrakk>release ctx p s = Inr (u, t); okay s\<rbrakk> \<Longrightarrow> \<exists>i m. p = Some i \<and> ds_mems s i = Some m \<and>
      bm_type m = BMMEM_TYPE_DEVICE \<and> ds_mems t = (ds_mems s)(i := None) \<and> okay t"
begin

text \<open>A sequence of allocations and releases, with the pointers of the live allocations.\<close>

lemma alloc_release_id:
  assumes "alloc ctx sz s = Inr (p, t)" "okay s" "release ctx p t = Inr (u, v)"
  shows "ds_mems v = ds_mems s"
proof -
  obtain i m where "p = Some i" "ds_mems s i = None" "ds_mems t = (ds_mems s)(i \<mapsto> m)" "okay t"
    using alloc_law[OF assms(1,2)] by blast
  with release_law[OF assms(3)] show ?thesis by auto
qed

end

text \<open>Every memory object was made before, so the next pointer is unused.\<close>

definition fresh_mems :: "dstate \<Rightarrow> bool" where
  "fresh_mems s \<longleftrightarrow> (\<forall>i\<ge>ds_next s. ds_mems s i = None)"

lemma ion_ioctl_same: "ion_ioctl E fd h n s = Inr (r, t) \<Longrightarrow> same_store s t"
  by (auto simp: ion_ioctl_def Let_def dm_inv same_store_def split: if_splits)

lemma alloc_round_same: "alloc_round E dev sz s = Inr (r, t) \<Longrightarrow> same_store s t"
  unfolding alloc_round_def Let_def deref_bind_Inr dbind_Inr
  by (auto simp: dm_inv split: option.splits if_splits dest!: ion_ioctl_same mem_invld_ext_same)
     (auto simp: same_store_def)

lemma alloc_loop_same: "alloc_loop E dev n sz ret s = Inr (r, t) \<Longrightarrow> same_store s t"
proof (induction n arbitrary: sz ret s)
  case (Suc n)
  then obtain a u where a: "alloc_round E dev sz s = Inr (a, u)"
    "(case a of Inr blk \<Rightarrow> dret (Inr blk)
      | Inl (sz', err_flag, ret') \<Rightarrow>
         if err_flag > 0 then dthen (reopen_dev E dev err_flag) (alloc_loop E dev n sz' ret')
         else alloc_loop E dev n sz' ret') u = Inr (r, t)"
    by (simp add: dbind_Inr) blast
  note tr = same_store_trans[OF alloc_round_same[OF a(1)]]
  from a(2) show ?case
    by (auto simp: dm_basic_Inr dthen_Inr alloc_round_same[OF a(1)] split: sum.splits if_splits
        intro: tr tr[OF same_store_trans] dest!: reopen_same Suc.IH)
qed (simp add: dm_inv)

lemma alloc_object_effect:
  assumes "alloc_object E ctx sz s = Inr (p, t)"
  obtains c u pa va fd where "ds_ctxs s (the ctx) = Some c" "ctx \<noteq> None" "mem_alloc E (bc_dev c) sz s = Inr (Inr (pa, va, fd), u)"
    "same_store s u" "p = Some (ds_next s)"
    "t = u\<lparr>ds_next := ds_next s + 1, ds_mems := (ds_mems s)(ds_next s \<mapsto> \<lparr>bm_v_addr = va, bm_p_addr = pa, bm_size = sz,
             bm_type = BMMEM_TYPE_DEVICE, bm_is_prealloc = False, bm_dma_fd = fd, bm_user_ref_cnt = 0, bm_offset = 0\<rparr>),
       ds_ctxs := (ds_ctxs s)(the ctx \<mapsto> c\<lparr>bc_root_mem_array := root_mem_insert pa (Some (ds_next s)) (bc_root_mem_array c)\<rparr>)\<rparr>"
proof -
  obtain i c a u where c: "ctx = Some i" "ds_ctxs s i = Some c" "mem_alloc E (bc_dev c) sz s = Inr (a, u)"
    and k: "(case a of Inl _ \<Rightarrow> dfail AssertFailed
     | Inr (p_addr, v_addr, dma_fd) \<Rightarrow>
         dbind (new_mem \<lparr>bm_v_addr = v_addr, bm_p_addr = p_addr, bm_size = sz,
             bm_type = BMMEM_TYPE_DEVICE, bm_is_prealloc = False, bm_dma_fd = dma_fd,
             bm_user_ref_cnt = 0, bm_offset = 0\<rparr>) (\<lambda>mem.
         dbind (deref ds_ctxs ctx) (\<lambda>c'.
         dthen (set_ctx ctx (c'\<lparr>bc_root_mem_array := root_mem_insert p_addr mem (bc_root_mem_array c')\<rparr>))
         (dret mem)))) u = Inr (p, t)"
    using assms unfolding alloc_object_def deref_bind_Inr unfolding dbind_Inr by auto
  have so: "same_store s u" using alloc_loop_same c(3) by (simp add: mem_alloc_def)
  from k c so obtain pa va fd where "a = Inr (pa, va, fd)" by (cases a) (auto simp: dm_inv)
  with k c so show thesis
    by (intro that[of c pa va fd u]) (auto simp: dm_inv new_mem_def set_ctx_def same_store_def)
qed

lemma alloc_object_law:
  assumes "alloc_object E ctx sz s = Inr (p, t)" "fresh_mems s"
  shows "\<exists>i m. p = Some i \<and> ds_mems s i = None \<and> ds_mems t = (ds_mems s)(i \<mapsto> m) \<and> bm_size m = sz \<and>
      bm_user_ref_cnt m = 0 \<and> bm_type m = BMMEM_TYPE_DEVICE \<and> \<not> bm_is_prealloc m \<and> fresh_mems t"
  using assms(2) by (rule_tac alloc_object_effect[OF assms(1)]) (auto simp: fresh_mems_def)

lemma free_same: "mem_free E v n fd s = Inr (r, t) \<Longrightarrow> same_store s t"
  by (auto simp: mem_free_def dm_inv same_store_def)

lemma mem_free_raw_law:
  assumes "mem_free_raw E ctx p s = Inr (u, t)"
  shows "\<exists>i m. p = Some i \<and> ds_mems s i = Some m \<and> bm_type m = BMMEM_TYPE_DEVICE \<and>
    ds_mems t = (ds_mems s)(i := None) \<and> ds_next t = ds_next s"
  using assms by (auto simp: mem_free_raw_def checked_mem_def forget_mem_def delete_mem_def set_ctx_def dm_inv same_store_def
      split: if_splits dest!: free_same)

lemma firewall_release_same:
  "firewall_release E ctx m s = Inr (u, t) \<Longrightarrow> ds_mems t = ds_mems s \<and> ds_next t = ds_next s \<and> ds_ctxs t = ds_ctxs s"
  by (auto simp: firewall_release_def unload_tee_183x_def ctx_dev_def dm_inv split: option.splits)

lemma mem_free_raw_183x_law:
  assumes "mem_free_raw_183x E ctx p s = Inr (u, t)"
  shows "\<exists>i m. p = Some i \<and> ds_mems s i = Some m \<and> bm_type m = BMMEM_TYPE_DEVICE \<and>
    ds_mems t = (ds_mems s)(i := None) \<and> ds_next t = ds_next s"
  using assms by (auto simp: mem_free_raw_183x_def checked_mem_def forget_mem_def delete_mem_def set_ctx_def dm_inv same_store_def
      split: if_splits dest!: free_same firewall_release_same)

interpretation raw: mem_provider "mem_alloc_raw E" "mem_free_raw E" fresh_mems for E
  by unfold_locales
     (auto simp: mem_alloc_raw_def fresh_mems_def dest!: mem_free_raw_law alloc_object_law[unfolded fresh_mems_def])

interpretation raw183: mem_provider "mem_alloc_raw E" "mem_free_raw_183x E" fresh_mems for E
  by unfold_locales
     (auto simp: mem_alloc_raw_def fresh_mems_def dest!: mem_free_raw_183x_law alloc_object_law[unfolded fresh_mems_def])

lemma root_mem_remove_insert:
  assumes "\<And>e. e \<in> set arr \<Longrightarrow> fst e = 0 \<Longrightarrow> e = (0, None)" "\<And>e. e \<in> set arr \<Longrightarrow> fst e \<noteq> 0 \<Longrightarrow> fst e \<noteq> p"
  shows "root_mem_remove p (root_mem_insert p m arr) = arr"
proof (cases "find_index (\<lambda>e. fst e = 0) arr")
  case None
  then have "find_index (\<lambda>e. fst e = p) arr = None" using assms(2) by (auto simp: find_index_None_iff)
  with None show ?thesis by (simp add: root_mem_insert_def root_mem_remove_def)
next
  case (Some i)
  note i = find_index_SomeD[OF Some]
  have "find_index (\<lambda>e. fst e = p) (arr[i := (p, m)]) = Some i"
  proof (rule find_index_eqI)
    fix j assume "j < i"
    with i assms(2)[of "arr ! j"] show "fst (arr[i := (p, m)] ! j) \<noteq> p" by auto
  qed (use i in auto)
  moreover have "arr ! i = (0, None)" using i by (intro assms(1)) auto
  then have "arr[i := (0, None)] = arr" by (metis list_update_id)
  ultimately show ?thesis using Some by (simp add: root_mem_insert_def root_mem_remove_def)
qed

lemma mem_free_effect:
  "mem_free E v n fd s = Inr (r, t) \<longleftrightarrow> r = BM_SUCCESS \<and> t = s\<lparr>ds_log := ds_log s @ [SysMunmap v n, SysClose fd]\<rparr>"
  by (auto simp: mem_free_def dm_inv)

lemma release_balanced:
  assumes "balanced E s u {#fd#} {#v#}" "ds_log w = ds_log u @ [SysMunmap v n, SysClose fd]"
  shows "balanced E s w {#} {#}"
proof -
  from assms(1) obtain seg where "ds_log u = ds_log s @ seg" "granted_fds E (ds_log s) seg \<subseteq># closed_fds seg + {#fd#}"
    "granted_maps E (ds_log s) seg \<subseteq># unmapped seg + {#v#}" by (auto simp: balanced_def)
  with assms(2) show ?thesis unfolding balanced_def
    by (intro exI[of _ "seg @ [SysMunmap v n, SysClose fd]"]) (auto simp: granted_append)
qed

text \<open>What a release does, on every chip; only cv183x looks into the firewall table, and clears the entry of the block.\<close>

definition firewall_without :: "chip \<Rightarrow> u64 \<Rightarrow> u64 list \<Rightarrow> u64 list" where
  "firewall_without chip paddr fw = (if ch_name chip = ''cv183x''
     then (case find_index (\<lambda>a. a = paddr) fw of None \<Rightarrow> fw | Some i \<Rightarrow> fw[i := 0]) else fw)"

lemma firewall_release_effect:
  assumes "firewall_release E ctx m t = Inr (u, w)"
  shows "balanced E t w {#} {#} \<and> ds_tee_firewall w = firewall_without cv183x (bm_p_addr m) (ds_tee_firewall t)"
proof (cases "find_index (\<lambda>a. a = bm_p_addr m) (ds_tee_firewall t)")
  case None
  then show ?thesis using assms by (auto simp: firewall_release_def firewall_without_def cv183x_def dm_inv balanced_refl)
next
  case (Some i)
  then show ?thesis using assms
    by (auto simp: firewall_release_def firewall_without_def cv183x_def unload_tee_183x_def ctx_dev_def dm_inv balanced_def)
qed

lemma mem_release_effect:
  assumes chip: "chip \<in> {cv180x, cv181x, cv182x, cv183x}" and f: "ch_mem_free_raw chip E ctx (Some i) t = Inr (u, v)"
    and m: "ds_mems t i = Some m" "\<not> bm_is_prealloc m" and c: "ds_ctxs t (the ctx) = Some c"
  shows "\<exists>w. balanced E t w {#} {#} \<and> ds_log v = ds_log w @ [SysMunmap (bm_v_addr m) (bm_size m), SysClose (bm_dma_fd m)] \<and>
    ds_mems v = (ds_mems t)(i := None) \<and> ds_ctxs v = (ds_ctxs t)(the ctx \<mapsto> c\<lparr>bc_root_mem_array := root_mem_remove (bm_p_addr m) (bc_root_mem_array c)\<rparr>) \<and>
    ds_tee_firewall v = firewall_without chip (bm_p_addr m) (ds_tee_firewall t)"
proof -
  obtain w where w: "ds_mems w = ds_mems t" "ds_ctxs w = ds_ctxs t" "balanced E t w {#} {#}" "ds_tee_firewall w = firewall_without chip (bm_p_addr m) (ds_tee_firewall t)"
    "dthen (dthen (mem_free E (bm_v_addr m) (bm_size m) (bm_dma_fd m)) (forget_mem ctx m)) (delete_mem (Some i)) w = Inr (u, v)"
  proof (cases "chip = cv183x")
    case True
    with f m obtain x w where "firewall_release E ctx m t = Inr (x, w)"
      "dthen (dthen (mem_free E (bm_v_addr m) (bm_size m) (bm_dma_fd m)) (forget_mem ctx m)) (delete_mem (Some i)) w = Inr (u, v)"
      by (auto simp: cv183x_def mem_free_raw_183x_def checked_mem_def dm_inv)
    with True firewall_release_same[OF this(1)] firewall_release_effect[OF this(1)] show ?thesis by (intro that[of w]) simp_all
  next
    case False
    then have "ch_mem_free_raw chip = mem_free_raw" "ch_name chip \<noteq> ''cv183x''" using chip by (auto simp: cv180x_def cv181x_def cv182x_def)
    with f m show ?thesis by (intro that[of t]) (auto simp: mem_free_raw_def checked_mem_def dm_inv firewall_without_def balanced_refl)
  qed
  have "ds_log v = ds_log w @ [SysMunmap (bm_v_addr m) (bm_size m), SysClose (bm_dma_fd m)]" "ds_mems v = (ds_mems w)(i := None)"
    "ds_ctxs v = (ds_ctxs w)(the ctx \<mapsto> c\<lparr>bc_root_mem_array := root_mem_remove (bm_p_addr m) (bc_root_mem_array c)\<rparr>)" "ds_tee_firewall v = ds_tee_firewall w"
    using w(5) c w(2) by (auto simp: forget_mem_def delete_mem_def set_ctx_def dm_inv mem_free_effect)
  with w show ?thesis by (intro exI[of _ w]) simp
qed

text \<open>
  C32: on every chip, releasing what was just allocated undoes it: the memory objects, the context's table of
  allocations and every other context are as before, and the kernel has back every descriptor and
  mapping the two calls were granted.  On cv183x an entry of the firewall table for the block's
  address, left by the loading of a protected model, is cleared; every other entry, and the whole table on the other chips, stays.
\<close>

theorem alloc_free_raw_roundtrip:
  assumes chip: "chip \<in> {cv180x, cv181x, cv182x, cv183x}"
    and "mem_alloc_raw E ctx sz s = Inr (p, t)" "ch_mem_free_raw chip E ctx p t = Inr (u, v)" "fresh_mems s"
    and c: "ds_ctxs s (the ctx) = Some c"
    and free: "\<And>e. e \<in> set (bc_root_mem_array c) \<Longrightarrow> fst e = 0 \<Longrightarrow> e = (0, None)"
    and new: "\<And>e. e \<in> set (bc_root_mem_array c) \<Longrightarrow> fst e \<noteq> 0 \<Longrightarrow> fst e \<noteq> bm_p_addr (the (ds_mems t (the p)))"
  shows "ds_mems v = ds_mems s \<and> ds_ctxs v = ds_ctxs s \<and> balanced E s v {#} {#} \<and>
    ds_tee_firewall v = firewall_without chip (bm_p_addr (the (ds_mems t (the p)))) (ds_tee_firewall s)"
proof -
  obtain w pa va fd where al: "mem_alloc E (bc_dev c) sz s = Inr (Inr (pa, va, fd), w)" "ctx \<noteq> None" "p = Some (ds_next s)"
    and so: "same_store s w"
    and t: "t = w\<lparr>ds_next := ds_next s + 1, ds_mems := (ds_mems s)(ds_next s \<mapsto> \<lparr>bm_v_addr = va, bm_p_addr = pa, bm_size = sz,
             bm_type = BMMEM_TYPE_DEVICE, bm_is_prealloc = False, bm_dma_fd = fd, bm_user_ref_cnt = 0, bm_offset = 0\<rparr>),
       ds_ctxs := (ds_ctxs s)(the ctx \<mapsto> c\<lparr>bc_root_mem_array := root_mem_insert pa (Some (ds_next s)) (bc_root_mem_array c)\<rparr>)\<rparr>"
    using alloc_object_effect[OF assms(2)[unfolded mem_alloc_raw_def]] c by (metis option.inject)
  have rm: "root_mem_remove pa (root_mem_insert pa (Some (ds_next s)) (bc_root_mem_array c)) = bc_root_mem_array c"
    using new t al(3) by (intro root_mem_remove_insert[OF free]) auto
  have "ds_mems t (ds_next s) = Some \<lparr>bm_v_addr = va, bm_p_addr = pa, bm_size = sz, bm_type = BMMEM_TYPE_DEVICE, bm_is_prealloc = False,
      bm_dma_fd = fd, bm_user_ref_cnt = 0, bm_offset = 0\<rparr>" "ds_ctxs t (the ctx) = Some (c\<lparr>bc_root_mem_array := root_mem_insert pa (Some (ds_next s)) (bc_root_mem_array c)\<rparr>)"
    by (simp_all add: t)
  from mem_release_effect[OF chip assms(3)[unfolded al(3)] this(1) _ this(2)] obtain w' where
    w': "balanced E t w' {#} {#}" "ds_log v = ds_log w' @ [SysMunmap va sz, SysClose fd]" "ds_mems v = (ds_mems t)(ds_next s := None)"
      "ds_ctxs v = (ds_ctxs t)(the ctx \<mapsto> c\<lparr>bc_root_mem_array := bc_root_mem_array c\<rparr>)" "ds_tee_firewall v = firewall_without chip pa (ds_tee_firewall t)"
    by (auto simp: rm)
  have "ds_mems s (ds_next s) = None" using assms(4) by (simp add: fresh_mems_def)
  then have "ds_mems v = ds_mems s" "ds_ctxs v = ds_ctxs s" using w'(3,4) c by (auto simp: t fun_upd_idem map_upd_triv)
  moreover have "balanced E s w {#fd#} {#va#}" using alloc_loop_balanced[OF al(1)[unfolded mem_alloc_def]] by auto
  then have "balanced E s t {#fd#} {#va#}" by (simp add: balanced_def t)
  then have "balanced E s w' {#fd#} {#va#}" using balanced_trans[OF _ w'(1)] by fastforce
  then have "balanced E s v {#} {#}" using release_balanced[OF _ w'(2)] by blast
  moreover have "ds_tee_firewall t = ds_tee_firewall s" using so by (simp add: t same_store_def)
  ultimately show ?thesis using w'(5) by (simp add: t al(3))
qed

theorem alloc_free_raw_roundtrip_witness:
  "\<exists>t v. mem_alloc_raw demo_env (Some 2) 256 (demo_state\<lparr>ds_tee_firewall := [9, 4096]\<rparr>) = Inr (Some 4, t) \<and>
     ch_mem_free_raw cv183x demo_env (Some 2) (Some 4) t = Inr ((), v) \<and> ds_mems v = ds_mems demo_state \<and> ds_tee_firewall v = [9, 0]"
proof -
  let ?s = "demo_state\<lparr>ds_tee_firewall := [9, 4096]\<rparr>"
  obtain w where w: "mem_alloc demo_env (Some (Suc 0)) 256 ?s = Inr (Inr (4096, 8192, 7), w)" "ds_devs w (Suc 0) = Some demo_dev"
    using demo_mem_alloc[of ?s] by (auto simp: demo_state_def)
  then have so: "same_store ?s w" using alloc_loop_same by (simp add: mem_alloc_def)
  have d: "ds_ctxs ?s 2 = Some demo_ctx" "bc_dev demo_ctx = Some (Suc 0)" "ds_next ?s = 4" "fresh_mems ?s" "ds_devs ?s (Suc 0) = Some demo_dev"
    by (auto simp: demo_state_def demo_ctx_def fresh_mems_def)
  obtain t where t: "mem_alloc_raw demo_env (Some 2) 256 ?s = Inr (Some 4, t)"
    using w so d by (simp add: mem_alloc_raw_def alloc_object_def dm_run same_store_def)
  obtain v where v: "ch_mem_free_raw cv183x demo_env (Some 2) (Some 4) t = Inr ((), v)" "bm_p_addr (the (ds_mems t 4)) = 4096"
    using t w so d by (auto simp: cv183x_def mem_alloc_raw_def alloc_object_def mem_free_raw_183x_def firewall_release_def unload_tee_183x_def forget_mem_def mem_free_def
      dm_run same_store_def split: option.splits)
  have "ds_mems v = ds_mems ?s \<and> ds_ctxs v = ds_ctxs ?s \<and> balanced demo_env ?s v {#} {#} \<and> ds_tee_firewall v = firewall_without cv183x (bm_p_addr (the (ds_mems t (the (Some 4))))) (ds_tee_firewall ?s)"
    by (rule alloc_free_raw_roundtrip[OF _ t v(1) d(4), of demo_ctx]) (auto simp: d(1)[simplified] demo_ctx_def)
  with t v show ?thesis by (auto simp: firewall_without_def cv183x_def)
qed

end
