(* ===== verification/DmaBuf.thy ===== *)
theory DmaBuf
  imports ChipMem
begin

text \<open>
  The conversion of a command buffer into a dma buffer (\<^verbatim>\<open>src/soc/18?x/bm_dmabuf.c\<close>): how large the
  dma buffer is, its header, the descriptors of its segments, and the commands of the two engines
  behind them.  The files of the chips differ in the magic numbers and, for cv180x, in reporting a
  bad command buffer instead of aborting.

  The command format is the one of the kernel library, which is not part of the sources: its
  constants and the access to the fields of a command header and of the engine registers are fields
  of a parameter.
\<close>

section \<open>Commands\<close>

record cmd_layout =
  cl_hdr_bytes :: nat
  cl_magic :: nat
  cl_hdr_magic :: "byte list \<Rightarrow> nat"
  cl_hdr_engine :: "byte list \<Rightarrow> nat"
  cl_hdr_len :: "byte list \<Rightarrow> nat"
  cl_cmd_hdr_len :: "byte list \<Rightarrow> nat"
  cl_tiu :: nat
  cl_tdma :: nat
  cl_cpu :: nat
  cl_engines :: nat
  cl_bd_reg_bytes :: nat
  cl_cpu_engine_bytes :: nat
  cl_str_bytes :: nat
  cl_bdc_bit :: nat
  cl_tdma_bit :: nat
  cl_tiu_sync :: "byte list \<Rightarrow> nat"
  cl_tdma_sync :: "byte list \<Rightarrow> nat"
  cl_tiu_end :: "byte list \<Rightarrow> byte list"
  cl_eod_bit :: nat
  cl_interrupt_bit :: nat
  cl_barrier_bit :: nat
  cl_op_sync :: nat
  cl_magic_s :: nat
  cl_reports :: bool
  cl_err_data :: bmerr

text \<open>
  The computations keep their state when they stop: at a fault, or, without one, at a return with
  \<^verbatim>\<open>BM_ERR_DATA\<close>.
\<close>

type_synonym ('s, 'a) cv = "'s \<Rightarrow> (fault option \<times> 's) + ('a \<times> 's)"

definition cret :: "'a \<Rightarrow> ('s, 'a) cv" where
  "cret a s = Inr (a, s)"

definition cbind :: "('s, 'a) cv \<Rightarrow> ('a \<Rightarrow> ('s, 'b) cv) \<Rightarrow> ('s, 'b) cv" where
  "cbind m k s = (case m s of Inl e \<Rightarrow> Inl e | Inr (a, t) \<Rightarrow> k a t)"

definition cfail :: "fault \<Rightarrow> ('s, 'a) cv" where
  "cfail e s = Inl (Some e, s)"

definition cupd :: "('s \<Rightarrow> 's) \<Rightarrow> ('s, unit) cv" where
  "cupd f s = Inr ((), f s)"

definition cget :: "('s \<Rightarrow> 'a) \<Rightarrow> ('s, 'a) cv" where
  "cget f s = Inr (f s, s)"

text \<open>A check: cv180x returns an error, the other chips assert.\<close>

definition check :: "cmd_layout \<Rightarrow> bool \<Rightarrow> ('s, unit) cv" where
  "check L b s = (if b then Inr ((), s) else Inl (if cl_reports L then None else Some AssertFailed, s))"

definition sizeof_cmd_hdr :: "cmd_layout \<Rightarrow> nat" where
  "sizeof_cmd_hdr L = max 1 (cl_hdr_bytes L)"

definition hdr_at :: "cmd_layout \<Rightarrow> byte list \<Rightarrow> nat \<Rightarrow> ('s, byte list) cv" where
  "hdr_at L cmdbuf off = (if off + sizeof_cmd_hdr L \<le> length cmdbuf
     then cret (take (sizeof_cmd_hdr L) (drop off cmdbuf)) else cfail OutOfRange)"

definition body_at :: "cmd_layout \<Rightarrow> byte list \<Rightarrow> nat \<Rightarrow> byte list" where
  "body_at L cmdbuf off = drop (off + sizeof_cmd_hdr L) cmdbuf"

definition traverse_start :: "cmd_layout \<Rightarrow> byte list \<Rightarrow> ('s, nat) cv" where
  "traverse_start L cmdbuf = cbind (hdr_at L cmdbuf 0) (\<lambda>h. cbind (check L (cl_hdr_magic L h = cl_magic L)) (\<lambda>_. cret 0))"

definition traverse_next :: "cmd_layout \<Rightarrow> byte list \<Rightarrow> nat \<Rightarrow> nat \<Rightarrow> ('s, nat option) cv" where
  "traverse_next L cmdbuf sz off = cbind (hdr_at L cmdbuf off) (\<lambda>h.
     let nxt = off + cl_cmd_hdr_len L h + sizeof_cmd_hdr L in
     if nxt \<ge> sz then cret None
     else cbind (hdr_at L cmdbuf nxt) (\<lambda>h2. cbind (check L (cl_hdr_magic L h2 = cl_magic L)) (\<lambda>_. cret (Some nxt))))"

definition is_last_desc :: "cmd_layout \<Rightarrow> byte list \<Rightarrow> nat \<Rightarrow> nat \<Rightarrow> ('s, bool) cv" where
  "is_last_desc L cmdbuf sz off = cbind (traverse_next L cmdbuf sz off) (\<lambda>n. cret (n = None))"

definition desc_sync_id :: "cmd_layout \<Rightarrow> byte list \<Rightarrow> nat \<Rightarrow> nat \<Rightarrow> ('s, nat) cv" where
  "desc_sync_id L cmdbuf engine off =
    (if engine = cl_tiu L then cret (cl_tiu_sync L (body_at L cmdbuf off))
     else if engine = cl_tdma L then cret (cl_tdma_sync L (body_at L cmdbuf off))
     else cbind (check L False) (\<lambda>_. cret 1))"

text \<open>Whether a command of an engine ends a segment; only cv180x looks for the next command in any case.\<close>

definition ends_segment :: "cmd_layout \<Rightarrow> byte list \<Rightarrow> nat \<Rightarrow> nat \<Rightarrow> nat \<Rightarrow> ('s, bool) cv" where
  "ends_segment L cmdbuf sz engine off = cbind (desc_sync_id L cmdbuf engine off) (\<lambda>sync.
     if sync = 0xFFFF \<and> \<not> cl_reports L then cret True
     else cbind (is_last_desc L cmdbuf sz off) (\<lambda>is_last. cret (sync = 0xFFFF \<or> is_last)))"

definition align_to :: "nat \<Rightarrow> nat \<Rightarrow> nat" where
  "align_to bits x = (x + 2 ^ bits - 1) div 2 ^ bits * 2 ^ bits"

definition BD_EOD_PADDING_BYTES :: nat where "BD_EOD_PADDING_BYTES = 128"

text \<open>The size of the commands of the TIU with those of another segment.\<close>

definition add_bd :: "cmd_layout \<Rightarrow> nat \<Rightarrow> nat \<Rightarrow> nat" where
  "add_bd L bd_size tiu = (if tiu \<noteq> 0
     then align_to (cl_bdc_bit L) (bd_size + tiu * cl_bd_reg_bytes L + BD_EOD_PADDING_BYTES) else bd_size)"

section \<open>The size\<close>

text \<open>
  The loop visits a command per round, so one more round than there are bytes is enough.  Counts
  of type \<^verbatim>\<open>size_t\<close> do not wrap.
\<close>

record size_state =
  z_tiu :: nat
  z_tdma :: nat
  z_cpu :: nat
  z_tdma_desc_num :: nat
  z_bd_size :: nat
  z_tiu_cnt :: u32
  z_tdma_cnt :: u32

definition size_count :: "cmd_layout \<Rightarrow> nat \<Rightarrow> size_state \<Rightarrow> size_state" where
  "size_count L engine st =
    (if engine = cl_tiu L then st\<lparr>z_tiu := z_tiu st + 1\<rparr>
     else if engine = cl_tdma L then st\<lparr>z_tdma := z_tdma st + 1\<rparr>
     else if engine = cl_cpu L then st\<lparr>z_cpu := z_cpu st + 1\<rparr> else st)"

definition size_flush :: "cmd_layout \<Rightarrow> size_state \<Rightarrow> size_state" where
  "size_flush L st = st\<lparr>z_tdma_desc_num := z_tdma_desc_num st + z_tdma st,
     z_bd_size := add_bd L (z_bd_size st) (z_tiu st),
     z_tiu_cnt := add32 (z_tiu_cnt st) (z_tiu st mod 2 ^ 16), z_tdma_cnt := add32 (z_tdma_cnt st) (z_tdma st mod 2 ^ 16),
     z_tiu := 0, z_tdma := 0\<rparr>"

fun size_loop :: "cmd_layout \<Rightarrow> byte list \<Rightarrow> nat \<Rightarrow> nat \<Rightarrow> nat \<Rightarrow> size_state \<Rightarrow> (unit, size_state) cv" where
  "size_loop L cmdbuf sz 0 off st = cfail Diverged"
| "size_loop L cmdbuf sz (Suc n) off st = cbind (hdr_at L cmdbuf off) (\<lambda>h.
     let engine = cl_hdr_engine L h; st1 = size_count L engine st in
     if engine \<ge> cl_engines L then cfail OutOfRange
     else cbind (if engine \<noteq> cl_cpu L
                 then cbind (ends_segment L cmdbuf sz engine off) (\<lambda>e.
                   cret (if e then size_flush L (st1\<lparr>z_cpu := z_cpu st1 + 1\<rparr>) else st1))
                 else cret (size_flush L st1)) (\<lambda>st2.
       cbind (traverse_next L cmdbuf sz off) (\<lambda>nxt. case nxt of
         None \<Rightarrow> cret st2
       | Some off' \<Rightarrow> size_loop L cmdbuf sz n off' st2)))"

definition dma_size :: "cmd_layout \<Rightarrow> nat \<Rightarrow> nat \<Rightarrow> nat \<Rightarrow> nat" where
  "dma_size L cpu bd_size tdma =
     align_to (cl_tdma_bit L) (align_to (cl_bdc_bit L) (SIZEOF_DMA_HDR + cpu * cl_cpu_engine_bytes L) + bd_size) + tdma * 2 ^ cl_tdma_bit L"

text \<open>The error, the size and the size of the performance counters; the sizes are not written on an error.\<close>

definition dmabuf_size :: "cmd_layout \<Rightarrow> byte list \<Rightarrow> u64 \<Rightarrow> (bmerr \<times> u64 \<times> u64) res" where
  "dmabuf_size L cmdbuf sz = (case cbind (traverse_start L cmdbuf) (\<lambda>off. size_loop L cmdbuf sz (Suc sz) off
        \<lparr>z_tiu = 0, z_tdma = 0, z_cpu = 0, z_tdma_desc_num = 0, z_bd_size = 0, z_tiu_cnt = 0, z_tdma_cnt = 0\<rparr>) () of
     Inl (Some e, _) \<Rightarrow> Inl e
   | Inl (None, _) \<Rightarrow> Inr (cl_err_data L, 0, 0)
   | Inr (st, _) \<Rightarrow> Inr (BM_SUCCESS, dma_size L (z_cpu st) (z_bd_size st) (z_tdma_desc_num st), pmu_bytes (z_tiu_cnt st) (z_tdma_cnt st)))"

section \<open>Header and segment descriptors\<close>

text \<open>The dma buffer is at an address of the memory.\<close>

type_synonym ram = "u64 \<Rightarrow> byte"

definition put :: "u64 \<Rightarrow> byte list \<Rightarrow> (ram, unit) cv" where
  "put a bs = cupd (store_bytes a bs)"

definition sizeof_cpu_desc :: "cmd_layout \<Rightarrow> nat" where
  "sizeof_cpu_desc L = 28 + cl_str_bytes L"

text \<open>The descriptor of an inserted synchronisation: type, counts, no offsets, the name cut to its field.\<close>

definition sync_desc :: "cmd_layout \<Rightarrow> nat \<Rightarrow> nat \<Rightarrow> byte list" where
  "sync_desc L tiu tdma = u32_bytes (cl_op_sync L) @ u32_bytes tiu @ u32_bytes tdma @ replicate 16 0 @
     take (cl_str_bytes L) (map (\<lambda>c. of_nat (of_char c)) (take (cl_str_bytes L - 1) ''layer_end'') @ replicate (cl_str_bytes L) 0)"

text \<open>The descriptor of a CPU command: its body with the counts filled in.\<close>

definition cpu_desc :: "cmd_layout \<Rightarrow> byte list \<Rightarrow> nat \<Rightarrow> nat \<Rightarrow> byte list" where
  "cpu_desc L body tiu tdma = take 4 body @ u32_bytes tiu @ u32_bytes tdma @ drop 12 (take (sizeof_cpu_desc L) body)"

record fill_state =
  f_tiu :: nat
  f_tdma :: nat
  f_nums_tiu :: nat
  f_nums_tdma :: nat
  f_nums_cpu :: nat
  f_size_tiu :: nat

definition fill_count :: "cmd_layout \<Rightarrow> nat \<Rightarrow> fill_state \<Rightarrow> fill_state" where
  "fill_count L engine st =
    (if engine = cl_tiu L then st\<lparr>f_tiu := f_tiu st + 1, f_nums_tiu := f_nums_tiu st + 1\<rparr>
     else if engine = cl_tdma L then st\<lparr>f_tdma := f_tdma st + 1, f_nums_tdma := f_nums_tdma st + 1\<rparr>
     else if engine = cl_cpu L then st\<lparr>f_nums_cpu := f_nums_cpu st + 1\<rparr> else st)"

definition fill_flush :: "cmd_layout \<Rightarrow> fill_state \<Rightarrow> fill_state" where
  "fill_flush L st = st\<lparr>f_size_tiu := add_bd L (f_size_tiu st) (f_tiu st), f_tiu := 0, f_tdma := 0\<rparr>"

definition put_arm :: "cmd_layout \<Rightarrow> u64 \<Rightarrow> fill_state \<Rightarrow> byte list \<Rightarrow> (ram, fill_state) cv" where
  "put_arm L dmabuf st bs = cbind (put (dmabuf + SIZEOF_DMA_HDR + (f_nums_cpu st - 1) * sizeof_cpu_desc L) bs)
     (\<lambda>_. cret (fill_flush L st))"

fun fill_loop :: "cmd_layout \<Rightarrow> byte list \<Rightarrow> nat \<Rightarrow> u64 \<Rightarrow> nat \<Rightarrow> nat \<Rightarrow> fill_state \<Rightarrow> (ram, fill_state) cv" where
  "fill_loop L cmdbuf sz dmabuf 0 off st = cfail Diverged"
| "fill_loop L cmdbuf sz dmabuf (Suc n) off st = cbind (hdr_at L cmdbuf off) (\<lambda>h.
     let engine = cl_hdr_engine L h; st1 = fill_count L engine st in
     if engine \<ge> cl_engines L then cfail OutOfRange
     else cbind (if engine \<noteq> cl_cpu L
                 then cbind (ends_segment L cmdbuf sz engine off) (\<lambda>e.
                   let st2 = st1\<lparr>f_nums_cpu := f_nums_cpu st1 + 1\<rparr> in
                   if e then put_arm L dmabuf st2 (sync_desc L (f_tiu st2) (f_tdma st2)) else cret st1)
                 else if length (body_at L cmdbuf off) < sizeof_cpu_desc L then cfail OutOfRange
                 else put_arm L dmabuf st1 (cpu_desc L (body_at L cmdbuf off) (f_tiu st1) (f_tdma st1))) (\<lambda>st2.
       cbind (traverse_next L cmdbuf sz off) (\<lambda>nxt. case nxt of
         None \<Rightarrow> cret st2
       | Some off' \<Rightarrow> fill_loop L cmdbuf sz dmabuf n off' st2)))"

definition dma_header :: "cmd_layout \<Rightarrow> nat \<Rightarrow> nat \<Rightarrow> nat \<Rightarrow> nat \<Rightarrow> byte list" where
  "dma_header L bytes cpu bd tdma = [0xB5, 0xB5, of_nat (cl_magic_s L), of_nat (cl_magic_s L div 2 ^ 8)] @
     u32_bytes bytes @ u32_bytes cpu @ u32_bytes bd @ u32_bytes tdma @ replicate 108 0"

text \<open>The result is where the commands of the engines begin.\<close>

definition fill_header_and_arm :: "cmd_layout \<Rightarrow> byte list \<Rightarrow> nat \<Rightarrow> u64 \<Rightarrow> (ram, nat \<times> nat) cv" where
  "fill_header_and_arm L cmdbuf sz dmabuf = cbind (traverse_start L cmdbuf) (\<lambda>off.
     cbind (fill_loop L cmdbuf sz dmabuf (Suc sz) off
        \<lparr>f_tiu = 0, f_tdma = 0, f_nums_tiu = 0, f_nums_tdma = 0, f_nums_cpu = 0, f_size_tiu = 0\<rparr>) (\<lambda>st.
     let tiu_offset = align_to (cl_bdc_bit L) (SIZEOF_DMA_HDR + f_nums_cpu st * cl_cpu_engine_bytes L);
         tdma_offset = align_to (cl_tdma_bit L) (tiu_offset + f_size_tiu st) in
     cbind (put dmabuf (dma_header L (tdma_offset + f_nums_tdma st * 2 ^ cl_tdma_bit L) (f_nums_cpu st) (f_nums_tiu st) (f_nums_tdma st)))
       (\<lambda>_. cret (tiu_offset, tdma_offset))))"

section \<open>Commands of the engines\<close>

text \<open>
  The register image of the TIU: each line of 128 bits is numbered in the upper half of its last
  byte, and the first and the last line change places.
\<close>

definition reorder_bd_cmdbuf_reg :: "byte list \<Rightarrow> byte list" where
  "reorder_bd_cmdbuf_reg reg =
    (let r = foldl (\<lambda>b k. b[16 * k + 15 := or (b ! (16 * k + 15)) (of_nat (k * 16))]) reg [0..<length reg div 16];
         n = length reg - 16; r2 = take n r @ take 16 r
     in drop n r @ drop 16 r2)"

definition adjust_desc_bd :: "cmd_layout \<Rightarrow> bool \<Rightarrow> byte list \<Rightarrow> byte list" where
  "adjust_desc_bd L eod reg = reorder_bd_cmdbuf_reg (if eod then cl_tiu_end L reg else reg)"

definition adjust_desc_tdma :: "cmd_layout \<Rightarrow> bool \<Rightarrow> nat \<Rightarrow> nat" where
  "adjust_desc_tdma L eod w =
     or (if eod then or (or w (2 ^ cl_eod_bit L)) (2 ^ cl_interrupt_bit L) else w) (2 ^ cl_barrier_bit L)"

text \<open>\<^verbatim>\<open>memcpy(p_body, desc->body, desc->hdr.len)\<close>\<close>

definition copy_body :: "cmd_layout \<Rightarrow> byte list \<Rightarrow> nat \<Rightarrow> byte list \<Rightarrow> u64 \<Rightarrow> (ram, unit) cv" where
  "copy_body L cmdbuf off h p = (if length (body_at L cmdbuf off) < cl_hdr_len L h then cfail OutOfRange
     else put p (take (cl_hdr_len L h) (body_at L cmdbuf off)))"

text \<open>The commands of a segment; the state is what is left of both counts, the next command and the two offsets.\<close>

fun segment_loop :: "cmd_layout \<Rightarrow> byte list \<Rightarrow> nat \<Rightarrow> u64 \<Rightarrow> nat \<Rightarrow> u32 \<Rightarrow> u32 \<Rightarrow> nat option \<Rightarrow> nat \<Rightarrow> nat \<Rightarrow>
    (ram, nat option \<times> nat \<times> nat) cv" where
  "segment_loop L cmdbuf sz dmabuf 0 tiu_num tdma_num desc tiu_offset tdma_offset = cfail Diverged"
| "segment_loop L cmdbuf sz dmabuf (Suc n) tiu_num tdma_num desc tiu_offset tdma_offset =
    (if tiu_num = 0 \<and> tdma_num = 0 then cret (desc, tiu_offset, tdma_offset)
     else case desc of None \<Rightarrow> cfail NullDeref
     | Some off \<Rightarrow> cbind (hdr_at L cmdbuf off) (\<lambda>h.
         if cl_hdr_engine L h = cl_tiu L then
           let tiu_num' = sub32 tiu_num 1; p = dmabuf + tiu_offset in
           cbind (copy_body L cmdbuf off h p) (\<lambda>_.
           cbind (cupd (\<lambda>ram. store_bytes p (adjust_desc_bd L (tiu_num' = 0) (load_bytes p (cl_bd_reg_bytes L) ram)) ram)) (\<lambda>_.
           cbind (traverse_next L cmdbuf sz off) (\<lambda>nxt.
           segment_loop L cmdbuf sz dmabuf n tiu_num' tdma_num nxt (tiu_offset + cl_bd_reg_bytes L) tdma_offset)))
         else if cl_hdr_engine L h = cl_tdma L then
           let tdma_num' = sub32 tdma_num 1; o' = align_to (cl_tdma_bit L) tdma_offset; p = dmabuf + o' in
           cbind (copy_body L cmdbuf off h p) (\<lambda>_.
           cbind (cupd (\<lambda>ram. store_bytes p (u32_bytes (adjust_desc_tdma L (tdma_num' = 0) (load_u32 p ram))) ram)) (\<lambda>_.
           cbind (traverse_next L cmdbuf sz off) (\<lambda>nxt.
           segment_loop L cmdbuf sz dmabuf n tiu_num tdma_num' nxt tiu_offset (o' + 2 ^ cl_tdma_bit L))))
         else cbind (traverse_next L cmdbuf sz off) (\<lambda>nxt.
           segment_loop L cmdbuf sz dmabuf n tiu_num tdma_num nxt tiu_offset tdma_offset)))"

text \<open>The segments; the count in the header, which lies before everything written here, is read once.\<close>

fun arm_loop :: "cmd_layout \<Rightarrow> byte list \<Rightarrow> nat \<Rightarrow> u64 \<Rightarrow> nat \<Rightarrow> u64 \<Rightarrow> nat option \<Rightarrow> nat \<Rightarrow> nat \<Rightarrow> (ram, unit) cv" where
  "arm_loop L cmdbuf sz dmabuf 0 arm desc tiu_offset tdma_offset = cret ()"
| "arm_loop L cmdbuf sz dmabuf (Suc k) arm desc tiu_offset tdma_offset =
     cbind (cget (\<lambda>ram. (load_u32 (arm + 4) ram mod 2 ^ 16, load_u32 (arm + 8) ram mod 2 ^ 16))) (\<lambda>(tiu_num, tdma_num).
     let to1 = (if tiu_num \<noteq> 0 then align_to (cl_bdc_bit L) tiu_offset else tiu_offset);
         td1 = (if tdma_num \<noteq> 0 then align_to (cl_tdma_bit L) tdma_offset else tdma_offset) in
     cbind (if tiu_num \<noteq> 0 then put (arm + 12) (u32_bytes to1) else cret ()) (\<lambda>_.
     cbind (if tdma_num \<noteq> 0 then put (arm + 16) (u32_bytes td1) else cret ()) (\<lambda>_.
     cbind (segment_loop L cmdbuf sz dmabuf (Suc (Suc sz)) tiu_num tdma_num desc to1 td1) (\<lambda>(desc', to2, td2).
     cbind (cget (\<lambda>ram. load_u32 (arm + 4) ram mod 2 ^ 16)) (\<lambda>again.
     cbind (if again \<noteq> 0 then put (dmabuf + to2) (replicate BD_EOD_PADDING_BYTES 0) else cret ()) (\<lambda>_.
     arm_loop L cmdbuf sz dmabuf k (arm + sizeof_cpu_desc L) desc'
       (if again \<noteq> 0 then to2 + BD_EOD_PADDING_BYTES else to2) td2))))))"

definition fill_bd_and_tdma :: "cmd_layout \<Rightarrow> byte list \<Rightarrow> nat \<Rightarrow> u64 \<Rightarrow> nat \<Rightarrow> nat \<Rightarrow> (ram, unit) cv" where
  "fill_bd_and_tdma L cmdbuf sz dmabuf tiu_offset tdma_offset = cbind (traverse_start L cmdbuf) (\<lambda>desc.
     cbind (cget (\<lambda>ram. load_u32 (dmabuf + 8) ram)) (\<lambda>n.
     arm_loop L cmdbuf sz dmabuf n (dmabuf + SIZEOF_DMA_HDR) (Some desc) tiu_offset tdma_offset))"

definition dmabuf_convert :: "cmd_layout \<Rightarrow> byte list \<Rightarrow> u64 \<Rightarrow> u64 \<Rightarrow> ram \<Rightarrow> (bmerr \<times> ram) res" where
  "dmabuf_convert L cmdbuf sz dmabuf ram =
    (case cbind (fill_header_and_arm L cmdbuf sz dmabuf) (\<lambda>(tiu_offset, tdma_offset).
            fill_bd_and_tdma L cmdbuf sz dmabuf tiu_offset tdma_offset) ram of
       Inl (Some e, _) \<Rightarrow> Inl e
     | Inl (None, ram') \<Rightarrow> Inr (cl_err_data L, ram')
     | Inr (_, ram') \<Rightarrow> Inr (BM_SUCCESS, ram'))"

text \<open>The kernel library of a chip, as the loading operations take it.\<close>

definition kernel_lib :: "cmd_layout \<Rightarrow> bool \<Rightarrow> bmk" where
  "kernel_lib L enable_pmu = \<lparr>bk_bdc_bit = cl_bdc_bit L, bk_tdma_bit = cl_tdma_bit L, bk_desc_bytes = sizeof_cpu_desc L,
     bk_enable_pmu = enable_pmu, bk_dmabuf_size = dmabuf_size L, bk_dmabuf_convert = dmabuf_convert L, bk_err_data = cl_err_data L\<rparr>"

end
