(* ===== verification/DmaConvert.thy ===== *)
theory DmaConvert
  imports DmaBuf
begin

text \<open>
  The conversion of a command buffer (\<^verbatim>\<open>bm_dmabuf.c\<close>) stays inside the dma buffer whose size the
  runtime computed before it allocated the buffer, and fills in its header.
\<close>

section \<open>Runs that do not stop\<close>

lemma cbind_cret [simp]: "cbind (cret a) k = k a"
  by (simp add: fun_eq_iff cbind_def cret_def)

lemma cbind_Inr: "cbind m k s = Inr (b, t) \<longleftrightarrow> (\<exists>a u. m s = Inr (a, u) \<and> k a u = Inr (b, t))"
  by (auto simp: cbind_def split: sum.splits)

lemma cbind_run: "m s = Inr (a, t) \<Longrightarrow> cbind m k s = k a t"
  by (simp add: cbind_def)

lemma cbind_cget: "cbind (cget f) k s = k (f s) s"
  by (simp add: cbind_def cget_def)

lemma put_if: "cbind (if b then put a bs else cret ()) k r = k () (if b then store_bytes a bs r else r)"
  by (simp add: cbind_def put_def cupd_def cret_def)

lemma check_True [simp]: "check L True = cret ()"
  by (simp add: fun_eq_iff check_def cret_def)

section \<open>Well-formed command buffers\<close>

abbreviation cmd_hdr :: "cmd_layout \<Rightarrow> byte list \<Rightarrow> nat \<Rightarrow> byte list" where
  "cmd_hdr L c off \<equiv> take (sizeof_cmd_hdr L) (drop off c)"

abbreviation cmd_engine :: "cmd_layout \<Rightarrow> byte list \<Rightarrow> nat \<Rightarrow> nat" where
  "cmd_engine L c off \<equiv> cl_hdr_engine L (cmd_hdr L c off)"

definition next_off :: "cmd_layout \<Rightarrow> byte list \<Rightarrow> nat \<Rightarrow> nat" where
  "next_off L c off = off + cl_cmd_hdr_len L (cmd_hdr L c off) + sizeof_cmd_hdr L"

text \<open>A header with the right magic number.\<close>

definition hdr_ok :: "cmd_layout \<Rightarrow> byte list \<Rightarrow> nat \<Rightarrow> bool" where
  "hdr_ok L c off \<longleftrightarrow> off + sizeof_cmd_hdr L \<le> length c \<and> cl_hdr_magic L (cmd_hdr L c off) = cl_magic L"

text \<open>The commands at these places follow each other up to the end of the buffer.\<close>

fun chained :: "cmd_layout \<Rightarrow> byte list \<Rightarrow> nat \<Rightarrow> nat list \<Rightarrow> bool" where
  "chained L c sz [] \<longleftrightarrow> False"
| "chained L c sz [o1] \<longleftrightarrow> hdr_ok L c o1 \<and> sz \<le> next_off L c o1"
| "chained L c sz (o1 # o2 # os) \<longleftrightarrow> hdr_ok L c o1 \<and> next_off L c o1 < sz \<and> o2 = next_off L c o1 \<and> chained L c sz (o2 # os)"

definition cmd_ok :: "cmd_layout \<Rightarrow> byte list \<Rightarrow> nat \<Rightarrow> bool" where
  "cmd_ok L c off \<longleftrightarrow> (let e = cmd_engine L c off; n = cl_hdr_len L (cmd_hdr L c off); b = length (body_at L c off) in
     e = cl_cpu L \<and> sizeof_cpu_desc L \<le> b \<or>
     e = cl_tiu L \<and> n \<le> b \<and> n \<le> cl_bd_reg_bytes L \<or>
     e = cl_tdma L \<and> n \<le> b \<and> n \<le> 2 ^ cl_tdma_bit L)"

text \<open>What the code relies on of the kernel library's constants.\<close>

definition layout_ok :: "cmd_layout \<Rightarrow> bool" where
  "layout_ok L \<longleftrightarrow> distinct [cl_tiu L, cl_tdma L, cl_cpu L] \<and> cl_tiu L < cl_engines L \<and> cl_tdma L < cl_engines L \<and>
     cl_cpu L < cl_engines L \<and> cl_cpu_engine_bytes L = sizeof_cpu_desc L \<and> 16 \<le> cl_bd_reg_bytes L \<and> 2 \<le> cl_tdma_bit L \<and>
     (\<forall>r. length (cl_tiu_end L r) = length r)"

definition is_sync :: "cmd_layout \<Rightarrow> byte list \<Rightarrow> nat \<Rightarrow> bool" where
  "is_sync L c off \<longleftrightarrow> (if cmd_engine L c off = cl_tiu L then cl_tiu_sync L (body_at L c off) else cl_tdma_sync L (body_at L c off)) = 0xFFFF"

text \<open>The segments: how many commands of either engine each has.\<close>

fun segments :: "cmd_layout \<Rightarrow> byte list \<Rightarrow> nat list \<Rightarrow> nat \<Rightarrow> nat \<Rightarrow> (nat \<times> nat) list" where
  "segments L c [] t d = []"
| "segments L c (o1 # os) t d =
    (let e = cmd_engine L c o1; t' = (if e = cl_tiu L then Suc t else t); d' = (if e = cl_tdma L then Suc d else d) in
     if e = cl_cpu L \<or> is_sync L c o1 \<or> os = [] then (t', d') # segments L c os 0 0 else segments L c os t' d')"

abbreviation first_off :: "nat list \<Rightarrow> nat option" where
  "first_off os \<equiv> (case os of [] \<Rightarrow> None | o1 # _ \<Rightarrow> Some o1)"

lemma chained_ConsD: "chained L c sz (o1 # os) \<Longrightarrow> hdr_ok L c o1 \<and> (os = [] \<or> chained L c sz os)"
  by (cases os) auto

lemma hdr_at_ok: "hdr_ok L c off \<Longrightarrow> hdr_at L c off = cret (cmd_hdr L c off)"
  by (simp add: hdr_at_def hdr_ok_def)

lemma traverse_next_ok:
  assumes "chained L c sz (o1 # os)" shows "traverse_next L c sz o1 = cret (first_off os)"
proof (cases os)
  case Nil
  with assms show ?thesis by (simp add: traverse_next_def hdr_at_ok next_off_def[symmetric])
next
  case (Cons o2 os')
  with assms have "hdr_ok L c o1" "next_off L c o1 < sz" "o2 = next_off L c o1" "hdr_ok L c o2"
    using chained_ConsD[of L c sz o2 os'] by auto
  then show ?thesis by (simp add: Cons traverse_next_def hdr_at_ok next_off_def[symmetric] Let_def) (simp add: hdr_ok_def)
qed

lemma ends_segment_ok:
  assumes "chained L c sz (o1 # os)" "cmd_engine L c o1 = cl_tiu L \<or> cmd_engine L c o1 = cl_tdma L"
  shows "ends_segment L c sz (cmd_engine L c o1) o1 = cret (is_sync L c o1 \<or> os = [])"
  using assms(2) by (cases os) (auto simp: ends_segment_def desc_sync_id_def is_last_desc_def traverse_next_ok[OF assms(1)] is_sync_def)

lemma segments_Nil [simp]: "segments L c os t d = [] \<longleftrightarrow> os = []"
proof (induction os arbitrary: t d)
  case (Cons o1 os)
  then show ?case by (cases os) (auto simp: Let_def)
qed simp

section \<open>The size\<close>

definition size_step :: "cmd_layout \<Rightarrow> size_state \<Rightarrow> nat \<times> nat \<Rightarrow> size_state" where
  "size_step L st sg = size_flush L (st\<lparr>z_tiu := fst sg, z_tdma := snd sg, z_cpu := z_cpu st + 1\<rparr>)"

lemma cmd_okD: "cmd_ok L c off \<Longrightarrow> layout_ok L \<Longrightarrow>
    (cmd_engine L c off = cl_cpu L \<or> cmd_engine L c off = cl_tiu L \<or> cmd_engine L c off = cl_tdma L) \<and> cmd_engine L c off < cl_engines L"
  by (auto simp: cmd_ok_def layout_ok_def Let_def)

lemma size_loop_step:
  fixes st :: size_state
  assumes "chained L c sz (o1 # os)" "cmd_ok L c o1" "layout_ok L"
  defines "t \<equiv> (if cmd_engine L c o1 = cl_tiu L then Suc (z_tiu st) else z_tiu st)"
    and "d \<equiv> (if cmd_engine L c o1 = cl_tdma L then Suc (z_tdma st) else z_tdma st)"
  defines "st2 \<equiv> (if cmd_engine L c o1 = cl_cpu L \<or> is_sync L c o1 \<or> os = [] then size_step L st (t, d) else st\<lparr>z_tiu := t, z_tdma := d\<rparr>)"
  shows "size_loop L c sz (Suc n) o1 st = (case os of [] \<Rightarrow> cret st2 | o2 # _ \<Rightarrow> size_loop L c sz n o2 st2)"
proof -
  have h: "hdr_at L c o1 = cret (cmd_hdr L c o1)" using assms(1) by (simp add: hdr_at_ok chained_ConsD)
  have dist: "cl_tiu L \<noteq> cl_tdma L" "cl_tiu L \<noteq> cl_cpu L" "cl_tdma L \<noteq> cl_cpu L" using assms(3) by (auto simp: layout_ok_def)
  consider (cpu) "cmd_engine L c o1 = cl_cpu L" | (tiu) "cmd_engine L c o1 = cl_tiu L" | (tdma) "cmd_engine L c o1 = cl_tdma L"
    using cmd_okD[OF assms(2,3)] by blast
  then show ?thesis
  proof cases
    case cpu
    then show ?thesis using cmd_okD[OF assms(2,3)] dist
      by (cases os) (simp_all add: h Let_def traverse_next_ok[OF assms(1)] st2_def t_def d_def size_step_def size_count_def)
  next
    case tiu
    note e = ends_segment_ok[OF assms(1), unfolded tiu, OF disjI1[OF HOL.refl]]
    show ?thesis using tiu cmd_okD[OF assms(2,3)] dist
      by (cases os) (simp_all add: h e Let_def traverse_next_ok[OF assms(1)] st2_def t_def d_def size_step_def size_count_def)
  next
    case tdma
    note e = ends_segment_ok[OF assms(1), unfolded tdma, OF disjI2[OF HOL.refl]]
    show ?thesis using tdma cmd_okD[OF assms(2,3)] dist
      by (cases os) (simp_all add: h e Let_def traverse_next_ok[OF assms(1)] st2_def t_def d_def size_step_def size_count_def)
  qed
qed

lemma foldl_size_step:
  "sgs \<noteq> [] \<Longrightarrow> foldl (size_step L) (st\<lparr>z_tiu := t, z_tdma := d\<rparr>) sgs = foldl (size_step L) st sgs"
  by (cases sgs) (simp_all add: size_step_def)

lemma size_step_zero [simp]: "z_tiu (size_step L st sg) = 0" "z_tdma (size_step L st sg) = 0"
  by (simp_all add: size_step_def size_flush_def)

lemma size_loop_run:
  assumes "chained L c sz (o1 # os)" "list_all (cmd_ok L c) (o1 # os)" "layout_ok L" "length os < n"
  shows "size_loop L c sz n o1 st = cret (foldl (size_step L) st (segments L c (o1 # os) (z_tiu st) (z_tdma st)))"
  using assms
proof (induction os arbitrary: o1 n st)
  case Nil
  then obtain k where "n = Suc k" by (cases n) auto
  with size_loop_step[of L c sz o1 "[]" k st] Nil show ?case by (simp add: Let_def)
next
  case (Cons o2 os)
  then obtain k where k: "n = Suc k" "length os < k" by (cases n) auto
  have c2: "chained L c sz (o2 # os)" using chained_ConsD[OF Cons.prems(1)] by blast
  note step = size_loop_step[OF Cons.prems(1), of k st] and IH = Cons.IH[OF c2 _ Cons.prems(3) k(2)]
  let ?t = "if cmd_engine L c o1 = cl_tiu L then Suc (z_tiu st) else z_tiu st"
  let ?d = "if cmd_engine L c o1 = cl_tdma L then Suc (z_tdma st) else z_tdma st"
  show ?case
  proof (cases "cmd_engine L c o1 = cl_cpu L \<or> is_sync L c o1")
    case True
    then have "size_loop L c sz n o1 st = size_loop L c sz k o2 (size_step L st (?t, ?d))"
      using step Cons.prems by (simp add: k(1))
    moreover have "segments L c (o1 # o2 # os) (z_tiu st) (z_tdma st) = (?t, ?d) # segments L c (o2 # os) 0 0"
      using True by (auto simp: Let_def)
    ultimately show ?thesis using IH[of "size_step L st (?t, ?d)"] Cons.prems by (simp del: segments.simps)
  next
    case False
    then have "size_loop L c sz n o1 st = size_loop L c sz k o2 (st\<lparr>z_tiu := ?t, z_tdma := ?d\<rparr>)"
      using step Cons.prems by (simp add: k(1))
    moreover have "segments L c (o1 # o2 # os) (z_tiu st) (z_tdma st) = segments L c (o2 # os) ?t ?d"
      using False by (auto simp: Let_def)
    ultimately show ?thesis using IH[of "st\<lparr>z_tiu := ?t, z_tdma := ?d\<rparr>"] Cons.prems by (simp add: foldl_size_step del: segments.simps)
  qed
qed

lemma size_steps:
  fixes st :: size_state
  shows "z_cpu (foldl (size_step L) st sgs) = z_cpu st + length sgs"
    "z_bd_size (foldl (size_step L) st sgs) = foldl (add_bd L) (z_bd_size st) (map fst sgs)"
    "z_tdma_desc_num (foldl (size_step L) st sgs) = z_tdma_desc_num st + sum_list (map snd sgs)"
  by (induction sgs arbitrary: st) (simp_all add: size_step_def size_flush_def)

lemma chained_length:
  assumes "chained L c sz (o1 # os)" shows "length os \<le> sz - o1"
  using assms
proof (induction os arbitrary: o1)
  case (Cons o2 os)
  then have "chained L c sz (o2 # os)" "o1 < o2" "o2 < sz" by (auto simp: next_off_def sizeof_cmd_hdr_def)
  with Cons.IH[of o2] show ?case by simp
qed simp

definition seg_size :: "cmd_layout \<Rightarrow> (nat \<times> nat) list \<Rightarrow> nat" where
  "seg_size L sgs = dma_size L (length sgs) (foldl (add_bd L) 0 (map fst sgs)) (sum_list (map snd sgs))"

lemma traverse_start_ok: "chained L c sz (0 # os) \<Longrightarrow> traverse_start L c = cret 0"
  using chained_ConsD[of L c sz 0 os] by (simp add: traverse_start_def hdr_at_ok) (simp add: hdr_ok_def)

lemma dmabuf_size_ok:
  assumes "chained L c sz (0 # os)" "list_all (cmd_ok L c) (0 # os)" "layout_ok L"
  shows "\<exists>pmu. dmabuf_size L c sz = Inr (BM_SUCCESS, seg_size L (segments L c (0 # os) 0 0), pmu)"
proof -
  have "length os < Suc sz" using chained_length[OF assms(1)] by simp
  note run = size_loop_run[OF assms this]
  show ?thesis
    by (simp add: dmabuf_size_def traverse_start_ok[OF assms(1)] run size_steps seg_size_def del: segments.simps size_loop.simps)
      (simp add: cret_def size_steps del: segments.simps)
qed

section \<open>Header and segment descriptors\<close>

text \<open>Memory that changes only inside a set of addresses.\<close>

definition only_in :: "u64 set \<Rightarrow> ram \<Rightarrow> ram \<Rightarrow> bool" where
  "only_in A r r' \<longleftrightarrow> (\<forall>x. x \<notin> A \<longrightarrow> r' x = r x)"

lemma only_in_refl [simp]: "only_in A r r"
  by (simp add: only_in_def)

lemma only_in_trans: "only_in A r r' \<Longrightarrow> only_in B r' r'' \<Longrightarrow> A \<union> B \<subseteq> C \<Longrightarrow> only_in C r r''"
  by (metis Un_iff only_in_def subset_iff)

lemma only_in_mono: "only_in A r r' \<Longrightarrow> A \<subseteq> B \<Longrightarrow> only_in B r r'"
  by (auto simp: only_in_def)

lemma only_in_store: "length bs \<le> n \<Longrightarrow> only_in {a..<a + n} r (store_bytes a bs r)"
  by (auto simp: only_in_def intro!: store_bytes_other)

lemma load_u32_only_in: "only_in A r r' \<Longrightarrow> A \<inter> {a..<a + 4} = {} \<Longrightarrow> load_u32 a r' = load_u32 a r"
proof -
  assume "only_in A r r'" "A \<inter> {a..<a + 4} = {}"
  then have "r' x = r x" if "a \<le> x" "x < a + 4" for x using that by (auto simp: only_in_def disjoint_iff)
  then show ?thesis by (simp add: load_u32_def)
qed

text \<open>The counts in consecutive descriptors.\<close>

fun arms_at :: "cmd_layout \<Rightarrow> u64 \<Rightarrow> (nat \<times> nat) list \<Rightarrow> ram \<Rightarrow> bool" where
  "arms_at L a [] r \<longleftrightarrow> True"
| "arms_at L a (sg # sgs) r \<longleftrightarrow> load_u32 (a + 4) r = fst sg mod 2 ^ 32 \<and> load_u32 (a + 8) r = snd sg mod 2 ^ 32 \<and>
     arms_at L (a + sizeof_cpu_desc L) sgs r"

lemma arms_at_only_in:
  assumes "arms_at L a sgs r" "only_in A r r'" "A \<inter> {a..<a + length sgs * sizeof_cpu_desc L} = {}"
  shows "arms_at L a sgs r'"
  using assms(1,3)
proof (induction sgs arbitrary: a)
  case (Cons sg sgs)
  have "{a..<a + sizeof_cpu_desc L} \<union> {a + sizeof_cpu_desc L..<a + sizeof_cpu_desc L + length sgs * sizeof_cpu_desc L} \<subseteq> - A"
    using Cons.prems(2) by fastforce
  then have A: "A \<inter> {a..<a + sizeof_cpu_desc L} = {}" "A \<inter> {a + sizeof_cpu_desc L..<a + sizeof_cpu_desc L + length sgs * sizeof_cpu_desc L} = {}"
    by blast+
  have "12 \<le> sizeof_cpu_desc L" by (simp add: sizeof_cpu_desc_def)
  then have "{a + 4..<a + 4 + 4} \<subseteq> {a..<a + sizeof_cpu_desc L}" "{a + 8..<a + 8 + 4} \<subseteq> {a..<a + sizeof_cpu_desc L}" by auto
  with A(1) have "A \<inter> {a + 4..<a + 4 + 4} = {}" "A \<inter> {a + 8..<a + 8 + 4} = {}" by blast+
  from this[THEN load_u32_only_in[OF assms(2)]] Cons A(2) show ?case by simp
qed simp

lemma store_bytes_append: "store_bytes a (xs @ ys) r = store_bytes (a + length xs) ys (store_bytes a xs r)"
  by (auto simp: store_bytes_def fun_eq_iff nth_append add.assoc[symmetric])

lemma load_u32_field:
  assumes "length xs = k" shows "load_u32 (a + k) (store_bytes a (xs @ u32_bytes v @ ys) r) = v mod 2 ^ 32"
proof -
  have "load_u32 (a + k) (store_bytes (a + k + 4) ys r') = load_u32 (a + k) r'" for r' by (rule load_u32_other) simp
  then show ?thesis using assms by (simp add: store_bytes_append load_store_u32)
qed

text \<open>What both kinds of descriptor have in common.\<close>

definition desc_of :: "cmd_layout \<Rightarrow> byte list \<Rightarrow> nat \<Rightarrow> nat \<Rightarrow> bool" where
  "desc_of L bs t d \<longleftrightarrow> length bs = sizeof_cpu_desc L \<and> (\<exists>xs ys. length xs = 4 \<and> bs = xs @ u32_bytes t @ u32_bytes d @ ys)"

lemma desc_ofI: "length xs = 4 \<Longrightarrow> length ys + 12 = sizeof_cpu_desc L \<Longrightarrow> desc_of L (xs @ u32_bytes t @ u32_bytes d @ ys) t d"
  by (auto simp: desc_of_def)

lemma desc_of_sync: "desc_of L (sync_desc L t d) t d"
  unfolding sync_desc_def by (rule desc_ofI) (auto simp: sizeof_cpu_desc_def)

lemma desc_of_cpu: "sizeof_cpu_desc L \<le> length body \<Longrightarrow> desc_of L (cpu_desc L body t d) t d"
  unfolding cpu_desc_def by (rule desc_ofI) (auto simp: sizeof_cpu_desc_def)

lemma arms_at_desc:
  assumes "desc_of L bs t d"
  shows "load_u32 (a + 4) (store_bytes a bs r) = t mod 2 ^ 32" "load_u32 (a + 8) (store_bytes a bs r) = d mod 2 ^ 32"
proof -
  obtain xs ys where "length xs = 4" "bs = xs @ u32_bytes t @ u32_bytes d @ ys" using assms by (auto simp: desc_of_def)
  then show "load_u32 (a + 4) (store_bytes a bs r) = t mod 2 ^ 32" "load_u32 (a + 8) (store_bytes a bs r) = d mod 2 ^ 32"
    using load_u32_field[of xs 4] load_u32_field[of "xs @ u32_bytes t" 8] by simp_all
qed

lemma fill_loop_step:
  fixes st :: fill_state and dma :: u64
  assumes "chained L c sz (o1 # os)" "cmd_ok L c o1" "layout_ok L"
  defines "t \<equiv> (if cmd_engine L c o1 = cl_tiu L then Suc (f_tiu st) else f_tiu st)"
    and "d \<equiv> (if cmd_engine L c o1 = cl_tdma L then Suc (f_tdma st) else f_tdma st)"
    and "nt \<equiv> (if cmd_engine L c o1 = cl_tiu L then Suc (f_nums_tiu st) else f_nums_tiu st)"
    and "nd \<equiv> (if cmd_engine L c o1 = cl_tdma L then Suc (f_nums_tdma st) else f_nums_tdma st)"
  defines "st1 \<equiv> st\<lparr>f_tiu := t, f_tdma := d, f_nums_tiu := nt, f_nums_tdma := nd\<rparr>"
  defines "st2 \<equiv> (if cmd_engine L c o1 = cl_cpu L \<or> is_sync L c o1 \<or> os = [] then fill_flush L (st1\<lparr>f_nums_cpu := Suc (f_nums_cpu st)\<rparr>) else st1)"
  defines "bs \<equiv> (if cmd_engine L c o1 = cl_cpu L then cpu_desc L (body_at L c o1) t d else sync_desc L t d)"
  defines "r2 \<equiv> \<lambda>r. (if cmd_engine L c o1 = cl_cpu L \<or> is_sync L c o1 \<or> os = []
     then store_bytes (dma + SIZEOF_DMA_HDR + f_nums_cpu st * sizeof_cpu_desc L) bs r else r)"
  shows "desc_of L bs t d"
    and "fill_loop L c sz dma (Suc n) o1 st r = (case os of [] \<Rightarrow> Inr (st2, r2 r) | o2 # _ \<Rightarrow> fill_loop L c sz dma n o2 st2 (r2 r))"
proof -
  have h: "hdr_at L c o1 = cret (cmd_hdr L c o1)" using assms(1) by (simp add: hdr_at_ok chained_ConsD)
  have dist: "cl_tiu L \<noteq> cl_tdma L" "cl_tiu L \<noteq> cl_cpu L" "cl_tdma L \<noteq> cl_cpu L" using assms(3) by (auto simp: layout_ok_def)
  have body: "cmd_engine L c o1 = cl_cpu L \<Longrightarrow> sizeof_cpu_desc L \<le> length (body_at L c o1)"
    using assms(2) dist by (auto simp: cmd_ok_def Let_def)
  then show "desc_of L bs t d" by (simp add: bs_def desc_of_sync desc_of_cpu)
  note defs = h Let_def traverse_next_ok[OF assms(1)] st2_def st1_def t_def d_def nt_def nd_def bs_def r2_def fill_count_def put_arm_def
    put_def cbind_def cupd_def
  consider (cpu) "cmd_engine L c o1 = cl_cpu L" | (tiu) "cmd_engine L c o1 = cl_tiu L" | (tdma) "cmd_engine L c o1 = cl_tdma L"
    using cmd_okD[OF assms(2,3)] by blast
  then show "fill_loop L c sz dma (Suc n) o1 st r = (case os of [] \<Rightarrow> Inr (st2, r2 r) | o2 # _ \<Rightarrow> fill_loop L c sz dma n o2 st2 (r2 r))"
  proof cases
    case cpu
    with body have "\<not> length (body_at L c o1) < sizeof_cpu_desc L" by simp
    then show ?thesis using cpu cmd_okD[OF assms(2,3)] dist by (cases os) (simp_all add: defs cret_def)
  next
    case tiu
    note e = ends_segment_ok[OF assms(1), unfolded tiu, OF disjI1[OF HOL.refl]]
    show ?thesis using tiu cmd_okD[OF assms(2,3)] dist by (cases os) (simp_all add: defs e cret_def)
  next
    case tdma
    note e = ends_segment_ok[OF assms(1), unfolded tdma, OF disjI2[OF HOL.refl]]
    show ?thesis using tdma cmd_okD[OF assms(2,3)] dist by (cases os) (simp_all add: defs e cret_def)
  qed
qed

abbreviation arm_addr :: "cmd_layout \<Rightarrow> u64 \<Rightarrow> nat \<Rightarrow> u64" where
  "arm_addr L dma k \<equiv> dma + SIZEOF_DMA_HDR + k * sizeof_cpu_desc L"

definition filled :: "cmd_layout \<Rightarrow> u64 \<Rightarrow> (nat \<times> nat) list \<Rightarrow> fill_state \<Rightarrow> ram \<Rightarrow> fill_state \<Rightarrow> ram \<Rightarrow> bool" where
  "filled L dma sgs st r st' r' \<longleftrightarrow> f_nums_cpu st' = f_nums_cpu st + length sgs \<and>
     f_size_tiu st' = foldl (add_bd L) (f_size_tiu st) (map fst sgs) \<and>
     f_nums_tdma st' + f_tdma st = f_nums_tdma st + sum_list (map snd sgs) \<and>
     arms_at L (arm_addr L dma (f_nums_cpu st)) sgs r' \<and>
     only_in {arm_addr L dma (f_nums_cpu st)..<arm_addr L dma (f_nums_cpu st + length sgs)} r r'"

lemma filled_Nil: "f_tdma st = 0 \<Longrightarrow> filled L dma [] st r st r"
  by (simp add: filled_def)

lemma filled_Cons:
  fixes st st1 :: fill_state
  assumes "desc_of L bs t d" "r1 = store_bytes (arm_addr L dma (f_nums_cpu st)) bs r"
    and "f_nums_cpu st1 = Suc (f_nums_cpu st)" "f_size_tiu st1 = add_bd L (f_size_tiu st) t" "f_tdma st1 = 0"
    and "f_nums_tdma st1 + f_tdma st = f_nums_tdma st + d"
    and "filled L dma sgs st1 r1 st' r'"
  shows "filled L dma ((t, d) # sgs) st r st' r'"
proof -
  let ?a = "arm_addr L dma (f_nums_cpu st)" and ?D = "sizeof_cpu_desc L"
  have D: "12 \<le> ?D" by (simp add: sizeof_cpu_desc_def)
  have o1: "only_in {?a..<?a + ?D} r r1" using assms(1,2) by (auto simp: desc_of_def intro: only_in_store)
  have o2: "only_in {?a + ?D..<?a + ?D + length sgs * ?D} r1 r'" "arms_at L (?a + ?D) sgs r'"
    using assms(3,7) by (auto simp: filled_def algebra_simps)
  have "load_u32 (?a + 4) r' = load_u32 (?a + 4) r1" "load_u32 (?a + 8) r' = load_u32 (?a + 8) r1"
    using D by (auto intro!: load_u32_only_in[OF o2(1)])
  then have "arms_at L ?a ((t, d) # sgs) r'" using arms_at_desc[OF assms(1)] o2(2) by (simp add: assms(2))
  moreover have "only_in {?a..<?a + Suc (length sgs) * ?D} r r'" by (rule only_in_trans[OF o1 o2(1)]) auto
  ultimately show ?thesis using assms(3-7) by (auto simp: filled_def algebra_simps)
qed

lemma filled_later:
  fixes st st1 :: fill_state
  assumes "filled L dma sgs st1 r st' r'" "f_nums_cpu st1 = f_nums_cpu st" "f_size_tiu st1 = f_size_tiu st"
    "f_nums_tdma st1 + f_tdma st = f_nums_tdma st + f_tdma st1"
  shows "filled L dma sgs st r st' r'"
  using assms by (auto simp: filled_def)

text \<open>A command that ends a segment and one that does not.\<close>

lemma fill_loop_end:
  fixes st :: fill_state
  assumes "chained L c sz (o1 # os)" "cmd_ok L c o1" "layout_ok L" "cmd_engine L c o1 = cl_cpu L \<or> is_sync L c o1 \<or> os = []"
  shows "\<exists>st1 r1. fill_loop L c sz dma (Suc n) o1 st r = (case os of [] \<Rightarrow> Inr (st1, r1) | o2 # _ \<Rightarrow> fill_loop L c sz dma n o2 st1 r1) \<and>
     f_tiu st1 = 0 \<and> f_tdma st1 = 0 \<and> (\<forall>sgs st' r'. filled L dma sgs st1 r1 st' r' \<longrightarrow>
       filled L dma ((if cmd_engine L c o1 = cl_tiu L then Suc (f_tiu st) else f_tiu st,
                      if cmd_engine L c o1 = cl_tdma L then Suc (f_tdma st) else f_tdma st) # sgs) st r st' r')"
  unfolding fill_loop_step(2)[OF assms(1-3)] if_P[OF assms(4)]
  by (rule exI, rule exI, rule conjI, rule HOL.refl)
    (intro conjI allI impI, simp add: fill_flush_def, simp add: fill_flush_def,
      erule filled_Cons[OF fill_loop_step(1)[OF assms(1-3)] HOL.refl, rotated -1], simp_all add: fill_flush_def)

lemma fill_loop_more:
  fixes st :: fill_state
  assumes "chained L c sz (o1 # o2 # os)" "cmd_ok L c o1" "layout_ok L" "\<not> (cmd_engine L c o1 = cl_cpu L \<or> is_sync L c o1)"
  shows "\<exists>st1. fill_loop L c sz dma (Suc n) o1 st r = fill_loop L c sz dma n o2 st1 r \<and>
     f_tiu st1 = (if cmd_engine L c o1 = cl_tiu L then Suc (f_tiu st) else f_tiu st) \<and>
     f_tdma st1 = (if cmd_engine L c o1 = cl_tdma L then Suc (f_tdma st) else f_tdma st) \<and>
     (\<forall>sgs st' r'. filled L dma sgs st1 r st' r' \<longrightarrow> filled L dma sgs st r st' r')"
proof -
  have "\<not> (cmd_engine L c o1 = cl_cpu L \<or> is_sync L c o1 \<or> o2 # os = [])" using assms(4) by simp
  then show ?thesis unfolding fill_loop_step(2)[OF assms(1-3)]
    by (simp only: if_False list.case) (rule exI, rule conjI, rule HOL.refl, auto elim!: filled_later)
qed

lemma fill_loop_run:
  assumes "chained L c sz (o1 # os)" "list_all (cmd_ok L c) (o1 # os)" "layout_ok L" "length os < n"
  shows "\<exists>st' r'. fill_loop L c sz dma n o1 st r = Inr (st', r') \<and>
     filled L dma (segments L c (o1 # os) (f_tiu st) (f_tdma st)) st r st' r'"
  using assms
proof (induction os arbitrary: o1 n st r)
  case Nil
  then obtain k where k: "n = Suc k" by (cases n) auto
  from fill_loop_end[of L c sz o1 "[]" dma k st r] Nil obtain st1 r1 where
    "fill_loop L c sz dma n o1 st r = Inr (st1, r1)" "f_tdma st1 = 0"
    "\<forall>sgs st' r'. filled L dma sgs st1 r1 st' r' \<longrightarrow> filled L dma ((if cmd_engine L c o1 = cl_tiu L then Suc (f_tiu st) else f_tiu st,
        if cmd_engine L c o1 = cl_tdma L then Suc (f_tdma st) else f_tdma st) # sgs) st r st' r'"
    unfolding k by auto
  then show ?case using filled_Nil[of st1 L dma r1] by (auto simp: Let_def simp del: fill_loop.simps)
next
  case (Cons o2 os)
  then obtain k where k: "n = Suc k" "length os < k" by (cases n) auto
  have c2: "chained L c sz (o2 # os)" using chained_ConsD[OF Cons.prems(1)] by blast
  have ok: "cmd_ok L c o1" "list_all (cmd_ok L c) (o2 # os)" using Cons.prems(2) by auto
  note IH = Cons.IH[OF c2 ok(2) Cons.prems(3) k(2)]
  let ?t = "if cmd_engine L c o1 = cl_tiu L then Suc (f_tiu st) else f_tiu st"
  let ?d = "if cmd_engine L c o1 = cl_tdma L then Suc (f_tdma st) else f_tdma st"
  show ?case
  proof (cases "cmd_engine L c o1 = cl_cpu L \<or> is_sync L c o1")
    case True
    then have "cmd_engine L c o1 = cl_cpu L \<or> is_sync L c o1 \<or> o2 # os = []" by blast
    from fill_loop_end[OF Cons.prems(1) ok(1) Cons.prems(3) this, of dma k st r] obtain st1 r1 where
      1: "fill_loop L c sz dma n o1 st r = fill_loop L c sz dma k o2 st1 r1" "f_tiu st1 = 0" "f_tdma st1 = 0"
        "\<forall>sgs st' r'. filled L dma sgs st1 r1 st' r' \<longrightarrow> filled L dma ((?t, ?d) # sgs) st r st' r'"
      unfolding k(1) list.case by blast
    have "segments L c (o1 # o2 # os) (f_tiu st) (f_tdma st) = (?t, ?d) # segments L c (o2 # os) 0 0"
      using True by (auto simp: Let_def)
    with IH[of st1 r1, unfolded 1(2,3)] 1(4) show ?thesis unfolding 1(1) by (fastforce simp del: segments.simps fill_loop.simps)
  next
    case False
    from fill_loop_more[OF Cons.prems(1) ok(1) Cons.prems(3) False, of dma k st r] obtain st1 where
      1: "fill_loop L c sz dma n o1 st r = fill_loop L c sz dma k o2 st1 r" "f_tiu st1 = ?t" "f_tdma st1 = ?d"
        "\<forall>sgs st' r'. filled L dma sgs st1 r st' r' \<longrightarrow> filled L dma sgs st r st' r'"
      unfolding k(1) by blast
    have sg: "segments L c (o1 # o2 # os) (f_tiu st) (f_tdma st) = segments L c (o2 # os) ?t ?d"
      using False by (auto simp: Let_def)
    from IH[of st1 r, unfolded 1(2,3)] 1(4) show ?thesis unfolding 1(1) sg by blast
  qed
qed

section \<open>The commands of a segment\<close>

abbreviation engine_cmds :: "cmd_layout \<Rightarrow> byte list \<Rightarrow> nat list \<Rightarrow> nat list" where
  "engine_cmds L c os \<equiv> filter (\<lambda>off. cmd_engine L c off \<noteq> cl_cpu L) os"

abbreviation tiu_count :: "cmd_layout \<Rightarrow> byte list \<Rightarrow> nat list \<Rightarrow> nat" where
  "tiu_count L c os \<equiv> length (filter (\<lambda>off. cmd_engine L c off = cl_tiu L) os)"

text \<open>The counts of the segments divide the commands of the engines among them.\<close>

fun splits :: "cmd_layout \<Rightarrow> byte list \<Rightarrow> nat list \<Rightarrow> (nat \<times> nat) list \<Rightarrow> bool" where
  "splits L c es [] \<longleftrightarrow> True"
| "splits L c es (sg # sgs) \<longleftrightarrow> fst sg + snd sg \<le> length es \<and> tiu_count L c (take (fst sg + snd sg) es) = fst sg \<and>
     splits L c (drop (fst sg + snd sg) es) sgs"

lemma splits_segments:
  assumes "list_all (cmd_ok L c) os" "layout_ok L" "os \<noteq> []" "length es = t + d" "tiu_count L c es = t"
  shows "splits L c (es @ engine_cmds L c os) (segments L c os t d)"
  using assms(1,3-5)
proof (induction os arbitrary: es t d)
  case (Cons o1 os)
  have dist: "cl_tiu L \<noteq> cl_tdma L" "cl_tiu L \<noteq> cl_cpu L" "cl_tdma L \<noteq> cl_cpu L" using assms(2) by (auto simp: layout_ok_def)
  let ?t = "if cmd_engine L c o1 = cl_tiu L then Suc t else t" and ?d = "if cmd_engine L c o1 = cl_tdma L then Suc d else d"
  let ?es = "es @ engine_cmds L c [o1]"
  have eng: "cmd_engine L c o1 = cl_cpu L \<or> cmd_engine L c o1 = cl_tiu L \<or> cmd_engine L c o1 = cl_tdma L"
    using cmd_okD[of L c o1] Cons.prems(1) assms(2) by simp
  then have es: "length ?es = ?t + ?d" "tiu_count L c ?es = ?t" using Cons.prems(3,4) dist by auto
  have split: "es @ engine_cmds L c (o1 # os) = ?es @ engine_cmds L c os" by simp
  show ?case
  proof (cases "cmd_engine L c o1 = cl_cpu L \<or> is_sync L c o1 \<or> os = []")
    case True
    have "splits L c (engine_cmds L c os) (segments L c os 0 0)"
      using Cons.IH[of "[]" 0 0] Cons.prems(1) by (cases "os = []") simp_all
    then have "splits L c (?es @ engine_cmds L c os) ((?t, ?d) # segments L c os 0 0)" using es by simp
    moreover have "segments L c (o1 # os) t d = (?t, ?d) # segments L c os 0 0" using True by (auto simp: Let_def)
    ultimately show ?thesis unfolding split by (simp only:)
  next
    case False
    then have "segments L c (o1 # os) t d = segments L c os ?t ?d" by (auto simp: Let_def)
    then show ?thesis unfolding split using Cons.IH[OF _ _ es] Cons.prems(1) False by simp
  qed
qed simp

lemma length_reorder [simp]: "16 \<le> length reg \<Longrightarrow> length (reorder_bd_cmdbuf_reg reg) = length reg"
proof -
  have "length (foldl (\<lambda>b k. b[16 * k + 15 := or (b ! (16 * k + 15)) (of_nat (k * 16))]) (xs :: byte list) ks) = length xs" for xs ks
    by (induction ks arbitrary: xs) simp_all
  then show "16 \<le> length reg \<Longrightarrow> length (reorder_bd_cmdbuf_reg reg) = length reg"
    by (simp add: reorder_bd_cmdbuf_reg_def Let_def)
qed

lemma length_adjust_bd: "layout_ok L \<Longrightarrow> length reg = cl_bd_reg_bytes L \<Longrightarrow> length (adjust_desc_bd L e reg) = cl_bd_reg_bytes L"
  by (simp add: adjust_desc_bd_def layout_ok_def)

lemma align_to_dvd: "2 ^ b dvd align_to b x"
  by (simp add: align_to_def)

lemma align_to_ge: "x \<le> align_to b x"
proof -
  have "(x + 2 ^ b - 1) mod 2 ^ b < 2 ^ b" by simp
  moreover have "align_to b x + (x + 2 ^ b - 1) mod 2 ^ b = x + 2 ^ b - 1" unfolding align_to_def by (rule div_mult_mod_eq)
  ultimately show ?thesis by linarith
qed

lemma align_to_least: "x \<le> y \<Longrightarrow> 2 ^ b dvd y \<Longrightarrow> align_to b x \<le> y"
proof -
  assume "x \<le> y" "2 ^ b dvd y"
  then obtain k where k: "y = 2 ^ b * k" by blast
  have "(x + 2 ^ b - 1) div 2 ^ b \<le> ((2 ^ b - 1) + 2 ^ b * k) div 2 ^ b" using \<open>x \<le> y\<close> by (intro div_le_mono) (simp add: k)
  also have "\<dots> = k + (2 ^ b - 1) div 2 ^ b" by (rule div_mult_self2) simp
  also have "\<dots> = k" by simp
  finally show ?thesis by (simp add: align_to_def k mult.commute)
qed

lemma align_to_aligned: "2 ^ b dvd x \<Longrightarrow> align_to b x = x"
  by (simp add: align_to_ge align_to_least antisym)

text \<open>
  The loop takes exactly the commands that the counts of the segment name; the rest of the
  commands may still have CPU commands in front.
\<close>

definition taken :: "cmd_layout \<Rightarrow> byte list \<Rightarrow> nat list \<Rightarrow> nat \<Rightarrow> nat list \<Rightarrow> bool" where
  "taken L c os n os' \<longleftrightarrow> (\<exists>pre. os = pre @ os') \<and> engine_cmds L c os' = drop n (engine_cmds L c os)"

lemma taken_Cons: "taken L c os n os' \<Longrightarrow> taken L c (o1 # os) (if cmd_engine L c o1 = cl_cpu L then n else Suc n) os'"
  by (auto simp: taken_def)

lemma only_in_store2:
  "length bs \<le> n \<Longrightarrow> length bs' \<le> n \<Longrightarrow> only_in {a..<a + n} r (store_bytes a bs' (store_bytes a bs r))"
  using only_in_trans[OF only_in_store only_in_store, of bs n bs' n a a "{a..<a + n}"] by simp

lemma segment_tiu:
  assumes "layout_ok L" "chained L c sz (o1 # os)" "cmd_ok L c o1" "cmd_engine L c o1 = cl_tiu L"
  shows "\<exists>r1. segment_loop L c sz dma (Suc k) (Suc t) d (Some o1) to td r =
      segment_loop L c sz dma k t d (first_off os) (to + cl_bd_reg_bytes L) td r1 \<and>
    only_in {dma + to..<dma + to + cl_bd_reg_bytes L} r r1"
proof -
  have h: "hdr_at L c o1 = cret (cmd_hdr L c o1)" using assms(2) by (simp add: hdr_at_ok chained_ConsD)
  have dist: "cl_tiu L \<noteq> cl_tdma L" "cl_tiu L \<noteq> cl_cpu L" using assms(1) by (auto simp: layout_ok_def)
  let ?n = "cl_hdr_len L (cmd_hdr L c o1)"
  have n: "?n \<le> length (body_at L c o1)" "?n \<le> cl_bd_reg_bytes L" using assms(3,4) dist by (auto simp: cmd_ok_def Let_def)
  let ?r = "store_bytes (dma + to) (take ?n (body_at L c o1)) r"
  let ?r1 = "store_bytes (dma + to) (adjust_desc_bd L (t = 0) (load_bytes (dma + to) (cl_bd_reg_bytes L) ?r)) ?r"
  have "segment_loop L c sz dma (Suc k) (Suc t) d (Some o1) to td r =
      segment_loop L c sz dma k t d (first_off os) (to + cl_bd_reg_bytes L) td ?r1"
    using assms(4) n by (simp add: sub32_id h traverse_next_ok[OF assms(2)] copy_body_def put_def Let_def cbind_run[of "cupd _"] cupd_def)
  moreover have "only_in {dma + to..<dma + to + cl_bd_reg_bytes L} r ?r1"
    by (rule only_in_store2) (use n in \<open>simp_all add: length_adjust_bd[OF assms(1)] load_bytes_def\<close>)
  ultimately show ?thesis by blast
qed

lemma segment_tdma:
  assumes "layout_ok L" "chained L c sz (o1 # os)" "cmd_ok L c o1" "cmd_engine L c o1 = cl_tdma L" "2 ^ cl_tdma_bit L dvd td"
  shows "\<exists>r1. segment_loop L c sz dma (Suc k) t (Suc d) (Some o1) to td r =
      segment_loop L c sz dma k t d (first_off os) to (td + 2 ^ cl_tdma_bit L) r1 \<and>
    only_in {dma + td..<dma + td + 2 ^ cl_tdma_bit L} r r1"
proof -
  have h: "hdr_at L c o1 = cret (cmd_hdr L c o1)" using assms(2) by (simp add: hdr_at_ok chained_ConsD)
  have dist: "cl_tiu L \<noteq> cl_tdma L" "cl_tdma L \<noteq> cl_cpu L" using assms(1) by (auto simp: layout_ok_def)
  let ?n = "cl_hdr_len L (cmd_hdr L c o1)"
  have n: "?n \<le> length (body_at L c o1)" "?n \<le> 2 ^ cl_tdma_bit L" using assms(3,4) dist by (auto simp: cmd_ok_def Let_def)
  let ?r = "store_bytes (dma + td) (take ?n (body_at L c o1)) r"
  let ?r1 = "store_bytes (dma + td) (u32_bytes (adjust_desc_tdma L (d = 0) (load_u32 (dma + td) ?r))) ?r"
  have "segment_loop L c sz dma (Suc k) t (Suc d) (Some o1) to td r =
      segment_loop L c sz dma k t d (first_off os) to (td + 2 ^ cl_tdma_bit L) ?r1"
    using assms(4) n dist
    by (simp add: sub32_id h traverse_next_ok[OF assms(2)] copy_body_def put_def Let_def cbind_run[of "cupd _"] cupd_def align_to_aligned[OF assms(5)])
  moreover have "(2::nat) ^ 2 \<le> 2 ^ cl_tdma_bit L" using assms(1) by (intro power_increasing) (auto simp: layout_ok_def)
  then have "only_in {dma + td..<dma + td + 2 ^ cl_tdma_bit L} r ?r1" by (intro only_in_store2) (use n in simp_all)
  ultimately show ?thesis by blast
qed

text \<open>The part of the dma buffer that a segment's commands fill.\<close>

abbreviation engine_area :: "cmd_layout \<Rightarrow> u64 \<Rightarrow> nat \<Rightarrow> nat \<Rightarrow> nat \<Rightarrow> nat \<Rightarrow> u64 set" where
  "engine_area L dma t d to td \<equiv> {dma + to..<dma + to + t * cl_bd_reg_bytes L} \<union> {dma + td..<dma + td + d * 2 ^ cl_tdma_bit L}"

definition segment_done :: "cmd_layout \<Rightarrow> byte list \<Rightarrow> nat \<Rightarrow> u64 \<Rightarrow> nat \<Rightarrow> nat \<Rightarrow> nat \<Rightarrow> nat list \<Rightarrow> nat \<Rightarrow> nat \<Rightarrow> ram \<Rightarrow> bool" where
  "segment_done L c sz dma n t d os to td r \<longleftrightarrow> (\<exists>os' r'. segment_loop L c sz dma n t d (first_off os) to td r =
       Inr ((first_off os', to + t * cl_bd_reg_bytes L, td + d * 2 ^ cl_tdma_bit L), r') \<and> taken L c os (t + d) os' \<and>
     only_in (engine_area L dma t d to td) r r')"

lemma segment_done_step:
  assumes "segment_loop L c sz dma (Suc k) t d (Some o1) to td r = segment_loop L c sz dma k t' d' (first_off os) to' td' r1"
    "segment_done L c sz dma k t' d' os to' td' r1" "only_in A r r1"
    "A \<union> engine_area L dma t' d' to' td' \<subseteq> engine_area L dma t d to td"
    "t + d = (if cmd_engine L c o1 = cl_cpu L then t' + d' else Suc (t' + d'))"
    "to' + t' * cl_bd_reg_bytes L = to + t * cl_bd_reg_bytes L" "td' + d' * 2 ^ cl_tdma_bit L = td + d * 2 ^ cl_tdma_bit L"
  shows "segment_done L c sz dma (Suc k) t d (o1 # os) to td r"
proof -
  obtain os' r' where 2: "segment_loop L c sz dma k t' d' (first_off os) to' td' r1 =
       Inr ((first_off os', to' + t' * cl_bd_reg_bytes L, td' + d' * 2 ^ cl_tdma_bit L), r')" "taken L c os (t' + d') os'"
     "only_in (engine_area L dma t' d' to' td') r1 r'"
    using assms(2) unfolding segment_done_def by blast
  from only_in_trans[OF assms(3) 2(3) assms(4)] taken_Cons[OF 2(2), of o1] show ?thesis
    unfolding segment_done_def assms(5) list.case assms(1) 2(1) assms(6,7) by blast
qed

lemma segment_loop_run:
  assumes "layout_ok L" "os = [] \<or> chained L c sz os" "list_all (cmd_ok L c) os" "length os < n"
    "t + d \<le> length (engine_cmds L c os)" "tiu_count L c (take (t + d) (engine_cmds L c os)) = t" "2 ^ cl_tdma_bit L dvd td"
  shows "segment_done L c sz dma n t d os to td r"
  using assms(2-)
proof (induction os arbitrary: n t d to td r)
  case Nil
  then obtain k where k: "n = Suc k" by (cases n) auto
  have "t = 0" "d = 0" using Nil by simp_all
  then show ?case unfolding k segment_done_def by (intro exI[of _ "[]"] exI) (auto simp: cret_def taken_def)
next
  case (Cons o1 os n t d to td r)
  then obtain k where k: "n = Suc k" "length os < k" by (cases n) auto
  have dist: "cl_tiu L \<noteq> cl_tdma L" "cl_tiu L \<noteq> cl_cpu L" "cl_tdma L \<noteq> cl_cpu L" using assms(1) by (auto simp: layout_ok_def)
  have ch: "chained L c sz (o1 # os)" "os = [] \<or> chained L c sz os" using Cons.prems(1) chained_ConsD by blast+
  have h: "hdr_at L c o1 = cret (cmd_hdr L c o1)" using ch(1) by (simp add: hdr_at_ok chained_ConsD)
  have ok: "cmd_ok L c o1" "list_all (cmd_ok L c) os" using Cons.prems(2) by auto
  note IH = Cons.IH[OF ch(2) ok(2) k(2)]
  show ?case
  proof (cases "t = 0 \<and> d = 0")
    case True
    then show ?thesis unfolding k(1) segment_done_def by (intro exI[of _ "o1 # os"] exI) (auto simp: cret_def taken_def)
  next
    case False
    consider (cpu) "cmd_engine L c o1 = cl_cpu L" | (tiu) "cmd_engine L c o1 = cl_tiu L" | (tdma) "cmd_engine L c o1 = cl_tdma L"
      using cmd_okD[OF ok(1) assms(1)] by blast
    then show ?thesis unfolding k(1)
    proof cases
      case cpu
      have "segment_loop L c sz dma (Suc k) t d (Some o1) to td = segment_loop L c sz dma k t d (first_off os) to td"
        using False cpu dist by (auto simp: h traverse_next_ok[OF ch(1)])
      from segment_done_step[OF this[THEN fun_cong] IH only_in_refl[of "{}"]] cpu Cons.prems(4-)
      show "segment_done L c sz dma (Suc k) t d (o1 # os) to td r" by simp
    next
      case tiu
      then obtain u where u: "t = Suc u" "tiu_count L c (take (u + d) (engine_cmds L c os)) = u" "u + d \<le> length (engine_cmds L c os)"
        using False Cons.prems(4,5) dist by (cases t) (auto simp: take_Cons split: nat.splits)
      from segment_tiu[OF assms(1) ch(1) ok(1) tiu, of dma k u d to td r] obtain r1 where
        1: "segment_loop L c sz dma (Suc k) (Suc u) d (Some o1) to td r = segment_loop L c sz dma k u d (first_off os) (to + cl_bd_reg_bytes L) td r1"
          "only_in {dma + to..<dma + to + cl_bd_reg_bytes L} r r1" by blast
      show "segment_done L c sz dma (Suc k) t d (o1 # os) to td r" unfolding u(1)
        by (rule segment_done_step[OF 1(1) IH[OF u(3,2) Cons.prems(6)] 1(2)]) (use tiu dist in auto)
    next
      case tdma
      then obtain e where e: "d = Suc e"
        using False Cons.prems(5) dist length_filter_le[of "\<lambda>off. cmd_engine L c off = cl_tiu L" "take (t - 1) (engine_cmds L c os)"]
        by (cases d) (auto simp: take_Cons split: nat.splits)
      have 0: "tiu_count L c (take (t + e) (engine_cmds L c os)) = t" "t + e \<le> length (engine_cmds L c os)"
        using tdma Cons.prems(4,5) dist by (simp_all add: e)
      from segment_tdma[OF assms(1) ch(1) ok(1) tdma Cons.prems(6), of dma k t e to r] obtain r1 where
        1: "segment_loop L c sz dma (Suc k) t (Suc e) (Some o1) to td r = segment_loop L c sz dma k t e (first_off os) to (td + 2 ^ cl_tdma_bit L) r1"
          "only_in {dma + td..<dma + td + 2 ^ cl_tdma_bit L} r r1" by blast
      have "2 ^ cl_tdma_bit L dvd td + 2 ^ cl_tdma_bit L" using Cons.prems(6) by simp
      then show "segment_done L c sz dma (Suc k) t d (o1 # os) to td r" unfolding e
        by (intro segment_done_step[OF 1(1) IH[OF 0(2,1)] 1(2)]) (use tdma dist in auto)
    qed
  qed
qed

section \<open>The segments\<close>

definition end_of_tiu :: "cmd_layout \<Rightarrow> nat \<Rightarrow> nat \<Rightarrow> nat" where
  "end_of_tiu L t to = (if t = 0 then to else align_to (cl_bdc_bit L) to + t * cl_bd_reg_bytes L + BD_EOD_PADDING_BYTES)"

lemma end_of_tiu_ge: "to \<le> end_of_tiu L t to"
  using align_to_ge[of to "cl_bdc_bit L"] by (simp add: end_of_tiu_def)

lemma end_of_tiu_bound:
  assumes "align_to (cl_bdc_bit L) to \<le> T + b" "2 ^ cl_bdc_bit L dvd T"
  shows "align_to (cl_bdc_bit L) (end_of_tiu L t to) \<le> T + add_bd L b t"
proof (cases "t = 0")
  case False
  have "end_of_tiu L t to \<le> T + (b + t * cl_bd_reg_bytes L + BD_EOD_PADDING_BYTES)" using assms(1) False by (simp add: end_of_tiu_def)
  also have "\<dots> \<le> T + add_bd L b t" using align_to_ge False by (simp add: add_bd_def)
  finally show ?thesis by (rule align_to_least) (use assms(2) False align_to_dvd in \<open>simp add: add_bd_def\<close>)
qed (use assms(1) in \<open>simp add: end_of_tiu_def add_bd_def\<close>)

lemma foldl_add_bd_ge: "b \<le> foldl (add_bd L) b ts"
proof (induction ts arbitrary: b)
  case (Cons t ts)
  have "b \<le> add_bd L b t" using align_to_ge[of "b + t * cl_bd_reg_bytes L + BD_EOD_PADDING_BYTES" "cl_bdc_bit L"] by (simp add: add_bd_def)
  also have "\<dots> \<le> foldl (add_bd L) b (t # ts)" using Cons by simp
  finally show ?case .
qed simp

lemma arm_step:
  assumes "layout_ok L" "os = [] \<or> chained L c sz os" "list_all (cmd_ok L c) os" "length os < Suc (Suc sz)"
    "t + d \<le> length (engine_cmds L c os)" "tiu_count L c (take (t + d) (engine_cmds L c os)) = t" "2 ^ cl_tdma_bit L dvd td"
    and counts: "load_u32 (arm + 4) r = t" "load_u32 (arm + 8) r = d" "t < 2 ^ 16" "d < 2 ^ 16"
    and places: "arm + sizeof_cpu_desc L \<le> dma + to" "to \<le> td"
  shows "\<exists>os' r'. arm_loop L c sz dma (Suc k) arm (first_off os) to td r =
      arm_loop L c sz dma k (arm + sizeof_cpu_desc L) (first_off os') (end_of_tiu L t to) (td + d * 2 ^ cl_tdma_bit L) r' \<and>
    taken L c os (t + d) os' \<and> load_u32 (arm + 4) r' = t \<and> load_u32 (arm + 8) r' = d \<and>
    only_in ({arm + 12..<arm + 20} \<union> {dma + to..<dma + end_of_tiu L t to} \<union> {dma + td..<dma + td + d * 2 ^ cl_tdma_bit L}) r r'"
proof -
  define to1 where "to1 = (if t \<noteq> 0 then align_to (cl_bdc_bit L) to else to)"
  define ra where "ra = (if t \<noteq> 0 then store_bytes (arm + 12) (u32_bytes to1) r else r)"
  define rb where "rb = (if d \<noteq> 0 then store_bytes (arm + 16) (u32_bytes td) ra else ra)"
  have td: "align_to (cl_tdma_bit L) td = td" by (rule align_to_aligned) (rule assms(7))
  have to1: "to \<le> to1" using align_to_ge by (simp add: to1_def)
  have D: "20 \<le> sizeof_cpu_desc L" by (simp add: sizeof_cpu_desc_def)
  obtain os' rc where seg: "segment_loop L c sz dma (Suc (Suc sz)) t d (first_off os) to1 td rb =
       Inr ((first_off os', to1 + t * cl_bd_reg_bytes L, td + d * 2 ^ cl_tdma_bit L), rc)" "taken L c os (t + d) os'"
     "only_in (engine_area L dma t d to1 td) rb rc"
    using segment_loop_run[OF assms(1-7), of dma to1 rb] unfolding segment_done_def by blast
  define rd where "rd = (if t \<noteq> 0 then store_bytes (dma + (to1 + t * cl_bd_reg_bytes L)) (replicate BD_EOD_PADDING_BYTES 0) rc else rc)"
  have oa: "only_in {arm + 12..<arm + 12 + 4} r ra" using only_in_store[of "u32_bytes to1" 4 "arm + 12" r] by (simp add: ra_def)
  have ob: "only_in {arm + 16..<arm + 16 + 4} ra rb" using only_in_store[of "u32_bytes td" 4 "arm + 16" ra] by (simp add: rb_def)
  have oab: "only_in {arm + 12..<arm + 20} r rb" by (rule only_in_trans[OF oa ob]) auto
  let ?A = "{arm + 12..<arm + 20} \<union> {dma + to..<dma + end_of_tiu L t to} \<union> {dma + td..<dma + td + d * 2 ^ cl_tdma_bit L}"
  have oc: "only_in ?A r rc" by (rule only_in_trans[OF oab seg(3)]) (use to1 in \<open>auto simp: to1_def end_of_tiu_def split: if_splits\<close>)
  have od: "only_in ?A r rd"
  proof (cases "t = 0")
    case False
    have "only_in {dma + (to1 + t * cl_bd_reg_bytes L)..<dma + (to1 + t * cl_bd_reg_bytes L) + BD_EOD_PADDING_BYTES} rc rd"
      using False by (simp add: rd_def only_in_store)
    then show ?thesis by (rule only_in_trans[OF oc]) (use False to1 in \<open>auto simp: to1_def end_of_tiu_def\<close>)
  qed (use oc in \<open>simp add: rd_def\<close>)
  have again: "load_u32 (arm + 4) r' = t \<and> load_u32 (arm + 8) r' = d" if "only_in ?A r r'" for r'
    using D places by (auto simp: counts(1,2)[symmetric] intro!: load_u32_only_in[OF that])
  have "arm_loop L c sz dma (Suc k) arm (first_off os) to td r =
      arm_loop L c sz dma k (arm + sizeof_cpu_desc L) (first_off os') (end_of_tiu L t to) (td + d * 2 ^ cl_tdma_bit L) rd"
  proof -
    have m: "t mod 2 ^ 16 = t" "d mod 2 ^ 16 = d" using counts(3,4) by simp_all
    have e: "end_of_tiu L t to = (if t \<noteq> 0 then to1 + t * cl_bd_reg_bytes L + BD_EOD_PADDING_BYTES else to1 + t * cl_bd_reg_bytes L)"
      by (simp add: end_of_tiu_def to1_def)
    show ?thesis
      unfolding arm_loop.simps cbind_cget counts(1,2) m prod.case Let_def to1_def[symmetric] td if_cancel put_if ra_def[symmetric] rb_def[symmetric] 
        cbind_run[where m = "segment_loop L c sz dma (Suc (Suc sz)) t d (first_off os) to1 td" and s = rb, OF seg(1)]
      unfolding again[OF oc, THEN conjunct1] m put_if rd_def[symmetric] e ..
  qed
  with seg(2) od again[OF od] show ?thesis by blast
qed

text \<open>A segment whose counts fit the fields that the engines are told.\<close>

definition seg_fits :: "nat \<times> nat \<Rightarrow> bool" where
  "seg_fits sg \<longleftrightarrow> fst sg < 2 ^ 16 \<and> snd sg < 2 ^ 16"

lemma chained_suffix: "chained L c sz (pre @ os) \<Longrightarrow> os = [] \<or> chained L c sz os"
  by (induction pre) (auto dest: chained_ConsD)

lemma arm_loop_run:
  assumes "layout_ok L" "os = [] \<or> chained L c sz os" "list_all (cmd_ok L c) os" "length os < Suc (Suc sz)"
    "splits L c (engine_cmds L c os) sgs" "list_all seg_fits sgs" "arms_at L arm sgs r" "arm + length sgs * sizeof_cpu_desc L \<le> dma + to"
    "align_to (cl_bdc_bit L) to \<le> T + b" "2 ^ cl_bdc_bit L dvd T" "T + foldl (add_bd L) b (map fst sgs) \<le> td" "2 ^ cl_tdma_bit L dvd td"
  shows "\<exists>r'. arm_loop L c sz dma (length sgs) arm (first_off os) to td r = Inr ((), r') \<and> arms_at L arm sgs r' \<and>
    only_in ({arm + 12..<arm + length sgs * sizeof_cpu_desc L} \<union> {dma + to..<dma + td + sum_list (map snd sgs) * 2 ^ cl_tdma_bit L}) r r'"
  using assms(2-)
proof (induction sgs arbitrary: os arm to td b r)
  case Nil
  then show ?case by (simp add: cret_def)
next
  case (Cons sg sgs)
  obtain t d where sg: "sg = (t, d)" by (cases sg)
  let ?D = "sizeof_cpu_desc L"
  have D: "20 \<le> ?D" by (simp add: sizeof_cpu_desc_def)
  have fit: "t < 2 ^ 16" "d < 2 ^ 16" using Cons.prems(5) by (auto simp: sg seg_fits_def)
  have sp: "t + d \<le> length (engine_cmds L c os)" "tiu_count L c (take (t + d) (engine_cmds L c os)) = t"
    "splits L c (drop (t + d) (engine_cmds L c os)) sgs" using Cons.prems(4) by (auto simp: sg)
  have ld: "load_u32 (arm + 4) r = t" "load_u32 (arm + 8) r = d" "arms_at L (arm + ?D) sgs r" using Cons.prems(6) fit by (auto simp: sg)
  have le: "T + b \<le> td" "T + add_bd L b t \<le> td" using foldl_add_bd_ge[of b L "map fst (sg # sgs)"] foldl_add_bd_ge[of "add_bd L b t" L "map fst sgs"] Cons.prems(10) by (auto simp: sg)
  have to: "to \<le> td" "end_of_tiu L t to \<le> td"
    using le Cons.prems(8) end_of_tiu_bound[OF Cons.prems(8,9), of t] align_to_ge[of to "cl_bdc_bit L"] align_to_ge[of "end_of_tiu L t to" "cl_bdc_bit L"] by linarith+
  have pl: "arm + ?D \<le> dma + to" "arm + ?D + length sgs * ?D \<le> dma + to" using Cons.prems(7) by simp_all
  obtain os' r1 where 1: "arm_loop L c sz dma (Suc (length sgs)) arm (first_off os) to td r =
      arm_loop L c sz dma (length sgs) (arm + ?D) (first_off os') (end_of_tiu L t to) (td + d * 2 ^ cl_tdma_bit L) r1"
    "taken L c os (t + d) os'" "load_u32 (arm + 4) r1 = t" "load_u32 (arm + 8) r1 = d"
    "only_in ({arm + 12..<arm + 20} \<union> {dma + to..<dma + end_of_tiu L t to} \<union> {dma + td..<dma + td + d * 2 ^ cl_tdma_bit L}) r r1"
    using arm_step[OF assms(1) Cons.prems(1-3) sp(1,2) Cons.prems(11) ld(1,2) fit pl(1) to(1), of "length sgs"] by blast
  obtain pre where pre: "os = pre @ os'" "engine_cmds L c os' = drop (t + d) (engine_cmds L c os)" using 1(2) unfolding taken_def by blast
  have arms1: "arms_at L (arm + ?D) sgs r1" by (rule arms_at_only_in[OF ld(3) 1(5)]) (use D pl to in auto)
  have os': "os' = [] \<or> chained L c sz os'" "list_all (cmd_ok L c) os'" "length os' < Suc (Suc sz)"
    using Cons.prems(1-3) chained_suffix[of L c sz pre os'] by (auto simp: pre(1))
  have os'': "splits L c (engine_cmds L c os') sgs" unfolding pre(2) by (rule sp(3))
  have sgs: "list_all seg_fits sgs" "arm + ?D + length sgs * ?D \<le> dma + end_of_tiu L t to" "align_to (cl_bdc_bit L) (end_of_tiu L t to) \<le> T + add_bd L b t"
    "T + foldl (add_bd L) (add_bd L b t) (map fst sgs) \<le> td + d * 2 ^ cl_tdma_bit L" "2 ^ cl_tdma_bit L dvd td + d * 2 ^ cl_tdma_bit L"
    using Cons.prems(5,10,11) pl end_of_tiu_ge[of to L t] end_of_tiu_bound[OF Cons.prems(8,9), of t] by (auto simp: sg)
  from Cons.IH[OF os' os'' sgs(1) arms1 sgs(2,3) Cons.prems(9) sgs(4,5)] obtain r' where
    2: "arm_loop L c sz dma (length sgs) (arm + ?D) (first_off os') (end_of_tiu L t to) (td + d * 2 ^ cl_tdma_bit L) r1 = Inr ((), r')"
      "arms_at L (arm + ?D) sgs r'"
      "only_in ({arm + ?D + 12..<arm + ?D + length sgs * ?D} \<union> {dma + end_of_tiu L t to..<dma + (td + d * 2 ^ cl_tdma_bit L) + sum_list (map snd sgs) * 2 ^ cl_tdma_bit L}) r1 r'"
    by blast
  have "load_u32 (arm + 4) r' = t" "load_u32 (arm + 8) r' = d"
    using D pl end_of_tiu_ge[of to L t] by (auto simp: 1(3,4)[symmetric] intro!: load_u32_only_in[OF 2(3)])
  then have "arms_at L arm (sg # sgs) r'" using 2(2) fit by (simp add: sg)
  moreover have "only_in ({arm + 12..<arm + length (sg # sgs) * ?D} \<union> {dma + to..<dma + td + sum_list (map snd (sg # sgs)) * 2 ^ cl_tdma_bit L}) r r'"
    by (rule only_in_trans[OF 1(5) 2(3)]) (use D pl to end_of_tiu_ge[of to L t] in \<open>auto simp: sg algebra_simps\<close>)
  ultimately show ?case using 1(1) 2(1) by simp
qed

section \<open>The conversion\<close>

text \<open>Where the commands of the engines begin.\<close>

abbreviation tiu_start :: "cmd_layout \<Rightarrow> (nat \<times> nat) list \<Rightarrow> nat" where
  "tiu_start L sgs \<equiv> align_to (cl_bdc_bit L) (SIZEOF_DMA_HDR + length sgs * sizeof_cpu_desc L)"

abbreviation tdma_start :: "cmd_layout \<Rightarrow> (nat \<times> nat) list \<Rightarrow> nat" where
  "tdma_start L sgs \<equiv> align_to (cl_tdma_bit L) (tiu_start L sgs + foldl (add_bd L) 0 (map fst sgs))"

lemma seg_size_parts: "layout_ok L \<Longrightarrow> seg_size L sgs = tdma_start L sgs + sum_list (map snd sgs) * 2 ^ cl_tdma_bit L"
  by (simp add: seg_size_def dma_size_def layout_ok_def)

lemma length_dma_header [simp]: "length (dma_header L a b u v) = SIZEOF_DMA_HDR"
  by (simp add: dma_header_def SIZEOF_DMA_HDR_def)

lemma load_dma_header:
  "load_u32 (a + 4) (store_bytes a (dma_header L n cpu bd tdma) r) = n mod 2 ^ 32"
  "load_u32 (a + 8) (store_bytes a (dma_header L n cpu bd tdma) r) = cpu mod 2 ^ 32"
  using load_u32_field[of "[0xB5, 0xB5, of_nat (cl_magic_s L), of_nat (cl_magic_s L div 2 ^ 8)]" 4 a n]
    load_u32_field[of "[0xB5, 0xB5, of_nat (cl_magic_s L), of_nat (cl_magic_s L div 2 ^ 8)] @ u32_bytes n" 8 a cpu]
  by (simp_all add: dma_header_def)

lemma fill_header_and_arm_run:
  assumes "chained L c sz (0 # os)" "list_all (cmd_ok L c) (0 # os)" "layout_ok L"
  defines "sgs \<equiv> segments L c (0 # os) 0 0"
  shows "\<exists>r'. fill_header_and_arm L c sz dma r = Inr ((tiu_start L sgs, tdma_start L sgs), r') \<and>
     arms_at L (dma + SIZEOF_DMA_HDR) sgs r' \<and> load_u32 (dma + 4) r' = seg_size L sgs mod 2 ^ 32 \<and>
     load_u32 (dma + 8) r' = length sgs mod 2 ^ 32 \<and> only_in {dma..<dma + SIZEOF_DMA_HDR + length sgs * sizeof_cpu_desc L} r r'"
proof -
  let ?st = "\<lparr>f_tiu = 0, f_tdma = 0, f_nums_tiu = 0, f_nums_tdma = 0, f_nums_cpu = 0, f_size_tiu = 0\<rparr>"
  have "length os < Suc sz" using chained_length[OF assms(1)] by simp
  from fill_loop_run[OF assms(1-3) this, of dma ?st r] obtain st1 r1 where
    1: "fill_loop L c sz dma (Suc sz) 0 ?st r = Inr (st1, r1)" "filled L dma sgs ?st r st1 r1"
    unfolding sgs_def by auto
  have st: "f_nums_cpu st1 = length sgs" "f_size_tiu st1 = foldl (add_bd L) 0 (map fst sgs)" "f_nums_tdma st1 = sum_list (map snd sgs)"
    and r1: "arms_at L (dma + SIZEOF_DMA_HDR) sgs r1" "only_in {dma + SIZEOF_DMA_HDR..<dma + SIZEOF_DMA_HDR + length sgs * sizeof_cpu_desc L} r r1"
    using 1(2) by (simp_all add: filled_def)
  let ?h = "dma_header L (seg_size L sgs) (length sgs) (f_nums_tiu st1) (sum_list (map snd sgs))"
  let ?r = "store_bytes dma ?h r1"
  have cpu: "cl_cpu_engine_bytes L = sizeof_cpu_desc L" using assms(3) by (simp add: layout_ok_def)
  have oh: "only_in {dma..<dma + SIZEOF_DMA_HDR} r1 ?r" by (rule only_in_store) simp
  have "arms_at L (dma + SIZEOF_DMA_HDR) sgs ?r" by (rule arms_at_only_in[OF r1(1) oh]) auto
  moreover have "only_in {dma..<dma + SIZEOF_DMA_HDR + length sgs * sizeof_cpu_desc L} r ?r" by (rule only_in_trans[OF r1(2) oh]) auto
  moreover have "fill_header_and_arm L c sz dma r = Inr ((tiu_start L sgs, tdma_start L sgs), ?r)"
    unfolding fill_header_and_arm_def traverse_start_ok[OF assms(1)] cbind_cret
    unfolding cbind_def[of "fill_loop L c sz dma (Suc sz) 0 ?st"] 1(1) sum.case prod.case Let_def st cpu
    by (simp add: cbind_def put_def cupd_def cret_def seg_size_parts[OF assms(3)])
  ultimately show ?thesis using load_dma_header by blast
qed

text \<open>
  C3: for a command buffer whose commands follow each other up to its end and are well formed, with
  segments whose counts fit their 16-bit fields, \<^verbatim>\<open>dmabuf_size\<close> and \<^verbatim>\<open>dmabuf_convert\<close> both succeed, the conversion writes
  only to the buffer of the size computed, the header records that size, and the descriptors hold
  the numbers of TIU and TDMA commands of the segments the command buffer divides into.
\<close>

theorem dmabuf_convert_fits:
  assumes "layout_ok L" "chained L c sz (0 # os)" "list_all (cmd_ok L c) (0 # os)"
    and "list_all seg_fits (segments L c (0 # os) 0 0)" "length (segments L c (0 # os) 0 0) < 2 ^ 32"
  shows "\<exists>size pmu r'. dmabuf_size L c sz = Inr (BM_SUCCESS, size, pmu) \<and> dmabuf_convert L c sz dma r = Inr (BM_SUCCESS, r') \<and>
     only_in {dma..<dma + size} r r' \<and> load_u32 (dma + 4) r' = size mod 2 ^ 32 \<and>
     arms_at L (dma + SIZEOF_DMA_HDR) (segments L c (0 # os) 0 0) r'"
proof -
  define sgs where "sgs = segments L c (0 # os) 0 0"
  let ?to = "tiu_start L sgs" and ?td = "tdma_start L sgs" and ?arm = "dma + SIZEOF_DMA_HDR" and ?D = "sizeof_cpu_desc L"
  obtain pmu where size: "dmabuf_size L c sz = Inr (BM_SUCCESS, seg_size L sgs, pmu)"
    using dmabuf_size_ok[OF assms(2,3,1)] by (auto simp: sgs_def simp del: segments.simps)
  obtain r1 where 1: "fill_header_and_arm L c sz dma r = Inr ((?to, ?td), r1)" "arms_at L ?arm sgs r1"
    "load_u32 (dma + 4) r1 = seg_size L sgs mod 2 ^ 32" "load_u32 (dma + 8) r1 = length sgs" "only_in {dma..<?arm + length sgs * ?D} r r1"
    using fill_header_and_arm_run[OF assms(2,3,1), of dma r] assms(5) unfolding sgs_def[symmetric] by auto
  have sp: "splits L c (engine_cmds L c (0 # os)) sgs"
    using splits_segments[OF assms(3,1), of "[]" 0 0] unfolding sgs_def by (simp del: segments.simps)
  have len: "length (0 # os) < Suc (Suc sz)" using chained_length[OF assms(2)] by simp
  have to: "SIZEOF_DMA_HDR + length sgs * ?D \<le> ?to" by (rule align_to_ge)
  have arm: "?arm + length sgs * ?D \<le> dma + ?to" using to by simp
  have al: "align_to (cl_bdc_bit L) ?to \<le> ?to + 0" by (simp add: align_to_aligned align_to_dvd)
  have td: "?to + foldl (add_bd L) 0 (map fst sgs) \<le> ?td" by (rule align_to_ge)
  obtain r2 where 2: "arm_loop L c sz dma (length sgs) ?arm (first_off (0 # os)) ?to ?td r1 = Inr ((), r2)" "arms_at L ?arm sgs r2"
    "only_in ({?arm + 12..<?arm + length sgs * ?D} \<union> {dma + ?to..<dma + ?td + sum_list (map snd sgs) * 2 ^ cl_tdma_bit L}) r1 r2"
    using arm_loop_run[OF assms(1) disjI2[OF assms(2)] assms(3) len sp assms(4)[folded sgs_def] 1(2) arm al align_to_dvd td align_to_dvd] by blast
  have "dmabuf_convert L c sz dma r = Inr (BM_SUCCESS, r2)"
    using 2(1) by (simp add: dmabuf_convert_def cbind_def[of "fill_header_and_arm L c sz dma"] 1(1) fill_bd_and_tdma_def traverse_start_ok[OF assms(2)] cbind_cget 1(4))
  moreover have "load_u32 (dma + 4) r2 = load_u32 (dma + 4) r1" by (rule load_u32_only_in[OF 2(3)]) (use to in \<open>auto simp: SIZEOF_DMA_HDR_def\<close>)
  moreover have "only_in {dma..<dma + seg_size L sgs} r r2"
    by (rule only_in_trans[OF 1(5) 2(3)]) (use to td in \<open>auto simp: seg_size_parts[OF assms(1)]\<close>)
  ultimately show ?thesis using size 1(3) 2(2) unfolding sgs_def[symmetric] by auto
qed

text \<open>A layout with short commands, and a buffer of three segments: a synchronisation, a CPU command and the end.\<close>

definition demo_layout :: cmd_layout where
  "demo_layout = \<lparr>cl_hdr_bytes = 4, cl_magic = 0xA8, cl_hdr_magic = (\<lambda>h. unat (h ! 0)), cl_hdr_engine = (\<lambda>h. unat (h ! 2)),
     cl_hdr_len = (\<lambda>h. unat (h ! 1)), cl_cmd_hdr_len = (\<lambda>h. unat (h ! 1)), cl_tiu = 0, cl_tdma = 2, cl_cpu = 1, cl_engines = 3,
     cl_bd_reg_bytes = 16, cl_cpu_engine_bytes = 32, cl_str_bytes = 4, cl_bdc_bit = 5, cl_tdma_bit = 4,
     cl_tiu_sync = (\<lambda>b. if b ! 0 = 0xFF then 0xFFFF else 0), cl_tdma_sync = (\<lambda>b. 0), cl_tiu_end = (\<lambda>r. r),
     cl_eod_bit = 0, cl_interrupt_bit = 1, cl_barrier_bit = 2, cl_op_sync = 7, cl_magic_s = 0x1822,
     cl_reports = False, cl_err_data = BM_ERR_OTHER 1\<rparr>"

definition demo_cmds :: "byte list" where
  "demo_cmds = [0xA8, 4, 0, 0, 1, 2, 3, 4, 0xA8, 4, 2, 0, 5, 6, 7, 8, 0xA8, 2, 0, 0, 0xFF, 1, 0xA8, 32, 1, 0] @ replicate 32 9 @
     [0xA8, 4, 2, 0, 5, 6, 7, 8]"

lemma demo_layout_ok: "layout_ok demo_layout"
  by (simp add: layout_ok_def demo_layout_def sizeof_cpu_desc_def)

lemma demo_chained: "chained demo_layout demo_cmds 66 [0, 8, 16, 22, 58]"
  by (simp add: hdr_ok_def next_off_def sizeof_cmd_hdr_def demo_layout_def demo_cmds_def)

lemma demo_cmds_ok: "list_all (cmd_ok demo_layout demo_cmds) [0, 8, 16, 22, 58]"
  by (simp add: cmd_ok_def body_at_def Let_def sizeof_cmd_hdr_def sizeof_cpu_desc_def demo_layout_def demo_cmds_def)

lemma demo_segments: "segments demo_layout demo_cmds [0, 8, 16, 22, 58] 0 0 = [(2, 1), (0, 0), (0, 1)]"
  by (simp add: is_sync_def body_at_def Let_def sizeof_cmd_hdr_def demo_layout_def demo_cmds_def)

theorem dmabuf_convert_fits_witness:
  "\<exists>size pmu r'. dmabuf_size demo_layout demo_cmds 66 = Inr (BM_SUCCESS, size, pmu) \<and>
     dmabuf_convert demo_layout demo_cmds 66 100 (\<lambda>_. 0) = Inr (BM_SUCCESS, r') \<and>
     only_in {100..<100 + size} (\<lambda>_. 0) r' \<and> load_u32 104 r' = size mod 2 ^ 32 \<and>
     arms_at demo_layout (100 + SIZEOF_DMA_HDR) [(2, 1), (0, 0), (0, 1)] r'"
  using dmabuf_convert_fits[OF demo_layout_ok demo_chained demo_cmds_ok, of 100 "\<lambda>_. 0"]
  unfolding demo_segments by (simp add: seg_fits_def)

end
