(* ===== verification/RtState.thy ===== *)
theory RtState
  imports ChipMem ModelStream
begin

text \<open>
  The data of the runtime above the device layer: the classes of \<^verbatim>\<open>include/runtime/neuron.hpp\<close>,
  \<^verbatim>\<open>program.hpp\<close> and \<^verbatim>\<open>model.hpp\<close> and the structures of \<^verbatim>\<open>cviruntime.h\<close> as records, the sections of a
  cvimodel as the accessors of the generated flatbuffers code present them, and the state that
  holds all objects in heaps.

  Host memory and mapped device memory are one address space, the function \<^verbatim>\<open>ds_ram\<close> of the device
  state; a host pointer is its address, 0 for null.  A \<^verbatim>\<open>float\<close> is its bit pattern.
\<close>

type_synonym f32 = "32 word"

section \<open>Formats\<close>

datatype cvi_fmt = CVI_FMT_FP32 | CVI_FMT_INT32 | CVI_FMT_UINT32 | CVI_FMT_BF16
  | CVI_FMT_INT16 | CVI_FMT_UINT16 | CVI_FMT_INT8 | CVI_FMT_UINT8

datatype fb_dtype = DType_FP32 | DType_INT32 | DType_UINT32 | DType_BF16 | DType_INT16
  | DType_UINT16 | DType_INT8 | DType_UINT8 | DType_other int

datatype pixel_format = CVI_NN_PIXEL_RGB_PACKED | CVI_NN_PIXEL_BGR_PACKED | CVI_NN_PIXEL_RGB_PLANAR
  | CVI_NN_PIXEL_BGR_PLANAR | CVI_NN_PIXEL_YUV_NV12 | CVI_NN_PIXEL_YUV_NV21
  | CVI_NN_PIXEL_YUV_420_PLANAR | CVI_NN_PIXEL_GRAYSCALE | CVI_NN_PIXEL_TENSOR
  | CVI_NN_PIXEL_RGBA_PLANAR | CVI_NN_PIXEL_PLANAR | CVI_NN_PIXEL_PACKED

datatype cvi_mem_type = CVI_MEM_SYSTEM | CVI_MEM_DEVICE

text \<open>Tensors in global memory as \<^verbatim>\<open>cvikernel\<close> takes them.\<close>

datatype cvk_fmt = CVK_FMT_I8 | CVK_FMT_U8 | CVK_FMT_BF16

record cvk_tg =
  tg_base_reg_index :: nat
  tg_start_address :: u64
  tg_fmt :: cvk_fmt
  tg_shape :: "nat list"
  tg_stride :: "nat list"

datatype cvi_alloc_type = CVI_ALLOC_WEIGHT | CVI_ALLOC_PROGRAM | CVI_ALLOC_NEURON
  | CVI_ALLOC_SHARED | CVI_ALLOC_DMABUF | CVI_ALLOC_UNKNOWN

section \<open>Contents of a cvimodel\<close>

record fb_tensor =
  ft_id :: u32
  ft_name :: string
  ft_offset :: int
  ft_dtype :: fb_dtype
  ft_shape :: "int list"
  ft_quant :: "(f32 \<times> int) option"
  ft_overwrote :: bool
  ft_pixel_format :: "string option"
  ft_aligned :: bool
  ft_size :: u32
  ft_scale :: "f32 list option"
  ft_mean :: "f32 list option"

record fb_weight =
  fw_name :: string
  fw_offset :: int
  fw_dtype :: fb_dtype
  fw_shape :: "int list option"

datatype attr = IntAttr string int | FloatAttr string f32 | BoolAttr string bool | StrAttr string string
  | IntArrayAttr string "int list" | FloatArrayAttr string "f32 list" | NoAttr

record fb_routine =
  fr_is_tpu :: bool
  fr_in_tensors :: "string list"
  fr_out_tensors :: "string list"
  fr_cmdbuf_section :: "string option"
  fr_dmabuf_section :: "string option"
  fr_function :: string
  fr_args :: "attr list option"

record fb_program =
  fp_neuron_size :: u32
  fp_shared_gmem :: u32
  fp_private_gmem :: u32
  fp_tensor_map :: "fb_tensor list"
  fp_input_tensors :: "string list"
  fp_output_tensors :: "string list"
  fp_routines :: "fb_routine list"

datatype section_type = SectionType_WEIGHT | SectionType_CMDBUF | SectionType_DMABUF
  | SectionType_FUNC_X86 | SectionType_FUNC_AARCH64 | SectionType_other

record fb_section =
  fs_type :: section_type
  fs_name :: string
  fs_size :: u32
  fs_offset :: u32
  fs_encrypt :: bool
  fs_compress :: bool
  fs_decompressed_size :: u32

record fb_model =
  fm_major :: int
  fm_minor :: int
  fm_name :: string
  fm_weight_map :: "fb_weight list option"
  fm_sections :: "fb_section list"
  fm_programs :: "fb_program list"

section \<open>Objects\<close>

datatype neuron_state = TPU_MEM | CPU_MEM
datatype neuron_type = WEIGHT | ACTIVATION

record neuron =
  n_name :: string
  n_shape :: "int list"
  n_fmt :: cvi_fmt
  n_type :: neuron_type
  n_pixel_format :: pixel_format
  n_scale :: "f32 list"
  n_mean :: "f32 list"
  n_aligned :: bool
  n_vpss_w_align :: int
  n_vpss_y_align :: int
  n_vpss_channel_align :: int
  n_ctx :: ptr
  n_cvk :: ptr
  n_streamCopyCmdbuf :: ptr
  n_channelPreloadCmdbuf :: ptr
  n_framePreloadCmdbuf :: ptr
  n_base_mem :: ptr
  n_gmem :: ptr
  n_cpu_mem :: u64
  n_vaddr :: u64
  n_paddr :: u64
  n_state :: neuron_state
  n_id :: u32
  n_count :: u32
  n_size :: u32
  n_tensor_size :: u32
  n_overwrote :: bool
  n_qscale :: f32
  n_zero_point :: int
  n_bases :: ptr
  n_baseAddrIndex :: nat
  n_model_name :: string
  n_module_name :: string

text \<open>The arrays \<^verbatim>\<open>baseAddrArray\<close> and \<^verbatim>\<open>baseMemArray\<close> of a program, which its neurons point to.\<close>

record base_arrays =
  ba_addr :: "u64 list"
  ba_mem :: "ptr list"

record cvi_tensor =
  t_name :: string
  t_shape :: "int list"
  t_fmt :: cvi_fmt
  t_count :: u64
  t_mem_size :: u64
  t_sys_mem :: u64
  t_paddr :: u64
  t_mem_type :: cvi_mem_type
  t_qscale :: f32
  t_zero_point :: int
  t_pixel_format :: pixel_format
  t_aligned :: bool
  t_mean :: "f32 list"
  t_scale :: "f32 list"
  t_owner :: ptr

datatype routine =
    TpuRoutine (r_inputs: "ptr list") (r_outputs: "ptr list") ptr bool bool
  | CpuRoutine (r_inputs: "ptr list") (r_outputs: "ptr list") string nat "attr list"

record program =
  p_in_tensors :: "ptr list"
  p_out_tensors :: "ptr list"
  p_neuron_map :: "(string \<times> ptr) list"
  p_weight_map :: "(string \<times> ptr) list"
  p_dmabuf_map :: "(string \<times> ptr) list"
  p_cpu_functions :: "cpu_runtime_function list"
  p_bases :: ptr
  p_ctx :: ptr
  p_cvk :: ptr
  p_export_all_tensors :: bool
  p_skip_preprocess :: bool
  p_private_mem :: ptr
  p_shared_mem :: ptr
  p_routines :: "routine list"
  p_model_name :: string
  p_max_shared_mem_size :: u64

record cvi_model =
  m_program_num :: int
  m_major_ver :: int
  m_minor_ver :: int
  m_ctx :: ptr
  m_ref :: int
  m_fb_model :: "fb_model option"
  m_weight_mem :: ptr
  m_cpu_functions :: "cpu_runtime_function list"
  m_weight_map :: "(string \<times> ptr) list"
  m_dmabuf_map :: "(string \<times> ptr) list"
  m_isprotect :: bool
  m_count :: int
  m_model_name :: string
  m_max_shared_mem_size :: u64

record model_instance =
  i_model :: ptr
  i_program :: ptr
  i_inputs :: "cvi_tensor list option"
  i_outputs :: "cvi_tensor list option"
  i_input_num :: int
  i_output_num :: int
  i_program_id :: int
  i_program_num :: int
  i_output_all_tensors :: bool
  i_skip_preprocess :: bool

text \<open>
  A kernel handle (\<^verbatim>\<open>cvi_rt_submit\<close>): the context, the commands emitted since the last reset, the
  last asynchronously submitted buffer and the magic number.
\<close>

record submit_handle =
  sh_rt_ctx :: ptr
  sh_cmds :: "byte list"
  sh_dmabuf :: ptr
  sh_magic :: u32

section \<open>State\<close>

record rt =
  rt_d :: dstate
  rt_next :: nat
  rt_khandles :: "nat \<rightharpoonup> submit_handle"
  rt_neurons :: "nat \<rightharpoonup> neuron"
  rt_bases :: "nat \<rightharpoonup> base_arrays"
  rt_programs :: "nat \<rightharpoonup> program"
  rt_models :: "nat \<rightharpoonup> cvi_model"
  rt_instances :: "nat \<rightharpoonup> model_instance"
  rt_mallocs :: nat
  rt_alloc_cb :: "(ptr \<Rightarrow> u64 \<Rightarrow> cvi_alloc_type \<Rightarrow> string \<Rightarrow> ptr dm) option"
  rt_free_cb :: "(ptr \<Rightarrow> ptr \<Rightarrow> unit dm) option"
  rt_shared_list :: "ptr list"
  rt_max_shared :: u64
  rt_target_chip :: string
  rt_g_ctx :: ptr
  rt_g_ctx_ref_count :: int
  rt_g_model_count :: int

type_synonym 'a rtm = "(rt, 'a) sm"

text \<open>
  What the runtime relies on outside its sources: the device environment, the kernel library and
  the chip; the numeric value of an error of the kernel library; the default strides and the
  commands \<^verbatim>\<open>cvikernel\<close> emits for a copy from one tensor to another; the system allocator, which answers the n-th request; the environment variables;
  the flatbuffers decoder and LZ4; the shared library loader; what
  running a function does.
\<close>

record rtenv =
  re_env :: env
  re_bmk :: bmk
  re_chip :: chip
  re_rc :: "bmerr \<Rightarrow> int"
  re_tg_default_stride :: "nat list \<Rightarrow> cvk_fmt \<Rightarrow> nat list"
  re_g2g_tensor_copy :: "cvk_tg \<Rightarrow> cvk_tg \<Rightarrow> byte list"
  re_malloc :: "nat \<Rightarrow> u64 \<Rightarrow> u64"
  re_pmu :: bool
  re_protect :: bool
  re_cpu_enabled :: bool
  re_compress_enabled :: bool
  re_device_chip :: string
  re_aarch64 :: bool
  re_fb_model :: "byte list \<Rightarrow> fb_model"
  re_lz4 :: "byte list \<Rightarrow> nat \<Rightarrow> byte list option"
  re_dso :: dso_env
  re_fb_version :: "int \<times> int"
  re_run_cpu :: "nat \<Rightarrow> attr list \<Rightarrow> ptr list \<Rightarrow> ptr list \<Rightarrow> unit rtm"
  re_fdiv128 :: "f32 \<Rightarrow> f32"

text \<open>An operation of the device layer, and objects of the heaps.\<close>

definition on_dev :: "'a dm \<Rightarrow> 'a rtm" where
  "on_dev m s = (case m (rt_d s) of Inl e \<Rightarrow> Inl e | Inr (a, d) \<Rightarrow> Inr (a, s\<lparr>rt_d := d\<rparr>))"

definition set_neuron :: "ptr \<Rightarrow> neuron \<Rightarrow> unit rtm" where
  "set_neuron p n = dmodify (\<lambda>s. s\<lparr>rt_neurons := (rt_neurons s)(the p \<mapsto> n)\<rparr>)"

definition new_neuron :: "neuron \<Rightarrow> ptr rtm" where
  "new_neuron n s = Inr (Some (rt_next s), s\<lparr>rt_next := rt_next s + 1, rt_neurons := (rt_neurons s)(rt_next s \<mapsto> n)\<rparr>)"

lemma on_dev_Inr [dm_inv]:
  "on_dev m s = Inr (a, t) \<longleftrightarrow> (\<exists>d. m (rt_d s) = Inr (a, d) \<and> t = s\<lparr>rt_d := d\<rparr>)"
  by (auto simp: on_dev_def split: sum.splits)

lemma on_dev_eqI: "m (rt_d s) = Inr (a, d) \<Longrightarrow> on_dev m s = Inr (a, s\<lparr>rt_d := d\<rparr>)"
  by (simp add: on_dev_def)

end
