(* ===== verification/CviRt.thy ===== *)
theory CviRt
  imports RtState
begin

text \<open>
  The chip-independent runtime interface (\<^verbatim>\<open>src/soc/common/cvi_rt_base.cpp\<close>, class \<^verbatim>\<open>CviRTSoc\<close>, behind
  the C functions \<^verbatim>\<open>CVI_RT_*\<close> of \<^verbatim>\<open>cviruntime_context.cpp\<close>): devices, kernel handles, command buffers
  and memory, over the device layer of the chip at hand.
\<close>

section \<open>Devices and kernel handles\<close>

definition SubmitPio :: "ptr \<Rightarrow> cvi_rc rtm" where
  "SubmitPio rt_handle = dthen (dassert False) (dret 0)"

definition Init :: "rtenv \<Rightarrow> ptr rtm" where
  "Init R = on_dev (device_init (device_open (re_env R)) 0)"

definition DeInit :: "rtenv \<Rightarrow> ptr \<Rightarrow> cvi_rc rtm" where
  "DeInit R rt_handle = dthen (on_dev (device_exit (device_close (re_env R)) rt_handle)) (dret 0)"

definition new_khandle :: "submit_handle \<Rightarrow> ptr rtm" where
  "new_khandle h s = Inr (Some (rt_next s), s\<lparr>rt_next := rt_next s + 1, rt_khandles := (rt_khandles s)(rt_next s \<mapsto> h)\<rparr>)"

definition set_khandle :: "ptr \<Rightarrow> submit_handle \<Rightarrow> unit rtm" where
  "set_khandle p h = dmodify (\<lambda>s. s\<lparr>rt_khandles := (rt_khandles s)(the p \<mapsto> h)\<rparr>)"

definition RegisterKernel :: "rtenv \<Rightarrow> ptr \<Rightarrow> u32 \<Rightarrow> ptr rtm" where
  "RegisterKernel R rt_handle cmdbuf_size = new_khandle
     \<lparr>sh_rt_ctx = rt_handle, sh_cmds = [], sh_dmabuf = None, sh_magic = ch_submit_magic (re_chip R)\<rparr>"

definition free_raw :: "rtenv \<Rightarrow> ptr \<Rightarrow> ptr \<Rightarrow> unit rtm" where
  "free_raw R ctx mem = on_dev (ch_mem_free_raw (re_chip R) (re_env R) ctx mem)"

definition UnRegisterKernel :: "rtenv \<Rightarrow> ptr \<Rightarrow> cvi_rc rtm" where
  "UnRegisterKernel R rt_khandle =
     dthen (dassert (rt_khandle \<noteq> None)) (dbind (deref rt_khandles rt_khandle) (\<lambda>h.
     dthen (if sh_dmabuf h \<noteq> None then free_raw R (sh_rt_ctx h) (sh_dmabuf h) else dret ())
    (dthen (dmodify (\<lambda>s. s\<lparr>rt_khandles := (rt_khandles s)(the rt_khandle := None)\<rparr>)) (dret 0))))"

section \<open>Command buffers\<close>

definition LoadCmdbuf :: "rtenv \<Rightarrow> ptr \<Rightarrow> byte list \<Rightarrow> u64 \<Rightarrow> u64 \<Rightarrow> u64 \<Rightarrow> bool \<Rightarrow> (cvi_rc \<times> ptr option) rtm" where
  "LoadCmdbuf R rt_handle cmdbuf cmdbuf_sz base0 base1 enable_pmu =
     dbind (on_dev (ch_load_cmdbuf (re_chip R) (re_env R) (re_bmk R) rt_handle cmdbuf cmdbuf_sz base0 base1 enable_pmu))
       (\<lambda>(ret, mem). dret (re_rc R ret, mem))"

definition LoadDmabuf :: "rtenv \<Rightarrow> ptr \<Rightarrow> ptr \<Rightarrow> u64 \<Rightarrow> u64 \<Rightarrow> u64 \<Rightarrow> bool \<Rightarrow> (cvi_rc \<times> ptr option) rtm" where
  "LoadDmabuf R rt_handle dmabuf dmabuf_sz base0 base1 enable_pmu =
     dbind (on_dev (ch_load_dmabuf (re_chip R) (re_env R) (re_bmk R) rt_handle dmabuf dmabuf_sz base0 base1 enable_pmu))
       (\<lambda>(ret, mem). dret (re_rc R ret, mem))"

text \<open>
  Asynchronous submission: resubmit the previous buffer, or load the commands emitted since the
  last reset and remember the new buffer.
\<close>

definition SubmitAsync :: "rtenv \<Rightarrow> ptr \<Rightarrow> nat \<Rightarrow> cvi_rc rtm" where
  "SubmitAsync R rt_khandle submit_previous = dbind (deref rt_khandles rt_khandle) (\<lambda>h.
     let ctx = sh_rt_ctx h in
     if sh_magic h \<noteq> ch_submit_magic (re_chip R) then dret CVI_RC_FAILURE
     else if submit_previous \<noteq> 0 then
       (if sh_dmabuf h \<noteq> None then dthen (on_dev (run_async (re_env R) ctx (sh_dmabuf h))) (dret 0)
        else dret CVI_RC_FAILURE)
     else
       dthen (if sh_dmabuf h \<noteq> None then free_raw R ctx (sh_dmabuf h) else dret ())
      (dbind (LoadCmdbuf R ctx (sh_cmds h) (length (sh_cmds h)) 0 0 False) (\<lambda>(_, written).
       dbind (case written of None \<Rightarrow> dfail Uninitialised | Some p \<Rightarrow> dret p) (\<lambda>mem.
       dthen (on_dev (run_async (re_env R) ctx mem))
      (dthen (set_khandle rt_khandle (h\<lparr>sh_dmabuf := mem, sh_cmds := []\<rparr>)) (dret 0))))))"

definition WaitForAsync :: "rtenv \<Rightarrow> ptr \<Rightarrow> cvi_rc rtm" where
  "WaitForAsync R rt_khandle = dbind (deref rt_khandles rt_khandle) (\<lambda>h.
     dbind (on_dev (wait_cmdbuf_all (re_env R) (sh_rt_ctx h))) (\<lambda>ret. dret (re_rc R ret)))"

definition Submit :: "rtenv \<Rightarrow> ptr \<Rightarrow> cvi_rc rtm" where
  "Submit R rt_khandle = dbind (deref rt_khandles rt_khandle) (\<lambda>h.
     if sh_magic h \<noteq> ch_submit_magic (re_chip R) then dret CVI_RC_FAILURE
     else dbind (on_dev (send_cmdbuf (re_env R) (ch_load_cmdbuf (re_chip R) (re_env R) (re_bmk R))
                 (ch_mem_free_raw (re_chip R) (re_env R)) (sh_rt_ctx h) (sh_cmds h) (length (sh_cmds h)))) (\<lambda>(ret, _).
       dthen (set_khandle rt_khandle (h\<lparr>sh_cmds := []\<rparr>)) (dret (re_rc R ret))))"

definition RunCmdbuf :: "rtenv \<Rightarrow> ptr \<Rightarrow> ptr \<Rightarrow> u64 \<Rightarrow> u64 \<Rightarrow> cvi_rc rtm" where
  "RunCmdbuf R rt_handle cmdbuf_mem base2 base3 =
     dbind (on_dev (run_cmdbuf_ex (re_env R) rt_handle cmdbuf_mem base2 base3)) (\<lambda>(ret, seq_no).
     if ret \<noteq> BM_SUCCESS then dret (re_rc R ret)
     else case seq_no of None \<Rightarrow> dfail Uninitialised | Some n \<Rightarrow>
       dbind (on_dev (wait_cmdbuf_done (re_env R) rt_handle n)) (\<lambda>ret2. dret (re_rc R ret2)))"

definition RunCmdbufEx :: "rtenv \<Rightarrow> ptr \<Rightarrow> ptr \<Rightarrow> u64 list \<Rightarrow> cvi_rc rtm" where
  "RunCmdbufEx R rt_handle cmdbuf_mem array_base =
     dbind (on_dev (run_cmdbuf_ex2 (re_env R) rt_handle cmdbuf_mem array_base)) (\<lambda>(ret, n).
     if ret \<noteq> BM_SUCCESS then dret (re_rc R ret)
     else dbind (on_dev (wait_cmdbuf_done (re_env R) rt_handle n)) (\<lambda>ret2. dret (re_rc R ret2)))"

definition LoadCmdbufTee :: "rtenv \<Rightarrow> ptr \<Rightarrow> byte list \<Rightarrow> u64 \<Rightarrow> u64 \<Rightarrow> u64 \<Rightarrow> u32 \<Rightarrow> (cvi_rc \<times> ptr option) rtm" where
  "LoadCmdbufTee R rt_handle cmdbuf sz neuron_gaddr weight_gaddr weight_len =
    (if ch_tee_supported (re_chip R) then
       dbind (on_dev (ch_load_cmdbuf_tee (re_chip R) (re_env R) rt_handle cmdbuf sz neuron_gaddr weight_gaddr weight_len))
         (\<lambda>(ret, mem). dret (re_rc R ret, mem))
     else dfail AssertFailed)"

definition RunCmdbufTee :: "rtenv \<Rightarrow> ptr \<Rightarrow> ptr \<Rightarrow> u64 list \<Rightarrow> cvi_rc rtm" where
  "RunCmdbufTee R rt_handle cmdbuf_mem array_base =
    (if ch_tee_supported (re_chip R) then
       dbind (on_dev (deref ds_mems cmdbuf_mem)) (\<lambda>m.
       dbind (on_dev (run_cmdbuf_tee (re_env R) rt_handle (bm_p_addr m) array_base)) (\<lambda>(ret, n).
       if ret \<noteq> BM_SUCCESS then dret (re_rc R ret)
       else dbind (on_dev (wait_cmdbuf_done (re_env R) rt_handle n)) (\<lambda>ret2. dret (re_rc R ret2))))
     else dfail AssertFailed)"

section \<open>Memory\<close>

definition MemAlloc :: "rtenv \<Rightarrow> ptr \<Rightarrow> u64 \<Rightarrow> ptr rtm" where
  "MemAlloc R rt_handle sz = on_dev (mem_alloc_raw (re_env R) rt_handle sz)"

definition MemPreAlloc :: "ptr \<Rightarrow> u64 \<Rightarrow> u64 \<Rightarrow> ptr rtm" where
  "MemPreAlloc mem offset sz = dthen (dassert (mem \<noteq> None)) (on_dev (dbind (deref ds_mems mem) (\<lambda>m.
     dthen (dassert (bm_size m \<ge> add64 sz offset))
    (new_mem \<lparr>bm_v_addr = add64 (bm_v_addr m) offset, bm_p_addr = add64 (bm_p_addr m) offset,
       bm_size = sz, bm_type = BMMEM_TYPE_DEVICE, bm_is_prealloc = True, bm_dma_fd = bm_dma_fd m,
       bm_user_ref_cnt = 0, bm_offset = 0\<rparr>))))"

definition MemFree :: "rtenv \<Rightarrow> ptr \<Rightarrow> ptr \<Rightarrow> unit rtm" where
  "MemFree R rt_handle mem = free_raw R rt_handle mem"

definition MemFreeEx :: "rtenv \<Rightarrow> u64 \<Rightarrow> unit rtm" where
  "MemFreeEx R p_addr = on_dev (mem_free_ex (re_env R) p_addr)"

definition MemGetSize :: "ptr \<Rightarrow> u64 rtm" where
  "MemGetSize mem = (if mem = None then dret 0 else on_dev (dbind (checked_mem mem) (\<lambda>m. dret (bm_size m))))"

definition MemGetPAddr :: "ptr \<Rightarrow> u64 rtm" where
  "MemGetPAddr mem = (if mem = None then dret 0 else on_dev (dbind (checked_mem mem) (\<lambda>m. dret (bm_p_addr m))))"

definition MemGetVAddr :: "ptr \<Rightarrow> u64 rtm" where
  "MemGetVAddr mem = (if mem = None then dret 0 else on_dev (dbind (checked_mem mem) (\<lambda>m. dret (bm_v_addr m))))"

definition MemIncRef :: "ptr \<Rightarrow> int rtm" where
  "MemIncRef mem = on_dev (dbind (checked_mem mem) (\<lambda>m. let n = to_s32 (bm_user_ref_cnt m + 1) in
     dthen (set_mem mem (m\<lparr>bm_user_ref_cnt := n\<rparr>)) (dret n)))"

definition MemDecRef :: "ptr \<Rightarrow> int rtm" where
  "MemDecRef mem = on_dev (dbind (checked_mem mem) (\<lambda>m. let n = to_s32 (bm_user_ref_cnt m - 1) in
     dthen (set_mem mem (m\<lparr>bm_user_ref_cnt := n\<rparr>)) (dret n)))"

definition MemFlushEx :: "rtenv \<Rightarrow> ptr \<Rightarrow> ptr \<Rightarrow> u64 \<Rightarrow> cvi_rc rtm" where
  "MemFlushEx R rt_handle mem len = on_dev (dbind (ctx_dev rt_handle) (\<lambda>d. dbind (deref ds_mems mem) (\<lambda>m.
     dbind (mem_flush_ext (re_env R) d (bm_dma_fd m) (bm_p_addr m) len) (\<lambda>r.
     dthen (dassert (r = BM_SUCCESS)) (dret 0)))))"

definition MemInvldEx :: "rtenv \<Rightarrow> ptr \<Rightarrow> ptr \<Rightarrow> u64 \<Rightarrow> cvi_rc rtm" where
  "MemInvldEx R rt_handle mem len = on_dev (dbind (ctx_dev rt_handle) (\<lambda>d. dbind (deref ds_mems mem) (\<lambda>m.
     dbind (mem_invld_ext (re_env R) d (bm_dma_fd m) (bm_p_addr m) len) (\<lambda>r.
     dthen (dassert (r = BM_SUCCESS)) (dret 0)))))"

definition MemFlush :: "rtenv \<Rightarrow> ptr \<Rightarrow> ptr \<Rightarrow> cvi_rc rtm" where
  "MemFlush R rt_handle mem = on_dev (dbind (ctx_dev rt_handle) (\<lambda>d. dbind (deref ds_mems mem) (\<lambda>m.
     dbind (mem_flush_ext (re_env R) d (bm_dma_fd m) (bm_p_addr m) (bm_size m)) (\<lambda>r.
     dthen (dassert (r = BM_SUCCESS)) (dret 0)))))"

definition MemInvld :: "rtenv \<Rightarrow> ptr \<Rightarrow> ptr \<Rightarrow> cvi_rc rtm" where
  "MemInvld R rt_handle mem = on_dev (dbind (ctx_dev rt_handle) (\<lambda>d. dbind (deref ds_mems mem) (\<lambda>m.
     dbind (mem_invld_ext (re_env R) d (bm_dma_fd m) (bm_p_addr m) (bm_size m)) (\<lambda>r.
     dthen (dassert (r = BM_SUCCESS)) (dret 0)))))"

text \<open>Copies between a host buffer, given by its address, and device memory.\<close>

definition MemCopyS2D :: "rtenv \<Rightarrow> ptr \<Rightarrow> ptr \<Rightarrow> u64 \<Rightarrow> cvi_rc rtm" where
  "MemCopyS2D R rt_handle dst src = on_dev (dbind (deref ds_mems dst) (\<lambda>m.
     dthen (memcpy_ram (bm_v_addr m) src (bm_size m))
    (dbind (ctx_dev rt_handle) (\<lambda>d.
     dbind (mem_flush_ext (re_env R) d (bm_dma_fd m) (bm_p_addr m) (bm_size m)) (\<lambda>r.
     dthen (dassert (r = BM_SUCCESS)) (dret 0))))))"

definition MemCopyS2DEx :: "rtenv \<Rightarrow> ptr \<Rightarrow> ptr \<Rightarrow> u64 \<Rightarrow> u64 \<Rightarrow> u64 \<Rightarrow> cvi_rc rtm" where
  "MemCopyS2DEx R rt_handle dst offset len src = on_dev (dbind (deref ds_mems dst) (\<lambda>m.
     dthen (dassert (add64 offset len \<le> bm_size m))
    (dthen (memcpy_ram (add64 (bm_v_addr m) offset) src len)
    (dbind (ctx_dev rt_handle) (\<lambda>d.
     dbind (mem_flush_ext (re_env R) d (bm_dma_fd m) (add64 (bm_p_addr m) offset) len) (\<lambda>r.
     dthen (dassert (r = BM_SUCCESS)) (dret 0)))))))"

definition MemCopyD2S :: "rtenv \<Rightarrow> ptr \<Rightarrow> u64 \<Rightarrow> ptr \<Rightarrow> cvi_rc rtm" where
  "MemCopyD2S R rt_handle dst src = on_dev (dbind (deref ds_mems src) (\<lambda>m.
     dbind (ctx_dev rt_handle) (\<lambda>d.
     dbind (mem_invld_ext (re_env R) d (bm_dma_fd m) (bm_p_addr m) (bm_size m)) (\<lambda>r.
     dthen (dassert (r = BM_SUCCESS))
    (dthen (memcpy_ram dst (bm_v_addr m) (bm_size m)) (dret 0))))))"

definition ParsePmuBuf :: "rtenv \<Rightarrow> ptr \<Rightarrow> (cvi_rc \<times> u64 \<times> u32) rtm" where
  "ParsePmuBuf R cmdbuf_mem = dbind (on_dev (parse_pmubuf cmdbuf_mem)) (\<lambda>(ret, start, len). dret (re_rc R ret, start, len))"

definition SetBaseReg :: "ptr \<Rightarrow> u32 \<Rightarrow> u64 \<Rightarrow> cvi_rc rtm" where
  "SetBaseReg rt_handle inx base_addr = on_dev (dbind (deref ds_ctxs rt_handle) (\<lambda>c.
     if inx = 0 then dthen (set_ctx rt_handle (c\<lparr>bc_array_base0 := base_addr\<rparr>)) (dret 0)
     else if inx = 1 then dthen (set_ctx rt_handle (c\<lparr>bc_array_base1 := base_addr\<rparr>)) (dret 0)
     else dfail AssertFailed))"

section \<open>An environment for concrete instances\<close>

definition demo_bmk :: bmk where
  "demo_bmk = \<lparr>bk_bdc_bit = 8, bk_tdma_bit = 6, bk_desc_bytes = 56, bk_enable_pmu = False,
     bk_dmabuf_size = (\<lambda>_ _. Inr (BM_SUCCESS, 256, 0)),
     bk_dmabuf_convert = (\<lambda>_ _ _ ram. Inr (BM_SUCCESS, ram)), bk_err_data = BM_ERR_OTHER 1\<rparr>"

definition demo_dso :: dso_env where
  "demo_dso = \<lparr>dso_write_ok = (\<lambda>_. False), dso_open_ok = (\<lambda>_. False), dso_num = (\<lambda>_. None), dso_funcs = (\<lambda>_. None)\<rparr>"

definition demo_rtenv :: rtenv where
  "demo_rtenv = \<lparr>re_env = demo_env, re_bmk = demo_bmk, re_chip = cv181x,
     re_rc = (\<lambda>e. if e = BM_SUCCESS then 0 else 1), re_tg_default_stride = (\<lambda>sh _. sh), re_g2g_tensor_copy = (\<lambda>_ _. [0]),
     re_malloc = (\<lambda>n sz. 1000000 + 4096 * n), re_pmu = False, re_protect = False, re_cpu_enabled = True,
     re_compress_enabled = False, re_device_chip = ''cv181x'', re_aarch64 = True,
     re_fb_model = (\<lambda>_. \<lparr>fm_major = 1, fm_minor = 4, fm_name = ''m'', fm_weight_map = None, fm_sections = [], fm_programs = []\<rparr>),
     re_lz4 = (\<lambda>_ _. None), re_dso = demo_dso, re_fb_version = (1, 4),
     re_run_cpu = (\<lambda>_ _ _ _. dret ()), re_fdiv128 = (\<lambda>x. x)\<rparr>"

definition demo_rt :: rt where
  "demo_rt = \<lparr>rt_d = demo_state, rt_next = 1, rt_khandles = Map.empty, rt_neurons = Map.empty,
     rt_bases = Map.empty, rt_programs = Map.empty, rt_models = Map.empty, rt_instances = Map.empty,
     rt_mallocs = 0, rt_alloc_cb = None, rt_free_cb = None, rt_shared_list = [], rt_max_shared = 0,
     rt_target_chip = ''cv181x'', rt_g_ctx = None, rt_g_ctx_ref_count = 0, rt_g_model_count = 0\<rparr>"

section \<open>Synchronous runs\<close>

text \<open>The submissions in a stretch of the log: descriptor and sequence number of each.\<close>

definition submits :: "syscall list \<Rightarrow> (int \<times> u32) list" where
  "submits l = concat (map (\<lambda>c. case c of SysSubmit _ fd n \<Rightarrow> [(fd, n)] | _ \<Rightarrow> []) l)"

lemma submits_append [simp]: "submits (a @ b) = submits a @ submits b"
  by (simp add: submits_def)

lemma submits_simps [simp]:
  "submits [] = []" "submits (SysSubmit d fd n # l) = (fd, n) # submits l" "submits (SysWait f n # l) = submits l"
  "submits (SysOpen p # l) = submits l" "submits (SysClose f # l) = submits l"
  "submits (SysFlush f a b c # l) = submits l" "submits (SysInvld f a b c # l) = submits l"
  "submits (SysMprotect a n w # l) = submits l"
  by (simp_all add: submits_def)

lemma submits_waits [simp]: "submits (replicate k (SysWait f n)) = []"
  by (induction k) simp_all

text \<open>How an operation extends the log: some calls, with the given submissions among them.\<close>

definition adds :: "(int \<times> u32) list \<Rightarrow> dstate \<Rightarrow> dstate \<Rightarrow> bool" where
  "adds S s t \<longleftrightarrow> (\<exists>seg. ds_log t = ds_log s @ seg \<and> submits seg = S)"

lemma adds_trans: "adds S s t \<Longrightarrow> adds T t u \<Longrightarrow> adds (S @ T) s u"
  by (auto simp: adds_def)

lemmas adds_then = adds_trans[of "[]", simplified] adds_trans[of _ _ _ "[]", simplified]

lemma adds_same_log: "ds_log t = ds_log s \<Longrightarrow> adds [] s t"
  by (auto simp: adds_def)

lemma reopen_adds: "reopen_dev E dev flag s = Inr (r, t) \<Longrightarrow> adds [] s t"
  by (auto simp: reopen_dev_def set_dev_def dm_inv adds_def split: if_splits)

lemma cache_retry_adds:
  assumes "\<And>fd. submits [call fd] = []"
  shows "cache_retry E dev call n ret s = Inr (r, t) \<Longrightarrow> adds [] s t"
proof (induction n arbitrary: ret s)
  case (Suc n)
  from Suc.prems obtain d :: bm_device and a u where u: "sys E (call (bd_dev_fd d)) s = Inr (a, u)"
    "(if sr_ret a \<noteq> 0 then dthen (reopen_dev E dev 1) (cache_retry E dev call n (sr_ret a)) else dret BM_SUCCESS) u = Inr (r, t)"
    unfolding cache_retry.simps deref_bind_Inr unfolding dbind_Inr by blast
  have su: "adds [] s u" using u(1) assms by (auto simp: sys_Inr adds_def)
  from u(2) show ?case
  proof (cases "sr_ret a = 0")
    case False
    with u(2) obtain x v where "reopen_dev E dev 1 u = Inr (x, v)" "cache_retry E dev call n (sr_ret a) v = Inr (r, t)"
      by (auto simp: dthen_Inr)
    from adds_then(1)[OF su adds_then(1)[OF reopen_adds[OF this(1)] Suc.IH[OF this(2)]]] show ?thesis .
  qed (use su in \<open>simp add: dm_basic_Inr\<close>)
qed (simp add: dm_inv adds_same_log)

lemma cache_adds:
  "mem_flush_ext E dev fd p n s = Inr (r, t) \<Longrightarrow> adds [] s t"
  "mem_invld_ext E dev fd p n s = Inr (r, t) \<Longrightarrow> adds [] s t"
  unfolding mem_flush_ext_def mem_invld_ext_def by (auto split: prod.splits elim!: cache_retry_adds[rotated])

lemma submit_dmabuf_adds:
  assumes "submit_dmabuf E dev fd n s = Inr (r, t)"
  shows "adds [(fd, n)] s t"
proof -
  obtain d :: bm_device and a u where u: "sys E (SysSubmit (bd_dev_fd d) fd n) s = Inr (a, u)"
    "(if sr_ret a \<noteq> 0 then dthen (reopen_dev E dev 1) (dret BM_ERR_FAILURE) else dret BM_SUCCESS) u = Inr (r, t)"
    using assms unfolding submit_dmabuf_def deref_bind_Inr unfolding dbind_Inr by blast
  have "adds [(fd, n)] s u" using u(1) by (auto simp: sys_Inr adds_def)
  moreover have "adds [] u t" using u(2) by (auto simp: dm_inv adds_same_log reopen_adds split: if_splits)
  ultimately show ?thesis by (rule adds_then(2))
qed

lemma submit_next_adds:
  assumes "submit_next E ctx fd s = Inr ((r, n), t)"
  shows "adds [(fd, n)] s t"
proof -
  obtain i c ret u where i: "ctx = Some i" "ds_ctxs s i = Some c" "submit_dmabuf E (bc_dev c) fd (bc_seq_no c) s = Inr (ret, u)"
    "dbind (next_seq ctx) (\<lambda>n. dret (if ret = BM_SUCCESS then BM_SUCCESS else BM_ERR_FAILURE, n)) u = Inr ((r, n), t)"
    using assms unfolding submit_next_def deref_bind_Inr unfolding dbind_Inr by auto
  have "ds_ctxs u i = Some c" using submit_dmabuf_log[OF i(3)] i(2) by (auto simp: same_store_def)
  then have n: "n = bc_seq_no c" "ds_log t = ds_log u" using i(1,4) by (auto simp: next_seq_def set_ctx_def dm_inv)
  from adds_then(2)[OF submit_dmabuf_adds[OF i(3)] adds_same_log[OF n(2)]] n(1) show ?thesis by simp
qed

lemma protect_adds:
  "(if b then mem_protect E v n else dret ()) s = Inr (x, t) \<Longrightarrow> adds [] s t"
  "(if b then mem_unprotect E v n else dret ()) s = Inr (x, t) \<Longrightarrow> adds [] s t"
  by (auto simp: mem_protect_def mem_unprotect_def dm_inv adds_def split: if_splits)

lemma store_bases_log: "store_bases v k bs s = Inr (x, t) \<Longrightarrow> ds_log t = ds_log s"
  by (induction v k bs arbitrary: s rule: store_bases.induct) (auto simp: store_u32_def dm_inv)

lemma run_cmdbuf_ex2_adds:
  assumes "run_cmdbuf_ex2 E ctx mem bases s = Inr ((r, n), t)"
  shows "\<exists>i m. mem = Some i \<and> ds_mems s i = Some m \<and> adds [(bm_dma_fd m, n)] s t"
proof -
  obtain i m s1 s2 s3 x y z where m: "mem = Some i" "ds_mems s i = Some m"
    and p1: "(if env_protect E then mem_unprotect E (bm_v_addr m) (bm_size m) else dret ()) s = Inr (y, s1)"
    and s2: "store_bases (bm_v_addr m) 0 (take 8 bases) s1 = Inr (x, s2)"
    and p3: "(if env_protect E then mem_protect E (bm_v_addr m) (bm_size m) else dret ()) s2 = Inr (z, s3)"
    and sub: "submit_next E ctx (bm_dma_fd m) s3 = Inr ((r, n), t)"
    using assms unfolding run_cmdbuf_ex2_def deref_bind_Inr unfolding dbind_Inr dthen_Inr dm_basic_Inr by blast
  have "adds [] s s3"
    using adds_then(1)[OF protect_adds(2)[OF p1] adds_then(1)[OF adds_same_log[OF store_bases_log[OF s2]] protect_adds(1)[OF p3]]] .
  from adds_then(1)[OF this submit_next_adds[OF sub]] m show ?thesis by blast
qed

lemma wait_dmabuf_ends:
  assumes "wait_dmabuf E dev n s = Inr (r, t)"
  shows "adds [] s t \<and> (\<exists>fd pre. ds_log t = pre @ [SysWait fd n])"
proof -
  obtain d :: bm_device and a where "wait_loop E (bd_dev_fd d) n (env_wait_fuel E) s = Inr (a, t)"
    using assms by (auto simp: wait_dmabuf_def dm_inv)
  from wait_loop_log[OF this] obtain j where t: "ds_log t = ds_log s @ replicate (Suc j) (SysWait (bd_dev_fd d) n)" by auto
  then have "ds_log t = (ds_log s @ replicate j (SysWait (bd_dev_fd d) n)) @ [SysWait (bd_dev_fd d) n]"
    by (simp add: replicate_append_same)
  then have "\<exists>fd pre. ds_log t = pre @ [SysWait fd n]" by blast
  moreover have "adds [] s t" using t unfolding adds_def by (intro exI[of _ "replicate (Suc j) (SysWait (bd_dev_fd d) n)"]) simp
  ultimately show ?thesis by blast
qed

lemma wait_cmdbuf_done_ends:
  "wait_cmdbuf_done E ctx n s = Inr (r, t) \<Longrightarrow> adds [] s t \<and> (\<exists>fd pre. ds_log t = pre @ [SysWait fd n])"
  by (auto simp: wait_cmdbuf_done_def ctx_dev_def dm_inv dest!: wait_dmabuf_ends)

lemma RunCmdbufEx_adds:
  assumes "RunCmdbufEx R ctx mem bases s = Inr (ret, t)"
  shows "\<exists>i m n. mem = Some i \<and> ds_mems (rt_d s) i = Some m \<and> adds [(bm_dma_fd m, n)] (rt_d s) (rt_d t) \<and>
    (re_rc R BM_ERR_FAILURE \<noteq> 0 \<longrightarrow> ret = 0 \<longrightarrow> (\<exists>fd pre. ds_log (rt_d t) = pre @ [SysWait fd n])) \<and>
    t = s\<lparr>rt_d := rt_d t\<rparr>"
proof -
  obtain r n d where d: "run_cmdbuf_ex2 (re_env R) ctx mem bases (rt_d s) = Inr ((r, n), d)"
    "(if r \<noteq> BM_SUCCESS then dret (re_rc R r)
     else dbind (on_dev (wait_cmdbuf_done (re_env R) ctx n)) (\<lambda>ret2. dret (re_rc R ret2))) (s\<lparr>rt_d := d\<rparr>) = Inr (ret, t)"
    using assms by (auto simp: RunCmdbufEx_def dbind_Inr on_dev_Inr split: prod.splits)
  from run_cmdbuf_ex2_adds[OF d(1)] obtain i m where m: "mem = Some i" "ds_mems (rt_d s) i = Some m"
    "adds [(bm_dma_fd m, n)] (rt_d s) d" by blast
  have r: "r = BM_SUCCESS \<or> r = BM_ERR_FAILURE"
    using d(1) by (auto simp: run_cmdbuf_ex2_def submit_next_def dm_inv split: if_splits)
  show ?thesis
  proof (cases "r = BM_SUCCESS")
    case True
    with d(2) obtain w e where "wait_cmdbuf_done (re_env R) ctx n d = Inr (w, e)" "t = s\<lparr>rt_d := e\<rparr>"
      by (auto simp: dm_inv)
    with wait_cmdbuf_done_ends[OF this(1)] m adds_then(2)[OF m(3)] show ?thesis by auto
  next
    case False
    with d(2) m r show ?thesis by (intro exI[of _ i] exI[of _ m] exI[of _ n]) (auto simp: dm_inv)
  qed
qed

text \<open>
  C17: \<^verbatim>\<open>CVI_RT_RunCmdbufEx\<close> is synchronous: it makes exactly one submission, of the given command
  buffer, and when it returns success its last kernel call was the wait for that very
  submission's sequence number.
\<close>

theorem run_cmdbuf_ex_synchronous:
  assumes "RunCmdbufEx R ctx mem bases s = Inr (ret, t)" "ds_mems (rt_d s) (the mem) = Some m"
    "re_rc R BM_ERR_FAILURE \<noteq> 0"
  shows "\<exists>n seg. ds_log (rt_d t) = ds_log (rt_d s) @ seg \<and> submits seg = [(bm_dma_fd m, n)] \<and>
    (ret = 0 \<longrightarrow> (\<exists>fd pre. seg = pre @ [SysWait fd n]))"
proof -
  from RunCmdbufEx_adds[OF assms(1)] assms(2) obtain n where a: "adds [(bm_dma_fd m, n)] (rt_d s) (rt_d t)"
    and w: "re_rc R BM_ERR_FAILURE \<noteq> 0 \<longrightarrow> ret = 0 \<longrightarrow> (\<exists>fd pre. ds_log (rt_d t) = pre @ [SysWait fd n])" by auto
  from a obtain seg where seg: "ds_log (rt_d t) = ds_log (rt_d s) @ seg" "submits seg = [(bm_dma_fd m, n)]"
    by (auto simp: adds_def)
  have "\<exists>fd pre. seg = pre @ [SysWait fd n]" if z: "ret = 0"
  proof -
    obtain fd pre where "ds_log (rt_d s) @ seg = pre @ [SysWait fd n]" using w z assms(3) seg(1) by metis
    moreover have "seg \<noteq> []" using seg(2) by auto
    ultimately show ?thesis by (metis append_butlast_last_id last_appendR last_snoc)
  qed
  with seg show ?thesis by blast
qed

theorem run_cmdbuf_ex_synchronous_witness:
  "\<exists>t n seg. RunCmdbufEx demo_rtenv (Some 2) (Some 3) [1, 2, 3, 4, 5, 6, 7, 8] demo_rt = Inr (0, t) \<and>
     ds_log (rt_d t) = seg \<and> submits seg = [(7, n)]"
proof -
  obtain t where t: "RunCmdbufEx demo_rtenv (Some 2) (Some 3) [1, 2, 3, 4, 5, 6, 7, 8] demo_rt = Inr (0, t)"
    by (simp add: RunCmdbufEx_def run_cmdbuf_ex2_def submit_next_def submit_dmabuf_def next_seq_def store_u32_def load_u16_def
        wait_cmdbuf_done_def wait_dmabuf_def demo_rtenv_def demo_rt_def on_dev_def dm_run demo_defs)
  have "ds_mems (rt_d demo_rt) (the (Some 3)) = Some demo_mem" "ds_log (rt_d demo_rt) = []" "bm_dma_fd demo_mem = 7"
    by (simp_all add: demo_rt_def demo_state_def demo_mem_def)
  with run_cmdbuf_ex_synchronous[OF t this(1)] t show ?thesis by (auto simp: demo_rtenv_def)
qed

end
