(* ===== verification/SharedMem.thy ===== *)
theory SharedMem
  imports CviRt
begin

text \<open>
  The allocation hooks (\<^verbatim>\<open>src/common/alloc.cpp\<close>) and the pool of neuron memory shared between models
  (\<^verbatim>\<open>src/common/shared_mem.cpp\<close>).  The pool's mutex makes its operations atomic.
\<close>

section \<open>Allocation hooks\<close>

definition cviMemAlloc :: "rtenv \<Rightarrow> ptr \<Rightarrow> u64 \<Rightarrow> cvi_alloc_type \<Rightarrow> string \<Rightarrow> ptr rtm" where
  "cviMemAlloc R rt_handle sz type name = dbind (dget rt_alloc_cb) (\<lambda>cb. case cb of
     None \<Rightarrow> MemAlloc R rt_handle sz
   | Some f \<Rightarrow> on_dev (f rt_handle sz type name))"

definition cviMemFree :: "rtenv \<Rightarrow> ptr \<Rightarrow> ptr \<Rightarrow> unit rtm" where
  "cviMemFree R rt_handle mem = dbind (dget rt_free_cb) (\<lambda>cb. case cb of
     None \<Rightarrow> MemFree R rt_handle mem
   | Some f \<Rightarrow> on_dev (f rt_handle mem))"

definition cviSetMemCallback ::
  "(ptr \<Rightarrow> u64 \<Rightarrow> cvi_alloc_type \<Rightarrow> string \<Rightarrow> ptr dm) option \<Rightarrow> (ptr \<Rightarrow> ptr \<Rightarrow> unit dm) option \<Rightarrow> cvi_rc rtm" where
  "cviSetMemCallback alloc_cb free_cb =
    (if Option.is_none alloc_cb then dret (-1)
     else if Option.is_none free_cb then dret (-1)
     else dthen (dmodify (\<lambda>s. s\<lparr>rt_alloc_cb := alloc_cb, rt_free_cb := free_cb\<rparr>)) (dret 0))"

definition cviResetMemCallback :: "unit rtm" where
  "cviResetMemCallback = dmodify (\<lambda>s. s\<lparr>rt_alloc_cb := None, rt_free_cb := None\<rparr>)"

section \<open>The pool\<close>

text \<open>
  \<^verbatim>\<open>mask\<close> is 32 bits wide, so \<^verbatim>\<open>~mask\<close> is extended with zeros to the 64 bits of \<^verbatim>\<open>size\<close>.
\<close>

definition page_round :: "u64 \<Rightarrow> u64" where
  "page_round sz = unat (and (of_nat sz + 0xFFF) (ucast (not (0xFFF :: 32 word))) :: 64 word)"

definition setSharedMemSize :: "u64 \<Rightarrow> unit rtm" where
  "setSharedMemSize sz = dmodify (\<lambda>s. s\<lparr>rt_max_shared := max (rt_max_shared s) (page_round sz)\<rparr>)"

text \<open>The first memory of the list that is large enough.\<close>

fun find_shared :: "u64 \<Rightarrow> ptr list \<Rightarrow> ptr option rtm" where
  "find_shared sz [] = dret None"
| "find_shared sz (mem # rest) = dbind (MemGetSize mem) (\<lambda>n.
     if n \<ge> sz then dret (Some mem) else find_shared sz rest)"

text \<open>Insertion before the first memory that is smaller; none is smaller: no insertion.\<close>

fun insert_shared :: "u64 \<Rightarrow> ptr \<Rightarrow> ptr list \<Rightarrow> ptr list rtm" where
  "insert_shared sz mem [] = dret []"
| "insert_shared sz mem (x # rest) = dbind (MemGetSize x) (\<lambda>n.
     if n < sz then dret (mem # x # rest)
     else dbind (insert_shared sz mem rest) (\<lambda>l. dret (x # l)))"

definition allocateSharedMemory :: "rtenv \<Rightarrow> ptr \<Rightarrow> u64 \<Rightarrow> ptr rtm" where
  "allocateSharedMemory R ctx sz0 = dbind (dget rt_max_shared) (\<lambda>gmax.
     let sz = max gmax sz0 in
     dbind (dget rt_shared_list) (\<lambda>l.
     dbind (find_shared sz l) (\<lambda>found. case found of
       Some mem \<Rightarrow> dthen (MemIncRef mem) (dret mem)
     | None \<Rightarrow>
         dbind (cviMemAlloc R ctx sz CVI_ALLOC_SHARED ''SharedMemory'') (\<lambda>mem.
         if mem = None then dret None
         else dthen (MemIncRef mem)
           (dbind (if l = [] then dret [mem] else insert_shared sz mem l) (\<lambda>l'.
            dthen (dmodify (\<lambda>s. s\<lparr>rt_shared_list := l'\<rparr>)) (dret mem)))))))"

definition deallocateSharedMemory :: "rtenv \<Rightarrow> ptr \<Rightarrow> ptr \<Rightarrow> unit rtm" where
  "deallocateSharedMemory R ctx mem = dbind (dget rt_shared_list) (\<lambda>l.
     if mem \<in> set l then
       dbind (MemDecRef mem) (\<lambda>n.
       if n = 0 then dthen (dmodify (\<lambda>s. s\<lparr>rt_shared_list := filter (\<lambda>x. x \<noteq> mem) (rt_shared_list s)\<rparr>)) (cviMemFree R ctx mem)
       else dret ())
     else cviMemFree R ctx mem)"

section \<open>Sharing is by reference count\<close>

text \<open>
  The invariant relates the state to the multiset of memories handed out and not yet given back:
  the list holds exactly those, largest first, each with as many references as it was handed out,
  and the process has no other memory objects than the ones it started with and those.
\<close>

definition mem_of :: "rt \<Rightarrow> ptr \<Rightarrow> bm_memory option" where
  "mem_of s p = (case p of None \<Rightarrow> None | Some i \<Rightarrow> ds_mems (rt_d s) i)"

definition size_of :: "rt \<Rightarrow> ptr \<Rightarrow> u64" where
  "size_of s p = bm_size (the (mem_of s p))"

definition pool_refs :: "rt \<Rightarrow> ptr multiset \<Rightarrow> bool" where
  "pool_refs s U \<longleftrightarrow> set (rt_shared_list s) = set_mset U \<and>
     (\<forall>p\<in>#U. \<exists>m. mem_of s p = Some m \<and> bm_type m = BMMEM_TYPE_DEVICE \<and> bm_user_ref_cnt m = int (count U p)) \<and>
     sorted_wrt (\<lambda>p q. size_of s q < size_of s p) (rt_shared_list s)"

datatype shared_op = SAlloc u64 | SFree ptr | SSetSize u64

fun run_shared :: "rtenv \<Rightarrow> ptr \<Rightarrow> shared_op list \<Rightarrow> ptr multiset \<Rightarrow> ptr multiset rtm" where
  "run_shared R ctx [] U = dret U"
| "run_shared R ctx (SAlloc sz # ops) U = dbind (allocateSharedMemory R ctx sz) (\<lambda>p. run_shared R ctx ops (add_mset p U))"
| "run_shared R ctx (SFree p # ops) U = dthen (dassert (p \<in># U)) (dthen (deallocateSharedMemory R ctx p) (run_shared R ctx ops (U - {#p#})))"
| "run_shared R ctx (SSetSize sz # ops) U = dthen (setSharedMemSize sz) (run_shared R ctx ops U)"

lemma mem_of_max [simp]: "mem_of (s\<lparr>rt_max_shared := x\<rparr>) = mem_of s" "size_of (s\<lparr>rt_max_shared := x\<rparr>) = size_of s"
  by (auto simp: fun_eq_iff mem_of_def size_of_def split: option.splits)

lemma MemGetSize_eq: "mem_of s p = Some m \<Longrightarrow> bm_type m = BMMEM_TYPE_DEVICE \<Longrightarrow> MemGetSize p s = Inr (size_of s p, s)"
  by (cases p) (simp_all add: MemGetSize_def mem_of_def size_of_def on_dev_def dm_run)

lemma find_shared_eq:
  assumes "\<And>p. p \<in> set l \<Longrightarrow> \<exists>m. mem_of s p = Some m \<and> bm_type m = BMMEM_TYPE_DEVICE"
  shows "find_shared sz l s = Inr (find (\<lambda>p. sz \<le> size_of s p) l, s)"
  using assms
proof (induction l)
  case (Cons p l)
  from Cons.prems[of p] obtain m where "mem_of s p = Some m" "bm_type m = BMMEM_TYPE_DEVICE" by auto
  with Cons show ?case by (simp add: dbind_def dret_def MemGetSize_eq)
qed (simp add: dret_def)

lemma insert_shared_eq:
  assumes "l \<noteq> []" "\<exists>m. mem_of s (hd l) = Some m \<and> bm_type m = BMMEM_TYPE_DEVICE" "size_of s (hd l) < sz"
  shows "insert_shared sz mem l s = Inr (mem # l, s)"
  using assms by (cases l) (auto simp: dbind_def dret_def MemGetSize_eq)

lemma MemIncRef_eq:
  assumes "mem_of s p = Some m" "bm_type m = BMMEM_TYPE_DEVICE" "0 \<le> bm_user_ref_cnt m" "bm_user_ref_cnt m + 1 < 2 ^ 31"
  shows "MemIncRef p s = Inr (bm_user_ref_cnt m + 1,
     s\<lparr>rt_d := (rt_d s)\<lparr>ds_mems := (ds_mems (rt_d s))(the p \<mapsto> m\<lparr>bm_user_ref_cnt := bm_user_ref_cnt m + 1\<rparr>)\<rparr>\<rparr>)"
  using assms by (cases p) (simp_all add: MemIncRef_def mem_of_def on_dev_def dm_run to_s32_def Let_def algebra_simps)

lemma MemDecRef_eq:
  assumes "mem_of s p = Some m" "bm_type m = BMMEM_TYPE_DEVICE" "0 < bm_user_ref_cnt m" "bm_user_ref_cnt m < 2 ^ 31"
  shows "MemDecRef p s = Inr (bm_user_ref_cnt m - 1,
     s\<lparr>rt_d := (rt_d s)\<lparr>ds_mems := (ds_mems (rt_d s))(the p \<mapsto> m\<lparr>bm_user_ref_cnt := bm_user_ref_cnt m - 1\<rparr>)\<rparr>\<rparr>)"
  using assms by (cases p) (simp_all add: MemDecRef_def mem_of_def on_dev_def dm_run to_s32_def Let_def algebra_simps)

text \<open>What an operation on one memory does to the invariant.\<close>

lemma size_of_upd:
  assumes "ds_mems (rt_d t) = (ds_mems (rt_d s))(i \<mapsto> m')" "ds_mems (rt_d s) i = Some m" "bm_size m' = bm_size m"
  shows "size_of t q = size_of s q"
  using assms by (auto simp: size_of_def mem_of_def split: option.splits)

lemma pool_refs_SomeD: "pool_refs s U \<Longrightarrow> p \<in># U \<Longrightarrow> \<exists>i m. p = Some i \<and> ds_mems (rt_d s) i = Some m \<and>
    bm_type m = BMMEM_TYPE_DEVICE \<and> bm_user_ref_cnt m = int (count U p)"
  by (cases p) (auto simp: pool_refs_def mem_of_def)

lemma pool_refsI:
  assumes "set (rt_shared_list s) = set_mset U"
    "\<And>p. p \<in># U \<Longrightarrow> \<exists>m. mem_of s p = Some m \<and> bm_type m = BMMEM_TYPE_DEVICE \<and> bm_user_ref_cnt m = int (count U p)"
    "sorted_wrt (\<lambda>p q. size_of s q < size_of s p) (rt_shared_list s)"
  shows "pool_refs s U"
  using assms by (simp add: pool_refs_def)

lemma pool_refs_change:
  assumes "pool_refs s U" "Some i \<in># U" "ds_mems (rt_d s) i = Some m" "rt_shared_list t = rt_shared_list s"
    "ds_mems (rt_d t) = (ds_mems (rt_d s))(i \<mapsto> m\<lparr>bm_user_ref_cnt := int (count V (Some i))\<rparr>)"
    "set_mset V = set_mset U" "\<And>q. q \<noteq> Some i \<Longrightarrow> count V q = count U q"
  shows "pool_refs t V"
proof (rule pool_refsI)
  have sz: "size_of t = size_of s" using size_of_upd[OF assms(5,3)] by auto
  show "sorted_wrt (\<lambda>p q. size_of t q < size_of t p) (rt_shared_list t)" "set (rt_shared_list t) = set_mset V"
    using assms(1,4,6) by (simp_all add: pool_refs_def sz)
  fix q assume "q \<in># V"
  then have "q \<in># U" using assms(6) by simp
  from pool_refs_SomeD[OF assms(1) this] obtain j k where j: "q = Some j" "ds_mems (rt_d s) j = Some k"
    "bm_type k = BMMEM_TYPE_DEVICE" "bm_user_ref_cnt k = int (count U q)" by blast
  with assms(3,5,7) show "\<exists>m. mem_of t q = Some m \<and> bm_type m = BMMEM_TYPE_DEVICE \<and> bm_user_ref_cnt m = int (count V q)"
    by (cases "j = i") (simp_all add: mem_of_def)
qed

lemma pool_refs_add:
  assumes "pool_refs s U" "ds_mems (rt_d s) i = None" "ds_mems (rt_d t) = (ds_mems (rt_d s))(i \<mapsto> m)"
    "rt_shared_list t = Some i # rt_shared_list s" "bm_type m = BMMEM_TYPE_DEVICE" "bm_user_ref_cnt m = 1"
    "\<And>q. q \<in># U \<Longrightarrow> size_of s q < bm_size m"
  shows "pool_refs t (add_mset (Some i) U)"
proof -
  have n: "Some i \<notin># U" using pool_refs_SomeD[OF assms(1), of "Some i"] assms(2) by auto
  then have c: "count U (Some i) = 0" by (simp add: not_in_iff)
  have m: "mem_of t q = mem_of s q" "size_of t q = size_of s q" if "q \<in># U" for q
    using that n assms(3) by (auto simp: mem_of_def size_of_def split: option.splits)
  have "size_of t (Some i) = bm_size m" using assms(3) by (simp add: size_of_def mem_of_def)
  moreover have "sorted_wrt (\<lambda>p q. size_of t q < size_of t p) (rt_shared_list s)"
    using assms(1) m(2) unfolding pool_refs_def by (elim conjE sorted_wrt_mono_rel[rotated]) auto
  ultimately have "sorted_wrt (\<lambda>p q. size_of t q < size_of t p) (rt_shared_list t)"
    using assms(1,4,7) m(2) by (simp add: pool_refs_def)
  moreover have "\<exists>k. mem_of t q = Some k \<and> bm_type k = BMMEM_TYPE_DEVICE \<and>
      bm_user_ref_cnt k = int (count (add_mset (Some i) U) q)" if "q \<in># add_mset (Some i) U" for q
  proof (cases "q = Some i")
    case True
    with assms(3,5,6) c show ?thesis by (simp add: mem_of_def)
  next
    case False
    with that m(1) assms(1) show ?thesis by (simp add: pool_refs_def)
  qed
  ultimately show ?thesis using assms(1,4) by (intro pool_refsI) (simp_all add: pool_refs_def)
qed

lemma pool_refs_remove:
  assumes "pool_refs s U" "count U (Some i) = 1" "ds_mems (rt_d t) = (ds_mems (rt_d s))(i := None)"
    "rt_shared_list t = filter (\<lambda>x. x \<noteq> Some i) (rt_shared_list s)"
  shows "pool_refs t (U - {#Some i#})"
proof -
  have n: "Some i \<notin># U - {#Some i#}" using assms(2) by (simp add: in_diff_count)
  then have sub: "q \<in># U - {#Some i#} \<longleftrightarrow> q \<in># U \<and> q \<noteq> Some i" for q
    by (cases "q = Some i") (simp_all add: in_diff_count)
  have m: "mem_of t q = mem_of s q" "size_of t q = size_of s q" if "q \<noteq> Some i" for q
    using that assms(3) by (auto simp: mem_of_def size_of_def split: option.splits)
  have "sorted_wrt (\<lambda>p q. size_of s q < size_of s p) (rt_shared_list t)"
    using assms(1,4) by (simp add: pool_refs_def sorted_wrt_filter)
  then have "sorted_wrt (\<lambda>p q. size_of t q < size_of t p) (rt_shared_list t)"
    using m(2) assms(4) by (elim sorted_wrt_mono_rel[rotated]) auto
  moreover have "\<exists>k. mem_of t q = Some k \<and> bm_type k = BMMEM_TYPE_DEVICE \<and>
      bm_user_ref_cnt k = int (count (U - {#Some i#}) q)" if "q \<in># U - {#Some i#}" for q
    using that m(1)[of q] sub[of q] assms(1) by (auto simp: pool_refs_def)
  moreover have "set (rt_shared_list t) = set_mset (U - {#Some i#})"
    using assms(1,4) sub by (auto simp: pool_refs_def)
  ultimately show ?thesis by (intro pool_refsI)
qed

text \<open>
  A pool over the default hooks and a chip whose memory operations obey the memory contract.
\<close>

definition pool_good :: "(dstate \<Rightarrow> bool) \<Rightarrow> nat set \<Rightarrow> rt \<Rightarrow> ptr multiset \<Rightarrow> bool" where
  "pool_good okay D s U \<longleftrightarrow> okay (rt_d s) \<and> rt_alloc_cb s = None \<and> rt_free_cb s = None \<and> pool_refs s U \<and>
     dom (ds_mems (rt_d s)) = D \<union> the ` set_mset U \<and> D \<inter> the ` set_mset U = {}"

lemma allocateSharedMemory_eq:
  assumes "pool_refs s U"
  shows "allocateSharedMemory R ctx sz s =
    (case find (\<lambda>p. max (rt_max_shared s) sz \<le> size_of s p) (rt_shared_list s) of
       Some mem \<Rightarrow> dthen (MemIncRef mem) (dret mem) s
     | None \<Rightarrow> dbind (cviMemAlloc R ctx (max (rt_max_shared s) sz) CVI_ALLOC_SHARED ''SharedMemory'') (\<lambda>mem.
         if mem = None then dret None
         else dthen (MemIncRef mem)
           (dbind (if rt_shared_list s = [] then dret [mem]
                   else insert_shared (max (rt_max_shared s) sz) mem (rt_shared_list s)) (\<lambda>l'.
            dthen (dmodify (\<lambda>s. s\<lparr>rt_shared_list := l'\<rparr>)) (dret mem)))) s)"
proof -
  have "find_shared n (rt_shared_list s) s = Inr (find (\<lambda>p. n \<le> size_of s p) (rt_shared_list s), s)" for n
    using assms pool_refs_SomeD[OF assms] by (intro find_shared_eq) (fastforce simp: mem_of_def pool_refs_def)
  then show ?thesis by (simp add: allocateSharedMemory_def Let_def dbind_step split: option.splits)
qed

locale shared_pool = mem_provider alloc release okay
  for alloc :: "ptr \<Rightarrow> u64 \<Rightarrow> ptr dm" and release :: "ptr \<Rightarrow> ptr \<Rightarrow> unit dm" and okay :: "dstate \<Rightarrow> bool" +
  fixes R :: rtenv
  assumes hook_alloc: "alloc = mem_alloc_raw (re_env R)"
    and hook_release: "release = ch_mem_free_raw (re_chip R) (re_env R)"
    and okay_refs: "okay s \<Longrightarrow> ds_mems s i = Some m \<Longrightarrow> okay (s\<lparr>ds_mems := (ds_mems s)(i \<mapsto> m')\<rparr>)"
begin

lemma allocate_good:
  assumes g: "pool_good okay D s U" and n: "size U < 2 ^ 31 - 1"
    and a: "allocateSharedMemory R ctx sz s = Inr (p, t)"
  shows "pool_good okay D t (add_mset p U) \<and> max (rt_max_shared s) sz \<le> size_of t p"
proof -
  let ?n = "max (rt_max_shared s) sz"
  have pr: "pool_refs s U" and cb: "rt_alloc_cb s = None" and ok: "okay (rt_d s)"
    and l: "set (rt_shared_list s) = set_mset U" using g by (auto simp: pool_good_def pool_refs_def)
  note a' = a[unfolded allocateSharedMemory_eq[OF pr]]
  show ?thesis
  proof (cases "find (\<lambda>p. ?n \<le> size_of s p) (rt_shared_list s)")
    case (Some q)
    then have q: "q \<in># U" "?n \<le> size_of s q" using l by (auto simp: find_Some_iff dest: nth_mem)
    from pool_refs_SomeD[OF pr q(1)] obtain i m where m: "q = Some i" "ds_mems (rt_d s) i = Some m"
      "bm_type m = BMMEM_TYPE_DEVICE" "bm_user_ref_cnt m = int (count U q)" by blast
    have c: "count U q \<le> size U" by (rule count_le_size)
    have "MemIncRef q s = Inr (bm_user_ref_cnt m + 1,
       s\<lparr>rt_d := (rt_d s)\<lparr>ds_mems := (ds_mems (rt_d s))(i \<mapsto> m\<lparr>bm_user_ref_cnt := bm_user_ref_cnt m + 1\<rparr>)\<rparr>\<rparr>)"
      using MemIncRef_eq[of s q m] m c n by (simp add: mem_of_def)
    with a' Some have p: "p = q" and t: "t = s\<lparr>rt_d := (rt_d s)\<lparr>ds_mems := (ds_mems (rt_d s))(i \<mapsto> m\<lparr>bm_user_ref_cnt := bm_user_ref_cnt m + 1\<rparr>)\<rparr>\<rparr>"
      by (auto simp: dthen_Inr dm_basic_Inr)
    have "pool_refs t (add_mset q U)"
      using q(1) m t by (intro pool_refs_change[OF pr, of i m]) auto
    moreover have "size_of t q = size_of s q"
      using t m by (intro size_of_upd[of t s i "m\<lparr>bm_user_ref_cnt := bm_user_ref_cnt m + 1\<rparr>" m]) auto
    moreover have "i \<in> the ` set_mset U" using q(1) m(1) by force
    ultimately show ?thesis using g p t m q okay_refs[OF ok m(2)] by (simp add: pool_good_def insert_absorb)
  next
    case None
    then have small: "size_of s q < ?n" if "q \<in># U" for q using that l by (auto simp: find_None_iff not_le)
    from a'[unfolded None option.case] obtain q u where u: "cviMemAlloc R ctx ?n CVI_ALLOC_SHARED ''SharedMemory'' s = Inr (q, u)"
      and k: "(if q = None then dret None else dthen (MemIncRef q)
           (dbind (if rt_shared_list s = [] then dret [q] else insert_shared ?n q (rt_shared_list s)) (\<lambda>l'.
            dthen (dmodify (\<lambda>s. s\<lparr>rt_shared_list := l'\<rparr>)) (dret q)))) u = Inr (p, t)"
      unfolding dbind_Inr[of "cviMemAlloc R ctx ?n CVI_ALLOC_SHARED ''SharedMemory''"] by blast
    from u cb obtain d where d: "alloc ctx ?n (rt_d s) = Inr (q, d)" "u = s\<lparr>rt_d := d\<rparr>"
      by (auto simp: cviMemAlloc_def MemAlloc_def hook_alloc on_dev_Inr)
    from alloc_law[OF d(1) ok] obtain i m where m: "q = Some i" "ds_mems (rt_d s) i = None" "ds_mems d = (ds_mems (rt_d s))(i \<mapsto> m)"
      "bm_size m = ?n" "bm_user_ref_cnt m = 0" "bm_type m = BMMEM_TYPE_DEVICE" "okay d" by blast
    let ?m = "m\<lparr>bm_user_ref_cnt := 1\<rparr>"
    let ?v = "u\<lparr>rt_d := d\<lparr>ds_mems := (ds_mems (rt_d s))(i \<mapsto> ?m)\<rparr>\<rparr>"
    have inc: "MemIncRef q u = Inr (1, ?v)" using MemIncRef_eq[of u q m] m d(2) by (simp add: mem_of_def)
    have ins: "(if rt_shared_list s = [] then dret [q] else insert_shared ?n q (rt_shared_list s)) ?v = Inr (q # rt_shared_list s, ?v)"
    proof (cases "rt_shared_list s = []")
      case False
      then have h: "hd (rt_shared_list s) \<in># U" using l by (metis hd_in_set)
      then obtain j k where j: "hd (rt_shared_list s) = Some j" "ds_mems (rt_d s) j = Some k" "bm_type k = BMMEM_TYPE_DEVICE"
        using pool_refs_SomeD[OF pr] by blast
      have "insert_shared ?n q (rt_shared_list s) ?v = Inr (q # rt_shared_list s, ?v)"
        using m(2) small[OF h] False j by (intro insert_shared_eq) (auto simp: mem_of_def size_of_def)
      with False show ?thesis by simp
    qed (simp add: dret_def)
    from k m(1) have p: "p = q" and t: "t = ?v\<lparr>rt_shared_list := q # rt_shared_list s\<rparr>"
      using inc ins by (auto simp: dthen_Inr dbind_Inr dm_basic_Inr)
    have "pool_refs t (add_mset (Some i) U)"
      using small m d(2) t by (intro pool_refs_add[OF pr m(2), of t ?m]) auto
    moreover have "okay (rt_d t)" using okay_refs[OF m(7), of i m ?m] m(3) t d(2) by simp
    moreover have "i \<notin> dom (ds_mems (rt_d s))" using m(2) by auto
    ultimately show ?thesis using g p t m d(2) by (auto simp: pool_good_def size_of_def mem_of_def)
  qed
qed

lemma deallocate_good:
  assumes g: "pool_good okay D s U" and n: "size U < 2 ^ 31" "p \<in># U"
    and a: "deallocateSharedMemory R ctx p s = Inr (x, t)"
  shows "pool_good okay D t (U - {#p#})"
proof -
  have pr: "pool_refs s U" and cb: "rt_free_cb s = None" and ok: "okay (rt_d s)"
    and l: "set (rt_shared_list s) = set_mset U" using g by (auto simp: pool_good_def pool_refs_def)
  from pool_refs_SomeD[OF pr n(2)] obtain i m where m: "p = Some i" "ds_mems (rt_d s) i = Some m"
    "bm_type m = BMMEM_TYPE_DEVICE" "bm_user_ref_cnt m = int (count U p)" by blast
  have c: "0 < count U p" "count U p \<le> size U" using n(2) by (simp_all add: count_le_size)
  let ?m = "m\<lparr>bm_user_ref_cnt := int (count U p - 1)\<rparr>"
  let ?v = "s\<lparr>rt_d := (rt_d s)\<lparr>ds_mems := (ds_mems (rt_d s))(i \<mapsto> ?m)\<rparr>\<rparr>"
  have dec: "MemDecRef p s = Inr (int (count U p) - 1, ?v)"
    using MemDecRef_eq[of s p m] m c n by (simp add: mem_of_def of_nat_diff)
  have D: "i \<in> the ` set_mset U" "i \<notin> D" using n(2) m(1) g by (force simp: pool_good_def)+
  have okv: "okay (rt_d ?v)" using okay_refs[OF ok m(2)] by simp
  show ?thesis
  proof (cases "count U p = 1")
    case True
    let ?w = "?v\<lparr>rt_shared_list := filter (\<lambda>x. x \<noteq> p) (rt_shared_list s)\<rparr>"
    have "cviMemFree R ctx p ?w = Inr (x, t)"
      using a n(2) l dec True by (auto simp: deallocateSharedMemory_def dbind_Inr dthen_Inr dm_basic_Inr)
    then obtain d where d: "release ctx p (rt_d ?w) = Inr (x, d)" "t = ?w\<lparr>rt_d := d\<rparr>"
      using cb by (auto simp: cviMemFree_def MemFree_def free_raw_def hook_release on_dev_Inr)
    with release_law[OF d(1)] okv m(1) have r: "ds_mems d = (ds_mems (rt_d s))(i := None)" "okay d" by auto
    have "pool_refs t (U - {#Some i#})"
      using True m(1) r d(2) by (intro pool_refs_remove[OF pr, of i t]) auto
    moreover have "set_mset (U - {#p#}) = set_mset U - {p}"
      using True by (intro set_eqI) (auto simp: in_diff_count simp flip: count_greater_zero_iff split: if_splits)
    then have "the ` set_mset (U - {#p#}) = the ` set_mset U - {i}"
      using m(1) pool_refs_SomeD[OF pr] by (force simp: image_iff)
    ultimately show ?thesis using g m(1) r d(2) cb D by (auto simp: pool_good_def)
  next
    case False
    then have t: "t = ?v" using a n(2) l dec c(1)
      by (auto simp: deallocateSharedMemory_def dbind_Inr dm_basic_Inr)
    have s: "set_mset (U - {#p#}) = set_mset U"
      using False c(1) by (intro set_eqI) (auto simp: in_diff_count simp flip: count_greater_zero_iff split: if_splits)
    have "pool_refs t (U - {#p#})"
      using n(2) m t s by (intro pool_refs_change[OF pr, of i m]) auto
    then show ?thesis using g t okv s D(1) m(2) by (simp add: pool_good_def insert_absorb)
  qed
qed

lemma run_good:
  "\<lbrakk>run_shared R ctx ops U s = Inr (V, t); pool_good okay D s U; size U + length ops < 2 ^ 31\<rbrakk> \<Longrightarrow> pool_good okay D t V"
proof (induction ops arbitrary: U s)
  case (Cons op ops)
  show ?case
  proof (cases op)
    case (SAlloc sz)
    with Cons.prems obtain p u where p: "allocateSharedMemory R ctx sz s = Inr (p, u)"
      "run_shared R ctx ops (add_mset p U) u = Inr (V, t)" by (auto simp: dbind_Inr)
    with Cons.prems allocate_good[OF Cons.prems(2) _ p(1)] show ?thesis by (intro Cons.IH[OF p(2)]) auto
  next
    case (SFree p)
    with Cons.prems obtain x u where p: "p \<in># U" "deallocateSharedMemory R ctx p s = Inr (x, u)"
      "run_shared R ctx ops (U - {#p#}) u = Inr (V, t)" by (auto simp: dthen_Inr dm_basic_Inr)
    with Cons.prems deallocate_good[OF Cons.prems(2) _ p(1,2)] show ?thesis
      by (intro Cons.IH[OF p(3)]) (auto simp: size_Diff_singleton)
  next
    case (SSetSize sz)
    with Cons.prems have "run_shared R ctx ops U (s\<lparr>rt_max_shared := max (rt_max_shared s) (page_round sz)\<rparr>) = Inr (V, t)"
      by (auto simp: setSharedMemSize_def dthen_Inr dm_basic_Inr)
    moreover have "pool_good okay D (s\<lparr>rt_max_shared := max (rt_max_shared s) (page_round sz)\<rparr>) U"
      using Cons.prems(2) by (simp add: pool_good_def pool_refs_def)
    ultimately show ?thesis using Cons.IH Cons.prems(3) by simp
  qed
qed (simp add: dm_inv)

end

lemma fresh_mems_upd: "fresh_mems s \<Longrightarrow> ds_mems s i = Some m \<Longrightarrow> fresh_mems (s\<lparr>ds_mems := (ds_mems s)(i \<mapsto> m')\<rparr>)"
  by (auto simp: fresh_mems_def)

interpretation pool180: shared_pool "mem_alloc_raw (re_env R)" "mem_free_raw (re_env R)" fresh_mems "R\<lparr>re_chip := cv180x\<rparr>" for R
  by unfold_locales (simp_all add: cv180x_def fresh_mems_upd)

interpretation pool181: shared_pool "mem_alloc_raw (re_env R)" "mem_free_raw (re_env R)" fresh_mems "R\<lparr>re_chip := cv181x\<rparr>" for R
  by unfold_locales (simp_all add: cv181x_def fresh_mems_upd)

interpretation pool182: shared_pool "mem_alloc_raw (re_env R)" "mem_free_raw (re_env R)" fresh_mems "R\<lparr>re_chip := cv182x\<rparr>" for R
  by unfold_locales (simp_all add: cv182x_def fresh_mems_upd)

interpretation pool183: shared_pool "mem_alloc_raw (re_env R)" "mem_free_raw_183x (re_env R)" fresh_mems "R\<lparr>re_chip := cv183x\<rparr>" for R
  by unfold_locales (simp_all add: cv183x_def fresh_mems_upd)

lemma run_good_any_chip:
  assumes "re_chip R \<in> {cv180x, cv181x, cv182x, cv183x}" "run_shared R ctx ops U s = Inr (V, t)"
    "pool_good fresh_mems D s U" "size U + length ops < 2 ^ 31"
  shows "pool_good fresh_mems D t V"
proof -
  have e: "R\<lparr>re_chip := c\<rparr> = R" if "re_chip R = c" for c using that by auto
  from assms(1) consider "re_chip R = cv180x" | "re_chip R = cv181x" | "re_chip R = cv182x" | "re_chip R = cv183x" by auto
  then show ?thesis
    using pool180.run_good[of R, OF _ assms(3,4)] pool181.run_good[of R, OF _ assms(3,4)]
      pool182.run_good[of R, OF _ assms(3,4)] pool183.run_good[of R, OF _ assms(3,4)] assms(2)
    by cases (simp_all add: e)
qed

text \<open>
  C13: shared neuron memory is reference counted exactly: after any sequence of
  \<^verbatim>\<open>allocateSharedMemory\<close>, \<^verbatim>\<open>deallocateSharedMemory\<close> and \<^verbatim>\<open>setSharedMemSize\<close> calls that return only what
  they got, on every chip, the shared list holds precisely the memories still in use, each with
  one reference per use, and the only memory objects alive are those and the ones that were there
  before; so the last user frees the memory and nobody frees it earlier.
\<close>

theorem shared_mem_refcount:
  assumes "run_shared R ctx ops {#} s = Inr (U, t)" "re_chip R \<in> {cv180x, cv181x, cv182x, cv183x}"
    "fresh_mems (rt_d s)" "rt_alloc_cb s = None" "rt_free_cb s = None" "rt_shared_list s = []" "length ops < 2 ^ 31"
  shows "set (rt_shared_list t) = set_mset U \<and>
    (\<forall>i. Some i \<in># U \<longrightarrow> (\<exists>m. ds_mems (rt_d t) i = Some m \<and> bm_user_ref_cnt m = int (count U (Some i)))) \<and>
    dom (ds_mems (rt_d t)) = dom (ds_mems (rt_d s)) \<union> {i. Some i \<in># U}"
proof -
  have "pool_good fresh_mems (dom (ds_mems (rt_d s))) s {#}" using assms by (simp add: pool_good_def pool_refs_def)
  from run_good_any_chip[OF assms(2,1) this] assms(7) have
    g: "pool_refs t U" "dom (ds_mems (rt_d t)) = dom (ds_mems (rt_d s)) \<union> the ` set_mset U" by (auto simp: pool_good_def)
  have "the ` set_mset U = {i. Some i \<in># U}" using pool_refs_SomeD[OF g(1)] by (force simp: image_iff)
  with g pool_refs_SomeD[OF g(1)] show ?thesis by (auto simp: pool_refs_def)
qed

theorem shared_mem_refcount_witness:
  "\<exists>t. run_shared demo_rtenv (Some 2) [SAlloc 256, SAlloc 100, SFree (Some 4)] {#} demo_rt = Inr ({#Some 4#}, t) \<and>
     rt_shared_list t = [Some 4] \<and> dom (ds_mems (rt_d t)) = {3, 4}"
proof -
  let ?ops = "[SAlloc 256, SAlloc 100, SFree (Some 4)]"
  obtain w where w: "mem_alloc demo_env (Some (Suc 0)) 256 demo_state = Inr (Inr (4096, 8192, 7), w)"
    using demo_mem_alloc[of demo_state] by (auto simp: demo_state_def)
  then have so: "same_store demo_state w" using alloc_loop_same by (simp add: mem_alloc_def)
  have d: "ds_ctxs demo_state 2 = Some demo_ctx" "bc_dev demo_ctx = Some (Suc 0)" "ds_next demo_state = 4"
    "ds_mems demo_state = [3 \<mapsto> demo_mem]" by (auto simp: demo_state_def demo_ctx_def)
  obtain t where t: "run_shared demo_rtenv (Some 2) ?ops {#} demo_rt = Inr ({#Some 4#}, t)" "rt_shared_list t = [Some 4]"
    using w so d
    by (auto simp: allocateSharedMemory_def deallocateSharedMemory_def cviMemAlloc_def MemAlloc_def mem_alloc_raw_def alloc_object_def
        MemIncRef_def MemDecRef_def MemGetSize_def demo_rt_def demo_rtenv_def on_dev_def dm_run Let_def same_store_def to_s32_def)
  have "fresh_mems (rt_d demo_rt)" by (auto simp: demo_rt_def demo_state_def fresh_mems_def)
  with shared_mem_refcount[OF t(1)] t(2) have "dom (ds_mems (rt_d t)) = dom (ds_mems (rt_d demo_rt)) \<union> {i. Some i \<in># {#Some 4#}}"
    by (simp add: demo_rt_def demo_rtenv_def)
  then have "dom (ds_mems (rt_d t)) = {3, 4}" by (auto simp: demo_rt_def d(4))
  with t show ?thesis by blast
qed

text \<open>
  The size that \<^verbatim>\<open>setSharedMemSize\<close> records is the request rounded up to whole pages as long as
  it fits 32 bits; the mask has 32 bits, so a request of 4 GiB is recorded as nothing.
\<close>

lemma shared_size_rounding:
  "(sz + 0xFFF < M32 \<longrightarrow>
     setSharedMemSize sz s = Inr ((), s\<lparr>rt_max_shared := max (rt_max_shared s) ((sz + 0xFFF) div 4096 * 4096)\<rparr>)) \<and>
   setSharedMemSize (2 ^ 32) s = Inr ((), s)"
proof -
  have m: "(ucast (not (0xFFF :: 32 word)) :: 64 word) = and (mask 32) (not (mask 12))" by (simp add: mask_eq_exp_minus_1)
  have "page_round sz = (sz + 0xFFF) div 4096 * 4096" if "sz + 0xFFF < M32"
  proof -
    let ?w = "of_nat (sz + 0xFFF) :: 64 word"
    have "unat (of_nat n :: 64 word) = n" if "n < M32" for n
      using that by (simp add: unsigned_of_nat take_bit_nat_eq_self M32_def)
    then have u: "unat ?w = sz + 0xFFF" using that by blast
    have "and ?w (mask 32) = ?w"
      unfolding take_bit_eq_mask[symmetric] word_unat_eq_iff unsigned_take_bit_eq u
      using that by (intro take_bit_nat_eq_self) (simp add: M32_def)
    then have "and ?w (ucast (not (0xFFF :: 32 word))) = and ?w (not (mask 12))"
      by (simp only: m and.assoc[symmetric])
    then show ?thesis using unat_and_not_mask[of ?w 12] u by (simp add: page_round_def)
  qed
  moreover have "page_round (2 ^ 32) = 0" by (simp add: page_round_def)
  ultimately show ?thesis by (simp add: setSharedMemSize_def dmodify_def)
qed

lemma shared_size_rounding_witness:
  "\<exists>t. setSharedMemSize 5000 demo_rt = Inr ((), t) \<and> rt_max_shared t = 8192"
  using shared_size_rounding[of 5000 demo_rt] by (simp add: M32_def demo_rt_def)

end
