(* ===== verification/Neuron.thy ===== *)
theory Neuron
  imports SharedMem "HOL-Library.Signed_Division"
begin

text \<open>
  Tensors (\<^verbatim>\<open>src/common/neuron.cpp\<close>, class \<^verbatim>\<open>Neuron\<close>) with the copy kernels they compile
  (\<^verbatim>\<open>src/common/kernel_function/tdmaCopy.cpp\<close>): construction from a cvimodel, the size of an image in
  its pixel format, placement in device or host memory, moving data in and out and between the
  processor and the TPU.  C \<^verbatim>\<open>int\<close> arithmetic is computed modulo \<^verbatim>\<open>2^32\<close>.
\<close>

section \<open>Copy kernels\<close>

fun copy_fmt :: "cvi_fmt \<Rightarrow> cvk_fmt" where
  "copy_fmt CVI_FMT_INT8 = CVK_FMT_I8"
| "copy_fmt CVI_FMT_UINT8 = CVK_FMT_U8"
| "copy_fmt _ = CVK_FMT_BF16"

definition emit_copy :: "rtenv \<Rightarrow> ptr \<Rightarrow> cvi_fmt \<Rightarrow> nat list \<Rightarrow> nat list option \<Rightarrow> nat list option \<Rightarrow> unit rtm" where
  "emit_copy R cvk fmt shape strideDst strideSrc = dbind (deref rt_khandles cvk) (\<lambda>h.
     let stride = (\<lambda>st. case st of Some l \<Rightarrow> l | None \<Rightarrow> re_tg_default_stride R shape (copy_fmt fmt));
         src = \<lparr>tg_base_reg_index = 2, tg_start_address = 0, tg_fmt = CVK_FMT_I8, tg_shape = shape, tg_stride = stride strideSrc\<rparr>;
         dst = \<lparr>tg_base_reg_index = 3, tg_start_address = 0, tg_fmt = CVK_FMT_I8, tg_shape = shape, tg_stride = stride strideDst\<rparr>
     in set_khandle cvk (h\<lparr>sh_cmds := sh_cmds h @ re_g2g_tensor_copy R src dst\<rparr>))"

definition runtimeJitCompile :: "rtenv \<Rightarrow> ptr \<Rightarrow> ptr \<Rightarrow> ptr rtm" where
  "runtimeJitCompile R ctx cvk = dbind (deref rt_khandles cvk) (\<lambda>h.
     dbind (LoadCmdbuf R ctx (sh_cmds h) (length (sh_cmds h)) 0 0 False) (\<lambda>(ret, written).
     dthen (set_khandle cvk (h\<lparr>sh_cmds := []\<rparr>))
    (if ret \<noteq> 0 then dret None
     else case written of None \<Rightarrow> dfail Uninitialised | Some mem \<Rightarrow> dret mem)))"

definition runtimeExecuteKernelFunction :: "rtenv \<Rightarrow> ptr \<Rightarrow> ptr \<Rightarrow> u64 \<Rightarrow> u64 \<Rightarrow> cvi_rc rtm" where
  "runtimeExecuteKernelFunction R ctx codeBuf gaddrSrc gaddrDst = RunCmdbuf R ctx codeBuf gaddrSrc gaddrDst"

definition runtimeJitTdmaStrideCopy ::
  "rtenv \<Rightarrow> ptr \<Rightarrow> ptr \<Rightarrow> cvi_fmt \<Rightarrow> nat list \<Rightarrow> nat list option \<Rightarrow> nat list option \<Rightarrow> ptr rtm" where
  "runtimeJitTdmaStrideCopy R ctx cvk fmt shape strideDst strideSrc =
     dthen (emit_copy R cvk fmt shape strideDst strideSrc) (runtimeJitCompile R ctx cvk)"

section \<open>Sizes\<close>

text \<open>
  \<^verbatim>\<open>fbDtypeToCVIFMTandSize\<close>: an unknown type only logs, so the caller's defaults stay: \<^verbatim>\<open>FP32\<close> with
  size 0.
\<close>

fun fbDtypeToCVIFMTandSize :: "fb_dtype \<Rightarrow> cvi_fmt \<times> int" where
  "fbDtypeToCVIFMTandSize DType_BF16 = (CVI_FMT_BF16, 2)"
| "fbDtypeToCVIFMTandSize DType_INT8 = (CVI_FMT_INT8, 1)"
| "fbDtypeToCVIFMTandSize DType_UINT8 = (CVI_FMT_UINT8, 1)"
| "fbDtypeToCVIFMTandSize DType_FP32 = (CVI_FMT_FP32, 4)"
| "fbDtypeToCVIFMTandSize DType_INT16 = (CVI_FMT_INT16, 2)"
| "fbDtypeToCVIFMTandSize DType_UINT16 = (CVI_FMT_UINT16, 2)"
| "fbDtypeToCVIFMTandSize DType_INT32 = (CVI_FMT_INT32, 4)"
| "fbDtypeToCVIFMTandSize DType_UINT32 = (CVI_FMT_UINT32, 4)"
| "fbDtypeToCVIFMTandSize (DType_other _) = (CVI_FMT_FP32, 0)"

text \<open>The first four dimensions, cast to \<^verbatim>\<open>int\<close>; fewer are an access out of range.\<close>

definition fbShapeToVector :: "int list \<Rightarrow> int list res" where
  "fbShapeToVector dims = (if 4 \<le> length dims then Inr (map to_s32 (take 4 dims)) else Inl OutOfRange)"

definition align_up :: "int \<Rightarrow> int \<Rightarrow> int" where
  "align_up x n = to_s32 (to_s32 (x + n - 1) sdiv n * n)"

definition to_u32 :: "int \<Rightarrow> u32" where
  "to_u32 i = nat (i mod 2 ^ 32)"

text \<open>The alignments \<^verbatim>\<open>(y, w, channel)\<close> of \<^verbatim>\<open>setPixelAlign\<close>.\<close>

definition setPixelAlign :: "string \<Rightarrow> pixel_format \<Rightarrow> int \<times> int \<times> int" where
  "setPixelAlign chip format =
    (if chip = ''cv183x''
     then (if format = CVI_NN_PIXEL_YUV_420_PLANAR then 64 else 32, 32, 0x1000)
     else (if format = CVI_NN_PIXEL_YUV_420_PLANAR then 128 else 64, 64, 64))"

definition yuv_size :: "int \<times> int \<times> int \<Rightarrow> int \<Rightarrow> int \<Rightarrow> int \<Rightarrow> int \<Rightarrow> pixel_format \<Rightarrow> u32 res" where
  "yuv_size aligns n c h w format = (case aligns of (vpss_y_align, vpss_w_align, vpss_channel_align) \<Rightarrow>
    (case format of
       CVI_NN_PIXEL_YUV_420_PLANAR \<Rightarrow> assert_res (c = 3) (
         let y_w_aligned = align_up w vpss_y_align;
             uv_w_aligned = align_up (w sdiv 2) vpss_w_align;
             u = align_up (to_s32 (h * y_w_aligned)) vpss_channel_align;
             v = align_up (to_s32 (u + h sdiv 2 * uv_w_aligned)) vpss_channel_align;
             n_stride = align_up (to_s32 (v + h sdiv 2 * uv_w_aligned)) vpss_channel_align
         in Inr (to_u32 (n * n_stride)))
     | CVI_NN_PIXEL_YUV_NV21 \<Rightarrow> assert_res (c = 3) (
         let y_w_aligned = align_up w vpss_y_align;
             uv_w_aligned = align_up w vpss_w_align;
             uv = align_up (to_s32 (h * y_w_aligned)) vpss_channel_align;
             n_stride = align_up (to_s32 (uv + h sdiv 2 * uv_w_aligned)) vpss_channel_align
         in Inr (to_u32 (n * n_stride)))
     | CVI_NN_PIXEL_YUV_NV12 \<Rightarrow> assert_res (c = 3) (
         let y_w_aligned = align_up w vpss_y_align;
             uv_w_aligned = align_up w vpss_w_align;
             uv = align_up (to_s32 (h * y_w_aligned)) vpss_channel_align;
             n_stride = align_up (to_s32 (uv + h sdiv 2 * uv_w_aligned)) vpss_channel_align
         in Inr (to_u32 (n * n_stride)))
     | _ \<Rightarrow> Inr 0))"

text \<open>The format named in the model; an unknown name only logs and leaves the format unset.\<close>

definition pixel_format_of :: "string \<Rightarrow> bool \<Rightarrow> pixel_format res" where
  "pixel_format_of name aligned =
    (if name = '''' then assert_res (\<not> aligned) (Inr CVI_NN_PIXEL_TENSOR)
     else if name = ''BGR_PLANAR'' then Inr CVI_NN_PIXEL_BGR_PLANAR
     else if name = ''BGR_PACKED'' then Inr CVI_NN_PIXEL_BGR_PACKED
     else if name = ''RGB_PLANAR'' then Inr CVI_NN_PIXEL_RGB_PLANAR
     else if name = ''RGB_PACKED'' then Inr CVI_NN_PIXEL_RGB_PACKED
     else if name = ''GRAYSCALE'' then Inr CVI_NN_PIXEL_GRAYSCALE
     else if name = ''YUV_NV12'' then Inr CVI_NN_PIXEL_YUV_NV12
     else if name = ''YUV_NV21'' then Inr CVI_NN_PIXEL_YUV_NV21
     else if name = ''YUV420_PLANAR'' then Inr CVI_NN_PIXEL_YUV_420_PLANAR
     else if name = ''RGBA_PLANAR'' then Inr CVI_NN_PIXEL_RGBA_PLANAR
     else Inl Uninitialised)"

definition aligned_size :: "int \<times> int \<times> int \<Rightarrow> int list \<Rightarrow> pixel_format \<Rightarrow> u32 res" where
  "aligned_size aligns shape format = (case aligns of (_, vpss_w_align, vpss_channel_align) \<Rightarrow>
    (let d = (\<lambda>i. shape ! i) in
     case format of
       CVI_NN_PIXEL_GRAYSCALE \<Rightarrow> Inr (to_u32 (d 0 * d 1 * d 2 * align_up (d 3) vpss_w_align))
     | CVI_NN_PIXEL_BGR_PLANAR \<Rightarrow>
         Inr (to_u32 (d 0 * d 1 * align_up (to_s32 (align_up (d 3) vpss_w_align * d 2)) vpss_channel_align))
     | CVI_NN_PIXEL_RGB_PLANAR \<Rightarrow>
         Inr (to_u32 (d 0 * d 1 * align_up (to_s32 (align_up (d 3) vpss_w_align * d 2)) vpss_channel_align))
     | CVI_NN_PIXEL_RGBA_PLANAR \<Rightarrow>
         Inr (to_u32 (d 0 * d 1 * align_up (to_s32 (align_up (d 3) vpss_w_align * d 2)) vpss_channel_align))
     | CVI_NN_PIXEL_BGR_PACKED \<Rightarrow> Inr (to_u32 (d 0 * d 2 * align_up (to_s32 (d 3 * d 1)) vpss_w_align))
     | CVI_NN_PIXEL_RGB_PACKED \<Rightarrow> Inr (to_u32 (d 0 * d 2 * align_up (to_s32 (d 3 * d 1)) vpss_w_align))
     | CVI_NN_PIXEL_YUV_NV12 \<Rightarrow> yuv_size aligns (d 0) (d 1) (d 2) (d 3) format
     | CVI_NN_PIXEL_YUV_NV21 \<Rightarrow> yuv_size aligns (d 0) (d 1) (d 2) (d 3) format
     | CVI_NN_PIXEL_YUV_420_PLANAR \<Rightarrow> yuv_size aligns (d 0) (d 1) (d 2) (d 3) format
     | _ \<Rightarrow> Inl AssertFailed))"

text \<open>\<^verbatim>\<open>setPixelFormatAndSize\<close>: the format, the alignments and the size in bytes.\<close>

definition setPixelFormatAndSize :: "string \<Rightarrow> string \<Rightarrow> bool \<Rightarrow> u32 \<Rightarrow> int list \<Rightarrow> u32 \<Rightarrow> int \<Rightarrow>
    (pixel_format \<times> (int \<times> int \<times> int) \<times> u32) res" where
  "setPixelFormatAndSize chip name aligned tensor_size shape cnt dsize =
    bind_res (pixel_format_of name aligned) (\<lambda>format.
    let aligns = setPixelAlign chip format in
    if \<not> aligned then Inr (format, aligns, to_u32 (int cnt * dsize))
    else if tensor_size \<noteq> 0 then Inr (format, aligns, tensor_size)
    else bind_res (aligned_size aligns shape format) (\<lambda>sz. Inr (format, aligns, sz)))"

section \<open>Construction\<close>

definition element_count :: "int list \<Rightarrow> u32" where
  "element_count shape = to_u32 (shape ! 0 * shape ! 1 * shape ! 2 * shape ! 3)"

definition to_rtm :: "'a res \<Rightarrow> 'a rtm" where
  "to_rtm r = (case r of Inl e \<Rightarrow> dfail e | Inr a \<Rightarrow> dret a)"

definition offset40 :: "int \<Rightarrow> u64" where
  "offset40 off = nat (off mod 2 ^ 40)"

text \<open>A weight: a view into the model's weight memory.  Fields the constructor leaves unset are 0.\<close>

definition Neuron_weight :: "rtenv \<Rightarrow> ptr \<Rightarrow> fb_weight \<Rightarrow> ptr \<Rightarrow> string \<Rightarrow> ptr rtm" where
  "Neuron_weight R ctx weight weight_mem model_name =
    (case fbDtypeToCVIFMTandSize (fw_dtype weight) of (fmt, dsize) \<Rightarrow>
     dbind (to_rtm (case fw_shape weight of None \<Rightarrow> Inl NullDeref | Some dims \<Rightarrow> fbShapeToVector dims)) (\<lambda>shape.
     let cnt = element_count shape; sz = to_u32 (int cnt * dsize) in
     dbind (MemPreAlloc weight_mem (offset40 (fw_offset weight)) sz) (\<lambda>gmem.
     dbind (MemGetVAddr gmem) (\<lambda>vaddr. dbind (MemGetPAddr gmem) (\<lambda>paddr.
     new_neuron \<lparr>n_name = fw_name weight, n_shape = shape, n_fmt = fmt, n_type = WEIGHT,
       n_pixel_format = CVI_NN_PIXEL_TENSOR, n_scale = [], n_mean = [], n_aligned = False,
       n_vpss_w_align = 0, n_vpss_y_align = 0, n_vpss_channel_align = 0, n_ctx = ctx, n_cvk = None,
       n_streamCopyCmdbuf = None, n_channelPreloadCmdbuf = None, n_framePreloadCmdbuf = None,
       n_base_mem = weight_mem, n_gmem = gmem, n_cpu_mem = 0, n_vaddr = vaddr, n_paddr = paddr,
       n_state = TPU_MEM, n_id = 0, n_count = cnt, n_size = sz, n_tensor_size = 0,
       n_overwrote = False, n_qscale = 0x3F800000, n_zero_point = 0, n_bases = None, n_baseAddrIndex = 1,
       n_model_name = model_name, n_module_name = model_name @ '':'' @ fw_name weight\<rparr>)))))"

definition Neuron_activation :: "rtenv \<Rightarrow> ptr \<Rightarrow> ptr \<Rightarrow> fb_tensor \<Rightarrow> ptr \<Rightarrow> string \<Rightarrow> ptr rtm" where
  "Neuron_activation R ctx cvk tensor bases model_name =
    (case fbDtypeToCVIFMTandSize (ft_dtype tensor) of (fmt, dsize) \<Rightarrow>
     dbind (to_rtm (fbShapeToVector (ft_shape tensor))) (\<lambda>shape.
     dbind (dget rt_target_chip) (\<lambda>chip.
     let cnt = element_count shape in
     dbind (to_rtm (setPixelFormatAndSize chip (case ft_pixel_format tensor of None \<Rightarrow> '''' | Some f \<Rightarrow> f)
              (ft_aligned tensor) (ft_size tensor) shape cnt dsize)) (\<lambda>(format, (ya, wa, ca), sz).
     new_neuron \<lparr>n_name = ft_name tensor, n_shape = shape, n_fmt = fmt, n_type = ACTIVATION,
       n_pixel_format = format,
       n_scale = (case ft_scale tensor of None \<Rightarrow> [] | Some l \<Rightarrow> l),
       n_mean = (case ft_mean tensor of None \<Rightarrow> [] | Some l \<Rightarrow> l), n_aligned = ft_aligned tensor,
       n_vpss_w_align = wa, n_vpss_y_align = ya, n_vpss_channel_align = ca, n_ctx = ctx, n_cvk = cvk,
       n_streamCopyCmdbuf = None, n_channelPreloadCmdbuf = None, n_framePreloadCmdbuf = None,
       n_base_mem = None, n_gmem = None, n_cpu_mem = 0, n_vaddr = 0, n_paddr = 0,
       n_state = TPU_MEM, n_id = ft_id tensor, n_count = cnt, n_size = sz, n_tensor_size = ft_size tensor,
       n_overwrote = ft_overwrote tensor,
       n_qscale = (case ft_quant tensor of None \<Rightarrow> 0x3F800000 | Some (q, z) \<Rightarrow> q),
       n_zero_point = (case ft_quant tensor of None \<Rightarrow> 0 | Some (q, z) \<Rightarrow> z),
       n_bases = bases, n_baseAddrIndex = 1,
       n_model_name = model_name, n_module_name = model_name @ '':'' @ ft_name tensor\<rparr>))))"

definition Neuron_destroy :: "rtenv \<Rightarrow> ptr \<Rightarrow> unit rtm" where
  "Neuron_destroy R self = dbind (deref rt_neurons self) (\<lambda>n.
     dthen (if n_gmem n \<noteq> None then cviMemFree R (n_ctx n) (n_gmem n) else dret ())
    (dthen (if n_channelPreloadCmdbuf n \<noteq> None then MemFree R (n_ctx n) (n_channelPreloadCmdbuf n) else dret ())
    (dthen (if n_framePreloadCmdbuf n \<noteq> None then MemFree R (n_ctx n) (n_framePreloadCmdbuf n) else dret ())
    (dthen (if n_streamCopyCmdbuf n \<noteq> None then MemFree R (n_ctx n) (n_streamCopyCmdbuf n) else dret ())
     (dmodify (\<lambda>s. s\<lparr>rt_neurons := (rt_neurons s)(the self := None)\<rparr>))))))"

section \<open>Preloading frames\<close>

definition isPacked :: "ptr \<Rightarrow> bool rtm" where
  "isPacked self = dbind (deref rt_neurons self) (\<lambda>n.
     let format = (if n_pixel_format n = CVI_NN_PIXEL_TENSOR
                   then (if n_shape n ! 3 = 3 then CVI_NN_PIXEL_PACKED else CVI_NN_PIXEL_PLANAR)
                   else n_pixel_format n)
     in dthen (set_neuron self (n\<lparr>n_pixel_format := format\<rparr>))
       (dret (format \<in> {CVI_NN_PIXEL_BGR_PACKED, CVI_NN_PIXEL_RGB_PACKED, CVI_NN_PIXEL_PACKED})))"

text \<open>
  The loop of the three preloads: up to three rounds of compiling the copy if there is none and
  running it; a failed run discards the compiled copy.  \<open>get\<close> and \<open>put\<close> access the command buffer.
\<close>

fun preload_loop :: "rtenv \<Rightarrow> ptr \<Rightarrow> (neuron \<Rightarrow> ptr) \<Rightarrow> (ptr \<Rightarrow> neuron \<Rightarrow> neuron) \<Rightarrow> ptr rtm \<Rightarrow> u64 \<Rightarrow> u64 \<Rightarrow>
    nat \<Rightarrow> cvi_rc \<Rightarrow> cvi_rc rtm" where
  "preload_loop R self get put jit src dst 0 ret = dret ret"
| "preload_loop R self get put jit src dst (Suc k) ret = dbind (deref rt_neurons self) (\<lambda>n.
     dbind (if get n = None then jit else dret (get n)) (\<lambda>buf.
     dthen (set_neuron self (put buf n))
    (if buf = None then preload_loop R self get put jit src dst k ret
     else dbind (runtimeExecuteKernelFunction R (n_ctx n) buf src dst) (\<lambda>ret'.
       if ret' \<noteq> 0 then
         dthen (MemFree R (n_ctx n) buf)
        (dthen (set_neuron self (put None n)) (preload_loop R self get put jit src dst k ret'))
       else dret 0))))"

definition preloadChannelAndCompact :: "rtenv \<Rightarrow> ptr \<Rightarrow> int \<Rightarrow> u64 \<Rightarrow> cvi_rc rtm" where
  "preloadChannelAndCompact R self channel_idx src_paddr = dbind (isPacked self) (\<lambda>packed.
     dbind (deref rt_neurons self) (\<lambda>n.
     let d = (\<lambda>i. n_shape n ! i);
         h = to_u32 (if packed then d 1 else d 2);
         w = to_u32 (if packed then d 2 * d 3 else d 3);
         hstride = to_u32 (align_up (int w) (n_vpss_w_align n))
     in preload_loop R self n_channelPreloadCmdbuf (\<lambda>b n. n\<lparr>n_channelPreloadCmdbuf := b\<rparr>)
          (runtimeJitTdmaStrideCopy R (n_ctx n) (n_cvk n) (n_fmt n) [1, 1, h, w]
             (Some [1, 1, w, 1]) (Some [1, 1, hstride, 1]))
          src_paddr (add64 (n_paddr n) (mul32 (mul32 (to_u32 channel_idx) h) w)) 3 0))"

definition preloadFrameAndCompact :: "rtenv \<Rightarrow> ptr \<Rightarrow> int \<Rightarrow> u64 \<Rightarrow> cvi_rc rtm" where
  "preloadFrameAndCompact R self frame_idx src_paddr = dbind (isPacked self) (\<lambda>packed.
     dbind (deref rt_neurons self) (\<lambda>n.
     let d = (\<lambda>i. n_shape n ! i);
         c = to_u32 (if packed then 1 else d 1);
         h = to_u32 (if packed then d 1 else d 2);
         w = to_u32 (if packed then d 2 * d 3 else d 3);
         hstride = to_u32 (align_up (int w) (n_vpss_w_align n))
     in preload_loop R self n_framePreloadCmdbuf (\<lambda>b n. n\<lparr>n_framePreloadCmdbuf := b\<rparr>)
          (runtimeJitTdmaStrideCopy R (n_ctx n) (n_cvk n) (n_fmt n) [1, c, h, w]
             (Some [1, mul32 h w, w, 1]) (Some [1, mul32 h hstride, hstride, 1]))
          src_paddr (add64 (n_paddr n) (mul32 (mul32 (mul32 (to_u32 frame_idx) c) h) w)) 3 0))"

definition preload :: "rtenv \<Rightarrow> ptr \<Rightarrow> int \<Rightarrow> u64 \<Rightarrow> cvi_rc rtm" where
  "preload R self frame_idx src_paddr = dbind (deref rt_neurons self) (\<lambda>n.
     if n_shape n ! 0 = 0 then dfail DivByZero
     else let per_frame = n_size n div to_u32 (n_shape n ! 0);
              frame_size = to_u32 (align_up (to_s32 (int per_frame)) (n_vpss_w_align n))
          in preload_loop R self n_framePreloadCmdbuf (\<lambda>b n. n\<lparr>n_framePreloadCmdbuf := b\<rparr>)
               (runtimeJitTdmaStrideCopy R (n_ctx n) (n_cvk n) CVI_FMT_INT8
                  [1, 1, frame_size div to_u32 (n_vpss_w_align n), to_u32 (n_vpss_w_align n)] None None)
               src_paddr (add64 (n_paddr n) (mul32 (to_u32 frame_idx) frame_size)) 3 0)"

section \<open>Moving data\<close>

definition sys_mem :: "neuron \<Rightarrow> u64" where
  "sys_mem n = (if n_vaddr n \<noteq> 0 then n_vaddr n else n_cpu_mem n)"

text \<open>
  The device-to-device copy of \<^verbatim>\<open>load\<close> and \<^verbatim>\<open>store\<close>; the results of compiling and of running it are
  not looked at, a null command buffer faults in \<^verbatim>\<open>run_cmdbuf_ex\<close>.
\<close>

definition stream_copy :: "rtenv \<Rightarrow> ptr \<Rightarrow> neuron \<Rightarrow> u64 \<Rightarrow> u64 \<Rightarrow> unit rtm" where
  "stream_copy R self n src dst =
     dbind (if n_streamCopyCmdbuf n = None
            then runtimeJitTdmaStrideCopy R (n_ctx n) (n_cvk n) (n_fmt n) (map to_u32 (n_shape n)) None None
            else dret (n_streamCopyCmdbuf n)) (\<lambda>buf.
     dthen (set_neuron self (n\<lparr>n_streamCopyCmdbuf := buf\<rparr>))
    (dthen (runtimeExecuteKernelFunction R (n_ctx n) buf src dst) (dret ())))"

definition set_state :: "ptr \<Rightarrow> neuron_state \<Rightarrow> unit rtm" where
  "set_state self st = dbind (deref rt_neurons self) (\<lambda>n. set_neuron self (n\<lparr>n_state := st\<rparr>))"

definition memcpy_host :: "u64 \<Rightarrow> u64 \<Rightarrow> nat \<Rightarrow> unit rtm" where
  "memcpy_host dst src sz = (if dst = 0 \<or> src = 0 then dfail NullDeref else on_dev (memcpy_ram dst src sz))"

definition load :: "rtenv \<Rightarrow> ptr \<Rightarrow> cvi_tensor \<Rightarrow> unit rtm" where
  "load R self tensor = dbind (deref rt_neurons self) (\<lambda>n.
     if t_mem_type tensor = CVI_MEM_SYSTEM then
       (if n_vaddr n \<noteq> 0 then
          dthen (if n_vaddr n \<noteq> t_sys_mem tensor then memcpy_host (n_vaddr n) (t_sys_mem tensor) (n_size n) else dret ())
         (dbind (MemFlush R (n_ctx n) (n_gmem n)) (\<lambda>r.
          dthen (dassert (r = 0)) (set_state self TPU_MEM)))
        else
          dthen (if n_cpu_mem n \<noteq> t_sys_mem tensor then memcpy_host (n_cpu_mem n) (t_sys_mem tensor) (n_size n) else dret ())
          (set_state self CPU_MEM))
     else
       dthen (dassert (n_gmem n \<noteq> None \<or> n_paddr n \<noteq> 0))
      (dthen (if t_paddr tensor \<noteq> n_paddr n then stream_copy R self n (t_paddr tensor) (n_paddr n) else dret ())
       (set_state self TPU_MEM)))"

definition store :: "rtenv \<Rightarrow> ptr \<Rightarrow> cvi_tensor \<Rightarrow> unit rtm" where
  "store R self tensor = dbind (deref rt_neurons self) (\<lambda>n.
     if t_mem_type tensor = CVI_MEM_SYSTEM then
       (if n_state n = CPU_MEM then
          (if t_sys_mem tensor \<noteq> sys_mem n then memcpy_host (t_sys_mem tensor) (sys_mem n) (n_size n) else dret ())
        else
          dbind (MemInvld R (n_ctx n) (n_gmem n)) (\<lambda>r.
          dthen (dassert (r = 0))
         (if t_sys_mem tensor \<noteq> n_vaddr n then memcpy_host (t_sys_mem tensor) (n_vaddr n) (n_size n) else dret ())))
     else if t_paddr tensor \<noteq> n_paddr n then stream_copy R self n (n_paddr n) (t_paddr tensor) else dret ())"

definition toCpu :: "rtenv \<Rightarrow> ptr \<Rightarrow> unit rtm" where
  "toCpu R self = dbind (deref rt_neurons self) (\<lambda>n.
     if n_state n \<noteq> CPU_MEM then
       dthen (if n_cpu_mem n \<noteq> 0 then dthen (MemCopyD2S R (n_ctx n) (n_cpu_mem n) (n_gmem n)) (dret ())
              else dbind (MemInvld R (n_ctx n) (n_gmem n)) (\<lambda>r. dassert (r = 0)))
       (set_state self CPU_MEM)
     else dret ())"

definition toTpu :: "rtenv \<Rightarrow> ptr \<Rightarrow> unit rtm" where
  "toTpu R self = dbind (deref rt_neurons self) (\<lambda>n.
     if n_state n \<noteq> TPU_MEM then
       dthen (if n_cpu_mem n \<noteq> 0 then dthen (MemCopyS2D R (n_ctx n) (n_gmem n) (n_cpu_mem n)) (dret ())
              else dthen (MemFlush R (n_ctx n) (n_gmem n)) (dthen (MemInvld R (n_ctx n) (n_base_mem n)) (dret ())))
       (set_state self TPU_MEM)
     else dret ())"

section \<open>Placement\<close>

definition set_bases :: "ptr \<Rightarrow> base_arrays \<Rightarrow> unit rtm" where
  "set_bases p b = dmodify (\<lambda>s. s\<lparr>rt_bases := (rt_bases s)(the p \<mapsto> b)\<rparr>)"

text \<open>\<^verbatim>\<open>updateBaseAddr(CVI_RT_MEM)\<close>: the program's arrays learn the memory and its address.\<close>

definition updateBaseAddr_mem :: "ptr \<Rightarrow> ptr \<Rightarrow> unit rtm" where
  "updateBaseAddr_mem self mem = dbind (deref rt_neurons self) (\<lambda>n.
     if n_baseAddrIndex n < 3 then dret ()
     else dbind (deref rt_bases (n_bases n)) (\<lambda>b. dbind (MemGetPAddr mem) (\<lambda>pa.
       set_bases (n_bases n) (b\<lparr>ba_mem := (ba_mem b)[n_baseAddrIndex n := mem],
                                 ba_addr := (ba_addr b)[n_baseAddrIndex n := pa]\<rparr>))))"

text \<open>
  \<^verbatim>\<open>updateBaseAddr(uint64_t)\<close>: the tensor's data is at an address of the caller from now on; its own
  memory is given back.
\<close>

definition updateBaseAddr :: "rtenv \<Rightarrow> ptr \<Rightarrow> u64 \<Rightarrow> unit rtm" where
  "updateBaseAddr R self paddr = dbind (deref rt_neurons self) (\<lambda>n.
     if n_baseAddrIndex n < 3 then dret ()
     else dbind (deref rt_bases (n_bases n)) (\<lambda>b.
       dthen (set_bases (n_bases n) (b\<lparr>ba_addr := (ba_addr b)[n_baseAddrIndex n := paddr]\<rparr>))
      (dthen (if n_gmem n \<noteq> None then cviMemFree R (n_ctx n) (n_gmem n) else dret ())
       (set_neuron self (n\<lparr>n_paddr := paddr, n_gmem := None\<rparr>)))))"

text \<open>The device memory of a tensor: part of its base memory, or the base memory itself when it is the first there.\<close>

definition take_gmem :: "rtenv \<Rightarrow> ptr \<Rightarrow> neuron \<Rightarrow> base_arrays \<Rightarrow> nat \<Rightarrow> u64 \<Rightarrow> ptr rtm" where
  "take_gmem R self n b idx shift =
    (if idx < 3 \<or> ba_mem b ! idx \<noteq> None then MemPreAlloc (ba_mem b ! idx) shift (n_size n)
     else dthen (dassert (shift = 0))
       (dbind (cviMemAlloc R (n_ctx n) (n_size n) CVI_ALLOC_NEURON (n_module_name n)) (\<lambda>g.
        dthen (if g \<noteq> None then updateBaseAddr_mem self g else dret ()) (dret g))))"

definition base_index :: "int \<Rightarrow> nat" where
  "base_index offset = nat (offset div 2 ^ 40 mod 8)"

definition bind_gmem :: "ptr \<Rightarrow> neuron \<Rightarrow> nat \<Rightarrow> ptr \<Rightarrow> cvi_rc rtm" where
  "bind_gmem self n idx gmem =
     dthen (set_neuron self (n\<lparr>n_gmem := gmem\<rparr>))
    (if gmem = None then dret CVI_RC_NOMEM
     else dbind (deref rt_bases (n_bases n)) (\<lambda>b.
       dbind (MemGetVAddr gmem) (\<lambda>va. dbind (MemGetPAddr gmem) (\<lambda>pa.
       dthen (set_neuron self (n\<lparr>n_gmem := gmem, n_base_mem := ba_mem b ! idx, n_vaddr := va, n_paddr := pa\<rparr>))
       (dret CVI_RC_SUCCESS)))))"

definition reserveIonMem :: "rtenv \<Rightarrow> ptr \<Rightarrow> int \<Rightarrow> cvi_rc rtm" where
  "reserveIonMem R self offset =
    (if offset = -1 then dret CVI_RC_SUCCESS
     else let idx = base_index offset; shift = offset40 offset in
     dbind (deref rt_neurons self) (\<lambda>n0.
     let n = n0\<lparr>n_baseAddrIndex := idx\<rparr> in
     dthen (set_neuron self n)
    (dthen (dassert (idx < 8 \<and> idx \<noteq> 1))
    (dbind (deref rt_bases (n_bases n)) (\<lambda>b.
     dbind (take_gmem R self n b idx shift) (bind_gmem self n idx))))))"

definition reserveSysMem :: "rtenv \<Rightarrow> ptr \<Rightarrow> cvi_rc rtm" where
  "reserveSysMem R self = dbind (deref rt_neurons self) (\<lambda>n.
     if n_gmem n \<noteq> None then dret CVI_RC_SUCCESS
     else if n_cpu_mem n = 0 then
       dbind (dget (\<lambda>s. re_malloc R (rt_mallocs s) (to_u32 (align_up (to_s32 (int (n_size n))) 64)))) (\<lambda>a.
       dthen (dmodify (\<lambda>s. s\<lparr>rt_mallocs := rt_mallocs s + 1\<rparr>))
      (dthen (set_neuron self (n\<lparr>n_cpu_mem := a\<rparr>))
       (dret (if a = 0 then CVI_RC_NOMEM else CVI_RC_SUCCESS))))
     else dret CVI_RC_SUCCESS)"

section \<open>Loading and storing system memory\<close>

lemma store_own_bytes: "store_bytes a (load_bytes a n ram) ram = ram"
  by (auto simp: fun_eq_iff store_bytes_def load_bytes_def)

lemma memcpy_host_Inr [dm_inv]:
  "memcpy_host dst src n s = Inr (x, t) \<longleftrightarrow> dst \<noteq> 0 \<and> src \<noteq> 0 \<and>
     t = s\<lparr>rt_d := (rt_d s)\<lparr>ds_ram := store_bytes dst (load_bytes src n (ds_ram (rt_d s))) (ds_ram (rt_d s))\<rparr>\<rparr>"
  by (auto simp: memcpy_host_def memcpy_ram_def dm_inv)

lemma copy_unless_same:
  assumes "(if dst \<noteq> src then memcpy_host dst src n else dret ()) s = Inr (x, t)"
  shows "t = s\<lparr>rt_d := (rt_d s)\<lparr>ds_ram := store_bytes dst (load_bytes src n (ds_ram (rt_d s))) (ds_ram (rt_d s))\<rparr>\<rparr>"
  using assms by (auto simp: dm_inv store_own_bytes split: if_splits)

lemma MemFlush_same: "MemFlush R ctx mem s = Inr (r, t) \<Longrightarrow> r = 0 \<and> (\<exists>d. same_store (rt_d s) d \<and> t = s\<lparr>rt_d := d\<rparr>)"
  by (auto simp: MemFlush_def ctx_dev_def dm_inv dest!: mem_flush_ext_same)

lemma MemInvld_same: "MemInvld R ctx mem s = Inr (r, t) \<Longrightarrow> r = 0 \<and> (\<exists>d. same_store (rt_d s) d \<and> t = s\<lparr>rt_d := d\<rparr>)"
  by (auto simp: MemInvld_def ctx_dev_def dm_inv dest!: mem_invld_ext_same)

lemma load_system_effect:
  assumes "load R self a s = Inr (x, t)" "t_mem_type a = CVI_MEM_SYSTEM" "rt_neurons s (the self) = Some n"
  shows "rt_neurons t (the self) = Some (n\<lparr>n_state := if n_vaddr n \<noteq> 0 then TPU_MEM else CPU_MEM\<rparr>) \<and>
    ds_ram (rt_d t) = store_bytes (sys_mem n) (load_bytes (t_sys_mem a) (n_size n) (ds_ram (rt_d s))) (ds_ram (rt_d s))"
proof (cases "n_vaddr n = 0")
  case True
  with assms show ?thesis
    unfolding load_def by (auto simp: deref_bind_Inr dthen_Inr set_state_def set_neuron_def dm_basic_Inr sys_mem_def dest!: copy_unless_same)
next
  case False
  with assms show ?thesis
    unfolding load_def
    by (auto simp: deref_bind_Inr dthen_Inr dbind_Inr set_state_def set_neuron_def dm_basic_Inr sys_mem_def same_store_def
        dest!: copy_unless_same MemFlush_same)
qed

lemma store_system_effect:
  assumes "store R self b s = Inr (x, t)" "t_mem_type b = CVI_MEM_SYSTEM" "rt_neurons s (the self) = Some n"
    "n_state n = (if n_vaddr n \<noteq> 0 then TPU_MEM else CPU_MEM)"
  shows "ds_ram (rt_d t) = store_bytes (t_sys_mem b) (load_bytes (sys_mem n) (n_size n) (ds_ram (rt_d s))) (ds_ram (rt_d s))"
proof (cases "n_vaddr n = 0")
  case True
  with assms show ?thesis
    unfolding store_def by (auto simp: deref_bind_Inr dest!: copy_unless_same)
next
  case False
  with assms show ?thesis
    unfolding store_def
    by (auto simp: deref_bind_Inr dthen_Inr dbind_Inr dm_basic_Inr sys_mem_def same_store_def
        dest!: copy_unless_same MemInvld_same)
qed

text \<open>
  C15: what is loaded into a tensor is what is stored out of it: loading a tensor from a system
  buffer and then storing it to another leaves there exactly the bytes of the first, whether the
  tensor lives in device memory or in host memory, and changes no byte outside the tensor and the
  second buffer.
\<close>

theorem neuron_load_store_roundtrip:
  assumes "load R self a s = Inr ((), t)" "store R self b t = Inr ((), u)" "rt_neurons s (the self) = Some n"
    "t_mem_type a = CVI_MEM_SYSTEM" "t_mem_type b = CVI_MEM_SYSTEM"
  shows "load_bytes (t_sys_mem b) (n_size n) (ds_ram (rt_d u)) = load_bytes (t_sys_mem a) (n_size n) (ds_ram (rt_d s)) \<and>
    (\<forall>x. x \<notin> {sys_mem n ..< sys_mem n + n_size n} \<union> {t_sys_mem b ..< t_sys_mem b + n_size n} \<longrightarrow>
       ds_ram (rt_d u) x = ds_ram (rt_d s) x)"
proof -
  let ?n = "n\<lparr>n_state := if n_vaddr n \<noteq> 0 then TPU_MEM else CPU_MEM\<rparr>"
  have l: "length (load_bytes q k r) = k" for q k r by (simp add: load_bytes_def)
  note t = load_system_effect[OF assms(1,4,3)]
  have "ds_ram (rt_d u) = store_bytes (t_sys_mem b) (load_bytes (sys_mem ?n) (n_size ?n) (ds_ram (rt_d t))) (ds_ram (rt_d t))"
    using t by (intro store_system_effect[OF assms(2,5)]) auto
  with t show ?thesis by (simp add: load_store_bytes l sys_mem_def) (auto simp: store_bytes_def l)
qed

definition demo_neuron :: neuron where
  "demo_neuron = \<lparr>n_name = ''x'', n_shape = [1, 1, 1, 4], n_fmt = CVI_FMT_INT8, n_type = ACTIVATION,
     n_pixel_format = CVI_NN_PIXEL_TENSOR, n_scale = [], n_mean = [], n_aligned = False,
     n_vpss_w_align = 64, n_vpss_y_align = 64, n_vpss_channel_align = 64, n_ctx = Some 2, n_cvk = Some 5,
     n_streamCopyCmdbuf = None, n_channelPreloadCmdbuf = None, n_framePreloadCmdbuf = None,
     n_base_mem = Some 3, n_gmem = Some 3, n_cpu_mem = 0, n_vaddr = 8192, n_paddr = 4096,
     n_state = TPU_MEM, n_id = 0, n_count = 4, n_size = 4, n_tensor_size = 0, n_overwrote = False,
     n_qscale = 0, n_zero_point = 0, n_bases = Some 6, n_baseAddrIndex = 0, n_model_name = ''m'',
     n_module_name = ''m:x''\<rparr>"

definition demo_tensor :: "u64 \<Rightarrow> cvi_tensor" where
  "demo_tensor a = \<lparr>t_name = ''x'', t_shape = [1, 1, 1, 4], t_fmt = CVI_FMT_INT8, t_count = 4, t_mem_size = 4,
     t_sys_mem = a, t_paddr = 0, t_mem_type = CVI_MEM_SYSTEM, t_qscale = 0, t_zero_point = 0,
     t_pixel_format = CVI_NN_PIXEL_TENSOR, t_aligned = False, t_mean = [0, 0, 0], t_scale = [0, 0, 0], t_owner = None\<rparr>"

definition demo_nrt :: rt where
  "demo_nrt = demo_rt\<lparr>rt_neurons := [1 \<mapsto> demo_neuron]\<rparr>"

lemma demo_cached_mem:
  assumes "ds_ctxs (rt_d s) 2 = Some demo_ctx" "ds_devs (rt_d s) 1 = Some demo_dev" "ds_mems (rt_d s) 3 = Some demo_mem"
  shows "MemFlush demo_rtenv (Some 2) (Some 3) s = Inr (0, s\<lparr>rt_d := (rt_d s)\<lparr>ds_log := ds_log (rt_d s) @ [SysFlush 3 4096 256 7]\<rparr>\<rparr>)"
    "MemInvld demo_rtenv (Some 2) (Some 3) s = Inr (0, s\<lparr>rt_d := (rt_d s)\<lparr>ds_log := ds_log (rt_d s) @ [SysInvld 3 4096 256 7]\<rparr>\<rparr>)"
  using assms by (simp_all add: MemFlush_def MemInvld_def on_dev_def dm_run demo_rtenv_def demo_ctx_def demo_mem_def
      demo_cache_ops demo_ranges)

theorem neuron_load_store_roundtrip_witness:
  "\<exists>t u. load demo_rtenv (Some 1) (demo_tensor 100) demo_nrt = Inr ((), t) \<and>
     store demo_rtenv (Some 1) (demo_tensor 200) t = Inr ((), u) \<and>
     load_bytes 200 4 (ds_ram (rt_d u)) = load_bytes 100 4 (ds_ram (rt_d demo_nrt))"
proof -
  obtain t where t: "load demo_rtenv (Some 1) (demo_tensor 100) demo_nrt = Inr ((), t)"
    "rt_neurons t 1 = Some demo_neuron" "ds_ctxs (rt_d t) 2 = Some demo_ctx" "ds_devs (rt_d t) 1 = Some demo_dev"
    "ds_mems (rt_d t) 3 = Some demo_mem"
    using demo_cached_mem(1)[of "demo_nrt\<lparr>rt_d := demo_state\<lparr>ds_ram := store_bytes 8192 (load_bytes 100 4 (ds_ram demo_state)) (ds_ram demo_state)\<rparr>\<rparr>"]
    by (auto simp: load_def set_state_def set_neuron_def memcpy_host_def memcpy_ram_def on_dev_def dm_run
        demo_nrt_def demo_tensor_def demo_neuron_def demo_rt_def demo_state_def)
  obtain u where u: "store demo_rtenv (Some 1) (demo_tensor 200) t = Inr ((), u)"
    using t(2) demo_cached_mem(2)[OF t(3-5)] by (simp add: store_def memcpy_host_def memcpy_ram_def on_dev_def dm_run demo_tensor_def demo_neuron_def)
  have "rt_neurons demo_nrt (the (Some 1)) = Some demo_neuron" "n_size demo_neuron = 4" by (simp_all add: demo_nrt_def demo_neuron_def)
  with neuron_load_store_roundtrip[OF t(1) u this(1)] t u show ?thesis by (auto simp: demo_tensor_def)
qed

section \<open>Placing tensors\<close>

text \<open>
  A tensor's offset names one of the eight base memories of its program and a place in it.  The
  command buffers address tensors the same way, through the base registers, which
  \<^verbatim>\<open>baseAddrArray\<close> fills; so the address array has to agree with the memories and the tensors with both.
\<close>

definition bases_ok :: "rt \<Rightarrow> base_arrays \<Rightarrow> bool" where
  "bases_ok s b \<longleftrightarrow> length (ba_addr b) = 8 \<and> length (ba_mem b) = 8 \<and>
     (\<forall>k<8. \<forall>j. ba_mem b ! k = Some j \<longrightarrow> (\<exists>M. ds_mems (rt_d s) j = Some M \<and> bm_type M = BMMEM_TYPE_DEVICE \<and>
        ba_addr b ! k = bm_p_addr M))"

definition placed_at :: "rt \<Rightarrow> base_arrays \<Rightarrow> neuron \<Rightarrow> int \<Rightarrow> bool" where
  "placed_at s b n offset \<longleftrightarrow> (\<exists>j M. ba_mem b ! base_index offset = Some j \<and> n_base_mem n = Some j \<and>
     ds_mems (rt_d s) j = Some M \<and> ba_addr b ! base_index offset = bm_p_addr M \<and>
     offset40 offset + n_size n \<le> bm_size M \<and>
     n_paddr n mod M64 = (ba_addr b ! base_index offset + offset40 offset) mod M64)"

text \<open>How a state may grow while a program is set up: no memory object goes away or changes, filled bases stay.\<close>

definition grows :: "rt \<Rightarrow> base_arrays \<Rightarrow> rt \<Rightarrow> base_arrays \<Rightarrow> bool" where
  "grows s b t c \<longleftrightarrow> ds_mems (rt_d s) \<subseteq>\<^sub>m ds_mems (rt_d t) \<and>
     (\<forall>k<8. ba_mem b ! k \<noteq> None \<longrightarrow> ba_mem c ! k = ba_mem b ! k \<and> ba_addr c ! k = ba_addr b ! k)"

lemma base_index_less [simp]: "base_index offset < 8"
  by (simp add: base_index_def nat_less_iff)

lemma offset40_less: "offset40 offset < 2 ^ 40"
  by (simp add: offset40_def nat_less_iff)

lemma grows_refl [simp]: "grows s b s b"
  by (simp add: grows_def)

lemma grows_trans: "grows s b t c \<Longrightarrow> grows t c u d \<Longrightarrow> grows s b u d"
  unfolding grows_def by (auto intro: map_le_trans)

lemma placed_at_grows:
  assumes "placed_at s b n off" "grows s b t c"
  shows "placed_at t c n off"
proof -
  obtain j M where p: "ba_mem b ! base_index off = Some j" "n_base_mem n = Some j" "ds_mems (rt_d s) j = Some M"
    "ba_addr b ! base_index off = bm_p_addr M" "offset40 off + n_size n \<le> bm_size M"
    "n_paddr n mod M64 = (ba_addr b ! base_index off + offset40 off) mod M64" using assms(1) unfolding placed_at_def by blast
  have "ba_mem c ! base_index off = Some j" "ba_addr c ! base_index off = ba_addr b ! base_index off"
    using assms(2) p(1) unfolding grows_def by auto
  moreover have "ds_mems (rt_d t) j = Some M" using assms(2) p(3) unfolding grows_def map_le_def by (metis domI)
  ultimately show ?thesis using p unfolding placed_at_def by auto
qed

lemma MemPreAlloc_law:
  assumes "MemPreAlloc mem off sz s = Inr (p, t)"
  obtains j M m where "mem = Some j" "ds_mems (rt_d s) j = Some M" "add64 sz off \<le> bm_size M"
    "p = Some (ds_next (rt_d s))" "bm_p_addr m = add64 (bm_p_addr M) off" "bm_size m = sz" "bm_type m = BMMEM_TYPE_DEVICE"
    "t = s\<lparr>rt_d := (rt_d s)\<lparr>ds_next := ds_next (rt_d s) + 1, ds_mems := (ds_mems (rt_d s))(ds_next (rt_d s) \<mapsto> m)\<rparr>\<rparr>"
proof -
  obtain j M where "mem = Some j" "ds_mems (rt_d s) j = Some M" "add64 sz off \<le> bm_size M" "p = Some (ds_next (rt_d s))"
    "t = s\<lparr>rt_d := (rt_d s)\<lparr>ds_next := ds_next (rt_d s) + 1, ds_mems := (ds_mems (rt_d s))(ds_next (rt_d s) \<mapsto>
       \<lparr>bm_v_addr = add64 (bm_v_addr M) off, bm_p_addr = add64 (bm_p_addr M) off, bm_size = sz,
        bm_type = BMMEM_TYPE_DEVICE, bm_is_prealloc = True, bm_dma_fd = bm_dma_fd M, bm_user_ref_cnt = 0, bm_offset = 0\<rparr>)\<rparr>\<rparr>"
    using assms by (auto simp: MemPreAlloc_def new_mem_def dm_inv)
  then show thesis by (intro that) auto
qed

lemma cviMemAlloc_law:
  assumes "cviMemAlloc R ctx sz ty nm s = Inr (p, t)" "rt_alloc_cb s = None" "fresh_mems (rt_d s)"
  shows "\<exists>i m d. p = Some i \<and> ds_mems (rt_d s) i = None \<and> ds_mems d = (ds_mems (rt_d s))(i \<mapsto> m) \<and>
    bm_size m = sz \<and> bm_user_ref_cnt m = 0 \<and> bm_type m = BMMEM_TYPE_DEVICE \<and> fresh_mems d \<and> t = s\<lparr>rt_d := d\<rparr>"
  using assms by (auto simp: cviMemAlloc_def MemAlloc_def dm_inv dest!: raw.alloc_law)

lemma MemGetAddr_Inr:
  "MemGetPAddr (Some i) s = Inr (a, t) \<longleftrightarrow> (\<exists>m. ds_mems (rt_d s) i = Some m \<and> bm_type m = BMMEM_TYPE_DEVICE \<and> a = bm_p_addr m \<and> t = s)"
  "MemGetVAddr (Some i) s = Inr (a, t) \<longleftrightarrow> (\<exists>m. ds_mems (rt_d s) i = Some m \<and> bm_type m = BMMEM_TYPE_DEVICE \<and> a = bm_v_addr m \<and> t = s)"
  by (auto simp: MemGetPAddr_def MemGetVAddr_def checked_mem_def dm_inv)

text \<open>What the device memory of a tensor has to do with the bases afterwards.\<close>

definition gmem_ok :: "rt \<Rightarrow> base_arrays \<Rightarrow> nat \<Rightarrow> u64 \<Rightarrow> u32 \<Rightarrow> nat \<Rightarrow> bool" where
  "gmem_ok t c idx shift sz i \<longleftrightarrow> (\<exists>m j M. ds_mems (rt_d t) i = Some m \<and>
     bm_p_addr m mod M64 = (ba_addr c ! idx + shift) mod M64 \<and> ba_mem c ! idx = Some j \<and>
     ds_mems (rt_d t) j = Some M \<and> ba_addr c ! idx = bm_p_addr M \<and> shift + sz \<le> bm_size M)"

definition set_up :: "rt \<Rightarrow> bool" where
  "set_up s \<longleftrightarrow> fresh_mems (rt_d s) \<and> rt_alloc_cb s = None"

lemma bases_ok_grow:
  assumes "bases_ok s b" "fresh_mems (rt_d s)" "ds_mems (rt_d t) = (ds_mems (rt_d s))(i \<mapsto> m)" "ds_mems (rt_d s) i = None"
  shows "bases_ok t b" "grows s b t b"
  using assms by (auto simp: bases_ok_def grows_def map_le_def)

lemma take_gmem_part:
  assumes "MemPreAlloc (ba_mem b ! idx) shift sz s = Inr (g, t)" "bases_ok s b" "set_up s" "idx < 8" "shift < 2 ^ 40" "sz < M32"
  shows "\<exists>i d. g = Some i \<and> t = s\<lparr>rt_d := d\<rparr> \<and> set_up t \<and> bases_ok t b \<and> grows s b t b \<and> gmem_ok t b idx shift sz i"
proof -
  obtain j M m i where j: "ba_mem b ! idx = Some j" "ds_mems (rt_d s) j = Some M"
    "add64 sz shift \<le> bm_size M" "g = Some i" "i = ds_next (rt_d s)" "bm_p_addr m = add64 (bm_p_addr M) shift"
    "t = s\<lparr>rt_d := (rt_d s)\<lparr>ds_next := i + 1, ds_mems := (ds_mems (rt_d s))(i \<mapsto> m)\<rparr>\<rparr>"
    by (rule MemPreAlloc_law[OF assms(1)]) blast
  have fr: "ds_mems (rt_d s) i = None" using assms(3) j(5) by (auto simp: set_up_def fresh_mems_def)
  then have ij: "i \<noteq> j" using j(2) by auto
  have sum: "shift + sz \<le> bm_size M" using j(3) assms(5,6) by (simp add: add64_id M64_def M32_def add.commute)
  have su: "set_up t" using assms(3) j(5,7) by (auto simp: set_up_def fresh_mems_def)
  have "ba_addr b ! idx = bm_p_addr M" using assms(2,4) j(1,2) by (auto simp: bases_ok_def)
  with j ij sum have g: "gmem_ok t b idx shift sz i" by (auto simp: gmem_ok_def add64_def)
  have b: "bases_ok t b" "grows s b t b"
    using assms(3) j(7) fr by (auto intro: bases_ok_grow[OF assms(2)] simp: set_up_def)
  from su g b j(4,7) show ?thesis by (intro exI[of _ i] exI[of _ "rt_d t"]) auto
qed

lemma take_gmem_first:
  assumes "take_gmem R self n b idx shift s = Inr (g, t)" "\<not> (idx < 3 \<or> ba_mem b ! idx \<noteq> None)" "bases_ok s b" "set_up s"
    "idx < 8" "self = Some p" "rt_neurons s p = Some n" "n_baseAddrIndex n = idx" "n_bases n = Some bp" "rt_bases s bp = Some b"
  shows "\<exists>i d c. g = Some i \<and> t = s\<lparr>rt_d := d, rt_bases := (rt_bases s)(bp \<mapsto> c)\<rparr> \<and> set_up t \<and> bases_ok t c \<and>
    grows s b t c \<and> gmem_ok t c idx shift (n_size n) i"
proof -
  obtain u where sh: "shift = 0" and u: "cviMemAlloc R (n_ctx n) (n_size n) CVI_ALLOC_NEURON (n_module_name n) s = Inr (g, u)"
    and k: "(if g \<noteq> None then updateBaseAddr_mem self g else dret ()) u = Inr ((), t)"
    using assms(1,2) by (auto simp: take_gmem_def dm_inv)
  from cviMemAlloc_law[OF u] assms(4) obtain i m d where i: "g = Some i" "ds_mems (rt_d s) i = None"
    "ds_mems d = (ds_mems (rt_d s))(i \<mapsto> m)" "bm_size m = n_size n" "bm_type m = BMMEM_TYPE_DEVICE" "fresh_mems d"
    "u = s\<lparr>rt_d := d\<rparr>" by (auto simp: set_up_def)
  let ?c = "b\<lparr>ba_mem := (ba_mem b)[idx := g], ba_addr := (ba_addr b)[idx := bm_p_addr m]\<rparr>"
  have t: "t = s\<lparr>rt_d := d, rt_bases := (rt_bases s)(bp \<mapsto> ?c)\<rparr>"
    using k i(1,3,5,7) assms(2,6-10) by (auto simp: updateBaseAddr_mem_def set_bases_def MemGetAddr_Inr dm_inv)
  have fr: "fresh_mems (rt_d s)" "ds_mems (rt_d u) = (ds_mems (rt_d s))(i \<mapsto> m)" using assms(4) i(3,7) by (simp_all add: set_up_def)
  note b0 = bases_ok_grow[OF assms(3) fr i(2)]
  have l: "length (ba_mem b) = 8" "length (ba_addr b) = 8" using assms(3) by (auto simp: bases_ok_def)
  have "bases_ok t ?c" using b0(1) i(1,3,5,7) t assms(5) l by (auto simp: bases_ok_def nth_list_update)
  moreover have "grows s b t ?c" using b0(2) i(7) t assms(2,5) l by (auto simp: grows_def nth_list_update)
  moreover have "gmem_ok t ?c idx shift (n_size n) i" using i t sh assms(5) l by (auto simp: gmem_ok_def)
  moreover have "set_up t" using i(6) t assms(4) by (auto simp: set_up_def)
  ultimately show ?thesis using t i(1) by blast
qed

lemma take_gmem_law:
  assumes "take_gmem R self n b idx shift s = Inr (g, t)" "bases_ok s b" "set_up s" "idx < 8" "shift < 2 ^ 40" "n_size n < M32"
    "self = Some p" "rt_neurons s p = Some n" "n_baseAddrIndex n = idx" "n_bases n = Some bp" "rt_bases s bp = Some b"
  shows "\<exists>i d c. g = Some i \<and> t = s\<lparr>rt_d := d, rt_bases := (rt_bases s)(bp \<mapsto> c)\<rparr> \<and> set_up t \<and> bases_ok t c \<and>
    grows s b t c \<and> gmem_ok t c idx shift (n_size n) i"
proof (cases "idx < 3 \<or> ba_mem b ! idx \<noteq> None")
  case True
  with assms(1) have "MemPreAlloc (ba_mem b ! idx) shift (n_size n) s = Inr (g, t)" by (auto simp: take_gmem_def)
  from take_gmem_part[OF this assms(2-6)] obtain i d where id: "g = Some i" "t = s\<lparr>rt_d := d\<rparr>" "set_up t"
    "bases_ok t b" "grows s b t b" "gmem_ok t b idx shift (n_size n) i" by blast
  have "s\<lparr>rt_d := d, rt_bases := (rt_bases s)(bp \<mapsto> b)\<rparr> = s\<lparr>rt_d := d\<rparr>" using assms(11) by (simp add: fun_upd_idem)
  with id show ?thesis by metis
qed (use take_gmem_first[OF assms(1)] assms in blast)

lemma reserveIonMem_law:
  assumes "reserveIonMem R (Some p) off s = Inr (CVI_RC_SUCCESS, t)" "off \<noteq> -1" "rt_neurons s p = Some n" "n_bases n = Some bp"
    "rt_bases s bp = Some b" "bases_ok s b" "set_up s" "n_size n < M32"
  shows "\<exists>d c n'. t = s\<lparr>rt_d := d, rt_bases := (rt_bases s)(bp \<mapsto> c), rt_neurons := (rt_neurons s)(p \<mapsto> n')\<rparr> \<and>
    set_up t \<and> bases_ok t c \<and> grows s b t c \<and> placed_at t c n' off \<and> n_gmem n' \<noteq> None \<and>
    n_bases n' = Some bp \<and> n_overwrote n' = n_overwrote n"
proof -
  let ?idx = "base_index off" and ?sh = "offset40 off"
  let ?n = "n\<lparr>n_baseAddrIndex := ?idx\<rparr>"
  let ?s = "s\<lparr>rt_neurons := (rt_neurons s)(p \<mapsto> ?n)\<rparr>"
  obtain g u where g: "take_gmem R (Some p) ?n b ?idx ?sh ?s = Inr (g, u)"
    and k: "bind_gmem (Some p) ?n ?idx g u = Inr (CVI_RC_SUCCESS, t)"
    using assms(1-5) by (auto simp: reserveIonMem_def Let_def set_neuron_def dm_inv)
  have s: "bases_ok ?s b" "set_up ?s" using assms(6,7) by (auto simp: bases_ok_def set_up_def)
  have "\<exists>i d c. g = Some i \<and> u = ?s\<lparr>rt_d := d, rt_bases := (rt_bases ?s)(bp \<mapsto> c)\<rparr> \<and> set_up u \<and> bases_ok u c \<and>
      grows ?s b u c \<and> gmem_ok u c ?idx ?sh (n_size ?n) i"
    by (rule take_gmem_law[OF g s base_index_less offset40_less _ refl]) (use assms in auto)
  then obtain i d c where i: "g = Some i" "u = ?s\<lparr>rt_d := d, rt_bases := (rt_bases s)(bp \<mapsto> c)\<rparr>" "set_up u" "bases_ok u c"
    "grows ?s b u c" "gmem_ok u c ?idx ?sh (n_size n) i" by auto
  from i(6) obtain m j M where m: "ds_mems (rt_d u) i = Some m" "bm_p_addr m mod M64 = (ba_addr c ! ?idx + ?sh) mod M64"
    "ba_mem c ! ?idx = Some j" "ds_mems (rt_d u) j = Some M" "ba_addr c ! ?idx = bm_p_addr M" "?sh + n_size n \<le> bm_size M"
    by (auto simp: gmem_ok_def)
  let ?f = "?n\<lparr>n_gmem := g, n_base_mem := Some j, n_vaddr := bm_v_addr m, n_paddr := bm_p_addr m\<rparr>"
  have t: "t = s\<lparr>rt_d := d, rt_bases := (rt_bases s)(bp \<mapsto> c), rt_neurons := (rt_neurons s)(p \<mapsto> ?f)\<rparr>"
    using k i(1,2) m(1,3) assms(4) by (auto simp: bind_gmem_def set_neuron_def MemGetAddr_Inr dm_inv)
  have "placed_at t c ?f off" using m t i(2) by (auto simp: placed_at_def)
  moreover have "set_up t" "bases_ok t c" "grows s b t c" using i(2-5) t by (simp_all add: set_up_def bases_ok_def grows_def)
  ultimately show ?thesis using t i(1) assms(4) by (intro exI[of _ d] exI[of _ c] exI[of _ ?f]) auto
qed

section \<open>Preloading\<close>

text \<open>A round of a preload whose copy cannot be compiled.\<close>

lemma failed_jit:
  assumes "\<And>cmds d. ch_load_cmdbuf (re_chip R) (re_env R) (re_bmk R) ctx cmds (length cmds) 0 0 False d = Inr ((e, w), d)"
    "re_rc R e \<noteq> 0" "cvk = Some k" "rt_khandles s k = Some h"
  shows "runtimeJitTdmaStrideCopy R ctx cvk fmt shape sd ss s =
    Inr (None, s\<lparr>rt_khandles := (rt_khandles s)(k \<mapsto> h\<lparr>sh_cmds := []\<rparr>)\<rparr>)"
  using assms by (simp add: runtimeJitTdmaStrideCopy_def emit_copy_def runtimeJitCompile_def LoadCmdbuf_def on_dev_def
      set_khandle_def sm_run Let_def del: length_append)

lemma failed_preload:
  assumes "\<And>cmds d. ch_load_cmdbuf (re_chip R) (re_env R) (re_bmk R) (n_ctx n) cmds (length cmds) 0 0 False d = Inr ((e, w), d)"
    "re_rc R e \<noteq> 0" "n_cvk n = Some k" "get n = None" "put None n = n"
    "rt_khandles s k \<noteq> None" "rt_neurons s p = Some n"
  shows "\<exists>H. preload_loop R (Some p) get put (runtimeJitTdmaStrideCopy R (n_ctx n) (n_cvk n) fmt shape sd ss) src dst r ret s =
    Inr (ret, s\<lparr>rt_khandles := H\<rparr>)"
  using assms(6,7)
proof (induction r arbitrary: s)
  case 0
  then show ?case by (intro exI[of _ "rt_khandles s"]) (simp add: sm_run)
next
  case (Suc r)
  from Suc.prems obtain h where h: "rt_khandles s k = Some h" by blast
  let ?s = "s\<lparr>rt_khandles := (rt_khandles s)(k \<mapsto> h\<lparr>sh_cmds := []\<rparr>)\<rparr>"
  have j: "runtimeJitTdmaStrideCopy R (n_ctx n) (n_cvk n) fmt shape sd ss s = Inr (None, ?s)"
    by (rule failed_jit[OF assms(1-3) h])
  have "\<exists>H. preload_loop R (Some p) get put (runtimeJitTdmaStrideCopy R (n_ctx n) (n_cvk n) fmt shape sd ss) src dst r ret ?s =
    Inr (ret, ?s\<lparr>rt_khandles := H\<rparr>)" using Suc.prems(2) by (intro Suc.IH) auto
  moreover have "?s\<lparr>rt_neurons := (rt_neurons s)(p \<mapsto> n)\<rparr> = ?s" using Suc.prems(2) by (simp add: fun_upd_idem)
  ultimately show ?case using Suc.prems(2) assms(4,5) j by (auto simp: sm_run set_neuron_def)
qed

text \<open>
  When the copy of a frame into a tensor cannot be compiled, in none of the three attempts,
  \<^verbatim>\<open>preload\<close> reports success although nothing was copied: memory and the kernel calls are as before.
\<close>

lemma preload_hides_compile_failure:
  assumes "\<And>cmds d. ch_load_cmdbuf (re_chip R) (re_env R) (re_bmk R) (n_ctx n) cmds (length cmds) 0 0 False d = Inr ((e, w), d)"
    "re_rc R e \<noteq> 0" "rt_neurons s p = Some n" "n_framePreloadCmdbuf n = None" "n_shape n ! 0 \<noteq> 0"
    "n_cvk n = Some k" "rt_khandles s k \<noteq> None"
  shows "\<exists>t. preload R (Some p) frame_idx src_paddr s = Inr (CVI_RC_SUCCESS, t) \<and> rt_d t = rt_d s"
proof -
  note pl = failed_preload[where n = n and get = n_framePreloadCmdbuf and put = "\<lambda>b n. n\<lparr>n_framePreloadCmdbuf := b\<rparr>", OF assms(1,2,6,4) _ assms(7,3)]
  show ?thesis
    using pl[of CVI_FMT_INT8 _ None None src_paddr _ 3 0] assms(3-5)
    by (fastforce simp: preload_def dbind_def deref_def Let_def CVI_RC_SUCCESS_def)
qed

definition demo_broken :: rtenv where
  "demo_broken = demo_rtenv\<lparr>re_chip := cv180x, re_bmk := demo_bmk\<lparr>bk_dmabuf_size := (\<lambda>_ _. Inr (BM_ERR_FAILURE, 0, 0))\<rparr>\<rparr>"

lemma preload_hides_compile_failure_witness:
  "\<exists>t. preload demo_broken (Some 1) 0 4096 (demo_nrt\<lparr>rt_khandles := [5 \<mapsto> \<lparr>sh_rt_ctx = Some 2, sh_cmds = [], sh_dmabuf = None, sh_magic = 0\<rparr>]\<rparr>)
     = Inr (CVI_RC_SUCCESS, t)"
proof -
  let ?s = "demo_nrt\<lparr>rt_khandles := [5 \<mapsto> \<lparr>sh_rt_ctx = Some 2, sh_cmds = [], sh_dmabuf = None, sh_magic = 0\<rparr>]\<rparr>"
  have l: "ch_load_cmdbuf (re_chip demo_broken) (re_env demo_broken) (re_bmk demo_broken) (n_ctx demo_neuron) cmds (length cmds) 0 0 False d
     = Inr ((BM_ERR_FAILURE, None), d)" for cmds d
    by (simp add: demo_broken_def cv180x_def load_cmdbuf_180x_def from_res_def dm_run)
  have "re_rc demo_broken BM_ERR_FAILURE \<noteq> 0" "rt_neurons ?s 1 = Some demo_neuron" "n_framePreloadCmdbuf demo_neuron = None"
    "n_shape demo_neuron ! 0 \<noteq> 0" "n_cvk demo_neuron = Some 5" "rt_khandles ?s 5 \<noteq> None"
    by (simp_all add: demo_broken_def demo_rtenv_def demo_nrt_def demo_neuron_def)
  from preload_hides_compile_failure[OF l this] show ?thesis by blast
qed

end
