(* ===== verification/ImageSize.thy ===== *)
theory ImageSize
  imports Neuron
begin

text \<open>
  Bounds on the image sizes \<^verbatim>\<open>Neuron::setPixelFormatAndSize\<close> computes: rows are padded to the width
  alignment, planes to the channel alignment, and no intermediate result leaves \<^verbatim>\<open>int\<close> for shapes of
  a reasonable size.
\<close>

lemma align_up_bounds:
  assumes "0 \<le> x" "0 < n" "x + n \<le> 2 ^ 31"
  shows "x \<le> align_up x n" "align_up x n < x + n" "n dvd align_up x n"
proof -
  have a: "to_s32 y = y" if "0 \<le> y" "y < 2 ^ 31" for y using that by (simp add: to_s32_def)
  have d: "(x + n - 1) div n * n \<le> x + n - 1" "x + n - 1 < (x + n - 1) div n * n + n"
    using assms(2) by (metis div_mult_mod_eq le_add_same_cancel1 pos_mod_sign) (metis add.commute add_less_cancel_left assms(2) mod_mult_div_eq mult.commute pos_mod_bound)
  have "0 \<le> (x + n - 1) div n * n" using assms by (simp add: pos_imp_zdiv_nonneg_iff)
  with assms d have e: "align_up x n = (x + n - 1) div n * n"
    by (simp add: align_up_def a signed_divide_int_def sgn_if)
  show "x \<le> align_up x n" "align_up x n < x + n" "n dvd align_up x n" unfolding e using d by simp_all
qed


lemma to_s32_nonneg: "0 \<le> x \<Longrightarrow> x < 2 ^ 31 \<Longrightarrow> to_s32 x = x"
  by (simp add: to_s32_def)

lemma int_to_u32: "0 \<le> x \<Longrightarrow> x < 2 ^ 32 \<Longrightarrow> int (to_u32 x) = x"
  by (simp add: to_u32_def)

text \<open>The bytes of the pixels themselves, without padding, one byte per sample.\<close>

fun image_bytes :: "pixel_format \<Rightarrow> int \<Rightarrow> int \<Rightarrow> int \<Rightarrow> int \<Rightarrow> int" where
  "image_bytes CVI_NN_PIXEL_YUV_420_PLANAR n c h w = n * (h * w + 2 * (h div 2 * (w div 2)))"
| "image_bytes CVI_NN_PIXEL_YUV_NV12 n c h w = n * (h * w + h div 2 * w)"
| "image_bytes CVI_NN_PIXEL_YUV_NV21 n c h w = n * (h * w + h div 2 * w)"
| "image_bytes _ n c h w = n * c * h * w"

lemma sdiv2: "0 \<le> x \<Longrightarrow> x sdiv 2 = x div (2::int)"
  by (simp add: signed_divide_int_def sgn_if)

lemma align_chain:
  assumes "0 \<le> x" "0 < n" "x + n \<le> 2 ^ 31"
  shows "\<exists>y. align_up (to_s32 x) n = y \<and> x \<le> y \<and> y < x + n"
  using align_up_bounds[OF assms] assms by (simp add: to_s32_nonneg)

lemma times_bounds:
  fixes h :: int
  assumes "0 \<le> h" "w \<le> y" "y \<le> w + a"
  shows "h * w \<le> h * y" "h * y \<le> h * w + h * a"
  using assms by (simp_all add: mult_left_mono ring_distribs[symmetric])

text \<open>A shape small enough for the size computations to stay within \<^verbatim>\<open>int\<close>, padding included.\<close>

definition image_fits :: "int \<Rightarrow> int \<Rightarrow> int \<Rightarrow> int \<Rightarrow> bool" where
  "image_fits n c h w \<longleftrightarrow> 1 \<le> n \<and> 1 \<le> c \<and> 0 \<le> h \<and> 0 \<le> w \<and> n * c * (2 * h * (w * c + 128) + 16384) < 2 ^ 31"

lemma image_fits_lines:
  assumes "image_fits n c h w"
  shows "h * w \<le> h * (w * c)" "0 \<le> h * w" "0 \<le> h * (w * c)" "w \<le> w * c" "0 \<le> w * c"
proof -
  have p: "1 \<le> n" "1 \<le> c" "0 \<le> h" "0 \<le> w" using assms by (auto simp: image_fits_def)
  show w: "w \<le> w * c" using p by (simp add: mult_le_cancel_left1)
  then show "h * w \<le> h * (w * c)" using p by (intro mult_left_mono) auto
  show "0 \<le> h * w" "0 \<le> h * (w * c)" "0 \<le> w * c" using p by auto
qed

lemma image_fits_room:
  assumes "image_fits n c h w" "x \<le> 2 * (h * (w * c)) + 256 * h + 16384" "0 \<le> x"
  shows "n * c * x < 2 ^ 31" "n * x < 2 ^ 31" "x < 2 ^ 31"
proof -
  have p: "1 \<le> n" "1 \<le> c" and cap: "n * c * (2 * h * (w * c + 128) + 16384) < 2 ^ 31" using assms(1) by (auto simp: image_fits_def)
  have e: "2 * h * (w * c + 128) + 16384 = 2 * (h * (w * c)) + 256 * h + 16384" by (simp add: algebra_simps)
  have "0 \<le> n * c" using p by simp
  then have "n * c * x \<le> n * c * (2 * h * (w * c + 128) + 16384)" using assms(2) unfolding e by (rule mult_left_mono[rotated])
  with cap show a: "n * c * x < 2 ^ 31" by simp
  have "0 \<le> n * x" using p assms(3) by simp
  then have "n * x * 1 \<le> n * x * c" using p by (intro mult_left_mono)
  with a show b: "n * x < 2 ^ 31" by (simp add: mult.commute mult.left_commute)
  have "x * 1 \<le> x * n" using p assms(3) by (intro mult_left_mono)
  with b show "x < 2 ^ 31" by (simp add: mult.commute)
qed

lemma padded_rows:
  assumes "image_fits n c h w" "w \<le> y" "y \<le> w + 128"
  shows "h * w \<le> h * y" "h * y \<le> h * (w * c) + 128 * h" "0 \<le> h * y" "h div 2 * w \<le> h div 2 * y" "h div 2 * y \<le> h * y"
proof -
  have p: "0 \<le> h" "0 \<le> w" using assms(1) by (auto simp: image_fits_def)
  show a: "h * w \<le> h * y" using times_bounds[OF p(1) assms(2,3)] by simp
  show "h * y \<le> h * (w * c) + 128 * h"
    using times_bounds[OF p(1) assms(2,3)] image_fits_lines(1)[OF assms(1)] by (simp add: mult.commute[of _ 128])
  show "0 \<le> h * y" using a image_fits_lines(2)[OF assms(1)] by simp
  show "h div 2 * w \<le> h div 2 * y" using p assms(2) by (intro mult_left_mono) auto
  show "h div 2 * y \<le> h * y" using p assms(2) by (intro mult_right_mono) auto
qed

lemma product_bounds:
  assumes "image_fits n c h w" "b \<le> x" "0 \<le> b" "x \<le> 2 * (h * (w * c)) + 256 * h + 16384"
  shows "n * c * b \<le> int (to_u32 (n * c * x))" "n * b \<le> int (to_u32 (n * x))"
proof -
  have p: "1 \<le> n" "1 \<le> c" using assms(1) by (auto simp: image_fits_def)
  note r = image_fits_room[OF assms(1,4)]
  have "0 \<le> n * c * b" "n * c * b \<le> n * c * x" "0 \<le> n * b" "n * b \<le> n * x" using p assms(2,3) by (auto intro!: mult_left_mono)
  with r assms(2,3) show "n * c * b \<le> int (to_u32 (n * c * x))" "n * b \<le> int (to_u32 (n * x))" by (simp_all add: int_to_u32)
qed


definition small_aligns :: "int \<times> int \<times> int \<Rightarrow> bool" where
  "small_aligns al \<longleftrightarrow> (case al of (ya, wa, ca) \<Rightarrow> 0 < ya \<and> ya \<le> 128 \<and> 0 < wa \<and> wa \<le> 64 \<and> 0 < ca \<and> ca \<le> 4096)"

lemma padded_plane:
  assumes "image_fits n c h w" "small_aligns (ya, wa, ca)" "0 \<le> x" "x \<le> 2 * (h * (w * c)) + 256 * h + 12288"
  shows "x \<le> align_up (to_s32 x) ca" "align_up (to_s32 x) ca \<le> x + 4095"
proof -
  have "x + 4096 < 2 ^ 31" using image_fits_room(3)[OF assms(1), of "x + 4096"] assms(3,4) by simp
  then show "x \<le> align_up (to_s32 x) ca" "align_up (to_s32 x) ca \<le> x + 4095"
    using align_chain[of x ca] assms(2,3) by (auto simp: small_aligns_def)
qed

lemma image_bytes_le_planar:
  assumes "image_fits n c h w" "w + 128 \<le> 2 ^ 31" "small_aligns (ya, wa, ca)"
  shows "n * c * h * w \<le> int (to_u32 (n * c * align_up (to_s32 (align_up w wa * h)) ca))"
proof -
  let ?y = "align_up w wa"
  have y: "w \<le> ?y" "?y \<le> w + 128" using align_up_bounds[of w wa] assms by (auto simp: image_fits_def small_aligns_def)
  note r = padded_rows[OF assms(1) y]
  have h: "0 \<le> h" using assms(1) by (simp add: image_fits_def)
  have "h * ?y \<le> align_up (to_s32 (h * ?y)) ca" "align_up (to_s32 (h * ?y)) ca \<le> h * ?y + 4095"
    using r image_fits_lines(3)[OF assms(1)] h by (auto intro!: padded_plane[OF assms(1,3)])
  with r image_fits_lines(2,3)[OF assms(1)] h show ?thesis
    using product_bounds(1)[OF assms(1), of "h * w" "align_up (to_s32 (h * ?y)) ca"]
    by (simp add: mult.assoc mult.commute[of ?y h])
qed

lemma image_bytes_le_packed:
  assumes "image_fits n c h w" "w * c + 128 \<le> 2 ^ 31" "small_aligns (ya, wa, ca)"
  shows "n * c * h * w \<le> int (to_u32 (n * h * align_up (to_s32 (w * c)) wa))"
proof -
  let ?y = "align_up (to_s32 (w * c)) wa"
  have h: "0 \<le> h" using assms(1) by (simp add: image_fits_def)
  have y: "w * c \<le> ?y" "?y \<le> w * c + 64"
    using align_chain[of "w * c" wa] image_fits_lines[OF assms(1)] assms by (auto simp: small_aligns_def)
  from times_bounds[OF h y] have "h * (w * c) \<le> h * ?y" "h * ?y \<le> h * (w * c) + 64 * h" by (simp_all add: mult.commute)
  with image_fits_lines(3)[OF assms(1)] h show ?thesis
    using product_bounds(2)[OF assms(1), of "h * (w * c)" "h * ?y"] by (simp add: algebra_simps)
qed


lemma image_bytes_le_gray:
  assumes "image_fits n c h w" "w + 128 \<le> 2 ^ 31" "small_aligns (ya, wa, ca)"
  shows "n * c * h * w \<le> int (to_u32 (n * c * h * align_up w wa))"
proof -
  let ?y = "align_up w wa"
  have y: "w \<le> ?y" "?y \<le> w + 128" using align_up_bounds[of w wa] assms by (auto simp: image_fits_def small_aligns_def)
  have h: "0 \<le> h" using assms(1) by (simp add: image_fits_def)
  with padded_rows[OF assms(1) y] image_fits_lines(2,3)[OF assms(1)] show ?thesis
    using product_bounds(1)[OF assms(1), of "h * w" "h * ?y"] by (simp add: mult.assoc)
qed

lemma image_bytes_le_nv:
  assumes "image_fits n c h w" "w + 128 \<le> 2 ^ 31" "small_aligns (ya, wa, ca)"
    "s1 = align_up (to_s32 (h * align_up w ya)) ca"
  shows "n * (h * w + h div 2 * w) \<le> int (to_u32 (n * align_up (to_s32 (s1 + h sdiv 2 * align_up w wa)) ca))"
proof -
  let ?y = "align_up w ya" and ?u = "align_up w wa"
  have h: "0 \<le> h" "0 \<le> w" using assms(1) by (auto simp: image_fits_def)
  have y: "w \<le> ?y" "?y \<le> w + 128" "w \<le> ?u" "?u \<le> w + 128"
    using align_up_bounds[of w wa] align_up_bounds[of w ya] assms h by (auto simp: small_aligns_def)
  note ry = padded_rows[OF assms(1) y(1,2)] and ru = padded_rows[OF assms(1) y(3,4)]
  note pl = padded_plane[OF assms(1,3)]
  have s1: "h * ?y \<le> s1" "s1 \<le> h * ?y + 4095"
    unfolding assms(4) using ry h image_fits_lines(3)[OF assms(1)] by (auto intro!: pl)
  have d: "0 \<le> h div 2 * w" using h by simp
  let ?x = "s1 + h div 2 * ?u"
  have x: "0 \<le> ?x" "?x \<le> 2 * (h * (w * c)) + 256 * h + 4095" using s1 ry ru d by linarith+
  have "?x \<le> align_up (to_s32 ?x) ca" "align_up (to_s32 ?x) ca \<le> ?x + 4095" using x by (auto intro!: pl)
  moreover have "0 \<le> h * w + h div 2 * w" "h * w + h div 2 * w \<le> ?x"
    using s1 ry(1,3) ru(4) d image_fits_lines(2)[OF assms(1)] by linarith+
  ultimately show ?thesis using x sdiv2[OF h(1)]
    product_bounds(2)[OF assms(1), of "h * w + h div 2 * w" "align_up (to_s32 ?x) ca"] by simp
qed

lemma image_bytes_le_420:
  assumes "image_fits n c h w" "w + 128 \<le> 2 ^ 31" "small_aligns (ya, wa, ca)"
    "u = align_up (to_s32 (h * align_up w ya)) ca" "v = align_up (to_s32 (u + h sdiv 2 * align_up (w sdiv 2) wa)) ca"
  shows "n * (h * w + 2 * (h div 2 * (w div 2))) \<le>
    int (to_u32 (n * align_up (to_s32 (v + h sdiv 2 * align_up (w sdiv 2) wa)) ca))"
proof -
  let ?y = "align_up w ya" and ?z = "align_up (w div 2) wa"
  have h: "0 \<le> h" "0 \<le> w" "0 \<le> h div 2" using assms(1) by (auto simp: image_fits_def)
  have "w div 2 \<le> w" "wa \<le> 64" using assms(3) h by (auto simp: small_aligns_def)
  then have "w div 2 + wa \<le> 2 ^ 31" using assms(2) by linarith
  then have y: "w \<le> ?y" "?y \<le> w + 128" "w div 2 \<le> ?z" "?z \<le> w div 2 + 64"
    using align_up_bounds[of "w div 2" wa] align_up_bounds[of w ya] assms(2,3) h by (auto simp: small_aligns_def)
  note ry = padded_rows[OF assms(1) y(1,2)] and pl = padded_plane[OF assms(1,3)]
  let ?c = "h div 2 * ?z"
  have c1: "h div 2 * (w div 2) \<le> ?c" using h y(3) by (intro mult_left_mono) auto
  have "h div 2 * (2 * ?z) \<le> h div 2 * (w + 128)" using h y(4) by (intro mult_left_mono) auto
  moreover have "h div 2 * (w + 128) \<le> h * (w + 128)" using h by (intro mult_right_mono) auto
  ultimately have c2: "2 * ?c \<le> h * (w * c) + 128 * h" using image_fits_lines(1)[OF assms(1)] by (simp add: algebra_simps)
  have c0: "0 \<le> ?c" "0 \<le> h div 2 * (w div 2)" using h c1 by (auto intro: order_trans[OF _ c1])
  have s: "w sdiv 2 = w div 2" "h sdiv 2 = h div 2" using h by (simp_all add: sdiv2)
  have u: "h * ?y \<le> u" "u \<le> h * ?y + 4095" unfolding assms(4) using ry h image_fits_lines(3)[OF assms(1)] by (auto intro!: pl)
  have x1: "0 \<le> u + ?c" "u + ?c \<le> 2 * (h * (w * c)) + 256 * h + 4095" using u ry c0 c2 by linarith+
  have v: "u + ?c \<le> v" "v \<le> u + ?c + 4095" unfolding assms(5) s using x1 by (auto intro!: pl)
  have x2: "0 \<le> v + ?c" "v + ?c \<le> 2 * (h * (w * c)) + 256 * h + 8190" using v u ry c0 c2 by linarith+
  have "v + ?c \<le> align_up (to_s32 (v + ?c)) ca" "align_up (to_s32 (v + ?c)) ca \<le> v + ?c + 4095" using x2 by (auto intro!: pl)
  moreover have "0 \<le> h * w + 2 * (h div 2 * (w div 2))" "h * w + 2 * (h div 2 * (w div 2)) \<le> v + ?c"
    using v u ry(1,3) c0 c1 image_fits_lines(2)[OF assms(1)] by linarith+
  ultimately show ?thesis unfolding s using x2
    product_bounds(2)[OF assms(1), of "h * w + 2 * (h div 2 * (w div 2))" "align_up (to_s32 (v + ?c)) ca"] by simp
qed

lemma setPixelAlign_small: "small_aligns (setPixelAlign chip format)"
  by (simp add: setPixelAlign_def small_aligns_def)

text \<open>
  C30: the buffer of an aligned image tensor holds the image: in every pixel format the computed size
  is at least the number of bytes of the pixels, on every chip, as long as the sizes with their
  padding stay within \<^verbatim>\<open>int\<close>.
\<close>

theorem image_fits_buffer:
  assumes "setPixelFormatAndSize chip name True 0 [n, c, h, w] cnt dsize = Inr (format, aligns, sz)"
    "image_fits n c h w" "w * c + 128 \<le> 2 ^ 31"
  shows "image_bytes format n c h w \<le> int sz"
proof -
  have a: "aligned_size aligns [n, c, h, w] format = Inr sz" "aligns = setPixelAlign chip format"
    using assms(1) by (auto simp: setPixelFormatAndSize_def result_simps Let_def)
  obtain ya wa ca where al: "aligns = (ya, wa, ca)" by (cases aligns)
  then have s: "small_aligns (ya, wa, ca)" using a(2) setPixelAlign_small by metis
  have w: "w + 128 \<le> 2 ^ 31" using assms(3) image_fits_lines(4)[OF assms(2)] by simp
  note lb = image_bytes_le_gray[OF assms(2) w s] image_bytes_le_planar[OF assms(2) w s] image_bytes_le_packed[OF assms(2,3) s]
    image_bytes_le_nv[OF assms(2) w s refl] image_bytes_le_420[OF assms(2) w s refl refl]
  show ?thesis using a(1) lb unfolding al
    by (cases format) (auto simp: aligned_size_def yuv_size_def Let_def result_simps mult.assoc)
qed

theorem image_fits_buffer_witness:
  "\<exists>aligns sz. setPixelFormatAndSize ''cv183x'' ''YUV420_PLANAR'' True 0 [1, 3, 100, 200] 60000 1 =
      Inr (CVI_NN_PIXEL_YUV_420_PLANAR, aligns, sz) \<and> 30000 \<le> sz"
proof -
  obtain aligns sz where "setPixelFormatAndSize ''cv183x'' ''YUV420_PLANAR'' True 0 [1, 3, 100, 200] 60000 1 =
      Inr (CVI_NN_PIXEL_YUV_420_PLANAR, aligns, sz)"
    by (simp add: setPixelFormatAndSize_def pixel_format_of_def aligned_size_def yuv_size_def setPixelAlign_def Let_def)
  moreover from image_fits_buffer[OF this] have "30000 \<le> sz" by (simp add: image_fits_def)
  ultimately show ?thesis by blast
qed

end
