(* ===== verification/Program.thy ===== *)
theory Program
  imports Neuron "HOL-Library.List_Lexorder" "HOL-Library.Char_ord"
begin

text \<open>
  Programs of a model (\<^verbatim>\<open>src/common/program.cpp\<close>: classes \<^verbatim>\<open>Program\<close>, \<^verbatim>\<open>TpuRoutine\<close> and \<^verbatim>\<open>CpuRoutine\<close>): setting
  up neuron memory, tensors and routines, exporting tensor descriptions, running an inference.

  A \<^verbatim>\<open>std::map\<close> from names is an association list in the order of its keys, which is the order of
  iteration.  The maps a program shares with its model do not change once the model is parsed, so
  the program holds their values.  Compile-time switches (\<^verbatim>\<open>ENABLE_CPU_FUNC\<close>, \<^verbatim>\<open>ENABLE_PMU\<close>) are fields of
  the environment.
\<close>

section \<open>Ordered maps\<close>

fun map_put :: "string \<Rightarrow> 'v \<Rightarrow> (string \<times> 'v) list \<Rightarrow> (string \<times> 'v) list" where
  "map_put k v [] = [(k, v)]"
| "map_put k v ((k', v') # m) =
    (if k = k' then (k, v) # m else if k < k' then (k, v) # (k', v') # m else (k', v') # map_put k v m)"

lemma map_of_map_put [simp]: "map_of (map_put k v m) = (map_of m)(k \<mapsto> v)"
  by (induction k v m rule: map_put.induct) (auto simp: fun_eq_iff)

lemma set_map_put: "set (map_put k v m) \<subseteq> insert (k, v) (set m)"
  by (induction k v m rule: map_put.induct) auto

lemma sorted_map_put: "sorted_wrt (<) (map fst m) \<Longrightarrow> sorted_wrt (<) (map fst (map_put k v m))"
proof (induction k v m rule: map_put.induct)
  case (2 k v k' v' m)
  have "k' < x" if "k' < k" "x \<in> fst ` set (map_put k v m)" for x
    using that "2.prems" set_map_put[of k v m] by fastforce
  with 2 show ?case by auto
qed simp

section \<open>Construction\<close>

definition set_program :: "ptr \<Rightarrow> program \<Rightarrow> unit rtm" where
  "set_program self p = dmodify (\<lambda>s. s\<lparr>rt_programs := (rt_programs s)(the self \<mapsto> p)\<rparr>)"

definition new_bases :: "base_arrays \<Rightarrow> ptr rtm" where
  "new_bases b s = Inr (Some (rt_next s), s\<lparr>rt_next := rt_next s + 1, rt_bases := (rt_bases s)(rt_next s \<mapsto> b)\<rparr>)"

definition new_program :: "program \<Rightarrow> ptr rtm" where
  "new_program p s = Inr (Some (rt_next s), s\<lparr>rt_next := rt_next s + 1, rt_programs := (rt_programs s)(rt_next s \<mapsto> p)\<rparr>)"

definition Program_new :: "rtenv \<Rightarrow> ptr \<Rightarrow> (string \<times> ptr) list \<Rightarrow> cpu_runtime_function list \<Rightarrow> (string \<times> ptr) list \<Rightarrow>
    ptr \<Rightarrow> string \<Rightarrow> u64 \<Rightarrow> ptr rtm" where
  "Program_new R ctx dmabuf_map functions weight_map weight_mem model_name max_shared_mem_size =
     dbind (RegisterKernel R ctx 1024) (\<lambda>cvk. dbind (MemGetPAddr weight_mem) (\<lambda>pa.
     dbind (new_bases \<lparr>ba_addr = (replicate 8 0)[1 := pa], ba_mem = (replicate 8 None)[1 := weight_mem]\<rparr>) (\<lambda>bp.
     new_program \<lparr>p_in_tensors = [], p_out_tensors = [], p_neuron_map = [], p_weight_map = weight_map,
       p_dmabuf_map = dmabuf_map, p_cpu_functions = functions, p_bases = bp, p_ctx = ctx, p_cvk = cvk,
       p_export_all_tensors = False, p_skip_preprocess = False, p_private_mem = None, p_shared_mem = None,
       p_routines = [], p_model_name = model_name, p_max_shared_mem_size = max_shared_mem_size\<rparr>)))"

definition setOptions :: "ptr \<Rightarrow> bool \<Rightarrow> bool \<Rightarrow> unit rtm" where
  "setOptions self export_all_tensors skip_preprocess = dbind (deref rt_programs self) (\<lambda>p.
     set_program self (p\<lparr>p_export_all_tensors := export_all_tensors, p_skip_preprocess := skip_preprocess\<rparr>))"

text \<open>
  The destructor, then the members: the tensors die with the last list or map that holds them, one
  after the other; the sources do not fix their order.
\<close>

definition Program_destroy :: "rtenv \<Rightarrow> ptr \<Rightarrow> unit rtm" where
  "Program_destroy R self = dbind (deref rt_programs self) (\<lambda>p.
     dthen (if p_shared_mem p \<noteq> None then deallocateSharedMemory R (p_ctx p) (p_shared_mem p) else dret ())
    (dthen (if p_private_mem p \<noteq> None then cviMemFree R (p_ctx p) (p_private_mem p) else dret ())
    (dthen (if p_cvk p \<noteq> None then dthen (UnRegisterKernel R (p_cvk p)) (dret ()) else dret ())
    (dthen (for_each (Neuron_destroy R) (filter (\<lambda>n. n \<noteq> None) (map snd (p_neuron_map p))))
     (dmodify (\<lambda>s. s\<lparr>rt_programs := (rt_programs s)(the self := None),
                      rt_bases := (rt_bases s)(the (p_bases p) := None)\<rparr>))))))"

section \<open>Neuron memory\<close>

definition set_base :: "ptr \<Rightarrow> nat \<Rightarrow> ptr \<Rightarrow> unit rtm" where
  "set_base bp k mem = dbind (MemGetPAddr mem) (\<lambda>pa. dbind (deref rt_bases bp) (\<lambda>b.
     set_bases bp (b\<lparr>ba_mem := (ba_mem b)[k := mem], ba_addr := (ba_addr b)[k := pa]\<rparr>)))"

definition alloc_shared :: "rtenv \<Rightarrow> ptr \<Rightarrow> cvi_rc rtm" where
  "alloc_shared R self = dbind (deref rt_programs self) (\<lambda>p.
     dbind (allocateSharedMemory R (p_ctx p) (p_max_shared_mem_size p)) (\<lambda>mem.
     dthen (set_program self (p\<lparr>p_shared_mem := mem\<rparr>))
    (if mem = None then dret CVI_RC_NOMEM
     else dthen (set_base (p_bases p) 0 mem) (dret CVI_RC_SUCCESS))))"

definition alloc_private :: "rtenv \<Rightarrow> ptr \<Rightarrow> u32 \<Rightarrow> nat list \<Rightarrow> cvi_rc rtm" where
  "alloc_private R self sz idxs = dbind (deref rt_programs self) (\<lambda>p.
     dbind (cviMemAlloc R (p_ctx p) sz CVI_ALLOC_PROGRAM (p_model_name p)) (\<lambda>mem.
     dthen (set_program self (p\<lparr>p_private_mem := mem\<rparr>))
    (if mem = None then dret CVI_RC_NOMEM
     else dthen (for_each (\<lambda>k. set_base (p_bases p) k mem) idxs) (dret CVI_RC_SUCCESS))))"

definition createNeuronSpace :: "rtenv \<Rightarrow> ptr \<Rightarrow> fb_program \<Rightarrow> cvi_rc rtm" where
  "createNeuronSpace R self fb =
    (if fp_neuron_size fb \<noteq> 0 then alloc_private R self (fp_neuron_size fb) [0, 2]
     else dbind (if fp_shared_gmem fb \<noteq> 0 then alloc_shared R self else dret CVI_RC_SUCCESS) (\<lambda>rc.
       if rc \<noteq> CVI_RC_SUCCESS then dret rc
       else if fp_private_gmem fb \<noteq> 0 then alloc_private R self (fp_private_gmem fb) [2]
       else dret CVI_RC_SUCCESS))"

section \<open>Tensors\<close>

text \<open>\<^verbatim>\<open>neuron_map[name] = tensor\<close>: the tensor it replaces dies.\<close>

definition assign_neuron :: "rtenv \<Rightarrow> ptr \<Rightarrow> string \<Rightarrow> ptr \<Rightarrow> unit rtm" where
  "assign_neuron R self name n = dbind (deref rt_programs self) (\<lambda>p.
     dthen (case map_of (p_neuron_map p) name of Some (Some q) \<Rightarrow> Neuron_destroy R (Some q) | _ \<Rightarrow> dret ())
     (set_program self (p\<lparr>p_neuron_map := map_put name n (p_neuron_map p)\<rparr>)))"

text \<open>\<^verbatim>\<open>neuron_map[name]\<close>: a name that is not there is entered with a null tensor.\<close>

definition neuron_at :: "ptr \<Rightarrow> string \<Rightarrow> ptr rtm" where
  "neuron_at self name = dbind (deref rt_programs self) (\<lambda>p.
     case map_of (p_neuron_map p) name of
       Some n \<Rightarrow> dret n
     | None \<Rightarrow> dthen (set_program self (p\<lparr>p_neuron_map := map_put name None (p_neuron_map p)\<rparr>)) (dret None))"

fun neurons_at :: "ptr \<Rightarrow> string list \<Rightarrow> ptr list rtm" where
  "neurons_at self [] = dret []"
| "neurons_at self (name # names) = dbind (neuron_at self name) (\<lambda>n.
     dbind (neurons_at self names) (\<lambda>ns. dret (n # ns)))"

fun make_neurons :: "rtenv \<Rightarrow> ptr \<Rightarrow> fb_tensor list \<Rightarrow> cvi_rc rtm" where
  "make_neurons R self [] = dret CVI_RC_SUCCESS"
| "make_neurons R self (t # ts) = dbind (deref rt_programs self) (\<lambda>p.
     dbind (Neuron_activation R (p_ctx p) (p_cvk p) t (p_bases p) (p_model_name p)) (\<lambda>tensor.
     dbind (reserveIonMem R tensor (ft_offset t)) (\<lambda>rc.
     if rc \<noteq> CVI_RC_SUCCESS then dthen (Neuron_destroy R tensor) (dret CVI_RC_NOMEM)
     else dthen (assign_neuron R self (ft_name t) tensor) (make_neurons R self ts))))"

definition push_tensors :: "ptr \<Rightarrow> fb_program \<Rightarrow> unit rtm" where
  "push_tensors self fb = dbind (neurons_at self (fp_input_tensors fb)) (\<lambda>ins.
     dbind (neurons_at self (fp_output_tensors fb)) (\<lambda>outs.
     dbind (deref rt_programs self) (\<lambda>p.
     set_program self (p\<lparr>p_in_tensors := p_in_tensors p @ ins, p_out_tensors := p_out_tensors p @ outs\<rparr>))))"

text \<open>The name of the first input is read although it is not used.\<close>

definition createNeuronMap :: "rtenv \<Rightarrow> ptr \<Rightarrow> fb_program \<Rightarrow> cvi_rc rtm" where
  "createNeuronMap R self fb =
    (if fp_input_tensors fb = [] then dfail OutOfRange
     else dbind (make_neurons R self (fp_tensor_map fb)) (\<lambda>rc.
       if rc \<noteq> CVI_RC_SUCCESS then dret rc
       else dthen (push_tensors self fb) (dret CVI_RC_SUCCESS)))"

section \<open>Routines\<close>

definition init_dmabuf :: "program \<Rightarrow> string \<Rightarrow> ptr rtm" where
  "init_dmabuf p name = (case map_of (p_dmabuf_map p) name of None \<Rightarrow> dfail AssertFailed | Some mem \<Rightarrow> dret mem)"

text \<open>\<^verbatim>\<open>initialize\<close> of a routine: the routine, nothing when it reports failure.\<close>

definition TpuRoutine_initialize :: "rtenv \<Rightarrow> ptr \<Rightarrow> fb_routine \<Rightarrow> routine option rtm" where
  "TpuRoutine_initialize R self r = dbind (neurons_at self (fr_in_tensors r)) (\<lambda>ins.
     dbind (neurons_at self (fr_out_tensors r)) (\<lambda>outs.
     dbind (deref rt_programs self) (\<lambda>p.
     case fr_cmdbuf_section r of
       Some name \<Rightarrow> dbind (init_dmabuf p name) (\<lambda>buf. dret (Some (TpuRoutine ins outs buf (re_pmu R) False)))
     | None \<Rightarrow> (case fr_dmabuf_section r of
         Some name \<Rightarrow> dbind (init_dmabuf p name) (\<lambda>buf. dret (Some (TpuRoutine ins outs buf (re_pmu R) False)))
       | None \<Rightarrow> dret None))))"

text \<open>
  \<^verbatim>\<open>OpParam\<close>: attributes by key, the last one wins; reading an attribute of another type asserts.
\<close>

fun handleFuncArgs :: "attr list \<Rightarrow> (string \<rightharpoonup> attr) \<Rightarrow> (string \<rightharpoonup> attr) res" where
  "handleFuncArgs [] param = Inr param"
| "handleFuncArgs (a # as) param = (case a of
      IntAttr k _ \<Rightarrow> handleFuncArgs as (param(k \<mapsto> a))
    | FloatAttr k _ \<Rightarrow> handleFuncArgs as (param(k \<mapsto> a))
    | BoolAttr k _ \<Rightarrow> handleFuncArgs as (param(k \<mapsto> a))
    | StrAttr k _ \<Rightarrow> handleFuncArgs as (param(k \<mapsto> a))
    | IntArrayAttr k _ \<Rightarrow> handleFuncArgs as (param(k \<mapsto> a))
    | FloatArrayAttr k _ \<Rightarrow> handleFuncArgs as (param(k \<mapsto> a))
    | NoAttr \<Rightarrow> Inl AssertFailed)"

definition get_str :: "(string \<rightharpoonup> attr) \<Rightarrow> string \<Rightarrow> string res" where
  "get_str param k = (case param k of Some (StrAttr _ v) \<Rightarrow> Inr v | _ \<Rightarrow> Inl AssertFailed)"

definition get_float :: "(string \<rightharpoonup> attr) \<Rightarrow> string \<Rightarrow> f32 res" where
  "get_float param k = (case param k of Some (FloatAttr _ v) \<Rightarrow> Inr v | _ \<Rightarrow> Inl AssertFailed)"

definition quant_scale :: "rtenv \<Rightarrow> (string \<rightharpoonup> attr) \<Rightarrow> f32 option res" where
  "quant_scale R param = bind_res (get_str param ''from'') (\<lambda>f.
     if f \<noteq> ''NONE'' then Inr None
     else bind_res (get_str param ''to'') (\<lambda>t.
       if t \<noteq> ''INT8'' then Inr None
       else if param ''threshold'' \<noteq> None
       then bind_res (get_float param ''threshold'') (\<lambda>x. Inr (Some (re_fdiv128 R x)))
       else bind_res (get_float param ''scale'') (\<lambda>x. Inr (Some x))))"

definition fetchQscaleFromDequant :: "rtenv \<Rightarrow> (string \<rightharpoonup> attr) \<Rightarrow> ptr list \<Rightarrow> unit rtm" where
  "fetchQscaleFromDequant R param outs = dbind (to_rtm (quant_scale R param)) (\<lambda>sc. case sc of
     None \<Rightarrow> dret ()
   | Some q \<Rightarrow> (case outs of
       [] \<Rightarrow> dfail OutOfRange
     | o1 # _ \<Rightarrow> dbind (deref rt_neurons o1) (\<lambda>n. set_neuron o1 (n\<lparr>n_qscale := q\<rparr>))))"

text \<open>The inputs of a CPU routine: tensors of the program, or else weights, which are brought to the processor.\<close>

fun cpu_inputs :: "rtenv \<Rightarrow> ptr \<Rightarrow> string list \<Rightarrow> ptr list option rtm" where
  "cpu_inputs R self [] = dret (Some [])"
| "cpu_inputs R self (name # names) = dbind (deref rt_programs self) (\<lambda>p.
     let rest = (\<lambda>n. dbind (cpu_inputs R self names) (\<lambda>ns. dret (map_option (\<lambda>l. n # l) ns))) in
     case map_of (p_neuron_map p) name of
       Some n \<Rightarrow> rest n
     | None \<Rightarrow> (case map_of (p_weight_map p) name of
         None \<Rightarrow> dret None
       | Some n \<Rightarrow> dthen (toCpu R n) (rest n)))"

definition CpuRoutine_initialize :: "rtenv \<Rightarrow> ptr \<Rightarrow> fb_routine \<Rightarrow> routine option rtm" where
  "CpuRoutine_initialize R self r = dbind (cpu_inputs R self (fr_in_tensors r)) (\<lambda>inputs. case inputs of
     None \<Rightarrow> dret None
   | Some ins \<Rightarrow> dbind (neurons_at self (fr_out_tensors r)) (\<lambda>outs.
       dbind (deref rt_programs self) (\<lambda>p.
       case find (\<lambda>f. crf_name f = fr_function r) (p_cpu_functions p) of
         None \<Rightarrow> dret None
       | Some f \<Rightarrow>
           if crf_open f = 0 then dret None
           else dthen (case fr_args r of
               None \<Rightarrow> dret ()
             | Some args \<Rightarrow> dbind (to_rtm (handleFuncArgs args Map.empty)) (\<lambda>param.
                 if fr_function r = ''quant'' then fetchQscaleFromDequant R param outs else dret ()))
            (dret (Some (CpuRoutine ins outs (fr_function r) (crf_open f) (case fr_args r of None \<Rightarrow> [] | Some args \<Rightarrow> args)))))))"

fun createRoutines :: "rtenv \<Rightarrow> ptr \<Rightarrow> fb_routine list \<Rightarrow> cvi_rc rtm" where
  "createRoutines R self [] = dret CVI_RC_SUCCESS"
| "createRoutines R self (r # rs) =
    (if \<not> fr_is_tpu r \<and> \<not> re_cpu_enabled R then dret CVI_RC_UNSUPPORT
     else dbind (if fr_is_tpu r then TpuRoutine_initialize R self r else CpuRoutine_initialize R self r) (\<lambda>made.
       case made of
         None \<Rightarrow> dret CVI_RC_DATA_ERR
       | Some x \<Rightarrow> dbind (deref rt_programs self) (\<lambda>p.
           dthen (set_program self (p\<lparr>p_routines := p_routines p @ [x]\<rparr>)) (createRoutines R self rs))))"

fun prepare :: "rtenv \<Rightarrow> routine \<Rightarrow> cvi_rc rtm" where
  "prepare R (TpuRoutine _ _ _ _ _) = dret CVI_RC_SUCCESS"
| "prepare R (CpuRoutine ins outs _ _ _) = until_error (reserveSysMem R) (ins @ outs)"

definition Program_load :: "rtenv \<Rightarrow> ptr \<Rightarrow> fb_program \<Rightarrow> cvi_rc rtm" where
  "Program_load R self fb = dbind (createNeuronSpace R self fb) (\<lambda>rc.
     if rc \<noteq> CVI_RC_SUCCESS then dret rc
     else dbind (createNeuronMap R self fb) (\<lambda>rc2.
       if rc2 \<noteq> CVI_RC_SUCCESS then dret rc2
       else dbind (createRoutines R self (fp_routines fb)) (\<lambda>rc3.
         if rc3 \<noteq> CVI_RC_SUCCESS then dret rc3
         else dbind (deref rt_programs self) (\<lambda>p. until_error (prepare R) (p_routines p)))))"

section \<open>Exporting tensors\<close>

text \<open>
  \<^verbatim>\<open>exportTensorInfo\<close>; more than three scales or means are written past the arrays of the structure.
  Entries that are not written stay as \<^verbatim>\<open>new\<close> left them and are not listed.
\<close>

definition exportTensorInfo :: "ptr \<Rightarrow> ptr \<Rightarrow> cvi_tensor rtm" where
  "exportTensorInfo self neuron = dbind (deref rt_neurons neuron) (\<lambda>n.
     if length (n_scale n) > 3 \<or> length (n_mean n) > 3 then dfail OutOfRange
     else dret \<lparr>t_name = n_name n, t_shape = take 4 (n_shape n), t_fmt = n_fmt n, t_count = n_count n,
       t_mem_size = n_size n, t_sys_mem = sys_mem n, t_paddr = n_paddr n, t_mem_type = CVI_MEM_SYSTEM,
       t_qscale = n_qscale n, t_zero_point = n_zero_point n, t_pixel_format = n_pixel_format n,
       t_aligned = n_aligned n, t_mean = n_mean n, t_scale = n_scale n, t_owner = self\<rparr>)"

fun export_list :: "ptr \<Rightarrow> ptr list \<Rightarrow> cvi_tensor list rtm" where
  "export_list self [] = dret []"
| "export_list self (n # ns) = dbind (exportTensorInfo self n) (\<lambda>t. dbind (export_list self ns) (\<lambda>ts. dret (t # ts)))"

text \<open>The tensors of the map that are not overwritten, in the order of their names.\<close>

fun kept_tensors :: "ptr list \<Rightarrow> ptr list rtm" where
  "kept_tensors [] = dret []"
| "kept_tensors (x # xs) = dbind (deref rt_neurons x) (\<lambda>n. dbind (kept_tensors xs) (\<lambda>l.
     dret (if n_overwrote n then l else x # l)))"

definition exportInputs :: "ptr \<Rightarrow> cvi_tensor list rtm" where
  "exportInputs self = dbind (deref rt_programs self) (\<lambda>p. export_list self (p_in_tensors p))"

definition exportOutputs :: "ptr \<Rightarrow> cvi_tensor list rtm" where
  "exportOutputs self = dbind (deref rt_programs self) (\<lambda>p.
     if \<not> p_export_all_tensors p then export_list self (p_out_tensors p)
     else dbind (kept_tensors (map snd (p_neuron_map p))) (\<lambda>l. export_list self l))"

section \<open>Running\<close>

fun reset :: "routine \<Rightarrow> unit rtm" where
  "reset (TpuRoutine _ outs _ _ _) = for_each (\<lambda>n. set_state n TPU_MEM) outs"
| "reset (CpuRoutine _ outs _ _ _) = for_each (\<lambda>n. set_state n CPU_MEM) outs"

fun routine_run :: "rtenv \<Rightarrow> ptr \<Rightarrow> routine \<Rightarrow> cvi_rc rtm" where
  "routine_run R self (TpuRoutine ins _ buf enable_pmu encrypted) =
     dthen (for_each (toTpu R) ins)
    (dbind (deref rt_programs self) (\<lambda>p. dbind (deref rt_bases (p_bases p)) (\<lambda>b.
     dbind (if encrypted then RunCmdbufTee R (p_ctx p) buf (ba_addr b) else RunCmdbufEx R (p_ctx p) buf (ba_addr b)) (\<lambda>ret.
     if ret \<noteq> 0 then dret CVI_RC_FAILURE
     else dthen (if enable_pmu then dthen (ParsePmuBuf R buf) (dret ()) else dret ()) (dret CVI_RC_SUCCESS)))))"
| "routine_run R self (CpuRoutine ins outs name func args) =
     dthen (for_each (toCpu R) ins) (dthen (re_run_cpu R func args ins outs) (dret CVI_RC_SUCCESS))"

definition Program_run :: "rtenv \<Rightarrow> ptr \<Rightarrow> bool rtm" where
  "Program_run R self = dbind (deref rt_programs self) (\<lambda>p.
     dthen (for_each reset (p_routines p))
    (dthen (for_each (\<lambda>r. dthen (routine_run R self r) (dret ())) (p_routines p)) (dret True)))"

text \<open>Loading or storing tensors one by one; too few descriptions are read past their array.\<close>

fun each_tensor :: "(ptr \<Rightarrow> cvi_tensor \<Rightarrow> unit rtm) \<Rightarrow> ptr list \<Rightarrow> cvi_tensor list \<Rightarrow> unit rtm" where
  "each_tensor f [] ts = dret ()"
| "each_tensor f (n # ns) [] = dfail OutOfRange"
| "each_tensor f (n # ns) (t # ts) = dthen (f n t) (each_tensor f ns ts)"

definition forward :: "rtenv \<Rightarrow> ptr \<Rightarrow> cvi_tensor list \<Rightarrow> cvi_tensor list \<Rightarrow> bool rtm" where
  "forward R self inputs outputs = dbind (deref rt_programs self) (\<lambda>p.
     dthen (dassert (length inputs = length (p_in_tensors p)))
    (dthen (each_tensor (load R) (p_in_tensors p) inputs)
    (dbind (Program_run R self) (\<lambda>ok.
     if \<not> ok then dret False
     else if \<not> p_export_all_tensors p then
       dthen (dassert (length outputs = length (p_out_tensors p)))
      (dthen (each_tensor (store R) (p_out_tensors p) outputs) (dret True))
     else dbind (kept_tensors (map snd (p_neuron_map p))) (\<lambda>l.
       dthen (each_tensor (store R) l outputs)
      (dthen (dassert (length outputs = length l)) (dret True)))))))"

end
