(* ===== verification/Placement.thy ===== *)
theory Placement
  imports Program
begin

text \<open>
  Where the tensors of a program live: the invariant that ties base memories, base addresses and
  tensors together, kept by every step from the construction of a program to the creation of its
  tensors.
\<close>

section \<open>New tensors\<close>

lemma deref_Inr: "deref h p s = Inr (a, t) \<longleftrightarrow> (\<exists>i. p = Some i \<and> h s i = Some a \<and> t = s)"
  by (auto simp: deref_def split: option.splits)

lemma to_u32_less: "to_u32 x < M32"
  by (simp add: to_u32_def M32_def nat_less_iff)

lemma image_size_less:
  "setPixelFormatAndSize chip name aligned tsize shape cnt dsize = Inr (format, aligns, sz) \<Longrightarrow> tsize < M32 \<Longrightarrow> sz < M32"
  by (auto simp: setPixelFormatAndSize_def aligned_size_def yuv_size_def result_simps Let_def to_u32_less
      split: if_splits prod.splits pixel_format.splits)

lemma Neuron_activation_law:
  assumes "Neuron_activation R ctx cvk t bp nm s = Inr (q, u)" "ft_size t < M32"
  shows "\<exists>n. q = Some (rt_next s) \<and> u = s\<lparr>rt_next := rt_next s + 1, rt_neurons := (rt_neurons s)(rt_next s \<mapsto> n)\<rparr> \<and>
    n_bases n = bp \<and> n_size n < M32 \<and> n_gmem n = None"
proof -
  obtain fmt dsize where d: "fbDtypeToCVIFMTandSize (ft_dtype t) = (fmt, dsize)" by fastforce
  obtain shape where sh: "fbShapeToVector (ft_shape t) = Inr shape"
    using assms(1) d by (cases "fbShapeToVector (ft_shape t)") (auto simp: Neuron_activation_def to_rtm_def dm_inv)
  define r where "r = setPixelFormatAndSize (rt_target_chip s) (case ft_pixel_format t of None \<Rightarrow> '''' | Some f \<Rightarrow> f)
              (ft_aligned t) (ft_size t) shape (element_count shape) dsize"
  obtain format ya wa ca sz where r: "r = Inr (format, (ya, wa, ca), sz)"
    using assms(1) d sh unfolding Neuron_activation_def r_def[symmetric]
    by (cases r) (auto simp: to_rtm_def dm_inv Let_def r_def[symmetric])
  have "sz < M32" using image_size_less[OF r[unfolded r_def] assms(2)] .
  with assms(1) d sh r show ?thesis
    by (auto simp: Neuron_activation_def to_rtm_def dm_inv Let_def new_neuron_def r_def[symmetric])
qed

definition tensors_placed :: "rt \<Rightarrow> program \<Rightarrow> base_arrays \<Rightarrow> fb_tensor set \<Rightarrow> bool" where
  "tensors_placed s p b D \<longleftrightarrow> (\<forall>t\<in>D. \<exists>q n. map_of (p_neuron_map p) (ft_name t) = Some (Some q) \<and> q < rt_next s \<and>
     rt_neurons s q = Some n \<and> (ft_offset t \<noteq> -1 \<longrightarrow> placed_at s b n (ft_offset t)))"

definition prog_inv :: "rt \<Rightarrow> nat \<Rightarrow> nat \<Rightarrow> fb_tensor set \<Rightarrow> bool" where
  "prog_inv s self bp D \<longleftrightarrow> set_up s \<and> (\<exists>p b. rt_programs s self = Some p \<and> p_bases p = Some bp \<and> rt_bases s bp = Some b \<and>
     bases_ok s b \<and> tensors_placed s p b D \<and> dom (map_of (p_neuron_map p)) = ft_name ` D)"

text \<open>A new tensor with its memory, next to the ones there are.\<close>

lemma make_neuron_effect:
  assumes "prog_inv s self bp D" "rt_programs s self = Some p" "ft_size t < M32"
    "Neuron_activation R (p_ctx p) (p_cvk p) t (p_bases p) (p_model_name p) s = Inr (q, u)"
    "reserveIonMem R q (ft_offset t) u = Inr (CVI_RC_SUCCESS, v)"
  shows "\<exists>c n. q = Some (rt_next s) \<and> set_up v \<and> rt_programs v self = Some p \<and> rt_bases v bp = Some c \<and> bases_ok v c \<and>
    tensors_placed v p c D \<and> rt_next v = rt_next s + 1 \<and> rt_neurons v (rt_next s) = Some n \<and>
    (ft_offset t \<noteq> -1 \<longrightarrow> placed_at v c n (ft_offset t))"
proof -
  obtain b where b: "set_up s" "p_bases p = Some bp" "rt_bases s bp = Some b" "bases_ok s b" "tensors_placed s p b D"
    using assms(1,2) by (auto simp: prog_inv_def)
  obtain n where n: "q = Some (rt_next s)" "n_bases n = Some bp" "n_size n < M32"
    "u = s\<lparr>rt_next := rt_next s + 1, rt_neurons := (rt_neurons s)(rt_next s \<mapsto> n)\<rparr>"
    using Neuron_activation_law[OF assms(4,3)] b(2) by auto
  have u: "set_up u" "bases_ok u b" "rt_bases u bp = Some b" "rt_neurons u (rt_next s) = Some n" "tensors_placed u p b D"
    "rt_programs u self = Some p"
    using b n(4) assms(2) by (auto simp: set_up_def bases_ok_def tensors_placed_def placed_at_def less_Suc_eq) (metis less_irrefl)+
  show ?thesis
  proof (cases "ft_offset t = -1")
    case True
    with assms(5) u n show ?thesis by (auto simp: reserveIonMem_def dm_inv)
  next
    case False
    obtain d c n' where v: "v = u\<lparr>rt_d := d, rt_bases := (rt_bases u)(bp \<mapsto> c), rt_neurons := (rt_neurons u)(rt_next s \<mapsto> n')\<rparr>"
      "set_up v" "bases_ok v c" "grows u b v c" "placed_at v c n' (ft_offset t)"
      using reserveIonMem_law[OF assms(5)[unfolded n(1)] False u(4) n(2) u(3) u(2) u(1) n(3)] by blast
    have "tensors_placed v p c D"
      unfolding tensors_placed_def
    proof
      fix x assume "x \<in> D"
      with b(5) obtain q m where q: "map_of (p_neuron_map p) (ft_name x) = Some (Some q)" "q < rt_next s" "rt_neurons s q = Some m"
        "ft_offset x \<noteq> -1 \<longrightarrow> placed_at s b m (ft_offset x)" unfolding tensors_placed_def by blast
      have "grows s b v c" using v(4) n(4) by (simp add: grows_def)
      with q v(1) n(4) show "\<exists>q n. map_of (p_neuron_map p) (ft_name x) = Some (Some q) \<and> q < rt_next v \<and> rt_neurons v q = Some n \<and>
         (ft_offset x \<noteq> -1 \<longrightarrow> placed_at v c n (ft_offset x))"
        by (intro exI[of _ q] exI[of _ m]) (auto intro: placed_at_grows)
    qed
    with v n u show ?thesis by auto
  qed
qed

lemma make_neurons_inv:
  assumes "make_neurons R (Some self) ts s = Inr (CVI_RC_SUCCESS, t)" "prog_inv s self bp D"
    "distinct (map ft_name ts)" "ft_name ` set ts \<inter> ft_name ` D = {}" "\<forall>x\<in>set ts. ft_size x < M32"
  shows "prog_inv t self bp (D \<union> set ts)"
  using assms
proof (induction ts arbitrary: s D)
  case (Cons x ts)
  obtain p where p: "rt_programs s self = Some p" using Cons.prems(2) by (auto simp: prog_inv_def)
  obtain q u v w rc where q: "Neuron_activation R (p_ctx p) (p_cvk p) x (p_bases p) (p_model_name p) s = Inr (q, u)"
    "reserveIonMem R q (ft_offset x) u = Inr (rc, v)"
    "(if rc \<noteq> CVI_RC_SUCCESS then dthen (Neuron_destroy R q) (dret CVI_RC_NOMEM)
      else dthen (assign_neuron R (Some self) (ft_name x) q) (make_neurons R (Some self) ts)) v = Inr (CVI_RC_SUCCESS, t)"
    using Cons.prems(1) p by (auto simp: deref_Inr dbind_Inr)
  have rc: "rc = CVI_RC_SUCCESS" using q(3) by (auto simp: dm_inv cvi_rc_values split: if_splits)
  obtain w where w: "assign_neuron R (Some self) (ft_name x) q v = Inr ((), w)" "make_neurons R (Some self) ts w = Inr (CVI_RC_SUCCESS, t)"
    using q(3) rc by (auto simp: dthen_Inr)
  from make_neuron_effect[OF Cons.prems(2) p _ q(1) q(2)[unfolded rc]] Cons.prems(5) obtain c n where
    v: "q = Some (rt_next s)" "set_up v" "rt_programs v self = Some p" "rt_bases v bp = Some c" "bases_ok v c"
    "tensors_placed v p c D" "rt_next v = rt_next s + 1" "rt_neurons v (rt_next s) = Some n"
    "ft_offset x \<noteq> -1 \<longrightarrow> placed_at v c n (ft_offset x)" by auto
  have new: "ft_name x \<notin> ft_name ` D" using Cons.prems(4) by auto
  have pb: "p_bases p = Some bp" "dom (map_of (p_neuron_map p)) = ft_name ` D" using Cons.prems(2) p by (auto simp: prog_inv_def)
  have "map_of (p_neuron_map p) (ft_name x) = None" using new pb(2) by blast
  then have w': "w = v\<lparr>rt_programs := (rt_programs v)(self \<mapsto> p\<lparr>p_neuron_map := map_put (ft_name x) q (p_neuron_map p)\<rparr>)\<rparr>"
    using w(1) v(3) by (auto simp: assign_neuron_def set_program_def dm_inv)
  have "tensors_placed w (p\<lparr>p_neuron_map := map_put (ft_name x) q (p_neuron_map p)\<rparr>) c (insert x D)"
    using v new unfolding tensors_placed_def w' placed_at_def by (fastforce simp: image_iff)
  then have "prog_inv w self bp (insert x D)"
    using v pb unfolding prog_inv_def w' by (auto simp: set_up_def bases_ok_def)
  from Cons.IH[OF w(2) this] Cons.prems(3-5) show ?case by auto
qed (simp add: dm_inv)

lemma neuron_at_keeps:
  assumes "neuron_at (Some self) name s = Inr (x, t)" "rt_programs s self = Some p"
  shows "\<exists>p'. t = s\<lparr>rt_programs := (rt_programs s)(self \<mapsto> p')\<rparr> \<and> p_bases p' = p_bases p \<and>
    map_of (p_neuron_map p) \<subseteq>\<^sub>m map_of (p_neuron_map p')"
proof (cases "map_of (p_neuron_map p) name")
  case None
  with assms show ?thesis
    by (intro exI[of _ "p\<lparr>p_neuron_map := map_put name None (p_neuron_map p)\<rparr>"])
       (auto simp: neuron_at_def set_program_def dm_inv map_le_def)
next
  case (Some a)
  have "s\<lparr>rt_programs := (rt_programs s)(self \<mapsto> p)\<rparr> = s" using assms(2) by (simp add: fun_upd_idem)
  with Some assms show ?thesis by (intro exI[of _ p]) (auto simp: neuron_at_def dm_inv)
qed

lemma neurons_at_keeps:
  assumes "neurons_at (Some self) names s = Inr (x, t)" "rt_programs s self = Some p"
  shows "\<exists>p'. t = s\<lparr>rt_programs := (rt_programs s)(self \<mapsto> p')\<rparr> \<and> p_bases p' = p_bases p \<and>
    map_of (p_neuron_map p) \<subseteq>\<^sub>m map_of (p_neuron_map p')"
  using assms
proof (induction names arbitrary: s p x)
  case Nil
  then have "t = s" "s\<lparr>rt_programs := (rt_programs s)(self \<mapsto> p)\<rparr> = s" by (auto simp: dm_inv fun_upd_idem)
  then show ?case by (metis map_le_refl)
next
  case (Cons a names)
  then obtain y u l where u: "neuron_at (Some self) a s = Inr (y, u)" "neurons_at (Some self) names u = Inr (l, t)"
    by (auto simp: dm_inv)
  obtain p1 where p1: "u = s\<lparr>rt_programs := (rt_programs s)(self \<mapsto> p1)\<rparr>" "p_bases p1 = p_bases p"
    "map_of (p_neuron_map p) \<subseteq>\<^sub>m map_of (p_neuron_map p1)" using neuron_at_keeps[OF u(1) Cons.prems(2)] by blast
  have "rt_programs u self = Some p1" using p1(1) by simp
  from Cons.IH[OF u(2) this] obtain p2 where "t = u\<lparr>rt_programs := (rt_programs u)(self \<mapsto> p2)\<rparr>" "p_bases p2 = p_bases p1"
    "map_of (p_neuron_map p1) \<subseteq>\<^sub>m map_of (p_neuron_map p2)" by blast
  moreover from this(1) have "t = s\<lparr>rt_programs := (rt_programs s)(self \<mapsto> p2)\<rparr>" using p1(1) by simp
  ultimately show ?case using p1(2,3) by (metis map_le_trans)
qed

lemma push_tensors_keeps:
  assumes "push_tensors (Some self) fb s = Inr (x, t)" "rt_programs s self = Some p"
  shows "\<exists>p'. t = s\<lparr>rt_programs := (rt_programs s)(self \<mapsto> p')\<rparr> \<and> p_bases p' = p_bases p \<and>
    map_of (p_neuron_map p) \<subseteq>\<^sub>m map_of (p_neuron_map p')"
proof -
  obtain i u o1 v p2 where u: "neurons_at (Some self) (fp_input_tensors fb) s = Inr (i, u)"
    "neurons_at (Some self) (fp_output_tensors fb) u = Inr (o1, v)" "rt_programs v self = Some p2"
    "t = v\<lparr>rt_programs := (rt_programs v)(self \<mapsto> p2\<lparr>p_in_tensors := p_in_tensors p2 @ i, p_out_tensors := p_out_tensors p2 @ o1\<rparr>)\<rparr>"
    using assms(1) by (auto simp: push_tensors_def set_program_def dm_inv)
  obtain p1 where p1: "u = s\<lparr>rt_programs := (rt_programs s)(self \<mapsto> p1)\<rparr>" "p_bases p1 = p_bases p"
    "map_of (p_neuron_map p) \<subseteq>\<^sub>m map_of (p_neuron_map p1)" using neurons_at_keeps[OF u(1) assms(2)] by blast
  from neurons_at_keeps[OF u(2), of p1] p1 u(3) have "v = u\<lparr>rt_programs := (rt_programs u)(self \<mapsto> p2)\<rparr>" "p_bases p2 = p_bases p1"
    "map_of (p_neuron_map p1) \<subseteq>\<^sub>m map_of (p_neuron_map p2)" by auto
  with p1 u(4) show ?thesis
    by (intro exI[of _ "p2\<lparr>p_in_tensors := p_in_tensors p2 @ i, p_out_tensors := p_out_tensors p2 @ o1\<rparr>"]) (auto intro: map_le_trans)
qed

text \<open>Memory objects that keep their place, whatever happens to their reference counts.\<close>

definition mem_keeps :: "rt \<Rightarrow> rt \<Rightarrow> bool" where
  "mem_keeps s t \<longleftrightarrow> (\<forall>j M. ds_mems (rt_d s) j = Some M \<longrightarrow> (\<exists>M'. ds_mems (rt_d t) j = Some M' \<and>
     bm_p_addr M' = bm_p_addr M \<and> bm_type M' = bm_type M))"

lemma mem_keeps_trans: "mem_keeps s t \<Longrightarrow> mem_keeps t u \<Longrightarrow> mem_keeps s u"
  unfolding mem_keeps_def by (metis (no_types))

lemma bases_ok_keeps: "bases_ok s b \<Longrightarrow> mem_keeps s t \<Longrightarrow> bases_ok t b"
  unfolding bases_ok_def mem_keeps_def by (metis (no_types))

lemma find_shared_state: "find_shared sz l s = Inr (r, t) \<Longrightarrow> t = s \<and> (\<forall>m. r = Some m \<longrightarrow> m \<in> set l)"
  by (induction l arbitrary: s) (auto simp: MemGetSize_def checked_mem_def dm_inv split: if_splits)

lemma insert_shared_state: "insert_shared sz mem l s = Inr (r, t) \<Longrightarrow> t = s"
  by (induction l arbitrary: s r) (auto simp: MemGetSize_def checked_mem_def dm_inv split: if_splits)

lemma MemIncRef_keeps:
  "MemIncRef mem s = Inr (r, t) \<Longrightarrow> \<exists>i M. mem = Some i \<and> ds_mems (rt_d s) i = Some M \<and> bm_type M = BMMEM_TYPE_DEVICE \<and>
     t = s\<lparr>rt_d := (rt_d s)\<lparr>ds_mems := (ds_mems (rt_d s))(i \<mapsto> M\<lparr>bm_user_ref_cnt := r\<rparr>)\<rparr>\<rparr>"
  by (auto simp: MemIncRef_def checked_mem_def set_mem_def Let_def dm_inv)

lemma ref_keeps:
  assumes "ds_mems (rt_d s) i = Some M" "t = s\<lparr>rt_d := (rt_d s)\<lparr>ds_mems := (ds_mems (rt_d s))(i \<mapsto> M\<lparr>bm_user_ref_cnt := r\<rparr>)\<rparr>\<rparr>"
  shows "mem_keeps s t" "set_up s \<Longrightarrow> set_up t"
  using assms by (auto simp: mem_keeps_def set_up_def fresh_mems_def)

lemma cviMemAlloc_keeps:
  assumes "cviMemAlloc R ctx sz ty nm s = Inr (p, t)" "set_up s"
  shows "\<exists>i d. p = Some i \<and> t = s\<lparr>rt_d := d\<rparr> \<and> set_up t \<and> mem_keeps s t \<and>
    (\<exists>m. ds_mems d i = Some m \<and> bm_type m = BMMEM_TYPE_DEVICE)"
proof -
  from cviMemAlloc_law[OF assms(1)] assms(2) obtain i m d where "p = Some i" "ds_mems (rt_d s) i = None"
    "ds_mems d = (ds_mems (rt_d s))(i \<mapsto> m)" "bm_type m = BMMEM_TYPE_DEVICE" "fresh_mems d" "t = s\<lparr>rt_d := d\<rparr>"
    by (auto simp: set_up_def)
  with assms(2) show ?thesis by (intro exI[of _ i] exI[of _ d]) (auto simp: set_up_def mem_keeps_def)
qed

lemma allocateSharedMemory_keeps:
  assumes "allocateSharedMemory R ctx sz s = Inr (mem, t)" "set_up s"
  shows "\<exists>i d l. mem = Some i \<and> t = s\<lparr>rt_d := d, rt_shared_list := l\<rparr> \<and> set_up t \<and> mem_keeps s t \<and>
    (\<exists>m. ds_mems d i = Some m \<and> bm_type m = BMMEM_TYPE_DEVICE)"
proof -
  let ?sz = "max (rt_max_shared s) sz"
  obtain found u where f: "find_shared ?sz (rt_shared_list s) s = Inr (found, u)"
    and k: "(case found of
       Some mem \<Rightarrow> dthen (MemIncRef mem) (dret mem)
     | None \<Rightarrow> dbind (cviMemAlloc R ctx ?sz CVI_ALLOC_SHARED ''SharedMemory'') (\<lambda>mem.
         if mem = None then dret None
         else dthen (MemIncRef mem)
           (dbind (if rt_shared_list s = [] then dret [mem] else insert_shared ?sz mem (rt_shared_list s)) (\<lambda>l'.
            dthen (dmodify (\<lambda>s. s\<lparr>rt_shared_list := l'\<rparr>)) (dret mem))))) u = Inr (mem, t)"
    using assms(1) unfolding allocateSharedMemory_def Let_def dbind_Inr dm_basic_Inr by auto
  have u: "u = s" using find_shared_state[OF f] by simp
  show ?thesis
  proof (cases found)
    case (Some m0)
    with k u obtain r where r: "MemIncRef mem s = Inr (r, t)" by (auto simp: dm_inv)
    from MemIncRef_keeps[OF this] obtain i M where i: "mem = Some i" "ds_mems (rt_d s) i = Some M" "bm_type M = BMMEM_TYPE_DEVICE"
      "t = s\<lparr>rt_d := (rt_d s)\<lparr>ds_mems := (ds_mems (rt_d s))(i \<mapsto> M\<lparr>bm_user_ref_cnt := r\<rparr>)\<rparr>\<rparr>" by blast
    with ref_keeps[OF i(2,4)] assms(2) show ?thesis
      by (intro exI[of _ i] exI[of _ "rt_d t"] exI[of _ "rt_shared_list s"]) auto
  next
    case None
    with k u obtain v where v: "cviMemAlloc R ctx ?sz CVI_ALLOC_SHARED ''SharedMemory'' s = Inr (mem, v)"
      "(if mem = None then dret None
         else dthen (MemIncRef mem)
           (dbind (if rt_shared_list s = [] then dret [mem] else insert_shared ?sz mem (rt_shared_list s)) (\<lambda>l'.
            dthen (dmodify (\<lambda>s. s\<lparr>rt_shared_list := l'\<rparr>)) (dret mem)))) v = Inr (mem, t)"
      by (auto simp: dbind_Inr dthen_Inr dm_basic_Inr split: if_splits)
    from cviMemAlloc_keeps[OF v(1) assms(2)] obtain i d where i: "mem = Some i" "v = s\<lparr>rt_d := d\<rparr>" "set_up v" "mem_keeps s v" by blast
    with v(2) obtain r w l' where w: "MemIncRef mem v = Inr (r, w)" "t = w\<lparr>rt_shared_list := l'\<rparr>"
      by (auto simp: dbind_Inr dthen_Inr dm_basic_Inr split: if_splits dest!: insert_shared_state)
    from MemIncRef_keeps[OF w(1)] i(1) obtain M where M: "ds_mems (rt_d v) i = Some M" "bm_type M = BMMEM_TYPE_DEVICE"
      "w = v\<lparr>rt_d := (rt_d v)\<lparr>ds_mems := (ds_mems (rt_d v))(i \<mapsto> M\<lparr>bm_user_ref_cnt := r\<rparr>)\<rparr>\<rparr>" by auto
    have "mem_keeps s w" "set_up w" using ref_keeps[OF M(1,3)] i(3,4) mem_keeps_trans by blast+
    with M i w(2) show ?thesis
      by (intro exI[of _ i] exI[of _ "rt_d t"] exI[of _ l']) (auto simp: mem_keeps_def set_up_def)
  qed
qed

lemma set_base_inv:
  assumes "set_base (Some bp) k (Some i) s = Inr (x, t)" "prog_inv s self bp {}" "k < 8"
  shows "prog_inv t self bp {} \<and> rt_d t = rt_d s"
proof -
  obtain p b where p: "set_up s" "rt_programs s self = Some p" "p_bases p = Some bp" "rt_bases s bp = Some b" "bases_ok s b"
    "p_neuron_map p = []" using assms(2) by (auto simp: prog_inv_def)
  obtain m where m: "ds_mems (rt_d s) i = Some m" "bm_type m = BMMEM_TYPE_DEVICE"
    "t = s\<lparr>rt_bases := (rt_bases s)(bp \<mapsto> b\<lparr>ba_mem := (ba_mem b)[k := Some i], ba_addr := (ba_addr b)[k := bm_p_addr m]\<rparr>)\<rparr>"
    using assms(1) p(4) by (auto simp: set_base_def set_bases_def MemGetAddr_Inr dm_inv)
  have "bases_ok t (b\<lparr>ba_mem := (ba_mem b)[k := Some i], ba_addr := (ba_addr b)[k := bm_p_addr m]\<rparr>)"
    using p(5) m assms(3) by (auto simp: bases_ok_def nth_list_update)
  with p m(3) show ?thesis by (auto simp: prog_inv_def set_up_def tensors_placed_def)
qed

lemma set_bases_inv:
  "for_each (\<lambda>k. set_base (Some bp) k (Some i)) ks s = Inr (x, t) \<Longrightarrow> prog_inv s self bp {} \<Longrightarrow> \<forall>k\<in>set ks. k < 8 \<Longrightarrow>
   prog_inv t self bp {}"
  by (induction ks arbitrary: s) (auto simp: dm_inv dest!: set_base_inv)

lemma prog_inv_step:
  assumes "prog_inv s self bp {}" "rt_programs s self = Some p" "mem_keeps s t" "set_up t"
    "rt_programs t = (rt_programs s)(self \<mapsto> p')" "rt_bases t = rt_bases s" "p_bases p' = p_bases p" "p_neuron_map p' = p_neuron_map p"
  shows "prog_inv t self bp {}"
proof -
  obtain b where "p_bases p = Some bp" "rt_bases s bp = Some b" "bases_ok s b" "p_neuron_map p = []"
    using assms(1,2) by (auto simp: prog_inv_def)
  with assms bases_ok_keeps[OF _ assms(3)] show ?thesis by (auto simp: prog_inv_def tensors_placed_def)
qed

lemma alloc_private_inv:
  assumes "alloc_private R (Some self) sz ks s = Inr (rc, t)" "prog_inv s self bp {}" "\<forall>k\<in>set ks. k < 8"
  shows "prog_inv t self bp {}"
proof -
  obtain p where p: "rt_programs s self = Some p" "p_bases p = Some bp" and su: "set_up s" using assms(2) by (auto simp: prog_inv_def)
  obtain mem u where u: "cviMemAlloc R (p_ctx p) sz CVI_ALLOC_PROGRAM (p_model_name p) s = Inr (mem, u)"
    and k: "dthen (set_program (Some self) (p\<lparr>p_private_mem := mem\<rparr>)) (if mem = None then dret CVI_RC_NOMEM
     else dthen (for_each (\<lambda>k. set_base (p_bases p) k mem) ks) (dret CVI_RC_SUCCESS)) u = Inr (rc, t)"
    using assms(1) p(1) by (auto simp: alloc_private_def deref_Inr dbind_Inr)
  from cviMemAlloc_keeps[OF u su] obtain i d where i: "mem = Some i" "u = s\<lparr>rt_d := d\<rparr>" "set_up u" "mem_keeps s u" by blast
  let ?v = "u\<lparr>rt_programs := (rt_programs u)(self \<mapsto> p\<lparr>p_private_mem := mem\<rparr>)\<rparr>"
  have "prog_inv ?v self bp {}"
    by (rule prog_inv_step[OF assms(2) p(1), of _ "p\<lparr>p_private_mem := mem\<rparr>"]) (use i in \<open>auto simp: mem_keeps_def set_up_def\<close>)
  moreover have "for_each (\<lambda>k. set_base (Some bp) k (Some i)) ks ?v = Inr ((), t)"
    using k i(1) p(2) by (auto simp: set_program_def dthen_Inr dm_basic_Inr)
  ultimately show ?thesis using set_bases_inv assms(3) by blast
qed

lemma alloc_shared_inv:
  assumes "alloc_shared R (Some self) s = Inr (rc, t)" "prog_inv s self bp {}"
  shows "prog_inv t self bp {}"
proof -
  obtain p where p: "rt_programs s self = Some p" "p_bases p = Some bp" and su: "set_up s" using assms(2) by (auto simp: prog_inv_def)
  obtain mem u where u: "allocateSharedMemory R (p_ctx p) (p_max_shared_mem_size p) s = Inr (mem, u)"
    and k: "dthen (set_program (Some self) (p\<lparr>p_shared_mem := mem\<rparr>)) (if mem = None then dret CVI_RC_NOMEM
     else dthen (set_base (p_bases p) 0 mem) (dret CVI_RC_SUCCESS)) u = Inr (rc, t)"
    using assms(1) p(1) by (auto simp: alloc_shared_def deref_Inr dbind_Inr)
  from allocateSharedMemory_keeps[OF u su] obtain i d l where
    i: "mem = Some i" "u = s\<lparr>rt_d := d, rt_shared_list := l\<rparr>" "set_up u" "mem_keeps s u" by blast
  let ?v = "u\<lparr>rt_programs := (rt_programs u)(self \<mapsto> p\<lparr>p_shared_mem := mem\<rparr>)\<rparr>"
  have v: "prog_inv ?v self bp {}"
    by (rule prog_inv_step[OF assms(2) p(1), of _ "p\<lparr>p_shared_mem := mem\<rparr>"]) (use i in \<open>auto simp: mem_keeps_def set_up_def\<close>)
  have "set_base (Some bp) 0 (Some i) ?v = Inr ((), t)"
    using k i(1) p(2) by (auto simp: set_program_def dthen_Inr dm_basic_Inr)
  from set_base_inv[OF this v] show ?thesis by simp
qed

lemma createNeuronSpace_inv:
  assumes "createNeuronSpace R (Some self) fb s = Inr (rc, t)" "prog_inv s self bp {}"
  shows "prog_inv t self bp {}"
proof -
  have ap: "alloc_private R (Some self) sz ks u = Inr (rc, v) \<Longrightarrow> prog_inv u self bp {} \<Longrightarrow> prog_inv v self bp {}"
    if "ks = [0, 2] \<or> ks = [2]" for sz ks u v rc using alloc_private_inv[of R self sz ks u rc v bp] that by auto
  show ?thesis
    using assms
    by (auto simp: createNeuronSpace_def dbind_Inr dm_basic_Inr split: if_splits
        dest: alloc_shared_inv intro: ap)
qed

lemma Program_new_inv:
  assumes "Program_new R ctx dmabufs functions weights wmem nm mx s = Inr (self, t)" "set_up s"
  shows "\<exists>i bp. self = Some i \<and> prog_inv t i bp {}"
proof -
  obtain h pa where t: "self = Some (rt_next s + 2)" and pa: "MemGetPAddr wmem (s\<lparr>rt_next := rt_next s + 1, rt_khandles := (rt_khandles s)(rt_next s \<mapsto> h)\<rparr>) =
      Inr (pa, s\<lparr>rt_next := rt_next s + 1, rt_khandles := (rt_khandles s)(rt_next s \<mapsto> h)\<rparr>)"
    and e: "rt_d t = rt_d s" "rt_alloc_cb t = rt_alloc_cb s"
      "rt_bases t = (rt_bases s)(rt_next s + 1 \<mapsto> \<lparr>ba_addr = (replicate 8 0)[1 := pa], ba_mem = (replicate 8 None)[1 := wmem]\<rparr>)"
      "\<exists>p. rt_programs t (rt_next s + 2) = Some p \<and> p_bases p = Some (rt_next s + 1) \<and> p_neuron_map p = []"
    using assms(1) by (auto simp: Program_new_def RegisterKernel_def new_khandle_def new_bases_def new_program_def MemGetPAddr_def
        checked_mem_def dm_inv split: if_splits)
  have "bases_ok t \<lparr>ba_addr = (replicate 8 0)[1 := pa], ba_mem = (replicate 8 None)[1 := wmem]\<rparr>"
    using pa e(1) by (cases wmem) (auto simp: bases_ok_def nth_list_update MemGetAddr_Inr)
  then have "prog_inv t (rt_next s + 2) (rt_next s + 1) {}"
    using e assms(2) by (auto simp: prog_inv_def set_up_def tensors_placed_def)
  with t show ?thesis by blast
qed

text \<open>
  C2: every tensor of a loaded program lies where the command buffers look for it.  From the
  construction of a program over the setup of its memories to the creation of its tensors, the
  base address array agrees with the base memories, and each tensor with an offset lies inside the
  base memory its offset names, at that base address plus the offset.
\<close>

theorem program_tensors_placed:
  assumes "Program_new R ctx dmabufs functions weights wmem nm mx s = Inr (self, s1)"
    "createNeuronSpace R self fb s1 = Inr (CVI_RC_SUCCESS, s2)" "createNeuronMap R self fb s2 = Inr (CVI_RC_SUCCESS, s3)"
    "fresh_mems (rt_d s)" "rt_alloc_cb s = None" "distinct (map ft_name (fp_tensor_map fb))"
    "\<forall>x\<in>set (fp_tensor_map fb). ft_size x < M32"
  shows "\<exists>p b. rt_programs s3 (the self) = Some p \<and> rt_bases s3 (the (p_bases p)) = Some b \<and> bases_ok s3 b \<and>
    (\<forall>x\<in>set (fp_tensor_map fb). \<exists>q n. map_of (p_neuron_map p) (ft_name x) = Some (Some q) \<and> rt_neurons s3 q = Some n \<and>
       (ft_offset x \<noteq> -1 \<longrightarrow> placed_at s3 b n (ft_offset x)))"
proof -
  have "set_up s" using assms(4,5) by (simp add: set_up_def)
  from Program_new_inv[OF assms(1) this] obtain i bp where i: "self = Some i" "prog_inv s1 i bp {}" by blast
  have inv2: "prog_inv s2 i bp {}" using createNeuronSpace_inv assms(2) i by blast
  obtain u where u: "make_neurons R (Some i) (fp_tensor_map fb) s2 = Inr (CVI_RC_SUCCESS, u)" "push_tensors (Some i) fb u = Inr ((), s3)"
    using assms(3) i(1) by (auto simp: createNeuronMap_def dbind_Inr dthen_Inr dm_basic_Inr split: if_splits)
  have "prog_inv u i bp (set (fp_tensor_map fb))" using make_neurons_inv[OF u(1) inv2 assms(6) _ assms(7)] by simp
  then obtain p b where p: "rt_programs u i = Some p" "p_bases p = Some bp" "rt_bases u bp = Some b" "bases_ok u b"
    "tensors_placed u p b (set (fp_tensor_map fb))" by (auto simp: prog_inv_def)
  from push_tensors_keeps[OF u(2) p(1)] obtain p' where p': "s3 = u\<lparr>rt_programs := (rt_programs u)(i \<mapsto> p')\<rparr>"
    "p_bases p' = p_bases p" "map_of (p_neuron_map p) \<subseteq>\<^sub>m map_of (p_neuron_map p')" by blast
  have "\<exists>q n. map_of (p_neuron_map p') (ft_name x) = Some (Some q) \<and> rt_neurons s3 q = Some n \<and>
       (ft_offset x \<noteq> -1 \<longrightarrow> placed_at s3 b n (ft_offset x))" if "x \<in> set (fp_tensor_map fb)" for x
  proof -
    from p(5) that obtain q n where "map_of (p_neuron_map p) (ft_name x) = Some (Some q)" "rt_neurons u q = Some n"
      "ft_offset x \<noteq> -1 \<longrightarrow> placed_at u b n (ft_offset x)" unfolding tensors_placed_def by blast
    with p'(1,3) show ?thesis by (intro exI[of _ q] exI[of _ n]) (auto simp: placed_at_def map_le_def dom_def)
  qed
  with p p' i(1) show ?thesis by (intro exI[of _ p'] exI[of _ b]) (auto simp: bases_ok_def)
qed

definition demo_fb_tensor :: fb_tensor where
  "demo_fb_tensor = \<lparr>ft_id = 0, ft_name = ''x'', ft_offset = 16, ft_dtype = DType_INT8, ft_shape = [1, 1, 1, 4],
     ft_quant = None, ft_overwrote = False, ft_pixel_format = None, ft_aligned = False, ft_size = 0,
     ft_scale = None, ft_mean = None\<rparr>"

definition demo_fb_program :: fb_program where
  "demo_fb_program = \<lparr>fp_neuron_size = 256, fp_shared_gmem = 0, fp_private_gmem = 0, fp_tensor_map = [demo_fb_tensor],
     fp_input_tensors = [''x''], fp_output_tensors = [''x''], fp_routines = []\<rparr>"

lemma demo_alloc_256:
  assumes "rt_d s = demo_state" "rt_alloc_cb s = None"
  obtains d where "cviMemAlloc demo_rtenv (Some 2) 256 ty nm s = Inr (Some 4, s\<lparr>rt_d := d\<rparr>)"
    "ds_mems d = [3 \<mapsto> demo_mem, 4 \<mapsto> demo_mem]" "ds_next d = 5"
proof -
  obtain w where w: "mem_alloc demo_env (Some (Suc 0)) 256 demo_state = Inr (Inr (4096, 8192, 7), w)"
    using demo_mem_alloc[of demo_state] by (auto simp: demo_state_def)
  then have so: "same_store demo_state w" using alloc_loop_same by (simp add: mem_alloc_def)
  have d: "ds_ctxs demo_state 2 = Some demo_ctx" "bc_dev demo_ctx = Some (Suc 0)" "ds_next demo_state = 4"
    "ds_mems demo_state = [3 \<mapsto> demo_mem]" by (auto simp: demo_state_def demo_ctx_def)
  show thesis
    using w so d assms that
    by (auto simp: cviMemAlloc_def MemAlloc_def mem_alloc_raw_def alloc_object_def demo_rtenv_def on_dev_def dm_run same_store_def demo_mem_def)
qed

lemma demo_program_new:
  "\<exists>s1 p. Program_new demo_rtenv (Some 2) [] [] [] None ''m'' 0 demo_rt = Inr (Some 3, s1) \<and> rt_d s1 = demo_state \<and>
     rt_alloc_cb s1 = None \<and> rt_next s1 = 4 \<and> rt_programs s1 3 = Some p \<and> p_bases p = Some 2 \<and> p_ctx p = Some 2 \<and>
     p_neuron_map p = [] \<and> rt_bases s1 2 = Some \<lparr>ba_addr = replicate 8 0, ba_mem = replicate 8 None\<rparr> \<and>
     rt_target_chip s1 = ''cv181x''"
  by (simp add: Program_new_def RegisterKernel_def new_khandle_def new_bases_def new_program_def
        MemGetPAddr_def dm_run demo_rt_def numeral_3_eq_3 numeral_eq_Suc)

lemma replicate_8: "replicate 8 x = [x, x, x, x, x, x, x, x]"
  by (simp add: numeral_eq_Suc)

lemma demo_neuron_space:
  assumes "rt_d s = demo_state" "rt_alloc_cb s = None" "rt_programs s 3 = Some p" "p_bases p = Some 2" "p_ctx p = Some 2"
    "rt_bases s 2 = Some \<lparr>ba_addr = replicate 8 0, ba_mem = replicate 8 None\<rparr>"
  shows "\<exists>t d. createNeuronSpace demo_rtenv (Some 3) demo_fb_program s = Inr (CVI_RC_SUCCESS, t) \<and>
    t = s\<lparr>rt_d := d, rt_programs := (rt_programs s)(3 \<mapsto> p\<lparr>p_private_mem := Some 4\<rparr>),
      rt_bases := (rt_bases s)(2 \<mapsto> \<lparr>ba_addr = [4096, 0, 4096, 0, 0, 0, 0, 0], ba_mem = [Some 4, None, Some 4, None, None, None, None, None]\<rparr>)\<rparr> \<and>
    ds_mems d = [3 \<mapsto> demo_mem, 4 \<mapsto> demo_mem] \<and> ds_next d = 5"
proof -
  obtain d where d: "cviMemAlloc demo_rtenv (Some 2) 256 CVI_ALLOC_PROGRAM (p_model_name p) s = Inr (Some 4, s\<lparr>rt_d := d\<rparr>)"
    "ds_mems d = [3 \<mapsto> demo_mem, 4 \<mapsto> demo_mem]" "ds_next d = 5" using demo_alloc_256[OF assms(1,2)] .
  show ?thesis using d assms
    by (intro exI[of _ "s\<lparr>rt_d := d, rt_programs := (rt_programs s)(3 \<mapsto> p\<lparr>p_private_mem := Some 4\<rparr>),
      rt_bases := (rt_bases s)(2 \<mapsto> \<lparr>ba_addr = [4096, 0, 4096, 0, 0, 0, 0, 0], ba_mem = [Some 4, None, Some 4, None, None, None, None, None]\<rparr>)\<rparr>"] exI[of _ d])
       (simp add: createNeuronSpace_def alloc_private_def demo_fb_program_def set_program_def set_base_def set_bases_def
        MemGetPAddr_def on_dev_def dm_run demo_mem_def replicate_8 numeral_2_eq_2)
qed

theorem program_tensors_placed_witness:
  "\<exists>s1 s2 s3 p q n. Program_new demo_rtenv (Some 2) [] [] [] None ''m'' 0 demo_rt = Inr (Some 3, s1) \<and>
     createNeuronSpace demo_rtenv (Some 3) demo_fb_program s1 = Inr (CVI_RC_SUCCESS, s2) \<and>
     createNeuronMap demo_rtenv (Some 3) demo_fb_program s2 = Inr (CVI_RC_SUCCESS, s3) \<and>
     rt_programs s3 3 = Some p \<and> map_of (p_neuron_map p) ''x'' = Some (Some q) \<and> rt_neurons s3 q = Some n"
proof -
  obtain s1 p where s1: "Program_new demo_rtenv (Some 2) [] [] [] None ''m'' 0 demo_rt = Inr (Some 3, s1)" "rt_d s1 = demo_state"
    "rt_alloc_cb s1 = None" "rt_next s1 = 4" "rt_programs s1 3 = Some p" "p_bases p = Some 2" "p_ctx p = Some 2" "p_neuron_map p = []"
    "rt_bases s1 2 = Some \<lparr>ba_addr = replicate 8 0, ba_mem = replicate 8 None\<rparr>" "rt_target_chip s1 = ''cv181x''"
    using demo_program_new by blast
  from demo_neuron_space[OF s1(2,3,5-7,9)] obtain s2 d where s2: "createNeuronSpace demo_rtenv (Some 3) demo_fb_program s1 = Inr (CVI_RC_SUCCESS, s2)"
    "s2 = s1\<lparr>rt_d := d, rt_programs := (rt_programs s1)(3 \<mapsto> p\<lparr>p_private_mem := Some 4\<rparr>),
      rt_bases := (rt_bases s1)(2 \<mapsto> \<lparr>ba_addr = [4096, 0, 4096, 0, 0, 0, 0, 0], ba_mem = [Some 4, None, Some 4, None, None, None, None, None]\<rparr>)\<rparr>"
    "ds_mems d = [3 \<mapsto> demo_mem, 4 \<mapsto> demo_mem]" "ds_next d = 5" by blast
  let ?b = "\<lparr>ba_addr = [4096, 0, 4096, 0, 0, 0, 0, 0], ba_mem = [Some 4, None, Some 4, None, None, None, None, None]\<rparr>"
  let ?p = "p\<lparr>p_private_mem := Some 4\<rparr>"
  have e2: "rt_programs s2 3 = Some ?p" "rt_bases s2 2 = Some ?b" "rt_next s2 = 4" "rt_target_chip s2 = ''cv181x''" "rt_d s2 = d"
    using s1 s2(2) by simp_all
  obtain n u where u: "Neuron_activation demo_rtenv (p_ctx ?p) (p_cvk ?p) demo_fb_tensor (p_bases ?p) (p_model_name ?p) s2 = Inr (Some 4, u)"
    "u = s2\<lparr>rt_next := 5, rt_neurons := (rt_neurons s2)(4 \<mapsto> n)\<rparr>" "n_bases n = Some 2" "n_size n = 4"
    using e2 s1(6) by (simp add: Neuron_activation_def demo_fb_tensor_def fbShapeToVector_def to_rtm_def setPixelFormatAndSize_def
        pixel_format_of_def setPixelAlign_def new_neuron_def element_count_def to_u32_def to_s32_def sm_run Let_def)
  obtain v n' d' where v: "reserveIonMem demo_rtenv (Some 4) 16 u = Inr (CVI_RC_SUCCESS, v)" "v = u\<lparr>rt_d := d', rt_neurons := (rt_neurons u)(4 \<mapsto> n')\<rparr>"
    using u s2(3,4) e2
    by (simp add: reserveIonMem_def base_index_def offset40_def take_gmem_def bind_gmem_def MemPreAlloc_def MemGetVAddr_def MemGetPAddr_def
        set_neuron_def on_dev_def dm_run demo_mem_def Let_def add64_def M64_def)
  obtain s3 where s3: "createNeuronMap demo_rtenv (Some 3) demo_fb_program s2 = Inr (CVI_RC_SUCCESS, s3)"
    using u(1) v(1) e2 u(2) v(2) s1(8)
    by (simp add: createNeuronMap_def demo_fb_program_def demo_fb_tensor_def[THEN arg_cong[of _ _ ft_name]] demo_fb_tensor_def[THEN arg_cong[of _ _ ft_offset]]
        assign_neuron_def push_tensors_def neuron_at_def set_program_def sm_run)
  have "fresh_mems (rt_d demo_rt)" "rt_alloc_cb demo_rt = None" "distinct (map ft_name (fp_tensor_map demo_fb_program))"
    "\<forall>x\<in>set (fp_tensor_map demo_fb_program). ft_size x < M32"
    by (auto simp: demo_rt_def demo_state_def fresh_mems_def demo_fb_program_def demo_fb_tensor_def)
  from program_tensors_placed[OF s1(1) s2(1) s3 this] show ?thesis
    using s1(1) s2(1) s3 by (auto simp: demo_fb_program_def demo_fb_tensor_def)
qed

end
