(* ===== verification/Inference.thy ===== *)
theory Inference
  imports Program
begin

text \<open>
  Running a program: what \<^verbatim>\<open>Program::run\<close> and \<^verbatim>\<open>Program::forward\<close> submit to the TPU and what they report.
\<close>

section \<open>Submissions of a run\<close>

text \<open>
  A stretch of execution with the given submissions that leaves the memory objects, the programs
  and the base arrays alone.
\<close>

definition performs :: "(int \<times> u32) list \<Rightarrow> rt \<Rightarrow> rt \<Rightarrow> bool" where
  "performs S s t \<longleftrightarrow> adds S (rt_d s) (rt_d t) \<and> ds_mems (rt_d t) = ds_mems (rt_d s) \<and>
     rt_programs t = rt_programs s \<and> rt_bases t = rt_bases s"

lemma performs_refl [simp]: "performs [] s s"
  by (simp add: performs_def adds_same_log)

lemma performs_trans: "performs S s t \<Longrightarrow> performs T t u \<Longrightarrow> performs (S @ T) s u"
  unfolding performs_def using adds_trans by auto

lemmas performs_then = performs_trans[of "[]", simplified]

lemma performs_set_neuron: "set_neuron p n s = Inr (x, t) \<Longrightarrow> performs [] s t"
  by (auto simp: set_neuron_def dm_inv performs_def adds_same_log)

lemma performs_set_state: "set_state p st s = Inr (x, t) \<Longrightarrow> performs [] s t"
  by (auto simp: set_state_def deref_bind_Inr intro: performs_set_neuron)

lemma cache_quiet:
  "mem_flush_ext E dev fd p n s = Inr (r, t) \<Longrightarrow> adds [] s t \<and> ds_mems t = ds_mems s"
  "mem_invld_ext E dev fd p n s = Inr (r, t) \<Longrightarrow> adds [] s t \<and> ds_mems t = ds_mems s"
  using cache_adds mem_flush_ext_same mem_invld_ext_same by (auto simp: same_store_def)

lemma performs_cache:
  "MemFlush R ctx mem s = Inr (r, t) \<Longrightarrow> performs [] s t"
  "MemInvld R ctx mem s = Inr (r, t) \<Longrightarrow> performs [] s t"
  unfolding MemFlush_def MemInvld_def ctx_dev_def performs_def by (auto simp: dm_inv dest!: cache_quiet)

lemma performs_copy:
  "MemCopyD2S R ctx dst src s = Inr (r, t) \<Longrightarrow> performs [] s t"
  "MemCopyS2D R ctx dst2 src2 s = Inr (r, t) \<Longrightarrow> performs [] s t"
  unfolding MemCopyD2S_def MemCopyS2D_def ctx_dev_def memcpy_ram_def performs_def
  by (auto simp: dm_inv dest!: cache_quiet) (auto simp: adds_def)

lemma performs_toTpu: "toTpu R p s = Inr (x, t) \<Longrightarrow> performs [] s t"
  by (auto simp: toTpu_def deref_bind_Inr dthen_Inr dm_basic_Inr split: if_splits
      dest!: performs_cache performs_copy performs_set_state intro: performs_then)

lemma performs_toCpu: "toCpu R p s = Inr (x, t) \<Longrightarrow> performs [] s t"
  by (auto simp: toCpu_def deref_bind_Inr dthen_Inr dbind_Inr dm_basic_Inr split: if_splits
      dest!: performs_cache performs_copy performs_set_state intro: performs_then)

lemma performs_for_each:
  assumes "\<And>x s t. f x s = Inr ((), t) \<Longrightarrow> performs [] s t"
  shows "for_each f l s = Inr (u, t) \<Longrightarrow> performs [] s t"
  by (induction l arbitrary: s) (auto simp: dm_inv dest: assms intro: performs_then)

lemma performs_reset: "reset r s = Inr (x, t) \<Longrightarrow> performs [] s t"
  by (cases r) (auto intro: performs_for_each[OF performs_set_state])

lemma store_bases_mems: "store_bases v k bs s = Inr (x, t) \<Longrightarrow> ds_mems t = ds_mems s"
  by (induction v k bs arbitrary: s rule: store_bases.induct) (auto simp: store_u32_def dm_inv)

lemma submit_next_mems: "submit_next E ctx fd s = Inr (r, t) \<Longrightarrow> ds_mems t = ds_mems s"
  by (auto simp: submit_next_def next_seq_def set_ctx_def dm_inv same_store_def dest!: submit_dmabuf_log)

lemma run_cmdbuf_ex2_mems: "run_cmdbuf_ex2 E ctx mem bases s = Inr (r, t) \<Longrightarrow> ds_mems t = ds_mems s"
  unfolding run_cmdbuf_ex2_def
  by (auto simp: mem_protect_def mem_unprotect_def deref_bind_Inr dbind_Inr dthen_Inr dm_basic_Inr sys_Inr
      split: if_splits dest!: store_bases_mems submit_next_mems)

lemma wait_loop_mems: "wait_loop E fd n k s = Inr (r, t) \<Longrightarrow> ds_mems t = ds_mems s"
  by (induction k arbitrary: s) (auto simp: dm_inv split: if_splits)

lemma wait_cmdbuf_done_mems: "wait_cmdbuf_done E ctx n s = Inr (r, t) \<Longrightarrow> ds_mems t = ds_mems s"
  by (auto simp: wait_cmdbuf_done_def wait_dmabuf_def ctx_dev_def dm_inv dest!: wait_loop_mems)

lemma performs_RunCmdbufEx:
  assumes "RunCmdbufEx R ctx buf bases s = Inr (ret, t)"
  shows "\<exists>m n. ds_mems (rt_d s) (the buf) = Some m \<and> performs [(bm_dma_fd m, n)] s t"
proof -
  from RunCmdbufEx_adds[OF assms] obtain i m n where i: "buf = Some i" "ds_mems (rt_d s) i = Some m"
    "adds [(bm_dma_fd m, n)] (rt_d s) (rt_d t)" "t = s\<lparr>rt_d := rt_d t\<rparr>" by blast
  have "ds_mems (rt_d t) = ds_mems (rt_d s)"
    using assms by (auto simp: RunCmdbufEx_def dm_inv split: if_splits dest!: run_cmdbuf_ex2_mems wait_cmdbuf_done_mems)
  moreover have "rt_programs t = rt_programs s" "rt_bases t = rt_bases s" using i(4) by (metis rt.select_convs rt.surjective rt.update_convs)+
  ultimately show ?thesis using i by (auto simp: performs_def)
qed

text \<open>The submissions of the routines, in order: one per TPU routine, of its command buffer.\<close>

fun plain :: "routine \<Rightarrow> bool" where
  "plain (TpuRoutine _ _ _ _ encrypted) = (\<not> encrypted)"
| "plain (CpuRoutine _ _ _ _ _) = True"

fun tpu_bufs :: "routine list \<Rightarrow> ptr list" where
  "tpu_bufs [] = []"
| "tpu_bufs (TpuRoutine _ _ buf _ _ # rs) = buf # tpu_bufs rs"
| "tpu_bufs (CpuRoutine _ _ _ _ _ # rs) = tpu_bufs rs"

definition fd_of :: "rt \<Rightarrow> ptr \<Rightarrow> int" where
  "fd_of s buf = bm_dma_fd (the (ds_mems (rt_d s) (the buf)))"

definition cpu_quiet :: "rtenv \<Rightarrow> bool" where
  "cpu_quiet R \<longleftrightarrow> (\<forall>f a i o' s t. re_run_cpu R f a i o' s = Inr ((), t) \<longrightarrow> performs [] s t)"

lemma performs_routine:
  assumes "routine_run R self r s = Inr (ret, t)" "plain r" "cpu_quiet R"
  shows "\<exists>S. performs S s t \<and> map fst S = map (fd_of s) (tpu_bufs [r])"
proof (cases r)
  case (TpuRoutine ins outs buf pmu enc)
  with assms(1,2) obtain u v and p :: program and b :: base_arrays and ret' where u: "for_each (toTpu R) ins s = Inr ((), u)"
    "RunCmdbufEx R (p_ctx p) buf (ba_addr b) u = Inr (ret', v)"
    "(if ret' \<noteq> 0 then dret CVI_RC_FAILURE
     else dthen (if pmu then dthen (ParsePmuBuf R buf) (dret ()) else dret ()) (dret CVI_RC_SUCCESS)) v = Inr (ret, t)"
    by (auto simp: dthen_Inr deref_bind_Inr dbind_Inr[of "RunCmdbufEx _ _ _ _"])
  have su: "performs [] s u" using performs_for_each[OF performs_toTpu u(1)] .
  from performs_RunCmdbufEx[OF u(2)] obtain m n where m: "ds_mems (rt_d u) (the buf) = Some m" "performs [(bm_dma_fd m, n)] u v" by blast
  have "t = v" using u(3) by (auto simp: ParsePmuBuf_def parse_pmubuf_def checked_mem_def ram_u32_def magic_ok_def dm_inv split: if_splits)
  moreover have "fd_of s buf = bm_dma_fd m" using su m(1) by (simp add: performs_def fd_of_def)
  ultimately show ?thesis using performs_then[OF su m(2)] TpuRoutine by (intro exI[of _ "[(bm_dma_fd m, n)]"]) simp
next
  case (CpuRoutine ins outs name f args)
  with assms(1) obtain u where u: "for_each (toCpu R) ins s = Inr ((), u)" "re_run_cpu R f args ins outs u = Inr ((), t)"
    by (auto simp: dm_inv)
  have "performs [] u t" using u(2) assms(3) by (auto simp: cpu_quiet_def)
  moreover have "performs [] s u" using performs_for_each[of "toCpu R" ins s "()" u] performs_toCpu u(1) by blast
  ultimately have "performs [] s t" using performs_then by blast
  with CpuRoutine show ?thesis by (intro exI[of _ "[]"]) simp
qed

lemma performs_routines:
  assumes "for_each (\<lambda>r. dthen (routine_run R self r) (dret ())) rs s = Inr (x, t)" "\<forall>r\<in>set rs. plain r" "cpu_quiet R"
  shows "\<exists>S. performs S s t \<and> map fst S = map (fd_of s) (tpu_bufs rs)"
  using assms(1,2)
proof (induction rs arbitrary: s)
  case Nil
  then show ?case by (auto simp: dm_inv intro!: exI[of _ "[]"])
next
  case (Cons r rs)
  then obtain ret u where u: "routine_run R self r s = Inr (ret, u)"
    "for_each (\<lambda>r. dthen (routine_run R self r) (dret ())) rs u = Inr (x, t)" by (auto simp: dm_inv)
  from performs_routine[OF u(1) _ assms(3)] Cons.prems(2) obtain S where S: "performs S s u" "map fst S = map (fd_of s) (tpu_bufs [r])" by auto
  from Cons.IH[OF u(2)] Cons.prems(2) obtain T where T: "performs T u t" "map fst T = map (fd_of u) (tpu_bufs rs)" by auto
  have "fd_of u = fd_of s" using S(1) by (auto simp: performs_def fd_of_def)
  moreover have "tpu_bufs (r # rs) = tpu_bufs [r] @ tpu_bufs rs" by (cases r) simp_all
  ultimately have "map fst (S @ T) = map (fd_of s) (tpu_bufs (r # rs))" using S(2) T(2) by simp
  with performs_trans[OF S(1) T(1)] show ?case by blast
qed

text \<open>
  C14: a run of a program submits the command buffers of its TPU routines in the order of the
  routines, each exactly once, and nothing else, and reports true, provided the functions of the
  CPU routines make no submissions of their own.
\<close>

theorem program_run_order:
  assumes "Program_run R self s = Inr (ok, t)" "rt_programs s (the self) = Some p"
    "\<forall>r\<in>set (p_routines p). plain r" "cpu_quiet R"
  shows "ok \<and> (\<exists>seg. ds_log (rt_d t) = ds_log (rt_d s) @ seg \<and>
    map fst (submits seg) = map (fd_of s) (tpu_bufs (p_routines p)))"
proof -
  obtain u where u: "for_each reset (p_routines p) s = Inr ((), u)"
    "for_each (\<lambda>r. dthen (routine_run R self r) (dret ())) (p_routines p) u = Inr ((), t)" "ok"
    using assms(1,2) by (auto simp: Program_run_def dm_inv)
  have su: "performs [] s u" using performs_for_each[OF performs_reset u(1)] .
  from performs_routines[OF u(2) assms(3,4)] obtain S where S: "performs S u t" "map fst S = map (fd_of u) (tpu_bufs (p_routines p))" by blast
  have "fd_of u = fd_of s" using su by (auto simp: performs_def fd_of_def)
  with performs_then[OF su S(1)] S(2) u(3) show ?thesis by (auto simp: performs_def adds_def)
qed

definition demo_program :: program where
  "demo_program = \<lparr>p_in_tensors = [], p_out_tensors = [], p_neuron_map = [], p_weight_map = [], p_dmabuf_map = [],
     p_cpu_functions = [], p_bases = Some 2, p_ctx = Some 2, p_cvk = None, p_export_all_tensors = False,
     p_skip_preprocess = False, p_private_mem = None, p_shared_mem = None,
     p_routines = [TpuRoutine [] [] (Some 3) False False, CpuRoutine [] [] ''f'' 1 []], p_model_name = ''m'',
     p_max_shared_mem_size = 0\<rparr>"

definition demo_prt :: rt where
  "demo_prt = demo_rt\<lparr>rt_programs := [1 \<mapsto> demo_program],
     rt_bases := [2 \<mapsto> \<lparr>ba_addr = [1, 2, 3, 4, 5, 6, 7, 8], ba_mem = replicate 8 None\<rparr>]\<rparr>"

theorem program_run_order_witness:
  "\<exists>t. Program_run demo_rtenv (Some 1) demo_prt = Inr (True, t) \<and> map fst (submits (ds_log (rt_d t))) = [7]"
proof -
  obtain ok t where t: "Program_run demo_rtenv (Some 1) demo_prt = Inr (ok, t)"
    by (simp add: Program_run_def demo_prt_def demo_program_def RunCmdbufEx_def run_cmdbuf_ex2_def submit_next_def submit_dmabuf_def
        next_seq_def store_u32_def load_u16_def wait_cmdbuf_done_def wait_dmabuf_def demo_rtenv_def demo_rt_def on_dev_def dm_run demo_defs)
  have "rt_programs demo_prt (the (Some 1)) = Some demo_program" "\<forall>r\<in>set (p_routines demo_program). plain r"
    "tpu_bufs (p_routines demo_program) = [Some 3]" by (simp_all add: demo_prt_def demo_program_def)
  moreover have "cpu_quiet demo_rtenv" by (simp add: cpu_quiet_def demo_rtenv_def dm_inv)
  moreover have "fd_of demo_prt (Some 3) = 7" "ds_log (rt_d demo_prt) = []"
    by (simp_all add: fd_of_def demo_prt_def demo_rt_def demo_state_def demo_mem_def)
  ultimately show ?thesis using program_run_order[OF t] t by auto
qed

section \<open>Failures of routines\<close>

text \<open>A kernel that refuses every submission.\<close>

definition refusing_env :: env where
  "refusing_env = demo_env\<lparr>env_kernel := (\<lambda>log call. case call of SysSubmit _ _ _ \<Rightarrow> (demo_kernel log call)\<lparr>sr_ret := -1\<rparr> | _ \<Rightarrow> demo_kernel log call)\<rparr>"

text \<open>
  \<^verbatim>\<open>Program::run\<close> drops the results of the routines: with a kernel that refuses every submission the
  TPU routine fails, yet \<^verbatim>\<open>forward\<close> stores the outputs and reports success.
\<close>

lemma forward_hides_failure:
  "\<exists>t u. routine_run (demo_rtenv\<lparr>re_env := refusing_env\<rparr>) (Some 1) (TpuRoutine [] [] (Some 3) False False) demo_prt = Inr (CVI_RC_FAILURE, t) \<and>
     forward (demo_rtenv\<lparr>re_env := refusing_env\<rparr>) (Some 1) [] [] demo_prt = Inr (True, u)"
  by (simp add: forward_def Program_run_def demo_prt_def demo_program_def RunCmdbufEx_def run_cmdbuf_ex2_def submit_next_def submit_dmabuf_def
        next_seq_def store_u32_def load_u16_def wait_cmdbuf_done_def wait_dmabuf_def demo_rtenv_def demo_rt_def on_dev_def dm_run demo_defs
        refusing_env_def reopen_dev_def)

end
