(* ===== verification/Model.thy ===== *)
theory Model
  imports Program
begin

text \<open>
  Models (\<^verbatim>\<open>src/common/model.cpp\<close>, class \<^verbatim>\<open>CviModel\<close>): the header of a cvimodel, its version, its sections,
  its weights, and the creation of programs.

  A stream is its read operation and its length, whatever class it is of.  The flatbuffers decoder
  and LZ4 are parameters; allocation on the host heap does not fail.  The map of command buffers
  is an \<^verbatim>\<open>unordered_map\<close>; its entries are listed in the order they were entered.
\<close>

record stream =
  st_read :: "u64 \<Rightarrow> u64 \<Rightarrow> (byte list \<times> u64) res"
  st_length :: u64

section \<open>Construction and destruction\<close>

text \<open>
  The built-in functions by name; functions of the same class have the same number.
\<close>

definition builtin_functions :: "cpu_runtime_function list" where
  "builtin_functions = map (\<lambda>(name, k). \<lparr>crf_name = name, crf_open = k\<rparr>)
    [(''deform_conv2d'', 1), (''deform_im2col'', 2), (''instance_norm'', 3), (''interp'', 4),
     (''softmax'', 5), (''softmax_cpu'', 5), (''quant'', 6), (''retinaface_detection'', 7),
     (''preprocess'', 8), (''transpose'', 9), (''detectionoutput'', 10),
     (''yolo_detection'', 11), (''frcn_detection'', 12), (''pixelshuffle'', 13),
     (''proposal'', 14), (''cpu_reduce_mean'', 15), (''cpu_reduce_max'', 16),
     (''reduce_l2'', 17), (''roi_pooling'', 18), (''argmax'', 19), (''argmax_with_conf'', 20),
     (''argmax_v3'', 21), (''embedding'', 22), (''gathernd_tf'', 23), (''grid_sampler'', 24),
     (''cumsum'', 25), (''gatherelements_pt'', 26)]"

definition new_model :: "cvi_model \<Rightarrow> ptr rtm" where
  "new_model m s = Inr (Some (rt_next s), s\<lparr>rt_next := rt_next s + 1, rt_models := (rt_models s)(rt_next s \<mapsto> m)\<rparr>)"

definition set_model :: "ptr \<Rightarrow> cvi_model \<Rightarrow> unit rtm" where
  "set_model self m = dmodify (\<lambda>s. s\<lparr>rt_models := (rt_models s)(the self \<mapsto> m)\<rparr>)"

definition CviModel_new :: "rtenv \<Rightarrow> ptr \<Rightarrow> int \<Rightarrow> ptr rtm" where
  "CviModel_new R ctx cnt = new_model \<lparr>m_program_num = 0, m_major_ver = 1, m_minor_ver = 2, m_ctx = ctx, m_ref = 1,
     m_fb_model = None, m_weight_mem = None,
     m_cpu_functions = (if re_cpu_enabled R then builtin_functions else []),
     m_weight_map = [], m_dmabuf_map = [], m_isprotect = re_protect R, m_count = cnt, m_model_name = '''',
     m_max_shared_mem_size = 0\<rparr>"

definition unprotect_mem :: "rtenv \<Rightarrow> ptr \<Rightarrow> unit rtm" where
  "unprotect_mem R mem = dbind (MemGetVAddr mem) (\<lambda>va. dbind (MemGetSize mem) (\<lambda>sz. on_dev (mem_unprotect (re_env R) va sz)))"

definition protect_mem :: "rtenv \<Rightarrow> ptr \<Rightarrow> unit rtm" where
  "protect_mem R mem = dbind (MemGetVAddr mem) (\<lambda>va. dbind (MemGetSize mem) (\<lambda>sz. on_dev (mem_protect (re_env R) va sz)))"

text \<open>The destructor, then the weights, which die with the model.\<close>

definition CviModel_destroy :: "rtenv \<Rightarrow> ptr \<Rightarrow> unit rtm" where
  "CviModel_destroy R self = dbind (deref rt_models self) (\<lambda>m.
     dthen (if m_weight_mem m \<noteq> None
            then dthen (if m_isprotect m then unprotect_mem R (m_weight_mem m) else dret ())
                 (cviMemFree R (m_ctx m) (m_weight_mem m))
            else dret ())
    (dthen (for_each (\<lambda>buf. dthen (if m_isprotect m then unprotect_mem R buf else dret ()) (cviMemFree R (m_ctx m) buf))
              (map snd (m_dmabuf_map m)))
    (dthen (for_each (Neuron_destroy R) (filter (\<lambda>n. n \<noteq> None) (map snd (m_weight_map m))))
     (dmodify (\<lambda>s. s\<lparr>rt_models := (rt_models s)(the self := None)\<rparr>)))))"

definition refer :: "ptr \<Rightarrow> unit rtm" where
  "refer self = dbind (deref rt_models self) (\<lambda>m. set_model self (m\<lparr>m_ref := to_s32 (m_ref m + 1)\<rparr>))"

definition release :: "rtenv \<Rightarrow> ptr \<Rightarrow> unit rtm" where
  "release R self = dbind (deref rt_models self) (\<lambda>m.
     let n = to_s32 (m_ref m - 1) in
     dthen (set_model self (m\<lparr>m_ref := n\<rparr>)) (if n = 0 then CviModel_destroy R self else dret ()))"

section \<open>The header\<close>

text \<open>
  The fields of \<^verbatim>\<open>MODEL_HEADER\<close> in its 48 bytes: size of the body at 8, version at 12 and 13, chip name
  from 30 on.  The name is read up to a zero byte; none before the end of the structure is an
  access out of range.
\<close>

definition SIZEOF_MODEL_HEADER :: nat where "SIZEOF_MODEL_HEADER = 48"

definition header_body_size :: "byte list \<Rightarrow> u32" where
  "header_body_size h = unat (h ! 8) + 2 ^ 8 * unat (h ! 9) + 2 ^ 16 * unat (h ! 10) + 2 ^ 24 * unat (h ! 11)"

definition header_chip :: "byte list \<Rightarrow> string res" where
  "header_chip h = (let name = takeWhile (\<lambda>x. x \<noteq> 0) (take 18 (drop 30 h))
     in if length name = 18 then Inl OutOfRange else Inr (map (\<lambda>x. char_of (unat x)) name))"

definition checkIfMatchTargetChipType :: "rtenv \<Rightarrow> string \<Rightarrow> bool" where
  "checkIfMatchTargetChipType R target = (target = re_device_chip R)"

text \<open>The result, the size of the body and the size of the header.\<close>

definition parseModelHeader :: "rtenv \<Rightarrow> stream \<Rightarrow> (cvi_rc \<times> u64 \<times> u64) rtm" where
  "parseModelHeader R st =
    (if st_length st \<le> SIZEOF_MODEL_HEADER then dret (CVI_RC_INVALID_ARG, 0, 0)
     else dbind (to_rtm (st_read st 0 SIZEOF_MODEL_HEADER)) (\<lambda>(h, _).
       if length h < SIZEOF_MODEL_HEADER then dfail Uninitialised
       else let old = (h ! 12 = 1 \<and> h ! 13 = 0); payload_sz = header_body_size h;
                header_sz = (if old then 0x20 else SIZEOF_MODEL_HEADER) in
         dbind (if old then dret ''cv183x'' else to_rtm (header_chip h)) (\<lambda>chip.
         dthen (dmodify (\<lambda>s. s\<lparr>rt_target_chip := chip\<rparr>))
        (if checkIfMatchTargetChipType R chip then dret (CVI_RC_SUCCESS, payload_sz, header_sz)
         else dret (CVI_RC_INVALID_ARG, payload_sz, header_sz)))))"

definition getChipType :: "stream \<Rightarrow> string res" where
  "getChipType st = assert_res (\<not> st_length st \<le> SIZEOF_MODEL_HEADER)
     (bind_res (st_read st 0 SIZEOF_MODEL_HEADER) (\<lambda>(h, _).
      if length h < SIZEOF_MODEL_HEADER then Inl Uninitialised else header_chip h))"

text \<open>The version of the model against the version of the runtime.\<close>

definition showAndCheckVersion :: "rtenv \<Rightarrow> ptr \<Rightarrow> cvi_rc rtm" where
  "showAndCheckVersion R self = dbind (deref rt_models self) (\<lambda>m. case m_fb_model m of
     None \<Rightarrow> dfail NullDeref
   | Some fb \<Rightarrow>
       dthen (set_model self (m\<lparr>m_major_ver := fm_major fb, m_minor_ver := fm_minor fb\<rparr>))
      (if fst (re_fb_version R) > fm_major fb then dret CVI_RC_SUCCESS
       else if snd (re_fb_version R) < fm_minor fb then dret CVI_RC_INVALID_ARG
       else dret CVI_RC_SUCCESS))"

definition parseProgramNum :: "ptr \<Rightarrow> unit rtm" where
  "parseProgramNum self = dbind (deref rt_models self) (\<lambda>m. case m_fb_model m of
     None \<Rightarrow> dfail NullDeref
   | Some fb \<Rightarrow> set_model self (m\<lparr>m_program_num := int (length (fm_programs fb)),
       m_max_shared_mem_size := foldl (\<lambda>mx p. if fp_shared_gmem p > mx then fp_shared_gmem p else mx) 0 (fm_programs fb)\<rparr>))"

section \<open>Sections\<close>

definition read_to :: "stream \<Rightarrow> u64 \<Rightarrow> u64 \<Rightarrow> u64 \<Rightarrow> unit rtm" where
  "read_to st vaddr offset sz = dbind (to_rtm (st_read st offset sz)) (\<lambda>(bs, _).
     on_dev (dmodify (\<lambda>d. d\<lparr>ds_ram := store_bytes vaddr bs (ds_ram d)\<rparr>)))"

text \<open>\<^verbatim>\<open>emplace\<close>: an entry that is there stays.\<close>

definition emplace :: "string \<Rightarrow> ptr \<Rightarrow> (string \<times> ptr) list \<Rightarrow> (string \<times> ptr) list" where
  "emplace k v m = (if map_of m k = None then m @ [(k, v)] else m)"

definition enter_dmabuf :: "ptr \<Rightarrow> string \<Rightarrow> ptr \<Rightarrow> unit rtm" where
  "enter_dmabuf self name mem = dbind (deref rt_models self) (\<lambda>m.
     set_model self (m\<lparr>m_dmabuf_map := emplace name mem (m_dmabuf_map m)\<rparr>))"

text \<open>
  Decompression of a section into a new buffer.  When the new buffer cannot be had the function
  returns \<^verbatim>\<open>false\<close> from a function of type \<^verbatim>\<open>CVI_RC\<close>: the left result is what it returns.
\<close>

definition decompress_dmabuf :: "rtenv \<Rightarrow> cvi_model \<Rightarrow> ptr \<Rightarrow> u64 \<Rightarrow> fb_section \<Rightarrow> (cvi_rc + ptr \<times> u64) rtm" where
  "decompress_dmabuf R m buf sz sec =
    (if fs_compress sec \<and> fs_decompressed_size sec > 0 then
       (if \<not> re_compress_enabled R then dret (Inl CVI_RC_UNSUPPORT)
        else dbind (cviMemAlloc R (m_ctx m) (fs_decompressed_size sec) CVI_ALLOC_DMABUF (m_model_name m)) (\<lambda>tmp.
          if tmp = None then dthen (cviMemFree R (m_ctx m) buf) (dret (Inl 0))
          else dbind (MemGetVAddr buf) (\<lambda>src. dbind (MemGetVAddr tmp) (\<lambda>dst.
            dbind (on_dev (dget (\<lambda>d. load_bytes src sz (ds_ram d)))) (\<lambda>bytes.
            case re_lz4 R bytes (fs_decompressed_size sec) of
              None \<Rightarrow> dfail AssertFailed
            | Some out \<Rightarrow>
                dthen (dassert (length out = fs_decompressed_size sec))
               (dthen (on_dev (dmodify (\<lambda>d. d\<lparr>ds_ram := store_bytes dst out (ds_ram d)\<rparr>)))
               (dthen (cviMemFree R (m_ctx m) buf) (dret (Inr (tmp, fs_decompressed_size sec))))))))))
     else dret (Inr (buf, sz)))"

definition enter_loaded :: "rtenv \<Rightarrow> ptr \<Rightarrow> cvi_model \<Rightarrow> fb_section \<Rightarrow> ptr \<Rightarrow> u64 \<Rightarrow> cvi_rc rtm" where
  "enter_loaded R self m sec buf len = dbind (LoadDmabuf R (m_ctx m) buf len 0 0 (re_pmu R)) (\<lambda>(ret, written).
     let cmdbuf_mem = (case written of None \<Rightarrow> None | Some p \<Rightarrow> p) in
     if ret \<noteq> CVI_RC_SUCCESS then dthen (cviMemFree R (m_ctx m) buf) (dret ret)
     else dthen (if cmdbuf_mem \<noteq> buf then cviMemFree R (m_ctx m) buf else dret ())
         (dthen (enter_dmabuf self (fs_name sec) cmdbuf_mem) (dret CVI_RC_SUCCESS)))"

definition loadDmabuf :: "rtenv \<Rightarrow> ptr \<Rightarrow> stream \<Rightarrow> u64 \<Rightarrow> u64 \<Rightarrow> fb_section \<Rightarrow> cvi_rc rtm" where
  "loadDmabuf R self st offset sz sec = dthen (dassert (\<not> fs_encrypt sec)) (dbind (deref rt_models self) (\<lambda>m.
     dbind (cviMemAlloc R (m_ctx m) sz CVI_ALLOC_DMABUF (m_model_name m)) (\<lambda>buf0.
     if buf0 = None then dret CVI_RC_NOMEM
     else dbind (MemGetVAddr buf0) (\<lambda>va. dthen (read_to st va offset sz)
       (dbind (decompress_dmabuf R m buf0 sz sec) (\<lambda>r. case r of
          Inl rc \<Rightarrow> dret rc
        | Inr (buf, len) \<Rightarrow> enter_loaded R self m sec buf len))))))"

text \<open>
  The command buffer of a section, decompressed if need be: the error and what was written to the
  uninitialised \<^verbatim>\<open>cmdbuf_mem\<close>; the left result is an early return.
\<close>

definition load_section_cmdbuf :: "rtenv \<Rightarrow> cvi_model \<Rightarrow> byte list \<Rightarrow> u64 \<Rightarrow> fb_section \<Rightarrow> (cvi_rc + cvi_rc \<times> ptr option) rtm" where
  "load_section_cmdbuf R m cmdbuf sz sec =
    (if fs_encrypt sec then
       dbind (MemGetSize (m_weight_mem m)) (\<lambda>weight_size.
       dbind (LoadCmdbufTee R (m_ctx m) cmdbuf sz 0 0 (weight_size mod M32)) (\<lambda>r. dret (Inr r)))
     else if fs_compress sec \<and> fs_decompressed_size sec \<noteq> 0 then
       (if \<not> re_compress_enabled R then dret (Inl CVI_RC_UNSUPPORT)
        else case re_lz4 R cmdbuf (fs_decompressed_size sec) of
          None \<Rightarrow> dfail AssertFailed
        | Some out \<Rightarrow> dthen (dassert (length out = fs_decompressed_size sec))
           (dbind (LoadCmdbuf R (m_ctx m) out (fs_decompressed_size sec) 0 0 (re_pmu R)) (\<lambda>r. dret (Inr r))))
     else dbind (LoadCmdbuf R (m_ctx m) cmdbuf sz 0 0 (re_pmu R)) (\<lambda>r. dret (Inr r)))"

definition written_mem :: "ptr option \<Rightarrow> ptr rtm" where
  "written_mem written = (case written of None \<Rightarrow> dfail Uninitialised | Some p \<Rightarrow> dret p)"

definition loadCmdbuf :: "rtenv \<Rightarrow> ptr \<Rightarrow> stream \<Rightarrow> u64 \<Rightarrow> u64 \<Rightarrow> fb_section \<Rightarrow> cvi_rc rtm" where
  "loadCmdbuf R self st offset sz sec =
    (if sz = 0 then dret CVI_RC_SUCCESS
     else dbind (deref rt_models self) (\<lambda>m.
       dbind (to_rtm (st_read st offset sz)) (\<lambda>(bs, _).
       let cmdbuf = bs @ replicate (sz - length bs) 0 in
       dbind (load_section_cmdbuf R m cmdbuf sz sec) (\<lambda>r. case r of
         Inl rc \<Rightarrow> dret rc
       | Inr (ret, written) \<Rightarrow>
           dthen (if ret = CVI_RC_SUCCESS
                  then dbind (written_mem written) (\<lambda>mem. enter_dmabuf self (fs_name sec) mem) else dret ())
          (dthen (if m_isprotect m then dbind (written_mem written) (\<lambda>mem. protect_mem R mem) else dret ())
           (dret ret))))))"

definition loadWeight :: "rtenv \<Rightarrow> ptr \<Rightarrow> stream \<Rightarrow> u64 \<Rightarrow> u64 \<Rightarrow> cvi_rc rtm" where
  "loadWeight R self st offset sz =
    (if sz = 0 then dret CVI_RC_SUCCESS
     else dbind (deref rt_models self) (\<lambda>m.
       let ps = env_pagesize (re_env R);
           alloc_size = (if m_isprotect m then (sz + ps - 1) div ps * ps else sz) in
       dbind (cviMemAlloc R (m_ctx m) alloc_size CVI_ALLOC_WEIGHT (m_model_name m)) (\<lambda>mem.
       dthen (set_model self (m\<lparr>m_weight_mem := mem\<rparr>))
      (if mem = None then dret CVI_RC_NOMEM
       else dbind (MemGetVAddr mem) (\<lambda>va.
         dthen (read_to st va offset sz)
        (dthen (MemFlush R (m_ctx m) mem)
        (dthen (if m_isprotect m then on_dev (mem_protect (re_env R) va alloc_size) else dret ())
         (dret CVI_RC_SUCCESS))))))))"

definition load_functions :: "rtenv \<Rightarrow> ptr \<Rightarrow> stream \<Rightarrow> u64 \<Rightarrow> u64 \<Rightarrow> bool rtm" where
  "load_functions R self st offset sz = dbind (deref rt_models self) (\<lambda>m.
     dbind (to_rtm (CustomFunctionSection_load (re_dso R) (st_read st) offset sz (m_cpu_functions m))) (\<lambda>(ok, fs).
     dthen (set_model self (m\<lparr>m_cpu_functions := fs\<rparr>)) (dret ok)))"

text \<open>A section in the first pass; command buffers wait for the second, since they need the weights.\<close>

definition load_section :: "rtenv \<Rightarrow> ptr \<Rightarrow> stream \<Rightarrow> u64 \<Rightarrow> fb_section \<Rightarrow> cvi_rc rtm" where
  "load_section R self st bin_offset sec =
    (let off = add64 (fs_offset sec) bin_offset; ty = fs_type sec in
     if ty = (if re_aarch64 R then SectionType_FUNC_AARCH64 else SectionType_FUNC_X86) then
       (if fs_size sec = 0 then dret CVI_RC_SUCCESS
        else dbind (load_functions R self st off (fs_size sec)) (\<lambda>ok.
          dret (if ok then CVI_RC_SUCCESS else CVI_RC_FAILURE)))
     else if ty = SectionType_WEIGHT then loadWeight R self st off (fs_size sec)
     else if ty = SectionType_DMABUF then loadDmabuf R self st off (fs_size sec) sec
     else dret CVI_RC_SUCCESS)"

definition load_cmdbuf_section :: "rtenv \<Rightarrow> ptr \<Rightarrow> stream \<Rightarrow> u64 \<Rightarrow> fb_section \<Rightarrow> cvi_rc rtm" where
  "load_cmdbuf_section R self st bin_offset sec =
     loadCmdbuf R self st (add64 (fs_offset sec) bin_offset) (fs_size sec) sec"

definition extractSections :: "rtenv \<Rightarrow> ptr \<Rightarrow> stream \<Rightarrow> u64 \<Rightarrow> fb_section list \<Rightarrow> cvi_rc rtm" where
  "extractSections R self st bin_offset secs = dbind (until_error (load_section R self st bin_offset) secs) (\<lambda>rc.
     if rc \<noteq> CVI_RC_SUCCESS then dret rc
     else until_error (load_cmdbuf_section R self st bin_offset) (filter (\<lambda>sec. fs_type sec = SectionType_CMDBUF) secs))"

section \<open>Parsing and programs\<close>

fun make_weights :: "rtenv \<Rightarrow> ptr \<Rightarrow> fb_weight list \<Rightarrow> unit rtm" where
  "make_weights R self [] = dret ()"
| "make_weights R self (w # ws) =
    (if fw_shape w = None then make_weights R self ws
     else dbind (deref rt_models self) (\<lambda>m.
       dbind (Neuron_weight R (m_ctx m) w (m_weight_mem m) (m_model_name m)) (\<lambda>n.
       dthen (case map_of (m_weight_map m) (fw_name w) of Some (Some q) \<Rightarrow> Neuron_destroy R (Some q) | _ \<Rightarrow> dret ())
      (dthen (set_model self (m\<lparr>m_weight_map := map_put (fw_name w) n (m_weight_map m)\<rparr>)) (make_weights R self ws)))))"

definition createCpuWeightMap :: "rtenv \<Rightarrow> ptr \<Rightarrow> unit rtm" where
  "createCpuWeightMap R self = dbind (deref rt_models self) (\<lambda>m. case m_fb_model m of
     None \<Rightarrow> dfail NullDeref
   | Some fb \<Rightarrow> (case fm_weight_map fb of None \<Rightarrow> dret () | Some ws \<Rightarrow> make_weights R self ws))"

fun digits :: "nat \<Rightarrow> string" where
  "digits n = (if n < 10 then [char_of (48 + n)] else digits (n div 10) @ [char_of (48 + n mod 10)])"

definition int_string :: "int \<Rightarrow> string" where
  "int_string i = (if i < 0 then CHR ''-'' # digits (nat (- i)) else digits (nat i))"

definition parse :: "rtenv \<Rightarrow> ptr \<Rightarrow> stream \<Rightarrow> cvi_rc rtm" where
  "parse R self st = dbind (parseModelHeader R st) (\<lambda>(rc, payload_size, header_size).
     if rc \<noteq> CVI_RC_SUCCESS then dret rc
     else let bin_offset = add64 header_size payload_size in
     dbind (to_rtm (st_read st header_size payload_size)) (\<lambda>(body, _).
     dbind (deref rt_models self) (\<lambda>m.
     let fb = re_fb_model R body in
     dthen (set_model self (m\<lparr>m_fb_model := Some fb\<rparr>))
    (dbind (showAndCheckVersion R self) (\<lambda>rc2.
     if rc2 \<noteq> CVI_RC_SUCCESS then dret rc2
     else dbind (deref rt_models self) (\<lambda>m2.
       dthen (set_model self (m2\<lparr>m_model_name := fm_name fb @ '':'' @ int_string (m_count m2)\<rparr>))
      (dbind (extractSections R self st bin_offset (fm_sections fb)) (\<lambda>rc3.
       if rc3 \<noteq> CVI_RC_SUCCESS then dret rc3
       else dthen (parseProgramNum self) (dthen (createCpuWeightMap R self) (dret CVI_RC_SUCCESS))))))))))"

definition acquire_buffer :: "rtenv \<Rightarrow> ptr \<Rightarrow> byte list \<Rightarrow> u64 \<Rightarrow> cvi_rc rtm" where
  "acquire_buffer R self buf sz = (let s = BufferStream_open buf sz in
     parse R self \<lparr>st_read = BufferStream_read s, st_length = bs_length s\<rparr>)"

definition acquire_file :: "rtenv \<Rightarrow> ptr \<Rightarrow> byte list option \<Rightarrow> cvi_rc rtm" where
  "acquire_file R self file = (let s = FileStream_open file in
     parse R self \<lparr>st_read = FileStream_read s, st_length = fs_length s\<rparr>)"

definition acquire_fd :: "rtenv \<Rightarrow> ptr \<Rightarrow> byte list \<Rightarrow> u64 \<Rightarrow> cvi_rc rtm" where
  "acquire_fd R self file ud_offset = (let s = FdStream_open file ud_offset in
     parse R self \<lparr>st_read = FdStream_read s, st_length = fd_length s\<rparr>)"

definition loadProgram :: "rtenv \<Rightarrow> ptr \<Rightarrow> int \<Rightarrow> bool \<Rightarrow> bool \<Rightarrow> (cvi_rc \<times> ptr) rtm" where
  "loadProgram R self program_id export_all_tensors skip_preprocess = dbind (deref rt_models self) (\<lambda>m.
     case m_fb_model m of
       None \<Rightarrow> dfail NullDeref
     | Some fb \<Rightarrow>
         dthen (dassert (program_id < m_program_num m))
        (if program_id < 0 \<or> nat program_id \<ge> length (fm_programs fb) then dfail OutOfRange
         else dbind (Program_new R (m_ctx m) (m_dmabuf_map m) (m_cpu_functions m) (m_weight_map m) (m_weight_mem m)
                       (m_model_name m) (m_max_shared_mem_size m)) (\<lambda>p.
           dthen (setOptions p export_all_tensors skip_preprocess)
          (dbind (Program_load R p (fm_programs fb ! nat program_id)) (\<lambda>ret.
           if ret \<noteq> CVI_RC_SUCCESS then dthen (Program_destroy R p) (dret (ret, None))
           else dret (CVI_RC_SUCCESS, p))))))"

lemma to_rtm_Inr [dm_inv]: "to_rtm r s = Inr (a, t) \<longleftrightarrow> r = Inr a \<and> t = s"
  by (auto simp: to_rtm_def dm_basic_Inr split: sum.splits)

end
