(* ===== verification/ModelLoad.thy ===== *)
theory ModelLoad
  imports Model
begin

text \<open>
  Properties of loading a model (\<^verbatim>\<open>src/src/common/model.cpp\<close>): which versions are admitted, that the header
  of a model is read back as it was written, and that a successful extraction has entered every
  command buffer of the file.
\<close>

section \<open>Versions\<close>

text \<open>
  Which models the version check admits: a model is refused exactly when its major version is
  not below the runtime's and its minor version is above the runtime's.  So every model that is not
  newer than the runtime is admitted, and so is one of a later major version whose minor version
  happens not to exceed the runtime's.
\<close>

lemma version_check_admits:
  assumes "rt_models s (the self) = Some m" "self \<noteq> None" "m_fb_model m = Some fb"
  shows "\<exists>t. showAndCheckVersion R self s =
    Inr (if fm_major fb < fst (re_fb_version R) \<or> fm_minor fb \<le> snd (re_fb_version R) then CVI_RC_SUCCESS else CVI_RC_INVALID_ARG, t) \<and>
    (\<exists>m'. rt_models t (the self) = Some m' \<and> m_major_ver m' = fm_major fb \<and> m_minor_ver m' = fm_minor fb)"
  using assms by (auto simp: showAndCheckVersion_def set_model_def sm_run)

section \<open>Headers\<close>

text \<open>The header a model of the given contents has.\<close>

definition header_image :: "u32 \<Rightarrow> byte \<Rightarrow> byte \<Rightarrow> byte list \<Rightarrow> string \<Rightarrow> byte list" where
  "header_image body_size major minor md5 chip =
     map (\<lambda>c. of_nat (of_char c)) ''CviModel'' @ u32_bytes body_size @ [major, minor] @ md5 @
     map (\<lambda>c. of_nat (of_char c)) chip @ replicate (18 - length chip) 0"

lemma byte_of_nat: "unat (of_nat n :: byte) = n mod 256"
  by (simp add: unsigned_of_nat take_bit_eq_mod)

lemma header_split:
  assumes "length md5 = 16"
  shows "header_image body_size major minor md5 chip =
    [0x43, 0x76, 0x69, 0x4D, 0x6F, 0x64, 0x65, 0x6C] @ u32_bytes body_size @ [major, minor] @ md5 @
    (map (\<lambda>c. of_nat (of_char c)) chip @ replicate (18 - length chip) 0)"
    "drop 30 (header_image body_size major minor md5 chip) = map (\<lambda>c. of_nat (of_char c)) chip @ replicate (18 - length chip) 0"
  using assms by (simp_all add: header_image_def u32_bytes_def)

lemma header_chip_image:
  assumes "length md5 = 16" "length chip \<le> 16" "CHR 0x00 \<notin> set chip"
  shows "header_chip (header_image body_size major minor md5 chip) = Inr chip"
proof -
  have nz: "(of_nat (of_char c) :: byte) \<noteq> 0" if "c \<in> set chip" for c
  proof
    assume z: "(of_nat (of_char c) :: byte) = 0"
    have "of_char c < (256 :: nat)" by simp
    then have "unat (of_nat (of_char c) :: byte) = of_char c" by (simp only: byte_of_nat mod_less)
    with z have "of_char c = (0 :: nat)" by simp
    moreover have "c = char_of (of_char c :: nat)" by simp
    moreover have "char_of (0 :: nat) = CHR 0x00" by (simp add: char_of_def)
    ultimately have "c = CHR 0x00" by metis
    with that assms(3) show False by blast
  qed
  have c: "char_of (unat (of_nat (of_char c) :: byte)) = c" for c by (simp add: byte_of_nat)
  have n: "length chip \<noteq> 18" using assms(2) by simp
  have "take 18 (drop 30 (header_image body_size major minor md5 chip)) =
      map (\<lambda>c. of_nat (of_char c)) chip @ replicate (18 - length chip) 0"
    unfolding header_split(2)[OF assms(1)] using assms(2) by simp
  moreover have "takeWhile (\<lambda>x. x \<noteq> 0) (map (\<lambda>c. of_nat (of_char c)) chip @ replicate (18 - length chip) (0::byte)) =
      map (\<lambda>c. of_nat (of_char c)) chip"
    using nz assms(2) by (subst takeWhile_append2) (auto simp: takeWhile_eq_Nil_iff)
  ultimately show ?thesis using n by (simp add: header_chip_def Let_def c o_def)
qed

lemma header_image_fields:
  assumes "length md5 = 16" "length chip \<le> 16" "body_size < M32"
  shows "length (header_image body_size major minor md5 chip) = 48"
    "header_body_size (header_image body_size major minor md5 chip) = body_size"
    "header_image body_size major minor md5 chip ! 12 = major" "header_image body_size major minor md5 chip ! 13 = minor"
proof -
  show "length (header_image body_size major minor md5 chip) = 48" using assms by (simp add: header_image_def)
  show "header_image body_size major minor md5 chip ! 12 = major" "header_image body_size major minor md5 chip ! 13 = minor"
    unfolding header_split(1)[OF assms(1)] by (simp_all add: u32_bytes_def)
  show "header_body_size (header_image body_size major minor md5 chip) = body_size"
    unfolding header_split(1)[OF assms(1)] header_body_size_def using assms(3) byte_sum[of body_size]
    by (simp add: u32_bytes_def byte_of_nat M32_def)
qed

text \<open>
  C29: reading back a header: from a stream that begins with the header of a model of version
  \<^verbatim>\<open>major.minor\<close> for a chip, \<^verbatim>\<open>parseModelHeader\<close> gets the size of the body, takes a header of 32 bytes and
  cv183x for version 1.0 and 48 bytes and the named chip otherwise, and succeeds exactly when the
  chip is the one of the device.
\<close>

theorem model_header_roundtrip:
  assumes "st_read st 0 48 = Inr (header_image body_size major minor md5 chip, k)" "48 < st_length st"
    "length md5 = 16" "length chip \<le> 16" "CHR 0x00 \<notin> set chip" "body_size < M32"
  shows "let old = (major = 1 \<and> minor = 0); target = (if old then ''cv183x'' else chip) in
    parseModelHeader R st s =
      Inr ((if target = re_device_chip R then CVI_RC_SUCCESS else CVI_RC_INVALID_ARG, body_size, if old then 32 else 48),
           s\<lparr>rt_target_chip := target\<rparr>)"
proof -
  obtain h where h: "h = header_image body_size major minor md5 chip" by simp
  note f = header_image_fields[OF assms(3,4,6), of major minor, folded h]
    header_chip_image[OF assms(3-5), of body_size major minor, folded h]
  have "to_rtm (st_read st 0 48) s = Inr ((h, k), s)" using assms(1) by (simp add: to_rtm_def h sm_run)
  then have p: "parseModelHeader R st s = (let old = (major = 1 \<and> minor = 0) in
     dbind (if old then dret ''cv183x'' else to_rtm (Inr chip)) (\<lambda>chip. dthen (dmodify (\<lambda>s. s\<lparr>rt_target_chip := chip\<rparr>))
        (if checkIfMatchTargetChipType R chip then dret (CVI_RC_SUCCESS, body_size, if old then 0x20 else 48)
         else dret (CVI_RC_INVALID_ARG, body_size, if old then 0x20 else 48))) s)"
    using assms(2) f unfolding parseModelHeader_def SIZEOF_MODEL_HEADER_def Let_def by (cases "major = 1 \<and> minor = 0") (auto simp: dbind_step(1) cong: if_cong)
  show ?thesis
  proof (cases "major = 1 \<and> minor = 0")
    case True
    then show ?thesis unfolding p checkIfMatchTargetChipType_def by (simp add: sm_run Let_def)
  next
    case False
    then show ?thesis unfolding p checkIfMatchTargetChipType_def to_rtm_def Let_def by (simp only: if_False sum.case dbind_step dm_run dret_def) (simp add: sm_run)
  qed
qed

definition demo_model :: cvi_model where
  "demo_model = \<lparr>m_program_num = 0, m_major_ver = 1, m_minor_ver = 2, m_ctx = Some 2, m_ref = 1,
     m_fb_model = Some \<lparr>fm_major = 2, fm_minor = 0, fm_name = ''m'', fm_weight_map = None, fm_sections = [], fm_programs = []\<rparr>,
     m_weight_mem = None, m_cpu_functions = [], m_weight_map = [], m_dmabuf_map = [], m_isprotect = False, m_count = 1,
     m_model_name = ''m:1'', m_max_shared_mem_size = 0\<rparr>"

lemma version_check_admits_witness:
  "\<exists>t. showAndCheckVersion demo_rtenv (Some 1) (demo_rt\<lparr>rt_models := [1 \<mapsto> demo_model]\<rparr>) = Inr (CVI_RC_SUCCESS, t)"
proof -
  have "rt_models (demo_rt\<lparr>rt_models := [1 \<mapsto> demo_model]\<rparr>) (the (Some 1)) = Some demo_model" by simp
  from version_check_admits[OF this, of _ demo_rtenv] show ?thesis by (auto simp: demo_rtenv_def demo_model_def)
qed

theorem model_header_roundtrip_witness:
  "\<exists>t. parseModelHeader demo_rtenv \<lparr>st_read = (\<lambda>_ _. Inr (header_image 1000 1 4 (replicate 16 0) ''cv181x'', 48)), st_length = 2000\<rparr> demo_rt =
     Inr ((CVI_RC_SUCCESS, 1000, 48), t)"
proof -
  let ?st = "\<lparr>st_read = (\<lambda>_ _. Inr (header_image 1000 1 4 (replicate 16 0) ''cv181x'', 48)), st_length = 2000\<rparr>"
  have "st_read ?st 0 48 = Inr (header_image 1000 1 4 (replicate 16 0) ''cv181x'', 48)" "48 < st_length ?st" by simp_all
  from model_header_roundtrip[OF this, of demo_rtenv demo_rt] show ?thesis by (simp add: demo_rtenv_def M32_def Let_def)
qed

section \<open>Sections\<close>

text \<open>What loading a section may do to the models: command buffers are only added.\<close>

definition keeps_models :: "rt \<Rightarrow> rt \<Rightarrow> bool" where
  "keeps_models s t \<longleftrightarrow> rt_models t = rt_models s"

lemma keeps_models_mem:
  "cviMemAlloc R c sz ty nm s = Inr (a, t) \<Longrightarrow> keeps_models s t"
  "cviMemFree R c mem s = Inr (u, t) \<Longrightarrow> keeps_models s t"
  by (auto simp: keeps_models_def cviMemAlloc_def cviMemFree_def MemAlloc_def MemFree_def free_raw_def dm_inv
      split: option.splits sum.splits if_splits)

lemma keeps_models_access:
  "MemGetVAddr mem s = Inr (x, t) \<Longrightarrow> keeps_models s t"
  "MemGetSize mem s = Inr (y, t) \<Longrightarrow> keeps_models s t"
  "read_to st va off sz s = Inr (u, t) \<Longrightarrow> keeps_models s t"
  "MemFlush R c mem s = Inr (r, t) \<Longrightarrow> keeps_models s t"
  "protect_mem R mem s = Inr (u, t) \<Longrightarrow> keeps_models s t"
  by (auto simp: keeps_models_def MemGetVAddr_def MemGetSize_def read_to_def MemFlush_def protect_mem_def dm_inv split: if_splits)

lemma keeps_models_load:
  "LoadDmabuf R c mem n b0 b1 e s = Inr (w, t) \<Longrightarrow> keeps_models s t"
  "LoadCmdbuf R c cb n b0 b1 e s = Inr (w, t) \<Longrightarrow> keeps_models s t"
  "LoadCmdbufTee R c cb n b0 b1 wl s = Inr (w, t) \<Longrightarrow> keeps_models s t"
  by (auto simp: keeps_models_def LoadDmabuf_def LoadCmdbuf_def LoadCmdbufTee_def dm_inv split: option.splits if_splits)

lemmas keeps_models_ops = keeps_models_mem keeps_models_access keeps_models_load

lemma decompress_keeps_models: "decompress_dmabuf R m buf sz sec s = Inr (r, t) \<Longrightarrow> keeps_models s t"
  unfolding decompress_dmabuf_def
  by (auto simp: dbind_Inr dthen_Inr dm_basic_Inr on_dev_Inr split: if_splits option.splits dest!: keeps_models_ops)
     (auto simp: keeps_models_def)

definition adds_buffers :: "nat \<Rightarrow> string set \<Rightarrow> rt \<Rightarrow> rt \<Rightarrow> bool" where
  "adds_buffers i N s t \<longleftrightarrow> (\<forall>m. rt_models s i = Some m \<longrightarrow> (\<exists>m'. rt_models t i = Some m' \<and>
     map_of (m_dmabuf_map m) \<subseteq>\<^sub>m map_of (m_dmabuf_map m') \<and> N \<subseteq> dom (map_of (m_dmabuf_map m'))))"

lemma adds_buffers_keep: "keeps_models s t \<Longrightarrow> adds_buffers i {} s t"
  by (auto simp: adds_buffers_def keeps_models_def)

lemma adds_buffers_trans:
  assumes "adds_buffers i N s t" "adds_buffers i M t u" shows "adds_buffers i (N \<union> M) s u"
  unfolding adds_buffers_def
proof (intro allI impI)
  fix m assume "rt_models s i = Some m"
  with assms(1) obtain m1 where m1: "rt_models t i = Some m1" "map_of (m_dmabuf_map m) \<subseteq>\<^sub>m map_of (m_dmabuf_map m1)"
    "N \<subseteq> dom (map_of (m_dmabuf_map m1))" unfolding adds_buffers_def by blast
  with assms(2) obtain m2 where m2: "rt_models u i = Some m2" "map_of (m_dmabuf_map m1) \<subseteq>\<^sub>m map_of (m_dmabuf_map m2)"
    "M \<subseteq> dom (map_of (m_dmabuf_map m2))" unfolding adds_buffers_def by blast
  have "dom (map_of (m_dmabuf_map m1)) \<subseteq> dom (map_of (m_dmabuf_map m2))" using m2(2) by (rule map_le_implies_dom_le)
  then have "N \<union> M \<subseteq> dom (map_of (m_dmabuf_map m2))" using m1(3) m2(3) by (meson Un_least subset_trans)
  with m1 m2 show "\<exists>m'. rt_models u i = Some m' \<and> map_of (m_dmabuf_map m) \<subseteq>\<^sub>m map_of (m_dmabuf_map m') \<and>
      N \<union> M \<subseteq> dom (map_of (m_dmabuf_map m'))" by (intro exI[of _ m2]) (auto intro: map_le_trans)
qed

lemmas adds_buffers_then = adds_buffers_trans[of _ "{}", simplified] adds_buffers_trans[of _ _ _ _ "{}", simplified]

lemma emplace_adds: "map_of m \<subseteq>\<^sub>m map_of (emplace k v m)" "k \<in> dom (map_of (emplace k v m))"
  by (auto simp: emplace_def map_le_def map_add_def dom_def split: option.splits)

lemma enter_dmabuf_adds: "enter_dmabuf (Some i) name mem s = Inr (x, t) \<Longrightarrow> adds_buffers i {name} s t"
  using emplace_adds by (auto simp: enter_dmabuf_def set_model_def dm_inv adds_buffers_def)

lemma enter_loaded_adds:
  "enter_loaded R (Some i) m sec buf len s = Inr (rc, t) \<Longrightarrow> adds_buffers i (if rc = CVI_RC_SUCCESS then {fs_name sec} else {}) s t"
  unfolding enter_loaded_def Let_def
  by (auto simp: dbind_Inr dthen_Inr dm_basic_Inr split: if_splits prod.splits
      dest!: keeps_models_ops enter_dmabuf_adds adds_buffers_keep intro: adds_buffers_then)

lemma loadDmabuf_adds:
  assumes "loadDmabuf R (Some i) st off sz sec s = Inr (CVI_RC_SUCCESS, t)"
  shows "adds_buffers i (if fs_compress sec then {} else {fs_name sec}) s t"
proof -
  obtain m buf0 va u r v w where u: "cviMemAlloc R (m_ctx m) sz CVI_ALLOC_DMABUF (m_model_name m) s = Inr (buf0, u)"
    "MemGetVAddr buf0 u = Inr (va, v)" "read_to st va off sz v = Inr ((), w)"
    and r: "dbind (decompress_dmabuf R m buf0 sz sec) (\<lambda>r. case r of Inl rc \<Rightarrow> dret rc
        | Inr (buf, len) \<Rightarrow> enter_loaded R (Some i) m sec buf len) w = Inr (CVI_RC_SUCCESS, t)"
    using assms unfolding loadDmabuf_def
    by (auto simp: dthen_Inr dm_basic_Inr deref_bind_Inr dbind_Inr[of "cviMemAlloc _ _ _ _ _"] dbind_Inr[of "MemGetVAddr _"] cvi_rc_values
        split: if_splits)
  have sw: "keeps_models s w" using keeps_models_mem(1)[OF u(1)] keeps_models_access(1)[OF u(2)] keeps_models_access(3)[OF u(3)]
    by (simp add: keeps_models_def)
  from r obtain d x where x: "decompress_dmabuf R m buf0 sz sec w = Inr (d, x)"
    "(case d of Inl rc \<Rightarrow> dret rc | Inr (buf, len) \<Rightarrow> enter_loaded R (Some i) m sec buf len) x = Inr (CVI_RC_SUCCESS, t)"
    by (auto simp: dbind_Inr)
  have sx: "adds_buffers i {} s x" using sw decompress_keeps_models[OF x(1)] by (intro adds_buffers_keep) (simp add: keeps_models_def)
  show ?thesis
  proof (cases d)
    case (Inl rc)
    with x have "fs_compress sec" "t = x" by (auto simp: decompress_dmabuf_def dm_basic_Inr split: if_splits)
    with sx show ?thesis by simp
  next
    case (Inr p)
    with x(2) have a: "adds_buffers i {fs_name sec} x t" by (auto split: prod.splits dest!: enter_loaded_adds)
    have "adds_buffers i {fs_name sec} s t" by (rule adds_buffers_then(1)[OF sx a])
    moreover have "adds_buffers i {} s t" using calculation by (auto simp: adds_buffers_def)
    ultimately show ?thesis by simp
  qed
qed

lemma load_section_cmdbuf_keeps: "load_section_cmdbuf R m cb sz sec s = Inr (r, t) \<Longrightarrow> keeps_models s t"
  unfolding load_section_cmdbuf_def
  by (auto simp: dbind_Inr dthen_Inr dm_basic_Inr split: if_splits option.splits dest!: keeps_models_ops) (auto simp: keeps_models_def)

lemma written_mem_Inr: "written_mem w s = Inr (p, t) \<longleftrightarrow> w = Some p \<and> t = s"
  by (auto simp: written_mem_def dm_basic_Inr split: option.splits)

lemma loadCmdbuf_adds:
  assumes "loadCmdbuf R (Some i) st off sz sec s = Inr (CVI_RC_SUCCESS, t)"
  shows "adds_buffers i (if sz = 0 then {} else {fs_name sec}) s t"
proof (cases "sz = 0")
  case True
  with assms show ?thesis by (auto simp: loadCmdbuf_def dm_basic_Inr adds_buffers_def)
next
  case False
  then obtain m bs where r: "dbind (load_section_cmdbuf R m (bs @ replicate (sz - length bs) 0) sz sec) (\<lambda>r. case r of
         Inl rc \<Rightarrow> dret rc
       | Inr (ret, written) \<Rightarrow>
           dthen (if ret = CVI_RC_SUCCESS
                  then dbind (written_mem written) (\<lambda>mem. enter_dmabuf (Some i) (fs_name sec) mem) else dret ())
          (dthen (if m_isprotect m then dbind (written_mem written) (\<lambda>mem. protect_mem R mem) else dret ())
           (dret ret))) s = Inr (CVI_RC_SUCCESS, t)"
    using assms by (auto simp: loadCmdbuf_def Let_def deref_bind_Inr dbind_Inr[of "to_rtm _"] to_rtm_Inr)
  from r obtain d u where u: "load_section_cmdbuf R m (bs @ replicate (sz - length bs) 0) sz sec s = Inr (d, u)"
    "(case d of Inl rc \<Rightarrow> dret rc
       | Inr (ret, written) \<Rightarrow>
           dthen (if ret = CVI_RC_SUCCESS
                  then dbind (written_mem written) (\<lambda>mem. enter_dmabuf (Some i) (fs_name sec) mem) else dret ())
          (dthen (if m_isprotect m then dbind (written_mem written) (\<lambda>mem. protect_mem R mem) else dret ())
           (dret ret))) u = Inr (CVI_RC_SUCCESS, t)"
    by (auto simp: dbind_Inr)
  have d: "d \<noteq> Inl CVI_RC_SUCCESS"
    using u(1) by (auto simp: load_section_cmdbuf_def dbind_Inr dthen_Inr dm_basic_Inr cvi_rc_values split: if_splits option.splits)
  with u(2) obtain w v where v: "enter_dmabuf (Some i) (fs_name sec) w u = Inr ((), v)"
    "(if m_isprotect m then protect_mem R w else dret ()) v = Inr ((), t)"
    by (cases d) (auto simp: dm_basic_Inr dthen_Inr dbind_Inr written_mem_Inr split: if_splits)
  have "adds_buffers i {} v t" using v(2) by (intro adds_buffers_keep) (auto simp: dm_basic_Inr keeps_models_def split: if_splits dest!: keeps_models_access(5))
  with adds_buffers_then(1)[OF adds_buffers_keep[OF load_section_cmdbuf_keeps[OF u(1)]] enter_dmabuf_adds[OF v(1)]] False
  show ?thesis by (simp add: adds_buffers_then(2))
qed

lemma set_model_adds:
  assumes "rt_models s i = Some m" "set_model (Some i) m' s = Inr (x, t)" "m_dmabuf_map m' = m_dmabuf_map m"
  shows "adds_buffers i {} s t"
  using assms by (auto simp: set_model_def dm_inv adds_buffers_def)

lemma weight_rest_keeps:
  assumes "(if mem = None then dret CVI_RC_NOMEM
       else dbind (MemGetVAddr mem) (\<lambda>va.
         dthen (read_to st va off sz) (dthen (MemFlush R c mem)
        (dthen (if b then on_dev (mem_protect E va n) else dret ()) (dret CVI_RC_SUCCESS))))) v = Inr (rc, t)"
  shows "keeps_models v t"
proof (cases "mem = None")
  case True
  with assms show ?thesis by (simp add: dm_basic_Inr keeps_models_def)
next
  case False
  with assms obtain va v1 v2 r v3 where *: "MemGetVAddr mem v = Inr (va, v1)" "read_to st va off sz v1 = Inr ((), v2)"
    "MemFlush R c mem v2 = Inr (r, v3)" "(if b then on_dev (mem_protect E va n) else dret ()) v3 = Inr ((), t)"
    by (auto simp: dbind_Inr dthen_Inr dm_basic_Inr)
  have "rt_models t = rt_models v3" using *(4) by (cases b) (auto simp: dm_basic_Inr on_dev_Inr)
  with keeps_models_access(1)[OF *(1)] keeps_models_access(3)[OF *(2)] keeps_models_access(4)[OF *(3)]
  show ?thesis by (simp add: keeps_models_def)
qed

lemma loadWeight_adds:
  assumes "loadWeight R (Some i) st off sz s = Inr (rc, t)" shows "adds_buffers i {} s t"
proof (cases "sz = 0")
  case True
  with assms show ?thesis by (auto simp: loadWeight_def dm_basic_Inr adds_buffers_def)
next
  case False
  then obtain m where m: "rt_models s i = Some m" using assms by (auto simp: loadWeight_def deref_bind_Inr)
  obtain n mem u v x where u: "cviMemAlloc R (m_ctx m) n CVI_ALLOC_WEIGHT (m_model_name m) s = Inr (mem, u)"
    and v: "set_model (Some i) (m\<lparr>m_weight_mem := mem\<rparr>) u = Inr (x, v)"
    and t: "(if mem = None then dret CVI_RC_NOMEM
       else dbind (MemGetVAddr mem) (\<lambda>va.
         dthen (read_to st va off sz) (dthen (MemFlush R (m_ctx m) mem)
        (dthen (if m_isprotect m then on_dev (mem_protect (re_env R) va n) else dret ()) (dret CVI_RC_SUCCESS))))) v = Inr (rc, t)"
    using assms False m
    by (auto simp only: loadWeight_def Let_def deref_bind_Inr dthen_Inr[of "set_model _ _"] dbind_Inr[of "cviMemAlloc _ _ _ _ _"] if_False option.inject)
  have "rt_models u i = Some m" using keeps_models_mem(1)[OF u] m by (simp add: keeps_models_def)
  from set_model_adds[OF this v] adds_buffers_keep[OF keeps_models_mem(1)[OF u], of i] adds_buffers_keep[OF weight_rest_keeps[OF t], of i]
  show ?thesis by (auto intro: adds_buffers_then)
qed

lemma load_functions_adds: "load_functions R (Some i) st off sz s = Inr (ok, t) \<Longrightarrow> adds_buffers i {} s t"
  by (auto simp: load_functions_def dm_inv split: prod.splits intro: set_model_adds)

lemma load_section_adds:
  assumes "load_section R (Some i) st bin sec s = Inr (CVI_RC_SUCCESS, t)"
  shows "adds_buffers i (if fs_type sec = SectionType_DMABUF \<and> \<not> fs_compress sec then {fs_name sec} else {}) s t"
  using assms by (auto simp: load_section_def Let_def dbind_Inr dm_basic_Inr split: if_splits
      dest!: load_functions_adds loadWeight_adds loadDmabuf_adds) (auto simp: adds_buffers_def)

lemma until_error_adds:
  assumes "\<And>sec s t. f sec s = Inr (CVI_RC_SUCCESS, t) \<Longrightarrow> adds_buffers i (N sec) s t"
    and "until_error f secs s = Inr (CVI_RC_SUCCESS, t)"
  shows "adds_buffers i (\<Union>sec \<in> set secs. N sec) s t"
  using assms(2)
proof (induction secs arbitrary: s)
  case Nil
  then show ?case by (auto simp: dm_basic_Inr adds_buffers_def)
next
  case (Cons sec secs)
  then obtain u where u: "f sec s = Inr (CVI_RC_SUCCESS, u)" "until_error f secs u = Inr (CVI_RC_SUCCESS, t)"
    by (auto simp: dbind_Inr dm_basic_Inr cvi_rc_values split: if_splits)
  from adds_buffers_trans[OF assms(1)[OF u(1)] Cons.IH[OF u(2)]] show ?case by simp
qed

text \<open>
  C18: when extracting the sections of a model succeeds, every non-empty command-buffer section and
  every uncompressed dmabuf section is entered under its name in the model's table of command
  buffers, and every buffer that was in the table is still there.
\<close>

theorem sections_loaded:
  assumes "extractSections R (Some i) st bin secs s = Inr (CVI_RC_SUCCESS, t)" "rt_models s i = Some m"
  shows "\<exists>m'. rt_models t i = Some m' \<and> map_of (m_dmabuf_map m) \<subseteq>\<^sub>m map_of (m_dmabuf_map m') \<and>
    (\<forall>sec \<in> set secs. fs_type sec = SectionType_CMDBUF \<and> fs_size sec \<noteq> 0 \<or> fs_type sec = SectionType_DMABUF \<and> \<not> fs_compress sec \<longrightarrow>
       fs_name sec \<in> dom (map_of (m_dmabuf_map m')))"
proof -
  obtain u where u: "until_error (load_section R (Some i) st bin) secs s = Inr (CVI_RC_SUCCESS, u)"
    "until_error (load_cmdbuf_section R (Some i) st bin) (filter (\<lambda>sec. fs_type sec = SectionType_CMDBUF) secs) u = Inr (CVI_RC_SUCCESS, t)"
    using assms(1) by (auto simp: extractSections_def dbind_Inr dm_basic_Inr split: if_splits)
  have 1: "adds_buffers i (\<Union>sec \<in> set secs. if fs_type sec = SectionType_DMABUF \<and> \<not> fs_compress sec then {fs_name sec} else {}) s u"
    using load_section_adds u(1) by (rule until_error_adds)
  have 2: "adds_buffers i (\<Union>sec \<in> set (filter (\<lambda>sec. fs_type sec = SectionType_CMDBUF) secs). if fs_size sec = 0 then {} else {fs_name sec}) u t"
    using loadCmdbuf_adds u(2) unfolding load_cmdbuf_section_def by (rule until_error_adds)
  obtain m' where m': "rt_models t i = Some m'" "map_of (m_dmabuf_map m) \<subseteq>\<^sub>m map_of (m_dmabuf_map m')"
    and sub: "(\<Union>sec \<in> set secs. if fs_type sec = SectionType_DMABUF \<and> \<not> fs_compress sec then {fs_name sec} else {}) \<union>
      (\<Union>sec \<in> set (filter (\<lambda>sec. fs_type sec = SectionType_CMDBUF) secs). if fs_size sec = 0 then {} else {fs_name sec})
      \<subseteq> dom (map_of (m_dmabuf_map m'))"
    using adds_buffers_trans[OF 1 2] assms(2) unfolding adds_buffers_def by blast
  have "fs_name sec \<in> dom (map_of (m_dmabuf_map m'))" if "sec \<in> set secs"
    "fs_type sec = SectionType_CMDBUF \<and> fs_size sec \<noteq> 0 \<or> fs_type sec = SectionType_DMABUF \<and> \<not> fs_compress sec" for sec
    by (rule subsetD[OF sub]) (use that in auto)
  with m' show ?thesis by blast
qed

definition demo_cmdbuf :: fb_section where
  "demo_cmdbuf = \<lparr>fs_type = SectionType_CMDBUF, fs_name = ''sub0'', fs_size = 8, fs_offset = 16, fs_encrypt = False, fs_compress = False, fs_decompressed_size = 0\<rparr>"

definition demo_stream :: stream where
  "demo_stream = \<lparr>st_read = (\<lambda>_ n. Inr (replicate n 1, n)), st_length = 2000\<rparr>"

definition demo_header :: "u64 \<Rightarrow> byte" where
  "demo_header a = (if a = 8192 \<or> a = 8193 then 0xB5 else 0)"

definition demo_loader :: rtenv where
  "demo_loader = demo_rtenv\<lparr>re_bmk := demo_bmk\<lparr>bk_dmabuf_convert := (\<lambda>_ _ _ _. Inr (BM_SUCCESS, demo_header))\<rparr>\<rparr>"

lemma demo_alloc_state:
  "\<exists>w. mem_alloc demo_env (Some (Suc 0)) 256 demo_state = Inr (Inr (4096, 8192, 7), w) \<and> same_store demo_state w \<and> ds_devs w = ds_devs demo_state"
proof -
  have "\<exists>w. mem_alloc demo_env (Some (Suc 0)) 256 demo_state = Inr (Inr (4096, 8192, 7), w) \<and> ds_devs w = ds_devs demo_state"
    by (simp add: mem_alloc_step alloc_round_def ion_ioctl_def dm_run Let_def demo_defs demo_cache_ops[unfolded demo_dev_def] demo_ranges sub64_def)
  moreover from this have "same_store demo_state w" if "mem_alloc demo_env (Some (Suc 0)) 256 demo_state = Inr (Inr (4096, 8192, 7), w)" for w
    using alloc_loop_same that by (simp add: mem_alloc_def)
  ultimately show ?thesis by blast
qed

lemma demo_load:
  "\<exists>t. load_cmdbuf_181x demo_env (re_bmk demo_loader) (Some 2) (replicate 8 1) 8 0 0 False demo_state = Inr ((BM_SUCCESS, Some (Some 4)), t)"
proof -
  obtain w where w: "mem_alloc demo_env (Some (Suc 0)) 256 demo_state = Inr (Inr (4096, 8192, 7), w)" "same_store demo_state w" "ds_devs w = ds_devs demo_state"
    using demo_alloc_state by blast
  have d: "ds_ctxs demo_state 2 = Some demo_ctx" "bc_dev demo_ctx = Some (Suc 0)" "ds_next demo_state = 4" "ds_devs demo_state (Suc 0) = Some demo_dev"
     by (auto simp: demo_state_def demo_ctx_def)
  show ?thesis using w d
    by (simp add: load_cmdbuf_181x_def alloc_cmdbuf_def mem_alloc_raw_def alloc_object_def dm_run same_store_def
      demo_loader_def demo_rtenv_def demo_bmk_def from_res_def add64_def M64_def mem_p_addr_def convert_ram_def set_base_reg_def arraybase_set_def magic_ok_def
      store_bases01_def store_u32_def dmabuf_relocate_def ram_u32_def load_u32_def load_u16_def store_bytes_def hdr_arraybase_L_def hdr_arraybase_H_def
      u32_bytes_def TPU_DMABUF_HEADER_M_def SIZEOF_DMA_HDR_def demo_header_def M32_def demo_cache_ops demo_ranges)
qed
lemma demo_extract:
  "\<exists>t. extractSections demo_loader (Some 1) demo_stream 64 [demo_cmdbuf] (demo_rt\<lparr>rt_models := [1 \<mapsto> demo_model]\<rparr>) = Inr (CVI_RC_SUCCESS, t)"
proof -
  obtain t where "load_cmdbuf_181x demo_env (re_bmk demo_loader) (Some 2) (replicate 8 1) 8 0 0 False demo_state = Inr ((BM_SUCCESS, Some (Some 4)), t)"
    using demo_load by blast
  moreover have "ch_load_cmdbuf cv181x = load_cmdbuf_181x" by (simp add: cv181x_def)
  moreover have "re_chip demo_loader = cv181x" "re_env demo_loader = demo_env" "\<not> re_pmu demo_loader"
    "re_rc demo_loader BM_SUCCESS = CVI_RC_SUCCESS" by (simp_all add: demo_loader_def demo_rtenv_def cvi_rc_values)
  moreover have "rt_d demo_rt = demo_state" by (simp add: demo_rt_def)
  ultimately show ?thesis
    by (simp add: extractSections_def load_section_def load_cmdbuf_section_def loadCmdbuf_def load_section_cmdbuf_def LoadCmdbuf_def
        written_mem_def enter_dmabuf_def set_model_def emplace_def to_rtm_def on_dev_def demo_cmdbuf_def demo_stream_def
        demo_model_def Let_def dm_run cvi_rc_values)
qed

theorem sections_loaded_witness:
  "\<exists>t m'. extractSections demo_loader (Some 1) demo_stream 64 [demo_cmdbuf] (demo_rt\<lparr>rt_models := [1 \<mapsto> demo_model]\<rparr>) = Inr (CVI_RC_SUCCESS, t) \<and>
     rt_models t 1 = Some m' \<and> ''sub0'' \<in> dom (map_of (m_dmabuf_map m'))"
proof -
  obtain t where t: "extractSections demo_loader (Some 1) demo_stream 64 [demo_cmdbuf] (demo_rt\<lparr>rt_models := [1 \<mapsto> demo_model]\<rparr>) = Inr (CVI_RC_SUCCESS, t)"
    using demo_extract by blast
  have "rt_models (demo_rt\<lparr>rt_models := [1 \<mapsto> demo_model]\<rparr>) 1 = Some demo_model" by simp
  from sections_loaded[OF t this] t show ?thesis by (auto simp: demo_cmdbuf_def)
qed

end
