(* ===== verification/Runtime.thy ===== *)
theory Runtime
  imports Model
begin

text \<open>
  The programming interface (\<^verbatim>\<open>src/common/runtime.cpp\<close>): registering, cloning and cleaning up models, their
  options and tensors, inference, and the binding of tensors to memory and video frames.

  A handle of a model is the address of a \<^verbatim>\<open>ModelInstance\<close>.  A tensor structure of the caller is passed
  in and the updated one returned; shapes have four dimensions.  The functions that lock \<^verbatim>\<open>g_ctx_mutex\<close> are one step each.
\<close>

section \<open>Instances\<close>

definition set_instance :: "ptr \<Rightarrow> model_instance \<Rightarrow> unit rtm" where
  "set_instance self i = dmodify (\<lambda>s. s\<lparr>rt_instances := (rt_instances s)(the self \<mapsto> i)\<rparr>)"

definition ModelInstance_new :: "ptr \<Rightarrow> ptr rtm" where
  "ModelInstance_new model = dbind (deref rt_models model) (\<lambda>m s.
     Inr (Some (rt_next s), s\<lparr>rt_next := rt_next s + 1, rt_instances := (rt_instances s)(rt_next s \<mapsto>
       \<lparr>i_model = model, i_program = None, i_inputs = None, i_outputs = None, i_input_num = 0, i_output_num = 0,
        i_program_id = 0, i_program_num = m_program_num m, i_output_all_tensors = False, i_skip_preprocess = False\<rparr>)\<rparr>))"

definition ModelInstance_destroy :: "rtenv \<Rightarrow> ptr \<Rightarrow> unit rtm" where
  "ModelInstance_destroy R self = dbind (deref rt_instances self) (\<lambda>i.
     dthen (if i_program i \<noteq> None then Program_destroy R (i_program i) else dret ())
    (dthen (release R (i_model i))
     (dmodify (\<lambda>s. s\<lparr>rt_instances := (rt_instances s)(the self := None)\<rparr>))))"

section \<open>Registration\<close>

text \<open>
  On a host that simulates the device the chip is taken from the header of the model, which sets
  an environment variable for the simulator; a file too short for a header aborts.  The name of
  the chip the runtime then compares with (\<^const>\<open>re_device_chip\<close>, there the value of that variable) is
  a parameter of the whole run.
\<close>

definition setChipTypeForCmodel :: "rtenv \<Rightarrow> stream \<Rightarrow> unit rtm" where
  "setChipTypeForCmodel R st = (if re_aarch64 R then dret () else dbind (to_rtm (getChipType st)) (\<lambda>_. dret ()))"

definition init_context :: "rtenv \<Rightarrow> stream \<Rightarrow> unit rtm" where
  "init_context R st = dbind (dget rt_g_ctx) (\<lambda>g. if g \<noteq> None then dret ()
     else dthen (setChipTypeForCmodel R st) (dbind (Init R) (\<lambda>c. dmodify (\<lambda>s. s\<lparr>rt_g_ctx := c\<rparr>))))"

text \<open>
  The part the three registrations share: the context is made with the first model; a model that
  cannot be acquired is released, and the context, which is not counted yet, stays.
\<close>

definition register_with :: "rtenv \<Rightarrow> stream \<Rightarrow> (ptr \<Rightarrow> cvi_rc rtm) \<Rightarrow> (cvi_rc \<times> ptr) rtm" where
  "register_with R st acquire = dthen (init_context R st)
    (dbind (dget rt_g_ctx) (\<lambda>g. dbind (dget rt_g_model_count) (\<lambda>n.
     dthen (dmodify (\<lambda>s. s\<lparr>rt_g_model_count := to_s32 (n + 1)\<rparr>))
    (dbind (CviModel_new R g n) (\<lambda>model. dbind (acquire model) (\<lambda>ret.
     if ret \<noteq> CVI_RC_SUCCESS then dthen (release R model) (dret (ret, None))
     else dbind (ModelInstance_new model) (\<lambda>i.
       dthen (dmodify (\<lambda>s. s\<lparr>rt_g_ctx_ref_count := to_s32 (rt_g_ctx_ref_count s + 1)\<rparr>))
       (dret (CVI_RC_SUCCESS, i)))))))))"

definition CVI_NN_RegisterModelFromFd :: "rtenv \<Rightarrow> byte list \<Rightarrow> u64 \<Rightarrow> (cvi_rc \<times> ptr) rtm" where
  "CVI_NN_RegisterModelFromFd R file ud_offset = (let s = FdStream_open file ud_offset in
     register_with R \<lparr>st_read = FdStream_read s, st_length = fd_length s\<rparr> (\<lambda>m. acquire_fd R m file ud_offset))"

definition CVI_NN_RegisterModel :: "rtenv \<Rightarrow> byte list option \<Rightarrow> (cvi_rc \<times> ptr) rtm" where
  "CVI_NN_RegisterModel R file = (let s = FileStream_open file in
     register_with R \<lparr>st_read = FileStream_read s, st_length = fs_length s\<rparr> (\<lambda>m. acquire_file R m file))"

definition CVI_NN_RegisterModelFromBuffer :: "rtenv \<Rightarrow> byte list \<Rightarrow> u64 \<Rightarrow> (cvi_rc \<times> ptr) rtm" where
  "CVI_NN_RegisterModelFromBuffer R buf sz = (let s = BufferStream_open buf sz in
     register_with R \<lparr>st_read = BufferStream_read s, st_length = bs_length s\<rparr> (\<lambda>m. acquire_buffer R m buf sz))"

definition CVI_NN_CloneModel :: "ptr \<Rightarrow> (cvi_rc \<times> ptr) rtm" where
  "CVI_NN_CloneModel model = dthen (dmodify (\<lambda>s. s\<lparr>rt_g_ctx_ref_count := to_s32 (rt_g_ctx_ref_count s + 1)\<rparr>))
    (dbind (deref rt_instances model) (\<lambda>i. dbind (ModelInstance_new (i_model i)) (\<lambda>c.
     dthen (refer (i_model i)) (dret (CVI_RC_SUCCESS, c)))))"

definition CVI_NN_CleanupModel :: "rtenv \<Rightarrow> ptr \<Rightarrow> cvi_rc rtm" where
  "CVI_NN_CleanupModel R model = dthen (if model \<noteq> None then ModelInstance_destroy R model else dret ())
    (dthen (dmodify (\<lambda>s. s\<lparr>rt_g_ctx_ref_count := to_s32 (rt_g_ctx_ref_count s - 1)\<rparr>))
    (dbind (dget rt_g_ctx_ref_count) (\<lambda>n. dbind (dget rt_g_ctx) (\<lambda>g.
     if n = 0 then dthen (DeInit R g) (dthen (dmodify (\<lambda>s. s\<lparr>rt_g_ctx := None\<rparr>)) (dret CVI_RC_SUCCESS))
     else dret CVI_RC_SUCCESS))))"

section \<open>Options, tensors and inference\<close>

definition CVI_NN_GetModelVersion :: "ptr \<Rightarrow> (int \<times> int) rtm" where
  "CVI_NN_GetModelVersion model = dbind (deref rt_instances model) (\<lambda>i. dbind (deref rt_models (i_model i)) (\<lambda>m.
     dret (m_major_ver m, m_minor_ver m)))"

definition CVI_NN_GetModelTarget :: "ptr \<Rightarrow> string rtm" where
  "CVI_NN_GetModelTarget model = dbind (deref rt_instances model) (\<lambda>_. dget rt_target_chip)"

text \<open>The options of \<^verbatim>\<open>CVI_CONFIG_OPTION\<close>, with the argument those that read one get; \<open>OPTION_other\<close> is a value outside the enumeration.\<close>

datatype config_option = OPTION_BATCH_SIZE | OPTION_PREPARE_BUF_FOR_INPUTS | OPTION_PREPARE_BUF_FOR_OUTPUTS
  | OPTION_OUTPUT_ALL_TENSORS int | OPTION_SKIP_PREPROCESS | OPTION_SKIP_POSTPROCESS | OPTION_INPUT_MEM_TYPE
  | OPTION_OUTPUT_MEM_TYPE | OPTION_PROGRAM_INDEX int | OPTION_other

fun apply_option :: "config_option \<Rightarrow> model_instance \<Rightarrow> model_instance res" where
  "apply_option OPTION_BATCH_SIZE i = Inr (i\<lparr>i_program_id := 0\<rparr>)"
| "apply_option (OPTION_OUTPUT_ALL_TENSORS v) i = Inr (i\<lparr>i_output_all_tensors := (v \<noteq> 0)\<rparr>)"
| "apply_option (OPTION_PROGRAM_INDEX v) i =
     (if v < i_program_num i then Inr (i\<lparr>i_program_id := v\<rparr>) else Inl AssertFailed)"
| "apply_option OPTION_other i = Inl AssertFailed"
| "apply_option _ i = Inr i"

definition CVI_NN_SetConfig :: "ptr \<Rightarrow> config_option \<Rightarrow> cvi_rc rtm" where
  "CVI_NN_SetConfig model option = dbind (deref rt_instances model) (\<lambda>i. dbind (to_rtm (apply_option option i)) (\<lambda>j.
     dthen (set_instance model j) (dret CVI_RC_SUCCESS)))"

text \<open>The program is loaded and the tensors are exported once; an array of tensors is never null.\<close>

definition load_instance :: "rtenv \<Rightarrow> ptr \<Rightarrow> cvi_rc rtm" where
  "load_instance R model = dbind (deref rt_instances model) (\<lambda>i.
     if i_program i \<noteq> None then dret CVI_RC_SUCCESS
     else dbind (loadProgram R (i_model i) (i_program_id i) (i_output_all_tensors i) (i_skip_preprocess i)) (\<lambda>(ret, p).
       dthen (set_instance model (i\<lparr>i_program := p\<rparr>)) (dret ret)))"

definition export_inputs :: "ptr \<Rightarrow> unit rtm" where
  "export_inputs model = dbind (deref rt_instances model) (\<lambda>i. if i_inputs i \<noteq> None then dret ()
     else dbind (exportInputs (i_program i)) (\<lambda>ts.
       set_instance model (i\<lparr>i_inputs := Some ts, i_input_num := to_s32 (int (length ts))\<rparr>)))"

definition export_outputs :: "ptr \<Rightarrow> unit rtm" where
  "export_outputs model = dbind (deref rt_instances model) (\<lambda>i. if i_outputs i \<noteq> None then dret ()
     else dbind (exportOutputs (i_program i)) (\<lambda>ts.
       set_instance model (i\<lparr>i_outputs := Some ts, i_output_num := to_s32 (int (length ts))\<rparr>)))"

text \<open>The result and, on success, the inputs and the outputs.\<close>

definition CVI_NN_GetInputOutputTensors :: "rtenv \<Rightarrow> ptr \<Rightarrow> (cvi_rc \<times> (cvi_tensor list \<times> cvi_tensor list) option) rtm" where
  "CVI_NN_GetInputOutputTensors R model = dbind (load_instance R model) (\<lambda>ret.
     if ret \<noteq> CVI_RC_SUCCESS then dret (ret, None)
     else dthen (export_inputs model) (dthen (export_outputs model) (dbind (deref rt_instances model) (\<lambda>i.
       dret (CVI_RC_SUCCESS, Some (the (i_inputs i), the (i_outputs i)))))))"

definition CVI_NN_GetInputTensors :: "rtenv \<Rightarrow> ptr \<Rightarrow> (cvi_rc \<times> cvi_tensor list option) rtm" where
  "CVI_NN_GetInputTensors R model = dbind (CVI_NN_GetInputOutputTensors R model) (\<lambda>(ret, r). dret (ret, map_option fst r))"

definition CVI_NN_GetOutputTensors :: "rtenv \<Rightarrow> ptr \<Rightarrow> (cvi_rc \<times> cvi_tensor list option) rtm" where
  "CVI_NN_GetOutputTensors R model = dbind (CVI_NN_GetInputOutputTensors R model) (\<lambda>(ret, r). dret (ret, map_option snd r))"

definition CVI_NN_Forward :: "rtenv \<Rightarrow> ptr \<Rightarrow> cvi_tensor list \<Rightarrow> cvi_tensor list \<Rightarrow> cvi_rc rtm" where
  "CVI_NN_Forward R model inputs outputs = dbind (deref rt_instances model) (\<lambda>i.
     dbind (forward R (i_program i) inputs outputs) (\<lambda>ok. dret (if ok then CVI_RC_SUCCESS else CVI_RC_FAILURE)))"

text \<open>
  The index of the tensor of a name, \<^const>\<open>None\<close> for a null name; \<^verbatim>\<open>strncmp\<close> of all but the last
  character when that is a star.  An empty name reads the byte before it.
\<close>

definition CVI_NN_GetTensorByName :: "string option \<Rightarrow> cvi_tensor list \<Rightarrow> nat option res" where
  "CVI_NN_GetTensorByName name tensors = (case name of
     None \<Rightarrow> Inr (if length tensors = 1 then Some 0 else None)
   | Some nm \<Rightarrow> if nm = [] then Inl OutOfRange
       else let sz = length nm; has_wildcard = (nm ! (sz - 1) = CHR ''*'') in
         Inr (find_index (\<lambda>t. if \<not> has_wildcard then t_name t = nm else take (sz - 1) (t_name t) = take (sz - 1) nm) tensors))"

definition CVI_NN_TensorPtr :: "cvi_tensor \<Rightarrow> u64" where
  "CVI_NN_TensorPtr tensor = (if t_mem_type tensor = CVI_MEM_SYSTEM then t_sys_mem tensor else 0)"

section \<open>Binding memory to tensors\<close>

definition CVI_NN_SetTensorPtr :: "cvi_tensor \<Rightarrow> u64 \<Rightarrow> (cvi_rc \<times> cvi_tensor) res" where
  "CVI_NN_SetTensorPtr tensor mem = (if mem = 0 then Inl AssertFailed
     else Inr (CVI_RC_SUCCESS, tensor\<lparr>t_sys_mem := mem, t_mem_type := CVI_MEM_SYSTEM\<rparr>))"

fun find_tensor :: "string \<Rightarrow> ptr list \<Rightarrow> ptr option rtm" where
  "find_tensor name [] = dret None"
| "find_tensor name (x # xs) = dbind (deref rt_neurons x) (\<lambda>n. if n_name n = name then dret (Some x) else find_tensor name xs)"

definition CVI_NN_SetTensorPhysicalAddr :: "rtenv \<Rightarrow> cvi_tensor \<Rightarrow> u64 \<Rightarrow> (cvi_rc \<times> cvi_tensor) rtm" where
  "CVI_NN_SetTensorPhysicalAddr R tensor paddr =
    (let tensor' = tensor\<lparr>t_paddr := paddr, t_mem_type := CVI_MEM_DEVICE\<rparr> in
     dthen (dassert (t_owner tensor \<noteq> None)) (dbind (deref rt_programs (t_owner tensor)) (\<lambda>p.
     dbind (find_tensor (t_name tensor) (p_in_tensors p)) (\<lambda>i. case i of
       Some n \<Rightarrow> dthen (updateBaseAddr R n paddr) (dret (CVI_RC_SUCCESS, tensor'))
     | None \<Rightarrow> dbind (find_tensor (t_name tensor) (p_out_tensors p)) (\<lambda>out. case out of
         Some n \<Rightarrow> dthen (updateBaseAddr R n paddr) (dret (CVI_RC_SUCCESS, tensor'))
       | None \<Rightarrow> dfail AssertFailed)))))"

definition findTargetInput :: "cvi_tensor \<Rightarrow> ptr rtm" where
  "findTargetInput tensor = dbind (deref rt_programs (t_owner tensor)) (\<lambda>p.
     dbind (find_tensor (t_name tensor) (p_in_tensors p)) (\<lambda>i. case i of Some n \<Rightarrow> dret n | None \<Rightarrow> dfail AssertFailed))"

text \<open>A loop that preloads the frames or channels at the addresses one by one, counting from the given index.\<close>

fun preload_each :: "(int \<Rightarrow> u64 \<Rightarrow> cvi_rc rtm) \<Rightarrow> nat \<Rightarrow> int \<Rightarrow> u64 list \<Rightarrow> cvi_rc rtm" where
  "preload_each f 0 i addrs = dret CVI_RC_SUCCESS"
| "preload_each f (Suc k) i [] = dfail OutOfRange"
| "preload_each f (Suc k) i (a # addrs) = dbind (f i a) (\<lambda>ret.
     if ret \<noteq> CVI_RC_SUCCESS then dret ret else preload_each f k (i + 1) addrs)"

definition CVI_NN_SetTensorWithAlignedFrames ::
    "rtenv \<Rightarrow> cvi_tensor \<Rightarrow> u64 list \<Rightarrow> int \<Rightarrow> pixel_format \<Rightarrow> (cvi_rc \<times> cvi_tensor) rtm" where
  "CVI_NN_SetTensorWithAlignedFrames R tensor frame_paddrs frame_num pixel_format =
    (let tensor' = tensor\<lparr>t_mem_type := CVI_MEM_DEVICE\<rparr> in
     dthen (dassert (t_owner tensor \<noteq> None)) (dthen (dassert (frame_num \<le> t_shape tensor ! 0))
    (dbind (findTargetInput tensor') (\<lambda>input.
     if \<not> t_aligned tensor then
       dbind (preload_each (preloadFrameAndCompact R input) (nat frame_num) 0 frame_paddrs) (\<lambda>ret. dret (ret, tensor'))
     else dthen (dassert (pixel_format = t_pixel_format tensor))
      (if frame_num = 1 \<and> t_shape tensor ! 0 = 1 then
         (case frame_paddrs of [] \<Rightarrow> dfail OutOfRange
          | a # _ \<Rightarrow> dbind (CVI_NN_SetTensorPhysicalAddr R tensor' a) (\<lambda>(_, t). dret (CVI_RC_SUCCESS, t)))
       else dbind (preload_each (preload R input) (nat frame_num) 0 frame_paddrs) (\<lambda>ret. dret (ret, tensor')))))))"

record video_frame_info =
  vf_type :: pixel_format
  vf_shape :: "int list"
  vf_pyaddr :: "u64 list"

text \<open>The result of binding an aligned frame is not looked at.\<close>

definition CVI_NN_SetTensorWithVideoFrame :: "rtenv \<Rightarrow> cvi_tensor \<Rightarrow> video_frame_info \<Rightarrow> (cvi_rc \<times> cvi_tensor) rtm" where
  "CVI_NN_SetTensorWithVideoFrame R tensor frame =
    (if t_shape tensor ! 1 \<noteq> vf_shape frame ! 1 \<or> t_shape tensor ! 2 \<noteq> vf_shape frame ! 2 \<or> t_shape tensor ! 3 \<noteq> vf_shape frame ! 3
     then dret (CVI_RC_DATA_ERR, tensor)
     else dthen (dassert (t_shape tensor ! 0 = 1))
      (let tensor' = tensor\<lparr>t_mem_type := CVI_MEM_DEVICE\<rparr> in
       dbind (findTargetInput tensor') (\<lambda>input.
       if \<not> t_aligned tensor then
         dbind (isPacked input) (\<lambda>packed.
         let c = (if packed then 1 else t_shape tensor ! 1) in
         dthen (dassert (c \<le> 3))
        (dbind (preload_each (preloadChannelAndCompact R input) (nat c) 0 (vf_pyaddr frame)) (\<lambda>ret. dret (ret, tensor'))))
       else dbind (CVI_NN_SetTensorWithAlignedFrames R tensor' (vf_pyaddr frame) 1 (vf_type frame)) (\<lambda>(_, t).
         dret (CVI_RC_SUCCESS, t)))))"

definition CVI_NN_FeedTensorWithFrames ::
    "rtenv \<Rightarrow> cvi_tensor \<Rightarrow> pixel_format \<Rightarrow> int \<Rightarrow> u64 list \<Rightarrow> int \<Rightarrow> int \<Rightarrow> (cvi_rc \<times> cvi_tensor) rtm" where
  "CVI_NN_FeedTensorWithFrames R tensor type channel_num channel_paddrs height width =
     dbind (findTargetInput tensor) (\<lambda>input. dbind (isPacked input) (\<lambda>packed.
     if (if packed then t_shape tensor ! 1 \<noteq> height \<or> t_shape tensor ! 2 \<noteq> width
         else t_shape tensor ! 2 \<noteq> height \<or> t_shape tensor ! 3 \<noteq> width)
     then dret (CVI_RC_DATA_ERR, tensor)
     else dthen (dassert (t_shape tensor ! 0 = 1))
      (let tensor' = tensor\<lparr>t_mem_type := CVI_MEM_DEVICE\<rparr> in
       if \<not> t_aligned tensor then
         dbind (isPacked input) (\<lambda>packed2.
         let c = (if packed2 then 1 else t_shape tensor ! 1) in
         dthen (dassert (channel_num \<le> c))
        (dbind (preload_each (preloadChannelAndCompact R input) (nat channel_num) 0 channel_paddrs) (\<lambda>ret.
         dret (if ret \<noteq> CVI_RC_SUCCESS then CVI_RC_FAILURE else CVI_RC_SUCCESS, tensor'))))
       else dbind (CVI_NN_SetTensorWithAlignedFrames R tensor' channel_paddrs 1 type) (\<lambda>(_, t).
         dret (CVI_RC_SUCCESS, t)))))"

end
