(* ===== verification/Handles.thy ===== *)
theory Handles
  imports Runtime
begin

text \<open>
  The life of models (\<^verbatim>\<open>src/common/runtime.cpp\<close>): a model lives exactly as long as a handle refers to
  it, whatever sequence of registrations, clones, options, exports and cleanups the caller makes.
\<close>

section \<open>Frames\<close>

text \<open>
  An operation keeps a preorder on states when every run that returns relates its start to its end,
  from starts that satisfy a condition the preorder preserves.
\<close>

definition keeps :: "('s \<Rightarrow> 's \<Rightarrow> bool) \<Rightarrow> ('s \<Rightarrow> bool) \<Rightarrow> ('s, 'a) sm \<Rightarrow> bool" where
  "keeps F P m \<longleftrightarrow> (\<forall>s t. P s \<longrightarrow> F s t \<longrightarrow> P t) \<longrightarrow> (\<forall>s a t. P s \<longrightarrow> m s = Inr (a, t) \<longrightarrow> F s t)"

lemma keepsD: "keeps F (\<lambda>_. True) m \<Longrightarrow> m s = Inr (a, t) \<Longrightarrow> F s t"
  by (auto simp: keeps_def)

named_theorems frame_intro \<open>composition of operations that keep a frame\<close>

locale framed =
  fixes F :: "'s \<Rightarrow> 's \<Rightarrow> bool"
  assumes refl: "F s s" and trans: "F s t \<Longrightarrow> F t u \<Longrightarrow> F s u"
begin

lemma bind: assumes "keeps F P m" "\<And>a. keeps F P (k a)" shows "keeps F P (dbind m k)"
  using assms unfolding keeps_def dbind_Inr by (blast intro: trans)

lemma then_: assumes "keeps F P m" "keeps F P n" shows "keeps F P (dthen m n)"
  using assms unfolding keeps_def dthen_Inr by (blast intro: trans)

lemma basic:
  "keeps F P (dret x)" "keeps F P (dfail e)" "keeps F P (dassert b)" "keeps F P (dget f)" "keeps F P (deref heap q)"
  unfolding keeps_def dm_basic_Inr using refl by auto

lemma modify: "(\<And>s. P s \<Longrightarrow> F s (f s)) \<Longrightarrow> keeps F P (dmodify f)"
  unfolding keeps_def dm_basic_Inr by auto

lemma each: "(\<And>x. keeps F P (f x)) \<Longrightarrow> keeps F P (for_each f xs)"
  by (induction xs) (auto intro: basic then_)

lemma until: "(\<And>x. keeps F P (f x)) \<Longrightarrow> keeps F P (until_error f xs)"
proof (induction xs)
  case (Cons x xs)
  have "keeps F P (if r \<noteq> 0 then dret r else until_error f xs)" for r
    using Cons by (auto intro: basic)
  with Cons.prems show ?case by (auto intro: bind)
qed (auto intro: basic)

end

lemma keeps_split:
  "(b \<Longrightarrow> keeps F P m) \<Longrightarrow> (\<not> b \<Longrightarrow> keeps F P n) \<Longrightarrow> keeps F P (if b then m else n)"
  "keeps F P (k x) \<Longrightarrow> keeps F P (Let x k)"
  "(\<And>a b. keeps F P (f a b)) \<Longrightarrow> keeps F P (case z of (a, b) \<Rightarrow> f a b)"
  "(\<And>a b. keeps F P (f' a b y)) \<Longrightarrow> keeps F P ((case z of (a, b) \<Rightarrow> f' a b) y)"
  "keeps F P m \<Longrightarrow> (\<And>y. keeps F P (g y)) \<Longrightarrow> keeps F P (case v of None \<Rightarrow> m | Some y \<Rightarrow> g y)"
  "(\<And>e. keeps F P (h e)) \<Longrightarrow> (\<And>y. keeps F P (g y)) \<Longrightarrow> keeps F P (case w of Inl e \<Rightarrow> h e | Inr y \<Rightarrow> g y)"
  "keeps F P m \<Longrightarrow> (\<And>y ys. keeps F P (l y ys)) \<Longrightarrow> keeps F P (case xs of [] \<Rightarrow> m | y # ys \<Rightarrow> l y ys)"
  by (auto split: prod.split option.split sum.split list.split)

section \<open>What the components below do not touch\<close>

definition same_handles :: "rt \<Rightarrow> rt \<Rightarrow> bool" where
  "same_handles s t \<longleftrightarrow> rt_instances t = rt_instances s \<and> rt_g_ctx t = rt_g_ctx s \<and>
     rt_g_ctx_ref_count t = rt_g_ctx_ref_count s \<and> rt_next s \<le> rt_next t \<and>
     (\<forall>j. map_option m_ref (rt_models t j) = map_option m_ref (rt_models s j))"

interpretation handles: framed same_handles
  by unfold_locales (auto simp: same_handles_def)

abbreviation keeps_h :: "(rt \<Rightarrow> bool) \<Rightarrow> 'a rtm \<Rightarrow> bool" where
  "keeps_h \<equiv> keeps same_handles"

declare handles.bind [frame_intro] handles.then_ [frame_intro] handles.basic [frame_intro]
  handles.each [frame_intro] handles.until [frame_intro] keeps_split [frame_intro]

lemma keeps_primitive [frame_intro]:
  "keeps_h P (on_dev m)" "keeps_h P (set_neuron p n)" "keeps_h P (new_neuron n)" "keeps_h P (new_khandle h)"
  "keeps_h P (set_khandle p h)" "keeps_h P (set_bases p b)" "keeps_h P (new_bases b)" "keeps_h P (new_program q)"
  "keeps_h P (set_program p q)" "keeps_h P (to_rtm r)"
  by (auto simp: keeps_def same_handles_def on_dev_Inr set_neuron_def new_neuron_def new_khandle_def set_khandle_def
      set_bases_def new_bases_def new_program_def set_program_def to_rtm_def dm_basic_Inr split: sum.splits)

lemma keeps_fields [frame_intro]:
  "keeps_h P (dmodify (\<lambda>s. s\<lparr>rt_neurons := f s\<rparr>))" "keeps_h P (dmodify (\<lambda>s. s\<lparr>rt_khandles := g s\<rparr>))"
  "keeps_h P (dmodify (\<lambda>s. s\<lparr>rt_programs := h s, rt_bases := i s\<rparr>))" "keeps_h P (dmodify (\<lambda>s. s\<lparr>rt_shared_list := l s\<rparr>))"
  "keeps_h P (dmodify (\<lambda>s. s\<lparr>rt_mallocs := n s\<rparr>))" "keeps_h P (dmodify (\<lambda>s. s\<lparr>rt_target_chip := c s\<rparr>))"
  by (auto simp: keeps_def same_handles_def dm_basic_Inr)

lemma keeps_device [frame_intro]:
  "keeps_h P (Init R)" "keeps_h P (DeInit R c)" "keeps_h P (MemAlloc R c sz)" "keeps_h P (MemFree R c mem)"
  "keeps_h P (MemGetVAddr mem)" "keeps_h P (MemGetPAddr mem)" "keeps_h P (MemGetSize mem)"
  "keeps_h P (MemPreAlloc mem off sz)" "keeps_h P (MemIncRef mem)" "keeps_h P (MemDecRef mem)" "keeps_h P (MemFlush R c mem)"
  "keeps_h P (MemInvld R c mem)" "keeps_h P (MemCopyS2D R c mem va)" "keeps_h P (MemCopyD2S R c va mem)"
  "keeps_h P (LoadCmdbuf R c cb n b0 b1 e)" "keeps_h P (LoadDmabuf R c mem n b0 b1 e)"
  "keeps_h P (LoadCmdbufTee R c cb n b0 b1 wl)" "keeps_h P (RunCmdbuf R c mem x y)"
  "keeps_h P (RegisterKernel R c k)" "keeps_h P (UnRegisterKernel R p)"
  unfolding Init_def DeInit_def MemAlloc_def MemFree_def free_raw_def MemGetVAddr_def MemGetPAddr_def MemGetSize_def MemPreAlloc_def MemIncRef_def
    MemDecRef_def MemFlush_def MemInvld_def MemCopyS2D_def MemCopyD2S_def LoadCmdbuf_def LoadDmabuf_def LoadCmdbufTee_def RunCmdbuf_def RegisterKernel_def UnRegisterKernel_def
  by (rule frame_intro)+

lemma keeps_alloc [frame_intro]: "keeps_h P (cviMemAlloc R c sz ty nm)" "keeps_h P (cviMemFree R c mem)"
  unfolding cviMemAlloc_def cviMemFree_def by (rule frame_intro)+

lemma keeps_shared [frame_intro]:
  "keeps_h P (allocateSharedMemory R c sz)" "keeps_h P (deallocateSharedMemory R c mem)"
proof -
  have f: "keeps_h P (find_shared n l)" for n l
    by (induction l) (simp, rule frame_intro, simp, (rule frame_intro | assumption)+)
  have i: "keeps_h P (insert_shared n mem l)" for n mem l
    by (induction l) (simp, rule frame_intro, simp, (rule frame_intro | assumption)+)
  show "keeps_h P (allocateSharedMemory R c sz)" "keeps_h P (deallocateSharedMemory R c mem)"
    unfolding allocateSharedMemory_def deallocateSharedMemory_def by (rule frame_intro f i)+
qed

lemma keeps_neuron [frame_intro]:
  "keeps_h P (Neuron_weight R c w mem nm)" "keeps_h P (Neuron_activation R c cvk x bs nm)" "keeps_h P (Neuron_destroy R n)"
  "keeps_h P (updateBaseAddr_mem n mem)" "keeps_h P (set_state n st)" "keeps_h P (toCpu R n)"
  unfolding Neuron_weight_def Neuron_activation_def Neuron_destroy_def updateBaseAddr_mem_def set_state_def toCpu_def
  by (rule frame_intro)+

lemma keeps_reserve [frame_intro]: "keeps_h P (reserveIonMem R n off)" "keeps_h P (reserveSysMem R n)"
  unfolding reserveIonMem_def take_gmem_def bind_gmem_def reserveSysMem_def by (rule frame_intro)+

lemma keeps_program_memory [frame_intro]:
  "keeps_h P (Program_new R c dm fs wm mem nm mx)" "keeps_h P (setOptions p x y)" "keeps_h P (Program_destroy R p)"
  "keeps_h P (createNeuronSpace R p fb)"
  unfolding Program_new_def setOptions_def Program_destroy_def createNeuronSpace_def alloc_private_def alloc_shared_def set_base_def
  by (rule frame_intro)+

lemma keeps_neuron_map [frame_intro]: "keeps_h P (assign_neuron R p nm n)" "keeps_h P (neuron_at p nm)"
  unfolding assign_neuron_def neuron_at_def by (rule frame_intro)+

lemma keeps_neurons_at [frame_intro]: "keeps_h P (neurons_at p names)"
  by (induction names) (simp, rule frame_intro, simp, (rule frame_intro | assumption)+)

lemma keeps_make_neurons [frame_intro]: "keeps_h P (make_neurons R p ts)"
  by (induction ts) (simp, rule frame_intro, simp, (rule frame_intro | assumption)+)

lemma keeps_cpu_inputs [frame_intro]: "keeps_h P (cpu_inputs R p names)"
  by (induction names) (simp, rule frame_intro, simp only: cpu_inputs.simps, (rule frame_intro | assumption)+)

lemma keeps_routines [frame_intro]:
  "keeps_h P (TpuRoutine_initialize R p r)" "keeps_h P (CpuRoutine_initialize R p r)" "keeps_h P (push_tensors p fb)"
  unfolding TpuRoutine_initialize_def CpuRoutine_initialize_def init_dmabuf_def fetchQscaleFromDequant_def push_tensors_def
  by (rule frame_intro)+

lemma keeps_createRoutines [frame_intro]: "keeps_h P (createRoutines R p rs)"
  by (induction rs) (simp, rule frame_intro, simp only: createRoutines.simps, (rule frame_intro | assumption)+)

lemma keeps_prepare [frame_intro]: "keeps_h P (prepare R r)"
  by (cases r) (simp_all only: prepare.simps, (rule frame_intro)+)

lemma keeps_loadProgram [frame_intro]: "keeps_h P (loadProgram R m i x y)"
  unfolding loadProgram_def Program_load_def createNeuronMap_def by (rule frame_intro)+

lemma keeps_export [frame_intro]: "keeps_h P (exportInputs p)" "keeps_h P (exportOutputs p)"
proof -
  have e: "keeps_h P (export_list p ns)" for ns
    by (induction ns) (simp, rule frame_intro, simp only: export_list.simps exportTensorInfo_def, (rule frame_intro | assumption)+)
  have k: "keeps_h P (kept_tensors ns)" for ns
    by (induction ns) (simp, rule frame_intro, simp only: kept_tensors.simps, (rule frame_intro | assumption)+)
  show "keeps_h P (exportInputs p)" "keeps_h P (exportOutputs p)"
    unfolding exportInputs_def exportOutputs_def by (rule frame_intro e k)+
qed

section \<open>Parsing a model\<close>

text \<open>A model that is updated after it was read keeps its reference count.\<close>

definition has_ref :: "ptr \<Rightarrow> int \<Rightarrow> rt \<Rightarrow> bool" where
  "has_ref self r s \<longleftrightarrow> map_option m_ref (rt_models s (the self)) = Some r"

lemma has_ref_same: "same_handles s t \<Longrightarrow> has_ref self r t = has_ref self r s"
  by (simp only: has_ref_def same_handles_def)

lemma keeps_deref_model:
  assumes "\<And>m. keeps_h (\<lambda>s. P s \<and> has_ref self (m_ref m) s) (k m)"
  shows "keeps_h P (dbind (deref rt_models self) k)"
  unfolding keeps_def
proof (intro impI allI)
  fix s a t assume st: "\<forall>s t. P s \<longrightarrow> same_handles s t \<longrightarrow> P t" and "P s" and r: "dbind (deref rt_models self) k s = Inr (a, t)"
  then obtain m where m: "rt_models s (the self) = Some m" "k m s = Inr (a, t)" by (auto simp: deref_bind_Inr)
  have "\<forall>s t. P s \<and> has_ref self (m_ref m) s \<longrightarrow> same_handles s t \<longrightarrow> P t \<and> has_ref self (m_ref m) t"
    using st has_ref_same by blast
  moreover have "has_ref self (m_ref m) s" by (simp add: has_ref_def m(1))
  ultimately show "same_handles s t" using assms[of m] m(2) \<open>P s\<close> unfolding keeps_def by blast
qed

lemma keeps_set_model:
  assumes "\<And>s. P s \<Longrightarrow> has_ref self (m_ref m) s"
  shows "keeps_h P (set_model self m)"
  unfolding set_model_def
proof (rule handles.modify)
  fix s assume "P s"
  then have "has_ref self (m_ref m) s" by (rule assms)
  then show "same_handles s (s\<lparr>rt_models := (rt_models s)(the self \<mapsto> m)\<rparr>)" by (auto simp: same_handles_def has_ref_def)
qed

lemmas keeps_model = keeps_deref_model keeps_set_model

lemma keeps_sections [frame_intro]:
  "keeps_h P (enter_dmabuf self nm mem)" "keeps_h P (loadDmabuf R self st off sz sec)"
  "keeps_h P (loadCmdbuf R self st off sz sec)" "keeps_h P (loadWeight R self st off sz)"
  "keeps_h P (load_functions R self st off sz)"
  unfolding enter_dmabuf_def loadDmabuf_def decompress_dmabuf_def enter_loaded_def loadCmdbuf_def load_section_cmdbuf_def
    written_mem_def protect_mem_def loadWeight_def load_functions_def read_to_def
  by (rule keeps_deref_model keeps_set_model | rule frame_intro | simp)+

lemma keeps_weights [frame_intro]: "keeps_h P (make_weights R self ws)"
  by (induction ws arbitrary: P)
    (simp, rule frame_intro, simp only: make_weights.simps, (rule keeps_model | rule frame_intro | assumption | simp)+)

lemma keeps_parse [frame_intro]: "keeps_h P (parse R self st)"
  unfolding parse_def parseModelHeader_def showAndCheckVersion_def extractSections_def load_section_def load_cmdbuf_section_def
    parseProgramNum_def createCpuWeightMap_def
  by (rule keeps_model | rule frame_intro | simp)+

lemma keeps_acquire [frame_intro]:
  "keeps_h P (acquire_file R self f)" "keeps_h P (acquire_buffer R self b sz)" "keeps_h P (acquire_fd R self d off)"
  unfolding acquire_file_def acquire_buffer_def acquire_fd_def by (rule frame_intro)+

section \<open>Reference counts\<close>

text \<open>The counts of the living models, and the handles of a model.\<close>

definition refs :: "rt \<Rightarrow> nat \<rightharpoonup> int" where
  "refs s = (\<lambda>j. map_option m_ref (rt_models s j))"

definition handles_of :: "rt \<Rightarrow> nat \<Rightarrow> nat set" where
  "handles_of s m = {h. \<exists>i. rt_instances s h = Some i \<and> i_model i = Some m}"

lemma same_handles_refs: "same_handles s t \<longleftrightarrow> rt_instances t = rt_instances s \<and> rt_g_ctx t = rt_g_ctx s \<and>
     rt_g_ctx_ref_count t = rt_g_ctx_ref_count s \<and> rt_next s \<le> rt_next t \<and> refs t = refs s"
  by (auto simp: same_handles_def refs_def fun_eq_iff)

lemma CviModel_destroy_effect:
  assumes "CviModel_destroy R (Some j) s = Inr (u, t)"
  shows "rt_instances t = rt_instances s" "rt_g_ctx t = rt_g_ctx s" "rt_g_ctx_ref_count t = rt_g_ctx_ref_count s"
    "rt_next s \<le> rt_next t" "refs t = (refs s)(j := None)"
proof -
  let ?body = "\<lambda>m :: cvi_model. dthen (if m_weight_mem m \<noteq> None
            then dthen (if m_isprotect m then unprotect_mem R (m_weight_mem m) else dret ())
                 (cviMemFree R (m_ctx m) (m_weight_mem m))
            else dret ())
    (dthen (for_each (\<lambda>buf. dthen (if m_isprotect m then unprotect_mem R buf else dret ()) (cviMemFree R (m_ctx m) buf))
              (map snd (m_dmabuf_map m)))
    (for_each (Neuron_destroy R) (filter (\<lambda>n. n \<noteq> None) (map snd (m_weight_map m)))))"
  obtain m x v where m: "?body m s = Inr (x, v)" "t = v\<lparr>rt_models := (rt_models v)(j := None)\<rparr>"
    using assms unfolding CviModel_destroy_def deref_bind_Inr dthen_Inr dm_basic_Inr option.sel by blast
  have "keeps_h (\<lambda>_. True) (?body m)" unfolding unprotect_mem_def by (rule frame_intro)+
  from keepsD[OF this m(1)] show "rt_instances t = rt_instances s" "rt_g_ctx t = rt_g_ctx s" "rt_g_ctx_ref_count t = rt_g_ctx_ref_count s"
    "rt_next s \<le> rt_next t" "refs t = (refs s)(j := None)"
    by (simp_all add: m(2) same_handles_def refs_def fun_eq_iff)
qed

lemma release_effect:
  assumes "release R (Some j) s = Inr (u, t)"
  shows "\<exists>r. refs s j = Some r \<and> rt_instances t = rt_instances s \<and> rt_g_ctx t = rt_g_ctx s \<and> rt_g_ctx_ref_count t = rt_g_ctx_ref_count s \<and>
    rt_next s \<le> rt_next t \<and> refs t = (refs s)(j := if to_s32 (r - 1) = 0 then None else Some (to_s32 (r - 1)))"
proof -
  obtain m where m: "rt_models s j = Some m"
    "dthen (set_model (Some j) (m\<lparr>m_ref := to_s32 (m_ref m - 1)\<rparr>)) (if to_s32 (m_ref m - 1) = 0 then CviModel_destroy R (Some j) else dret ()) s = Inr (u, t)"
    using assms by (auto simp: release_def deref_bind_Inr Let_def)
  let ?v = "s\<lparr>rt_models := (rt_models s)(j \<mapsto> m\<lparr>m_ref := to_s32 (m_ref m - 1)\<rparr>)\<rparr>"
  have v: "(if to_s32 (m_ref m - 1) = 0 then CviModel_destroy R (Some j) else dret ()) ?v = Inr (u, t)"
    using m(2) by (simp add: dthen_Inr set_model_def dm_basic_Inr)
  have f: "refs ?v = (refs s)(j \<mapsto> to_s32 (m_ref m - 1))" "refs s j = Some (m_ref m)" using m(1) by (auto simp: refs_def fun_eq_iff)
  show ?thesis
  proof (cases "to_s32 (m_ref m - 1) = 0")
    case True
    with v have "CviModel_destroy R (Some j) ?v = Inr (u, t)" by simp
    note e = CviModel_destroy_effect[OF this]
    from e f True show ?thesis by simp
  next
    case False
    with v f show ?thesis by (auto simp: dm_basic_Inr)
  qed
qed

text \<open>
  The invariant: every handle refers to a living model; a living model has a handle and its count is
  the number of its handles; the count of the context is the number of handles, and the context is
  open while there is one; addresses from \<^const>\<open>rt_next\<close> on are free.
\<close>

definition handles_ok :: "rt \<Rightarrow> bool" where
  "handles_ok s \<longleftrightarrow> finite (dom (rt_instances s)) \<and>
     (\<forall>h i. rt_instances s h = Some i \<longrightarrow> (\<exists>m. i_model i = Some m \<and> refs s m \<noteq> None)) \<and>
     (\<forall>m r. refs s m = Some r \<longrightarrow> r = int (card (handles_of s m)) \<and> handles_of s m \<noteq> {}) \<and>
     rt_g_ctx_ref_count s = int (card (dom (rt_instances s))) \<and>
     (dom (rt_instances s) \<noteq> {} \<longrightarrow> rt_g_ctx s \<noteq> None) \<and>
     (\<forall>k \<ge> rt_next s. refs s k = None \<and> rt_instances s k = None)"

lemma handles_of_upd:
  "rt_instances t = (rt_instances s)(h \<mapsto> i) \<Longrightarrow> rt_instances s h = None \<Longrightarrow>
     handles_of t m = (if i_model i = Some m then insert h (handles_of s m) else handles_of s m)"
  "rt_instances t = (rt_instances s)(h := None) \<Longrightarrow> handles_of t m = handles_of s m - {h}"
  by (auto simp: handles_of_def)

lemma handles_of_dom: "handles_of s m \<subseteq> dom (rt_instances s)"
  by (auto simp: handles_of_def)

lemma handles_ok_finite: "handles_ok s \<Longrightarrow> finite (handles_of s m)"
  using finite_subset[OF handles_of_dom] by (simp add: handles_ok_def)

lemma handles_ok_add:
  assumes ok: "handles_ok s" and i: "rt_instances t = (rt_instances s)(h \<mapsto> i)" "rt_instances s h = None" "i_model i = Some m"
    and r: "refs t = (refs s)(m \<mapsto> int (card (handles_of s m)) + 1)"
    and c: "rt_g_ctx_ref_count t = rt_g_ctx_ref_count s + 1" "rt_g_ctx t \<noteq> None" and n: "rt_next s \<le> rt_next t" "h < rt_next t" "m < rt_next t"
  shows "handles_ok t"
proof -
  note o = ok[unfolded handles_ok_def]
  have h: "h \<notin> handles_of s m'" for m' using i(2) by (auto simp: handles_of_def)
  have fin: "finite (handles_of s m')" for m' using ok by (rule handles_ok_finite)
  have "\<forall>m' r'. refs t m' = Some r' \<longrightarrow> r' = int (card (handles_of t m')) \<and> handles_of t m' \<noteq> {}"
    using o h fin by (simp add: r handles_of_upd(1)[OF i(1,2)] i(3))
  moreover have "rt_g_ctx_ref_count t = int (card (dom (rt_instances t)))" using o i(2) by (simp add: c(1) i(1) domIff)
  moreover have "\<exists>m'. i_model i' = Some m' \<and> refs t m' \<noteq> None" if "rt_instances t h' = Some i'" for h' i'
  proof (cases "h' = h")
    case True
    with that show ?thesis using i(3) by (simp add: i(1) r)
  next
    case False
    with that o obtain m' where "i_model i' = Some m'" "refs s m' \<noteq> None" unfolding i(1) by (metis fun_upd_apply)
    then show ?thesis by (intro exI[of _ m']) (simp add: r)
  qed
  moreover have "finite (dom (rt_instances t))" using o by (simp add: i(1))
  moreover have "\<forall>k \<ge> rt_next t. refs t k = None \<and> rt_instances t k = None" using o n by (auto simp: i(1) r)
  ultimately show ?thesis unfolding handles_ok_def using c(2) by blast
qed

lemma handles_ok_remove:
  assumes ok: "handles_ok s" and i: "rt_instances t = (rt_instances s)(h := None)" "rt_instances s h = Some i" "i_model i = Some m"
    and r: "refs t = (refs s)(m := if int (card (handles_of s m)) = 1 then None else Some (int (card (handles_of s m)) - 1))"
    and c: "rt_g_ctx_ref_count t = rt_g_ctx_ref_count s - 1" "dom (rt_instances t) \<noteq> {} \<Longrightarrow> rt_g_ctx t \<noteq> None" and n: "rt_next s \<le> rt_next t"
  shows "handles_ok t"
proof -
  note o = ok[unfolded handles_ok_def]
  have fin: "finite (handles_of s m')" for m' using ok by (rule handles_ok_finite)
  have hm: "h \<in> handles_of s m'" if "m' = m" for m' using that i by (auto simp: handles_of_def)
  have hn: "h \<notin> handles_of s m'" if "m' \<noteq> m" for m' using that i by (auto simp: handles_of_def)
  have pos: "0 < card (handles_of s m)" using fin hm[OF HOL.refl] by (auto simp: card_gt_0_iff)
  have one: "card (handles_of s m) = Suc 0 \<longleftrightarrow> handles_of s m - {h} = {}"
    using hm[OF HOL.refl] by (auto simp: card_1_singleton_iff)
  have "r' = int (card (handles_of t m')) \<and> handles_of t m' \<noteq> {}" if "refs t m' = Some r'" for m' r'
  proof (cases "m' = m")
    case True
    with that one pos show ?thesis by (auto simp: r handles_of_upd(2)[OF i(1)] card_Diff_singleton[OF hm[OF HOL.refl]] split: if_splits)
  next
    case False
    with that o hn show ?thesis by (simp add: r handles_of_upd(2)[OF i(1)])
  qed
  moreover have "\<exists>m'. i_model i' = Some m' \<and> refs t m' \<noteq> None" if t: "rt_instances t h' = Some i'" for h' i'
  proof -
    have s: "rt_instances s h' = Some i'" "h' \<noteq> h" using t by (auto simp: i(1) split: if_splits)
    then obtain m' where m': "i_model i' = Some m'" "refs s m' \<noteq> None" using o by blast
    have "handles_of s m - {h} \<noteq> {}" if "m' = m" using that s m' by (auto simp: handles_of_def)
    with m' one show ?thesis by (auto simp: r)
  qed
  moreover have "rt_g_ctx_ref_count t = int (card (dom (rt_instances t)))"
  proof -
    have "h \<in> dom (rt_instances s)" using i(2) by blast
    moreover have "finite (dom (rt_instances s))" using o by blast
    ultimately have "card (dom (rt_instances s)) = Suc (card (dom (rt_instances s) - {h}))" by (simp only: card.remove)
    with o show ?thesis by (simp add: c(1) i(1))
  qed
  moreover have "finite (dom (rt_instances t))" using o by (simp add: i(1))
  moreover have "\<forall>k \<ge> rt_next t. refs t k = None \<and> rt_instances t k = None"
  proof -
    have "refs s m \<noteq> None" using o i(2,3) by (metis option.inject)
    then have "m < rt_next s" using o by (metis not_le)
    with o n show ?thesis by (auto simp: i(1) r)
  qed
  ultimately show ?thesis unfolding handles_ok_def using c(2) by blast
qed

lemma handles_ok_same: "handles_ok s \<Longrightarrow> same_handles s t \<Longrightarrow> handles_ok t"
  by (auto simp: handles_ok_def same_handles_refs handles_of_def)

lemma handles_ok_update:
  assumes ok: "handles_ok s" and i: "rt_instances s h = Some i" "i_model i' = i_model i"
    and t: "t = s\<lparr>rt_instances := (rt_instances s)(h \<mapsto> i')\<rparr>"
  shows "handles_ok t"
proof -
  have "handles_of t m = handles_of s m" for m using i by (auto simp: handles_of_def t)
  moreover have "refs t = refs s" by (simp add: refs_def t)
  moreover have "dom (rt_instances t) = dom (rt_instances s)" using i(1) by (auto simp: t)
  ultimately show ?thesis using ok i by (auto simp: handles_ok_def t)
qed

lemma ModelInstance_new_effect:
  assumes "ModelInstance_new (Some m) s = Inr (p, t)"
  shows "\<exists>i. p = Some (rt_next s) \<and> i_model i = Some m \<and> rt_models s m \<noteq> None \<and>
    t = s\<lparr>rt_next := rt_next s + 1, rt_instances := (rt_instances s)(rt_next s \<mapsto> i)\<rparr>"
proof -
  obtain x where x: "rt_models s m = Some x" "(Some (rt_next s), s\<lparr>rt_next := rt_next s + 1, rt_instances := (rt_instances s)(rt_next s \<mapsto>
       \<lparr>i_model = Some m, i_program = None, i_inputs = None, i_outputs = None, i_input_num = 0, i_output_num = 0,
        i_program_id = 0, i_program_num = m_program_num x, i_output_all_tensors = False, i_skip_preprocess = False\<rparr>)\<rparr>) = (p, t)"
    using assms unfolding ModelInstance_new_def deref_bind_Inr by blast
  show ?thesis
    by (rule exI[of _ "\<lparr>i_model = Some m, i_program = None, i_inputs = None, i_outputs = None, i_input_num = 0, i_output_num = 0,
        i_program_id = 0, i_program_num = m_program_num x, i_output_all_tensors = False, i_skip_preprocess = False\<rparr>"])
       (use x in simp)
qed

lemma init_context_effect:
  assumes "init_context R st s = Inr (u, t)"
  shows "rt_g_ctx t \<noteq> None \<and> rt_instances t = rt_instances s \<and> rt_g_ctx_ref_count t = rt_g_ctx_ref_count s \<and>
    rt_next s \<le> rt_next t \<and> refs t = refs s"
proof (cases "rt_g_ctx s")
  case (Some g)
  with assms show ?thesis by (auto simp: init_context_def dbind_Inr dm_basic_Inr)
next
  case None
  with assms obtain g v where v: "dthen (setChipTypeForCmodel R st) (Init R) s = Inr (g, v)" "t = v\<lparr>rt_g_ctx := g\<rparr>"
    by (auto simp: init_context_def dbind_Inr dthen_Inr dm_basic_Inr)
  have "keeps_h (\<lambda>_. True) (dthen (setChipTypeForCmodel R st) (Init R))"
    unfolding setChipTypeForCmodel_def by (rule frame_intro)+
  from keepsD[OF this v(1)] have "same_handles s v" .
  moreover have "g \<noteq> None" using v(1)
    by (auto simp: dthen_Inr Init_def device_init_def on_dev_Inr dbind_Inr dm_basic_Inr bind_device_def split: prod.splits)
  ultimately show ?thesis by (auto simp: same_handles_refs refs_def v(2))
qed

lemma register_effect:
  assumes "register_with R st acq s = Inr ((rc, p), t)" "\<And>m. keeps_h (\<lambda>_. True) (acq m)" "handles_ok s"
    "card (dom (rt_instances s)) < 2147483647"
  shows "handles_ok t \<and> card (dom (rt_instances t)) \<le> Suc (card (dom (rt_instances s)))"
proof -
  obtain u v g n m w x where u: "init_context R st s = Inr (u, v)"
    and x: "CviModel_new R g n (v\<lparr>rt_g_model_count := to_s32 (n + 1)\<rparr>) = Inr (m, w)" "acq m w = Inr (rc, x)"
    and t: "(if rc \<noteq> CVI_RC_SUCCESS then dthen (release R m) (dret (rc, None))
     else dbind (ModelInstance_new m) (\<lambda>i.
       dthen (dmodify (\<lambda>s. s\<lparr>rt_g_ctx_ref_count := to_s32 (rt_g_ctx_ref_count s + 1)\<rparr>))
       (dret (CVI_RC_SUCCESS, i)))) x = Inr ((rc, p), t)"
    using assms(1) unfolding register_with_def
    by (auto simp: dthen_Inr dbind_Inr dm_basic_Inr split: if_splits)
  note v = init_context_effect[OF u]
  let ?m = "rt_next v"
  have ok: "refs s ?m = None" "rt_instances s ?m = None" using assms(3) v by (auto simp: handles_ok_def)
  have w: "m = Some ?m" "rt_instances w = rt_instances s" "rt_g_ctx w \<noteq> None" "rt_g_ctx_ref_count w = rt_g_ctx_ref_count s"
    "rt_next w = Suc ?m" "refs w = (refs s)(?m \<mapsto> 1)"
    using x(1) v by (auto simp: CviModel_new_def new_model_def refs_def fun_eq_iff)
  have x': "rt_instances x = rt_instances s" "rt_g_ctx x \<noteq> None" "rt_g_ctx_ref_count x = rt_g_ctx_ref_count s"
    "rt_next w \<le> rt_next x" "refs x = (refs s)(?m \<mapsto> 1)"
    using keepsD[OF assms(2) x(2)] w by (auto simp: same_handles_refs)
  show ?thesis
  proof (cases "rc = CVI_RC_SUCCESS")
    case False
    with t w(1) obtain y where y: "release R (Some ?m) x = Inr (y, t)" by (auto simp: dthen_Inr dm_basic_Inr)
    obtain r where "refs x ?m = Some r" "rt_instances t = rt_instances x" "rt_g_ctx t = rt_g_ctx x" "rt_g_ctx_ref_count t = rt_g_ctx_ref_count x"
      "rt_next x \<le> rt_next t" "refs t = (refs x)(?m := if to_s32 (r - 1) = 0 then None else Some (to_s32 (r - 1)))"
      using release_effect[OF y] by blast
    moreover from this have "refs t = refs s" using x'(5) ok(1) by (auto simp: to_s32_id fun_eq_iff)
    ultimately show ?thesis using assms(3) x' w(5) v by (auto simp: handles_ok_def handles_of_def)
  next
    case True
    with t w(1) obtain h y where y: "ModelInstance_new (Some ?m) x = Inr (h, y)"
      "t = y\<lparr>rt_g_ctx_ref_count := to_s32 (rt_g_ctx_ref_count y + 1)\<rparr>"
      by (auto simp: dthen_Inr dbind_Inr dm_basic_Inr)
    from y(1) obtain i where i: "i_model i = Some ?m" "y = x\<lparr>rt_next := rt_next x + 1, rt_instances := (rt_instances x)(rt_next x \<mapsto> i)\<rparr>"
      using ModelInstance_new_effect by blast
    have h: "handles_of s ?m = {}" using assms(3) ok(1) by (fastforce simp: handles_ok_def handles_of_def)
    have "handles_ok t"
    proof (rule handles_ok_add[OF assms(3)])
      show "rt_instances t = (rt_instances s)(rt_next x \<mapsto> i)" by (simp add: y(2) i(2) x'(1))
      show "rt_instances s (rt_next x) = None" using assms(3) v w(5) x'(4) by (simp add: handles_ok_def)
      show "refs t = (refs s)(?m \<mapsto> int (card (handles_of s ?m)) + 1)" using x'(5) by (simp add: y(2) i(2) h refs_def)
      show "rt_g_ctx_ref_count t = rt_g_ctx_ref_count s + 1"
        using assms(3,4) x'(3) by (simp add: y(2) i(2) handles_ok_def to_s32_id)
    qed (use i x' w(5) v y(2) in auto)
    moreover have "card (dom (rt_instances t)) \<le> Suc (card (dom (rt_instances s)))"
      by (simp add: y(2) i(2) x'(1) card_insert_le_m1)
    ultimately show ?thesis by blast
  qed
qed

lemma clone_effect:
  assumes "CVI_NN_CloneModel h s = Inr (x, t)" "handles_ok s" "card (dom (rt_instances s)) < 2147483647"
  shows "handles_ok t \<and> card (dom (rt_instances t)) \<le> Suc (card (dom (rt_instances s)))"
proof -
  let ?u = "s\<lparr>rt_g_ctx_ref_count := to_s32 (rt_g_ctx_ref_count s + 1)\<rparr>"
  obtain k i c v y w where i: "h = Some k" "rt_instances s k = Some i" "ModelInstance_new (i_model i) ?u = Inr (c, v)"
    "refer (i_model i) v = Inr (y, w)" "t = w"
    using assms(1) by (auto simp: CVI_NN_CloneModel_def dthen_Inr dbind_Inr dm_basic_Inr)
  have ok: "\<exists>m. i_model i = Some m \<and> refs s m \<noteq> None" using assms(2) i(2) by (auto simp: handles_ok_def)
  then obtain m where m: "i_model i = Some m" "refs s m = Some (int (card (handles_of s m)))"
    using assms(2) unfolding handles_ok_def by (metis not_None_eq)
  obtain j where j: "i_model j = Some m" "v = ?u\<lparr>rt_next := rt_next ?u + 1, rt_instances := (rt_instances ?u)(rt_next ?u \<mapsto> j)\<rparr>"
    using ModelInstance_new_effect[OF i(3)[unfolded m(1)]] by blast
  obtain z where z: "rt_models v m = Some z" "t = v\<lparr>rt_models := (rt_models v)(m \<mapsto> z\<lparr>m_ref := to_s32 (m_ref z + 1)\<rparr>)\<rparr>"
    using i(4,5) m(1) by (auto simp: refer_def set_model_def deref_bind_Inr dm_basic_Inr)
  have "card (handles_of s m) \<le> card (dom (rt_instances s))"
    using assms(2) handles_of_dom by (intro card_mono) (auto simp: handles_ok_def)
  moreover have "m_ref z = int (card (handles_of s m))" using z(1) m(2) by (simp add: j(2) refs_def)
  ultimately have r: "to_s32 (m_ref z + 1) = int (card (handles_of s m)) + 1" using assms(3) by (simp add: to_s32_id)
  have "m < rt_next s" using assms(2) m(2) unfolding handles_ok_def by (metis not_le option.distinct(1))
  moreover have "rt_instances s (rt_next s) = None" using assms(2) by (simp add: handles_ok_def)
  moreover have "to_s32 (rt_g_ctx_ref_count s + 1) = rt_g_ctx_ref_count s + 1" using assms(2,3) by (simp add: handles_ok_def to_s32_id)
  moreover have "rt_g_ctx s \<noteq> None" using assms(2) i(2) unfolding handles_ok_def by blast
  ultimately have "handles_ok t"
    by (intro handles_ok_add[OF assms(2), of t "rt_next s" j m]) (auto simp: z(2) j r refs_def fun_eq_iff)
  moreover have "card (dom (rt_instances t)) \<le> Suc (card (dom (rt_instances s)))" by (simp add: z(2) j(2) card_insert_le_m1)
  ultimately show ?thesis by blast
qed

lemma destroy_instance_effect:
  assumes "ModelInstance_destroy R (Some h) s = Inr (x, t)"
  shows "\<exists>i u. rt_instances s h = Some i \<and> same_handles s u \<and>
    dthen (release R (i_model i)) (dmodify (\<lambda>s. s\<lparr>rt_instances := (rt_instances s)(h := None)\<rparr>)) u = Inr (x, t)"
proof -
  obtain i y u where i: "rt_instances s h = Some i" "(if i_program i \<noteq> None then Program_destroy R (i_program i) else dret ()) s = Inr (y, u)"
    "dthen (release R (i_model i)) (dmodify (\<lambda>s. s\<lparr>rt_instances := (rt_instances s)(h := None)\<rparr>)) u = Inr (x, t)"
    using assms unfolding ModelInstance_destroy_def deref_bind_Inr dthen_Inr[of "if _ then _ else _"] option.sel by blast
  have "keeps_h (\<lambda>_. True) (if i_program i \<noteq> None then Program_destroy R (i_program i) else dret ())" by (rule frame_intro)+
  from keepsD[OF this i(2)] i show ?thesis by blast
qed

lemma cleanup_effect:
  assumes "CVI_NN_CleanupModel R (Some h) s = Inr (x, t)" "handles_ok s" "card (dom (rt_instances s)) < 2147483647"
  shows "handles_ok t \<and> rt_instances t = (rt_instances s)(h := None) \<and> (dom (rt_instances t) = {} \<longrightarrow> rt_g_ctx t = None)"
proof -
  obtain d v where v: "ModelInstance_destroy R (Some h) s = Inr (d, v)"
    and w: "(if to_s32 (rt_g_ctx_ref_count v - 1) = 0 then dthen (DeInit R (rt_g_ctx v)) (dthen (dmodify (\<lambda>s. s\<lparr>rt_g_ctx := None\<rparr>)) (dret CVI_RC_SUCCESS))
      else dret CVI_RC_SUCCESS) (v\<lparr>rt_g_ctx_ref_count := to_s32 (rt_g_ctx_ref_count v - 1)\<rparr>) = Inr (x, t)"
    using assms(1) unfolding CVI_NN_CleanupModel_def by (auto simp: dthen_Inr[of "ModelInstance_destroy _ _"] dthen_Inr[of "dmodify (\<lambda>s. s\<lparr>rt_g_ctx_ref_count := _ s\<rparr>)"] dbind_Inr dm_basic_Inr cong: if_cong)
  obtain i u where i: "rt_instances s h = Some i" "same_handles s u"
    "dthen (release R (i_model i)) (dmodify (\<lambda>s. s\<lparr>rt_instances := (rt_instances s)(h := None)\<rparr>)) u = Inr (d, v)"
    using destroy_instance_effect[OF v] by blast
  obtain m where m: "i_model i = Some m" "refs s m \<noteq> None" using assms(2) i(1) unfolding handles_ok_def by blast
  obtain y z where z: "release R (Some m) u = Inr (y, z)" "v = z\<lparr>rt_instances := (rt_instances z)(h := None)\<rparr>"
    using i(3) m(1) by (auto simp: dthen_Inr dm_basic_Inr)
  let ?n = "int (card (handles_of s m))"
  have c: "refs s m = Some ?n" using assms(2) m(2) unfolding handles_ok_def by (metis not_None_eq)
  have b: "card (handles_of s m) \<le> card (dom (rt_instances s))"
    using assms(2) handles_of_dom by (intro card_mono) (auto simp: handles_ok_def)
  have rz: "rt_instances z = rt_instances s" "rt_g_ctx z = rt_g_ctx s" "rt_g_ctx_ref_count z = rt_g_ctx_ref_count s" "rt_next s \<le> rt_next z"
    "refs z = (refs s)(m := if ?n = 1 then None else Some (?n - 1))"
    using release_effect[OF z(1)] i(2) c b assms(3) by (auto simp: same_handles_refs to_s32_id fun_eq_iff)
  have dv: "dom (rt_instances v) = dom (rt_instances s) - {h}" by (simp add: z(2) rz(1))
  have cs: "to_s32 (rt_g_ctx_ref_count v - 1) = rt_g_ctx_ref_count s - 1"
    using assms(2,3) rz(3) by (simp add: z(2) handles_ok_def to_s32_id)
  have e: "rt_g_ctx_ref_count s - 1 = 0 \<longleftrightarrow> dom (rt_instances v) = {}"
  proof -
    have "finite (dom (rt_instances s))" "h \<in> dom (rt_instances s)" using assms(2) i(1) by (auto simp: handles_ok_def)
    then have "card (dom (rt_instances s)) = Suc (card (dom (rt_instances v)))" "finite (dom (rt_instances v))"
      unfolding dv by (simp_all only: card.remove finite_Diff)
    with assms(2) show ?thesis by (simp add: handles_ok_def)
  qed
  have t: "rt_instances t = rt_instances v" "refs t = refs v" "rt_next t = rt_next v" "rt_g_ctx_ref_count t = rt_g_ctx_ref_count s - 1"
    "rt_g_ctx t = (if dom (rt_instances v) = {} then None else rt_g_ctx s)"
    using w unfolding cs e
    by (auto simp: dthen_Inr DeInit_def on_dev_Inr dm_basic_Inr refs_def z(2) rz(2) split: if_splits)
  have "handles_ok t"
  proof (rule handles_ok_remove[OF assms(2) _ i(1) m(1)])
    show "rt_instances t = (rt_instances s)(h := None)" by (simp add: t(1) z(2) rz(1))
    show "refs t = (refs s)(m := if ?n = 1 then None else Some (?n - 1))" proof -
      have "refs v = refs z" by (simp add: z(2) refs_def)
      then show ?thesis by (simp only: t(2) rz(5))
    qed
    show "dom (rt_instances t) \<noteq> {} \<Longrightarrow> rt_g_ctx t \<noteq> None" using assms(2) i(1) by (auto simp: t(1,5) handles_ok_def)
  qed (use t z rz in auto)
  then show ?thesis using t by (simp add: z(2) rz(1))
qed

lemma config_effect:
  assumes "CVI_NN_SetConfig h opt s = Inr (x, t)" "handles_ok s"
  shows "handles_ok t \<and> dom (rt_instances t) = dom (rt_instances s)"
proof -
  obtain k i j where i: "h = Some k" "rt_instances s k = Some i" "apply_option opt i = Inr j"
    "t = s\<lparr>rt_instances := (rt_instances s)(k \<mapsto> j)\<rparr>"
    using assms(1) by (auto simp: CVI_NN_SetConfig_def set_instance_def dthen_Inr dbind_Inr dm_basic_Inr to_rtm_Inr)
  have "i_model j = i_model i" using i(3) by (cases opt) (auto split: if_splits)
  with i show ?thesis using handles_ok_update[OF assms(2) i(2) _ i(4)] by auto
qed

lemma same_handles_instance: "same_handles s t \<Longrightarrow> rt_instances t = rt_instances s"
  by (simp add: same_handles_def)

lemma instance_step:
  assumes "set_instance (Some k) j s = Inr (x, t)" "handles_ok s" "rt_instances s k = Some i" "i_model j = i_model i"
  shows "handles_ok t \<and> dom (rt_instances t) = dom (rt_instances s)"
proof -
  have "t = s\<lparr>rt_instances := (rt_instances s)(k \<mapsto> j)\<rparr>" using assms(1) by (simp add: set_instance_def dm_basic_Inr)
  with handles_ok_update[OF assms(2-4) this] assms(3) show ?thesis by auto
qed

lemma load_instance_effect:
  assumes "load_instance R h s = Inr (x, t)" "handles_ok s"
  shows "handles_ok t \<and> dom (rt_instances t) = dom (rt_instances s)"
proof -
  obtain k i where i: "h = Some k" "rt_instances s k = Some i"
    using assms(1) by (auto simp: load_instance_def deref_bind_Inr)
  show ?thesis
  proof (cases "i_program i")
    case (Some p)
    with assms i show ?thesis by (auto simp: load_instance_def deref_bind_Inr dm_basic_Inr)
  next
    case None
    with assms(1) i obtain rc p u y v where u: "loadProgram R (i_model i) (i_program_id i) (i_output_all_tensors i) (i_skip_preprocess i) s = Inr ((rc, p), u)"
      "set_instance (Some k) (i\<lparr>i_program := p\<rparr>) u = Inr (y, v)" "t = v"
      by (auto simp: load_instance_def deref_bind_Inr dbind_Inr dthen_Inr dm_basic_Inr)
    have su: "same_handles s u" by (rule keepsD[OF keeps_loadProgram u(1)])
    have "handles_ok v \<and> dom (rt_instances v) = dom (rt_instances u)"
      by (rule instance_step[OF u(2) handles_ok_same[OF assms(2) su]]) (use same_handles_instance[OF su] i(2) in auto)
    with same_handles_instance[OF su] u(3) show ?thesis by simp
  qed
qed

lemma export_effect:
  assumes "export_inputs h s = Inr (x, t) \<or> export_outputs h s = Inr (x, t)" "handles_ok s"
  shows "handles_ok t \<and> dom (rt_instances t) = dom (rt_instances s)"
proof -
  obtain k i where i: "h = Some k" "rt_instances s k = Some i"
    using assms(1) by (auto simp: export_inputs_def export_outputs_def deref_bind_Inr)
  have "t = s \<or> (\<exists>u j. same_handles s u \<and> set_instance (Some k) j u = Inr (x, t) \<and> i_model j = i_model i)"
    using assms(1) i by (auto simp: export_inputs_def export_outputs_def deref_bind_Inr dbind_Inr dm_basic_Inr split: if_splits)
      (force dest: keepsD[OF keeps_export(1)] keepsD[OF keeps_export(2)])+
  then show ?thesis
  proof (elim disjE exE conjE)
    fix u j assume u: "same_handles s u" "set_instance (Some k) j u = Inr (x, t)" "i_model j = i_model i"
    have "handles_ok t \<and> dom (rt_instances t) = dom (rt_instances u)"
      by (rule instance_step[OF u(2) handles_ok_same[OF assms(2) u(1)] _ u(3)]) (use same_handles_instance[OF u(1)] i(2) in simp)
    with same_handles_instance[OF u(1)] show ?thesis by simp
  qed (use assms(2) in simp)
qed

lemma tensors_effect:
  assumes "CVI_NN_GetInputOutputTensors R h s = Inr (x, t)" "handles_ok s"
  shows "handles_ok t \<and> dom (rt_instances t) = dom (rt_instances s)"
proof -
  obtain ret u where u: "load_instance R h s = Inr (ret, u)" and
    t: "(if ret \<noteq> CVI_RC_SUCCESS then dret (ret, None)
     else dthen (export_inputs h) (dthen (export_outputs h) (dbind (deref rt_instances h) (\<lambda>i.
       dret (CVI_RC_SUCCESS, Some (the (i_inputs i), the (i_outputs i))))))) u = Inr (x, t)"
    using assms(1) by (auto simp: CVI_NN_GetInputOutputTensors_def dbind_Inr[of "load_instance _ _"])
  note 1 = load_instance_effect[OF u assms(2)]
  show ?thesis
  proof (cases "ret = CVI_RC_SUCCESS")
    case True
    with t obtain y v z w where v: "export_inputs h u = Inr (y, v)" "export_outputs h v = Inr (z, w)" "t = w"
      by (auto simp: dthen_Inr dbind_Inr dm_basic_Inr)
    note 2 = export_effect[OF disjI1[OF v(1)]] and 3 = export_effect[OF disjI2[OF v(2)]]
    from 1 2 3 v(3) show ?thesis by simp
  qed (use 1 t in \<open>auto simp: dm_basic_Inr\<close>)
qed

section \<open>Histories\<close>

text \<open>What a caller does with handles: any of the registrations, and the operations on a handle.\<close>

datatype handle_op = Register_file "byte list option" | Register_fd "byte list" u64 | Register_buffer "byte list" u64
  | Clone nat | Config nat config_option | Tensors nat | Cleanup nat

fun run_handle :: "rtenv \<Rightarrow> handle_op \<Rightarrow> unit rtm" where
  "run_handle R (Register_file f) = dthen (CVI_NN_RegisterModel R f) (dret ())"
| "run_handle R (Register_fd d off) = dthen (CVI_NN_RegisterModelFromFd R d off) (dret ())"
| "run_handle R (Register_buffer b sz) = dthen (CVI_NN_RegisterModelFromBuffer R b sz) (dret ())"
| "run_handle R (Clone h) = dthen (CVI_NN_CloneModel (Some h)) (dret ())"
| "run_handle R (Config h v) = dthen (CVI_NN_SetConfig (Some h) v) (dret ())"
| "run_handle R (Tensors h) = dthen (CVI_NN_GetInputOutputTensors R (Some h)) (dret ())"
| "run_handle R (Cleanup h) = dthen (CVI_NN_CleanupModel R (Some h)) (dret ())"

lemma run_handle_effect:
  assumes "run_handle R a s = Inr (u, t)" "handles_ok s" "card (dom (rt_instances s)) < 2147483647"
  shows "handles_ok t \<and> card (dom (rt_instances t)) \<le> Suc (card (dom (rt_instances s)))"
proof (cases a)
  case (Register_file f)
  with assms(1) show ?thesis
    by (auto simp: dthen_Inr dm_basic_Inr CVI_NN_RegisterModel_def Let_def dest!: register_effect[OF _ keeps_acquire(1) assms(2,3)])
next
  case (Register_fd d off)
  with assms(1) show ?thesis
    by (auto simp: dthen_Inr dm_basic_Inr CVI_NN_RegisterModelFromFd_def Let_def dest!: register_effect[OF _ keeps_acquire(3) assms(2,3)])
next
  case (Register_buffer b sz)
  with assms(1) show ?thesis
    by (auto simp: dthen_Inr dm_basic_Inr CVI_NN_RegisterModelFromBuffer_def Let_def dest!: register_effect[OF _ keeps_acquire(2) assms(2,3)])
next
  case (Clone h)
  with assms(1) show ?thesis by (auto simp: dthen_Inr dm_basic_Inr dest!: clone_effect[OF _ assms(2,3)])
next
  case (Config h v)
  with assms(1) show ?thesis by (auto simp: dthen_Inr dm_basic_Inr dest!: config_effect[OF _ assms(2)])
next
  case (Tensors h)
  with assms(1) show ?thesis by (auto simp: dthen_Inr dm_basic_Inr dest!: tensors_effect[OF _ assms(2)])
next
  case (Cleanup h)
  with assms(1) obtain x where x: "CVI_NN_CleanupModel R (Some h) s = Inr (x, t)" by (auto simp: dthen_Inr dm_basic_Inr)
  have "card (dom (rt_instances s) - {h}) \<le> Suc (card (dom (rt_instances s)))"
    using assms(2) by (meson card_Diff_subset card_mono Diff_subset handles_ok_def le_SucI)
  with cleanup_effect[OF x assms(2,3)] show ?thesis by simp
qed

lemma run_handles_effect:
  assumes "for_each (run_handle R) ops s = Inr (u, t)" "handles_ok s" "card (dom (rt_instances s)) + length ops < 2147483648"
  shows "handles_ok t"
  using assms
proof (induction ops arbitrary: s)
  case (Cons a ops)
  then obtain v where v: "run_handle R a s = Inr ((), v)" "for_each (run_handle R) ops v = Inr (u, t)" by (auto simp: dthen_Inr)
  with run_handle_effect[OF v(1)] Cons show ?case by auto
qed (auto simp: dm_basic_Inr)

text \<open>
  C1: the life of models: after any history of registrations (from a file, a descriptor or memory,
  successful or not), clones, options, exports of tensors and cleanups of handles, a model is alive
  exactly when some handle refers to it, its reference count is the number of those handles, and the
  count of the context is the number of all handles, with the context open as long as there is one.
\<close>

theorem model_lifetime:
  assumes "for_each (run_handle R) ops s = Inr (u, t)" "handles_ok s" "card (dom (rt_instances s)) + length ops < 2147483648"
  shows "(\<forall>m. (rt_models t m \<noteq> None \<longleftrightarrow> handles_of t m \<noteq> {}) \<and>
      (\<forall>x. rt_models t m = Some x \<longrightarrow> m_ref x = int (card (handles_of t m)))) \<and>
    rt_g_ctx_ref_count t = int (card (dom (rt_instances t))) \<and> (dom (rt_instances t) \<noteq> {} \<longrightarrow> rt_g_ctx t \<noteq> None)"
proof -
  have ok: "handles_ok t" using assms by (rule run_handles_effect)
  have "rt_models t m \<noteq> None \<longleftrightarrow> handles_of t m \<noteq> {}" for m
  proof
    assume "rt_models t m \<noteq> None"
    with ok show "handles_of t m \<noteq> {}" by (auto simp: handles_ok_def refs_def)
  next
    assume "handles_of t m \<noteq> {}"
    with ok show "rt_models t m \<noteq> None" by (fastforce simp: handles_ok_def refs_def handles_of_def)
  qed
  moreover have "m_ref x = int (card (handles_of t m))" if "rt_models t m = Some x" for m x
    using ok that by (auto simp: handles_ok_def refs_def)
  moreover have "rt_g_ctx_ref_count t = int (card (dom (rt_instances t)))" "dom (rt_instances t) \<noteq> {} \<longrightarrow> rt_g_ctx t \<noteq> None"
    using ok by (auto simp: handles_ok_def)
  ultimately show ?thesis by blast
qed

definition demo_shared_model :: cvi_model where
  "demo_shared_model = \<lparr>m_program_num = 1, m_major_ver = 1, m_minor_ver = 4, m_ctx = Some 2, m_ref = 1,
     m_fb_model = None, m_weight_mem = None, m_cpu_functions = [], m_weight_map = [], m_dmabuf_map = [], m_isprotect = False,
     m_count = 0, m_model_name = ''m:0'', m_max_shared_mem_size = 0\<rparr>"

definition demo_handles :: rt where
  "demo_handles = demo_rt\<lparr>rt_models := [3 \<mapsto> demo_shared_model], rt_instances := [5 \<mapsto>
       \<lparr>i_model = Some 3, i_program = None, i_inputs = None, i_outputs = None, i_input_num = 0, i_output_num = 0,
        i_program_id = 0, i_program_num = 1, i_output_all_tensors = False, i_skip_preprocess = False\<rparr>],
     rt_next := 6, rt_g_ctx := Some 2, rt_g_ctx_ref_count := 1\<rparr>"

theorem model_lifetime_witness:
  "\<exists>t. for_each (run_handle demo_rtenv) [Clone 5, Config 6 (OPTION_PROGRAM_INDEX 0), Cleanup 5] demo_handles = Inr ((), t) \<and>
     handles_of t 3 = {6} \<and> (\<exists>x. rt_models t 3 = Some x \<and> m_ref x = 1)"
proof -
  obtain t where t: "for_each (run_handle demo_rtenv) [Clone 5, Config 6 (OPTION_PROGRAM_INDEX 0), Cleanup 5] demo_handles = Inr ((), t)"
    and h: "handles_of t 3 = {6}"
    by (simp add: demo_handles_def demo_shared_model_def CVI_NN_CloneModel_def CVI_NN_SetConfig_def CVI_NN_CleanupModel_def ModelInstance_new_def
        ModelInstance_destroy_def refer_def release_def set_instance_def set_model_def to_rtm_def to_s32_def Let_def sm_run handles_of_def)
  have ok: "handles_ok demo_handles"
    by (auto simp: handles_ok_def handles_of_def refs_def demo_handles_def demo_shared_model_def)
  have "card (dom (rt_instances demo_handles)) + length [Clone 5, Config 6 (OPTION_PROGRAM_INDEX 0), Cleanup 5] < 2147483648"
    by (simp add: demo_handles_def)
  from model_lifetime[OF t ok this] h have "rt_models t 3 \<noteq> None" "\<And>x. rt_models t 3 = Some x \<Longrightarrow> m_ref x = 1" by auto
  with t h show ?thesis by blast
qed

text \<open>
  A cleanup of a null handle counts: when one handle is left, cleaning up null closes the
  device context and reports success while the handle and its model are still there.
\<close>

lemma cleanup_null_closes_context:
  assumes "CVI_NN_CleanupModel R None s = Inr (rc, t)" "rt_g_ctx_ref_count s = 1"
  shows "rc = CVI_RC_SUCCESS \<and> rt_g_ctx t = None \<and> rt_instances t = rt_instances s \<and> rt_models t = rt_models s"
  using assms by (auto simp: CVI_NN_CleanupModel_def DeInit_def dthen_Inr dbind_Inr dm_basic_Inr on_dev_Inr to_s32_id)

end
