(* ===== verification/TensorNames.thy ===== *)
theory TensorNames
  imports Runtime
begin

text \<open>
  Tensor descriptions (\<^verbatim>\<open>exportInputs\<close> in \<^verbatim>\<open>program.cpp\<close>) and their lookup by name (\<^verbatim>\<open>CVI_NN_GetTensorByName\<close> in
  \<^verbatim>\<open>runtime.cpp\<close>).
\<close>

text \<open>What the description of a tensor says of it.\<close>

definition describes :: "ptr \<Rightarrow> cvi_tensor \<Rightarrow> neuron \<Rightarrow> bool" where
  "describes self d n \<longleftrightarrow> t_name d = n_name n \<and> t_mem_size d = n_size n \<and> t_count d = n_count n \<and> t_fmt d = n_fmt n \<and>
     t_paddr d = n_paddr n \<and> t_sys_mem d = sys_mem n \<and> t_mem_type d = CVI_MEM_SYSTEM \<and> t_owner d = self \<and>
     length (t_mean d) \<le> 3 \<and> length (t_scale d) \<le> 3"

lemma export_list_describes:
  assumes "export_list self ns s = Inr (ts, t)"
  shows "t = s \<and> list_all2 (\<lambda>d x. \<exists>n. x \<noteq> None \<and> rt_neurons s (the x) = Some n \<and> describes self d n) ts ns"
  using assms
proof (induction ns arbitrary: ts)
  case Nil
  then show ?case by (simp add: dm_basic_Inr)
next
  case (Cons x ns)
  then obtain d ts' u where d: "exportTensorInfo self x s = Inr (d, u)" "export_list self ns u = Inr (ts', t)" "ts = d # ts'"
    by (auto simp: dbind_Inr dm_basic_Inr)
  from d(1) have "u = s" "\<exists>n. x \<noteq> None \<and> rt_neurons s (the x) = Some n \<and> describes self d n"
    by (auto simp: exportTensorInfo_def deref_bind_Inr dm_basic_Inr describes_def not_less split: if_splits)
  with Cons.IH[of ts'] d(2,3) show ?case by simp
qed

text \<open>
  C31: exported tensors are well formed and are found by name: exporting the inputs of a program gives
  one description per input, in order, of system memory and owned by the program, and
  when the names differ and do not end in a star, looking up the name of a description returns it.
\<close>

theorem exported_tensor_by_name:
  assumes "exportInputs self s = Inr (ts, t)" "rt_programs s (the self) = Some p" "k < length ts"
    "distinct (map t_name ts)" "t_name (ts ! k) \<noteq> []" "last (t_name (ts ! k)) \<noteq> CHR ''*''"
  shows "t = s \<and> length ts = length (p_in_tensors p) \<and>
    (\<exists>n. rt_neurons s (the (p_in_tensors p ! k)) = Some n \<and> describes self (ts ! k) n) \<and>
    CVI_NN_GetTensorByName (Some (t_name (ts ! k))) ts = Inr (Some k)"
proof -
  have "export_list self (p_in_tensors p) s = Inr (ts, t)"
    using assms(1,2) by (auto simp: exportInputs_def deref_bind_Inr)
  note e = export_list_describes[OF this]
  let ?nm = "t_name (ts ! k)"
  have "?nm ! (length ?nm - 1) \<noteq> CHR ''*''" using assms(5,6) by (simp add: last_conv_nth)
  then have "CVI_NN_GetTensorByName (Some ?nm) ts = Inr (find_index (\<lambda>d. t_name d = ?nm) ts)"
    using assms(5) by (simp add: CVI_NN_GetTensorByName_def Let_def)
  moreover have "find_index (\<lambda>d. t_name d = ?nm) ts = Some k"
    using assms(3,4) by (intro find_index_eqI) (auto simp: distinct_conv_nth)
  ultimately show ?thesis using e assms(3) by (auto simp: list_all2_conv_all_nth)
qed

definition demo_export :: rt where
  "demo_export = demo_rt\<lparr>rt_neurons := [4 \<mapsto> demo_neuron], rt_programs := [8 \<mapsto>
     \<lparr>p_in_tensors = [Some 4], p_out_tensors = [], p_neuron_map = [(''x'', Some 4)], p_weight_map = [], p_dmabuf_map = [],
      p_cpu_functions = [], p_bases = None, p_ctx = Some 2, p_cvk = None, p_export_all_tensors = False, p_skip_preprocess = False,
      p_private_mem = None, p_shared_mem = None, p_routines = [], p_model_name = ''m'', p_max_shared_mem_size = 0\<rparr>]\<rparr>"

theorem exported_tensor_by_name_witness:
  "\<exists>ts. exportInputs (Some 8) demo_export = Inr (ts, demo_export) \<and> CVI_NN_GetTensorByName (Some ''x'') ts = Inr (Some 0)"
proof -
  obtain ts p where ts: "exportInputs (Some 8) demo_export = Inr (ts, demo_export)" "length ts = 1" "t_name (ts ! 0) = ''x''"
    and p: "rt_programs demo_export (the (Some 8)) = Some p"
    by (simp add: exportInputs_def exportTensorInfo_def demo_export_def demo_neuron_def sm_run)
  have "distinct (map t_name ts)" using ts(2) by (cases ts) auto
  with exported_tensor_by_name[OF ts(1) p, of 0] ts show ?thesis by auto
qed

text \<open>
  A null name returns the only tensor when there is one, and nothing when there are several, unlike
  the header, which promises the first.
\<close>

lemma default_tensor_only_when_single:
  "CVI_NN_GetTensorByName None ts = Inr (if length ts = 1 then Some 0 else None)"
  by (simp add: CVI_NN_GetTensorByName_def)

end
