(* ===== verification/KernelFunc.thy ===== *)
theory KernelFunc
  imports CviRt "HOL-Library.Signed_Division"
begin

text \<open>
  The hand-written kernels (\<^verbatim>\<open>src/common/kernel_function\<close>): matrix multiplication, background light of a gray image
  and Euclidean distances.  A kernel chooses the size of a tile that fits the local memory of the
  TPU, walks over its operands tile by tile and emits instructions of the kernel library, which are
  loaded as a command buffer.

  The kernel library is not part of the sources.  Its sizes, shapes, strides and the encoding of
  an instruction are fields of a parameter; an instruction is what the code passes to the library.
\<close>

section \<open>Instructions\<close>

record ml_shape =
  ms_n :: u32
  ms_c :: u32
  ms_w :: u32
  ms_col :: u32

record cvk_ml =
  ml_start :: u32
  ml_fmt :: cvk_fmt
  ml_shape_of :: ml_shape
  ml_stride :: "nat list"

record cvk_mg =
  mg_base_reg :: nat
  mg_start :: u64
  mg_shape :: "u32 \<times> u32"
  mg_stride_row :: u32

record cvk_tl =
  tl_start :: u32
  tl_fmt :: cvk_fmt
  tl_shape :: "nat list"
  tl_stride :: "nat list"

text \<open>Constant operands are numbers; \<open>None\<close> is an operand that is left null.\<close>

datatype instr =
    G2LMatrix cvk_mg cvk_ml
  | L2GMatrix cvk_ml cvk_mg
  | MatMul cvk_ml cvk_ml cvk_ml nat
  | G2LTensor cvk_tg cvk_tl
  | L2GTensor cvk_tl cvk_tg
  | G2LBf16 cvk_tg cvk_tl
  | L2GBf16 cvk_tl cvk_tg
  | TiuCopy cvk_tl cvk_tl
  | MaxPool cvk_tl cvk_tl int int int int int int int int
  | TiuGe cvk_tl cvk_tl cvk_tl
  | TiuMulConst cvk_tl cvk_tl cvk_tl int
  | TiuXor cvk_tl cvk_tl cvk_tl
  | TiuSub "cvk_tl option" cvk_tl "cvk_tl option" cvk_tl "cvk_tl option" cvk_tl
  | TiuAddConst cvk_tl cvk_tl cvk_tl cvk_tl int
  | TiuAdd cvk_tl cvk_tl cvk_tl cvk_tl cvk_tl
  | DepthwiseConv cvk_tl cvk_tl cvk_tl nat

record kernel_lib =
  kl_npu_num :: u32
  kl_eu_num :: u32
  kl_lmem_size :: u32
  kl_ml_shape :: "u32 \<Rightarrow> u32 \<Rightarrow> cvk_fmt \<Rightarrow> ml_shape"
  kl_matrix_size :: "ml_shape \<Rightarrow> cvk_fmt \<Rightarrow> u32"
  kl_ps32_size :: "ml_shape \<Rightarrow> cvk_fmt \<Rightarrow> u32"
  kl_tensor_size :: "nat list \<Rightarrow> cvk_fmt \<Rightarrow> u32"
  kl_ml_stride :: "ml_shape \<Rightarrow> cvk_fmt \<Rightarrow> bool \<Rightarrow> nat list"
  kl_tl_stride :: "nat list \<Rightarrow> cvk_fmt \<Rightarrow> nat list"
  kl_tg_stride :: "nat list \<Rightarrow> cvk_fmt \<Rightarrow> nat list"
  kl_encode :: "instr \<Rightarrow> byte list"

section \<open>Loops over tiles\<close>

text \<open>\<^verbatim>\<open>for (pos = 0; pos < n; pos += step)\<close> with the size of the current tile; the position is 32 bits wide.\<close>

fun tile_from :: "nat \<Rightarrow> u32 \<Rightarrow> u32 \<Rightarrow> u32 \<Rightarrow> (u32 \<Rightarrow> u32 \<Rightarrow> 'i list res) \<Rightarrow> 'i list res" where
  "tile_from 0 pos step n f = Inl Diverged"
| "tile_from (Suc fuel) pos step n f = (if pos < n then
     bind_res (f pos (min (n - pos) step)) (\<lambda>a. bind_res (tile_from fuel (add32 pos step) step n f) (\<lambda>b. Inr (a @ b)))
     else Inr [])"

definition tile_loop :: "u32 \<Rightarrow> u32 \<Rightarrow> (u32 \<Rightarrow> u32 \<Rightarrow> 'i list res) \<Rightarrow> 'i list res" where
  "tile_loop step n f = tile_from (Suc n) 0 step n f"

text \<open>\<^verbatim>\<open>for (step = n; step > 0; --step)\<close> that is left as soon as the step fits.\<close>

fun largest_fit :: "(nat \<Rightarrow> bool) \<Rightarrow> nat \<Rightarrow> nat option" where
  "largest_fit fits 0 = None"
| "largest_fit fits (Suc n) = (if fits (Suc n) then Some (Suc n) else largest_fit fits n)"

definition ceiling_func :: "nat \<Rightarrow> nat \<Rightarrow> nat" where
  "ceiling_func numerator denominator = (numerator + denominator - 1) div denominator"

definition align_up_to :: "nat \<Rightarrow> nat \<Rightarrow> nat" where
  "align_up_to x n = (x + n - 1) div n * n"

section \<open>Matrix multiplication\<close>

definition formatTranslate :: "cvi_fmt \<Rightarrow> cvk_fmt res" where
  "formatTranslate fmt = (case fmt of CVI_FMT_INT8 \<Rightarrow> Inr CVK_FMT_I8 | CVI_FMT_UINT8 \<Rightarrow> Inr CVK_FMT_U8 | _ \<Rightarrow> Inl AssertFailed)"

text \<open>What the tiles of both operands, the product in 32 bits and the converted result take.\<close>

definition mm_size :: "kernel_lib \<Rightarrow> cvk_fmt \<Rightarrow> u32 \<Rightarrow> u32 \<Rightarrow> u32 \<Rightarrow> u32" where
  "mm_size K fmt m_step k_step n_step =
    (let y = kl_ml_shape K m_step n_step fmt in
     add32 (add32 (add32 (kl_matrix_size K (kl_ml_shape K m_step k_step fmt) fmt) (kl_matrix_size K (kl_ml_shape K k_step n_step fmt) fmt))
       (kl_ps32_size K y fmt)) (kl_tensor_size K [ms_n y, ms_c y, 1, mul32 4 (ms_w y)] fmt))"

text \<open>
  The next number of columns is a multiple of \<open>min_n_step\<close> below the last one, except that the first subtraction
  may wrap around: \<open>M32\<close> rounds more than there are columns are always enough.
\<close>

fun n_search :: "kernel_lib \<Rightarrow> cvk_fmt \<Rightarrow> u32 \<Rightarrow> u32 \<Rightarrow> u32 \<Rightarrow> nat \<Rightarrow> u32 \<Rightarrow> (u32 \<times> u32) option res" where
  "n_search K fmt m k_step min_n_step 0 n_step = Inl Diverged"
| "n_search K fmt m k_step min_n_step (Suc fuel) n_step = (if n_step > 0 then
     (case largest_fit (\<lambda>m_step. mm_size K fmt m_step k_step n_step < kl_lmem_size K) m of
        Some m_step \<Rightarrow> Inr (Some (m_step, n_step))
      | None \<Rightarrow> if min_n_step = 0 then Inl DivByZero
          else n_search K fmt m k_step min_n_step fuel (align_up_to (sub32 n_step min_n_step) min_n_step mod M32))
     else Inr None)"

fun k_search :: "kernel_lib \<Rightarrow> cvk_fmt \<Rightarrow> u32 \<Rightarrow> u32 \<Rightarrow> u32 \<Rightarrow> nat \<Rightarrow> (u32 \<times> u32 \<times> u32) option res" where
  "k_search K fmt m n min_n_step 0 = Inr None"
| "k_search K fmt m n min_n_step (Suc k) = bind_res (n_search K fmt m (Suc k) min_n_step (Suc (M32 + n)) n) (\<lambda>r.
     case r of Some (m_step, n_step) \<Rightarrow> Inr (Some (m_step, Suc k, n_step)) | None \<Rightarrow> k_search K fmt m n min_n_step k)"

definition load_matrix :: "cvk_ml \<Rightarrow> u64 \<Rightarrow> u32 \<Rightarrow> nat \<Rightarrow> instr" where
  "load_matrix ml ga_src row reg = G2LMatrix \<lparr>mg_base_reg = reg, mg_start = ga_src, mg_shape = (ms_n (ml_shape_of ml), ms_col (ml_shape_of ml)), mg_stride_row = row\<rparr> ml"

definition store_matrix :: "cvk_ml \<Rightarrow> u64 \<Rightarrow> u32 \<Rightarrow> instr" where
  "store_matrix ml ga_dst row = L2GMatrix ml \<lparr>mg_base_reg = 4, mg_start = ga_dst, mg_shape = (ms_n (ml_shape_of ml), ms_col (ml_shape_of ml)), mg_stride_row = row\<rparr>"

text \<open>The four bytes of each product lie in four planes; they are put side by side and stored.\<close>

definition convert_result_and_store :: "kernel_lib \<Rightarrow> cvk_ml \<Rightarrow> u64 \<Rightarrow> u32 \<Rightarrow> instr list res" where
  "convert_result_and_store K ps32 gaddr res_col =
    (let s = ml_shape_of ps32; shape = [ms_n s, ms_c s, 1, ms_w s]; sz = kl_tensor_size K shape CVK_FMT_U8;
         laddr_dst = add32 (ml_start ps32) (mul32 4 sz) in
     if kl_npu_num K = 0 then Inl DivByZero else
     let c_per_lane = ceiling_func (ms_c s) (kl_npu_num K);
         plane = (\<lambda>i. TiuCopy \<lparr>tl_start = add32 (ml_start ps32) (mul32 i sz), tl_fmt = CVK_FMT_U8, tl_shape = shape, tl_stride = kl_tl_stride K shape CVK_FMT_U8\<rparr>
           \<lparr>tl_start = add32 laddr_dst i, tl_fmt = CVK_FMT_U8, tl_shape = shape,
            tl_stride = [mul32 (mul32 c_per_lane (ms_w s)) 4, mul32 (ms_w s) 4, mul32 (ms_w s) 4, 4]\<rparr>);
         rs = \<lparr>ms_n = ms_n s, ms_c = ms_c s, ms_w = mul32 4 (ms_w s), ms_col = mul32 4 (ms_col s)\<rparr>
     in Inr (map plane [0..<4] @ [store_matrix \<lparr>ml_start = laddr_dst, ml_fmt = CVK_FMT_U8, ml_shape_of = rs, ml_stride = kl_ml_stride K rs CVK_FMT_U8 False\<rparr>
        gaddr (mul32 4 res_col)]))"

definition local_matrix :: "kernel_lib \<Rightarrow> cvk_fmt \<Rightarrow> u32 \<Rightarrow> u32 \<Rightarrow> u32 \<Rightarrow> cvk_ml" where
  "local_matrix K fmt start row col = (let s = kl_ml_shape K row col fmt in
     \<lparr>ml_start = start, ml_fmt = fmt, ml_shape_of = s, ml_stride = kl_ml_stride K s fmt True\<rparr>)"

definition mm_tile :: "kernel_lib \<Rightarrow> cvk_fmt \<Rightarrow> u32 \<Rightarrow> cvk_ml \<Rightarrow> u32 \<Rightarrow> u32 \<Rightarrow> u32 \<Rightarrow> u32 \<Rightarrow> u32 \<Rightarrow> u32 \<Rightarrow> u32 \<Rightarrow> instr list res" where
  "mm_tile K fmt n tiled_L lmem_address k_pos cur_k m_pos cur_m n_pos cur_n =
    (let tiled_R = local_matrix K fmt lmem_address cur_k cur_n;
         tiled_Y = local_matrix K fmt (add32 lmem_address (kl_matrix_size K (ml_shape_of tiled_R) fmt)) cur_m cur_n
     in bind_res (convert_result_and_store K tiled_Y (add32 (mul32 m_pos n) n_pos * 4) n) (\<lambda>st.
        Inr ([load_matrix tiled_R (mul32 k_pos n + n_pos) n 3, MatMul tiled_Y tiled_L tiled_R 2] @ st)))"

definition mm_row :: "kernel_lib \<Rightarrow> cvk_fmt \<Rightarrow> u32 \<Rightarrow> u32 \<Rightarrow> u32 \<Rightarrow> u32 \<Rightarrow> u32 \<Rightarrow> u32 \<Rightarrow> u32 \<Rightarrow> instr list res" where
  "mm_row K fmt k n n_step k_pos cur_k m_pos cur_m =
    (let tiled_L = local_matrix K fmt 0 cur_m cur_k; lmem_address = kl_matrix_size K (ml_shape_of tiled_L) fmt
     in bind_res (tile_loop n_step n (mm_tile K fmt n tiled_L lmem_address k_pos cur_k m_pos cur_m)) (\<lambda>cols.
        Inr (load_matrix tiled_L (mul32 m_pos k + k_pos) k 2 # cols)))"

definition matmul_program :: "kernel_lib \<Rightarrow> cvi_fmt \<Rightarrow> u32 \<Rightarrow> u32 \<Rightarrow> u32 \<Rightarrow> instr list res" where
  "matmul_program K format m k n =
    bind_res (formatTranslate format) (\<lambda>fmt. let max_tiu = 4095 in
    bind_res (k_search K fmt m n (mul32 (kl_eu_num K) (kl_npu_num K)) (min k max_tiu)) (\<lambda>found.
    case found of None \<Rightarrow> Inl AssertFailed | Some (m_step, k_step, n_step) \<Rightarrow>
    assert_res (k_step \<ge> k)
      (tile_loop k_step k (\<lambda>k_pos cur_k. assert_res (cur_k = k_step) (tile_loop m_step m (mm_row K fmt k n n_step k_pos cur_k))))))"

section \<open>Background light of a gray image\<close>

text \<open>
  Sizes of an image are \<^verbatim>\<open>int32_t\<close>: each number that is stored is taken into that range, and where it becomes
  a shape or an address it is read as a 32-bit or 64-bit unsigned number. Sums and products that
  wrap around on the way to a stored number leave the same number as wrapping once.
\<close>

definition as_u32 :: "int \<Rightarrow> u32" where
  "as_u32 i = nat (i mod 2 ^ 32)"

definition as_u64 :: "int \<Rightarrow> u64" where
  "as_u64 i = nat (i mod 2 ^ 64)"

text \<open>\<^verbatim>\<open>for (int pos = 0; pos < n; pos += step)\<close>: a position may become negative. After 2 ^ 32 rounds it has been
  everywhere it can be, so a loop that is still running never ends; this is so when no tile fits and the step stays 0.\<close>

fun stile_from :: "nat \<Rightarrow> int \<Rightarrow> int \<Rightarrow> int \<Rightarrow> (int \<Rightarrow> int \<Rightarrow> 'i list res) \<Rightarrow> 'i list res" where
  "stile_from 0 pos step n f = Inl Diverged"
| "stile_from (Suc fuel) pos step n f = (if pos < n then
     bind_res (f pos (min (to_s32 (n - pos)) step)) (\<lambda>a. bind_res (stile_from fuel (to_s32 (pos + step)) step n f) (\<lambda>b. Inr (a @ b)))
     else Inr [])"

definition stile_loop :: "int \<Rightarrow> int \<Rightarrow> (int \<Rightarrow> int \<Rightarrow> 'i list res) \<Rightarrow> 'i list res" where
  "stile_loop step n f = stile_from (Suc M32) 0 step n f"

definition bg_fits :: "kernel_lib \<Rightarrow> int \<Rightarrow> int \<Rightarrow> int \<Rightarrow> int \<Rightarrow> nat \<Rightarrow> nat \<Rightarrow> (int \<times> int) \<times> bool" where
  "bg_fits K ih iw k s step_ow step_oh =
    (let step_ih = min (to_s32 ((int step_oh - 1) * s + k)) ih; step_iw = min (to_s32 ((int step_ow - 1) * s + k)) iw;
         x_tl_sz = to_s32 (int (kl_tensor_size K [1, 1, as_u32 step_ih, as_u32 step_iw] CVK_FMT_U8));
         y_tl_sz = to_s32 (int (kl_tensor_size K [1, 1, step_oh, step_ow] CVK_FMT_U8))
     in ((x_tl_sz, y_tl_sz), to_s32 (x_tl_sz + y_tl_sz) \<le> to_s32 (int (kl_lmem_size K))))"

fun bg_search :: "kernel_lib \<Rightarrow> int \<Rightarrow> int \<Rightarrow> int \<Rightarrow> int \<Rightarrow> nat \<Rightarrow> nat \<Rightarrow> (nat \<times> nat) option" where
  "bg_search K ih iw k s oh 0 = None"
| "bg_search K ih iw k s oh (Suc step_ow) = (case largest_fit (\<lambda>step_oh. snd (bg_fits K ih iw k s (Suc step_ow) step_oh)) oh of
     Some step_oh \<Rightarrow> Some (step_oh, Suc step_ow) | None \<Rightarrow> bg_search K ih iw k s oh step_ow)"

text \<open>
  The extent of a tile in one direction: first and last input line it needs, and the padding at its
  ends.
\<close>

record extent =
  ex_top :: int
  ex_bot :: int
  ex_pad_t :: int
  ex_pad_b :: int

definition tile_extent :: "int \<Rightarrow> int \<Rightarrow> int \<Rightarrow> int \<Rightarrow> int \<Rightarrow> int \<Rightarrow> extent" where
  "tile_extent ih k s pad pos cur =
    (let o_top = pos; o_bot = to_s32 (pos + cur); i_top = max (to_s32 (o_top * s - pad)) 0; i_bot = min (to_s32 ((o_bot - 1) * s + k - pad)) ih
     in \<lparr>ex_top = i_top, ex_bot = i_bot, ex_pad_t = (if i_top = 0 then to_s32 (pad - o_top * s) else 0),
         ex_pad_b = (if i_bot = ih then to_s32 ((o_bot - 1) * s + k - pad - ih) else 0)\<rparr>)"

definition load_tensor :: "cvk_tl \<Rightarrow> u64 \<Rightarrow> nat list \<Rightarrow> nat \<Rightarrow> instr" where
  "load_tensor t ga_src stride reg = G2LTensor \<lparr>tg_base_reg_index = reg, tg_start_address = ga_src, tg_fmt = CVK_FMT_U8, tg_shape = tl_shape t, tg_stride = stride\<rparr> t"

definition store_tensor :: "cvk_tl \<Rightarrow> u64 \<Rightarrow> nat list \<Rightarrow> instr" where
  "store_tensor t ga_dst stride = L2GTensor t \<lparr>tg_base_reg_index = 3, tg_start_address = ga_dst, tg_fmt = CVK_FMT_U8, tg_shape = tl_shape t, tg_stride = stride\<rparr>"

definition local_tensor :: "kernel_lib \<Rightarrow> cvk_fmt \<Rightarrow> u32 \<Rightarrow> nat list \<Rightarrow> cvk_tl" where
  "local_tensor K fmt start shape = \<lparr>tl_start = start, tl_fmt = fmt, tl_shape = shape, tl_stride = kl_tl_stride K shape fmt\<rparr>"

text \<open>
  The stride of the pooling is always 1, as is the only stride the kernel is called with. Of an address
  only the product is an \<^verbatim>\<open>int32_t\<close>; it is added to a \<^verbatim>\<open>uint64_t\<close>.
\<close>

definition bg_tile :: "kernel_lib \<Rightarrow> int \<Rightarrow> int \<Rightarrow> int \<Rightarrow> int \<Rightarrow> int \<Rightarrow> int \<Rightarrow> int \<Rightarrow> int \<Rightarrow> int \<Rightarrow> int \<Rightarrow> int \<Rightarrow> instr list" where
  "bg_tile K ih iw ow k s pad x_tl_sz oh_pos cur_oh ow_pos cur_ow =
    (let ga_stride = kl_tg_stride K [1, 1, as_u32 ih, as_u32 iw] CVK_FMT_U8; v = tile_extent ih k s pad oh_pos cur_oh; h = tile_extent iw k s pad ow_pos cur_ow;
         x = local_tensor K CVK_FMT_U8 0 [1, 1, as_u32 (ex_bot v - ex_top v), as_u32 (ex_bot h - ex_top h)];
         bkg = local_tensor K CVK_FMT_U8 (as_u32 x_tl_sz) [1, 1, as_u32 cur_oh, as_u32 cur_ow]
     in [load_tensor x (as_u64 (to_s32 (ex_top v * iw) + ex_top h)) ga_stride 2,
         MaxPool bkg x k k (ex_pad_t v) (ex_pad_b v) (ex_pad_t h) (ex_pad_b h) 1 1,
         store_tensor bkg (as_u64 (to_s32 (oh_pos * ow) + ow_pos)) ga_stride])"

definition calc_background :: "kernel_lib \<Rightarrow> int \<Rightarrow> int \<Rightarrow> int \<Rightarrow> int \<Rightarrow> int \<Rightarrow> int \<Rightarrow> int \<Rightarrow> instr list res" where
  "calc_background K ih iw oh ow k s pad =
    (let found = bg_search K ih iw k s (nat oh) (nat ow); (step_oh, step_ow) = (case found of Some p \<Rightarrow> p | None \<Rightarrow> (0, 0));
         x_tl_sz = fst (fst (bg_fits K ih iw k s step_ow step_oh))
     in stile_loop (int step_oh) oh (\<lambda>oh_pos cur_oh. stile_loop (int step_ow) ow (\<lambda>ow_pos cur_ow.
          Inr (bg_tile K ih iw ow k s pad x_tl_sz oh_pos cur_oh ow_pos cur_ow))))"

text \<open>The arithmetic on one block; \<open>y\<close> shares the memory of the mask.\<close>

definition compute :: "kernel_lib \<Rightarrow> int \<Rightarrow> int \<Rightarrow> int \<Rightarrow> int \<Rightarrow> instr list res" where
  "compute K offset ic ih iw =
    (let shape = [1, as_u32 ic, as_u32 ih, as_u32 iw]; stride = kl_tl_stride K shape CVK_FMT_U8; ga_stride = kl_tg_stride K shape CVK_FMT_U8;
         tl_size = kl_tensor_size K shape CVK_FMT_U8; ga = as_u64 offset;
         block = (\<lambda>i fmt. \<lparr>tl_start = mul32 i tl_size, tl_fmt = fmt, tl_shape = shape, tl_stride = stride\<rparr>);
         x = block 0 CVK_FMT_U8; bkg = block 1 CVK_FMT_U8; mask0 = block 2 CVK_FMT_U8; diff = block 3 CVK_FMT_I8; mask_high0 = block 4 CVK_FMT_U8; diff_high = block 5 CVK_FMT_I8;
         y = mask0; tmp_high = mask_high0; mask1 = block 2 CVK_FMT_I8; mask_high = block 4 CVK_FMT_I8
     in assert_res (mul32 6 tl_size < kl_lmem_size K) (Inr
         [load_tensor x ga ga_stride 2, load_tensor bkg ga ga_stride 3, TiuGe mask0 x bkg, TiuMulConst mask_high mask1 mask1 255,
          TiuXor tmp_high tmp_high tmp_high, TiuSub (Some diff_high) diff (Some tmp_high) x (Some tmp_high) bkg,
          TiuAddConst diff_high diff diff_high diff 255, TiuAdd y diff_high diff mask_high mask1, store_tensor y ga ga_stride]))"

text \<open>The offset is a \<^verbatim>\<open>uint32_t\<close> that is passed on as an \<^verbatim>\<open>int32_t\<close>.\<close>

fun block_loop :: "kernel_lib \<Rightarrow> int \<Rightarrow> int \<Rightarrow> int \<Rightarrow> nat \<Rightarrow> u32 \<Rightarrow> (instr list \<times> u32) res" where
  "block_loop K npu eu cur_h 0 offset = Inr ([], offset)"
| "block_loop K npu eu cur_h (Suc i) offset = bind_res (compute K (to_s32 (int offset)) npu cur_h eu) (\<lambda>a.
     bind_res (block_loop K npu eu cur_h i (add32 offset (as_u32 (npu * cur_h * eu)))) (\<lambda>(b, off). Inr (a @ b, off)))"

definition ceiling_int :: "int \<Rightarrow> int \<Rightarrow> int" where
  "ceiling_int numerator denominator = to_s32 (numerator + denominator - 1) sdiv denominator"

definition light_blocks :: "kernel_lib \<Rightarrow> int \<Rightarrow> instr list res" where
  "light_blocks K total_sz =
    (let eu = to_s32 (int (kl_eu_num K)); npu = to_s32 (int (kl_npu_num K)); lane = as_u32 (eu * 6) in
     if lane = 0 then Inl DivByZero else
     let max_h = min (to_s32 (int (kl_lmem_size K div lane))) (4096 - 32) in
     assert_res (max_h \<noteq> 0)
    (let cur_h = max_h; full = as_u32 (npu * eu * max_h); row = as_u32 (eu * cur_h) in
     if full = 0 then Inl DivByZero else
     let loop = to_s32 (int (as_u32 total_sz div full)); remain = as_u32 total_sz mod full
     in bind_res (block_loop K npu eu cur_h (nat loop) 0) (\<lambda>(a, offset).
        if remain = 0 then Inr a else if row = 0 then Inl DivByZero else
        let cur_c = to_s32 (int (remain div row)); remain2 = remain mod row;
            offset2 = (if cur_c \<noteq> 0 then add32 offset (as_u32 (cur_c * cur_h * eu)) else offset)
        in bind_res (if cur_c \<noteq> 0 then compute K (to_s32 (int offset)) cur_c cur_h eu else Inr []) (\<lambda>b.
           bind_res (if remain2 \<noteq> 0 then compute K (to_s32 (int offset2)) 1 (ceiling_int (to_s32 (int remain2)) eu) eu else Inr []) (\<lambda>c.
           Inr (a @ b @ c))))))"

definition align_up_u64 :: "u64 \<Rightarrow> u64 \<Rightarrow> u64" where
  "align_up_u64 x n = (x + n - 1) mod M64 div n * n mod M64"

definition gray_image_light_program :: "kernel_lib \<Rightarrow> int \<Rightarrow> int \<Rightarrow> int \<Rightarrow> instr list res" where
  "gray_image_light_program K ih iw kernel_sz =
    bind_res (calc_background K ih iw ih iw kernel_sz 1 (to_s32 (kernel_sz - 1) sdiv 2)) (\<lambda>bg.
    let eu = as_u64 (to_s32 (int (kl_eu_num K))) in
    if eu = 0 then Inl DivByZero else
    let total_sz = to_s32 (int (align_up_u64 (as_u64 (to_s32 (ih * iw))) eu)) in
    bind_res (light_blocks K total_sz) (\<lambda>bs. Inr (bg @ bs)))"

section \<open>Euclidean distances\<close>

definition ed_size :: "kernel_lib \<Rightarrow> u32 \<Rightarrow> u32 \<Rightarrow> u32" where
  "ed_size K feature_size c_step = add32 (add32 (kl_tensor_size K [1, kl_npu_num K, 1, feature_size] CVK_FMT_BF16)
     (kl_tensor_size K [1, c_step, 1, feature_size] CVK_FMT_BF16)) (kl_tensor_size K [2, c_step, 1, 2] CVK_FMT_BF16)"

definition load_bf16 :: "kernel_lib \<Rightarrow> cvk_tl \<Rightarrow> nat list \<Rightarrow> nat list \<Rightarrow> nat \<Rightarrow> u64 \<Rightarrow> instr" where
  "load_bf16 K t shape stride reg ga = G2LBf16 \<lparr>tg_base_reg_index = reg, tg_start_address = ga, tg_fmt = CVK_FMT_U8, tg_shape = shape, tg_stride = stride\<rparr> t"

text \<open>The high half of each sum is copied beside its low half, then both are stored as a \<^verbatim>\<open>float\<close>.\<close>

definition convert_ps32_to_fp32 :: "kernel_lib \<Rightarrow> cvk_tl \<Rightarrow> instr" where
  "convert_ps32_to_fp32 K out = (let shape = (tl_shape out)[0 := 1]; n = tl_stride out ! 0; stride = (kl_tl_stride K shape CVK_FMT_BF16)[0 := n] in
     TiuCopy \<lparr>tl_start = tl_start out, tl_fmt = CVK_FMT_BF16, tl_shape = shape, tl_stride = stride\<rparr>
       \<lparr>tl_start = add32 (add32 (tl_start out) n) 2, tl_fmt = CVK_FMT_BF16, tl_shape = shape, tl_stride = stride\<rparr>)"

definition store_fp32 :: "kernel_lib \<Rightarrow> nat \<Rightarrow> u64 \<Rightarrow> cvk_tl \<Rightarrow> instr" where
  "store_fp32 K reg ga_dst out = (let shape = (tl_shape out)[0 := 1, 3 := 2]; n = tl_stride out ! 0; c = tl_shape out ! 1 in
     L2GBf16 \<lparr>tl_start = add32 (tl_start out) n, tl_fmt = CVK_FMT_BF16, tl_shape = shape, tl_stride = (kl_tl_stride K shape CVK_FMT_BF16)[0 := n]\<rparr>
       \<lparr>tg_base_reg_index = reg, tg_start_address = ga_dst, tg_fmt = CVK_FMT_BF16, tg_shape = [1, c, tl_shape out ! 2, 2],
        tg_stride = kl_tg_stride K [1, c, tl_shape out ! 2, 2] CVK_FMT_BF16\<rparr>)"

text \<open>
  The library places the three tensors one behind the other in the local memory.  The stride of a
  local tensor is the one of its full size.
\<close>

definition ed_tile :: "kernel_lib \<Rightarrow> u32 \<Rightarrow> cvk_tl \<Rightarrow> cvk_tl \<Rightarrow> cvk_tl \<Rightarrow> u32 \<Rightarrow> u32 \<Rightarrow> instr list" where
  "ed_tile K feature_size input_x input_y0 output0 c_pos tile_c =
    (let shape = [1, tile_c, 1, feature_size]; input_y = input_y0\<lparr>tl_shape := (tl_shape input_y0)[1 := tile_c]\<rparr>;
         b = \<lparr>tl_start = tl_start input_x, tl_fmt = tl_fmt input_x, tl_shape = tl_shape input_y, tl_stride = (tl_stride input_y)[1 := 0, 0 := 0]\<rparr>;
         out = output0\<lparr>tl_shape := (tl_shape output0)[0 := 1, 1 := tile_c]\<rparr>; out2 = out\<lparr>tl_shape := (tl_shape out)[0 := 2]\<rparr>
     in [load_bf16 K input_y shape (kl_tg_stride K shape CVK_FMT_U8) 3 (mul32 c_pos feature_size),
         TiuSub None input_y None input_y None b, DepthwiseConv out input_y input_y 2,
         convert_ps32_to_fp32 K out2, store_fp32 K 4 (c_pos * 4) out2])"

fun ed_loop :: "nat \<Rightarrow> kernel_lib \<Rightarrow> u32 \<Rightarrow> cvk_tl \<Rightarrow> cvk_tl \<Rightarrow> cvk_tl \<Rightarrow> u32 \<Rightarrow> u32 \<Rightarrow> u32 \<Rightarrow> instr list res" where
  "ed_loop 0 K feature_size input_x input_y out c_step records c_pos = Inl Diverged"
| "ed_loop (Suc fuel) K feature_size input_x input_y out c_step records c_pos = (if c_pos < records then
     let tile_c = min c_step (records - c_pos) in
     bind_res (ed_loop fuel K feature_size input_x input_y out c_step records (add32 c_pos tile_c)) (\<lambda>ts.
     Inr (ed_tile K feature_size input_x input_y out c_pos tile_c @ ts)) else Inr [])"

definition euclidean_program :: "kernel_lib \<Rightarrow> u32 \<Rightarrow> u32 \<Rightarrow> instr list res" where
  "euclidean_program K records feature_size =
    (case largest_fit (\<lambda>c. ed_size K feature_size c < kl_lmem_size K) records of None \<Rightarrow> Inl AssertFailed
     | Some c_step \<Rightarrow>
       let lane = kl_npu_num K; x_shape = [1, lane, 1, feature_size]; x_size = kl_tensor_size K x_shape CVK_FMT_BF16;
           y_shape = [1, c_step, 1, feature_size]; y_size = kl_tensor_size K y_shape CVK_FMT_BF16; o_shape = [2, c_step, 1, 1];
           input_x = local_tensor K CVK_FMT_BF16 0 x_shape; input_y = local_tensor K CVK_FMT_BF16 x_size y_shape;
           out = local_tensor K CVK_FMT_BF16 (add32 x_size y_size) o_shape;
           x_stride = (kl_tg_stride K x_shape CVK_FMT_U8)[1 := 0, 0 := 0]
       in bind_res (ed_loop (Suc records) K feature_size input_x input_y out c_step records 0) (\<lambda>ts.
          Inr (load_bf16 K input_x x_shape x_stride 2 0 # ts)))"

section \<open>Loading and running a kernel\<close>

definition lift_fault :: "'a res \<Rightarrow> ('s, 'a) sm" where
  "lift_fault r = (case r of Inl e \<Rightarrow> dfail e | Inr a \<Rightarrow> dret a)"

definition jit_load :: "rtenv \<Rightarrow> kernel_lib \<Rightarrow> ptr \<Rightarrow> ptr \<Rightarrow> instr list \<Rightarrow> ptr rtm" where
  "jit_load R K ctx cvk prog = dbind (deref rt_khandles cvk) (\<lambda>h. let cmds = sh_cmds h @ concat (map (kl_encode K) prog) in
     dbind (LoadCmdbuf R ctx cmds (length cmds) 0 0 False) (\<lambda>(ret, written).
     dthen (dassert (ret = 0))
    (dthen (set_khandle cvk (h\<lparr>sh_cmds := []\<rparr>))
    (case written of None \<Rightarrow> dfail Uninitialised | Some mem \<Rightarrow> dret mem))))"

definition runtimeJitMatrixMul :: "rtenv \<Rightarrow> kernel_lib \<Rightarrow> ptr \<Rightarrow> ptr \<Rightarrow> cvi_fmt \<Rightarrow> u32 \<Rightarrow> u32 \<Rightarrow> u32 \<Rightarrow> ptr rtm" where
  "runtimeJitMatrixMul R K ctx cvk format m k n = dbind (lift_fault (matmul_program K format m k n)) (jit_load R K ctx cvk)"

definition runtimeJitGrayImageLight :: "rtenv \<Rightarrow> kernel_lib \<Rightarrow> ptr \<Rightarrow> ptr \<Rightarrow> int \<Rightarrow> int \<Rightarrow> int \<Rightarrow> ptr rtm" where
  "runtimeJitGrayImageLight R K ctx cvk ih iw kernel_sz = dbind (lift_fault (gray_image_light_program K ih iw kernel_sz)) (jit_load R K ctx cvk)"

definition runtimeJitEuclideanDistance :: "rtenv \<Rightarrow> kernel_lib \<Rightarrow> ptr \<Rightarrow> ptr \<Rightarrow> u32 \<Rightarrow> u32 \<Rightarrow> ptr rtm" where
  "runtimeJitEuclideanDistance R K ctx cvk records feature_size = dbind (lift_fault (euclidean_program K records feature_size)) (jit_load R K ctx cvk)"

record kernel_func =
  kf_ctx :: ptr
  kf_cmdbuf_mem :: ptr

definition prepare_kernel :: "rtenv \<Rightarrow> ptr \<Rightarrow> u32 \<Rightarrow> (ptr \<Rightarrow> ptr rtm) \<Rightarrow> kernel_func rtm" where
  "prepare_kernel R ctx cmdbuf_size jit = dbind (RegisterKernel R ctx cmdbuf_size) (\<lambda>cvk. dthen (dassert (cvk \<noteq> None))
     (dbind (jit cvk) (\<lambda>mem. dthen (UnRegisterKernel R cvk) (dret \<lparr>kf_ctx = ctx, kf_cmdbuf_mem = mem\<rparr>))))"

definition CVI_NN_PrepareEuclideanDistanceKernelFunc :: "rtenv \<Rightarrow> kernel_lib \<Rightarrow> ptr \<Rightarrow> u32 \<Rightarrow> u32 \<Rightarrow> kernel_func rtm" where
  "CVI_NN_PrepareEuclideanDistanceKernelFunc R K ctx k n = prepare_kernel R ctx 200000 (\<lambda>cvk. runtimeJitEuclideanDistance R K ctx cvk n k)"

definition CVI_NN_PrepareMatrixMulKernelFunc :: "rtenv \<Rightarrow> kernel_lib \<Rightarrow> ptr \<Rightarrow> cvi_fmt \<Rightarrow> u32 \<Rightarrow> u32 \<Rightarrow> u32 \<Rightarrow> kernel_func rtm" where
  "CVI_NN_PrepareMatrixMulKernelFunc R K ctx fmt m k n = prepare_kernel R ctx 200000 (\<lambda>cvk. runtimeJitMatrixMul R K ctx cvk fmt m k n)"

definition CVI_NN_PrepareGrayImageLightKernelFunc :: "rtenv \<Rightarrow> kernel_lib \<Rightarrow> ptr \<Rightarrow> u32 \<Rightarrow> u32 \<Rightarrow> u32 \<Rightarrow> kernel_func rtm" where
  "CVI_NN_PrepareGrayImageLightKernelFunc R K ctx ih iw kernel_sz =
     prepare_kernel R ctx 100000 (\<lambda>cvk. runtimeJitGrayImageLight R K ctx cvk (to_s32 (int ih)) (to_s32 (int iw)) (to_s32 (int kernel_sz)))"

text \<open>The array has two entries more than there are arguments; the run reads eight.\<close>

definition CVI_NN_RunKernelFunc :: "rtenv \<Rightarrow> kernel_func \<Rightarrow> u64 list \<Rightarrow> cvi_rc rtm" where
  "CVI_NN_RunKernelFunc R kfn args = dthen (dassert (length args \<le> 6))
     (if length args < 6 then dfail OutOfRange else RunCmdbufEx R (kf_ctx kfn) (kf_cmdbuf_mem kfn) ([0, 0] @ args))"

definition CVI_NN_DestroyKernelFunc :: "rtenv \<Rightarrow> kernel_func \<Rightarrow> cvi_rc rtm" where
  "CVI_NN_DestroyKernelFunc R kfn = dthen (if kf_cmdbuf_mem kfn \<noteq> None then MemFree R (kf_ctx kfn) (kf_cmdbuf_mem kfn) else dret ()) (dret CVI_RC_SUCCESS)"

end
