(* ===== verification/KernelTile.thy ===== *)
theory KernelTile
  imports KernelFunc "HOL-Library.Disjoint_Sets"
begin

text \<open>
  What the kernels compute: the tiles they walk over cover their results once, every tile fits the
  local memory, and each part of a result is made from the operands it needs.
\<close>

section \<open>Tiles\<close>

function tiles_from :: "nat \<Rightarrow> nat \<Rightarrow> nat \<Rightarrow> (nat \<times> nat) list" where
  "tiles_from pos step n = (if step = 0 \<or> n \<le> pos then [] else (pos, min (n - pos) step) # tiles_from (pos + step) step n)"
  by auto
termination by (relation "measure (\<lambda>(pos, step, n). n - pos)") auto

declare tiles_from.simps [simp del]

abbreviation tiles :: "nat \<Rightarrow> nat \<Rightarrow> (nat \<times> nat) list" where
  "tiles \<equiv> tiles_from 0"

definition span :: "nat \<times> nat \<Rightarrow> nat set" where
  "span t = {fst t..<fst t + snd t}"

lemma tiles_from_props:
  assumes "t \<in> set (tiles_from pos step n)"
  shows "pos \<le> fst t" "0 < snd t" "snd t \<le> step" "fst t + snd t \<le> n"
  using assms
proof (induction pos step n rule: tiles_from.induct)
  case (1 pos step n)
  { case 1 with "1.IH"(1) show ?case by (subst (asm) tiles_from.simps) (force split: if_splits) }
  { case 2 with "1.IH"(2) show ?case by (subst (asm) tiles_from.simps) (force split: if_splits) }
  { case 3 with "1.IH"(3) show ?case by (subst (asm) tiles_from.simps) (force split: if_splits) }
  { case 4 with "1.IH"(4) show ?case by (subst (asm) tiles_from.simps) (force split: if_splits) }
qed

lemma tiles_from_cover: "0 < step \<Longrightarrow> (\<Union>t\<in>set (tiles_from pos step n). span t) = {pos..<n}"
proof (induction pos step n rule: tiles_from.induct)
  case (1 pos step n)
  then show ?case by (subst tiles_from.simps) (auto simp: span_def)
qed

lemma tiles_from_disjoint:
  assumes "t \<in> set (tiles_from pos step n)" "u \<in> set (tiles_from pos step n)" "x \<in> span t" "x \<in> span u"
  shows "t = u"
  using assms
proof (induction pos step n rule: tiles_from.induct)
  case (1 pos step n)
  have later: "x \<notin> span v" if "v \<in> set (tiles_from (pos + step) step n)" "x \<in> span (pos, min (n - pos) step)" for v
    using tiles_from_props(1)[OF that(1)] that(2) by (auto simp: span_def)
  show ?case
  proof (cases "step = 0 \<or> n \<le> pos")
    case False
    then have "set (tiles_from pos step n) = insert (pos, min (n - pos) step) (set (tiles_from (pos + step) step n))"
      by (subst tiles_from.simps) simp
    then show ?thesis using "1.prems" "1.IH"[OF False] later[of t] later[of u] by (metis insert_iff)
  qed (use "1.prems"(1) in \<open>simp add: tiles_from.simps\<close>)
qed

lemma tiles_from_distinct: "distinct (tiles_from pos step n)"
proof (induction pos step n rule: tiles_from.induct)
  case (1 pos step n)
  then show ?case
    by (subst tiles_from.simps) (use tiles_from_props(1) in fastforce)
qed

text \<open>
  What a loop over tiles emits: \<open>P xs ys\<close> relates the instructions to what they do, piece by piece.
\<close>

locale tile_collect =
  fixes P :: "'i list \<Rightarrow> 'b list \<Rightarrow> bool"
  assumes nil: "P [] []"
    and app: "P xs ys \<Longrightarrow> P xs' ys' \<Longrightarrow> P (xs @ xs') (ys @ ys')"
begin

lemma tile_from_collect:
  assumes "0 < step" "n + step \<le> M32" "n - pos < fuel"
    and "\<And>p l. (p, l) \<in> set (tiles_from pos step n) \<Longrightarrow> \<exists>xs. f p l = Inr xs \<and> P xs (h p l)"
  shows "\<exists>xs. tile_from fuel pos step n f = Inr xs \<and> P xs (concat (map (\<lambda>(p, l). h p l) (tiles_from pos step n)))"
  using assms(3,4)
proof (induction fuel arbitrary: pos)
  case (Suc fuel)
  show ?case
  proof (cases "pos < n")
    case True
    then have t: "tiles_from pos step n = (pos, min (n - pos) step) # tiles_from (pos + step) step n"
      using assms(1) by (subst tiles_from.simps) simp
    have a: "add32 pos step = pos + step" using assms(2) True by (simp add: add32_def M32_def)
    obtain xs where xs: "f pos (min (n - pos) step) = Inr xs" "P xs (h pos (min (n - pos) step))"
      using Suc.prems(2) t by (metis list.set_intros(1))
    have "\<exists>zs. tile_from fuel (pos + step) step n f = Inr zs \<and> P zs (concat (map (\<lambda>(p, l). h p l) (tiles_from (pos + step) step n)))"
    proof (rule Suc.IH)
      show "n - (pos + step) < fuel" using Suc.prems(1) True assms(1) by simp
      show "\<exists>xs. f p l = Inr xs \<and> P xs (h p l)" if "(p, l) \<in> set (tiles_from (pos + step) step n)" for p l
        using Suc.prems(2)[of p l] that t by simp
    qed
    then show ?thesis using app xs True t a by (fastforce simp: bind_res_def)
  qed (simp add: nil tiles_from.simps)
qed simp

lemma tile_loop_collect:
  assumes "0 < step" "n + step \<le> M32"
    and "\<And>p l. (p, l) \<in> set (tiles step n) \<Longrightarrow> \<exists>xs. f p l = Inr xs \<and> P xs (h p l)"
  shows "\<exists>xs. tile_loop step n f = Inr xs \<and> P xs (concat (map (\<lambda>(p, l). h p l) (tiles step n)))"
  unfolding tile_loop_def using assms by (intro tile_from_collect) auto

end

section \<open>Matrix multiplication\<close>

text \<open>
  The bytes of a matrix in the global memory, and what becomes of them in the local memory. A place
  of the local memory holds nothing that is known, an operand, with the base register and the
  bytes it was loaded from, or a plane of the product of two operands: byte 0, 1, 2 or 3 of every
  element. A multiplication yields the four planes, one behind the other, when its operands are
  there and their shapes agree; a copy takes a plane to another place; a store writes the product whose four
  planes lie side by side at its place.
\<close>

definition matrix_bytes :: "nat \<Rightarrow> nat \<Rightarrow> nat \<Rightarrow> nat \<Rightarrow> nat set" where
  "matrix_bytes start rows cols row = {start + r * row + c |r c. r < rows \<and> c < cols}"

definition mg_bytes :: "cvk_mg \<Rightarrow> nat set" where
  "mg_bytes g = matrix_bytes (mg_start g) (fst (mg_shape g)) (snd (mg_shape g)) (mg_stride_row g)"

type_synonym operand = "nat \<times> nat set"

datatype cell = Unset | Operand operand | Plane nat operand operand

definition plane_size :: "kernel_lib \<Rightarrow> ml_shape \<Rightarrow> nat" where
  "plane_size K s = kl_tensor_size K [ms_n s, ms_c s, 1, ms_w s] CVK_FMT_U8"

definition multiply :: "kernel_lib \<Rightarrow> cvk_ml \<Rightarrow> cvk_ml \<Rightarrow> cvk_ml \<Rightarrow> (nat \<Rightarrow> cell) \<Rightarrow> (nat \<Rightarrow> cell)" where
  "multiply K y l r mem = (case (mem (ml_start l), mem (ml_start r)) of
     (Operand a, Operand b) \<Rightarrow>
       if ms_n (ml_shape_of y) = ms_n (ml_shape_of l) \<and> ms_col (ml_shape_of l) = ms_n (ml_shape_of r) \<and> ms_col (ml_shape_of y) = ms_col (ml_shape_of r)
       then let s = ml_start y; p = plane_size K (ml_shape_of y) in
         mem(s := Plane 0 a b, s + p := Plane 1 a b, s + 2 * p := Plane 2 a b, s + 3 * p := Plane 3 a b)
       else mem(ml_start y := Unset)
   | _ \<Rightarrow> mem(ml_start y := Unset))"

definition product_at :: "(nat \<Rightarrow> cell) \<Rightarrow> nat \<Rightarrow> (operand \<times> operand) option" where
  "product_at mem s = (case mem s of Plane i a b \<Rightarrow>
       if i = 0 \<and> mem (s + 1) = Plane 1 a b \<and> mem (s + 2) = Plane 2 a b \<and> mem (s + 3) = Plane 3 a b then Some (a, b) else None
   | _ \<Rightarrow> None)"

text \<open>What a program stores: the product, and the base register and the bytes it is written to.\<close>

fun products :: "kernel_lib \<Rightarrow> (nat \<Rightarrow> cell) \<Rightarrow> instr list \<Rightarrow> ((operand \<times> operand) option \<times> nat \<times> nat set) list" where
  "products K mem [] = []"
| "products K mem (G2LMatrix g t # is) = products K (mem(ml_start t := Operand (mg_base_reg g, mg_bytes g))) is"
| "products K mem (MatMul y l r ps32_mode # is) = products K (if ps32_mode = 2 then multiply K y l r mem else mem(ml_start y := Unset)) is"
| "products K mem (TiuCopy a b # is) = products K (mem(tl_start b := mem (tl_start a))) is"
| "products K mem (L2GMatrix t g # is) = (product_at mem (ml_start t), mg_base_reg g, mg_bytes g) # products K mem is"
| "products K mem (i # is) = products K mem is"

text \<open>What a part of a row stores with the left operand at the start of the local memory.\<close>

definition row_products :: "kernel_lib \<Rightarrow> instr list \<Rightarrow> (operand \<times> nat \<times> nat set) list \<Rightarrow> bool" where
  "row_products K xs ys \<longleftrightarrow> (\<forall>L mem rest. mem 0 = Operand L \<longrightarrow>
     (\<exists>mem'. mem' 0 = Operand L \<and> products K mem (xs @ rest) = map (\<lambda>(r, y). (Some (L, r), y)) ys @ products K mem' rest))"

interpretation cols: tile_collect "row_products K" for K :: kernel_lib
proof
  show "row_products K [] []" by (auto simp: row_products_def)
  fix xs ys xs' ys' assume a: "row_products K xs ys" "row_products K xs' ys'"
  show "row_products K (xs @ xs') (ys @ ys')" unfolding row_products_def
  proof (intro allI impI)
    fix L :: operand and mem :: "nat \<Rightarrow> cell" and rest assume "mem 0 = Operand L"
    then obtain mem1 where 1: "mem1 0 = Operand L" "products K mem (xs @ xs' @ rest) = map (\<lambda>(r, y). (Some (L, r), y)) ys @ products K mem1 (xs' @ rest)"
      using a(1) unfolding row_products_def by blast
    then obtain mem2 where "mem2 0 = Operand L" "products K mem1 (xs' @ rest) = map (\<lambda>(r, y). (Some (L, r), y)) ys' @ products K mem2 rest"
      using a(2) unfolding row_products_def by blast
    with 1 show "\<exists>mem'. mem' 0 = Operand L \<and> products K mem ((xs @ xs') @ rest) = map (\<lambda>(r, y). (Some (L, r), y)) (ys @ ys') @ products K mem' rest"
      by auto
  qed
qed

interpretation rows: tile_collect "\<lambda>xs ys. \<forall>mem rest. \<exists>mem'. products K mem (xs @ rest) = ys @ products K mem' rest"
  for K :: kernel_lib
proof
  show "\<forall>mem rest. \<exists>mem'. products K mem ([] @ rest) = [] @ products K mem' rest" by auto
qed (metis append.assoc)

text \<open>The law of the shapes of the library: a matrix has as many rows and columns as were asked for.\<close>

definition shapes_ok :: "kernel_lib \<Rightarrow> bool" where
  "shapes_ok K = (\<forall>r c f. ms_n (kl_ml_shape K r c f) = r \<and> ms_col (kl_ml_shape K r c f) = c)"

definition left_part :: "nat \<Rightarrow> nat \<times> nat \<Rightarrow> nat set" where
  "left_part k t = matrix_bytes (fst t * k) (snd t) k k"

definition right_part :: "nat \<Rightarrow> nat \<Rightarrow> nat \<times> nat \<Rightarrow> nat set" where
  "right_part k n t = matrix_bytes (fst t) k (snd t) n"

definition rect_part :: "nat \<Rightarrow> nat \<Rightarrow> nat \<times> nat \<Rightarrow> nat \<times> nat \<Rightarrow> nat set" where
  "rect_part e n t u = matrix_bytes ((fst t * n + fst u) * e) (snd t) (e * snd u) (e * n)"

abbreviation result_part :: "nat \<Rightarrow> nat \<times> nat \<Rightarrow> nat \<times> nat \<Rightarrow> nat set" where
  "result_part \<equiv> rect_part 4"

text \<open>A part of a matrix with elements of \<open>e\<close> bytes is the rectangle of its rows and columns.\<close>

lemma div_mod_of_sum: "(b :: nat) < N \<Longrightarrow> (a * N + b) div N = a \<and> (a * N + b) mod N = b"
  by simp

lemma rect_part_iff:
  assumes "fst u + snd u \<le> n" "0 < e"
  shows "x \<in> rect_part e n t u \<longleftrightarrow> 0 < n \<and> x div (e * n) \<in> span t \<and> x mod (e * n) div e \<in> span u"
proof
  assume "x \<in> rect_part e n t u"
  then obtain r c where x: "x = (fst t * n + fst u) * e + r * (e * n) + c" "r < snd t" "c < e * snd u" by (auto simp: rect_part_def matrix_bytes_def)
  have eq: "x = (fst t + r) * (e * n) + (e * fst u + c)" using x(1) by (simp add: algebra_simps)
  have "e * fst u + c < e * (fst u + snd u)" using x(3) by (simp add: distrib_left)
  also have "\<dots> \<le> e * n" using assms(1) by simp
  finally have small: "e * fst u + c < e * n" .
  have "c div e < snd u" using x(3) by (simp add: less_mult_imp_div_less mult.commute)
  moreover have "x div (e * n) = fst t + r" "x mod (e * n) = e * fst u + c"
    unfolding eq using div_mod_of_sum[OF small] by blast+
  ultimately show "0 < n \<and> x div (e * n) \<in> span t \<and> x mod (e * n) div e \<in> span u" using x(2) small assms(2) by (auto simp: span_def intro!: gr0I)
next
  assume a: "0 < n \<and> x div (e * n) \<in> span t \<and> x mod (e * n) div e \<in> span u"
  define r where "r = x div (e * n) - fst t"
  define c where "c = x mod (e * n) - e * fst u"
  have "e * fst u \<le> x mod (e * n)" "x mod (e * n) < e * (fst u + snd u)"
    using a assms(2) by (auto simp: span_def less_eq_div_iff_mult_less_eq div_less_iff_less_mult mult.commute)
  then have d: "x div (e * n) = fst t + r" "x mod (e * n) = e * fst u + c" "r < snd t" "c < e * snd u" using a by (auto simp: r_def c_def span_def distrib_left)
  have "x = x div (e * n) * (e * n) + x mod (e * n)" by (rule div_mult_mod_eq[symmetric])
  then have "x = (fst t * n + fst u) * e + r * (e * n) + c" unfolding d(1,2) by (simp add: algebra_simps)
  then show "x \<in> rect_part e n t u" using d(3,4) by (auto simp: rect_part_def matrix_bytes_def)
qed

lemma rect_parts_partition:
  assumes "0 < ms" "0 < ns" "0 < n" "0 < e"
  shows "partition_on {0..<e * m * n} ((\<lambda>(t, u). rect_part e n t u) ` (set (tiles ms m) \<times> set (tiles ns n)))"
    "inj_on (\<lambda>(t, u). rect_part e n t u) (set (tiles ms m) \<times> set (tiles ns n))"
proof -
  let ?T = "set (tiles ms m)" and ?U = "set (tiles ns n)" and ?R = "\<lambda>(t, u). rect_part e n t u"
  have iff: "x \<in> rect_part e n t u \<longleftrightarrow> x div (e * n) \<in> span t \<and> x mod (e * n) div e \<in> span u" if "u \<in> ?U" for x t u
    using rect_part_iff[of u n e x t] tiles_from_props(4)[OF that] assms(3,4) by simp
  have same: "t = t' \<and> u = u'" if "t \<in> ?T" "t' \<in> ?T" "u \<in> ?U" "u' \<in> ?U" "x \<in> rect_part e n t u" "x \<in> rect_part e n t' u'" for x t u t' u'
    using that iff[of u x t] iff[of u' x t'] tiles_from_disjoint[OF that(1,2)] tiles_from_disjoint[OF that(3,4)] by blast
  have some: "\<exists>x. x \<in> rect_part e n t u" if "t \<in> ?T" "u \<in> ?U" for t u
    using tiles_from_props(2)[OF that(1)] tiles_from_props(2)[OF that(2)] assms(4) unfolding rect_part_def matrix_bytes_def by (auto intro!: exI[of _ 0])
  have x4: "x mod (e * n) div e < n" for x
    using mod_less_divisor[of "e * n" x] assms(3,4) by (intro less_mult_imp_div_less) (simp add: mult.commute)
  have "x < e * m * n \<longleftrightarrow> x div (e * n) < m" for x using assms(3,4) by (simp add: div_less_iff_less_mult mult_ac)
  moreover have "y < m \<longleftrightarrow> (\<exists>t\<in>?T. y \<in> span t)" "y < n \<longleftrightarrow> (\<exists>u\<in>?U. y \<in> span u)" for y
    using tiles_from_cover[OF assms(1), of 0 m] tiles_from_cover[OF assms(2), of 0 n] by (auto simp: set_eq_iff)
  ultimately have cover: "x < e * m * n \<longleftrightarrow> (\<exists>t\<in>?T. \<exists>u\<in>?U. x \<in> rect_part e n t u)" for x
    using iff x4[of x] by auto
  show "partition_on {0..<e * m * n} (?R ` (?T \<times> ?U))"
  proof (rule partition_onI)
    show "\<Union> (?R ` (?T \<times> ?U)) = {0..<e * m * n}" using cover by (auto simp: set_eq_iff)
    show "disjnt p q" if pq: "p \<in> ?R ` (?T \<times> ?U)" "q \<in> ?R ` (?T \<times> ?U)" "p \<noteq> q" for p q
    proof -
      obtain t u where p: "p = rect_part e n t u" "t \<in> ?T" "u \<in> ?U" using pq(1) by auto
      obtain t' u' where q: "q = rect_part e n t' u'" "t' \<in> ?T" "u' \<in> ?U" using pq(2) by auto
      have "x \<notin> q" if "x \<in> p" for x using same[OF p(2) q(2) p(3) q(3), of x] that p(1) q(1) pq(3) by auto
      then show ?thesis by (auto simp: disjnt_iff)
    qed
    show "{} \<notin> ?R ` (?T \<times> ?U)" using some by (fastforce simp: image_iff)
  qed
  show "inj_on ?R (?T \<times> ?U)"
  proof (rule inj_onI)
    fix p q assume "p \<in> ?T \<times> ?U" "q \<in> ?T \<times> ?U" "?R p = ?R q"
    then show "p = q"
      using some[of "fst p" "snd p"] same[of "fst p" "fst q" "snd p" "snd q"] by (auto simp: mem_Times_iff prod_eq_iff case_prod_unfold)
  qed
qed

text \<open>
  The laws of the sizes of the library, for the tiles of a product: operands and planes are not empty,
  and no tile reaches the end of the addresses.
\<close>

definition sizes_ok :: "kernel_lib \<Rightarrow> cvk_fmt \<Rightarrow> nat \<Rightarrow> nat \<Rightarrow> nat \<Rightarrow> bool" where
  "sizes_ok K fmt m k n \<longleftrightarrow> (\<forall>a b. 0 < a \<and> a \<le> m \<and> 0 < b \<and> b \<le> n \<longrightarrow>
     (let l = kl_matrix_size K (kl_ml_shape K a k fmt) fmt; r = kl_matrix_size K (kl_ml_shape K k b fmt) fmt; p = plane_size K (kl_ml_shape K a b fmt)
      in 0 < l \<and> 0 < p \<and> l + r + 4 * p + 3 < 2 ^ 32))"

text \<open>
  One tile: the right operand behind the left one, the planes of their product behind both, and the
  planes put side by side behind those.
\<close>

lemma tile_product:
  assumes mem: "mem 0 = Operand L" and at: "ml_start tL = 0" "ml_start tR = l" "ml_start tY = y" "ml_start tS = y + 4 * s"
    and shapes: "ms_n (ml_shape_of tY) = ms_n (ml_shape_of tL)" "ms_col (ml_shape_of tL) = ms_n (ml_shape_of tR)" "ms_col (ml_shape_of tY) = ms_col (ml_shape_of tR)"
    and s: "plane_size K (ml_shape_of tY) = s" "0 < s" "0 < l" "l \<le> y"
    and copies: "\<And>i. i < 4 \<Longrightarrow> tl_start (a i) = y + i * s \<and> tl_start (b i) = y + 4 * s + i"
  shows "\<exists>mem'. mem' 0 = Operand L \<and> products K mem ([G2LMatrix g tR, MatMul tY tL tR 2] @ map (\<lambda>i. TiuCopy (a i) (b i)) [0..<4] @ [L2GMatrix tS g'] @ rest) =
    (Some (L, mg_base_reg g, mg_bytes g), mg_base_reg g', mg_bytes g') # products K mem' rest"
proof -
  let ?R = "(mg_base_reg g, mg_bytes g)"
  define m1 where "m1 = multiply K tY tL tR (mem(l := Operand ?R))"
  have m1: "m1 = mem(l := Operand ?R, y := Plane 0 L ?R, y + s := Plane 1 L ?R, y + 2 * s := Plane 2 L ?R, y + 3 * s := Plane 3 L ?R)"
    using mem at shapes s by (simp add: m1_def multiply_def Let_def)
  define m2 where "m2 = m1(y + 4 * s := m1 y, y + 4 * s + 1 := m1 (y + s), y + 4 * s + 2 := m1 (y + 2 * s), y + 4 * s + 3 := m1 (y + 3 * s))"
  have planes: "m1 y = Plane 0 L ?R" "m1 (y + s) = Plane 1 L ?R" "m1 (y + 2 * s) = Plane 2 L ?R" "m1 (y + 3 * s) = Plane 3 L ?R" "m1 0 = Operand L"
    using s mem by (simp_all add: m1)
  have c: "tl_start (a 0) = y" "tl_start (a 1) = y + s" "tl_start (a 2) = y + 2 * s" "tl_start (a 3) = y + 3 * s"
    "tl_start (b 0) = y + 4 * s" "tl_start (b 1) = y + 4 * s + 1" "tl_start (b 2) = y + 4 * s + 2" "tl_start (b 3) = y + 4 * s + 3"
    using copies[of 0] copies[of 1] copies[of 2] copies[of 3] by simp_all
  have four: "[0..<4] = [0, 1, 2, 3 :: nat]" by code_simp
  have "products K m1 (map (\<lambda>i. TiuCopy (a i) (b i)) [0..<4] @ zs) = products K m2 zs" for zs
    unfolding four m2_def using s(2) by (simp add: c del: One_nat_def)
  moreover have "m2 0 = Operand L" "product_at m2 (y + 4 * s) = Some (L, ?R)"
    using planes s(2-4) by (simp_all add: m2_def product_at_def del: One_nat_def)
  ultimately show ?thesis using at m1_def by (intro exI[of _ m2]) simp
qed

lemma convert_planes:
  assumes "0 < kl_npu_num K"
  shows "\<exists>a b tS g. convert_result_and_store K ps gaddr col = Inr (map (\<lambda>i. TiuCopy (a i) (b i)) [0..<4] @ [L2GMatrix tS g]) \<and>
    (\<forall>i. tl_start (a i) = add32 (ml_start ps) (mul32 i (plane_size K (ml_shape_of ps)))) \<and> (\<forall>i. tl_start (b i) = add32 (ml_start tS) i) \<and>
    ml_start tS = add32 (ml_start ps) (mul32 4 (plane_size K (ml_shape_of ps))) \<and> mg_base_reg g = 4 \<and>
    mg_bytes g = matrix_bytes gaddr (ms_n (ml_shape_of ps)) (mul32 4 (ms_col (ml_shape_of ps))) (mul32 4 col)"
  unfolding convert_result_and_store_def Let_def store_matrix_def using assms
  by (simp only: neq0_conv if_not_P less_not_refl not_False_eq_True simp_thms if_False)
    (intro exI conjI, rule refl, simp_all add: plane_size_def mg_bytes_def)

lemma mm_tile_products:
  assumes "shapes_ok K" "sizes_ok K fmt m k n" "0 < kl_npu_num K" "p * n + q < M32" "4 * b < M32" "4 * n < M32" "0 < a" "a \<le> m" "0 < b" "b \<le> n"
  shows "\<exists>xs. mm_tile K fmt n (local_matrix K fmt 0 a k) (kl_matrix_size K (kl_ml_shape K a k fmt) fmt) 0 k p a q b = Inr xs \<and>
    row_products K xs [((3, right_part k n (q, b)), 4, result_part n (p, a) (q, b))]"
proof -
  have n: "n < M32" "b < M32" "p * n < M32" "q < M32" using assms by simp_all
  define l where "l = kl_matrix_size K (kl_ml_shape K a k fmt) fmt"
  define r where "r = kl_matrix_size K (kl_ml_shape K k b fmt) fmt"
  define s where "s = plane_size K (kl_ml_shape K a b fmt)"
  have sz: "0 < l" "0 < s" "l + r + 4 * s + 3 < M32"
    using assms(2,7-10) unfolding sizes_ok_def Let_def l_def r_def s_def M32_def by auto
  then have Y: "(l + r) mod M32 = l + r" "s mod M32 = s" "2 * s mod M32 = 2 * s" "3 * s mod M32 = 3 * s" "4 * s mod M32 = 4 * s"
    "(l + r + s) mod M32 = l + r + s" "(l + r + 2 * s) mod M32 = l + r + 2 * s" "(l + r + 3 * s) mod M32 = l + r + 3 * s"
    "(l + r + 4 * s) mod M32 = l + r + 4 * s" "Suc (l + r + 4 * s) mod M32 = Suc (l + r + 4 * s)" "(l + r + 4 * s + 2) mod M32 = l + r + 4 * s + 2"
    "(l + r + 4 * s + 3) mod M32 = l + r + 4 * s + 3" by simp_all
  let ?tL = "local_matrix K fmt 0 a k" and ?tR = "local_matrix K fmt l k b" and ?tY = "local_matrix K fmt (l + r) a b"
  have at: "ml_start ?tL = 0" "ml_start ?tR = l" "ml_start ?tY = l + r" "ml_shape_of ?tL = kl_ml_shape K a k fmt" "ml_shape_of ?tR = kl_ml_shape K k b fmt"
    "ml_shape_of ?tY = kl_ml_shape K a b fmt" by (simp_all add: local_matrix_def Let_def)
  have sh: "ms_n (kl_ml_shape K x c fmt) = x" "ms_col (kl_ml_shape K x c fmt) = c" for x c using assms(1) by (simp_all add: shapes_ok_def)
  obtain a' b' tS g' where st: "convert_result_and_store K ?tY ((p * n + q) * 4) n = Inr (map (\<lambda>i. TiuCopy (a' i) (b' i)) [0..<4] @ [L2GMatrix tS g'])"
    "\<And>i. tl_start (a' i) = add32 (l + r) (mul32 i s)" "\<And>i. tl_start (b' i) = add32 (ml_start tS) i" "ml_start tS = l + r + 4 * s" "mg_base_reg g' = 4"
    "mg_bytes g' = result_part n (p, a) (q, b)"
    using convert_planes[OF assms(3), of ?tY "(p * n + q) * 4" n] unfolding at s_def[symmetric]
  proof (elim exE conjE)
    fix a' b' tS g' assume c: "convert_result_and_store K ?tY ((p * n + q) * 4) n = Inr (map (\<lambda>i. TiuCopy (a' i) (b' i)) [0..<4] @ [L2GMatrix tS g'])"
      "\<forall>i. tl_start (a' i) = add32 (l + r) (mul32 i s)" "\<forall>i. tl_start (b' i) = add32 (ml_start tS) i" "ml_start tS = add32 (l + r) (mul32 4 s)" "mg_base_reg g' = 4"
      "mg_bytes g' = matrix_bytes ((p * n + q) * 4) (ms_n (kl_ml_shape K a b fmt)) (mul32 4 (ms_col (kl_ml_shape K a b fmt))) (mul32 4 n)"
    show thesis by (rule that[OF c(1)]) (use c(2-6) assms(5,6) Y in \<open>simp_all add: sh rect_part_def add32_def mul32_def\<close>)
  qed
  define g where "g = \<lparr>mg_base_reg = 3, mg_start = q, mg_shape = (k, b), mg_stride_row = n\<rparr>"
  have g: "mg_base_reg g = 3" "mg_bytes g = right_part k n (q, b)" by (simp_all add: g_def mg_bytes_def right_part_def)
  define xs where "xs = [G2LMatrix g ?tR, MatMul ?tY ?tL ?tR 2] @ map (\<lambda>i. TiuCopy (a' i) (b' i)) [0..<4] @ [L2GMatrix tS g']"
  have xs: "mm_tile K fmt n ?tL l 0 k p a q b = Inr xs"
    using st(1) assms(4) n Y by (simp add: mm_tile_def Let_def at r_def[symmetric] add32_def mul32_def bind_res_def load_matrix_def sh g_def xs_def)
  have cp: "tl_start (a' i) = l + r + i * s \<and> tl_start (b' i) = l + r + 4 * s + i" if "i < 4" for i
  proof -
    have "i = 0 \<or> i = 1 \<or> i = 2 \<or> i = 3" using that by linarith
    then show ?thesis using Y by (auto simp: st add32_def mul32_def)
  qed
  have "row_products K xs [((3, right_part k n (q, b)), 4, result_part n (p, a) (q, b))]"
    unfolding row_products_def
  proof (intro allI impI)
    fix L :: operand and mem :: "nat \<Rightarrow> cell" and rest assume "mem 0 = Operand L"
    then show "\<exists>mem'. mem' 0 = Operand L \<and> products K mem (xs @ rest) =
       map (\<lambda>(r, y). (Some (L, r), y)) [((3, right_part k n (q, b)), 4, result_part n (p, a) (q, b))] @ products K mem' rest"
      using tile_product[where K = K and g = g and g' = g' and rest = rest, OF _ at(1-3) st(4) _ _ _ _ sz(2,1) _ cp] by (simp add: at sh s_def xs_def g st(5,6))
  qed
  with xs show ?thesis by (simp add: l_def)
qed

lemma mm_row_products:
  assumes "shapes_ok K" "sizes_ok K fmt m k n" "0 < kl_npu_num K" "0 < n_step" "n_step \<le> n" "4 * m * n < M32" "m * k < M32" "p + a \<le> m" "0 < a"
  shows "\<exists>xs. mm_row K fmt k n n_step 0 k p a = Inr xs \<and>
    (\<forall>mem rest. \<exists>mem'. products K mem (xs @ rest) =
       map (\<lambda>u. (Some ((2, left_part k (p, a)), (3, right_part k n u)), 4, result_part n (p, a) u)) (tiles n_step n) @ products K mem' rest)"
proof -
  let ?t = "local_matrix K fmt 0 a k" and ?y = "\<lambda>u. ((3, right_part k n u), 4, result_part n (p, a) u)"
  have m: "1 \<le> m" "a \<le> m" using assms(8,9) by simp_all
  have n4: "4 * n \<le> 4 * m * n" using m by simp
  have in_row: "p * n + q < M32" if "q < n" for q
  proof -
    have "p * n + q < (p + 1) * n" using that by simp
    also have "\<dots> \<le> m * n" using assms(8,9) by (intro mult_le_mono1) simp
    finally show ?thesis using assms(6) by simp
  qed
  have "p * k \<le> m * k" using assms(8) by simp
  then have pk: "p * k < M32" using assms(7) by linarith
  have t: "ml_shape_of ?t = kl_ml_shape K a k fmt" "ml_start ?t = 0" by (simp_all add: local_matrix_def Let_def)
  have "\<exists>xs. tile_loop n_step n (mm_tile K fmt n ?t (kl_matrix_size K (kl_ml_shape K a k fmt) fmt) 0 k p a) = Inr xs \<and>
    row_products K xs (concat (map (\<lambda>(q, b). [?y (q, b)]) (tiles n_step n)))"
  proof (rule cols.tile_loop_collect)
    show "n + n_step \<le> M32" using assms(5,6) n4 by linarith
    fix q b assume "(q, b) \<in> set (tiles n_step n)"
    then have qb: "0 < b" "q + b \<le> n" using tiles_from_props(2,4) by fastforce+
    then have "b \<le> n" "p * n + q < M32" "4 * b < M32" "4 * n < M32" using in_row[of q] assms(6) n4 by linarith+
    with qb(1) show "\<exists>xs. mm_tile K fmt n ?t (kl_matrix_size K (kl_ml_shape K a k fmt) fmt) 0 k p a q b = Inr xs \<and> row_products K xs [?y (q, b)]"
      using assms(1-3,9) m(2) by (intro mm_tile_products)
  qed (use assms in simp)
  then obtain xs where xs: "tile_loop n_step n (mm_tile K fmt n ?t (kl_matrix_size K (kl_ml_shape K a k fmt) fmt) 0 k p a) = Inr xs"
    "row_products K xs (map ?y (tiles n_step n))"
    by (auto simp: concat_map_singleton case_prod_unfold)
  have "\<exists>mem'. products K mem ((load_matrix ?t (p * k) k 2 # xs) @ rest) =
     map (\<lambda>u. (Some ((2, left_part k (p, a)), (3, right_part k n u)), 4, result_part n (p, a) u)) (tiles n_step n) @ products K mem' rest" for mem rest
  proof -
    have l: "products K mem ((load_matrix ?t (p * k) k 2 # xs) @ rest) = products K (mem(0 := Operand (2, left_part k (p, a)))) (xs @ rest)"
      using assms(1) t by (simp add: load_matrix_def shapes_ok_def mg_bytes_def left_part_def)
    show ?thesis unfolding l
      using xs(2)[unfolded row_products_def, rule_format, of "mem(0 := Operand (2, left_part k (p, a)))" "(2, left_part k (p, a))" rest] by auto
  qed
  moreover have "mm_row K fmt k n n_step 0 k p a = Inr (load_matrix ?t (p * k) k 2 # xs)"
    using xs(1) pk by (simp add: mm_row_def Let_def t bind_res_def mul32_def)
  ultimately show ?thesis by blast
qed

text \<open>The search for a tile.\<close>

lemma largest_fit_Some: "largest_fit f n = Some x \<Longrightarrow> f x \<and> 0 < x \<and> x \<le> n"
  by (induction n) (auto split: if_splits)

lemma largest_fit_None: "largest_fit f n = None \<longleftrightarrow> (\<forall>x. 0 < x \<and> x \<le> n \<longrightarrow> \<not> f x)"
  by (induction n) (auto simp: le_Suc_eq)

lemma align_up_to_bounds: "0 < m \<Longrightarrow> 0 < x \<Longrightarrow> m \<le> align_up_to x m \<and> align_up_to x m < x + m"
proof -
  assume m: "0 < m" "0 < x"
  then have "1 \<le> (x + m - 1) div m" by (simp add: div_greater_zero_iff Suc_leI)
  then have "m \<le> (x + m - 1) div m * m" by simp
  moreover have "(x + m - 1) div m * m \<le> x + m - 1" by (rule div_times_less_eq_dividend)
  ultimately show ?thesis using m unfolding align_up_to_def by linarith
qed

lemma n_search_finds:
  assumes "0 < m" "0 < mn" "0 < n_step" "n_step < fuel" "n_step < M32" "mm_size K fmt 1 k_step (min n_step mn) < kl_lmem_size K"
  shows "\<exists>m' n'. n_search K fmt m k_step mn fuel n_step = Inr (Some (m', n')) \<and> 0 < m' \<and> m' \<le> m \<and> 0 < n' \<and> n' \<le> n_step \<and>
    mm_size K fmt m' k_step n' < kl_lmem_size K"
  using assms(3-6)
proof (induction fuel arbitrary: n_step)
  case (Suc fuel)
  let ?f = "\<lambda>m'. mm_size K fmt m' k_step n_step < kl_lmem_size K"
  show ?case
  proof (cases "largest_fit ?f m")
    case (Some m')
    then show ?thesis using largest_fit_Some[OF Some] Suc.prems(1) by auto
  next
    case None
    then have "\<not> ?f 1" using assms(1) by (auto simp: largest_fit_None)
    then have gt: "mn < n_step" using Suc.prems(4) by (cases "n_step \<le> mn") (auto simp: min_absorb1)
    let ?n = "align_up_to (n_step - mn) mn"
    have b: "mn \<le> ?n" "?n < n_step" using align_up_to_bounds[of mn "n_step - mn"] gt assms(2) by simp_all
    have "n_search K fmt m k_step mn (Suc fuel) n_step = n_search K fmt m k_step mn fuel ?n"
      using None Suc.prems(1,3) gt assms(2) b by (simp add: sub32_def)
    moreover have "\<exists>m' n'. n_search K fmt m k_step mn fuel ?n = Inr (Some (m', n')) \<and> 0 < m' \<and> m' \<le> m \<and> 0 < n' \<and> n' \<le> ?n \<and>
      mm_size K fmt m' k_step n' < kl_lmem_size K"
      using b assms(2) Suc.prems(2-4) gt by (intro Suc.IH) (simp_all add: min_absorb2)
    ultimately show ?thesis using b by fastforce
  qed
qed simp

lemma k_search_finds:
  assumes "0 < k" "0 < m" "0 < mn" "0 < n" "n < M32" "mm_size K fmt 1 k (min n mn) < kl_lmem_size K"
  shows "\<exists>m' n'. k_search K fmt m n mn k = Inr (Some (m', k, n')) \<and> 0 < m' \<and> m' \<le> m \<and> 0 < n' \<and> n' \<le> n \<and> mm_size K fmt m' k n' < kl_lmem_size K"
  using n_search_finds[of m mn n "Suc (M32 + n)" K fmt k] assms by (cases k) (auto simp: bind_res_def simp del: n_search.simps)

text \<open>
  C7: the kernel for matrix multiplication compiles whenever the inner dimension is at most 4095 and
  one row by one step of columns fits the local memory, and what it emits is the whole product: the
  parts of the result it stores are distinct and partition the bytes of the result; each is what a
  multiplication made of the rows of the left and the columns of the right operand that belong to
  it, all of them over the full inner dimension, with its four planes of bytes put side by side; and no part is larger than
  the tile that was checked against the local memory.
\<close>

theorem matrix_mul_tiled:
  assumes "shapes_ok K" "formatTranslate format = Inr fmt" "sizes_ok K fmt m k n"
    and "0 < m" "0 < k" "0 < n" "k \<le> 4095" "4 * m * n < 2 ^ 32" "m * k < 2 ^ 32"
    and "0 < kl_npu_num K" "0 < kl_eu_num K" "kl_eu_num K * kl_npu_num K < 2 ^ 32"
    and "mm_size K fmt 1 k (min n (kl_eu_num K * kl_npu_num K)) < kl_lmem_size K"
  shows "\<exists>prog m_step n_step. matmul_program K format m k n = Inr prog \<and> mm_size K fmt m_step k n_step < kl_lmem_size K \<and>
    (let ps = products K (\<lambda>_. Unset) prog in
       distinct (map (\<lambda>(_, _, y). y) ps) \<and> partition_on {0..<4 * m * n} ((\<lambda>(_, _, y). y) ` set ps) \<and>
       (\<forall>(made, reg, y)\<in>set ps. reg = 4 \<and> (\<exists>i a j b. a \<le> m_step \<and> b \<le> n_step \<and>
          made = Some ((2, left_part k (i, a)), (3, right_part k n (j, b))) \<and> y = result_part n (i, a) (j, b))))"
proof -
  let ?mn = "kl_eu_num K * kl_npu_num K"
  have M: "4 * m * n < M32" "m * k < M32" "?mn < M32" using assms(8,9,12) by (simp_all add: M32_def)
  have "4 * n \<le> 4 * m * n" "4 * m \<le> 4 * m * n" using assms(4,6) by simp_all
  then have small: "4 * n < M32" "4 * m < M32" using M(1) by linarith+
  have "\<exists>m' n'. k_search K fmt m n ?mn k = Inr (Some (m', k, n')) \<and> 0 < m' \<and> m' \<le> m \<and> 0 < n' \<and> n' \<le> n \<and> mm_size K fmt m' k n' < kl_lmem_size K"
    using assms(4-6,10,11,13) small by (intro k_search_finds) simp_all
  then obtain ms ns where found: "k_search K fmt m n ?mn k = Inr (Some (ms, k, ns))" "0 < ms" "ms \<le> m" "0 < ns" "ns \<le> n"
    and fits: "mm_size K fmt ms k ns < kl_lmem_size K" by blast
  let ?ps = "\<lambda>t. map (\<lambda>u. (Some ((2 :: nat, left_part k t), (3 :: nat, right_part k n u)), 4 :: nat, result_part n t u)) (tiles ns n)"
  have "\<exists>xs. tile_loop ms m (mm_row K fmt k n ns 0 k) = Inr xs \<and>
      (\<forall>mem rest. \<exists>mem'. products K mem (xs @ rest) = concat (map (\<lambda>(p, a). ?ps (p, a)) (tiles ms m)) @ products K mem' rest)"
  proof (rule rows.tile_loop_collect)
    show "m + ms \<le> M32" using found(3) small(2) by linarith
    fix p a assume "(p, a) \<in> set (tiles ms m)"
    then have "0 < a" "p + a \<le> m" using tiles_from_props(2,4) by fastforce+
    then show "\<exists>xs. mm_row K fmt k n ns 0 k p a = Inr xs \<and> (\<forall>mem rest. \<exists>mem'. products K mem (xs @ rest) = ?ps (p, a) @ products K mem' rest)"
      using assms(1,3,10) found(4,5) M(1,2) by (intro mm_row_products)
  qed (use found in simp)
  then obtain xs where xs: "tile_loop ms m (mm_row K fmt k n ns 0 k) = Inr xs" "\<And>mem rest. \<exists>mem'. products K mem (xs @ rest) = concat (map ?ps (tiles ms m)) @ products K mem' rest"
    unfolding case_prod_unfold prod.collapse by blast
  have whole: "products K (\<lambda>_. Unset) xs = concat (map ?ps (tiles ms m))"
    using xs(2)[of "\<lambda>_. Unset" "[]"] by simp
  have k1: "tile_loop k k f = bind_res (f 0 k) (\<lambda>a. Inr (a @ []))" for f :: "nat \<Rightarrow> nat \<Rightarrow> instr list res"
    using assms(5,7) by (cases k) (simp_all add: tile_loop_def add32_def M32_def bind_res_def split: sum.splits)
  have prog: "matmul_program K format m k n = Inr xs"
    using assms(2,7) found(1) M(3) xs(1) by (simp add: matmul_program_def bind_res_def mul32_def k1 min_absorb1 assert_res_def)
  let ?pairs = "List.product (tiles ms m) (tiles ns n)"
  have ys: "map (\<lambda>(_, _, y). y) (concat (map ?ps (tiles ms m))) = map (\<lambda>(t, u). result_part n t u) ?pairs"
    by (simp add: map_concat product_concat_map o_def)
  have "distinct (map (\<lambda>(t, u). result_part n t u) ?pairs)"
    using rect_parts_partition(2)[OF found(2,4) assms(6), of 4 m] by (simp add: distinct_map distinct_product tiles_from_distinct)
  moreover have "(\<lambda>(_, _, y). y) ` set (concat (map ?ps (tiles ms m))) = (\<lambda>(t, u). result_part n t u) ` (set (tiles ms m) \<times> set (tiles ns n))"
    using arg_cong[OF ys, of set] by (simp only: set_map set_product)
  moreover have "\<forall>(made, reg, y)\<in>set (concat (map ?ps (tiles ms m))). reg = 4 \<and> (\<exists>i a j b. a \<le> ms \<and> b \<le> ns \<and>
      made = Some ((2, left_part k (i, a)), (3, right_part k n (j, b))) \<and> y = result_part n (i, a) (j, b))"
    using tiles_from_props(3)[of _ 0 ms m] tiles_from_props(3)[of _ 0 ns n] by fastforce
  ultimately show ?thesis
    using prog fits rect_parts_partition(1)[OF found(2,4) assms(6), of 4 m] by (intro exI[of _ xs] exI[of _ ms] exI[of _ ns]) (simp only: whole ys Let_def simp_thms)
qed

definition demo_lib :: kernel_lib where
  "demo_lib = \<lparr>kl_npu_num = 2, kl_eu_num = 2, kl_lmem_size = 100,
     kl_ml_shape = \<lambda>r c f. \<lparr>ms_n = r, ms_c = 1, ms_w = c, ms_col = c\<rparr>, kl_matrix_size = \<lambda>s f. ms_n s * ms_col s,
     kl_ps32_size = \<lambda>s f. 4 * (ms_n s * ms_col s), kl_tensor_size = \<lambda>s f. s ! 0 * s ! 2 * s ! 3, kl_ml_stride = \<lambda>s f a. [ms_col s],
     kl_tl_stride = \<lambda>s f. s, kl_tg_stride = \<lambda>s f. s, kl_encode = \<lambda>i. []\<rparr>"

theorem matrix_mul_tiled_witness:
  "\<exists>prog m_step n_step. matmul_program demo_lib CVI_FMT_INT8 3 2 5 = Inr prog \<and> mm_size demo_lib CVK_FMT_I8 m_step 2 n_step < 100 \<and>
    (let ps = products demo_lib (\<lambda>_. Unset) prog in
       distinct (map (\<lambda>(_, _, y). y) ps) \<and> partition_on {0..<60} ((\<lambda>(_, _, y). y) ` set ps) \<and>
       (\<forall>(made, reg, y)\<in>set ps. reg = 4 \<and> (\<exists>i a j b. a \<le> m_step \<and> b \<le> n_step \<and>
          made = Some ((2, left_part 2 (i, a)), (3, right_part 2 5 (j, b))) \<and> y = result_part 5 (i, a) (j, b))))"
proof -
  have "0 < 2 * a \<and> 0 < a * b \<and> 2 * a + 2 * b + 4 * (a * b) + 3 < 2 ^ 32" if "0 < a" "a \<le> 3" "0 < b" "b \<le> 5" for a b :: nat
    using mult_le_mono[OF that(2,4)] that by simp
  then have "sizes_ok demo_lib CVK_FMT_I8 3 2 5" by (simp add: sizes_ok_def demo_lib_def Let_def plane_size_def mult.commute[of 2])
  then show ?thesis
    using matrix_mul_tiled[of demo_lib CVI_FMT_INT8 CVK_FMT_I8 3 2 5]
    by (simp add: demo_lib_def shapes_ok_def formatTranslate_def mm_size_def Let_def add32_def mul32_def M32_def)
qed

text \<open>
  The limit of 4095 on the number of rows and columns of a tile is lost in the search: a tile may have
  as many rows as fit the memory.
\<close>

lemma row_limit_lost:
  assumes "0 < m" "mm_size K fmt m k n < kl_lmem_size K" "0 < k" "k \<le> 4095" "0 < n"
  shows "k_search K fmt m n (mul32 (kl_eu_num K) (kl_npu_num K)) (min k 4095) = Inr (Some (m, k, n))"
proof -
  have "largest_fit (\<lambda>m'. mm_size K fmt m' k n < kl_lmem_size K) m = Some m" using assms(1,2) by (cases m) simp_all
  then show ?thesis using assms(3-5) by (cases k) (simp_all add: bind_res_def)
qed

end
