(* ===== verification/KernelLight.thy ===== *)
theory KernelLight
  imports KernelTile
begin

text \<open>
  The kernel for the background light of a gray image: every pixel of the background is pooled from
  the whole window around it, and the blocks walk over the image once.
\<close>

section \<open>Where the data comes from\<close>

text \<open>
  The bytes of the global memory an element of a local tensor is computed from, each by its base
  register and its address. A tensor of the local memory is known by the address it starts at and
  is given by channel, row and column. The maximum over a window of a padded tensor is
  defined when the windows fill the output; an element-wise operation is computed from the elements of its
  operands, and the exclusive or of a tensor with itself from nothing.
\<close>

type_synonym source = "nat \<times> nat"

type_synonym tensor = "nat \<Rightarrow> nat \<Rightarrow> nat \<Rightarrow> source set"

definition tg_address :: "cvk_tg \<Rightarrow> nat \<Rightarrow> nat \<Rightarrow> nat \<Rightarrow> source" where
  "tg_address g c r d = (tg_base_reg_index g, tg_start_address g + c * tg_stride g ! 1 + r * tg_stride g ! 2 + d)"

definition in_window :: "int \<Rightarrow> int \<Rightarrow> int \<Rightarrow> nat \<Rightarrow> nat \<Rightarrow> bool" where
  "in_window k stride pad i r \<longleftrightarrow> int i * stride - pad \<le> int r \<and> int r < int i * stride - pad + k"

definition pooled :: "cvk_tl \<Rightarrow> cvk_tl \<Rightarrow> int \<Rightarrow> int \<Rightarrow> int \<Rightarrow> int \<Rightarrow> int \<Rightarrow> int \<Rightarrow> int \<Rightarrow> int \<Rightarrow> tensor \<Rightarrow> tensor" where
  "pooled y x kh kw pt pb pl pr sh sw f c i j =
    (if int (tl_shape y ! 2) = (int (tl_shape x ! 2) + pt + pb - kh) div sh + 1 \<and> int (tl_shape y ! 3) = (int (tl_shape x ! 3) + pl + pr - kw) div sw + 1
     then \<Union> {f c r d |r d. r < tl_shape x ! 2 \<and> d < tl_shape x ! 3 \<and> in_window kh sh pt i r \<and> in_window kw sw pl j d} else {})"

definition join :: "(nat \<Rightarrow> tensor) \<Rightarrow> cvk_tl list \<Rightarrow> tensor" where
  "join mem ts c r d = (\<Union>t\<in>set ts. mem (tl_start t) c r d)"

text \<open>What a program stores: for every element the place it is written to and what it is computed from.\<close>

definition elements :: "nat list \<Rightarrow> (nat \<Rightarrow> nat \<Rightarrow> nat \<Rightarrow> 'a) \<Rightarrow> 'a list" where
  "elements shape f = concat (map (\<lambda>c. concat (map (\<lambda>r. map (f c r) [0..<shape ! 3]) [0..<shape ! 2])) [0..<shape ! 1])"

fun flow :: "(nat \<Rightarrow> tensor) \<Rightarrow> instr list \<Rightarrow> (source \<times> source set) list" where
  "flow mem [] = []"
| "flow mem (G2LTensor g t # is) = flow (mem(tl_start t := \<lambda>c r d. {tg_address g c r d})) is"
| "flow mem (MaxPool y x kh kw pt pb pl pr sh sw # is) = flow (mem(tl_start y := pooled y x kh kw pt pb pl pr sh sw (mem (tl_start x)))) is"
| "flow mem (TiuGe y a b # is) = flow (mem(tl_start y := join mem [a, b])) is"
| "flow mem (TiuMulConst yh yl a v # is) = flow (mem(tl_start yh := join mem [a], tl_start yl := join mem [a])) is"
| "flow mem (TiuXor y a b # is) = flow (mem(tl_start y := if a = b then (\<lambda>_ _ _. {}) else join mem [a, b])) is"
| "flow mem (TiuSub (Some yh) yl (Some ah) al (Some bh) bl # is) = flow (mem(tl_start yh := join mem [ah, al, bh, bl], tl_start yl := join mem [ah, al, bh, bl])) is"
| "flow mem (TiuAddConst yh yl ah al v # is) = flow (mem(tl_start yh := join mem [ah, al], tl_start yl := join mem [ah, al])) is"
| "flow mem (TiuAdd y ah al bh bl # is) = flow (mem(tl_start y := join mem [ah, al, bh, bl])) is"
| "flow mem (L2GTensor t g # is) = elements (tl_shape t) (\<lambda>c r d. (tg_address g c r d, mem (tl_start t) c r d)) @ flow mem is"
| "flow mem (i # is) = flow mem is"

abbreviation nothing :: "nat \<Rightarrow> tensor" where
  "nothing \<equiv> \<lambda>_ _ _ _. {}"

text \<open>
  The laws of the library: default strides have no gaps, and a block of as many lanes as there are is
  not empty and takes one row of its lanes in each.
\<close>

definition strides_ok :: "kernel_lib \<Rightarrow> bool" where
  "strides_ok K = (\<forall>n c h w. let s = kl_tg_stride K [n, c, h, w] CVK_FMT_U8 in s ! 1 = h * w \<and> s ! 2 = w)"

definition blocks_ok :: "kernel_lib \<Rightarrow> bool" where
  "blocks_ok K = (\<forall>c h. 0 < c \<and> c \<le> kl_npu_num K \<and> 0 < h \<longrightarrow>
     (let s = kl_tensor_size K [1, c, h, kl_eu_num K] CVK_FMT_U8 in 0 < s \<and> s \<le> h * kl_eu_num K))"

lemma as_u32_id: "0 \<le> i \<Longrightarrow> i < 2 ^ 32 \<Longrightarrow> as_u32 i = nat i"
  by (simp add: as_u32_def)

lemma as_u64_id: "0 \<le> i \<Longrightarrow> i < 2 ^ 64 \<Longrightarrow> as_u64 i = nat i"
  by (simp add: as_u64_def)

lemma as_u_int [simp]: "n < 2 ^ 32 \<Longrightarrow> as_u32 (int n) = n" "n < 2 ^ 64 \<Longrightarrow> as_u64 (int n) = n"
  by (simp_all add: as_u32_id as_u64_id)

lemma s32_int [simp]: "n < 2 ^ 31 \<Longrightarrow> to_s32 (int n) = int n"
  by (simp add: to_s32_id)

lemma sdiv_nonneg: "0 \<le> a \<Longrightarrow> 0 < b \<Longrightarrow> a sdiv b = a div b" for a b :: int
  by (cases "a = 0") (simp_all add: signed_divide_int_def sgn_if)

text \<open>As long as positions stay in their range, a loop with signed positions is one with unsigned ones.\<close>

lemma stile_from_nat:
  assumes "n + step < 2 ^ 31"
  shows "stile_from fuel (int pos) (int step) (int n) f = tile_from fuel pos step n (\<lambda>p l. f (int p) (int l))"
proof (induction fuel arbitrary: pos)
  case (Suc fuel)
  have "to_s32 (int pos + int step) = int (add32 pos step)" "min (to_s32 (int n - int pos)) (int step) = int (min (n - pos) step)" if "pos < n"
  proof -
    show "to_s32 (int pos + int step) = int (add32 pos step)" using that assms by (simp add: to_s32_id add32_def M32_def)
    have "to_s32 (int n - int pos) = int n - int pos" using that assms by (intro to_s32_id) simp_all
    then show "min (to_s32 (int n - int pos)) (int step) = int (min (n - pos) step)" using that by (auto simp: min_def of_nat_diff)
  qed
  with Suc.IH show ?case by (simp add: bind_res_def cong: if_cong)
qed simp

lemma stile_loop_nat:
  assumes "n + step < 2 ^ 31"
  shows "stile_loop (int step) (int n) f = tile_from (Suc M32) 0 step n (\<lambda>p l. f (int p) (int l))"
  using stile_from_nat[OF assms, of "Suc M32" 0 f] by (simp add: stile_loop_def)

section \<open>Blocks\<close>

lemma concat_upt: "concat (map (\<lambda>r. map (\<lambda>d. f (p + r * w + d)) [0..<w]) [0..<h]) = map f [p..<p + h * w]"
proof (induction h)
  case (Suc h)
  have "map (\<lambda>d. f (p + h * w + d)) [0..<w] = map f [p + h * w..<p + h * w + w]"
    by (simp add: map_add_upt[symmetric] o_def add.commute)
  moreover have "[p..<p + Suc h * w] = [p..<p + h * w] @ [p + h * w..<p + h * w + w]"
    using upt_add_eq_append[of p "p + h * w" w] by (simp add: ac_simps)
  ultimately show ?case using Suc.IH by simp
qed simp

lemma elements_block: "elements [n, c, h, w] (\<lambda>a r d. f (p + a * (h * w) + r * w + d)) = map f [p..<p + c * (h * w)]"
proof -
  have "concat (map (\<lambda>a. concat (map (\<lambda>r. map (\<lambda>d. f (p + a * (h * w) + r * w + d)) [0..<w]) [0..<h])) [0..<c]) =
    concat (map (\<lambda>a. map f [p + a * (h * w)..<p + a * (h * w) + h * w]) [0..<c])" by (simp only: concat_upt)
  also have "\<dots> = concat (map (\<lambda>a. map (\<lambda>d. f (p + a * (h * w) + d)) [0..<h * w]) [0..<c])"
    by (simp add: map_add_upt[symmetric] o_def add.commute)
  finally show ?thesis by (simp only: concat_upt elements_def nth_Cons_numeral nth_Cons_0 numeral_2_eq_2 numeral_3_eq_3 nth_Cons_Suc One_nat_def)
qed

text \<open>What the blocks from \<open>a\<close> to \<open>b\<close> store: each byte is computed from the bytes of the image and of the background at its own place.\<close>

definition combined :: "nat \<Rightarrow> source \<times> source set" where
  "combined x = ((3, x), {(2, x), (3, x)})"

definition blocks_of :: "instr list \<Rightarrow> nat \<Rightarrow> nat \<Rightarrow> bool" where
  "blocks_of xs a b \<longleftrightarrow> a \<le> b \<and> (\<forall>mem rest. \<exists>mem'. flow mem (xs @ rest) = map combined [a..<b] @ flow mem' rest)"

lemma blocks_of_nil: "blocks_of [] a a"
  by (auto simp: blocks_of_def)

lemma blocks_of_append:
  assumes "blocks_of xs a m" "blocks_of ys m b"
  shows "blocks_of (xs @ ys) a b"
  unfolding blocks_of_def
proof (intro conjI allI)
  show "a \<le> b" using assms by (simp add: blocks_of_def)
  fix mem rest
  obtain mem1 where "flow mem (xs @ ys @ rest) = map combined [a..<m] @ flow mem1 (ys @ rest)" using assms(1) unfolding blocks_of_def by blast
  moreover obtain mem2 where "flow mem1 (ys @ rest) = map combined [m..<b] @ flow mem2 rest" using assms(2) unfolding blocks_of_def by blast
  moreover have "[a..<b] = [a..<m] @ [m..<b]" using assms by (auto simp: blocks_of_def upt_add_eq_append[symmetric] dest: le_Suc_ex)
  ultimately show "\<exists>mem'. flow mem ((xs @ ys) @ rest) = map combined [a..<b] @ flow mem' rest" by auto
qed

text \<open>The operations on one block, with its six tensors one behind the other; the mask and its high half are seen in two formats.\<close>

lemma block_flow:
  assumes at: "tl_start x = 0" "tl_start bkg = s" "tl_start mk = 2 * s" "tl_start mk1 = 2 * s" "tl_start df = 3 * s" "tl_start hi = 4 * s" "tl_start hi1 = 4 * s" "tl_start dh = 5 * s"
    and s: "0 < s"
  shows "\<exists>mem'. flow mem ([G2LTensor g x, G2LTensor g' bkg, TiuGe mk x bkg, TiuMulConst hi1 mk1 mk1 255, TiuXor hi hi hi, TiuSub (Some dh) df (Some hi) x (Some hi) bkg,
      TiuAddConst dh df dh df 255, TiuAdd mk dh df hi1 mk1, L2GTensor mk o'] @ rest) =
    elements (tl_shape mk) (\<lambda>c r d. (tg_address o' c r d, {tg_address g c r d, tg_address g' c r d})) @ flow mem' rest"
proof -
  let ?b = "\<lambda>c r d. {tg_address g c r d, tg_address g' c r d}"
  define m1 where "m1 = mem(0 := \<lambda>c r d. {tg_address g c r d}, s := \<lambda>c r d. {tg_address g' c r d}, 2 * s := ?b)"
  define m2 where "m2 = m1(4 * s := \<lambda>_ _ _. {}, 5 * s := ?b, 3 * s := ?b)"
  have 1: "join (mem(0 := \<lambda>c r d. {tg_address g c r d}, s := \<lambda>c r d. {tg_address g' c r d})) [x, bkg] = ?b"
    using s by (auto simp: join_def at fun_eq_iff)
  have 2: "join m1 [mk1] = ?b" "m1(4 * s := ?b, 2 * s := ?b) = m1(4 * s := ?b)" using s by (auto simp: join_def at m1_def fun_eq_iff)
  have 3: "join (m1(4 * s := \<lambda>_ _ _. {})) [hi, x, hi, bkg] = ?b" using s by (auto simp: join_def at m1_def fun_eq_iff)
  have 4: "join m2 [dh, df] = ?b" "m2(5 * s := ?b, 3 * s := ?b) = m2" using s by (auto simp: join_def at m2_def fun_eq_iff)
  have 5: "join m2 [dh, df, hi1, mk1] = ?b" using s by (auto simp: join_def at m2_def m1_def fun_eq_iff)
  have "flow mem ([G2LTensor g x, G2LTensor g' bkg, TiuGe mk x bkg, TiuMulConst hi1 mk1 mk1 255, TiuXor hi hi hi, TiuSub (Some dh) df (Some hi) x (Some hi) bkg,
      TiuAddConst dh df dh df 255, TiuAdd mk dh df hi1 mk1, L2GTensor mk o'] @ rest) = flow (m2(2 * s := ?b)) (L2GTensor mk o' # rest)"
    unfolding append_Cons append_Nil flow.simps at 1 m1_def[symmetric] 2 simp_thms if_True fun_upd_upd 3 m2_def[symmetric] 4 5 ..
  then show ?thesis using at by auto
qed

lemma compute_blocks:
  assumes "strides_ok K" "blocks_ok K" "0 < c" "c \<le> kl_npu_num K" "0 < h" "0 < kl_eu_num K" "6 * (h * kl_eu_num K) < kl_lmem_size K"
    and "kl_npu_num K < 2 ^ 32" "kl_lmem_size K < 2 ^ 32" "p < 2 ^ 31"
  shows "\<exists>xs. compute K (int p) (int c) (int h) (int (kl_eu_num K)) = Inr xs \<and> blocks_of xs p (p + c * h * kl_eu_num K)"
proof -
  define s where "s = kl_tensor_size K [1, c, h, kl_eu_num K] CVK_FMT_U8"
  have s: "0 < s" "s \<le> h * kl_eu_num K" using assms(2-5) by (simp_all add: blocks_ok_def s_def Let_def)
  have "kl_eu_num K \<le> h * kl_eu_num K" "h \<le> h * kl_eu_num K" using assms(5,6) by simp_all
  then have u: "as_u32 (int c) = c" "as_u32 (int h) = h" "as_u32 (int (kl_eu_num K)) = kl_eu_num K" "as_u64 (int p) = p"
    using assms(4,7-10) by (intro as_u_int, linarith, intro as_u_int, linarith, intro as_u_int, linarith, simp)
  have m: "mul32 i s = i * s" "mul32 i s < kl_lmem_size K" if "i \<le> 6" for i
    using mult_le_mono[OF that s(2)] assms(7,9) by (simp_all add: mul32_def M32_def)
  have st: "kl_tg_stride K [1, c, h, kl_eu_num K] CVK_FMT_U8 ! 1 = h * kl_eu_num K" "kl_tg_stride K [1, c, h, kl_eu_num K] CVK_FMT_U8 ! 2 = kl_eu_num K"
    using assms(1) by (simp_all add: strides_ok_def Let_def)
  define G where "G = (\<lambda>b. \<lparr>tg_base_reg_index = b, tg_start_address = p, tg_fmt = CVK_FMT_U8, tg_shape = [1, c, h, kl_eu_num K], tg_stride = kl_tg_stride K [1, c, h, kl_eu_num K] CVK_FMT_U8\<rparr>)"
  define T where "T = (\<lambda>i fmt. \<lparr>tl_start = mul32 i s, tl_fmt = fmt, tl_shape = [1, c, h, kl_eu_num K], tl_stride = kl_tl_stride K [1, c, h, kl_eu_num K] CVK_FMT_U8\<rparr>)"
  define xs where "xs = [G2LTensor (G 2) (T 0 CVK_FMT_U8), G2LTensor (G 3) (T 1 CVK_FMT_U8), TiuGe (T 2 CVK_FMT_U8) (T 0 CVK_FMT_U8) (T 1 CVK_FMT_U8),
    TiuMulConst (T 4 CVK_FMT_I8) (T 2 CVK_FMT_I8) (T 2 CVK_FMT_I8) 255, TiuXor (T 4 CVK_FMT_U8) (T 4 CVK_FMT_U8) (T 4 CVK_FMT_U8),
    TiuSub (Some (T 5 CVK_FMT_I8)) (T 3 CVK_FMT_I8) (Some (T 4 CVK_FMT_U8)) (T 0 CVK_FMT_U8) (Some (T 4 CVK_FMT_U8)) (T 1 CVK_FMT_U8),
    TiuAddConst (T 5 CVK_FMT_I8) (T 3 CVK_FMT_I8) (T 5 CVK_FMT_I8) (T 3 CVK_FMT_I8) 255,
    TiuAdd (T 2 CVK_FMT_U8) (T 5 CVK_FMT_I8) (T 3 CVK_FMT_I8) (T 4 CVK_FMT_I8) (T 2 CVK_FMT_I8), L2GTensor (T 2 CVK_FMT_U8) (G 3)]"
  have xs: "compute K (int p) (int c) (int h) (int (kl_eu_num K)) = Inr xs"
    using m(2)[of 6] by (simp add: compute_def Let_def u s_def[symmetric, unfolded One_nat_def] assert_res_def xs_def T_def G_def load_tensor_def store_tensor_def)
  have at: "tl_start (T i fmt) = i * s" if "i \<le> 6" for i fmt using m(1)[OF that] by (simp add: T_def)
  have el: "elements (tl_shape (T 2 CVK_FMT_U8)) (\<lambda>a r d. (tg_address (G 3) a r d, {tg_address (G 2) a r d, tg_address (G 3) a r d})) =
      map combined [p..<p + c * (h * kl_eu_num K)]"
    using elements_block[of 1 c h "kl_eu_num K" combined p] by (simp add: T_def G_def tg_address_def st[unfolded One_nat_def] combined_def)
  have "\<exists>mem'. flow mem (xs @ rest) = map combined [p..<p + c * (h * kl_eu_num K)] @ flow mem' rest" for mem rest
    unfolding xs_def using block_flow[OF _ _ _ _ _ _ _ _ s(1), of "T 0 CVK_FMT_U8" "T 1 CVK_FMT_U8" "T 2 CVK_FMT_U8" "T 2 CVK_FMT_I8" "T 3 CVK_FMT_I8"
        "T 4 CVK_FMT_U8" "T 4 CVK_FMT_I8" "T 5 CVK_FMT_I8" mem "G 2" "G 3" "G 3" rest] by (simp only: at el)
  then have "blocks_of xs p (p + c * h * kl_eu_num K)" by (simp add: blocks_of_def mult.assoc)
  with xs show ?thesis by blast
qed

lemma block_loop_blocks:
  assumes "strides_ok K" "blocks_ok K" "0 < kl_npu_num K" "0 < h" "0 < kl_eu_num K" "6 * (h * kl_eu_num K) < kl_lmem_size K"
    and "kl_npu_num K < 2 ^ 32" "kl_lmem_size K < 2 ^ 32" "p + i * (kl_npu_num K * h * kl_eu_num K) < 2 ^ 31"
  shows "\<exists>xs. block_loop K (int (kl_npu_num K)) (int (kl_eu_num K)) (int h) i p = Inr (xs, p + i * (kl_npu_num K * h * kl_eu_num K)) \<and>
    blocks_of xs p (p + i * (kl_npu_num K * h * kl_eu_num K))"
  using assms(9)
proof (induction i arbitrary: p)
  case (Suc i)
  let ?b = "kl_npu_num K * h * kl_eu_num K"
  have small: "p < 2 ^ 31" "p + ?b < 2 ^ 31" "p + ?b + i * ?b < 2 ^ 31" using Suc.prems by simp_all
  obtain xs where xs: "compute K (int p) (int (kl_npu_num K)) (int h) (int (kl_eu_num K)) = Inr xs" "blocks_of xs p (p + ?b)"
    using compute_blocks[OF assms(1,2,3) order.refl assms(4-8) small(1)] by blast
  obtain ys where ys: "block_loop K (int (kl_npu_num K)) (int (kl_eu_num K)) (int h) i (p + ?b) = Inr (ys, p + ?b + i * ?b)" "blocks_of ys (p + ?b) (p + ?b + i * ?b)"
    using Suc.IH[OF small(3)] by blast
  have "as_u32 (int (kl_npu_num K) * int h * int (kl_eu_num K)) = ?b" using small(2) as_u_int(1)[of ?b] by simp
  then have "add32 p (as_u32 (int (kl_npu_num K) * int h * int (kl_eu_num K))) = p + ?b" using small(2) by (simp add: add32_def M32_def)
  then have "block_loop K (int (kl_npu_num K)) (int (kl_eu_num K)) (int h) (Suc i) p = Inr (xs @ ys, p + ?b + i * ?b)"
    using xs(1) ys(1) small(1) by (simp add: bind_res_def)
  moreover have "p + Suc i * ?b = p + ?b + i * ?b" by simp
  ultimately show ?case using blocks_of_append[OF xs(2) ys(2)] by metis
qed (simp add: blocks_of_nil)

lemma light_blocks_covers:
  assumes K: "strides_ok K" "blocks_ok K" "0 < kl_npu_num K" "0 < kl_eu_num K" "6 * kl_eu_num K \<le> kl_lmem_size K" "\<not> 6 * kl_eu_num K dvd kl_lmem_size K"
    "kl_npu_num K * kl_lmem_size K < 2 ^ 31" and sz: "kl_eu_num K dvd sz" "sz < 2 ^ 31"
  shows "\<exists>xs. light_blocks K (int sz) = Inr xs \<and> blocks_of xs 0 sz"
proof -
  define eu npu h where "eu = kl_eu_num K" and "npu = kl_npu_num K" and "h = min (kl_lmem_size K div (eu * 6)) (4096 - 32)"
  define full where "full = npu * eu * h"
  define rem where "rem = sz mod full"
  define c where "c = rem div (eu * h)"
  define rem2 where "rem2 = rem mod (eu * h)"
  have eu: "0 < eu" "0 < npu" using K(3,4) by (simp_all add: eu_def npu_def)
  have h: "0 < h" using K(4,5) by (simp add: h_def eu_def div_greater_zero_iff mult.commute)
  have fits: "6 * (x * eu) < kl_lmem_size K" if "x \<le> h" for x
  proof -
    have "x \<le> kl_lmem_size K div (eu * 6)" using that by (simp add: h_def)
    then have "x * (eu * 6) \<le> kl_lmem_size K div (eu * 6) * (eu * 6)" by (rule mult_le_mono1)
    also have "\<dots> < kl_lmem_size K"
      using K(6) div_times_less_eq_dividend[of "kl_lmem_size K" "eu * 6"] by (metis dvd_triv_right eu_def le_neq_implies_less mult.commute)
    finally show ?thesis by (simp add: mult_ac)
  qed
  have lm: "npu \<le> npu * kl_lmem_size K" "kl_lmem_size K \<le> npu * kl_lmem_size K" using eu K(4,5) by (simp_all add: eu_def)
  have "eu * h \<le> kl_lmem_size K" using fits[of h] by (simp add: mult.commute)
  then have "npu * (eu * h) \<le> npu * kl_lmem_size K" by (rule mult_le_mono2)
  then have b: "full < 2 ^ 31" "npu < 2 ^ 31" "kl_lmem_size K < 2 ^ 31" "eu * h < 2 ^ 31" "6 * eu < 2 ^ 31" "eu < 2 ^ 31"
    using K(5,7) lm \<open>eu * h \<le> kl_lmem_size K\<close> unfolding eu_def[symmetric] npu_def[symmetric] full_def mult.assoc by linarith+
  note cb = compute_blocks[OF K(1,2), folded eu_def npu_def, OF _ _ _ eu(1) fits]
  have pos: "0 < full" "0 < eu * h" using eu h by (simp_all add: full_def)
  have "rem < full" using pos(1) by (simp add: rem_def)
  then have c: "c \<le> npu" using pos by (simp add: c_def full_def less_mult_imp_div_less less_imp_le mult_ac)
  have r2: "rem2 < eu * h" using pos(2) by (simp add: rem2_def)
  have "eu dvd rem2" using sz(1) by (simp add: rem2_def rem_def full_def eu_def dvd_mod)
  then obtain q where q: "rem2 = eu * q" by (elim dvdE)
  have "q < h" using r2 eu q by simp
  have rem: "rem = c * h * eu + rem2" unfolding c_def rem2_def using div_mult_mod_eq[of rem "eu * h"] by (simp add: mult_ac)
  have sum: "sz = sz div full * full + (c * h * eu + rem2)" using div_mult_mod_eq[of sz full] rem unfolding rem_def by linarith
  define o1 o2 where "o1 = sz div full * full" and "o2 = o1 + c * h * eu"
  have o: "o1 < 2 ^ 31" "o2 < 2 ^ 31" "sz = o2 + rem2" "c < 2 ^ 31" "rem < 2 ^ 31" "sz div full < 2 ^ 31"
    using sum sz(2) c b(2) \<open>rem < full\<close> b(1) div_le_dividend[of sz full] unfolding o1_def o2_def by linarith+
  obtain xs where A: "block_loop K (int npu) (int eu) (int h) (sz div full) 0 = Inr (xs, o1)" "blocks_of xs 0 o1"
    using block_loop_blocks[OF K(1,2,3) h K(4), of 0 "sz div full"] fits[of h] b o(1) by (auto simp: eu_def npu_def full_def o1_def mult_ac)
  obtain ys where B: "(if c \<noteq> 0 then compute K (int o1) (int c) (int h) (int eu) else Inr []) = Inr ys" "blocks_of ys o1 o2"
    using cb[of c h o1] c h b o(1) by (cases "c = 0") (auto simp: o2_def blocks_of_nil)
  obtain zs where C: "(if rem2 \<noteq> 0 then compute K (int o2) 1 (int q) (int eu) else Inr []) = Inr zs" "blocks_of zs o2 sz"
    using cb[of 1 q o2] eu b o(2,3) q \<open>q < h\<close> by (cases "q = 0") (auto simp: blocks_of_nil mult.commute)
  have up: "ceiling_int (int rem2) (int eu) = int q"
  proof -
    have e: "int rem2 + int eu - 1 = (int eu - 1) + int q * int eu" using q by (simp add: mult.commute)
    have "rem2 + eu < 2 ^ 31" using r2 fits[of "Suc q"] b(3) q \<open>q < h\<close> by (simp add: mult_ac)
    then have "to_s32 (int rem2 + int eu - 1) = int rem2 + int eu - 1" "0 \<le> int rem2 + int eu - 1" using eu(1) by (simp_all add: to_s32_id)
    then have "ceiling_int (int rem2) (int eu) = (int rem2 + int eu - 1) div int eu" using eu(1) by (simp only: ceiling_int_def sdiv_nonneg of_nat_0_less_iff)
    also have "\<dots> = int q" unfolding e using eu(1) by (subst div_mult_self1) simp_all
    finally show ?thesis .
  qed
  have h32: "min (to_s32 (int (kl_lmem_size K div as_u32 (int eu * 6)))) (4096 - 32) = int h"
  proof -
    have "as_u32 (int eu * 6) = eu * 6" using as_u_int(1)[of "eu * 6"] b(5) by (simp add: mult.commute)
    moreover have "kl_lmem_size K div (eu * 6) < 2 ^ 31" using div_le_dividend[of "kl_lmem_size K" "eu * 6"] b(3) by linarith
    ultimately show ?thesis by (simp add: h_def min_def)
  qed
  have u: "as_u32 (int npu * int eu * int h) = full" "as_u32 (int eu * int h) = eu * h" "as_u32 (int sz) = sz" "as_u32 (int eu * 6) = 6 * eu" "as_u32 (int c * int h * int eu) = c * h * eu"
    using as_u_int(1)[of full] as_u_int(1)[of "eu * h"] as_u_int(1)[of sz] as_u_int(1)[of "6 * eu"] as_u_int(1)[of "c * h * eu"] b sz(2) o(2)
    by (simp_all add: full_def o2_def mult_ac)
  have off: "(if int c \<noteq> 0 then add32 o1 (c * h * eu) else o1) = o2" using o(2) by (simp add: o2_def add32_def M32_def)
  have s: "to_s32 (int (kl_eu_num K)) = int eu" "to_s32 (int (kl_npu_num K)) = int npu" "to_s32 (int (sz div full)) = int (sz div full)"
    "to_s32 (int c) = int c" "to_s32 (int o1) = int o1" "to_s32 (int o2) = int o2" "to_s32 (int rem2) = int rem2" "to_s32 (int (rem div (eu * h))) = int c"
    using b o r2 by (simp_all add: eu_def npu_def c_def)
  have nz: "6 * eu \<noteq> 0" "int h \<noteq> 0" "full \<noteq> 0" "eu * h \<noteq> 0" using eu h pos by simp_all
  have "light_blocks K (int sz) = (if rem = 0 then Inr xs else bind_res (Inr ys) (\<lambda>b. bind_res (Inr zs) (\<lambda>c. Inr (xs @ b @ c))))"
    unfolding light_blocks_def Let_def s u(4) if_not_P[OF nz(1)] h32[unfolded u(4)] u if_not_P[OF nz(3)] if_not_P[OF nz(4)] nat_int A(1) rem_def[symmetric] rem2_def[symmetric] off up
      assert_res_def if_P[OF nz(2)]
    using B(1) C(1) off by (cases "c = 0"; cases "rem2 = 0") (auto simp: bind_res_def s u up)
  moreover have "ys = []" "zs = []" if "rem = 0" using that B(1) C(1) by (simp_all add: c_def rem2_def)
  ultimately have "light_blocks K (int sz) = Inr (xs @ ys @ zs)" by (simp add: bind_res_def)
  moreover have "blocks_of (xs @ ys @ zs) 0 sz" by (rule blocks_of_append[OF A(2) blocks_of_append[OF B(2) C(2)]])
  ultimately show ?thesis by blast
qed

section \<open>Tiles of the background\<close>

text \<open>
  The extent of a tile is its window cut off at the border of the image; with the padding it is the whole
  window, and it is no larger than the tile that was checked against the local memory.
\<close>

lemma tile_extent_window:
  assumes "0 \<le> pos" "0 < cur" "pos + cur \<le> ih" "0 \<le> pad" "pad < k" "ih + k < 2 ^ 31"
  shows "let e = tile_extent ih k 1 pad pos cur in ex_top e = max (pos - pad) 0 \<and> ex_bot e = min (pos + cur - 1 + k - pad) ih \<and>
    ex_top e < ex_bot e \<and> ex_top e - ex_pad_t e = pos - pad \<and> ex_bot e + ex_pad_b e = pos + cur - 1 + k - pad"
  using assms by (auto simp: tile_extent_def Let_def max_def min_def to_s32_id)

text \<open>The background of a pixel: the pixels of the image in the window around it.\<close>

definition window :: "nat \<Rightarrow> nat \<Rightarrow> nat \<Rightarrow> nat \<Rightarrow> nat \<Rightarrow> source set" where
  "window h w k i j = (let pad = (k - 1) div 2 in
     {(2, r * w + d) |r d. r < h \<and> d < w \<and> i \<le> r + pad \<and> r + pad < i + k \<and> j \<le> d + pad \<and> d + pad < j + k})"

definition background :: "nat \<Rightarrow> nat \<Rightarrow> nat \<Rightarrow> nat \<times> nat \<Rightarrow> nat \<times> nat \<Rightarrow> (source \<times> source set) list" where
  "background h w k t u = elements [1, 1, snd t, snd u] (\<lambda>_ r d. ((3, (fst t + r) * w + (fst u + d)), window h w k (fst t + r) (fst u + d)))"

interpretation img: tile_collect "\<lambda>xs ys. \<forall>mem rest. \<exists>mem'. flow mem (xs @ rest) = ys @ flow mem' rest"
proof
  show "\<forall>mem rest. \<exists>mem'. flow mem ([] @ rest) = [] @ flow mem' rest" by auto
qed (metis append.assoc)

text \<open>The maximum over the loaded part of the image, with its padding, is the one over the window.\<close>

lemma pooled_window:
  fixes t t' l l' :: nat
  assumes v: "int t = max (int p - int pad) 0" "int t' = min (int p + int a - 1 + int k - int pad) (int h)" "int t - pt = int p - int pad" "int t' + pb = int p + int a - 1 + int k - int pad"
    and u: "int l = max (int q - int pad) 0" "int l' = min (int q + int b - 1 + int k - int pad) (int w)" "int l - pl = int q - int pad" "int l' + pr = int q + int b - 1 + int k - int pad"
    and pad: "pad = (k - 1) div 2" and lt: "t < t'" "l < l'" and ij: "i < a" "j < b"
    and f: "\<And>r d. f c r d = {(2, (t * w + l) + r * w + d)}" and shapes: "tl_shape y ! 2 = a" "tl_shape y ! 3 = b" "tl_shape x ! 2 = t' - t" "tl_shape x ! 3 = l' - l"
  shows "pooled y x (int k) (int k) pt pb pl pr 1 1 f c i j = window h w k (p + i) (q + j)"
proof -
  have row: "(\<exists>r' < t' - t. in_window (int k) 1 pt i r' \<and> R = t + r') \<longleftrightarrow> R < h \<and> p + i \<le> R + pad \<and> R + pad < p + i + k" for R
    using v lt(1) ij(1) unfolding in_window_def by (auto intro!: exI[of _ "R - t"])
  have col: "(\<exists>d' < l' - l. in_window (int k) 1 pl j d' \<and> D = l + d') \<longleftrightarrow> D < w \<and> q + j \<le> D + pad \<and> D + pad < q + j + k" for D
    using u lt(2) ij(2) unfolding in_window_def by (auto intro!: exI[of _ "D - l"])
  have fill: "int a = (int (t' - t) + pt + pb - int k) div 1 + 1" "int b = (int (l' - l) + pl + pr - int k) div 1 + 1"
    using v u lt by (simp_all add: of_nat_diff)
  have "pooled y x (int k) (int k) pt pb pl pr 1 1 f c i j =
      \<Union> {{(2, (t * w + l) + r * w + d)} |r d. r < t' - t \<and> d < l' - l \<and> in_window (int k) 1 pt i r \<and> in_window (int k) 1 pl j d}"
    unfolding pooled_def shapes f using fill by (simp only: simp_thms if_True)
  also have "\<dots> = {(2, (t * w + l) + r * w + d) |r d. r < t' - t \<and> d < l' - l \<and> in_window (int k) 1 pt i r \<and> in_window (int k) 1 pl j d}" by blast
  also have "\<dots> = {(2, (t + r) * w + (l + d)) |r d. r < t' - t \<and> d < l' - l \<and> in_window (int k) 1 pt i r \<and> in_window (int k) 1 pl j d}"
    by (simp add: algebra_simps)
  also have "\<dots> = {(2, R * w + D) |R D. (\<exists>r' < t' - t. in_window (int k) 1 pt i r' \<and> R = t + r') \<and> (\<exists>d' < l' - l. in_window (int k) 1 pl j d' \<and> D = l + d')}"
    by blast
  finally show ?thesis unfolding row col window_def pad[symmetric] Let_def by (simp only: conj_ac)
qed

lemma elements_cong: "(\<And>c r d. c < n ! 1 \<Longrightarrow> r < n ! 2 \<Longrightarrow> d < n ! 3 \<Longrightarrow> f c r d = g c r d) \<Longrightarrow> elements n f = elements n g"
  unfolding elements_def by (intro arg_cong[where f = concat] map_cong refl) auto

lemma tile_extent_nat:
  fixes p a n pad k :: nat
  assumes "0 < a" "p + a \<le> n" "pad < k" "n + k < 2 ^ 31"
  defines "e \<equiv> tile_extent (int n) (int k) 1 (int pad) (int p) (int a)"
  obtains t t' where "ex_top e = int t" "ex_bot e = int t'" "t < t'" "int t = max (int p - int pad) 0" "int t' = min (int p + int a - 1 + int k - int pad) (int n)"
    "int t - ex_pad_t e = int p - int pad" "int t' + ex_pad_b e = int p + int a - 1 + int k - int pad"
proof -
  have w: "ex_top e = max (int p - int pad) 0" "ex_bot e = min (int p + int a - 1 + int k - int pad) (int n)" "ex_top e < ex_bot e"
    "ex_top e - ex_pad_t e = int p - int pad" "ex_bot e + ex_pad_b e = int p + int a - 1 + int k - int pad"
    using tile_extent_window[of "int p" "int a" "int n" "int pad" "int k"] assms by (simp_all add: Let_def e_def)
  then have "0 \<le> ex_top e" by simp
  with w show thesis by (intro that[of "nat (ex_top e)" "nat (ex_bot e)"]) simp_all
qed

lemma bg_tile_flow:
  assumes "strides_ok K" "0 < k" "0 < a" "p + a \<le> h" "0 < b" "q + b \<le> w" "h + k < 2 ^ 31" "w + k < 2 ^ 31" "h * w < 2 ^ 31"
  shows "\<exists>mem'. flow mem (bg_tile K (int h) (int w) (int w) (int k) 1 (int ((k - 1) div 2)) sz (int p) (int a) (int q) (int b) @ rest) =
    background h w k (p, a) (q, b) @ flow mem' rest"
proof -
  define pad where "pad = (k - 1) div 2"
  let ?v = "tile_extent (int h) (int k) 1 (int pad) (int p) (int a)" and ?u = "tile_extent (int w) (int k) 1 (int pad) (int q) (int b)"
  have pk: "pad < k" using assms(2) by (simp add: pad_def)
  obtain t t' where t: "ex_top ?v = int t" "ex_bot ?v = int t'" "t < t'" "int t = max (int p - int pad) 0" "int t' = min (int p + int a - 1 + int k - int pad) (int h)"
    "int t - ex_pad_t ?v = int p - int pad" "int t' + ex_pad_b ?v = int p + int a - 1 + int k - int pad"
    using tile_extent_nat[OF assms(3,4) pk assms(7)] by blast
  obtain l l' where l: "ex_top ?u = int l" "ex_bot ?u = int l'" "l < l'" "int l = max (int q - int pad) 0" "int l' = min (int q + int b - 1 + int k - int pad) (int w)"
    "int l - ex_pad_t ?u = int q - int pad" "int l' + ex_pad_b ?u = int q + int b - 1 + int k - int pad"
    using tile_extent_nat[OF assms(5,6) pk assms(8)] by blast
  have le: "t' \<le> h" "l' \<le> w" "t \<le> h" "p \<le> h" using t(5) l(5) t(3) assms(4) by linarith+
  have "t * w \<le> h * w" "p * w \<le> h * w" using le by simp_all
  then have "t * w < 2 ^ 31" "p * w < 2 ^ 31" using assms(9) by linarith+
  then have s: "to_s32 (int t * int w) = int (t * w)" "to_s32 (int p * int w) = int (p * w)" using s32_int[of "t * w"] s32_int[of "p * w"] by simp_all
  have "as_u64 (int (t * w) + int l) = t * w + l" "as_u64 (int (p * w) + int q) = p * w + q" "as_u32 (int t' - int t) = t' - t" "as_u32 (int l' - int l) = l' - l"
    "as_u32 (int a) = a" "as_u32 (int b) = b" "as_u32 (int h) = h" "as_u32 (int w) = w"
    using as_u_int(2)[of "t * w + l"] as_u_int(2)[of "p * w + q"] as_u_int(1)[of "t' - t"] as_u_int(1)[of "l' - l"] \<open>t * w < 2 ^ 31\<close> \<open>p * w < 2 ^ 31\<close> assms(4,6-8) le t(3) l(3)
    by (simp_all add: of_nat_diff)
  note us = this
  define G where "G = (\<lambda>reg at n m. \<lparr>tg_base_reg_index = reg, tg_start_address = at, tg_fmt = CVK_FMT_U8, tg_shape = [1, 1, n, m], tg_stride = kl_tg_stride K [1, 1, h, w] CVK_FMT_U8\<rparr>)"
  define x where "x = local_tensor K CVK_FMT_U8 0 [1, 1, t' - t, l' - l]"
  define y where "y = local_tensor K CVK_FMT_U8 (as_u32 sz) [1, 1, a, b]"
  have xs: "bg_tile K (int h) (int w) (int w) (int k) 1 (int pad) sz (int p) (int a) (int q) (int b) =
    [G2LTensor (G 2 (t * w + l) (t' - t) (l' - l)) x, MaxPool y x (int k) (int k) (ex_pad_t ?v) (ex_pad_b ?v) (ex_pad_t ?u) (ex_pad_b ?u) 1 1, L2GTensor y (G 3 (p * w + q) a b)]"
    unfolding bg_tile_def Let_def t(1,2) l(1,2) s us x_def y_def G_def load_tensor_def store_tensor_def by (simp add: local_tensor_def)
  have G: "tg_address (G reg at n m) 0 r d = (reg, at + r * w + d)" for reg at n m r d
    using assms(1) by (simp add: tg_address_def G_def strides_ok_def Let_def)
  have x: "tl_start x = 0" "tl_shape x ! 2 = t' - t" "tl_shape x ! 3 = l' - l" and y: "tl_shape y = [1, 1, a, b]" "tl_shape y ! 2 = a" "tl_shape y ! 3 = b"
    by (simp_all add: x_def y_def local_tensor_def)
  let ?f = "\<lambda>c r d. {tg_address (G 2 (t * w + l) (t' - t) (l' - l)) c r d}"
  let ?g = "pooled y x (int k) (int k) (ex_pad_t ?v) (ex_pad_b ?v) (ex_pad_t ?u) (ex_pad_b ?u) 1 1 ?f"
  have "elements [1, 1, a, b] (\<lambda>c r d. (tg_address (G 3 (p * w + q) a b) c r d, ?g c r d)) = background h w k (p, a) (q, b)"
    unfolding background_def fst_conv snd_conv
  proof (rule elements_cong)
    fix c r d assume "c < [1, 1, a, b] ! 1" "r < [1, 1, a, b] ! 2" "d < [1, 1, a, b] ! 3"
    then have "c = 0" "r < a" "d < b" by simp_all
    then show "(tg_address (G 3 (p * w + q) a b) c r d, ?g c r d) = ((3, (p + r) * w + (q + d)), window h w k (p + r) (q + d))"
      using pooled_window[OF t(4-7) l(4-7) pad_def t(3) l(3), where f = ?f and c = 0, OF _ _ _ y(2,3) x(2,3)] G by (simp add: algebra_simps)
  qed
  then show ?thesis unfolding pad_def[symmetric] xs using x(1) y(1) by auto
qed

lemma bg_search_finds:
  assumes "snd (bg_fits K ih iw k s 1 1)" "0 < oh" "0 < ow"
  shows "\<exists>sh sw. bg_search K ih iw k s oh ow = Some (sh, sw) \<and> 0 < sh \<and> sh \<le> oh \<and> 0 < sw \<and> sw \<le> ow \<and> snd (bg_fits K ih iw k s sw sh)"
  using assms(3)
proof (induction ow)
  case (Suc ow)
  show ?case
  proof (cases "largest_fit (\<lambda>step_oh. snd (bg_fits K ih iw k s (Suc ow) step_oh)) oh")
    case None
    then have "\<not> snd (bg_fits K ih iw k s (Suc ow) 1)" using assms(2) by (simp add: largest_fit_None)
    then have "ow \<noteq> 0" using assms(1) by (intro notI) simp
    then show ?thesis using Suc None by fastforce
  next
    case (Some sh)
    then show ?thesis using largest_fit_Some[OF Some] by auto
  qed
qed simp


lemma concat_product: "concat (map f (List.product xs ys)) = concat (map (\<lambda>x. concat (map (\<lambda>y. f (x, y)) ys)) xs)"
  by (induction xs) (simp_all add: o_def)

lemma calc_background_flow:
  assumes "strides_ok K" "0 < h" "0 < w" "0 < k" "2 * h + k \<le> 2 ^ 31" "2 * w + k \<le> 2 ^ 31" "h * w < 2 ^ 31" "snd (bg_fits K (int h) (int w) (int k) 1 1 1)"
  shows "\<exists>sh sw xs. calc_background K (int h) (int w) (int h) (int w) (int k) 1 (int ((k - 1) div 2)) = Inr xs \<and> 0 < sh \<and> 0 < sw \<and>
    (\<forall>mem rest. \<exists>mem'. flow mem (xs @ rest) = concat (map (\<lambda>(t, u). background h w k t u) (List.product (tiles sh h) (tiles sw w))) @ flow mem' rest)"
proof -
  obtain sh sw where found: "bg_search K (int h) (int w) (int k) 1 h w = Some (sh, sw)" "0 < sh" "sh \<le> h" "0 < sw" "sw \<le> w"
    using bg_search_finds[OF assms(8,2,3)] by blast
  let ?sz = "fst (fst (bg_fits K (int h) (int w) (int k) 1 sw sh))"
  let ?tile = "\<lambda>p a q b. Inr (bg_tile K (int h) (int w) (int w) (int k) 1 (int ((k - 1) div 2)) ?sz (int p) (int a) (int q) (int b))"
  have small: "h + sh < 2 ^ 31" "w + sw < 2 ^ 31" "h + k < 2 ^ 31" "w + k < 2 ^ 31" using assms(2-6) found by simp_all
  have "\<exists>xs. tile_from (Suc M32) 0 sh h (\<lambda>p a. tile_from (Suc M32) 0 sw w (?tile p a)) = Inr xs \<and> (\<forall>mem rest. \<exists>mem'. flow mem (xs @ rest) =
      concat (map (\<lambda>(p, a). concat (map (\<lambda>(q, b). background h w k (p, a) (q, b)) (tiles sw w))) (tiles sh h)) @ flow mem' rest)"
  proof (rule img.tile_from_collect)
    fix p a assume pa: "(p, a) \<in> set (tiles sh h)"
    show "\<exists>xs. tile_from (Suc M32) 0 sw w (?tile p a) = Inr xs \<and> (\<forall>mem rest. \<exists>mem'. flow mem (xs @ rest) =
        concat (map (\<lambda>(q, b). background h w k (p, a) (q, b)) (tiles sw w)) @ flow mem' rest)"
    proof (rule img.tile_from_collect)
      fix q b assume "(q, b) \<in> set (tiles sw w)"
      then show "\<exists>xs. ?tile p a q b = Inr xs \<and> (\<forall>mem rest. \<exists>mem'. flow mem (xs @ rest) = background h w k (p, a) (q, b) @ flow mem' rest)"
        using bg_tile_flow[OF assms(1,4) _ _ _ _ small(3,4) assms(7), of a p b q] tiles_from_props(2,4)[OF pa] tiles_from_props(2,4)[of "(q, b)" 0 sw w] by auto
    qed (use found small in \<open>simp_all add: M32_def\<close>)
  qed (use found small in \<open>simp_all add: M32_def\<close>)
  then obtain xs where xs: "tile_from (Suc M32) 0 sh h (\<lambda>p a. tile_from (Suc M32) 0 sw w (?tile p a)) = Inr xs" "\<And>mem rest. \<exists>mem'. flow mem (xs @ rest) =
      concat (map (\<lambda>(t, u). background h w k t u) (List.product (tiles sh h) (tiles sw w))) @ flow mem' rest"
    by (auto simp: concat_product case_prod_unfold simp del: tile_from.simps)
  have "calc_background K (int h) (int w) (int h) (int w) (int k) 1 (int ((k - 1) div 2)) = Inr xs"
    using xs(1) found(1) unfolding calc_background_def by (simp add: stile_loop_nat[OF small(1)] stile_loop_nat[OF small(2)] del: tile_from.simps)
  then show ?thesis using xs(2) found by blast
qed

text \<open>The tiles write every pixel of the background once.\<close>

definition places :: "nat \<Rightarrow> nat \<times> nat \<Rightarrow> nat \<times> nat \<Rightarrow> nat list" where
  "places w t u = map (\<lambda>(r, d). (fst t + r) * w + (fst u + d)) (List.product [0..<snd t] [0..<snd u])"

lemma background_places: "map fst (background h w k t u) = map (Pair 3) (places w t u)"
  by (simp add: background_def elements_def places_def product_concat_map map_concat o_def numeral_2_eq_2 numeral_3_eq_3)

lemma places_set: "set (places w t u) = rect_part 1 w t u"
  by (force simp: places_def rect_part_def matrix_bytes_def algebra_simps)

lemma places_distinct: "fst u + snd u \<le> w \<Longrightarrow> distinct (places w t u)"
proof -
  assume u: "fst u + snd u \<le> w"
  have "inj_on (\<lambda>(r, d). (fst t + r) * w + (fst u + d)) (set (List.product [0..<snd t] [0..<snd u]))"
  proof (rule inj_onI)
    fix x y assume xy: "x \<in> set (List.product [0..<snd t] [0..<snd u])" "y \<in> set (List.product [0..<snd t] [0..<snd u])"
      and eq: "(\<lambda>(r, d). (fst t + r) * w + (fst u + d)) x = (\<lambda>(r, d). (fst t + r) * w + (fst u + d)) y"
    have "fst u + snd x < w" "fst u + snd y < w" using u xy by (auto simp: mem_Times_iff)
    then have "fst t + fst x = fst t + fst y \<and> fst u + snd x = fst u + snd y"
      using div_mod_of_sum[of "fst u + snd x" w "fst t + fst x"] div_mod_of_sum[of "fst u + snd y" w "fst t + fst y"] eq unfolding case_prod_unfold by metis
    then show "x = y" by (simp add: prod_eq_iff)
  qed
  then show ?thesis unfolding places_def distinct_map by (simp add: distinct_product)
qed

lemma background_once:
  fixes h k :: nat
  assumes "0 < sh" "0 < sw" "0 < w"
  defines "es \<equiv> concat (map (\<lambda>(t, u). background h w k t u) (List.product (tiles sh h) (tiles sw w)))"
  shows "distinct (map fst es)" "fst ` set es = {3} \<times> {0..<h * w}"
    "(s, S) \<in> set es \<Longrightarrow> S = window h w k (snd s div w) (snd s mod w)"
proof -
  let ?P = "List.product (tiles sh h) (tiles sw w)" and ?R = "\<lambda>(t, u). rect_part 1 w t u"
  have part: "partition_on {0..<h * w} (?R ` set ?P)" "inj_on ?R (set ?P)" using rect_parts_partition[OF assms(1,2,3), of 1 h] by simp_all
  have fsts: "map fst es = map (Pair 3) (concat (map (\<lambda>(t, u). places w t u) ?P))"
    by (simp add: es_def map_concat o_def case_prod_unfold background_places)
  have col: "fst u + snd u \<le> w" if "u \<in> set (tiles sw w)" for u using tiles_from_props(4)[OF that] .
  have "distinct (concat (map (\<lambda>(t, u). places w t u) ?P))"
  proof (rule distinct_concat)
    have "inj_on (\<lambda>(t, u). places w t u) (set ?P)" using part(2) unfolding inj_on_def by (metis (mono_tags, lifting) case_prod_unfold places_set)
    then show "distinct (map (\<lambda>(t, u). places w t u) ?P)" by (simp add: distinct_map distinct_product tiles_from_distinct)
    show "distinct ys" if "ys \<in> set (map (\<lambda>(t, u). places w t u) ?P)" for ys using that places_distinct col by auto
    show "set ys \<inter> set zs = {}" if yz: "ys \<in> set (map (\<lambda>(t, u). places w t u) ?P)" "zs \<in> set (map (\<lambda>(t, u). places w t u) ?P)" "ys \<noteq> zs" for ys zs
    proof -
      obtain a b where ab: "a \<in> set ?P" "b \<in> set ?P" "ys = (\<lambda>(t, u). places w t u) a" "zs = (\<lambda>(t, u). places w t u) b" using yz(1,2) by auto
      then have "a \<noteq> b" using yz(3) by auto
      then have "?R a \<noteq> ?R b" using inj_on_eq_iff[OF part(2) ab(1,2)] by blast
      moreover have "disjoint (?R ` set ?P)" using part(1) by (simp only: partition_on_def)
      ultimately have "disjnt (?R a) (?R b)" using pairwiseD imageI[OF ab(1), of ?R] imageI[OF ab(2), of ?R] by metis
      then show ?thesis using ab(3,4) by (simp add: disjnt_def case_prod_unfold places_set)
    qed
  qed
  then show "distinct (map fst es)" unfolding fsts distinct_map by (intro conjI inj_onI) simp_all
  have "fst ` set es = Pair 3 ` (\<Union>x\<in>set ?P. ?R x)"
    using arg_cong[OF fsts, of set] by (simp add: case_prod_unfold places_set)
  also have "(\<Union>x\<in>set ?P. ?R x) = {0..<h * w}" using part(1) by (simp add: partition_on_def)
  finally show "fst ` set es = {3} \<times> {0..<h * w}" by auto
  assume "(s, S) \<in> set es"
  then obtain t u where tu: "t \<in> set (tiles sh h)" "u \<in> set (tiles sw w)" "(s, S) \<in> set (background h w k t u)" by (auto simp: es_def)
  then obtain r d where rd: "r < snd t" "d < snd u" "s = (3, (fst t + r) * w + (fst u + d))" "S = window h w k (fst t + r) (fst u + d)"
    by (auto simp: background_def elements_def numeral_2_eq_2 numeral_3_eq_3)
  have "fst u + d < w" using rd(2) col[OF tu(2)] by simp
  then show "S = window h w k (snd s div w) (snd s mod w)" using div_mod_of_sum[of "fst u + d" w "fst t + r"] rd(3,4) by simp
qed

text \<open>
  C28: the kernel for the background light of a gray image compiles whenever one pixel with its window
  fits the local memory, six rows of lanes fit but do not fill it exactly, and the sizes, with a row of
  lanes or the window added, can be counted in 31 bits.  Its first part
  stores every pixel of the background once, and each is the maximum over exactly the pixels of the
  image in the window of the kernel's size around it; its second part walks over the image, rounded up
  to whole rows of lanes, from the first byte to the last, and each byte is computed from the bytes at the same place of
  the image and of the background and stored there.
\<close>

theorem gray_image_light_covers:
  assumes "strides_ok K" "blocks_ok K" "0 < h" "0 < w" "0 < k" "2 * h + k \<le> 2 ^ 31" "2 * w + k \<le> 2 ^ 31" "h * w + kl_eu_num K < 2 ^ 31"
    and "snd (bg_fits K (int h) (int w) (int k) 1 1 1)"
    and "0 < kl_npu_num K" "0 < kl_eu_num K" "6 * kl_eu_num K \<le> kl_lmem_size K" "\<not> 6 * kl_eu_num K dvd kl_lmem_size K" "kl_npu_num K * kl_lmem_size K < 2 ^ 31"
  shows "\<exists>prog es. gray_image_light_program K (int h) (int w) (int k) = Inr prog \<and>
    flow nothing prog = es @ map (\<lambda>x. ((3, x), {(2, x), (3, x)})) [0..<align_up_to (h * w) (kl_eu_num K)] \<and>
    distinct (map fst es) \<and> fst ` set es = {3} \<times> {0..<h * w} \<and> (\<forall>(s, S)\<in>set es. S = window h w k (snd s div w) (snd s mod w))"
proof -
  define eu where "eu = kl_eu_num K"
  define sz where "sz = align_up_to (h * w) eu"
  have hw: "h * w < 2 ^ 31" "0 < h * w" "eu < 2 ^ 31" "0 < eu" using assms(3,4,8,11) by (simp_all add: eu_def)
  have up: "sz < h * w + eu" "eu \<le> sz" using align_up_to_bounds[of eu "h * w"] hw by (simp_all add: sz_def)
  then have sz: "sz < 2 ^ 31" "eu dvd sz" using assms(8) by (simp_all add: eu_def[symmetric]) (simp add: sz_def align_up_to_def)
  obtain sh sw bg where bg: "calc_background K (int h) (int w) (int h) (int w) (int k) 1 (int ((k - 1) div 2)) = Inr bg" "0 < sh" "0 < sw"
    "\<And>mem rest. \<exists>mem'. flow mem (bg @ rest) = concat (map (\<lambda>(t, u). background h w k t u) (List.product (tiles sh h) (tiles sw w))) @ flow mem' rest"
    using calc_background_flow[OF assms(1,3-7) hw(1) assms(9)] by blast
  obtain bs where bs: "light_blocks K (int sz) = Inr bs" "blocks_of bs 0 sz"
    using light_blocks_covers[OF assms(1,2,10-14) sz(2)[unfolded eu_def] sz(1)] by blast
  have pad: "to_s32 (int k - 1) sdiv 2 = int ((k - 1) div 2)"
    using assms(5,6) sdiv_nonneg[of "int k - 1" 2] by (simp add: to_s32_id of_nat_diff zdiv_int)
  have al: "align_up_u64 (as_u64 (to_s32 (int h * int w))) eu = sz" "as_u64 (to_s32 (int eu)) = eu"
  proof -
    have "as_u64 (to_s32 (int h * int w)) = h * w" "as_u64 (to_s32 (int eu)) = eu"
      using hw s32_int[of "h * w"] as_u_int(2)[of "h * w"] as_u_int(2)[of eu] by simp_all
    moreover have "sz < M64" using sz(1) by (simp add: M64_def)
    moreover have "h * w + eu - 1 < M64" using hw by (simp add: M64_def)
    ultimately show "align_up_u64 (as_u64 (to_s32 (int h * int w))) eu = sz" "as_u64 (to_s32 (int eu)) = eu"
      by (simp_all add: align_up_u64_def sz_def align_up_to_def)
  qed
  have prog: "gray_image_light_program K (int h) (int w) (int k) = Inr (bg @ bs)"
    unfolding gray_image_light_program_def pad bg(1) Let_def eu_def[symmetric] al using hw(4) sz(1) bs(1) by (simp add: bind_res_def al)
  define es where "es = concat (map (\<lambda>(t, u). background h w k t u) (List.product (tiles sh h) (tiles sw w)))"
  note once = background_once[OF bg(2,3) assms(4), where h = h and k = k, folded es_def]
  obtain mem where "flow nothing (bg @ bs) = es @ flow mem bs" using bg(4) unfolding es_def by blast
  moreover obtain mem' where "flow mem (bs @ []) = map combined [0..<sz] @ flow mem' []" using bs(2) unfolding blocks_of_def by blast
  ultimately have "flow nothing (bg @ bs) = es @ map (\<lambda>x. ((3, x), {(2, x), (3, x)})) [0..<sz]" by (simp add: combined_def)
  moreover have "\<forall>(s, S)\<in>set es. S = window h w k (snd s div w) (snd s mod w)" using once(3) by blast
  ultimately show ?thesis using prog once(1,2) unfolding sz_def eu_def by blast
qed

definition light_lib :: kernel_lib where
  "light_lib = \<lparr>kl_npu_num = 2, kl_eu_num = 2, kl_lmem_size = 25,
     kl_ml_shape = \<lambda>r c f. \<lparr>ms_n = r, ms_c = 1, ms_w = c, ms_col = c\<rparr>, kl_matrix_size = \<lambda>s f. ms_n s * ms_col s,
     kl_ps32_size = \<lambda>s f. 4 * (ms_n s * ms_col s), kl_tensor_size = \<lambda>s f. s ! 2 * s ! 3, kl_ml_stride = \<lambda>s f a. [ms_col s],
     kl_tl_stride = \<lambda>s f. s, kl_tg_stride = \<lambda>s f. [s ! 1 * s ! 2 * s ! 3, s ! 2 * s ! 3, s ! 3], kl_encode = \<lambda>i. []\<rparr>"

theorem gray_image_light_covers_witness:
  "\<exists>prog es. gray_image_light_program light_lib 5 7 3 = Inr prog \<and>
    flow nothing prog = es @ map (\<lambda>x. ((3, x), {(2, x), (3, x)})) [0..<36] \<and>
    distinct (map fst es) \<and> fst ` set es = {3} \<times> {0..<35} \<and> (\<forall>(s, S)\<in>set es. S = window 5 7 3 (snd s div 7) (snd s mod 7))"
proof -
  have laws: "strides_ok light_lib" "blocks_ok light_lib" by (simp_all add: strides_ok_def blocks_ok_def light_lib_def)
  have "snd (bg_fits light_lib 5 7 3 1 1 1)" by (simp add: bg_fits_def light_lib_def as_u32_def to_s32_def)
  then show ?thesis
    using gray_image_light_covers[OF laws, of 5 7 3] by (simp add: light_lib_def align_up_to_def del: upt_conv_Cons)
qed

section \<open>Euclidean distances\<close>

text \<open>
  The records are walked over in tiles: each is loaded and its distances are stored once, in order, for
  any number of records.
\<close>

lemma ed_loop_tiles:
  assumes "0 < c_step" "records < M32" "c_pos \<le> records" "records - c_pos < fuel"
  shows "ed_loop fuel K fs x y out c_step records c_pos = Inr (concat (map (\<lambda>(p, c). ed_tile K fs x y out p c) (tiles_from c_pos c_step records)))"
  using assms(3,4)
proof (induction fuel arbitrary: c_pos)
  case (Suc fuel)
  show ?case
  proof (cases "c_pos < records")
    case True
    let ?c = "min c_step (records - c_pos)"
    have a: "add32 c_pos ?c = c_pos + ?c" using assms(2) True by (simp add: add32_def)
    have "tiles_from (c_pos + c_step) c_step records = tiles_from (c_pos + ?c) c_step records"
      by (cases "c_step \<le> records - c_pos") (simp_all add: min_def tiles_from.simps)
    then have t: "tiles_from c_pos c_step records = (c_pos, ?c) # tiles_from (c_pos + ?c) c_step records"
      using True assms(1) by (subst tiles_from.simps) (simp add: min.commute)
    have "c_pos + ?c \<le> records" "records - (c_pos + ?c) < fuel" using Suc.prems(2) True assms(1) by (auto simp: min_def)
    from Suc.IH[OF this] show ?thesis using True a t by (simp add: Let_def bind_res_def)
  qed (simp add: tiles_from.simps)
qed simp

lemma euclidean_program_tiles:
  assumes "0 < records" "records < M32" "ed_size K fs 1 < kl_lmem_size K"
  shows "\<exists>c x y out ld. 0 < c \<and> ed_size K fs c < kl_lmem_size K \<and>
    euclidean_program K records fs = Inr (ld # concat (map (\<lambda>(p, n). ed_tile K fs x y out p n) (tiles c records)))"
proof -
  obtain c where c: "largest_fit (\<lambda>c. ed_size K fs c < kl_lmem_size K) records = Some c"
    using assms largest_fit_None[of "\<lambda>c. ed_size K fs c < kl_lmem_size K" records] by (cases "largest_fit (\<lambda>c. ed_size K fs c < kl_lmem_size K) records") force+
  then show ?thesis using largest_fit_Some[OF c] ed_loop_tiles[of c records 0 "Suc records"] assms(2)
    unfolding euclidean_program_def by (fastforce simp: Let_def bind_res_def simp del: ed_loop.simps)
qed

end
