(* ===== verification/Md5.thy ===== *)
theory Md5
  imports CviPrelude
begin

unbundle bit_operations_syntax

text \<open>
  The digest of \<^verbatim>\<open>tool/md5.cpp\<close>: the class with its operations \<^verbatim>\<open>update\<close>, \<^verbatim>\<open>finalize\<close> and \<^verbatim>\<open>hexdigest\<close>, and the equivalence
  of feeding a message in pieces with the definition of the digest in RFC 1321.
\<close>

section \<open>The block function\<close>

type_synonym word32 = "32 word"

definition F :: "word32 \<Rightarrow> word32 \<Rightarrow> word32 \<Rightarrow> word32" where
  "F x y z = (x AND y) OR (NOT x AND z)"

definition G :: "word32 \<Rightarrow> word32 \<Rightarrow> word32 \<Rightarrow> word32" where
  "G x y z = (x AND z) OR (y AND NOT z)"

definition H :: "word32 \<Rightarrow> word32 \<Rightarrow> word32 \<Rightarrow> word32" where
  "H x y z = x XOR y XOR z"

definition I :: "word32 \<Rightarrow> word32 \<Rightarrow> word32 \<Rightarrow> word32" where
  "I x y z = y XOR (x OR NOT z)"

definition rotate_left :: "word32 \<Rightarrow> nat \<Rightarrow> word32" where
  "rotate_left x n = push_bit n x OR drop_bit (32 - n) x"

text \<open>
  The local variables of \<^verbatim>\<open>transform\<close>; \<^verbatim>\<open>FF\<close> to \<^verbatim>\<open>II\<close> take the first one by reference and differ in the function
  they apply.
\<close>

datatype md5_var = VA | VB | VC | VD

type_synonym md5_vars = "md5_var \<Rightarrow> word32"

definition step :: "(word32 \<Rightarrow> word32 \<Rightarrow> word32 \<Rightarrow> word32) \<Rightarrow> md5_var \<Rightarrow> md5_var \<Rightarrow> md5_var \<Rightarrow> md5_var \<Rightarrow>
    word32 list \<Rightarrow> nat \<Rightarrow> nat \<Rightarrow> word32 \<Rightarrow> md5_vars \<Rightarrow> md5_vars" where
  "step f a b c d x k s ac v = v(a := rotate_left (v a + f (v b) (v c) (v d) + x ! k + ac) s + v b)"

text \<open>\<^verbatim>\<open>decode\<close> of a block and \<^verbatim>\<open>encode\<close>: little-endian words.\<close>

definition word_of_bytes :: "byte \<Rightarrow> byte \<Rightarrow> byte \<Rightarrow> byte \<Rightarrow> word32" where
  "word_of_bytes b0 b1 b2 b3 = ucast b0 OR push_bit 8 (ucast b1) OR push_bit 16 (ucast b2) OR push_bit 24 (ucast b3)"

fun decode :: "byte list \<Rightarrow> word32 list" where
  "decode (b0 # b1 # b2 # b3 # bs) = word_of_bytes b0 b1 b2 b3 # decode bs"
| "decode _ = []"

fun encode :: "word32 list \<Rightarrow> byte list" where
  "encode [] = []"
| "encode (w # ws) = [ucast (w AND 0xff), ucast (drop_bit 8 w AND 0xff), ucast (drop_bit 16 w AND 0xff), ucast (drop_bit 24 w AND 0xff)] @ encode ws"

definition round1 :: "word32 list \<Rightarrow> md5_vars \<Rightarrow> md5_vars" where
  "round1 x v = foldl (\<lambda>v f. f v) v
    [step F VA VB VC VD x 0 7 0xd76aa478, step F VD VA VB VC x 1 12 0xe8c7b756,
     step F VC VD VA VB x 2 17 0x242070db, step F VB VC VD VA x 3 22 0xc1bdceee,
     step F VA VB VC VD x 4 7 0xf57c0faf, step F VD VA VB VC x 5 12 0x4787c62a,
     step F VC VD VA VB x 6 17 0xa8304613, step F VB VC VD VA x 7 22 0xfd469501,
     step F VA VB VC VD x 8 7 0x698098d8, step F VD VA VB VC x 9 12 0x8b44f7af,
     step F VC VD VA VB x 10 17 0xffff5bb1, step F VB VC VD VA x 11 22 0x895cd7be,
     step F VA VB VC VD x 12 7 0x6b901122, step F VD VA VB VC x 13 12 0xfd987193,
     step F VC VD VA VB x 14 17 0xa679438e, step F VB VC VD VA x 15 22 0x49b40821]"

definition round2 :: "word32 list \<Rightarrow> md5_vars \<Rightarrow> md5_vars" where
  "round2 x v = foldl (\<lambda>v f. f v) v
    [step G VA VB VC VD x 1 5 0xf61e2562, step G VD VA VB VC x 6 9 0xc040b340,
     step G VC VD VA VB x 11 14 0x265e5a51, step G VB VC VD VA x 0 20 0xe9b6c7aa,
     step G VA VB VC VD x 5 5 0xd62f105d, step G VD VA VB VC x 10 9 0x2441453,
     step G VC VD VA VB x 15 14 0xd8a1e681, step G VB VC VD VA x 4 20 0xe7d3fbc8,
     step G VA VB VC VD x 9 5 0x21e1cde6, step G VD VA VB VC x 14 9 0xc33707d6,
     step G VC VD VA VB x 3 14 0xf4d50d87, step G VB VC VD VA x 8 20 0x455a14ed,
     step G VA VB VC VD x 13 5 0xa9e3e905, step G VD VA VB VC x 2 9 0xfcefa3f8,
     step G VC VD VA VB x 7 14 0x676f02d9, step G VB VC VD VA x 12 20 0x8d2a4c8a]"

definition round3 :: "word32 list \<Rightarrow> md5_vars \<Rightarrow> md5_vars" where
  "round3 x v = foldl (\<lambda>v f. f v) v
    [step H VA VB VC VD x 5 4 0xfffa3942, step H VD VA VB VC x 8 11 0x8771f681,
     step H VC VD VA VB x 11 16 0x6d9d6122, step H VB VC VD VA x 14 23 0xfde5380c,
     step H VA VB VC VD x 1 4 0xa4beea44, step H VD VA VB VC x 4 11 0x4bdecfa9,
     step H VC VD VA VB x 7 16 0xf6bb4b60, step H VB VC VD VA x 10 23 0xbebfbc70,
     step H VA VB VC VD x 13 4 0x289b7ec6, step H VD VA VB VC x 0 11 0xeaa127fa,
     step H VC VD VA VB x 3 16 0xd4ef3085, step H VB VC VD VA x 6 23 0x4881d05,
     step H VA VB VC VD x 9 4 0xd9d4d039, step H VD VA VB VC x 12 11 0xe6db99e5,
     step H VC VD VA VB x 15 16 0x1fa27cf8, step H VB VC VD VA x 2 23 0xc4ac5665]"

definition round4 :: "word32 list \<Rightarrow> md5_vars \<Rightarrow> md5_vars" where
  "round4 x v = foldl (\<lambda>v f. f v) v
    [step I VA VB VC VD x 0 6 0xf4292244, step I VD VA VB VC x 7 10 0x432aff97,
     step I VC VD VA VB x 14 15 0xab9423a7, step I VB VC VD VA x 5 21 0xfc93a039,
     step I VA VB VC VD x 12 6 0x655b59c3, step I VD VA VB VC x 3 10 0x8f0ccc92,
     step I VC VD VA VB x 10 15 0xffeff47d, step I VB VC VD VA x 1 21 0x85845dd1,
     step I VA VB VC VD x 8 6 0x6fa87e4f, step I VD VA VB VC x 15 10 0xfe2ce6e0,
     step I VC VD VA VB x 6 15 0xa3014314, step I VB VC VD VA x 13 21 0x4e0811a1,
     step I VA VB VC VD x 4 6 0xf7537e82, step I VD VA VB VC x 11 10 0xbd3af235,
     step I VC VD VA VB x 2 15 0x2ad7d2bb, step I VB VC VD VA x 9 21 0xeb86d391]"

type_synonym md5_state = "word32 \<times> word32 \<times> word32 \<times> word32"

definition transform :: "byte list \<Rightarrow> md5_state \<Rightarrow> md5_state" where
  "transform block st = (case st of (s0, s1, s2, s3) \<Rightarrow>
     let x = decode block;
         v = round4 x (round3 x (round2 x (round1 x (case_md5_var s0 s1 s2 s3))))
     in (s0 + v VA, s1 + v VB, s2 + v VC, s3 + v VD))"

section \<open>The class\<close>

text \<open>
  The constructor initialises only the first cell of the buffer and of the digest: the other cells
  are whatever the memory held.
\<close>

record md5 =
  m_finalized :: bool
  m_buffer :: "byte list"
  m_count0 :: word32
  m_count1 :: word32
  m_state :: md5_state
  m_digest :: "byte list"

definition md5_init :: md5_state where
  "md5_init = (0x67452301, 0xefcdab89, 0x98badcfe, 0x10325476)"

definition MD5 :: "byte list \<Rightarrow> byte list \<Rightarrow> md5" where
  "MD5 junk_buffer junk_digest = \<lparr>m_finalized = False, m_buffer = junk_buffer[0 := 0], m_count0 = 0, m_count1 = 0,
     m_state = md5_init, m_digest = junk_digest[0 := 0]\<rparr>"

text \<open>\<^verbatim>\<open>memcpy\<close> of \<open>n\<close> bytes from position \<open>i\<close> of the input to position \<open>j\<close> of the buffer.\<close>

definition buffer_copy :: "byte list \<Rightarrow> nat \<Rightarrow> byte list \<Rightarrow> nat \<Rightarrow> nat \<Rightarrow> byte list res" where
  "buffer_copy input i buf j n = (if i + n \<le> length input \<and> j + n \<le> length buf
     then Inr (take j buf @ take n (drop i input) @ drop (j + n) buf) else Inl OutOfRange)"

text \<open>
  The loop over whole blocks; \<^verbatim>\<open>i + blocksize\<close> is computed with 32 bits.  It makes a round per block, so
  \<^verbatim>\<open>length\<close> rounds are enough when the sum does not wrap.
\<close>

fun update_loop :: "nat \<Rightarrow> byte list \<Rightarrow> u32 \<Rightarrow> u32 \<Rightarrow> md5_state \<Rightarrow> (u32 \<times> md5_state) res" where
  "update_loop 0 input len i st = Inl Diverged"
| "update_loop (Suc n) input len i st = (if add32 i 64 \<le> len
     then if i + 64 \<le> length input then update_loop n input len (add32 i 64) (transform (take 64 (drop i input)) st) else Inl OutOfRange
     else Inr (i, st))"

definition update :: "byte list \<Rightarrow> u32 \<Rightarrow> md5 \<Rightarrow> md5 res" where
  "update input len m =
    (let index = unat (m_count0 m div 8 mod 64);
         bits = push_bit 3 (of_nat len);
         c0 = m_count0 m + bits;
         c1 = (if c0 < bits then m_count1 m + 1 else m_count1 m) + drop_bit 29 (of_nat len);
         m1 = m\<lparr>m_count0 := c0, m_count1 := c1\<rparr>;
         firstpart = 64 - index
     in if len \<ge> firstpart then
          bind_res (buffer_copy input 0 (m_buffer m1) index firstpart) (\<lambda>buf.
          bind_res (update_loop (Suc len) input len firstpart (transform buf (m_state m1))) (\<lambda>(i, st).
          bind_res (buffer_copy input i buf 0 (sub32 len i)) (\<lambda>buf2. Inr (m1\<lparr>m_buffer := buf2, m_state := st\<rparr>))))
        else bind_res (buffer_copy input 0 (m_buffer m1) index len) (\<lambda>buf. Inr (m1\<lparr>m_buffer := buf\<rparr>)))"

definition padding :: "byte list" where
  "padding = 0x80 # replicate 63 0"

definition finalize :: "md5 \<Rightarrow> md5 res" where
  "finalize m = (if m_finalized m then Inr m else
     let bits = encode [m_count0 m, m_count1 m];
         index = unat (m_count0 m div 8 mod 64);
         padLen = (if index < 56 then 56 - index else 120 - index)
     in bind_res (update padding padLen m) (\<lambda>m1.
        bind_res (update bits 8 m1) (\<lambda>m2.
        Inr (case m_state m2 of (s0, s1, s2, s3) \<Rightarrow>
          m2\<lparr>m_digest := encode [s0, s1, s2, s3], m_buffer := replicate 64 0, m_count0 := 0, m_count1 := 0, m_finalized := True\<rparr>))))"

definition hex_digit :: "nat \<Rightarrow> char" where
  "hex_digit n = ''0123456789abcdef'' ! n"

definition hexdigest :: "md5 \<Rightarrow> string" where
  "hexdigest m = (if \<not> m_finalized m then [] else
     concat (map (\<lambda>b. [hex_digit (unat b div 16), hex_digit (unat b mod 16)]) (m_digest m)))"

section \<open>RFC 1321\<close>

definition rfc_T :: "word32 list" where
  "rfc_T =
    [0xd76aa478, 0xe8c7b756, 0x242070db, 0xc1bdceee, 0xf57c0faf, 0x4787c62a, 0xa8304613, 0xfd469501,
     0x698098d8, 0x8b44f7af, 0xffff5bb1, 0x895cd7be, 0x6b901122, 0xfd987193, 0xa679438e, 0x49b40821,
     0xf61e2562, 0xc040b340, 0x265e5a51, 0xe9b6c7aa, 0xd62f105d, 0x2441453, 0xd8a1e681, 0xe7d3fbc8,
     0x21e1cde6, 0xc33707d6, 0xf4d50d87, 0x455a14ed, 0xa9e3e905, 0xfcefa3f8, 0x676f02d9, 0x8d2a4c8a,
     0xfffa3942, 0x8771f681, 0x6d9d6122, 0xfde5380c, 0xa4beea44, 0x4bdecfa9, 0xf6bb4b60, 0xbebfbc70,
     0x289b7ec6, 0xeaa127fa, 0xd4ef3085, 0x4881d05, 0xd9d4d039, 0xe6db99e5, 0x1fa27cf8, 0xc4ac5665,
     0xf4292244, 0x432aff97, 0xab9423a7, 0xfc93a039, 0x655b59c3, 0x8f0ccc92, 0xffeff47d, 0x85845dd1,
     0x6fa87e4f, 0xfe2ce6e0, 0xa3014314, 0x4e0811a1, 0xf7537e82, 0xbd3af235, 0x2ad7d2bb, 0xeb86d391]"

definition rfc_f :: "nat \<Rightarrow> word32 \<Rightarrow> word32 \<Rightarrow> word32 \<Rightarrow> word32" where
  "rfc_f i = [F, G, H, I] ! (i div 16)"

text \<open>The word of the block and the rotation of each of the 64 steps.\<close>

definition rfc_k :: "nat \<Rightarrow> nat" where
  "rfc_k i = [i, 1 + 5 * i, 5 + 3 * i, 7 * i] ! (i div 16) mod 16"

definition rfc_s :: "nat \<Rightarrow> nat" where
  "rfc_s i = [[7, 12, 17, 22], [5, 9, 14, 20], [4, 11, 16, 23], [6, 10, 15, 21]] ! (i div 16) ! (i mod 4)"

fun rfc_step :: "word32 list \<Rightarrow> md5_state \<Rightarrow> nat \<Rightarrow> md5_state" where
  "rfc_step x (a, b, c, d) i = (d, word_rotl (rfc_s i) (a + rfc_f i b c d + x ! rfc_k i + rfc_T ! i) + b, b, c)"

definition rfc_block :: "byte list \<Rightarrow> md5_state \<Rightarrow> md5_state" where
  "rfc_block block st = (case st of (s0, s1, s2, s3) \<Rightarrow>
     case foldl (rfc_step (decode block)) st [0..<64] of (a, b, c, d) \<Rightarrow> (s0 + a, s1 + b, s2 + c, s3 + d))"

fun rfc_blocks :: "byte list \<Rightarrow> md5_state \<Rightarrow> md5_state" where
  "rfc_blocks xs st = (if length xs < 64 then st else rfc_blocks (drop 64 xs) (rfc_block (take 64 xs) st))"

declare rfc_blocks.simps [simp del]

text \<open>A one bit, zeros up to 56 bytes modulo 64, and the number of bits in 64 bits.\<close>

definition rfc_pad :: "byte list \<Rightarrow> byte list" where
  "rfc_pad msg = msg @ 0x80 # replicate ((119 - length msg mod 64) mod 64) 0 @
     map (\<lambda>k. of_nat (8 * length msg div 256 ^ k)) [0..<8]"

definition rfc_md5 :: "byte list \<Rightarrow> byte list" where
  "rfc_md5 msg = (case rfc_blocks (rfc_pad msg) md5_init of (a, b, c, d) \<Rightarrow> encode [a, b, c, d])"

section \<open>The block function is the one of RFC 1321\<close>

abbreviation tup :: "md5_vars \<Rightarrow> md5_state" where
  "tup v \<equiv> (v VA, v VB, v VC, v VD)"

fun rot_step :: "(word32 \<Rightarrow> word32 \<Rightarrow> word32 \<Rightarrow> word32) \<Rightarrow> word32 list \<Rightarrow> nat \<Rightarrow> nat \<Rightarrow> word32 \<Rightarrow> md5_state \<Rightarrow> md5_state" where
  "rot_step f x k s ac (a, b, c, d) = (d, rotate_left (a + f b c d + x ! k + ac) s + b, b, c)"

lemma four_steps:
  "tup (step f VB VC VD VA x k3 s3 c3 (step f VC VD VA VB x k2 s2 c2 (step f VD VA VB VC x k1 s1 c1 (step f VA VB VC VD x k0 s0 c0 v)))) =
   rot_step f x k3 s3 c3 (rot_step f x k2 s2 c2 (rot_step f x k1 s1 c1 (rot_step f x k0 s0 c0 (tup v))))"
  by (simp add: step_def)

lemma rotate_left_rotl:
  assumes "n < 32" shows "rotate_left x n = word_rotl n x"
proof (rule bit_word_eqI)
  fix k assume k: "k < LENGTH(32)"
  have "(k + (32 - n mod 32)) mod 32 = (if k < n then 32 + k - n else k - n)" using assms k by (auto simp: mod_if)
  then show "bit (rotate_left x n) k = bit (word_rotl n x) k"
    using assms k by (auto simp: rotate_left_def bit_or_iff bit_push_bit_iff bit_drop_bit_eq bit_word_rotl_iff dest: bit_imp_le_length)
qed

lemma rfc_step_rot: "rfc_s i < 32 \<Longrightarrow> rfc_step x st i = rot_step (rfc_f i) x (rfc_k i) (rfc_s i) (rfc_T ! i) st"
  by (cases st) (simp add: rotate_left_rotl)

lemmas rfc_tables = rfc_step_rot rfc_s_def rfc_f_def rfc_k_def rfc_T_def

lemma round1_rfc: "tup (round1 x v) = foldl (rfc_step x) (tup v) [0..<16]"
proof -
  have upt: "[0..<16] = [0, 1, 2, 3, 4, 5, 6, 7, 8, 9, 10, 11, 12, 13, 14, 15]" by code_simp
  show ?thesis unfolding round1_def foldl.simps four_steps upt by (simp add: rfc_tables del: rfc_step.simps rot_step.simps)
qed

lemma round2_rfc: "tup (round2 x v) = foldl (rfc_step x) (tup v) [16..<32]"
  unfolding round2_def foldl.simps four_steps by (simp add: rfc_tables del: rfc_step.simps rot_step.simps)

lemma round3_rfc: "tup (round3 x v) = foldl (rfc_step x) (tup v) [32..<48]"
  unfolding round3_def foldl.simps four_steps by (simp add: rfc_tables del: rfc_step.simps rot_step.simps)

lemma round4_rfc: "tup (round4 x v) = foldl (rfc_step x) (tup v) [48..<64]"
  unfolding round4_def foldl.simps four_steps by (simp add: rfc_tables del: rfc_step.simps rot_step.simps)

lemma transform_rfc: "transform block st = rfc_block block st"
proof -
  obtain a b c d where st: "st = (a, b, c, d)" by (cases st)
  let ?v = "case_md5_var a b c d"
  have upt: "[0..<64] = [0..<16] @ [16..<32] @ [32..<48] @ [48..<64]" by (simp add: upt_add_eq_append[of 0 16 48, simplified] upt_rec_numeral)
  have "foldl (rfc_step x) (tup ?v) [0..<64] = tup (round4 x (round3 x (round2 x (round1 x ?v))))" for x
    unfolding upt foldl_append round1_rfc[symmetric] round2_rfc[symmetric] round3_rfc[symmetric] round4_rfc[symmetric] ..
  then show ?thesis by (simp add: st transform_def rfc_block_def Let_def)
qed

section \<open>Feeding a message in pieces\<close>

fun absorb :: "byte list \<Rightarrow> md5_state \<Rightarrow> md5_state" where
  "absorb xs st = (if length xs < 64 then st else absorb (drop 64 xs) (transform (take 64 xs) st))"

declare absorb.simps [simp del]

lemma absorb_rfc: "absorb xs st = rfc_blocks xs st"
  by (induction xs st rule: absorb.induct) (simp add: absorb.simps[of xs st for xs st] rfc_blocks.simps[of xs st for xs st] transform_rfc)

lemma absorb_short: "length xs < 64 \<Longrightarrow> absorb xs st = st"
  by (simp add: absorb.simps)

lemma absorb_block: "length xs = 64 \<Longrightarrow> absorb (xs @ ys) st = absorb ys (transform xs st)"
  by (simp add: absorb.simps[of "xs @ ys" st])

lemma absorb_append:
  assumes "length xs mod 64 = 0" shows "absorb (xs @ ys) st = absorb ys (absorb xs st)"
  using assms
proof (induction xs st rule: absorb.induct)
  case (1 xs st)
  show ?case
  proof (cases "length xs < 64")
    case True
    with 1(2) show ?thesis by (simp add: absorb_short)
  next
    case False
    with 1 have "absorb (drop 64 xs @ ys) (transform (take 64 xs) st) = absorb ys (absorb (drop 64 xs) (transform (take 64 xs) st))"
      by (simp add: le_mod_geq)
    with False show ?thesis by (simp add: absorb.simps[of xs st] absorb.simps[of "xs @ ys" st])
  qed
qed

lemma update_loop_absorbs:
  assumes "len \<le> length input" "len + 64 < M32" "i \<le> len" "len - i < n"
  shows "update_loop n input len i st = Inr (len - (len - i) mod 64, absorb (take (len - i) (drop i input)) st)"
  using assms(3,4)
proof (induction n arbitrary: i st)
  case (Suc n)
  have a: "add32 i 64 = i + 64" using Suc.prems assms(2) by (simp add: add32_def)
  show ?case
  proof (cases "i + 64 \<le> len")
    case True
    have "len - (i + 64) = len - i - 64" by simp
    then have 1: "(len - (i + 64)) mod 64 = (len - i) mod 64" using True by (simp add: le_mod_geq[of 64 "len - i", simplified])
    have 2: "take 64 (take (len - i) (drop i input)) = take 64 (drop i input)" using True by (simp add: min_def)
    have 3: "drop 64 (take (len - i) (drop i input)) = take (len - (i + 64)) (drop (i + 64) input)"
      by (simp add: drop_take add.commute)
    have "\<not> len - i < 64" using True by simp
    then show ?thesis using Suc.IH[of "i + 64"] Suc.prems True assms(1)
      by (simp add: a absorb.simps[of "take (len - i) (drop i input)" st] 1 2 3)
  next
    case False
    then show ?thesis using Suc.prems by (simp add: a absorb_short)
  qed
qed simp

text \<open>An object that has been fed \<open>msg\<close> and is not finalized.\<close>

definition fed :: "byte list \<Rightarrow> md5 \<Rightarrow> bool" where
  "fed msg m \<longleftrightarrow> \<not> m_finalized m \<and> length (m_buffer m) = 64 \<and> m_state m = absorb msg md5_init \<and>
     take (length msg mod 64) (m_buffer m) = drop (length msg - length msg mod 64) msg \<and>
     unat (m_count0 m) + 2 ^ 32 * unat (m_count1 m) = 8 * length msg mod 2 ^ 64"

lemma fedI:
  "length msg mod 64 = r \<Longrightarrow> \<not> m_finalized m \<Longrightarrow> length b = 64 \<Longrightarrow> absorb msg md5_init = s \<Longrightarrow> take r b = x \<Longrightarrow>
   drop (length msg - r) msg = x \<Longrightarrow> unat (m_count0 m) + 2 ^ 32 * unat (m_count1 m) = 8 * length msg mod 2 ^ 64 \<Longrightarrow>
   fed msg (m\<lparr>m_buffer := b, m_state := s\<rparr>)"
  by (simp add: fed_def)

lemma fed_MD5: "length b = 64 \<Longrightarrow> fed [] (MD5 b d)"
  by (simp add: fed_def MD5_def absorb_short)

lemma word32_less: "unat (w :: word32) < 2 ^ 32"
proof -
  have "unat w < 2 ^ LENGTH(32)" by (rule unsigned_less)
  then show ?thesis by simp
qed

lemma count_index:
  assumes "unat (c0 :: word32) + 2 ^ 32 * unat (c1 :: word32) = 8 * n mod 2 ^ 64"
  shows "unat (c0 div 8 mod 64) = n mod 64"
proof -
  have "unat c0 = 8 * n mod 2 ^ 64 mod 2 ^ 32" unfolding assms[symmetric] using word32_less[of c0] by simp
  then have "unat c0 = 8 * n mod (8 * 2 ^ 29)" by (simp add: mod_mod_cancel)
  then have "unat c0 = 8 * (n mod 2 ^ 29)" by (simp only: mult_mod_right)
  then have "unat c0 div 8 mod 64 = n mod 2 ^ 29 mod 64" by simp
  also have "\<dots> = n mod 64" by (simp add: mod_mod_cancel)
  finally show ?thesis by (simp add: unat_div unat_mod)
qed

text \<open>Addition of numbers of two digits, with the carry.\<close>

lemma add_digits:
  fixes M Y :: nat
  assumes "a + M * b = X mod (M * M)" "a < M"
  defines "l \<equiv> Y mod M"
  shows "(a + l) mod M + M * ((b + (if M \<le> a + l then 1 else 0) + Y div M) mod M) = (X + Y) mod (M * M)"
proof -
  let ?k = "if M \<le> a + l then 1 else 0 :: nat" and ?T = "(a + l) + M * (b + Y div M)"
  have l: "l < M" using assms(2) by (simp add: l_def)
  define r where "r = (a + l) mod M"
  have "a + l = r + M * ?k" "r < M" using assms(2) l by (auto simp: r_def mod_if)
  then have "?T = r + M * (b + ?k + Y div M)" by (simp add: distrib_left)
  then have "?T div M = b + ?k + Y div M" "?T mod M = r" using \<open>r < M\<close> by simp_all
  then have "?T mod (M * M) = M * ((b + ?k + Y div M) mod M) + r" by (simp add: mod_mult2_eq)
  moreover have "?T = X mod (M * M) + Y" using assms(1) by (simp add: l_def algebra_simps)
  ultimately show ?thesis by (simp add: mod_simps r_def)
qed

lemma count_update:
  fixes c0 c1 :: word32
  assumes "unat c0 + 2 ^ 32 * unat c1 = 8 * n mod 2 ^ 64" "len < 2 ^ 32"
  defines "bits \<equiv> push_bit 3 (of_nat len) :: word32"
  shows "unat (c0 + bits) + 2 ^ 32 * unat ((if c0 + bits < bits then c1 + 1 else c1) + drop_bit 29 (of_nat len)) = 8 * (n + len) mod 2 ^ 64"
proof -
  have u: "unat (of_nat len :: word32) = len" using assms(2) by (simp add: unsigned_of_nat take_bit_nat_eq_self)
  have b: "unat bits = 8 * len mod 2 ^ 32" by (simp add: bits_def push_bit_eq_mult unat_word_ariths u mult.commute)
  have h: "unat (drop_bit 29 (of_nat len) :: word32) = len div 2 ^ 29" by (simp add: drop_bit_eq_div unat_div u)
  have s: "unat (c0 + bits) = (unat c0 + unat bits) mod 2 ^ 32" by (simp add: unat_word_ariths)
  have c: "unat ((if c0 + bits < bits then c1 + 1 else c1) + drop_bit 29 (of_nat len)) =
      (unat c1 + (if unat c0 + unat bits \<ge> 2 ^ 32 then 1 else 0) + len div 2 ^ 29) mod 2 ^ 32"
  proof -
    have "c0 + bits < bits \<longleftrightarrow> unat c0 + unat bits \<ge> 2 ^ 32"
      unfolding word_less_nat_alt s using word32_less[of c0] word32_less[of bits] by (auto simp: mod_if)
    then show ?thesis by (auto simp: unat_word_ariths h mod_simps)
  qed
  have "8 * len div 2 ^ 32 = len div 2 ^ 29" using div_mult2_eq[of "8 * len" 8 "2 ^ 29"] by simp
  then show ?thesis unfolding s c b using add_digits[of "unat c0" "2 ^ 32" "unat c1" "8 * n" "8 * len"] assms(1) word32_less[of c0]
    by (simp add: algebra_simps)
qed

lemma refilled: "length buf = 64 \<Longrightarrow> length xs = r \<Longrightarrow> r < 64 \<Longrightarrow> length (xs @ drop r buf) = 64 \<and> take r (xs @ drop r buf) = xs"
  by simp

lemma length_last_part: "r \<le> n \<Longrightarrow> n \<le> length xs \<Longrightarrow> length (take r (drop (n - r) xs)) = r"
  by simp

lemma update_fed:
  assumes m: "fed msg m" and len: "len \<le> length input" "len + 64 < M32"
  shows "\<exists>m'. update input len m = Inr m' \<and> fed (msg @ take len input) m'"
proof -
  define k where "k = length msg mod 64"
  define full where "full = take (length msg - k) msg"
  define tail where "tail = drop (length msg - k) msg"
  define m1 where "m1 = m\<lparr>m_count0 := m_count0 m + push_bit 3 (of_nat len),
     m_count1 := (if m_count0 m + push_bit 3 (of_nat len) < push_bit 3 (of_nat len) then m_count1 m + 1 else m_count1 m) + drop_bit 29 (of_nat len)\<rparr>"
  have split: "msg = full @ tail" "length tail = k" "length full mod 64 = 0" "k < 64"
    by (auto simp: full_def tail_def k_def minus_mod_eq_mult_div minus_mult_div_eq_mod)
  have idx: "unat (m_count0 m div 8 mod 64) = k" using m count_index[of "m_count0 m" "m_count1 m" "length msg"] by (simp add: fed_def k_def)
  have st: "m_state m = absorb full md5_init" using m split by (simp add: fed_def absorb_append absorb_short)
  have buf: "length (m_buffer m) = 64" "take k (m_buffer m) = tail" using m by (simp_all add: fed_def k_def tail_def)
  have "len < 2 ^ 32" using len(2) by (simp add: M32_def)
  then have cnt: "unat (m_count0 m1) + 2 ^ 32 * unat (m_count1 m1) = 8 * length (msg @ take len input) mod 2 ^ 64"
    using m count_update[of "m_count0 m" "m_count1 m" "length msg" len] len(1) by (simp add: fed_def m1_def)
  have new: "absorb (msg @ take len input) md5_init = absorb (tail @ take len input) (m_state m)" using split st by (simp add: absorb_append)
  show ?thesis
  proof (cases "64 - k \<le> len")
    case False
    let ?buf = "take k (m_buffer m) @ take len input @ drop (k + len) (m_buffer m)"
    have run: "update input len m = Inr (m1\<lparr>m_buffer := ?buf\<rparr>)" using False idx buf split(4) len(1)
      by (simp add: update_def Let_def m1_def buffer_copy_def bind_res_def)
    have "length (msg @ take len input) mod 64 = k + len" using False split len(1) by (simp add: mod_add_eq[of "length full", symmetric])
    then have "fed (msg @ take len input) (m1\<lparr>m_buffer := ?buf\<rparr>)"
      using False cnt buf split len(1) new m by (simp add: fed_def m1_def absorb_short)
    with run show ?thesis by blast
  next
    case True
    let ?buf = "tail @ take (64 - k) input" and ?rest = "take (len - (64 - k)) (drop (64 - k) input)"
    let ?r = "(len - (64 - k)) mod 64" and ?st = "absorb ?rest (transform ?buf (m_state m))"
    let ?buf2 = "take ?r (drop (len - ?r) input) @ drop ?r ?buf"
    have r: "?r \<le> len" "?r < 64" using True by (auto intro: le_trans[OF mod_less_eq_dividend])
    have loop: "update_loop (Suc len) input len (64 - k) (transform ?buf (m_state m)) = Inr (len - ?r, ?st)"
      using update_loop_absorbs[OF len, of "64 - k" "Suc len" "transform ?buf (m_state m)"] True by simp
    have "buffer_copy input 0 (m_buffer m) k (64 - k) = Inr ?buf" using True buf split(4) len(1) by (simp add: buffer_copy_def)
    moreover have "buffer_copy input (len - ?r) ?buf 0 (sub32 len (len - ?r)) = Inr ?buf2"
      using r True split len(1) by (simp add: buffer_copy_def sub32_id)
    ultimately have run: "update input len m = Inr (m1\<lparr>m_buffer := ?buf2, m_state := ?st\<rparr>)"
      using True idx loop by (simp add: update_def Let_def m1_def bind_res_def del: update_loop.simps)
    have blk: "tail @ take len input = ?buf @ ?rest" using True by (simp add: take_add[symmetric])
    have lens: "length (msg @ take len input) mod 64 = ?r"
    proof -
      have "length (msg @ take len input) = length full + 64 + (len - (64 - k))" using True split len(1) by simp
      moreover obtain q where "length full = 64 * q" using split(3) by (auto simp: mod_eq_0_iff_dvd)
      ultimately show ?thesis using mod_mult_self4[of q 64 "len - (64 - k)"] by (simp add: algebra_simps)
    qed
    have last: "drop (length (msg @ take len input) - ?r) (msg @ take len input) = take ?r (drop (len - ?r) input)"
      using r True split len(1) by (simp add: drop_take)
    have ab: "absorb (msg @ take len input) md5_init = ?st"
      unfolding new blk by (rule absorb_block) (use True split(2,4) len(1) in simp)
    have b64: "length ?buf = 64" using True split(2,4) len(1) by simp
    have xr: "length (take ?r (drop (len - ?r) input)) = ?r" by (rule length_last_part[OF r(1) len(1)])
    note rf = refilled[OF b64 xr r(2)]
    have "\<not> m_finalized m1" using m by (simp add: fed_def m1_def)
    then have "fed (msg @ take len input) (m1\<lparr>m_buffer := ?buf2, m_state := ?st\<rparr>)"
      by (rule fedI[OF lens _ conjunct1[OF rf] ab conjunct2[OF rf] last cnt])
    with run show ?thesis by blast
  qed
qed

lemma byte_of_word: "ucast (drop_bit j w AND 0xff) = (of_nat (unat (w :: word32) div 2 ^ j) :: byte)"
proof -
  have ff: "(0xff :: word32) = mask 8" by (simp add: mask_eq_exp_minus_1)
  have "(ucast (drop_bit j w AND 0xff) :: byte) = ucast (drop_bit j w)"
    unfolding ff by (rule bit_word_eqI) (simp add: bit_simps)
  also have "\<dots> = of_nat (unat (drop_bit j w))" by simp
  also have "unat (drop_bit j w) = unat w div 2 ^ j" by (simp add: unsigned_drop_bit_eq) (simp add: drop_bit_eq_div take_bit_nat_eq_self word32_less[simplified])
  finally show ?thesis .
qed

lemma encode_count:
  assumes "unat (c0 :: word32) + 2 ^ 32 * unat (c1 :: word32) = N mod 2 ^ 64"
  shows "encode [c0, c1] = map (\<lambda>k. of_nat (N div 256 ^ k)) [0..<8]"
proof -
  have b: "(of_nat (x div 2 ^ j) :: byte) = of_nat (y div 2 ^ j)" if "x mod 2 ^ (j + 8) = y mod 2 ^ (j + 8)" for x y j :: nat
  proof -
    have "x div 2 ^ j mod 2 ^ 8 = y div 2 ^ j mod 2 ^ 8" using that by (metis div_exp_mod_exp_eq)
    then show ?thesis by (simp add: word_of_nat_eq_iff take_bit_eq_mod)
  qed
  have "unat c0 = N mod 2 ^ 64 mod 2 ^ 32" unfolding assms[symmetric] using word32_less[of c0] by simp
  then have c0: "unat c0 = N mod 2 ^ 32" by (simp add: mod_mod_cancel)
  have c1: "unat c1 = N mod 2 ^ 64 div 2 ^ 32" unfolding assms[symmetric] using word32_less[of c0] by simp
  have lo: "(of_nat (unat c0 div 2 ^ j) :: byte) = of_nat (N div 2 ^ j)" if "j + 8 \<le> 32" for j
    unfolding c0 by (rule b) (use that in \<open>simp add: mod_mod_cancel le_imp_power_dvd del: power_numeral\<close>)
  have hi: "(of_nat (unat c1 div 2 ^ j) :: byte) = of_nat (N div 2 ^ (32 + j))" if "j + 8 \<le> 32" for j
  proof -
    have "unat c1 div 2 ^ j = N mod 2 ^ 64 div 2 ^ (32 + j)" unfolding c1 by (simp add: power_add div_mult2_eq)
    then show ?thesis using b[of "N mod 2 ^ 64" "32 + j" N] that by (simp add: mod_mod_cancel le_imp_power_dvd del: power_numeral)
  qed
  have upt: "[0..<8] = [0, 1, 2, 3, 4, 5, 6, 7]" by code_simp
  show ?thesis
    unfolding upt encode.simps byte_of_word using lo[of 0] lo[of 8] lo[of 16] lo[of 24] hi[of 0] hi[of 8] hi[of 16] hi[of 24] byte_of_word[of 0 c0] byte_of_word[of 0 c1]
    by simp
qed


lemma finalize_fed:
  assumes "fed msg m"
  shows "\<exists>m'. finalize m = Inr m' \<and> m_finalized m' \<and> m_digest m' = rfc_md5 msg"
proof -
  define k where "k = length msg mod 64"
  define p where "p = (if k < 56 then 56 - k else 120 - k)"
  have k: "k < 64" by (simp add: k_def)
  have cnt: "unat (m_count0 m) + 2 ^ 32 * unat (m_count1 m) = 8 * length msg mod 2 ^ 64" using assms by (simp add: fed_def)
  have p: "p - 1 = (119 - k) mod 64" "1 \<le> p" "p \<le> 64" using k by (auto simp: p_def mod_if)
  have "p \<le> length padding" "p + 64 < M32" using p(3) by (simp_all add: padding_def M32_def)
  then obtain m1 where m1: "update padding p m = Inr m1" "fed (msg @ take p padding) m1" using update_fed[OF assms] by blast
  let ?bits = "encode [m_count0 m, m_count1 m]"
  have bits: "?bits = map (\<lambda>k. of_nat (8 * length msg div 256 ^ k)) [0..<8]" by (rule encode_count[OF cnt])
  have "8 \<le> length ?bits" "8 + 64 < M32" by (simp_all add: M32_def)
  then obtain m2 where m2: "update ?bits 8 m1 = Inr m2" "fed ((msg @ take p padding) @ take 8 ?bits) m2" using update_fed[OF m1(2)] by blast
  obtain q where q: "p = Suc q" using p(2) by (cases p) auto
  have "take p padding = 0x80 # replicate (p - 1) 0" using p(3) by (simp add: q padding_def)
  then have pad: "(msg @ take p padding) @ take 8 ?bits = rfc_pad msg" using p(1) by (simp add: rfc_pad_def k_def bits del: encode.simps)
  have idx: "unat (m_count0 m div 8 mod 64) = k" using count_index[OF cnt] by (simp add: k_def)
  obtain a b c d where st: "m_state m2 = (a, b, c, d)" by (cases "m_state m2")
  have "rfc_blocks (rfc_pad msg) md5_init = (a, b, c, d)" using m2(2) st unfolding pad by (simp add: fed_def absorb_rfc)
  moreover have "finalize m = Inr (m2\<lparr>m_digest := encode [a, b, c, d], m_buffer := replicate 64 0, m_count0 := 0, m_count1 := 0, m_finalized := True\<rparr>)"
    using assms m1(1) m2(1) by (simp add: finalize_def fed_def Let_def idx p_def[symmetric] bind_res_def st del: encode.simps)
  ultimately show ?thesis by (simp add: rfc_md5_def)
qed

text \<open>The digest of a message that comes in pieces, as a client of the class computes it.\<close>

fun feed :: "byte list list \<Rightarrow> md5 \<Rightarrow> md5 res" where
  "feed [] m = Inr m"
| "feed (c # cs) m = bind_res (update c (length c) m) (feed cs)"

lemma feed_fed:
  assumes "fed msg m" "\<forall>c\<in>set cs. length c + 64 < M32"
  shows "\<exists>m'. feed cs m = Inr m' \<and> fed (msg @ concat cs) m'"
  using assms
proof (induction cs arbitrary: msg m)
  case (Cons c cs)
  then obtain m1 where "update c (length c) m = Inr m1" "fed (msg @ c) m1" using update_fed[of msg m "length c" c] by auto
  with Cons.IH[of "msg @ c" m1] Cons.prems(2) show ?case by (simp add: bind_res_def)
qed simp

lemma hexdigest_eq:
  "m_finalized m \<Longrightarrow> hexdigest m = concat (map (\<lambda>b. [hex_digit (unat b div 16), hex_digit (unat b mod 16)]) (m_digest m))"
  by (simp add: hexdigest_def)

lemma feed_finalize:
  assumes "length junk = 64" "\<forall>c\<in>set cs. length c + 64 < M32"
  shows "\<exists>m. bind_res (feed cs (MD5 junk junk')) finalize = Inr m \<and> m_finalized m \<and> m_digest m = rfc_md5 (concat cs)"
proof -
  obtain m1 where "feed cs (MD5 junk junk') = Inr m1" "fed (concat cs) m1"
    using feed_fed[OF fed_MD5[OF assms(1)] assms(2), of junk'] by auto
  with finalize_fed[of "concat cs" m1] show ?thesis by (simp add: bind_res_def)
qed

text \<open>The lower-case hexadecimal form of bytes: two digits for each, the high one first.\<close>

definition lower_hex :: "nat \<Rightarrow> char" where
  "lower_hex n = char_of (if n < 10 then 48 + n else 87 + n)"

definition hex_of :: "byte list \<Rightarrow> string" where
  "hex_of bs = concat (map (\<lambda>b. [lower_hex (unat b div 16), lower_hex (unat b mod 16)]) bs)"

lemma hex_digit_lower: "n < 16 \<Longrightarrow> hex_digit n = lower_hex n"
proof -
  have "\<forall>n\<in>set [0..<16]. hex_digit n = lower_hex n" by code_simp
  then show "n < 16 \<Longrightarrow> hex_digit n = lower_hex n" by simp
qed

lemma hexdigest_hex: "m_finalized m \<Longrightarrow> hexdigest m = hex_of (m_digest m)"
proof -
  assume "m_finalized m"
  have "unat b div 16 < 16" "unat b mod 16 < 16" for b :: byte
    using unsigned_less[of b, where 'a = nat] by (simp_all add: less_mult_imp_div_less)
  with \<open>m_finalized m\<close> show ?thesis by (simp add: hexdigest_eq hex_of_def hex_digit_lower)
qed

text \<open>
  C6: whatever the uninitialised memory held and however a message is cut into pieces of less than
  4 GiB - 64 bytes, \<^verbatim>\<open>update\<close> on every piece followed by \<^verbatim>\<open>finalize\<close> computes the digest that RFC 1321 defines for the
  whole message, and \<^verbatim>\<open>hexdigest\<close> returns its lower-case hexadecimal form.
\<close>

theorem md5_streams:
  assumes "length junk = 64" "\<forall>c\<in>set cs. length c + 64 < M32"
  shows "\<exists>m. bind_res (feed cs (MD5 junk junk')) finalize = Inr m \<and> m_digest m = rfc_md5 (concat cs) \<and> hexdigest m = hex_of (rfc_md5 (concat cs))"
  using feed_finalize[OF assms] hexdigest_hex by metis

theorem md5_streams_witness:
  "\<exists>m. bind_res (feed [[0x61], [], [0x62, 0x63]] (MD5 (replicate 64 7) (replicate 16 9))) finalize = Inr m \<and>
     m_digest m = rfc_md5 [0x61, 0x62, 0x63] \<and> hexdigest m = hex_of (rfc_md5 [0x61, 0x62, 0x63])"
  using md5_streams[of "replicate 64 7" "[[0x61], [], [0x62, 0x63]]" "replicate 16 9"] by (simp add: M32_def del: feed.simps)

end
