(* ===== verification/SectionTool.thy ===== *)
theory SectionTool
  imports Md5 ModelStream RtState
begin

text \<open>
  The sections of a model file in \<^verbatim>\<open>tool/cvimodel_tool.cpp\<close>: decompression, storing a section to a file and its digest.
  Reading goes through the file stream of the runtime; the LZ4 decoder and what the allocated buffer
  held before are parameters.
\<close>

section \<open>Operations\<close>

record tool_model =
  tm_stream :: file_stream
  tm_binary_offset :: u64

text \<open>\<^verbatim>\<open>stream.read(buf, binary_offset + offset, len)\<close>; the file holds no more than its length.\<close>

definition section_read :: "tool_model \<Rightarrow> u32 \<Rightarrow> u64 \<Rightarrow> byte list res" where
  "section_read T offset len = bind_res (FileStream_read (tm_stream T) (add64 (tm_binary_offset T) offset) len) (\<lambda>(bytes, _). Inr bytes)"

text \<open>The result code and the contents of \<^verbatim>\<open>out_buf\<close>, which the caller sees on success only.\<close>

definition decompress_section :: "(byte list \<Rightarrow> nat \<Rightarrow> byte list option) \<Rightarrow> tool_model \<Rightarrow> fb_section \<Rightarrow> (int \<times> byte list) res" where
  "decompress_section lz4 T sec = (if \<not> fs_compress sec then Inr (0, []) else
     bind_res (section_read T (fs_offset sec) (fs_size sec)) (\<lambda>in_buf.
     case lz4 in_buf (fs_decompressed_size sec) of
       None \<Rightarrow> Inr (-1, [])
     | Some out \<Rightarrow> if length out \<noteq> fs_decompressed_size sec then Inr (-1, []) else Inr (0, out)))"

text \<open>
  The loop over pieces of at most 1024 bytes, with what is done to each; a negative size would be
  read as a huge one.  It ends when nothing is left, after at most as many rounds as there are bytes.
\<close>

fun piece_loop :: "tool_model \<Rightarrow> ('a \<Rightarrow> byte list \<Rightarrow> 'a res) \<Rightarrow> nat \<Rightarrow> u32 \<Rightarrow> int \<Rightarrow> 'a \<Rightarrow> 'a res" where
  "piece_loop T f 0 offset sz acc = Inl Diverged"
| "piece_loop T f (Suc n) offset sz acc =
    (let len = (if sz > 1024 then 1024 else sz); sz' = sz - len in
     if len < 0 then Inl OutOfRange
     else bind_res (section_read T offset (nat len)) (\<lambda>buf.
          bind_res (f acc buf) (\<lambda>acc'.
          if sz' \<noteq> 0 then piece_loop T f n (add32 offset (nat len)) sz' acc' else Inr acc')))"

definition calcSectionMD5 :: "(byte list \<Rightarrow> nat \<Rightarrow> byte list option) \<Rightarrow> byte list \<Rightarrow> byte list \<Rightarrow> tool_model \<Rightarrow> fb_section \<Rightarrow> int \<Rightarrow> string res" where
  "calcSectionMD5 lz4 junk junk' T sec sz =
    (if fs_compress sec then
       bind_res (decompress_section lz4 T sec) (\<lambda>(rc, out).
       if rc \<noteq> 0 then Inr []
       else bind_res (update out (length out mod M32) (MD5 junk junk')) (\<lambda>md5. bind_res (finalize md5) (\<lambda>md5'. Inr (hexdigest md5'))))
     else bind_res (piece_loop T (\<lambda>md5 buf. update buf (length buf) md5) (Suc (nat sz)) (fs_offset sec) sz (MD5 junk junk')) (\<lambda>md5.
          bind_res (finalize md5) (\<lambda>md5'. Inr (hexdigest md5'))))"

text \<open>The contents of the file after storing; nothing is written when decompression fails.\<close>

definition storeSectionToFile :: "(byte list \<Rightarrow> nat \<Rightarrow> byte list option) \<Rightarrow> tool_model \<Rightarrow> fb_section \<Rightarrow> byte list res" where
  "storeSectionToFile lz4 T sec =
    (if fs_compress sec then
       bind_res (decompress_section lz4 T sec) (\<lambda>(rc, out). Inr (if rc \<noteq> 0 then [] else out))
     else piece_loop T (\<lambda>out buf. Inr (out @ buf)) (Suc (fs_size sec)) (fs_offset sec) (int (fs_size sec)) [])"

section \<open>Pieces\<close>

text \<open>The pieces a section is read in.\<close>

fun pieces :: "byte list \<Rightarrow> byte list list" where
  "pieces xs = (if length xs \<le> 1024 then [xs] else take 1024 xs # pieces (drop 1024 xs))"

declare pieces.simps [simp del]

lemma concat_pieces [simp]: "concat (pieces xs) = xs"
proof (induction xs rule: pieces.induct)
  case (1 xs)
  then show ?case by (subst pieces.simps) simp
qed

lemma pieces_short: "c \<in> set (pieces xs) \<Longrightarrow> length c \<le> 1024"
proof (induction xs rule: pieces.induct)
  case (1 xs)
  then show ?case by (auto simp: pieces.simps[of xs] split: if_splits)
qed

definition section_bytes :: "tool_model \<Rightarrow> nat \<Rightarrow> nat \<Rightarrow> byte list" where
  "section_bytes T offset sz = take sz (drop (tm_binary_offset T + offset) (fs_file (tm_stream T)))"

text \<open>A range inside the file whose positions do not wrap.\<close>

definition in_file :: "tool_model \<Rightarrow> nat \<Rightarrow> nat \<Rightarrow> bool" where
  "in_file T offset sz \<longleftrightarrow> fs_length (tm_stream T) = length (fs_file (tm_stream T)) \<and> fs_length (tm_stream T) < M64 \<and>
     tm_binary_offset T + offset + sz \<le> fs_length (tm_stream T) \<and> offset + sz < M32"

lemma section_read_ok:
  "in_file T offset sz \<Longrightarrow> n \<le> sz \<Longrightarrow> section_read T offset n = Inr (section_bytes T offset n)"
  by (simp add: section_read_def FileStream_read_def in_file_def add64_def assert_res_def bind_res_def read_at_def section_bytes_def)

fun each_piece :: "('a \<Rightarrow> byte list \<Rightarrow> 'a res) \<Rightarrow> byte list list \<Rightarrow> 'a \<Rightarrow> 'a res" where
  "each_piece f [] acc = Inr acc"
| "each_piece f (c # cs) acc = bind_res (f acc c) (each_piece f cs)"

lemma piece_loop_pieces:
  assumes "in_file T offset sz" "sz < n"
  shows "piece_loop T f n offset (int sz) acc = each_piece f (pieces (section_bytes T offset sz)) acc"
  using assms
proof (induction n arbitrary: offset sz acc)
  case (Suc n)
  have len: "length (section_bytes T offset sz) = sz" using Suc.prems(1) by (auto simp: section_bytes_def in_file_def)
  show ?case
  proof (cases "sz \<le> 1024")
    case True
    have "section_read T offset sz = Inr (section_bytes T offset sz)" using section_read_ok[OF Suc.prems(1)] by simp
    then show ?thesis using True len by (simp add: pieces.simps bind_res_def Let_def split: sum.splits)
  next
    case False
    have "in_file T (offset + 1024) (sz - 1024)" using Suc.prems(1) False by (simp add: in_file_def)
    note IH = Suc.IH[OF this]
    have 1: "take 1024 (section_bytes T offset sz) = section_bytes T offset 1024" "drop 1024 (section_bytes T offset sz) = section_bytes T (offset + 1024) (sz - 1024)"
      using False by (simp_all add: section_bytes_def drop_take min_def ac_simps)
    have "add32 offset 1024 = offset + 1024" using Suc.prems(1) False by (simp add: add32_def in_file_def)
    moreover have "section_read T offset 1024 = Inr (section_bytes T offset 1024)" using section_read_ok[OF Suc.prems(1)] False by simp
    moreover have "int sz - 1024 = int (sz - 1024)" using False by simp
    ultimately show ?thesis using False len Suc.prems(2) IH
      by (simp add: pieces.simps[of "section_bytes T offset sz"] 1 bind_res_def Let_def split: sum.splits)
  qed
qed simp

lemma each_piece_feed: "each_piece (\<lambda>m c. update c (length c) m) cs m = feed cs m"
  by (induction cs arbitrary: m) (simp_all add: bind_res_def split: sum.splits)

lemma each_piece_append: "each_piece (\<lambda>out c. Inr (out @ c)) cs xs = Inr (xs @ concat cs)"
  by (induction cs arbitrary: xs) (simp_all add: bind_res_def)

section \<open>What is stored and digested\<close>

definition hex_string :: "byte list \<Rightarrow> string" where
  "hex_string bs = concat (map (\<lambda>b. [hex_digit (unat b div 16), hex_digit (unat b mod 16)]) bs)"

text \<open>
  C38: for a section of the file, stored plainly or compressed, \<^verbatim>\<open>calcSectionMD5\<close> over its whole size is the RFC 1321
  digest, in hexadecimal, of exactly the bytes that \<^verbatim>\<open>storeSectionToFile\<close> writes: the bytes of the section, or
  what the decoder makes of them.
\<close>

theorem section_digest:
  assumes "in_file T (fs_offset sec) (fs_size sec)" "length junk = 64" "fs_decompressed_size sec + 64 < M32"
    and "fs_compress sec \<Longrightarrow> \<exists>out. lz4 (section_bytes T (fs_offset sec) (fs_size sec)) (fs_decompressed_size sec) = Some out \<and> length out = fs_decompressed_size sec"
  shows "\<exists>bytes. storeSectionToFile lz4 T sec = Inr bytes \<and> calcSectionMD5 lz4 junk junk' T sec (int (fs_size sec)) = Inr (hex_string (rfc_md5 bytes)) \<and>
     (\<not> fs_compress sec \<longrightarrow> bytes = section_bytes T (fs_offset sec) (fs_size sec))"
proof (cases "fs_compress sec")
  case True
  then obtain out where out: "lz4 (section_bytes T (fs_offset sec) (fs_size sec)) (fs_decompressed_size sec) = Some out" "length out = fs_decompressed_size sec"
    using assms(4) by blast
  have "section_read T (fs_offset sec) (fs_size sec) = Inr (section_bytes T (fs_offset sec) (fs_size sec))" by (rule section_read_ok[OF assms(1)]) simp
  then have d: "decompress_section lz4 T sec = Inr (0, out)" using True out by (simp add: decompress_section_def bind_res_def)
  obtain m where "bind_res (feed [out] (MD5 junk junk')) finalize = Inr m" "m_finalized m" "m_digest m = rfc_md5 out"
    using feed_finalize[OF assms(2), of "[out]" junk'] assms(3) out(2) by auto
  then show ?thesis using True d assms(3) out(2)
    by (auto simp: storeSectionToFile_def calcSectionMD5_def bind_res_def hexdigest_eq hex_string_def split: sum.splits)
next
  case False
  let ?b = "section_bytes T (fs_offset sec) (fs_size sec)"
  have "\<forall>c\<in>set (pieces ?b). length c + 64 < M32" using pieces_short by (fastforce simp: M32_def)
  from feed_finalize[OF assms(2) this, of junk'] obtain m where
    m: "bind_res (feed (pieces ?b) (MD5 junk junk')) finalize = Inr m" "m_finalized m" "m_digest m = rfc_md5 ?b" by auto
  have "storeSectionToFile lz4 T sec = Inr ?b"
    using False by (simp add: storeSectionToFile_def piece_loop_pieces[OF assms(1) lessI] each_piece_append del: piece_loop.simps)
  moreover have "calcSectionMD5 lz4 junk junk' T sec (int (fs_size sec)) = Inr (hex_string (rfc_md5 ?b))"
    using False m
    by (auto simp: calcSectionMD5_def piece_loop_pieces[OF assms(1) lessI] each_piece_feed bind_res_def hexdigest_eq hex_string_def simp del: piece_loop.simps split: sum.splits)
  ultimately show ?thesis using False by blast
qed

definition demo_tool :: tool_model where
  "demo_tool = \<lparr>tm_stream = \<lparr>fs_file = replicate 3000 5, fs_length = 3000\<rparr>, tm_binary_offset = 100\<rparr>"

definition demo_section :: fb_section where
  "demo_section = \<lparr>fs_type = SectionType_WEIGHT, fs_name = ''weight'', fs_size = 2500, fs_offset = 16, fs_encrypt = False,
     fs_compress = False, fs_decompressed_size = 0\<rparr>"

theorem section_digest_witness:
  "\<exists>bytes. storeSectionToFile (\<lambda>_ _. None) demo_tool demo_section = Inr bytes \<and>
     calcSectionMD5 (\<lambda>_ _. None) (replicate 64 1) (replicate 16 1) demo_tool demo_section 2500 = Inr (hex_string (rfc_md5 bytes)) \<and>
     bytes = replicate 2500 5"
  using section_digest[of demo_tool demo_section "replicate 64 1" "\<lambda>_ _. None" "replicate 16 1"]
  by (simp add: demo_tool_def demo_section_def in_file_def M64_def M32_def section_bytes_def)

end
