(* ===== verification/ModelTool.thy ===== *)
theory ModelTool
  imports SectionTool Model
begin

text \<open>
  The model tool (\<^verbatim>\<open>tool/cvimodel_tool.cpp\<close>, class \<^verbatim>\<open>Model\<close>): opening a model file, extracting, merging, compressing and
  encrypting it.

  A flatbuffers object is the record of its fields, an absent field \<^const>\<open>None\<close>; scalars that are not given when a
  table is built have the default of flatbuffers, zero.  The generated decoder and builder, LZ4, the order
  \<^verbatim>\<open>std::sort\<close> gives to equal elements, the clock, the external encrypter and what uninitialised memory holds
  are fields of an environment.  Files are lists of bytes; messages are left out.
\<close>

section \<open>Data\<close>

record tool_weight =
  tw_name :: string
  tw_offset :: int
  tw_size :: u32
  tw_shape :: "int list option"
  tw_type :: fb_dtype

record tool_tensor = fb_tensor +
  tt_quant_type :: int

datatype tool_routine =
    ToolTpu (tr_in_tensors: "string list") (tr_out_tensors: "string list") (tr_cmdbuf_section: "string option") (tr_dmabuf_section: "string option")
  | ToolCpu (tr_in_tensors: "string list") (tr_out_tensors: "string list") (tr_function_section: string) (tr_function_args: "byte list option")

record tool_program =
  tp_batch_num :: u32
  tp_neuron_size :: u32
  tp_input_tensors :: "string list"
  tp_output_tensors :: "string list"
  tp_tensor_map :: "tool_tensor list"
  tp_routines :: "tool_routine list"
  tp_shared_gmem :: u32
  tp_private_gmem :: u32

record tool_fb =
  tf_version :: "nat \<times> nat \<times> nat"
  tf_name :: string
  tf_build_time :: string
  tf_weight_map :: "tool_weight list option"
  tf_programs :: "tool_program list"
  tf_sections :: "fb_section list"
  tf_target :: "string option"
  tf_mlir_version :: "string option"

text \<open>An opened file: the header, the stream with the offset of the binary part, the decoded body.\<close>

record model_tool =
  mt_header :: "byte list"
  mt_file :: tool_model
  mt_fb :: tool_fb

record weight_section_t =
  ws_id :: nat
  ws_section :: fb_section
  ws_size :: u32

text \<open>How the program ends other than by returning: a fault, \<^verbatim>\<open>exit\<close>, or an allocation that throws.\<close>

datatype tool_end = Fault fault | Exit int | BadAlloc

type_synonym 'a tool = "tool_end + 'a"

record tool_env =
  te_GetModel :: "byte list \<Rightarrow> tool_fb"
  te_Finish :: "tool_fb \<Rightarrow> byte list"
  te_version :: "nat \<times> nat \<times> nat"
  te_now :: string
  te_lz4_decompress :: "byte list \<Rightarrow> nat \<Rightarrow> byte list option"
  te_lz4_compress :: "byte list \<Rightarrow> byte list option"
  te_sort :: "weight_section_t list \<Rightarrow> weight_section_t list"
  te_encrypter :: "(string \<times> string) list \<Rightarrow> (string \<rightharpoonup> byte list) \<Rightarrow> (string \<rightharpoonup> byte list)"
  te_md5_buffer :: "byte list"
  te_md5_digest :: "byte list"
  te_header_md5 :: "byte list"

definition tbind :: "'a tool \<Rightarrow> ('a \<Rightarrow> 'b tool) \<Rightarrow> 'b tool" where
  "tbind r k = (case r of Inl e \<Rightarrow> Inl e | Inr a \<Rightarrow> k a)"

definition tres :: "'a res \<Rightarrow> 'a tool" where
  "tres r = (case r of Inl e \<Rightarrow> Inl (Fault e) | Inr a \<Rightarrow> Inr a)"

fun tfold :: "('a \<Rightarrow> 's \<Rightarrow> 's tool) \<Rightarrow> 'a list \<Rightarrow> 's \<Rightarrow> 's tool" where
  "tfold f [] s = Inr s"
| "tfold f (x # xs) s = tbind (f x s) (tfold f xs)"

fun tmap :: "('a \<Rightarrow> 'b tool) \<Rightarrow> 'a list \<Rightarrow> 'b list tool" where
  "tmap f [] = Inr []"
| "tmap f (x # xs) = tbind (f x) (\<lambda>y. tbind (tmap f xs) (\<lambda>ys. Inr (y # ys)))"

section \<open>Opening a file\<close>

text \<open>A file too short for the header is reported, then read anyway, which the stream refuses.\<close>

definition Model_open :: "tool_env \<Rightarrow> byte list option \<Rightarrow> model_tool tool" where
  "Model_open E file = (let stream = FileStream_open file in
     tbind (tres (FileStream_read stream 0 SIZEOF_MODEL_HEADER)) (\<lambda>(header, _).
     let header_size = (if header ! 12 = 1 \<and> header ! 13 = 0 then 0x20 else SIZEOF_MODEL_HEADER);
         body_size = header_body_size header;
         binary_offset = add64 header_size body_size in
     tbind (tres (FileStream_read stream header_size body_size)) (\<lambda>(body, _).
     Inr \<lparr>mt_header = header, mt_file = \<lparr>tm_stream = stream, tm_binary_offset = binary_offset\<rparr>, mt_fb = te_GetModel E body\<rparr>)))"

text \<open>The digest of a section, of the given \<^verbatim>\<open>int\<close> number of bytes.\<close>

definition tool_md5 :: "tool_env \<Rightarrow> model_tool \<Rightarrow> fb_section \<Rightarrow> int \<Rightarrow> string tool" where
  "tool_md5 E m s sz = tres (calcSectionMD5 (te_lz4_decompress E) (te_md5_buffer E) (te_md5_digest E) (mt_file m) s sz)"

definition tool_store :: "tool_env \<Rightarrow> model_tool \<Rightarrow> fb_section \<Rightarrow> byte list tool" where
  "tool_store E m s = tres (storeSectionToFile (te_lz4_decompress E) (mt_file m) s)"

section \<open>Copying the tables\<close>

text \<open>One weight of the copied map: the name, the place and the size decide whether it is there already.\<close>

definition clone_weight :: "tool_weight \<Rightarrow> tool_weight list \<times> (string \<times> int \<times> u32) list \<Rightarrow>
    (tool_weight list \<times> (string \<times> int \<times> u32) list) tool" where
  "clone_weight w = (\<lambda>(tensor_vec, weight_tensors).
     if (\<exists>t\<in>set weight_tensors. t = (tw_name w, tw_offset w, tw_size w)) then Inr (tensor_vec, weight_tensors)
     else case tw_shape w of None \<Rightarrow> Inl (Fault NullDeref)
     | Some dim \<Rightarrow> Inr (tensor_vec @ [\<lparr>tw_name = tw_name w, tw_offset = tw_offset w, tw_size = tw_size w, tw_shape = Some dim, tw_type = tw_type w\<rparr>],
                        weight_tensors @ [(tw_name w, tw_offset w, tw_size w)]))"

definition cloneWeightMap :: "model_tool list \<Rightarrow> tool_weight list tool" where
  "cloneWeightMap models = tbind
     (tfold (\<lambda>m acc. case tf_weight_map (mt_fb m) of None \<Rightarrow> Inl (Fault NullDeref) | Some ws \<Rightarrow> tfold clone_weight ws acc) models ([], []))
     (\<lambda>(tensor_vec, _). Inr tensor_vec)"

text \<open>An optional vector or string that is empty is left out of the copy.\<close>

definition nonempty :: "'a list option \<Rightarrow> 'a list option" where
  "nonempty v = (case v of None \<Rightarrow> None | Some xs \<Rightarrow> if xs = [] then None else Some xs)"

definition clone_tensor :: "tool_tensor \<Rightarrow> tool_tensor" where
  "clone_tensor t = (case ft_quant t of
     None \<Rightarrow> \<lparr>ft_id = ft_id t, ft_name = ft_name t, ft_offset = ft_offset t, ft_dtype = ft_dtype t, ft_shape = ft_shape t,
              ft_quant = None, ft_overwrote = ft_overwrote t, ft_pixel_format = None, ft_aligned = False, ft_size = 0,
              ft_scale = None, ft_mean = None, tt_quant_type = 0\<rparr>
   | Some (qscale, zero_point) \<Rightarrow>
             \<lparr>ft_id = ft_id t, ft_name = ft_name t, ft_offset = ft_offset t, ft_dtype = ft_dtype t, ft_shape = ft_shape t,
              ft_quant = Some (qscale, zero_point), ft_overwrote = ft_overwrote t, ft_pixel_format = nonempty (ft_pixel_format t),
              ft_aligned = ft_aligned t, ft_size = ft_size t, ft_scale = nonempty (ft_scale t), ft_mean = nonempty (ft_mean t),
              tt_quant_type = tt_quant_type t\<rparr>)"

definition cloneTensorMap :: "tool_program \<Rightarrow> tool_tensor list" where
  "cloneTensorMap p = map clone_tensor (tp_tensor_map p)"

text \<open>The name of a command buffer of the model with the given index; \<^verbatim>\<open>emplace\<close> keeps an entry that is there.\<close>

definition indexed_name :: "string \<Rightarrow> nat \<Rightarrow> string" where
  "indexed_name name index = name @ ''_'' @ digits index"

definition emplace :: "string \<Rightarrow> string \<Rightarrow> (string \<rightharpoonup> string) \<Rightarrow> (string \<rightharpoonup> string)" where
  "emplace k v m = (case m k of None \<Rightarrow> m(k \<mapsto> v) | Some _ \<Rightarrow> m)"

fun clone_routine :: "bool \<Rightarrow> nat \<Rightarrow> tool_routine \<Rightarrow> (string \<rightharpoonup> string) \<Rightarrow> (tool_routine \<times> (string \<rightharpoonup> string)) tool" where
  "clone_routine rename index (ToolTpu ins outs cmdbuf dmabuf) names =
    (if rename then
       (case cmdbuf of
          Some c \<Rightarrow> Inr (ToolTpu ins outs (Some (indexed_name c index)) None, emplace c (indexed_name c index) names)
        | None \<Rightarrow> (case dmabuf of
            Some d \<Rightarrow> Inr (ToolTpu ins outs None (Some (indexed_name d index)), emplace d (indexed_name d index) names)
          | None \<Rightarrow> Inl (Fault NullDeref)))
     else Inr (ToolTpu ins outs cmdbuf dmabuf, names))"
| "clone_routine rename index (ToolCpu ins outs function args) names =
    (case args of None \<Rightarrow> Inl (Fault NullDeref) | Some bytes \<Rightarrow> Inr (ToolCpu ins outs function (Some bytes), names))"

definition cloneRoutines :: "tool_program \<Rightarrow> bool \<Rightarrow> nat \<Rightarrow> (string \<rightharpoonup> string) \<Rightarrow> (tool_routine list \<times> (string \<rightharpoonup> string)) tool" where
  "cloneRoutines p rename index names =
     tfold (\<lambda>r (routines, names). tbind (clone_routine rename index r names) (\<lambda>(r', names'). Inr (routines @ [r'], names')))
       (tp_routines p) ([], names)"

definition clone_program :: "tool_program \<Rightarrow> tool_routine list \<Rightarrow> tool_program" where
  "clone_program p routines = \<lparr>tp_batch_num = tp_batch_num p, tp_neuron_size = tp_neuron_size p, tp_input_tensors = tp_input_tensors p,
     tp_output_tensors = tp_output_tensors p, tp_tensor_map = cloneTensorMap p, tp_routines = routines,
     tp_shared_gmem = tp_shared_gmem p, tp_private_gmem = tp_private_gmem p\<rparr>"

text \<open>The copied programs and a map of names for each of them.\<close>

definition clonePrograms :: "model_tool list \<Rightarrow> (tool_program list \<times> (string \<rightharpoonup> string) list) tool" where
  "clonePrograms models = tfold (\<lambda>(i, m). tfold (\<lambda>p (programs, routine_name_maps).
       tbind (cloneRoutines p True i Map.empty) (\<lambda>(routines, names). Inr (programs @ [clone_program p routines], routine_name_maps @ [names])))
     (tf_programs (mt_fb m))) (enumerate 0 models) ([], [])"

definition rebuildWeightMap :: "model_tool \<Rightarrow> tool_weight list tool" where
  "rebuildWeightMap m = (case tf_weight_map (mt_fb m) of None \<Rightarrow> Inl (Fault NullDeref)
   | Some ws \<Rightarrow> tmap (\<lambda>w. case tw_shape w of None \<Rightarrow> Inl (Fault NullDeref)
       | Some dim \<Rightarrow> Inr \<lparr>tw_name = tw_name w, tw_offset = tw_offset w, tw_size = tw_size w, tw_shape = Some dim, tw_type = tw_type w\<rparr>) ws)"

definition rebuildPrograms :: "model_tool \<Rightarrow> tool_program list tool" where
  "rebuildPrograms m = tmap (\<lambda>p. tbind (cloneRoutines p False 0 Map.empty) (\<lambda>(routines, _). Inr (clone_program p routines))) (tf_programs (mt_fb m))"

section \<open>Merging\<close>

definition is_buffer :: "section_type \<Rightarrow> bool" where
  "is_buffer ty \<longleftrightarrow> ty = SectionType_CMDBUF \<or> ty = SectionType_DMABUF"

text \<open>The weight sections of all models and which kinds of command buffers there are.\<close>

definition scan_section :: "nat \<Rightarrow> fb_section \<Rightarrow> weight_section_t list \<times> bool \<times> bool \<Rightarrow> weight_section_t list \<times> bool \<times> bool" where
  "scan_section i s = (\<lambda>(ws, cmd, dma).
     if fs_type s = SectionType_WEIGHT then (ws @ [\<lparr>ws_id = i, ws_section = s, ws_size = fs_size s\<rparr>], cmd, dma)
     else if fs_type s = SectionType_CMDBUF then (ws, True, dma)
     else if fs_type s = SectionType_DMABUF then (ws, cmd, True)
     else (ws, cmd, dma))"

definition scan_sections :: "model_tool list \<Rightarrow> weight_section_t list \<times> bool \<times> bool" where
  "scan_sections models = fold (\<lambda>(i, m). fold (scan_section i) (tf_sections (mt_fb m))) (enumerate 0 models) ([], False, False)"

text \<open>
  Every section but the first is digested up to the size of the one before it and compared with the digest of
  that one.
\<close>

fun compare_weights :: "tool_env \<Rightarrow> model_tool list \<Rightarrow> (weight_section_t \<times> int) list \<Rightarrow> string \<Rightarrow> unit tool" where
  "compare_weights E models [] weight_md5 = Inr ()"
| "compare_weights E models ((ws, sz) # rest) weight_md5 =
    tbind (tool_md5 E (models ! ws_id ws) (ws_section ws) sz) (\<lambda>md5.
     if weight_md5 = [] then compare_weights E models rest md5
     else if weight_md5 \<noteq> md5 then Inl (Exit 1)
     else tbind (tool_md5 E (models ! ws_id ws) (ws_section ws) (to_s32 (int (fs_size (ws_section ws))))) (compare_weights E models rest))"

definition weight_compare_size :: "weight_section_t list \<Rightarrow> int list" where
  "weight_compare_size ws = (let sizes = map (\<lambda>w. to_s32 (int (fs_size (ws_section w)))) ws in take 1 sizes @ butlast sizes)"

text \<open>The copied sections with the running offset and the bytes.\<close>

record clone_state =
  cs_offset :: u32
  cs_section_vec :: "fb_section list"
  cs_sections_buf :: "byte list"

definition clone_section :: "tool_env \<Rightarrow> nat \<Rightarrow> nat \<Rightarrow> (string \<rightharpoonup> string) \<Rightarrow> model_tool \<Rightarrow> fb_section \<Rightarrow> clone_state \<Rightarrow> clone_state tool" where
  "clone_section E candidate_index i names m s st =
     tbind (tool_md5 E m s (to_s32 (int (fs_size s)))) (\<lambda>_.
     if fs_type s = SectionType_WEIGHT \<and> i \<noteq> candidate_index then Inr st
     else tbind (if is_buffer (fs_type s)
                 then (case names (fs_name s) of
                         None \<Rightarrow> Inl (Fault AssertFailed)
                       | Some n \<Rightarrow> if n = [] then Inl (Fault AssertFailed) else Inr n)
                 else Inr (fs_name s)) (\<lambda>section_name.
          tbind (tres (section_read (mt_file m) (fs_offset s) (fs_size s))) (\<lambda>buf.
          Inr \<lparr>cs_offset = add32 (cs_offset st) (fs_size s),
               cs_section_vec = cs_section_vec st @ [s\<lparr>fs_name := section_name, fs_offset := cs_offset st\<rparr>],
               cs_sections_buf = cs_sections_buf st @ buf\<rparr>)))"

definition clone_all :: "tool_env \<Rightarrow> nat \<Rightarrow> model_tool list \<Rightarrow> (string \<rightharpoonup> string) list \<Rightarrow> clone_state tool" where
  "clone_all E candidate_index models routine_name_maps =
     tfold (\<lambda>(i, m). tfold (clone_section E candidate_index i (routine_name_maps ! i) m) (tf_sections (mt_fb m)))
       (enumerate 0 models) \<lparr>cs_offset = 0, cs_section_vec = [], cs_sections_buf = []\<rparr>"

definition cloneSections :: "tool_env \<Rightarrow> model_tool list \<Rightarrow> (string \<rightharpoonup> string) list \<Rightarrow> (fb_section list \<times> byte list) tool" where
  "cloneSections E models routine_name_maps =
    (if length models \<noteq> length routine_name_maps then Inl (Fault AssertFailed)
     else case scan_sections models of (found, cmd, dma) \<Rightarrow>
       if cmd \<and> dma then Inl (Exit 1)
       else let weight_sections = te_sort E found in
         if weight_sections = [] then Inl (Fault OutOfRange)
         else let candidate_index = ws_id (last weight_sections) in
           tbind (compare_weights E models (zip weight_sections (weight_compare_size weight_sections)) []) (\<lambda>_.
           tbind (clone_all E candidate_index models routine_name_maps) (\<lambda>st.
           Inr (cs_section_vec st, cs_sections_buf st))))"

text \<open>The header that is written; its digest is left as the stack has it.\<close>

definition written_header :: "tool_env \<Rightarrow> model_tool \<Rightarrow> nat \<Rightarrow> byte list" where
  "written_header E self body_size =
     map (\<lambda>c. of_nat (of_char c)) ''CviModel'' @ u32_bytes body_size @
     [of_nat (fst (te_version E)), of_nat (fst (snd (te_version E)))] @ te_header_md5 E @
     take 16 (drop 30 (mt_header self)) @ map (\<lambda>c. of_nat (of_char c)) ''AA''"

definition new_fb :: "tool_env \<Rightarrow> model_tool \<Rightarrow> tool_weight list \<Rightarrow> tool_program list \<Rightarrow> fb_section list \<Rightarrow> tool_fb" where
  "new_fb E self weights programs sections = \<lparr>tf_version = te_version E, tf_name = tf_name (mt_fb self), tf_build_time = te_now E,
     tf_weight_map = Some weights, tf_programs = programs, tf_sections = sections, tf_target = tf_target (mt_fb self),
     tf_mlir_version = (case tf_mlir_version (mt_fb self) of None \<Rightarrow> Some ''unknown'' | Some v \<Rightarrow> Some v)\<rparr>"

definition written_file :: "tool_env \<Rightarrow> model_tool \<Rightarrow> tool_fb \<Rightarrow> byte list \<Rightarrow> byte list" where
  "written_file E self fb bin = written_header E self (length (te_Finish E fb)) @ te_Finish E fb @ bin"

definition merge :: "tool_env \<Rightarrow> model_tool \<Rightarrow> model_tool list \<Rightarrow> byte list tool" where
  "merge E self models = tbind (cloneWeightMap models) (\<lambda>modelWeight.
     tbind (clonePrograms models) (\<lambda>(modelPrograms, routine_name_maps).
     tbind (cloneSections E models routine_name_maps) (\<lambda>(modelSections, sections_buf).
     Inr (written_file E self (new_fb E self modelWeight modelPrograms modelSections) sections_buf))))"

section \<open>Compressing\<close>

text \<open>What is written to the file, and the size of the section.\<close>

definition compressSectionToFile :: "tool_env \<Rightarrow> model_tool \<Rightarrow> fb_section \<Rightarrow> (byte list \<times> u64) tool" where
  "compressSectionToFile E m s = tbind (tres (section_read (mt_file m) (fs_offset s) (fs_size s))) (\<lambda>in_buf.
     if fs_compress s then Inl (Exit 1)
     else case te_lz4_compress E in_buf of
       None \<Rightarrow> Inl (Exit 1)
     | Some out_buf \<Rightarrow>
         if length out_buf < 1 then Inl (Exit 1)
         else if int (length out_buf) > to_s32 (int (fs_size s)) then Inl (Exit 1)
         else Inr (out_buf, fs_size s))"

definition section_file :: "string \<Rightarrow> string \<Rightarrow> string" where
  "section_file model_name name = ''.tmp_dir/'' @ model_name @ ''_'' @ name @ ''.bin''"

text \<open>The name of the command buffer of a routine for the TPU.\<close>

fun routine_buffer :: "tool_routine \<Rightarrow> string tool" where
  "routine_buffer (ToolTpu ins outs (Some c) dmabuf) = Inr c"
| "routine_buffer (ToolTpu ins outs None (Some d)) = Inr d"
| "routine_buffer (ToolTpu ins outs None None) = Inl (Fault AssertFailed)"
| "routine_buffer (ToolCpu ins outs function args) = Inl (Fault NullDeref)"

fun is_tpu :: "tool_routine \<Rightarrow> bool" where
  "is_tpu (ToolTpu ins outs cmdbuf dmabuf) = True"
| "is_tpu (ToolCpu ins outs function args) = False"

definition find_section :: "model_tool \<Rightarrow> string \<Rightarrow> fb_section option" where
  "find_section m name = List.find (\<lambda>s. fs_name s = name) (tf_sections (mt_fb m))"

definition all_routines :: "model_tool \<Rightarrow> tool_routine list" where
  "all_routines m = concat (map tp_routines (tf_programs (mt_fb m)))"

text \<open>One routine of the loop over all programs: its section goes to a file, its size to the map.\<close>

definition compress_routine :: "tool_env \<Rightarrow> model_tool \<Rightarrow> tool_routine \<Rightarrow> (string \<rightharpoonup> byte list) \<times> (string \<rightharpoonup> u64) \<Rightarrow>
    ((string \<rightharpoonup> byte list) \<times> (string \<rightharpoonup> u64)) tool" where
  "compress_routine E m r = (\<lambda>(files, info).
     if \<not> is_tpu r then Inr (files, info)
     else tbind (routine_buffer r) (\<lambda>name. case find_section m name of
       None \<Rightarrow> Inr (files, info)
     | Some s \<Rightarrow> tbind (compressSectionToFile E m s) (\<lambda>(out, sz).
         Inr (files(section_file (tf_name (mt_fb m)) (fs_name s) \<mapsto> out), info(fs_name s \<mapsto> sz)))))"

record rebuild_state =
  rs_offset :: u32
  rs_out_offset :: u32
  rs_files :: "string \<rightharpoonup> byte list"
  rs_section_vec :: "fb_section list"
  rs_out_buf :: "byte list"

text \<open>
  The next section of the new file: its place is the running offset; the running offset of the old file moves by
  the size of the old section.  The size of a file that cannot be opened is \<^verbatim>\<open>-1\<close>, more than can be allocated.
\<close>

definition push_section :: "fb_section \<Rightarrow> fb_section \<Rightarrow> byte list \<Rightarrow> (string \<rightharpoonup> byte list) \<Rightarrow> rebuild_state \<Rightarrow> rebuild_state" where
  "push_section s new bytes files st = \<lparr>rs_offset = add32 (rs_offset st) (fs_size s), rs_out_offset = add32 (rs_out_offset st) (length bytes mod M32),
     rs_files = files, rs_section_vec = rs_section_vec st @ [new], rs_out_buf = rs_out_buf st @ bytes\<rparr>"

definition rebuild_compressed :: "model_tool \<Rightarrow> (string \<rightharpoonup> u64) \<Rightarrow> fb_section \<Rightarrow> rebuild_state \<Rightarrow> rebuild_state tool" where
  "rebuild_compressed m cmpr_info s st =
    (if is_buffer (fs_type s) then
       (let filename = section_file (tf_name (mt_fb m)) (fs_name s) in
        case rs_files st filename of
          None \<Rightarrow> Inl BadAlloc
        | Some bytes \<Rightarrow> Inr (push_section s \<lparr>fs_type = fs_type s, fs_name = fs_name s, fs_size = length bytes mod M32, fs_offset = rs_out_offset st,
              fs_encrypt = False, fs_compress = True,
              fs_decompressed_size = (case cmpr_info (fs_name s) of None \<Rightarrow> 0 | Some n \<Rightarrow> n mod M32)\<rparr> bytes ((rs_files st)(filename := None)) st))
     else tbind (tres (section_read (mt_file m) (rs_offset st) (fs_size s))) (\<lambda>bytes.
        Inr (push_section s \<lparr>fs_type = fs_type s, fs_name = fs_name s, fs_size = fs_size s, fs_offset = rs_out_offset st,
              fs_encrypt = False, fs_compress = False, fs_decompressed_size = 0\<rparr> bytes (rs_files st) st)))"

definition rebuildSections :: "model_tool \<Rightarrow> (string \<rightharpoonup> byte list) \<Rightarrow> (string \<rightharpoonup> u64) \<Rightarrow> (fb_section list \<times> byte list) tool" where
  "rebuildSections m files cmpr_info = tbind
     (tfold (rebuild_compressed m cmpr_info) (tf_sections (mt_fb m))
        \<lparr>rs_offset = 0, rs_out_offset = 0, rs_files = files, rs_section_vec = [], rs_out_buf = []\<rparr>)
     (\<lambda>st. Inr (rs_section_vec st, rs_out_buf st))"

text \<open>The written file; nothing is written when the temporary directory exists.\<close>

definition compress_inst :: "tool_env \<Rightarrow> model_tool \<Rightarrow> bool \<Rightarrow> byte list option tool" where
  "compress_inst E m tmp_exists = (if tmp_exists then Inr None else
     tbind (tfold (compress_routine E m) (all_routines m) (Map.empty, Map.empty)) (\<lambda>(files, info).
     tbind (rebuildWeightMap m) (\<lambda>weights.
     tbind (rebuildSections m files info) (\<lambda>(sections, bin).
     tbind (rebuildPrograms m) (\<lambda>programs.
     Inr (Some (written_file E m (new_fb E m weights programs sections) bin)))))))"

section \<open>Encrypting\<close>

text \<open>One routine: its section is stored to a file, to be encrypted together with the weights.\<close>

definition encrypt_routine :: "tool_env \<Rightarrow> model_tool \<Rightarrow> tool_routine \<Rightarrow> string list \<times> (string \<rightharpoonup> byte list) \<Rightarrow> (string list \<times> (string \<rightharpoonup> byte list)) tool" where
  "encrypt_routine E m r = (\<lambda>(cmdbuf_names, files). case r of
     ToolCpu ins outs function args \<Rightarrow> Inr (cmdbuf_names, files)
   | ToolTpu ins outs None _ \<Rightarrow> Inl (Fault AssertFailed)
   | ToolTpu ins outs (Some name) _ \<Rightarrow> (case find_section m name of
       None \<Rightarrow> Inr (cmdbuf_names, files)
     | Some s \<Rightarrow> let dst = section_file (tf_name (mt_fb m)) (fs_name s) in
         tbind (tool_store E m s) (\<lambda>bytes. Inr (cmdbuf_names @ [dst], files(dst \<mapsto> bytes)))))"

definition store_weight :: "tool_env \<Rightarrow> model_tool \<Rightarrow> fb_section \<Rightarrow> string \<times> (string \<rightharpoonup> byte list) \<Rightarrow> (string \<times> (string \<rightharpoonup> byte list)) tool" where
  "store_weight E m s = (\<lambda>(weight_name, files).
     if fs_type s \<noteq> SectionType_WEIGHT then Inr (weight_name, files)
     else let dst = section_file (tf_name (mt_fb m)) (fs_name s) in
       tbind (tool_store E m s) (\<lambda>bytes. Inr (dst, files(dst \<mapsto> bytes))))"

definition rebuild_encrypted :: "model_tool \<Rightarrow> fb_section \<Rightarrow> rebuild_state \<Rightarrow> rebuild_state tool" where
  "rebuild_encrypted m s st =
    (if fs_type s = SectionType_WEIGHT \<or> is_buffer (fs_type s) then
       (case rs_files st (section_file (tf_name (mt_fb m)) (fs_name s) @ ''.enc'') of
          None \<Rightarrow> Inl BadAlloc
        | Some bytes \<Rightarrow> Inr (push_section s \<lparr>fs_type = fs_type s, fs_name = fs_name s, fs_size = length bytes mod M32, fs_offset = rs_out_offset st,
              fs_encrypt = True, fs_compress = False, fs_decompressed_size = 0\<rparr> bytes (rs_files st) st))
     else tbind (tres (section_read (mt_file m) (rs_offset st) (fs_size s))) (\<lambda>bytes.
        Inr (push_section s \<lparr>fs_type = fs_type s, fs_name = fs_name s, fs_size = fs_size s, fs_offset = rs_out_offset st,
              fs_encrypt = False, fs_compress = False, fs_decompressed_size = 0\<rparr> bytes (rs_files st) st)))"

definition rebuildSections_encrypted :: "model_tool \<Rightarrow> (string \<rightharpoonup> byte list) \<Rightarrow> (fb_section list \<times> byte list) tool" where
  "rebuildSections_encrypted m files = tbind
     (tfold (rebuild_encrypted m) (tf_sections (mt_fb m))
        \<lparr>rs_offset = 0, rs_out_offset = 0, rs_files = files, rs_section_vec = [], rs_out_buf = []\<rparr>)
     (\<lambda>st. Inr (rs_section_vec st, rs_out_buf st))"

text \<open>The encrypter is run once for each command buffer, with the weights as its second argument.\<close>

definition encrypt :: "tool_env \<Rightarrow> model_tool \<Rightarrow> bool \<Rightarrow> byte list option tool" where
  "encrypt E m tmp_exists = (if tmp_exists then Inr None else
     tbind (tfold (encrypt_routine E m) (all_routines m) ([], Map.empty)) (\<lambda>(cmdbuf_names, files1).
     tbind (tfold (store_weight E m) (tf_sections (mt_fb m)) ([], files1)) (\<lambda>(weight_name, files2).
     let files3 = te_encrypter E (map (\<lambda>cmdbuf. (cmdbuf, if weight_name = [] then ''.tmp_dir/'' else weight_name)) cmdbuf_names) files2 in
     tbind (rebuildWeightMap m) (\<lambda>weights.
     tbind (rebuildSections_encrypted m files3) (\<lambda>(sections, bin).
     tbind (rebuildPrograms m) (\<lambda>programs.
     Inr (Some (written_file E m (new_fb E m weights programs sections) bin))))))))"

section \<open>Extracting\<close>

text \<open>The tensors of a routine are looked up to be shown; each must be there, with four dimensions.\<close>

definition show_tensor :: "tool_program \<Rightarrow> string \<Rightarrow> unit tool" where
  "show_tensor p name = (case List.find (\<lambda>t. ft_name t = name) (tp_tensor_map p) of
     None \<Rightarrow> Inl (Fault AssertFailed)
   | Some t \<Rightarrow> if length (ft_shape t) < 4 then Inl (Fault AssertFailed) else Inr ())"

definition extract_routine :: "tool_env \<Rightarrow> model_tool \<Rightarrow> tool_program \<Rightarrow> tool_routine \<Rightarrow> (string \<rightharpoonup> byte list) \<Rightarrow> (string \<rightharpoonup> byte list) tool" where
  "extract_routine E m p r files = (if \<not> is_tpu r then Inr files
     else tbind (routine_buffer r) (\<lambda>buf_name.
       tbind (tmap (show_tensor p) (tr_in_tensors r)) (\<lambda>_.
       tbind (tmap (show_tensor p) (tr_out_tensors r)) (\<lambda>_.
       case find_section m buf_name of
         None \<Rightarrow> Inr files
       | Some s \<Rightarrow> tbind (tool_store E m s) (\<lambda>bytes. Inr (files(
           tf_name (mt_fb m) @ ''_program_'' @ digits (tp_batch_num p) @ ''_'' @
           (if tr_cmdbuf_section r \<noteq> None then ''cmdbuf'' else ''dmabuf'') @ ''_'' @ fs_name s @ ''.bin'' \<mapsto> bytes)))))))"

definition Model_extract :: "tool_env \<Rightarrow> model_tool \<Rightarrow> (string \<rightharpoonup> byte list) \<Rightarrow> (string \<rightharpoonup> byte list) tool" where
  "Model_extract E m files = tbind (tfold (\<lambda>p. tfold (extract_routine E m p) (tp_routines p)) (tf_programs (mt_fb m)) files)
     (tfold (\<lambda>s files. if fs_type s \<noteq> SectionType_WEIGHT then Inr files
        else tbind (tool_store E m s) (\<lambda>bytes. Inr (files(tf_name (mt_fb m) @ ''_weight.bin'' \<mapsto> bytes)))) (tf_sections (mt_fb m)))"

end
