(* ===== verification/ModelMerge.thy ===== *)
theory ModelMerge
  imports ModelTool ModelLoad
begin

text \<open>
  Properties of merging models with the model tool: what the written file holds when it is opened again, that the
  check of the weights lets a model use the weights of another only where they agree, and that the names given
  to command buffers are different for different models.
\<close>

section \<open>Sequencing\<close>

lemma tbind_simps [simp]:
  "tbind (Inr a) k = k a" "tbind (Inl e) k = Inl e" "tres (Inr a) = Inr a" "tres (Inl f) = Inl (Fault f)"
  by (simp_all add: tbind_def tres_def)

lemma tbind_Inr: "tbind r k = Inr b \<longleftrightarrow> (\<exists>a. r = Inr a \<and> k a = Inr b)"
  by (cases r) simp_all

lemma tfold_append: "tfold f (xs @ ys) s = tbind (tfold f xs s) (tfold f ys)"
proof (induction xs arbitrary: s)
  case (Cons x xs)
  then show ?case by (cases "f x s") simp_all
qed simp

text \<open>A fold that keeps an invariant, which may speak of the elements that are done, succeeds.\<close>

lemma tfold_inv:
  assumes "P [] s" "\<And>pre x rest t. xs = pre @ x # rest \<Longrightarrow> P pre t \<Longrightarrow> \<exists>t'. f x t = Inr t' \<and> P (pre @ [x]) t'"
  shows "\<exists>t. tfold f xs s = Inr t \<and> P xs t"
  using assms
proof (induction xs rule: rev_induct)
  case (snoc x xs)
  have "\<exists>t. tfold f xs s = Inr t \<and> P xs t" using snoc.prems by (intro snoc.IH) auto
  then obtain t where "tfold f xs s = Inr t" "P xs t" by blast
  with snoc.prems(2)[of xs x "[]" t] show ?case by (auto simp: tfold_append)
qed simp

lemma tmap_ok: "(\<And>x. x \<in> set xs \<Longrightarrow> f x = Inr (g x)) \<Longrightarrow> tmap f xs = Inr (map g xs)"
  by (induction xs) simp_all

section \<open>Names\<close>

declare digits.simps [simp del]

definition digits_value :: "string \<Rightarrow> nat" where
  "digits_value s = foldl (\<lambda>a c. 10 * a + (of_char c - 48)) 0 s"

lemma digits_value_digits [simp]: "digits_value (digits n) = n"
proof (induction n rule: digits.induct)
  case (1 n)
  show ?case
  proof (cases "n < 10")
    case True
    then show ?thesis by (simp add: digits.simps[of n] digits_value_def)
  next
    case False
    have "(48 + n mod 10) mod 256 = 48 + n mod 10" by (rule mod_less) linarith
    then show ?thesis using 1 False by (subst digits.simps) (simp add: digits_value_def)
  qed
qed

lemma digits_no_underscore: "CHR ''_'' \<notin> set (digits n)"
proof (induction n rule: digits.induct)
  case (1 n)
  have "char_of (48 + k :: nat) \<noteq> CHR ''_''" if "k < 10" for k
  proof
    assume "char_of (48 + k) = CHR ''_''"
    then have "of_char (char_of (48 + k :: nat)) = (of_char (CHR ''_'') :: nat)" by (rule arg_cong)
    moreover have "(48 + k) mod 256 = 48 + k" using that by (intro mod_less) linarith
    ultimately show False using that by simp
  qed
  note d = this
  have "n mod 10 < 10" by simp
  then show ?case using 1 d[of n] d[of "n mod 10"] by (subst digits.simps) (cases "n < 10"; simp)
qed

lemma indexed_name_inj: "indexed_name a i = indexed_name b j \<longleftrightarrow> a = b \<and> i = j"
proof
  assume eq: "indexed_name a i = indexed_name b j"
  have tail: "takeWhile (\<lambda>c. c \<noteq> CHR ''_'') (rev (indexed_name a i)) = rev (digits i)" for a i
    using digits_no_underscore[of i] by (simp add: indexed_name_def takeWhile_append)
  from arg_cong[OF eq, of "\<lambda>s. takeWhile (\<lambda>c. c \<noteq> CHR ''_'') (rev s)"] have d: "digits i = digits j" by (simp add: tail)
  then have "i = j" using digits_value_digits by metis
  with eq show "a = b \<and> i = j" by (simp add: indexed_name_def)
qed simp

section \<open>Digests of sections\<close>

lemma feed_pieces:
  assumes "length junk = 64" "\<forall>c\<in>set cs. length c + 64 < M32"
  shows "bind_res (feed cs (MD5 junk junk')) (\<lambda>m. bind_res (finalize m) (\<lambda>m'. Inr (hexdigest m'))) = Inr (hex_string (rfc_md5 (concat cs)))"
proof -
  from feed_finalize[OF assms, of junk'] obtain m where
    "bind_res (feed cs (MD5 junk junk')) finalize = Inr m" "m_finalized m" "m_digest m = rfc_md5 (concat cs)" by auto
  then show ?thesis by (auto simp: bind_res_def hexdigest_eq hex_string_def split: sum.splits)
qed

lemma calcSectionMD5_plain:
  assumes "in_file T (fs_offset sec) n" "length junk = 64" "\<not> fs_compress sec"
  shows "calcSectionMD5 lz4 junk junk' T sec (int n) = Inr (hex_string (rfc_md5 (section_bytes T (fs_offset sec) n)))"
proof -
  have "\<forall>c\<in>set (pieces (section_bytes T (fs_offset sec) n)). length c + 64 < M32" using pieces_short by (fastforce simp: M32_def)
  from feed_pieces[OF assms(2) this, of junk'] show ?thesis
    using assms(3) by (simp add: calcSectionMD5_def piece_loop_pieces[OF assms(1) lessI] each_piece_feed del: piece_loop.simps)
qed

lemma calcSectionMD5_returns:
  assumes "in_file T (fs_offset sec) (fs_size sec)" "length junk = 64" "fs_decompressed_size sec + 64 < M32"
  shows "\<exists>md5. calcSectionMD5 lz4 junk junk' T sec (int (fs_size sec)) = Inr md5"
proof (cases "fs_compress sec")
  case True
  have "section_read T (fs_offset sec) (fs_size sec) = Inr (section_bytes T (fs_offset sec) (fs_size sec))" by (rule section_read_ok[OF assms(1)]) simp
  then have "\<exists>rc out. decompress_section lz4 T sec = Inr (rc, out) \<and> (rc = 0 \<longrightarrow> length out = fs_decompressed_size sec)"
    using True by (auto simp: decompress_section_def bind_res_def split: option.split)
  then obtain rc out where d: "decompress_section lz4 T sec = Inr (rc, out)" "rc = 0 \<longrightarrow> length out = fs_decompressed_size sec" by blast
  show ?thesis
  proof (cases "rc = 0")
    case True
    then have "\<forall>c\<in>set [out]. length c + 64 < M32" using d(2) assms(3) by simp
    from feed_pieces[OF assms(2) this, of junk'] show ?thesis using True \<open>fs_compress sec\<close> d assms(3)
      by (auto simp: calcSectionMD5_def bind_res_def split: sum.splits)
  qed (use True d in \<open>simp add: calcSectionMD5_def bind_res_def\<close>)
qed (use calcSectionMD5_plain assms in blast)

lemma hex_string_nonempty: "hex_string (rfc_md5 bs) \<noteq> []"
  by (cases "rfc_blocks (rfc_pad bs) md5_init") (simp add: hex_string_def rfc_md5_def)

lemma hex_digit_inj: "a < 16 \<Longrightarrow> b < 16 \<Longrightarrow> hex_digit a = hex_digit b \<longleftrightarrow> a = b"
proof -
  assume "a < 16" "b < 16"
  then have "a \<in> set [0..<16]" "b \<in> set [0..<16]" by simp_all
  moreover have "\<forall>a\<in>set [0..<16]. \<forall>b\<in>set [0..<16]. hex_digit a = hex_digit b \<longrightarrow> a = b" by code_simp
  ultimately show ?thesis by blast
qed

lemma hex_string_inj: "hex_string a = hex_string b \<Longrightarrow> a = b"
proof (induction a arbitrary: b)
  case Nil
  then show ?case by (cases b) (simp_all add: hex_string_def)
next
  case (Cons x a)
  obtain y b' where b: "b = y # b'" using Cons.prems by (cases b) (simp_all add: hex_string_def)
  have lt: "unat z div 16 < 16" for z :: byte using unsigned_less[of z, where 'a = nat] by (simp add: less_mult_imp_div_less)
  from Cons.prems have "hex_digit (unat x div 16) = hex_digit (unat y div 16)" "hex_digit (unat x mod 16) = hex_digit (unat y mod 16)"
    "hex_string a = hex_string b'" by (simp_all add: b hex_string_def)
  then have "unat x div 16 = unat y div 16" "unat x mod 16 = unat y mod 16" "a = b'"
    using Cons.IH lt by (simp_all add: hex_digit_inj)
  then have "unat x = unat y" by (metis div_mult_mod_eq)
  then have "x = y" by (rule unsigned_word_eqI)
  then show ?case using \<open>a = b'\<close> by (simp add: b)
qed

lemma hex_string_eq: "hex_string a = hex_string b \<longleftrightarrow> a = b"
  by (rule iffI) (erule hex_string_inj, simp)

section \<open>Copied programs\<close>

text \<open>A routine that can be copied, and its copy with the name of the command buffer made unique.\<close>

fun routine_ok :: "tool_routine \<Rightarrow> bool" where
  "routine_ok (ToolTpu ins outs cmdbuf dmabuf) \<longleftrightarrow> cmdbuf \<noteq> None \<or> dmabuf \<noteq> None"
| "routine_ok (ToolCpu ins outs function args) \<longleftrightarrow> args \<noteq> None"

fun renamed :: "nat \<Rightarrow> tool_routine \<Rightarrow> tool_routine" where
  "renamed i (ToolTpu ins outs (Some c) dmabuf) = ToolTpu ins outs (Some (indexed_name c i)) None"
| "renamed i (ToolTpu ins outs None (Some d)) = ToolTpu ins outs None (Some (indexed_name d i))"
| "renamed i r = r"

definition buffer_names :: "tool_routine list \<Rightarrow> string set" where
  "buffer_names rs = {n. \<exists>r\<in>set rs. routine_buffer r = Inr n}"

lemma buffer_names_simps [simp]:
  "buffer_names [] = {}"
  "buffer_names (rs @ [r]) = buffer_names rs \<union> {n. routine_buffer r = Inr n}"
  by (auto simp: buffer_names_def)

lemma clone_routine_renames:
  "routine_ok r \<Longrightarrow> clone_routine True i r names =
     Inr (renamed i r, case routine_buffer r of Inl _ \<Rightarrow> names | Inr n \<Rightarrow> emplace n (indexed_name n i) names)"
  by (cases "(i, r)" rule: renamed.cases) auto

lemma cloneRoutines_renames:
  assumes "\<forall>r\<in>set (tp_routines p). routine_ok r"
  shows "cloneRoutines p True i Map.empty =
    Inr (map (renamed i) (tp_routines p), \<lambda>n. if n \<in> buffer_names (tp_routines p) then Some (indexed_name n i) else None)"
proof -
  let ?f = "\<lambda>r (routines, names). tbind (clone_routine True i r names) (\<lambda>(r', names'). Inr (routines @ [r'], names'))"
  let ?names = "\<lambda>rs n. if n \<in> buffer_names rs then Some (indexed_name n i) else None"
  have "\<exists>t. tfold ?f (tp_routines p) ([], Map.empty) = Inr t \<and> t = (map (renamed i) (tp_routines p), ?names (tp_routines p))"
  proof (rule tfold_inv[where P = "\<lambda>rs t. t = (map (renamed i) rs, ?names rs)"])
    fix pre r rest t
    assume "tp_routines p = pre @ r # rest" and t: "t = (map (renamed i) pre, ?names pre)"
    then have "routine_ok r" using assms by simp
    from clone_routine_renames[OF this] show "\<exists>t'. ?f r t = Inr t' \<and> t' = (map (renamed i) (pre @ [r]), ?names (pre @ [r]))"
      unfolding t by (cases "routine_buffer r") (auto simp: emplace_def fun_eq_iff split: option.splits)
  qed auto
  then show ?thesis by (simp add: cloneRoutines_def)
qed

lemma cloneRoutines_plain:
  assumes "\<forall>r\<in>set (tp_routines p). routine_ok r"
  shows "cloneRoutines p False i names = Inr (tp_routines p, names)"
proof -
  let ?f = "\<lambda>r (routines, names). tbind (clone_routine False i r names) (\<lambda>(r', names'). Inr (routines @ [r'], names'))"
  have "\<exists>t. tfold ?f (tp_routines p) ([], names) = Inr t \<and> t = (tp_routines p, names)"
  proof (rule tfold_inv[where P = "\<lambda>rs t. t = (rs, names)"])
    fix pre r rest t
    assume "tp_routines p = pre @ r # rest" and t: "t = (pre, names)"
    then have "routine_ok r" using assms by simp
    then show "\<exists>t'. ?f r t = Inr t' \<and> t' = (pre @ [r], names)" unfolding t by (cases r) auto
  qed auto
  then show ?thesis by (simp add: cloneRoutines_def)
qed

text \<open>Models of one program each: the program of the i-th and the map of its names.\<close>

definition the_program :: "model_tool \<Rightarrow> tool_program" where
  "the_program m = hd (tf_programs (mt_fb m))"

definition merged_program :: "nat \<Rightarrow> model_tool \<Rightarrow> tool_program" where
  "merged_program i m = clone_program (the_program m) (map (renamed i) (tp_routines (the_program m)))"

definition merged_names :: "nat \<Rightarrow> model_tool \<Rightarrow> string \<rightharpoonup> string" where
  "merged_names i m = (\<lambda>n. if n \<in> buffer_names (tp_routines (the_program m)) then Some (indexed_name n i) else None)"

definition program_ready :: "model_tool \<Rightarrow> bool" where
  "program_ready m \<longleftrightarrow> (\<exists>p. tf_programs (mt_fb m) = [p]) \<and> (\<forall>r\<in>set (tp_routines (the_program m)). routine_ok r)"

lemma clonePrograms_one:
  assumes "\<forall>m\<in>set models. program_ready m"
  shows "clonePrograms models = Inr (map (\<lambda>(i, m). merged_program i m) (enumerate 0 models), map (\<lambda>(i, m). merged_names i m) (enumerate 0 models))"
proof -
  let ?f = "\<lambda>(i, m). tfold (\<lambda>p (programs, routine_name_maps).
       tbind (cloneRoutines p True i Map.empty) (\<lambda>(routines, names). Inr (programs @ [clone_program p routines], routine_name_maps @ [names])))
     (tf_programs (mt_fb m))"
  let ?P = "\<lambda>ims t. t = (map (\<lambda>(i, m). merged_program i m) ims, map (\<lambda>(i, m). merged_names i m) ims)"
  have "\<exists>t. tfold ?f (enumerate 0 models) ([], []) = Inr t \<and> ?P (enumerate 0 models) t"
  proof (rule tfold_inv[where P = ?P])
    fix pre im rest t
    assume e: "enumerate 0 models = pre @ im # rest" and t: "?P pre t"
    obtain i m where im: "im = (i, m)" by (cases im)
    have "(i, m) \<in> set (enumerate 0 models)" unfolding e im by simp
    then have "m \<in> set models" by (auto simp: in_set_enumerate_eq)
    then obtain p where p: "tf_programs (mt_fb m) = [p]" "\<forall>r\<in>set (tp_routines p). routine_ok r"
      using assms by (auto simp: program_ready_def the_program_def)
    then show "\<exists>t'. ?f im t = Inr t' \<and> ?P (pre @ [im]) t'"
      unfolding t by (simp add: im cloneRoutines_renames merged_program_def[of i m] merged_names_def[of i m] the_program_def)
  qed simp
  then show ?thesis by (auto simp: clonePrograms_def)
qed

section \<open>The weights\<close>

definition sec_bytes :: "model_tool \<Rightarrow> fb_section \<Rightarrow> byte list" where
  "sec_bytes m s = section_bytes (mt_file m) (fs_offset s) (fs_size s)"

text \<open>
  A section the tool can handle: inside the file, smaller than an \<^verbatim>\<open>int\<close> can count; a command buffer is named by a routine,
  weights are not compressed.
\<close>

definition section_ready :: "model_tool \<Rightarrow> fb_section \<Rightarrow> bool" where
  "section_ready m s \<longleftrightarrow> in_file (mt_file m) (fs_offset s) (fs_size s) \<and> fs_size s < 2 ^ 31 \<and> fs_decompressed_size s + 64 < M32 \<and>
     (is_buffer (fs_type s) \<longrightarrow> fs_name s \<in> buffer_names (tp_routines (the_program m))) \<and>
     (fs_type s = SectionType_WEIGHT \<longrightarrow> \<not> fs_compress s)"

lemma to_s32_small: "n < 2 ^ 31 \<Longrightarrow> to_s32 (int n) = int n"
  by (simp add: to_s32_def)

lemma length_sec_bytes: "section_ready m s \<Longrightarrow> length (sec_bytes m s) = fs_size s"
  by (auto simp: section_ready_def sec_bytes_def section_bytes_def in_file_def)

lemma tool_md5_returns:
  "section_ready m s \<Longrightarrow> length (te_md5_buffer E) = 64 \<Longrightarrow> \<exists>md5. tool_md5 E m s (to_s32 (int (fs_size s))) = Inr md5"
  using calcSectionMD5_returns[of "mt_file m" s "te_md5_buffer E" "te_lz4_decompress E" "te_md5_digest E"]
  by (auto simp: section_ready_def tool_md5_def to_s32_small)

lemma tool_md5_plain:
  assumes "section_ready m s" "fs_type s = SectionType_WEIGHT" "length (te_md5_buffer E) = 64" "n \<le> fs_size s"
  shows "tool_md5 E m s (int n) = Inr (hex_string (rfc_md5 (take n (sec_bytes m s))))"
proof -
  have "in_file (mt_file m) (fs_offset s) n" using assms(1,4) by (auto simp: section_ready_def in_file_def)
  moreover have "take n (sec_bytes m s) = section_bytes (mt_file m) (fs_offset s) n" using assms(4) by (simp add: sec_bytes_def section_bytes_def min_def)
  ultimately show ?thesis using assms(1-3) by (simp add: tool_md5_def calcSectionMD5_plain section_ready_def)
qed

text \<open>The weight sections of the models in their order.\<close>

definition weights_of :: "(nat \<times> model_tool) list \<Rightarrow> weight_section_t list" where
  "weights_of ims = concat (map (\<lambda>(i, m). map (\<lambda>s. \<lparr>ws_id = i, ws_section = s, ws_size = fs_size s\<rparr>)
     (filter (\<lambda>s. fs_type s = SectionType_WEIGHT) (tf_sections (mt_fb m)))) ims)"

definition has_section :: "section_type \<Rightarrow> model_tool list \<Rightarrow> bool" where
  "has_section ty models \<longleftrightarrow> (\<exists>m\<in>set models. \<exists>s\<in>set (tf_sections (mt_fb m)). fs_type s = ty)"

lemma scan_section_fold:
  "fold (scan_section i) ss (ws, cmd, dma) =
    (ws @ map (\<lambda>s. \<lparr>ws_id = i, ws_section = s, ws_size = fs_size s\<rparr>) (filter (\<lambda>s. fs_type s = SectionType_WEIGHT) ss),
     cmd \<or> (\<exists>s\<in>set ss. fs_type s = SectionType_CMDBUF), dma \<or> (\<exists>s\<in>set ss. fs_type s = SectionType_DMABUF))"
  by (induction ss arbitrary: ws cmd dma) (auto simp: scan_section_def)

lemma scan_sections_eq:
  "scan_sections models = (weights_of (enumerate 0 models), has_section SectionType_CMDBUF models, has_section SectionType_DMABUF models)"
proof -
  have "fold (\<lambda>(i, m). fold (scan_section i) (tf_sections (mt_fb m))) ims (ws, cmd, dma) =
      (ws @ weights_of ims, cmd \<or> has_section SectionType_CMDBUF (map snd ims), dma \<or> has_section SectionType_DMABUF (map snd ims))" for ims ws cmd dma
    by (induction ims arbitrary: ws cmd dma) (auto simp: scan_section_fold weights_of_def has_section_def)
  from this[of "enumerate 0 models" "[]" False False] show ?thesis by (simp add: scan_sections_def)
qed

definition ws_bytes :: "model_tool list \<Rightarrow> weight_section_t \<Rightarrow> byte list" where
  "ws_bytes models w = sec_bytes (models ! ws_id w) (ws_section w)"

definition ws_ready :: "model_tool list \<Rightarrow> weight_section_t \<Rightarrow> bool" where
  "ws_ready models w \<longleftrightarrow> section_ready (models ! ws_id w) (ws_section w) \<and> fs_type (ws_section w) = SectionType_WEIGHT \<and> ws_size w = fs_size (ws_section w)"

lemma weights_of_ready:
  assumes "\<forall>m\<in>set models. \<forall>s\<in>set (tf_sections (mt_fb m)). section_ready m s" "w \<in> set (weights_of (enumerate 0 models))"
  shows "ws_ready models w" "ws_id w < length models" "ws_section w \<in> set (tf_sections (mt_fb (models ! ws_id w)))"
  using assms by (auto simp: weights_of_def ws_ready_def in_set_enumerate_eq)

text \<open>What the comparison decides: each section has, up to the size of the one before, the digest of the one before.\<close>

fun digests_agree :: "model_tool list \<Rightarrow> weight_section_t \<Rightarrow> weight_section_t list \<Rightarrow> bool" where
  "digests_agree models w0 [] \<longleftrightarrow> True"
| "digests_agree models w0 (w # ws) \<longleftrightarrow> rfc_md5 (ws_bytes models w0) = rfc_md5 (take (ws_size w0) (ws_bytes models w)) \<and> digests_agree models w ws"

lemma compare_weights_rest:
  assumes "\<forall>w\<in>set (w0 # ws). ws_ready models w" "sorted (map ws_size (w0 # ws))" "length (te_md5_buffer E) = 64"
  shows "compare_weights E models (zip ws (map (\<lambda>w. to_s32 (int (fs_size (ws_section w)))) (w0 # ws))) (hex_string (rfc_md5 (ws_bytes models w0))) =
    (if digests_agree models w0 ws then Inr () else Inl (Exit 1))"
  using assms
proof (induction ws arbitrary: w0)
  case (Cons w ws)
  have r: "ws_ready models w0" "ws_ready models w" using Cons.prems(1) by simp_all
  then have sz: "to_s32 (int (fs_size (ws_section w0))) = int (ws_size w0)" "to_s32 (int (fs_size (ws_section w))) = int (fs_size (ws_section w))"
    by (auto simp: ws_ready_def section_ready_def to_s32_small)
  have "ws_size w0 \<le> fs_size (ws_section w)" using Cons.prems(2) r by (simp add: ws_ready_def)
  moreover have w: "section_ready (models ! ws_id w) (ws_section w)" "fs_type (ws_section w) = SectionType_WEIGHT" using r(2) by (simp_all add: ws_ready_def)
  ultimately have md5: "tool_md5 E (models ! ws_id w) (ws_section w) (int (ws_size w0)) = Inr (hex_string (rfc_md5 (take (ws_size w0) (ws_bytes models w))))"
    "tool_md5 E (models ! ws_id w) (ws_section w) (int (fs_size (ws_section w))) = Inr (hex_string (rfc_md5 (ws_bytes models w)))"
    using tool_md5_plain[OF w Cons.prems(3)] length_sec_bytes[OF w(1)] by (simp_all add: ws_bytes_def)
  have "sorted (map ws_size (w # ws))" "\<forall>w\<in>set (w # ws). ws_ready models w" using Cons.prems(1,2) by simp_all
  from Cons.IH[OF this(2,1) Cons.prems(3)] show ?case using hex_string_nonempty[of "ws_bytes models w0"]
    by (simp only: list.map zip_Cons_Cons compare_weights.simps sz(1) md5(1) tbind_simps digests_agree.simps if_False hex_string_eq) (simp add: sz(2) md5(2))
qed simp

lemma compare_weights_decides:
  assumes "\<forall>w\<in>set (w0 # ws). ws_ready models w" "sorted (map ws_size (w0 # ws))" "length (te_md5_buffer E) = 64"
  shows "compare_weights E models (zip (w0 # ws) (weight_compare_size (w0 # ws))) [] = (if digests_agree models w0 ws then Inr () else Inl (Exit 1))"
proof -
  let ?size = "\<lambda>w. to_s32 (int (fs_size (ws_section w)))"
  have r: "ws_ready models w0" using assms(1) by simp
  then have "tool_md5 E (models ! ws_id w0) (ws_section w0) (?size w0) = Inr (hex_string (rfc_md5 (ws_bytes models w0)))"
    using tool_md5_plain[OF _ _ assms(3) order_refl, of "models ! ws_id w0" "ws_section w0"] length_sec_bytes[of "models ! ws_id w0" "ws_section w0"]
    by (simp add: ws_ready_def section_ready_def to_s32_small ws_bytes_def)
  moreover have "zip ws (butlast (map ?size (w0 # ws))) = zip ws (map ?size (w0 # ws))"
    by (rule nth_equalityI) (auto simp: nth_butlast nth_Cons split: nat.split)
  ultimately show ?thesis using compare_weights_rest[OF assms] hex_string_nonempty
    by (simp add: weight_compare_size_def Let_def del: butlast.simps list.map(2)) (simp add: Let_def)
qed

section \<open>Copied sections\<close>

text \<open>A copied section: its new name, the model it is of and the section there.\<close>

type_synonym entry = "string \<times> model_tool \<times> fb_section"

definition new_name :: "nat \<Rightarrow> fb_section \<Rightarrow> string" where
  "new_name i s = (if is_buffer (fs_type s) then indexed_name (fs_name s) i else fs_name s)"

definition keep_entry :: "nat \<Rightarrow> nat \<Rightarrow> model_tool \<Rightarrow> fb_section \<Rightarrow> entry list" where
  "keep_entry cand i m s = (if fs_type s = SectionType_WEIGHT \<and> i \<noteq> cand then [] else [(new_name i s, m, s)])"

definition kept :: "nat \<Rightarrow> (nat \<times> model_tool) list \<Rightarrow> entry list" where
  "kept cand ims = concat (map (\<lambda>(i, m). concat (map (keep_entry cand i m) (tf_sections (mt_fb m)))) ims)"

fun placed :: "nat \<Rightarrow> entry list \<Rightarrow> fb_section list" where
  "placed k [] = []"
| "placed k ((n, m, s) # es) = s\<lparr>fs_name := n, fs_offset := k\<rparr> # placed (k + fs_size s) es"

definition entry_size :: "entry list \<Rightarrow> nat" where
  "entry_size es = sum_list (map (\<lambda>(n, m, s). fs_size s) es)"

definition entry_bytes :: "entry list \<Rightarrow> byte list" where
  "entry_bytes es = concat (map (\<lambda>(n, m, s). sec_bytes m s) es)"

definition extend :: "clone_state \<Rightarrow> entry list \<Rightarrow> clone_state" where
  "extend st es = \<lparr>cs_offset = cs_offset st + entry_size es, cs_section_vec = cs_section_vec st @ placed (cs_offset st) es,
     cs_sections_buf = cs_sections_buf st @ entry_bytes es\<rparr>"

lemma entry_simps [simp]:
  "entry_size [] = 0" "entry_size (e # es) = fs_size (snd (snd e)) + entry_size es" "entry_size (es @ fs) = entry_size es + entry_size fs"
  "entry_bytes [] = []" "entry_bytes (e # es) = sec_bytes (fst (snd e)) (snd (snd e)) @ entry_bytes es" "entry_bytes (es @ fs) = entry_bytes es @ entry_bytes fs"
  by (simp_all add: entry_size_def entry_bytes_def split: prod.splits)

lemma placed_append: "placed k (es @ fs) = placed k es @ placed (k + entry_size es) fs"
  by (induction k es rule: placed.induct) (simp_all add: add.assoc)

lemma extend_simps [simp]: "extend st [] = st" "extend (extend st es) fs = extend st (es @ fs)" "cs_offset (extend st es) = cs_offset st + entry_size es"
  by (simp_all add: extend_def placed_append add.assoc)

lemma clone_section_extends:
  assumes "section_ready m s" "length (te_md5_buffer E) = 64" "cs_offset st + entry_size (keep_entry cand i m s) < M32"
  shows "clone_section E cand i (merged_names i m) m s st = Inr (extend st (keep_entry cand i m s))"
proof -
  obtain md5 where "tool_md5 E m s (to_s32 (int (fs_size s))) = Inr md5" using tool_md5_returns[OF assms(1,2)] by blast
  moreover have "section_read (mt_file m) (fs_offset s) (fs_size s) = Inr (sec_bytes m s)"
    using assms(1) section_read_ok[of "mt_file m" "fs_offset s" "fs_size s"] by (simp add: section_ready_def sec_bytes_def)
  moreover have "is_buffer (fs_type s) \<Longrightarrow> fs_name s \<in> buffer_names (tp_routines (the_program m))" using assms(1) by (simp add: section_ready_def)
  ultimately show ?thesis using assms(3)
    by (auto simp: clone_section_def keep_entry_def new_name_def merged_names_def indexed_name_def extend_def add32_def split: if_splits)
qed

lemma clone_sections_extend:
  assumes "\<forall>s\<in>set ss. section_ready m s" "length (te_md5_buffer E) = 64" "cs_offset st + entry_size (concat (map (keep_entry cand i m) ss)) < M32"
  shows "tfold (clone_section E cand i (merged_names i m) m) ss st = Inr (extend st (concat (map (keep_entry cand i m) ss)))"
  using assms by (induction ss arbitrary: st) (simp_all add: clone_section_extends)

lemma clone_all_extends:
  assumes "\<forall>m\<in>set models. \<forall>s\<in>set (tf_sections (mt_fb m)). section_ready m s" "length (te_md5_buffer E) = 64"
    and "entry_size (kept cand (enumerate 0 models)) < M32"
  shows "clone_all E cand models (map (\<lambda>(i, m). merged_names i m) (enumerate 0 models)) =
    Inr (extend \<lparr>cs_offset = 0, cs_section_vec = [], cs_sections_buf = []\<rparr> (kept cand (enumerate 0 models)))"
proof -
  let ?names = "map (\<lambda>(i, m). merged_names i m) (enumerate 0 models)"
  let ?f = "\<lambda>(i, m). tfold (clone_section E cand i (?names ! i) m) (tf_sections (mt_fb m))"
  let ?st = "\<lparr>cs_offset = 0, cs_section_vec = [], cs_sections_buf = []\<rparr>"
  have "\<exists>t. tfold ?f (enumerate 0 models) ?st = Inr t \<and> t = extend ?st (kept cand (enumerate 0 models))"
  proof (rule tfold_inv[where P = "\<lambda>ims t. t = extend ?st (kept cand ims)"])
    fix pre im rest t
    assume e: "enumerate 0 models = pre @ im # rest" and t: "t = extend ?st (kept cand pre)"
    obtain i m where im: "im = (i, m)" by (cases im)
    have "(i, m) \<in> set (enumerate 0 models)" unfolding e im by simp
    then have i: "i < length models" "m = models ! i" by (auto simp: in_set_enumerate_eq)
    have "?names ! i = merged_names i m" using i by (simp add: nth_enumerate_eq)
    moreover have "entry_size (kept cand (pre @ [im])) < M32" using assms(3) unfolding e by (simp add: kept_def)
    ultimately show "\<exists>t'. ?f im t = Inr t' \<and> t' = extend ?st (kept cand (pre @ [im]))"
      using assms(1,2) i unfolding t im by (simp add: clone_sections_extend kept_def)
  qed (simp add: kept_def)
  then show ?thesis by (simp add: clone_all_def)
qed

text \<open>Where the copies are: each at the sum of the sizes before it, and there are its bytes.\<close>

lemma length_placed [simp]: "length (placed k es) = length es"
  by (induction k es rule: placed.induct) simp_all

lemma placed_nth:
  "j < length es \<Longrightarrow> placed k es ! j = (snd (snd (es ! j)))\<lparr>fs_name := fst (es ! j), fs_offset := k + entry_size (take j es)\<rparr>"
  by (induction k es arbitrary: j rule: placed.induct) (auto simp: nth_Cons split: nat.split)

lemma entry_bytes_at:
  assumes "\<forall>e\<in>set es. length (sec_bytes (fst (snd e)) (snd (snd e))) = fs_size (snd (snd e))" "j < length es"
  shows "take (fs_size (snd (snd (es ! j)))) (drop (entry_size (take j es)) (entry_bytes es)) = sec_bytes (fst (snd (es ! j))) (snd (snd (es ! j)))"
  using assms
proof (induction es arbitrary: j)
  case (Cons e es)
  then show ?case by (cases j) simp_all
qed simp

lemma length_entry_bytes:
  "\<forall>e\<in>set es. length (sec_bytes (fst (snd e)) (snd (snd e))) = fs_size (snd (snd e)) \<Longrightarrow> length (entry_bytes es) = entry_size es"
  by (induction es) simp_all

section \<open>The written file\<close>

lemma length_written_header:
  "length (te_header_md5 E) = 16 \<Longrightarrow> length (mt_header self) = 48 \<Longrightarrow> length (written_header E self n) = 48"
  by (simp add: written_header_def u32_bytes_def)

lemma written_header_fields:
  "written_header E self n ! 12 = of_nat (fst (te_version E))" "written_header E self n ! 13 = of_nat (fst (snd (te_version E)))"
  "n < M32 \<Longrightarrow> header_body_size (written_header E self n) = n"
  using byte_sum[of n] by (simp_all add: written_header_def u32_bytes_def header_body_size_def nth_append byte_of_nat M32_def)

text \<open>A body the decoder reads back, in a file of the current layout.\<close>

definition body_ok :: "tool_env \<Rightarrow> model_tool \<Rightarrow> tool_fb \<Rightarrow> bool" where
  "body_ok E self fb \<longleftrightarrow> te_GetModel E (te_Finish E fb) = fb \<and> length (te_Finish E fb) < M32 \<and> length (te_header_md5 E) = 16 \<and>
     length (mt_header self) = 48 \<and> \<not> (of_nat (fst (te_version E)) = (1 :: byte) \<and> of_nat (fst (snd (te_version E))) = (0 :: byte))"

definition reopened :: "tool_env \<Rightarrow> model_tool \<Rightarrow> tool_fb \<Rightarrow> byte list \<Rightarrow> model_tool" where
  "reopened E self fb bin = \<lparr>mt_header = written_header E self (length (te_Finish E fb)),
     mt_file = \<lparr>tm_stream = \<lparr>fs_file = written_file E self fb bin, fs_length = length (written_file E self fb bin)\<rparr>,
                tm_binary_offset = 48 + length (te_Finish E fb)\<rparr>, mt_fb = fb\<rparr>"

lemma open_written:
  assumes "body_ok E self fb" "length bin < M32"
  shows "Model_open E (Some (written_file E self fb bin)) = Inr (reopened E self fb bin)"
proof -
  have len: "length (written_header E self (length (te_Finish E fb))) = 48" using assms(1) length_written_header by (simp add: body_ok_def)
  then have "length (written_file E self fb bin) < M64" using assms by (simp add: written_file_def body_ok_def M32_def M64_def)
  moreover have "take 48 (written_file E self fb bin) = written_header E self (length (te_Finish E fb))"
    "take (length (te_Finish E fb)) (drop 48 (written_file E self fb bin)) = te_Finish E fb"
    using len by (simp_all add: written_file_def)
  ultimately show ?thesis using assms(1) len
    by (simp add: Model_open_def FileStream_open_def FileStream_read_def read_at_def SIZEOF_MODEL_HEADER_def add64_def M64_def
        written_header_fields body_ok_def reopened_def Let_def written_file_def M32_def)
qed

lemma reopened_bytes:
  assumes "body_ok E self fb"
  shows "section_bytes (mt_file (reopened E self fb bin)) k n = take n (drop k bin)"
proof -
  have "length (written_header E self (length (te_Finish E fb))) = 48" using assms length_written_header by (simp add: body_ok_def)
  then show ?thesis by (simp add: section_bytes_def reopened_def written_file_def)
qed

section \<open>The weight map\<close>

definition weight_key :: "tool_weight \<Rightarrow> string \<times> int \<times> u32" where
  "weight_key w = (tw_name w, tw_offset w, tw_size w)"

definition add_weight :: "tool_weight \<Rightarrow> tool_weight list \<Rightarrow> tool_weight list" where
  "add_weight w ws = (if weight_key w \<in> weight_key ` set ws then ws else ws @ [w])"

definition merged_weights :: "model_tool list \<Rightarrow> tool_weight list" where
  "merged_weights models = fold (\<lambda>m. fold add_weight (the (tf_weight_map (mt_fb m)))) models []"

definition weight_map_ready :: "model_tool \<Rightarrow> bool" where
  "weight_map_ready m \<longleftrightarrow> (\<exists>ws. tf_weight_map (mt_fb m) = Some ws \<and> (\<forall>w\<in>set ws. tw_shape w \<noteq> None))"

lemma clone_weights_adds:
  "\<forall>w\<in>set ws. tw_shape w \<noteq> None \<Longrightarrow>
    tfold clone_weight ws (vec, map weight_key vec) = Inr (fold add_weight ws vec, map weight_key (fold add_weight ws vec))"
proof (induction ws arbitrary: vec)
  case (Cons w ws)
  obtain dim where dim: "tw_shape w = Some dim" using Cons.prems by auto
  have "\<lparr>tw_name = tw_name w, tw_offset = tw_offset w, tw_size = tw_size w, tw_shape = Some dim, tw_type = tw_type w\<rparr> = w" using dim by simp
  then have "clone_weight w (vec, map weight_key vec) = Inr (add_weight w vec, map weight_key (add_weight w vec))"
    using dim by (auto simp: clone_weight_def add_weight_def weight_key_def[abs_def])
  then show ?case using Cons by simp
qed simp

lemma cloneWeightMap_merges:
  assumes "\<forall>m\<in>set models. weight_map_ready m"
  shows "cloneWeightMap models = Inr (merged_weights models)"
proof -
  let ?f = "\<lambda>m acc. case tf_weight_map (mt_fb m) of None \<Rightarrow> Inl (Fault NullDeref) | Some ws \<Rightarrow> tfold clone_weight ws acc"
  have "tfold ?f ms (vec, map weight_key vec) = Inr (fold (\<lambda>m. fold add_weight (the (tf_weight_map (mt_fb m)))) ms vec,
      map weight_key (fold (\<lambda>m. fold add_weight (the (tf_weight_map (mt_fb m)))) ms vec))" if "\<forall>m\<in>set ms. weight_map_ready m" for ms vec
    using that by (induction ms arbitrary: vec) (auto simp: weight_map_ready_def clone_weights_adds)
  from this[OF assms, of "[]"] show ?thesis by (simp add: cloneWeightMap_def merged_weights_def)
qed

lemma add_weights_keys: "weight_key ` set (fold add_weight ws vec) = weight_key ` set vec \<union> weight_key ` set ws"
  by (induction ws arbitrary: vec) (auto simp: add_weight_def)

text \<open>Every weight of every model has an entry of its name, place and size.\<close>

lemma merged_weights_keys:
  assumes "m \<in> set models" "w \<in> set (the (tf_weight_map (mt_fb m)))"
  shows "\<exists>w'\<in>set (merged_weights models). weight_key w' = weight_key w"
proof -
  have "weight_key ` set (fold (\<lambda>m. fold add_weight (the (tf_weight_map (mt_fb m)))) ms vec) =
      weight_key ` set vec \<union> (\<Union>m\<in>set ms. weight_key ` set (the (tf_weight_map (mt_fb m))))" for ms vec
    by (induction ms arbitrary: vec) (auto simp: add_weights_keys)
  from this[of models "[]"] have "weight_key w \<in> weight_key ` set (merged_weights models)" unfolding merged_weights_def using assms by blast
  then show ?thesis by force
qed

section \<open>Unique names\<close>

lemma distinct_filter_nth:
  assumes "distinct (map f (filter P xs))" "i < length xs" "j < length xs" "P (xs ! i)" "P (xs ! j)" "f (xs ! i) = f (xs ! j)"
  shows "i = j"
  using assms
proof (induction xs arbitrary: i j)
  case (Cons x xs)
  have hd: "False" if "k < length xs" "P x" "P (xs ! k)" "f (xs ! k) = f x" for k
    using Cons.prems(1) that by (auto simp: image_iff)
  show ?case using Cons.prems Cons.IH[of "i - 1" "j - 1"] hd[of "i - 1"] hd[of "j - 1"]
    by (cases i; cases j) (auto split: if_splits)
qed simp

lemma filter_only:
  assumes "j < length xs" "P (xs ! j)" "\<And>k. k < length xs \<Longrightarrow> P (xs ! k) \<Longrightarrow> k = j"
  shows "filter P xs = [xs ! j]"
proof -
  have "\<not> P (xs ! k)" if "k < j" for k using assms(1) assms(3)[of k] that by auto
  then have "filter P (take j xs) = []" using assms(1) by (auto simp: filter_empty_conv in_set_conv_nth)
  moreover have "filter P (drop (Suc j) xs) = []"
  proof (rule ccontr)
    assume "filter P (drop (Suc j) xs) \<noteq> []"
    then obtain k where "k < length (drop (Suc j) xs)" "P (drop (Suc j) xs ! k)" by (auto simp: filter_empty_conv in_set_conv_nth)
    moreover from this have "Suc j + k < length xs" by simp
    ultimately show False using assms(3)[of "Suc j + k"] by simp
  qed
  ultimately show ?thesis using assms(1,2) by (subst id_take_nth_drop[OF assms(1)]) simp
qed

definition distinct_buffers :: "model_tool \<Rightarrow> bool" where
  "distinct_buffers m \<longleftrightarrow> distinct (map fs_name (filter (\<lambda>s. is_buffer (fs_type s)) (tf_sections (mt_fb m))))"

abbreviation buffer_entry :: "entry \<Rightarrow> bool" where
  "buffer_entry e \<equiv> is_buffer (fs_type (snd (snd e)))"

lemma keep_entry_names:
  "map fst (filter buffer_entry (concat (map (keep_entry cand i m) ss))) =
     map (\<lambda>n. indexed_name n i) (map fs_name (filter (\<lambda>s. is_buffer (fs_type s)) ss))"
  by (induction ss) (auto simp: keep_entry_def new_name_def is_buffer_def)

lemma kept_index:
  "e \<in> set (kept cand (enumerate k models)) \<Longrightarrow> buffer_entry e \<Longrightarrow> \<exists>n i. k \<le> i \<and> fst e = indexed_name n i"
  by (fastforce simp: kept_def keep_entry_def new_name_def in_set_enumerate_eq split: if_splits)

lemma kept_names_distinct:
  assumes "\<forall>m\<in>set models. distinct_buffers m"
  shows "distinct (map fst (filter buffer_entry (kept cand (enumerate k models))))"
  using assms
proof (induction models arbitrary: k)
  case (Cons m models)
  let ?names = "map (\<lambda>n. indexed_name n k) (map fs_name (filter (\<lambda>s. is_buffer (fs_type s)) (tf_sections (mt_fb m))))"
  have "inj (\<lambda>n. indexed_name n k)" by (simp add: inj_def indexed_name_inj)
  then have "distinct ?names" using Cons.prems by (subst distinct_map) (auto simp: distinct_buffers_def intro: inj_on_subset)
  moreover have "set ?names \<inter> set (map fst (filter buffer_entry (kept cand (enumerate (Suc k) models)))) = {}"
  proof -
    have "fst e \<notin> set ?names" if "e \<in> set (kept cand (enumerate (Suc k) models))" "buffer_entry e" for e
      using kept_index[OF that] by (auto simp: indexed_name_inj)
    then show ?thesis unfolding set_map[of fst] set_filter by blast
  qed
  moreover have "map fst (filter buffer_entry (kept cand (enumerate k (m # models)))) = ?names @ map fst (filter buffer_entry (kept cand (enumerate (Suc k) models)))"
    using keep_entry_names[of cand k m "tf_sections (mt_fb m)"] by (simp add: kept_def)
  moreover have "distinct (map fst (filter buffer_entry (kept cand (enumerate (Suc k) models))))" using Cons by simp
  ultimately show ?case by (simp only: distinct_append)
qed (simp add: kept_def)

section \<open>Merging\<close>

text \<open>
  Models that can be merged: one program each, tables that can be copied, sections that can be read, one kind of
  command buffers, weights somewhere, and less than four gigabytes in all.  \<^verbatim>\<open>std::sort\<close> gives the elements by size.
\<close>

definition model_ready :: "model_tool \<Rightarrow> bool" where
  "model_ready m \<longleftrightarrow> program_ready m \<and> weight_map_ready m \<and> distinct_buffers m \<and> (\<forall>s\<in>set (tf_sections (mt_fb m)). section_ready m s)"

definition candidate :: "tool_env \<Rightarrow> model_tool list \<Rightarrow> nat" where
  "candidate E models = ws_id (last (te_sort E (weights_of (enumerate 0 models))))"

definition merged_entries :: "tool_env \<Rightarrow> model_tool list \<Rightarrow> entry list" where
  "merged_entries E models = kept (candidate E models) (enumerate 0 models)"

definition merge_ready :: "tool_env \<Rightarrow> model_tool list \<Rightarrow> bool" where
  "merge_ready E models \<longleftrightarrow> (\<forall>m\<in>set models. model_ready m) \<and> length (te_md5_buffer E) = 64 \<and>
     \<not> (has_section SectionType_CMDBUF models \<and> has_section SectionType_DMABUF models) \<and> has_section SectionType_WEIGHT models \<and>
     (\<forall>ws. mset (te_sort E ws) = mset ws \<and> sorted (map ws_size (te_sort E ws))) \<and> entry_size (merged_entries E models) < M32"

definition merged_fb :: "tool_env \<Rightarrow> model_tool \<Rightarrow> model_tool list \<Rightarrow> tool_fb" where
  "merged_fb E self models = new_fb E self (merged_weights models) (map (\<lambda>(i, m). merged_program i m) (enumerate 0 models)) (placed 0 (merged_entries E models))"

text \<open>Of any two weight sections the smaller is the beginning of the other.\<close>

definition begins :: "model_tool list \<Rightarrow> weight_section_t \<Rightarrow> weight_section_t \<Rightarrow> bool" where
  "begins models w w' \<longleftrightarrow> ws_bytes models w = take (ws_size w) (ws_bytes models w')"

definition weights_compatible :: "model_tool list \<Rightarrow> bool" where
  "weights_compatible models \<longleftrightarrow> (\<forall>w\<in>set (weights_of (enumerate 0 models)). \<forall>w'\<in>set (weights_of (enumerate 0 models)).
     ws_size w \<le> ws_size w' \<longrightarrow> begins models w w')"

text \<open>No two of the compared pieces differ and have the same digest.\<close>

definition no_collision :: "model_tool list \<Rightarrow> bool" where
  "no_collision models \<longleftrightarrow> (\<forall>w\<in>set (weights_of (enumerate 0 models)). \<forall>w'\<in>set (weights_of (enumerate 0 models)).
     ws_size w \<le> ws_size w' \<longrightarrow> rfc_md5 (ws_bytes models w) = rfc_md5 (take (ws_size w) (ws_bytes models w')) \<longrightarrow>
     begins models w w')"

lemma begins_trans: "ws_size w \<le> ws_size w' \<Longrightarrow> begins models w w' \<Longrightarrow> begins models w' w'' \<Longrightarrow> begins models w w''"
  by (simp add: begins_def min.absorb1)

lemma begins_both:
  assumes "ws_size w \<le> ws_size w'" "begins models w x" "begins models w' x"
  shows "begins models w w'"
proof -
  have "take (ws_size w) (ws_bytes models w') = take (ws_size w) (ws_bytes models x)"
    unfolding assms(3)[unfolded begins_def] using assms(1) by (simp add: min.absorb1)
  then show ?thesis using assms(2) by (simp add: begins_def)
qed

lemma digests_agree_if:
  assumes "\<forall>w\<in>set (w0 # ws). \<forall>w'\<in>set (w0 # ws). ws_size w \<le> ws_size w' \<longrightarrow> begins models w w'" "sorted (map ws_size (w0 # ws))"
  shows "digests_agree models w0 ws"
  using assms
proof (induction ws arbitrary: w0)
  case (Cons w ws)
  have "begins models w0 w" using Cons.prems by simp
  then have "rfc_md5 (ws_bytes models w0) = rfc_md5 (take (ws_size w0) (ws_bytes models w))" unfolding begins_def by (rule arg_cong)
  moreover have "digests_agree models w ws" using Cons.prems by (intro Cons.IH) simp_all
  ultimately show ?case by (simp only: digests_agree.simps simp_thms)
qed simp

lemma digests_agree_prefix:
  assumes "digests_agree models w0 ws" "sorted (map ws_size (w0 # ws))" "\<forall>w\<in>set (w0 # ws). length (ws_bytes models w) = ws_size w"
    and "\<forall>w\<in>set (w0 # ws). \<forall>w'\<in>set (w0 # ws). ws_size w \<le> ws_size w' \<longrightarrow> rfc_md5 (ws_bytes models w) = rfc_md5 (take (ws_size w) (ws_bytes models w')) \<longrightarrow> begins models w w'"
  shows "\<forall>w\<in>set (w0 # ws). begins models w (last (w0 # ws))"
  using assms
proof (induction ws arbitrary: w0)
  case Nil
  then show ?case by (simp add: begins_def)
next
  case (Cons w ws)
  have ih: "\<forall>x\<in>set (w # ws). begins models x (last (w # ws))"
    using Cons.prems by (intro Cons.IH) simp_all
  have "ws_size w0 \<le> ws_size w" using Cons.prems(2) by simp
  moreover have "begins models w0 w" using Cons.prems(1,4) calculation by simp
  moreover have "begins models w (last (w # ws))" using ih by simp
  ultimately have "begins models w0 (last (w # ws))" by (rule begins_trans)
  then show ?case using ih by simp
qed

lemma digests_agree_iff:
  assumes "\<forall>w\<in>set (weights_of (enumerate 0 models)). ws_ready models w" "mset (w0 # ws) = mset (weights_of (enumerate 0 models))"
    and "sorted (map ws_size (w0 # ws))"
  shows "weights_compatible models \<Longrightarrow> digests_agree models w0 ws" "no_collision models \<Longrightarrow> digests_agree models w0 ws \<Longrightarrow> weights_compatible models"
proof -
  have set: "set (w0 # ws) = set (weights_of (enumerate 0 models))" using assms(2) by (metis set_mset_mset)
  show "weights_compatible models \<Longrightarrow> digests_agree models w0 ws" using digests_agree_if[OF _ assms(3)] by (simp only: weights_compatible_def set)
  assume nc: "no_collision models" and d: "digests_agree models w0 ws"
  have "\<forall>w\<in>set (w0 # ws). length (ws_bytes models w) = ws_size w" using assms(1) unfolding set by (auto simp: ws_ready_def ws_bytes_def length_sec_bytes)
  from digests_agree_prefix[OF d assms(3) this] nc
  have "\<forall>w\<in>set (weights_of (enumerate 0 models)). begins models w (last (w0 # ws))" by (simp only: no_collision_def set)
  then show "weights_compatible models" unfolding weights_compatible_def using begins_both by blast
qed

lemma weights_of_mem:
  "i < length models \<Longrightarrow> s \<in> set (tf_sections (mt_fb (models ! i))) \<Longrightarrow> fs_type s = SectionType_WEIGHT \<Longrightarrow>
    \<lparr>ws_id = i, ws_section = s, ws_size = fs_size s\<rparr> \<in> set (weights_of (enumerate 0 models))"
  by (auto simp: weights_of_def in_set_enumerate_eq intro!: bexI[where x = "(i, models ! i)"])

lemma weights_of_nonempty: "has_section SectionType_WEIGHT models \<Longrightarrow> weights_of (enumerate 0 models) \<noteq> []"
  using weights_of_mem[of _ models] by (fastforce simp: has_section_def in_set_conv_nth[of _ models])

lemma merge_ready_sorted:
  assumes "merge_ready E models"
  obtains w0 ws where "te_sort E (weights_of (enumerate 0 models)) = w0 # ws" "mset (w0 # ws) = mset (weights_of (enumerate 0 models))"
    "sorted (map ws_size (w0 # ws))" "\<forall>w\<in>set (w0 # ws). ws_ready models w"
proof (cases "te_sort E (weights_of (enumerate 0 models))")
  case Nil
  then have "mset (weights_of (enumerate 0 models)) = {#}" using assms by (metis merge_ready_def mset.simps(1))
  then show ?thesis using assms weights_of_nonempty by (auto simp: merge_ready_def)
next
  case (Cons w0 ws)
  then have m: "mset (w0 # ws) = mset (weights_of (enumerate 0 models))" "sorted (map ws_size (w0 # ws))" using assms by (metis merge_ready_def)+
  then have "set (w0 # ws) = set (weights_of (enumerate 0 models))" by (metis set_mset_mset)
  moreover have "\<forall>m\<in>set models. \<forall>s\<in>set (tf_sections (mt_fb m)). section_ready m s" using assms by (simp add: merge_ready_def model_ready_def)
  ultimately show ?thesis using that[OF Cons m] weights_of_ready(1) by blast
qed

lemma merge_result:
  assumes "merge_ready E models"
  shows "weights_compatible models \<Longrightarrow> merge E self models = Inr (written_file E self (merged_fb E self models) (entry_bytes (merged_entries E models)))"
    "no_collision models \<Longrightarrow> \<not> weights_compatible models \<Longrightarrow> merge E self models = Inl (Exit 1)"
proof -
  obtain w0 ws where w: "te_sort E (weights_of (enumerate 0 models)) = w0 # ws" "mset (w0 # ws) = mset (weights_of (enumerate 0 models))"
    "sorted (map ws_size (w0 # ws))" "\<forall>w\<in>set (w0 # ws). ws_ready models w" by (rule merge_ready_sorted[OF assms])
  have ready: "\<forall>m\<in>set models. program_ready m" "\<forall>m\<in>set models. weight_map_ready m" "\<forall>m\<in>set models. \<forall>s\<in>set (tf_sections (mt_fb m)). section_ready m s"
    "length (te_md5_buffer E) = 64" "\<not> (has_section SectionType_CMDBUF models \<and> has_section SectionType_DMABUF models)"
    "entry_size (kept (candidate E models) (enumerate 0 models)) < M32"
    using assms by (simp_all add: merge_ready_def model_ready_def merged_entries_def)
  have "merge E self models = tbind (if digests_agree models w0 ws then Inr () else Inl (Exit 1))
      (\<lambda>_. Inr (written_file E self (merged_fb E self models) (entry_bytes (merged_entries E models))))"
    using ready(5) w(1) compare_weights_decides[OF w(4,3) ready(4)] clone_all_extends[OF ready(3,4,6)]
    by (simp add: merge_def cloneWeightMap_merges[OF ready(2)] clonePrograms_one[OF ready(1)] cloneSections_def scan_sections_eq candidate_def
        extend_def merged_fb_def merged_entries_def Let_def del: last.simps split: if_splits)
  moreover have "\<forall>w\<in>set (weights_of (enumerate 0 models)). ws_ready models w" using weights_of_ready(1)[OF ready(3)] by blast
  note digests_agree_iff[OF this w(2,3)]
  ultimately show "weights_compatible models \<Longrightarrow> merge E self models = Inr (written_file E self (merged_fb E self models) (entry_bytes (merged_entries E models)))"
    "no_collision models \<Longrightarrow> \<not> weights_compatible models \<Longrightarrow> merge E self models = Inl (Exit 1)" by auto
qed

section \<open>What the merged model serves\<close>

lemma kept_mem:
  "i < length models \<Longrightarrow> s \<in> set (tf_sections (mt_fb (models ! i))) \<Longrightarrow> fs_type s \<noteq> SectionType_WEIGHT \<or> i = cand \<Longrightarrow>
    (new_name i s, models ! i, s) \<in> set (kept cand (enumerate 0 models))"
  by (auto simp: kept_def keep_entry_def in_set_enumerate_eq intro!: bexI[where x = "(i, models ! i)"] bexI[where x = s])

lemma kept_sections:
  "e \<in> set (kept cand (enumerate 0 models)) \<Longrightarrow> fst (snd e) \<in> set models \<and> snd (snd e) \<in> set (tf_sections (mt_fb (fst (snd e))))"
  by (auto simp: kept_def keep_entry_def in_set_enumerate_eq split: if_splits)

text \<open>
  A model serves a section of another under a name: exactly one of its command buffers has that name, and it has
  the type, the size, the flags and the bytes of that section.
\<close>

definition serves :: "model_tool \<Rightarrow> string \<Rightarrow> model_tool \<Rightarrow> fb_section \<Rightarrow> bool" where
  "serves T n m s \<longleftrightarrow> (\<exists>s'. filter (\<lambda>x. is_buffer (fs_type x) \<and> fs_name x = n) (tf_sections (mt_fb T)) = [s'] \<and>
     s' = s\<lparr>fs_name := n, fs_offset := fs_offset s'\<rparr> \<and> sec_bytes T s' = sec_bytes m s)"

lemma merged_section:
  assumes "merge_ready E models" "body_ok E self (merged_fb E self models)" "j < length (merged_entries E models)"
  shows "sec_bytes (reopened E self (merged_fb E self models) (entry_bytes (merged_entries E models))) (placed 0 (merged_entries E models) ! j) =
    sec_bytes (fst (snd (merged_entries E models ! j))) (snd (snd (merged_entries E models ! j)))"
proof -
  have "\<forall>e\<in>set (merged_entries E models). section_ready (fst (snd e)) (snd (snd e))"
    using assms(1) kept_sections by (fastforce simp: merge_ready_def model_ready_def merged_entries_def)
  then have len: "\<forall>e\<in>set (merged_entries E models). length (sec_bytes (fst (snd e)) (snd (snd e))) = fs_size (snd (snd e))" using length_sec_bytes by blast
  show ?thesis using entry_bytes_at[OF len assms(3)] assms(3)
    by (simp add: sec_bytes_def[of "reopened _ _ _ _"] reopened_bytes[OF assms(2)] placed_nth)
qed

lemma merged_serves:
  assumes "merge_ready E models" "body_ok E self (merged_fb E self models)"
    and "i < length models" "s \<in> set (tf_sections (mt_fb (models ! i)))" "is_buffer (fs_type s)"
  shows "serves (reopened E self (merged_fb E self models) (entry_bytes (merged_entries E models))) (indexed_name (fs_name s) i) (models ! i) s"
proof -
  let ?es = "merged_entries E models"
  let ?P = "\<lambda>x. is_buffer (fs_type x) \<and> fs_name x = indexed_name (fs_name s) i"
  have "(new_name i s, models ! i, s) \<in> set ?es" using assms(3-5) kept_mem by (auto simp: merged_entries_def is_buffer_def)
  then obtain j where j: "j < length ?es" "?es ! j = (indexed_name (fs_name s) i, models ! i, s)"
    using assms(5) by (auto simp: in_set_conv_nth new_name_def)
  have d: "distinct (map fst (filter buffer_entry ?es))"
    using assms(1) by (simp add: merged_entries_def kept_names_distinct merge_ready_def model_ready_def)
  have "k = j" if "k < length (placed 0 ?es)" "?P (placed 0 ?es ! k)" for k
    using distinct_filter_nth[OF d, of k j] that j assms(5) by (simp add: placed_nth)
  from filter_only[of j "placed 0 ?es" ?P, OF _ _ this] have f: "filter ?P (placed 0 ?es) = [placed 0 ?es ! j]"
    using j assms(5) by (simp add: placed_nth)
  have b: "sec_bytes (reopened E self (merged_fb E self models) (entry_bytes ?es)) (placed 0 ?es ! j) = sec_bytes (models ! i) s"
    using merged_section[OF assms(1,2) j(1)] j(2) by simp
  have "placed 0 ?es ! j = s\<lparr>fs_name := indexed_name (fs_name s) i, fs_offset := fs_offset (placed 0 ?es ! j)\<rparr>" using j by (simp add: placed_nth)
  with f b show ?thesis unfolding serves_def by (intro exI[of _ "placed 0 ?es ! j"]) (simp add: reopened_def merged_fb_def new_fb_def)
qed

lemma sorted_last: "sorted (map f xs) \<Longrightarrow> x \<in> set xs \<Longrightarrow> f x \<le> f (last xs)"
  by (induction xs) auto

lemma merged_weight_section:
  assumes "merge_ready E models" "weights_compatible models" "body_ok E self (merged_fb E self models)"
    and "i < length models" "s \<in> set (tf_sections (mt_fb (models ! i)))" "fs_type s = SectionType_WEIGHT"
  shows "\<exists>s'\<in>set (tf_sections (merged_fb E self models)). fs_type s' = SectionType_WEIGHT \<and>
    take (fs_size s) (sec_bytes (reopened E self (merged_fb E self models) (entry_bytes (merged_entries E models))) s') = sec_bytes (models ! i) s"
proof -
  let ?es = "merged_entries E models" and ?w = "\<lparr>ws_id = i, ws_section = s, ws_size = fs_size s\<rparr>"
  obtain w0 ws where w: "te_sort E (weights_of (enumerate 0 models)) = w0 # ws" "mset (w0 # ws) = mset (weights_of (enumerate 0 models))"
    "sorted (map ws_size (w0 # ws))" "\<forall>w\<in>set (w0 # ws). ws_ready models w" by (rule merge_ready_sorted[OF assms(1)])
  define l where "l = last (w0 # ws)"
  have set: "set (w0 # ws) = set (weights_of (enumerate 0 models))" using w(2) by (metis set_mset_mset)
  have mem: "?w \<in> set (w0 # ws)" using weights_of_mem[OF assms(4-6)] by (simp only: set)
  have mem': "l \<in> set (w0 # ws)" unfolding l_def by (rule last_in_set) simp
  have "ws_size ?w \<le> ws_size l" using sorted_last[OF w(3) mem] by (simp only: l_def)
  then have "begins models ?w l" using assms(2) mem mem' unfolding weights_compatible_def set by blast
  then have pre: "sec_bytes (models ! i) s = take (fs_size s) (sec_bytes (models ! ws_id l) (ws_section l))" by (simp add: begins_def ws_bytes_def)
  have l: "ws_id l < length models" "ws_section l \<in> set (tf_sections (mt_fb (models ! ws_id l)))" "fs_type (ws_section l) = SectionType_WEIGHT"
    using weights_of_ready[of models l] mem' assms(1) w(4) unfolding set by (auto simp: merge_ready_def model_ready_def ws_ready_def)
  have "candidate E models = ws_id l" by (simp add: candidate_def w(1) l_def)
  with kept_mem[OF l(1,2)] obtain j where j: "j < length ?es" "?es ! j = (new_name (ws_id l) (ws_section l), models ! ws_id l, ws_section l)"
    by (auto simp: merged_entries_def in_set_conv_nth)
  show ?thesis
  proof (rule bexI)
    show "placed 0 ?es ! j \<in> set (tf_sections (merged_fb E self models))" using j(1) by (simp add: merged_fb_def new_fb_def)
    show "fs_type (placed 0 ?es ! j) = SectionType_WEIGHT \<and> take (fs_size s) (sec_bytes (reopened E self (merged_fb E self models) (entry_bytes ?es)) (placed 0 ?es ! j)) = sec_bytes (models ! i) s"
      using merged_section[OF assms(1,3) j(1)] j l(3) pre by (simp add: placed_nth)
  qed
qed

lemma merged_routine_buffer:
  assumes "\<forall>m\<in>set models. program_ready m" "i < length models" "j < length (tp_routines (the_program (models ! i)))"
    and "routine_buffer (tp_routines (the_program (models ! i)) ! j) = Inr n"
  shows "routine_buffer (tp_routines (tf_programs (merged_fb E self models) ! i) ! j) = Inr (indexed_name n i)"
proof -
  have r: "routine_buffer (renamed i r) = Inr (indexed_name n i)" if "routine_buffer r = Inr n" for r
    using that by (cases "(i, r)" rule: renamed.cases) auto
  then show ?thesis using assms by (simp add: merged_fb_def new_fb_def nth_enumerate_eq merged_program_def clone_program_def)
qed

section \<open>Limits of the copy\<close>

text \<open>
  The names of command buffers are looked up by the index of the model in a list that has an entry for each program,
  so a file that already has several programs cannot be merged.
\<close>

lemma clonePrograms_maps:
  assumes "clonePrograms models = Inr (programs, maps)"
  shows "length maps = sum_list (map (\<lambda>m. length (tf_programs (mt_fb m))) models)"
proof -
  let ?g = "\<lambda>i p (programs, routine_name_maps). tbind (cloneRoutines p True i Map.empty)
      (\<lambda>(routines, names). Inr (programs @ [clone_program p routines], routine_name_maps @ [names]))"
  have g: "length (snd t') = length (snd t) + length ps" if "tfold (?g i) ps t = Inr t'" for i ps t t'
    using that by (induction ps arbitrary: t) (fastforce simp: tbind_Inr split: prod.splits)+
  have "length (snd t') = length (snd t) + sum_list (map (\<lambda>m. length (tf_programs (mt_fb m))) (map snd ims))"
    if "tfold (\<lambda>(i, m). tfold (?g i) (tf_programs (mt_fb m))) ims t = Inr t'" for ims t t'
    using that by (induction ims arbitrary: t) (auto simp: tbind_Inr dest!: g)
  from this[of "enumerate 0 models" "([], [])" "(programs, maps)"] assms show ?thesis by (simp add: clonePrograms_def)
qed

lemma merge_needs_one_program:
  "merge E self models = Inr file \<Longrightarrow> sum_list (map (\<lambda>m. length (tf_programs (mt_fb m))) models) = length models"
  by (auto simp: merge_def tbind_Inr cloneSections_def split: if_splits dest!: clonePrograms_maps)

text \<open>A tensor without quantisation loses what the runtime reads to prepare an image.\<close>

lemma plain_tensor_stripped:
  "ft_quant t = None \<Longrightarrow> ft_pixel_format (clone_tensor t) = None \<and> \<not> ft_aligned (clone_tensor t) \<and> ft_size (clone_tensor t) = 0 \<and>
     ft_scale (clone_tensor t) = None \<and> ft_mean (clone_tensor t) = None"
  by (simp add: clone_tensor_def)

section \<open>The merged file\<close>

text \<open>Two models with a command buffer each; the weights of the first are the beginning of those of the second.\<close>

definition demo_part :: "fb_section list \<Rightarrow> byte list \<Rightarrow> model_tool" where
  "demo_part sections bin = \<lparr>mt_header = replicate 48 0,
     mt_file = \<lparr>tm_stream = \<lparr>fs_file = replicate 48 0 @ bin, fs_length = 48 + length bin\<rparr>, tm_binary_offset = 48\<rparr>,
     mt_fb = \<lparr>tf_version = (1, 4, 0), tf_name = ''net'', tf_build_time = ''now'', tf_weight_map = Some [],
       tf_programs = [\<lparr>tp_batch_num = 1, tp_neuron_size = 0, tp_input_tensors = [], tp_output_tensors = [], tp_tensor_map = [],
          tp_routines = [ToolTpu [] [] (Some ''cmd'') None], tp_shared_gmem = 0, tp_private_gmem = 0\<rparr>],
       tf_sections = sections, tf_target = None, tf_mlir_version = None\<rparr>\<rparr>"

definition demo_weight :: "u32 \<Rightarrow> fb_section" where
  "demo_weight n = \<lparr>fs_type = SectionType_WEIGHT, fs_name = ''weight'', fs_size = n, fs_offset = 0, fs_encrypt = False, fs_compress = False, fs_decompressed_size = 0\<rparr>"

definition demo_cmdbuf :: "u32 \<Rightarrow> u32 \<Rightarrow> fb_section" where
  "demo_cmdbuf k n = \<lparr>fs_type = SectionType_CMDBUF, fs_name = ''cmd'', fs_size = n, fs_offset = k, fs_encrypt = False, fs_compress = False, fs_decompressed_size = 0\<rparr>"

definition demo_parts :: "model_tool list" where
  "demo_parts = [demo_part [demo_weight 2, demo_cmdbuf 2 1] [1, 2, 7], demo_part [demo_weight 3, demo_cmdbuf 3 2] [1, 2, 3, 8, 9]]"

definition demo_tool_env :: "tool_fb \<Rightarrow> tool_env" where
  "demo_tool_env fb = \<lparr>te_GetModel = (\<lambda>_. fb), te_Finish = (\<lambda>_. [5]), te_version = (1, 4, 0), te_now = ''now'',
     te_lz4_decompress = (\<lambda>_ _. None), te_lz4_compress = (\<lambda>_. None), te_sort = sort_key ws_size, te_encrypter = (\<lambda>_ files. files),
     te_md5_buffer = replicate 64 0, te_md5_digest = replicate 16 0, te_header_md5 = replicate 16 0\<rparr>"

definition demo_merged :: tool_fb where
  "demo_merged = merged_fb (demo_tool_env (mt_fb (hd demo_parts))) (hd demo_parts) demo_parts"

lemmas demo_part_defs = demo_parts_def demo_part_def demo_weight_def demo_cmdbuf_def

lemma demo_weights: "weights_of (enumerate 0 demo_parts) = [\<lparr>ws_id = 0, ws_section = demo_weight 2, ws_size = 2\<rparr>, \<lparr>ws_id = 1, ws_section = demo_weight 3, ws_size = 3\<rparr>]"
  by (simp add: weights_of_def demo_part_defs)

lemma demo_bytes: "ws_bytes demo_parts \<lparr>ws_id = 0, ws_section = demo_weight 2, ws_size = 2\<rparr> = [1, 2]"
  "ws_bytes demo_parts \<lparr>ws_id = 1, ws_section = demo_weight 3, ws_size = 3\<rparr> = [1, 2, 3]"
  by (simp_all add: ws_bytes_def sec_bytes_def section_bytes_def demo_part_defs)

lemma demo_compatible: "weights_compatible demo_parts"
  by (simp add: weights_compatible_def begins_def demo_weights demo_bytes[unfolded One_nat_def])

lemma demo_merge_ready: "merge_ready (demo_tool_env fb) demo_parts"
proof -
  have "section_ready m s" if "m \<in> set demo_parts" "s \<in> set (tf_sections (mt_fb m))" for m s
    using that by (auto simp: section_ready_def demo_part_defs in_file_def M32_def M64_def the_program_def is_buffer_def buffer_names_def)
  moreover have "program_ready m \<and> weight_map_ready m \<and> distinct_buffers m" if "m \<in> set demo_parts" for m
    using that by (auto simp: program_ready_def weight_map_ready_def distinct_buffers_def demo_part_defs the_program_def is_buffer_def)
  moreover have "entry_size (merged_entries (demo_tool_env fb) demo_parts) < M32"
    by (simp add: merged_entries_def candidate_def demo_weights demo_tool_env_def kept_def) (simp add: keep_entry_def demo_part_defs M32_def)
  moreover have "\<not> has_section SectionType_DMABUF demo_parts" "has_section SectionType_WEIGHT demo_parts" by (simp_all add: has_section_def demo_part_defs)
  ultimately show ?thesis by (simp add: merge_ready_def model_ready_def demo_tool_env_def)
qed

lemma demo_body_ok: "body_ok (demo_tool_env demo_merged) (hd demo_parts) (merged_fb (demo_tool_env demo_merged) (hd demo_parts) demo_parts)"
proof -
  have "merged_fb (demo_tool_env demo_merged) (hd demo_parts) demo_parts = demo_merged"
    by (simp add: demo_merged_def merged_fb_def new_fb_def merged_entries_def candidate_def demo_tool_env_def)
  then show ?thesis by (simp add: body_ok_def) (simp add: demo_tool_env_def M32_def demo_part_defs)
qed

text \<open>
  C8: merging models whose weights agree writes a file that, opened again, has a program for each model; the
  command buffer each routine of a model names is found under the new name, exactly once, with the bytes, type and
  flags it had in the file of that model; and every weight section of every model is the beginning of a weight
  section of the merged file, with an entry in the weight map for every weight.
\<close>

theorem merge_serves_models:
  assumes "merge_ready E models" "weights_compatible models" "body_ok E self (merged_fb E self models)"
  shows "\<exists>file T. merge E self models = Inr file \<and> Model_open E (Some file) = Inr T \<and> length (tf_programs (mt_fb T)) = length models \<and>
    (\<forall>i<length models. \<forall>j<length (tp_routines (the_program (models ! i))). \<forall>s\<in>set (tf_sections (mt_fb (models ! i))).
       is_buffer (fs_type s) \<and> routine_buffer (tp_routines (the_program (models ! i)) ! j) = Inr (fs_name s) \<longrightarrow>
       (\<exists>n. routine_buffer (tp_routines (tf_programs (mt_fb T) ! i) ! j) = Inr n \<and> serves T n (models ! i) s)) \<and>
    (\<forall>i<length models. \<forall>s\<in>set (tf_sections (mt_fb (models ! i))). fs_type s = SectionType_WEIGHT \<longrightarrow>
       (\<exists>s'\<in>set (tf_sections (mt_fb T)). fs_type s' = SectionType_WEIGHT \<and> take (fs_size s) (sec_bytes T s') = sec_bytes (models ! i) s)) \<and>
    (\<forall>m\<in>set models. \<forall>w\<in>set (the (tf_weight_map (mt_fb m))). \<exists>w'\<in>set (the (tf_weight_map (mt_fb T))). weight_key w' = weight_key w)"
proof -
  let ?fb = "merged_fb E self models" and ?bin = "entry_bytes (merged_entries E models)"
  let ?T = "reopened E self ?fb ?bin"
  have "\<forall>e\<in>set (merged_entries E models). length (sec_bytes (fst (snd e)) (snd (snd e))) = fs_size (snd (snd e))"
    using assms(1) kept_sections length_sec_bytes by (fastforce simp: merge_ready_def model_ready_def merged_entries_def)
  then have "length ?bin < M32" using assms(1) length_entry_bytes by (simp add: merge_ready_def)
  from open_written[OF assms(3) this] merge_result(1)[OF assms(1,2)] have
    "merge E self models = Inr (written_file E self ?fb ?bin)" "Model_open E (Some (written_file E self ?fb ?bin)) = Inr ?T" by auto
  moreover have fb: "mt_fb ?T = ?fb" by (simp add: reopened_def)
  moreover have "length (tf_programs ?fb) = length models" by (simp add: merged_fb_def new_fb_def)
  moreover have "\<forall>m\<in>set models. program_ready m" using assms(1) by (simp add: merge_ready_def model_ready_def)
  note merged_routine_buffer[OF this] merged_serves[OF assms(1,3)] merged_weight_section[OF assms]
  moreover have "\<forall>m\<in>set models. \<forall>w\<in>set (the (tf_weight_map (mt_fb m))). \<exists>w'\<in>set (the (tf_weight_map ?fb)). weight_key w' = weight_key w"
    using merged_weights_keys by (auto simp: merged_fb_def new_fb_def)
  ultimately show ?thesis by (intro exI[of _ "written_file E self ?fb ?bin"] exI[of _ ?T]) (simp only: fb simp_thms; blast)
qed

theorem merge_serves_models_witness:
  "\<exists>file T n. merge (demo_tool_env demo_merged) (hd demo_parts) demo_parts = Inr file \<and> Model_open (demo_tool_env demo_merged) (Some file) = Inr T \<and>
     length (tf_programs (mt_fb T)) = 2 \<and> routine_buffer (tp_routines (tf_programs (mt_fb T) ! 1) ! 0) = Inr n \<and> serves T n (demo_parts ! 1) (demo_cmdbuf 3 2)"
proof -
  have "demo_cmdbuf 3 2 \<in> set (tf_sections (mt_fb (demo_parts ! 1)))" "is_buffer (fs_type (demo_cmdbuf 3 2))" "length demo_parts = 2"
    "length (tp_routines (the_program (demo_parts ! 1))) = 1" "routine_buffer (tp_routines (the_program (demo_parts ! 1)) ! 0) = Inr (fs_name (demo_cmdbuf 3 2))"
    by (simp_all add: demo_part_defs is_buffer_def the_program_def)
  with merge_serves_models[OF demo_merge_ready demo_compatible demo_body_ok] show ?thesis by fastforce
qed

text \<open>
  C26: the tool merges exactly the models whose weights agree: unless two different pieces of weights have the same
  digest, \<^verbatim>\<open>merge\<close> returns when of any two weight sections the smaller is the beginning of the other, and ends the program
  with \<^verbatim>\<open>exit(1)\<close> when not.
\<close>

theorem merge_checks_weights:
  assumes "merge_ready E models" "no_collision models"
  shows "if weights_compatible models then \<exists>file. merge E self models = Inr file else merge E self models = Inl (Exit 1)"
  using merge_result[OF assms(1)] assms(2) by simp

theorem merge_checks_weights_witness: "\<exists>file. merge (demo_tool_env demo_merged) (hd demo_parts) demo_parts = Inr file"
proof -
  have "no_collision demo_parts" using demo_compatible by (auto simp: no_collision_def weights_compatible_def)
  from merge_checks_weights[OF demo_merge_ready this] show ?thesis using demo_compatible by simp
qed

end
