(* ===== verification/ModelCompress.thy ===== *)
theory ModelCompress
  imports ModelMerge
begin

text \<open>
  Properties of compressing and encrypting a model with the model tool: the sections of the new file, in the order of
  the old ones, hold what was compressed or encrypted, and compressing loses nothing.
\<close>

section \<open>Rebuilding the sections\<close>

lemma concat_at:
  "j < length xs \<Longrightarrow> take (length (f (xs ! j))) (drop (sum_list (map (\<lambda>x. length (f x)) (take j xs))) (concat (map f xs))) = f (xs ! j)"
proof (induction xs arbitrary: j)
  case (Cons x xs)
  then show ?case by (cases j) simp_all
qed simp

lemma length_concat_map: "length (concat (map f xs)) = sum_list (map (\<lambda>x. length (f x)) xs)"
  by (induction xs) simp_all

lemma sum_list_take_le: "sum_list (map f (take j xs)) \<le> sum_list (map f xs)" for f :: "'a \<Rightarrow> nat"
  by (induction xs arbitrary: j) (auto simp: take_Cons split: nat.split)

text \<open>
  The loop of both ways to rebuild: each round appends the next section, made by \<open>mk\<close> for its place, with its new
  bytes; \<open>Q\<close> speaks of the files that are left.
\<close>

lemma rebuild_fold:
  assumes "Q [] files" "sum_list (map fs_size ss) < M32" "sum_list (map (\<lambda>s. length (nb s)) ss) < M32"
    and body: "\<And>pre x rest st. ss = pre @ x # rest \<Longrightarrow> Q pre (rs_files st) \<Longrightarrow> rs_offset st = sum_list (map fs_size pre) \<Longrightarrow>
      \<exists>files'. body x st = Inr (push_section x (mk x (rs_out_offset st)) (nb x) files' st) \<and> Q (pre @ [x]) files'"
  shows "\<exists>st. tfold body ss \<lparr>rs_offset = 0, rs_out_offset = 0, rs_files = files, rs_section_vec = [], rs_out_buf = []\<rparr> = Inr st \<and>
    rs_section_vec st = map (\<lambda>j. mk (ss ! j) (sum_list (map (\<lambda>s. length (nb s)) (take j ss)))) [0..<length ss] \<and> rs_out_buf st = concat (map nb ss)"
proof -
  let ?out = "\<lambda>ss. sum_list (map (\<lambda>s. length (nb s)) ss)"
  let ?P = "\<lambda>pre st. Q pre (rs_files st) \<and> rs_offset st = sum_list (map fs_size pre) \<and> rs_out_offset st = ?out pre \<and>
     rs_section_vec st = map (\<lambda>j. mk (ss ! j) (?out (take j ss))) [0..<length pre] \<and> rs_out_buf st = concat (map nb pre)"
  have "\<exists>st. tfold body ss \<lparr>rs_offset = 0, rs_out_offset = 0, rs_files = files, rs_section_vec = [], rs_out_buf = []\<rparr> = Inr st \<and> ?P ss st"
  proof (rule tfold_inv[where P = ?P])
    fix pre rest x and st :: rebuild_state
    assume e: "ss = pre @ x # rest" and p: "?P pre st"
    obtain files' where "body x st = Inr (push_section x (mk x (rs_out_offset st)) (nb x) files' st)" "Q (pre @ [x]) files'"
      using body[OF e] p by blast
    moreover have "sum_list (map fs_size pre) + fs_size x < M32" "?out pre + length (nb x) < M32" using assms(2,3) by (simp_all add: e)
    ultimately show "\<exists>st'. body x st = Inr st' \<and> ?P (pre @ [x]) st'" using p by (simp add: e push_section_def add32_def)
  qed (use assms(1) in simp)
  then show ?thesis by blast
qed

section \<open>Compressing\<close>

definition compressed :: "tool_env \<Rightarrow> model_tool \<Rightarrow> fb_section \<Rightarrow> byte list" where
  "compressed E m s = the (te_lz4_compress E (sec_bytes m s))"

text \<open>
  A model that can be compressed: nothing of it is compressed yet, the sections have different names, every command
  buffer is named by a routine, what routines name gets no larger, and the other sections lie where the
  sizes of the sections before them add up to.
\<close>

definition compress_ready :: "tool_env \<Rightarrow> model_tool \<Rightarrow> bool" where
  "compress_ready E m \<longleftrightarrow>
     (\<forall>p\<in>set (tf_programs (mt_fb m)). \<forall>r\<in>set (tp_routines p). routine_ok r) \<and> weight_map_ready m \<and>
     distinct (map fs_name (tf_sections (mt_fb m))) \<and> sum_list (map fs_size (tf_sections (mt_fb m))) < M32 \<and>
     (\<forall>s\<in>set (tf_sections (mt_fb m)). in_file (mt_file m) (fs_offset s) (fs_size s) \<and> fs_size s < 2 ^ 31 \<and> \<not> fs_compress s \<and>
        (is_buffer (fs_type s) \<longrightarrow> fs_name s \<in> buffer_names (all_routines m)) \<and>
        (fs_name s \<in> buffer_names (all_routines m) \<longrightarrow> (\<exists>c. te_lz4_compress E (sec_bytes m s) = Some c \<and> c \<noteq> [] \<and> length c \<le> fs_size s))) \<and>
     (\<forall>j<length (tf_sections (mt_fb m)). \<not> is_buffer (fs_type (tf_sections (mt_fb m) ! j)) \<longrightarrow>
        fs_offset (tf_sections (mt_fb m) ! j) = sum_list (map fs_size (take j (tf_sections (mt_fb m)))))"

lemma section_file_inj: "section_file n a = section_file n b \<longleftrightarrow> a = b"
  by (simp add: section_file_def)

lemma read_section:
  "in_file (mt_file m) (fs_offset s) (fs_size s) \<Longrightarrow> section_read (mt_file m) (fs_offset s) (fs_size s) = Inr (sec_bytes m s)"
  using section_read_ok[of "mt_file m" "fs_offset s" "fs_size s"] by (simp add: sec_bytes_def)

lemma find_section_some:
  "find_section m n = Some s \<Longrightarrow> s \<in> set (tf_sections (mt_fb m)) \<and> fs_name s = n"
  "find_section m n = None \<Longrightarrow> s \<in> set (tf_sections (mt_fb m)) \<Longrightarrow> fs_name s \<noteq> n"
  by (auto simp: find_section_def find_Some_iff find_None_iff)

lemma compress_section_ok:
  assumes "compress_ready E m" "s \<in> set (tf_sections (mt_fb m))" "fs_name s \<in> buffer_names (all_routines m)"
  shows "compressSectionToFile E m s = Inr (compressed E m s, fs_size s)"
proof -
  have s: "in_file (mt_file m) (fs_offset s) (fs_size s)" "fs_size s < 2 ^ 31" "\<not> fs_compress s"
    "\<exists>c. te_lz4_compress E (sec_bytes m s) = Some c \<and> c \<noteq> [] \<and> length c \<le> fs_size s"
    using assms by (auto simp: compress_ready_def)
  then show ?thesis by (auto simp: compressSectionToFile_def read_section compressed_def to_s32_small Suc_le_eq)
qed

lemma compress_routines_ok:
  assumes "compress_ready E m"
  shows "\<exists>files info. tfold (compress_routine E m) (all_routines m) (Map.empty, Map.empty) = Inr (files, info) \<and>
    (\<forall>s\<in>set (tf_sections (mt_fb m)). fs_name s \<in> buffer_names (all_routines m) \<longrightarrow>
       files (section_file (tf_name (mt_fb m)) (fs_name s)) = Some (compressed E m s) \<and> info (fs_name s) = Some (fs_size s))"
proof -
  let ?S = "set (tf_sections (mt_fb m))" and ?f = "\<lambda>n. section_file (tf_name (mt_fb m)) n"
  let ?P = "\<lambda>rs (files, info). \<forall>s\<in>?S. fs_name s \<in> buffer_names rs \<longrightarrow> files (?f (fs_name s)) = Some (compressed E m s) \<and> info (fs_name s) = Some (fs_size s)"
  have inj: "a = b" if "a \<in> ?S" "b \<in> ?S" "fs_name a = fs_name b" for a b
    using assms that by (auto simp: compress_ready_def distinct_map inj_on_def)
  have "\<exists>t. tfold (compress_routine E m) (all_routines m) (Map.empty, Map.empty) = Inr t \<and> ?P (all_routines m) t"
  proof (rule tfold_inv[where P = ?P])
    fix pre r rest t
    assume e: "all_routines m = pre @ r # rest" and p: "?P pre t"
    obtain files info where t: "t = (files, info)" by (cases t)
    have "r \<in> set (all_routines m)" by (simp add: e)
    then have ok: "routine_ok r" using assms by (auto simp: compress_ready_def all_routines_def)
    show "\<exists>t'. compress_routine E m r t = Inr t' \<and> ?P (pre @ [r]) t'"
    proof (cases "routine_buffer r")
      case (Inl err)
      then have "\<not> is_tpu r" using ok by (cases r rule: routine_buffer.cases) auto
      then show ?thesis using p Inl by (simp add: t compress_routine_def)
    next
      case (Inr n)
      then have tpu: "is_tpu r" by (cases r rule: routine_buffer.cases) auto
      have n: "n \<in> buffer_names (all_routines m)" using Inr \<open>r \<in> set (all_routines m)\<close> by (auto simp: buffer_names_def)
      show ?thesis
      proof (cases "find_section m n")
        case None
        then show ?thesis using p Inr tpu find_section_some(2)[OF None] by (auto simp: t compress_routine_def)
      next
        case (Some s)
        then have s: "s \<in> ?S" "fs_name s = n" using find_section_some(1) by auto
        then have "compressSectionToFile E m s = Inr (compressed E m s, fs_size s)" using compress_section_ok[OF assms] n by simp
        then show ?thesis using p Inr tpu Some s inj by (auto simp: t compress_routine_def section_file_inj)
      qed
    qed
  qed simp
  then show ?thesis by auto
qed

text \<open>The sections of the compressed file and their bytes.\<close>

definition new_bytes :: "tool_env \<Rightarrow> model_tool \<Rightarrow> fb_section \<Rightarrow> byte list" where
  "new_bytes E m s = (if is_buffer (fs_type s) then compressed E m s else sec_bytes m s)"

definition new_section :: "tool_env \<Rightarrow> model_tool \<Rightarrow> fb_section \<Rightarrow> nat \<Rightarrow> fb_section" where
  "new_section E m s k = \<lparr>fs_type = fs_type s, fs_name = fs_name s, fs_size = length (new_bytes E m s), fs_offset = k, fs_encrypt = False,
     fs_compress = is_buffer (fs_type s), fs_decompressed_size = (if is_buffer (fs_type s) then fs_size s else 0)\<rparr>"

definition new_sections :: "tool_env \<Rightarrow> model_tool \<Rightarrow> fb_section list" where
  "new_sections E m = (let ss = tf_sections (mt_fb m) in
     map (\<lambda>j. new_section E m (ss ! j) (sum_list (map (\<lambda>s. length (new_bytes E m s)) (take j ss)))) [0..<length ss])"

lemma compress_ready_section:
  assumes "compress_ready E m" "s \<in> set (tf_sections (mt_fb m))"
  shows "length (sec_bytes m s) = fs_size s" "length (new_bytes E m s) \<le> fs_size s" "fs_size s < M32"
proof -
  have s: "in_file (mt_file m) (fs_offset s) (fs_size s)" "fs_size s < 2 ^ 31"
    "is_buffer (fs_type s) \<longrightarrow> (\<exists>c. te_lz4_compress E (sec_bytes m s) = Some c \<and> length c \<le> fs_size s)"
    using assms by (auto simp: compress_ready_def)
  show l: "length (sec_bytes m s) = fs_size s" using s(1) by (auto simp: sec_bytes_def section_bytes_def in_file_def)
  show "length (new_bytes E m s) \<le> fs_size s" using s(3) l by (auto simp: new_bytes_def compressed_def)
  show "fs_size s < M32" using s(2) by (simp add: M32_def)
qed

lemma new_bytes_sum:
  assumes "compress_ready E m"
  shows "sum_list (map (\<lambda>s. length (new_bytes E m s)) (tf_sections (mt_fb m))) < M32"
proof -
  have "sum_list (map (\<lambda>s. length (new_bytes E m s)) (tf_sections (mt_fb m))) \<le> sum_list (map fs_size (tf_sections (mt_fb m)))"
    by (rule sum_list_mono) (use compress_ready_section(2)[OF assms] in simp)
  then show ?thesis using assms by (simp add: compress_ready_def)
qed

lemma rebuildSections_ok:
  assumes "compress_ready E m"
    and "\<forall>s\<in>set (tf_sections (mt_fb m)). fs_name s \<in> buffer_names (all_routines m) \<longrightarrow>
       files (section_file (tf_name (mt_fb m)) (fs_name s)) = Some (compressed E m s) \<and> info (fs_name s) = Some (fs_size s)"
  shows "rebuildSections m files info = Inr (new_sections E m, concat (map (new_bytes E m) (tf_sections (mt_fb m))))"
proof -
  let ?ss = "tf_sections (mt_fb m)" and ?f = "\<lambda>n. section_file (tf_name (mt_fb m)) n"
  let ?I = "\<lambda>pre files. \<forall>s\<in>set ?ss - set pre. is_buffer (fs_type s) \<longrightarrow> files (?f (fs_name s)) = Some (compressed E m s)"
  have d: "distinct (map fs_name ?ss)" using assms(1) by (simp add: compress_ready_def)
  have "\<exists>st. tfold (rebuild_compressed m info) ?ss \<lparr>rs_offset = 0, rs_out_offset = 0, rs_files = files, rs_section_vec = [], rs_out_buf = []\<rparr> = Inr st \<and>
    rs_section_vec st = map (\<lambda>j. new_section E m (?ss ! j) (sum_list (map (\<lambda>s. length (new_bytes E m s)) (take j ?ss)))) [0..<length ?ss] \<and>
    rs_out_buf st = concat (map (new_bytes E m) ?ss)"
  proof (rule rebuild_fold[where Q = ?I])
    show "?I [] files" using assms by (auto simp: compress_ready_def)
    show "sum_list (map fs_size ?ss) < M32" using assms(1) by (simp add: compress_ready_def)
    show "sum_list (map (\<lambda>s. length (new_bytes E m s)) ?ss) < M32" by (rule new_bytes_sum[OF assms(1)])
  next
    fix pre rest x and st :: rebuild_state
    assume e: "?ss = pre @ x # rest" and i: "?I pre (rs_files st)" and o: "rs_offset st = sum_list (map fs_size pre)"
    have x: "x \<in> set ?ss" "x \<notin> set pre" using d by (auto simp: e)
    show "\<exists>files'. rebuild_compressed m info x st = Inr (push_section x (new_section E m x (rs_out_offset st)) (new_bytes E m x) files' st) \<and> ?I (pre @ [x]) files'"
    proof (cases "is_buffer (fs_type x)")
      case True
      then have "rs_files st (?f (fs_name x)) = Some (compressed E m x)" using i x by blast
      moreover have "info (fs_name x) = Some (fs_size x)" using True x(1) assms by (auto simp: compress_ready_def)
      moreover have "length (compressed E m x) mod M32 = length (compressed E m x)" "fs_size x mod M32 = fs_size x"
        using compress_ready_section[OF assms(1) x(1)] True by (auto simp: new_bytes_def)
      moreover have "?I (pre @ [x]) ((rs_files st)(?f (fs_name x) := None))"
        using i d x(1) by (auto simp: section_file_inj distinct_map inj_on_def)
      ultimately show ?thesis using True by (intro exI[of _ "(rs_files st)(?f (fs_name x) := None)"]) (simp add: rebuild_compressed_def new_section_def new_bytes_def Let_def)
    next
      case False
      have "\<forall>j<length ?ss. \<not> is_buffer (fs_type (?ss ! j)) \<longrightarrow> fs_offset (?ss ! j) = sum_list (map fs_size (take j ?ss))"
        using assms(1) by (simp add: compress_ready_def)
      from this[rule_format, of "length pre"] have "fs_offset (?ss ! length pre) = sum_list (map fs_size (take (length pre) ?ss))"
        using False by (simp add: e)
      then have "rs_offset st = fs_offset x" using o by (simp add: e)
      moreover have "section_read (mt_file m) (fs_offset x) (fs_size x) = Inr (sec_bytes m x)"
        using assms(1) x(1) by (intro read_section) (simp add: compress_ready_def)
      ultimately show ?thesis using False i compress_ready_section(1)[OF assms(1) x(1)]
        by (intro exI[of _ "rs_files st"]) (simp add: rebuild_compressed_def new_section_def new_bytes_def)
    qed
  qed
  then show ?thesis by (auto simp: rebuildSections_def new_sections_def Let_def)
qed

lemma rebuildWeightMap_ok: "weight_map_ready m \<Longrightarrow> rebuildWeightMap m = Inr (the (tf_weight_map (mt_fb m)))"
proof -
  assume "weight_map_ready m"
  then obtain ws where ws: "tf_weight_map (mt_fb m) = Some ws" "\<forall>w\<in>set ws. tw_shape w \<noteq> None" by (auto simp: weight_map_ready_def)
  let ?f = "\<lambda>w. case tw_shape w of None \<Rightarrow> Inl (Fault NullDeref)
       | Some dim \<Rightarrow> Inr \<lparr>tw_name = tw_name w, tw_offset = tw_offset w, tw_size = tw_size w, tw_shape = Some dim, tw_type = tw_type w\<rparr>"
  have "?f w = Inr (id w)" if w: "w \<in> set ws" for w
  proof -
    obtain dim where "tw_shape w = Some dim" using ws(2) w by auto
    then show ?thesis by (cases w) simp
  qed
  from tmap_ok[of ws ?f id, OF this] show ?thesis by (simp add: rebuildWeightMap_def ws(1))
qed

lemma rebuildPrograms_ok:
  "\<forall>p\<in>set (tf_programs (mt_fb m)). \<forall>r\<in>set (tp_routines p). routine_ok r \<Longrightarrow>
    rebuildPrograms m = Inr (map (\<lambda>p. clone_program p (tp_routines p)) (tf_programs (mt_fb m)))"
  unfolding rebuildPrograms_def by (rule tmap_ok) (simp add: cloneRoutines_plain)

definition compressed_fb :: "tool_env \<Rightarrow> model_tool \<Rightarrow> tool_fb" where
  "compressed_fb E m = new_fb E m (the (tf_weight_map (mt_fb m))) (map (\<lambda>p. clone_program p (tp_routines p)) (tf_programs (mt_fb m))) (new_sections E m)"

lemma compress_inst_ok:
  assumes "compress_ready E m"
  shows "compress_inst E m False = Inr (Some (written_file E m (compressed_fb E m) (concat (map (new_bytes E m) (tf_sections (mt_fb m))))))"
proof -
  obtain files info where f: "tfold (compress_routine E m) (all_routines m) (Map.empty, Map.empty) = Inr (files, info)"
    "\<forall>s\<in>set (tf_sections (mt_fb m)). fs_name s \<in> buffer_names (all_routines m) \<longrightarrow>
       files (section_file (tf_name (mt_fb m)) (fs_name s)) = Some (compressed E m s) \<and> info (fs_name s) = Some (fs_size s)"
    using compress_routines_ok[OF assms] by blast
  have "weight_map_ready m" "\<forall>p\<in>set (tf_programs (mt_fb m)). \<forall>r\<in>set (tp_routines p). routine_ok r" using assms by (simp_all add: compress_ready_def)
  then show ?thesis
    by (simp add: compress_inst_def f(1) rebuildWeightMap_ok rebuildSections_ok[OF assms f(2)] rebuildPrograms_ok compressed_fb_def)
qed

lemma storeSectionToFile_plain:
  assumes "in_file T (fs_offset sec) (fs_size sec)" "\<not> fs_compress sec"
  shows "storeSectionToFile lz4 T sec = Inr (section_bytes T (fs_offset sec) (fs_size sec))"
  using assms(2) by (simp add: storeSectionToFile_def piece_loop_pieces[OF assms(1) lessI] each_piece_append del: piece_loop.simps)

lemma storeSectionToFile_compressed:
  assumes "in_file T (fs_offset sec) (fs_size sec)" "fs_compress sec"
    and "lz4 (section_bytes T (fs_offset sec) (fs_size sec)) (fs_decompressed_size sec) = Some out" "length out = fs_decompressed_size sec"
  shows "storeSectionToFile lz4 T sec = Inr out"
  using assms section_read_ok[OF assms(1) order_refl] by (simp add: storeSectionToFile_def decompress_section_def bind_res_def)

lemma reopened_in_file:
  assumes "body_ok E self fb" "length bin < M32" "k + n \<le> length bin"
  shows "in_file (mt_file (reopened E self fb bin)) k n"
proof -
  have "length (written_header E self (length (te_Finish E fb))) = 48" using assms(1) length_written_header by (simp add: body_ok_def)
  then show ?thesis using assms by (simp add: in_file_def reopened_def written_file_def body_ok_def M32_def M64_def)
qed

lemma new_section_stored:
  assumes "compress_ready E m" "body_ok E m (compressed_fb E m)" "j < length (tf_sections (mt_fb m))"
    and "\<forall>bytes c. te_lz4_compress E bytes = Some c \<longrightarrow> te_lz4_decompress E c (length bytes) = Some bytes"
  shows "tool_store E (reopened E m (compressed_fb E m) (concat (map (new_bytes E m) (tf_sections (mt_fb m))))) (new_sections E m ! j) =
    Inr (sec_bytes m (tf_sections (mt_fb m) ! j))"
proof -
  let ?ss = "tf_sections (mt_fb m)"
  let ?bin = "concat (map (new_bytes E m) ?ss)" and ?k = "sum_list (map (\<lambda>s. length (new_bytes E m s)) (take j ?ss))" and ?s = "?ss ! j"
  let ?T = "reopened E m (compressed_fb E m) ?bin" and ?s' = "new_section E m (?ss ! j) ?k"
  have s: "?s \<in> set ?ss" "length (sec_bytes m ?s) = fs_size ?s" using assms(3) compress_ready_section(1)[OF assms(1)] by simp_all
  have bin: "length ?bin < M32" unfolding length_concat_map by (rule new_bytes_sum[OF assms(1)])
  have at: "section_bytes (mt_file ?T) ?k (length (new_bytes E m ?s)) = new_bytes E m ?s"
    unfolding reopened_bytes[OF assms(2)] by (rule concat_at[OF assms(3)])
  have "?k + length (new_bytes E m ?s) \<le> length ?bin"
    unfolding length_concat_map using sum_list_take_le[of "\<lambda>s. length (new_bytes E m s)" "Suc j" ?ss] assms(3) by (simp add: take_Suc_conv_app_nth)
  then have i: "in_file (mt_file ?T) (fs_offset ?s') (fs_size ?s')" using reopened_in_file[OF assms(2) bin] by (simp add: new_section_def)
  have "tool_store E ?T ?s' = Inr (sec_bytes m ?s)"
  proof (cases "is_buffer (fs_type ?s)")
    case True
    then obtain c where "te_lz4_compress E (sec_bytes m ?s) = Some c" using assms(1) s by (auto simp: compress_ready_def)
    then have "te_lz4_decompress E (new_bytes E m ?s) (fs_size ?s) = Some (sec_bytes m ?s)"
      using assms(4)[rule_format, of "sec_bytes m ?s" c] s(2) True by (simp add: new_bytes_def compressed_def)
    then show ?thesis using storeSectionToFile_compressed[OF i, of "te_lz4_decompress E" "sec_bytes m ?s"] True at s(2)
      by (simp add: tool_store_def new_section_def)
  next
    case False
    then show ?thesis using storeSectionToFile_plain[OF i] at by (simp add: tool_store_def new_section_def new_bytes_def)
  qed
  then show ?thesis using assms(3) by (simp add: new_sections_def Let_def)
qed

section \<open>Encrypting\<close>

text \<open>Weights and command buffers of the new file are what the encrypter left; the rest is copied.\<close>

definition encrypted_bytes :: "model_tool \<Rightarrow> (string \<rightharpoonup> byte list) \<Rightarrow> fb_section \<Rightarrow> byte list" where
  "encrypted_bytes m files s = (if fs_type s = SectionType_WEIGHT \<or> is_buffer (fs_type s)
     then the (files (section_file (tf_name (mt_fb m)) (fs_name s) @ ''.enc'')) else sec_bytes m s)"

lemma rebuildSections_encrypted_ok:
  assumes "\<forall>s\<in>set (tf_sections (mt_fb m)). fs_type s = SectionType_WEIGHT \<or> is_buffer (fs_type s) \<longrightarrow>
      files (section_file (tf_name (mt_fb m)) (fs_name s) @ ''.enc'') \<noteq> None"
    and "\<forall>j<length (tf_sections (mt_fb m)). fs_type (tf_sections (mt_fb m) ! j) \<noteq> SectionType_WEIGHT \<and> \<not> is_buffer (fs_type (tf_sections (mt_fb m) ! j)) \<longrightarrow>
      in_file (mt_file m) (fs_offset (tf_sections (mt_fb m) ! j)) (fs_size (tf_sections (mt_fb m) ! j)) \<and>
      fs_offset (tf_sections (mt_fb m) ! j) = sum_list (map fs_size (take j (tf_sections (mt_fb m))))"
    and "sum_list (map fs_size (tf_sections (mt_fb m))) < M32" "sum_list (map (\<lambda>s. length (encrypted_bytes m files s)) (tf_sections (mt_fb m))) < M32"
  shows "\<exists>sections. rebuildSections_encrypted m files = Inr (sections, concat (map (encrypted_bytes m files) (tf_sections (mt_fb m)))) \<and>
    length sections = length (tf_sections (mt_fb m)) \<and>
    (\<forall>j<length sections. fs_name (sections ! j) = fs_name (tf_sections (mt_fb m) ! j) \<and>
       fs_offset (sections ! j) = sum_list (map (\<lambda>s. length (encrypted_bytes m files s)) (take j (tf_sections (mt_fb m)))))"
proof -
  let ?ss = "tf_sections (mt_fb m)" and ?nb = "encrypted_bytes m files"
  define mk where "mk s k = \<lparr>fs_type = fs_type s, fs_name = fs_name s, fs_size = length (?nb s), fs_offset = k,
    fs_encrypt = (fs_type s = SectionType_WEIGHT \<or> is_buffer (fs_type s)), fs_compress = False, fs_decompressed_size = 0\<rparr>" for s k
  have "\<exists>st. tfold (rebuild_encrypted m) ?ss \<lparr>rs_offset = 0, rs_out_offset = 0, rs_files = files, rs_section_vec = [], rs_out_buf = []\<rparr> = Inr st \<and>
    rs_section_vec st = map (\<lambda>j. mk (?ss ! j) (sum_list (map (\<lambda>s. length (?nb s)) (take j ?ss)))) [0..<length ?ss] \<and> rs_out_buf st = concat (map ?nb ?ss)"
  proof (rule rebuild_fold[where Q = "\<lambda>_ f. f = files"])
    fix pre rest x and st :: rebuild_state
    assume e: "?ss = pre @ x # rest" and f: "rs_files st = files" and o: "rs_offset st = sum_list (map fs_size pre)"
    have "length (?nb x) < M32" using assms(4) by (simp add: e)
    show "\<exists>files'. rebuild_encrypted m x st = Inr (push_section x (mk x (rs_out_offset st)) (?nb x) files' st) \<and> files' = files"
    proof (cases "fs_type x = SectionType_WEIGHT \<or> is_buffer (fs_type x)")
      case True
      then obtain bytes where "files (section_file (tf_name (mt_fb m)) (fs_name x) @ ''.enc'') = Some bytes" using assms(1) by (auto simp: e)
      then show ?thesis using True f \<open>length (?nb x) < M32\<close> by (simp add: rebuild_encrypted_def mk_def encrypted_bytes_def)
    next
      case False
      then have x: "in_file (mt_file m) (fs_offset x) (fs_size x)" "fs_offset x = rs_offset st"
        using assms(2)[rule_format, of "length pre"] o by (auto simp: e)
      moreover have "length (sec_bytes m x) = fs_size x" using x(1) by (auto simp: sec_bytes_def section_bytes_def in_file_def)
      ultimately show ?thesis using False f read_section[OF x(1)] by (simp add: rebuild_encrypted_def mk_def encrypted_bytes_def)
    qed
  qed (use assms(3,4) in simp_all)
  then obtain st where "tfold (rebuild_encrypted m) ?ss \<lparr>rs_offset = 0, rs_out_offset = 0, rs_files = files, rs_section_vec = [], rs_out_buf = []\<rparr> = Inr st"
    "rs_section_vec st = map (\<lambda>j. mk (?ss ! j) (sum_list (map (\<lambda>s. length (?nb s)) (take j ?ss)))) [0..<length ?ss]" "rs_out_buf st = concat (map ?nb ?ss)" by blast
  then show ?thesis by (simp add: rebuildSections_encrypted_def mk_def)
qed

text \<open>A section that is copied is read at the running sum of the sizes, wherever the table says it is.\<close>

lemma rebuild_ignores_offset:
  assumes "tf_sections (mt_fb m) = [s]" "\<not> is_buffer (fs_type s)" "in_file (mt_file m) 0 (fs_size s)"
  shows "\<exists>sections. rebuildSections m files info = Inr (sections, section_bytes (mt_file m) 0 (fs_size s))"
  using assms section_read_ok[OF assms(3) order_refl] by (simp add: rebuildSections_def rebuild_compressed_def push_section_def)

section \<open>The compressed file\<close>

definition demo_rle_env :: "tool_fb \<Rightarrow> tool_env" where
  "demo_rle_env fb = (demo_tool_env fb)\<lparr>te_lz4_compress := (\<lambda>bytes. if bytes \<noteq> [] \<and> bytes = replicate (length bytes) (hd bytes) then Some [hd bytes] else None),
     te_lz4_decompress := (\<lambda>c n. Some (replicate n (hd c)))\<rparr>"

definition demo_plain :: model_tool where
  "demo_plain = demo_part [demo_weight 2, demo_cmdbuf 2 5] [1, 2, 7, 7, 7, 7, 7]"

definition demo_compressed :: tool_fb where
  "demo_compressed = compressed_fb (demo_rle_env (mt_fb demo_plain)) demo_plain"

lemma demo_compress_ready: "compress_ready (demo_rle_env fb) demo_plain"
proof -
  have "sec_bytes demo_plain (demo_cmdbuf 2 5) = [7, 7, 7, 7, 7]" "all_routines demo_plain = [ToolTpu [] [] (Some ''cmd'') None]"
    "tf_sections (mt_fb demo_plain) = [demo_weight 2, demo_cmdbuf 2 5]" "weight_map_ready demo_plain"
    by (simp_all add: sec_bytes_def section_bytes_def demo_plain_def demo_part_defs all_routines_def weight_map_ready_def)
  moreover have "buffer_names [ToolTpu [] [] (Some ''cmd'') None] = {''cmd''}" by (simp add: buffer_names_def)
  ultimately show ?thesis unfolding compress_ready_def
    by (simp add: demo_rle_env_def All_less_Suc) (simp add: demo_plain_def demo_part_defs in_file_def is_buffer_def M32_def M64_def)
qed

lemma demo_rle_same: "compressed_fb (demo_rle_env a) m = compressed_fb (demo_rle_env b) m"
proof -
  have "compressed (demo_rle_env a) = compressed (demo_rle_env b)" by (simp add: fun_eq_iff compressed_def demo_rle_env_def demo_tool_env_def)
  moreover from this have "new_bytes (demo_rle_env a) = new_bytes (demo_rle_env b)" by (simp add: fun_eq_iff new_bytes_def)
  ultimately have "new_sections (demo_rle_env a) m = new_sections (demo_rle_env b) m" by (simp add: new_sections_def new_section_def)
  then show ?thesis by (simp add: compressed_fb_def new_fb_def) (simp add: demo_rle_env_def demo_tool_env_def)
qed

lemma demo_compressed_ok: "body_ok (demo_rle_env demo_compressed) demo_plain (compressed_fb (demo_rle_env demo_compressed) demo_plain)"
proof -
  have "compressed_fb (demo_rle_env demo_compressed) demo_plain = demo_compressed"
    unfolding demo_compressed_def by (rule demo_rle_same)
  then show ?thesis by (simp add: body_ok_def) (simp add: demo_rle_env_def demo_tool_env_def M32_def demo_plain_def demo_part_defs)
qed

text \<open>
  C19: compressing the command buffers of a model loses nothing, for a compressor whose output the decoder turns back:
  the written file, opened again, has the sections of the model in their order, with their types and names, the
  command buffers marked as compressed, and storing any of them gives the bytes that storing the section of the
  model gives; its programs have the routines of the model.
\<close>

theorem compress_inst_roundtrip:
  assumes "compress_ready E m" "body_ok E m (compressed_fb E m)"
    and "\<forall>bytes c. te_lz4_compress E bytes = Some c \<longrightarrow> te_lz4_decompress E c (length bytes) = Some bytes"
  shows "\<exists>file T. compress_inst E m False = Inr (Some file) \<and> Model_open E (Some file) = Inr T \<and>
    length (tf_sections (mt_fb T)) = length (tf_sections (mt_fb m)) \<and>
    (\<forall>j<length (tf_sections (mt_fb m)). let s = tf_sections (mt_fb m) ! j; s' = tf_sections (mt_fb T) ! j in
       fs_type s' = fs_type s \<and> fs_name s' = fs_name s \<and> fs_compress s' = is_buffer (fs_type s) \<and>
       tool_store E T s' = Inr (sec_bytes m s) \<and> tool_store E m s = Inr (sec_bytes m s)) \<and>
    map tp_routines (tf_programs (mt_fb T)) = map tp_routines (tf_programs (mt_fb m))"
proof -
  let ?ss = "tf_sections (mt_fb m)" and ?fb = "compressed_fb E m"
  let ?bin = "concat (map (new_bytes E m) ?ss)"
  let ?T = "reopened E m ?fb ?bin"
  have "length ?bin < M32" unfolding length_concat_map by (rule new_bytes_sum[OF assms(1)])
  then have T: "Model_open E (Some (written_file E m ?fb ?bin)) = Inr ?T" by (rule open_written[OF assms(2)])
  have secs: "tf_sections (mt_fb ?T) = new_sections E m" "length (new_sections E m) = length ?ss"
    "map tp_routines (tf_programs (mt_fb ?T)) = map tp_routines (tf_programs (mt_fb m))"
    by (simp_all add: reopened_def compressed_fb_def new_fb_def new_sections_def Let_def clone_program_def)
  have "tool_store E m (?ss ! j) = Inr (sec_bytes m (?ss ! j))" if "j < length ?ss" for j
    using assms(1) that by (simp add: tool_store_def compress_ready_def storeSectionToFile_plain sec_bytes_def)
  moreover have "fs_type (new_sections E m ! j) = fs_type (?ss ! j)" "fs_name (new_sections E m ! j) = fs_name (?ss ! j)"
    "fs_compress (new_sections E m ! j) = is_buffer (fs_type (?ss ! j))" if "j < length ?ss" for j
    using that by (simp_all add: new_sections_def new_section_def Let_def)
  ultimately show ?thesis using compress_inst_ok[OF assms(1)] T secs new_section_stored[OF assms(1,2) _ assms(3)] by (auto simp: Let_def)
qed

theorem compress_inst_roundtrip_witness:
  "\<exists>file T. compress_inst (demo_rle_env demo_compressed) demo_plain False = Inr (Some file) \<and> Model_open (demo_rle_env demo_compressed) (Some file) = Inr T \<and>
     fs_compress (tf_sections (mt_fb T) ! 1) \<and> tool_store (demo_rle_env demo_compressed) T (tf_sections (mt_fb T) ! 1) = Inr [7, 7, 7, 7, 7]"
proof -
  have "\<forall>bytes c. te_lz4_compress (demo_rle_env demo_compressed) bytes = Some c \<longrightarrow> te_lz4_decompress (demo_rle_env demo_compressed) c (length bytes) = Some bytes"
    by (simp add: demo_rle_env_def)
  note * = compress_inst_roundtrip[OF demo_compress_ready demo_compressed_ok this]
  have "length (tf_sections (mt_fb demo_plain)) = 2" "is_buffer (fs_type (tf_sections (mt_fb demo_plain) ! 1))" "sec_bytes demo_plain (tf_sections (mt_fb demo_plain) ! 1) = [7, 7, 7, 7, 7]"
    by (simp_all add: demo_plain_def demo_part_defs is_buffer_def sec_bytes_def section_bytes_def)
  with * show ?thesis by (fastforce simp: Let_def)
qed

end
