(* ===== verification/Pmu.thy ===== *)
theory Pmu
  imports DmaBuf
begin

text \<open>
  The performance counters of the TPU (\<^verbatim>\<open>soc/181x/tpu_pmu.cpp\<close>): the events the hardware left behind a dma buffer are added up,
  matched with the descriptors of the buffer and grouped by layers.

  Memory is a function from addresses to bytes.  The layout of registers and their types are those of the
  kernel library and parameters, like what \<^verbatim>\<open>malloc\<close> returns: an array of arbitrary contents, with as many
  elements as fit into the requested bytes.  The loops run until an element with a zero type, so they have fuel.
  The lines printed and written, with their quotients of floating-point numbers, are left out.
\<close>

section \<open>Data\<close>

record pmu_event =
  pe_type :: nat
  pe_desID :: nat
  pe_eventCnt0 :: nat
  pe_eventCnt1 :: nat
  pe_endTime :: u32
  pe_startTime :: u32

text \<open>The 64 bits of the fields \<^verbatim>\<open>type:4, desID:16, eventCnt0:22, eventCnt1:22\<close>, then the two times.\<close>

definition event_at :: "(u64 \<Rightarrow> byte) \<Rightarrow> u64 \<Rightarrow> pmu_event" where
  "event_at ram a = (let w = load_u32 a ram + 2 ^ 32 * load_u32 (a + 4) ram in
     \<lparr>pe_type = w mod 2 ^ 4, pe_desID = w div 2 ^ 4 mod 2 ^ 16, pe_eventCnt0 = w div 2 ^ 20 mod 2 ^ 22, pe_eventCnt1 = w div 2 ^ 42,
      pe_endTime = load_u32 (a + 8) ram, pe_startTime = load_u32 (a + 12) ram\<rparr>)"

definition TPU_PMUTYPE_TDMALOAD :: nat where "TPU_PMUTYPE_TDMALOAD = 1"
definition TPU_PMUTYPE_TDMASTORE :: nat where "TPU_PMUTYPE_TDMASTORE = 2"
definition TPU_PMUTYPE_TDMAMOVE :: nat where "TPU_PMUTYPE_TDMAMOVE = 3"
definition TPU_PMUTYPE_TIU :: nat where "TPU_PMUTYPE_TIU = 4"

lemmas pmu_types = TPU_PMUTYPE_TDMALOAD_def TPU_PMUTYPE_TDMASTORE_def TPU_PMUTYPE_TDMAMOVE_def TPU_PMUTYPE_TIU_def

text \<open>The fields of the registers that the analysis looks at.\<close>

record tiu_reg =
  ti_cmd_id_tpu :: nat
  ti_layer_info :: nat
  ti_tsk_typ :: nat
  ti_tsk_eu_typ :: nat
  ti_opd_typ :: bool
  ti_opt_chl_quan :: bool

record tdma_reg =
  td_cmd_id :: nat
  td_layer_ID :: nat
  td_compress_en :: bool
  td_sys_dtype :: bool
  td_src_base_reg_sel :: nat

record des_element =
  de_event :: pmu_event
  de_tiuReg :: tiu_reg
  de_tdmaReg :: tdma_reg
  de_typeStr :: string

record layer_element =
  le_layerID :: u32
  le_last_desType :: nat
  le_last_desID :: u32
  le_endTime :: u32
  le_startTime :: u32
  le_LoadNeuronTime :: u32
  le_LoadWeightTime :: u32
  le_StoreNeuronTime :: u32
  le_TIUTime :: u32
  le_TDMATime :: u32
  le_byteCnt :: u32

record pmu_env =
  pm_parse_tdma_reg :: "byte list \<Rightarrow> tdma_reg"
  pm_parse_tiu_reg :: "byte list \<Rightarrow> tiu_reg"
  pm_bd_reg_bytes :: nat
  pm_tdma_reg_bytes :: nat
  pm_conv :: nat
  pm_depthwise_pool :: nat
  pm_fc :: nat
  pm_tensor_arith :: nat
  pm_desc_bytes :: nat

section \<open>Totals\<close>

text \<open>\<^verbatim>\<open>end - start\<close> of two 32-bit times, or the other branch when the counter went round.\<close>

definition time_diff :: "u32 \<Rightarrow> u32 \<Rightarrow> u32" where
  "time_diff startTime endTime = (if endTime > startTime then endTime - startTime
     else (0xFFFFFFFF - startTime + endTime) mod M32)"

record pmu_totals =
  pt_des_start :: u64
  pt_des_end :: u64
  pt_tdma_total :: u64
  pt_tiu_total :: u64
  pt_tdma_cnt :: u32
  pt_tiu_cnt :: u32
  pt_index :: u32
  pt_wrap_cnt :: u32
  pt_load_bytes :: u64
  pt_store_bytes :: u64
  pt_previous :: "nat \<times> u32 \<times> u32"
  pt_elements :: "des_element list"

definition event_key :: "pmu_event \<Rightarrow> nat \<times> u32 \<times> u32" where
  "event_key e = (pe_desID e, pe_startTime e, pe_endTime e)"

text \<open>Writing \<^verbatim>\<open>p_element[index]\<close>, only when everything is wanted.\<close>

definition record_event :: "bool \<Rightarrow> pmu_event \<Rightarrow> pmu_totals \<Rightarrow> pmu_totals res" where
  "record_event all_info e st = (if \<not> all_info then Inr st
     else if pt_index st < length (pt_elements st)
       then Inr (st\<lparr>pt_elements := (pt_elements st)[pt_index st := (pt_elements st ! pt_index st)\<lparr>de_event := e\<rparr>]\<rparr>)
       else Inl OutOfRange)"

definition count_tiu :: "pmu_event \<Rightarrow> pmu_totals \<Rightarrow> pmu_totals" where
  "count_tiu e st = st\<lparr>pt_tiu_total := add64 (pt_tiu_total st) (time_diff (pe_startTime e) (pe_endTime e)), pt_tiu_cnt := add32 (pt_tiu_cnt st) 1,
     pt_wrap_cnt := (if pe_endTime e > pe_startTime e then pt_wrap_cnt st else add32 (pt_wrap_cnt st) 1)\<rparr>"

definition count_tdma :: "pmu_event \<Rightarrow> pmu_totals \<Rightarrow> pmu_totals" where
  "count_tdma e st =
    (let st1 = (if event_key e \<noteq> pt_previous st
       then st\<lparr>pt_tdma_total := add64 (pt_tdma_total st) (time_diff (pe_startTime e) (pe_endTime e)), pt_tdma_cnt := add32 (pt_tdma_cnt st) 1,
              pt_wrap_cnt := (if pe_endTime e > pe_startTime e then pt_wrap_cnt st else add32 (pt_wrap_cnt st) 1)\<rparr>
       else st);
       st2 = (if pe_type e = TPU_PMUTYPE_TDMALOAD then st1\<lparr>pt_load_bytes := add64 (pt_load_bytes st1) (16 * pe_eventCnt1 e)\<rparr>
              else if pe_type e = TPU_PMUTYPE_TDMASTORE then st1\<lparr>pt_store_bytes := add64 (pt_store_bytes st1) (16 * pe_eventCnt1 e)\<rparr>
              else st1)
     in st2\<lparr>pt_previous := event_key e\<rparr>)"

definition count_event :: "bool \<Rightarrow> pmu_event \<Rightarrow> pmu_totals \<Rightarrow> pmu_totals res" where
  "count_event all_info e st =
    (if TPU_PMUTYPE_TDMALOAD \<le> pe_type e \<and> pe_type e \<le> TPU_PMUTYPE_TIU then
       let st0 = (if pt_index st = 0 then st\<lparr>pt_des_start := pe_startTime e, pt_des_end := pe_endTime e\<rparr> else st\<lparr>pt_des_end := pe_endTime e\<rparr>) in
       bind_res (record_event all_info e st0) (\<lambda>st1.
       let st2 = (if pe_type e = TPU_PMUTYPE_TIU then count_tiu e st1 else count_tdma e st1) in
       Inr (st2\<lparr>pt_index := add32 (pt_index st2) 1\<rparr>))
     else Inr (st\<lparr>pt_index := add32 (pt_index st) 1\<rparr>))"

text \<open>The loop over the events, up to a zero word.\<close>

fun time_loop :: "bool \<Rightarrow> (u64 \<Rightarrow> byte) \<Rightarrow> nat \<Rightarrow> u64 \<Rightarrow> pmu_totals \<Rightarrow> pmu_totals res" where
  "time_loop all_info ram 0 pCurrent st = Inl Diverged"
| "time_loop all_info ram (Suc n) pCurrent st = (if load_u32 pCurrent ram = 0 then Inr st
    else bind_res (count_event all_info (event_at ram pCurrent) st) (time_loop all_info ram n (pCurrent + 16)))"

text \<open>The product and the first sum are computed in 32 bits.\<close>

definition p_duration :: "pmu_totals \<Rightarrow> u64" where
  "p_duration st = (if pt_wrap_cnt st \<noteq> 0
     then add64 (sub64 (add32 (mul32 0xFFFFFFFF (sub32 (pt_wrap_cnt st) 1)) 0xFFFFFFFF) (pt_des_start st)) (pt_des_end st)
     else sub64 (pt_des_end st) (pt_des_start st))"

definition start_totals :: "des_element list \<Rightarrow> pmu_totals" where
  "start_totals els = \<lparr>pt_des_start = 0, pt_des_end = 0, pt_tdma_total = 0, pt_tiu_total = 0, pt_tdma_cnt = 0, pt_tiu_cnt = 0, pt_index = 0,
     pt_wrap_cnt = 0, pt_load_bytes = 0, pt_store_bytes = 0, pt_previous = (0, 0, 0), pt_elements = els\<rparr>"

section \<open>Descriptors of the events\<close>

text \<open>The description of a transfer.\<close>

definition tdma_des_fill_str :: "des_element \<Rightarrow> des_element" where
  "tdma_des_fill_str el =
    (let tmpStr = (if pe_type (de_event el) = TPU_PMUTYPE_TDMALOAD then ''Load''
                   else if pe_type (de_event el) = TPU_PMUTYPE_TDMASTORE then ''Store''
                   else if pe_type (de_event el) = TPU_PMUTYPE_TDMAMOVE then ''Move'' else '''');
         str1 = (if td_compress_en (de_tdmaReg el) then tmpStr @ '' '' @ ''Compression'' else tmpStr)
     in el\<lparr>de_typeStr := (if td_sys_dtype (de_tdmaReg el) then ''TDMA Matrix'' else ''TDMA Tensor'') @ '' '' @ str1\<rparr>)"

text \<open>The description of an operation of the TIU; \<^const>\<open>None\<close> leaves the field as it is.\<close>

definition bf16 :: "tiu_reg \<Rightarrow> string \<Rightarrow> string" where
  "bf16 r name = (if ti_opd_typ r then ''TIU BF16 '' else ''TIU '') @ name"

definition pool_name :: "tiu_reg \<Rightarrow> string option" where
  "pool_name r =
    (if ti_tsk_eu_typ r = 0 then Some (bf16 r ''Max Pooling'')
     else if ti_tsk_eu_typ r = 1 then Some (bf16 r ''Average Pooling'')
     else if ti_tsk_eu_typ r = 2 then Some (if \<not> ti_opt_chl_quan r then bf16 r ''Depthwise Convolution'' else ''TIU Depthwise PerChannel Convolution'')
     else if ti_tsk_eu_typ r = 3 then Some (bf16 r ''Min Pooling'')
     else None)"

definition arith_name :: "tiu_reg \<Rightarrow> string option" where
  "arith_name r =
    (if ti_tsk_eu_typ r = 0 then Some (if \<not> ti_opt_chl_quan r then bf16 r ''Element-wise Mul'' else ''TIU Element-wise Mul(QDM)'')
     else if ti_tsk_eu_typ r = 1 then Some (bf16 r ''Element-wise Mac'')
     else if ti_tsk_eu_typ r = 2 then Some (bf16 r ''Element-wise Add'')
     else if ti_tsk_eu_typ r = 3 then Some (bf16 r ''Element-wise Sub'')
     else if ti_tsk_eu_typ r = 4 then Some (bf16 r ''Element-wise Max'')
     else if ti_tsk_eu_typ r = 5 then Some (bf16 r ''Element-wise Min'')
     else if ti_tsk_eu_typ r = 6 then Some ''TIU Element-wise Shift''
     else if ti_tsk_eu_typ r = 7 then Some ''TIU Element-wise AND''
     else if ti_tsk_eu_typ r = 8 then Some ''TIU Element-wise OR''
     else if ti_tsk_eu_typ r = 9 then Some ''TIU Element-wise XOR''
     else if ti_tsk_eu_typ r = 10 then Some (bf16 r ''Element-wise Copy'')
     else if ti_tsk_eu_typ r = 11 then Some (bf16 r ''Element-wise Ge'')
     else if ti_tsk_eu_typ r = 12 then Some ''TIU Lookup Table''
     else None)"

definition fc_name :: "tiu_reg \<Rightarrow> string" where
  "fc_name r = (if \<not> ti_opt_chl_quan r then bf16 r ''Matrix Multiplication'' else ''TIU PerChannel Matrix Multiplication'')"

definition tiu_name :: "pmu_env \<Rightarrow> tiu_reg \<Rightarrow> string option" where
  "tiu_name P r =
    (if ti_tsk_typ r = pm_conv P then Some (if \<not> ti_opt_chl_quan r then bf16 r ''Convolution'' else ''TIU PerChannel Convolution'')
     else if ti_tsk_typ r = pm_depthwise_pool P then pool_name r
     else if ti_tsk_typ r = pm_fc P then Some (fc_name r)
     else if ti_tsk_typ r = pm_tensor_arith P then arith_name r
     else None)"

text \<open>The same switch in \<^verbatim>\<open>soc/182x/tpu_pmu.cpp\<close>, where the case of pooling has no \<^verbatim>\<open>break\<close>.\<close>

definition tiu_name_182x :: "pmu_env \<Rightarrow> tiu_reg \<Rightarrow> string option" where
  "tiu_name_182x P r =
    (if ti_tsk_typ r = pm_conv P then Some (if \<not> ti_opt_chl_quan r then bf16 r ''Convolution'' else ''TIU PerChannel Convolution'')
     else if ti_tsk_typ r = pm_depthwise_pool P \<or> ti_tsk_typ r = pm_fc P then Some (fc_name r)
     else if ti_tsk_typ r = pm_tensor_arith P then arith_name r
     else None)"

definition bytes_at :: "(u64 \<Rightarrow> byte) \<Rightarrow> u64 \<Rightarrow> nat \<Rightarrow> byte list" where
  "bytes_at ram a n = map (\<lambda>j. ram (a + j)) [0..<n]"

text \<open>The first and the last sixteen bytes of a recorded command of the TIU are swapped back.\<close>

definition reorder_back_tiu_cmdbuf_reg :: "byte list \<Rightarrow> byte list" where
  "reorder_back_tiu_cmdbuf_reg cmdbuf = (let n = length cmdbuf in
     (let c1 = take (n - 16) cmdbuf @ take 16 cmdbuf in take 16 (drop (n - 16) cmdbuf) @ drop 16 c1))"

text \<open>The register of descriptor \<open>i\<close>; the offset is computed in 32 bits.\<close>

definition tdma_reg_at :: "pmu_env \<Rightarrow> (u64 \<Rightarrow> byte) \<Rightarrow> u64 \<Rightarrow> u64 \<Rightarrow> nat \<Rightarrow> tdma_reg" where
  "tdma_reg_at P ram v_dma_buf tdma_offset i = pm_parse_tdma_reg P (bytes_at ram (v_dma_buf + (tdma_offset + pm_tdma_reg_bytes P * i) mod M32) (pm_tdma_reg_bytes P))"

definition tiu_reg_at :: "pmu_env \<Rightarrow> (u64 \<Rightarrow> byte) \<Rightarrow> u64 \<Rightarrow> u64 \<Rightarrow> nat \<Rightarrow> tiu_reg" where
  "tiu_reg_at P ram v_dma_buf tiu_offset i = pm_parse_tiu_reg P
     (reorder_back_tiu_cmdbuf_reg (bytes_at ram (v_dma_buf + (tiu_offset + pm_bd_reg_bytes P * i) mod M32) (pm_bd_reg_bytes P)))"

text \<open>The first descriptor from \<open>start\<close> on that satisfies a test.\<close>

definition search :: "(nat \<Rightarrow> bool) \<Rightarrow> nat \<Rightarrow> nat \<Rightarrow> nat option" where
  "search f start n = List.find f [start..<n]"

record fill_state =
  fi_tdma :: nat
  fi_tiu :: nat
  fi_previous :: "nat \<times> u32 \<times> u32"
  fi_elements :: "des_element list"

definition fill_element :: "pmu_env \<Rightarrow> (nat \<Rightarrow> tdma_reg) \<Rightarrow> nat \<Rightarrow> (nat \<Rightarrow> tiu_reg) \<Rightarrow> nat \<Rightarrow> nat \<Rightarrow> fill_state \<Rightarrow> fill_state res" where
  "fill_element P tdma tdma_cnt tiu tiu_cnt index st =
    (let el = fi_elements st ! index; e = de_event el in
     if pe_type e \<noteq> TPU_PMUTYPE_TIU then
       if event_key e \<noteq> fi_previous st then
         (case search (\<lambda>i. pe_desID e = td_cmd_id (tdma i)) (fi_tdma st) tdma_cnt of
            None \<Rightarrow> Inr st
          | Some i \<Rightarrow> Inr (st\<lparr>fi_elements := (fi_elements st)[index := tdma_des_fill_str (el\<lparr>de_tdmaReg := tdma i\<rparr>)],
                             fi_tdma := i + 1, fi_previous := event_key e\<rparr>))
       else if index = 0 then Inl OutOfRange
       else Inr (st\<lparr>fi_elements := (fi_elements st)[index := tdma_des_fill_str (el\<lparr>de_tdmaReg := de_tdmaReg (fi_elements st ! (index - 1))\<rparr>)]\<rparr>)
     else
       (case search (\<lambda>i. pe_desID e = ti_cmd_id_tpu (tiu i)) (fi_tiu st) tiu_cnt of
          None \<Rightarrow> Inr st
        | Some i \<Rightarrow> Inr (st\<lparr>fi_elements := (fi_elements st)[index := el\<lparr>de_tiuReg := tiu i,
                              de_typeStr := (case tiu_name P (tiu i) of None \<Rightarrow> de_typeStr el | Some s \<Rightarrow> s)\<rparr>],
                           fi_tiu := i + 1\<rparr>)))"

text \<open>The loop over \<^verbatim>\<open>p_element\<close> ends at an element of type zero; none before the end of the array is an access out of range.\<close>

fun fill_loop_pmu :: "pmu_env \<Rightarrow> (nat \<Rightarrow> tdma_reg) \<Rightarrow> nat \<Rightarrow> (nat \<Rightarrow> tiu_reg) \<Rightarrow> nat \<Rightarrow> nat \<Rightarrow> nat \<Rightarrow> fill_state \<Rightarrow> fill_state res" where
  "fill_loop_pmu P tdma tdma_cnt tiu tiu_cnt 0 index st = Inl OutOfRange"
| "fill_loop_pmu P tdma tdma_cnt tiu tiu_cnt (Suc n) index st = (if pe_type (de_event (fi_elements st ! index)) = 0 then Inr st
    else bind_res (fill_element P tdma tdma_cnt tiu tiu_cnt index st) (fill_loop_pmu P tdma tdma_cnt tiu tiu_cnt n (index + 1)))"

definition tpu_pmu_fill_cmdbuf :: "pmu_env \<Rightarrow> (u64 \<Rightarrow> byte) \<Rightarrow> u64 \<Rightarrow> des_element list \<Rightarrow> des_element list res" where
  "tpu_pmu_fill_cmdbuf P ram v_dma_buf els =
    (let desc = v_dma_buf + SIZEOF_DMA_HDR;
         tiu_cnt = load_u32 (desc + 4) ram; tdma_cnt = load_u32 (desc + 8) ram;
         tiu_offset = load_u32 (desc + 20) ram; tdma_offset = load_u32 (desc + 24) ram in
     bind_res (fill_loop_pmu P (tdma_reg_at P ram v_dma_buf tdma_offset) tdma_cnt (tiu_reg_at P ram v_dma_buf tiu_offset) tiu_cnt (length els) 0
        \<lparr>fi_tdma = 0, fi_tiu = 0, fi_previous = (0, 0, 0), fi_elements = els\<rparr>) (\<lambda>st. Inr (fi_elements st)))"

section \<open>Layers\<close>

definition layer_of :: "des_element \<Rightarrow> nat" where
  "layer_of el = (if pe_type (de_event el) = TPU_PMUTYPE_TIU then ti_layer_info (de_tiuReg el) else td_layer_ID (de_tdmaReg el))"

definition open_layer :: "des_element \<Rightarrow> layer_element \<Rightarrow> layer_element" where
  "open_layer el l = l\<lparr>le_last_desType := pe_type (de_event el), le_layerID := layer_of el, le_endTime := pe_endTime (de_event el),
     le_startTime := pe_startTime (de_event el), le_last_desID := pe_desID (de_event el)\<rparr>"

definition extend_layer :: "des_element \<Rightarrow> layer_element \<Rightarrow> layer_element" where
  "extend_layer el l = l\<lparr>le_endTime := (if pe_endTime (de_event el) > le_endTime l then pe_endTime (de_event el) else le_endTime l),
     le_last_desID := pe_desID (de_event el)\<rparr>"

text \<open>The time of an event goes to the counters of its type, its bursts to the bytes of the layer.\<close>

definition account :: "des_element \<Rightarrow> layer_element \<Rightarrow> layer_element" where
  "account el l =
    (let e = de_event el; d = sub32 (pe_endTime e) (pe_startTime e); base = td_src_base_reg_sel (de_tdmaReg el);
         l1 = (if pe_type e = TPU_PMUTYPE_TIU then l\<lparr>le_TIUTime := add32 (le_TIUTime l) d\<rparr>
               else if pe_type e = TPU_PMUTYPE_TDMALOAD then
                 (if base = 0 then l\<lparr>le_LoadNeuronTime := add32 (le_LoadNeuronTime l) d\<rparr>
                  else if base = 1 then l\<lparr>le_LoadWeightTime := add32 (le_LoadWeightTime l) d\<rparr> else l)
                 \<lparr>le_TDMATime := add32 (le_TDMATime l) d\<rparr>
               else if pe_type e = TPU_PMUTYPE_TDMASTORE then
                 (if base = 0 then l\<lparr>le_StoreNeuronTime := add32 (le_StoreNeuronTime l) d\<rparr> else l)\<lparr>le_TDMATime := add32 (le_TDMATime l) d\<rparr>
               else l)
     in l1\<lparr>le_byteCnt := add32 (le_byteCnt l1) (pe_eventCnt1 e * 16)\<rparr>)"

text \<open>The current layer, its place in \<^verbatim>\<open>p_layer\<close> and the array; a place behind the array is out of range.\<close>

definition layer_step :: "des_element \<Rightarrow> nat \<times> nat \<times> layer_element list \<Rightarrow> (nat \<times> nat \<times> layer_element list) res" where
  "layer_step el = (\<lambda>(curLayID, k, layers).
     let (cur, k', f) = (if curLayID = 0 then (layer_of el, k, open_layer el)
                         else if curLayID = layer_of el then (curLayID, k, extend_layer el)
                         else (layer_of el, k + 1, open_layer el))
     in if k' < length layers then Inr (cur, k', layers[k' := account el (f (layers ! k'))]) else Inl OutOfRange)"

fun layer_loop :: "des_element list \<Rightarrow> nat \<times> nat \<times> layer_element list \<Rightarrow> (nat \<times> nat \<times> layer_element list) res" where
  "layer_loop [] st = Inl OutOfRange"
| "layer_loop (el # els) st = (if pe_type (de_event el) = 0 then Inr st else bind_res (layer_step el st) (layer_loop els))"

definition tpu_pmu_getlayerInfo :: "des_element list \<Rightarrow> layer_element list \<Rightarrow> layer_element list res" where
  "tpu_pmu_getlayerInfo els layers = bind_res (layer_loop els (0, 0, layers)) (\<lambda>(_, _, layers'). Inr layers')"

section \<open>The whole dump\<close>

definition tpu_pmu_get_des_cnt :: "pmu_env \<Rightarrow> (u64 \<Rightarrow> byte) \<Rightarrow> u64 \<Rightarrow> u32" where
  "tpu_pmu_get_des_cnt P ram v_dma_buf =
    (let descs = map (\<lambda>i. v_dma_buf + SIZEOF_DMA_HDR + i * pm_desc_bytes P) [0..<load_u32 (v_dma_buf + 8) ram];
         tiu_cnt = foldl (\<lambda>n d. add32 n (load_u32 (d + 4) ram mod 2 ^ 16)) 0 descs;
         tdma_cnt = foldl (\<lambda>n d. add32 n (load_u32 (d + 8) ram mod 2 ^ 16)) 0 descs
     in add32 (add32 tiu_cnt tdma_cnt) tdma_cnt)"

text \<open>The counters that are printed and, when everything is wanted, the layers; \<open>fuel\<close> bounds the events.\<close>

definition tpu_pmu_time :: "pmu_env \<Rightarrow> nat \<Rightarrow> (u64 \<Rightarrow> byte) \<Rightarrow> u64 \<Rightarrow> bool \<Rightarrow> des_element list \<Rightarrow> layer_element list \<Rightarrow> (pmu_totals \<times> layer_element list) res" where
  "tpu_pmu_time P fuel ram v_dma_buf all_info els layers =
     bind_res (time_loop all_info ram fuel (v_dma_buf + load_u32 (v_dma_buf + 28) ram) (start_totals els)) (\<lambda>st.
     if all_info then
       bind_res (tpu_pmu_fill_cmdbuf P ram v_dma_buf (pt_elements st)) (\<lambda>els'.
       bind_res (tpu_pmu_getlayerInfo els' layers) (\<lambda>layers'. Inr (st\<lparr>pt_elements := els'\<rparr>, layers')))
     else Inr (st, layers))"

text \<open>
  \<^verbatim>\<open>malloc\<close> answers with an array of elements and one of layers, or nothing; nothing is allocated when only the
  totals are wanted.
\<close>

definition tpu_pmu_dump_main :: "pmu_env \<Rightarrow> nat \<Rightarrow> (u32 \<Rightarrow> (des_element list \<times> layer_element list) option) \<Rightarrow> bool \<Rightarrow> (u64 \<Rightarrow> byte) \<Rightarrow> u64 \<Rightarrow>
    (cvi_rc \<times> (pmu_totals \<times> layer_element list) option) res" where
  "tpu_pmu_dump_main P fuel malloc all_info ram v_dma_buf =
    (if load_u16 v_dma_buf ram \<noteq> TPU_DMABUF_HEADER_M then Inr (CVI_RC_FAILURE, None)
     else case (if all_info then malloc (tpu_pmu_get_des_cnt P ram v_dma_buf) else Some ([], [])) of
       None \<Rightarrow> Inr (CVI_RC_FAILURE, None)
     | Some (els, layers) \<Rightarrow> bind_res (tpu_pmu_time P fuel ram v_dma_buf all_info els layers) (\<lambda>r. Inr (CVI_RC_SUCCESS, Some r)))"

end
