(* ===== verification/PmuSpec.thy ===== *)
theory PmuSpec
  imports Pmu
begin

text \<open>
  Properties of the performance counters: the totals are sums over the events in the buffer, every transfer counted
  once; the layers are the runs of events of one layer; and what goes wrong when the time counter goes round or the
  arrays do not end with a zero.
\<close>

section \<open>Events in the buffer\<close>

definition pmu_buffer :: "(u64 \<Rightarrow> byte) \<Rightarrow> u64 \<Rightarrow> pmu_event list \<Rightarrow> bool" where
  "pmu_buffer ram a es \<longleftrightarrow> (\<forall>i<length es. load_u32 (a + 16 * i) ram \<noteq> 0 \<and> event_at ram (a + 16 * i) = es ! i) \<and> load_u32 (a + 16 * length es) ram = 0"

lemma pmu_buffer_Cons:
  "pmu_buffer ram a (e # es) \<longleftrightarrow> load_u32 a ram \<noteq> 0 \<and> event_at ram a = e \<and> pmu_buffer ram (a + 16) es"
  by (auto simp: pmu_buffer_def All_less_Suc2 add.assoc add.commute[of 16])

fun count_events :: "bool \<Rightarrow> pmu_event list \<Rightarrow> pmu_totals \<Rightarrow> pmu_totals res" where
  "count_events all_info [] st = Inr st"
| "count_events all_info (e # es) st = bind_res (count_event all_info e st) (count_events all_info es)"

lemma time_loop_events:
  "pmu_buffer ram a es \<Longrightarrow> length es < n \<Longrightarrow> time_loop all_info ram n a st = count_events all_info es st"
proof (induction es arbitrary: n a st)
  case Nil
  then show ?case by (cases n) (simp_all add: pmu_buffer_def)
next
  case (Cons e es)
  then obtain k where k: "n = Suc k" "length es < k" by (cases n) simp_all
  have b: "load_u32 a ram \<noteq> 0" "event_at ram a = e" "pmu_buffer ram (a + 16) es" using Cons.prems(1) by (simp_all add: pmu_buffer_Cons)
  show ?case using Cons.IH[OF b(3) k(2)] b(1,2) k(1) by (simp add: bind_res_def split: sum.splits)
qed

lemma count_events_append: "count_events all_info (xs @ ys) st = bind_res (count_events all_info xs st) (count_events all_info ys)"
  by (induction xs arbitrary: st) (simp_all add: bind_res_def split: sum.splits)

text \<open>An event of the hardware that did not span the end of the time counter.\<close>

definition event_ok :: "pmu_event \<Rightarrow> bool" where
  "event_ok e \<longleftrightarrow> 1 \<le> pe_type e \<and> pe_type e \<le> 4 \<and> pe_startTime e < pe_endTime e \<and> pe_endTime e < M32 \<and> pe_eventCnt1 e < 2 ^ 22"

abbreviation is_tiu_event :: "pmu_event \<Rightarrow> bool" where
  "is_tiu_event e \<equiv> pe_type e = TPU_PMUTYPE_TIU"

definition event_time :: "pmu_event \<Rightarrow> nat" where
  "event_time e = pe_endTime e - pe_startTime e"

definition tiu_time :: "pmu_event list \<Rightarrow> nat" where
  "tiu_time es = sum_list (map event_time (filter is_tiu_event es))"

text \<open>The transfers: equal neighbours, the two halves of a copy from memory to memory, are one.\<close>

definition transfers :: "pmu_event list \<Rightarrow> (nat \<times> u32 \<times> u32) list" where
  "transfers es = remdups_adj (map event_key (filter (\<lambda>e. \<not> is_tiu_event e) es))"

definition transfer_time :: "pmu_event list \<Rightarrow> nat" where
  "transfer_time es = sum_list (map (\<lambda>(_, s, e). e - s) (transfers es))"

definition bytes_of :: "nat \<Rightarrow> pmu_event list \<Rightarrow> nat" where
  "bytes_of ty es = sum_list (map (\<lambda>e. 16 * pe_eventCnt1 e) (filter (\<lambda>e. pe_type e = ty) es))"

section \<open>Totals\<close>

lemma remdups_adj_snoc: "remdups_adj (xs @ [x]) = (if xs \<noteq> [] \<and> last xs = x then remdups_adj xs else remdups_adj xs @ [x])"
proof (induction xs rule: remdups_adj.induct)
  case (3 a b xs)
  then show ?case by (cases "a = b") auto
qed auto

lemma transfers_snoc:
  "transfers (es @ [e]) = (if is_tiu_event e then transfers es
     else if filter (\<lambda>e. \<not> is_tiu_event e) es \<noteq> [] \<and> event_key (last (filter (\<lambda>e. \<not> is_tiu_event e) es)) = event_key e then transfers es
     else transfers es @ [event_key e])"
  by (auto simp: transfers_def remdups_adj_snoc last_map)

text \<open>The sums over at most \<open>n\<close> events stay below 64 bits.\<close>

lemma sum_list_bound: "(\<And>x. x \<in> set xs \<Longrightarrow> f x < c) \<Longrightarrow> sum_list (map f xs) \<le> length xs * c" for f :: "'a \<Rightarrow> nat"
proof (induction xs)
  case (Cons x xs)
  have "f x < c" "sum_list (map f xs) \<le> length xs * c" using Cons by simp_all
  then show ?case by simp
qed simp

lemma length_transfers: "length (transfers es) \<le> length es"
  unfolding transfers_def by (metis length_filter_le length_map order_trans remdups_adj_length)

lemma event_sums_bound:
  assumes "\<forall>e\<in>set es. event_ok e"
  shows "tiu_time es \<le> length es * M32" "transfer_time es \<le> length es * M32" "bytes_of ty es \<le> length es * M32"
proof -
  have "tiu_time es \<le> length (filter is_tiu_event es) * M32" unfolding tiu_time_def
    by (rule sum_list_bound) (use assms in \<open>auto simp: event_ok_def event_time_def\<close>)
  also have "\<dots> \<le> length es * M32" by simp
  finally show "tiu_time es \<le> length es * M32" .
  have "transfer_time es \<le> length (transfers es) * M32" unfolding transfer_time_def
    by (rule sum_list_bound) (use assms in \<open>auto simp: transfers_def event_ok_def event_key_def\<close>)
  also have "\<dots> \<le> length es * M32" using length_transfers by simp
  finally show "transfer_time es \<le> length es * M32" .
  have "bytes_of ty es \<le> length (filter (\<lambda>e. pe_type e = ty) es) * M32" unfolding bytes_of_def
    by (rule sum_list_bound) (use assms in \<open>auto simp: event_ok_def M32_def\<close>)
  also have "\<dots> \<le> length es * M32" by simp
  finally show "bytes_of ty es \<le> length es * M32" .
qed

definition totals_of :: "pmu_event list \<Rightarrow> pmu_totals \<Rightarrow> bool" where
  "totals_of es st \<longleftrightarrow> pt_tiu_total st = tiu_time es \<and> pt_tdma_total st = transfer_time es \<and> pt_wrap_cnt st = 0 \<and> pt_index st = length es \<and>
     pt_tiu_cnt st = length (filter is_tiu_event es) \<and> pt_tdma_cnt st = length (transfers es) \<and>
     pt_load_bytes st = bytes_of TPU_PMUTYPE_TDMALOAD es \<and> pt_store_bytes st = bytes_of TPU_PMUTYPE_TDMASTORE es \<and>
     (es \<noteq> [] \<longrightarrow> pt_des_start st = pe_startTime (hd es) \<and> pt_des_end st = pe_endTime (last es))"

text \<open>The state after the events \<open>es\<close>, with the array \<open>els\<close> filled as far as they go when everything is wanted.\<close>

definition last_transfer :: "pmu_event list \<Rightarrow> nat \<times> u32 \<times> u32" where
  "last_transfer es = (let ts = filter (\<lambda>e. \<not> is_tiu_event e) es in if ts = [] then (0, 0, 0) else event_key (last ts))"

definition pmu_inv :: "bool \<Rightarrow> des_element list \<Rightarrow> pmu_event list \<Rightarrow> pmu_totals \<Rightarrow> bool" where
  "pmu_inv all_info els es st \<longleftrightarrow> totals_of es st \<and> pt_previous st = last_transfer es \<and> length (pt_elements st) = length els \<and>
     (all_info \<longrightarrow> map de_event (take (length es) (pt_elements st)) = es \<and> drop (length es) (pt_elements st) = drop (length es) els)"

lemma sums_snoc:
  "tiu_time (es @ [e]) = tiu_time es + (if is_tiu_event e then event_time e else 0)"
  "bytes_of ty (es @ [e]) = bytes_of ty es + (if pe_type e = ty then 16 * pe_eventCnt1 e else 0)"
  "last_transfer (es @ [e]) = (if is_tiu_event e then last_transfer es else event_key e)"
  by (simp_all add: tiu_time_def bytes_of_def last_transfer_def Let_def)

text \<open>A transfer is new exactly when it differs from the one before it; the first always does.\<close>

lemma transfer_new:
  assumes "event_ok e" "\<not> is_tiu_event e"
  shows "transfers (es @ [e]) = (if event_key e \<noteq> last_transfer es then transfers es @ [event_key e] else transfers es)"
proof -
  have "event_key e \<noteq> (0, 0, 0)" using assms(1) by (auto simp: event_ok_def event_key_def)
  then show ?thesis using assms(2) by (auto simp: transfers_snoc last_transfer_def Let_def)
qed

lemma time_diff_plain: "s < e \<Longrightarrow> time_diff s e = e - s"
  by (simp add: time_diff_def)

lemma add64_small: "a + b < M64 \<Longrightarrow> add64 a b = a + b"
  by (simp add: add64_def)

lemma element_recorded:
  assumes "length xs = length els" "n < length els" "map de_event (take n xs) = es" "length es = n" "drop n xs = drop n els"
  shows "map de_event (take (Suc n) (xs[n := (xs ! n)\<lparr>de_event := e\<rparr>])) = es @ [e]" "drop (Suc n) (xs[n := (xs ! n)\<lparr>de_event := e\<rparr>]) = drop (Suc n) els"
proof -
  show "map de_event (take (Suc n) (xs[n := (xs ! n)\<lparr>de_event := e\<rparr>])) = es @ [e]"
    using assms by (simp add: take_Suc_conv_app_nth)
  have "drop (Suc n) xs = drop (Suc n) els" using arg_cong[OF assms(5), of "drop 1"] by simp
  then show "drop (Suc n) (xs[n := (xs ! n)\<lparr>de_event := e\<rparr>]) = drop (Suc n) els" by simp
qed

lemma count_event_inv:
  assumes "pmu_inv all_info els es st" "event_ok e" "\<forall>x\<in>set es. event_ok x" "length es + 1 < M32" "all_info \<longrightarrow> length es < length els"
  shows "\<exists>st'. count_event all_info e st = Inr st' \<and> pmu_inv all_info els (es @ [e]) st'"
proof -
  have ok: "\<forall>x\<in>set (es @ [e]). event_ok x" using assms(2,3) by simp
  have "length (es @ [e]) * M32 < M64" using assms(4) by (simp add: M32_def M64_def)
  then have b: "tiu_time (es @ [e]) < M64" "transfer_time (es @ [e]) < M64" "bytes_of ty (es @ [e]) < M64" for ty
    using event_sums_bound[OF ok] by (meson le_less_trans)+
  have e: "1 \<le> pe_type e" "pe_type e \<le> 4" "pe_startTime e < pe_endTime e" using assms(2) by (simp_all add: event_ok_def)
  have t: "pt_tiu_total st = tiu_time es" "pt_tdma_total st = transfer_time es" "pt_wrap_cnt st = 0" "pt_index st = length es"
    "pt_tiu_cnt st = length (filter is_tiu_event es)" "pt_tdma_cnt st = length (transfers es)" "pt_load_bytes st = bytes_of TPU_PMUTYPE_TDMALOAD es"
    "pt_store_bytes st = bytes_of TPU_PMUTYPE_TDMASTORE es" "es \<noteq> [] \<longrightarrow> pt_des_start st = pe_startTime (hd es)" "pt_previous st = last_transfer es"
    and el: "length (pt_elements st) = length els" "all_info \<longrightarrow> map de_event (take (length es) (pt_elements st)) = es \<and> drop (length es) (pt_elements st) = drop (length es) els"
    using assms(1) by (simp_all add: pmu_inv_def totals_of_def)
  define els' where "els' = (if all_info then (pt_elements st)[length es := (pt_elements st ! length es)\<lparr>de_event := e\<rparr>] else pt_elements st)"
  have els: "length els' = length els" "all_info \<longrightarrow> map de_event (take (Suc (length es)) els') = es @ [e] \<and> drop (Suc (length es)) els' = drop (Suc (length es)) els"
    using element_recorded[OF el(1), of "length es" es e] el assms(5) by (simp_all add: els'_def)
  define st1 where "st1 = (if es = [] then st\<lparr>pt_des_start := pe_startTime e, pt_des_end := pe_endTime e\<rparr> else st\<lparr>pt_des_end := pe_endTime e\<rparr>)\<lparr>pt_elements := els'\<rparr>"
  have "record_event all_info e (if pt_index st = 0 then st\<lparr>pt_des_start := pe_startTime e, pt_des_end := pe_endTime e\<rparr> else st\<lparr>pt_des_end := pe_endTime e\<rparr>) = Inr st1"
    using assms(5) el(1) by (auto simp: record_event_def st1_def els'_def t(4))
  then have c: "count_event all_info e st = Inr (let st2 = (if is_tiu_event e then count_tiu e st1 else count_tdma e st1) in st2\<lparr>pt_index := add32 (pt_index st2) 1\<rparr>)"
    using e by (simp add: count_event_def pmu_types bind_res_def Let_def)
  have "length (filter is_tiu_event es) \<le> length es" "length (transfers es) \<le> length es" using length_transfers by simp_all
  then have len: "length (filter is_tiu_event es) + 1 < M32" "length (transfers es) + 1 < M32" using assms(4) by linarith+
  have f: "pt_tiu_total st1 = tiu_time es" "pt_tdma_total st1 = transfer_time es" "pt_wrap_cnt st1 = 0" "pt_index st1 = length es"
    "pt_tiu_cnt st1 = length (filter is_tiu_event es)" "pt_tdma_cnt st1 = length (transfers es)" "pt_load_bytes st1 = bytes_of TPU_PMUTYPE_TDMALOAD es"
    "pt_store_bytes st1 = bytes_of TPU_PMUTYPE_TDMASTORE es" "pt_previous st1 = last_transfer es" "pt_elements st1 = els'"
    "pt_des_start st1 = pe_startTime (hd (es @ [e]))" "pt_des_end st1 = pe_endTime e"
    using t by (simp_all add: st1_def)
  show ?thesis
  proof (cases "is_tiu_event e")
    case True
    have "tiu_time es + event_time e < M64" using b(1) True by (simp add: sums_snoc)
    moreover have "transfers (es @ [e]) = transfers es" using True by (simp add: transfers_snoc)
    moreover have "TPU_PMUTYPE_TIU \<noteq> TPU_PMUTYPE_TDMALOAD" "TPU_PMUTYPE_TIU \<noteq> TPU_PMUTYPE_TDMASTORE" by (simp_all add: pmu_types)
    ultimately show ?thesis using True c e len assms(4) els
      by (simp add: count_tiu_def f pmu_inv_def totals_of_def sums_snoc transfer_time_def time_diff_plain event_time_def add64_small add32_def)
  next
    case False
    let ?new = "event_key e \<noteq> last_transfer es"
    have tr: "transfers (es @ [e]) = (if ?new then transfers es @ [event_key e] else transfers es)" by (rule transfer_new[OF assms(2) False])
    then have "?new \<Longrightarrow> transfer_time es + (pe_endTime e - pe_startTime e) < M64" using b(2) by (simp add: transfer_time_def event_key_def)
    moreover have "pe_type e = ty \<Longrightarrow> bytes_of ty es + 16 * pe_eventCnt1 e < M64" for ty using b(3)[of ty] by (simp add: sums_snoc)
    moreover have "TPU_PMUTYPE_TDMALOAD \<noteq> TPU_PMUTYPE_TDMASTORE" by (simp add: pmu_types)
    moreover have "transfer_time (es @ [e]) = transfer_time es + (if ?new then pe_endTime e - pe_startTime e else 0)"
      using tr by (simp add: transfer_time_def event_key_def)
    ultimately show ?thesis using False e len assms(4) els unfolding c
      by (cases ?new; cases "pe_type e = TPU_PMUTYPE_TDMALOAD"; cases "pe_type e = TPU_PMUTYPE_TDMASTORE")
         (simp_all add: count_tdma_def f pmu_inv_def totals_of_def sums_snoc tr time_diff_plain add64_small add32_def Let_def)
  qed
qed

lemma count_events_inv:
  assumes "\<forall>e\<in>set es. event_ok e" "length es < M32" "all_info \<longrightarrow> length es \<le> length els"
  shows "\<exists>st. count_events all_info es (start_totals els) = Inr st \<and> pmu_inv all_info els es st"
  using assms
proof (induction es rule: rev_induct)
  case Nil
  then show ?case
    by (simp add: pmu_inv_def totals_of_def start_totals_def tiu_time_def transfer_time_def transfers_def bytes_of_def last_transfer_def)
next
  case (snoc e es)
  then obtain st where "count_events all_info es (start_totals els) = Inr st" "pmu_inv all_info els es st" by auto
  with count_event_inv[of all_info els es st e] snoc.prems show ?case by (auto simp: count_events_append bind_res_def)
qed

section \<open>Matching with descriptors\<close>

text \<open>The events are left as they are; only the first element could have no element before it, and it never needs one.\<close>

lemma same_events: "j < length xs \<Longrightarrow> de_event x = de_event (xs ! j) \<Longrightarrow> map de_event (xs[j := x]) = map de_event xs"
  by (simp add: map_update) (metis list_update_id nth_map)

lemma fill_element_events:
  assumes "index < length (fi_elements st)" "index = 0 \<longrightarrow> event_key (de_event (fi_elements st ! 0)) \<noteq> fi_previous st"
  shows "\<exists>st'. fill_element P tdma tdma_cnt tiu tiu_cnt index st = Inr st' \<and> map de_event (fi_elements st') = map de_event (fi_elements st)"
proof -
  have f: "de_event (tdma_des_fill_str x) = de_event x" for x by (simp add: tdma_des_fill_str_def Let_def)
  show ?thesis using assms by (auto simp: fill_element_def Let_def same_events f split: option.split)
qed

lemma fill_loop_events:
  assumes "k < length (fi_elements st)" "pe_type (de_event (fi_elements st ! k)) = 0" "index \<le> k" "k - index < n"
    and "index = 0 \<longrightarrow> pe_type (de_event (fi_elements st ! 0)) = 0 \<or> event_key (de_event (fi_elements st ! 0)) \<noteq> fi_previous st"
  shows "\<exists>st'. fill_loop_pmu P tdma tdma_cnt tiu tiu_cnt n index st = Inr st' \<and> map de_event (fi_elements st') = map de_event (fi_elements st)"
  using assms
proof (induction n arbitrary: index st)
  case (Suc n)
  show ?case
  proof (cases "pe_type (de_event (fi_elements st ! index)) = 0")
    case False
    then have lt: "index < k" using Suc.prems(2,3) by (cases "index = k") auto
    obtain st' where st': "fill_element P tdma tdma_cnt tiu tiu_cnt index st = Inr st'" "map de_event (fi_elements st') = map de_event (fi_elements st)"
      using fill_element_events[of index st P tdma tdma_cnt tiu tiu_cnt] lt Suc.prems(1,5) False by fastforce
    then have same: "length (fi_elements st') = length (fi_elements st)" "de_event (fi_elements st' ! k) = de_event (fi_elements st ! k)"
      using Suc.prems(1) by (metis length_map, metis length_map nth_map)
    have "k - (index + 1) < n" using Suc.prems(4) lt by linarith
    with Suc.IH[of st' "index + 1"] obtain st'' where
      "fill_loop_pmu P tdma tdma_cnt tiu tiu_cnt n (index + 1) st' = Inr st''" "map de_event (fi_elements st'') = map de_event (fi_elements st')"
      using same Suc.prems lt by auto
    then show ?thesis using False st' by (simp add: bind_res_def)
  qed simp
qed simp

lemma fill_cmdbuf_events:
  assumes "k < length els" "pe_type (de_event (els ! k)) = 0" "0 < k \<longrightarrow> event_key (de_event (els ! 0)) \<noteq> (0, 0, 0)"
  shows "\<exists>els'. tpu_pmu_fill_cmdbuf P ram v els = Inr els' \<and> map de_event els' = map de_event els"
proof -
  let ?st = "\<lparr>fi_tdma = 0, fi_tiu = 0, fi_previous = (0, 0, 0), fi_elements = els\<rparr>"
  have "0 = (0::nat) \<longrightarrow> pe_type (de_event (fi_elements ?st ! 0)) = 0 \<or> event_key (de_event (fi_elements ?st ! 0)) \<noteq> fi_previous ?st"
    using assms(2,3) by (cases k) auto
  then have "\<exists>st'. fill_loop_pmu P tdma tdma_cnt tiu tiu_cnt (length els) 0 ?st = Inr st' \<and> map de_event (fi_elements st') = map de_event els" for tdma tdma_cnt tiu tiu_cnt
    using fill_loop_events[of k ?st 0 "length els"] assms(1,2) by simp
  then obtain st' where "fill_loop_pmu P (tdma_reg_at P ram v (load_u32 (v + SIZEOF_DMA_HDR + 24) ram)) (load_u32 (v + SIZEOF_DMA_HDR + 8) ram)
      (tiu_reg_at P ram v (load_u32 (v + SIZEOF_DMA_HDR + 20) ram)) (load_u32 (v + SIZEOF_DMA_HDR + 4) ram) (length els) 0 ?st = Inr st'"
    "map de_event (fi_elements st') = map de_event els" by blast
  then show ?thesis by (simp add: tpu_pmu_fill_cmdbuf_def bind_res_def Let_def)
qed

section \<open>Layers\<close>

text \<open>The runs of elements of one layer.\<close>

definition one_layer :: "des_element list \<Rightarrow> bool" where
  "one_layer r \<longleftrightarrow> r \<noteq> [] \<and> (\<forall>el\<in>set r. layer_of el = layer_of (hd r))"

definition layer_runs :: "des_element list list \<Rightarrow> des_element list \<Rightarrow> bool" where
  "layer_runs rs els \<longleftrightarrow> concat rs = els \<and> (\<forall>r\<in>set rs. one_layer r) \<and> successively (\<lambda>r r'. layer_of (hd r) \<noteq> layer_of (hd r')) rs"

definition element_time :: "des_element \<Rightarrow> nat" where
  "element_time el = sub32 (pe_endTime (de_event el)) (pe_startTime (de_event el))"

definition time_if :: "(nat \<Rightarrow> nat \<Rightarrow> bool) \<Rightarrow> des_element list \<Rightarrow> nat" where
  "time_if f r = sum_list (map (\<lambda>el. if f (pe_type (de_event el)) (td_src_base_reg_sel (de_tdmaReg el)) then element_time el else 0) r) mod M32"

text \<open>What the entry of a layer holds for its run: when it started and ended, and the sums by kind of event.\<close>

definition summary_of :: "des_element list \<Rightarrow> layer_element \<Rightarrow> bool" where
  "summary_of r l \<longleftrightarrow> le_layerID l = layer_of (hd r) \<and> le_startTime l = pe_startTime (de_event (hd r)) \<and>
     le_endTime l = Max (set (map (\<lambda>el. pe_endTime (de_event el)) r)) \<and> le_last_desID l = pe_desID (de_event (last r)) \<and>
     le_TIUTime l = time_if (\<lambda>ty base. ty = TPU_PMUTYPE_TIU) r \<and>
     le_LoadNeuronTime l = time_if (\<lambda>ty base. ty = TPU_PMUTYPE_TDMALOAD \<and> base = 0) r \<and>
     le_LoadWeightTime l = time_if (\<lambda>ty base. ty = TPU_PMUTYPE_TDMALOAD \<and> base = 1) r \<and>
     le_StoreNeuronTime l = time_if (\<lambda>ty base. ty = TPU_PMUTYPE_TDMASTORE \<and> base = 0) r \<and>
     le_TDMATime l = time_if (\<lambda>ty base. ty = TPU_PMUTYPE_TDMALOAD \<or> ty = TPU_PMUTYPE_TDMASTORE) r \<and>
     le_byteCnt l = sum_list (map (\<lambda>el. pe_eventCnt1 (de_event el) * 16) r) mod M32"

definition cleared :: "layer_element \<Rightarrow> bool" where
  "cleared l \<longleftrightarrow> le_TIUTime l = 0 \<and> le_LoadNeuronTime l = 0 \<and> le_LoadWeightTime l = 0 \<and> le_StoreNeuronTime l = 0 \<and> le_TDMATime l = 0 \<and> le_byteCnt l = 0"

lemma time_if_snoc:
  "time_if f (r @ [el]) = (if f (pe_type (de_event el)) (td_src_base_reg_sel (de_tdmaReg el)) then add32 (time_if f r) (element_time el) else time_if f r)"
  "time_if f [] = 0"
  by (simp_all add: time_if_def add32_def mod_simps)

lemma account_fields:
  "le_layerID (account el l) = le_layerID l" "le_startTime (account el l) = le_startTime l" "le_endTime (account el l) = le_endTime l"
  "le_last_desID (account el l) = le_last_desID l" "le_byteCnt (account el l) = add32 (le_byteCnt l) (pe_eventCnt1 (de_event el) * 16)"
  "le_TIUTime (account el l) = (if pe_type (de_event el) = TPU_PMUTYPE_TIU then add32 (le_TIUTime l) (element_time el) else le_TIUTime l)"
  "le_LoadNeuronTime (account el l) = (if pe_type (de_event el) = TPU_PMUTYPE_TDMALOAD \<and> td_src_base_reg_sel (de_tdmaReg el) = 0
     then add32 (le_LoadNeuronTime l) (element_time el) else le_LoadNeuronTime l)"
  "le_LoadWeightTime (account el l) = (if pe_type (de_event el) = TPU_PMUTYPE_TDMALOAD \<and> td_src_base_reg_sel (de_tdmaReg el) = 1
     then add32 (le_LoadWeightTime l) (element_time el) else le_LoadWeightTime l)"
  "le_StoreNeuronTime (account el l) = (if pe_type (de_event el) = TPU_PMUTYPE_TDMASTORE \<and> td_src_base_reg_sel (de_tdmaReg el) = 0
     then add32 (le_StoreNeuronTime l) (element_time el) else le_StoreNeuronTime l)"
  "le_TDMATime (account el l) = (if pe_type (de_event el) = TPU_PMUTYPE_TDMALOAD \<or> pe_type (de_event el) = TPU_PMUTYPE_TDMASTORE
     then add32 (le_TDMATime l) (element_time el) else le_TDMATime l)"
  by (simp_all add: account_def element_time_def pmu_types Let_def)

lemma summary_single: "cleared l \<Longrightarrow> summary_of [el] (account el (open_layer el l))"
  using time_if_snoc(1)[of _ "[]" el] by (simp add: summary_of_def account_fields open_layer_def cleared_def add32_def time_if_snoc(2))

lemma summary_snoc:
  "summary_of r l \<Longrightarrow> r \<noteq> [] \<Longrightarrow> summary_of (r @ [el]) (account el (extend_layer el l))"
proof -
  assume s: "summary_of r l" and r: "r \<noteq> []"
  let ?f = "\<lambda>x. pe_endTime (de_event x)"
  have "Max (insert (?f el) (?f ` set r)) = (if Max (?f ` set r) < ?f el then ?f el else Max (?f ` set r))" using r by (simp add: max_def not_less del: Max_less_iff)
  then show "summary_of (r @ [el]) (account el (extend_layer el l))"
    using s r by (simp add: summary_of_def account_fields extend_layer_def time_if_snoc add32_def mod_simps del: Max_less_iff Max_insert)
qed

lemma one_layer_simps: "one_layer [el]" "one_layer r \<Longrightarrow> layer_of (hd r) = layer_of el \<Longrightarrow> one_layer (r @ [el])" "one_layer r \<Longrightarrow> r \<noteq> []"
  by (auto simp: one_layer_def)

lemma layer_runs_snoc_new:
  "layer_runs rs els \<Longrightarrow> rs \<noteq> [] \<longrightarrow> layer_of (hd (last rs)) \<noteq> layer_of el \<Longrightarrow> layer_runs (rs @ [[el]]) (els @ [el])"
  by (auto simp: layer_runs_def successively_append_iff one_layer_simps)

lemma layer_runs_snoc_same:
  assumes "layer_runs rs els" "rs \<noteq> []" "layer_of (hd (last rs)) = layer_of el"
  shows "layer_runs (butlast rs @ [last rs @ [el]]) (els @ [el])"
proof -
  obtain bs l where rs: "rs = bs @ [l]" using assms(2) by (cases rs rule: rev_cases) auto
  have l: "one_layer l" "l \<noteq> []" using assms(1) one_layer_simps(3) by (auto simp: layer_runs_def rs)
  moreover have "one_layer (l @ [el])" using one_layer_simps(2)[OF l(1)] assms(3) by (simp add: rs)
  ultimately show ?thesis using assms(1) by (auto simp: layer_runs_def rs successively_append_iff)
qed

text \<open>The state of the loop after the elements \<open>els\<close>, all of which have a layer.\<close>

definition layers_inv :: "layer_element list \<Rightarrow> des_element list \<Rightarrow> nat \<times> nat \<times> layer_element list \<Rightarrow> bool" where
  "layers_inv layers0 els = (\<lambda>(cur, k, layers). \<exists>rs. layer_runs rs els \<and> length layers = length layers0 \<and>
     (if els = [] then cur = 0 \<and> k = 0 else rs \<noteq> [] \<and> cur = layer_of (hd (last rs)) \<and> k = length rs - 1) \<and>
     length rs \<le> length layers \<and> (\<forall>i<length rs. summary_of (rs ! i) (layers ! i)) \<and> drop (length rs) layers = drop (length rs) layers0)"

lemma length_concat_ge: "\<forall>r\<in>set rs. r \<noteq> [] \<Longrightarrow> length rs \<le> length (concat rs)"
proof (induction rs)
  case (Cons r rs)
  then have "1 \<le> length r" "length rs \<le> length (concat rs)" by (simp_all add: Suc_le_eq)
  then show ?case by simp
qed simp

lemma layer_step_inv:
  assumes "layers_inv layers0 els st" "\<forall>x\<in>set (els @ [el]). layer_of x \<noteq> 0" "\<forall>l\<in>set layers0. cleared l" "length els < length layers0"
  shows "\<exists>st'. layer_step el st = Inr st' \<and> layers_inv layers0 (els @ [el]) st'"
proof -
  obtain cur k layers where st: "st = (cur, k, layers)" by (cases st)
  obtain rs where rs: "layer_runs rs els" "length layers = length layers0"
    "if els = [] then cur = 0 \<and> k = 0 else rs \<noteq> [] \<and> cur = layer_of (hd (last rs)) \<and> k = length rs - 1" "length rs \<le> length layers"
    "\<forall>i<length rs. summary_of (rs ! i) (layers ! i)" "drop (length rs) layers = drop (length rs) layers0"
    using assms(1) by (auto simp: layers_inv_def st)
  have ne: "\<forall>r\<in>set rs. r \<noteq> []" and cc: "concat rs = els" using rs(1) one_layer_simps(3) by (auto simp: layer_runs_def)
  have "length rs \<le> length (concat rs)" using ne by (rule length_concat_ge)
  then have room: "length rs < length layers0" using assms(4) cc by simp
  let ?new = "layers[length rs := account el (open_layer el (layers ! length rs))]"
  have new: "layers_inv layers0 (els @ [el]) (layer_of el, length rs, ?new)" if "rs \<noteq> [] \<longrightarrow> layer_of (hd (last rs)) \<noteq> layer_of el"
  proof -
    have "layers ! length rs = layers0 ! length rs" using arg_cong[OF rs(6), of hd] room rs(2) by (simp add: hd_drop_conv_nth)
    then have "summary_of [el] (?new ! length rs)" using assms(3) room rs(2) by (simp add: summary_single)
    then have "\<forall>i<length (rs @ [[el]]). summary_of ((rs @ [[el]]) ! i) (?new ! i)" using rs(5) room rs(2) by (auto simp: nth_append less_Suc_eq)
    moreover have "drop (Suc (length rs)) layers = drop (Suc (length rs)) layers0" using arg_cong[OF rs(6), of "drop 1"] by simp
    ultimately show ?thesis using layer_runs_snoc_new[OF rs(1) that] room rs(2) unfolding layers_inv_def
      by (auto intro!: exI[of _ "rs @ [[el]]"])
  qed
  let ?same = "layers[length rs - 1 := account el (extend_layer el (layers ! (length rs - 1)))]"
  have same: "layers_inv layers0 (els @ [el]) (layer_of el, length rs - 1, ?same)" if "rs \<noteq> []" "layer_of (hd (last rs)) = layer_of el"
  proof -
    let ?rs = "butlast rs @ [last rs @ [el]]"
    have l: "last rs \<noteq> []" "length rs - 1 < length layers" using ne that(1) rs(4) by (auto simp: Suc_le_eq length_greater_0_conv[symmetric] simp del: length_greater_0_conv)
    have "summary_of (last rs) (layers ! (length rs - 1))" using rs(5) that(1) by (simp add: last_conv_nth)
    then have "summary_of (last rs @ [el]) (?same ! (length rs - 1))" using summary_snoc[OF _ l(1)] l(2) by simp
    then have "\<forall>i<length ?rs. summary_of (?rs ! i) (?same ! i)" using rs(5) by (auto simp: nth_append nth_butlast less_Suc_eq)
    moreover have "drop (length rs) ?same = drop (length rs) layers0" using rs(6) that(1) by simp
    ultimately show ?thesis using layer_runs_snoc_same[OF rs(1) that] that rs(2,4) l(1) unfolding layers_inv_def
      by (auto intro!: exI[of _ ?rs])
  qed
  have nz: "layer_of el \<noteq> 0" using assms(2) by simp
  show ?thesis
  proof (cases "els = []")
    case True
    then have "rs = []" using ne cc by (cases rs) auto
    then show ?thesis using new rs(3) True room rs(2) by (auto simp: st layer_step_def)
  next
    case False
    then have r: "rs \<noteq> []" "cur = layer_of (hd (last rs))" "k = length rs - 1" using rs(3) by simp_all
    have "last rs \<in> set rs" using r(1) by simp
    then have "hd (last rs) \<in> set els" using ne unfolding cc[symmetric] set_concat by (intro UN_I[of "last rs"] hd_in_set) auto
    then have "cur \<noteq> 0" using assms(2) r(2) by simp
    then show ?thesis using new same r room rs(2) by (cases "cur = layer_of el") (auto simp: st layer_step_def Suc_diff_le)
  qed
qed

lemma layer_loop_inv:
  assumes "layers_inv layers0 pre st" "\<forall>x\<in>set (pre @ els). layer_of x \<noteq> 0" "\<forall>x\<in>set els. pe_type (de_event x) \<noteq> 0"
    and "\<forall>l\<in>set layers0. cleared l" "length (pre @ els) \<le> length layers0" "pe_type (de_event z) = 0"
  shows "\<exists>st'. layer_loop (els @ z # rest) st = Inr st' \<and> layers_inv layers0 (pre @ els) st'"
  using assms
proof (induction els arbitrary: pre st)
  case (Cons el els)
  obtain st1 where "layer_step el st = Inr st1" "layers_inv layers0 (pre @ [el]) st1"
    using layer_step_inv[OF Cons.prems(1) _ Cons.prems(4), of el] Cons.prems(2,5) by auto
  then show ?case using Cons.IH[of "pre @ [el]" st1] Cons.prems by (simp add: bind_res_def)
qed simp

section \<open>Where the counters go wrong\<close>

text \<open>A period that spans the end of the time counter is measured one tick short, and one of length zero as a whole turn.\<close>

lemma time_diff_wraps:
  "endTime < startTime \<Longrightarrow> startTime < M32 \<Longrightarrow> time_diff startTime endTime + 1 = M32 - startTime + endTime"
  "startTime < M32 \<Longrightarrow> time_diff startTime startTime = M32 - 1"
  by (auto simp: time_diff_def M32_def)

text \<open>However often the counter went round, the duration has room for one turn only.\<close>

lemma duration_one_turn:
  assumes "0 < pt_wrap_cnt st" "pt_wrap_cnt st < M32"
  shows "p_duration st = add64 (sub64 (M32 - pt_wrap_cnt st) (pt_des_start st)) (pt_des_end st)"
proof -
  obtain w where w: "pt_wrap_cnt st = Suc w" using assms(1) by (cases "pt_wrap_cnt st") auto
  have "add32 (mul32 0xFFFFFFFF (sub32 (Suc w) 1)) 0xFFFFFFFF = (0xFFFFFFFF * w + 0xFFFFFFFF) mod M32"
    by (simp add: add32_def mul32_def sub32_def mod_simps)
  also have "0xFFFFFFFF * w + 0xFFFFFFFF = M32 * w + (M32 - Suc w)" using assms(2) by (simp add: w M32_def)
  also have "\<dots> mod M32 = M32 - Suc w" by (simp add: M32_def)
  finally show ?thesis by (simp add: p_duration_def w)
qed

text \<open>The arrays come from \<^verbatim>\<open>malloc\<close> and no end is written to them; the loops run on into what follows the events.\<close>

lemma layer_loop_unterminated: "\<forall>el\<in>set els. pe_type (de_event el) \<noteq> 0 \<Longrightarrow> layer_loop els st = Inl OutOfRange"
proof (induction els arbitrary: st)
  case (Cons el els)
  show ?case
  proof (cases "layer_step el st")
    case (Inl f)
    then have "f = OutOfRange" by (auto simp: layer_step_def Let_def split: prod.splits if_splits)
    then show ?thesis using Cons.prems Inl by (simp add: bind_res_def)
  qed (use Cons in \<open>simp add: bind_res_def\<close>)
qed simp

text \<open>On cv182x pooling and depthwise convolution are shown as matrix multiplication.\<close>

lemma pooling_misnamed_182x:
  "ti_tsk_typ r = pm_depthwise_pool P \<Longrightarrow> pm_depthwise_pool P \<noteq> pm_conv P \<Longrightarrow> tiu_name_182x P r = Some (fc_name r)"
  by (simp add: tiu_name_182x_def)

section \<open>What the dump reports\<close>

text \<open>
  C20: for a buffer of events none of which spans the end of the time counter, the dump of the totals succeeds with
  the sum of the times of the TIU events, the sum of the times of the transfers, each counted once although a copy
  from memory to memory leaves two events, the bytes loaded and stored, and the duration from the start of the
  first event to the end of the last.
\<close>

theorem pmu_dump_totals:
  assumes "load_u16 v_dma_buf ram = TPU_DMABUF_HEADER_M" "pmu_buffer ram (v_dma_buf + load_u32 (v_dma_buf + 28) ram) es"
    and "\<forall>e\<in>set es. event_ok e" "length es < M32" "length es < fuel"
  shows "\<exists>st. tpu_pmu_dump_main P fuel malloc False ram v_dma_buf = Inr (CVI_RC_SUCCESS, Some (st, [])) \<and> totals_of es st \<and>
    (es \<noteq> [] \<and> pe_startTime (hd es) \<le> pe_endTime (last es) \<longrightarrow> p_duration st = pe_endTime (last es) - pe_startTime (hd es))"
proof -
  obtain st where "count_events False es (start_totals []) = Inr st" and t: "totals_of es st"
    using count_events_inv[OF assms(3,4), of False "[]"] by (auto simp: pmu_inv_def)
  then have "tpu_pmu_dump_main P fuel malloc False ram v_dma_buf = Inr (CVI_RC_SUCCESS, Some (st, []))"
    using time_loop_events[OF assms(2,5), of False "start_totals []"] assms(1) by (simp add: tpu_pmu_dump_main_def tpu_pmu_time_def bind_res_def)
  moreover have "p_duration st = pe_endTime (last es) - pe_startTime (hd es)" if "es \<noteq> []" "pe_startTime (hd es) \<le> pe_endTime (last es)"
    using that t by (simp add: p_duration_def totals_of_def sub64_def)
  ultimately show ?thesis using t by blast
qed

text \<open>A load of 48 bytes and an operation of the TIU.\<close>

definition demo_events :: "pmu_event list" where
  "demo_events = [\<lparr>pe_type = 1, pe_desID = 5, pe_eventCnt0 = 0, pe_eventCnt1 = 3, pe_endTime = 20, pe_startTime = 10\<rparr>,
     \<lparr>pe_type = 4, pe_desID = 7, pe_eventCnt0 = 0, pe_eventCnt1 = 0, pe_endTime = 50, pe_startTime = 15\<rparr>]"

definition demo_pmu_ram :: "u64 \<Rightarrow> byte" where
  "demo_pmu_ram a = (if a < 2 then 0xB5 else if a = 28 then 64 else if a < 64 then 0
     else if a < 96 then ([81, 0, 0, 0] @ [0, 12, 0, 0] @ [20, 0, 0, 0] @ [10, 0, 0, 0] @ [116, 0, 0, 0] @ [0, 0, 0, 0] @ [50, 0, 0, 0] @ [15, 0, 0, 0]) ! (a - 64)
     else 0)"

definition demo_pmu :: pmu_env where
  "demo_pmu = \<lparr>pm_parse_tdma_reg = (\<lambda>_. \<lparr>td_cmd_id = 5, td_layer_ID = 1, td_compress_en = False, td_sys_dtype = False, td_src_base_reg_sel = 0\<rparr>),
     pm_parse_tiu_reg = (\<lambda>_. \<lparr>ti_cmd_id_tpu = 7, ti_layer_info = 1, ti_tsk_typ = 0, ti_tsk_eu_typ = 0, ti_opd_typ = False, ti_opt_chl_quan = False\<rparr>),
     pm_bd_reg_bytes = 64, pm_tdma_reg_bytes = 64, pm_conv = 0, pm_depthwise_pool = 1, pm_fc = 2, pm_tensor_arith = 3, pm_desc_bytes = 56\<rparr>"

lemma demo_pmu_buffer: "pmu_buffer demo_pmu_ram 64 demo_events"
  by (simp add: pmu_buffer_def demo_events_def event_at_def load_u32_def demo_pmu_ram_def All_less_Suc Let_def)

theorem pmu_dump_totals_witness:
  "\<exists>st. tpu_pmu_dump_main demo_pmu 3 (\<lambda>_. None) False demo_pmu_ram 0 = Inr (CVI_RC_SUCCESS, Some (st, [])) \<and> pt_tiu_total st = 35 \<and> pt_tdma_total st = 10 \<and>
     pt_load_bytes st = 48 \<and> p_duration st = 40"
proof -
  have "load_u16 0 demo_pmu_ram = TPU_DMABUF_HEADER_M" "load_u32 28 demo_pmu_ram = 64"
    by (simp_all add: load_u16_def load_u32_def demo_pmu_ram_def TPU_DMABUF_HEADER_M_def)
  moreover have "\<forall>e\<in>set demo_events. event_ok e" "length demo_events < M32" "length demo_events < 3"
    by (simp_all add: demo_events_def event_ok_def M32_def)
  ultimately obtain st where st: "tpu_pmu_dump_main demo_pmu 3 (\<lambda>_. None) False demo_pmu_ram 0 = Inr (CVI_RC_SUCCESS, Some (st, []))"
    "totals_of demo_events st" "p_duration st = 40"
    using pmu_dump_totals[of 0 demo_pmu_ram demo_events 3 demo_pmu "\<lambda>_. None"] demo_pmu_buffer by (auto simp: demo_events_def)
  moreover have "tiu_time demo_events = 35" "transfer_time demo_events = 10" "bytes_of TPU_PMUTYPE_TDMALOAD demo_events = 48"
    by (simp_all add: tiu_time_def transfer_time_def transfers_def bytes_of_def demo_events_def event_time_def event_key_def pmu_types)
  ultimately show ?thesis by (auto simp: totals_of_def)
qed

text \<open>
  C27: when the array of events ends with a zero and the one of layers is cleared, the layers are the runs of
  neighbouring events of one layer: each entry has the layer, the first start and the latest end of its run, and for every kind of
  event the sum of the times, as 32-bit numbers, and nothing behind the last run is changed.
\<close>

theorem layers_by_runs:
  assumes "\<forall>el\<in>set evs. pe_type (de_event el) \<noteq> 0 \<and> layer_of el \<noteq> 0" "pe_type (de_event z) = 0"
    and "length evs \<le> length layers" "\<forall>l\<in>set layers. cleared l"
  shows "\<exists>rs layers'. tpu_pmu_getlayerInfo (evs @ z # rest) layers = Inr layers' \<and> layer_runs rs evs \<and> length rs \<le> length layers' \<and>
    (\<forall>i<length rs. summary_of (rs ! i) (layers' ! i)) \<and> drop (length rs) layers' = drop (length rs) layers"
proof -
  have "layers_inv layers [] (0, 0, layers)" by (auto simp: layers_inv_def layer_runs_def intro!: exI[of _ "[]"])
  from layer_loop_inv[OF this, of evs z rest] obtain st where "layer_loop (evs @ z # rest) (0, 0, layers) = Inr st" "layers_inv layers evs st"
    using assms by auto
  then show ?thesis by (cases st) (auto simp: tpu_pmu_getlayerInfo_def bind_res_def layers_inv_def)
qed

definition demo_element :: "nat \<Rightarrow> nat \<Rightarrow> u32 \<Rightarrow> u32 \<Rightarrow> des_element" where
  "demo_element ty layer s e = \<lparr>de_event = \<lparr>pe_type = ty, pe_desID = 1, pe_eventCnt0 = 0, pe_eventCnt1 = 2, pe_endTime = e, pe_startTime = s\<rparr>,
     de_tiuReg = \<lparr>ti_cmd_id_tpu = 1, ti_layer_info = layer, ti_tsk_typ = 0, ti_tsk_eu_typ = 0, ti_opd_typ = False, ti_opt_chl_quan = False\<rparr>,
     de_tdmaReg = \<lparr>td_cmd_id = 1, td_layer_ID = layer, td_compress_en = False, td_sys_dtype = False, td_src_base_reg_sel = 0\<rparr>, de_typeStr = []\<rparr>"

definition demo_layer :: layer_element where
  "demo_layer = \<lparr>le_layerID = 0, le_last_desType = 0, le_last_desID = 0, le_endTime = 0, le_startTime = 0, le_LoadNeuronTime = 0,
     le_LoadWeightTime = 0, le_StoreNeuronTime = 0, le_TIUTime = 0, le_TDMATime = 0, le_byteCnt = 0\<rparr>"

theorem layers_by_runs_witness:
  "\<exists>rs layers'. tpu_pmu_getlayerInfo [demo_element 1 1 10 20, demo_element 4 1 15 30, demo_element 4 2 30 45, demo_element 0 0 0 0] [demo_layer, demo_layer, demo_layer] = Inr layers' \<and>
     layer_runs rs [demo_element 1 1 10 20, demo_element 4 1 15 30, demo_element 4 2 30 45] \<and> (\<forall>i<length rs. summary_of (rs ! i) (layers' ! i))"
  using layers_by_runs[of "[demo_element 1 1 10 20, demo_element 4 1 15 30, demo_element 4 2 30 45]" "demo_element 0 0 0 0" "[demo_layer, demo_layer, demo_layer]" "[]"]
  by (auto simp: demo_element_def demo_layer_def cleared_def layer_of_def pmu_types)

end
