(* ===== verification/Simulator.thy ===== *)
theory Simulator
  imports MemPool DmaBuf
begin

text \<open>
  The runtime over the instruction simulator (\<^verbatim>\<open>src/cmodel\<close>: \<^verbatim>\<open>runtime_cmodel_main.cpp\<close>, \<^verbatim>\<open>cmodel_cmdbuf.cpp\<close> and the files of the
  chips): devices and contexts, device memory out of the memory pool, loading and running command
  buffers.

  The simulator and the kernel library are not part of the sources.  Their operations are fields of
  a parameter over the type of a simulated chip; of these only reading and writing of the simulated
  memory has laws.  The virtual address of a memory object points into that memory, so what is read
  through it is read at the physical address.
\<close>

section \<open>State\<close>

datatype sim_chip = S183x | S182x | S181x | S180x

record 'm simulator =
  cm_init :: "sim_chip \<Rightarrow> 'm"
  cm_read :: "'m \<Rightarrow> u64 \<Rightarrow> nat \<Rightarrow> byte list"
  cm_write :: "'m \<Rightarrow> u64 \<Rightarrow> byte list \<Rightarrow> 'm"
  cm_set_base :: "'m \<Rightarrow> nat \<Rightarrow> u64 \<Rightarrow> 'm"
  cm_run :: "'m \<Rightarrow> u64 \<Rightarrow> u32 \<Rightarrow> u64 \<Rightarrow> u32 \<Rightarrow> 'm"
  cm_chip_gmem :: "'m \<Rightarrow> u64"
  se_chip_name :: "string option"
  se_chip_of :: "string \<Rightarrow> sim_chip option"
  se_registers :: "sim_chip \<Rightarrow> bool"
  se_version :: "sim_chip \<Rightarrow> sim_chip option"
  se_gmem_size :: "sim_chip \<Rightarrow> u64"
  se_tiu_addr :: "sim_chip \<Rightarrow> u64"
  se_tdma_addr :: "sim_chip \<Rightarrow> u64"
  se_tiu_reserved :: "sim_chip \<Rightarrow> u64"
  se_tdma_reserved :: "sim_chip \<Rightarrow> u64"
  se_layout :: "sim_chip \<Rightarrow> cmd_layout"
  se_tiu_cmd_end :: "sim_chip \<Rightarrow> byte list \<Rightarrow> byte list"
  se_tiu_intr :: "sim_chip \<Rightarrow> byte list \<Rightarrow> byte list"
  se_tdma_reg_bytes :: nat
  se_tdma_eod :: "sim_chip \<Rightarrow> byte list \<Rightarrow> byte list"
  se_junk :: "nat \<Rightarrow> byte"

text \<open>The fields of the command buffer objects, one per chip; opening a device sets them.\<close>

record cmodel_cmdbuf =
  g_tiu_cmdbuf_gaddr :: u64
  g_tdma_cmdbuf_gaddr :: u64
  g_tiu_cmdbuf_reserved_size :: u64
  g_tdma_cmdbuf_reserved_size :: u64
  g_gmem_reserved_size :: u64
  g_gmem_size :: u64

record 'm sim_dev =
  sd_index :: int
  sd_model :: 'm
  sd_pool :: mem_pool
  sd_version :: "sim_chip option"
  sd_gmem_size :: u64
  sd_locked :: bool

record sim_ctx =
  sc_dev :: ptr
  sc_seq_no :: nat

text \<open>Every object of this file is of type \<^verbatim>\<open>BMMEM_TYPE_DEVICE\<close>, so the assertions on the type hold.\<close>

record sim_mem =
  sm_v_addr :: u64
  sm_p_addr :: u64
  sm_size :: u64
  sm_user_ref_cnt :: int
  sm_is_prealloc :: bool

record 'm sim =
  g_run_chip :: "string option"
  g_device :: ptr
  g_device_ref :: int
  si_devs :: "nat \<rightharpoonup> 'm sim_dev"
  si_ctxs :: "nat \<rightharpoonup> sim_ctx"
  si_mems :: "nat \<rightharpoonup> sim_mem"
  si_next :: nat
  si_cmdbuf :: "sim_chip \<Rightarrow> cmodel_cmdbuf"

type_synonym ('m, 'a) so = "('m sim, 'a) sm"

definition set_dev :: "ptr \<Rightarrow> 'm sim_dev \<Rightarrow> ('m, unit) so" where
  "set_dev p d = (case p of None \<Rightarrow> dfail NullDeref | Some i \<Rightarrow> dmodify (\<lambda>s. s\<lparr>si_devs := (si_devs s)(i \<mapsto> d)\<rparr>))"

section \<open>Devices and contexts\<close>

definition getCmdbufPtr :: "sim_chip option \<Rightarrow> ('m, sim_chip) so" where
  "getCmdbufPtr c = (case c of None \<Rightarrow> dfail AssertFailed | Some chip \<Rightarrow> dret chip)"

definition rt_device_open :: "'m simulator \<Rightarrow> sim_chip \<Rightarrow> int \<Rightarrow> ('m, bmerr) so" where
  "rt_device_open C chip index =
    (if \<not> se_registers C chip \<and> chip \<in> {S181x, S180x} then dret BM_ERR_FAILURE else
     let reserved = add64 (se_tiu_reserved C chip) (se_tdma_reserved C chip); gmem = se_gmem_size C chip in
     dthen (dmodify (\<lambda>s. s\<lparr>si_cmdbuf := (si_cmdbuf s)(chip := \<lparr>g_tiu_cmdbuf_gaddr = se_tiu_addr C chip, g_tdma_cmdbuf_gaddr = se_tdma_addr C chip,
        g_tiu_cmdbuf_reserved_size = se_tiu_reserved C chip, g_tdma_cmdbuf_reserved_size = se_tdma_reserved C chip,
        g_gmem_reserved_size = reserved, g_gmem_size = gmem\<rparr>)\<rparr>))
    (dthen (dassert (gmem > reserved))
    (dthen (dmodify (\<lambda>s. s\<lparr>si_devs := (si_devs s)(si_next s \<mapsto> \<lparr>sd_index = index, sd_model = cm_init C chip,
        sd_pool = mem_pool_create (sub64 gmem reserved), sd_version = se_version C chip, sd_gmem_size = gmem, sd_locked = False\<rparr>),
        g_device := Some (si_next s), si_next := si_next s + 1\<rparr>))
     (dret BM_SUCCESS))))"

text \<open>The result of opening the device of the chip is dropped.\<close>

definition bm_device_open :: "'m simulator \<Rightarrow> int \<Rightarrow> ('m, bmerr \<times> ptr) so" where
  "bm_device_open C index =
    dbind (dget g_run_chip) (\<lambda>chip.
    dbind (if chip = None then dthen (dmodify (\<lambda>s. s\<lparr>g_run_chip := se_chip_name C\<rparr>)) (dret (se_chip_name C)) else dret chip) (\<lambda>chip'.
    case chip' of None \<Rightarrow> dret (BM_ERR_FAILURE, None) | Some name \<Rightarrow>
    dbind (dget g_device) (\<lambda>g.
    dthen (if g \<noteq> None then dret BM_SUCCESS else dbind (getCmdbufPtr (se_chip_of C name)) (\<lambda>c. rt_device_open C c index))
    (dbind (dget g_device) (\<lambda>dev.
     dthen (dmodify (\<lambda>s. s\<lparr>g_device_ref := g_device_ref s + 1\<rparr>)) (dret (BM_SUCCESS, dev)))))))"

definition bm_device_close :: "ptr \<Rightarrow> ('m, unit) so" where
  "bm_device_close dev =
    dbind (dget g_device) (\<lambda>g. dthen (dassert (dev = g))
    (dthen (dmodify (\<lambda>s. s\<lparr>g_device_ref := g_device_ref s - 1\<rparr>))
    (dbind (dget g_device_ref) (\<lambda>n. if n > 0 then dret () else
     dbind (deref si_devs dev) (\<lambda>d.
     case mem_pool_destroy (sd_pool d) of Inl e \<Rightarrow> dfail e
     | Inr _ \<Rightarrow> dmodify (\<lambda>s. s\<lparr>g_device := None, si_devs := (si_devs s)(the dev := None)\<rparr>))))))"

definition bm_context_create :: "('m, bmerr \<times> ptr) so" where
  "bm_context_create = dbind (dget si_next) (\<lambda>i.
     dthen (dmodify (\<lambda>s. s\<lparr>si_ctxs := (si_ctxs s)(i \<mapsto> \<lparr>sc_dev = None, sc_seq_no = 0\<rparr>), si_next := i + 1\<rparr>)) (dret (BM_SUCCESS, Some i)))"

definition set_ctx :: "ptr \<Rightarrow> sim_ctx option \<Rightarrow> ('m, unit) so" where
  "set_ctx p c = (case p of None \<Rightarrow> dfail NullDeref | Some i \<Rightarrow> dmodify (\<lambda>s. s\<lparr>si_ctxs := (si_ctxs s)(i := c)\<rparr>))"

definition bm_context_destroy :: "ptr \<Rightarrow> ('m, unit) so" where
  "bm_context_destroy ctx = dthen (dassert (ctx \<noteq> None)) (dthen (deref si_ctxs ctx) (set_ctx ctx None))"

definition bm_bind_device :: "ptr \<Rightarrow> ptr \<Rightarrow> ('m, bmerr) so" where
  "bm_bind_device ctx dev = dthen (dassert (ctx \<noteq> None)) (dbind (deref si_ctxs ctx) (\<lambda>c. dthen (set_ctx ctx (Some (c\<lparr>sc_dev := dev\<rparr>))) (dret BM_SUCCESS)))"

definition bm_unbind_device :: "ptr \<Rightarrow> ('m, unit) so" where
  "bm_unbind_device ctx = dthen (dassert (ctx \<noteq> None)) (dbind (deref si_ctxs ctx) (\<lambda>c. set_ctx ctx (Some (c\<lparr>sc_dev := None\<rparr>))))"

definition bm_get_device :: "ptr \<Rightarrow> ('m, ptr) so" where
  "bm_get_device ctx = dbind (deref si_ctxs ctx) (\<lambda>c. dthen (dassert (sc_dev c \<noteq> None)) (dret (sc_dev c)))"

definition bm_init :: "'m simulator \<Rightarrow> int \<Rightarrow> ('m, bmerr \<times> ptr) so" where
  "bm_init C index = dthen (dassert (index = 0)) (dbind (bm_device_open C index) (\<lambda>(ret, dev). dthen (dassert (ret = BM_SUCCESS))
     (dbind bm_context_create (\<lambda>(ret2, ctx). dthen (dassert (ret2 = BM_SUCCESS))
     (dbind (bm_bind_device ctx dev) (\<lambda>ret3. dthen (dassert (ret3 = BM_SUCCESS)) (dret (ret3, ctx))))))))"

definition bm_exit :: "ptr \<Rightarrow> ('m, unit) so" where
  "bm_exit ctx = dbind (deref si_ctxs ctx) (\<lambda>c.
     dthen (bm_unbind_device ctx) (dthen (bm_context_destroy ctx) (bm_device_close (sc_dev c))))"

text \<open>The device of a context and the command buffer object of its chip.\<close>

definition ctx_dev :: "ptr \<Rightarrow> ('m, ptr \<times> 'm sim_dev) so" where
  "ctx_dev ctx = dbind (deref si_ctxs ctx) (\<lambda>c. dbind (deref si_devs (sc_dev c)) (\<lambda>d. dret (sc_dev c, d)))"

definition ctx_cmdbuf :: "ptr \<Rightarrow> ('m, sim_chip \<times> cmodel_cmdbuf) so" where
  "ctx_cmdbuf ctx = dbind (ctx_dev ctx) (\<lambda>(_, d). dbind (getCmdbufPtr (sd_version d)) (\<lambda>chip. dbind (dget si_cmdbuf) (\<lambda>cb. dret (chip, cb chip))))"

definition bm_device_set_base_reg :: "'m simulator \<Rightarrow> ptr \<Rightarrow> nat \<Rightarrow> u64 \<Rightarrow> ('m, unit) so" where
  "bm_device_set_base_reg C ctx inx addr = dbind (ctx_dev ctx) (\<lambda>(p, d). set_dev p (d\<lparr>sd_model := cm_set_base C (sd_model d) inx addr\<rparr>))"

section \<open>Device memory\<close>

definition new_mem :: "sim_mem \<Rightarrow> ('m, ptr) so" where
  "new_mem m = dbind (dget si_next) (\<lambda>i. dthen (dmodify (\<lambda>s. s\<lparr>si_mems := (si_mems s)(i \<mapsto> m), si_next := i + 1\<rparr>)) (dret (Some i)))"

definition delete_mem :: "ptr \<Rightarrow> ('m, unit) so" where
  "delete_mem p = (case p of None \<Rightarrow> dret () | Some i \<Rightarrow> dmodify (\<lambda>s. s\<lparr>si_mems := (si_mems s)(i := None)\<rparr>))"

definition rt_device_alloc_raw :: "'m simulator \<Rightarrow> ptr \<Rightarrow> u64 \<Rightarrow> ('m, ptr) so" where
  "rt_device_alloc_raw C ctx sz = dbind (ctx_cmdbuf ctx) (\<lambda>(chip, cb). dbind (ctx_dev ctx) (\<lambda>(p, d).
     case mem_pool_alloc (sd_pool d) (align_mask64 sz 16) of Inl e \<Rightarrow> dfail e
     | Inr (a, pool) \<Rightarrow> dthen (set_dev p (d\<lparr>sd_pool := pool\<rparr>))
         (let addr = add64 a (g_gmem_reserved_size cb) in
          new_mem \<lparr>sm_v_addr = add64 addr (cm_chip_gmem C (sd_model d)), sm_p_addr = addr, sm_size = sz, sm_user_ref_cnt = 0, sm_is_prealloc = False\<rparr>)))"

definition rt_device_free :: "ptr \<Rightarrow> ptr \<Rightarrow> ('m, unit) so" where
  "rt_device_free ctx mem = dbind (ctx_cmdbuf ctx) (\<lambda>(chip, cb). dbind (deref si_mems mem) (\<lambda>m.
     dthen (if sm_is_prealloc m then dret () else dbind (ctx_dev ctx) (\<lambda>(p, d).
        case mem_pool_free (sd_pool d) (sub64 (sm_p_addr m) (g_gmem_reserved_size cb)) of Inl e \<Rightarrow> dfail e
        | Inr pool \<Rightarrow> set_dev p (d\<lparr>sd_pool := pool\<rparr>)))
     (delete_mem mem)))"

text \<open>The two ways to carve a buffer out of another one.\<close>

definition bmmem_device_prealloc_raw :: "'m simulator \<Rightarrow> ptr \<Rightarrow> ptr \<Rightarrow> u64 \<Rightarrow> u64 \<Rightarrow> ('m, ptr) so" where
  "bmmem_device_prealloc_raw C ctx mem offset sz =
    dbind (if mem = None then dret offset else dbind (deref si_mems mem) (\<lambda>m.
       dthen (dassert (sm_size m \<ge> add64 sz offset)) (dret (add64 (sm_p_addr m) offset)))) (\<lambda>addr.
    dbind (ctx_dev ctx) (\<lambda>(_, d).
    new_mem \<lparr>sm_v_addr = add64 addr (cm_chip_gmem C (sd_model d)), sm_p_addr = addr, sm_size = sz, sm_user_ref_cnt = 0, sm_is_prealloc = True\<rparr>))"

definition CVI_RT_MemPreAlloc :: "ptr \<Rightarrow> u64 \<Rightarrow> u64 \<Rightarrow> ('m, ptr) so" where
  "CVI_RT_MemPreAlloc mem offset sz = dthen (dassert (mem \<noteq> None)) (dbind (deref si_mems mem) (\<lambda>m.
     dthen (dassert (sm_size m \<ge> add64 sz offset))
     (new_mem \<lparr>sm_v_addr = add64 (sm_v_addr m) offset, sm_p_addr = add64 (sm_p_addr m) offset, sm_size = sz, sm_user_ref_cnt = 0, sm_is_prealloc = True\<rparr>)))"

definition mem_field :: "(sim_mem \<Rightarrow> u64) \<Rightarrow> ptr \<Rightarrow> ('m, u64) so" where
  "mem_field f mem = (if mem = None then dret 0 else dbind (deref si_mems mem) (\<lambda>m. dret (f m)))"

definition change_ref :: "int \<Rightarrow> ptr \<Rightarrow> ('m, int) so" where
  "change_ref k mem = dbind (deref si_mems mem) (\<lambda>m. let n = to_s32 (sm_user_ref_cnt m + k) in
     dthen (dmodify (\<lambda>s. s\<lparr>si_mems := (si_mems s)(the mem \<mapsto> m\<lparr>sm_user_ref_cnt := n\<rparr>)\<rparr>)) (dret n))"

text \<open>Copies; the caller's buffer is the list of its bytes.\<close>

definition write_gmem :: "'m simulator \<Rightarrow> ptr \<Rightarrow> u64 \<Rightarrow> byte list \<Rightarrow> u64 \<Rightarrow> ('m, unit) so" where
  "write_gmem C ctx addr src sz = (if length src < sz then dfail OutOfRange else
     dbind (ctx_dev ctx) (\<lambda>(p, d). set_dev p (d\<lparr>sd_model := cm_write C (sd_model d) addr (take sz src)\<rparr>)))"

definition bm_memcpy_s2d :: "'m simulator \<Rightarrow> ptr \<Rightarrow> ptr \<Rightarrow> byte list \<Rightarrow> ('m, bmerr) so" where
  "bm_memcpy_s2d C ctx dst src = dbind (deref si_mems dst) (\<lambda>m. dthen (write_gmem C ctx (sm_p_addr m) src (sm_size m)) (dret BM_SUCCESS))"

definition bm_memcpy_s2d_ex :: "'m simulator \<Rightarrow> ptr \<Rightarrow> ptr \<Rightarrow> byte list \<Rightarrow> u64 \<Rightarrow> u64 \<Rightarrow> ('m, bmerr) so" where
  "bm_memcpy_s2d_ex C ctx dst src offset sz = dbind (deref si_mems dst) (\<lambda>m. dthen (write_gmem C ctx (add64 (sm_p_addr m) offset) src sz) (dret BM_SUCCESS))"

definition CVI_RT_MemCopyS2DEx :: "'m simulator \<Rightarrow> ptr \<Rightarrow> ptr \<Rightarrow> u64 \<Rightarrow> u64 \<Rightarrow> byte list \<Rightarrow> ('m, cvi_rc) so" where
  "CVI_RT_MemCopyS2DEx C ctx dst offset len src = dbind (deref si_mems dst) (\<lambda>m. dthen (dassert (add64 offset len \<le> sm_size m))
     (dthen (write_gmem C ctx (add64 (sm_p_addr m) offset) src len) (dret CVI_RC_SUCCESS)))"

definition bm_memcpy_d2s :: "'m simulator \<Rightarrow> ptr \<Rightarrow> ptr \<Rightarrow> ('m, bmerr \<times> byte list) so" where
  "bm_memcpy_d2s C ctx src = dbind (deref si_mems src) (\<lambda>m. dbind (ctx_dev ctx) (\<lambda>(_, d). dret (BM_SUCCESS, cm_read C (sd_model d) (sm_p_addr m) (sm_size m))))"

section \<open>Command buffers\<close>

text \<open>A change of \<open>n\<close> bytes from position \<open>j\<close> of a buffer.\<close>

definition edit_at :: "byte list \<Rightarrow> nat \<Rightarrow> nat \<Rightarrow> (byte list \<Rightarrow> byte list) \<Rightarrow> byte list res" where
  "edit_at buf j n g = (if j + n \<le> length buf then Inr (take j buf @ g (take n (drop j buf)) @ drop (j + n) buf) else Inl OutOfRange)"

text \<open>
  The loops over the commands of a buffer, with what is done at each command; the position is a
  32-bit variable.  A buffer of \<open>sz\<close> bytes has at most \<open>sz\<close> commands.
\<close>

definition cmd_hdr_at :: "cmd_layout \<Rightarrow> byte list \<Rightarrow> nat \<Rightarrow> byte list res" where
  "cmd_hdr_at L buf i = (if i + sizeof_cmd_hdr L \<le> length buf then Inr (take (sizeof_cmd_hdr L) (drop i buf)) else Inl OutOfRange)"

fun edit_loop :: "cmd_layout \<Rightarrow> (nat \<Rightarrow> byte list \<Rightarrow> byte list \<Rightarrow> byte list res) \<Rightarrow> nat \<Rightarrow> nat \<Rightarrow> u32 \<Rightarrow> byte list \<Rightarrow> byte list res" where
  "edit_loop L f 0 sz i buf = Inl Diverged"
| "edit_loop L f (Suc n) sz i buf = (if i < sz then
     bind_res (cmd_hdr_at L buf i) (\<lambda>h. bind_res (f i h buf) (\<lambda>buf'. edit_loop L f n sz (add32 i (sizeof_cmd_hdr L + cl_hdr_len L h)) buf'))
     else Inr buf)"

definition set_low_bit :: "nat \<Rightarrow> byte list \<Rightarrow> byte list" where
  "set_low_bit k bs = (or (hd bs) (push_bit k 1)) # tl bs"

definition reorder_tiu_cmdbuf :: "cmd_layout \<Rightarrow> nat \<Rightarrow> byte list \<Rightarrow> byte list res" where
  "reorder_tiu_cmdbuf L sz = edit_loop L (\<lambda>i h buf. if cl_hdr_engine L h = cl_tiu L
     then edit_at buf (i + sizeof_cmd_hdr L) (cl_bd_reg_bytes L) reorder_bd_cmdbuf_reg else Inr buf) (Suc sz) sz 0"

definition enable_tdma_cmdbuf_barrier :: "cmd_layout \<Rightarrow> nat \<Rightarrow> byte list \<Rightarrow> byte list res" where
  "enable_tdma_cmdbuf_barrier L sz = edit_loop L (\<lambda>i h buf. if cl_hdr_engine L h = cl_tdma L
     then edit_at buf (i + sizeof_cmd_hdr L) 4 (set_low_bit 4) else Inr buf) (Suc sz) sz 0"

text \<open>The last command of either engine; \<^verbatim>\<open>set_eod\<close> loops for ever on an unknown engine, \<^verbatim>\<open>enable_interrupt\<close> ignores it.\<close>

fun last_cmds :: "cmd_layout \<Rightarrow> bool \<Rightarrow> nat \<Rightarrow> nat \<Rightarrow> u32 \<Rightarrow> byte list \<Rightarrow> nat option \<Rightarrow> nat option \<Rightarrow> (nat option \<times> nat option) res" where
  "last_cmds L strict 0 sz i buf last_tiu last_tdma = Inl Diverged"
| "last_cmds L strict (Suc n) sz i buf last_tiu last_tdma = (if i < sz then
     bind_res (cmd_hdr_at L buf i) (\<lambda>h.
       let e = cl_hdr_engine L h; i' = add32 i (sizeof_cmd_hdr L + cl_hdr_len L h) in
       if e = cl_tdma L then last_cmds L strict n sz i' buf last_tiu (Some i)
       else if e = cl_tiu L then last_cmds L strict n sz i' buf (Some i) last_tdma
       else if e = cl_cpu L \<or> \<not> strict then last_cmds L strict n sz i' buf last_tiu last_tdma
       else Inl Diverged)
     else Inr (last_tiu, last_tdma))"

definition edit_cmd :: "cmd_layout \<Rightarrow> nat option \<Rightarrow> nat \<Rightarrow> (byte list \<Rightarrow> byte list) \<Rightarrow> byte list \<Rightarrow> byte list res" where
  "edit_cmd L off n g buf = (case off of None \<Rightarrow> Inr buf | Some i \<Rightarrow> edit_at buf (i + sizeof_cmd_hdr L) n g)"

definition set_eod :: "'m simulator \<Rightarrow> sim_chip \<Rightarrow> nat \<Rightarrow> byte list \<Rightarrow> byte list res" where
  "set_eod C chip sz buf = (let L = se_layout C chip in
     bind_res (last_cmds L True (Suc sz) sz 0 buf None None) (\<lambda>(tiu, tdma).
     bind_res (edit_cmd L tiu (cl_bd_reg_bytes L) (se_tiu_cmd_end C chip) buf) (\<lambda>buf1.
     edit_cmd L tdma (se_tdma_reg_bytes C) (se_tdma_eod C chip) buf1)))"

definition enable_interrupt :: "'m simulator \<Rightarrow> sim_chip \<Rightarrow> nat \<Rightarrow> byte list \<Rightarrow> byte list res" where
  "enable_interrupt C chip sz buf = (let L = se_layout C chip in
     bind_res (last_cmds L False (Suc sz) sz 0 buf None None) (\<lambda>(tiu, tdma).
     bind_res (edit_cmd L tiu (cl_bd_reg_bytes L) (se_tiu_intr C chip) buf) (\<lambda>buf1.
     edit_cmd L tdma 4 (set_low_bit 3) buf1)))"

definition adjust_cmdbuf :: "'m simulator \<Rightarrow> sim_chip \<Rightarrow> nat \<Rightarrow> byte list \<Rightarrow> byte list res" where
  "adjust_cmdbuf C chip sz buf = bind_res (set_eod C chip sz buf) (\<lambda>b1. bind_res (enable_interrupt C chip sz b1) (\<lambda>b2.
     bind_res (enable_tdma_cmdbuf_barrier (se_layout C chip) sz b2) (reorder_tiu_cmdbuf (se_layout C chip) sz)))"

text \<open>The bodies of the commands of an engine, or nothing (-1) when a command has the wrong magic number.\<close>

fun extract_loop :: "cmd_layout \<Rightarrow> nat \<Rightarrow> nat \<Rightarrow> nat \<Rightarrow> u32 \<Rightarrow> byte list \<Rightarrow> byte list \<Rightarrow> byte list option res" where
  "extract_loop L engine 0 sz i buf found = Inl Diverged"
| "extract_loop L engine (Suc n) sz i buf found = (if i < sz then
     bind_res (cmd_hdr_at L buf i) (\<lambda>h.
       let len = cl_hdr_len L h; j = i + sizeof_cmd_hdr L; i' = add32 i (sizeof_cmd_hdr L + len) in
       if cl_hdr_magic L h \<noteq> cl_magic L then Inr None
       else if cl_hdr_engine L h = engine
       then (if j + len \<le> length buf then extract_loop L engine n sz i' buf (found @ take len (drop j buf)) else Inl OutOfRange)
       else extract_loop L engine n sz i' buf found)
     else Inr (Some found))"

definition extract_cmdbuf :: "cmd_layout \<Rightarrow> nat \<Rightarrow> byte list \<Rightarrow> nat \<Rightarrow> byte list option res" where
  "extract_cmdbuf L engine buf sz = extract_loop L engine (Suc sz) sz 0 buf []"

text \<open>The magic number of a dma buffer on each chip, compared with a 16-bit field of its header.\<close>

definition dmabuf_hdr_magic :: "sim_chip \<Rightarrow> nat" where
  "dmabuf_hdr_magic chip = (case chip of S183x \<Rightarrow> 0x1835 | S182x \<Rightarrow> 0x1822 | S181x \<Rightarrow> 0x182202 | S180x \<Rightarrow> 0x182203)"

text \<open>Fields of a structure in a list of bytes.\<close>

definition u32_at :: "byte list \<Rightarrow> nat \<Rightarrow> nat" where
  "u32_at bs k = load_u32 k (\<lambda>i. bs ! i)"

definition u64_at :: "byte list \<Rightarrow> nat \<Rightarrow> nat" where
  "u64_at bs k = u32_at bs k + 2 ^ 32 * u32_at bs (k + 4)"

text \<open>\<open>rd\<close> reads the dma buffer, \<open>cap\<close> is the room in the destination.\<close>

fun desc_loop :: "cmd_layout \<Rightarrow> (nat \<Rightarrow> nat \<Rightarrow> byte list) \<Rightarrow> bool \<Rightarrow> nat \<Rightarrow> nat \<Rightarrow> nat \<Rightarrow> byte list \<Rightarrow> byte list res" where
  "desc_loop L rd tiu cap 0 desc found = Inr found"
| "desc_loop L rd tiu cap (Suc k) desc found =
    (let d = rd desc (sizeof_cpu_desc L);
         num = (if tiu then u32_at d 4 else u32_at d 8) mod 2 ^ 16;
         off = (if tiu then u32_at d 12 else align_to (cl_tdma_bit L) (u32_at d 16));
         cur = num * (if tiu then cl_bd_reg_bytes L else 2 ^ cl_tdma_bit L)
     in if length found + cur \<le> cap then desc_loop L rd tiu cap k (desc + sizeof_cpu_desc L) (found @ rd off cur) else Inl OutOfRange)"

definition extract_dmabuf :: "cmd_layout \<Rightarrow> sim_chip \<Rightarrow> bool \<Rightarrow> (nat \<Rightarrow> nat \<Rightarrow> byte list) \<Rightarrow> nat \<Rightarrow> byte list option res" where
  "extract_dmabuf L chip tiu rd cap = (let h = rd 0 SIZEOF_DMA_HDR in
     if unat (h ! 2) + 256 * unat (h ! 3) \<noteq> dmabuf_hdr_magic chip then Inr None
     else bind_res (desc_loop L rd tiu cap (u32_at h 8) SIZEOF_DMA_HDR []) (\<lambda>found. Inr (Some found)))"

section \<open>Loading and running\<close>

definition lock_dev :: "ptr \<Rightarrow> ('m, unit) so" where
  "lock_dev ctx = dbind (ctx_dev ctx) (\<lambda>(p, d). if sd_locked d then dfail Diverged else set_dev p (d\<lparr>sd_locked := True\<rparr>))"

definition rt_wait_cmdbuf_done :: "ptr \<Rightarrow> ('m, bmerr) so" where
  "rt_wait_cmdbuf_done ctx = dbind (ctx_dev ctx) (\<lambda>(p, d). dthen (set_dev p (d\<lparr>sd_locked := False\<rparr>)) (dret BM_SUCCESS))"

definition next_seq :: "ptr \<Rightarrow> ('m, nat) so" where
  "next_seq ctx = dbind (deref si_ctxs ctx) (\<lambda>c. dthen (set_ctx ctx (Some (c\<lparr>sc_seq_no := (sc_seq_no c + 1) mod 2 ^ 16\<rparr>))) (dret (sc_seq_no c)))"

definition lift_res :: "'a res \<Rightarrow> ('m, 'a) so" where
  "lift_res r = (case r of Inl e \<Rightarrow> dfail e | Inr a \<Rightarrow> dret a)"

text \<open>An extracted size as an \<^verbatim>\<open>int\<close>, as a 32-bit field and as a \<^verbatim>\<open>size_t\<close>.\<close>

definition found_int :: "byte list option \<Rightarrow> int" where
  "found_int f = (case f of None \<Rightarrow> -1 | Some bs \<Rightarrow> to_s32 (int (length bs)))"

definition found_u32 :: "byte list option \<Rightarrow> u32" where
  "found_u32 f = nat (found_int f mod 2 ^ 32)"

definition found_size :: "byte list option \<Rightarrow> u64" where
  "found_size f = nat (found_int f mod 2 ^ 64)"

definition found_bytes :: "byte list option \<Rightarrow> byte list" where
  "found_bytes f = (case f of None \<Rightarrow> [] | Some bs \<Rightarrow> bs)"

text \<open>The writes to the areas of the two engines and the run.\<close>

definition run_gmem :: "'m simulator \<Rightarrow> ptr \<Rightarrow> cmodel_cmdbuf \<Rightarrow> byte list \<Rightarrow> u64 \<Rightarrow> byte list \<Rightarrow> u64 \<Rightarrow> ('m, unit) so" where
  "run_gmem C ctx cb tiu tiu_sz tdma tdma_sz =
     dthen (write_gmem C ctx (g_tiu_cmdbuf_gaddr cb) tiu tiu_sz)
    (dthen (write_gmem C ctx (g_tdma_cmdbuf_gaddr cb) tdma tdma_sz)
    (dbind (ctx_dev ctx) (\<lambda>(p, d). set_dev p (d\<lparr>sd_model :=
       cm_run C (sd_model d) (g_tiu_cmdbuf_gaddr cb) (tiu_sz mod M32) (g_tdma_cmdbuf_gaddr cb) (tdma_sz mod M32)\<rparr>))))"

definition rt_send_cmdbuf :: "'m simulator \<Rightarrow> ptr \<Rightarrow> byte list \<Rightarrow> nat \<Rightarrow> ('m, bmerr \<times> nat) so" where
  "rt_send_cmdbuf C ctx cmdbuf sz = dbind (ctx_cmdbuf ctx) (\<lambda>(chip, cb). let L = se_layout C chip in
     if length cmdbuf < sz then dfail OutOfRange else
     dbind (lift_res (adjust_cmdbuf C chip sz (take sz cmdbuf))) (\<lambda>buf.
     dbind (lift_res (extract_cmdbuf L (cl_tiu L) buf sz)) (\<lambda>tiu.
     dthen (dassert (found_int tiu \<le> to_s32 (int (g_tiu_cmdbuf_reserved_size cb))))
    (dbind (lift_res (extract_cmdbuf L (cl_tdma L) buf sz)) (\<lambda>tdma.
     dthen (dassert (found_int tdma \<le> to_s32 (int (g_tdma_cmdbuf_reserved_size cb))))
    (dthen (lock_dev ctx)
    (dthen (run_gmem C ctx cb (found_bytes tiu) (found_size tiu) (found_bytes tdma) (found_size tdma))
    (dbind (next_seq ctx) (\<lambda>seq. dthen (rt_wait_cmdbuf_done ctx) (dret (BM_SUCCESS, seq)))))))))))"

definition u64_bytes :: "u64 \<Rightarrow> byte list" where
  "u64_bytes v = u32_bytes v @ u32_bytes (v div 2 ^ 32)"

definition SIZEOF_CMDBUF_HEADER :: nat where "SIZEOF_CMDBUF_HEADER = 24"

text \<open>The image of a loaded buffer: header, commands of the engines, and what the allocation left behind them.
  Behind a command with a wrong magic number nothing counts, not even what was copied before it.\<close>

definition cmdbuf_image :: "'m simulator \<Rightarrow> u64 \<Rightarrow> u64 \<Rightarrow> byte list option \<Rightarrow> byte list option \<Rightarrow> nat \<Rightarrow> byte list" where
  "cmdbuf_image C neuron_gaddr weight_gaddr tiu tdma sz =
     u64_bytes neuron_gaddr @ u64_bytes weight_gaddr @ u32_bytes (found_u32 tiu) @ u32_bytes (found_u32 tdma) @
     found_bytes tiu @ found_bytes tdma @ map (se_junk C) [0..<sz - length (found_bytes tiu) - length (found_bytes tdma)]"

definition store_image :: "'m simulator \<Rightarrow> ptr \<Rightarrow> byte list \<Rightarrow> ('m, bmerr \<times> ptr) so" where
  "store_image C ctx img = dbind (rt_device_alloc_raw C ctx (length img)) (\<lambda>mem.
     dbind (bm_memcpy_s2d C ctx mem img) (\<lambda>ret. dthen (dassert (ret = BM_SUCCESS)) (dret (BM_SUCCESS, mem))))"

definition tiu_fits :: "cmodel_cmdbuf \<Rightarrow> nat \<Rightarrow> byte list option \<Rightarrow> ('m, unit) so" where
  "tiu_fits cb sz tiu = dassert (found_int tiu \<le> int sz \<and> found_int tiu \<le> to_s32 (int (g_tiu_cmdbuf_reserved_size cb)))"

definition tdma_fits :: "cmodel_cmdbuf \<Rightarrow> nat \<Rightarrow> byte list option \<Rightarrow> byte list option \<Rightarrow> ('m, unit) so" where
  "tdma_fits cb sz tiu tdma =
     dassert (found_int tdma + found_int tiu \<le> int sz \<and> found_int tdma \<le> to_s32 (int (g_tdma_cmdbuf_reserved_size cb)))"

text \<open>The sizes are \<^verbatim>\<open>int\<close> variables, so a buffer of 2 GiB cannot be allocated.\<close>

definition rt_load_cmdbuf :: "'m simulator \<Rightarrow> ptr \<Rightarrow> byte list \<Rightarrow> nat \<Rightarrow> u64 \<Rightarrow> u64 \<Rightarrow> bool \<Rightarrow> ('m, bmerr \<times> ptr) so" where
  "rt_load_cmdbuf C ctx cmdbuf sz neuron_gaddr weight_gaddr enable_pmu = dbind (ctx_cmdbuf ctx) (\<lambda>(chip, cb). let L = se_layout C chip in
     dthen (dassert (\<not> enable_pmu))
     (if length cmdbuf < sz \<or> SIZEOF_CMDBUF_HEADER + sz \<ge> 2 ^ 31 then dfail OutOfRange else
      dbind (lift_res (adjust_cmdbuf C chip sz (take sz cmdbuf))) (\<lambda>buf.
      dbind (lift_res (extract_cmdbuf L (cl_tiu L) buf sz)) (\<lambda>tiu. dthen (tiu_fits cb sz tiu)
     (dbind (lift_res (extract_cmdbuf L (cl_tdma L) buf sz)) (\<lambda>tdma. dthen (tdma_fits cb sz tiu tdma)
     (store_image C ctx (cmdbuf_image C neuron_gaddr weight_gaddr tiu tdma sz))))))))"

definition rt_load_dmabuf :: "'m simulator \<Rightarrow> ptr \<Rightarrow> ptr \<Rightarrow> nat \<Rightarrow> u64 \<Rightarrow> u64 \<Rightarrow> bool \<Rightarrow> ('m, bmerr \<times> ptr) so" where
  "rt_load_dmabuf C ctx dmabuf sz neuron_gaddr weight_gaddr enable_pmu = dbind (ctx_cmdbuf ctx) (\<lambda>(chip, cb). let L = se_layout C chip in
     dthen (dassert (\<not> enable_pmu))
    (dbind (deref si_mems dmabuf) (\<lambda>m. dbind (ctx_dev ctx) (\<lambda>(_, d).
     let rd = (\<lambda>off n. cm_read C (sd_model d) (sm_p_addr m + off) n) in
     if SIZEOF_CMDBUF_HEADER + sz \<ge> 2 ^ 31 then dfail OutOfRange else
     dbind (lift_res (extract_dmabuf L chip True rd sz)) (\<lambda>tiu. dthen (tiu_fits cb sz tiu)
    (dbind (lift_res (extract_dmabuf L chip False rd (sz - length (found_bytes tiu)))) (\<lambda>tdma. dthen (tdma_fits cb sz tiu tdma)
    (store_image C ctx (cmdbuf_image C neuron_gaddr weight_gaddr tiu tdma sz)))))))))"

definition for_bases :: "'m simulator \<Rightarrow> ptr \<Rightarrow> (nat \<times> u64) list \<Rightarrow> ('m, unit) so" where
  "for_bases C ctx = for_each (\<lambda>(i, a). bm_device_set_base_reg C ctx i a)"

text \<open>What the three ways to run a loaded buffer share; they set different base registers.\<close>

definition run_image :: "'m simulator \<Rightarrow> ptr \<Rightarrow> ptr \<Rightarrow> (byte list \<Rightarrow> (nat \<times> u64) list) \<Rightarrow> ('m, bmerr \<times> nat) so" where
  "run_image C ctx mem bases = dbind (ctx_cmdbuf ctx) (\<lambda>(chip, cb). dbind (bm_memcpy_d2s C ctx mem) (\<lambda>(_, buf).
     if length buf < SIZEOF_CMDBUF_HEADER then dfail OutOfRange else
     let tiu_sz = u32_at buf 16; tdma_sz = u32_at buf 20; tiu = drop SIZEOF_CMDBUF_HEADER buf; tdma = drop (SIZEOF_CMDBUF_HEADER + tiu_sz) buf in
     dthen (lock_dev ctx)
    (dthen (for_bases C ctx (bases buf))
    (dthen (run_gmem C ctx cb tiu tiu_sz tdma tdma_sz)
    (dbind (next_seq ctx) (\<lambda>seq. dret (BM_SUCCESS, seq)))))))"

definition rt_run_cmdbuf :: "'m simulator \<Rightarrow> ptr \<Rightarrow> ptr \<Rightarrow> ('m, bmerr \<times> nat) so" where
  "rt_run_cmdbuf C ctx mem = run_image C ctx mem (\<lambda>buf. [(0, u64_at buf 0), (1, u64_at buf 8)])"

definition rt_run_cmdbuf_ex :: "'m simulator \<Rightarrow> ptr \<Rightarrow> ptr \<Rightarrow> u64 \<Rightarrow> u64 \<Rightarrow> ('m, bmerr \<times> nat) so" where
  "rt_run_cmdbuf_ex C ctx mem input_base output_base =
     run_image C ctx mem (\<lambda>buf. [(0, u64_at buf 0), (1, u64_at buf 8), (2, input_base), (3, output_base)])"

definition rt_run_cmdbuf_ex2 :: "'m simulator \<Rightarrow> ptr \<Rightarrow> ptr \<Rightarrow> u64 list \<Rightarrow> ('m, bmerr \<times> nat) so" where
  "rt_run_cmdbuf_ex2 C ctx mem gaddr_base = run_image C ctx mem (\<lambda>_. enumerate 0 (take 8 gaddr_base))"

section \<open>The interface of the runtime\<close>

definition CVI_RT_Init :: "'m simulator \<Rightarrow> ('m, cvi_rc \<times> ptr) so" where
  "CVI_RT_Init C = dbind (bm_init C 0) (\<lambda>(_, ctx). dret (CVI_RC_SUCCESS, ctx))"

definition CVI_RT_DeInit :: "ptr \<Rightarrow> ('m, cvi_rc) so" where
  "CVI_RT_DeInit ctx = dthen (bm_exit ctx) (dret CVI_RC_SUCCESS)"

definition CVI_RT_RunCmdbuf :: "'m simulator \<Rightarrow> ptr \<Rightarrow> ptr \<Rightarrow> u64 \<Rightarrow> u64 \<Rightarrow> ('m, bmerr) so" where
  "CVI_RT_RunCmdbuf C ctx mem base2 base3 = dbind (rt_run_cmdbuf_ex C ctx mem base2 base3) (\<lambda>(ret, _).
     if ret \<noteq> BM_SUCCESS then dret ret else rt_wait_cmdbuf_done ctx)"

definition CVI_RT_RunCmdbufEx :: "'m simulator \<Rightarrow> ptr \<Rightarrow> ptr \<Rightarrow> u64 list \<Rightarrow> ('m, bmerr) so" where
  "CVI_RT_RunCmdbufEx C ctx mem gaddr_base = dbind (rt_run_cmdbuf_ex2 C ctx mem gaddr_base) (\<lambda>(ret, _).
     if ret \<noteq> BM_SUCCESS then dret ret else rt_wait_cmdbuf_done ctx)"

end
