(* ===== verification/SimMem.thy ===== *)
theory SimMem
  imports Simulator DmaConvert
begin

text \<open>
  The simulator's device memory rests on the memory pool: memory objects that were allocated never
  overlap, over every history of allocations, releases, sub-buffers and copies, and a sub-buffer lies
  inside the object it is carved from, so a copy to one of them or to a part of it is not seen by another.
\<close>

section \<open>Well-formed states\<close>

definition owners :: "'m sim \<Rightarrow> nat set" where
  "owners s = {i. \<exists>m. si_mems s i = Some m \<and> \<not> sm_is_prealloc m}"

definition pool_request_of :: "u64 \<Rightarrow> u64" where
  "pool_request_of sz = align_mask64 sz 16"

definition admissible_size :: "u64 \<Rightarrow> bool" where
  "admissible_size sz \<longleftrightarrow> 0 < sz \<and> sz + 2 ^ 13 < M64"

text \<open>The block of the pool that belongs to a memory object.\<close>

definition slot_of :: "nat \<Rightarrow> sim_mem \<Rightarrow> pool_pair_t" where
  "slot_of R m = (sm_p_addr m - R, round_slot (pool_request_of (sm_size m)))"

definition slots :: "nat \<Rightarrow> 'm sim \<Rightarrow> pool_pair_t multiset" where
  "slots R s = image_mset (\<lambda>i. slot_of R (the (si_mems s i))) (mset_set (owners s))"

definition mem_good :: "nat \<Rightarrow> sim_mem \<Rightarrow> bool" where
  "mem_good R m \<longleftrightarrow> R \<le> sm_p_addr m \<and> admissible_size (sm_size m)"

text \<open>A context bound to an open device whose pool holds exactly the blocks of the memory objects.\<close>

definition sim_ok :: "nat \<Rightarrow> nat \<Rightarrow> sim_chip \<Rightarrow> 'm sim_dev \<Rightarrow> 'm sim \<Rightarrow> bool" where
  "sim_ok ctx dev chip d s \<longleftrightarrow> (let R = g_gmem_reserved_size (si_cmdbuf s chip) in
     (\<exists>c. si_ctxs s ctx = Some c \<and> sc_dev c = Some dev) \<and> si_devs s dev = Some d \<and> sd_version d = Some chip \<and>
     pool_inv (sd_pool d) \<and> finite (owners s) \<and> live (sd_pool d) = slots R s \<and> R + total_size (sd_pool d) < M64 \<and>
     (\<forall>i\<ge>si_next s. si_mems s i = None) \<and> (\<forall>i\<in>owners s. mem_good R (the (si_mems s i))))"

lemma sim_okD:
  assumes "sim_ok ctx dev chip d s"
  shows "ctx_dev (Some ctx) s = Inr ((Some dev, d), s)" "ctx_cmdbuf (Some ctx) s = Inr ((chip, si_cmdbuf s chip), s)"
  using assms by (auto simp: sim_ok_def ctx_dev_def ctx_cmdbuf_def getCmdbufPtr_def sm_run Let_def)

lemma request_of:
  assumes "admissible_size sz"
  shows "valid_request (pool_request_of sz)" "sz \<le> pool_request_of sz"
proof -
  have "sz + (2 ^ 4 - 1) < M64" using assms by (simp add: admissible_size_def)
  then have e: "pool_request_of sz = (sz + 15) div 16 * 16" using align_mask64_eq[of sz 4] by (simp add: pool_request_of_def)
  have "sz \<le> (sz + 15) div 16 * 16" "(sz + 15) div 16 * 16 \<le> sz + 15" by presburger+
  then show "valid_request (pool_request_of sz)" "sz \<le> pool_request_of sz"
    using assms by (auto simp: e valid_request_def admissible_size_def MIN_SLOT_SIZE_def)
qed

lemma slot_size: "admissible_size sz \<Longrightarrow> sz \<le> round_slot (pool_request_of sz)"
  using request_of round_slot_bounds(1)[of "pool_request_of sz"] by (meson le_trans)

section \<open>Disjointness\<close>

lemma owners_disjoint:
  assumes "sim_ok ctx dev chip d s" "i \<in> owners s" "j \<in> owners s" "i \<noteq> j" "si_mems s i = Some m" "si_mems s j = Some n"
  shows "sm_p_addr m + sm_size m \<le> sm_p_addr n \<or> sm_p_addr n + sm_size n \<le> sm_p_addr m"
proof -
  let ?R = "g_gmem_reserved_size (si_cmdbuf s chip)"
  have ok: "pool_inv (sd_pool d)" "live (sd_pool d) = slots ?R s" "finite (owners s)" "mem_good ?R m" "mem_good ?R n"
    using assms by (auto simp: sim_ok_def Let_def)
  have "owners s = insert i (insert j (owners s - {i, j}))" using assms(2,3) by blast
  then have "mset_set (owners s) = add_mset i (add_mset j (mset_set (owners s - {i, j})))"
    using ok(3) assms(4) by (metis Diff_iff finite_Diff finite_insert insertCI insert_iff mset_set.insert)
  then have "live (sd_pool d) = add_mset (slot_of ?R m) (add_mset (slot_of ?R n) (image_mset (\<lambda>i. slot_of ?R (the (si_mems s i))) (mset_set (owners s - {i, j}))))"
    using ok(2) assms(5,6) by (simp add: slots_def)
  from pool.blocks_disjoint[OF ok(1) this] have "disjoint_blocks (slot_of ?R m) (slot_of ?R n)" .
  moreover have "sm_size m \<le> round_slot (pool_request_of (sm_size m))" "sm_size n \<le> round_slot (pool_request_of (sm_size n))"
    using ok(4,5) slot_size by (auto simp: mem_good_def)
  ultimately show ?thesis using ok(4,5) by (auto simp: disjoint_blocks_def slot_of_def mem_good_def)
qed

lemma owner_inside:
  assumes "sim_ok ctx dev chip d s" "i \<in> owners s" "si_mems s i = Some m"
  shows "g_gmem_reserved_size (si_cmdbuf s chip) \<le> sm_p_addr m \<and>
     sm_p_addr m + sm_size m \<le> g_gmem_reserved_size (si_cmdbuf s chip) + total_size (sd_pool d)"
proof -
  let ?R = "g_gmem_reserved_size (si_cmdbuf s chip)"
  have ok: "pool_inv (sd_pool d)" "live (sd_pool d) = slots ?R s" "finite (owners s)" "mem_good ?R m"
    using assms by (auto simp: sim_ok_def Let_def)
  then have "slot_of ?R m \<in># live (sd_pool d)" using assms(2,3) by (force simp: slots_def)
  from pool.blocks_in_range[OF ok(1) this] show ?thesis using ok(4) slot_size[of "sm_size m"] by (auto simp: slot_of_def mem_good_def)
qed

section \<open>Every operation keeps the state well-formed\<close>

lemma owners_upd:
  "si_mems t = (si_mems s)(i \<mapsto> m) \<Longrightarrow> owners t = (if sm_is_prealloc m then owners s - {i} else insert i (owners s))"
  "si_mems t = (si_mems s)(i := None) \<Longrightarrow> owners t = owners s - {i}"
  by (auto simp: owners_def split: if_splits)

lemma slots_same: "(\<And>i. i \<in> A \<Longrightarrow> si_mems t i = si_mems s i) \<Longrightarrow>
    image_mset (\<lambda>i. slot_of R (the (si_mems t i))) (mset_set A) = image_mset (\<lambda>i. slot_of R (the (si_mems s i))) (mset_set A)"
  by (cases "finite A") (auto intro: image_mset_cong)

text \<open>What the rest of the state looks like after an operation on the pool and the objects.\<close>

lemma sim_okI:
  assumes "sim_ok ctx dev chip d s" "si_ctxs t = si_ctxs s" "si_cmdbuf t = si_cmdbuf s" "si_devs t dev = Some d'"
    "sd_version d' = sd_version d" "total_size (sd_pool d') = total_size (sd_pool d)" "pool_inv (sd_pool d')"
    "finite (owners t)" "live (sd_pool d') = slots (g_gmem_reserved_size (si_cmdbuf s chip)) t"
    "\<forall>i\<ge>si_next t. si_mems t i = None" "\<forall>i\<in>owners t. mem_good (g_gmem_reserved_size (si_cmdbuf s chip)) (the (si_mems t i))"
  shows "sim_ok ctx dev chip d' t"
  using assms by (auto simp: sim_ok_def Let_def)

lemma alloc_keeps:
  assumes ok: "sim_ok ctx dev chip d s" and sz: "admissible_size sz" and a: "rt_device_alloc_raw C (Some ctx) sz s = Inr (p, t)"
  shows "\<exists>d' i m. p = Some i \<and> si_mems s i = None \<and> si_mems t = (si_mems s)(i \<mapsto> m) \<and> sm_size m = sz \<and> \<not> sm_is_prealloc m \<and>
     sim_ok ctx dev chip d' t"
proof -
  let ?R = "g_gmem_reserved_size (si_cmdbuf s chip)" and ?i = "si_next s"
  have s: "pool_inv (sd_pool d)" "live (sd_pool d) = slots ?R s" "finite (owners s)" "?R + total_size (sd_pool d) < M64"
    "\<forall>i\<ge>?i. si_mems s i = None" "\<forall>i\<in>owners s. mem_good ?R (the (si_mems s i))"
    using ok by (auto simp: sim_ok_def Let_def)
  obtain b pool where b: "mem_pool_alloc (sd_pool d) (pool_request_of sz) = Inr (b, pool)"
    using a by (cases "mem_pool_alloc (sd_pool d) (pool_request_of sz)")
      (auto simp: rt_device_alloc_raw_def pool_request_of_def dbind_def sim_okD[OF ok] dfail_def)
  let ?m = "\<lparr>sm_v_addr = add64 (add64 b ?R) (cm_chip_gmem C (sd_model d)), sm_p_addr = add64 b ?R, sm_size = sz, sm_user_ref_cnt = 0, sm_is_prealloc = False\<rparr>"
  let ?t = "s\<lparr>si_devs := (si_devs s)(dev \<mapsto> d\<lparr>sd_pool := pool\<rparr>), si_mems := (si_mems s)(?i \<mapsto> ?m), si_next := ?i + 1\<rparr>"
  have t: "p = Some ?i" "t = ?t"
    using a b by (auto simp: rt_device_alloc_raw_def pool_request_of_def dbind_def dthen_def sim_okD[OF ok] set_dev_def new_mem_def dmodify_def dget_def dret_def Let_def)
  have g: "pool_inv pool" "live pool = add_mset (b, round_slot (pool_request_of sz)) (live (sd_pool d))" "total_size pool = total_size (sd_pool d)"
    using pool.alloc_grants[OF s(1), of "AnyBank (pool_request_of sz)" b pool] b request_of(1)[OF sz] by simp_all
  have "b + round_slot (pool_request_of sz) \<le> total_size (sd_pool d)"
    using pool.blocks_in_range[OF g(1), of "(b, round_slot (pool_request_of sz))"] g(2,3) by simp
  then have addr: "add64 b ?R = b + ?R" using s(4) by (simp add: add64_def)
  have ow: "owners ?t = insert ?i (owners s)" using owners_upd(1)[of ?t s ?i ?m] by simp
  have new: "?i \<notin> owners s" using s(5) by (auto simp: owners_def)
  have sl: "slots ?R ?t = add_mset (slot_of ?R ?m) (slots ?R s)"
    unfolding slots_def ow using s(3) new slots_same[of "owners s" ?t s ?R] by fastforce
  have "sim_ok ctx dev chip (d\<lparr>sd_pool := pool\<rparr>) ?t"
    by (rule sim_okI[OF ok]) (use g s sl ow sz new in \<open>auto simp: slot_of_def mem_good_def addr\<close>)
  moreover have "si_mems s ?i = None" using s(5) by simp
  ultimately show ?thesis unfolding t by (intro exI[of _ "d\<lparr>sd_pool := pool\<rparr>"] exI[of _ ?i] exI[of _ ?m]) simp
qed

lemma free_keeps:
  assumes ok: "sim_ok ctx dev chip d s" and f: "rt_device_free (Some ctx) p s = Inr (u, t)"
  shows "\<exists>d' i m. p = Some i \<and> si_mems s i = Some m \<and> si_mems t = (si_mems s)(i := None) \<and> sim_ok ctx dev chip d' t"
proof -
  let ?R = "g_gmem_reserved_size (si_cmdbuf s chip)"
  have s: "pool_inv (sd_pool d)" "live (sd_pool d) = slots ?R s" "finite (owners s)" "?R + total_size (sd_pool d) < M64"
    "\<forall>i\<ge>si_next s. si_mems s i = None" "\<forall>i\<in>owners s. mem_good ?R (the (si_mems s i))" "si_devs s dev = Some d"
    using ok by (auto simp: sim_ok_def Let_def)
  obtain i m where i: "p = Some i" "si_mems s i = Some m"
    using f by (auto simp: rt_device_free_def dbind_def[of "ctx_cmdbuf _"] sim_okD[OF ok] deref_bind_Inr)
  show ?thesis
  proof (cases "sm_is_prealloc m")
    case True
    then have t: "t = s\<lparr>si_mems := (si_mems s)(i := None)\<rparr>"
      using f i by (auto simp: rt_device_free_def dbind_def dthen_def sim_okD[OF ok] deref_def delete_mem_def dmodify_def dret_def)
    have "i \<notin> owners s" using True i(2) by (auto simp: owners_def)
    then have ow: "owners t = owners s" using owners_upd(2)[of t s i] by (simp add: t)
    have sl: "slots ?R t = slots ?R s" unfolding slots_def ow by (rule slots_same) (use \<open>i \<notin> owners s\<close> in \<open>auto simp: t\<close>)
    have "sim_ok ctx dev chip d t"
      by (rule sim_okI[OF ok]) (use s sl ow \<open>i \<notin> owners s\<close> in \<open>auto simp: t\<close>)
    then show ?thesis using i t by auto
  next
    case False
    obtain pool where pl: "mem_pool_free (sd_pool d) (sub64 (sm_p_addr m) ?R) = Inr pool"
      using f i False by (cases "mem_pool_free (sd_pool d) (sub64 (sm_p_addr m) ?R)")
        (auto simp: rt_device_free_def dbind_def dthen_def sim_okD[OF ok] deref_def dfail_def)
    let ?t = "s\<lparr>si_devs := (si_devs s)(dev \<mapsto> d\<lparr>sd_pool := pool\<rparr>), si_mems := (si_mems s)(i := None)\<rparr>"
    have t: "t = ?t"
      using f i False pl by (auto simp: rt_device_free_def dbind_def dthen_def sim_okD[OF ok] deref_def delete_mem_def set_dev_def dmodify_def dret_def)
    have own: "i \<in> owners s" using False i(2) by (auto simp: owners_def)
    have "mem_good ?R m" using s(6) own i(2) by force
    then have addr: "sub64 (sm_p_addr m) ?R = sm_p_addr m - ?R" by (simp add: mem_good_def sub64_def)
    have ow: "owners ?t = owners s - {i}" using owners_upd(2)[of ?t s i] by simp
    have "slots ?R s = add_mset (slot_of ?R m) (image_mset (\<lambda>i. slot_of ?R (the (si_mems s i))) (mset_set (owners s - {i})))"
      unfolding slots_def using mset_set.remove[OF s(3) own] i(2) by simp
    moreover have "slots ?R ?t = image_mset (\<lambda>i. slot_of ?R (the (si_mems s i))) (mset_set (owners s - {i}))"
      unfolding slots_def ow by (rule slots_same) auto
    ultimately have sl: "slots ?R s = add_mset (slot_of ?R m) (slots ?R ?t)" by simp
    then have "slot_of ?R m \<in># live (sd_pool d)" by (simp add: s(2))
    then obtain pool' where "mem_pool_free (sd_pool d) (sm_p_addr m - ?R) = Inr pool'" "pool_inv pool'"
      "live (sd_pool d) = add_mset (slot_of ?R m) (live pool')" "total_size pool' = total_size (sd_pool d)"
      using pool.free_returns[OF s(1), of "sm_p_addr m - ?R"] by (auto simp: slot_of_def)
    with pl addr sl s(2) have p: "pool_inv pool" "live pool = slots ?R ?t" "total_size pool = total_size (sd_pool d)" by auto
    have "sim_ok ctx dev chip (d\<lparr>sd_pool := pool\<rparr>) ?t"
      by (rule sim_okI[OF ok]) (use s p ow in auto)
    then show ?thesis unfolding t using i by auto
  qed
qed

lemma sub_keeps:
  assumes ok: "sim_ok ctx dev chip d s" and a: "CVI_RT_MemPreAlloc p off sz s = Inr (q, t)"
  shows "sim_ok ctx dev chip d t"
proof -
  let ?R = "g_gmem_reserved_size (si_cmdbuf s chip)"
  obtain n :: sim_mem where n: "t = s\<lparr>si_mems := (si_mems s)(si_next s \<mapsto> \<lparr>sm_v_addr = add64 (sm_v_addr n) off, sm_p_addr = add64 (sm_p_addr n) off,
      sm_size = sz, sm_user_ref_cnt = 0, sm_is_prealloc = True\<rparr>), si_next := si_next s + 1\<rparr>"
    using a by (auto simp: CVI_RT_MemPreAlloc_def new_mem_def dm_inv)
  define m where "m = \<lparr>sm_v_addr = add64 (sm_v_addr n) off, sm_p_addr = add64 (sm_p_addr n) off, sm_size = sz, sm_user_ref_cnt = 0, sm_is_prealloc = True\<rparr>"
  have m: "sm_is_prealloc m" "t = s\<lparr>si_mems := (si_mems s)(si_next s \<mapsto> m), si_next := si_next s + 1\<rparr>" by (simp_all add: m_def n)
  have s: "\<forall>i\<ge>si_next s. si_mems s i = None" "finite (owners s)" "live (sd_pool d) = slots ?R s" "pool_inv (sd_pool d)"
    "\<forall>i\<in>owners s. mem_good ?R (the (si_mems s i))" "si_devs s dev = Some d"
    using ok by (auto simp: sim_ok_def Let_def)
  have new: "si_next s \<notin> owners s" using s(1) by (auto simp: owners_def)
  then have ow: "owners t = owners s" using owners_upd(1)[of t s "si_next s" m] m by simp
  have "slots ?R t = slots ?R s" unfolding slots_def ow by (rule slots_same) (use new m in auto)
  then show ?thesis by (intro sim_okI[OF ok]) (use s ow new m in auto)
qed

lemma copy_keeps:
  assumes ok: "sim_ok ctx dev chip d s" and a: "CVI_RT_MemCopyS2DEx C (Some ctx) p off len src s = Inr (rc, t)"
  shows "\<exists>d'. sim_ok ctx dev chip d' t"
proof -
  let ?R = "g_gmem_reserved_size (si_cmdbuf s chip)"
  obtain x where t: "t = s\<lparr>si_devs := (si_devs s)(dev \<mapsto> d\<lparr>sd_model := x\<rparr>)\<rparr>"
    using a by (auto simp: CVI_RT_MemCopyS2DEx_def write_gmem_def dbind_Inr dthen_Inr sim_okD[OF ok] set_dev_def dm_basic_Inr split: if_splits)
  have "owners t = owners s" "slots ?R t = slots ?R s" by (simp_all add: owners_def slots_def t)
  with ok have "sim_ok ctx dev chip (d\<lparr>sd_model := x\<rparr>) t" by (intro sim_okI[OF ok]) (auto simp: sim_ok_def Let_def t)
  then show ?thesis by blast
qed

section \<open>Histories\<close>

datatype sim_op = SimAlloc u64 | SimFree ptr | SimSub ptr u64 u64 | SimCopy ptr u64 u64 "byte list"

fun sim_step :: "'m simulator \<Rightarrow> ptr \<Rightarrow> sim_op \<Rightarrow> ('m, unit) so" where
  "sim_step C ctx (SimAlloc sz) = dthen (rt_device_alloc_raw C ctx sz) (dret ())"
| "sim_step C ctx (SimFree p) = rt_device_free ctx p"
| "sim_step C ctx (SimSub p off sz) = dthen (CVI_RT_MemPreAlloc p off sz) (dret ())"
| "sim_step C ctx (SimCopy p off len src) = dthen (CVI_RT_MemCopyS2DEx C ctx p off len src) (dret ())"

lemma step_keeps:
  assumes "sim_ok ctx dev chip d s" "\<And>sz. op = SimAlloc sz \<Longrightarrow> admissible_size sz" "sim_step C (Some ctx) op s = Inr (u, t)"
  shows "\<exists>d'. sim_ok ctx dev chip d' t"
proof (cases op)
  case (SimAlloc sz)
  with assms show ?thesis using alloc_keeps[OF assms(1)] by (fastforce simp: dthen_Inr dm_basic_Inr)
next
  case (SimFree p)
  with assms show ?thesis using free_keeps[OF assms(1)] by auto
next
  case (SimSub p off sz)
  with assms show ?thesis using sub_keeps[OF assms(1)] by (auto simp: dthen_Inr dm_basic_Inr) blast
next
  case (SimCopy p off len src)
  with assms show ?thesis using copy_keeps[OF assms(1)] by (auto simp: dthen_Inr dm_basic_Inr)
qed

lemma history_keeps:
  assumes "sim_ok ctx dev chip d s" "\<forall>sz. SimAlloc sz \<in> set ops \<longrightarrow> admissible_size sz" "for_each (sim_step C (Some ctx)) ops s = Inr (u, t)"
  shows "\<exists>d'. sim_ok ctx dev chip d' t"
  using assms
proof (induction ops arbitrary: d s)
  case (Cons op ops)
  then obtain v where v: "sim_step C (Some ctx) op s = Inr ((), v)" "for_each (sim_step C (Some ctx)) ops v = Inr (u, t)"
    by (auto simp: dthen_Inr)
  obtain d' where "sim_ok ctx dev chip d' v" using step_keeps[OF Cons.prems(1) _ v(1)] Cons.prems(2) by auto
  with Cons.IH[OF this _ v(2)] Cons.prems(2) show ?case by simp
qed (auto simp: dm_basic_Inr)

text \<open>
  What is relied on of the simulated memory: a write is read back and changes nothing elsewhere.
\<close>

definition gmem_laws :: "'m simulator \<Rightarrow> bool" where
  "gmem_laws C \<longleftrightarrow> (\<forall>m a bs. cm_read C (cm_write C m a bs) a (length bs) = bs) \<and>
     (\<forall>m a bs b n. a + length bs \<le> b \<or> b + n \<le> a \<longrightarrow> cm_read C (cm_write C m a bs) b n = cm_read C m b n)"

lemma gmem_back: "gmem_laws C \<Longrightarrow> length bs = n \<Longrightarrow> cm_read C (cm_write C m a bs) a n = bs"
  by (auto simp: gmem_laws_def)

lemma gmem_other: "gmem_laws C \<Longrightarrow> a + length bs \<le> b \<or> b + n \<le> a \<Longrightarrow> cm_read C (cm_write C m a bs) b n = cm_read C m b n"
  by (auto simp: gmem_laws_def)

lemma copy_run:
  assumes "sim_ok ctx dev chip d s" "si_mems s i = Some m" "length src = sm_size m"
  shows "bm_memcpy_s2d C (Some ctx) (Some i) src s = Inr (BM_SUCCESS,
     s\<lparr>si_devs := (si_devs s)(dev \<mapsto> d\<lparr>sd_model := cm_write C (sd_model d) (sm_p_addr m) src\<rparr>)\<rparr>)"
  using assms(2,3) by (simp add: bm_memcpy_s2d_def write_gmem_def dbind_def dthen_def deref_def sim_okD[OF assms(1)] set_dev_def dmodify_def dret_def)

lemma read_run:
  assumes "sim_ok ctx dev chip d s" "si_mems s i = Some m"
  shows "bm_memcpy_d2s C (Some ctx) (Some i) s = Inr ((BM_SUCCESS, cm_read C (sd_model d) (sm_p_addr m) (sm_size m)), s)"
  using assms(2) by (simp add: bm_memcpy_d2s_def dbind_def deref_def sim_okD[OF assms(1)] dret_def)

lemma copies_apart:
  assumes ok: "sim_ok ctx dev chip d t" and C: "gmem_laws C" and mn: "si_mems t i = Some m" "si_mems t j = Some n"
    and apart: "sm_p_addr m + sm_size m \<le> sm_p_addr n \<or> sm_p_addr n + sm_size n \<le> sm_p_addr m" and len: "length src = sm_size m"
  shows "\<exists>v old. bm_memcpy_s2d C (Some ctx) (Some i) src t = Inr (BM_SUCCESS, v) \<and>
        bm_memcpy_d2s C (Some ctx) (Some i) v = Inr ((BM_SUCCESS, src), v) \<and>
        bm_memcpy_d2s C (Some ctx) (Some j) t = Inr ((BM_SUCCESS, old), t) \<and>
        bm_memcpy_d2s C (Some ctx) (Some j) v = Inr ((BM_SUCCESS, old), v)"
proof -
  let ?d = "d\<lparr>sd_model := cm_write C (sd_model d) (sm_p_addr m) src\<rparr>"
  let ?v = "t\<lparr>si_devs := (si_devs t)(dev \<mapsto> ?d)\<rparr>"
  have "owners ?v = owners t" "slots R ?v = slots R t" for R by (simp_all add: owners_def slots_def)
  with ok have v: "sim_ok ctx dev chip ?d ?v" by (intro sim_okI[OF ok]) (auto simp: sim_ok_def Let_def)
  have "cm_read C (sd_model ?d) (sm_p_addr n) (sm_size n) = cm_read C (sd_model d) (sm_p_addr n) (sm_size n)"
    "cm_read C (sd_model ?d) (sm_p_addr m) (sm_size m) = src"
    using gmem_other[OF C, of "sm_p_addr m" src "sm_p_addr n" "sm_size n"] gmem_back[OF C len] apart len by simp_all
  moreover have "bm_memcpy_d2s C (Some ctx) (Some j) ?v = Inr ((BM_SUCCESS, cm_read C (sd_model ?d) (sm_p_addr n) (sm_size n)), ?v)"
    "bm_memcpy_d2s C (Some ctx) (Some i) ?v = Inr ((BM_SUCCESS, cm_read C (sd_model ?d) (sm_p_addr m) (sm_size m)), ?v)"
    using read_run[OF v, of j n C] read_run[OF v, of i m C] mn by simp_all
  ultimately have rd: "bm_memcpy_d2s C (Some ctx) (Some i) ?v = Inr ((BM_SUCCESS, src), ?v)"
    "bm_memcpy_d2s C (Some ctx) (Some j) ?v = Inr ((BM_SUCCESS, cm_read C (sd_model d) (sm_p_addr n) (sm_size n)), ?v)" by simp_all
  show ?thesis
    by (rule exI[of _ ?v], rule exI[of _ "cm_read C (sd_model d) (sm_p_addr n) (sm_size n)"],
        rule conjI[OF copy_run[OF ok mn(1) len] conjI[OF rd(1) conjI[OF read_run[OF ok mn(2)] rd(2)]]])
qed

section \<open>From start to finish\<close>

text \<open>The state when the program starts; the fields of the command buffer objects are not set yet.\<close>

definition sim_start :: "(sim_chip \<Rightarrow> cmodel_cmdbuf) \<Rightarrow> 'm sim" where
  "sim_start cb = \<lparr>g_run_chip = None, g_device = None, g_device_ref = 0, si_devs = Map.empty, si_ctxs = Map.empty,
     si_mems = Map.empty, si_next = 0, si_cmdbuf = cb\<rparr>"

text \<open>
  The environment: the variable names a chip that the kernel library has, and the simulated memory
  is larger than the reserved areas by a whole number of pool slots.
\<close>

definition sound_env :: "'m simulator \<Rightarrow> sim_chip \<Rightarrow> bool" where
  "sound_env C chip \<longleftrightarrow> (\<exists>nm. se_chip_name C = Some nm \<and> se_chip_of C nm = Some chip) \<and> se_registers C chip \<and> se_version C chip = Some chip \<and>
     se_tiu_reserved C chip + se_tdma_reserved C chip < se_gmem_size C chip \<and> se_gmem_size C chip < M64 \<and>
     MIN_SLOT_SIZE dvd se_gmem_size C chip - (se_tiu_reserved C chip + se_tdma_reserved C chip)"

lemma init_ok:
  assumes "sound_env C chip"
  obtains d t where "CVI_RT_Init C (sim_start cb) = Inr ((CVI_RC_SUCCESS, Some 1), t)" "sim_ok 1 0 chip d t"
    "g_gmem_reserved_size (si_cmdbuf t chip) = se_tiu_reserved C chip + se_tdma_reserved C chip" "si_mems t = Map.empty"
    "sd_pool d = mem_pool_create (se_gmem_size C chip - (se_tiu_reserved C chip + se_tdma_reserved C chip))" "sd_locked d = False"
proof -
  let ?r = "se_tiu_reserved C chip + se_tdma_reserved C chip" and ?g = "se_gmem_size C chip"
  obtain nm where nm: "se_chip_name C = Some nm" "se_chip_of C nm = Some chip" using assms by (auto simp: sound_env_def)
  have e: "se_registers C chip" "se_version C chip = Some chip" "?r < ?g" "?g < M64" "MIN_SLOT_SIZE dvd ?g - ?r"
    using assms by (auto simp: sound_env_def)
  then have ar: "add64 (se_tiu_reserved C chip) (se_tdma_reserved C chip) = ?r" "sub64 ?g ?r = ?g - ?r"
    by (simp_all add: add64_def sub64_def)
  have pool: "pool_inv (mem_pool_create (?g - ?r))" "live (mem_pool_create (?g - ?r)) = {#}" "total_size (mem_pool_create (?g - ?r)) = ?g - ?r"
    using mem_pool_create_inv[of "?g - ?r"] e by simp_all
  let ?d = "\<lparr>sd_index = 0, sd_model = cm_init C chip, sd_pool = mem_pool_create (?g - ?r), sd_version = Some chip, sd_gmem_size = ?g, sd_locked = False\<rparr>"
  let ?c = "\<lparr>g_tiu_cmdbuf_gaddr = se_tiu_addr C chip, g_tdma_cmdbuf_gaddr = se_tdma_addr C chip,
        g_tiu_cmdbuf_reserved_size = se_tiu_reserved C chip, g_tdma_cmdbuf_reserved_size = se_tdma_reserved C chip,
        g_gmem_reserved_size = ?r, g_gmem_size = ?g\<rparr>"
  let ?t = "\<lparr>g_run_chip = Some nm, g_device = Some 0, g_device_ref = 1, si_devs = [0 \<mapsto> ?d], si_ctxs = [1 \<mapsto> \<lparr>sc_dev = Some 0, sc_seq_no = 0\<rparr>],
     si_mems = Map.empty, si_next = 2, si_cmdbuf = cb(chip := ?c)\<rparr>"
  have "CVI_RT_Init C (sim_start cb) = Inr ((CVI_RC_SUCCESS, Some 1), ?t)"
    by (simp add: CVI_RT_Init_def bm_init_def bm_device_open_def rt_device_open_def bm_context_create_def bm_bind_device_def sim_start_def
        getCmdbufPtr_def set_ctx_def deref_def sm_run nm e ar numeral_2_eq_2 Let_def)
  moreover have "sim_ok 1 0 chip ?d ?t" using e pool by (simp add: sim_ok_def owners_def slots_def)
  ultimately show ?thesis by (intro that[of ?t ?d]) simp_all
qed

lemma carve_run:
  assumes ok: "sim_ok ctx dev chip d t" and m: "i \<in> owners t" "si_mems t i = Some m" and sz: "off + sz < M64" and a: "CVI_RT_MemPreAlloc (Some i) off sz t = Inr (q, t')"
  obtains k c where "q = Some k" "si_mems t' = (si_mems t)(k \<mapsto> c)" "si_mems t k = None" "sm_p_addr c = sm_p_addr m + off" "sm_size c = sz" "off + sz \<le> sm_size m"
proof -
  have "sm_p_addr m + sm_size m < M64" using owner_inside[OF ok m] ok by (auto simp: sim_ok_def Let_def)
  moreover have "add64 sz off = off + sz" using sz by (simp add: add64_def add.commute)
  moreover have "off + sz \<le> sm_size m" using a m(2) calculation(2) by (auto simp: CVI_RT_MemPreAlloc_def dm_inv)
  moreover have "si_mems t (si_next t) = None" using ok by (simp add: sim_ok_def Let_def)
  ultimately show thesis using a m(2)
    by (intro that[of "si_next t" "\<lparr>sm_v_addr = add64 (sm_v_addr m) off, sm_p_addr = add64 (sm_p_addr m) off, sm_size = sz, sm_user_ref_cnt = 0, sm_is_prealloc = True\<rparr>"])
      (auto simp: CVI_RT_MemPreAlloc_def new_mem_def dm_inv add64_def)
qed

text \<open>
  C11: after opening the simulated device and any history of allocations, releases, sub-buffers and
  copies, two live memory objects that were allocated (rather than carved from another one) lie apart from each
  other behind the area reserved for command buffers, and a copy into one of them is read back from it
  and leaves what is read from the other one as it was. A sub-buffer that is then carved from the first lies
  inside it, where it was asked for, and a copy into the sub-buffer is read back from it and leaves
  the other object as it was, too.
\<close>

theorem sim_memories_isolated:
  assumes "sound_env C chip" "gmem_laws C" "CVI_RT_Init C (sim_start cb) = Inr ((rc, ctx), s)"
    and "\<forall>sz. SimAlloc sz \<in> set ops \<longrightarrow> admissible_size sz" "for_each (sim_step C ctx) ops s = Inr (u, t)"
    and "si_mems t i = Some m" "si_mems t j = Some n" "i \<noteq> j" "\<not> sm_is_prealloc m" "\<not> sm_is_prealloc n" "length src = sm_size m"
  shows "g_gmem_reserved_size (si_cmdbuf t chip) \<le> sm_p_addr m \<and>
     (sm_p_addr m + sm_size m \<le> sm_p_addr n \<or> sm_p_addr n + sm_size n \<le> sm_p_addr m) \<and>
     (\<exists>v old. bm_memcpy_s2d C ctx (Some i) src t = Inr (BM_SUCCESS, v) \<and>
        bm_memcpy_d2s C ctx (Some i) v = Inr ((BM_SUCCESS, src), v) \<and>
        bm_memcpy_d2s C ctx (Some j) t = Inr ((BM_SUCCESS, old), t) \<and>
        bm_memcpy_d2s C ctx (Some j) v = Inr ((BM_SUCCESS, old), v)) \<and>
     (\<forall>off sz q t' part. off + sz < M64 \<and> CVI_RT_MemPreAlloc (Some i) off sz t = Inr (q, t') \<and> length part = sz \<longrightarrow>
       (\<exists>k c v old. q = Some k \<and> si_mems t' k = Some c \<and> sm_p_addr c = sm_p_addr m + off \<and> sm_size c = sz \<and> off + sz \<le> sm_size m \<and>
        bm_memcpy_s2d C ctx (Some k) part t' = Inr (BM_SUCCESS, v) \<and>
        bm_memcpy_d2s C ctx (Some k) v = Inr ((BM_SUCCESS, part), v) \<and>
        bm_memcpy_d2s C ctx (Some j) t' = Inr ((BM_SUCCESS, old), t') \<and>
        bm_memcpy_d2s C ctx (Some j) v = Inr ((BM_SUCCESS, old), v)))"
proof -
  obtain d where s: "ctx = Some 1" "sim_ok 1 0 chip d s" using init_ok[OF assms(1), of cb] assms(3) by (metis Inr_inject prod.inject)
  obtain d' where ok: "sim_ok 1 0 chip d' t" using history_keeps[OF s(2) assms(4) assms(5)[unfolded s(1)]] by blast
  have own: "i \<in> owners t" "j \<in> owners t" using assms(6-10) by (auto simp: owners_def)
  note apart = owners_disjoint[OF ok own assms(8,6,7)]
  have carved: "\<exists>k c v old. q = Some k \<and> si_mems t' k = Some c \<and> sm_p_addr c = sm_p_addr m + off \<and> sm_size c = sz \<and> off + sz \<le> sm_size m \<and>
        bm_memcpy_s2d C (Some 1) (Some k) part t' = Inr (BM_SUCCESS, v) \<and> bm_memcpy_d2s C (Some 1) (Some k) v = Inr ((BM_SUCCESS, part), v) \<and>
        bm_memcpy_d2s C (Some 1) (Some j) t' = Inr ((BM_SUCCESS, old), t') \<and> bm_memcpy_d2s C (Some 1) (Some j) v = Inr ((BM_SUCCESS, old), v)"
    if x: "off + sz < M64" "CVI_RT_MemPreAlloc (Some i) off sz t = Inr (q, t')" "length part = sz" for off sz q t' part
  proof -
    obtain k c where k: "q = Some k" "si_mems t' = (si_mems t)(k \<mapsto> c)" "si_mems t k = None" "sm_p_addr c = sm_p_addr m + off" "sm_size c = sz" "off + sz \<le> sm_size m"
      by (rule carve_run[OF ok own(1) assms(6) x(1,2)])
    have "si_mems t' k = Some c" "si_mems t' j = Some n" "sm_p_addr c + sm_size c \<le> sm_p_addr n \<or> sm_p_addr n + sm_size n \<le> sm_p_addr c"
      using k assms(7) apart by auto
    from copies_apart[OF sub_keeps[OF ok x(2)] assms(2) this] k x(3) \<open>si_mems t' k = Some c\<close> show ?thesis by blast
  qed
  show ?thesis
    unfolding s(1) using owner_inside[OF ok own(1) assms(6)] apart copies_apart[OF ok assms(2,6,7) apart assms(11)] carved by blast
qed

text \<open>A simulator whose memory is a function from addresses to bytes, with 64 KiB behind two small command areas.\<close>

definition byte_sim :: "sim_chip \<Rightarrow> (nat \<Rightarrow> byte) simulator" where
  "byte_sim chip = \<lparr>cm_init = (\<lambda>_ _. 0), cm_read = (\<lambda>m a n. map m [a..<a + n]),
     cm_write = (\<lambda>m a bs x. if a \<le> x \<and> x < a + length bs then bs ! (x - a) else m x), cm_set_base = (\<lambda>m _ _. m), cm_run = (\<lambda>m _ _ _ _. m),
     cm_chip_gmem = (\<lambda>_. 0), se_chip_name = Some ''chip'', se_chip_of = (\<lambda>_. Some chip), se_registers = (\<lambda>_. True),
     se_version = Some, se_gmem_size = (\<lambda>_. 65536 + 192), se_tiu_addr = (\<lambda>_. 0), se_tdma_addr = (\<lambda>_. 128), se_tiu_reserved = (\<lambda>_. 128),
     se_tdma_reserved = (\<lambda>_. 64), se_layout = (\<lambda>_. demo_layout), se_tiu_cmd_end = (\<lambda>_ bs. bs), se_tiu_intr = (\<lambda>_ bs. bs), se_tdma_reg_bytes = 4,
     se_tdma_eod = (\<lambda>_ bs. bs), se_junk = (\<lambda>_. 0)\<rparr>"

lemma byte_sim_laws: "gmem_laws (byte_sim chip)"
  by (auto simp: gmem_laws_def byte_sim_def intro: nth_equalityI)

lemma byte_sim_env: "sound_env (byte_sim chip) chip"
  by (simp add: sound_env_def byte_sim_def M64_def MIN_SLOT_SIZE_def)

definition cb0 :: "sim_chip \<Rightarrow> cmodel_cmdbuf" where
  "cb0 = (\<lambda>_. \<lparr>g_tiu_cmdbuf_gaddr = 0, g_tdma_cmdbuf_gaddr = 0, g_tiu_cmdbuf_reserved_size = 0, g_tdma_cmdbuf_reserved_size = 0,
     g_gmem_reserved_size = 0, g_gmem_size = 0\<rparr>)"

lemma two_allocations:
  "\<exists>s t t' m n. CVI_RT_Init (byte_sim S181x) (sim_start cb) = Inr ((CVI_RC_SUCCESS, Some 1), s) \<and>
     for_each (sim_step (byte_sim S181x) (Some 1)) [SimAlloc 5, SimAlloc 7] s = Inr ((), t) \<and>
     si_mems t 2 = Some m \<and> si_mems t 3 = Some n \<and> \<not> sm_is_prealloc m \<and> \<not> sm_is_prealloc n \<and> sm_size m = 5 \<and>
     CVI_RT_MemPreAlloc (Some 2) 1 2 t = Inr (Some 4, t')"
  by (simp add: CVI_RT_Init_def bm_init_def bm_device_open_def rt_device_open_def bm_context_create_def bm_bind_device_def sim_start_def
      getCmdbufPtr_def set_ctx_def deref_def sm_run byte_sim_def pool_eval rt_device_alloc_raw_def ctx_cmdbuf_def ctx_dev_def set_dev_def
      new_mem_def align_mask64_def CVI_RT_MemPreAlloc_def)

theorem sim_memories_isolated_witness:
  "\<exists>s t t' v v' m n c old. CVI_RT_Init (byte_sim S181x) (sim_start cb0) = Inr ((CVI_RC_SUCCESS, Some 1), s) \<and>
     for_each (sim_step (byte_sim S181x) (Some 1)) [SimAlloc 5, SimAlloc 7] s = Inr ((), t) \<and>
     si_mems t 2 = Some m \<and> si_mems t 3 = Some n \<and> (sm_p_addr m + sm_size m \<le> sm_p_addr n \<or> sm_p_addr n + sm_size n \<le> sm_p_addr m) \<and>
     bm_memcpy_s2d (byte_sim S181x) (Some 1) (Some 2) [1, 2, 3, 4, 5] t = Inr (BM_SUCCESS, v) \<and>
     bm_memcpy_d2s (byte_sim S181x) (Some 1) (Some 2) v = Inr ((BM_SUCCESS, [1, 2, 3, 4, 5]), v) \<and>
     CVI_RT_MemPreAlloc (Some 2) 1 2 t = Inr (Some 4, t') \<and> si_mems t' 4 = Some c \<and> sm_p_addr c = sm_p_addr m + 1 \<and>
     bm_memcpy_s2d (byte_sim S181x) (Some 1) (Some 4) [8, 9] t' = Inr (BM_SUCCESS, v') \<and>
     bm_memcpy_d2s (byte_sim S181x) (Some 1) (Some 3) v' = Inr ((BM_SUCCESS, old), v')"
proof -
  obtain s t t' m n where w: "CVI_RT_Init (byte_sim S181x) (sim_start cb0) = Inr ((CVI_RC_SUCCESS, Some 1), s)"
    "for_each (sim_step (byte_sim S181x) (Some 1)) [SimAlloc 5, SimAlloc 7] s = Inr ((), t)"
    "si_mems t 2 = Some m" "si_mems t 3 = Some n" "\<not> sm_is_prealloc m" "\<not> sm_is_prealloc n" "sm_size m = 5"
    "CVI_RT_MemPreAlloc (Some 2) 1 2 t = Inr (Some 4, t')"
    using two_allocations[of cb0] by blast
  have a: "\<forall>sz. SimAlloc sz \<in> set [SimAlloc 5, SimAlloc 7] \<longrightarrow> admissible_size sz" by (auto simp: admissible_size_def M64_def)
  have l: "length [1, 2, 3, 4, 5 :: byte] = sm_size m" by (simp add: w(7))
  have c: "1 + 2 < M64 \<and> CVI_RT_MemPreAlloc (Some 2) 1 2 t = Inr (Some 4, t') \<and> length [8, 9 :: byte] = 2" using w(8) by (simp add: M64_def)
  have "(2 :: nat) \<noteq> 3" by simp
  note iso = sim_memories_isolated[OF byte_sim_env byte_sim_laws w(1) a w(2,3,4) this w(5,6) l]
  from iso c obtain k c v' old where "Some 4 = Some k" "si_mems t' k = Some c" "sm_p_addr c = sm_p_addr m + 1"
    "bm_memcpy_s2d (byte_sim S181x) (Some 1) (Some k) [8, 9] t' = Inr (BM_SUCCESS, v')"
    "bm_memcpy_d2s (byte_sim S181x) (Some 1) (Some 3) v' = Inr ((BM_SUCCESS, old), v')" by blast
  with iso w(1-4,8) show ?thesis by blast
qed

end
