(* ===== verification/SimRun.thy ===== *)
theory SimRun
  imports SimMem
begin

text \<open>
  Command buffers on the simulator: what adjusting a buffer does to its commands, what is extracted
  for either engine, that running a loaded buffer hands the engines exactly that, and why a dma
  buffer cannot be run on two of the chips.
\<close>

section \<open>Buffers as lists of commands\<close>

text \<open>A command is a header and a body; a buffer holds the commands one after the other.\<close>

type_synonym cmd = "byte list \<times> byte list"

definition buffer :: "cmd list \<Rightarrow> byte list" where
  "buffer cs = concat (map (\<lambda>(h, b). h @ b) cs)"

definition good_cmd :: "cmd_layout \<Rightarrow> cmd \<Rightarrow> bool" where
  "good_cmd L c \<longleftrightarrow> length (fst c) = sizeof_cmd_hdr L \<and> cl_hdr_magic L (fst c) = cl_magic L \<and> cl_hdr_len L (fst c) = length (snd c)"

definition of_engine :: "cmd_layout \<Rightarrow> nat \<Rightarrow> cmd \<Rightarrow> bool" where
  "of_engine L e c \<longleftrightarrow> cl_hdr_engine L (fst c) = e"

definition edit_body :: "nat \<Rightarrow> (byte list \<Rightarrow> byte list) \<Rightarrow> cmd \<Rightarrow> cmd" where
  "edit_body n g c = (fst c, g (take n (snd c)) @ drop n (snd c))"

fun on_last :: "(cmd \<Rightarrow> bool) \<Rightarrow> (cmd \<Rightarrow> cmd) \<Rightarrow> cmd list \<Rightarrow> cmd list" where
  "on_last P f [] = []"
| "on_last P f (c # cs) = (if P c \<and> \<not> list_ex P cs then f c # cs else c # on_last P f cs)"

definition on_all :: "(cmd \<Rightarrow> bool) \<Rightarrow> (cmd \<Rightarrow> cmd) \<Rightarrow> cmd list \<Rightarrow> cmd list" where
  "on_all P f = map (\<lambda>c. if P c then f c else c)"

lemma buffer_simps [simp]: "buffer [] = []" "buffer (c # cs) = fst c @ snd c @ buffer cs" "buffer (cs @ ds) = buffer cs @ buffer ds"
  by (simp_all add: buffer_def case_prod_unfold)

lemma good_lengths: "list_all (good_cmd L) cs \<Longrightarrow> length cs \<le> length (buffer cs)"
  by (induction cs) (auto simp: good_cmd_def sizeof_cmd_hdr_def)

lemma on_last_split:
  assumes "list_ex P cs"
  obtains xs y zs where "cs = xs @ y # zs" "P y" "\<not> list_ex P zs" "\<And>f. on_last P f cs = xs @ f y # zs"
proof -
  obtain xs y zs where s: "cs = xs @ y # zs" "P y" "\<forall>z\<in>set zs. \<not> P z"
    using split_list_last_prop[of cs P] assms by (auto simp: list_ex_iff)
  then have n: "\<not> list_ex P zs" by (auto simp: list_ex_iff)
  have "on_last P f (xs @ y # zs) = xs @ f y # zs" for f using s(2) n by (induction xs) auto
  with s n show ?thesis by (intro that) auto
qed

lemma on_last_none: "\<not> list_ex P cs \<Longrightarrow> on_last P f cs = cs"
  by (induction cs) auto

section \<open>The loops over a buffer\<close>

text \<open>At the start of a command behind the bytes \<open>pre\<close>.\<close>

lemma at_cmd:
  assumes "good_cmd L c"
  shows "cmd_hdr_at L (pre @ fst c @ snd c @ post) (length pre) = Inr (fst c)"
    "length pre < length (pre @ fst c @ snd c @ post)"
    "length (pre @ fst c @ snd c @ post) < 2 ^ 32 \<Longrightarrow>
       add32 (length pre) (sizeof_cmd_hdr L + cl_hdr_len L (fst c)) = length (pre @ fst c @ snd c)"
proof -
  have h: "length (fst c) = sizeof_cmd_hdr L" "0 < sizeof_cmd_hdr L" "cl_hdr_len L (fst c) = length (snd c)"
    using assms by (auto simp: good_cmd_def sizeof_cmd_hdr_def)
  show "cmd_hdr_at L (pre @ fst c @ snd c @ post) (length pre) = Inr (fst c)" using h by (simp add: cmd_hdr_at_def)
  show "length pre < length (pre @ fst c @ snd c @ post)" using h by simp
  show "length (pre @ fst c @ snd c @ post) < 2 ^ 32 \<Longrightarrow>
       add32 (length pre) (sizeof_cmd_hdr L + cl_hdr_len L (fst c)) = length (pre @ fst c @ snd c)"
    using h by (simp add: add32_def M32_def)
qed

lemma extract_loop_run:
  assumes "list_all (good_cmd L) cs" "length (pre @ buffer cs) < 2 ^ 32" "length cs < n"
  shows "extract_loop L e n (length (pre @ buffer cs)) (length pre) (pre @ buffer cs) found =
     Inr (Some (found @ concat (map snd (filter (of_engine L e) cs))))"
  using assms
proof (induction cs arbitrary: pre found n)
  case Nil
  then show ?case by (cases n) auto
next
  case (Cons c cs)
  obtain k where n: "n = Suc k" "length cs < k" using Cons.prems(3) by (cases n) auto
  have c: "good_cmd L c" "list_all (good_cmd L) cs" using Cons.prems(1) by auto
  have len: "length (pre @ fst c @ snd c @ buffer cs) < 2 ^ 32" using Cons.prems(2) by simp
  note a = at_cmd(1,2)[OF c(1), of pre "buffer cs"] at_cmd(3)[OF c(1) len]
  have m: "cl_hdr_magic L (fst c) = cl_magic L" "cl_hdr_len L (fst c) = length (snd c)" "length (fst c) = sizeof_cmd_hdr L"
    using c(1) by (auto simp: good_cmd_def)
  show ?case
    using Cons.IH[OF c(2), of "pre @ fst c @ snd c" k] n len a m by (simp add: Let_def bind_res_def of_engine_def)
qed

lemma edit_at_body:
  assumes "good_cmd L c" "n \<le> length (snd c)"
  shows "edit_at (pre @ fst c @ snd c @ post) (length pre + sizeof_cmd_hdr L) n g = Inr (pre @ fst c @ snd (edit_body n g c) @ post)"
  using assms by (simp add: edit_at_def edit_body_def good_cmd_def)

lemma good_edit: "good_cmd L c \<Longrightarrow> n \<le> length (snd c) \<Longrightarrow> (\<And>bs. length bs = n \<Longrightarrow> length (g bs) = n) \<Longrightarrow> good_cmd L (edit_body n g c)"
  by (simp add: good_cmd_def edit_body_def)

lemma edit_body_fst [simp]: "fst (edit_body n g c) = fst c" by (simp add: edit_body_def)

lemma edit_body_length: "n \<le> length (snd c) \<Longrightarrow> (\<And>bs. length bs = n \<Longrightarrow> length (g bs) = n) \<Longrightarrow> length (snd (edit_body n g c)) = length (snd c)"
  by (simp add: edit_body_def)

lemma edit_loop_run:
  assumes "list_all (good_cmd L) cs" "length (pre @ buffer cs) < 2 ^ 32" "length cs < n"
    "\<And>bs. length bs = k \<Longrightarrow> length (g bs) = k" "\<And>c. c \<in> set cs \<Longrightarrow> of_engine L e c \<Longrightarrow> k \<le> length (snd c)"
  shows "edit_loop L (\<lambda>i h buf. if cl_hdr_engine L h = e then edit_at buf (i + sizeof_cmd_hdr L) k g else Inr buf) n
       (length (pre @ buffer cs)) (length pre) (pre @ buffer cs) =
     Inr (pre @ buffer (on_all (of_engine L e) (edit_body k g) cs))"
  using assms(1-3,5)
proof (induction cs arbitrary: pre n)
  case Nil
  then show ?case by (cases n) (auto simp: on_all_def)
next
  case (Cons c cs)
  obtain j where n: "n = Suc j" "length cs < j" using Cons.prems(3) by (cases n) auto
  have c: "good_cmd L c" "list_all (good_cmd L) cs" using Cons.prems(1) by auto
  have len: "length (pre @ fst c @ snd c @ buffer cs) < 2 ^ 32" using Cons.prems(2) by simp
  note a = at_cmd(1,2)[OF c(1), of pre "buffer cs"] at_cmd(3)[OF c(1) len]
  let ?c = "if of_engine L e c then edit_body k g c else c"
  have k: "of_engine L e c \<Longrightarrow> k \<le> length (snd c)" using Cons.prems(4) by simp
  have c': "fst ?c = fst c" "length (snd ?c) = length (snd c)" using k edit_body_length[of k c g] assms(4) by auto
  have step: "(if cl_hdr_engine L (fst c) = e then edit_at (pre @ fst c @ snd c @ buffer cs) (length pre + sizeof_cmd_hdr L) k g
      else Inr (pre @ fst c @ snd c @ buffer cs)) = Inr ((pre @ fst c @ snd ?c) @ buffer cs)"
    using edit_at_body[OF c(1) k, of pre "buffer cs" g] by (auto simp: of_engine_def)
  have "length ((pre @ fst c @ snd ?c) @ buffer cs) < 2 ^ 32" using len c' by simp
  from Cons.IH[OF c(2) this n(2)] Cons.prems(4) show ?case
    using n len a step c' by (simp add: bind_res_def on_all_def)
qed

fun last_off :: "(cmd \<Rightarrow> bool) \<Rightarrow> nat \<Rightarrow> cmd list \<Rightarrow> nat option \<Rightarrow> nat option" where
  "last_off P i [] acc = acc"
| "last_off P i (c # cs) acc = last_off P (i + length (fst c) + length (snd c)) cs (if P c then Some i else acc)"

lemma last_off_split: "P y \<Longrightarrow> \<not> list_ex P zs \<Longrightarrow> last_off P i (xs @ y # zs) acc = Some (i + length (buffer xs))"
proof (induction xs arbitrary: i acc)
  case Nil
  have "\<not> list_ex P zs \<Longrightarrow> last_off P j zs acc = acc" for j acc by (induction zs arbitrary: j acc) auto
  with Nil show ?case by simp
qed (auto simp: add.assoc)

lemma last_off_none: "\<not> list_ex P cs \<Longrightarrow> last_off P i cs acc = acc"
  by (induction cs arbitrary: i acc) auto

definition known_engine :: "cmd_layout \<Rightarrow> cmd \<Rightarrow> bool" where
  "known_engine L c \<longleftrightarrow> cl_hdr_engine L (fst c) \<in> {cl_tiu L, cl_tdma L, cl_cpu L}"

lemma last_cmds_run:
  assumes "list_all (good_cmd L) cs" "length (pre @ buffer cs) < 2 ^ 32" "length cs < n" "strict \<Longrightarrow> list_all (known_engine L) cs" "cl_tiu L \<noteq> cl_tdma L"
  shows "last_cmds L strict n (length (pre @ buffer cs)) (length pre) (pre @ buffer cs) a b =
     Inr (last_off (of_engine L (cl_tiu L)) (length pre) cs a, last_off (of_engine L (cl_tdma L)) (length pre) cs b)"
  using assms(1-4)
proof (induction cs arbitrary: pre n a b)
  case Nil
  then show ?case by (cases n) auto
next
  case (Cons c cs)
  obtain j where n: "n = Suc j" "length cs < j" using Cons.prems(3) by (cases n) auto
  have c: "good_cmd L c" "list_all (good_cmd L) cs" using Cons.prems(1) by auto
  have len: "length (pre @ fst c @ snd c @ buffer cs) < 2 ^ 32" using Cons.prems(2) by simp
  note at = at_cmd(1,2)[OF c(1), of pre "buffer cs"] at_cmd(3)[OF c(1) len]
  have st: "strict \<Longrightarrow> list_all (known_engine L) cs" "strict \<Longrightarrow> known_engine L c" using Cons.prems(4) by auto
  have "length ((pre @ fst c @ snd c) @ buffer cs) < 2 ^ 32" using len by simp
  note IH = Cons.IH[OF c(2) this n(2) st(1)]
  show ?case using n at st(2) assms(5) IH by (auto simp: bind_res_def Let_def of_engine_def known_engine_def add.assoc)
qed

lemma edit_last_run:
  assumes "list_all (good_cmd L) cs" "\<And>c. c \<in> set cs \<Longrightarrow> P c \<Longrightarrow> n \<le> length (snd c)"
  shows "edit_cmd L (last_off P 0 cs None) n g (buffer cs) = Inr (buffer (on_last P (edit_body n g) cs))"
proof (cases "list_ex P cs")
  case True
  then obtain xs y zs where s: "cs = xs @ y # zs" "P y" "\<not> list_ex P zs" "\<And>f. on_last P f cs = xs @ f y # zs"
    using on_last_split by metis
  have "good_cmd L y" "n \<le> length (snd y)" using assms s by auto
  with s show ?thesis using edit_at_body[of L y n "buffer xs" "buffer zs" g] by (simp add: edit_cmd_def last_off_split)
next
  case False
  then show ?thesis by (simp add: edit_cmd_def last_off_none on_last_none)
qed

section \<open>Adjusting a buffer\<close>

text \<open>The commands after the adjustment: the last of either engine is marked, then every one is changed.\<close>

definition adjusted :: "'m simulator \<Rightarrow> sim_chip \<Rightarrow> cmd list \<Rightarrow> cmd list" where
  "adjusted C chip cs = (let L = se_layout C chip; tiu = of_engine L (cl_tiu L); tdma = of_engine L (cl_tdma L); bd = cl_bd_reg_bytes L in
     on_all tiu (edit_body bd reorder_bd_cmdbuf_reg) (on_all tdma (edit_body 4 (set_low_bit 4))
     (on_last tdma (edit_body 4 (set_low_bit 3)) (on_last tiu (edit_body bd (se_tiu_intr C chip))
     (on_last tdma (edit_body (se_tdma_reg_bytes C) (se_tdma_eod C chip)) (on_last tiu (edit_body bd (se_tiu_cmd_end C chip)) cs))))))"

text \<open>What is relied on of the kernel library: rewriting a register keeps its length.\<close>

definition regs_ok :: "'m simulator \<Rightarrow> sim_chip \<Rightarrow> bool" where
  "regs_ok C chip \<longleftrightarrow> (\<forall>bs. length (se_tiu_cmd_end C chip bs) = length bs) \<and> (\<forall>bs. length (se_tiu_intr C chip bs) = length bs) \<and>
     (\<forall>bs. length (se_tdma_eod C chip bs) = length bs) \<and> cl_tiu (se_layout C chip) \<noteq> cl_tdma (se_layout C chip)"

definition whole_cmd :: "'m simulator \<Rightarrow> sim_chip \<Rightarrow> cmd \<Rightarrow> bool" where
  "whole_cmd C chip c \<longleftrightarrow> (let L = se_layout C chip in good_cmd L c \<and> known_engine L c \<and>
     (of_engine L (cl_tiu L) c \<longrightarrow> cl_bd_reg_bytes L \<le> length (snd c)) \<and>
     (of_engine L (cl_tdma L) c \<longrightarrow> 4 \<le> length (snd c) \<and> se_tdma_reg_bytes C \<le> length (snd c)))"

definition same_shape :: "cmd \<Rightarrow> cmd \<Rightarrow> bool" where
  "same_shape c d \<longleftrightarrow> fst c = fst d \<and> length (snd c) = length (snd d)"

lemma same_shape_refl: "list_all2 same_shape cs cs" by (simp add: list_all2_refl same_shape_def)

lemma whole_shape: "list_all2 same_shape cs ds \<Longrightarrow> list_all (whole_cmd C chip) cs \<Longrightarrow> list_all (whole_cmd C chip) ds"
  by (induction rule: list_all2_induct) (auto simp: same_shape_def whole_cmd_def Let_def good_cmd_def known_engine_def of_engine_def)

lemma shape_length: "list_all2 same_shape cs ds \<Longrightarrow> length (buffer ds) = length (buffer cs)"
  by (induction rule: list_all2_induct) (auto simp: same_shape_def)

lemma edit_shape:
  assumes "\<And>c. c \<in> set cs \<Longrightarrow> P c \<Longrightarrow> n \<le> length (snd c)" "\<And>bs. length bs = n \<Longrightarrow> length (g bs) = n"
  shows "list_all2 same_shape cs (on_last P (edit_body n g) cs)" "list_all2 same_shape cs (on_all P (edit_body n g) cs)"
proof -
  have e: "P c \<Longrightarrow> c \<in> set cs \<Longrightarrow> same_shape c (edit_body n g c)" for c
    using assms edit_body_length[of n c g] by (simp add: same_shape_def)
  then show "list_all2 same_shape cs (on_last P (edit_body n g) cs)"
    by (induction cs) (auto simp: same_shape_refl, auto simp: same_shape_def)
  show "list_all2 same_shape cs (on_all P (edit_body n g) cs)"
    using e by (auto simp: on_all_def list_all2_conv_all_nth same_shape_def)
qed

lemma length_reorder_reg [simp]: "length (reorder_bd_cmdbuf_reg r) = length r"
proof -
  have f: "length (foldl (\<lambda>b k. b[p k := v b k]) r ks) = length r" for ks :: "nat list" and p and v :: "byte list \<Rightarrow> nat \<Rightarrow> byte"
    by (induction ks arbitrary: r) auto
  show ?thesis by (simp add: reorder_bd_cmdbuf_reg_def Let_def f)
qed

lemma length_set_low_bit: "0 < length bs \<Longrightarrow> length (set_low_bit k bs) = length bs"
  by (cases bs) (simp_all add: set_low_bit_def)

lemma whole_parts:
  assumes "list_all (whole_cmd C chip) cs"
  shows "list_all (good_cmd (se_layout C chip)) cs" "list_all (known_engine (se_layout C chip)) cs"
    "c \<in> set cs \<Longrightarrow> of_engine (se_layout C chip) (cl_tiu (se_layout C chip)) c \<Longrightarrow> cl_bd_reg_bytes (se_layout C chip) \<le> length (snd c)"
    "c \<in> set cs \<Longrightarrow> of_engine (se_layout C chip) (cl_tdma (se_layout C chip)) c \<Longrightarrow> 4 \<le> length (snd c) \<and> se_tdma_reg_bytes C \<le> length (snd c)"
  using assms by (auto simp: list_all_iff whole_cmd_def Let_def)

lemma last_off_shape:
  "list_all2 same_shape cs ds \<Longrightarrow> last_off (of_engine L e) i ds acc = last_off (of_engine L e) i cs acc"
proof (induction arbitrary: i acc rule: list_all2_induct)
  case (Cons c cs d ds)
  then have "of_engine L e d = of_engine L e c" "length (fst d) = length (fst c)" "length (snd d) = length (snd c)"
    by (auto simp: same_shape_def of_engine_def)
  with Cons.IH show ?case by simp
qed simp

lemma edits_run:
  assumes w: "list_all (whole_cmd C chip) cs" and r: "regs_ok C chip" and len: "length (buffer cs) < 2 ^ 32"
  defines "L \<equiv> se_layout C chip" and "sz \<equiv> length (buffer cs)"
  shows "set_eod C chip sz (buffer cs) = Inr (buffer
      (on_last (of_engine L (cl_tdma L)) (edit_body (se_tdma_reg_bytes C) (se_tdma_eod C chip))
        (on_last (of_engine L (cl_tiu L)) (edit_body (cl_bd_reg_bytes L) (se_tiu_cmd_end C chip)) cs)))"
    "enable_interrupt C chip sz (buffer cs) = Inr (buffer
      (on_last (of_engine L (cl_tdma L)) (edit_body 4 (set_low_bit 3))
        (on_last (of_engine L (cl_tiu L)) (edit_body (cl_bd_reg_bytes L) (se_tiu_intr C chip)) cs)))"
    "enable_tdma_cmdbuf_barrier L sz (buffer cs) = Inr (buffer (on_all (of_engine L (cl_tdma L)) (edit_body 4 (set_low_bit 4)) cs))"
    "reorder_tiu_cmdbuf L sz (buffer cs) = Inr (buffer (on_all (of_engine L (cl_tiu L)) (edit_body (cl_bd_reg_bytes L) reorder_bd_cmdbuf_reg) cs))"
proof -
  note p = whole_parts[OF w, folded L_def]
  have n: "length cs < Suc sz" using good_lengths[OF p(1)] by (simp add: sz_def)
  have tt: "cl_tiu L \<noteq> cl_tdma L" using r by (simp add: regs_ok_def L_def)
  have lc: "last_cmds L strict (Suc sz) sz 0 (buffer cs) None None =
     Inr (last_off (of_engine L (cl_tiu L)) 0 cs None, last_off (of_engine L (cl_tdma L)) 0 cs None)" for strict
    using last_cmds_run[OF p(1), of "[]" "Suc sz" strict None None] len n tt p(2) by (simp add: sz_def del: last_cmds.simps)
  have two: "edit_cmd L (last_off (of_engine L (cl_tdma L)) 0 cs None) n g (buffer (on_last (of_engine L (cl_tiu L)) (edit_body (cl_bd_reg_bytes L) f) cs)) =
      Inr (buffer (on_last (of_engine L (cl_tdma L)) (edit_body n g) (on_last (of_engine L (cl_tiu L)) (edit_body (cl_bd_reg_bytes L) f) cs)))"
    if "n = 4 \<or> n = se_tdma_reg_bytes C" "\<And>bs. length (f bs) = length bs" for n f g
  proof -
    let ?ds = "on_last (of_engine L (cl_tiu L)) (edit_body (cl_bd_reg_bytes L) f) cs"
    have sh: "list_all2 same_shape cs ?ds" by (rule edit_shape(1)) (use p(3) that(2) in auto)
    note q = whole_parts[OF whole_shape[OF sh w], folded L_def]
    have "edit_cmd L (last_off (of_engine L (cl_tdma L)) 0 ?ds None) n g (buffer ?ds) = Inr (buffer (on_last (of_engine L (cl_tdma L)) (edit_body n g) ?ds))"
      by (rule edit_last_run[OF q(1)]) (use q(4) that(1) in auto)
    then show ?thesis using last_off_shape[OF sh] by simp
  qed
  note one = edit_last_run[OF p(1) p(3)]
  show "set_eod C chip sz (buffer cs) = Inr (buffer
      (on_last (of_engine L (cl_tdma L)) (edit_body (se_tdma_reg_bytes C) (se_tdma_eod C chip))
        (on_last (of_engine L (cl_tiu L)) (edit_body (cl_bd_reg_bytes L) (se_tiu_cmd_end C chip)) cs)))"
    using r by (simp add: set_eod_def Let_def L_def[symmetric] lc bind_res_def one two regs_ok_def del: last_cmds.simps)
  show "enable_interrupt C chip sz (buffer cs) = Inr (buffer
      (on_last (of_engine L (cl_tdma L)) (edit_body 4 (set_low_bit 3))
        (on_last (of_engine L (cl_tiu L)) (edit_body (cl_bd_reg_bytes L) (se_tiu_intr C chip)) cs)))"
    using r by (simp add: enable_interrupt_def Let_def L_def[symmetric] lc bind_res_def one two regs_ok_def del: last_cmds.simps)
  show "enable_tdma_cmdbuf_barrier L sz (buffer cs) = Inr (buffer (on_all (of_engine L (cl_tdma L)) (edit_body 4 (set_low_bit 4)) cs))"
    using edit_loop_run[OF p(1), of "[]" "Suc sz" 4 "set_low_bit 4" "cl_tdma L"] len n p(4) length_set_low_bit
    by (simp add: enable_tdma_cmdbuf_barrier_def sz_def del: edit_loop.simps)
  show "reorder_tiu_cmdbuf L sz (buffer cs) = Inr (buffer (on_all (of_engine L (cl_tiu L)) (edit_body (cl_bd_reg_bytes L) reorder_bd_cmdbuf_reg) cs))"
    using edit_loop_run[OF p(1), of "[]" "Suc sz" "cl_bd_reg_bytes L" reorder_bd_cmdbuf_reg "cl_tiu L"] len n p(3)
    by (simp add: reorder_tiu_cmdbuf_def sz_def del: edit_loop.simps)
qed

lemma adjust_run:
  assumes w: "list_all (whole_cmd C chip) cs" and r: "regs_ok C chip" and len: "length (buffer cs) < 2 ^ 32"
  shows "adjust_cmdbuf C chip (length (buffer cs)) (buffer cs) = Inr (buffer (adjusted C chip cs))"
    "list_all2 same_shape cs (adjusted C chip cs)"
proof -
  define L where "L = se_layout C chip"
  define bd where "bd = cl_bd_reg_bytes L"
  define tiu where "tiu = of_engine L (cl_tiu L)"
  define tdma where "tdma = of_engine L (cl_tdma L)"
  define c1 where "c1 = on_last tiu (edit_body bd (se_tiu_cmd_end C chip)) cs"
  define c2 where "c2 = on_last tdma (edit_body (se_tdma_reg_bytes C) (se_tdma_eod C chip)) c1"
  define c3 where "c3 = on_last tiu (edit_body bd (se_tiu_intr C chip)) c2"
  define c4 where "c4 = on_last tdma (edit_body 4 (set_low_bit 3)) c3"
  define c5 where "c5 = on_all tdma (edit_body 4 (set_low_bit 4)) c4"
  define c6 where "c6 = on_all tiu (edit_body bd reorder_bd_cmdbuf_reg) c5"
  note ds = L_def bd_def tiu_def tdma_def
  have step: "list_all2 same_shape cs ys" "list_all (whole_cmd C chip) ys" "length (buffer ys) = length (buffer cs)"
    if "list_all2 same_shape cs xs" "list_all2 same_shape xs ys" for xs ys
  proof -
    show a: "list_all2 same_shape cs ys" using list_all2_trans[OF _ that] by (auto simp: same_shape_def)
    from whole_shape[OF a w] shape_length[OF a] show "list_all (whole_cmd C chip) ys" "length (buffer ys) = length (buffer cs)" .
  qed
  note p = whole_parts(3,4)[where C = C and chip = chip, folded L_def, folded bd_def tiu_def tdma_def]
  have 1: "list_all2 same_shape cs c1" unfolding c1_def by (rule edit_shape(1)) (use p(1)[OF w] r in \<open>auto simp: regs_ok_def\<close>)
  note s1 = step[OF same_shape_refl 1]
  have 2: "list_all2 same_shape c1 c2" unfolding c2_def by (rule edit_shape(1)) (use p(2)[OF s1(2)] r in \<open>auto simp: regs_ok_def\<close>)
  note s2 = step[OF s1(1) 2]
  have 3: "list_all2 same_shape c2 c3" unfolding c3_def by (rule edit_shape(1)) (use p(1)[OF s2(2)] r in \<open>auto simp: regs_ok_def\<close>)
  note s3 = step[OF s2(1) 3]
  have 4: "list_all2 same_shape c3 c4" unfolding c4_def by (rule edit_shape(1)) (use p(2)[OF s3(2)] in \<open>auto simp: length_set_low_bit\<close>)
  note s4 = step[OF s3(1) 4]
  have 5: "list_all2 same_shape c4 c5" unfolding c5_def by (rule edit_shape(2)) (use p(2)[OF s4(2)] in \<open>auto simp: length_set_low_bit\<close>)
  note s5 = step[OF s4(1) 5]
  have 6: "list_all2 same_shape c5 c6" unfolding c6_def by (rule edit_shape(2)) (use p(1)[OF s5(2)] in auto)
  have c6: "adjusted C chip cs = c6"
    by (simp add: adjusted_def Let_def c6_def c5_def c4_def c3_def c2_def c1_def ds)
  then show "list_all2 same_shape cs (adjusted C chip cs)" using step(1)[OF s5(1) 6] by simp
  show "adjust_cmdbuf C chip (length (buffer cs)) (buffer cs) = Inr (buffer (adjusted C chip cs))"
    using edits_run(1)[OF w r len] edits_run(2)[OF s2(2) r] edits_run(3)[OF s4(2) r] edits_run(4)[OF s5(2) r] len
    unfolding c6 L_def[symmetric] bd_def[symmetric] tiu_def[symmetric] tdma_def[symmetric] c1_def[symmetric] c2_def[symmetric]
      c3_def[symmetric] c4_def[symmetric] c5_def[symmetric] c6_def[symmetric] s2(3) s4(3) s5(3)
    by (simp add: adjust_cmdbuf_def bind_res_def L_def[symmetric])
qed

lemma extract_run:
  assumes "list_all (whole_cmd C chip) cs" "length (buffer cs) < 2 ^ 32"
  shows "extract_cmdbuf (se_layout C chip) e (buffer cs) (length (buffer cs)) = Inr (Some (concat (map snd (filter (of_engine (se_layout C chip) e) cs))))"
  using extract_loop_run[OF whole_parts(1)[OF assms(1)], of "[]" "Suc (length (buffer cs))" e "[]"] assms(2) good_lengths[OF whole_parts(1)[OF assms(1)]]
  by (simp add: extract_cmdbuf_def del: extract_loop.simps)

section \<open>Images of loaded buffers\<close>

lemma u32_at_field: "length xs = k \<Longrightarrow> u32_at (xs @ u32_bytes v @ ys) k = v mod 2 ^ 32"
proof -
  have b: "unat (word_of_nat v :: byte) + 2 ^ 8 * unat (word_of_nat (v div 2 ^ 8) :: byte) + 2 ^ 16 * unat (word_of_nat (v div 2 ^ 16) :: byte) +
     2 ^ 24 * unat (word_of_nat (v div 2 ^ 24) :: byte) = v mod 2 ^ 32" using load_store_u32[of 0 v "\<lambda>_. 0"] by (simp add: load_u32_def store_bytes_def u32_bytes_def)
  show "length xs = k \<Longrightarrow> u32_at (xs @ u32_bytes v @ ys) k = v mod 2 ^ 32"
    using b by (auto simp: u32_at_def load_u32_def u32_bytes_def nth_append)
qed

lemma u64_at_field:
  assumes "length xs = k" "v < 2 ^ 64" shows "u64_at (xs @ u64_bytes v @ ys) k = v"
proof -
  have "u32_at (xs @ u64_bytes v @ ys) k = v mod 2 ^ 32" using u32_at_field[OF assms(1), of v "u32_bytes (v div 2 ^ 32) @ ys"] by (simp add: u64_bytes_def)
  moreover have "u32_at (xs @ u64_bytes v @ ys) (k + 4) = v div 2 ^ 32 mod 2 ^ 32"
    using u32_at_field[of "xs @ u32_bytes v" "k + 4" "v div 2 ^ 32" ys] assms(1) by (simp add: u64_bytes_def)
  moreover have "v div 2 ^ 32 < 2 ^ 32" using assms(2) by (simp add: less_mult_imp_div_less)
  ultimately show ?thesis by (simp add: u64_at_def)
qed

lemma length_u64_bytes [simp]: "length (u64_bytes v) = 8" by (simp add: u64_bytes_def)

lemma found_Some:
  assumes "length bs < 2 ^ 31"
  shows "found_int (Some bs) = int (length bs)" "found_u32 (Some bs) = length bs" "found_size (Some bs) = length bs"
  using assms by (simp_all add: found_int_def found_u32_def found_size_def to_s32_id nat_mod_distrib)

lemma found_None: "found_int None = -1" "found_u32 None = 2 ^ 32 - 1" "found_size None = 2 ^ 64 - 1"
  by (simp_all add: found_int_def found_u32_def found_size_def)

lemma image_fields:
  fixes C :: "'m simulator"
  assumes "ng < 2 ^ 64" "wg < 2 ^ 64" "length (found_bytes tiu) + length (found_bytes tdma) \<le> sz"
  defines "img \<equiv> cmdbuf_image C ng wg tiu tdma sz"
  shows "length img = SIZEOF_CMDBUF_HEADER + sz" "u64_at img 0 = ng" "u64_at img 8 = wg"
    "u32_at img 16 = found_u32 tiu" "u32_at img 20 = found_u32 tdma"
    "take (length (found_bytes tiu)) (drop SIZEOF_CMDBUF_HEADER img) = found_bytes tiu"
    "take (length (found_bytes tdma)) (drop (SIZEOF_CMDBUF_HEADER + length (found_bytes tiu)) img) = found_bytes tdma"
proof -
  let ?T = "u32_bytes (found_u32 tiu)" and ?D = "u32_bytes (found_u32 tdma)"
  let ?b = "found_bytes tiu @ found_bytes tdma @ map (se_junk C) [0..<sz - length (found_bytes tiu) - length (found_bytes tdma)]"
  have img: "img = u64_bytes ng @ u64_bytes wg @ ?T @ ?D @ ?b" by (simp add: img_def cmdbuf_image_def)
  have m: "found_u32 f mod 2 ^ 32 = found_u32 f" for f using pos_mod_bound[of "2 ^ 32" "found_int f"] by (simp add: found_u32_def nat_less_iff)
  show "length img = SIZEOF_CMDBUF_HEADER + sz" using assms(3) by (simp add: img SIZEOF_CMDBUF_HEADER_def)
  show "u64_at img 0 = ng" using u64_at_field[of "[]" 0 ng] assms(1) by (simp add: img)
  show "u64_at img 8 = wg" using u64_at_field[of "u64_bytes ng" 8 wg] assms(2) by (simp add: img)
  show "u32_at img 16 = found_u32 tiu"
    using u32_at_field[of "u64_bytes ng @ u64_bytes wg" 16 "found_u32 tiu"] m[of tiu] by (simp add: img)
  show "u32_at img 20 = found_u32 tdma"
    using u32_at_field[of "u64_bytes ng @ u64_bytes wg @ ?T" 20 "found_u32 tdma"] m[of tdma] by (simp add: img)
  have h: "drop SIZEOF_CMDBUF_HEADER img = ?b" by (simp add: img SIZEOF_CMDBUF_HEADER_def)
  then show "take (length (found_bytes tiu)) (drop SIZEOF_CMDBUF_HEADER img) = found_bytes tiu" by simp
  have "drop (SIZEOF_CMDBUF_HEADER + length (found_bytes tiu)) img = drop (length (found_bytes tiu)) ?b" by (metis h add.commute drop_drop)
  then show "take (length (found_bytes tdma)) (drop (SIZEOF_CMDBUF_HEADER + length (found_bytes tiu)) img) = found_bytes tdma" by simp
qed

section \<open>Running\<close>

definition put_dev :: "nat \<Rightarrow> 'm sim_dev \<Rightarrow> 'm sim \<Rightarrow> 'm sim" where
  "put_dev dev d s = s\<lparr>si_devs := (si_devs s)(dev \<mapsto> d)\<rparr>"

lemma on_put_dev:
  assumes "si_ctxs s ctx = Some c" "sc_dev c = Some dev"
  shows "ctx_dev (Some ctx) (put_dev dev d s) = Inr ((Some dev, d), put_dev dev d s)"
    "length src = n \<Longrightarrow> write_gmem C (Some ctx) a src n (put_dev dev d s) = Inr ((), put_dev dev (d\<lparr>sd_model := cm_write C (sd_model d) a src\<rparr>) s)"
    "n \<le> length src \<Longrightarrow> write_gmem C (Some ctx) a src n (put_dev dev d s) = Inr ((), put_dev dev (d\<lparr>sd_model := cm_write C (sd_model d) a (take n src)\<rparr>) s)"
    "length src < n \<Longrightarrow> write_gmem C (Some ctx) a src n (put_dev dev d s) = Inl OutOfRange"
    "bm_device_set_base_reg C (Some ctx) i a (put_dev dev d s) = Inr ((), put_dev dev (d\<lparr>sd_model := cm_set_base C (sd_model d) i a\<rparr>) s)"
    "\<not> sd_locked d \<Longrightarrow> lock_dev (Some ctx) (put_dev dev d s) = Inr ((), put_dev dev (d\<lparr>sd_locked := True\<rparr>) s)"
  using assms by (simp_all add: ctx_dev_def write_gmem_def bm_device_set_base_reg_def lock_dev_def set_dev_def put_dev_def deref_def sm_run)

lemma for_bases_run:
  assumes "si_ctxs s ctx = Some c" "sc_dev c = Some dev"
  shows "for_bases C (Some ctx) bs (put_dev dev d s) = Inr ((), put_dev dev (d\<lparr>sd_model := foldl (\<lambda>m (i, a). cm_set_base C m i a) (sd_model d) bs\<rparr>) s)"
proof (induction bs arbitrary: d)
  case Nil
  then show ?case by (simp add: for_bases_def dret_def)
next
  case (Cons b bs)
  then show ?case using on_put_dev(5)[OF assms, of C "fst b" "snd b" d] by (simp add: for_bases_def case_prod_unfold dthen_def dbind_def)
qed

text \<open>What the simulated chip has gone through in a run.\<close>

definition after_run :: "'m simulator \<Rightarrow> cmodel_cmdbuf \<Rightarrow> (nat \<times> u64) list \<Rightarrow> byte list \<Rightarrow> byte list \<Rightarrow> 'm \<Rightarrow> 'm" where
  "after_run C cb bases tiu tdma M = (let M1 = foldl (\<lambda>m (i, a). cm_set_base C m i a) M bases;
     M2 = cm_write C (cm_write C M1 (g_tiu_cmdbuf_gaddr cb) tiu) (g_tdma_cmdbuf_gaddr cb) tdma
   in cm_run C M2 (g_tiu_cmdbuf_gaddr cb) (length tiu) (g_tdma_cmdbuf_gaddr cb) (length tdma))"

lemma put_dev_same: "si_devs s dev = Some d \<Longrightarrow> put_dev dev d s = s"
  by (simp add: put_dev_def fun_upd_idem)

lemma put_dev_fields [simp]: "si_ctxs (put_dev dev d s) = si_ctxs s" "si_mems (put_dev dev d s) = si_mems s" "si_cmdbuf (put_dev dev d s) = si_cmdbuf s"
  "si_devs (put_dev dev d s) dev = Some d" by (simp_all add: put_dev_def)

lemma run_image_run:
  assumes c: "si_ctxs s ctx = Some c" "sc_dev c = Some dev" and d: "si_devs s dev = Some d" "sd_version d = Some chip" "\<not> sd_locked d"
    and m: "si_mems s i = Some m" "cm_read C (sd_model d) (sm_p_addr m) (sm_size m) = buf" "SIZEOF_CMDBUF_HEADER \<le> length buf"
    and tiu: "u32_at buf 16 = length tiu" "take (length tiu) (drop SIZEOF_CMDBUF_HEADER buf) = tiu" "length tiu < 2 ^ 32"
    and tdma: "u32_at buf 20 = length tdma" "take (length tdma) (drop (SIZEOF_CMDBUF_HEADER + length tiu) buf) = tdma" "length tdma < 2 ^ 32"
  shows "run_image C (Some ctx) (Some i) bases s = Inr ((BM_SUCCESS, sc_seq_no c),
     (put_dev dev (d\<lparr>sd_locked := True, sd_model := after_run C (si_cmdbuf s chip) (bases buf) tiu tdma (sd_model d)\<rparr>) s)
     \<lparr>si_ctxs := (si_ctxs s)(ctx \<mapsto> c\<lparr>sc_seq_no := (sc_seq_no c + 1) mod 2 ^ 16\<rparr>)\<rparr>)"
proof -
  note w = on_put_dev[OF c]
  have l: "length tiu \<le> length (drop SIZEOF_CMDBUF_HEADER buf)" "length tdma \<le> length (drop (SIZEOF_CMDBUF_HEADER + length tiu) buf)"
    using tiu(2) tdma(2) by (metis length_take min.cobounded1)+
  have rg: "run_gmem C (Some ctx) cb (drop SIZEOF_CMDBUF_HEADER buf) (length tiu) (drop (SIZEOF_CMDBUF_HEADER + length tiu) buf) (length tdma) (put_dev dev e s) =
     Inr ((), put_dev dev (e\<lparr>sd_model := cm_run C (cm_write C (cm_write C (sd_model e) (g_tiu_cmdbuf_gaddr cb) tiu) (g_tdma_cmdbuf_gaddr cb) tdma)
        (g_tiu_cmdbuf_gaddr cb) (length tiu) (g_tdma_cmdbuf_gaddr cb) (length tdma)\<rparr>) s)" for cb e
    using tiu(2,3) tdma(2,3) l by (simp add: run_gmem_def dthen_def dbind_def w(1) w(3)[OF l(1)] w(3)[OF l(2)] set_dev_def dmodify_def M32_def)
      (simp add: put_dev_def)
  have cb: "ctx_cmdbuf (Some ctx) s = Inr ((chip, si_cmdbuf s chip), s)" "bm_memcpy_d2s C (Some ctx) (Some i) s = Inr ((BM_SUCCESS, buf), s)"
    using c d m(1,2) by (simp_all add: ctx_cmdbuf_def ctx_dev_def getCmdbufPtr_def bm_memcpy_d2s_def sm_run)
  have ns: "next_seq (Some ctx) (put_dev dev e s) = Inr (sc_seq_no c, (put_dev dev e s)\<lparr>si_ctxs := (si_ctxs s)(ctx \<mapsto> c\<lparr>sc_seq_no := (sc_seq_no c + 1) mod 2 ^ 16\<rparr>)\<rparr>)" for e
    using c by (simp add: next_seq_def sm_run set_ctx_def)
  have "lock_dev (Some ctx) s = Inr ((), put_dev dev (d\<lparr>sd_locked := True\<rparr>) s)"
    using w(6)[OF d(3)] put_dev_same[OF d(1)] by simp
  then show ?thesis
    using m(3) by (simp add: run_image_def dbind_def dthen_def cb Let_def tiu(1) tdma(1) for_bases_run[OF c] rg ns after_run_def dret_def)
qed

text \<open>The bodies of the commands of an engine in the adjusted buffer.\<close>

definition engine_bytes :: "'m simulator \<Rightarrow> sim_chip \<Rightarrow> nat \<Rightarrow> cmd list \<Rightarrow> byte list" where
  "engine_bytes C chip e cs = concat (map snd (filter (of_engine (se_layout C chip) e) (adjusted C chip cs)))"

lemma engine_bytes_fit:
  assumes "list_all (whole_cmd C chip) cs" "regs_ok C chip" "length (buffer cs) < 2 ^ 32"
  defines "L \<equiv> se_layout C chip"
  shows "length (engine_bytes C chip (cl_tiu L) cs) + length (engine_bytes C chip (cl_tdma L) cs) \<le> length (buffer cs)"
proof -
  have "cl_tiu L \<noteq> cl_tdma L" using assms(2) by (simp add: regs_ok_def L_def)
  then have "length (concat (map snd (filter (of_engine L (cl_tiu L)) ds))) + length (concat (map snd (filter (of_engine L (cl_tdma L)) ds))) \<le> length (buffer ds)" for ds
    by (induction ds) (auto simp: of_engine_def)
  from this[of "adjusted C chip cs"] show ?thesis
    using shape_length[OF adjust_run(2)[OF assms(1-3)]] by (simp add: engine_bytes_def L_def)
qed

lemma load_extracts:
  assumes "list_all (whole_cmd C chip) cs" "regs_ok C chip" "length (buffer cs) < 2 ^ 32"
  shows "\<exists>ds. adjust_cmdbuf C chip (length (buffer cs)) (buffer cs) = Inr (buffer ds) \<and> length (buffer ds) = length (buffer cs) \<and>
     (\<forall>e. extract_cmdbuf (se_layout C chip) e (buffer ds) (length (buffer cs)) = Inr (Some (engine_bytes C chip e cs)))"
proof -
  note a = adjust_run[OF assms]
  note l = shape_length[OF a(2)]
  show ?thesis using a(1) l extract_run[OF whole_shape[OF a(2) assms(1)]] assms(3)
    by (intro exI[of _ "adjusted C chip cs"]) (simp add: engine_bytes_def)
qed

lemma alloc_device:
  assumes "sim_ok ctx dev chip d s" "rt_device_alloc_raw C (Some ctx) n s = Inr (p, t)"
  shows "\<exists>pool. si_devs t dev = Some (d\<lparr>sd_pool := pool\<rparr>) \<and> si_ctxs t = si_ctxs s \<and> si_cmdbuf t = si_cmdbuf s"
  using assms(2)
  by (auto simp: rt_device_alloc_raw_def dbind_Inr dthen_Inr sim_okD[OF assms(1)] set_dev_def new_mem_def dm_basic_Inr Let_def split: sum.splits)

text \<open>
  A loaded image can be read back: storing it allocates an object of its length.
\<close>

lemma store_image_run:
  assumes ok: "sim_ok ctx dev chip d s" and C: "gmem_laws C" and a: "rt_device_alloc_raw C (Some ctx) (length img) s = Inr (p, s1)"
    and len: "0 < length img" "length img < 2 ^ 31"
  obtains t e i m where "store_image C (Some ctx) img s = Inr ((BM_SUCCESS, p), t)" "p = Some i" "si_mems t i = Some m" "si_devs t dev = Some e"
    "sd_version e = Some chip" "sd_locked e = sd_locked d" "si_ctxs t = si_ctxs s" "si_cmdbuf t = si_cmdbuf s" "cm_read C (sd_model e) (sm_p_addr m) (sm_size m) = img"
proof -
  have adm: "admissible_size (length img)" using len by (simp add: admissible_size_def M64_def)
  obtain d' i m where k: "p = Some i" "si_mems s1 = (si_mems s)(i \<mapsto> m)" "sm_size m = length img" "sim_ok ctx dev chip d' s1"
    using alloc_keeps[OF ok adm a] by blast
  obtain pool where pl: "si_devs s1 dev = Some (d\<lparr>sd_pool := pool\<rparr>)" "si_ctxs s1 = si_ctxs s" "si_cmdbuf s1 = si_cmdbuf s"
    using alloc_device[OF ok a] by blast
  have d': "d' = d\<lparr>sd_pool := pool\<rparr>" "sd_version d' = Some chip" using k(4) pl(1) by (auto simp: sim_ok_def Let_def)
  let ?e = "d'\<lparr>sd_model := cm_write C (sd_model d') (sm_p_addr m) img\<rparr>"
  let ?t = "s1\<lparr>si_devs := (si_devs s1)(dev \<mapsto> ?e)\<rparr>"
  have mi: "si_mems s1 i = Some m" by (simp add: k(2))
  have st: "store_image C (Some ctx) img s = Inr ((BM_SUCCESS, p), ?t)"
    using copy_run[OF k(4) mi k(3)[symmetric], of C] by (simp add: store_image_def dbind_def a k(1) dthen_def dassert_def dret_def)
  show ?thesis
  proof (rule that[OF st k(1)])
    show "si_mems ?t i = Some m" using mi by simp
    show "si_devs ?t dev = Some ?e" by simp
    show "cm_read C (sd_model ?e) (sm_p_addr m) (sm_size m) = img" using gmem_back[OF C] k(3) by simp
  qed (use d' pl in simp_all)
qed

text \<open>
  A finished run, from the device \<open>e\<close> it found: the base registers are set, then both engines have
  gone through their commands; the device is unlocked and the sequence number of the context is one
  higher.
\<close>

definition run_done :: "'m simulator \<Rightarrow> cmodel_cmdbuf \<Rightarrow> nat \<Rightarrow> sim_ctx \<Rightarrow> nat \<Rightarrow> 'm sim_dev \<Rightarrow> (nat \<times> u64) list \<Rightarrow> byte list \<Rightarrow> byte list \<Rightarrow> 'm sim \<Rightarrow> bool" where
  "run_done C cb ctx c dev e bases tiu tdma v \<longleftrightarrow>
     si_devs v dev = Some (e\<lparr>sd_locked := False, sd_model := after_run C cb bases tiu tdma (sd_model e)\<rparr>) \<and>
     si_ctxs v ctx = Some (c\<lparr>sc_seq_no := (sc_seq_no c + 1) mod 2 ^ 16\<rparr>)"

text \<open>
  C5: on the simulator, loading a well-formed command buffer and running it hands the two engines
  exactly the bodies of their own commands, adjusted and in order, with the right lengths. This
  holds for both ways of running it: with two base addresses given, when the base registers 0 and 1
  take the neuron and weight addresses stored at loading and 2 and 3 the given ones, and with an
  array of eight, when the registers 0 to 7 take those in order. The run returns success, the lock on
  the device is given back and the sequence number of the context goes up by one.
\<close>

theorem sim_load_run:
  assumes ok: "sim_ok ctx dev chip d s" and c: "si_ctxs s ctx = Some c" and free: "\<not> sd_locked d" and C: "gmem_laws C" "regs_ok C chip"
    and w: "list_all (whole_cmd C chip) cs" and sz: "SIZEOF_CMDBUF_HEADER + length (buffer cs) < 2 ^ 31" and g: "ng < 2 ^ 64" "wg < 2 ^ 64"
    and tiu: "tiu = engine_bytes C chip (cl_tiu (se_layout C chip)) cs" "length tiu \<le> g_tiu_cmdbuf_reserved_size (si_cmdbuf s chip)"
    and tdma: "tdma = engine_bytes C chip (cl_tdma (se_layout C chip)) cs" "length tdma \<le> g_tdma_cmdbuf_reserved_size (si_cmdbuf s chip)"
    and res: "g_tiu_cmdbuf_reserved_size (si_cmdbuf s chip) < 2 ^ 31" "g_tdma_cmdbuf_reserved_size (si_cmdbuf s chip) < 2 ^ 31"
    and room: "rt_device_alloc_raw C (Some ctx) (SIZEOF_CMDBUF_HEADER + length (buffer cs)) s = Inr (p, s1)"
    and array: "length bases = 8"
  shows "\<exists>t e. rt_load_cmdbuf C (Some ctx) (buffer cs) (length (buffer cs)) ng wg False s = Inr ((BM_SUCCESS, p), t) \<and> si_devs t dev = Some e \<and>
     (\<exists>v. CVI_RT_RunCmdbuf C (Some ctx) p b2 b3 t = Inr (BM_SUCCESS, v) \<and>
        run_done C (si_cmdbuf s chip) ctx c dev e [(0, ng), (1, wg), (2, b2), (3, b3)] tiu tdma v) \<and>
     (\<exists>v. CVI_RT_RunCmdbufEx C (Some ctx) p bases t = Inr (BM_SUCCESS, v) \<and>
        run_done C (si_cmdbuf s chip) ctx c dev e (zip [0..<8] bases) tiu tdma v)"
proof -
  let ?sz = "length (buffer cs)" and ?L = "se_layout C chip" and ?cb = "si_cmdbuf s chip"
  let ?img = "cmdbuf_image C ng wg (Some tiu) (Some tdma) ?sz"
  have 32: "?sz < 2 ^ 32" and fit: "length tiu + length tdma \<le> ?sz" using sz engine_bytes_fit[OF w C(2)] by (simp_all add: tiu(1) tdma(1))
  obtain ds where ds: "adjust_cmdbuf C chip ?sz (buffer cs) = Inr (buffer ds)" "length (buffer ds) = ?sz"
    "extract_cmdbuf ?L (cl_tiu ?L) (buffer ds) ?sz = Inr (Some tiu)" "extract_cmdbuf ?L (cl_tdma ?L) (buffer ds) ?sz = Inr (Some tdma)"
    using load_extracts[OF w C(2) 32] tiu(1) tdma(1) by auto
  have l: "length tiu < 2 ^ 31" "length tdma < 2 ^ 31" using fit sz by simp_all
  have asr: "tiu_fits ?cb ?sz (Some tiu) = dret ()" "tdma_fits ?cb ?sz (Some tiu) (Some tdma) = dret ()"
    using fit tiu(2) tdma(2) res by (simp_all add: tiu_fits_def tdma_fits_def found_Some l to_s32_id dassert_def dret_def fun_eq_iff)
  have fit': "length (found_bytes (Some tiu)) + length (found_bytes (Some tdma)) \<le> ?sz" using fit by (simp add: found_bytes_def)
  note f = image_fields[OF g fit', of C]
  have im: "rt_device_alloc_raw C (Some ctx) (length ?img) s = Inr (p, s1)" "0 < length ?img" "length ?img < 2 ^ 31"
    unfolding f(1) using room sz by (simp_all add: SIZEOF_CMDBUF_HEADER_def)
  obtain t e i m where t: "store_image C (Some ctx) ?img s = Inr ((BM_SUCCESS, p), t)" "p = Some i" "si_mems t i = Some m" "si_devs t dev = Some e"
    "sd_version e = Some chip" "sd_locked e = sd_locked d" "si_ctxs t = si_ctxs s" "si_cmdbuf t = si_cmdbuf s" "cm_read C (sd_model e) (sm_p_addr m) (sm_size m) = ?img"
    by (rule store_image_run[OF ok C(1) im])
  have load: "rt_load_cmdbuf C (Some ctx) (buffer cs) ?sz ng wg False s = Inr ((BM_SUCCESS, p), t)"
    using sz by (simp add: rt_load_cmdbuf_def dbind_def dthen_def sim_okD[OF ok] Let_def dassert_def lift_res_def ds asr dret_def t(1))
  have dev: "sc_dev c = Some dev" using ok c by (auto simp: sim_ok_def Let_def)
  have run: "run_image C (Some ctx) (Some i) bases t = Inr ((BM_SUCCESS, sc_seq_no c),
     (put_dev dev (e\<lparr>sd_locked := True, sd_model := after_run C (si_cmdbuf t chip) (bases ?img) tiu tdma (sd_model e)\<rparr>) t)
     \<lparr>si_ctxs := (si_ctxs t)(ctx \<mapsto> c\<lparr>sc_seq_no := (sc_seq_no c + 1) mod 2 ^ 16\<rparr>)\<rparr>)" for bases
  proof (rule run_image_run[OF _ dev t(4,5) _ t(3,9)])
    show "si_ctxs t ctx = Some c" "\<not> sd_locked e" "SIZEOF_CMDBUF_HEADER \<le> length ?img" using c free t(6,7) f(1) by simp_all
    show "u32_at ?img 16 = length tiu" "u32_at ?img 20 = length tdma" using f(4,5) l by (simp_all add: found_Some)
    show "take (length tiu) (drop SIZEOF_CMDBUF_HEADER ?img) = tiu" "take (length tdma) (drop (SIZEOF_CMDBUF_HEADER + length tiu) ?img) = tdma"
      using f(6,7) by (simp_all add: found_bytes_def)
    show "length tiu < 2 ^ 32" "length tdma < 2 ^ 32" using l by simp_all
  qed
  have "enumerate 0 (take 8 bases) = zip [0..<8] bases" using array by (simp add: enumerate_eq_zip)
  then show ?thesis
    using load t(2,4,7,8) dev run f(2,3) by (simp add: CVI_RT_RunCmdbuf_def CVI_RT_RunCmdbufEx_def rt_run_cmdbuf_ex_def rt_run_cmdbuf_ex2_def
        rt_wait_cmdbuf_done_def ctx_dev_def set_dev_def sm_run run_done_def)
qed

text \<open>
  C39: on the cv181x and cv180x simulators no dma buffer can be run: whatever it holds, loading it
  succeeds with the sizes of both engines set to 0xFFFFFFFF, because the 16-bit magic number of
  its header is compared with a number of more than 16 bits, and running the result, with two base
  addresses or with an array of them, reads past the end of the loaded buffer.
\<close>

theorem sim_dmabuf_unusable:
  assumes chip: "chip \<in> {S181x, S180x}" and ok: "sim_ok ctx dev chip d s" and free: "\<not> sd_locked d" and C: "gmem_laws C"
    and m: "si_mems s j = Some n" and sz: "SIZEOF_CMDBUF_HEADER + sz < 2 ^ 31" and g: "ng < 2 ^ 64" "wg < 2 ^ 64"
    and res: "g_tiu_cmdbuf_reserved_size (si_cmdbuf s chip) < 2 ^ 31" "g_tdma_cmdbuf_reserved_size (si_cmdbuf s chip) < 2 ^ 31"
    and room: "rt_device_alloc_raw C (Some ctx) (SIZEOF_CMDBUF_HEADER + sz) s = Inr (p, s1)"
  shows "\<exists>t. rt_load_dmabuf C (Some ctx) (Some j) sz ng wg False s = Inr ((BM_SUCCESS, p), t) \<and>
     CVI_RT_RunCmdbuf C (Some ctx) p b2 b3 t = Inl OutOfRange \<and> CVI_RT_RunCmdbufEx C (Some ctx) p bases t = Inl OutOfRange"
proof -
  let ?cb = "si_cmdbuf s chip" and ?img = "cmdbuf_image C ng wg None None sz"
  have x: "extract_dmabuf L chip tiu rd cap = Inr None" for L tiu rd cap
  proof -
    let ?h = "rd 0 SIZEOF_DMA_HDR"
    have "unat b < 2 ^ LENGTH(8)" for b :: byte by (rule unsigned_less)
    from this[of "?h ! 2"] this[of "?h ! 3"] have "unat (?h ! 2) + 256 * unat (?h ! 3) < 2 ^ 16" by simp
    then show ?thesis using chip by (auto simp: extract_dmabuf_def Let_def dmabuf_hdr_magic_def)
  qed
  have asr: "tiu_fits ?cb sz None = dret ()" "tdma_fits ?cb sz None None = dret ()"
    using res by (simp_all add: tiu_fits_def tdma_fits_def found_None to_s32_id dassert_def dret_def fun_eq_iff)
  have f: "length ?img = SIZEOF_CMDBUF_HEADER + sz" "u32_at ?img 16 = 2 ^ 32 - 1" "u64_at ?img 0 = ng"
    using image_fields[OF g, of None None sz C] by (simp_all add: found_bytes_def found_None)
  have im: "rt_device_alloc_raw C (Some ctx) (length ?img) s = Inr (p, s1)" "0 < length ?img" "length ?img < 2 ^ 31"
    unfolding f(1) using room sz by (simp_all add: SIZEOF_CMDBUF_HEADER_def)
  obtain t e i k where t: "store_image C (Some ctx) ?img s = Inr ((BM_SUCCESS, p), t)" "p = Some i" "si_mems t i = Some k" "si_devs t dev = Some e"
    "sd_version e = Some chip" "sd_locked e = sd_locked d" "si_ctxs t = si_ctxs s" "si_cmdbuf t = si_cmdbuf s" "cm_read C (sd_model e) (sm_p_addr k) (sm_size k) = ?img"
    by (rule store_image_run[OF ok C im])
  have load: "rt_load_dmabuf C (Some ctx) (Some j) sz ng wg False s = Inr ((BM_SUCCESS, p), t)"
    using sz m by (simp add: rt_load_dmabuf_def dbind_def dthen_def sim_okD[OF ok] Let_def dassert_def deref_def lift_res_def x asr dret_def t(1))
  obtain c where c: "si_ctxs s ctx = Some c" "sc_dev c = Some dev" using ok by (auto simp: sim_ok_def Let_def)
  have ct: "si_ctxs t ctx = Some c" using c t(7) by simp
  note w = on_put_dev[OF ct c(2)]
  have lk: "lock_dev (Some ctx) t = Inr ((), put_dev dev (e\<lparr>sd_locked := True\<rparr>) t)" using w(6)[of e] put_dev_same[OF t(4)] t(6) free by simp
  have wr: "write_gmem C (Some ctx) a (drop SIZEOF_CMDBUF_HEADER ?img) (2 ^ 32 - 1) (put_dev dev d' t) = Inl OutOfRange" for a d'
    by (rule w(4)) (use f(1) sz in \<open>simp add: SIZEOF_CMDBUF_HEADER_def\<close>)
  have "run_image C (Some ctx) (Some i) bases t = Inl OutOfRange" for bases
    using c t(3,4,5,7,9) f(1,2) wr by (simp add: run_image_def ctx_cmdbuf_def ctx_dev_def getCmdbufPtr_def bm_memcpy_d2s_def sm_run lk Let_def
        for_bases_run[OF ct c(2)] run_gmem_def)
  then show ?thesis using load t(2) by (simp add: CVI_RT_RunCmdbuf_def CVI_RT_RunCmdbufEx_def rt_run_cmdbuf_ex_def rt_run_cmdbuf_ex2_def dbind_def)
qed

text \<open>A device opened on the byte simulator, with an allocation made and room for another one.\<close>

lemma demo_device:
  "\<exists>s t n c d p s1. CVI_RT_Init (byte_sim S181x) (sim_start cb0) = Inr ((CVI_RC_SUCCESS, Some 1), s) \<and>
     for_each (sim_step (byte_sim S181x) (Some 1)) [SimAlloc 200] s = Inr ((), t) \<and> si_mems t 2 = Some n \<and> si_ctxs t 1 = Some c \<and>
     si_devs t 0 = Some d \<and> \<not> sd_locked d \<and> g_tiu_cmdbuf_reserved_size (si_cmdbuf t S181x) = 128 \<and> g_tdma_cmdbuf_reserved_size (si_cmdbuf t S181x) = 64 \<and>
     rt_device_alloc_raw (byte_sim S181x) (Some 1) 52 t = Inr (p, s1)"
  by (simp add: CVI_RT_Init_def bm_init_def bm_device_open_def rt_device_open_def bm_context_create_def bm_bind_device_def sim_start_def
      getCmdbufPtr_def set_ctx_def deref_def sm_run byte_sim_def pool_eval rt_device_alloc_raw_def ctx_cmdbuf_def ctx_dev_def set_dev_def
      new_mem_def align_mask64_def)

lemma demo_opened:
  obtains t n c d p s1 where "sim_ok 1 0 S181x d t" "si_mems t 2 = Some n" "si_ctxs t 1 = Some c" "\<not> sd_locked d"
    "g_tiu_cmdbuf_reserved_size (si_cmdbuf t S181x) = 128" "g_tdma_cmdbuf_reserved_size (si_cmdbuf t S181x) = 64"
    "rt_device_alloc_raw (byte_sim S181x) (Some 1) 52 t = Inr (p, s1)"
proof -
  obtain s t n c d p s1 where x: "CVI_RT_Init (byte_sim S181x) (sim_start cb0) = Inr ((CVI_RC_SUCCESS, Some 1), s)"
    "for_each (sim_step (byte_sim S181x) (Some 1)) [SimAlloc 200] s = Inr ((), t)" "si_mems t 2 = Some n" "si_ctxs t 1 = Some c"
    "si_devs t 0 = Some d" "\<not> sd_locked d" "g_tiu_cmdbuf_reserved_size (si_cmdbuf t S181x) = 128" "g_tdma_cmdbuf_reserved_size (si_cmdbuf t S181x) = 64"
    "rt_device_alloc_raw (byte_sim S181x) (Some 1) 52 t = Inr (p, s1)" using demo_device by blast
  obtain d0 where d0: "sim_ok 1 0 S181x d0 s" using init_ok[OF byte_sim_env[of S181x], of cb0] x(1) by (metis Inr_inject prod.inject)
  have "\<forall>sz. SimAlloc sz \<in> set [SimAlloc 200] \<longrightarrow> admissible_size sz" by (simp add: admissible_size_def M64_def)
  from history_keeps[OF d0 this x(2)] obtain d1 where ok: "sim_ok 1 0 S181x d1 t" by blast
  then have "d1 = d" using x(5) by (simp add: sim_ok_def Let_def)
  with ok x show ?thesis by (intro that[of d t n c p s1]) simp_all
qed

text \<open>One command of either engine.\<close>

definition sim_cmds :: "cmd list" where
  "sim_cmds = [([0xA8, 16, 0, 0], replicate 16 1), ([0xA8, 4, 2, 0], [5, 6, 7, 8])]"

lemma sim_cmds_ok: "list_all (whole_cmd (byte_sim S181x) S181x) sim_cmds" "regs_ok (byte_sim S181x) S181x" "length (buffer sim_cmds) = 28"
  by (simp_all add: sim_cmds_def whole_cmd_def regs_ok_def good_cmd_def known_engine_def of_engine_def byte_sim_def demo_layout_def sizeof_cmd_hdr_def)

theorem sim_load_run_witness:
  "\<exists>s t p e c. rt_load_cmdbuf (byte_sim S181x) (Some 1) (buffer sim_cmds) 28 1 2 False s = Inr ((BM_SUCCESS, p), t) \<and> si_devs t 0 = Some e \<and>
     (\<exists>v. CVI_RT_RunCmdbuf (byte_sim S181x) (Some 1) p 3 4 t = Inr (BM_SUCCESS, v) \<and>
       run_done (byte_sim S181x) (si_cmdbuf s S181x) 1 c 0 e [(0, 1), (1, 2), (2, 3), (3, 4)]
       (engine_bytes (byte_sim S181x) S181x 0 sim_cmds) (engine_bytes (byte_sim S181x) S181x 2 sim_cmds) v) \<and>
     (\<exists>v. CVI_RT_RunCmdbufEx (byte_sim S181x) (Some 1) p [5, 6, 7, 8, 9, 10, 11, 12] t = Inr (BM_SUCCESS, v) \<and>
       run_done (byte_sim S181x) (si_cmdbuf s S181x) 1 c 0 e (zip [0..<8] [5, 6, 7, 8, 9, 10, 11, 12])
       (engine_bytes (byte_sim S181x) S181x 0 sim_cmds) (engine_bytes (byte_sim S181x) S181x 2 sim_cmds) v)"
proof -
  obtain t n c d p s1 where o: "sim_ok 1 0 S181x d t" "si_mems t 2 = Some n" "si_ctxs t 1 = Some c" "\<not> sd_locked d"
    "g_tiu_cmdbuf_reserved_size (si_cmdbuf t S181x) = 128" "g_tdma_cmdbuf_reserved_size (si_cmdbuf t S181x) = 64"
    "rt_device_alloc_raw (byte_sim S181x) (Some 1) 52 t = Inr (p, s1)" by (rule demo_opened)
  let ?C = "byte_sim S181x" and ?L = "se_layout (byte_sim S181x) S181x"
  have L: "cl_tiu ?L = 0" "cl_tdma ?L = 2" by (simp_all add: byte_sim_def demo_layout_def)
  have r: "rt_device_alloc_raw ?C (Some 1) (SIZEOF_CMDBUF_HEADER + length (buffer sim_cmds)) t = Inr (p, s1)"
    using o(7) by (simp add: sim_cmds_ok(3) SIZEOF_CMDBUF_HEADER_def)
  have f: "length (engine_bytes ?C S181x (cl_tiu ?L) sim_cmds) + length (engine_bytes ?C S181x (cl_tdma ?L) sim_cmds) \<le> 28"
    using engine_bytes_fit[OF sim_cmds_ok(1,2)] sim_cmds_ok(3) by simp
  have "length [5, 6, 7, 8, 9, 10, 11, 12 :: u64] = 8" by simp
  from sim_load_run[OF o(1,3,4) byte_sim_laws sim_cmds_ok(2,1) _ _ _ refl _ refl _ _ _ r this, of 1 2 3 4] show ?thesis
    using f unfolding L sim_cmds_ok(3) by (simp add: SIZEOF_CMDBUF_HEADER_def o(5,6) del: upt_conv_Cons) blast
qed

theorem sim_dmabuf_unusable_witness:
  "\<exists>s t p. rt_load_dmabuf (byte_sim S181x) (Some 1) (Some 2) 28 1 2 False s = Inr ((BM_SUCCESS, p), t) \<and>
     CVI_RT_RunCmdbuf (byte_sim S181x) (Some 1) p 3 4 t = Inl OutOfRange \<and> CVI_RT_RunCmdbufEx (byte_sim S181x) (Some 1) p [3, 4] t = Inl OutOfRange"
proof -
  obtain t n c d p s1 where o: "sim_ok 1 0 S181x d t" "si_mems t 2 = Some n" "si_ctxs t 1 = Some c" "\<not> sd_locked d"
    "g_tiu_cmdbuf_reserved_size (si_cmdbuf t S181x) = 128" "g_tdma_cmdbuf_reserved_size (si_cmdbuf t S181x) = 64"
    "rt_device_alloc_raw (byte_sim S181x) (Some 1) 52 t = Inr (p, s1)" by (rule demo_opened)
  have r: "rt_device_alloc_raw (byte_sim S181x) (Some 1) (SIZEOF_CMDBUF_HEADER + 28) t = Inr (p, s1)"
    using o(7) by (simp add: SIZEOF_CMDBUF_HEADER_def)
  from sim_dmabuf_unusable[OF _ o(1,4) byte_sim_laws o(2) _ _ _ _ _ r, of 1 2 3 4 "[3, 4]"] show ?thesis
    by (simp add: SIZEOF_CMDBUF_HEADER_def o(5,6)) auto
qed

end
