(* ===== verification/CpuFunc.thy ===== *)
theory CpuFunc
  imports RtState
begin

text \<open>
  Layers that run on the host (\<^verbatim>\<open>src/common/cpu_function\<close>): those that move, select or compare elements.  A
  tensor is its shape, its element type and the list of its elements; the elements are of any type,
  and the floating-point operations a function applies to them are parameters.  Indices are C
  \<^verbatim>\<open>int\<close>s of tensors whose elements an \<^verbatim>\<open>int\<close> can count, and an access outside a tensor is a fault.
\<close>

section \<open>Tensors and loops\<close>

record 'a tensor =
  t_shape :: "nat list"
  t_fmt :: cvi_fmt
  t_data :: "'a list"

definition elem :: "'a list \<Rightarrow> nat \<Rightarrow> 'a res" where
  "elem xs i = (if i < length xs then Inr (xs ! i) else Inl OutOfRange)"

definition elem_int :: "'a list \<Rightarrow> int \<Rightarrow> 'a res" where
  "elem_int xs i = (if 0 \<le> i then elem xs (nat i) else Inl OutOfRange)"

definition put_elem :: "nat \<Rightarrow> 'a \<Rightarrow> 'a list \<Rightarrow> 'a list res" where
  "put_elem i v xs = (if i < length xs then Inr (xs[i := v]) else Inl OutOfRange)"

text \<open>\<^verbatim>\<open>for (int i = k; i < k + n; ++i)\<close>\<close>

fun loop_from :: "nat \<Rightarrow> nat \<Rightarrow> (nat \<Rightarrow> 's \<Rightarrow> 's res) \<Rightarrow> 's \<Rightarrow> 's res" where
  "loop_from k 0 f s = Inr s"
| "loop_from k (Suc n) f s = bind_res (f k s) (loop_from (Suc k) n f)"

abbreviation loop :: "nat \<Rightarrow> (nat \<Rightarrow> 's \<Rightarrow> 's res) \<Rightarrow> 's \<Rightarrow> 's res" where
  "loop \<equiv> loop_from 0"

definition dim :: "'a tensor \<Rightarrow> nat \<Rightarrow> nat res" where
  "dim t k = elem (t_shape t) k"

definition with_data :: "'a tensor \<Rightarrow> 'a list res \<Rightarrow> 'a tensor res" where
  "with_data t r = bind_res r (\<lambda>xs. Inr (t\<lparr>t_data := xs\<rparr>))"

section \<open>Transposition\<close>

definition TransposeFunc_run :: "'a tensor \<Rightarrow> 'a tensor \<Rightarrow> 'a tensor res" where
  "TransposeFunc_run bottom top0 =
    bind_res (dim top0 0) (\<lambda>n. bind_res (dim top0 1) (\<lambda>channel. bind_res (dim top0 2) (\<lambda>h. bind_res (dim top0 3) (\<lambda>w.
    let channel_size = h * w; image_size = channel * channel_size in
    with_data top0 (loop n (\<lambda>i. loop image_size (\<lambda>j out.
      let x_idx = i * image_size + j; y_idx = i * image_size + (j mod channel) * channel_size + j div channel in
      bind_res (elem (t_data bottom) x_idx) (\<lambda>v. put_elem y_idx v out))) (t_data top0))))))"

section \<open>Pixel shuffle\<close>

text \<open>The loops carry the running input index.\<close>

definition PixelShuffleFunc_run :: "string \<Rightarrow> nat \<Rightarrow> 'a tensor \<Rightarrow> 'a tensor \<Rightarrow> 'a tensor res" where
  "PixelShuffleFunc_run mode r bottom top0 =
    bind_res (dim bottom 0) (\<lambda>batch_size. bind_res (dim bottom 1) (\<lambda>in_channel. bind_res (dim bottom 2) (\<lambda>in_height. bind_res (dim bottom 3) (\<lambda>in_width.
    bind_res (dim top0 1) (\<lambda>out_channel. bind_res (dim top0 2) (\<lambda>out_height. bind_res (dim top0 3) (\<lambda>out_width.
    if mode = ''DCR'' then with_data top0 (bind_res
      (loop batch_size (\<lambda>n. loop in_channel (\<lambda>c. loop in_height (\<lambda>h. loop in_width (\<lambda>w (i_index, out).
        if out_channel = 0 \<or> r = 0 then Inl DivByZero else
        let new_c = c mod out_channel; new_h = h * r + (c div out_channel) div r; new_w = w * r + (c div out_channel) mod r;
            o_index = n * (out_channel * out_height * out_width) + new_c * (out_height * out_width) + new_h * out_width + new_w in
        bind_res (elem (t_data bottom) i_index) (\<lambda>v. bind_res (put_elem o_index v out) (\<lambda>out'. Inr (i_index + 1, out'))))))) (0, t_data top0))
      (\<lambda>(_, out). Inr out))
    else Inl AssertFailed)))))))"

section \<open>Embedding\<close>

record embedding =
  em_feature_len :: nat
  em_table_len :: nat
  em_search_num :: nat

definition EmbeddingFunc_setup :: "int tensor \<Rightarrow> 'a tensor \<Rightarrow> 'a tensor \<Rightarrow> embedding res" where
  "EmbeddingFunc_setup indices table top0 =
    assert_res (t_fmt table = t_fmt top0) (bind_res (dim table 1) (\<lambda>feature_len.
    if feature_len = 0 then Inl DivByZero else
    Inr \<lparr>em_feature_len = feature_len, em_table_len = length (t_data table) div feature_len, em_search_num = length (t_data indices)\<rparr>))"

text \<open>A row is copied by \<^verbatim>\<open>memcpy\<close>.  A negative index points in front of the table.\<close>

definition copy_block :: "'a list \<Rightarrow> int \<Rightarrow> nat \<Rightarrow> nat \<Rightarrow> 'a list \<Rightarrow> 'a list res" where
  "copy_block src from n to out = (if 0 \<le> from \<and> nat from + n \<le> length src \<and> to + n \<le> length out
     then Inr (take to out @ take n (drop (nat from) src) @ drop (to + n) out) else Inl OutOfRange)"

definition lookup_rows :: "embedding \<Rightarrow> int list \<Rightarrow> 'a list \<Rightarrow> 'a list \<Rightarrow> 'a list res" where
  "lookup_rows e indices table out = loop (em_search_num e) (\<lambda>i out.
     bind_res (elem indices i) (\<lambda>x. copy_block table (x * int (em_feature_len e)) (em_feature_len e) (i * em_feature_len e) out)) out"

definition EmbeddingFunc_run :: "embedding \<Rightarrow> int tensor \<Rightarrow> 'a tensor \<Rightarrow> 'a tensor \<Rightarrow> 'a tensor res" where
  "EmbeddingFunc_run e indices table top0 =
    assert_res (t_fmt indices \<in> {CVI_FMT_INT16, CVI_FMT_UINT16, CVI_FMT_INT32, CVI_FMT_UINT32})
      (with_data top0 (lookup_rows e (t_data indices) (t_data table) (t_data top0)))"

section \<open>Gathering slices\<close>

text \<open>
  \<^verbatim>\<open>gather_offset\<close> runs over the dimensions from the last one; the offset is unsigned, so a negative
  index wraps.
\<close>

fun offset_loop :: "nat list \<Rightarrow> int list \<Rightarrow> nat \<Rightarrow> u64 \<Rightarrow> int \<Rightarrow> u64 res" where
  "offset_loop shape ix 0 offset gap = Inr offset"
| "offset_loop shape ix (Suc i) offset gap =
    bind_res (elem ix i) (\<lambda>x. bind_res (elem shape i) (\<lambda>d.
    offset_loop shape ix i (nat ((int offset + x * gap) mod 2 ^ 64)) (gap * int d)))"

definition gather_offset :: "nat list \<Rightarrow> int list \<Rightarrow> u64 res" where
  "gather_offset input_shape gather_index = offset_loop input_shape gather_index (length gather_index) 0 1"

fun prod_dims :: "nat list \<Rightarrow> nat" where
  "prod_dims [] = 1"
| "prod_dims (d # ds) = d * prod_dims ds"

definition GatherNDFunc_run :: "nat \<Rightarrow> nat \<Rightarrow> 'a tensor \<Rightarrow> int tensor \<Rightarrow> 'a tensor \<Rightarrow> 'a tensor res" where
  "GatherNDFunc_run batch_dims indice_dims input indices top0 =
    (if length (t_shape indices) < batch_dims \<or> indice_dims = 0 \<or> length (t_shape indices) < indice_dims then Inl OutOfRange else
     let batch = prod_dims (take batch_dims (t_shape indices)); k = t_shape indices ! (indice_dims - 1); cnt = length (t_data indices) in
     if batch = 0 \<or> k = 0 then Inl DivByZero else
     let channel = cnt div batch div k in
     assert_res (channel * k * batch = cnt)
     (if batch * channel = 0 then Inl DivByZero else
      let input_new_shape = batch # drop batch_dims (t_shape input); gather_eltment = length (t_data top0) div (batch * channel) in
      assert_res (gather_eltment * batch * channel = length (t_data top0))
     (with_data top0 (loop batch (\<lambda>b. loop channel (\<lambda>c out.
        let gather_index = int b # take k (drop (b * channel * k + c * k) (t_data indices)) in
        bind_res (gather_offset input_new_shape gather_index) (\<lambda>offset.
        copy_block (t_data input) (int (offset * gather_eltment)) gather_eltment ((b * channel + c) * gather_eltment) out))) (t_data top0)))))"

section \<open>Gathering elements\<close>

text \<open>
  The kernels walk over the output and the indices with one pointer each, both advanced together:
  the state is the position and the output.  \<open>at\<close> gives the source index.
\<close>

definition gather_one :: "'a list \<Rightarrow> int list \<Rightarrow> (int \<Rightarrow> int) \<Rightarrow> nat \<times> 'a list \<Rightarrow> (nat \<times> 'a list) res" where
  "gather_one src idx at st = (case st of (p, out) \<Rightarrow>
     bind_res (elem idx p) (\<lambda>x. bind_res (elem_int src (at x)) (\<lambda>v. bind_res (put_elem p v out) (\<lambda>out'. Inr (p + 1, out')))))"

type_synonym 'a gather_kernel = "'a list \<Rightarrow> int list \<Rightarrow> nat list \<Rightarrow> nat list \<Rightarrow> nat \<times> 'a list \<Rightarrow> (nat \<times> 'a list) res"

definition gather_dim1_0 :: "'a gather_kernel" where
  "gather_dim1_0 src idx shape org_shape = loop (shape ! 0) (\<lambda>i. gather_one src idx (\<lambda>x. x))"

definition gather_dim2_0 :: "'a gather_kernel" where
  "gather_dim2_0 src idx shape org_shape = loop (shape ! 0) (\<lambda>i. loop (shape ! 1) (\<lambda>j.
     gather_one src idx (\<lambda>x. x * int (org_shape ! 1) + int j)))"

definition gather_dim2_1 :: "'a gather_kernel" where
  "gather_dim2_1 src idx shape org_shape = loop (shape ! 0) (\<lambda>i. let idx_i = i * org_shape ! 1 in loop (shape ! 1) (\<lambda>j.
     gather_one src idx (\<lambda>x. int idx_i + x)))"

definition gather_dim3_0 :: "'a gather_kernel" where
  "gather_dim3_0 src idx shape org_shape = (let shape_1_2 = org_shape ! 1 * org_shape ! 2 in
     loop (shape ! 0) (\<lambda>i. loop (shape ! 1) (\<lambda>j. let idx_j = j * org_shape ! 2 in loop (shape ! 2) (\<lambda>k.
     gather_one src idx (\<lambda>x. x * int shape_1_2 + int idx_j + int k)))))"

definition gather_dim3_1 :: "'a gather_kernel" where
  "gather_dim3_1 src idx shape org_shape = (let shape_1_2 = org_shape ! 1 * org_shape ! 2 in
     loop (shape ! 0) (\<lambda>i. let idx_i = i * shape_1_2 in loop (shape ! 1) (\<lambda>j. loop (shape ! 2) (\<lambda>k.
     gather_one src idx (\<lambda>x. int idx_i + x * int (org_shape ! 2) + int k)))))"

definition gather_dim3_2 :: "'a gather_kernel" where
  "gather_dim3_2 src idx shape org_shape = (let shape_1_2 = org_shape ! 1 * org_shape ! 2 in
     loop (shape ! 0) (\<lambda>i. let idx_i = i * shape_1_2 in loop (shape ! 1) (\<lambda>j. let idx_j = idx_i + j * org_shape ! 2 in loop (shape ! 2) (\<lambda>k.
     gather_one src idx (\<lambda>x. int idx_j + x)))))"

definition gather_dim4_0 :: "'a gather_kernel" where
  "gather_dim4_0 src idx shape org_shape =
    (let shape_1_2_3 = org_shape ! 1 * org_shape ! 2 * org_shape ! 3; shape_2_3 = org_shape ! 2 * org_shape ! 3 in
     loop (shape ! 0) (\<lambda>i. loop (shape ! 1) (\<lambda>j. let idx_j = j * shape_2_3 in loop (shape ! 2) (\<lambda>k. let idx_k = idx_j + k * org_shape ! 3 in
     loop (shape ! 3) (\<lambda>g. gather_one src idx (\<lambda>x. x * int shape_1_2_3 + int idx_k + int g))))))"

definition gather_dim4_1 :: "'a gather_kernel" where
  "gather_dim4_1 src idx shape org_shape =
    (let shape_1_2_3 = org_shape ! 1 * org_shape ! 2 * org_shape ! 3; shape_2_3 = org_shape ! 2 * org_shape ! 3 in
     loop (shape ! 0) (\<lambda>i. let idx_i = i * shape_1_2_3 in loop (shape ! 1) (\<lambda>j. loop (shape ! 2) (\<lambda>k. let idx_k = k * org_shape ! 3 in
     loop (shape ! 3) (\<lambda>g. gather_one src idx (\<lambda>x. int idx_i + x * int shape_2_3 + int idx_k + int g))))))"

definition gather_dim4_2 :: "'a gather_kernel" where
  "gather_dim4_2 src idx shape org_shape =
    (let shape_1_2_3 = org_shape ! 1 * org_shape ! 2 * org_shape ! 3; shape_2_3 = org_shape ! 2 * org_shape ! 3 in
     loop (shape ! 0) (\<lambda>i. let idx_i = i * shape_1_2_3 in loop (shape ! 1) (\<lambda>j. let idx_j = idx_i + j * shape_2_3 in loop (shape ! 2) (\<lambda>k.
     loop (shape ! 3) (\<lambda>g. gather_one src idx (\<lambda>x. int idx_j + x * int (org_shape ! 3) + int g))))))"

definition gather_dim4_3 :: "'a gather_kernel" where
  "gather_dim4_3 src idx shape org_shape =
    (let shape_1_2_3 = org_shape ! 1 * org_shape ! 2 * org_shape ! 3; shape_2_3 = org_shape ! 2 * org_shape ! 3 in
     loop (shape ! 0) (\<lambda>i. let idx_i = i * shape_1_2_3 in loop (shape ! 1) (\<lambda>j. let idx_j = idx_i + j * shape_2_3 in loop (shape ! 2) (\<lambda>k.
     let idx_k = idx_j + k * org_shape ! 3 in loop (shape ! 3) (\<lambda>g. gather_one src idx (\<lambda>x. int idx_k + x))))))"

text \<open>
  The kernel for a number of dimensions and an axis; an axis that is out of range moves nothing, a
  number of dimensions that is not supported ends the process.  The shapes have as many dimensions
  as the kernel reads.
\<close>

definition GatherElementsPtFunc_run :: "nat \<Rightarrow> 'a tensor \<Rightarrow> int tensor \<Rightarrow> 'a tensor \<Rightarrow> 'a tensor res" where
  "GatherElementsPtFunc_run axis input indices top0 =
    (let n = length (t_shape input);
         run = (\<lambda>kernel. if length (t_shape indices) < n then Inl OutOfRange else
           with_data top0 (bind_res (kernel (t_data input) (t_data indices) (t_shape indices) (t_shape input) (0, t_data top0)) (\<lambda>(_, out). Inr out)))
     in if n = 1 then run gather_dim1_0
        else if n = 2 then (if axis = 0 then run gather_dim2_0 else if axis = 1 then run gather_dim2_1 else Inr top0)
        else if n = 3 then (if axis = 0 then run gather_dim3_0 else if axis = 1 then run gather_dim3_1 else if axis = 2 then run gather_dim3_2 else Inr top0)
        else if n = 4 then (if axis = 0 then run gather_dim4_0 else if axis = 1 then run gather_dim4_1 else if axis = 2 then run gather_dim4_2
          else if axis = 3 then run gather_dim4_3 else Inr top0)
        else Inl AssertFailed)"

section \<open>Largest elements\<close>

text \<open>
  The device has computed the largest element of every 256 elements of a row; the host picks the
  first tile that has the largest one and looks for it there.  The elements are \<^verbatim>\<open>int8_t\<close> or
  \<^verbatim>\<open>int16_t\<close>.  A position becomes a \<^verbatim>\<open>float\<close>, which is exact up to \<open>2 ^ 24\<close>; here it stays a number.
\<close>

record argmax =
  am_outer_dim :: nat
  am_inner_dim :: nat
  am_tile_num :: nat

definition argmax_setup :: "nat \<Rightarrow> int tensor \<Rightarrow> argmax res" where
  "argmax_setup axis bottom = bind_res (dim bottom axis) (\<lambda>d.
     Inr \<lparr>am_outer_dim = prod_dims (take axis (t_shape bottom)), am_inner_dim = d, am_tile_num = (d + 256 - 1) div 256\<rparr>)"

fun find_eq :: "int list \<Rightarrow> nat \<Rightarrow> nat \<Rightarrow> nat \<Rightarrow> int \<Rightarrow> nat res" where
  "find_eq data base j 0 v = Inr 0"
| "find_eq data base j (Suc n) v = bind_res (elem data (base + j)) (\<lambda>x. if x = v then Inr j else find_eq data base (Suc j) n v)"

definition in_tile :: "argmax \<Rightarrow> int list \<Rightarrow> nat \<Rightarrow> int \<times> nat \<Rightarrow> (int \<times> nat) res" where
  "in_tile a data i mi = (case mi of (max_val, idx) \<Rightarrow> let offset = idx * 256; len = min (am_inner_dim a - offset) 256 in
     bind_res (find_eq data (i * am_inner_dim a + offset) 0 len max_val) (\<lambda>k. Inr (max_val, k + offset)))"

text \<open>The first version starts from zero, so that a negative element never counts.\<close>

definition argmax_v1_row :: "argmax \<Rightarrow> int list \<Rightarrow> int list \<Rightarrow> nat \<Rightarrow> (int \<times> nat) res" where
  "argmax_v1_row a data map0 i = bind_res
     (loop (am_tile_num a) (\<lambda>j (max_val, idx). bind_res (elem map0 (i * am_tile_num a + j)) (\<lambda>m.
        Inr (if m < 0 then (max_val, idx) else if m > max_val then (m, j) else (max_val, idx)))) (0, 0))
     (in_tile a data i)"

definition argmax_row :: "argmax \<Rightarrow> int list \<Rightarrow> int list \<Rightarrow> nat \<Rightarrow> (int \<times> nat) res" where
  "argmax_row a data map0 i = bind_res (elem map0 (i * am_tile_num a)) (\<lambda>m.
     bind_res (loop_from 1 (am_tile_num a - 1) (\<lambda>j (max_val, idx). bind_res (elem map0 (i * am_tile_num a + j)) (\<lambda>m.
        Inr (if m > max_val then (m, j) else (max_val, idx)))) (m, 0))
     (in_tile a data i))"

definition ArgMaxFunc_run :: "argmax \<Rightarrow> int list \<Rightarrow> int list \<Rightarrow> nat list \<Rightarrow> nat list res" where
  "ArgMaxFunc_run a data map0 = loop (am_outer_dim a) (\<lambda>i out. bind_res (argmax_v1_row a data map0 i) (\<lambda>(_, k). put_elem i k out))"

text \<open>The later versions also give the element; \<open>value\<close> turns it into a \<^verbatim>\<open>float\<close>.\<close>

datatype 'f argmax_out = MaxValue 'f | MaxIndex nat

definition ArgMaxV2Func_run :: "(int \<Rightarrow> 'f) \<Rightarrow> argmax \<Rightarrow> int list \<Rightarrow> int list \<Rightarrow> 'f argmax_out list \<Rightarrow> 'f argmax_out list res" where
  "ArgMaxV2Func_run val a data map0 = loop (am_outer_dim a) (\<lambda>i out. bind_res (argmax_row a data map0 i) (\<lambda>(m, k).
     bind_res (put_elem (2 * i) (MaxValue (val m)) out) (put_elem (2 * i + 1) (MaxIndex k))))"

definition ArgMaxV3Func_run :: "(int \<Rightarrow> 'f) \<Rightarrow> argmax \<Rightarrow> int list \<Rightarrow> int list \<Rightarrow> nat list \<times> 'f list option \<Rightarrow> (nat list \<times> 'f list option) res" where
  "ArgMaxV3Func_run val a data map0 = loop (am_outer_dim a) (\<lambda>i (indices, values). bind_res (argmax_row a data map0 i) (\<lambda>(m, k).
     bind_res (put_elem i k indices) (\<lambda>indices'.
     case values of None \<Rightarrow> Inr (indices', None) | Some vs \<Rightarrow> bind_res (put_elem i (val m) vs) (\<lambda>vs'. Inr (indices', Some vs')))))"

section \<open>Reduction by the maximum and running sums\<close>

definition my_reduce_max :: "('a \<Rightarrow> 'a \<Rightarrow> 'a) \<Rightarrow> 'a list \<Rightarrow> nat list \<Rightarrow> nat list \<Rightarrow> 'a list \<Rightarrow> 'a list res" where
  "my_reduce_max max2 input input_shape axes out =
    (case axes of [] \<Rightarrow> Inl AssertFailed | axis # _ \<Rightarrow>
     if length input_shape \<le> axis then Inl OutOfRange else
     let total = prod_dims input_shape; n = prod_dims (take axis input_shape); c = input_shape ! axis in
     if n * c = 0 then Inl DivByZero else
     let hw = total div (n * c) in
     loop n (\<lambda>nidx. loop hw (\<lambda>inner_idx. loop c (\<lambda>cidx out.
       bind_res (elem input (nidx * c * hw + cidx * hw + inner_idx)) (\<lambda>tmp.
       bind_res (if cidx = 0 then put_elem (nidx * hw + inner_idx) tmp out else Inr out) (\<lambda>out1.
       bind_res (elem out1 (nidx * hw + inner_idx)) (\<lambda>o0. put_elem (nidx * hw + inner_idx) (max2 tmp o0) out1)))))) out)"

text \<open>An \<^verbatim>\<open>int8_t\<close> tensor is read as bytes without a sign.\<close>

datatype 'f cells = Bytes "byte list" | Floats "'f list"

definition ReduceMaxFunc_run :: "('f \<Rightarrow> 'f \<Rightarrow> 'f) \<Rightarrow> cvi_fmt \<Rightarrow> 'f cells \<Rightarrow> nat list \<Rightarrow> nat list \<Rightarrow> 'f cells \<Rightarrow> 'f cells res" where
  "ReduceMaxFunc_run fmax fmt input input_shape axes output =
    (if fmt = CVI_FMT_INT8 \<or> fmt = CVI_FMT_UINT8 then
       (case (input, output) of (Bytes xs, Bytes out) \<Rightarrow> bind_res (my_reduce_max max xs input_shape axes out) (\<lambda>r. Inr (Bytes r)) | _ \<Rightarrow> Inl OutOfRange)
     else if fmt = CVI_FMT_FP32 then
       (case (input, output) of (Floats xs, Floats out) \<Rightarrow> bind_res (my_reduce_max fmax xs input_shape axes out) (\<lambda>r. Inr (Floats r)) | _ \<Rightarrow> Inl OutOfRange)
     else Inl AssertFailed)"

text \<open>
  The outer loop of the running sum advances by a whole slice; a shape with a zero in it has no
  elements, and otherwise every round covers at least one.
\<close>

fun cumsum_loop :: "('a \<Rightarrow> 'a \<Rightarrow> 'a) \<Rightarrow> nat \<Rightarrow> nat \<Rightarrow> nat \<Rightarrow> 'a list \<Rightarrow> nat \<Rightarrow> nat \<Rightarrow> 'a list \<Rightarrow> 'a list res" where
  "cumsum_loop add len stride numelement bottom 0 cur out = Inl Diverged"
| "cumsum_loop add len stride numelement bottom (Suc fuel) cur out = (if cur < numelement then
     bind_res (loop len (\<lambda>l. loop stride (\<lambda>s out. let p = cur + l * stride + s in
       bind_res (elem bottom p) (\<lambda>b. if l = 0 then put_elem p b out
         else bind_res (elem out (p - stride)) (\<lambda>t. put_elem p (add b t) out)))) out)
     (cumsum_loop add len stride numelement bottom fuel (cur + len * stride))
     else Inr out)"

definition CumSumFunc_run :: "('a \<Rightarrow> 'a \<Rightarrow> 'a) \<Rightarrow> nat \<Rightarrow> 'a tensor \<Rightarrow> 'a tensor \<Rightarrow> 'a tensor res" where
  "CumSumFunc_run add axis bottom top0 = bind_res (dim bottom axis) (\<lambda>len.
     let numelement = prod_dims (t_shape bottom) in
     with_data top0 (cumsum_loop add len (prod_dims (drop (Suc axis) (t_shape bottom))) numelement (t_data bottom) (Suc numelement) 0 (t_data top0)))"

section \<open>Preprocessing\<close>

record 'f float_ops =
  fo_mul :: "'f \<Rightarrow> 'f \<Rightarrow> 'f"
  fo_sub :: "'f \<Rightarrow> 'f \<Rightarrow> 'f"
  fo_zero :: 'f
  fo_one :: 'f

record 'f preprocess =
  pp_scale :: 'f
  pp_raw_scale :: 'f
  pp_mean :: "'f list"
  pp_color_order :: "int list"

text \<open>The channels of every image go to the places of the colour order; \<^verbatim>\<open>memcpy\<close> copies a channel.\<close>

definition reorder_channels :: "int list \<Rightarrow> nat \<Rightarrow> nat \<Rightarrow> nat \<Rightarrow> 'a list \<Rightarrow> 'a list \<Rightarrow> 'a list res" where
  "reorder_channels order n c csz bottom = loop n (\<lambda>i. loop c (\<lambda>j out. bind_res (elem order j) (\<lambda>k.
     let to = int (i * (c * csz)) + k * int csz in
     if to < 0 then Inl OutOfRange else copy_block bottom (int (i * (c * csz) + j * csz)) csz (nat to) out)))"

definition preprocess_value :: "'f float_ops \<Rightarrow> 'f preprocess \<Rightarrow> nat \<Rightarrow> 'f \<Rightarrow> 'f res" where
  "preprocess_value F p ch val0 =
    (let val1 = (if pp_raw_scale p \<noteq> fo_zero F then fo_mul F val0 (pp_raw_scale p) else val0) in
     bind_res (if pp_mean p \<noteq> [] then bind_res (elem (pp_mean p) ch) (\<lambda>m. Inr (fo_sub F val1 m)) else Inr val1) (\<lambda>val2.
     Inr (if pp_scale p \<noteq> fo_one F then fo_mul F val2 (pp_scale p) else val2)))"

definition PreprocessFunc_run :: "'f float_ops \<Rightarrow> 'f preprocess \<Rightarrow> 'f tensor \<Rightarrow> 'f tensor \<Rightarrow> 'f tensor res" where
  "PreprocessFunc_run F p bottom top0 =
    bind_res (dim bottom 0) (\<lambda>n. bind_res (dim bottom 1) (\<lambda>c. bind_res (dim bottom 2) (\<lambda>h. bind_res (dim bottom 3) (\<lambda>w.
    let csz = h * w; cnt = n * (c * csz); in_place = pp_color_order p \<noteq> [] in
    with_data top0 (bind_res (if in_place then reorder_channels (pp_color_order p) n c csz (t_data bottom) (t_data top0) else Inr (t_data top0)) (\<lambda>out.
      loop cnt (\<lambda>i out. bind_res (elem (if in_place then out else t_data bottom) i) (\<lambda>val0.
        bind_res (preprocess_value F p (i div csz mod c) val0) (\<lambda>val3. put_elem i val3 out))) out))))))"

end
