(* ===== verification/CpuLayers.thy ===== *)
theory CpuLayers
  imports CpuFunc
begin

text \<open>
  What the layers on the host compute, against definitions by index.  The loops write every place of
  the output once; a locale states what is needed of the places for a loop to be a permutation.
\<close>

section \<open>Loops\<close>

lemma loop_from_add: "loop_from k (m + n) f s = bind_res (loop_from k m f s) (loop_from (k + m) n f)"
  by (induction m arbitrary: k s) (auto simp: bind_res_def split: sum.splits)

lemma loop_from_shift: "loop_from k n f = loop_from 0 n (\<lambda>i. f (k + i))"
proof -
  have "loop_from (k + j) n f s = loop_from j n (\<lambda>i. f (k + i)) s" for j s
  proof (induction n arbitrary: j s)
    case (Suc n)
    show ?case using Suc[of "Suc j"] by (simp add: bind_res_def split: sum.splits)
  qed simp
  from this[of 0] show ?thesis by (simp add: fun_eq_iff)
qed

lemma loop_cong: "(\<And>i s. i < n \<Longrightarrow> f i s = g i s) \<Longrightarrow> loop n f s = loop n g s"
proof -
  assume a: "\<And>i s. i < n \<Longrightarrow> f i s = g i s"
  have "m + k \<le> n \<Longrightarrow> loop_from m k f s = loop_from m k g s" for m k s
    using a by (induction k arbitrary: m s) (auto simp: bind_res_def split: sum.splits)
  from this[of 0 n] show ?thesis by simp
qed

text \<open>Two nested loops are one loop over the index of a row-major pair.\<close>

lemma loop_nest: "loop n (\<lambda>i. loop m (f i)) s = loop (n * m) (\<lambda>k. f (k div m) (k mod m)) s"
proof (cases "m = 0")
  case True
  have "loop_from k n (\<lambda>i. loop 0 (f i)) s = Inr s" for k by (induction n arbitrary: k) (simp_all add: bind_res_def)
  with True show ?thesis by simp
next
  case False
  have "loop_from i n (\<lambda>i. loop m (f i)) s = loop_from (i * m) (n * m) (\<lambda>k. f (k div m) (k mod m)) s" for i s
  proof (induction n arbitrary: i s)
    case (Suc n)
    have "loop_from (i * m) m (\<lambda>k. f (k div m) (k mod m)) s = loop m (f i) s" for s
      unfolding loop_from_shift[of "i * m"] by (rule loop_cong) (use False in simp)
    then have "loop_from (i * m) (m + n * m) (\<lambda>k. f (k div m) (k mod m)) s =
        bind_res (loop m (f i) s) (loop_from (i * m + m) (n * m) (\<lambda>k. f (k div m) (k mod m)))"
      by (simp add: loop_from_add)
    moreover have "loop_from (i * m + m) (n * m) (\<lambda>k. f (k div m) (k mod m)) = loop_from (Suc i) n (\<lambda>i. loop m (f i))"
      using Suc[of "Suc i"] by (simp add: fun_eq_iff add.commute)
    ultimately show ?case by simp
  qed simp
  from this[of 0] show ?thesis by simp
qed

text \<open>A loop that counts its rounds in the state.\<close>

lemma loop_count:
  "loop n (\<lambda>k (p, out). bind_res (f k p out) (\<lambda>out'. Inr (p + 1, out'))) (0, out) = bind_res (loop n (\<lambda>k. f k k) out) (\<lambda>out'. Inr (n, out'))"
proof -
  have "loop_from j n (\<lambda>k (p, out). bind_res (f k p out) (\<lambda>out'. Inr (p + 1, out'))) (j, out) =
      bind_res (loop_from j n (\<lambda>k. f k k) out) (\<lambda>out'. Inr (j + n, out'))" for j
    by (induction n arbitrary: j out) (auto simp: bind_res_def split: sum.splits)
  from this[of 0] show ?thesis by simp
qed

text \<open>A loop that fills the output in order.\<close>

lemma loop_fill:
  assumes "n \<le> length out" "\<And>k out. k < n \<Longrightarrow> f k out = put_elem k (v k) out"
  shows "loop n f out = Inr (map v [0..<n] @ drop n out)"
proof -
  have "loop_from j m f (map v [0..<j] @ drop j out) = Inr (map v [0..<j + m] @ drop (j + m) out)" if "j + m \<le> n" for j m
    using that
  proof (induction m arbitrary: j)
    case (Suc m)
    let ?o = "map v [0..<j] @ drop j out"
    have j: "j < length out" using Suc.prems assms(1) by simp
    have "f j ?o = Inr (?o[j := v j])" using assms(2)[of j ?o] Suc.prems j by (simp add: put_elem_def)
    moreover have "?o[j := v j] = map v [0..<Suc j] @ drop (Suc j) out"
      using j by (simp add: list_update_append Cons_nth_drop_Suc[symmetric])
    ultimately show ?case using Suc.IH[of "Suc j"] Suc.prems by (simp add: bind_res_def)
  qed simp
  from this[of 0 n] show ?thesis by simp
qed

section \<open>Permutations\<close>

text \<open>
  A loop that takes the element at \<open>k\<close> to the place \<open>place p k\<close>, for every \<open>k\<close> below \<open>len p\<close>: the
  parameter \<open>p\<close> holds the dimensions, \<open>fits p\<close> says that they belong together.
\<close>

locale scatter =
  fixes fits :: "'p \<Rightarrow> bool" and len :: "'p \<Rightarrow> nat" and place :: "'p \<Rightarrow> nat \<Rightarrow> nat"
  assumes place_in: "fits p \<Longrightarrow> k < len p \<Longrightarrow> place p k < len p"
    and place_inj: "fits p \<Longrightarrow> k < len p \<Longrightarrow> j < len p \<Longrightarrow> place p k = place p j \<Longrightarrow> k = j"
begin

definition step :: "'p \<Rightarrow> 'a list \<Rightarrow> nat \<Rightarrow> 'a list \<Rightarrow> 'a list res" where
  "step p src k out = bind_res (elem src k) (\<lambda>v. put_elem (place p k) v out)"

lemma run_prefix:
  assumes "fits p" "length src = len p" "length out = len p" "n \<le> len p"
  shows "\<exists>res. loop n (step p src) out = Inr res \<and> length res = len p \<and> (\<forall>k<n. res ! place p k = src ! k)"
  using assms(4)
proof (induction n)
  case 0
  then show ?case using assms by auto
next
  case (Suc n)
  then obtain res where r: "loop n (step p src) out = Inr res" "length res = len p" "\<forall>k<n. res ! place p k = src ! k" by auto
  have n: "n < len p" "place p n < len p" using Suc.prems place_in[OF assms(1)] by auto
  have "loop (Suc n) (step p src) out = Inr (res[place p n := src ! n])"
    using loop_from_add[of 0 n 1 "step p src" out] r n assms(2) by (simp add: step_def bind_res_def elem_def put_elem_def)
  moreover have "res[place p n := src ! n] ! place p k = src ! k" if "k < Suc n" for k
    using that r n place_inj[OF assms(1), of k n] by (cases "k = n") (auto simp: nth_list_update)
  ultimately show ?case using r(2) by auto
qed

text \<open>Every element arrives, and nothing else is in the output.\<close>

lemma run_all:
  assumes "fits p" "length src = len p" "length out = len p"
  obtains res where "loop (len p) (step p src) out = Inr res" "length res = len p" "\<And>k. k < len p \<Longrightarrow> res ! place p k = src ! k" "mset res = mset src"
proof -
  obtain res where r: "loop (len p) (step p src) out = Inr res" "length res = len p" "\<forall>k<len p. res ! place p k = src ! k"
    using run_prefix[OF assms order_refl] by blast
  have bij: "inj_on (place p) {..<len p}" "place p ` {..<len p} \<subseteq> {..<len p}"
    using place_inj[OF assms(1)] place_in[OF assms(1)] by (auto simp: inj_on_def)
  then have "place p ` {..<len p} = {..<len p}" by (simp add: endo_inj_surj)
  with bij(1) have "bij_betw (place p) {..<len p} {..<len p}" by (simp add: bij_betw_def)
  then have "image_mset (place p) (mset_set {..<len p}) = mset_set {..<len p}" by (simp add: bij_betw_def image_mset_mset_set)
  then have "image_mset ((!) res) (mset_set {..<len p}) = image_mset ((!) res) (image_mset (place p) (mset_set {..<len p}))" by simp
  also have "\<dots> = image_mset (\<lambda>k. res ! place p k) (mset_set {..<len p})" by (simp add: multiset.map_comp comp_def)
  also have "\<dots> = image_mset ((!) src) (mset_set {..<len p})" using r(3) by (intro image_mset_cong) auto
  finally have e: "mset (map ((!) res) [0..<len p]) = mset (map ((!) src) [0..<len p])" by (simp add: lessThan_atLeast0)
  have "map ((!) res) [0..<len p] = res" "map ((!) src) [0..<len p] = src" using map_nth[of res] map_nth[of src] r(2) assms(2) by simp_all
  with e have "mset res = mset src" by (simp only:)
  with r show ?thesis by (intro that[of res]) auto
qed

end

section \<open>Transposition\<close>

text \<open>The dimensions of the output.\<close>

type_synonym dims4 = "nat \<times> nat \<times> nat \<times> nat"

fun transpose_len :: "dims4 \<Rightarrow> nat" where
  "transpose_len (n, c, h, w) = n * (c * (h * w))"

fun transpose_place :: "dims4 \<Rightarrow> nat \<Rightarrow> nat" where
  "transpose_place (n, c, h, w) k = (let image = c * (h * w) in k div image * image + (k mod image mod c) * (h * w) + k mod image div c)"

lemma pair_index: "(a::nat) < m \<Longrightarrow> b < n \<Longrightarrow> a * n + b < m * n"
proof -
  assume a: "a < m" "b < n"
  then have "a * n + b < (a + 1) * n" by simp
  also have "\<dots> \<le> m * n" using a(1) by (intro mult_right_mono) auto
  finally show ?thesis .
qed

lemma pair_divmod: "(b::nat) < n \<Longrightarrow> (a * n + b) div n = a" "(b::nat) < n \<Longrightarrow> (a * n + b) mod n = b"
  by simp_all

lemma pair_index_inj: "(b::nat) < n \<Longrightarrow> d < n \<Longrightarrow> a * n + b = c * n + d \<longleftrightarrow> a = c \<and> b = d"
proof -
  assume bd: "b < n" "d < n"
  have "(a * n + b) div n = a" "(c * n + d) div n = c" "(a * n + b) mod n = b" "(c * n + d) mod n = d" using bd by simp_all
  then show ?thesis by metis
qed

interpretation transposed: scatter "\<lambda>_. True" transpose_len transpose_place
proof
  fix p k assume k: "k < transpose_len p"
  obtain n c h w where p: "p = (n, c, h, w)" by (cases p)
  let ?I = "c * (h * w)" and ?S = "h * w"
  have "0 < ?I" using k by (auto simp: p intro!: Nat.gr0I)
  then have pos: "0 < c" "0 < ?S" "k div ?I < n" "k mod ?I < ?I" using k by (auto simp: p less_mult_imp_div_less)
  have q: "k mod ?I div c < ?S" using pos(4) by (simp add: less_mult_imp_div_less mult.commute)
  have "(k mod ?I mod c) * ?S + k mod ?I div c < c * ?S" using pair_index[OF _ q, of "k mod ?I mod c" c] pos(1) by simp
  from pair_index[OF pos(3) this] show "transpose_place p k < transpose_len p" by (simp add: p Let_def add.assoc)
next
  fix p k j assume k: "k < transpose_len p" and j: "j < transpose_len p" and e: "transpose_place p k = transpose_place p j"
  obtain n c h w where p: "p = (n, c, h, w)" by (cases p)
  let ?I = "c * (h * w)" and ?S = "h * w"
  have pos: "0 < c" "0 < ?S" "0 < ?I" using k by (auto simp: p intro!: Nat.gr0I)
  have q: "i mod ?I div c < ?S" for i using pos(3) by (simp add: less_mult_imp_div_less mult.commute)
  have r: "(i mod ?I mod c) * ?S + i mod ?I div c < ?I" for i using pair_index[OF _ q, of "i mod ?I mod c" c i] pos(1) by simp
  have "k div ?I = j div ?I" "(k mod ?I mod c) * ?S + k mod ?I div c = (j mod ?I mod c) * ?S + j mod ?I div c"
    using e pair_index_inj[OF r r, of "k div ?I" k "j div ?I" j] by (simp_all add: p Let_def add.assoc)
  moreover from this(2) have "k mod ?I mod c = j mod ?I mod c" "k mod ?I div c = j mod ?I div c"
    using pair_index_inj[OF q q, of "k mod ?I mod c" k "j mod ?I mod c" j] by simp_all
  ultimately show "k = j" by (metis div_mult_mod_eq)
qed

lemma TransposeFunc_loop:
  assumes "t_shape top0 = [n, c, h, w]"
  shows "TransposeFunc_run bottom top0 = with_data top0 (loop (transpose_len (n, c, h, w)) (transposed.step (n, c, h, w) (t_data bottom)) (t_data top0))"
  by (simp add: TransposeFunc_run_def dim_def elem_def[of "[n, c, h, w]"] assms bind_res_def[of "Inr _"] Let_def loop_nest transposed.step_def[abs_def])

text \<open>
  Transposing on the host turns images whose channels are interleaved into planes: with the
  shape (n, c, h, w) of the output and as many elements in the input, the function returns, the
  element of channel \<open>k\<close> of the pixel \<open>q\<close> of image \<open>i\<close> goes to place \<open>q\<close> of plane \<open>k\<close> of image \<open>i\<close>, and the
  output is a rearrangement of the input.
\<close>

lemma transpose_planes:
  assumes "t_shape top0 = [n, c, h, w]" "length (t_data bottom) = n * (c * (h * w))" "length (t_data top0) = n * (c * (h * w))"
  shows "\<exists>res. TransposeFunc_run bottom top0 = Inr (top0\<lparr>t_data := res\<rparr>) \<and> mset res = mset (t_data bottom) \<and>
     (\<forall>i<n. \<forall>k<c. \<forall>q<h * w. res ! ((i * c + k) * (h * w) + q) = t_data bottom ! ((i * (h * w) + q) * c + k))"
proof -
  let ?p = "(n, c, h, w)" and ?S = "h * w"
  obtain res where r: "loop (transpose_len ?p) (transposed.step ?p (t_data bottom)) (t_data top0) = Inr res"
    "\<And>k. k < transpose_len ?p \<Longrightarrow> res ! transpose_place ?p k = t_data bottom ! k" "mset res = mset (t_data bottom)"
    by (rule transposed.run_all[where p = ?p and src = "t_data bottom" and out = "t_data top0"]) (use assms in auto)
  have "res ! ((i * c + k) * ?S + q) = t_data bottom ! ((i * ?S + q) * c + k)" if i: "i < n" and k: "k < c" and q: "q < ?S" for i k q
  proof -
    let ?x = "(i * ?S + q) * c + k"
    have m: "q * c + k < c * ?S" using pair_index[OF q k] by (simp add: mult.commute)
    have e: "?x = i * (c * ?S) + (q * c + k)" by (simp add: algebra_simps)
    have "?x < transpose_len ?p" using pair_index[OF i m] by (simp add: e)
    moreover have "transpose_place ?p ?x = (i * c + k) * ?S + q"
    proof -
      have "?x div (c * ?S) = i" "?x mod (c * ?S) = q * c + k" unfolding e by (rule pair_divmod[OF m])+
      then show ?thesis using k by (simp add: Let_def algebra_simps)
    qed
    ultimately show ?thesis using r(2)[of ?x] by simp
  qed
  then show ?thesis using r(1,3) TransposeFunc_loop[OF assms(1), of bottom] by (auto simp: with_data_def bind_res_def)
qed

lemma transpose_planes_witness:
  "\<exists>res. TransposeFunc_run \<lparr>t_shape = [1, 2, 2, 3], t_fmt = CVI_FMT_FP32, t_data = [1, 2, 3, 4, 5, 6, 7, 8, 9, 10, 11, 12 :: nat]\<rparr>
       \<lparr>t_shape = [1, 3, 2, 2], t_fmt = CVI_FMT_FP32, t_data = replicate 12 0\<rparr> =
     Inr \<lparr>t_shape = [1, 3, 2, 2], t_fmt = CVI_FMT_FP32, t_data = res\<rparr> \<and> res ! 5 = 5"
proof -
  let ?b = "\<lparr>t_shape = [1, 2, 2, 3], t_fmt = CVI_FMT_FP32, t_data = [1, 2, 3, 4, 5, 6, 7, 8, 9, 10, 11, 12 :: nat]\<rparr>"
  let ?t = "\<lparr>t_shape = [1, 3, 2, 2], t_fmt = CVI_FMT_FP32, t_data = replicate 12 (0 :: nat)\<rparr>"
  obtain res where r: "TransposeFunc_run ?b ?t = Inr (?t\<lparr>t_data := res\<rparr>)"
    "\<forall>i<1. \<forall>k<3. \<forall>q<2 * 2. res ! ((i * 3 + k) * (2 * 2) + q) = t_data ?b ! ((i * (2 * 2) + q) * 3 + k)"
    using transpose_planes[of ?t 1 3 2 2 ?b] by auto
  from r(2)[rule_format, of 0 1 1] have "res ! 5 = 5" by simp
  with r(1) show ?thesis by auto
qed

section \<open>Pixel shuffle\<close>

text \<open>
  The parameters: the number of images, the channels of the output, height and width of the input
  and the factor.  The input has \<open>r * r\<close> times as many channels as the output.
\<close>

type_synonym shuffle = "nat \<times> nat \<times> nat \<times> nat \<times> nat"

fun shuffle_len :: "shuffle \<Rightarrow> nat" where
  "shuffle_len (n, oc, h, w, r) = n * (oc * r * r) * h * w"

fun shuffle_fits :: "shuffle \<Rightarrow> bool" where
  "shuffle_fits (n, oc, h, w, r) \<longleftrightarrow> 0 < oc \<and> 0 < r"

fun shuffle_place :: "shuffle \<Rightarrow> nat \<Rightarrow> nat" where
  "shuffle_place (n, oc, h, w, r) k = (let i = k div w div h div (oc * r * r); c = k div w div h mod (oc * r * r); y = k div w mod h; x = k mod w in
     i * (oc * (h * r) * (w * r)) + c mod oc * ((h * r) * (w * r)) + (y * r + c div oc div r) * (w * r) + (x * r + c div oc mod r))"

text \<open>The place of the element of channel \<open>(a * r + b) * oc + c\<close> at \<open>(y, x)\<close> of image \<open>i\<close>.\<close>

definition shuffle_source :: "shuffle \<Rightarrow> nat \<Rightarrow> nat \<Rightarrow> nat \<Rightarrow> nat \<Rightarrow> nat \<Rightarrow> nat \<Rightarrow> nat" where
  "shuffle_source p i c y a x b = (case p of (n, oc, h, w, r) \<Rightarrow> ((i * (oc * r * r) + ((a * r + b) * oc + c)) * h + y) * w + x)"

definition shuffle_target :: "shuffle \<Rightarrow> nat \<Rightarrow> nat \<Rightarrow> nat \<Rightarrow> nat \<Rightarrow> nat \<Rightarrow> nat \<Rightarrow> nat" where
  "shuffle_target p i c y a x b = (case p of (n, oc, h, w, r) \<Rightarrow> ((i * oc + c) * (h * r) + (y * r + a)) * (w * r) + (x * r + b))"

lemma shuffle_at:
  assumes p: "p = (n, oc, h, w, r)" and b: "i < n" "c < oc" "y < h" "a < r" "x < w" "b < r"
  shows "shuffle_place p (shuffle_source p i c y a x b) = shuffle_target p i c y a x b"
    "shuffle_source p i c y a x b < shuffle_len p" "shuffle_target p i c y a x b < shuffle_len p"
proof -
  let ?ch = "(a * r + b) * oc + c" and ?k = "shuffle_source p i c y a x b" and ?C = "oc * r * r"
  have ch: "?ch < ?C" using pair_index[OF pair_index[OF b(4,6)] b(2)] by (simp add: mult_ac)
  have k: "?k = ((i * ?C + ?ch) * h + y) * w + x" by (simp add: shuffle_source_def p)
  have "((i * ?C + ?ch) * h + y) * w + x < n * ?C * h * w" by (rule pair_index[OF pair_index[OF pair_index[OF b(1) ch] b(3)] b(5)])
  then show "?k < shuffle_len p" by (simp add: shuffle_source_def p)
  have d: "?k div w = (i * ?C + ?ch) * h + y" "?k mod w = x" unfolding k by (rule pair_divmod[OF b(5)])+
  have e: "((i * ?C + ?ch) * h + y) div h = i * ?C + ?ch" "((i * ?C + ?ch) * h + y) mod h = y" by (rule pair_divmod[OF b(3)])+
  have f: "(i * ?C + ?ch) div ?C = i" "(i * ?C + ?ch) mod ?C = ?ch" by (rule pair_divmod[OF ch])+
  have g: "?ch div oc = a * r + b" "?ch mod oc = c" by (rule pair_divmod[OF b(2)])+
  have j: "(a * r + b) div r = a" "(a * r + b) mod r = b" by (rule pair_divmod[OF b(6)])+
  show "shuffle_place p ?k = shuffle_target p i c y a x b"
    using d by (simp only: p shuffle_place.simps Let_def shuffle_target_def prod.case e f g j) (simp add: algebra_simps)
  have "(i * oc + c) * (h * r) + (y * r + a) < n * oc * (h * r)" by (rule pair_index[OF pair_index[OF b(1,2)] pair_index[OF b(3,4)]])
  from pair_index[OF this pair_index[OF b(5,6)]] show "shuffle_target p i c y a x b < shuffle_len p"
    by (simp add: shuffle_target_def p mult_ac)
qed

text \<open>Every index of the input is of this form.\<close>

lemma shuffle_index:
  assumes "p = (n, oc, h, w, r)" "k < shuffle_len p"
  obtains i c y a x b where "i < n" "c < oc" "y < h" "a < r" "x < w" "b < r" "k = shuffle_source p i c y a x b"
proof -
  let ?C = "oc * r * r"
  have k: "k < n * ?C * h * w" using assms by simp
  then have pos: "0 < oc" "0 < r" "0 < h" "0 < w" by (auto intro!: Nat.gr0I)
  let ?q = "k div w div h" let ?ch = "?q mod ?C" let ?ab = "?ch div oc"
  have q: "?q < n * ?C" using less_mult_imp_div_less[OF less_mult_imp_div_less[OF k]] .
  have ch: "?ch < r * r * oc" using pos by (simp add: mult_ac)
  have i: "?q div ?C < n" using q by (simp add: less_mult_imp_div_less)
  have ab: "?ab < r * r" using ch by (simp add: less_mult_imp_div_less)
  then have a: "?ab div r < r" by (simp add: less_mult_imp_div_less)
  have "k = shuffle_source p (?q div ?C) (?ch mod oc) (k div w mod h) (?ab div r) (k mod w) (?ab mod r)"
    unfolding assms(1) shuffle_source_def prod.case div_mult_mod_eq ..
  then show ?thesis using i a pos by (intro that[of "?q div ?C" "?ch mod oc" "k div w mod h" "?ab div r" "k mod w" "?ab mod r"]) simp_all
qed

interpretation shuffled: scatter shuffle_fits shuffle_len shuffle_place
proof
  fix p k assume k: "k < shuffle_len p"
  obtain n oc h w r where p: "p = (n, oc, h, w, r)" by (cases p)
  from shuffle_index[OF p k] shuffle_at(1,3)[OF p] show "shuffle_place p k < shuffle_len p" by metis
next
  fix p k j assume k: "k < shuffle_len p" and j: "j < shuffle_len p" and e: "shuffle_place p k = shuffle_place p j"
  obtain n oc h w r where p: "p = (n, oc, h, w, r)" by (cases p)
  obtain i c y a x b where s: "i < n" "c < oc" "y < h" "a < r" "x < w" "b < r" "k = shuffle_source p i c y a x b" by (rule shuffle_index[OF p k])
  obtain i' c' y' a' x' b' where t: "i' < n" "c' < oc" "y' < h" "a' < r" "x' < w" "b' < r" "j = shuffle_source p i' c' y' a' x' b'" by (rule shuffle_index[OF p j])
  have "shuffle_target p i c y a x b = shuffle_target p i' c' y' a' x' b'"
    using e shuffle_at(1)[OF p s(1-6)] shuffle_at(1)[OF p t(1-6)] s(7) t(7) by simp
  then have "((i * oc + c) * (h * r) + (y * r + a)) * (w * r) + (x * r + b) = ((i' * oc + c') * (h * r) + (y' * r + a')) * (w * r) + (x' * r + b')"
    by (simp add: shuffle_target_def p)
  then have 1: "(i * oc + c) * (h * r) + (y * r + a) = (i' * oc + c') * (h * r) + (y' * r + a')" "x * r + b = x' * r + b'"
    using pair_index_inj[OF pair_index[OF s(5,6)] pair_index[OF t(5,6)]] by blast+
  from 1(1) have 2: "i * oc + c = i' * oc + c'" "y * r + a = y' * r + a'"
    using pair_index_inj[OF pair_index[OF s(3,4)] pair_index[OF t(3,4)]] by blast+
  from 1(2) 2 have "x = x' \<and> b = b'" "i = i' \<and> c = c'" "y = y' \<and> a = a'"
    using pair_index_inj[OF s(6) t(6)] pair_index_inj[OF s(2) t(2)] pair_index_inj[OF s(4) t(4)] by blast+
  then show "k = j" by (simp add: s(7) t(7))
qed

lemma PixelShuffleFunc_loop:
  assumes "t_shape bottom = [n, oc * r * r, h, w]" "t_shape top0 = [n', oc, h * r, w * r]" "shuffle_fits (n, oc, h, w, r)"
  shows "PixelShuffleFunc_run ''DCR'' r bottom top0 =
     with_data top0 (loop (shuffle_len (n, oc, h, w, r)) (shuffled.step (n, oc, h, w, r) (t_data bottom)) (t_data top0))"
proof -
  let ?p = "(n, oc, h, w, r)"
  let ?f = "\<lambda>k i out. bind_res (elem (t_data bottom) i) (\<lambda>v. put_elem (shuffle_place ?p k) v out)"
  have pos: "oc \<noteq> 0" "r \<noteq> 0" using assms(3) by auto
  have a: "bind_res (bind_res x f) g = bind_res x (\<lambda>v. bind_res (f v) g)" for x :: "'a res" and f :: "'a \<Rightarrow> 'a list res" and g :: "'a list \<Rightarrow> (nat \<times> 'a list) res"
    by (simp add: bind_res_def split: sum.splits)
  have "PixelShuffleFunc_run ''DCR'' r bottom top0 = with_data top0 (bind_res
     (loop (shuffle_len ?p) (\<lambda>k (i, out). bind_res (?f k i out) (\<lambda>out'. Inr (i + 1, out'))) (0, t_data top0)) (\<lambda>(_, out). Inr out))"
    using pos by (simp add: PixelShuffleFunc_run_def dim_def assms(1,2) elem_def[of "[_, _, _, _]"] bind_res_def[of "Inr _"] loop_nest Let_def a)
  also have "\<dots> = with_data top0 (loop (shuffle_len ?p) (\<lambda>k. ?f k k) (t_data top0))"
    unfolding loop_count by (simp add: bind_res_def split: sum.splits)
  finally show ?thesis by (simp add: shuffled.step_def[abs_def])
qed

text \<open>
  The pixel shuffle spreads the channels over the plane: with \<open>r * r\<close> input channels per output
  channel, the element at \<open>(y, x)\<close> of the input channel \<open>(a * r + b) * oc + c\<close> goes to
  \<open>(y * r + a, x * r + b)\<close> of the output channel \<open>c\<close>, and the output is a rearrangement of the input.
  A mode other than DCR fails its assertion.
\<close>

lemma pixel_shuffle_spreads:
  assumes "t_shape bottom = [n, oc * r * r, h, w]" "t_shape top0 = [n, oc, h * r, w * r]" "0 < oc" "0 < r"
    and "length (t_data bottom) = n * (oc * r * r * (h * w))" "length (t_data top0) = n * (oc * r * r * (h * w))"
  shows "\<exists>res. PixelShuffleFunc_run ''DCR'' r bottom top0 = Inr (top0\<lparr>t_data := res\<rparr>) \<and> mset res = mset (t_data bottom) \<and>
     (\<forall>i<n. \<forall>c<oc. \<forall>y<h. \<forall>a<r. \<forall>x<w. \<forall>b<r. res ! (((i * oc + c) * (h * r) + (y * r + a)) * (w * r) + (x * r + b)) =
        t_data bottom ! (((i * (oc * r * r) + ((a * r + b) * oc + c)) * h + y) * w + x)) \<and>
     (mode \<noteq> ''DCR'' \<longrightarrow> PixelShuffleFunc_run mode r bottom top0 = Inl AssertFailed)"
proof -
  let ?p = "(n, oc, h, w, r)"
  have fits: "shuffle_fits ?p" using assms(3,4) by simp
  obtain res where r: "loop (shuffle_len ?p) (shuffled.step ?p (t_data bottom)) (t_data top0) = Inr res"
    "\<And>k. k < shuffle_len ?p \<Longrightarrow> res ! shuffle_place ?p k = t_data bottom ! k" "mset res = mset (t_data bottom)"
    by (rule shuffled.run_all[OF fits, where src = "t_data bottom" and out = "t_data top0"]) (use assms(5,6) in \<open>auto simp: mult_ac\<close>)
  have "res ! shuffle_target ?p i c y a x b = t_data bottom ! shuffle_source ?p i c y a x b"
    if "i < n" "c < oc" "y < h" "a < r" "x < w" "b < r" for i c y a x b
    using r(2) shuffle_at(1,2)[OF refl that] by metis
  moreover have "mode \<noteq> ''DCR'' \<Longrightarrow> PixelShuffleFunc_run mode r bottom top0 = Inl AssertFailed"
    by (simp add: PixelShuffleFunc_run_def dim_def assms(1,2) elem_def bind_res_def)
  ultimately show ?thesis
    using r(1,3) PixelShuffleFunc_loop[OF assms(1,2) fits] by (auto simp: with_data_def bind_res_def shuffle_source_def shuffle_target_def)
qed

definition demo_blocks :: "nat tensor" where
  "demo_blocks = \<lparr>t_shape = [1, 4, 1, 2], t_fmt = CVI_FMT_INT8, t_data = [1, 2, 3, 4, 5, 6, 7, 8]\<rparr>"

definition demo_plane :: "nat tensor" where
  "demo_plane = \<lparr>t_shape = [1, 1, 2, 4], t_fmt = CVI_FMT_INT8, t_data = replicate 8 0\<rparr>"

lemma pixel_shuffle_spreads_witness:
  "\<exists>res. PixelShuffleFunc_run ''DCR'' 2 demo_blocks demo_plane = Inr (demo_plane\<lparr>t_data := res\<rparr>) \<and> res ! 6 = 6 \<and>
     PixelShuffleFunc_run ''CRD'' 2 demo_blocks demo_plane = Inl AssertFailed"
proof -
  obtain res where r: "PixelShuffleFunc_run ''DCR'' 2 demo_blocks demo_plane = Inr (demo_plane\<lparr>t_data := res\<rparr>)"
    "\<forall>i<1. \<forall>c<1. \<forall>y<1. \<forall>a<2. \<forall>x<2. \<forall>b<2. res ! (((i * 1 + c) * (1 * 2) + (y * 2 + a)) * (2 * 2) + (x * 2 + b)) =
        t_data demo_blocks ! (((i * (1 * 2 * 2) + ((a * 2 + b) * 1 + c)) * 1 + y) * 2 + x)"
    "PixelShuffleFunc_run ''CRD'' 2 demo_blocks demo_plane = Inl AssertFailed"
    using pixel_shuffle_spreads[of demo_blocks 1 1 2 1 2 demo_plane "''CRD''"] by (auto simp: demo_blocks_def demo_plane_def)
  have "res ! 6 = 6" using r(2)[rule_format, of 0 0 0 1 1 0] by (simp add: demo_blocks_def)
  with r(1,3) show ?thesis by blast
qed

end
