(* ===== verification/CpuGather.thy ===== *)
theory CpuGather
  imports CpuLayers
begin

text \<open>
  The gathering layers against coordinates: the ten kernels of \<^verbatim>\<open>gatherelements_pt.cpp\<close> are one
  definition, and the offsets of \<^verbatim>\<open>gathernd.cpp\<close> are the row-major ones.
\<close>

section \<open>Coordinates\<close>

definition flat :: "nat list \<Rightarrow> nat list \<Rightarrow> nat" where
  "flat shape ix = foldl (\<lambda>a (d, i). a * d + i) 0 (zip shape ix)"

definition within :: "nat list \<Rightarrow> nat list \<Rightarrow> bool" where
  "within shape ix \<longleftrightarrow> list_all2 (\<lambda>d i. i < d) shape ix"

fun rcoords :: "nat list \<Rightarrow> nat \<Rightarrow> nat list" where
  "rcoords [] k = []"
| "rcoords (d # ds) k = k mod d # rcoords ds (k div d)"

definition coords :: "nat list \<Rightarrow> nat \<Rightarrow> nat list" where
  "coords shape k = rev (rcoords (rev shape) k)"

lemma coords_snoc [simp]: "coords (ds @ [d]) k = coords ds (k div d) @ [k mod d]"
  by (simp add: coords_def)

lemma flat_snoc [simp]: "length ds = length ix \<Longrightarrow> flat (ds @ [d]) (ix @ [i]) = flat ds ix * d + i"
  by (simp add: flat_def)

lemma prod_dims_snoc [simp]: "prod_dims (ds @ [d]) = prod_dims ds * d"
  by (induction ds) simp_all

lemma within_snoc: "within (ds @ [d]) ix \<longleftrightarrow> (\<exists>js i. ix = js @ [i] \<and> within ds js \<and> i < d)"
proof (cases ix rule: rev_cases)
  case (snoc js i)
  have "list_all2 (\<lambda>d i. i < d) (ds @ [d]) (js @ [i]) \<longleftrightarrow> list_all2 (\<lambda>d i. i < d) ds js \<and> i < d"
    by (cases "length ds = length js") (auto simp: list_all2_append dest!: list_all2_lengthD)
  with snoc show ?thesis by (auto simp: within_def)
qed (auto simp: within_def dest!: list_all2_lengthD)

lemma within_length: "within shape ix \<Longrightarrow> length ix = length shape"
  by (simp add: within_def list_all2_lengthD)

lemma flat_less: "within shape ix \<Longrightarrow> flat shape ix < prod_dims shape"
proof (induction shape arbitrary: ix rule: rev_induct)
  case (snoc d ds)
  then obtain js i where ix: "ix = js @ [i]" "within ds js" "i < d" by (auto simp: within_snoc)
  then show ?case using pair_index[OF snoc.IH[OF ix(2)] ix(3)] within_length[OF ix(2)] by simp
qed (simp add: within_def flat_def)

lemma coords_flat: "within shape ix \<Longrightarrow> coords shape (flat shape ix) = ix"
proof (induction shape arbitrary: ix rule: rev_induct)
  case (snoc d ds)
  then obtain js i where ix: "ix = js @ [i]" "within ds js" "i < d" by (auto simp: within_snoc)
  then show ?case using snoc.IH[OF ix(2)] within_length[OF ix(2)] pair_divmod[OF ix(3), of "flat ds js"] by simp
qed (simp add: within_def coords_def)

lemma within_coords: "k < prod_dims shape \<Longrightarrow> within shape (coords shape k)"
proof (induction shape arbitrary: k rule: rev_induct)
  case (snoc d ds)
  then have "k div d < prod_dims ds" by (simp add: less_mult_imp_div_less)
  moreover have "k mod d < d" using snoc.prems by (auto intro!: mod_less_divisor Nat.gr0I)
  ultimately show ?case using snoc.IH by (auto simp: within_snoc)
qed (simp add: within_def coords_def)

section \<open>Gathering elements\<close>

text \<open>Every index is inside the axis and the other dimensions of the indices fit the input.\<close>

definition gather_ok :: "nat \<Rightarrow> nat list \<Rightarrow> nat list \<Rightarrow> 'a list \<Rightarrow> int list \<Rightarrow> bool" where
  "gather_ok axis org shape src idx \<longleftrightarrow> length org = length shape \<and> axis < length shape \<and> length src = prod_dims org \<and> length idx = prod_dims shape \<and>
     (\<forall>x\<in>set idx. 0 \<le> x \<and> nat x < org ! axis) \<and> (\<forall>d<length shape. d \<noteq> axis \<longrightarrow> shape ! d \<le> org ! d)"

definition gather_at :: "nat \<Rightarrow> nat list \<Rightarrow> nat list \<Rightarrow> int list \<Rightarrow> nat \<Rightarrow> nat" where
  "gather_at axis org shape idx k = flat org ((coords shape k)[axis := nat (idx ! k)])"

lemma gather_at_in:
  assumes "gather_ok axis org shape src idx" "k < prod_dims shape"
  shows "gather_at axis org shape idx k < length src"
proof -
  have w: "within shape (coords shape k)" by (rule within_coords[OF assms(2)])
  have "0 \<le> idx ! k" "nat (idx ! k) < org ! axis" using assms by (auto simp: gather_ok_def)
  then have "within org ((coords shape k)[axis := nat (idx ! k)])"
    using w assms(1) within_length[OF w] unfolding within_def list_all2_conv_all_nth gather_ok_def
    by (auto simp: nth_list_update intro: less_le_trans)
  from flat_less[OF this] show ?thesis using assms(1) by (simp add: gather_at_def gather_ok_def)
qed

lemma gather_loop:
  assumes ok: "gather_ok axis org shape src idx" "prod_dims shape \<le> length out"
    and at: "\<And>k. k < prod_dims shape \<Longrightarrow> at k (idx ! k) = int (gather_at axis org shape idx k)"
  shows "loop (prod_dims shape) (\<lambda>k. gather_one src idx (at k)) (0, out) =
     Inr (prod_dims shape, map (\<lambda>k. src ! gather_at axis org shape idx k) [0..<prod_dims shape] @ drop (prod_dims shape) out)"
proof -
  let ?n = "prod_dims shape"
  let ?f = "\<lambda>k p out. bind_res (elem idx p) (\<lambda>x. bind_res (elem_int src (at k x)) (\<lambda>v. put_elem p v out))"
  have "(\<lambda>k. gather_one src idx (at k)) = (\<lambda>k (p, out). bind_res (?f k p out) (\<lambda>out'. Inr (p + 1, out')))"
    by (auto simp: fun_eq_iff gather_one_def bind_res_def split: sum.splits)
  moreover have "loop ?n (\<lambda>k. ?f k k) out = Inr (map (\<lambda>k. src ! gather_at axis org shape idx k) [0..<?n] @ drop ?n out)"
  proof (rule loop_fill[OF ok(2)])
    fix k out assume k: "k < ?n"
    then have "k < length idx" using ok(1) by (simp add: gather_ok_def)
    then show "?f k k out = put_elem k (src ! gather_at axis org shape idx k) out"
      using at[OF k] gather_at_in[OF ok(1) k] by (simp add: bind_res_def elem_def elem_int_def)
  qed
  ultimately show ?thesis using loop_count[where f = ?f and n = ?n and out = out] by (simp add: bind_res_def)
qed

text \<open>The source index of every kernel is the offset of the coordinates with the axis replaced.\<close>

lemma coords_cases:
  "k < s0 \<Longrightarrow> coords [s0] k = [k]"
  "k < s0 * s1 \<Longrightarrow> coords [s0, s1] k = [k div s1, k mod s1]"
  "k < s0 * s1 * s2 \<Longrightarrow> coords [s0, s1, s2] k = [k div s2 div s1, k div s2 mod s1, k mod s2]"
  "k < s0 * s1 * s2 * s3 \<Longrightarrow> coords [s0, s1, s2, s3] k = [k div s3 div s2 div s1, k div s3 div s2 mod s1, k div s3 mod s2, k mod s3]"
  by (simp_all add: coords_def less_mult_imp_div_less)

lemma flat_cases: "flat [d0] [a] = a" "flat [d0, d1] [a, b] = a * d1 + b" "flat [d0, d1, d2] [a, b, c] = (a * d1 + b) * d2 + c"
  "flat [d0, d1, d2, d3] [a, b, c, e] = ((a * d1 + b) * d2 + c) * d3 + e"
  by (simp_all add: flat_def)

lemma gather_kernels_1_2:
  assumes "gather_ok axis org shape src idx" "prod_dims shape \<le> length out"
  defines "res \<equiv> Inr (prod_dims shape, map (\<lambda>k. src ! gather_at axis org shape idx k) [0..<prod_dims shape] @ drop (prod_dims shape) out)"
  shows "length shape = 1 \<Longrightarrow> gather_dim1_0 src idx shape org (0, out) = res"
    "length shape = 2 \<Longrightarrow> axis = 0 \<Longrightarrow> gather_dim2_0 src idx shape org (0, out) = res"
    "length shape = 2 \<Longrightarrow> axis = 1 \<Longrightarrow> gather_dim2_1 src idx shape org (0, out) = res"
proof -
  have len: "length org = length shape" "axis < length shape" using assms(1) by (auto simp: gather_ok_def)
  have pos: "0 \<le> idx ! k" if "k < prod_dims shape" for k using assms(1) that by (auto simp: gather_ok_def)
  have gl: "loop (prod_dims shape) (\<lambda>k. gather_one src idx (at k)) (0, out) = res"
    if "\<And>k. k < prod_dims shape \<Longrightarrow> at k (idx ! k) = int (gather_at axis org shape idx k)" for at
    unfolding res_def by (rule gather_loop[OF assms(1,2), where at = at]) (rule that)
  show "gather_dim1_0 src idx shape org (0, out) = res" if l: "length shape = 1"
  proof -
    obtain s0 d0 where s: "shape = [s0]" "org = [d0]" "axis = 0" using l len by (auto simp: length_Suc_conv)
    have "loop (prod_dims shape) (\<lambda>k. gather_one src idx (\<lambda>x. x)) (0, out) = res"
      by (rule gl) (use pos in \<open>simp add: s gather_at_def coords_cases flat_cases\<close>)
    then show ?thesis by (simp add: s gather_dim1_0_def)
  qed
  show "gather_dim2_0 src idx shape org (0, out) = res" if l: "length shape = 2" and a: "axis = 0"
  proof -
    obtain s0 s1 d0 d1 where s: "shape = [s0, s1]" "org = [d0, d1]" using l len by (auto simp: length_Suc_conv numeral_2_eq_2)
    have "loop (prod_dims shape) (\<lambda>k. gather_one src idx (\<lambda>x. x * int d1 + int (k mod s1))) (0, out) = res"
      by (rule gl) (use pos in \<open>simp add: s a gather_at_def coords_cases flat_cases\<close>)
    then show ?thesis by (simp add: s gather_dim2_0_def loop_nest)
  qed
  show "gather_dim2_1 src idx shape org (0, out) = res" if l: "length shape = 2" and a: "axis = 1"
  proof -
    obtain s0 s1 d0 d1 where s: "shape = [s0, s1]" "org = [d0, d1]" using l len by (auto simp: length_Suc_conv numeral_2_eq_2)
    have "loop (prod_dims shape) (\<lambda>k. gather_one src idx (\<lambda>x. int (k div s1 * d1) + x)) (0, out) = res"
      by (rule gl) (use pos in \<open>simp add: s a gather_at_def coords_cases flat_cases\<close>)
    then show ?thesis by (simp add: s gather_dim2_1_def loop_nest Let_def)
  qed
qed

lemma gather_kernels_3:
  assumes "gather_ok axis org shape src idx" "prod_dims shape \<le> length out" "length shape = 3"
  defines "res \<equiv> Inr (prod_dims shape, map (\<lambda>k. src ! gather_at axis org shape idx k) [0..<prod_dims shape] @ drop (prod_dims shape) out)"
  shows "axis = 0 \<Longrightarrow> gather_dim3_0 src idx shape org (0, out) = res"
    "axis = 1 \<Longrightarrow> gather_dim3_1 src idx shape org (0, out) = res"
    "axis = 2 \<Longrightarrow> gather_dim3_2 src idx shape org (0, out) = res"
proof -
  have len: "length org = length shape" using assms(1) by (auto simp: gather_ok_def)
  obtain s0 s1 s2 d0 d1 d2 where s: "shape = [s0, s1, s2]" "org = [d0, d1, d2]" using assms(3) len by (auto simp: length_Suc_conv numeral_3_eq_3)
  have n: "prod_dims shape = s0 * s1 * s2" by (simp add: s)
  have pos: "0 \<le> idx ! k" if "k < s0 * s1 * s2" for k using assms(1) that by (auto simp: gather_ok_def s)
  have gl: "loop (s0 * s1 * s2) (\<lambda>k. gather_one src idx (at k)) (0, out) = res"
    if "\<And>k. k < s0 * s1 * s2 \<Longrightarrow> at k (idx ! k) = int (gather_at axis org shape idx k)" for at
    unfolding res_def n by (rule gather_loop[OF assms(1,2), where at = at, unfolded n]) (rule that)
  note e = gather_at_def s coords_cases(3) flat_cases(3)
  show "axis = 0 \<Longrightarrow> gather_dim3_0 src idx shape org (0, out) = res"
    using pos unfolding s gather_dim3_0_def Let_def by (simp add: loop_nest) (rule gl, simp add: e algebra_simps)
  show "axis = 1 \<Longrightarrow> gather_dim3_1 src idx shape org (0, out) = res"
    using pos unfolding s gather_dim3_1_def Let_def by (simp add: loop_nest) (rule gl, simp add: e algebra_simps)
  show "axis = 2 \<Longrightarrow> gather_dim3_2 src idx shape org (0, out) = res"
    using pos unfolding s gather_dim3_2_def Let_def by (simp add: loop_nest) (rule gl, simp add: e algebra_simps)
qed

lemma gather_kernels_4:
  assumes "gather_ok axis org shape src idx" "prod_dims shape \<le> length out" "length shape = 4"
  defines "res \<equiv> Inr (prod_dims shape, map (\<lambda>k. src ! gather_at axis org shape idx k) [0..<prod_dims shape] @ drop (prod_dims shape) out)"
  shows "axis = 0 \<Longrightarrow> gather_dim4_0 src idx shape org (0, out) = res"
    "axis = 1 \<Longrightarrow> gather_dim4_1 src idx shape org (0, out) = res"
    "axis = 2 \<Longrightarrow> gather_dim4_2 src idx shape org (0, out) = res"
    "axis = 3 \<Longrightarrow> gather_dim4_3 src idx shape org (0, out) = res"
proof -
  have len: "length org = length shape" using assms(1) by (auto simp: gather_ok_def)
  have "\<exists>a b c e. xs = [a, b, c, e]" if "length xs = 4" for xs :: "nat list"
    using that by (auto simp: length_Suc_conv eval_nat_numeral)
  then obtain s0 s1 s2 s3 d0 d1 d2 d3 where s: "shape = [s0, s1, s2, s3]" "org = [d0, d1, d2, d3]" using assms(3) len by metis
  have n: "prod_dims shape = s0 * s1 * s2 * s3" by (simp add: s)
  have pos: "0 \<le> idx ! k" if "k < s0 * s1 * s2 * s3" for k using assms(1) that by (auto simp: gather_ok_def s)
  have gl: "loop (s0 * s1 * s2 * s3) (\<lambda>k. gather_one src idx (at k)) (0, out) = res"
    if "\<And>k. k < s0 * s1 * s2 * s3 \<Longrightarrow> at k (idx ! k) = int (gather_at axis org shape idx k)" for at
    unfolding res_def n by (rule gather_loop[OF assms(1,2), where at = at, unfolded n]) (rule that)
  note e = gather_at_def s coords_cases(4) flat_cases(4)
  show "axis = 0 \<Longrightarrow> gather_dim4_0 src idx shape org (0, out) = res"
    using pos unfolding s gather_dim4_0_def Let_def by (simp add: loop_nest) (rule gl, simp add: e algebra_simps)
  show "axis = 1 \<Longrightarrow> gather_dim4_1 src idx shape org (0, out) = res"
    using pos unfolding s gather_dim4_1_def Let_def by (simp add: loop_nest) (rule gl, simp add: e algebra_simps)
  show "axis = 2 \<Longrightarrow> gather_dim4_2 src idx shape org (0, out) = res"
    using pos unfolding s gather_dim4_2_def Let_def by (simp add: loop_nest) (rule gl, simp add: e algebra_simps)
  show "axis = 3 \<Longrightarrow> gather_dim4_3 src idx shape org (0, out) = res"
    using pos unfolding s gather_dim4_3_def Let_def by (simp add: loop_nest) (rule gl, simp add: e algebra_simps)
qed

text \<open>
  C12: the element gather follows one definition for all its ten kernels: for inputs of one to four
  dimensions, every axis, and indices that are inside the axis, the output at the coordinates \<open>ix\<close>
  is the input at the same coordinates with the one of the axis replaced by the index at \<open>ix\<close>, and
  what lies behind the gathered elements is kept.  Another number of dimensions ends the process.
\<close>

theorem gather_elements_by_axis:
  assumes "gather_ok axis (t_shape input) (t_shape indices) (t_data input) (t_data indices)" "prod_dims (t_shape indices) \<le> length (t_data top0)"
  shows "if length (t_shape input) \<in> {1, 2, 3, 4} then
     (\<exists>res. GatherElementsPtFunc_run axis input indices top0 = Inr (top0\<lparr>t_data := res\<rparr>) \<and> length res = length (t_data top0) \<and>
        (\<forall>ix. within (t_shape indices) ix \<longrightarrow> res ! flat (t_shape indices) ix =
           t_data input ! flat (t_shape input) (ix[axis := nat (t_data indices ! flat (t_shape indices) ix)])) \<and>
        drop (prod_dims (t_shape indices)) res = drop (prod_dims (t_shape indices)) (t_data top0))
     else GatherElementsPtFunc_run axis input indices top0 = Inl AssertFailed"
proof (cases "length (t_shape input) \<in> {1, 2, 3, 4}")
  case True
  let ?s = "t_shape indices" and ?n = "prod_dims (t_shape indices)"
  let ?res = "map (\<lambda>k. t_data input ! gather_at axis (t_shape input) ?s (t_data indices) k) [0..<?n] @ drop ?n (t_data top0)"
  have len: "length (t_shape input) = length ?s" "axis < length ?s" using assms(1) by (auto simp: gather_ok_def)
  have one: "length ?s = 1 \<Longrightarrow> axis = 0" "length ?s = 2 \<Longrightarrow> axis = 0 \<or> axis = 1" "length ?s = 3 \<Longrightarrow> axis = 0 \<or> axis = 1 \<or> axis = 2"
    "length ?s = 4 \<Longrightarrow> axis = 0 \<or> axis = 1 \<or> axis = 2 \<or> axis = 3" using len(2) by auto
  have run: "GatherElementsPtFunc_run axis input indices top0 = Inr (top0\<lparr>t_data := ?res\<rparr>)"
  proof -
    consider "length ?s = 1" | "length ?s = 2" | "length ?s = 3" | "length ?s = 4" using True len(1) by auto
    then show ?thesis
    proof cases
      case 1
      then show ?thesis using gather_kernels_1_2(1)[OF assms] len(1) by (simp add: GatherElementsPtFunc_run_def Let_def with_data_def bind_res_def)
    next
      case 2
      from one(2)[OF 2] show ?thesis
        using gather_kernels_1_2(2,3)[OF assms 2] len(1) 2 by (elim disjE) (simp_all add: GatherElementsPtFunc_run_def Let_def with_data_def bind_res_def)
    next
      case 3
      from one(3)[OF 3] show ?thesis
        using gather_kernels_3[OF assms 3] len(1) 3 by (elim disjE) (simp_all add: GatherElementsPtFunc_run_def Let_def with_data_def bind_res_def)
    next
      case 4
      from one(4)[OF 4] show ?thesis
        using gather_kernels_4[OF assms 4] len(1) 4 by (elim disjE) (simp_all add: GatherElementsPtFunc_run_def Let_def with_data_def bind_res_def)
    qed
  qed
  have "?res ! flat ?s ix = t_data input ! flat (t_shape input) (ix[axis := nat (t_data indices ! flat ?s ix)])" if "within ?s ix" for ix
    using flat_less[OF that] coords_flat[OF that] by (simp add: nth_append gather_at_def)
  then show ?thesis using True run assms(2) by auto
next
  case False
  then show ?thesis by (simp add: GatherElementsPtFunc_run_def Let_def)
qed

theorem gather_elements_by_axis_witness:
  "\<exists>res. GatherElementsPtFunc_run 1 \<lparr>t_shape = [2, 3], t_fmt = CVI_FMT_FP32, t_data = [10, 11, 12, 20, 21, 22 :: nat]\<rparr>
       \<lparr>t_shape = [2, 1], t_fmt = CVI_FMT_INT32, t_data = [2, 0]\<rparr> \<lparr>t_shape = [2, 1], t_fmt = CVI_FMT_FP32, t_data = [0, 0]\<rparr> =
     Inr \<lparr>t_shape = [2, 1], t_fmt = CVI_FMT_FP32, t_data = res\<rparr> \<and> res ! 0 = 12 \<and> res ! 1 = 20"
proof -
  let ?a = "\<lparr>t_shape = [2, 3], t_fmt = CVI_FMT_FP32, t_data = [10, 11, 12, 20, 21, 22 :: nat]\<rparr>"
  let ?i = "\<lparr>t_shape = [2, 1], t_fmt = CVI_FMT_INT32, t_data = [2, 0]\<rparr>" and ?t = "\<lparr>t_shape = [2, 1], t_fmt = CVI_FMT_FP32, t_data = [0, 0 :: nat]\<rparr>"
  have "gather_ok 1 (t_shape ?a) (t_shape ?i) (t_data ?a) (t_data ?i)" by (auto simp: gather_ok_def less_Suc_eq numeral_2_eq_2)
  from gather_elements_by_axis[OF this, of ?t] obtain res where r: "GatherElementsPtFunc_run 1 ?a ?i ?t = Inr (?t\<lparr>t_data := res\<rparr>)"
    "\<forall>ix. within [2, 1] ix \<longrightarrow> res ! flat [2, 1] ix = t_data ?a ! flat [2, 3] (ix[1 := nat (t_data ?i ! flat [2, 1] ix)])" by auto
  have "res ! 0 = 12" "res ! 1 = 20" using r(2)[rule_format, of "[0, 0]"] r(2)[rule_format, of "[1, 0]"] by (simp_all add: within_def flat_def)
  with r(1) show ?thesis by auto
qed

section \<open>Gathering slices\<close>

text \<open>The offset loop is the row-major offset when the indices are in range and nothing wraps.\<close>

lemma offset_loop_run:
  assumes "within (take n shape) (take n ix)" "n \<le> length shape" "n \<le> length ix"
    and "off + flat (take n shape) (take n ix) * gap < 2 ^ 64"
  shows "offset_loop shape (map int ix) n off (int gap) = Inr (off + flat (take n shape) (take n ix) * gap)"
  using assms
proof (induction n arbitrary: off gap)
  case 0
  then show ?case by (simp add: flat_def)
next
  case (Suc n)
  let ?d = "shape ! n" and ?x = "ix ! n"
  have t: "take (Suc n) shape = take n shape @ [?d]" "take (Suc n) ix = take n ix @ [?x]"
    using Suc.prems(2,3) by (simp_all add: take_Suc_conv_app_nth)
  have w: "within (take n shape) (take n ix)" using Suc.prems(1) unfolding t by (auto simp: within_snoc)
  have f: "flat (take (Suc n) shape) (take (Suc n) ix) = flat (take n shape) (take n ix) * ?d + ?x" unfolding t using within_length[OF w] by simp
  have e: "off + flat (take (Suc n) shape) (take (Suc n) ix) * gap = (off + ?x * gap) + flat (take n shape) (take n ix) * (gap * ?d)"
    by (simp add: f algebra_simps)
  have b: "off + ?x * gap < 2 ^ 64" using Suc.prems(4) unfolding e by linarith
  have "(int off + int ?x * int gap) mod 2 ^ 64 = int (off + ?x * gap)" using b by (subst mod_pos_pos_trivial) (auto simp flip: of_nat_mult of_nat_add of_nat_power)
  then have "nat ((int off + int ?x * int gap) mod 2 ^ 64) = off + ?x * gap" by (simp only: nat_int)
  moreover have "offset_loop shape (map int ix) n (off + ?x * gap) (int (gap * ?d)) = Inr ((off + ?x * gap) + flat (take n shape) (take n ix) * (gap * ?d))"
    using Suc.IH[OF w _ _ , of "off + ?x * gap" "gap * ?d"] Suc.prems(2,3,4) unfolding e by simp
  ultimately show ?case unfolding e using Suc.prems(2,3) by (simp add: bind_res_def elem_def)
qed

lemma gather_offset_run:
  assumes "within (take (length ix) shape) ix" "length ix \<le> length shape" "flat (take (length ix) shape) ix < 2 ^ 64"
  shows "gather_offset shape (map int ix) = Inr (flat (take (length ix) shape) ix)"
  using offset_loop_run[of "length ix" shape ix 0 1] assms by (simp add: gather_offset_def)

text \<open>A loop that copies a block per round fills the output with the blocks.\<close>

lemma block_loop:
  assumes "n * sz \<le> length out" "\<And>k out. k < n \<Longrightarrow> f k out = copy_block src (int (from k)) sz (k * sz) out" "\<And>k. k < n \<Longrightarrow> from k + sz \<le> length src"
  shows "loop n f out = Inr (concat (map (\<lambda>k. take sz (drop (from k) src)) [0..<n]) @ drop (n * sz) out)"
proof -
  let ?blocks = "\<lambda>j. concat (map (\<lambda>k. take sz (drop (from k) src)) [0..<j])"
  have len: "length (?blocks j) = j * sz" if "j \<le> n" for j
    using that
  proof (induction j)
    case (Suc j)
    then have "min (length src - from j) sz = sz" using assms(3)[of j] by auto
    with Suc show ?case by simp
  qed simp
  have "loop_from j m f (?blocks j @ drop (j * sz) out) = Inr (?blocks (j + m) @ drop ((j + m) * sz) out)" if "j + m \<le> n" for j m
    using that
  proof (induction m arbitrary: j)
    case (Suc m)
    let ?o = "?blocks j @ drop (j * sz) out"
    have "Suc j * sz \<le> n * sz" using Suc.prems by (intro mult_right_mono) auto
    then have fit: "j * sz + sz \<le> length ?o" using len[of j] Suc.prems assms(1) by simp
    have "f j ?o = Inr (take (j * sz) ?o @ take sz (drop (from j) src) @ drop (j * sz + sz) ?o)"
      using assms(2)[of j ?o] assms(3)[of j] fit Suc.prems by (simp add: copy_block_def)
    also have "\<dots> = Inr (?blocks (Suc j) @ drop (Suc j * sz) out)" using len[of j] Suc.prems by (simp add: add.commute)
    finally show ?case using Suc.IH[of "Suc j"] Suc.prems by (simp add: bind_res_def)
  qed simp
  from this[of 0 n] show ?thesis by simp
qed

text \<open>The coordinates of the tuple number \<open>m\<close>: its batch and its indices.\<close>

definition nd_coords :: "nat \<Rightarrow> nat \<Rightarrow> int list \<Rightarrow> nat \<Rightarrow> nat list" where
  "nd_coords channel k idx m = m div channel # map nat (take k (drop (m * k) idx))"

text \<open>
  A gather of slices copies, for every index tuple in order, the slice of the input at the
  coordinates that the batch number and the tuple give: with in-range indices and matching sizes
  the function returns the slices one behind the other.
\<close>

lemma gather_nd_slices:
  fixes input :: "'a tensor"
  assumes "batch_dims \<le> length (t_shape indices)" "0 < indice_dims" "indice_dims \<le> length (t_shape indices)"
    and "batch = prod_dims (take batch_dims (t_shape indices))" "k = t_shape indices ! (indice_dims - 1)" "Q = batch # drop batch_dims (t_shape input)"
    and "0 < batch" "0 < k" "0 < channel" "length (t_data indices) = batch * channel * k" "\<forall>x\<in>set (t_data indices). 0 \<le> x"
    and "k < length Q" "length (t_data input) = prod_dims Q" "prod_dims Q < 2 ^ 64"
    and "elt = prod_dims (drop (Suc k) Q)" "0 < elt" "length (t_data top0) = batch * channel * elt"
    and "\<And>m. m < batch * channel \<Longrightarrow> within (take (Suc k) Q) (nd_coords channel k (t_data indices) m)"
  shows "GatherNDFunc_run batch_dims indice_dims input indices top0 = Inr (top0\<lparr>t_data :=
     concat (map (\<lambda>m. take elt (drop (flat (take (Suc k) Q) (nd_coords channel k (t_data indices) m) * elt) (t_data input))) [0..<batch * channel])\<rparr>)"
proof -
  let ?ix = "nd_coords channel k (t_data indices)"
  let ?N = "batch * channel" and ?off = "\<lambda>m. flat (take (Suc k) Q) (?ix m)"
  have pd: "prod_dims (xs @ ys) = prod_dims xs * prod_dims ys" for xs ys by (induction xs) simp_all
  have Q: "prod_dims (take (Suc k) Q) * elt = prod_dims Q" using pd[of "take (Suc k) Q" "drop (Suc k) Q"] assms(15) by simp
  have lens: "length (?ix m) = Suc k" if "m < ?N" for m using within_length[OF assms(18)[OF that]] assms(12) by simp
  have in_src: "?off m * elt + elt \<le> length (t_data input)" if "m < ?N" for m
  proof -
    have "(?off m + 1) * elt \<le> prod_dims (take (Suc k) Q) * elt" using flat_less[OF assms(18)[OF that]] by (intro mult_right_mono) auto
    then show ?thesis by (simp add: Q assms(13) add.commute)
  qed
  have off: "gather_offset Q (int (m div channel) # take k (drop (m * k) (t_data indices))) = Inr (?off m)" if m: "m < ?N" for m
  proof -
    let ?t = "take k (drop (m * k) (t_data indices))"
    have pos: "0 \<le> x" if "x \<in> set ?t" for x using assms(11) set_drop_subset[of "m * k" "t_data indices"] set_take_subset[of k "drop (m * k) (t_data indices)"] that by blast
    have "map (\<lambda>x. int (nat x)) ?t = ?t" by (rule map_idI) (use pos in simp)
    then have e: "int (m div channel) # ?t = map int (?ix m)" by (simp add: nd_coords_def comp_def)
    have "?off m < prod_dims Q"
    proof -
      have "?off m * elt < prod_dims (take (Suc k) Q) * elt" using flat_less[OF assms(18)[OF m]] assms(16) by simp
      then have "?off m * elt < prod_dims Q" by (simp add: Q)
      moreover have "?off m \<le> ?off m * elt" using assms(16) by (cases elt) auto
      ultimately show ?thesis by linarith
    qed
    then show ?thesis unfolding e using gather_offset_run[of "?ix m" Q] assms(12,14) assms(18)[OF m] lens[OF m] by simp
  qed
  let ?body = "\<lambda>m out. bind_res (gather_offset Q (int (m div channel) # take k (drop (m div channel * channel * k + m mod channel * k) (t_data indices))))
     (\<lambda>offset. copy_block (t_data input) (int (offset * elt)) elt ((m div channel * channel + m mod channel) * elt) out)"
  have "loop ?N ?body (t_data top0) = Inr (concat (map (\<lambda>m. take elt (drop (?off m * elt) (t_data input))) [0..<?N]) @ drop (?N * elt) (t_data top0))"
  proof (rule block_loop)
    fix m :: nat and out :: "'a list" assume m: "m < ?N"
    have "m div channel * channel * k + m mod channel * k = m * k" by (metis add_mult_distrib div_mult_mod_eq)
    then show "?body m out = copy_block (t_data input) (int (?off m * elt)) elt (m * elt) out" by (simp add: off[OF m] bind_res_def)
  qed (use assms(17) in_src in auto)
  moreover have "batch * channel * k div batch div k = channel" "batch * channel * elt div (batch * channel) = elt"
    "channel * k * batch = batch * channel * k" "elt * batch * channel = batch * channel * elt" using assms(7-9) by simp_all
  ultimately show ?thesis
    using assms(1-3,7-9) by (simp add: GatherNDFunc_run_def Let_def assms(4-6)[symmetric] assms(10,17) assert_res_def loop_nest with_data_def bind_res_def[of "Inr _"] del: One_nat_def)
qed

definition demo_table :: "nat tensor" where
  "demo_table = \<lparr>t_shape = [2, 2, 2], t_fmt = CVI_FMT_FP32, t_data = [1, 2, 3, 4, 5, 6, 7, 8]\<rparr>"

definition demo_indices :: "int tensor" where
  "demo_indices = \<lparr>t_shape = [2, 2], t_fmt = CVI_FMT_INT32, t_data = [1, 0, 0, 1]\<rparr>"

lemma gather_nd_slices_witness:
  "GatherNDFunc_run 0 2 demo_table demo_indices \<lparr>t_shape = [2, 2], t_fmt = CVI_FMT_FP32, t_data = [0, 0, 0, 0]\<rparr> =
     Inr \<lparr>t_shape = [2, 2], t_fmt = CVI_FMT_FP32, t_data = [5, 6, 3, 4]\<rparr>"
proof -
  have w: "within (take (Suc 2) [1, 2, 2, 2]) (nd_coords 2 2 (t_data demo_indices) m)" if "m < 1 * 2" for m
  proof -
    from that have "m = 0 \<or> m = 1" by auto
    then show ?thesis by (auto simp: within_def nd_coords_def demo_indices_def)
  qed
  show ?thesis
    using gather_nd_slices[of 0 demo_indices 2 1 2 "[1, 2, 2, 2]" demo_table 2 2 "\<lparr>t_shape = [2, 2], t_fmt = CVI_FMT_FP32, t_data = [0, 0, 0, 0]\<rparr>", OF _ _ _ _ _ _ _ _ _ _ _ _ _ _ _ _ _ w]
    by (simp add: demo_table_def demo_indices_def nd_coords_def flat_def upt_rec)
qed

section \<open>Embedding\<close>

text \<open>
  An embedding replaces every index by its row of the table: after a setup that accepts the
  element types, a run with supported index type and indices inside the table returns the rows in
  the order of the indices.
\<close>

lemma embedding_rows:
  assumes "EmbeddingFunc_setup indices table top0 = Inr e" "t_fmt indices \<in> {CVI_FMT_INT16, CVI_FMT_UINT16, CVI_FMT_INT32, CVI_FMT_UINT32}"
    and "\<forall>x\<in>set (t_data indices). 0 \<le> x \<and> nat x < em_table_len e" "length (t_data top0) = length (t_data indices) * em_feature_len e"
  shows "EmbeddingFunc_run e indices table top0 = Inr (top0\<lparr>t_data :=
     concat (map (\<lambda>x. take (em_feature_len e) (drop (nat x * em_feature_len e) (t_data table))) (t_data indices))\<rparr>)"
proof -
  let ?f = "em_feature_len e" and ?n = "length (t_data indices)"
  have e: "em_search_num e = ?n" "em_table_len e = length (t_data table) div ?f" "0 < ?f"
    using assms(1) by (auto simp: EmbeddingFunc_setup_def assert_res_def bind_res_def split: if_splits sum.splits)
  have row: "nat (t_data indices ! k) * ?f + ?f \<le> length (t_data table)" "0 \<le> t_data indices ! k" if "k < ?n" for k
  proof -
    have x: "0 \<le> t_data indices ! k" "nat (t_data indices ! k) < length (t_data table) div ?f" using assms(3) that e(2) by auto
    then have "(nat (t_data indices ! k) + 1) * ?f \<le> length (t_data table) div ?f * ?f" by (intro mult_right_mono) auto
    also have "\<dots> \<le> length (t_data table)" by simp
    finally show "nat (t_data indices ! k) * ?f + ?f \<le> length (t_data table)" by (simp add: add.commute)
    show "0 \<le> t_data indices ! k" by (rule x(1))
  qed
  let ?body = "\<lambda>k out. bind_res (elem (t_data indices) k) (\<lambda>x. copy_block (t_data table) (x * int ?f) ?f (k * ?f) out)"
  have "loop ?n ?body (t_data top0) = Inr (concat (map (\<lambda>k. take ?f (drop (nat (t_data indices ! k) * ?f) (t_data table))) [0..<?n]) @ drop (?n * ?f) (t_data top0))"
    by (rule block_loop) (use row assms(4) in \<open>auto simp: elem_def bind_res_def\<close>)
  moreover have "map (\<lambda>k. take ?f (drop (nat (t_data indices ! k) * ?f) (t_data table))) [0..<?n] = map (\<lambda>x. take ?f (drop (nat x * ?f) (t_data table))) (t_data indices)"
    by (rule nth_equalityI) simp_all
  ultimately show ?thesis
    using assms(2,4) by (auto simp: EmbeddingFunc_run_def lookup_rows_def assert_res_def with_data_def e(1) bind_res_def[of "Inr _"])
qed

lemma embedding_rows_witness:
  "EmbeddingFunc_setup \<lparr>t_shape = [3], t_fmt = CVI_FMT_INT32, t_data = [2, 0, 2]\<rparr> \<lparr>t_shape = [3, 2], t_fmt = CVI_FMT_INT8, t_data = [1, 2, 3, 4, 5, 6 :: nat]\<rparr>
     \<lparr>t_shape = [3, 2], t_fmt = CVI_FMT_INT8, t_data = replicate 6 0\<rparr> = Inr \<lparr>em_feature_len = 2, em_table_len = 3, em_search_num = 3\<rparr> \<and>
   EmbeddingFunc_run \<lparr>em_feature_len = 2, em_table_len = 3, em_search_num = 3\<rparr> \<lparr>t_shape = [3], t_fmt = CVI_FMT_INT32, t_data = [2, 0, 2]\<rparr>
     \<lparr>t_shape = [3, 2], t_fmt = CVI_FMT_INT8, t_data = [1, 2, 3, 4, 5, 6 :: nat]\<rparr> \<lparr>t_shape = [3, 2], t_fmt = CVI_FMT_INT8, t_data = replicate 6 0\<rparr> =
     Inr \<lparr>t_shape = [3, 2], t_fmt = CVI_FMT_INT8, t_data = [5, 6, 1, 2, 5, 6]\<rparr>"
proof -
  let ?i = "\<lparr>t_shape = [3], t_fmt = CVI_FMT_INT32, t_data = [2, 0, 2]\<rparr>" and ?t = "\<lparr>t_shape = [3, 2], t_fmt = CVI_FMT_INT8, t_data = [1, 2, 3, 4, 5, 6 :: nat]\<rparr>"
  let ?o = "\<lparr>t_shape = [3, 2], t_fmt = CVI_FMT_INT8, t_data = replicate 6 (0 :: nat)\<rparr>" and ?e = "\<lparr>em_feature_len = 2, em_table_len = 3, em_search_num = 3\<rparr>"
  have s: "EmbeddingFunc_setup ?i ?t ?o = Inr ?e" by (simp add: EmbeddingFunc_setup_def assert_res_def bind_res_def dim_def elem_def)
  from embedding_rows[OF this] s show ?thesis by simp
qed

end
