(* ===== verification/CpuReduce.thy ===== *)
theory CpuReduce
  imports CpuLayers
begin

text \<open>
  The layers that compare and sum: the position of the largest element of a row, the maximum along
  an axis, running sums, and the preprocessing of images.
\<close>

section \<open>Largest elements\<close>

text \<open>What the device has computed: the largest element of every tile of 256 elements of a row.\<close>

definition tiles_of :: "argmax \<Rightarrow> int list \<Rightarrow> int list \<Rightarrow> nat \<Rightarrow> bool" where
  "tiles_of a data map0 i \<longleftrightarrow> (\<forall>t<am_tile_num a.
     (\<exists>j<am_inner_dim a. j div 256 = t \<and> data ! (i * am_inner_dim a + j) = map0 ! (i * am_tile_num a + t)) \<and>
     (\<forall>j<am_inner_dim a. j div 256 = t \<longrightarrow> data ! (i * am_inner_dim a + j) \<le> map0 ! (i * am_tile_num a + t)))"

definition argmax_ok :: "argmax \<Rightarrow> int list \<Rightarrow> int list \<Rightarrow> bool" where
  "argmax_ok a data map0 \<longleftrightarrow> 0 < am_inner_dim a \<and> am_tile_num a = (am_inner_dim a + 256 - 1) div 256 \<and>
     length data = am_outer_dim a * am_inner_dim a \<and> length map0 = am_outer_dim a * am_tile_num a \<and> (\<forall>i<am_outer_dim a. tiles_of a data map0 i)"

text \<open>The first position of the largest element.\<close>

definition first_max :: "argmax \<Rightarrow> int list \<Rightarrow> nat \<Rightarrow> int \<times> nat \<Rightarrow> bool" where
  "first_max a data i r \<longleftrightarrow> snd r < am_inner_dim a \<and> data ! (i * am_inner_dim a + snd r) = fst r \<and>
     (\<forall>j<am_inner_dim a. data ! (i * am_inner_dim a + j) \<le> fst r) \<and> (\<forall>j < snd r. data ! (i * am_inner_dim a + j) < fst r)"

lemma find_eq_run:
  assumes "base + j0 + n \<le> length data" "j0 \<le> j" "j < j0 + n" "data ! (base + j) = v"
  shows "\<exists>k<j0 + n. find_eq data base j0 n v = Inr k \<and> j0 \<le> k \<and> data ! (base + k) = v \<and> (\<forall>i. j0 \<le> i \<and> i < k \<longrightarrow> data ! (base + i) \<noteq> v)"
  using assms
proof (induction n arbitrary: j0)
  case (Suc n)
  show ?case
  proof (cases "data ! (base + j0) = v")
    case True
    then show ?thesis using Suc.prems by (intro exI[of _ j0]) (auto simp: bind_res_def elem_def)
  next
    case False
    then have "Suc j0 \<le> j" using Suc.prems by (metis Suc_leI le_neq_implies_less)
    with Suc.IH[of "Suc j0"] Suc.prems obtain k where k: "k < Suc j0 + n" "find_eq data base (Suc j0) n v = Inr k" "Suc j0 \<le> k"
      "data ! (base + k) = v" "\<forall>i. Suc j0 \<le> i \<and> i < k \<longrightarrow> data ! (base + i) \<noteq> v" by auto
    have "data ! (base + i) \<noteq> v" if "j0 \<le> i" "i < k" for i using that False k(5) by (cases "i = j0") auto
    then show ?thesis using k Suc.prems False by (intro exI[of _ k]) (auto simp: bind_res_def elem_def)
  qed
qed simp

lemma find_tile:
  fixes map0 :: "int list"
  assumes "base + n < length map0"
  shows "\<exists>r. loop_from 1 n (\<lambda>j (max_val, idx). bind_res (elem map0 (base + j)) (\<lambda>m. Inr (if m > max_val then (m, j) else (max_val, idx))))
       (map0 ! base, 0) = Inr r \<and> snd r \<le> n \<and> fst r = map0 ! (base + snd r) \<and> (\<forall>t\<le>n. map0 ! (base + t) \<le> fst r) \<and> (\<forall>t < snd r. map0 ! (base + t) < fst r)"
  using assms
proof (induction n)
  case (Suc n)
  let ?f = "\<lambda>j (max_val, idx). bind_res (elem map0 (base + j)) (\<lambda>m. Inr (if m > max_val then (m, j) else (max_val, idx)))"
  obtain r where r: "loop_from 1 n ?f (map0 ! base, 0) = Inr r" "snd r \<le> n" "fst r = map0 ! (base + snd r)"
    "\<forall>t\<le>n. map0 ! (base + t) \<le> fst r" "\<forall>t < snd r. map0 ! (base + t) < fst r" using Suc by auto
  let ?m = "map0 ! (base + Suc n)"
  have run: "loop_from 1 (Suc n) ?f (map0 ! base, 0) = Inr (if ?m > fst r then (?m, Suc n) else r)"
    using loop_from_add[of 1 n 1 ?f "(map0 ! base, 0)"] r(1) Suc.prems by (simp add: bind_res_def elem_def case_prod_unfold)
  show ?case
  proof (cases "?m > fst r")
    case True
    have "map0 ! (base + t) < ?m" if "t < Suc n" for t using r(4)[rule_format, of t] True that by simp
    then show ?thesis unfolding run using True by (auto simp: le_Suc_eq less_imp_le)
  next
    case False
    then show ?thesis unfolding run using r by (auto simp: le_Suc_eq)
  qed
qed auto

lemma argmax_row_first:
  assumes ok: "argmax_ok a data map0" and i: "i < am_outer_dim a"
  shows "\<exists>r. argmax_row a data map0 i = Inr r \<and> first_max a data i r"
proof -
  let ?n = "am_inner_dim a" and ?T = "am_tile_num a"
  have a: "0 < ?n" "?T = (?n + 255) div 256" "length data = am_outer_dim a * ?n" "length map0 = am_outer_dim a * ?T" "tiles_of a data map0 i"
    using ok i by (auto simp: argmax_ok_def)
  have T: "0 < ?T" "j < ?n \<Longrightarrow> j div 256 < ?T" for j using a(1,2) by (auto simp: div_le_mono less_mult_imp_div_less) 
  have len: "(i + 1) * ?n \<le> length data" "(i + 1) * ?T \<le> length map0" 
    unfolding a(3,4) by (rule mult_right_mono; use i in simp)+
  have "i * ?T + (?T - 1) < length map0" using len(2) T(1) by simp
  then obtain r where r: "loop_from 1 (?T - 1) (\<lambda>j (max_val, idx). bind_res (elem map0 (i * ?T + j)) (\<lambda>m. Inr (if m > max_val then (m, j) else (max_val, idx))))
       (map0 ! (i * ?T), 0) = Inr r" "snd r \<le> ?T - 1" "fst r = map0 ! (i * ?T + snd r)" "\<forall>t\<le>?T - 1. map0 ! (i * ?T + t) \<le> fst r"
       "\<forall>t < snd r. map0 ! (i * ?T + t) < fst r" using find_tile by blast
  let ?t = "snd r" let ?l = "min (?n - ?t * 256) 256" let ?b = "i * ?n + ?t * 256"
  have t: "?t < ?T" using r(2) T(1) by simp
  obtain j where j: "j < ?n" "j div 256 = ?t" "data ! (i * ?n + j) = fst r" using a(5) t r(3) by (auto simp: tiles_of_def)
  have jt: "?t * 256 \<le> j" "j < ?t * 256 + 256" using div_mult_mod_eq[of j 256] mod_less_divisor[of 256 j] unfolding j(2) by simp_all
  have "?l \<le> ?n - ?t * 256" "?t * 256 \<le> ?n" using j(1) jt by simp_all
  then have "?b + 0 + ?l \<le> i * ?n + ?n" by linarith
  then have "?b + 0 + ?l \<le> length data" using len(1) by simp
  moreover have "j - ?t * 256 < 0 + ?l" "data ! (?b + (j - ?t * 256)) = fst r" using j jt by auto
  ultimately obtain k where k: "k < ?l" "find_eq data ?b 0 ?l (fst r) = Inr k" "data ! (?b + k) = fst r" "\<forall>m<k. data ! (?b + m) \<noteq> fst r"
    using find_eq_run[of ?b 0 ?l data "j - ?t * 256" "fst r"] by auto
  have res: "argmax_row a data map0 i = Inr (fst r, k + ?t * 256)"
    using r(1) k(2) \<open>i * ?T + (?T - 1) < length map0\<close> by (simp add: argmax_row_def bind_res_def elem_def in_tile_def case_prod_unfold Let_def)
  have le: "data ! (i * ?n + m) \<le> map0 ! (i * ?T + m div 256)" "map0 ! (i * ?T + m div 256) \<le> fst r" if "m < ?n" for m
    using a(5) T(2)[OF that] that r(4) by (auto simp: tiles_of_def)
  have "data ! (i * ?n + m) < fst r" if m: "m < k + ?t * 256" for m
  proof (cases "m < ?t * 256")
    case True
    then have "m div 256 < ?t" "m < ?n" using j(1) jt by (auto simp: less_mult_imp_div_less)
    then show ?thesis using le(1)[of m] r(5) by force
  next
    case False
    then have "m - ?t * 256 < k" "?b + (m - ?t * 256) = i * ?n + m" "m < ?n" using m k(1) by auto
    then show ?thesis using k(4) le[of m] by (metis order.strict_iff_order order_trans)
  qed
  moreover have "data ! (i * ?n + (k + ?t * 256)) = fst r" using k(3) by (simp add: add_ac)
  moreover have "k + ?t * 256 < ?n" using k(1) by auto
  ultimately have "first_max a data i (fst r, k + ?t * 256)" using le by (auto simp: first_max_def intro: order_trans)
  with res show ?thesis by blast
qed

lemma v3_loop:
  assumes "\<And>i. i < n \<Longrightarrow> argmax_row a data map0 i = Inr (R i)" "n \<le> length idx" "n \<le> length vs"
  shows "loop n (\<lambda>i (indices, values). bind_res (argmax_row a data map0 i) (\<lambda>(m, k). bind_res (put_elem i k indices) (\<lambda>indices'.
       case values of None \<Rightarrow> Inr (indices', None) | Some vs \<Rightarrow> bind_res (put_elem i (val m) vs) (\<lambda>vs'. Inr (indices', Some vs'))))) (idx, Some vs) =
     Inr (map (\<lambda>i. snd (R i)) [0..<n] @ drop n idx, Some (map (\<lambda>i. val (fst (R i))) [0..<n] @ drop n vs))"
  using assms
proof (induction n)
  case (Suc n)
  let ?f = "\<lambda>i (indices, values). bind_res (argmax_row a data map0 i) (\<lambda>(m, k). bind_res (put_elem i k indices) (\<lambda>indices'.
       case values of None \<Rightarrow> Inr (indices', None) | Some vs \<Rightarrow> bind_res (put_elem i (val m) vs) (\<lambda>vs'. Inr (indices', Some vs'))))"
  let ?o = "\<lambda>f out n. map f [0..<n] @ drop n out"
  have up: "(?o f out n)[n := f n] = ?o f out (Suc n)" if "Suc n \<le> length out" for f :: "nat \<Rightarrow> 'c" and out
    using that by (simp add: list_update_append Cons_nth_drop_Suc[symmetric])
  have up': "(?o f out n)[n := f n] = ?o f out (Suc n)" if "Suc n \<le> length out" for f :: "nat \<Rightarrow> nat" and out
    using that by (simp add: list_update_append Cons_nth_drop_Suc[symmetric])
  have "loop n ?f (idx, Some vs) = Inr (?o (\<lambda>i. snd (R i)) idx n, Some (?o (\<lambda>i. val (fst (R i))) vs n))" using Suc by simp
  then have "loop (Suc n) ?f (idx, Some vs) = ?f n (?o (\<lambda>i. snd (R i)) idx n, Some (?o (\<lambda>i. val (fst (R i))) vs n))"
    using loop_from_add[of 0 n 1 ?f "(idx, Some vs)"] by (simp add: bind_res_def split: sum.splits)
  also have "\<dots> = Inr (?o (\<lambda>i. snd (R i)) idx (Suc n), Some (?o (\<lambda>i. val (fst (R i))) vs (Suc n)))"
    using Suc.prems up[of vs "\<lambda>i. val (fst (R i))"] up'[of idx "\<lambda>i. snd (R i)"] by (simp add: bind_res_def put_elem_def case_prod_unfold)
  finally show ?case .
qed simp

text \<open>
  The layer that finds the largest elements is right when the device has given the largest
  element of every 256: for every row it answers the first position of the largest element of the
  whole row, and that element; it returns for every number of rows and every length of a row.
\<close>

lemma argmax_first_maximum:
  assumes ok: "argmax_ok a data map0" and out: "length idx = am_outer_dim a" "length vs = am_outer_dim a"
  shows "\<exists>R. ArgMaxV3Func_run val a data map0 (idx, Some vs) =
       Inr (map (\<lambda>i. snd (R i)) [0..<am_outer_dim a], Some (map (\<lambda>i. val (fst (R i))) [0..<am_outer_dim a])) \<and>
     (\<forall>i<am_outer_dim a. first_max a data i (R i))"
proof -
  have "\<forall>i. \<exists>r. i < am_outer_dim a \<longrightarrow> argmax_row a data map0 i = Inr r \<and> first_max a data i r" using argmax_row_first[OF ok] by blast
  then obtain R where R: "\<And>i. i < am_outer_dim a \<Longrightarrow> argmax_row a data map0 i = Inr (R i)" "\<And>i. i < am_outer_dim a \<Longrightarrow> first_max a data i (R i)"
    by metis
  have "ArgMaxV3Func_run val a data map0 (idx, Some vs) =
       Inr (map (\<lambda>i. snd (R i)) [0..<am_outer_dim a], Some (map (\<lambda>i. val (fst (R i))) [0..<am_outer_dim a]))"
    unfolding ArgMaxV3Func_run_def using v3_loop[where n = "am_outer_dim a" and R = R and vs = vs and val = val, OF R(1)] out by simp
  with R(2) show ?thesis by blast
qed

definition demo_argmax :: argmax where
  "demo_argmax = \<lparr>am_outer_dim = 2, am_inner_dim = 3, am_tile_num = 1\<rparr>"

lemma argmax_first_maximum_witness:
  "\<exists>R. ArgMaxV3Func_run (\<lambda>m. m) demo_argmax [1, 4, 4, - 3, - 2, - 5] [4, - 2] ([0, 0], Some [0, 0]) =
     Inr ([snd (R 0), snd (R 1)], Some [fst (R 0), fst (R 1)]) \<and>
     first_max demo_argmax [1, 4, 4, - 3, - 2, - 5] (0 :: nat) (R 0) \<and> first_max demo_argmax [1, 4, 4, - 3, - 2, - 5] 1 (R (1 :: nat))"
proof -
  have "argmax_ok demo_argmax [1, 4, 4, - 3, - 2, - 5] [4, - 2]"
    by (auto simp: argmax_ok_def demo_argmax_def tiles_of_def less_Suc_eq numeral_2_eq_2 numeral_3_eq_3)
  from argmax_first_maximum[OF this, of "[0, 0]" "[0, 0]" "\<lambda>m. m"] show ?thesis by (auto simp: demo_argmax_def upt_rec)
qed

text \<open>The first version answers position zero for a row of negative elements, wherever its maximum is.\<close>

lemma argmax_v1_negative:
  assumes "am_inner_dim a = n" "0 < n" "n \<le> 256" "am_tile_num a = 1" "(i + 1) * n \<le> length data" "i < length map0"
    and "map0 ! i < 0" "\<forall>j<n. data ! (i * n + j) < 0"
  shows "argmax_v1_row a data map0 i = Inr (0, 0)"
proof -
  have "find_eq data (i * n) j k 0 = Inr 0" if "j + k \<le> n" for j k
    using that
  proof (induction k arbitrary: j)
    case (Suc k)
    have "data ! (i * n + j) \<noteq> 0" "i * n + j < length data" using assms(5) assms(8)[rule_format, of j] Suc.prems by auto
    with Suc.IH[of "Suc j"] Suc.prems show ?case by (simp add: bind_res_def elem_def)
  qed simp
  from this[of 0 n] assms show ?thesis by (simp add: argmax_v1_row_def in_tile_def bind_res_def elem_def Let_def)
qed

section \<open>The maximum along an axis\<close>

text \<open>One output element: the loop over the axis starts with the first element and folds the others in.\<close>

lemma reduce_axis:
  assumes "p < length out" "\<And>c. c < n \<Longrightarrow> at c < length input" "0 < n"
  shows "loop n (\<lambda>c out. bind_res (elem input (at c)) (\<lambda>tmp. bind_res (if c = 0 then put_elem p tmp out else Inr out) (\<lambda>out1.
       bind_res (elem out1 p) (\<lambda>o0. put_elem p (max2 tmp o0) out1)))) out =
     put_elem p (foldl (\<lambda>m c. max2 (input ! at c) m) (input ! at 0) [0..<n]) out"
proof -
  let ?f = "\<lambda>c out. bind_res (elem input (at c)) (\<lambda>tmp. bind_res (if c = 0 then put_elem p tmp out else Inr out) (\<lambda>out1.
       bind_res (elem out1 p) (\<lambda>o0. put_elem p (max2 tmp o0) out1)))"
  let ?v = "\<lambda>n. foldl (\<lambda>m c. max2 (input ! at c) m) (input ! at 0) [0..<n]"
  have "loop (Suc k) ?f out = Inr (out[p := ?v (Suc k)])" if "Suc k \<le> n" for k
    using that
  proof (induction k)
    case 0
    then show ?case using assms by (simp add: bind_res_def elem_def put_elem_def)
  next
    case (Suc k)
    then have "loop (Suc k) ?f out = Inr (out[p := ?v (Suc k)])" by simp
    then have "loop (Suc (Suc k)) ?f out = ?f (Suc k) (out[p := ?v (Suc k)])"
      using loop_from_add[of 0 "Suc k" 1 ?f out] by (simp add: bind_res_def split: sum.splits)
    also have "\<dots> = Inr (out[p := ?v (Suc (Suc k))])" using Suc.prems assms by (simp add: bind_res_def elem_def put_elem_def)
    finally show ?case .
  qed
  from this[of "n - 1"] assms show ?thesis by (simp add: put_elem_def)
qed

lemma reduce_index:
  assumes "x < n * hw" "c < m"
  shows "x div hw * m * hw + c * hw + x mod hw < n * (m * (hw :: nat))"
proof -
  have hw: "0 < hw" "x div hw < n" using assms(1) by (auto simp: less_mult_imp_div_less intro!: Nat.gr0I)
  have "x mod hw < hw" using hw(1) by simp
  from pair_index[OF hw(2) pair_index[OF assms(2) this]] show ?thesis by (simp add: algebra_simps)
qed

text \<open>
  A maximum along an axis is the maximum: with the sizes matching the shape, the function
  returns, and the output at \<open>(b, p)\<close> is an element of the input along the axis at \<open>(b, p)\<close> that none
  of these elements exceeds.
\<close>

lemma reduce_max_is_max:
  fixes input :: "'a :: linorder list"
  assumes "axis < length shape" "length input = prod_dims shape" "0 < prod_dims shape"
    and "n = prod_dims (take axis shape)" "m = shape ! axis" "hw = prod_dims (drop (Suc axis) shape)" "length out = n * hw"
  shows "\<exists>res. my_reduce_max max input shape (axis # axes) out = Inr res \<and> length res = n * hw \<and>
     (\<forall>b<n. \<forall>p<hw. (\<exists>c<m. res ! (b * hw + p) = input ! ((b * m + c) * hw + p)) \<and> (\<forall>c<m. input ! ((b * m + c) * hw + p) \<le> res ! (b * hw + p)))"
proof -
  have pd: "prod_dims (xs @ ys) = prod_dims xs * prod_dims ys" for xs ys by (induction xs) simp_all
  have total: "prod_dims shape = n * (m * hw)"
    using pd[of "take axis shape" "drop axis shape"] Cons_nth_drop_Suc[OF assms(1)] assms(4-6) by (metis append_take_drop_id prod_dims.simps(2))
  then have pos: "0 < n" "0 < m" "0 < hw" using assms(3) by auto
  let ?at = "\<lambda>x c. x div hw * m * hw + c * hw + x mod hw"
  let ?v = "\<lambda>x. foldl (\<lambda>r c. max (input ! ?at x c) r) (input ! ?at x 0) [0..<m]"
  have at: "?at x c < length input" if "x < n * hw" "c < m" for x c using reduce_index[OF that] by (simp add: assms(2) total)
  let ?f = "\<lambda>x. loop m (\<lambda>c out. bind_res (elem input (?at x c)) (\<lambda>tmp. bind_res (if c = 0 then put_elem (x div hw * hw + x mod hw) tmp out else Inr out) (\<lambda>out1.
       bind_res (elem out1 (x div hw * hw + x mod hw)) (\<lambda>o0. put_elem (x div hw * hw + x mod hw) (max tmp o0) out1))))"
  have body: "?f x o1 = put_elem x (?v x) o1" if "x < n * hw" "length o1 = n * hw" for x o1
    unfolding div_mult_mod_eq using reduce_axis[of x o1 m "?at x" input max] at[OF that(1)] that pos by simp
  have fill: "loop_from j k ?f (map ?v [0..<j] @ drop j out) = Inr (map ?v [0..<j + k] @ drop (j + k) out)" if "j + k \<le> n * hw" for j k
    using that
  proof (induction k arbitrary: j)
    case (Suc k)
    let ?o = "map ?v [0..<j] @ drop j out"
    have "?f j ?o = Inr (?o[j := ?v j])" using body[of j ?o] Suc.prems assms(7) by (simp add: put_elem_def)
    moreover have "?o[j := ?v j] = map ?v [0..<Suc j] @ drop (Suc j) out"
      using Suc.prems assms(7) by (simp add: list_update_append Cons_nth_drop_Suc[symmetric])
    ultimately show ?case using Suc.IH[of "Suc j"] Suc.prems by (simp add: bind_res_def)
  qed simp
  have fold: "foldl (\<lambda>r c. max (g c) r) (g 0) [0..<k] = Max (g ` {0..<max 1 k})" for g :: "nat \<Rightarrow> 'a" and k
  proof (induction k)
    case (Suc k)
    have "{0..<max 1 (Suc k)} = insert k {0..<max 1 k}" by auto
    then show ?case using Suc by (simp add: max.commute)
  qed simp
  have mx: "?v x = Max ((\<lambda>c. input ! ?at x c) ` {0..<m})" for x using fold[of "\<lambda>c. input ! ?at x c" m] pos(2) by (simp add: max_def)
  have run: "my_reduce_max max input shape (axis # axes) out = Inr (map ?v [0..<n * hw])"
    using fill[of 0 "n * hw"] assms(1,7) pos total by (simp add: my_reduce_max_def assms(4-6)[symmetric] Let_def loop_nest cong: if_cong)
  have "(\<exists>c<m. ?v (b * hw + p) = input ! ((b * m + c) * hw + p)) \<and> (\<forall>c<m. input ! ((b * m + c) * hw + p) \<le> ?v (b * hw + p))"
    if bp: "b < n" "p < hw" for b p
  proof -
    have e: "?at (b * hw + p) c = (b * m + c) * hw + p" for c using pair_divmod[OF bp(2), of b] by (simp add: algebra_simps)
    have v: "?v (b * hw + p) = Max ((\<lambda>c. input ! ((b * m + c) * hw + p)) ` {0..<m})" by (subst mx) (simp only: e)
    have "?v (b * hw + p) \<in> (\<lambda>c. input ! ((b * m + c) * hw + p)) ` {0..<m}" unfolding v using pos(2) by (intro Max_in) auto
    moreover have "input ! ((b * m + c) * hw + p) \<le> ?v (b * hw + p)" if "c < m" for c unfolding v using that by (intro Max_ge) auto
    ultimately show ?thesis by auto
  qed
  then show ?thesis using run pair_index by (intro exI[of _ "map ?v [0..<n * hw]"]) simp
qed

lemma reduce_max_is_max_witness:
  "\<exists>res. my_reduce_max max [3, 1, 2, 7, 5, 9 :: nat] [2, 3] [1] [0, 0] = Inr res \<and> length res = 2 \<and> 2 \<le> res ! 0 \<and> 9 \<le> res ! 1"
proof -
  obtain res where r: "my_reduce_max max [3, 1, 2, 7, 5, 9 :: nat] [2, 3] [1] [0, 0] = Inr res" "length res = 2"
    "\<forall>b<2. \<forall>p<1. \<forall>c<3. [3, 1, 2, 7, 5, 9] ! ((b * 3 + c) * 1 + p) \<le> res ! (b * 1 + p)"
    using reduce_max_is_max[of 1 "[2, 3]" "[3, 1, 2, 7, 5, 9 :: nat]" 2 3 1 "[0, 0]" "[]"] by auto
  from r(3)[rule_format, of 0 0 2] r(3)[rule_format, of 1 0 2] have "2 \<le> res ! 0" "9 \<le> res ! 1" by simp_all
  with r(1,2) show ?thesis by blast
qed

text \<open>Of signed bytes the largest is not found: \<open>-1\<close> is taken for more than \<open>1\<close>.\<close>

lemma reduce_max_int8_unsigned:
  "ReduceMaxFunc_run fmax CVI_FMT_INT8 (Bytes [1, 0xFF]) [1, 2] [1] (Bytes [0]) = Inr (Bytes [0xFF :: byte])"
proof -
  have "loop_from k 2 f s = loop_from k (Suc (Suc 0)) f s" for k s and f :: "nat \<Rightarrow> byte list \<Rightarrow> byte list res" by (simp add: numeral_2_eq_2)
  then show ?thesis by (simp add: ReduceMaxFunc_run_def my_reduce_max_def Let_def elem_def put_elem_def bind_res_def max_def word_le_nat_alt)
qed

section \<open>Running sums\<close>

text \<open>Reference: the sum up to an element, each added in front of the sum so far.\<close>

fun running :: "('a \<Rightarrow> 'a \<Rightarrow> 'a) \<Rightarrow> (nat \<Rightarrow> 'a) \<Rightarrow> nat \<Rightarrow> 'a" where
  "running add g 0 = g 0"
| "running add g (Suc l) = add (g (Suc l)) (running add g l)"

lemma cumsum_slice:
  assumes "cur + len * stride \<le> length bottom" "length out = length bottom"
  shows "\<exists>res. loop len (\<lambda>l. loop stride (\<lambda>s out. let p = cur + l * stride + s in
       bind_res (elem bottom p) (\<lambda>b. if l = 0 then put_elem p b out else bind_res (elem out (p - stride)) (\<lambda>t. put_elem p (add b t) out)))) out = Inr res \<and>
     length res = length out \<and> (\<forall>p. p < cur \<or> cur + len * stride \<le> p \<longrightarrow> res ! p = out ! p) \<and>
     (\<forall>l<len. \<forall>s < stride. res ! (cur + l * stride + s) = running add (\<lambda>l. bottom ! (cur + l * stride + s)) l)"
proof -
  let ?g = "\<lambda>s l. bottom ! (cur + l * stride + s)"
  let ?f = "\<lambda>k out. let p = cur + (k div stride) * stride + k mod stride in
       bind_res (elem bottom p) (\<lambda>b. if k div stride = 0 then put_elem p b out else bind_res (elem out (p - stride)) (\<lambda>t. put_elem p (add b t) out))"
  have "\<exists>res. loop n ?f out = Inr res \<and> length res = length out \<and> (\<forall>p. p < cur \<or> cur + n \<le> p \<longrightarrow> res ! p = out ! p) \<and>
     (\<forall>k<n. res ! (cur + k) = running add (?g (k mod stride)) (k div stride))" if "n \<le> len * stride" for n
    using that
  proof (induction n)
    case (Suc n)
    then obtain r where r: "loop n ?f out = Inr r" "length r = length out" "\<forall>p. p < cur \<or> cur + n \<le> p \<longrightarrow> r ! p = out ! p"
      "\<forall>k<n. r ! (cur + k) = running add (?g (k mod stride)) (k div stride)" by auto
    have st: "0 < stride" using Suc.prems by (auto intro!: Nat.gr0I)
    have p: "cur + n div stride * stride + n mod stride = cur + n" by simp
    have b: "cur + n < length bottom" "cur + n < length r" using Suc.prems assms r(2) by auto
    let ?v = "running add (?g (n mod stride)) (n div stride)"
    let ?h = "bind_res (elem bottom (cur + n)) (\<lambda>b. if n div stride = 0 then put_elem (cur + n) b r
       else bind_res (elem r (cur + n - stride)) (\<lambda>t. put_elem (cur + n) (add b t) r))"
    have f: "?f n r = ?h" by (simp only: Let_def p)
    have "?h = Inr (r[cur + n := ?v])"
    proof (cases "n div stride")
      case 0
      then have "n mod stride = n" using st by (simp add: div_eq_0_iff)
      then show ?thesis using b 0 by (simp add: Let_def bind_res_def elem_def put_elem_def)
    next
      case (Suc l)
      then have n: "stride \<le> n" using div_less[of n stride] by (cases "n < stride") auto
      have "(n - stride) div stride = l" "(n - stride) mod stride = n mod stride" using Suc n st by (simp_all add: le_div_geq le_mod_geq)
      then have "r ! (cur + n - stride) = running add (?g (n mod stride)) l" using r(4)[rule_format, of "n - stride"] n st by simp
      moreover have "cur + n - stride < length r" using b by simp
      moreover have "?g (n mod stride) (n div stride) = bottom ! (cur + n)" by (simp add: p)
      ultimately show ?thesis using b Suc by (simp add: bind_res_def elem_def put_elem_def)
    qed
    then have run: "loop (Suc n) ?f out = Inr (r[cur + n := ?v])" using loop_from_add[of 0 n 1 ?f out] r(1) f by (simp add: bind_res_def)
    show ?case unfolding run using r b by (auto simp: nth_list_update less_Suc_eq)
  qed (simp add: assms)
  from this[OF order_refl] obtain r where r: "loop (len * stride) ?f out = Inr r" "length r = length out"
    "\<forall>p. p < cur \<or> cur + len * stride \<le> p \<longrightarrow> r ! p = out ! p" "\<forall>k<len * stride. r ! (cur + k) = running add (?g (k mod stride)) (k div stride)" by blast
  have "r ! (cur + l * stride + s) = running add (?g s) l" if "l < len" "s < stride" for l s
    using r(4)[rule_format, OF pair_index[OF that]] pair_divmod[OF that(2), of l] by (simp add: add.assoc)
  with r show ?thesis by (auto simp: loop_nest)
qed

lemma cumsum_loop_run:
  assumes "k * (len * stride) + cur = numelement" "numelement = length bottom" "length out = length bottom" "k < fuel" "0 < len * stride"
  shows "\<exists>res. cumsum_loop add len stride numelement bottom fuel cur out = Inr res \<and> length res = length bottom \<and> (\<forall>p<cur. res ! p = out ! p) \<and>
     (\<forall>q<k. \<forall>l<len. \<forall>s < stride. res ! (cur + q * (len * stride) + l * stride + s) =
        running add (\<lambda>l. bottom ! (cur + q * (len * stride) + l * stride + s)) l)"
  using assms
proof (induction k arbitrary: cur out fuel)
  case 0
  then show ?case by (cases fuel) auto
next
  case (Suc k)
  let ?w = "len * stride"
  obtain f where fuel: "fuel = Suc f" "k < f" using Suc.prems(4) by (cases fuel) auto
  have "?w + (k * ?w + cur) = numelement" using Suc.prems(1) by simp
  then have cur: "cur < numelement" "cur + ?w \<le> length bottom" "k * ?w + (cur + ?w) = numelement" using Suc.prems(2,5) by linarith+
  obtain r where r: "loop len (\<lambda>l. loop stride (\<lambda>s out. let p = cur + l * stride + s in
       bind_res (elem bottom p) (\<lambda>b. if l = 0 then put_elem p b out else bind_res (elem out (p - stride)) (\<lambda>t. put_elem p (add b t) out)))) out = Inr r"
    "length r = length out" "\<forall>p. p < cur \<or> cur + ?w \<le> p \<longrightarrow> r ! p = out ! p"
    "\<forall>l<len. \<forall>s < stride. r ! (cur + l * stride + s) = running add (\<lambda>l. bottom ! (cur + l * stride + s)) l"
    using cumsum_slice[OF cur(2) Suc.prems(3), of add] by blast
  obtain res where e: "cumsum_loop add len stride numelement bottom f (cur + ?w) r = Inr res" "length res = length bottom" "\<forall>p<cur + ?w. res ! p = r ! p"
    "\<forall>q<k. \<forall>l<len. \<forall>s < stride. res ! (cur + ?w + q * ?w + l * stride + s) = running add (\<lambda>l. bottom ! (cur + ?w + q * ?w + l * stride + s)) l"
    using Suc.IH[OF cur(3) Suc.prems(2) _ fuel(2) Suc.prems(5), of r] r(2) Suc.prems(3) by auto
  have "res ! (cur + q * ?w + l * stride + s) = running add (\<lambda>l. bottom ! (cur + q * ?w + l * stride + s)) l" if "q < Suc k" "l < len" "s < stride" for q l s
  proof (cases q)
    case 0
    have "cur + l * stride + s < cur + ?w" using pair_index[OF that(2,3)] by simp
    then show ?thesis using e(3) r(4) that(2,3) 0 by simp
  next
    case (Suc q')
    then show ?thesis using e(4)[rule_format, of q' l s] that by (simp add: algebra_simps)
  qed
  moreover have "\<forall>p<cur. res ! p = out ! p" using e(3) r(3) by simp
  ultimately show ?case using e(1,2) r(1) cur(1) fuel(1) by (auto simp: bind_res_def)
qed

text \<open>
  The running sum along an axis is the sum of the elements up to each position, added one after
  the other: for a tensor without an empty dimension the loop ends and the output at position \<open>l\<close> of
  the axis of slice \<open>q\<close> is the sum of the elements \<open>0 .. l\<close> there.
\<close>

lemma cumsum_running:
  assumes "axis < length (t_shape bottom)" "length (t_data bottom) = prod_dims (t_shape bottom)" "length (t_data top0) = prod_dims (t_shape bottom)"
    and "0 < prod_dims (t_shape bottom)"
    and "n = prod_dims (take axis (t_shape bottom))" "len = t_shape bottom ! axis" "stride = prod_dims (drop (Suc axis) (t_shape bottom))"
  shows "\<exists>res. CumSumFunc_run add axis bottom top0 = Inr (top0\<lparr>t_data := res\<rparr>) \<and> length res = prod_dims (t_shape bottom) \<and>
     (\<forall>q<n. \<forall>l<len. \<forall>s < stride. res ! (q * (len * stride) + l * stride + s) = running add (\<lambda>l. t_data bottom ! (q * (len * stride) + l * stride + s)) l)"
proof -
  let ?b = "t_data bottom" and ?N = "prod_dims (t_shape bottom)"
  have pd: "prod_dims (xs @ ys) = prod_dims xs * prod_dims ys" for xs ys by (induction xs) simp_all
  have total: "?N = n * (len * stride)"
    using pd[of "take axis (t_shape bottom)" "drop axis (t_shape bottom)"] Cons_nth_drop_Suc[OF assms(1)] assms(5-7) by (metis append_take_drop_id prod_dims.simps(2))
  then have pos: "0 < len * stride" "n \<le> ?N" using assms(4) by auto
  obtain res where r: "cumsum_loop add len stride ?N ?b (Suc ?N) 0 (t_data top0) = Inr res" "length res = length ?b"
    "\<forall>q<n. \<forall>l<len. \<forall>s < stride. res ! (0 + q * (len * stride) + l * stride + s) = running add (\<lambda>l. ?b ! (0 + q * (len * stride) + l * stride + s)) l"
    using cumsum_loop_run[of n len stride 0 ?N ?b "t_data top0" "Suc ?N" add] total pos assms(2,3) by auto
  have "CumSumFunc_run add axis bottom top0 = Inr (top0\<lparr>t_data := res\<rparr>)"
    using r(1) assms(1) unfolding assms(6,7) by (simp add: CumSumFunc_run_def dim_def elem_def bind_res_def Let_def with_data_def)
  then show ?thesis using r(2,3) assms(2) by auto
qed

lemma cumsum_running_witness:
  "\<exists>res. CumSumFunc_run (+) 1 \<lparr>t_shape = [2, 3], t_fmt = CVI_FMT_FP32, t_data = [1, 2, 3, 10, 20, 30 :: nat]\<rparr>
       \<lparr>t_shape = [2, 3], t_fmt = CVI_FMT_FP32, t_data = replicate 6 0\<rparr> = Inr \<lparr>t_shape = [2, 3], t_fmt = CVI_FMT_FP32, t_data = res\<rparr> \<and> res ! 5 = 60"
proof -
  let ?b = "\<lparr>t_shape = [2, 3], t_fmt = CVI_FMT_FP32, t_data = [1, 2, 3, 10, 20, 30 :: nat]\<rparr>"
  let ?t = "\<lparr>t_shape = [2, 3], t_fmt = CVI_FMT_FP32, t_data = replicate 6 (0 :: nat)\<rparr>"
  obtain res where r: "CumSumFunc_run (+) 1 ?b ?t = Inr (?t\<lparr>t_data := res\<rparr>)"
    "\<forall>q<2. \<forall>l<3. \<forall>s<(1::nat). res ! (q * (3 * 1) + l * 1 + s) = running (+) (\<lambda>l. t_data ?b ! (q * (3 * 1) + l * 1 + s)) l"
    using cumsum_running[of 1 ?b ?t 2 3 1 "(+)"] by auto
  from r(2)[rule_format, of 1 2 0] have "res ! 5 = 60" by (simp add: numeral_2_eq_2)
  with r(1) show ?thesis by auto
qed

section \<open>Preprocessing\<close>

text \<open>Without a colour order every element is scaled and shifted by the mean of its own channel.\<close>

lemma preprocess_by_channel:
  assumes "t_shape bottom = [n, c, h, w]" "length (t_data bottom) = n * (c * (h * w))" "length (t_data top0) = n * (c * (h * w))"
    and "pp_color_order p = []" "length (pp_mean p) = c"
  shows "\<exists>res. PreprocessFunc_run F p bottom top0 = Inr (top0\<lparr>t_data := res\<rparr>) \<and>
     (\<forall>i<n. \<forall>k<c. \<forall>q<h * w. Inr (res ! ((i * c + k) * (h * w) + q)) = preprocess_value F p k (t_data bottom ! ((i * c + k) * (h * w) + q)))"
proof -
  let ?S = "h * w" and ?N = "n * (c * (h * w))"
  have def: "\<exists>v. preprocess_value F p k x = Inr v" if "k < c" for k x
    using that assms(5) by (simp add: preprocess_value_def Let_def bind_res_def elem_def)
  define v where "v m = (case preprocess_value F p (m div ?S mod c) (t_data bottom ! m) of Inr x \<Rightarrow> x | Inl _ \<Rightarrow> t_data bottom ! m)" for m
  have ch: "m div ?S mod c < c" if "m < ?N" for m using that by (auto intro!: mod_less_divisor Nat.gr0I)
  have pv: "preprocess_value F p (m div ?S mod c) (t_data bottom ! m) = Inr (v m)" if "m < ?N" for m
    using def[OF ch[OF that], of "t_data bottom ! m"] by (auto simp: v_def)
  have "loop ?N (\<lambda>i out. bind_res (elem (t_data bottom) i) (\<lambda>val0. bind_res (preprocess_value F p (i div ?S mod c) val0) (\<lambda>val3. put_elem i val3 out))) (t_data top0) =
      Inr (map v [0..<?N] @ drop ?N (t_data top0))"
    by (rule loop_fill) (use assms(2,3) pv in \<open>simp_all add: bind_res_def elem_def\<close>)
  then have run: "PreprocessFunc_run F p bottom top0 = Inr (top0\<lparr>t_data := map v [0..<?N]\<rparr>)"
    using assms(1,3,4) by (simp add: PreprocessFunc_run_def dim_def elem_def[of "[n, c, h, w]"] bind_res_def[of "Inr _"] Let_def with_data_def)
  have "Inr (map v [0..<?N] ! ((i * c + k) * ?S + q)) = preprocess_value F p k (t_data bottom ! ((i * c + k) * ?S + q))" if "i < n" "k < c" "q < ?S" for i k q
  proof -
    have m: "(i * c + k) * ?S + q < ?N" using pair_index[OF pair_index[OF that(1,2)] that(3)] by (simp add: mult.assoc)
    have "((i * c + k) * ?S + q) div ?S mod c = k" using pair_divmod(1)[OF that(3)] pair_divmod(2)[OF that(2)] by simp
    with pv[OF m] m show ?thesis by simp
  qed
  with run show ?thesis by blast
qed

end
