(* ===== verification/Detect.thy ===== *)
theory Detect
  imports CpuFunc
begin

text \<open>
  The detection layers on the host: boxes from the outputs of a network and the suppression of
  overlapping ones (\<^verbatim>\<open>yolo_detection.cpp\<close>, \<^verbatim>\<open>frcn_detection.cpp\<close>, \<^verbatim>\<open>retinaface_detection.hpp\<close>).  The floating-point
  operations are the fields of a parameter; numbers are compared by a linear order, so none of them
  is a NaN.
\<close>

section \<open>Numbers\<close>

record 'f fops =
  fadd :: "'f \<Rightarrow> 'f \<Rightarrow> 'f"
  fsub :: "'f \<Rightarrow> 'f \<Rightarrow> 'f"
  fmul :: "'f \<Rightarrow> 'f \<Rightarrow> 'f"
  fdiv :: "'f \<Rightarrow> 'f \<Rightarrow> 'f"
  fexp :: "'f \<Rightarrow> 'f"
  of_int_f :: "int \<Rightarrow> 'f"
  fhalf :: 'f

section \<open>Suppression by score\<close>

record ('b, 'f) detection =
  bbox :: 'b
  cls :: int
  score :: 'f

text \<open>
  The two loops of \<^verbatim>\<open>nms\<close> in the Yolo and Faster R-CNN layers.  \<open>hit\<close> says whether two boxes overlap too
  much; zero marks an erased box.  The loops run over the boxes in place.
\<close>

definition erase_one :: "nat \<Rightarrow> nat \<Rightarrow> ('b, 'f :: {linorder, zero}) detection list \<Rightarrow> ('b, 'f) detection list" where
  "erase_one i j det = (if score (det ! i) < score (det ! j) then det[i := (det ! i)\<lparr>score := 0\<rparr>] else det[j := (det ! j)\<lparr>score := 0\<rparr>])"

definition nms_inner :: "('b \<Rightarrow> 'b \<Rightarrow> bool res) \<Rightarrow> nat \<Rightarrow> nat \<Rightarrow> ('b, 'f :: {linorder, zero}) detection list \<Rightarrow> ('b, 'f) detection list res" where
  "nms_inner hit i j det =
    (if score (det ! j) = 0 \<or> cls (det ! i) \<noteq> cls (det ! j) then Inr det
     else bind_res (hit (bbox (det ! i)) (bbox (det ! j))) (\<lambda>h. Inr (if h then erase_one i j det else det)))"

definition nms_outer :: "('b \<Rightarrow> 'b \<Rightarrow> bool res) \<Rightarrow> nat \<Rightarrow> nat \<Rightarrow> ('b, 'f :: {linorder, zero}) detection list \<Rightarrow> ('b, 'f) detection list res" where
  "nms_outer hit num i det = (if score (det ! i) = 0 then Inr det else loop_from (Suc i) (num - Suc i) (nms_inner hit i) det)"

definition nms :: "('b \<Rightarrow> 'b \<Rightarrow> bool res) \<Rightarrow> ('b, 'f :: {linorder, zero}) detection list \<Rightarrow> ('b, 'f) detection list res" where
  "nms hit det = loop (length det) (nms_outer hit (length det)) det"

section \<open>Yolo\<close>

record 'f box =
  bx :: 'f
  by0 :: 'f
  bw :: 'f
  bh :: 'f

definition overlap :: "'f :: {linorder, zero} fops \<Rightarrow> 'f \<Rightarrow> 'f \<Rightarrow> 'f \<Rightarrow> 'f \<Rightarrow> 'f" where
  "overlap F x1 w1 x2 w2 =
    (let half = (\<lambda>w. fdiv F w (of_int_f F 2)); l1 = fsub F x1 (half w1); l2 = fsub F x2 (half w2); left = (if l1 > l2 then l1 else l2);
         r1 = fadd F x1 (half w1); r2 = fadd F x2 (half w2); right = (if r1 < r2 then r1 else r2)
     in fsub F right left)"

definition box_intersection :: "'f :: {linorder, zero} fops \<Rightarrow> 'f box \<Rightarrow> 'f box \<Rightarrow> 'f" where
  "box_intersection F a b = (let w = overlap F (bx a) (bw a) (bx b) (bw b); h = overlap F (by0 a) (bh a) (by0 b) (bh b) in
     if w < 0 \<or> h < 0 then 0 else fmul F w h)"

definition box_union :: "'f :: {linorder, zero} fops \<Rightarrow> 'f box \<Rightarrow> 'f box \<Rightarrow> 'f" where
  "box_union F a b = fsub F (fadd F (fmul F (bw a) (bh a)) (fmul F (bw b) (bh b))) (box_intersection F a b)"

definition box_iou :: "'f :: {linorder, zero} fops \<Rightarrow> 'f box \<Rightarrow> 'f box \<Rightarrow> 'f" where
  "box_iou F a b = fdiv F (box_intersection F a b) (box_union F a b)"

definition yolo_hit :: "'f :: {linorder, zero} fops \<Rightarrow> 'f \<Rightarrow> 'f box \<Rightarrow> 'f box \<Rightarrow> bool res" where
  "yolo_hit F nms_threshold a b = (let iou = box_iou F a b in assert_res (iou \<le> of_int_f F 1) (Inr (iou > nms_threshold)))"

definition sigmoid :: "'f :: {linorder, zero} fops \<Rightarrow> 'f \<Rightarrow> 'f" where
  "sigmoid F x = fdiv F (of_int_f F 1) (fadd F (of_int_f F 1) (fexp F (fsub F 0 x)))"

text \<open>
  The probability of the best class: the scores are shifted by the largest, stretched when the
  smallest is below -100, and normalised.  Without a positive probability the class stays -1.
\<close>

definition softmax_best :: "'f :: {linorder, zero} fops \<Rightarrow> 'f list \<Rightarrow> 'f \<times> int" where
  "softmax_best F xs =
    (let max_x = foldl max (hd xs) xs; min_x = foldl min (hd xs) xs; t = of_int_f F (- 100);
         es = map (\<lambda>x. fexp F (let y = fsub F x max_x in if min_x < t then fmul F (fdiv F y min_x) t else y)) xs;
         sum = foldl (fadd F) 0 es
     in foldl (\<lambda>(mp, mc) (i, e). let p = fdiv F e sum in if p > mp then (p, int i) else (mp, mc)) (0, -1) (enumerate 0 es))"

definition GET_INDEX :: "nat \<Rightarrow> nat \<Rightarrow> nat \<Rightarrow> nat \<Rightarrow> nat \<Rightarrow> nat" where
  "GET_INDEX cell_idx box_idx data_idx num_cell class_num = box_idx * (class_num + 5) * num_cell + data_idx * num_cell + cell_idx"

definition MAX_DET :: nat where "MAX_DET = 200"

fun elems :: "'a list \<Rightarrow> nat list \<Rightarrow> 'a list res" where
  "elems xs [] = Inr []"
| "elems xs (i # is) = bind_res (elem xs i) (\<lambda>x. bind_res (elems xs is) (\<lambda>ys. Inr (x # ys)))"

text \<open>One box of one cell: \<open>i\<close> the cell, \<open>j\<close> the anchor.\<close>

definition process_box :: "'f :: {linorder, zero} fops \<Rightarrow> 'f list \<Rightarrow> nat \<times> nat \<Rightarrow> 'f list \<Rightarrow> nat \<times> nat \<Rightarrow> nat \<Rightarrow> 'f \<Rightarrow> nat \<Rightarrow> nat \<Rightarrow>
    ('f box, 'f) detection list \<Rightarrow> ('f box, 'f) detection list res" where
  "process_box F feature grid anchor yolo_size class_num obj_threshold i j det =
    (let num_cell = fst grid * snd grid; at = (\<lambda>d. elem feature (GET_INDEX i j d num_cell class_num)) in
     bind_res (at 4) (\<lambda>conf. let box_confidence = sigmoid F conf in
     if box_confidence < obj_threshold then Inr det else
     bind_res (elems feature (map (\<lambda>k. GET_INDEX i j (5 + k) num_cell class_num) [0..<class_num])) (\<lambda>xs.
     case softmax_best F xs of (box_max_prob, box_max_cls) \<Rightarrow>
     let box_max_score = fmul F box_confidence box_max_prob in
     if box_max_score < obj_threshold then Inr det else
     bind_res (at 0) (\<lambda>x. bind_res (at 1) (\<lambda>y. bind_res (at 2) (\<lambda>w. bind_res (at 3) (\<lambda>h.
     bind_res (elem anchor (j * 2)) (\<lambda>aw. bind_res (elem anchor (j * 2 + 1)) (\<lambda>ah.
     let box_x = fdiv F (fadd F (sigmoid F x) (of_int_f F (int (i mod snd grid)))) (of_int_f F (int (snd grid)));
         box_y = fdiv F (fadd F (sigmoid F y) (of_int_f F (int (i div snd grid)))) (of_int_f F (int (fst grid)));
         box_w = fdiv F (fmul F (fexp F w) aw) (of_int_f F (int (snd yolo_size)));
         box_h = fdiv F (fmul F (fexp F h) ah) (of_int_f F (int (fst yolo_size)));
         det' = det @ [\<lparr>bbox = \<lparr>bx = box_x, by0 = box_y, bw = box_w, bh = box_h\<rparr>, cls = box_max_cls, score = box_max_score\<rparr>]
     in assert_res (length det' \<le> MAX_DET) (Inr det'))))))))))"

definition process_feature :: "'f :: {linorder, zero} fops \<Rightarrow> nat \<times> nat \<Rightarrow> nat \<Rightarrow> 'f \<Rightarrow> 'f list \<times> (nat \<times> nat) \<times> 'f list \<Rightarrow>
    ('f box, 'f) detection list \<Rightarrow> ('f box, 'f) detection list res" where
  "process_feature F yolo_size class_num obj_threshold fga = (case fga of (feature, grid, anchor) \<Rightarrow>
     loop (fst grid * snd grid) (\<lambda>i. loop 3 (process_box F feature grid anchor yolo_size class_num obj_threshold i)))"

fun process_features :: "'f :: {linorder, zero} fops \<Rightarrow> nat \<times> nat \<Rightarrow> nat \<Rightarrow> 'f \<Rightarrow> ('f list \<times> (nat \<times> nat) \<times> 'f list) list \<Rightarrow>
    ('f box, 'f) detection list \<Rightarrow> ('f box, 'f) detection list res" where
  "process_features F yolo_size class_num obj_threshold [] det = Inr det"
| "process_features F yolo_size class_num obj_threshold (f # fs) det =
    bind_res (process_feature F yolo_size class_num obj_threshold f det) (process_features F yolo_size class_num obj_threshold fs)"

text \<open>The boxes of one image that are written to the output.\<close>

definition yolo_image :: "'f :: {linorder, zero} fops \<Rightarrow> nat \<times> nat \<Rightarrow> nat \<Rightarrow> 'f \<Rightarrow> 'f \<Rightarrow> nat \<Rightarrow> ('f list \<times> (nat \<times> nat) \<times> 'f list) list \<Rightarrow>
    ('f box, 'f) detection list res" where
  "yolo_image F yolo_size class_num obj_threshold nms_threshold keep_topk features =
    bind_res (process_features F yolo_size class_num obj_threshold features []) (\<lambda>det_raw.
    bind_res (nms (yolo_hit F nms_threshold) det_raw) (\<lambda>det. Inr (take keep_topk (filter (\<lambda>d. score d > 0) det))))"

section \<open>Faster R-CNN\<close>

record 'f coord =
  cx1 :: 'f
  cy1 :: 'f
  cx2 :: 'f
  cy2 :: 'f

definition frcn_area :: "'f :: {linorder, zero} fops \<Rightarrow> 'f coord \<Rightarrow> 'f" where
  "frcn_area F b = fmul F (fadd F (fsub F (cx2 b) (cx1 b)) (of_int_f F 1)) (fadd F (fsub F (cy2 b) (cy1 b)) (of_int_f F 1))"

definition frcn_hit :: "'f :: {linorder, zero} fops \<Rightarrow> 'f \<Rightarrow> 'f coord \<Rightarrow> 'f coord \<Rightarrow> bool res" where
  "frcn_hit F nms_threshold a b =
    (let x1 = max (cx1 a) (cx1 b); y1 = max (cy1 a) (cy1 b); x2 = min (cx2 a) (cx2 b); y2 = min (cy2 a) (cy2 b); width = fsub F x2 x1; height = fsub F y2 y1 in
     if width > 0 \<and> height > 0 then
       let iou = fdiv F (fmul F width height) (fsub F (fadd F (frcn_area F a) (frcn_area F b)) (fmul F width height)) in
       assert_res (iou \<le> of_int_f F 1) (Inr (iou > nms_threshold))
     else Inr False)"

definition transform_box :: "'f :: {linorder, zero} fops \<Rightarrow> 'f coord \<Rightarrow> 'f list \<Rightarrow> 'f coord res" where
  "transform_box F b delta =
    (case delta of [dx, dy, dw, dh] \<Rightarrow>
      let one = of_int_f F 1; two = of_int_f F 2;
          height = fadd F (fsub F (cy2 b) (cy1 b)) one; width = fadd F (fsub F (cx2 b) (cx1 b)) one;
          ctr_x = fadd F (cx1 b) (fmul F width (fhalf F)); ctr_y = fadd F (cy1 b) (fmul F height (fhalf F));
          pred_ctr_x = fadd F (fmul F dx width) ctr_x; pred_ctr_y = fadd F (fmul F dy height) ctr_y;
          pred_w = fmul F (fexp F dw) width; pred_h = fmul F (fexp F dh) height
      in Inr \<lparr>cx1 = fsub F pred_ctr_x (fdiv F pred_w two), cy1 = fsub F pred_ctr_y (fdiv F pred_h two),
              cx2 = fadd F pred_ctr_x (fdiv F pred_w two), cy2 = fadd F pred_ctr_y (fdiv F pred_h two)\<rparr>
     | _ \<Rightarrow> Inl OutOfRange)"

text \<open>The boxes of all regions and classes, in the order in which they are stored.\<close>

definition bbox_transform_inv :: "'f :: {linorder, zero} fops \<Rightarrow> 'f coord list \<Rightarrow> 'f list \<Rightarrow> nat \<Rightarrow> nat \<Rightarrow> 'f coord list res" where
  "bbox_transform_inv F boxes deltas num class_num = loop num (\<lambda>i. loop class_num (\<lambda>j pred.
     bind_res (elem boxes i) (\<lambda>b. bind_res (elems deltas (map (\<lambda>k. i * class_num * 4 + j * 4 + k) [0..<4])) (\<lambda>delta.
     bind_res (transform_box F b delta) (\<lambda>p. Inr (pred @ [p])))))) []"

text \<open>
  The boxes above the threshold are stored in an array of \<open>num\<close> detections, one per region, though
  every region may have a box for each class.
\<close>

definition frcn_collect :: "'f :: {linorder, zero} \<Rightarrow> nat \<Rightarrow> nat \<Rightarrow> 'f coord list \<Rightarrow> 'f list \<Rightarrow> ('f coord, 'f) detection list res" where
  "frcn_collect obj_threshold num class_num pred scores = loop num (\<lambda>i. loop_from 1 (class_num - 1) (\<lambda>j dets.
     bind_res (elem scores (i * class_num + j)) (\<lambda>s. if s > obj_threshold then
       bind_res (elem pred (i * class_num + j)) (\<lambda>p.
       if length dets < num then Inr (dets @ [\<lparr>bbox = p, cls = int j, score = s\<rparr>]) else Inl OutOfRange)
     else Inr dets))) []"

text \<open>
  One image.  The deltas are copied with the size in bytes taken for the number of elements; the
  copy of the last image reads past the tensor.
\<close>

definition frcn_image :: "'f :: {linorder, zero} fops \<Rightarrow> 'f \<Rightarrow> 'f \<Rightarrow> nat \<Rightarrow> nat \<Rightarrow> nat \<Rightarrow> nat \<Rightarrow> nat \<Rightarrow> 'f list \<Rightarrow> 'f list \<Rightarrow> 'f list \<Rightarrow>
    ('f coord, 'f) detection list res" where
  "frcn_image F obj_threshold nms_threshold keep_topk class_num num batch b bbox_deltas scores rois =
    (if batch = 0 then Inl DivByZero else
     let deltas_size = length bbox_deltas * 4 div batch; scores_size = length scores * 4 div batch in
     bind_res (elems rois (map (\<lambda>k. b * (num * 5) + k) [0..<num * 5])) (\<lambda>rs.
     let boxes = map (\<lambda>i. \<lparr>cx1 = rs ! (i * 5 + 1), cy1 = rs ! (i * 5 + 2), cx2 = rs ! (i * 5 + 3), cy2 = rs ! (i * 5 + 4)\<rparr>) [0..<num] in
     if length bbox_deltas < b * deltas_size + deltas_size then Inl OutOfRange else
     bind_res (bbox_transform_inv F boxes (take deltas_size (drop (b * deltas_size) bbox_deltas)) num class_num) (\<lambda>pred.
     bind_res (frcn_collect obj_threshold num class_num pred (drop (b * scores_size) scores)) (\<lambda>dets.
     bind_res (nms (frcn_hit F nms_threshold) dets) (\<lambda>dets'. Inr (take keep_topk (filter (\<lambda>d. score d > 0) dets')))))))"

section \<open>Faces\<close>

record 'f face =
  fx1 :: 'f
  fy1 :: 'f
  fx2 :: 'f
  fy2 :: 'f
  fscore :: 'f
  fpts :: "'f list"

text \<open>
  \<^verbatim>\<open>std::sort\<close> leaves the order of equal scores open; it is a parameter that gives the faces in some
  order of descending scores.
\<close>

definition sorts_faces :: "('f :: {linorder, zero} face list \<Rightarrow> 'f face list) \<Rightarrow> bool" where
  "sorts_faces std_sort = (\<forall>infos. mset (std_sort infos) = mset infos \<and> sorted_wrt (\<lambda>a b. fscore b \<le> fscore a) (std_sort infos))"

text \<open>
  The overlap of two faces as it is computed after \<^verbatim>\<open>selected++\<close>: the area of the chosen face with the
  corners of the one behind it.
\<close>

definition face_area :: "'f :: {linorder, zero} fops \<Rightarrow> 'f face \<Rightarrow> 'f" where
  "face_area F a = fmul F (fadd F (fsub F (fx2 a) (fx1 a)) (of_int_f F 1)) (fadd F (fsub F (fy2 a) (fy1 a)) (of_int_f F 1))"

definition face_hit :: "'f :: {linorder, zero} fops \<Rightarrow> 'f \<Rightarrow> 'f \<Rightarrow> 'f face \<Rightarrow> 'f face \<Rightarrow> bool" where
  "face_hit F nms_threshold area1 c b =
    (let x1 = max (fx1 c) (fx1 b); y1 = max (fy1 c) (fy1 b); x2 = min (fx2 c) (fx2 b); y2 = min (fy2 c) (fy2 b);
         w = fadd F (fsub F x2 x1) (of_int_f F 1); h = fadd F (fsub F y2 y1) (of_int_f F 1) in
     if w \<le> 0 \<or> h \<le> 0 then False
     else fdiv F (fmul F w h) (fsub F (fadd F area1 (face_area F b)) (fmul F w h)) > nms_threshold)"

fun skip_masked :: "bool list \<Rightarrow> nat \<Rightarrow> nat \<Rightarrow> nat" where
  "skip_masked msk 0 selected = selected"
| "skip_masked msk (Suc n) selected = (if selected < length msk \<and> msk ! selected then skip_masked msk n (Suc selected) else selected)"

definition mask_overlaps :: "'f :: {linorder, zero} fops \<Rightarrow> 'f \<Rightarrow> 'f face list \<Rightarrow> 'f \<Rightarrow> nat \<Rightarrow> bool list \<Rightarrow> bool list" where
  "mask_overlaps F nms_threshold infos area1 selected msk =
     map (\<lambda>i. msk ! i \<or> (selected \<le> i \<and> face_hit F nms_threshold area1 (infos ! selected) (infos ! i))) [0..<length msk]"

fun face_loop :: "'f :: {linorder, zero} fops \<Rightarrow> 'f \<Rightarrow> 'f face list \<Rightarrow> nat \<Rightarrow> bool list \<Rightarrow> nat \<Rightarrow> 'f face list \<Rightarrow> 'f face list res" where
  "face_loop F nms_threshold infos 0 msk selected infos_nms = Inl Diverged"
| "face_loop F nms_threshold infos (Suc fuel) msk selected infos_nms =
    (let k = skip_masked msk (length infos) selected in
     if k = length infos then Inr infos_nms
     else face_loop F nms_threshold infos fuel
       (mask_overlaps F nms_threshold infos (face_area F (infos ! k)) (Suc k) (msk[k := True])) (Suc k) (infos_nms @ [infos ! k]))"

definition face_nms :: "('f face list \<Rightarrow> 'f face list) \<Rightarrow> 'f :: {linorder, zero} fops \<Rightarrow> 'f \<Rightarrow> 'f face list \<Rightarrow> 'f face list res" where
  "face_nms std_sort F nms_threshold infos = (let s = std_sort infos in
     face_loop F nms_threshold s (Suc (length s)) (replicate (length s) False) 0 [])"

end
