(* ===== verification/Suppress.thy ===== *)
theory Suppress
  imports Detect CpuLayers Complex_Main "HOL-Library.Sublist"
begin

text \<open>
  What the suppression of overlapping boxes keeps and erases.  The loops over scored boxes are
  verified once, for any test of two boxes, and used for the two layers that have them.
\<close>

section \<open>Suppression by score\<close>

locale overlap_test =
  fixes hit :: "'b \<Rightarrow> 'b \<Rightarrow> bool res" and ok :: "'b \<Rightarrow> 'b \<Rightarrow> bool" and over :: "'b \<Rightarrow> 'b \<Rightarrow> bool"
  assumes hit_run: "ok a b \<Longrightarrow> hit a b = Inr (over a b)"
begin

text \<open>Box \<open>k\<close> overlaps a box of its class that has no lower score.\<close>

definition dominated :: "('b, 'f :: {linorder, zero}) detection list \<Rightarrow> nat \<Rightarrow> bool" where
  "dominated det k \<longleftrightarrow> (\<exists>m<length det. m \<noteq> k \<and> cls (det ! m) = cls (det ! k) \<and> score (det ! k) \<le> score (det ! m) \<and>
     (if k < m then over (bbox (det ! k)) (bbox (det ! m)) else over (bbox (det ! m)) (bbox (det ! k))))"

definition erases :: "('b, 'f :: {linorder, zero}) detection list \<Rightarrow> ('b, 'f) detection list \<Rightarrow> bool" where
  "erases det st \<longleftrightarrow> length st = length det \<and> (\<forall>k<length det. st ! k = det ! k \<or> (st ! k = (det ! k)\<lparr>score := 0\<rparr> \<and> dominated det k))"

definition pairs_ok :: "('b, 'f) detection list \<Rightarrow> bool" where
  "pairs_ok det \<longleftrightarrow> (\<forall>i<length det. \<forall>j<length det. ok (bbox (det ! i)) (bbox (det ! j)))"

definition settled :: "('b, 'f :: {linorder, zero}) detection list \<Rightarrow> ('b, 'f) detection list \<Rightarrow> nat \<Rightarrow> nat \<Rightarrow> bool" where
  "settled det st i j \<longleftrightarrow> (score (st ! i) \<noteq> 0 \<and> score (st ! j) \<noteq> 0 \<and> cls (det ! i) = cls (det ! j) \<longrightarrow> \<not> over (bbox (det ! i)) (bbox (det ! j)))"

definition shrinks :: "('b, 'f :: {linorder, zero}) detection list \<Rightarrow> ('b, 'f) detection list \<Rightarrow> bool" where
  "shrinks st st' \<longleftrightarrow> (\<forall>k. score (st' ! k) \<noteq> 0 \<longrightarrow> score (st ! k) \<noteq> 0)"

lemma shrinks_settled: "settled det st i j \<Longrightarrow> shrinks st st' \<Longrightarrow> settled det st' i j"
  by (auto simp: settled_def shrinks_def)

lemma shrinks_trans: "shrinks a b \<Longrightarrow> shrinks b c \<Longrightarrow> shrinks a c"
  by (auto simp: shrinks_def)

lemma erasesD:
  assumes "erases det st" "k < length det"
  shows "bbox (st ! k) = bbox (det ! k)" "cls (st ! k) = cls (det ! k)" "score (st ! k) \<noteq> 0 \<Longrightarrow> st ! k = det ! k"
  using assms by (auto simp: erases_def)

lemma erase_shrinks: "shrinks st (st[k := (st ! k)\<lparr>score := 0\<rparr>])"
proof -
  have "score (st[k := (st ! k)\<lparr>score := 0\<rparr>] ! m) = 0 \<or> st[k := (st ! k)\<lparr>score := 0\<rparr>] ! m = st ! m" for m
    by (cases "m = k"; cases "k < length st") (simp_all add: list_update_beyond)
  then show ?thesis unfolding shrinks_def by metis
qed

lemma erase_erases:
  assumes "erases det st" "k < length det" "st ! k = det ! k" "dominated det k"
  shows "erases det (st[k := (st ! k)\<lparr>score := 0\<rparr>])"
  using assms by (auto simp: erases_def nth_list_update)

lemma inner_step:
  assumes e: "erases det st" and pos: "\<forall>d\<in>set det. 0 < score d" and p: "pairs_ok det" and ij: "i < j" "j < length det"
  shows "\<exists>st'. nms_inner hit i j st = Inr st' \<and> erases det st' \<and> shrinks st st' \<and> settled det st' i j"
proof -
  have i: "i < length det" "i < length st" "j < length st" using ij e by (auto simp: erases_def)
  note bi = erasesD(3)[OF e i(1)] and bj = erasesD(3)[OF e ij(2)] and b = erasesD(1,2)[OF e i(1)] erasesD(1,2)[OF e ij(2)]
  show ?thesis
  proof (cases "score (st ! j) = 0 \<or> cls (st ! i) \<noteq> cls (st ! j) \<or> \<not> over (bbox (det ! i)) (bbox (det ! j))")
    case True
    have "hit (bbox (st ! i)) (bbox (st ! j)) = Inr (over (bbox (det ! i)) (bbox (det ! j)))"
      using hit_run p i ij b by (simp add: pairs_ok_def)
    with True have "nms_inner hit i j st = Inr st" by (auto simp: nms_inner_def bind_res_def)
    moreover have "settled det st i j" using True b by (auto simp: settled_def)
    ultimately show ?thesis using e by (intro exI[of _ st]) (simp add: shrinks_def)
  next
    case False
    then have j0: "score (st ! j) \<noteq> 0" and c: "cls (det ! i) = cls (det ! j)" and o: "over (bbox (det ! i)) (bbox (det ! j))"
      using b by auto
    have stj: "st ! j = det ! j" using bj j0 by simp
    have run: "nms_inner hit i j st = Inr (erase_one i j st)"
      using hit_run p i ij b False by (simp add: nms_inner_def bind_res_def pairs_ok_def)
    have pj: "0 < score (det ! j)" using pos ij by simp
    consider "score (st ! i) = 0" | "score (st ! i) \<noteq> 0" "score (st ! i) < score (st ! j)" | "score (st ! i) \<noteq> 0" "\<not> score (st ! i) < score (st ! j)" by blast
    then show ?thesis
    proof cases
      case 1
      then have "st[i := (st ! i)\<lparr>score := 0\<rparr>] = st" using i by (metis detection.surjective detection.update_convs(3) list_update_id)
      then have "erase_one i j st = st" using 1 pj stj by (simp add: erase_one_def)
      then show ?thesis using run e 1 by (auto simp: shrinks_def settled_def)
    next
      case 2
      then have sti: "st ! i = det ! i" using bi by simp
      have "dominated det i" using 2 sti stj ij c o i by (auto simp: dominated_def intro!: exI[of _ j])
      then have "erases det (erase_one i j st)" using erase_erases[OF e i(1) sti] 2 by (simp add: erase_one_def)
      then show ?thesis using run erase_shrinks[of st i] 2 i by (auto simp: erase_one_def settled_def)
    next
      case 3
      then have sti: "st ! i = det ! i" using bi by simp
      have "dominated det j" using 3 sti stj ij c o i by (auto simp: dominated_def intro!: exI[of _ i])
      then have "erases det (erase_one i j st)" using erase_erases[OF e ij(2) stj] 3 by (simp add: erase_one_def)
      then show ?thesis using run erase_shrinks[of st j] 3 i by (auto simp: erase_one_def settled_def)
    qed
  qed
qed

lemma inner_loop:
  assumes "erases det st" "\<forall>d\<in>set det. 0 < score d" "pairs_ok det" "i < j0" "j0 + n \<le> length det"
  shows "\<exists>st'. loop_from j0 n (nms_inner hit i) st = Inr st' \<and> erases det st' \<and> shrinks st st' \<and> (\<forall>j. j0 \<le> j \<and> j < j0 + n \<longrightarrow> settled det st' i j)"
  using assms(1,4,5)
proof (induction n arbitrary: j0 st)
  case (Suc n)
  obtain s1 where s1: "nms_inner hit i j0 st = Inr s1" "erases det s1" "shrinks st s1" "settled det s1 i j0"
    using inner_step[OF Suc.prems(1) assms(2,3) Suc.prems(2)] Suc.prems(3) by auto
  obtain s2 where s2: "loop_from (Suc j0) n (nms_inner hit i) s1 = Inr s2" "erases det s2" "shrinks s1 s2"
    "\<forall>j. Suc j0 \<le> j \<and> j < Suc j0 + n \<longrightarrow> settled det s2 i j" using Suc.IH[OF s1(2), of "Suc j0"] Suc.prems by auto
  have "settled det s2 i j" if "j0 \<le> j" "j < j0 + Suc n" for j
    using that s2(4) shrinks_settled[OF s1(4) s2(3)] by (cases "j = j0") auto
  then show ?case using s1 s2 shrinks_trans by (auto simp: bind_res_def)
qed (auto simp: shrinks_def)

lemma outer_loop:
  assumes "erases det st" "\<forall>d\<in>set det. 0 < score d" "pairs_ok det" "i0 + n \<le> length det"
  shows "\<exists>st'. loop_from i0 n (nms_outer hit (length det)) st = Inr st' \<and> erases det st' \<and> shrinks st st' \<and>
     (\<forall>i j. i0 \<le> i \<and> i < i0 + n \<and> i < j \<and> j < length det \<longrightarrow> settled det st' i j)"
  using assms(1,4)
proof (induction n arbitrary: i0 st)
  case (Suc n)
  have "\<exists>s1. nms_outer hit (length det) i0 st = Inr s1 \<and> erases det s1 \<and> shrinks st s1 \<and> (\<forall>j. i0 < j \<and> j < length det \<longrightarrow> settled det s1 i0 j)"
  proof (cases "score (st ! i0) = 0")
    case True
    then show ?thesis using Suc.prems by (auto simp: nms_outer_def shrinks_def settled_def)
  next
    case False
    have n: "Suc i0 + (length det - Suc i0) = length det" using Suc.prems(2) by simp
    from inner_loop[OF Suc.prems(1) assms(2,3), of i0 "Suc i0" "length det - Suc i0", unfolded n]
    show ?thesis using False by (simp add: nms_outer_def Suc_le_eq)
  qed
  then obtain s1 where s1: "nms_outer hit (length det) i0 st = Inr s1" "erases det s1" "shrinks st s1" "\<forall>j. i0 < j \<and> j < length det \<longrightarrow> settled det s1 i0 j" by blast
  obtain s2 where s2: "loop_from (Suc i0) n (nms_outer hit (length det)) s1 = Inr s2" "erases det s2" "shrinks s1 s2"
    "\<forall>i j. Suc i0 \<le> i \<and> i < Suc i0 + n \<and> i < j \<and> j < length det \<longrightarrow> settled det s2 i j" using Suc.IH[OF s1(2), of "Suc i0"] Suc.prems by auto
  have "settled det s2 i j" if "i0 \<le> i" "i < i0 + Suc n" "i < j" "j < length det" for i j
    using that s2(4) s1(4) shrinks_settled[OF _ s2(3), of det i0 j] by (cases "i = i0") auto
  then show ?case using s1 s2 shrinks_trans by (auto simp: bind_res_def)
qed (auto simp: shrinks_def)

lemma nms_result:
  assumes "\<forall>d\<in>set det. 0 < score d" "pairs_ok det"
  obtains st where "nms hit det = Inr st" "erases det st" "\<And>i j. i < j \<Longrightarrow> j < length det \<Longrightarrow> settled det st i j"
proof -
  have "erases det det" by (simp add: erases_def)
  from outer_loop[OF this assms, of 0 "length det"] show ?thesis using that by (auto simp: nms_def)
qed

end

interpretation yolo: overlap_test "yolo_hit F thr" "\<lambda>a b. box_iou F a b \<le> of_int_f F 1" "\<lambda>a b. thr < box_iou F a b" for F thr
  by unfold_locales (simp add: yolo_hit_def Let_def assert_res_def)

interpretation frcn: overlap_test "frcn_hit F thr" "\<lambda>a b. frcn_hit F thr a b \<noteq> Inl AssertFailed" "\<lambda>a b. frcn_hit F thr a b = Inr True" for F thr
  by unfold_locales (auto simp: frcn_hit_def Let_def assert_res_def)

text \<open>
  C10: the suppression of the Yolo layer does what it is for: when the overlap ratios are at most one
  and the scores positive, it returns, no two boxes of a class that it keeps overlap more than the
  threshold, every box is kept as it is or erased, and an erased box overlaps a box of its class,
  with no lower score, more than the threshold.
\<close>

theorem yolo_nms_suppresses:
  assumes "\<forall>d\<in>set det. 0 < score d" "\<forall>i<length det. \<forall>j<length det. box_iou F (bbox (det ! i)) (bbox (det ! j)) \<le> of_int_f F 1"
  shows "\<exists>st. nms (yolo_hit F thr) det = Inr st \<and> length st = length det \<and>
     (\<forall>i j. i < j \<and> j < length det \<and> score (st ! i) \<noteq> 0 \<and> score (st ! j) \<noteq> 0 \<and> cls (det ! i) = cls (det ! j) \<longrightarrow>
        box_iou F (bbox (det ! i)) (bbox (det ! j)) \<le> thr) \<and>
     (\<forall>k<length det. st ! k = det ! k \<or> st ! k = (det ! k)\<lparr>score := 0\<rparr> \<and>
        (\<exists>m<length det. m \<noteq> k \<and> cls (det ! m) = cls (det ! k) \<and> score (det ! k) \<le> score (det ! m) \<and>
           thr < (if k < m then box_iou F (bbox (det ! k)) (bbox (det ! m)) else box_iou F (bbox (det ! m)) (bbox (det ! k)))))"
proof -
  have "yolo.pairs_ok F det" using assms(2) by (simp add: yolo.pairs_ok_def)
  from yolo.nms_result[OF assms(1) this] obtain st where st: "nms (yolo_hit F thr) det = Inr st" "yolo.erases thr F det st"
    "\<And>i j. i < j \<Longrightarrow> j < length det \<Longrightarrow> yolo.settled thr F det st i j" by metis
  have "\<forall>i j. i < j \<and> j < length det \<and> score (st ! i) \<noteq> 0 \<and> score (st ! j) \<noteq> 0 \<and> cls (det ! i) = cls (det ! j) \<longrightarrow>
      box_iou F (bbox (det ! i)) (bbox (det ! j)) \<le> thr" using st(3) by (auto simp: yolo.settled_def not_less)
  with st(1,2) show ?thesis unfolding if_distrib[of "\<lambda>x. thr < x"] yolo.erases_def yolo.dominated_def by blast
qed

text \<open>Arithmetic of real numbers, which small whole coordinates share with floating-point numbers.\<close>

definition real_ops :: "real fops" where
  "real_ops = \<lparr>fadd = (+), fsub = (-), fmul = (*), fdiv = (/), fexp = exp, of_int_f = of_int, fhalf = 1 / 2\<rparr>"

definition demo_box :: "real \<Rightarrow> real \<Rightarrow> (real box, real) detection" where
  "demo_box x s = \<lparr>bbox = \<lparr>bx = x, by0 = 0, bw = 4, bh = 4\<rparr>, cls = 1, score = s\<rparr>"

theorem yolo_nms_suppresses_witness:
  "\<exists>st. nms (yolo_hit real_ops (1 / 2)) [demo_box 0 1, demo_box 1 2, demo_box 9 1] = Inr st \<and> length st = 3 \<and>
     (score (st ! 0) = 0 \<or> score (st ! 1) = 0) \<and> st ! 2 = demo_box 9 1"
proof -
  let ?det = "[demo_box 0 1, demo_box 1 2, demo_box 9 1]"
  have iou: "box_iou real_ops (bbox (demo_box x a)) (bbox (demo_box y b)) =
      (if \<bar>x - y\<bar> > 4 then 0 else (4 - \<bar>x - y\<bar>) * 4 / (32 - (4 - \<bar>x - y\<bar>) * 4))" for x y a b
  proof -
    have ov: "overlap real_ops x 4 y 4 = 4 - \<bar>x - y\<bar>" for x y :: real by (simp add: overlap_def real_ops_def Let_def)
    have "box_intersection real_ops (bbox (demo_box x a)) (bbox (demo_box y b)) = (if \<bar>x - y\<bar> > 4 then 0 else (4 - \<bar>x - y\<bar>) * 4)"
      by (simp add: box_intersection_def demo_box_def Let_def ov) (simp add: real_ops_def)
    then show ?thesis by (simp add: box_iou_def box_union_def) (simp add: real_ops_def demo_box_def)
  qed
  have i3: "i < 3 \<longleftrightarrow> i = 0 \<or> i = 1 \<or> i = (2 :: nat)" for i by auto
  have ok: "\<forall>i<length ?det. \<forall>j<length ?det. box_iou real_ops (bbox (?det ! i)) (bbox (?det ! j)) \<le> of_int_f real_ops 1"
  proof -
    have "of_int_f real_ops 1 = 1" "length ?det = 3" by (simp_all add: real_ops_def)
    then show ?thesis by (simp only: i3) (simp add: iou)
  qed
  have pos: "\<forall>d\<in>set ?det. 0 < score d" by (simp add: demo_box_def)
  obtain st where st: "nms (yolo_hit real_ops (1 / 2)) ?det = Inr st" "length st = 3"
    "\<forall>i j. i < j \<and> j < 3 \<and> score (st ! i) \<noteq> 0 \<and> score (st ! j) \<noteq> 0 \<and> cls (?det ! i) = cls (?det ! j) \<longrightarrow>
        box_iou real_ops (bbox (?det ! i)) (bbox (?det ! j)) \<le> 1 / 2"
    "\<forall>k<3. st ! k = ?det ! k \<or> st ! k = (?det ! k)\<lparr>score := 0\<rparr> \<and>
        (\<exists>m<3. m \<noteq> k \<and> cls (?det ! m) = cls (?det ! k) \<and> score (?det ! k) \<le> score (?det ! m) \<and>
           1 / 2 < (if k < m then box_iou real_ops (bbox (?det ! k)) (bbox (?det ! m)) else box_iou real_ops (bbox (?det ! m)) (bbox (?det ! k))))"
  proof -
    have len: "length ?det = 3" by simp
    from yolo_nms_suppresses[OF pos ok, of "1 / 2", unfolded len] show ?thesis using that by blast
  qed
  have c: "cls (demo_box x a) = 1" for x a by (simp add: demo_box_def)
  have "score (st ! 0) = 0 \<or> score (st ! 1) = 0" using st(3)[rule_format, of 0 1] by (auto simp: iou c)
  moreover have "st ! 2 = demo_box 9 1"
  proof -
    have "\<not> 1 / 2 < (if 2 < m then box_iou real_ops (bbox (?det ! 2)) (bbox (?det ! m)) else box_iou real_ops (bbox (?det ! m)) (bbox (?det ! 2)))"
      if "m < 3" "m \<noteq> 2" for m
    proof -
      from that have "m = 0 \<or> m = 1" by auto
      then show ?thesis by (elim disjE) (simp_all add: iou)
    qed
    moreover have "(2 :: nat) < 3" by simp
    ultimately have "st ! 2 = ?det ! 2" using st(4) by blast
    then show ?thesis by simp
  qed
  ultimately show ?thesis using st(1,2) by blast
qed

section \<open>Faces\<close>

lemma skip_ge: "selected \<le> skip_masked msk k selected"
proof (induction k arbitrary: selected)
  case (Suc k)
  show ?case using Suc[of "Suc selected"] by simp
qed simp

lemma skip_le: "selected \<le> length msk \<Longrightarrow> skip_masked msk k selected \<le> length msk"
proof (induction k arbitrary: selected)
  case (Suc k)
  then show ?case using Suc.IH[of "Suc selected"] by simp
qed simp

lemma face_loop_run:
  assumes "length msk = length infos" "selected \<le> length infos" "length infos - selected < fuel"
  shows "\<exists>res. face_loop F thr infos fuel msk selected acc = Inr (acc @ res) \<and> subseq res (drop selected infos)"
  using assms
proof (induction fuel arbitrary: msk selected acc)
  case (Suc fuel)
  let ?k = "skip_masked msk (length infos) selected"
  have k: "selected \<le> ?k" "?k \<le> length infos" using skip_ge[of selected msk] skip_le[of selected msk] Suc.prems(1,2) by simp_all
  show ?case
  proof (cases "?k = length infos")
    case True
    then show ?thesis by (intro exI[of _ "[]"]) (simp add: Let_def)
  next
    case False
    let ?m = "mask_overlaps F thr infos (face_area F (infos ! ?k)) (Suc ?k) (msk[?k := True])"
    have "length ?m = length infos" using Suc.prems(1) by (simp add: mask_overlaps_def)
    moreover have "Suc ?k \<le> length infos" "length infos - Suc ?k < fuel" using k False Suc.prems(3) by linarith+
    ultimately obtain res where r: "face_loop F thr infos fuel ?m (Suc ?k) (acc @ [infos ! ?k]) = Inr ((acc @ [infos ! ?k]) @ res)" "subseq res (drop (Suc ?k) infos)"
      using Suc.IH[of ?m "Suc ?k" "acc @ [infos ! ?k]"] by auto
    have "subseq (infos ! ?k # res) (drop ?k infos)" using r(2) k False by (simp add: Cons_nth_drop_Suc[symmetric])
    moreover have "suffix (drop ?k infos) (drop selected infos)" using k(1) by (metis drop_drop le_add_diff_inverse2 suffix_drop)
    ultimately have "subseq (infos ! ?k # res) (drop selected infos)" by (meson suffix_imp_subseq subseq_order.order_trans)
    then show ?thesis using r(1) False by (intro exI[of _ "infos ! ?k # res"]) (simp add: Let_def)
  qed
qed simp

text \<open>
  The face layer always comes to an end, with a selection of the faces in the order of their scores
  that starts with the best one.
\<close>

lemma face_nms_selects:
  assumes "sorts_faces std_sort"
  shows "\<exists>res. face_nms std_sort F thr infos = Inr res \<and> subseq res (std_sort infos) \<and> (infos \<noteq> [] \<longrightarrow> res \<noteq> [] \<and> (\<forall>a\<in>set infos. fscore a \<le> fscore (hd res)))"
proof -
  let ?s = "std_sort infos" and ?n = "length (std_sort infos)"
  have srt: "mset ?s = mset infos" "sorted_wrt (\<lambda>a b. fscore b \<le> fscore a) ?s" using assms unfolding sorts_faces_def by blast+
  obtain res where r: "face_loop F thr ?s (Suc ?n) (replicate ?n False) 0 [] = Inr res" "subseq res ?s"
    using face_loop_run[of "replicate ?n False" ?s 0 "Suc ?n" F thr "[]"] by auto
  have "res \<noteq> [] \<and> (\<forall>a\<in>set infos. fscore a \<le> fscore (hd res))" if "infos \<noteq> []"
  proof -
    have n: "0 < ?n" using that srt(1) by auto
    have "skip_masked (replicate ?n False) ?n 0 = 0" using n by (cases ?n) auto
    then have "face_loop F thr ?s ?n (mask_overlaps F thr ?s (face_area F (?s ! 0)) 1 ((replicate ?n False)[0 := True])) 1 [?s ! 0] = Inr res"
      using r(1) n by (simp add: Let_def)
    then obtain r2 where "res = [?s ! 0] @ r2"
      using face_loop_run[of "mask_overlaps F thr ?s (face_area F (?s ! 0)) 1 ((replicate ?n False)[0 := True])" ?s 1 ?n F thr "[?s ! 0]"] n
      by (auto simp: mask_overlaps_def)
    moreover have "fscore a \<le> fscore (?s ! 0)" if "a \<in> set infos" for a
    proof -
      have "a \<in> set ?s" using that srt(1) by (metis set_mset_mset)
      then show ?thesis using srt(2) by (cases ?s) auto
    qed
    ultimately show ?thesis by auto
  qed
  with r show ?thesis by (auto simp: face_nms_def)
qed

text \<open>
  The face layer suppresses faces that do not overlap: of two faces, however far apart, the one
  with the lower score is dropped as soon as the ratio of the areas is above the threshold, because
  the overlap is computed with the face behind the selected one, here with itself.
\<close>

lemma faces_apart_dropped:
  assumes "sorts_faces std_sort" "fscore b < fscore a" "fx1 a \<le> fx2 a" "fy1 a \<le> fy2 a" "fx1 b \<le> fx2 b" "fy1 b \<le> fy2 b"
    and "fx2 a < fx1 b" "thr < face_area real_ops b / face_area real_ops a"
  shows "face_nms std_sort real_ops thr [a, b] = Inr [a] \<and> \<not> (\<exists>x y. fx1 a \<le> x \<and> x \<le> fx2 a \<and> fx1 b \<le> x \<and> x \<le> fx2 b \<and> fy1 a \<le> y \<and> y \<le> fy2 a \<and> fy1 b \<le> y \<and> y \<le> fy2 b)"
proof -
  have srt: "mset (std_sort [a, b]) = {#a, b#}" "sorted_wrt (\<lambda>a b. fscore b \<le> fscore a) (std_sort [a, b])" using assms(1) unfolding sorts_faces_def by fastforce+
  have "length (std_sort [a, b]) = 2" using arg_cong[OF srt(1), of size] by simp
  then obtain x y where xy: "std_sort [a, b] = [x, y]" by (auto simp: numeral_2_eq_2 length_Suc_conv)
  with srt assms(2) have s: "std_sort [a, b] = [a, b]" by (auto simp: add_mset_eq_single add_eq_conv_ex)
  have hit: "face_hit real_ops thr (face_area real_ops a) b b"
    using assms(5,6,8) by (simp add: face_hit_def face_area_def real_ops_def Let_def)
  have "face_nms std_sort real_ops thr [a, b] = Inr [a]"
    using hit by (simp add: face_nms_def s Let_def mask_overlaps_def numeral_2_eq_2 upt_rec)
  then show ?thesis using assms(7) by auto
qed

definition demo_face :: "real \<Rightarrow> real \<Rightarrow> real face" where
  "demo_face x s = \<lparr>fx1 = x, fy1 = 0, fx2 = x + 9, fy2 = 9, fscore = s, fpts = []\<rparr>"

lemma stable_sorts_faces: "sorts_faces (\<lambda>infos. rev (sort_key fscore (rev infos)))"
  by (simp add: sorts_faces_def sorted_wrt_rev) (metis sorted_sort_key sorted_wrt_map)

lemma faces_apart_dropped_witness:
  "face_nms (\<lambda>infos. rev (sort_key fscore (rev infos))) real_ops (1 / 2) [demo_face 0 3, demo_face 500 2] = Inr [demo_face 0 3]"
  using faces_apart_dropped[OF stable_sorts_faces, of "demo_face 500 2" "demo_face 0 3" "1 / 2"] by (simp add: demo_face_def face_area_def real_ops_def)

section \<open>Faster R-CNN\<close>

text \<open>
  The copy of the deltas reads four times as many elements as an image has: for the last image, past the end.
\<close>

lemma frcn_reads_past:
  assumes "length bbox_deltas = batch * m" "0 < batch" "0 < m" "length rois = batch * (num * 5)"
  shows "frcn_image F ot nt k cn num batch (batch - 1) bbox_deltas scores rois = Inl OutOfRange"
proof -
  have total: "\<exists>ys. elems xs is = Inr ys" if "\<forall>i\<in>set is. i < length xs" for xs :: "'a list" and "is"
    using that by (induction "is") (auto simp: bind_res_def elem_def)
  have "(batch - 1) * (num * 5) + j < length rois" if "j < num * 5" for j
    using pair_index[of "batch - 1" batch j "num * 5"] that assms(2,4) by simp
  then have "\<forall>i\<in>set (map (\<lambda>k. (batch - 1) * (num * 5) + k) [0..<num * 5]). i < length rois"
    unfolding set_map ball_simps by simp
  from total[OF this] obtain rs where rs: "elems rois (map (\<lambda>k. (batch - 1) * (num * 5) + k) [0..<num * 5]) = Inr rs" by blast
  have d: "length bbox_deltas * 4 div batch = m * 4" using assms(1,2) by simp
  have "length bbox_deltas < (batch - 1) * (m * 4) + m * 4"
  proof -
    have "(batch - 1) * (m * 4) + m * 4 = batch * (m * 4)" using assms(2) by (cases batch) simp_all
    then show ?thesis using assms(1-3) by simp
  qed
  then show ?thesis using rs assms(2) by (simp add: frcn_image_def Let_def d bind_res_def[of "Inr _"])
qed

end
