(* ===== verification/SsdDetect.thy ===== *)
theory SsdDetect
  imports Detect "HOL-Library.Sublist"
begin

text \<open>
  The SSD detection layer (\<^verbatim>\<open>cpu_function/ssd_detection.cpp\<close>): scores above the threshold by class, the decoding of those
  boxes that may be used, suppression of overlapping boxes by class, and the best detections of each
  image in the output.  A box that was not decoded has no value, and using it is a fault.
\<close>

section \<open>Data\<close>

record 'f bbox_l =
  xmin :: 'f
  ymin :: 'f
  xmax :: 'f
  ymax :: 'f
  bsize :: 'f

definition CalcSize :: "'f :: {linorder, zero} fops \<Rightarrow> 'f bbox_l \<Rightarrow> 'f bbox_l" where
  "CalcSize F b = b\<lparr>bsize := (if xmax b < xmin b \<or> ymax b < ymin b then 0 else fmul F (fsub F (xmax b) (xmin b)) (fsub F (ymax b) (ymin b)))\<rparr>"

datatype Decode_CodeType = CORNER | CENTER_SIZE | CORNER_SIZE

definition code_type_of :: "string \<Rightarrow> Decode_CodeType res" where
  "code_type_of s = (if s = ''CORNER'' then Inr CORNER else if s = ''CENTER_SIZE'' then Inr CENTER_SIZE
     else if s = ''CORNER_SIZE'' then Inr CORNER_SIZE else Inl AssertFailed)"

record 'f ssd =
  sp_num_classes :: nat
  sp_share_location :: bool
  sp_background_label_id :: int
  sp_code_type :: string
  sp_top_k :: int
  sp_nms_threshold :: 'f
  sp_obj_threshold :: 'f
  sp_keep_topk :: int

type_synonym 'f score_map = "nat \<Rightarrow> ('f \<times> nat) list option"

type_synonym 'f label_preds = "int \<Rightarrow> ('f \<times> 'f \<times> 'f \<times> 'f) list option"

type_synonym 'f label_boxes = "int \<Rightarrow> 'f bbox_l option list option"

text \<open>The inputs in the order location, confidence, prior boxes: by name, and as they come when a name is missing.\<close>

definition SSD_setup :: "(string \<times> 't) list \<Rightarrow> 't list" where
  "SSD_setup inputs =
    (let named = concat (map (\<lambda>name. case find (\<lambda>t. sublist name (fst t)) inputs of None \<Rightarrow> [] | Some t \<Rightarrow> [snd t]) [''mbox_loc'', ''mbox_conf'', ''mbox_priorbox''])
     in if length named = 3 then named else map snd inputs)"

definition per_image :: "nat \<Rightarrow> (nat \<Rightarrow> 'a res) \<Rightarrow> 'a list res" where
  "per_image num f = loop num (\<lambda>i acc. bind_res (f i) (\<lambda>x. Inr (acc @ [x]))) []"

definition push :: "('k \<Rightarrow> 'a list option) \<Rightarrow> 'k \<Rightarrow> 'a \<Rightarrow> 'k \<Rightarrow> 'a list option" where
  "push m c x = m(c \<mapsto> (case m c of None \<Rightarrow> [] | Some xs \<Rightarrow> xs) @ [x])"

text \<open>
  The sorts of the standard library.  \<^verbatim>\<open>SortScoreCmp0\<close> and \<^verbatim>\<open>SortScoreCmp1\<close> compare the scores alone, and
  \<^verbatim>\<open>std::sort\<close> and \<^verbatim>\<open>std::partial_sort\<close> leave the order of equal scores open.  So the
  library is a parameter: for the scores of a vector it gives the old positions in their new order.
  It promises that every position occurs once, and that behind each of the first \<open>k\<close> places (all
  of them, for a full sort) there is no greater score.
\<close>

record 'f sorts =
  std_sort0 :: "'f list \<Rightarrow> nat list"
  std_partial_sort0 :: "nat \<Rightarrow> 'f list \<Rightarrow> nat list"
  std_sort1 :: "'f list \<Rightarrow> nat list"

definition ranks :: "nat \<Rightarrow> 'f :: linorder list \<Rightarrow> nat list \<Rightarrow> bool" where
  "ranks k ss ps = (mset ps = mset [0..<length ss] \<and> (\<forall>a b. a < k \<and> a < b \<and> b < length ps \<longrightarrow> ss ! (ps ! b) \<le> ss ! (ps ! a)))"

definition sorts_ok :: "'f :: linorder sorts \<Rightarrow> bool" where
  "sorts_ok Q = (\<forall>ss. ranks (length ss) ss (std_sort0 Q ss) \<and> ranks (length ss) ss (std_sort1 Q ss) \<and> (\<forall>k\<le>length ss. ranks k ss (std_partial_sort0 Q k ss)))"

text \<open>The scores of a class, of which the best \<open>top_k\<close> come first, and the detections of an image.\<close>

definition sort_class :: "'f sorts \<Rightarrow> int \<Rightarrow> ('f \<times> 'a) list \<Rightarrow> ('f \<times> 'a) list" where
  "sort_class Q top_k scores = map ((!) scores)
     (if top_k < int (length scores) then std_partial_sort0 Q (nat top_k) (map fst scores) else std_sort0 Q (map fst scores))"

definition sort_pairs :: "'f sorts \<Rightarrow> ('f \<times> 'a) list \<Rightarrow> ('f \<times> 'a) list" where
  "sort_pairs Q pairs = map ((!) pairs) (std_sort1 Q (map fst pairs))"

section \<open>Scores\<close>

definition GetConfidenceScores_opt :: "'f :: linorder list \<Rightarrow> nat \<Rightarrow> nat \<Rightarrow> nat \<Rightarrow> 'f \<Rightarrow> 'f score_map list res" where
  "GetConfidenceScores_opt conf_data num num_preds_per_class num_classes score_threshold =
    per_image num (\<lambda>i. loop num_preds_per_class (\<lambda>p. loop num_classes (\<lambda>c label_scores.
      bind_res (elem conf_data (i * (num_preds_per_class * num_classes) + p * num_classes + c)) (\<lambda>s.
      Inr (if s > score_threshold then push label_scores c (s, p) else label_scores)))) (\<lambda>_. None))"

text \<open>The partial sort of each class fails on a negative number.\<close>

definition sort_scores :: "'f sorts \<Rightarrow> int \<Rightarrow> nat \<Rightarrow> 'f score_map \<Rightarrow> 'f score_map res" where
  "sort_scores Q top_k num_classes = loop num_classes (\<lambda>c m. case m c of None \<Rightarrow> Inr m
     | Some scores \<Rightarrow> if top_k < 0 then Inl OutOfRange else Inr (m(c \<mapsto> sort_class Q top_k scores)))"

definition top_length :: "int \<Rightarrow> 'a list \<Rightarrow> nat" where
  "top_length top_k scores = nat (if top_k < int (length scores) then top_k else int (length scores))"

definition keep_pos :: "'f ssd \<Rightarrow> nat \<Rightarrow> nat \<Rightarrow> nat \<Rightarrow> nat" where
  "keep_pos S num_priors i c = (if sp_share_location S then num_priors * i else num_priors * sp_num_classes S * i + num_priors * c)"

definition mark_class :: "'f ssd \<Rightarrow> nat \<Rightarrow> nat \<Rightarrow> nat \<Rightarrow> ('f \<times> nat) list \<Rightarrow> bool list \<Rightarrow> bool list res" where
  "mark_class S num_priors i c scores = loop (top_length (sp_top_k S) scores) (\<lambda>k keep.
     bind_res (elem scores k) (\<lambda>(s, idx). put_elem (keep_pos S num_priors i c + idx) True keep))"

definition decode_keep :: "'f ssd \<Rightarrow> nat \<Rightarrow> nat \<Rightarrow> 'f score_map list \<Rightarrow> bool list res" where
  "decode_keep S num num_priors all_conf_scores =
    loop num (\<lambda>i. loop (sp_num_classes S) (\<lambda>c keep. if int c = sp_background_label_id S then Inr keep
      else bind_res (elem all_conf_scores i) (\<lambda>m. case m c of None \<Rightarrow> Inr keep | Some scores \<Rightarrow> mark_class S num_priors i c scores keep)))
      (replicate (if sp_share_location S then num * num_priors else num * num_priors * sp_num_classes S) False)"

section \<open>Boxes\<close>

definition quad :: "'a list \<Rightarrow> nat \<Rightarrow> ('a \<times> 'a \<times> 'a \<times> 'a) res" where
  "quad xs j = bind_res (elem xs j) (\<lambda>a. bind_res (elem xs (j + 1)) (\<lambda>b. bind_res (elem xs (j + 2)) (\<lambda>c. bind_res (elem xs (j + 3)) (\<lambda>d. Inr (a, b, c, d)))))"

definition label_of :: "'f ssd \<Rightarrow> nat \<Rightarrow> int" where
  "label_of S c = (if sp_share_location S then -1 else int c)"

definition num_loc_classes :: "'f ssd \<Rightarrow> nat" where
  "num_loc_classes S = (if sp_share_location S then 1 else sp_num_classes S)"

definition loc_step :: "'f :: zero ssd \<Rightarrow> nat \<Rightarrow> 'f list \<Rightarrow> bool list \<Rightarrow> nat \<Rightarrow> nat \<Rightarrow> nat \<Rightarrow>
    'f label_preds \<Rightarrow> 'f label_preds res" where
  "loc_step S num_preds loc_data decode_index i p c label_bbox =
    (let label = label_of S c; boxes = (case label_bbox label of None \<Rightarrow> replicate num_preds (0, 0, 0, 0) | Some bs \<Rightarrow> bs)
     in bind_res (elem decode_index (keep_pos S num_preds i c + p)) (\<lambda>kept.
        if \<not> kept then Inr (label_bbox(label \<mapsto> boxes))
        else bind_res (quad loc_data (i * (num_preds * num_loc_classes S * 4) + p * num_loc_classes S * 4 + c * 4)) (\<lambda>q.
          Inr (label_bbox(label \<mapsto> boxes[p := q])))))"

definition GetLocPredictions_opt :: "'f :: zero ssd \<Rightarrow> 'f list \<Rightarrow> nat \<Rightarrow> nat \<Rightarrow> bool list \<Rightarrow> 'f label_preds list res" where
  "GetLocPredictions_opt S loc_data num num_preds decode_index =
    per_image num (\<lambda>i. loop num_preds (\<lambda>p. loop (num_loc_classes S) (loc_step S num_preds loc_data decode_index i p)) (\<lambda>_. None))"

text \<open>One box from its prior, the variances behind the priors and its prediction.\<close>

definition decode_box :: "'f :: {linorder, zero} fops \<Rightarrow> bool \<Rightarrow> 'f \<times> 'f \<times> 'f \<times> 'f \<Rightarrow> 'f \<times> 'f \<times> 'f \<times> 'f \<Rightarrow> 'f \<times> 'f \<times> 'f \<times> 'f \<Rightarrow> 'f bbox_l" where
  "decode_box F variance_encoded p0 p1 b =
    (case p0 of (x0, y0, x1, y1) \<Rightarrow> case p1 of (v0, v1, v2, v3) \<Rightarrow> case b of (px, py, pw, ph) \<Rightarrow>
     let prior_width = fsub F x1 x0; prior_height = fsub F y1 y0;
         prior_center_x = fmul F (fadd F x0 x1) (fhalf F); prior_center_y = fmul F (fadd F y0 y1) (fhalf F);
         sc = (\<lambda>v x. if variance_encoded then x else fmul F v x);
         center_x = fadd F (fmul F (sc v0 px) prior_width) prior_center_x; center_y = fadd F (fmul F (sc v1 py) prior_height) prior_center_y;
         width = fmul F (fexp F (sc v2 pw)) prior_width; height = fmul F (fexp F (sc v3 ph)) prior_height
     in CalcSize F \<lparr>xmin = fsub F center_x (fmul F width (fhalf F)), ymin = fsub F center_y (fmul F height (fhalf F)),
          xmax = fadd F center_x (fmul F width (fhalf F)), ymax = fadd F center_y (fmul F height (fhalf F)), bsize = 0\<rparr>)"

definition decode_prior :: "'f :: {linorder, zero} fops \<Rightarrow> Decode_CodeType \<Rightarrow> bool \<Rightarrow> nat \<Rightarrow> 'f list \<Rightarrow> ('f \<times> 'f \<times> 'f \<times> 'f) list \<Rightarrow> bool list \<Rightarrow> nat \<Rightarrow> nat \<Rightarrow>
    'f bbox_l option res" where
  "decode_prior F ct variance_encoded num_priors prior_data bboxes decode_index pos k =
    bind_res (elem decode_index (pos + k)) (\<lambda>kept.
    if \<not> kept then Inr None else
    assert_res (ct = CENTER_SIZE)
   (bind_res (quad prior_data (k * 4)) (\<lambda>p0. case p0 of (x0, y0, x1, y1) \<Rightarrow>
    assert_res (fsub F x1 x0 > 0) (assert_res (fsub F y1 y0 > 0)
   (bind_res (if variance_encoded then Inr (0, 0, 0, 0) else quad prior_data (k * 4 + 4 * num_priors)) (\<lambda>p1.
    bind_res (elem bboxes k) (\<lambda>q. Inr (Some (decode_box F variance_encoded p0 p1 q)))))))))"

definition decode_class :: "'f :: {linorder, zero} fops \<Rightarrow> 'f ssd \<Rightarrow> Decode_CodeType \<Rightarrow> bool \<Rightarrow> nat \<Rightarrow> 'f list \<Rightarrow> bool list \<Rightarrow>
    'f label_preds \<Rightarrow> nat \<Rightarrow> nat \<Rightarrow> 'f label_boxes \<Rightarrow> 'f label_boxes res" where
  "decode_class F S ct variance_encoded num_priors prior_data decode_index preds i c decode_bboxes =
    (let label = label_of S c in
     if label = sp_background_label_id S then Inr decode_bboxes else
     case preds label of None \<Rightarrow> Inl NullDeref | Some bboxes \<Rightarrow>
     bind_res (per_image num_priors (decode_prior F ct variance_encoded num_priors prior_data bboxes decode_index (keep_pos S num_priors i c))) (\<lambda>p.
     Inr (decode_bboxes(label \<mapsto> p))))"

definition DecodeBBoxesAll_opt :: "'f :: {linorder, zero} fops \<Rightarrow> 'f ssd \<Rightarrow> Decode_CodeType \<Rightarrow> bool \<Rightarrow> 'f label_preds list \<Rightarrow>
    nat \<Rightarrow> 'f list \<Rightarrow> nat \<Rightarrow> bool list \<Rightarrow> 'f label_boxes list res" where
  "DecodeBBoxesAll_opt F S ct variance_encoded all_loc_preds num_priors prior_data num decode_index =
    assert_res (length all_loc_preds = num)
     (per_image num (\<lambda>i. loop (num_loc_classes S) (decode_class F S ct variance_encoded num_priors prior_data decode_index (all_loc_preds ! i) i) (\<lambda>_. None)))"

section \<open>Suppression\<close>

definition box_at :: "'f bbox_l option list \<Rightarrow> nat \<Rightarrow> 'f bbox_l res" where
  "box_at bboxes idx = bind_res (elem bboxes idx) (\<lambda>b. case b of None \<Rightarrow> Inl Uninitialised | Some b \<Rightarrow> Inr b)"

definition ssd_apart :: "'f :: {linorder, zero} fops \<Rightarrow> 'f \<Rightarrow> 'f bbox_l \<Rightarrow> 'f bbox_l \<Rightarrow> bool" where
  "ssd_apart F threshold b1 b2 =
    (xmin b2 > xmax b1 \<or> xmax b2 < xmin b1 \<or> ymin b2 > ymax b1 \<or> ymax b2 < ymin b1 \<or>
     (let inter_width = fsub F (min (xmax b1) (xmax b2)) (max (xmin b1) (xmin b2)); inter_height = fsub F (min (ymax b1) (ymax b2)) (max (ymin b1) (ymin b2));
          inter_size = fmul F inter_width inter_height; total_size = fadd F (bsize b1) (bsize b2)
      in fmul F inter_size (fadd F threshold (of_int_f F 1)) \<le> fmul F total_size threshold))"

fun ssd_keeps :: "'f :: {linorder, zero} fops \<Rightarrow> 'f bbox_l option list \<Rightarrow> 'f \<Rightarrow> nat \<Rightarrow> ('f \<times> nat) list \<Rightarrow> bool res" where
  "ssd_keeps F bboxes threshold idx [] = Inr True"
| "ssd_keeps F bboxes threshold idx (kept # indices) = bind_res (box_at bboxes idx) (\<lambda>b1. bind_res (box_at bboxes (snd kept)) (\<lambda>b2.
     if ssd_apart F threshold b1 b2 then ssd_keeps F bboxes threshold idx indices else Inr False))"

definition nms_step :: "'f :: {linorder, zero} fops \<Rightarrow> 'f bbox_l option list \<Rightarrow> ('f \<times> nat) list \<Rightarrow> 'f \<Rightarrow> nat \<Rightarrow> ('f \<times> nat) list \<times> 'f \<Rightarrow> (('f \<times> nat) list \<times> 'f) res" where
  "nms_step F bboxes conf_score eta i st = (case st of (indices, adaptive_threshold) \<Rightarrow>
     bind_res (elem conf_score i) (\<lambda>sc. bind_res (ssd_keeps F bboxes adaptive_threshold (snd sc) indices) (\<lambda>keep.
     Inr (if keep then indices @ [sc] else indices,
          if keep \<and> eta < of_int_f F 1 \<and> adaptive_threshold > fhalf F then fmul F adaptive_threshold eta else adaptive_threshold))))"

definition ApplyNMSFast_opt :: "'f :: {linorder, zero} fops \<Rightarrow> 'f bbox_l option list \<Rightarrow> ('f \<times> nat) list \<Rightarrow> 'f \<Rightarrow> 'f \<Rightarrow> int \<Rightarrow> ('f \<times> nat) list res" where
  "ApplyNMSFast_opt F bboxes conf_score nms_threshold eta top_k =
    bind_res (loop (top_length top_k conf_score) (nms_step F bboxes conf_score eta) ([], nms_threshold)) (\<lambda>(indices, _). Inr indices)"

definition detect_class :: "'f :: {linorder, zero} fops \<Rightarrow> 'f ssd \<Rightarrow> 'f \<Rightarrow> 'f label_boxes \<Rightarrow> 'f score_map \<Rightarrow> nat \<Rightarrow> 'f score_map \<times> nat \<Rightarrow> ('f score_map \<times> nat) res" where
  "detect_class F S eta decode_bboxes conf_scores c st = (case st of (indices, num_det) \<Rightarrow>
     if int c = sp_background_label_id S then Inr st else
     case conf_scores c of None \<Rightarrow> Inr st | Some aa \<Rightarrow>
     case decode_bboxes (label_of S c) of None \<Rightarrow> Inr st | Some bboxes \<Rightarrow>
     bind_res (ApplyNMSFast_opt F bboxes aa (sp_nms_threshold S) eta (sp_top_k S)) (\<lambda>r. Inr (indices(c \<mapsto> r), num_det + length r)))"

text \<open>The map runs over its labels in ascending order; they are below the number of classes.\<close>

definition score_index_pairs :: "nat \<Rightarrow> 'f score_map \<Rightarrow> ('f \<times> nat \<times> nat) list" where
  "score_index_pairs n indices = concat (map (\<lambda>c. case indices c of None \<Rightarrow> [] | Some l \<Rightarrow> map (\<lambda>(s, idx). (s, c, idx)) l) [0..<n])"

definition regroup :: "('f \<times> nat \<times> nat) list \<Rightarrow> 'f score_map" where
  "regroup ps = foldl (\<lambda>m (s, c, idx). push m c (s, idx)) (\<lambda>_. None) ps"

definition detect_image :: "'f sorts \<Rightarrow> 'f :: {linorder, zero} fops \<Rightarrow> 'f ssd \<Rightarrow> 'f \<Rightarrow> 'f label_boxes \<Rightarrow> 'f score_map \<Rightarrow> ('f score_map \<times> int) res" where
  "detect_image Q F S eta decode_bboxes conf_scores =
    bind_res (loop (sp_num_classes S) (detect_class F S eta decode_bboxes conf_scores) (\<lambda>_. None, 0)) (\<lambda>(indices, num_det).
    Inr (if sp_keep_topk S > -1 \<and> int num_det > sp_keep_topk S
         then (regroup (take (nat (sp_keep_topk S)) (sort_pairs Q (score_index_pairs (sp_num_classes S) indices))), sp_keep_topk S)
         else (indices, int num_det)))"

section \<open>Output\<close>

definition write_row :: "nat \<Rightarrow> 'f list \<Rightarrow> 'f list \<Rightarrow> 'f list res" where
  "write_row cnt row = loop (length row) (\<lambda>d out. put_elem (cnt * 7 + d) (row ! d) out)"

definition box_row :: "'f fops \<Rightarrow> nat \<Rightarrow> nat \<Rightarrow> 'f \<Rightarrow> 'f bbox_l \<Rightarrow> 'f list" where
  "box_row F i label s b = [of_int_f F (int i), of_int_f F (int label), s, xmin b, ymin b, xmax b, ymax b]"

definition write_class :: "'f fops \<Rightarrow> 'f ssd \<Rightarrow> 'f label_boxes \<Rightarrow> 'f score_map \<Rightarrow> nat \<Rightarrow> nat \<Rightarrow> nat \<times> 'f list \<Rightarrow> (nat \<times> 'f list) res" where
  "write_class F S decode_bboxes indices i label st =
    (case indices label of None \<Rightarrow> Inr st | Some l \<Rightarrow>
     case decode_bboxes (label_of S label) of None \<Rightarrow> Inr st | Some bboxes \<Rightarrow>
     loop (length l) (\<lambda>j (cnt, out). bind_res (box_at bboxes (snd (l ! j))) (\<lambda>b.
       bind_res (write_row cnt (box_row F i label (fst (l ! j)) b) out) (\<lambda>out'. Inr (cnt + 1, out')))) st)"

definition SSDDetectionFunc_run :: "'f sorts \<Rightarrow> 'f :: {linorder, zero} fops \<Rightarrow> 'f ssd \<Rightarrow> 'f tensor list \<Rightarrow> 'f tensor \<Rightarrow> 'f tensor res" where
  "SSDDetectionFunc_run Q F S bottoms top0 =
    assert_res (length bottoms = 3)
   (let eta = of_int_f F 1; variance_encoded_in_target = False; loc = bottoms ! 0; conf = bottoms ! 1; prior = bottoms ! 2 in
    bind_res (code_type_of (sp_code_type S)) (\<lambda>ct.
    bind_res (dim loc 0) (\<lambda>num. bind_res (dim prior 2) (\<lambda>pw. let num_priors = pw div 4 in
    bind_res (GetConfidenceScores_opt (t_data conf) num num_priors (sp_num_classes S) (sp_obj_threshold S)) (\<lambda>scores0.
    bind_res (per_image num (\<lambda>i. sort_scores Q (sp_top_k S) (sp_num_classes S) (scores0 ! i))) (\<lambda>all_conf_scores.
    bind_res (decode_keep S num num_priors all_conf_scores) (\<lambda>decode_keep_index.
    bind_res (GetLocPredictions_opt S (t_data loc) num num_priors decode_keep_index) (\<lambda>all_loc_preds.
    bind_res (DecodeBBoxesAll_opt F S ct variance_encoded_in_target all_loc_preds num_priors (t_data prior) num decode_keep_index) (\<lambda>all_decode_bboxes.
    bind_res (per_image num (\<lambda>i. detect_image Q F S eta (all_decode_bboxes ! i) (all_conf_scores ! i))) (\<lambda>all_indices.
    let num_kept = sum_list (map snd all_indices); cleared = replicate (length (t_data top0)) 0 in
    with_data top0
     (bind_res (loop (nat (int num * sp_keep_topk S * 7)) (\<lambda>k. put_elem k (of_int_f F (-1))) cleared) (\<lambda>blank.
      if num_kept = 0 then loop num (\<lambda>i. put_elem (i * 7) (of_int_f F (int i))) blank
      else bind_res (loop num (\<lambda>i. loop (sp_num_classes S) (write_class F S (all_decode_bboxes ! i) (fst (all_indices ! i)) i)) (0, blank)) (\<lambda>(_, out). Inr out)))))))))))))"

end
