(* ===== verification/SsdSpec.thy ===== *)
theory SsdSpec
  imports SsdDetect CpuLayers Suppress
begin

text \<open>
  The SSD layer computes what a plain description of it says: all boxes decoded, the classes selected
  one after the other, the best of an image kept.  In particular it never uses a box it did not decode.
\<close>

section \<open>Loops\<close>

lemma loop_from_inv:
  assumes "I k s" "\<And>i s. k \<le> i \<Longrightarrow> i < k + n \<Longrightarrow> I i s \<Longrightarrow> \<exists>s'. f i s = Inr s' \<and> I (Suc i) s'"
  shows "\<exists>s'. loop_from k n f s = Inr s' \<and> I (k + n) s'"
  using assms
proof (induction n arbitrary: k s)
  case (Suc n)
  obtain s' where "f k s = Inr s'" "I (Suc k) s'" using Suc.prems(2)[of k s] Suc.prems(1) by auto
  moreover have "\<exists>s''. loop_from (Suc k) n f s' = Inr s'' \<and> I (Suc k + n) s''"
    using Suc.IH[of "Suc k" s'] Suc.prems(2) calculation(2) by simp
  ultimately show ?case by (auto simp: bind_res_def)
qed simp

lemmas loop_inv = loop_from_inv[where k = 0, simplified]

lemma per_image_ok:
  assumes "\<And>i. i < n \<Longrightarrow> \<exists>x. f i = Inr x \<and> Q i x"
  shows "\<exists>xs. per_image n f = Inr xs \<and> length xs = n \<and> (\<forall>i<n. Q i (xs ! i))"
proof -
  have "\<exists>xs. loop n (\<lambda>i acc. bind_res (f i) (\<lambda>x. Inr (acc @ [x]))) [] = Inr xs \<and> (length xs = n \<and> (\<forall>i<n. Q i (xs ! i)))"
  proof (rule loop_inv)
    fix i acc assume "i < n" "length acc = i \<and> (\<forall>j<i. Q j (acc ! j))"
    then show "\<exists>s'. bind_res (f i) (\<lambda>x. Inr (acc @ [x])) = Inr s' \<and> length s' = Suc i \<and> (\<forall>j<Suc i. Q j (s' ! j))"
      using assms[of i] by (auto simp: bind_res_def nth_append less_Suc_eq)
  qed simp
  then show ?thesis by (simp add: per_image_def)
qed

section \<open>Suppression\<close>

text \<open>The selection of the boxes of a class, on boxes that are all there.\<close>

fun ssd_select :: "'f :: {linorder, zero} fops \<Rightarrow> 'f \<Rightarrow> (nat \<Rightarrow> 'f bbox_l) \<Rightarrow> ('f \<times> nat) list \<Rightarrow> ('f \<times> nat) list \<Rightarrow> ('f \<times> nat) list" where
  "ssd_select F threshold B kept [] = kept"
| "ssd_select F threshold B kept (sc # scs) =
    ssd_select F threshold B (if \<forall>k\<in>set kept. ssd_apart F threshold (B (snd sc)) (B (snd k)) then kept @ [sc] else kept) scs"

lemma ssd_keeps_run:
  assumes "box_at bboxes idx = Inr (B idx)" "\<forall>k\<in>set kept. box_at bboxes (snd k) = Inr (B (snd k))"
  shows "ssd_keeps F bboxes t idx kept = Inr (\<forall>k\<in>set kept. ssd_apart F t (B idx) (B (snd k)))"
  using assms(2) by (induction kept) (simp_all add: assms(1) bind_res_def)

lemma ssd_select_subseq: "\<exists>r. ssd_select F t B kept scs = kept @ r \<and> subseq r scs"
proof (induction scs arbitrary: kept)
  case (Cons sc scs)
  let ?ok = "\<forall>k\<in>set kept. ssd_apart F t (B (snd sc)) (B (snd k))"
  obtain r where r: "ssd_select F t B (if ?ok then kept @ [sc] else kept) scs = (if ?ok then kept @ [sc] else kept) @ r" "subseq r scs" using Cons by blast
  show ?case
  proof (cases ?ok)
    case True
    then show ?thesis using r by (intro exI[of _ "sc # r"]) simp
  next
    case False
    then show ?thesis using r by (intro exI[of _ r]) auto
  qed
qed simp

lemma subseq_set: "subseq r xs \<Longrightarrow> x \<in> set r \<Longrightarrow> x \<in> set xs"
  by (metis notin_set_nthsI subseq_conv_nths)

lemma ssd_select_keeps: "set kept \<subseteq> set (ssd_select F t B kept scs)"
  using ssd_select_subseq[of F t B kept scs] by auto

lemma ssd_select_apart:
  assumes "sorted_wrt (\<lambda>a b. ssd_apart F t (B (snd b)) (B (snd a))) kept"
  shows "sorted_wrt (\<lambda>a b. ssd_apart F t (B (snd b)) (B (snd a))) (ssd_select F t B kept scs)"
  using assms by (induction scs arbitrary: kept) (simp_all add: sorted_wrt_append)

lemma ssd_select_dropped:
  "\<forall>sc\<in>set scs. sc \<in> set (ssd_select F t B kept scs) \<or> (\<exists>k\<in>set (ssd_select F t B kept scs). \<not> ssd_apart F t (B (snd sc)) (B (snd k)))"
proof (induction scs arbitrary: kept)
  case (Cons sc scs)
  let ?ok = "\<forall>k\<in>set kept. ssd_apart F t (B (snd sc)) (B (snd k))"
  let ?kept = "if ?ok then kept @ [sc] else kept"
  have sub: "set ?kept \<subseteq> set (ssd_select F t B ?kept scs)" by (rule ssd_select_keeps)
  have "sc \<in> set (ssd_select F t B ?kept scs) \<or> (\<exists>k\<in>set (ssd_select F t B ?kept scs). \<not> ssd_apart F t (B (snd sc)) (B (snd k)))"
    using sub by (cases ?ok) auto
  then show ?case using Cons[of ?kept] by simp
qed simp

lemma ApplyNMSFast_select:
  assumes "\<forall>sc\<in>set (take (nat k) conf). box_at bboxes (snd sc) = Inr (B (snd sc))" "0 \<le> k"
  shows "ApplyNMSFast_opt F bboxes conf t (of_int_f F 1) k = Inr (ssd_select F t B [] (take (nat k) conf))"
proof -
  have tl: "top_length k conf = length (take (nat k) conf)" using assms(2) by (simp add: top_length_def)
  let ?xs = "take (nat k) conf"
  have "\<exists>st. loop (length ?xs) (nms_step F bboxes conf (of_int_f F 1)) ([], t) = Inr st \<and>
      (snd st = t \<and> set (fst st) \<subseteq> set ?xs \<and> ssd_select F t B (fst st) (drop (length ?xs) ?xs) = ssd_select F t B [] ?xs)"
  proof (rule loop_inv)
    fix i st assume i: "i < length ?xs" and I: "snd st = t \<and> set (fst st) \<subseteq> set ?xs \<and> ssd_select F t B (fst st) (drop i ?xs) = ssd_select F t B [] ?xs"
    have sc: "elem conf i = Inr (?xs ! i)" "?xs ! i \<in> set ?xs" using i nth_mem[OF i] by (simp_all add: elem_def)
    have keeps: "ssd_keeps F bboxes t (snd (?xs ! i)) (fst st) = Inr (\<forall>k\<in>set (fst st). ssd_apart F t (B (snd (?xs ! i))) (B (snd k)))"
      using assms(1) sc(2) I by (intro ssd_keeps_run) auto
    have d: "drop i ?xs = ?xs ! i # drop (Suc i) ?xs" using i by (rule Cons_nth_drop_Suc[symmetric])
    show "\<exists>s'. nms_step F bboxes conf (of_int_f F 1) i st = Inr s' \<and>
        (snd s' = t \<and> set (fst s') \<subseteq> set ?xs \<and> ssd_select F t B (fst s') (drop (Suc i) ?xs) = ssd_select F t B [] ?xs)"
      using I keeps sc d by (cases st) (auto simp: nms_step_def bind_res_def)
  qed simp
  then show ?thesis unfolding ApplyNMSFast_opt_def tl by (auto simp: bind_res_def)
qed

section \<open>Scores\<close>

definition opt :: "'a list \<Rightarrow> 'a list option" where
  "opt xs = (if xs = [] then None else Some xs)"

lemma opt_simps [simp]: "opt [] = None" "opt (x # xs) = Some (x # xs)" "opt xs = None \<longleftrightarrow> xs = []" "opt xs = Some ys \<longleftrightarrow> xs = ys \<and> ys \<noteq> []"
  by (auto simp: opt_def)

lemma push_opt: "m c = opt xs \<Longrightarrow> push m c x c = opt (xs @ [x])" "c' \<noteq> c \<Longrightarrow> push m c x c' = m c'"
  by (auto simp: push_def opt_def)

lemma index3: "i < n \<Longrightarrow> p < P \<Longrightarrow> c < C \<Longrightarrow> i * (P * C) + p * C + c < n * (P * (C :: nat))"
proof -
  assume a: "i < n" "p < P" "c < C"
  have "p * C + c < Suc p * C" using a by simp
  also have "\<dots> \<le> P * C" using a by (intro mult_le_mono1) simp
  finally have "i * (P * C) + (p * C + c) < Suc i * (P * C)" by simp
  also have "\<dots> \<le> n * (P * C)" using a by (intro mult_le_mono1) simp
  finally show ?thesis by simp
qed

text \<open>The candidates of class \<open>c\<close> in image \<open>i\<close> among the first \<open>n\<close> priors.\<close>

definition cands :: "'f :: linorder ssd \<Rightarrow> 'f list \<Rightarrow> nat \<Rightarrow> nat \<Rightarrow> nat \<Rightarrow> nat \<Rightarrow> ('f \<times> nat) list" where
  "cands S conf P i c n = filter (\<lambda>(s, p). sp_obj_threshold S < s) (map (\<lambda>p. (conf ! (i * (P * sp_num_classes S) + p * sp_num_classes S + c), p)) [0..<n])"

lemma cands_0 [simp]: "cands S conf P i c 0 = []"
  by (simp add: cands_def)

lemma cands_Suc: "cands S conf P i c (Suc n) = cands S conf P i c n @
    (let s = conf ! (i * (P * sp_num_classes S) + n * sp_num_classes S + c) in if sp_obj_threshold S < s then [(s, n)] else [])"
  by (simp add: cands_def Let_def)

lemma cands_bound: "(s, p) \<in> set (cands S conf P i c n) \<Longrightarrow> p < n"
  by (auto simp: cands_def)

lemma confidence_scores:
  assumes "num * (P * sp_num_classes S) \<le> length conf"
  shows "\<exists>ms. GetConfidenceScores_opt conf num P (sp_num_classes S) (sp_obj_threshold S) = Inr ms \<and> length ms = num \<and>
    (\<forall>i<num. \<forall>c. (ms ! i) c = (if c < sp_num_classes S then opt (cands S conf P i c P) else None))"
  unfolding GetConfidenceScores_opt_def
proof (rule per_image_ok)
  fix i assume i: "i < num"
  let ?C = "sp_num_classes S" and ?at = "\<lambda>p c. i * (P * sp_num_classes S) + p * sp_num_classes S + c"
  let ?step = "\<lambda>p c label_scores. bind_res (elem conf (?at p c)) (\<lambda>s. Inr (if s > sp_obj_threshold S then push label_scores c (s, p) else label_scores))"
  show "\<exists>m. loop P (\<lambda>p. loop ?C (?step p)) (\<lambda>_. None) = Inr m \<and> (\<forall>c. m c = (if c < ?C then opt (cands S conf P i c P) else None))"
  proof (rule loop_inv[where I = "\<lambda>p m. \<forall>c. m c = (if c < ?C then opt (cands S conf P i c p) else None)"])
    fix p m assume p: "p < P" and I: "\<forall>c. m c = (if c < ?C then opt (cands S conf P i c p) else None)"
    have "\<exists>m'. loop ?C (?step p) m = Inr m' \<and> (\<forall>c. m' c = (if c < ?C then opt (cands S conf P i c (if c < ?C then Suc p else p)) else None))"
    proof (rule loop_inv[where I = "\<lambda>k m. \<forall>c. m c = (if c < ?C then opt (cands S conf P i c (if c < k then Suc p else p)) else None)"])
      fix k m assume k: "k < ?C" and J: "\<forall>c. m c = (if c < ?C then opt (cands S conf P i c (if c < k then Suc p else p)) else None)"
      have "?at p k < length conf" using index3[OF i p k] assms by linarith
      moreover have "push m k (conf ! ?at p k, p) c = (if c = k then opt (cands S conf P i k p @ [(conf ! ?at p k, p)]) else m c)" for c
        using push_opt(1)[of m k "cands S conf P i k p"] push_opt(2)[of c k m] J k by simp
      ultimately show "\<exists>m'. ?step p k m = Inr m' \<and> (\<forall>c. m' c = (if c < ?C then opt (cands S conf P i c (if c < Suc k then Suc p else p)) else None))"
        using J k by (auto simp: bind_res_def elem_def cands_Suc Let_def less_Suc_eq)
    qed (simp add: I)
    then show "\<exists>m'. loop ?C (?step p) m = Inr m' \<and> (\<forall>c. m' c = (if c < ?C then opt (cands S conf P i c (Suc p)) else None))" by auto
  qed simp
qed

text \<open>The \<open>k\<close> best of some scores, in descending order.\<close>

definition best_of :: "nat \<Rightarrow> ('f :: linorder \<times> 'a) list \<Rightarrow> ('f \<times> 'a) list \<Rightarrow> bool" where
  "best_of k xs ys = (length ys = min k (length xs) \<and> sorted_wrt (\<lambda>a b. fst b \<le> fst a) ys \<and>
     (\<exists>rest. mset ys + mset rest = mset xs \<and> (\<forall>a\<in>set ys. \<forall>b\<in>set rest. fst b \<le> fst a)))"

lemma ranked_mset: "ranks k (map fst xs) ps \<Longrightarrow> mset (map ((!) xs) ps) = mset xs"
proof -
  assume "ranks k (map fst xs) ps"
  then have "mset (map ((!) xs) ps) = image_mset ((!) xs) (mset [0..<length xs])" by (simp add: ranks_def)
  also have "\<dots> = mset (map ((!) xs) [0..<length xs])" by (simp only: mset_map)
  finally show ?thesis by (simp only: map_nth)
qed

lemma ranked_best:
  assumes "ranks k (map fst xs) ps" "k \<le> length xs"
  shows "best_of k xs (take k (map ((!) xs) ps))"
proof -
  let ?ys = "map ((!) xs) ps"
  have len: "length ps = length xs" using assms(1) by (metis ranks_def length_map length_upt minus_nat.diff_0 size_mset)
  have "ps ! b < length xs" if "b < length ps" for b
  proof -
    have "set ps = {0..<length xs}" using assms(1) by (metis ranks_def length_map set_mset_mset set_upt)
    then show ?thesis using nth_mem[OF that] by auto
  qed
  then have le: "fst (?ys ! b) \<le> fst (?ys ! a)" if "a < k" "a < b" "b < length xs" for a b
    using assms(1) that len by (simp add: ranks_def)
  have "sorted_wrt (\<lambda>a b. fst b \<le> fst a) (take k ?ys)" using le len assms(2) by (auto simp: sorted_wrt_iff_nth_less)
  moreover have "fst b \<le> fst a" if "a \<in> set (take k ?ys)" "b \<in> set (drop k ?ys)" for a b
    using that le len by (auto simp: in_set_conv_nth)
  moreover have "mset (take k ?ys) + mset (drop k ?ys) = mset xs" using ranked_mset[OF assms(1)] by (metis append_take_drop_id mset_append)
  ultimately show ?thesis using len assms(2) unfolding best_of_def by (auto intro!: exI[of _ "drop k ?ys"])
qed

lemma best_of_min:
  assumes "length ys = length xs" "best_of (min k (length xs)) xs (take (min k (length xs)) ys)"
  shows "best_of k xs (take k ys)"
  using assms by (cases "k \<le> length xs") (simp_all add: min_def best_of_def)

lemma sort_class_ranks:
  assumes "sorts_ok Q" "0 \<le> k"
  shows "ranks (min (nat k) (length xs)) (map fst xs) (if k < int (length xs) then std_partial_sort0 Q (nat k) (map fst xs) else std_sort0 Q (map fst xs))"
proof -
  have full: "ranks (length ss) ss (std_sort0 Q ss)" and part: "j \<le> length ss \<Longrightarrow> ranks j ss (std_partial_sort0 Q j ss)" for ss j
    using assms(1) unfolding sorts_ok_def by blast+
  show ?thesis
  proof (cases "k < int (length xs)")
    case True
    then have "nat k \<le> length (map fst xs)" using assms(2) by simp
    from part[OF this] show ?thesis using True assms(2) by (simp add: min_absorb1)
  next
    case False
    then have "min (nat k) (length xs) = length xs" by simp
    then show ?thesis using full[of "map fst xs"] False by simp
  qed
qed

lemma sort_class_mset: "sorts_ok Q \<Longrightarrow> 0 \<le> k \<Longrightarrow> mset (sort_class Q k xs) = mset xs"
  unfolding sort_class_def by (rule ranked_mset[OF sort_class_ranks])

lemma sort_class_best:
  assumes "sorts_ok Q" "0 \<le> k"
  shows "best_of (nat k) xs (take (nat k) (sort_class Q k xs))"
proof (rule best_of_min)
  show "length (sort_class Q k xs) = length xs" using arg_cong[OF sort_class_mset[OF assms], of size] by simp
  show "best_of (min (nat k) (length xs)) xs (take (min (nat k) (length xs)) (sort_class Q k xs))"
    unfolding sort_class_def using sort_class_ranks[OF assms] by (rule ranked_best) simp
qed

lemma sort_pairs_ranks: "sorts_ok Q \<Longrightarrow> ranks (length xs) (map fst xs) (std_sort1 Q (map fst xs))"
  unfolding sorts_ok_def by (metis length_map)

lemma sort_pairs_mset: "sorts_ok Q \<Longrightarrow> mset (sort_pairs Q xs) = mset xs"
  unfolding sort_pairs_def by (rule ranked_mset[OF sort_pairs_ranks])

lemma sort_pairs_best:
  assumes "sorts_ok Q"
  shows "best_of k xs (take k (sort_pairs Q xs))"
proof (rule best_of_min)
  show "length (sort_pairs Q xs) = length xs" using arg_cong[OF sort_pairs_mset[OF assms], of size] by simp
  have "ranks (min k (length xs)) (map fst xs) (std_sort1 Q (map fst xs))" using sort_pairs_ranks[OF assms, of xs] by (auto simp: ranks_def)
  then show "best_of (min k (length xs)) xs (take (min k (length xs)) (sort_pairs Q xs))" unfolding sort_pairs_def by (rule ranked_best) simp
qed

lemma sort_class_set [simp]:
  assumes "sorts_ok Q" "0 \<le> k"
  shows "set (sort_class Q k xs) = set xs" "length (sort_class Q k xs) = length xs" "sort_class Q k xs = [] \<longleftrightarrow> xs = []"
  using sort_class_mset[OF assms, of xs] by (metis set_mset_mset, metis size_mset, metis mset_zero_iff)

lemma sort_class_Nil [simp]: "sorts_ok Q \<Longrightarrow> 0 \<le> k \<Longrightarrow> sort_class Q k [] = []"
  by simp

lemma sort_pairs_set [simp]:
  assumes "sorts_ok Q"
  shows "set (sort_pairs Q xs) = set xs" "length (sort_pairs Q xs) = length xs"
  using sort_pairs_mset[OF assms, of xs] by (metis set_mset_mset, metis size_mset)

lemma sort_scores_run:
  assumes "sorts_ok Q" "0 \<le> k" "\<forall>c. m c = (if c < C then opt (f c) else None)"
  shows "\<exists>m'. sort_scores Q k C m = Inr m' \<and> (\<forall>c. m' c = (if c < C then opt (sort_class Q k (f c)) else None))"
proof -
  have "\<exists>m'. sort_scores Q k C m = Inr m' \<and> (\<forall>c. m' c = (if c < C then opt (if c < C then sort_class Q k (f c) else f c) else None))"
    unfolding sort_scores_def
  proof (rule loop_inv[where I = "\<lambda>i m. \<forall>c. m c = (if c < C then opt (if c < i then sort_class Q k (f c) else f c) else None)"])
    fix i m assume "i < C" "\<forall>c. m c = (if c < C then opt (if c < i then sort_class Q k (f c) else f c) else None)"
    then show "\<exists>m'. (case m i of None \<Rightarrow> Inr m | Some scores \<Rightarrow> if k < 0 then Inl OutOfRange else Inr (m(i \<mapsto> sort_class Q k scores))) = Inr m' \<and>
        (\<forall>c. m' c = (if c < C then opt (if c < Suc i then sort_class Q k (f c) else f c) else None))"
      using assms(1,2) by (auto simp: less_Suc_eq opt_def split: option.splits)
  qed (simp add: assms(3))
  then show ?thesis by auto
qed

section \<open>Marked boxes\<close>

abbreviation keep_size :: "'f ssd \<Rightarrow> nat \<Rightarrow> nat \<Rightarrow> nat" where
  "keep_size S num P \<equiv> (if sp_share_location S then num * P else num * P * sp_num_classes S)"

lemma keep_pos_bound:
  assumes "i < num" "sp_share_location S \<or> c < sp_num_classes S" "p < P"
  shows "keep_pos S P i c + p < keep_size S num P"
proof (cases "sp_share_location S")
  case True
  then show ?thesis using index3[OF assms(1) assms(3), of 0 1] by (simp add: keep_pos_def mult.commute)
next
  case False
  have "i * (sp_num_classes S * P) + c * P + p < num * (sp_num_classes S * P)" using index3[of i num c "sp_num_classes S" p P] assms False by simp
  then show ?thesis using False by (simp add: keep_pos_def mult_ac)
qed

definition marked :: "'f ssd \<Rightarrow> nat \<Rightarrow> bool list \<Rightarrow> nat \<Rightarrow> nat \<Rightarrow> ('f \<times> nat) list \<Rightarrow> bool" where
  "marked S P keep i c xs = (\<forall>(s, p)\<in>set xs. keep ! (keep_pos S P i c + p))"

definition grows :: "bool list \<Rightarrow> bool list \<Rightarrow> bool" where
  "grows keep keep' = (length keep' = length keep \<and> (\<forall>k<length keep. keep ! k \<longrightarrow> keep' ! k))"

lemma mark_class_run:
  assumes "0 \<le> sp_top_k S" "\<forall>(s, p)\<in>set xs. keep_pos S P i c + p < length keep"
  shows "\<exists>keep'. mark_class S P i c xs keep = Inr keep' \<and> (grows keep keep' \<and> marked S P keep' i c (take (nat (sp_top_k S)) xs))"
proof -
  have tl: "top_length (sp_top_k S) xs = length (take (nat (sp_top_k S)) xs)" using assms(1) by (simp add: top_length_def)
  let ?n = "length (take (nat (sp_top_k S)) xs)"
  have "\<exists>keep'. loop ?n (\<lambda>k keep. bind_res (elem xs k) (\<lambda>(s, idx). put_elem (keep_pos S P i c + idx) True keep)) keep = Inr keep' \<and>
      (grows keep keep' \<and> marked S P keep' i c (take ?n xs))"
  proof (rule loop_inv[where I = "\<lambda>k kp. grows keep kp \<and> marked S P kp i c (take k xs)"])
    fix k kp assume k: "k < ?n" and I: "grows keep kp \<and> marked S P kp i c (take k xs)"
    obtain s p where sp: "xs ! k = (s, p)" by force
    then have "(s, p) \<in> set xs" using k nth_mem[of k xs] by simp
    then have b: "keep_pos S P i c + p < length keep" using assms(2) by auto
    have t: "set (take (Suc k) xs) = insert (s, p) (set (take k xs))" using k sp by (simp add: take_Suc_conv_app_nth)
    show "\<exists>kp'. bind_res (elem xs k) (\<lambda>(s, idx). put_elem (keep_pos S P i c + idx) True kp) = Inr kp' \<and> (grows keep kp' \<and> marked S P kp' i c (take (Suc k) xs))"
      using k sp I b by (auto simp: bind_res_def elem_def put_elem_def grows_def marked_def t nth_list_update)
  qed (simp add: grows_def marked_def)
  moreover have "take ?n xs = take (nat (sp_top_k S)) xs" by (simp add: min_def)
  ultimately show ?thesis unfolding mark_class_def tl by simp
qed

lemma marked_grows:
  assumes "marked S P keep i c xs" "grows keep keep'" "\<forall>(s, p)\<in>set xs. keep_pos S P i c + p < length keep"
  shows "marked S P keep' i c xs"
  using assms by (fastforce simp: marked_def grows_def)

lemma decode_keep_marks:
  assumes "0 \<le> sp_top_k S" "length ms = num" "\<forall>i<num. \<forall>c. (ms ! i) c = (if c < sp_num_classes S then opt (xs i c) else None)"
    and "\<And>i c s p. (s, p) \<in> set (xs i c) \<Longrightarrow> p < P"
  shows "\<exists>keep. decode_keep S num P ms = Inr keep \<and> length keep = keep_size S num P \<and>
    (\<forall>i<num. \<forall>c< sp_num_classes S. int c \<noteq> sp_background_label_id S \<longrightarrow> marked S P keep i c (take (nat (sp_top_k S)) (xs i c)))"
proof -
  let ?C = "sp_num_classes S"
  let ?M = "\<lambda>keep i c. int c \<noteq> sp_background_label_id S \<longrightarrow> marked S P keep i c (take (nat (sp_top_k S)) (xs i c))"
  let ?step = "\<lambda>i c keep. if int c = sp_background_label_id S then Inr keep
    else bind_res (elem ms i) (\<lambda>m. case m c of None \<Rightarrow> Inr keep | Some scores \<Rightarrow> mark_class S P i c scores keep)"
  have inb: "keep_pos S P i c + p < keep_size S num P" if "i < num" "c < ?C" "(s, p) \<in> set (xs i c)" for i c s p
    using keep_pos_bound[of i num S c p P] that(1,2) assms(4)[OF that(3)] by simp
  have mono: "?M keep' i c" if "?M keep i c" "grows keep keep'" "length keep = keep_size S num P" "i < num" "c < ?C" for keep keep' i c
    using that marked_grows[of S P keep i c "take (nat (sp_top_k S)) (xs i c)" keep'] inb[OF that(4,5)] by (auto dest!: in_set_takeD)
  have step: "\<exists>keep'. ?step i c keep = Inr keep' \<and> grows keep keep' \<and> ?M keep' i c" if "i < num" "c < ?C" "length keep = keep_size S num P" for i c keep
  proof (cases "int c = sp_background_label_id S \<or> xs i c = []")
    case True
    then show ?thesis using that assms(2,3) by (auto simp: bind_res_def elem_def grows_def marked_def)
  next
    case False
    then have "?step i c keep = mark_class S P i c (xs i c) keep" using that assms(2,3) by (simp add: bind_res_def elem_def opt_def)
    moreover have "\<forall>(s, p)\<in>set (xs i c). keep_pos S P i c + p < length keep" using inb[OF that(1,2)] that(3) by auto
    ultimately show ?thesis using mark_class_run[OF assms(1), of "xs i c" P i c keep] by auto
  qed
  have "\<exists>keep. loop num (\<lambda>i. loop ?C (?step i)) (replicate (keep_size S num P) False) = Inr keep \<and>
      (length keep = keep_size S num P \<and> (\<forall>i<num. \<forall>c<?C. ?M keep i c))"
  proof (rule loop_inv[where I = "\<lambda>i keep. length keep = keep_size S num P \<and> (\<forall>j<i. \<forall>c<?C. ?M keep j c)"])
    fix i keep assume i: "i < num" and I: "length keep = keep_size S num P \<and> (\<forall>j<i. \<forall>c<?C. ?M keep j c)"
    have "\<exists>keep'. loop ?C (?step i) keep = Inr keep' \<and> (length keep' = keep_size S num P \<and> (\<forall>j<i. \<forall>c<?C. ?M keep' j c) \<and> (\<forall>c<?C. ?M keep' i c))"
    proof (rule loop_inv[where I = "\<lambda>k keep. length keep = keep_size S num P \<and> (\<forall>j<i. \<forall>c<?C. ?M keep j c) \<and> (\<forall>c<k. ?M keep i c)"])
      fix k kp assume k: "k < ?C" and J: "length kp = keep_size S num P \<and> (\<forall>j<i. \<forall>c<?C. ?M kp j c) \<and> (\<forall>c<k. ?M kp i c)"
      obtain kp' where kp: "?step i k kp = Inr kp'" "grows kp kp'" "?M kp' i k" using step[OF i k] J by blast
      have "length kp' = keep_size S num P" using kp(2) J by (simp add: grows_def)
      moreover have "\<forall>j<i. \<forall>c<?C. ?M kp' j c" using mono[OF _ kp(2)] J i by auto
      moreover have "\<forall>c<Suc k. ?M kp' i c" using mono[OF _ kp(2) _ i] J k kp(3) by (auto simp: less_Suc_eq)
      ultimately show "\<exists>kp'. ?step i k kp = Inr kp' \<and> (length kp' = keep_size S num P \<and> (\<forall>j<i. \<forall>c<?C. ?M kp' j c) \<and> (\<forall>c<Suc k. ?M kp' i c))"
        using kp(1) by blast
    qed (simp add: I)
    then show "\<exists>keep'. loop ?C (?step i) keep = Inr keep' \<and> (length keep' = keep_size S num P \<and> (\<forall>j<Suc i. \<forall>c<?C. ?M keep' j c))"
      by (auto simp: less_Suc_eq)
  qed simp
  then show ?thesis by (auto simp: decode_keep_def)
qed

section \<open>Boxes\<close>

definition quad_at :: "'a list \<Rightarrow> nat \<Rightarrow> 'a \<times> 'a \<times> 'a \<times> 'a" where
  "quad_at xs j = (xs ! j, xs ! (j + 1), xs ! (j + 2), xs ! (j + 3))"

lemma quad_run: "j + 3 < length xs \<Longrightarrow> quad xs j = Inr (quad_at xs j)"
  by (simp add: quad_def quad_at_def bind_res_def elem_def)

definition loc_at :: "'f ssd \<Rightarrow> nat \<Rightarrow> nat \<Rightarrow> nat \<Rightarrow> nat \<Rightarrow> nat" where
  "loc_at S P i c p = i * (P * num_loc_classes S * 4) + p * num_loc_classes S * 4 + c * 4"

lemma loc_at_bound: "i < num \<Longrightarrow> p < P \<Longrightarrow> c < num_loc_classes S \<Longrightarrow> loc_at S P i c p + 3 < num * (P * num_loc_classes S) * 4"
  using index3[of i num p P c "num_loc_classes S"] unfolding loc_at_def by (simp add: algebra_simps)

lemma loc_class: "c < num_loc_classes S \<Longrightarrow> sp_share_location S \<or> c < sp_num_classes S"
  by (simp add: num_loc_classes_def split: if_splits)

lemma label_inj: "c < num_loc_classes S \<Longrightarrow> c' < num_loc_classes S \<Longrightarrow> label_of S c = label_of S c' \<longleftrightarrow> c = c'"
  by (auto simp: label_of_def num_loc_classes_def split: if_splits)

lemma loc_predictions:
  assumes "length keep = keep_size S num P" "num * (P * num_loc_classes S) * 4 \<le> length loc" "0 < P"
  shows "\<exists>ps. GetLocPredictions_opt S loc num P keep = Inr ps \<and> length ps = num \<and> (\<forall>i<num. \<forall>c<num_loc_classes S. \<exists>v. (ps ! i) (label_of S c) = Some v \<and>
    length v = P \<and> (\<forall>p<P. keep ! (keep_pos S P i c + p) \<longrightarrow> v ! p = quad_at loc (loc_at S P i c p)))"
  unfolding GetLocPredictions_opt_def
proof (rule per_image_ok)
  fix i assume i: "i < num"
  let ?N = "num_loc_classes S"
  define L where "L = (\<lambda>m c n. (0 < n \<longrightarrow> m (label_of S c) \<noteq> None) \<and> (\<forall>v. m (label_of S c) = Some v \<longrightarrow>
    length v = P \<and> (\<forall>p<n. keep ! (keep_pos S P i c + p) \<longrightarrow> v ! p = quad_at loc (loc_at S P i c p))))"
  have step: "\<exists>m'. loc_step S P loc keep i p c m = Inr m' \<and> L m' c (Suc p) \<and> (\<forall>l. l \<noteq> label_of S c \<longrightarrow> m' l = m l)"
    if "p < P" "c < ?N" "L m c p" for p c m
  proof -
    have "keep_pos S P i c + p < length keep" using keep_pos_bound[OF i loc_class[OF that(2)] that(1)] assms(1) by simp
    moreover have "quad loc (loc_at S P i c p) = Inr (quad_at loc (loc_at S P i c p))"
      using loc_at_bound[OF i that(1,2)] assms(2) by (intro quad_run) linarith
    moreover have "length (case m (label_of S c) of None \<Rightarrow> replicate P (0, 0, 0, 0) | Some bs \<Rightarrow> bs) = P" using that(3) by (auto simp: L_def split: option.splits)
    ultimately show ?thesis using that
      by (auto simp: loc_step_def Let_def bind_res_def elem_def L_def loc_at_def[symmetric] nth_list_update less_Suc_eq split: option.splits)
  qed
  have "\<exists>m. loop P (\<lambda>p. loop ?N (loc_step S P loc keep i p)) (\<lambda>_. None) = Inr m \<and> (\<forall>c<?N. L m c P)"
  proof (rule loop_inv[where I = "\<lambda>p m. \<forall>c<?N. L m c p"])
    fix p m assume p: "p < P" and I: "\<forall>c<?N. L m c p"
    have "\<exists>m'. loop ?N (loc_step S P loc keep i p) m = Inr m' \<and> (\<forall>c<?N. L m' c (if c < ?N then Suc p else p))"
    proof (rule loop_inv[where I = "\<lambda>k m. \<forall>c<?N. L m c (if c < k then Suc p else p)"])
      fix k m assume k: "k < ?N" and J: "\<forall>c<?N. L m c (if c < k then Suc p else p)"
      obtain m' where m': "loc_step S P loc keep i p k m = Inr m'" "L m' k (Suc p)" "\<forall>l. l \<noteq> label_of S k \<longrightarrow> m' l = m l" using step[OF p k] J k by force
      have "L m' c n" if "c < ?N" "c \<noteq> k" "L m c n" for c n using m'(3) label_inj[OF that(1) k] that(2,3) by (simp add: L_def)
      then show "\<exists>m'. loc_step S P loc keep i p k m = Inr m' \<and> (\<forall>c<?N. L m' c (if c < Suc k then Suc p else p))"
        using m'(1,2) J by (intro exI[of _ m']) (auto simp: less_Suc_eq)
    qed (simp add: I)
    then show "\<exists>m'. loop ?N (loc_step S P loc keep i p) m = Inr m' \<and> (\<forall>c<?N. L m' c (Suc p))" by auto
  qed (simp add: L_def)
  then show "\<exists>m. loop P (\<lambda>p. loop ?N (loc_step S P loc keep i p)) (\<lambda>_. None) = Inr m \<and> (\<forall>c<?N. \<exists>v. m (label_of S c) = Some v \<and>
      length v = P \<and> (\<forall>p<P. keep ! (keep_pos S P i c + p) \<longrightarrow> v ! p = quad_at loc (loc_at S P i c p)))"
    using assms(3) by (fastforce simp: L_def)
qed

text \<open>The box of a prior and a class.\<close>

definition ssd_box :: "'f :: {linorder, zero} fops \<Rightarrow> 'f ssd \<Rightarrow> 'f list \<Rightarrow> 'f list \<Rightarrow> nat \<Rightarrow> nat \<Rightarrow> nat \<Rightarrow> nat \<Rightarrow> 'f bbox_l" where
  "ssd_box F S loc prior P i c k = decode_box F False (quad_at prior (k * 4)) (quad_at prior (k * 4 + 4 * P)) (quad_at loc (loc_at S P i (if sp_share_location S then 0 else c) k))"

lemma decode_boxes:
  assumes "length keep = keep_size S num P" "8 * P \<le> length prior"
    and "\<And>k. k < P \<Longrightarrow> 0 < fsub F (prior ! (k * 4 + 2)) (prior ! (k * 4)) \<and> 0 < fsub F (prior ! (k * 4 + 3)) (prior ! (k * 4 + 1))"
    and "length ps = num" "\<forall>i<num. \<forall>c<num_loc_classes S. \<exists>v. (ps ! i) (label_of S c) = Some v \<and>
      length v = P \<and> (\<forall>p<P. keep ! (keep_pos S P i c + p) \<longrightarrow> v ! p = quad_at loc (loc_at S P i c p))"
  shows "\<exists>ds. DecodeBBoxesAll_opt F S CENTER_SIZE False ps P prior num keep = Inr ds \<and> length ds = num \<and>
    (\<forall>i<num. \<forall>c< sp_num_classes S. if label_of S c = sp_background_label_id S then (ds ! i) (label_of S c) = None
       else \<exists>bs. (ds ! i) (label_of S c) = Some bs \<and> (\<forall>k<P. keep ! (keep_pos S P i c + k) \<longrightarrow> box_at bs k = Inr (ssd_box F S loc prior P i c k)))"
proof -
  let ?N = "num_loc_classes S"
  define D where "D = (\<lambda>m i c. if label_of S c = sp_background_label_id S then m (label_of S c) = None
       else \<exists>bs. m (label_of S c) = Some bs \<and> (\<forall>k<P. keep ! (keep_pos S P i c + k) \<longrightarrow> box_at bs k = Inr (ssd_box F S loc prior P i c k)))"
  have one: "\<exists>b. decode_prior F CENTER_SIZE False P prior v keep (keep_pos S P i c) k = Inr b \<and>
      (keep ! (keep_pos S P i c + k) \<longrightarrow> b = Some (ssd_box F S loc prior P i c k))"
    if "i < num" "c < ?N" "length v = P" "\<forall>p<P. keep ! (keep_pos S P i c + p) \<longrightarrow> v ! p = quad_at loc (loc_at S P i c p)" "k < P" for i c v k
  proof -
    have "keep_pos S P i c + k < length keep" using keep_pos_bound[OF that(1) loc_class[OF that(2)] that(5)] assms(1) by simp
    moreover have "quad prior (k * 4) = Inr (quad_at prior (k * 4))" "quad prior (k * 4 + 4 * P) = Inr (quad_at prior (k * 4 + 4 * P))"
      using that(5) assms(2) by (auto intro!: quad_run)
    moreover have "(if sp_share_location S then 0 else c) = c" using that(2) by (simp add: num_loc_classes_def split: if_splits)
    ultimately show ?thesis using assms(3)[OF that(5)] that(3,4,5)
      by (auto simp: decode_prior_def bind_res_def elem_def assert_res_def ssd_box_def quad_at_def)
  qed
  have cls: "\<exists>m'. decode_class F S CENTER_SIZE False P prior keep (ps ! i) i c m = Inr m' \<and> D m' i c \<and> (\<forall>l. l \<noteq> label_of S c \<longrightarrow> m' l = m l)"
    if ic: "i < num" "c < ?N" "m (label_of S c) = None" for i c m
  proof (cases "label_of S c = sp_background_label_id S")
    case False
    obtain v where v: "(ps ! i) (label_of S c) = Some v" "length v = P" "\<forall>p<P. keep ! (keep_pos S P i c + p) \<longrightarrow> v ! p = quad_at loc (loc_at S P i c p)"
      using assms(5) ic(1,2) by blast
    have "\<exists>bs. per_image P (decode_prior F CENTER_SIZE False P prior v keep (keep_pos S P i c)) = Inr bs \<and> length bs = P \<and>
        (\<forall>k<P. keep ! (keep_pos S P i c + k) \<longrightarrow> bs ! k = Some (ssd_box F S loc prior P i c k))"
      using one[OF ic(1,2) v(2,3)] by (rule per_image_ok)
    then show ?thesis using False v(1) by (auto simp: decode_class_def Let_def bind_res_def D_def box_at_def elem_def)
  qed (use that in \<open>simp add: decode_class_def D_def\<close>)
  have image: "\<exists>m. loop ?N (decode_class F S CENTER_SIZE False P prior keep (ps ! i) i) (\<lambda>_. None) = Inr m \<and> (\<forall>c<?N. D m i c)" if inum: "i < num" for i
  proof -
    have "\<exists>m. loop ?N (decode_class F S CENTER_SIZE False P prior keep (ps ! i) i) (\<lambda>_. None) = Inr m \<and>
        ((\<forall>c<?N. D m i c) \<and> (\<forall>c<?N. ?N \<le> c \<longrightarrow> m (label_of S c) = None))"
    proof (rule loop_inv[where I = "\<lambda>k m. (\<forall>c<k. D m i c) \<and> (\<forall>c<?N. k \<le> c \<longrightarrow> m (label_of S c) = None)"])
      fix k m assume k: "k < ?N" and J: "(\<forall>c<k. D m i c) \<and> (\<forall>c<?N. k \<le> c \<longrightarrow> m (label_of S c) = None)"
      obtain m' where m': "decode_class F S CENTER_SIZE False P prior keep (ps ! i) i k m = Inr m'" "D m' i k" "\<forall>l. l \<noteq> label_of S k \<longrightarrow> m' l = m l"
        using cls[OF inum k] J k by blast
      have same: "m' (label_of S c) = m (label_of S c)" if ck: "c < ?N" "c \<noteq> k" for c using m'(3) label_inj[OF ck(1) k] ck(2) by simp
      have "D m' i c" if ck: "c < k" for c
      proof -
        have "m' (label_of S c) = m (label_of S c)" using same[of c] ck k by simp
        moreover have "D m i c" using J ck by blast
        ultimately show ?thesis by (simp only: D_def)
      qed
      then show "\<exists>m'. decode_class F S CENTER_SIZE False P prior keep (ps ! i) i k m = Inr m' \<and> ((\<forall>c<Suc k. D m' i c) \<and> (\<forall>c<?N. Suc k \<le> c \<longrightarrow> m' (label_of S c) = None))"
        using m'(1,2) J same by (intro exI[of _ m']) (auto simp: less_Suc_eq)
    qed simp
    then show ?thesis by blast
  qed
  have all: "D m i c" if "\<forall>c<?N. D m i c" "c < sp_num_classes S" for m i c
  proof (cases "sp_share_location S")
    case True
    then have "D m i 0" using that(1) by (simp add: num_loc_classes_def)
    moreover have "label_of S c = label_of S 0" "keep_pos S P i c = keep_pos S P i 0" "ssd_box F S loc prior P i c = ssd_box F S loc prior P i 0"
      using True by (simp_all add: label_of_def keep_pos_def ssd_box_def fun_eq_iff)
    ultimately show ?thesis by (simp only: D_def)
  qed (use that in \<open>simp add: num_loc_classes_def\<close>)
  have "\<exists>ds. per_image num (\<lambda>i. loop ?N (decode_class F S CENTER_SIZE False P prior keep (ps ! i) i) (\<lambda>_. None)) = Inr ds \<and> length ds = num \<and> (\<forall>i<num. \<forall>c<?N. D (ds ! i) i c)"
    using image by (rule per_image_ok)
  then obtain ds where ds: "DecodeBBoxesAll_opt F S CENTER_SIZE False ps P prior num keep = Inr ds" "length ds = num" "\<forall>i<num. \<forall>c<?N. D (ds ! i) i c"
    using assms(4) by (auto simp: DecodeBBoxesAll_opt_def assert_res_def)
  then have "\<forall>i<num. \<forall>c< sp_num_classes S. D (ds ! i) i c" using all by blast
  then show ?thesis using ds(1,2) unfolding D_def by blast
qed

section \<open>The description\<close>

text \<open>What is selected of a class, of all classes of an image, and what is left when only the best of an image are kept.\<close>

definition ssd_class :: "'f sorts \<Rightarrow> 'f :: {linorder, zero} fops \<Rightarrow> 'f ssd \<Rightarrow> 'f list \<Rightarrow> 'f list \<Rightarrow> 'f list \<Rightarrow> nat \<Rightarrow> nat \<Rightarrow> nat \<Rightarrow> ('f \<times> nat) list" where
  "ssd_class Q F S loc conf prior P i c = (if int c = sp_background_label_id S \<or> label_of S c = sp_background_label_id S then []
     else ssd_select F (sp_nms_threshold S) (ssd_box F S loc prior P i c) [] (take (nat (sp_top_k S)) (sort_class Q (sp_top_k S) (cands S conf P i c P))))"

definition tag :: "nat \<Rightarrow> ('f \<times> nat) list \<Rightarrow> ('f \<times> nat \<times> nat) list" where
  "tag c xs = map (\<lambda>(s, idx). (s, c, idx)) xs"

definition ssd_all :: "'f sorts \<Rightarrow> 'f :: {linorder, zero} fops \<Rightarrow> 'f ssd \<Rightarrow> 'f list \<Rightarrow> 'f list \<Rightarrow> 'f list \<Rightarrow> nat \<Rightarrow> nat \<Rightarrow> ('f \<times> nat \<times> nat) list" where
  "ssd_all Q F S loc conf prior P i = concat (map (\<lambda>c. tag c (ssd_class Q F S loc conf prior P i c)) [0..< sp_num_classes S])"

definition by_class :: "nat \<Rightarrow> ('f \<times> nat \<times> nat) list \<Rightarrow> ('f \<times> nat \<times> nat) list" where
  "by_class n ps = concat (map (\<lambda>c. filter (\<lambda>(s, c', idx). c' = c) ps) [0..<n])"

definition ssd_image :: "'f sorts \<Rightarrow> 'f :: {linorder, zero} fops \<Rightarrow> 'f ssd \<Rightarrow> 'f list \<Rightarrow> 'f list \<Rightarrow> 'f list \<Rightarrow> nat \<Rightarrow> nat \<Rightarrow> ('f \<times> nat \<times> nat) list" where
  "ssd_image Q F S loc conf prior P i = (let ds = ssd_all Q F S loc conf prior P i in
     if int (length ds) > sp_keep_topk S then by_class (sp_num_classes S) (take (nat (sp_keep_topk S)) (sort_pairs Q ds)) else ds)"

definition ssd_rows :: "'f sorts \<Rightarrow> 'f :: {linorder, zero} fops \<Rightarrow> 'f ssd \<Rightarrow> 'f list \<Rightarrow> 'f list \<Rightarrow> 'f list \<Rightarrow> nat \<Rightarrow> nat \<Rightarrow> 'f list list" where
  "ssd_rows Q F S loc conf prior P num = concat (map (\<lambda>i. map (\<lambda>(s, c, idx). box_row F i c s (ssd_box F S loc prior P i c idx)) (ssd_image Q F S loc conf prior P i)) [0..<num])"

text \<open>The output is filled up with -1; without any detection each image has a row with nothing but its number.\<close>

definition written :: "'f fops \<Rightarrow> nat \<Rightarrow> 'f list list \<Rightarrow> 'f list" where
  "written F n rows = concat rows @ replicate ((n - length rows) * 7) (of_int_f F (-1))"

definition ssd_output :: "'f sorts \<Rightarrow> 'f :: {linorder, zero} fops \<Rightarrow> 'f ssd \<Rightarrow> 'f list \<Rightarrow> 'f list \<Rightarrow> 'f list \<Rightarrow> nat \<Rightarrow> nat \<Rightarrow> 'f list" where
  "ssd_output Q F S loc conf prior P num = (let rows = ssd_rows Q F S loc conf prior P num in
     written F (num * nat (sp_keep_topk S)) (if rows = [] then map (\<lambda>i. of_int_f F (int i) # replicate 6 (of_int_f F (-1))) [0..<num] else rows))"

section \<open>Detections of an image\<close>

definition entries :: "'f score_map \<Rightarrow> nat \<Rightarrow> ('f \<times> nat) list" where
  "entries m c = (case m c of None \<Rightarrow> [] | Some l \<Rightarrow> l)"

lemma entries_simps [simp]: "entries (\<lambda>_. None) c = []" "entries (m(c \<mapsto> l)) c' = (if c' = c then l else entries m c')"
  by (simp_all add: entries_def)

lemma score_index_pairs_entries: "score_index_pairs n m = concat (map (\<lambda>c. tag c (entries m c)) [0..<n])"
  unfolding score_index_pairs_def by (intro arg_cong[of _ _ concat] map_cong) (auto simp: tag_def entries_def split: option.splits)

lemma entries_push [simp]: "entries (push m c x) c' = entries m c' @ (if c' = c then [x] else [])"
  by (simp add: push_def entries_def)

lemma entries_regroup: "entries (regroup ps) c = map (\<lambda>(s, c', idx). (s, idx)) (filter (\<lambda>(s, c', idx). c' = c) ps)"
proof -
  have "entries (foldl (\<lambda>m (s, c, idx). push m c (s, idx)) m ps) c = entries m c @ map (\<lambda>(s, c', idx). (s, idx)) (filter (\<lambda>(s, c', idx). c' = c) ps)" for m
    by (induction ps arbitrary: m) auto
  from this[of "\<lambda>_. None"] show ?thesis by (simp add: regroup_def)
qed

lemma tag_regroup: "tag c (entries (regroup ps) c) = filter (\<lambda>(s, c', idx). c' = c) ps"
  by (induction ps) (auto simp: entries_regroup tag_def)

lemma by_class_length: "\<forall>(s, c, idx)\<in>set ps. c < n \<Longrightarrow> length (by_class n ps) = length ps"
proof (induction ps)
  case Nil
  then show ?case by (simp add: by_class_def comp_def sum_list_triv)
next
  case (Cons p ps)
  obtain s c idx where p: "p = (s, c, idx)" by (cases p)
  have "sum_list (map (\<lambda>k. length (filter (\<lambda>(s, c', idx). c' = k) (p # ps))) [0..<n]) =
      sum_list (map (\<lambda>k. of_bool (c = k) + length (filter (\<lambda>(s, c', idx). c' = k) ps)) [0..<n])"
    by (intro arg_cong[of _ _ sum_list] map_cong) (auto simp: p)
  also have "\<dots> = (\<Sum>k\<leftarrow>[0..<n]. of_bool (c = k)) + (\<Sum>k\<leftarrow>[0..<n]. length (filter (\<lambda>(s, c', idx). c' = k) ps))" by (rule sum_list_addf)
  also have "(\<Sum>k\<leftarrow>[0..<n]. of_bool (c = k)) = (1 :: nat)" using Cons.prems by (simp add: p interv_sum_list_conv_sum_set_nat)
  finally show ?case using Cons by (simp add: by_class_def length_concat comp_def)
qed

lemma ssd_all_member: "(s, c, idx) \<in> set (ssd_all Q F S loc conf prior P i) \<longleftrightarrow> c < sp_num_classes S \<and> (s, idx) \<in> set (ssd_class Q F S loc conf prior P i c)"
  by (auto simp: ssd_all_def tag_def)

lemma ssd_image_subset: "sorts_ok Q \<Longrightarrow> set (ssd_image Q F S loc conf prior P i) \<subseteq> set (ssd_all Q F S loc conf prior P i)"
  by (auto simp: ssd_image_def Let_def by_class_def dest!: in_set_takeD)

lemma ssd_class_member: "(s, idx) \<in> set (ssd_class Q F S loc conf prior P i c) \<Longrightarrow> int c \<noteq> sp_background_label_id S \<and>
    label_of S c \<noteq> sp_background_label_id S \<and> (s, idx) \<in> set (take (nat (sp_top_k S)) (sort_class Q (sp_top_k S) (cands S conf P i c P)))"
  using ssd_select_subseq[of F "sp_nms_threshold S" "ssd_box F S loc prior P i c" "[]" "take (nat (sp_top_k S)) (sort_class Q (sp_top_k S) (cands S conf P i c P))"]
  by (auto simp: ssd_class_def split: if_splits dest: subseq_set)

lemma ssd_image_length: "sorts_ok Q \<Longrightarrow> 0 \<le> sp_keep_topk S \<Longrightarrow> length (ssd_image Q F S loc conf prior P i) = min (length (ssd_all Q F S loc conf prior P i)) (nat (sp_keep_topk S))"
proof -
  assume Q: "sorts_ok Q" and k: "0 \<le> sp_keep_topk S"
  let ?ds = "ssd_all Q F S loc conf prior P i"
  have "\<forall>(s, c, idx)\<in>set (take (nat (sp_keep_topk S)) (sort_pairs Q ?ds)). c < sp_num_classes S"
    using ssd_all_member Q by (fastforce dest!: in_set_takeD)
  from by_class_length[OF this] show ?thesis using k Q by (auto simp: ssd_image_def Let_def)
qed

text \<open>Every box that may be used is decoded.\<close>

definition boxes_ready :: "'f sorts \<Rightarrow> 'f :: {linorder, zero} fops \<Rightarrow> 'f ssd \<Rightarrow> 'f list \<Rightarrow> 'f list \<Rightarrow> 'f list \<Rightarrow> nat \<Rightarrow> nat \<Rightarrow> 'f label_boxes \<Rightarrow> bool" where
  "boxes_ready Q F S loc conf prior P i d = (\<forall>c< sp_num_classes S. if label_of S c = sp_background_label_id S then d (label_of S c) = None
     else \<exists>bs. d (label_of S c) = Some bs \<and> (int c \<noteq> sp_background_label_id S \<longrightarrow>
       (\<forall>sc\<in>set (take (nat (sp_top_k S)) (sort_class Q (sp_top_k S) (cands S conf P i c P))). box_at bs (snd sc) = Inr (ssd_box F S loc prior P i c (snd sc)))))"

lemma boxes_ready_decoded:
  assumes "\<forall>c< sp_num_classes S. if label_of S c = sp_background_label_id S then d (label_of S c) = None
      else \<exists>bs. d (label_of S c) = Some bs \<and> (\<forall>k<P. keep ! (keep_pos S P i c + k) \<longrightarrow> box_at bs k = Inr (ssd_box F S loc prior P i c k))"
    and "\<forall>c< sp_num_classes S. int c \<noteq> sp_background_label_id S \<longrightarrow> marked S P keep i c (take (nat (sp_top_k S)) (sort_class Q (sp_top_k S) (cands S conf P i c P)))"
    and "sorts_ok Q" "0 \<le> sp_top_k S"
  shows "boxes_ready Q F S loc conf prior P i d"
  unfolding boxes_ready_def
proof (intro allI impI)
  fix c assume c: "c < sp_num_classes S"
  have "box_at bs (snd sc) = Inr (ssd_box F S loc prior P i c (snd sc))"
    if "int c \<noteq> sp_background_label_id S" "sc \<in> set (take (nat (sp_top_k S)) (sort_class Q (sp_top_k S) (cands S conf P i c P)))"
      "\<forall>k<P. keep ! (keep_pos S P i c + k) \<longrightarrow> box_at bs k = Inr (ssd_box F S loc prior P i c k)" for bs sc
  proof -
    have "sc \<in> set (cands S conf P i c P)" using in_set_takeD[OF that(2)] assms(3,4) by simp
    then have "snd sc < P" using cands_bound[of "fst sc" "snd sc"] by simp
    moreover have "keep ! (keep_pos S P i c + snd sc)" using assms(2) c that(1,2) by (auto simp: marked_def case_prod_unfold)
    ultimately show ?thesis using that(3) by blast
  qed
  then show "if label_of S c = sp_background_label_id S then d (label_of S c) = None
     else \<exists>bs. d (label_of S c) = Some bs \<and> (int c \<noteq> sp_background_label_id S \<longrightarrow>
       (\<forall>sc\<in>set (take (nat (sp_top_k S)) (sort_class Q (sp_top_k S) (cands S conf P i c P))). box_at bs (snd sc) = Inr (ssd_box F S loc prior P i c (snd sc))))"
    using assms(1)[rule_format, OF c] by auto
qed

lemma detect_class_run:
  assumes "0 \<le> sp_top_k S" "boxes_ready Q F S loc conf prior P i d" "c < sp_num_classes S" "m c = opt (sort_class Q (sp_top_k S) (cands S conf P i c P))" "entries ind c = []" "sorts_ok Q"
  shows "\<exists>ind'. detect_class F S (of_int_f F 1) d m c (ind, n) = Inr (ind', n + length (ssd_class Q F S loc conf prior P i c)) \<and>
    (\<forall>k. entries ind' k = (if k = c then ssd_class Q F S loc conf prior P i c else entries ind k))"
proof (cases "int c = sp_background_label_id S \<or> label_of S c = sp_background_label_id S \<or> cands S conf P i c P = []")
  case True
  then have "ssd_class Q F S loc conf prior P i c = []" using assms(1,6) by (auto simp: ssd_class_def)
  moreover have "detect_class F S (of_int_f F 1) d m c (ind, n) = Inr (ind, n)"
    using True assms(1-4,6) by (auto simp: detect_class_def boxes_ready_def opt_def split: option.splits)
  ultimately show ?thesis using assms(5) by auto
next
  case False
  let ?xs = "sort_class Q (sp_top_k S) (cands S conf P i c P)"
  obtain bs where bs: "d (label_of S c) = Some bs" "\<forall>sc\<in>set (take (nat (sp_top_k S)) ?xs). box_at bs (snd sc) = Inr (ssd_box F S loc prior P i c (snd sc))"
    using assms(2)[unfolded boxes_ready_def, rule_format, OF assms(3)] False by (auto split: if_splits)
  have "ApplyNMSFast_opt F bs ?xs (sp_nms_threshold S) (of_int_f F 1) (sp_top_k S) = Inr (ssd_class Q F S loc conf prior P i c)"
    using ApplyNMSFast_select[OF bs(2) assms(1)] False by (simp add: ssd_class_def)
  then show ?thesis using False bs(1) assms(1,4,6) by (auto simp: detect_class_def opt_def bind_res_def)
qed

lemma detect_image_run:
  assumes "0 \<le> sp_top_k S" "0 \<le> sp_keep_topk S" "boxes_ready Q F S loc conf prior P i d"
    and "\<forall>c. m c = (if c < sp_num_classes S then opt (sort_class Q (sp_top_k S) (cands S conf P i c P)) else None)" "sorts_ok Q"
  shows "\<exists>r. detect_image Q F S (of_int_f F 1) d m = Inr r \<and> snd r = int (length (ssd_image Q F S loc conf prior P i)) \<and>
    concat (map (\<lambda>c. tag c (entries (fst r) c)) [0..< sp_num_classes S]) = ssd_image Q F S loc conf prior P i"
proof -
  let ?C = "sp_num_classes S" and ?cl = "ssd_class Q F S loc conf prior P i" and ?ds = "ssd_all Q F S loc conf prior P i"
  have "\<exists>st. loop ?C (detect_class F S (of_int_f F 1) d m) (\<lambda>_. None, 0) = Inr st \<and>
      ((\<forall>c. entries (fst st) c = (if c < ?C then ?cl c else [])) \<and> snd st = length (concat (map (\<lambda>c. tag c (?cl c)) [0..<?C])))"
  proof (rule loop_inv[where I = "\<lambda>k st. (\<forall>c. entries (fst st) c = (if c < k then ?cl c else [])) \<and> snd st = length (concat (map (\<lambda>c. tag c (?cl c)) [0..<k]))"])
    fix k st assume k: "k < ?C" and I: "(\<forall>c. entries (fst st) c = (if c < k then ?cl c else [])) \<and> snd st = length (concat (map (\<lambda>c. tag c (?cl c)) [0..<k]))"
    obtain ind' where "detect_class F S (of_int_f F 1) d m k st = Inr (ind', snd st + length (?cl k))" "\<forall>c. entries ind' c = (if c = k then ?cl k else entries (fst st) c)"
      using detect_class_run[OF assms(1,3) k, of m "fst st" "snd st", unfolded prod.collapse] assms(4,5) k I by auto
    then show "\<exists>st'. detect_class F S (of_int_f F 1) d m k st = Inr st' \<and>
        ((\<forall>c. entries (fst st') c = (if c < Suc k then ?cl c else [])) \<and> snd st' = length (concat (map (\<lambda>c. tag c (?cl c)) [0..<Suc k])))"
      using I by (auto simp: less_Suc_eq tag_def)
  qed simp
  then obtain ind n where st: "loop ?C (detect_class F S (of_int_f F 1) d m) (\<lambda>_. None, 0) = Inr (ind, n)" "\<forall>c<?C. entries ind c = ?cl c" "n = length ?ds"
    by (auto simp: ssd_all_def)
  have pairs: "concat (map (\<lambda>c. tag c (entries ind c)) [0..<?C]) = ?ds"
    unfolding ssd_all_def using st(2) by (intro arg_cong[of _ _ concat] map_cong) auto
  show ?thesis
  proof (cases "int (length ?ds) > sp_keep_topk S")
    case True
    let ?ps = "take (nat (sp_keep_topk S)) (sort_pairs Q ?ds)"
    have "detect_image Q F S (of_int_f F 1) d m = Inr (regroup ?ps, sp_keep_topk S)"
      using True st assms(2) pairs by (simp add: detect_image_def bind_res_def score_index_pairs_entries)
    moreover have "concat (map (\<lambda>c. tag c (entries (regroup ?ps) c)) [0..<?C]) = ssd_image Q F S loc conf prior P i"
      using True by (simp add: ssd_image_def Let_def by_class_def tag_regroup)
    moreover have "sp_keep_topk S = int (length (ssd_image Q F S loc conf prior P i))" using ssd_image_length[OF assms(5,2)] True assms(2) by (simp add: min_def)
    ultimately show ?thesis by (metis fst_conv snd_conv)
  next
    case False
    then show ?thesis using st pairs by (auto simp: detect_image_def bind_res_def ssd_image_def Let_def)
  qed
qed

section \<open>The output\<close>

lemma written_step:
  assumes "\<forall>r\<in>set rs. length r = 7" "length rs < n"
  shows "written F n rs = concat rs @ replicate 7 (of_int_f F (-1)) @ replicate ((n - Suc (length rs)) * 7) (of_int_f F (-1))" "length (concat rs) = length rs * 7"
proof -
  have "(n - length rs) * 7 = 7 + (n - Suc (length rs)) * 7" using assms(2) by (cases "n - length rs") (auto simp: Suc_diff_Suc[symmetric])
  then show "written F n rs = concat rs @ replicate 7 (of_int_f F (-1)) @ replicate ((n - Suc (length rs)) * 7) (of_int_f F (-1))"
    by (simp only: written_def replicate_add)
  show "length (concat rs) = length rs * 7" using assms(1) by (induction rs) simp_all
qed

lemma write_row_at:
  assumes "length xs = k * 7" "length ys = 7" "length row = 7"
  shows "write_row k row (xs @ ys @ zs) = Inr (xs @ row @ zs)"
proof -
  have "\<exists>out. loop (length row) (\<lambda>d out. put_elem (k * 7 + d) (row ! d) out) (xs @ ys @ zs) = Inr out \<and> out = xs @ take (length row) row @ drop (length row) ys @ zs"
  proof (rule loop_inv[where I = "\<lambda>d out. out = xs @ take d row @ drop d ys @ zs"])
    fix d out assume d: "d < length row" "out = xs @ take d row @ drop d ys @ zs"
    then have "drop d ys = ys ! d # drop (Suc d) ys" using assms(2,3) by (simp add: Cons_nth_drop_Suc)
    then show "\<exists>out'. put_elem (k * 7 + d) (row ! d) out = Inr out' \<and> out' = xs @ take (Suc d) row @ drop (Suc d) ys @ zs"
      using d assms by (auto simp: put_elem_def take_Suc_conv_app_nth list_update_append)
  qed simp
  then show ?thesis using assms(2,3) by (simp add: write_row_def)
qed

lemma write_row_written:
  assumes "\<forall>r\<in>set rs. length r = 7" "length rs < n" "length row = 7"
  shows "write_row (length rs) row (written F n rs) = Inr (written F n (rs @ [row]))"
  unfolding written_step(1)[OF assms(1,2)] using written_step(2)[OF assms(1,2)] assms(3) by (simp add: write_row_at) (simp add: written_def)

definition row_of :: "'f :: {linorder, zero} fops \<Rightarrow> 'f ssd \<Rightarrow> 'f list \<Rightarrow> 'f list \<Rightarrow> nat \<Rightarrow> nat \<Rightarrow> 'f \<times> nat \<times> nat \<Rightarrow> 'f list" where
  "row_of F S loc prior P i = (\<lambda>(s, c, idx). box_row F i c s (ssd_box F S loc prior P i c idx))"

lemma row_of_length [simp]: "length (row_of F S loc prior P i x) = 7"
  by (simp add: row_of_def box_row_def split: prod.splits)

lemma write_class_run:
  assumes "boxes_ready Q F S loc conf prior P i d" "set (tag c (entries ind c)) \<subseteq> set (ssd_all Q F S loc conf prior P i)"
    and "\<forall>r\<in>set rs. length r = 7" "length rs + length (entries ind c) \<le> n"
  shows "write_class F S d ind i c (length rs, written F n rs) =
    (let rs' = rs @ map (row_of F S loc prior P i) (tag c (entries ind c)) in Inr (length rs', written F n rs'))"
proof (cases "entries ind c = []")
  case True
  then show ?thesis by (auto simp: write_class_def entries_def tag_def split: option.splits)
next
  case False
  let ?l = "entries ind c" and ?row = "row_of F S loc prior P i"
  have mem: "c < sp_num_classes S \<and> sc \<in> set (ssd_class Q F S loc conf prior P i c)" if "sc \<in> set ?l" for sc
    using assms(2) that by (cases sc) (force simp: tag_def ssd_all_member)
  have c: "c < sp_num_classes S" "int c \<noteq> sp_background_label_id S" "label_of S c \<noteq> sp_background_label_id S"
    using mem[of "hd ?l"] False ssd_class_member[of "fst (hd ?l)" "snd (hd ?l)"] by auto
  obtain bs where bs: "d (label_of S c) = Some bs" "\<forall>sc\<in>set (take (nat (sp_top_k S)) (sort_class Q (sp_top_k S) (cands S conf P i c P))). box_at bs (snd sc) = Inr (ssd_box F S loc prior P i c (snd sc))"
    using assms(1)[unfolded boxes_ready_def, rule_format, OF c(1)] c by (auto split: if_splits)
  have box: "box_at bs (snd sc) = Inr (ssd_box F S loc prior P i c (snd sc))" if "sc \<in> set ?l" for sc
    using mem[OF that] ssd_class_member[of "fst sc" "snd sc"] bs(2) by fastforce
  let ?step = "\<lambda>j (cnt, out). bind_res (box_at bs (snd (?l ! j))) (\<lambda>b. bind_res (write_row cnt (box_row F i c (fst (?l ! j)) b) out) (\<lambda>out'. Inr (cnt + 1, out')))"
  have "\<exists>st. loop (length ?l) ?step (length rs, written F n rs) = Inr st \<and>
      st = (length rs + length ?l, written F n (rs @ map ?row (tag c (take (length ?l) ?l))))"
  proof (rule loop_inv[where I = "\<lambda>j st. st = (length rs + j, written F n (rs @ map ?row (tag c (take j ?l))))"])
    fix j st assume j: "j < length ?l" "st = (length rs + j, written F n (rs @ map ?row (tag c (take j ?l))))"
    let ?rs = "rs @ map ?row (tag c (take j ?l))" and ?b = "ssd_box F S loc prior P i c (snd (?l ! j))"
    have len: "length ?rs = length rs + j" using j(1) by (simp add: tag_def)
    have next_row: "map ?row (tag c (take (Suc j) ?l)) = map ?row (tag c (take j ?l)) @ [box_row F i c (fst (?l ! j)) ?b]"
      using j(1) by (simp add: take_Suc_conv_app_nth tag_def row_of_def case_prod_unfold)
    have "write_row (length ?rs) (box_row F i c (fst (?l ! j)) ?b) (written F n ?rs) = Inr (written F n (?rs @ [box_row F i c (fst (?l ! j)) ?b]))"
    proof (rule write_row_written)
      show "\<forall>r\<in>set ?rs. length r = 7" using assms(3) by auto
      show "length ?rs < n" using len j(1) assms(4) by simp
    qed (simp add: box_row_def)
    then show "\<exists>st'. ?step j st = Inr st' \<and> st' = (length rs + Suc j, written F n (rs @ map ?row (tag c (take (Suc j) ?l))))"
      using box[OF nth_mem[OF j(1)]] j(2) len next_row by (simp add: bind_res_def)
  qed (simp add: tag_def)
  moreover have "write_class F S d ind i c = loop (length ?l) ?step"
    using False bs(1) by (auto simp: write_class_def entries_def fun_eq_iff split: option.splits)
  ultimately show ?thesis by (simp add: Let_def tag_def)
qed

lemma write_image_run:
  assumes "boxes_ready Q F S loc conf prior P i d" "concat (map (\<lambda>c. tag c (entries ind c)) [0..< sp_num_classes S]) = ssd_image Q F S loc conf prior P i"
    and "\<forall>r\<in>set rs. length r = 7" "length rs + length (ssd_image Q F S loc conf prior P i) \<le> n" "sorts_ok Q"
  shows "loop (sp_num_classes S) (write_class F S d ind i) (length rs, written F n rs) =
    (let rs' = rs @ map (row_of F S loc prior P i) (ssd_image Q F S loc conf prior P i) in Inr (length rs', written F n rs'))"
proof -
  let ?C = "sp_num_classes S" and ?ts = "\<lambda>k. concat (map (\<lambda>c. tag c (entries ind c)) [0..<k])" and ?row = "row_of F S loc prior P i"
  have "\<exists>st. loop ?C (write_class F S d ind i) (length rs, written F n rs) = Inr st \<and> st = (length (rs @ map ?row (?ts ?C)), written F n (rs @ map ?row (?ts ?C)))"
  proof (rule loop_inv[where I = "\<lambda>k st. st = (length (rs @ map ?row (?ts k)), written F n (rs @ map ?row (?ts k)))"])
    fix k st assume k: "k < ?C" "st = (length (rs @ map ?row (?ts k)), written F n (rs @ map ?row (?ts k)))"
    have "[0..<?C] = [0..<k] @ k # [Suc k..<?C]" using k(1) upt_add_eq_append[of 0 k "?C - k"] by (simp add: upt_conv_Cons)
    then have split: "ssd_image Q F S loc conf prior P i = ?ts k @ tag k (entries ind k) @ concat (map (\<lambda>c. tag c (entries ind c)) [Suc k..<?C])"
      using assms(2) by simp
    have "set (tag k (entries ind k)) \<subseteq> set (ssd_all Q F S loc conf prior P i)" using ssd_image_subset[OF assms(5), of F S loc conf prior P i] unfolding split by auto
    moreover have "length (rs @ map ?row (?ts k)) + length (entries ind k) \<le> n" using assms(4) unfolding split by (simp add: tag_def)
    moreover have "\<forall>r\<in>set (rs @ map ?row (?ts k)). length r = 7" using assms(3) by auto
    ultimately show "\<exists>st'. write_class F S d ind i k st = Inr st' \<and> st' = (length (rs @ map ?row (?ts (Suc k))), written F n (rs @ map ?row (?ts (Suc k))))"
      using write_class_run[OF assms(1), of k ind "rs @ map ?row (?ts k)" n] k(2) by (simp add: Let_def)
  qed simp
  then show ?thesis using assms(2) by (simp add: Let_def)
qed

lemma ssd_rows_of: "ssd_rows Q F S loc conf prior P num = concat (map (\<lambda>i. map (row_of F S loc prior P i) (ssd_image Q F S loc conf prior P i)) [0..<num])"
  by (simp add: ssd_rows_def row_of_def)

lemma ssd_rows_length:
  assumes "sorts_ok Q" "0 \<le> sp_keep_topk S"
  shows "length (ssd_rows Q F S loc conf prior P num) \<le> num * nat (sp_keep_topk S)"
  by (induction num) (simp_all add: ssd_rows_def ssd_image_length[OF assms] min_def)

lemma write_images_run:
  assumes "0 \<le> sp_keep_topk S" "\<forall>i<num. boxes_ready Q F S loc conf prior P i (ds ! i)"
    and "\<forall>i<num. concat (map (\<lambda>c. tag c (entries (fst (inds ! i)) c)) [0..< sp_num_classes S]) = ssd_image Q F S loc conf prior P i" "sorts_ok Q"
  shows "\<exists>k. loop num (\<lambda>i. loop (sp_num_classes S) (write_class F S (ds ! i) (fst (inds ! i)) i)) (0, written F (num * nat (sp_keep_topk S)) []) =
    Inr (k, written F (num * nat (sp_keep_topk S)) (ssd_rows Q F S loc conf prior P num))"
proof -
  let ?n = "num * nat (sp_keep_topk S)" and ?rows = "ssd_rows Q F S loc conf prior P"
  have "\<exists>st. loop num (\<lambda>i. loop (sp_num_classes S) (write_class F S (ds ! i) (fst (inds ! i)) i)) (0, written F ?n []) = Inr st \<and> st = (length (?rows num), written F ?n (?rows num))"
  proof (rule loop_inv[where I = "\<lambda>i st. st = (length (?rows i), written F ?n (?rows i))"])
    fix i st assume i: "i < num" "st = (length (?rows i), written F ?n (?rows i))"
    have Suc: "?rows (Suc i) = ?rows i @ map (row_of F S loc prior P i) (ssd_image Q F S loc conf prior P i)" by (simp add: ssd_rows_of)
    have "length (?rows (Suc i)) \<le> Suc i * nat (sp_keep_topk S)" using ssd_rows_length[OF assms(4,1), of F loc conf prior P "Suc i"] .
    also have "\<dots> \<le> ?n" using i(1) by (intro mult_le_mono1) simp
    finally have "length (?rows i) + length (ssd_image Q F S loc conf prior P i) \<le> ?n" by (simp add: Suc)
    moreover have "\<forall>r\<in>set (?rows i). length r = 7" by (auto simp: ssd_rows_of)
    ultimately show "\<exists>st'. loop (sp_num_classes S) (write_class F S (ds ! i) (fst (inds ! i)) i) st = Inr st' \<and> st' = (length (?rows (Suc i)), written F ?n (?rows (Suc i)))"
      using write_image_run[of Q F S loc conf prior P i "ds ! i" "fst (inds ! i)" "?rows i" ?n] assms(2-4) i by (simp add: Let_def Suc)
  qed (simp add: ssd_rows_def)
  then show ?thesis by auto
qed

lemma blank_run: "loop n (\<lambda>k. put_elem k b) (replicate n z) = Inr (replicate n b)"
  using loop_fill[of n "replicate n z" "\<lambda>k. put_elem k b" "\<lambda>_. b"] by (simp add: map_replicate_const)

lemma empty_rows_run:
  assumes "num \<le> n"
  shows "loop num (\<lambda>i. put_elem (i * 7) (of_int_f F (int i))) (written F n []) = Inr (written F n (map (\<lambda>i. of_int_f F (int i) # replicate 6 (of_int_f F (-1))) [0..<num]))"
proof -
  let ?rs = "\<lambda>k. map (\<lambda>i. of_int_f F (int i) # replicate 6 (of_int_f F (-1))) [0..<k]"
  have "\<exists>out. loop num (\<lambda>i. put_elem (i * 7) (of_int_f F (int i))) (written F n []) = Inr out \<and> out = written F n (?rs num)"
  proof (rule loop_inv[where I = "\<lambda>k out. out = written F n (?rs k)"])
    fix k out assume k: "k < num" "out = written F n (?rs k)"
    have "\<forall>r\<in>set (?rs k). length r = 7" "length (?rs k) < n" using k(1) assms by auto
    note w = written_step(1)[OF this, of F] written_step(2)[OF this]
    show "\<exists>out'. put_elem (k * 7) (of_int_f F (int k)) out = Inr out' \<and> out' = written F n (?rs (Suc k))"
      using k(2) w by (simp add: put_elem_def list_update_append) (simp add: written_def numeral_nat)
  qed simp
  then show ?thesis by simp
qed

lemma ssd_run_output:
  assumes "CpuFunc.dim loc 0 = Inr num" "CpuFunc.dim prior 2 = Inr w" "0 < w div 4" "sp_code_type S = ''CENTER_SIZE''" "0 \<le> sp_top_k S" "0 < sp_keep_topk S"
    and "num * (w div 4 * num_loc_classes S) * 4 \<le> length (t_data loc)" "num * (w div 4 * sp_num_classes S) \<le> length (t_data conf)" "8 * (w div 4) \<le> length (t_data prior)"
    and "\<And>k. k < w div 4 \<Longrightarrow> 0 < fsub F (t_data prior ! (k * 4 + 2)) (t_data prior ! (k * 4)) \<and> 0 < fsub F (t_data prior ! (k * 4 + 3)) (t_data prior ! (k * 4 + 1))"
    and "length (t_data top0) = num * nat (sp_keep_topk S) * 7" "sorts_ok Q"
  shows "SSDDetectionFunc_run Q F S [loc, conf, prior] top0 = Inr (top0\<lparr>t_data := ssd_output Q F S (t_data loc) (t_data conf) (t_data prior) (w div 4) num\<rparr>)"
proof -
  define P where "P = w div 4"
  let ?C = "sp_num_classes S" and ?L = "t_data loc" and ?F = "t_data conf" and ?R = "t_data prior"
  let ?xs = "\<lambda>i c. sort_class Q (sp_top_k S) (cands S ?F P i c P)"
  note sizes = assms(3,7-10)[folded P_def]
  obtain s0 where s0: "GetConfidenceScores_opt ?F num P ?C (sp_obj_threshold S) = Inr s0" "\<forall>i<num. \<forall>c. (s0 ! i) c = (if c < ?C then opt (cands S ?F P i c P) else None)"
    using confidence_scores[OF sizes(3)] by blast
  have "\<exists>ms. per_image num (\<lambda>i. sort_scores Q (sp_top_k S) ?C (s0 ! i)) = Inr ms \<and> length ms = num \<and> (\<forall>i<num. \<forall>c. (ms ! i) c = (if c < ?C then opt (?xs i c) else None))"
    using s0(2) by (intro per_image_ok sort_scores_run assms(5,12)) blast
  then obtain ms where ms: "per_image num (\<lambda>i. sort_scores Q (sp_top_k S) ?C (s0 ! i)) = Inr ms" "length ms = num" "\<forall>i<num. \<forall>c. (ms ! i) c = (if c < ?C then opt (?xs i c) else None)" by blast
  obtain keep where keep: "decode_keep S num P ms = Inr keep" "length keep = keep_size S num P"
      "\<forall>i<num. \<forall>c<?C. int c \<noteq> sp_background_label_id S \<longrightarrow> marked S P keep i c (take (nat (sp_top_k S)) (?xs i c))"
    using decode_keep_marks[OF assms(5) ms(2,3), of P] cands_bound sort_class_set(1)[OF assms(12,5)] by metis
  obtain ps where ps: "GetLocPredictions_opt S ?L num P keep = Inr ps" "length ps = num" "\<forall>i<num. \<forall>c<num_loc_classes S. \<exists>v. (ps ! i) (label_of S c) = Some v \<and>
      length v = P \<and> (\<forall>p<P. keep ! (keep_pos S P i c + p) \<longrightarrow> v ! p = quad_at ?L (loc_at S P i c p))"
    using loc_predictions[OF keep(2) sizes(2,1)] by blast
  obtain ds where ds: "DecodeBBoxesAll_opt F S CENTER_SIZE False ps P ?R num keep = Inr ds" "\<forall>i<num. \<forall>c<?C. if label_of S c = sp_background_label_id S then (ds ! i) (label_of S c) = None
       else \<exists>bs. (ds ! i) (label_of S c) = Some bs \<and> (\<forall>k<P. keep ! (keep_pos S P i c + k) \<longrightarrow> box_at bs k = Inr (ssd_box F S ?L ?R P i c k))"
    using decode_boxes[OF keep(2) sizes(4,5) ps(2,3)] by blast
  have ready: "\<forall>i<num. boxes_ready Q F S ?L ?F ?R P i (ds ! i)" using boxes_ready_decoded ds(2) keep(3) assms(5,12) by blast
  let ?im = "ssd_image Q F S ?L ?F ?R P" and ?rows = "ssd_rows Q F S ?L ?F ?R P num"
  have "\<exists>rs. per_image num (\<lambda>i. detect_image Q F S (of_int_f F 1) (ds ! i) (ms ! i)) = Inr rs \<and> length rs = num \<and>
      (\<forall>i<num. snd (rs ! i) = int (length (?im i)) \<and> concat (map (\<lambda>c. tag c (entries (fst (rs ! i)) c)) [0..<?C]) = ?im i)"
    using assms(5,6,12) ready ms(3) by (intro per_image_ok detect_image_run) auto
  then obtain rs where rs: "per_image num (\<lambda>i. detect_image Q F S (of_int_f F 1) (ds ! i) (ms ! i)) = Inr rs" "length rs = num"
      "\<forall>i<num. snd (rs ! i) = int (length (?im i))" "\<forall>i<num. concat (map (\<lambda>c. tag c (entries (fst (rs ! i)) c)) [0..<?C]) = ?im i" by blast
  have "map snd rs = map (\<lambda>i. int (length (?im i))) [0..<num]" using rs(2,3) by (intro nth_equalityI) simp_all
  then have kept: "sum_list (map snd rs) = int (length ?rows)"
    by (simp add: ssd_rows_def length_concat comp_def flip: sum_list_of_nat)
  let ?n = "num * nat (sp_keep_topk S)"
  have "loop (?n * 7) (\<lambda>k. put_elem k (of_int_f F (-1))) (replicate (?n * 7) 0) = Inr (written F ?n [])" by (simp add: blank_run written_def)
  moreover have "nat (int num * sp_keep_topk S * 7) = ?n * 7" using assms(6) by (simp add: nat_mult_distrib)
  moreover obtain k where "loop num (\<lambda>i. loop ?C (write_class F S (ds ! i) (fst (rs ! i)) i)) (0, written F ?n []) = Inr (k, written F ?n ?rows)"
    using write_images_run[OF _ ready rs(4) assms(12)] assms(6) by auto
  moreover have "num \<le> ?n" using assms(6) by (cases "nat (sp_keep_topk S)") simp_all
  ultimately show ?thesis
    using assms(1,2,4,11) s0(1) ms(1) keep(1) ps(1) ds(1) rs(1) kept empty_rows_run[of num ?n F]
    by (simp add: SSDDetectionFunc_run_def assert_res_def code_type_of_def bind_res_def Let_def with_data_def ssd_output_def P_def)
qed

text \<open>
  C25: the SSD layer computes what its description says.  For inputs of the right sizes, prior boxes
  with positive sides and a positive number of detections to keep it returns, with no failed
  assertion, no access outside a tensor and no use of a box that was left out of the decoding; the
  output has the selected boxes of every class but the background, image by image and class by
  class, at most the best \<open>keep_top_k\<close> of each image, and is filled up with -1.  This holds however the
  library's sorts place equal scores: the boxes the selection of a class looks at are \<open>top_k\<close> best of
  its candidates in descending order, and those left of an image are \<open>keep_top_k\<close> best of its detections.
\<close>

theorem ssd_run_described:
  assumes "CpuFunc.dim loc 0 = Inr num" "CpuFunc.dim prior 2 = Inr w" "0 < w div 4" "sp_code_type S = ''CENTER_SIZE''" "0 \<le> sp_top_k S" "0 < sp_keep_topk S"
    and "num * (w div 4 * num_loc_classes S) * 4 \<le> length (t_data loc)" "num * (w div 4 * sp_num_classes S) \<le> length (t_data conf)" "8 * (w div 4) \<le> length (t_data prior)"
    and "\<And>k. k < w div 4 \<Longrightarrow> 0 < fsub F (t_data prior ! (k * 4 + 2)) (t_data prior ! (k * 4)) \<and> 0 < fsub F (t_data prior ! (k * 4 + 3)) (t_data prior ! (k * 4 + 1))"
    and "length (t_data top0) = num * nat (sp_keep_topk S) * 7" "sorts_ok Q"
  shows "SSDDetectionFunc_run Q F S [loc, conf, prior] top0 = Inr (top0\<lparr>t_data := ssd_output Q F S (t_data loc) (t_data conf) (t_data prior) (w div 4) num\<rparr>) \<and>
    (\<forall>i c. best_of (nat (sp_top_k S)) (cands S (t_data conf) (w div 4) i c (w div 4)) (take (nat (sp_top_k S)) (sort_class Q (sp_top_k S) (cands S (t_data conf) (w div 4) i c (w div 4))))) \<and>
    (\<forall>i. let ds = ssd_all Q F S (t_data loc) (t_data conf) (t_data prior) (w div 4) i in best_of (nat (sp_keep_topk S)) ds (take (nat (sp_keep_topk S)) (sort_pairs Q ds)))"
  unfolding Let_def by (intro conjI allI ssd_run_output sort_class_best sort_pairs_best assms)

text \<open>Sorts that put the last of equal scores first.\<close>

definition last_first :: "'f :: linorder list \<Rightarrow> nat list" where
  "last_first ss = rev (sort_key ((!) ss) [0..<length ss])"

definition demo_sorts :: "'f :: linorder sorts" where
  "demo_sorts = \<lparr>std_sort0 = last_first, std_partial_sort0 = (\<lambda>k. last_first), std_sort1 = last_first\<rparr>"

lemma demo_sorts_ok: "sorts_ok (demo_sorts :: 'f :: linorder sorts)"
proof -
  have "ss ! (last_first ss ! b) \<le> ss ! (last_first ss ! a)" if "a < b" "b < length (last_first ss)" for ss :: "'f list" and a b
  proof -
    have "sorted_wrt (\<lambda>x y. ss ! y \<le> ss ! x) (last_first ss)"
      using sorted_sort_key[of "(!) ss" "[0..<length ss]"] by (simp add: last_first_def sorted_wrt_rev sorted_wrt_map)
    then show ?thesis using that by (simp add: sorted_wrt_iff_nth_less)
  qed
  then have "ranks k ss (last_first ss)" for k and ss :: "'f list" by (auto simp: ranks_def) (simp add: last_first_def)
  then show ?thesis by (simp add: sorts_ok_def demo_sorts_def)
qed

text \<open>Three priors and two classes, the first of them the background; the third box overlaps the first and is dropped.\<close>

definition demo_ssd :: "real ssd" where
  "demo_ssd = \<lparr>sp_num_classes = 2, sp_share_location = True, sp_background_label_id = 0, sp_code_type = ''CENTER_SIZE'', sp_top_k = 5,
     sp_nms_threshold = 1 / 2, sp_obj_threshold = 1 / 2, sp_keep_topk = 2\<rparr>"

definition demo_tensor :: "nat list \<Rightarrow> real list \<Rightarrow> real tensor" where
  "demo_tensor sh xs = \<lparr>t_shape = sh, t_fmt = CVI_FMT_FP32, t_data = xs\<rparr>"

definition demo_prior :: "real list" where
  "demo_prior = [0, 0, 2, 2, 4, 4, 6, 6, 0, 0, 2, 3] @ replicate 12 1"

definition demo_conf :: "real list" where
  "demo_conf = [1 / 10, 9 / 10, 8 / 10, 2 / 10, 0, 7 / 10]"

lemma demo_ssd_simps:
  "sp_code_type demo_ssd = ''CENTER_SIZE''" "sp_top_k demo_ssd = 5" "sp_keep_topk demo_ssd = 2" "sp_num_classes demo_ssd = 2" "sp_obj_threshold demo_ssd = 1 / 2" "sp_background_label_id demo_ssd = 0"
  by (simp_all add: demo_ssd_def)

lemma demo_ssd_rows: "ssd_rows demo_sorts real_ops demo_ssd (replicate 12 0) demo_conf demo_prior 3 1 = [[0, 1, 9 / 10, 0, 0, 2, 2]]"
proof -
  have three: "[0..<3] = [0, 1, 2 :: nat]" "[0..<2] = [0, 1 :: nat]" by (simp_all add: upt_rec)
  have cands: "cands demo_ssd demo_conf 3 0 1 3 = [(9 / 10, 0), (7 / 10, 2)]"
    by (simp add: cands_def demo_ssd_def three demo_conf_def)
  have sorted: "sort_class demo_sorts 5 [(9 / 10, 0), (7 / 10, 2 :: nat)] = [(9 / 10 :: real, 0), (7 / 10, 2)]" by (simp add: sort_class_def demo_sorts_def last_first_def)
  have box: "ssd_box real_ops demo_ssd (replicate 12 0) demo_prior 3 0 1 k = \<lparr>xmin = 0, ymin = 0, xmax = 2, ymax = (if k = 0 then 2 else 3), bsize = (if k = 0 then 4 else 6)\<rparr>"
    if "k = 0 \<or> k = 2" for k
    using that by (auto simp: ssd_box_def decode_box_def quad_at_def loc_at_def num_loc_classes_def demo_ssd_def demo_prior_def real_ops_def CalcSize_def Let_def)
  have hit: "\<not> ssd_apart real_ops (1 / 2) (ssd_box real_ops demo_ssd (replicate 12 0) demo_prior 3 0 1 2) (ssd_box real_ops demo_ssd (replicate 12 0) demo_prior 3 0 1 0)"
    unfolding box[of 2, OF disjI2, OF refl] box[of 0, OF disjI1, OF refl] by (simp add: ssd_apart_def real_ops_def)
  have "ssd_class demo_sorts real_ops demo_ssd (replicate 12 0) demo_conf demo_prior 3 0 1 = [(9 / 10, 0)]"
    unfolding ssd_class_def cands demo_ssd_simps sorted using hit by (simp add: demo_ssd_def label_of_def)
  moreover have "ssd_class demo_sorts real_ops demo_ssd (replicate 12 0) demo_conf demo_prior 3 0 0 = []" by (simp add: ssd_class_def demo_ssd_def)
  ultimately have "ssd_all demo_sorts real_ops demo_ssd (replicate 12 0) demo_conf demo_prior 3 0 = [(9 / 10, 1, 0)]"
    by (simp add: ssd_all_def tag_def demo_ssd_def three)
  then have "ssd_image demo_sorts real_ops demo_ssd (replicate 12 0) demo_conf demo_prior 3 0 = [(9 / 10, 1, 0)]" by (simp add: ssd_image_def demo_ssd_def)
  then show ?thesis using box[of 0] by (simp add: ssd_rows_def box_row_def) (simp add: real_ops_def)
qed

lemma demo_ssd_output: "ssd_output demo_sorts real_ops demo_ssd (replicate 12 0) demo_conf demo_prior 3 1 = [0, 1, 9 / 10, 0, 0, 2, 2, -1, -1, -1, -1, -1, -1, -1]"
  unfolding ssd_output_def demo_ssd_rows Let_def written_def by (simp add: real_ops_def demo_ssd_def numeral_nat)

lemma demo_ssd_inputs:
  "CpuFunc.dim (demo_tensor [1, 12] (replicate 12 0)) 0 = Inr 1" "CpuFunc.dim (demo_tensor [1, 2, 12] demo_prior) 2 = Inr 12" "t_data (demo_tensor sh xs) = xs"
  "(demo_tensor sh xs)\<lparr>t_data := ys\<rparr> = demo_tensor sh ys" "length demo_prior = 24" "length demo_conf = 6" "(12 :: nat) div 4 = 3" "num_loc_classes demo_ssd = 1"
  by (simp_all add: CpuFunc.dim_def elem_def demo_tensor_def demo_prior_def demo_conf_def num_loc_classes_def demo_ssd_def)

lemma demo_ssd_priors:
  "k < 3 \<Longrightarrow> 0 < fsub real_ops (demo_prior ! (k * 4 + 2)) (demo_prior ! (k * 4)) \<and> 0 < fsub real_ops (demo_prior ! (k * 4 + 3)) (demo_prior ! (k * 4 + 1))"
proof -
  assume "k < 3"
  then have "k = 0 \<or> k = 1 \<or> k = 2" by auto
  then show ?thesis by (elim disjE) (simp_all add: demo_prior_def real_ops_def)
qed

theorem ssd_run_described_witness:
  "SSDDetectionFunc_run demo_sorts real_ops demo_ssd [demo_tensor [1, 12] (replicate 12 0), demo_tensor [1, 6] demo_conf, demo_tensor [1, 2, 12] demo_prior]
     (demo_tensor [1, 1, 2, 7] (replicate 14 0)) = Inr (demo_tensor [1, 1, 2, 7] [0, 1, 9 / 10, 0, 0, 2, 2, -1, -1, -1, -1, -1, -1, -1])"
  using ssd_run_described[of "demo_tensor [1, 12] (replicate 12 0)" 1 "demo_tensor [1, 2, 12] demo_prior" 12 demo_ssd "demo_tensor [1, 6] demo_conf" real_ops "demo_tensor [1, 1, 2, 7] (replicate 14 0)" demo_sorts,
      unfolded demo_ssd_inputs demo_ssd_simps demo_ssd_output] demo_ssd_priors by (simp add: demo_sorts_ok)

text \<open>
  What the description selects of a class: boxes in the order of their scores, none of them
  overlapping another too much, and every candidate among the best \<open>top_k\<close> is selected or overlaps one
  that is.
\<close>

lemma ssd_class_selects:
  assumes "int c \<noteq> sp_background_label_id S" "label_of S c \<noteq> sp_background_label_id S"
  shows "subseq (ssd_class Q F S loc conf prior P i c) (take (nat (sp_top_k S)) (sort_class Q (sp_top_k S) (cands S conf P i c P)))"
    and "sorted_wrt (\<lambda>a b. ssd_apart F (sp_nms_threshold S) (ssd_box F S loc prior P i c (snd b)) (ssd_box F S loc prior P i c (snd a))) (ssd_class Q F S loc conf prior P i c)"
    and "\<forall>a\<in>set (take (nat (sp_top_k S)) (sort_class Q (sp_top_k S) (cands S conf P i c P))). a \<in> set (ssd_class Q F S loc conf prior P i c) \<or>
      (\<exists>b\<in>set (ssd_class Q F S loc conf prior P i c). \<not> ssd_apart F (sp_nms_threshold S) (ssd_box F S loc prior P i c (snd a)) (ssd_box F S loc prior P i c (snd b)))"
  using ssd_select_subseq[of F "sp_nms_threshold S" "ssd_box F S loc prior P i c" "[]" "take (nat (sp_top_k S)) (sort_class Q (sp_top_k S) (cands S conf P i c P))"]
    ssd_select_apart[of F "sp_nms_threshold S" "ssd_box F S loc prior P i c" "[]" "take (nat (sp_top_k S)) (sort_class Q (sp_top_k S) (cands S conf P i c P))"]
    ssd_select_dropped[of "take (nat (sp_top_k S)) (sort_class Q (sp_top_k S) (cands S conf P i c P))" F "sp_nms_threshold S" "ssd_box F S loc prior P i c" "[]"] assms
  by (auto simp: ssd_class_def)

end
