(* ===== verification/SsdNeon.thy ===== *)
theory SsdNeon
  imports SsdDetect
begin

text \<open>
  The SSD detection layer as it is built for processors with vector instructions
  (\<^verbatim>\<open>ssd_detection.cpp\<close>, under \<^verbatim>\<open>__ARM_NEON\<close>): scores are selected by comparing bit patterns in an unrolled loop, boxes are decoded
  with vector arithmetic and an approximation of the exponential function, and the detections are
  written straight to their places, which are computed from the numbers of detections per class.
  The bit pattern of a number as an \<^verbatim>\<open>int\<close> and the approximation are parameters.
\<close>

section \<open>Scores\<close>

text \<open>The pairs of scores and positions of a class, and the boxes it refers to by their label.\<close>

type_synonym 'f conf_map = "nat \<Rightarrow> (('f \<times> nat) list \<times> int option) option"

definition push_score :: "'f conf_map \<Rightarrow> nat \<Rightarrow> 'f \<times> nat \<Rightarrow> 'f conf_map" where
  "push_score m c x = m(c \<mapsto> (case m c of None \<Rightarrow> ([x], None) | Some (xs, b) \<Rightarrow> (xs @ [x], b)))"

function select_loop :: "nat \<Rightarrow> (nat \<Rightarrow> 's \<Rightarrow> 's res) \<Rightarrow> nat \<Rightarrow> 's \<Rightarrow> 's res" where
  "select_loop all_classes SELECT_SCORE j s =
    (if j + 8 < all_classes then bind_res (loop_from j 8 SELECT_SCORE s) (select_loop all_classes SELECT_SCORE (j + 8))
     else loop_from j (all_classes - j) SELECT_SCORE s)"
  by pat_completeness auto
termination by (relation "measure (\<lambda>(all_classes, _, j, _). all_classes - j)") auto

definition select_score :: "'f ssd \<Rightarrow> ('f \<Rightarrow> int) \<Rightarrow> 'f list \<Rightarrow> nat \<Rightarrow> nat \<Rightarrow> 'f conf_map \<Rightarrow> 'f conf_map res" where
  "select_score S ival conf_data base j label_scores =
    bind_res (elem conf_data (base + j)) (\<lambda>v.
    if ival v > ival (sp_obj_threshold S) then
      let c = j mod sp_num_classes S in
      Inr (if int c \<noteq> sp_background_label_id S \<or> \<not> sp_share_location S then push_score label_scores c (v, j) else label_scores)
    else Inr label_scores)"

definition GetConfidenceScores :: "'f :: {linorder, zero} ssd \<Rightarrow> ('f \<Rightarrow> int) \<Rightarrow> 'f list \<Rightarrow> nat \<Rightarrow> nat \<Rightarrow> 'f conf_map list res" where
  "GetConfidenceScores S ival conf_data num num_preds_per_class =
    assert_res (sp_obj_threshold S > 0)
     (let all_classes = num_preds_per_class * sp_num_classes S in
      per_image num (\<lambda>i. select_loop all_classes (select_score S ival conf_data (i * all_classes)) 0 (\<lambda>_. None)))"

section \<open>Boxes\<close>

definition check_background :: "'f ssd \<Rightarrow> nat \<Rightarrow> bool" where
  "check_background S c = (if sp_share_location S then False else int c = sp_background_label_id S)"

text \<open>The best scores of a class with the numbers of their priors; the numbers are collected for decoding.\<close>

definition collect_class :: "'f sorts \<Rightarrow> 'f :: linorder ssd \<Rightarrow> nat \<Rightarrow> 'f conf_map \<times> nat list \<Rightarrow> ('f conf_map \<times> nat list) res" where
  "collect_class Q S c st = (case st of (m, keep) \<Rightarrow>
     case m c of None \<Rightarrow> Inr st | Some (scores0, _) \<Rightarrow>
     if check_background S c then Inr st else
     if sp_top_k S < 0 then Inl OutOfRange else
     let scores = sort_class Q (sp_top_k S) scores0; len = top_length (sp_top_k S) scores;
         best = map (\<lambda>(s, j). (s, j div sp_num_classes S)) (take len scores)
     in Inr (m(c \<mapsto> (best @ drop len scores, Some (-1))), keep @ map snd best))"

text \<open>Negation is subtraction from zero; \<open>E\<close> is the fast exponential function.\<close>

definition init_bbox :: "'f :: {linorder, zero} fops \<Rightarrow> ('f \<Rightarrow> 'f) \<Rightarrow> 'f ssd \<Rightarrow> bool \<Rightarrow> nat \<Rightarrow> 'f list \<Rightarrow> 'f list \<Rightarrow> nat \<Rightarrow> nat \<Rightarrow> nat \<Rightarrow> 'f bbox_l res" where
  "init_bbox F E S variance_encoded num_priors loc_data prior_data i c k =
    bind_res (quad prior_data (k * 4)) (\<lambda>(a0, a1, a2, a3).
    let neg = fsub F 0; one = of_int_f F 1;
        w = fmul F (fadd F a2 (neg a0)) one; h = fmul F (fadd F a3 (neg a1)) one;
        cx = fmul F (fadd F a0 a2) (fhalf F); cy = fmul F (fadd F a1 a3) (fhalf F) in
    assert_res (w > 0) (assert_res (h > 0)
   (bind_res (quad prior_data (k * 4 + 4 * num_priors)) (\<lambda>(q0, q1, q2, q3).
    let (v0, v1, v2, v3) = (if variance_encoded then (one, one, one, one) else (q0, q1, q2, q3)) in
    bind_res (quad loc_data (i * (num_priors * num_loc_classes S * 4) + k * num_loc_classes S * 4 + c * 4)) (\<lambda>(l0, l1, l2, l3).
    let ew = E (fmul F v2 l2); eh = E (fmul F v3 l3);
        ax = fadd F cx (fmul F (fmul F v0 l0) w); ay = fadd F cy (fmul F (fmul F v1 l1) h);
        aw = fadd F 0 (fmul F ew w); ah = fadd F 0 (fmul F eh h)
    in Inr (CalcSize F \<lparr>xmin = fadd F ax (fmul F (neg aw) (fhalf F)), ymin = fadd F ay (fmul F (neg ah) (fhalf F)),
         xmax = fadd F ax (fmul F aw (fhalf F)), ymax = fadd F ay (fmul F ah (fhalf F)), bsize = 0\<rparr>))))))"

definition zero_box :: "'f :: zero bbox_l" where
  "zero_box = \<lparr>xmin = 0, ymin = 0, xmax = 0, ymax = 0, bsize = 0\<rparr>"

definition decode_kept :: "'f :: {linorder, zero} fops \<Rightarrow> ('f \<Rightarrow> 'f) \<Rightarrow> 'f ssd \<Rightarrow> bool \<Rightarrow> nat \<Rightarrow> 'f list \<Rightarrow> 'f list \<Rightarrow> nat list \<Rightarrow> nat \<Rightarrow> nat \<Rightarrow> 'f bbox_l list \<Rightarrow> 'f bbox_l list res" where
  "decode_kept F E S variance_encoded num_priors loc_data prior_data keep i c =
    loop (length keep) (\<lambda>k p. bind_res (init_bbox F E S variance_encoded num_priors loc_data prior_data i c (keep ! k)) (\<lambda>b. put_elem (keep ! k) b p))"

definition decode_label :: "'f :: {linorder, zero} fops \<Rightarrow> ('f \<Rightarrow> 'f) \<Rightarrow> 'f ssd \<Rightarrow> bool \<Rightarrow> nat \<Rightarrow> 'f list \<Rightarrow> 'f list \<Rightarrow> nat list \<Rightarrow> nat \<Rightarrow> nat \<Rightarrow>
    'f conf_map \<times> (int \<Rightarrow> 'f bbox_l list option) \<Rightarrow> ('f conf_map \<times> (int \<Rightarrow> 'f bbox_l list option)) res" where
  "decode_label F E S variance_encoded num_priors loc_data prior_data keep i c st = (case st of (m, boxes) \<Rightarrow>
     let fill = (\<lambda>label m'. bind_res (decode_kept F E S variance_encoded num_priors loc_data prior_data keep i c (replicate num_priors zero_box)) (\<lambda>p. Inr (m', boxes(label \<mapsto> p)))) in
     if sp_share_location S then assert_res (-1 \<noteq> sp_background_label_id S) (fill (-1) m)
     else if int c = sp_background_label_id S then Inr st
     else case m c of None \<Rightarrow> Inr st | Some (scores, _) \<Rightarrow> fill (int c) (m(c \<mapsto> (scores, Some (int c)))))"

text \<open>Each vector of boxes is created empty and filled once, so it starts as zeros.\<close>

definition GetLocBBox_opt :: "'f sorts \<Rightarrow> 'f :: {linorder, zero} fops \<Rightarrow> ('f \<Rightarrow> 'f) \<Rightarrow> 'f ssd \<Rightarrow> Decode_CodeType \<Rightarrow> bool \<Rightarrow> 'f list \<Rightarrow> 'f list \<Rightarrow> nat \<Rightarrow> nat \<Rightarrow> 'f conf_map list \<Rightarrow>
    ('f conf_map \<times> (int \<Rightarrow> 'f bbox_l list option)) list res" where
  "GetLocBBox_opt Q F E S ct variance_encoded loc_data prior_data num num_priors all_conf_scores =
    assert_res (ct = CENTER_SIZE)
     (per_image num (\<lambda>i.
        bind_res (loop (sp_num_classes S) (collect_class Q S) (all_conf_scores ! i, [])) (\<lambda>(m, keep).
        loop (num_loc_classes S) (decode_label F E S variance_encoded num_priors loc_data prior_data keep i) (m, \<lambda>_. None))))"

section \<open>Suppression\<close>

fun neon_keeps :: "'f :: {linorder, zero} fops \<Rightarrow> 'f bbox_l list \<Rightarrow> 'f \<Rightarrow> nat \<Rightarrow> ('f \<times> nat \<times> nat) list \<Rightarrow> bool res" where
  "neon_keeps F bboxes threshold idx [] = Inr True"
| "neon_keeps F bboxes threshold idx (kept # pairs) = bind_res (elem bboxes idx) (\<lambda>b1. bind_res (elem bboxes (snd (snd kept))) (\<lambda>b2.
     if ssd_apart F threshold b1 b2 then neon_keeps F bboxes threshold idx pairs else Inr False))"

definition neon_step :: "'f :: {linorder, zero} fops \<Rightarrow> 'f bbox_l list \<Rightarrow> ('f \<times> nat) list \<Rightarrow> 'f \<Rightarrow> nat \<Rightarrow> nat \<Rightarrow> nat \<Rightarrow> ('f \<times> nat \<times> nat) list \<times> 'f \<Rightarrow>
    (('f \<times> nat \<times> nat) list \<times> 'f) res" where
  "neon_step F bboxes conf_score eta label offset i st = (case st of (pairs, adaptive_threshold) \<Rightarrow>
     bind_res (elem conf_score i) (\<lambda>(s, idx). bind_res (neon_keeps F bboxes adaptive_threshold idx (drop offset pairs)) (\<lambda>keep.
     Inr (if keep then pairs @ [(s, label, idx)] else pairs,
          if keep \<and> eta < of_int_f F 1 \<and> adaptive_threshold > fhalf F then fmul F adaptive_threshold eta else adaptive_threshold))))"

definition ApplyNMSFast :: "'f :: {linorder, zero} fops \<Rightarrow> 'f bbox_l list \<Rightarrow> ('f \<times> nat) list \<Rightarrow> 'f \<Rightarrow> 'f \<Rightarrow> int \<Rightarrow> nat \<Rightarrow> ('f \<times> nat \<times> nat) list \<Rightarrow>
    (('f \<times> nat \<times> nat) list \<times> nat) res" where
  "ApplyNMSFast F bboxes conf_score nms_threshold eta top_k label pairs =
    (let offset = length pairs in
     bind_res (loop (top_length top_k conf_score) (neon_step F bboxes conf_score eta label offset) (pairs, nms_threshold)) (\<lambda>(pairs', _).
     Inr (pairs', length pairs' - offset)))"

section \<open>Output\<close>

text \<open>For each label the number of its detections, then the place of the first of them, and how many are written.\<close>

type_synonym counts = "nat \<Rightarrow> (nat \<times> nat) option"

definition neon_class :: "'f :: {linorder, zero} fops \<Rightarrow> 'f ssd \<Rightarrow> 'f \<Rightarrow> (int \<Rightarrow> 'f bbox_l list option) \<Rightarrow> 'f conf_map \<Rightarrow> nat \<Rightarrow>
    ('f \<times> nat \<times> nat) list \<times> counts \<Rightarrow> (('f \<times> nat \<times> nat) list \<times> counts) res" where
  "neon_class F S eta boxes conf_scores c st = (case st of (pairs, counts) \<Rightarrow>
     case conf_scores c of None \<Rightarrow> Inr st | Some (aa, lab) \<Rightarrow>
     if check_background S c then Inr st else
     case lab of None \<Rightarrow> Inl NullDeref | Some l \<Rightarrow>
     bind_res (ApplyNMSFast F (case boxes l of None \<Rightarrow> [] | Some bs \<Rightarrow> bs) aa (sp_nms_threshold S) eta (sp_top_k S) c pairs) (\<lambda>(pairs', n).
     Inr (pairs', counts(c \<mapsto> (n, 0)))))"

definition bump_first :: "nat \<Rightarrow> counts \<Rightarrow> counts" where
  "bump_first c m = m(c \<mapsto> (case m c of None \<Rightarrow> (1, 0) | Some (a, b) \<Rightarrow> (Suc a, b)))"

text \<open>The number of each label becomes the sum of the numbers before it, in the order of the labels.\<close>

fun to_offsets :: "nat list \<Rightarrow> nat \<Rightarrow> counts \<Rightarrow> counts" where
  "to_offsets [] acc m = m"
| "to_offsets (c # cs) acc m = (case m c of None \<Rightarrow> to_offsets cs acc m | Some (n, w) \<Rightarrow> to_offsets cs (acc + n) (m(c \<mapsto> (acc, w))))"

definition place_row :: "'f fops \<Rightarrow> nat \<Rightarrow> nat \<Rightarrow> (int \<Rightarrow> 'f bbox_l list option) \<Rightarrow> 'f conf_map \<Rightarrow> 'f \<times> nat \<times> nat \<Rightarrow> counts \<times> 'f list \<Rightarrow> (counts \<times> 'f list) res" where
  "place_row F num_shift i boxes conf_scores p st = (case p of (s, label, idx) \<Rightarrow> case st of (m, out) \<Rightarrow>
     case (case m label of None \<Rightarrow> (0, 0) | Some n \<Rightarrow> n) of (first, written_n) \<Rightarrow>
     case conf_scores label of None \<Rightarrow> Inl NullDeref | Some (_, None) \<Rightarrow> Inl NullDeref | Some (_, Some l) \<Rightarrow>
     bind_res (elem (case boxes l of None \<Rightarrow> [] | Some bs \<Rightarrow> bs) idx) (\<lambda>b.
     bind_res (write_row (first + written_n + num_shift) (box_row F i label s b) out) (\<lambda>out'.
     Inr (m(label \<mapsto> (first, Suc written_n)), out'))))"

fun place_rows :: "'f fops \<Rightarrow> nat \<Rightarrow> nat \<Rightarrow> (int \<Rightarrow> 'f bbox_l list option) \<Rightarrow> 'f conf_map \<Rightarrow> ('f \<times> nat \<times> nat) list \<Rightarrow> counts \<times> 'f list \<Rightarrow> (counts \<times> 'f list) res" where
  "place_rows F num_shift i boxes conf_scores [] st = Inr st"
| "place_rows F num_shift i boxes conf_scores (p # ps) st = bind_res (place_row F num_shift i boxes conf_scores p st) (place_rows F num_shift i boxes conf_scores ps)"

definition neon_image :: "'f sorts \<Rightarrow> 'f :: {linorder, zero} fops \<Rightarrow> 'f ssd \<Rightarrow> 'f \<Rightarrow> ('f conf_map \<times> (int \<Rightarrow> 'f bbox_l list option)) list \<Rightarrow> nat \<Rightarrow> nat \<times> 'f list \<Rightarrow> (nat \<times> 'f list) res" where
  "neon_image Q F S eta decoded i st = (case st of (num_shift, out) \<Rightarrow> case decoded ! i of (conf_scores, boxes) \<Rightarrow>
     let C = sp_num_classes S in
     bind_res (loop C (neon_class F S eta boxes conf_scores) ([], \<lambda>_. None)) (\<lambda>(pairs, counts).
     let (ps, counts') = (if sp_keep_topk S > -1 \<and> int (length pairs) > sp_keep_topk S
           then let kept = take (nat (sp_keep_topk S)) (sort_pairs Q pairs) in
                (kept, foldl (\<lambda>m (s, c, idx). bump_first c m) (\<lambda>c. map_option (\<lambda>(n, w). (0, w)) (counts c)) kept)
           else (pairs, counts))
     in bind_res (place_rows F num_shift i boxes conf_scores ps (to_offsets [0..<C] 0 counts', out)) (\<lambda>(_, out').
        Inr (num_shift + length ps, out'))))"

definition neon_run :: "'f sorts \<Rightarrow> 'f :: {linorder, zero} fops \<Rightarrow> ('f \<Rightarrow> 'f) \<Rightarrow> ('f \<Rightarrow> int) \<Rightarrow> 'f ssd \<Rightarrow> 'f tensor list \<Rightarrow> 'f tensor \<Rightarrow> bool \<Rightarrow> 'f \<Rightarrow> Decode_CodeType \<Rightarrow> 'f tensor res" where
  "neon_run Q F E ival S bottoms top0 variance_encoded eta ct =
    (let loc = bottoms ! 0; conf = bottoms ! 1; prior = bottoms ! 2 in
     bind_res (dim loc 0) (\<lambda>num. bind_res (dim prior 2) (\<lambda>pw. let num_priors = pw div 4 in
     bind_res (GetConfidenceScores S ival (t_data conf) num num_priors) (\<lambda>all_conf_scores.
     bind_res (GetLocBBox_opt Q F E S ct variance_encoded (t_data loc) (t_data prior) num num_priors all_conf_scores) (\<lambda>decoded.
     with_data top0 (bind_res (loop num (neon_image Q F S eta decoded) (0, t_data top0)) (\<lambda>(num_shift, out).
       let output_size = nat (int num * sp_keep_topk S * 7) in
       loop_from (num_shift * 7) (output_size - num_shift * 7) (\<lambda>k. put_elem k (of_int_f F (-1))) out)))))))"

text \<open>The entry of the layer: the checks are shared, the rest is the vector version.\<close>

definition SSDDetectionFunc_run_neon :: "'f sorts \<Rightarrow> 'f :: {linorder, zero} fops \<Rightarrow> ('f \<Rightarrow> 'f) \<Rightarrow> ('f \<Rightarrow> int) \<Rightarrow> 'f ssd \<Rightarrow> 'f tensor list \<Rightarrow> 'f tensor \<Rightarrow> 'f tensor res" where
  "SSDDetectionFunc_run_neon Q F E ival S bottoms top0 =
    assert_res (length bottoms = 3) (bind_res (code_type_of (sp_code_type S)) (\<lambda>ct. neon_run Q F E ival S bottoms top0 False (of_int_f F 1) ct))"

end
