(* ===== verification/SsdPlace.thy ===== *)
theory SsdPlace
  imports SsdNeon SsdSpec
begin

text \<open>
  The vector version of the SSD layer gives the detections of the description: the unrolled selection
  by bit patterns finds the same scores, the boxes are the same, and the places computed from the
  numbers per class put the detections in the order of their classes.
\<close>

section \<open>Scores\<close>

declare select_loop.simps [simp del]

lemma select_loop_eq: "select_loop n f j s = loop_from j (n - j) f s"
proof (induction n f j s rule: select_loop.induct)
  case (1 n f j s)
  show ?case
  proof (cases "j + 8 < n")
    case True
    then have "loop_from j (n - j) f s = bind_res (loop_from j 8 f s) (loop_from (j + 8) (n - (j + 8)) f)"
      using loop_from_add[of j 8 "n - (j + 8)" f s] by simp
    then show ?thesis using 1 True by (subst select_loop.simps) (auto simp: bind_res_def split: sum.splits)
  qed (simp add: select_loop.simps)
qed

text \<open>The law of the bit patterns: against the threshold, which is positive, they compare like the numbers.\<close>

definition bits_ok :: "('f :: {linorder, zero} \<Rightarrow> int) \<Rightarrow> 'f \<Rightarrow> bool" where
  "bits_ok ival t = (\<forall>v. ival t < ival v \<longleftrightarrow> t < v)"

definition flat :: "nat \<Rightarrow> nat \<Rightarrow> ('f \<times> nat) list \<Rightarrow> ('f \<times> nat) list" where
  "flat C c xs = map (\<lambda>(s, p). (s, p * C + c)) xs"

definition chosen :: "'f ssd \<Rightarrow> nat \<Rightarrow> bool" where
  "chosen S c = (c < sp_num_classes S \<and> (int c \<noteq> sp_background_label_id S \<or> \<not> sp_share_location S))"

definition optp :: "'a list \<Rightarrow> ('a list \<times> int option) option" where
  "optp xs = (if xs = [] then None else Some (xs, None))"

lemma push_score_optp: "m c = optp xs \<Longrightarrow> push_score m c x = m(c := optp (xs @ [x]))"
  by (auto simp: push_score_def optp_def)

lemma neon_scores:
  assumes "num * (P * sp_num_classes S) \<le> length conf" "0 < sp_obj_threshold S" "bits_ok ival (sp_obj_threshold S)"
  shows "\<exists>ms. GetConfidenceScores S ival conf num P = Inr ms \<and> length ms = num \<and>
    (\<forall>i<num. \<forall>c. (ms ! i) c = (if chosen S c then optp (flat (sp_num_classes S) c (cands S conf P i c P)) else None))"
proof -
  let ?C = "sp_num_classes S"
  have "\<exists>ms. per_image num (\<lambda>i. select_loop (P * ?C) (select_score S ival conf (i * (P * ?C))) 0 (\<lambda>_. None)) = Inr ms \<and> length ms = num \<and>
    (\<forall>i<num. \<forall>c. (ms ! i) c = (if chosen S c then optp (flat ?C c (cands S conf P i c P)) else None))"
  proof (rule per_image_ok)
    fix i assume i: "i < num"
    let ?step = "\<lambda>p c. select_score S ival conf (i * (P * ?C)) (p * ?C + c)" and ?I = "\<lambda>n c. if chosen S c then optp (flat ?C c (cands S conf P i c n)) else None"
    have nest: "select_loop (P * ?C) (select_score S ival conf (i * (P * ?C))) 0 s = loop P (\<lambda>p. loop ?C (?step p)) s" for s
      unfolding select_loop_eq loop_nest by (simp add: div_mult_mod_eq)
    have "\<exists>m. loop P (\<lambda>p. loop ?C (?step p)) (\<lambda>_. None) = Inr m \<and> (\<forall>c. m c = ?I P c)"
    proof (rule loop_inv[where I = "\<lambda>p m. \<forall>c. m c = ?I p c"])
      fix p m assume p: "p < P" and I: "\<forall>c. m c = ?I p c"
      have "\<exists>m'. loop ?C (?step p) m = Inr m' \<and> (\<forall>c. m' c = ?I (if c < ?C then Suc p else p) c)"
      proof (rule loop_inv[where I = "\<lambda>k m. \<forall>c. m c = ?I (if c < k then Suc p else p) c"])
        fix k m assume k: "k < ?C" and J: "\<forall>c. m c = ?I (if c < k then Suc p else p) c"
        let ?v = "conf ! (i * (P * ?C) + p * ?C + k)"
        have "i * (P * ?C) + (p * ?C + k) < length conf" using index3[OF i p k] assms(1) by linarith
        then have el: "elem conf (i * (P * ?C) + (p * ?C + k)) = Inr ?v" by (simp add: elem_def add.assoc)
        have md: "(p * ?C + k) mod ?C = k" using k by simp
        have bits: "ival (sp_obj_threshold S) < ival ?v \<longleftrightarrow> sp_obj_threshold S < ?v" using assms(2,3) by (simp add: bits_ok_def)
        have "push_score m k (?v, p * ?C + k) = m(k := optp (flat ?C k (cands S conf P i k p) @ [(?v, p * ?C + k)]))" if "chosen S k"
          using J that by (intro push_score_optp) simp
        then have "?step p k m = Inr (m(k := ?I (Suc p) k))"
          using J k by (auto simp: select_score_def bind_res_def el bits md Let_def chosen_def cands_Suc flat_def fun_eq_iff)
        moreover have "\<forall>c. (m(k := ?I (Suc p) k)) c = ?I (if c < Suc k then Suc p else p) c" using J by (simp add: less_Suc_eq)
        ultimately show "\<exists>m'. ?step p k m = Inr m' \<and> (\<forall>c. m' c = ?I (if c < Suc k then Suc p else p) c)" by blast
      qed (simp add: I)
      then show "\<exists>m'. loop ?C (?step p) m = Inr m' \<and> (\<forall>c. m' c = ?I (Suc p) c)" by (auto simp: chosen_def)
    qed (simp add: optp_def flat_def)
    then show "\<exists>m. select_loop (P * ?C) (select_score S ival conf (i * (P * ?C))) 0 (\<lambda>_. None) = Inr m \<and> (\<forall>c. m c = ?I P c)" by (simp only: nest)
  qed
  then show ?thesis using assms(2) by (simp add: GetConfidenceScores_def assert_res_def Let_def)
qed

section \<open>The best scores\<close>

text \<open>
  The vector version sorts the same scores with other numbers beside them; the sorts see the scores only.
\<close>

lemma sort_class_map:
  assumes "sorts_ok Q" "0 \<le> k"
  shows "sort_class Q k (map (\<lambda>(s, p). (s, g p)) xs) = map (\<lambda>(s, p). (s, g p)) (sort_class Q k xs)"
proof -
  let ?h = "\<lambda>(s, p). (s, g p)" and ?ps = "if k < int (length xs) then std_partial_sort0 Q (nat k) (map fst xs) else std_sort0 Q (map fst xs)"
  have scores: "map fst (map ?h xs) = map fst xs" by (simp add: case_prod_unfold comp_def)
  have "mset ?ps = mset [0..<length xs]" using sort_class_ranks[OF assms, of xs] unfolding ranks_def by (metis length_map)
  then have "set ?ps = {0..<length xs}" by (metis set_mset_mset set_upt)
  then have "map ((!) (map ?h xs)) ?ps = map (\<lambda>i. ?h (xs ! i)) ?ps" by (intro map_cong refl) auto
  then show ?thesis unfolding sort_class_def scores length_map by (simp only: map_map comp_def)
qed

definition best :: "'f sorts \<Rightarrow> 'f :: linorder ssd \<Rightarrow> 'f list \<Rightarrow> nat \<Rightarrow> nat \<Rightarrow> nat \<Rightarrow> ('f \<times> nat) list" where
  "best Q S conf P i c = take (nat (sp_top_k S)) (sort_class Q (sp_top_k S) (cands S conf P i c P))"

definition kept_of :: "'f sorts \<Rightarrow> 'f :: linorder ssd \<Rightarrow> 'f list \<Rightarrow> nat \<Rightarrow> nat \<Rightarrow> nat \<Rightarrow> nat list" where
  "kept_of Q S conf P i n = concat (map (\<lambda>c. if int c = sp_background_label_id S then [] else map snd (best Q S conf P i c)) [0..<n])"

text \<open>The scores of a class before and after the best are found.\<close>

definition raw_class :: "'f :: linorder ssd \<Rightarrow> 'f list \<Rightarrow> nat \<Rightarrow> nat \<Rightarrow> 'f conf_map \<Rightarrow> nat \<Rightarrow> bool" where
  "raw_class S conf P i m c = (m c = (if chosen S c then optp (flat (sp_num_classes S) c (cands S conf P i c P)) else None))"

definition best_class :: "'f sorts \<Rightarrow> 'f :: linorder ssd \<Rightarrow> 'f list \<Rightarrow> nat \<Rightarrow> nat \<Rightarrow> int \<Rightarrow> 'f conf_map \<Rightarrow> nat \<Rightarrow> bool" where
  "best_class Q S conf P i l m c = (if int c = sp_background_label_id S then sp_share_location S \<longrightarrow> m c = None
     else if cands S conf P i c P = [] then m c = None
     else \<exists>xs. m c = Some (xs, Some l) \<and> top_length (sp_top_k S) xs = length (best Q S conf P i c) \<and> take (length (best Q S conf P i c)) xs = best Q S conf P i c)"

lemma collect_class_run:
  assumes "0 \<le> sp_top_k S" "raw_class S conf P i m c" "c < sp_num_classes S" "sorts_ok Q"
  shows "\<exists>m'. collect_class Q S c (m, keep) = Inr (m', keep @ (if int c = sp_background_label_id S then [] else map snd (best Q S conf P i c))) \<and>
    best_class Q S conf P i (-1) m' c \<and> (\<forall>k. k \<noteq> c \<longrightarrow> m' k = m k)"
proof (cases "int c = sp_background_label_id S \<or> cands S conf P i c P = []")
  case True
  then have "collect_class Q S c (m, keep) = Inr (m, keep)"
    using assms(2) by (auto simp: collect_class_def raw_class_def chosen_def optp_def flat_def check_background_def split: if_splits)
  moreover have "best_class Q S conf P i (-1) m c" using True assms(2) by (auto simp: best_class_def raw_class_def chosen_def optp_def flat_def)
  moreover have "int c \<noteq> sp_background_label_id S \<Longrightarrow> best Q S conf P i c = []" using True assms(1,4) by (simp add: best_def)
  ultimately show ?thesis by auto
next
  case False
  let ?C = "sp_num_classes S" and ?xs = "sort_class Q (sp_top_k S) (cands S conf P i c P)"
  have m: "m c = Some (flat ?C c (cands S conf P i c P), None)"
    using assms(2,3) False by (simp add: raw_class_def chosen_def optp_def flat_def)
  have sorted: "sort_class Q (sp_top_k S) (flat ?C c (cands S conf P i c P)) = flat ?C c ?xs" unfolding flat_def by (rule sort_class_map[OF assms(4,1)])
  let ?n = "top_length (sp_top_k S) (flat ?C c ?xs)"
  have n: "?n = length (best Q S conf P i c)" using assms(1,4) by (simp add: top_length_def flat_def best_def min_def)
  have tk: "take (length (best Q S conf P i c)) ?xs = best Q S conf P i c" using assms(1,4) by (simp add: best_def min_def)
  have "map (\<lambda>(s, j). (s, j div ?C)) (flat ?C c ys) = ys" for ys :: "('a \<times> nat) list"
    using assms(3) by (simp add: flat_def case_prod_unfold comp_def)
  then have b: "map (\<lambda>(s, j). (s, j div ?C)) (take ?n (flat ?C c ?xs)) = best Q S conf P i c"
    unfolding n using tk by (simp add: flat_def flip: take_map)
  let ?r = "best Q S conf P i c @ drop ?n (flat ?C c ?xs)"
  have "collect_class Q S c (m, keep) = Inr (m(c \<mapsto> (?r, Some (-1))), keep @ map snd (best Q S conf P i c))"
    using m False assms(1) b sorted by (simp add: collect_class_def check_background_def Let_def del: map_map)
  moreover have "top_length (sp_top_k S) ?r = length (best Q S conf P i c)" using assms(1,4) by (simp add: top_length_def n) (simp add: flat_def best_def min_def)
  ultimately show ?thesis using False by (auto simp: best_class_def)
qed

lemma kept_of_Suc: "kept_of Q S conf P i (Suc n) = kept_of Q S conf P i n @ (if int n = sp_background_label_id S then [] else map snd (best Q S conf P i n))"
  by (simp add: kept_of_def)

lemma collect_run:
  assumes "0 \<le> sp_top_k S" "\<forall>c. raw_class S conf P i m c" "sorts_ok Q"
  shows "\<exists>m'. loop (sp_num_classes S) (collect_class Q S) (m, []) = Inr (m', kept_of Q S conf P i (sp_num_classes S)) \<and> (\<forall>c< sp_num_classes S. best_class Q S conf P i (-1) m' c)"
proof -
  let ?C = "sp_num_classes S"
  have "\<exists>st. loop ?C (collect_class Q S) (m, []) = Inr st \<and> (snd st = kept_of Q S conf P i ?C \<and> (\<forall>c<?C. best_class Q S conf P i (-1) (fst st) c) \<and> (\<forall>c. ?C \<le> c \<longrightarrow> raw_class S conf P i (fst st) c))"
  proof (rule loop_inv[where I = "\<lambda>k st. snd st = kept_of Q S conf P i k \<and> (\<forall>c<k. best_class Q S conf P i (-1) (fst st) c) \<and> (\<forall>c. k \<le> c \<longrightarrow> raw_class S conf P i (fst st) c)"])
    fix k st assume k: "k < ?C" and I: "snd st = kept_of Q S conf P i k \<and> (\<forall>c<k. best_class Q S conf P i (-1) (fst st) c) \<and> (\<forall>c. k \<le> c \<longrightarrow> raw_class S conf P i (fst st) c)"
    obtain m' where m': "collect_class Q S k st = Inr (m', kept_of Q S conf P i (Suc k))" "best_class Q S conf P i (-1) m' k" "\<forall>c. c \<noteq> k \<longrightarrow> m' c = fst st c"
      using collect_class_run[OF assms(1) _ k assms(3), of conf P i "fst st" "snd st", unfolded prod.collapse] I by (auto simp: kept_of_Suc)
    have "best_class Q S conf P i (-1) m' c = best_class Q S conf P i (-1) (fst st) c" "raw_class S conf P i m' c = raw_class S conf P i (fst st) c" if "c \<noteq> k" for c
      using m'(3) that by (simp_all add: best_class_def raw_class_def)
    then show "\<exists>st'. collect_class Q S k st = Inr st' \<and> (snd st' = kept_of Q S conf P i (Suc k) \<and> (\<forall>c<Suc k. best_class Q S conf P i (-1) (fst st') c) \<and> (\<forall>c. Suc k \<le> c \<longrightarrow> raw_class S conf P i (fst st') c))"
      using m'(1,2) I by (intro exI[of _ "(m', kept_of Q S conf P i (Suc k))"]) (auto simp: less_Suc_eq)
  qed (use assms(2) in \<open>simp add: kept_of_def\<close>)
  then show ?thesis by (metis prod.collapse)
qed

section \<open>Boxes\<close>

text \<open>The laws of the arithmetic that the vector version relies on.\<close>

definition vector_laws :: "'f :: {linorder, zero} fops \<Rightarrow> bool" where
  "vector_laws F = (\<forall>a b. fadd F a (fsub F 0 b) = fsub F a b \<and> fmul F a (of_int_f F 1) = a \<and> fadd F a b = fadd F b a \<and> fadd F 0 a = a \<and>
     fmul F (fsub F 0 a) b = fsub F 0 (fmul F a b))"

lemma init_bbox_run:
  assumes "vector_laws F" "i < num" "c < num_loc_classes S" "k < P" "num * (P * num_loc_classes S) * 4 \<le> length loc" "8 * P \<le> length prior"
    and "0 < fsub F (prior ! (k * 4 + 2)) (prior ! (k * 4)) \<and> 0 < fsub F (prior ! (k * 4 + 3)) (prior ! (k * 4 + 1))"
  shows "init_bbox F E S False P loc prior i c k = Inr (ssd_box (F\<lparr>fexp := E\<rparr>) S loc prior P i c k)"
proof -
  have "quad prior (k * 4) = Inr (quad_at prior (k * 4))" "quad prior (k * 4 + 4 * P) = Inr (quad_at prior (k * 4 + 4 * P))"
    using assms(4,6) by (auto intro!: quad_run)
  moreover have "quad loc (loc_at S P i c k) = Inr (quad_at loc (loc_at S P i c k))"
    using loc_at_bound[OF assms(2,4,3)] assms(5) by (intro quad_run) linarith
  moreover have "(if sp_share_location S then 0 else c) = c" using assms(3) by (simp add: num_loc_classes_def split: if_splits)
  moreover have laws: "fadd F a (fsub F 0 b) = fsub F a b" "fmul F a (of_int_f F 1) = a" "fadd F 0 a = a" "fmul F (fsub F 0 a) b = fsub F 0 (fmul F a b)" for a b
    using assms(1) by (auto simp: vector_laws_def)
  moreover have "fadd F (fmul F (fadd F (prior ! (k * 4)) (prior ! (k * 4 + 2))) (fhalf F)) (fmul F x y) = fadd F (fmul F x y) (fmul F (fadd F (prior ! (k * 4)) (prior ! (k * 4 + 2))) (fhalf F))"
    "fadd F (fmul F (fadd F (prior ! (k * 4 + 1)) (prior ! (k * 4 + 3))) (fhalf F)) (fmul F x y) = fadd F (fmul F x y) (fmul F (fadd F (prior ! (k * 4 + 1)) (prior ! (k * 4 + 3))) (fhalf F))" for x y
    using assms(1) by (auto simp: vector_laws_def)
  ultimately show ?thesis using assms(7)
    by (simp add: init_bbox_def bind_res_def quad_at_def assert_res_def Let_def loc_at_def[symmetric] ssd_box_def decode_box_def CalcSize_def)
qed

lemma decode_kept_run:
  assumes "\<And>k. k < P \<Longrightarrow> init_bbox F E S False P loc prior i c k = Inr (B k)" "\<forall>k\<in>set keep. k < P"
  shows "\<exists>v. decode_kept F E S False P loc prior keep i c (replicate P zero_box) = Inr v \<and> (length v = P \<and> (\<forall>k\<in>set keep. v ! k = B k))"
proof -
  have "\<exists>v. decode_kept F E S False P loc prior keep i c (replicate P zero_box) = Inr v \<and> (length v = P \<and> (\<forall>k\<in>set (take (length keep) keep). v ! k = B k))"
    unfolding decode_kept_def
  proof (rule loop_inv[where I = "\<lambda>n v. length v = P \<and> (\<forall>k\<in>set (take n keep). v ! k = B k)"])
    fix n v assume n: "n < length keep" and I: "length v = P \<and> (\<forall>k\<in>set (take n keep). v ! k = B k)"
    have "keep ! n < P" using assms(2) n by simp
    moreover have "set (take (Suc n) keep) = insert (keep ! n) (set (take n keep))" using n by (simp add: take_Suc_conv_app_nth)
    ultimately show "\<exists>v'. bind_res (init_bbox F E S False P loc prior i c (keep ! n)) (\<lambda>b. put_elem (keep ! n) b v) = Inr v' \<and> (length v' = P \<and> (\<forall>k\<in>set (take (Suc n) keep). v' ! k = B k))"
      using I assms(1) by (auto simp: bind_res_def put_elem_def nth_list_update)
  qed simp
  then show ?thesis by simp
qed

definition neon_ready :: "'f sorts \<Rightarrow> 'f :: {linorder, zero} fops \<Rightarrow> 'f ssd \<Rightarrow> 'f list \<Rightarrow> 'f list \<Rightarrow> 'f list \<Rightarrow> nat \<Rightarrow> nat \<Rightarrow> 'f conf_map \<Rightarrow> (int \<Rightarrow> 'f bbox_l list option) \<Rightarrow> nat \<Rightarrow> bool" where
  "neon_ready Q F S loc conf prior P i m boxes c = (best_class Q S conf P i (label_of S c) m c \<and>
     (int c \<noteq> sp_background_label_id S \<and> cands S conf P i c P \<noteq> [] \<longrightarrow>
       (\<exists>v. boxes (label_of S c) = Some v \<and> (\<forall>sc\<in>set (best Q S conf P i c). elem v (snd sc) = Inr (ssd_box F S loc prior P i c (snd sc))))))"

lemma best_bound: "sorts_ok Q \<Longrightarrow> 0 \<le> sp_top_k S \<Longrightarrow> sc \<in> set (best Q S conf P i c) \<Longrightarrow> snd sc < P"
  using cands_bound[of "fst sc" "snd sc" S conf P i c P] by (auto simp: best_def dest!: in_set_takeD)

lemma kept_of_bound: "sorts_ok Q \<Longrightarrow> 0 \<le> sp_top_k S \<Longrightarrow> k \<in> set (kept_of Q S conf P i n) \<Longrightarrow> k < P"
  using best_bound by (fastforce simp: kept_of_def split: if_splits)

lemma best_in_kept: "sc \<in> set (best Q S conf P i c) \<Longrightarrow> c < n \<Longrightarrow> int c \<noteq> sp_background_label_id S \<Longrightarrow> snd sc \<in> set (kept_of Q S conf P i n)"
  by (force simp: kept_of_def)

lemma neon_decoded:
  assumes "\<And>c k. c < num_loc_classes S \<Longrightarrow> k < P \<Longrightarrow> init_bbox F E S False P loc prior i c k = Inr (ssd_box G S loc prior P i c k)"
    and "sp_share_location S \<Longrightarrow> sp_background_label_id S \<noteq> -1" "\<forall>c< sp_num_classes S. best_class Q S conf P i (-1) m c" "sorts_ok Q" "0 \<le> sp_top_k S"
  shows "\<exists>r. loop (num_loc_classes S) (decode_label F E S False P loc prior (kept_of Q S conf P i (sp_num_classes S)) i) (m, \<lambda>_. None) = Inr r \<and>
    (\<forall>c< sp_num_classes S. neon_ready Q G S loc conf prior P i (fst r) (snd r) c)"
proof -
  let ?C = "sp_num_classes S" and ?keep = "kept_of Q S conf P i (sp_num_classes S)"
  have kept: "\<exists>v. decode_kept F E S False P loc prior ?keep i c (replicate P zero_box) = Inr v \<and> (length v = P \<and> (\<forall>k\<in>set ?keep. v ! k = ssd_box G S loc prior P i c k))"
    if "c < num_loc_classes S" for c using assms(1)[OF that] kept_of_bound[OF assms(4,5)] by (intro decode_kept_run) blast+
  have use: "\<forall>sc\<in>set (best Q S conf P i c). elem v (snd sc) = Inr (ssd_box G S loc prior P i c (snd sc))"
    if "length v = P" "\<forall>k\<in>set ?keep. v ! k = ssd_box G S loc prior P i c k" "c < ?C" "int c \<noteq> sp_background_label_id S" for v c
    using that best_bound[OF assms(4,5)] best_in_kept[OF _ that(3,4)] by (fastforce simp: elem_def)
  show ?thesis
  proof (cases "sp_share_location S")
    case True
    then have n: "num_loc_classes S = 1" and l: "label_of S c = -1" and b: "ssd_box G S loc prior P i c = ssd_box G S loc prior P i 0" for c
      by (simp_all add: num_loc_classes_def label_of_def ssd_box_def fun_eq_iff)
    obtain v where v: "decode_kept F E S False P loc prior ?keep i 0 (replicate P zero_box) = Inr v" "length v = P" "\<forall>k\<in>set ?keep. v ! k = ssd_box G S loc prior P i 0 k"
      using kept[of 0] n by auto
    have "loop 1 (decode_label F E S False P loc prior ?keep i) (m, \<lambda>_. None) = Inr (m, (\<lambda>_. None)(-1 \<mapsto> v))"
      using True assms(2) v(1) by (auto simp: decode_label_def bind_res_def assert_res_def)
    moreover have "neon_ready Q G S loc conf prior P i m ((\<lambda>_. None)(-1 \<mapsto> v)) c" if "c < ?C" for c
      using assms(3) that use[of v c] v(2,3) l b[of c] by (auto simp: neon_ready_def)
    ultimately show ?thesis unfolding n by auto
  next
    case False
    then have n: "num_loc_classes S = ?C" and l: "label_of S c = int c" for c by (simp_all add: num_loc_classes_def label_of_def)
    have "\<exists>r. loop ?C (decode_label F E S False P loc prior ?keep i) (m, \<lambda>_. None) = Inr r \<and>
        ((\<forall>c<?C. neon_ready Q G S loc conf prior P i (fst r) (snd r) c) \<and> (\<forall>c<?C. ?C \<le> c \<longrightarrow> best_class Q S conf P i (-1) (fst r) c))"
    proof (rule loop_inv[where I = "\<lambda>k r. (\<forall>c<k. neon_ready Q G S loc conf prior P i (fst r) (snd r) c) \<and> (\<forall>c<?C. k \<le> c \<longrightarrow> best_class Q S conf P i (-1) (fst r) c)"])
      fix k r assume k: "k < ?C" and I: "(\<forall>c<k. neon_ready Q G S loc conf prior P i (fst r) (snd r) c) \<and> (\<forall>c<?C. k \<le> c \<longrightarrow> best_class Q S conf P i (-1) (fst r) c)"
      obtain v where v: "decode_kept F E S False P loc prior ?keep i k (replicate P zero_box) = Inr v" "length v = P" "\<forall>j\<in>set ?keep. v ! j = ssd_box G S loc prior P i k j"
        using kept[of k] k n by auto
      have bk: "best_class Q S conf P i (-1) (fst r) k" using I k by simp
      show "\<exists>r'. decode_label F E S False P loc prior ?keep i k r = Inr r' \<and>
          ((\<forall>c<Suc k. neon_ready Q G S loc conf prior P i (fst r') (snd r') c) \<and> (\<forall>c<?C. Suc k \<le> c \<longrightarrow> best_class Q S conf P i (-1) (fst r') c))"
      proof (cases "int k = sp_background_label_id S \<or> cands S conf P i k P = []")
        case True
        then have "decode_label F E S False P loc prior ?keep i k r = Inr r" using False bk by (cases r) (auto simp: decode_label_def best_class_def split: if_splits)
        moreover have "neon_ready Q G S loc conf prior P i (fst r) (snd r) k" using True bk False by (auto simp: neon_ready_def best_class_def l)
        ultimately show ?thesis using I by (auto simp: less_Suc_eq)
      next
        case used: False
        then obtain xs where xs: "fst r k = Some (xs, Some (-1))" "top_length (sp_top_k S) xs = length (best Q S conf P i k)" "take (length (best Q S conf P i k)) xs = best Q S conf P i k"
          using bk by (auto simp: best_class_def)
        let ?m = "(fst r)(k \<mapsto> (xs, Some (int k)))" and ?b = "(snd r)(int k \<mapsto> v)"
        have "decode_label F E S False P loc prior ?keep i k r = Inr (?m, ?b)" using False used xs(1) v(1) by (cases r) (simp add: decode_label_def bind_res_def)
        moreover have "neon_ready Q G S loc conf prior P i ?m ?b k" using used xs(2,3) use[OF v(2,3) k] by (auto simp: neon_ready_def best_class_def l)
        moreover have "neon_ready Q G S loc conf prior P i ?m ?b c" if "c < k" for c using I that by (auto simp: neon_ready_def best_class_def l)
        moreover have "best_class Q S conf P i (-1) ?m c" if "c < ?C" "Suc k \<le> c" for c using I that by (auto simp: best_class_def)
        ultimately show ?thesis by (intro exI[of _ "(?m, ?b)"]) (auto simp: less_Suc_eq)
      qed
    qed (use assms(3) in simp)
    then show ?thesis unfolding n by blast
  qed
qed

section \<open>Suppression\<close>

lemma ssd_apart_fexp [simp]: "ssd_apart (F\<lparr>fexp := E\<rparr>) = ssd_apart F"
  by (simp add: fun_eq_iff ssd_apart_def)

lemma ssd_select_fexp [simp]: "ssd_select (F\<lparr>fexp := E\<rparr>) t B kept xs = ssd_select F t B kept xs"
  by (induction xs arbitrary: kept) simp_all

lemma neon_keeps_run:
  assumes "elem v idx = Inr (B idx)" "\<forall>k\<in>set ks. elem v (snd (snd k)) = Inr (B (snd (snd k)))"
  shows "neon_keeps F v t idx ks = Inr (\<forall>k\<in>set ks. ssd_apart F t (B idx) (B (snd (snd k))))"
  using assms(2) by (induction ks) (simp_all add: assms(1) bind_res_def)

lemma ApplyNMSFast_run:
  assumes "\<forall>sc\<in>set (take (top_length k conf) conf). elem v (snd sc) = Inr (B (snd sc))"
  shows "ApplyNMSFast F v conf t (of_int_f F 1) k c pairs =
    (let sel = ssd_select F t B [] (take (top_length k conf) conf) in Inr (pairs @ tag c sel, length sel))"
proof -
  let ?n = "top_length k conf" and ?xs = "take (top_length k conf) conf" and ?off = "length pairs"
  have n: "?n \<le> length conf" by (auto simp: top_length_def)
  have "\<exists>st. loop ?n (neon_step F v conf (of_int_f F 1) c ?off) (pairs, t) = Inr st \<and> (\<exists>kept. st = (pairs @ tag c kept, t) \<and> set kept \<subseteq> set ?xs \<and>
      ssd_select F t B kept (drop ?n ?xs) = ssd_select F t B [] ?xs)"
  proof (rule loop_inv[where I = "\<lambda>i st. \<exists>kept. st = (pairs @ tag c kept, t) \<and> set kept \<subseteq> set ?xs \<and> ssd_select F t B kept (drop i ?xs) = ssd_select F t B [] ?xs"])
    fix i st assume i: "i < ?n" and "\<exists>kept. st = (pairs @ tag c kept, t) \<and> set kept \<subseteq> set ?xs \<and> ssd_select F t B kept (drop i ?xs) = ssd_select F t B [] ?xs"
    then obtain kept where I: "st = (pairs @ tag c kept, t)" "set kept \<subseteq> set ?xs" "ssd_select F t B kept (drop i ?xs) = ssd_select F t B [] ?xs" by blast
    have il: "i < length ?xs" using i n by simp
    have sc: "elem conf i = Inr (?xs ! i)" "?xs ! i \<in> set ?xs" using i n nth_mem[OF il] by (simp_all add: elem_def)
    let ?ok = "\<forall>k\<in>set kept. ssd_apart F t (B (snd (?xs ! i))) (B (snd k))"
    have "neon_keeps F v t (snd (?xs ! i)) (tag c kept) = Inr (\<forall>k\<in>set (tag c kept). ssd_apart F t (B (snd (?xs ! i))) (B (snd (snd k))))"
      using assms sc(2) I(2) by (intro neon_keeps_run) (simp, fastforce simp: tag_def)
    moreover have "(\<forall>k\<in>set (tag c kept). ssd_apart F t (B (snd (?xs ! i))) (B (snd (snd k)))) \<longleftrightarrow> ?ok" by (simp add: tag_def case_prod_unfold)
    ultimately have step: "neon_step F v conf (of_int_f F 1) c ?off i st = Inr (pairs @ tag c (if ?ok then kept @ [?xs ! i] else kept), t)"
      using I(1) sc(1) by (simp add: neon_step_def bind_res_def case_prod_unfold tag_def)
    have d: "drop i ?xs = ?xs ! i # drop (Suc i) ?xs" using il by (rule Cons_nth_drop_Suc[symmetric])
    have "ssd_select F t B (if ?ok then kept @ [?xs ! i] else kept) (drop (Suc i) ?xs) = ssd_select F t B [] ?xs" using I(3) unfolding d by simp
    then show "\<exists>st'. neon_step F v conf (of_int_f F 1) c ?off i st = Inr st' \<and> (\<exists>kept. st' = (pairs @ tag c kept, t) \<and> set kept \<subseteq> set ?xs \<and>
        ssd_select F t B kept (drop (Suc i) ?xs) = ssd_select F t B [] ?xs)"
      using step I(2) sc(2) by (intro exI[of _ "(pairs @ tag c (if ?ok then kept @ [?xs ! i] else kept), t)"] conjI exI[of _ "if ?ok then kept @ [?xs ! i] else kept"]) auto
  qed (simp add: tag_def)
  then show ?thesis using n by (auto simp: ApplyNMSFast_def Let_def bind_res_def tag_def)
qed

definition class_counts :: "'f sorts \<Rightarrow> 'f :: {linorder, zero} fops \<Rightarrow> 'f ssd \<Rightarrow> 'f list \<Rightarrow> 'f list \<Rightarrow> 'f list \<Rightarrow> nat \<Rightarrow> nat \<Rightarrow> nat \<Rightarrow> counts" where
  "class_counts Q F S loc conf prior P i n = (\<lambda>c. if c < n \<and> int c \<noteq> sp_background_label_id S \<and> cands S conf P i c P \<noteq> [] then Some (length (ssd_class Q F S loc conf prior P i c), 0) else None)"

lemma neon_classes_run:
  assumes "\<forall>c< sp_num_classes S. neon_ready Q (F\<lparr>fexp := E\<rparr>) S loc conf prior P i m boxes c" "sp_share_location S \<Longrightarrow> sp_background_label_id S \<noteq> -1" "sorts_ok Q" "0 \<le> sp_top_k S"
  shows "loop (sp_num_classes S) (neon_class F S (of_int_f F 1) boxes m) ([], \<lambda>_. None) =
    Inr (ssd_all Q (F\<lparr>fexp := E\<rparr>) S loc conf prior P i, class_counts Q (F\<lparr>fexp := E\<rparr>) S loc conf prior P i (sp_num_classes S))"
proof -
  let ?C = "sp_num_classes S" and ?G = "F\<lparr>fexp := E\<rparr>"
  let ?cl = "ssd_class Q ?G S loc conf prior P i" and ?cnt = "class_counts Q ?G S loc conf prior P i"
  have "\<exists>st. loop ?C (neon_class F S (of_int_f F 1) boxes m) ([], \<lambda>_. None) = Inr st \<and> st = (concat (map (\<lambda>c. tag c (?cl c)) [0..<?C]), ?cnt ?C)"
  proof (rule loop_inv[where I = "\<lambda>k st. st = (concat (map (\<lambda>c. tag c (?cl c)) [0..<k]), ?cnt k)"])
    fix k st assume k: "k < ?C" and st: "st = (concat (map (\<lambda>c. tag c (?cl c)) [0..<k]), ?cnt k)"
    have r: "neon_ready Q ?G S loc conf prior P i m boxes k" using assms(1) k by blast
    have lb: "label_of S k = sp_background_label_id S \<longleftrightarrow> int k = sp_background_label_id S \<and> \<not> sp_share_location S" using assms(2) by (auto simp: label_of_def)
    show "\<exists>st'. neon_class F S (of_int_f F 1) boxes m k st = Inr st' \<and> st' = (concat (map (\<lambda>c. tag c (?cl c)) [0..<Suc k]), ?cnt (Suc k))"
    proof (cases "int k = sp_background_label_id S \<or> cands S conf P i k P = []")
      case True
      then have "?cl k = []" using assms(3,4) by (auto simp: ssd_class_def)
      moreover have "?cnt (Suc k) = ?cnt k" using True by (auto simp: class_counts_def fun_eq_iff less_Suc_eq)
      moreover have "neon_class F S (of_int_f F 1) boxes m k st = Inr st"
        using True r st by (auto simp: neon_class_def neon_ready_def best_class_def check_background_def split: if_splits option.splits)
      ultimately show ?thesis using st by (simp add: tag_def)
    next
      case False
      obtain xs v where xs: "m k = Some (xs, Some (label_of S k))" "top_length (sp_top_k S) xs = length (best Q S conf P i k)" "take (length (best Q S conf P i k)) xs = best Q S conf P i k"
        and v: "boxes (label_of S k) = Some v" "\<forall>sc\<in>set (best Q S conf P i k). elem v (snd sc) = Inr (ssd_box ?G S loc prior P i k (snd sc))"
        using r False by (auto simp: neon_ready_def best_class_def)
      have cl: "?cl k = ssd_select F (sp_nms_threshold S) (ssd_box ?G S loc prior P i k) [] (take (top_length (sp_top_k S) xs) xs)"
        using False lb xs(2,3) by (simp add: ssd_class_def best_def)
      have "\<forall>sc\<in>set (take (top_length (sp_top_k S) xs) xs). elem v (snd sc) = Inr (ssd_box ?G S loc prior P i k (snd sc))" using v(2) xs(2,3) by simp
      from ApplyNMSFast_run[OF this, of F "sp_nms_threshold S" k "fst st"]
      have "ApplyNMSFast F v xs (sp_nms_threshold S) (of_int_f F 1) (sp_top_k S) k (fst st) = Inr (fst st @ tag k (?cl k), length (?cl k))" by (simp add: cl Let_def)
      moreover have "?cnt (Suc k) = (?cnt k)(k \<mapsto> (length (?cl k), 0))" using False by (auto simp: class_counts_def fun_eq_iff less_Suc_eq)
      ultimately show ?thesis using st xs(1) v(1) False by (simp add: neon_class_def check_background_def bind_res_def)
    qed
  qed (simp add: class_counts_def)
  then show ?thesis by (simp add: ssd_all_def)
qed

section \<open>Places\<close>

definition num_of :: "('f \<times> nat \<times> nat) list \<Rightarrow> nat \<Rightarrow> nat" where
  "num_of ps c = length (filter (\<lambda>(s, c', idx). c' = c) ps)"

definition place_of :: "('f \<times> nat \<times> nat) list \<Rightarrow> nat \<Rightarrow> nat" where
  "place_of ps c = sum_list (map (num_of ps) [0..<c])"

lemma num_of_simps [simp]: "num_of [] c = 0" "num_of ((s, c', idx) # ps) c = (if c' = c then Suc (num_of ps c) else num_of ps c)" "num_of (ps @ qs) c = num_of ps c + num_of qs c"
  by (simp_all add: num_of_def)

lemma concat_nth: "c < C \<Longrightarrow> t < length (f c) \<Longrightarrow> concat (map f [0..<C]) ! (sum_list (map (\<lambda>c. length (f c)) [0..<c]) + t) = f c ! t \<and>
    sum_list (map (\<lambda>c. length (f c)) [0..<c]) + t < length (concat (map f [0..<C]))"
proof (induction C)
  case (Suc C)
  show ?case
  proof (cases "c = C")
    case True
    then show ?thesis using Suc.prems by (simp add: nth_append length_concat comp_def)
  next
    case False
    then show ?thesis using Suc by (simp add: nth_append)
  qed
qed simp

lemma concat_index: "q < length (concat (map f [0..<C])) \<Longrightarrow> \<exists>c<C. \<exists>t<length (f c). q = sum_list (map (\<lambda>c. length (f c)) [0..<c]) + t"
proof (induction C)
  case (Suc C)
  let ?n = "length (concat (map f [0..<C]))"
  show ?case
  proof (cases "q < ?n")
    case True
    then show ?thesis using Suc.IH less_Suc_eq by auto
  next
    case False
    moreover have "?n = sum_list (map (\<lambda>c. length (f c)) [0..<C])" by (simp add: length_concat comp_def)
    ultimately show ?thesis using Suc.prems by (intro exI[of _ C]) (auto intro!: exI[of _ "q - ?n"])
  qed
qed simp

lemma by_class_nth: "c < C \<Longrightarrow> t < num_of ps c \<Longrightarrow> by_class C ps ! (place_of ps c + t) = filter (\<lambda>(s, c', idx). c' = c) ps ! t \<and> place_of ps c + t < length (by_class C ps)"
  using concat_nth[of c C t "\<lambda>c. filter (\<lambda>(s, c', idx). c' = c) ps"] unfolding by_class_def place_of_def num_of_def by simp

lemma by_class_index: "q < length (by_class C ps) \<Longrightarrow> \<exists>c<C. \<exists>t<num_of ps c. q = place_of ps c + t"
  using concat_index[of q "\<lambda>c. filter (\<lambda>(s, c', idx). c' = c) ps" C] unfolding by_class_def place_of_def num_of_def by simp

text \<open>The numbers per label, and their places once some of the detections are written.\<close>

definition counted :: "('f \<times> nat \<times> nat) list \<Rightarrow> counts \<Rightarrow> nat \<Rightarrow> bool" where
  "counted ps m c = (m c = (if m c = None then None else Some (num_of ps c, 0)) \<and> (m c = None \<longrightarrow> num_of ps c = 0))"

definition placed :: "('f \<times> nat \<times> nat) list \<Rightarrow> ('f \<times> nat \<times> nat) list \<Rightarrow> counts \<Rightarrow> nat \<Rightarrow> bool" where
  "placed ps ys m c = (m c = (if m c = None then None else Some (place_of ps c, num_of ys c)) \<and> (m c = None \<longrightarrow> num_of ps c = 0))"

lemma to_offsets_run:
  assumes "j \<le> C" "\<forall>c. j \<le> c \<and> c < C \<longrightarrow> counted ps m c" "\<forall>c<j. placed ps [] m c"
  shows "\<forall>c<C. placed ps [] (to_offsets [j..<C] (place_of ps j) m) c"
  using assms
proof (induction "C - j" arbitrary: j m)
  case (Suc n)
  then have j: "[j..<C] = j # [Suc j..<C]" "n = C - Suc j" "Suc j \<le> C" by (simp_all add: upt_conv_Cons)
  have place: "place_of ps (Suc j) = place_of ps j + num_of ps j" by (simp add: place_of_def)
  have cj: "counted ps m j" using Suc.prems j by simp
  show ?case
  proof (cases "m j")
    case None
    then have "num_of ps j = 0" using cj by (simp add: counted_def)
    then have "\<forall>c<Suc j. placed ps [] m c" using Suc.prems(3) None by (auto simp: less_Suc_eq placed_def)
    then show ?thesis using Suc.hyps(1)[OF j(2,3), of m] Suc.prems(2) None place \<open>num_of ps j = 0\<close> by (simp add: j(1))
  next
    case (Some x)
    then have x: "m j = Some (num_of ps j, 0)" using cj by (simp add: counted_def)
    let ?m = "m(j \<mapsto> (place_of ps j, 0))"
    have "\<forall>c<Suc j. placed ps [] ?m c" using Suc.prems(3) by (auto simp: less_Suc_eq placed_def)
    moreover have "\<forall>c. Suc j \<le> c \<and> c < C \<longrightarrow> counted ps ?m c" using Suc.prems(2) by (auto simp: counted_def)
    ultimately show ?thesis using Suc.hyps(1)[OF j(2,3), of ?m] x place by (simp add: j(1))
  qed
qed simp

lemma write_block:
  assumes "\<forall>r\<in>set bl. length r = 7" "q < length bl" "length row = 7"
  shows "write_row q row (concat bl) = Inr (concat (bl[q := row]))"
proof -
  have "concat bl = concat (take q bl) @ bl ! q @ concat (drop (Suc q) bl)" using id_take_nth_drop[OF assms(2)] by (metis concat.simps(2) concat_append)
  moreover have "concat (bl[q := row]) = concat (take q bl) @ row @ concat (drop (Suc q) bl)" using assms(2) by (simp add: upd_conv_take_nth_drop)
  moreover have "length (concat (take q bl)) = q * 7"
    using written_step(2)[of "take q bl" "Suc q"] assms(1,2) by (auto dest: in_set_takeD)
  ultimately show ?thesis using assms by (simp add: write_row_at)
qed

lemma place_rows_run:
  assumes "ps = ys @ zs" "\<forall>(s, c, idx)\<in>set ps. c < C \<and> (\<exists>xs l v. cm c = Some (xs, Some l) \<and> boxes l = Some v \<and> elem v idx = Inr (B c idx))"
    and "\<forall>c<C. placed ps ys m c" "\<forall>r\<in>set bl. length r = 7" "sh + length ps \<le> length bl"
    and "row = (\<lambda>(s, c, idx). box_row F i c s (B c idx))"
    and "\<forall>c<C. \<forall>t<num_of ys c. bl ! (sh + (place_of ps c + t)) = row (by_class C ps ! (place_of ps c + t))"
  shows "\<exists>m' bl'. place_rows F sh i boxes cm zs (m, concat bl) = Inr (m', concat bl') \<and> length bl' = length bl \<and> (\<forall>r\<in>set bl'. length r = 7) \<and> take sh bl' = take sh bl \<and>
    (\<forall>c<C. \<forall>t<num_of ps c. bl' ! (sh + (place_of ps c + t)) = row (by_class C ps ! (place_of ps c + t)))"
  using assms(1,3-5,7)
proof (induction zs arbitrary: ys m bl)
  case (Cons z zs)
  obtain s c idx where z: "z = (s, c, idx)" by (cases z)
  have zin: "z \<in> set ps" using Cons.prems(1) by simp
  obtain xs l v where c: "c < C" "cm c = Some (xs, Some l)" "boxes l = Some v" "elem v idx = Inr (B c idx)" using assms(2) zin z by fastforce
  let ?t = "num_of ys c"
  have t: "?t < num_of ps c" using Cons.prems(1) z by simp
  have len: "length (by_class C ps) = length ps" using assms(2) by (intro by_class_length) fastforce
  have at: "by_class C ps ! (place_of ps c + ?t) = z" "place_of ps c + ?t < length ps"
    using by_class_nth[OF c(1) t] len unfolding Cons.prems(1) by (simp_all add: z num_of_def nth_append)
  have mc: "m c = Some (place_of ps c, ?t)" using Cons.prems(2) c(1) t by (auto simp: placed_def split: if_splits)
  let ?q = "sh + (place_of ps c + ?t)" and ?m = "m(c \<mapsto> (place_of ps c, Suc ?t))"
  let ?bl = "bl[?q := row z]"
  have q: "?q < length bl" "length (row z) = 7" using at(2) Cons.prems(4) z by (simp_all add: assms(6) box_row_def)
  have step: "place_row F sh i boxes cm z (m, concat bl) = Inr (?m, concat ?bl)"
    using write_block[OF Cons.prems(3) q] mc c z by (simp add: place_row_def bind_res_def assms(6) add_ac)
  have "\<exists>m' bl'. place_rows F sh i boxes cm zs (?m, concat ?bl) = Inr (m', concat bl') \<and> length bl' = length ?bl \<and> (\<forall>r\<in>set bl'. length r = 7) \<and> take sh bl' = take sh ?bl \<and>
      (\<forall>c<C. \<forall>t<num_of ps c. bl' ! (sh + (place_of ps c + t)) = row (by_class C ps ! (place_of ps c + t)))"
  proof (rule Cons.IH)
    show "ps = (ys @ [z]) @ zs" using Cons.prems(1) by simp
    show "\<forall>c<C. placed ps (ys @ [z]) ?m c" using Cons.prems(2) z by (auto simp: placed_def)
    show "\<forall>r\<in>set ?bl. length r = 7" using Cons.prems(3) q(2) by (auto dest!: set_update_subset_insert[THEN subsetD])
    show "sh + length ps \<le> length ?bl" using Cons.prems(4) by simp
    show "\<forall>c<C. \<forall>t<num_of (ys @ [z]) c. ?bl ! (sh + (place_of ps c + t)) = row (by_class C ps ! (place_of ps c + t))"
      using Cons.prems(5) at(1) q(1) z by (auto simp: nth_list_update less_Suc_eq)
  qed
  moreover have "take sh ?bl = take sh bl" by simp
  ultimately show ?case using step by (auto simp: bind_res_def)
qed auto

lemma placed_all:
  assumes "\<forall>(s, c, idx)\<in>set ps. c < C" "sh + length ps \<le> length bl" "\<forall>c<C. \<forall>t<num_of ps c. bl ! (sh + (place_of ps c + t)) = row (by_class C ps ! (place_of ps c + t))"
  shows "take (sh + length ps) bl = take sh bl @ map row (by_class C ps)"
proof -
  have len: "length (by_class C ps) = length ps" using assms(1) by (rule by_class_length)
  have "take (length ps) (drop sh bl) = map row (by_class C ps)"
  proof (rule nth_equalityI)
    fix q assume "q < length (take (length ps) (drop sh bl))"
    then have q: "q < length (by_class C ps)" using assms(2) len by simp
    from by_class_index[OF this] show "take (length ps) (drop sh bl) ! q = map row (by_class C ps) ! q" using assms(2,3) q len by auto
  qed (use assms(2) len in simp)
  then show ?thesis by (simp add: take_add)
qed

section \<open>The numbers of an image\<close>

lemma bump_counted: "foldl (\<lambda>m (s, c, idx). bump_first c m) m ps c = (if m c = None \<and> num_of ps c = 0 then None
    else Some ((case m c of None \<Rightarrow> 0 | Some x \<Rightarrow> fst x) + num_of ps c, (case m c of None \<Rightarrow> 0 | Some x \<Rightarrow> snd x)))"
proof (induction ps arbitrary: m)
  case (Cons p ps)
  obtain s c' idx where p: "p = (s, c', idx)" by (cases p)
  have "bump_first c' m c = (if c = c' then Some (case m c of None \<Rightarrow> (1, 0) | Some x \<Rightarrow> (Suc (fst x), snd x)) else m c)"
    by (auto simp: bump_first_def split: option.splits)
  then show ?case using Cons[of "bump_first c' m"] by (cases "m c") (auto simp: p)
qed (simp split: option.splits)

lemma num_of_all: "c < sp_num_classes S \<Longrightarrow> filter (\<lambda>(s, c', idx). c' = c) (ssd_all Q F S loc conf prior P i) = tag c (ssd_class Q F S loc conf prior P i c)"
proof -
  assume c: "c < sp_num_classes S"
  have "filter (\<lambda>(s, c', idx). c' = c) (concat (map (\<lambda>c. tag c (ssd_class Q F S loc conf prior P i c)) [0..<n])) = (if c < n then tag c (ssd_class Q F S loc conf prior P i c) else [])" for n
    by (induction n) (auto simp: tag_def filter_map comp_def case_prod_unfold less_Suc_eq)
  then show ?thesis using c by (simp add: ssd_all_def)
qed

lemma by_class_all: "by_class (sp_num_classes S) (ssd_all Q F S loc conf prior P i) = ssd_all Q F S loc conf prior P i"
proof -
  have "map (\<lambda>c. filter (\<lambda>(s, c', idx). c' = c) (ssd_all Q F S loc conf prior P i)) [0..< sp_num_classes S] = map (\<lambda>c. tag c (ssd_class Q F S loc conf prior P i c)) [0..< sp_num_classes S]"
    by (intro map_cong) (simp_all add: num_of_all)
  then show ?thesis by (simp only: by_class_def ssd_all_def)
qed

lemma class_counts_counted: "sorts_ok Q \<Longrightarrow> 0 \<le> sp_top_k S \<Longrightarrow> c < sp_num_classes S \<Longrightarrow> counted (ssd_all Q F S loc conf prior P i) (class_counts Q F S loc conf prior P i (sp_num_classes S)) c"
  by (auto simp: counted_def class_counts_def num_of_def num_of_all tag_def ssd_class_def)

lemma row_of_fexp: "row_of (F\<lparr>fexp := E\<rparr>) S loc prior P i = (\<lambda>(s, c, idx). box_row F i c s (ssd_box (F\<lparr>fexp := E\<rparr>) S loc prior P i c idx))"
  by (simp add: row_of_def box_row_def fun_eq_iff)

lemma neon_image_run:
  assumes "decoded ! i = (cm, boxes)" "\<forall>c< sp_num_classes S. neon_ready Q (F\<lparr>fexp := E\<rparr>) S loc conf prior P i cm boxes c"
    and "sp_share_location S \<Longrightarrow> sp_background_label_id S \<noteq> -1" "0 \<le> sp_keep_topk S"
    and "\<forall>r\<in>set bl. length r = 7" "sh + length (ssd_image Q (F\<lparr>fexp := E\<rparr>) S loc conf prior P i) \<le> length bl" "sorts_ok Q" "0 \<le> sp_top_k S"
  shows "\<exists>bl'. neon_image Q F S (of_int_f F 1) decoded i (sh, concat bl) = Inr (sh + length (ssd_image Q (F\<lparr>fexp := E\<rparr>) S loc conf prior P i), concat bl') \<and> length bl' = length bl \<and>
    (\<forall>r\<in>set bl'. length r = 7) \<and> take (sh + length (ssd_image Q (F\<lparr>fexp := E\<rparr>) S loc conf prior P i)) bl' =
      take sh bl @ map (row_of (F\<lparr>fexp := E\<rparr>) S loc prior P i) (ssd_image Q (F\<lparr>fexp := E\<rparr>) S loc conf prior P i)"
proof -
  let ?C = "sp_num_classes S" and ?G = "F\<lparr>fexp := E\<rparr>"
  let ?ds = "ssd_all Q ?G S loc conf prior P i" and ?im = "ssd_image Q ?G S loc conf prior P i" and ?cnt = "class_counts Q ?G S loc conf prior P i ?C"
  define cut where "cut = (int (length ?ds) > sp_keep_topk S)"
  define ps where "ps = (if cut then take (nat (sp_keep_topk S)) (sort_pairs Q ?ds) else ?ds)"
  define cs where "cs = (if cut then foldl (\<lambda>m (s, c, idx). bump_first c m) (\<lambda>c. map_option (\<lambda>(n, w). (0, w)) (?cnt c)) ps else ?cnt)"
  have im: "by_class ?C ps = ?im" by (simp add: ps_def cut_def ssd_image_def Let_def by_class_all)
  have sub: "set ps \<subseteq> set ?ds" using assms(7) by (auto simp: ps_def dest!: in_set_takeD)
  have labels: "\<forall>(s, c, idx)\<in>set ps. c < ?C" using sub ssd_all_member by fastforce
  have len: "length ps = length ?im" using by_class_length[OF labels] im by simp
  have counted: "\<forall>c. 0 \<le> c \<and> c < ?C \<longrightarrow> counted ps cs c"
  proof (cases cut)
    case True
    then show ?thesis by (simp add: cs_def counted_def bump_counted class_counts_def)
  next
    case False
    then show ?thesis using assms(7,8) by (simp add: cs_def ps_def class_counts_counted)
  qed
  have box: "c < ?C \<and> (\<exists>xs l v. cm c = Some (xs, Some l) \<and> boxes l = Some v \<and> elem v idx = Inr (ssd_box ?G S loc prior P i c idx))" if "(s, c, idx) \<in> set ps" for s c idx
  proof -
    have c: "c < ?C" "int c \<noteq> sp_background_label_id S" "(s, idx) \<in> set (best Q S conf P i c)"
      using that sub ssd_all_member[of s c idx Q ?G S loc conf prior P i] ssd_class_member[of s idx Q ?G S loc conf prior P i c] by (auto simp: best_def)
    then have "cands S conf P i c P \<noteq> []" using assms(7,8) by (auto simp: best_def)
    then show ?thesis using assms(2) c by (fastforce simp: neon_ready_def best_class_def)
  qed
  have zero: "place_of ps 0 = 0" by (simp add: place_of_def)
  have off: "\<forall>c<?C. placed ps [] (to_offsets [0..<?C] 0 cs) c" using to_offsets_run[of 0 ?C ps cs] counted zero by simp
  have "\<exists>m' bl'. place_rows F sh i boxes cm ps (to_offsets [0..<?C] 0 cs, concat bl) = Inr (m', concat bl') \<and> length bl' = length bl \<and> (\<forall>r\<in>set bl'. length r = 7) \<and> take sh bl' = take sh bl \<and>
      (\<forall>c<?C. \<forall>t<num_of ps c. bl' ! (sh + (place_of ps c + t)) = row_of ?G S loc prior P i (by_class ?C ps ! (place_of ps c + t)))"
    using box off assms(5,6) len by (intro place_rows_run[where ys = "[]", OF _ _ _ _ _ row_of_fexp]) auto
  then obtain m' bl' where pl: "place_rows F sh i boxes cm ps (to_offsets [0..<?C] 0 cs, concat bl) = Inr (m', concat bl')" "length bl' = length bl" "\<forall>r\<in>set bl'. length r = 7"
      "take sh bl' = take sh bl" "\<forall>c<?C. \<forall>t<num_of ps c. bl' ! (sh + (place_of ps c + t)) = row_of ?G S loc prior P i (by_class ?C ps ! (place_of ps c + t))" by blast
  have "take (sh + length ps) bl' = take sh bl @ map (row_of ?G S loc prior P i) ?im"
    using placed_all[OF labels _ pl(5)] pl(2,4) assms(6) len im by simp
  moreover have "neon_image Q F S (of_int_f F 1) decoded i (sh, concat bl) = Inr (sh + length ps, concat bl')"
    using pl(1) assms(1,4) neon_classes_run[OF assms(2,3,7,8)] by (auto simp: neon_image_def bind_res_def Let_def cs_def ps_def cut_def)
  ultimately show ?thesis using pl(2,3) len by auto
qed

lemma blocks_exist: "length xs = n * 7 \<Longrightarrow> \<exists>bl. xs = concat bl \<and> length bl = n \<and> (\<forall>r\<in>set bl. length r = 7)"
proof (induction n arbitrary: xs)
  case (Suc n)
  then have "length (drop 7 xs) = n * 7" by simp
  then obtain bl where "drop 7 xs = concat bl" "length bl = n" "\<forall>r\<in>set bl. length r = 7" using Suc.IH by blast
  moreover have "length (take 7 xs) = 7" using Suc.prems by simp
  ultimately show ?case by (intro exI[of _ "take 7 xs # bl"]) (metis append_take_drop_id concat.simps(2) length_Cons set_ConsD)
qed simp

lemma fill_run: "j + m = length xs \<Longrightarrow> loop_from j m (\<lambda>k. put_elem k b) xs = Inr (take j xs @ replicate m b)"
proof (induction m arbitrary: j xs)
  case (Suc m)
  then have "put_elem j b xs = Inr (xs[j := b])" "take (Suc j) (xs[j := b]) = take j xs @ [b]" by (simp_all add: put_elem_def take_Suc_conv_app_nth)
  then show ?case using Suc.IH[of "Suc j" "xs[j := b]"] Suc.prems by (simp add: bind_res_def)
qed simp

lemma neon_run_output:
  assumes "CpuFunc.dim loc 0 = Inr num" "CpuFunc.dim prior 2 = Inr w" "0 \<le> sp_top_k S" "0 < sp_keep_topk S" "0 < sp_obj_threshold S" "sp_share_location S \<Longrightarrow> sp_background_label_id S \<noteq> -1"
    and "vector_laws F" "bits_ok ival (sp_obj_threshold S)"
    and "num * (w div 4 * num_loc_classes S) * 4 \<le> length (t_data loc)" "num * (w div 4 * sp_num_classes S) \<le> length (t_data conf)" "8 * (w div 4) \<le> length (t_data prior)"
    and "\<And>k. k < w div 4 \<Longrightarrow> 0 < fsub F (t_data prior ! (k * 4 + 2)) (t_data prior ! (k * 4)) \<and> 0 < fsub F (t_data prior ! (k * 4 + 3)) (t_data prior ! (k * 4 + 1))"
    and "length (t_data top0) = num * nat (sp_keep_topk S) * 7" "sorts_ok Q"
  shows "neon_run Q F E ival S [loc, conf, prior] top0 False (of_int_f F 1) CENTER_SIZE =
    Inr (top0\<lparr>t_data := written F (num * nat (sp_keep_topk S)) (ssd_rows Q (F\<lparr>fexp := E\<rparr>) S (t_data loc) (t_data conf) (t_data prior) (w div 4) num)\<rparr>)"
proof -
  define P where "P = w div 4"
  let ?C = "sp_num_classes S" and ?L = "t_data loc" and ?D = "t_data conf" and ?R = "t_data prior" and ?G = "F\<lparr>fexp := E\<rparr>" and ?n = "num * nat (sp_keep_topk S)"
  note sizes = assms(9-12)[folded P_def]
  obtain ms where ms: "GetConfidenceScores S ival ?D num P = Inr ms" "\<forall>i<num. \<forall>c. raw_class S ?D P i (ms ! i) c"
    using neon_scores[OF sizes(2) assms(5,8)] unfolding raw_class_def by blast
  have "\<exists>ds. per_image num (\<lambda>i. bind_res (loop ?C (collect_class Q S) (ms ! i, [])) (\<lambda>(m, keep). loop (num_loc_classes S) (decode_label F E S False P ?L ?R keep i) (m, \<lambda>_. None))) = Inr ds \<and>
      length ds = num \<and> (\<forall>i<num. \<forall>c<?C. neon_ready Q ?G S ?L ?D ?R P i (fst (ds ! i)) (snd (ds ! i)) c)"
  proof (rule per_image_ok)
    fix i assume i: "i < num"
    obtain m' where m': "loop ?C (collect_class Q S) (ms ! i, []) = Inr (m', kept_of Q S ?D P i ?C)" "\<forall>c<?C. best_class Q S ?D P i (-1) m' c"
      using collect_run[OF assms(3) _ assms(14), of ?D P i "ms ! i"] ms(2) i by blast
    have "init_bbox F E S False P ?L ?R i c k = Inr (ssd_box ?G S ?L ?R P i c k)" if "c < num_loc_classes S" "k < P" for c k
      using init_bbox_run[OF assms(7) i that sizes(1,3) sizes(4)[OF that(2)]] .
    from neon_decoded[OF this assms(6) m'(2) assms(14,3)] show "\<exists>r. bind_res (loop ?C (collect_class Q S) (ms ! i, [])) (\<lambda>(m, keep). loop (num_loc_classes S) (decode_label F E S False P ?L ?R keep i) (m, \<lambda>_. None)) = Inr r \<and>
        (\<forall>c<?C. neon_ready Q ?G S ?L ?D ?R P i (fst r) (snd r) c)" using m'(1) by (simp add: bind_res_def)
  qed
  then obtain ds where ds: "GetLocBBox_opt Q F E S CENTER_SIZE False ?L ?R num P ms = Inr ds" "\<forall>i<num. \<forall>c<?C. neon_ready Q ?G S ?L ?D ?R P i (fst (ds ! i)) (snd (ds ! i)) c"
    by (auto simp: GetLocBBox_opt_def assert_res_def)
  obtain bl0 where bl0: "t_data top0 = concat bl0" "length bl0 = ?n" "\<forall>r\<in>set bl0. length r = 7" using blocks_exist[OF assms(13)] by blast
  let ?rows = "ssd_rows Q ?G S ?L ?D ?R P" and ?im = "ssd_image Q ?G S ?L ?D ?R P"
  have keep0: "0 \<le> sp_keep_topk S" using assms(4) by simp
  have "\<exists>st. loop num (neon_image Q F S (of_int_f F 1) ds) (0, concat bl0) = Inr st \<and>
      (\<exists>bl. st = (length (?rows num), concat bl) \<and> length bl = ?n \<and> (\<forall>r\<in>set bl. length r = 7) \<and> take (length (?rows num)) bl = ?rows num)"
  proof (rule loop_inv[where I = "\<lambda>i st. \<exists>bl. st = (length (?rows i), concat bl) \<and> length bl = ?n \<and> (\<forall>r\<in>set bl. length r = 7) \<and> take (length (?rows i)) bl = ?rows i"])
    fix i st assume i: "i < num" and "\<exists>bl. st = (length (?rows i), concat bl) \<and> length bl = ?n \<and> (\<forall>r\<in>set bl. length r = 7) \<and> take (length (?rows i)) bl = ?rows i"
    then obtain bl where bl: "st = (length (?rows i), concat bl)" "length bl = ?n" "\<forall>r\<in>set bl. length r = 7" "take (length (?rows i)) bl = ?rows i" by blast
    have rows: "?rows (Suc i) = ?rows i @ map (row_of ?G S ?L ?R P i) (?im i)" by (simp add: ssd_rows_of)
    have "length (?rows (Suc i)) \<le> Suc i * nat (sp_keep_topk S)" by (rule ssd_rows_length[OF assms(14) keep0])
    also have "\<dots> \<le> ?n" using i by (intro mult_le_mono1) simp
    finally have room: "length (?rows i) + length (?im i) \<le> length bl" using bl(2) rows by simp
    have ready: "\<forall>c<?C. neon_ready Q ?G S ?L ?D ?R P i (fst (ds ! i)) (snd (ds ! i)) c" using ds(2) i by blast
    show "\<exists>st'. neon_image Q F S (of_int_f F 1) ds i st = Inr st' \<and>
        (\<exists>bl. st' = (length (?rows (Suc i)), concat bl) \<and> length bl = ?n \<and> (\<forall>r\<in>set bl. length r = 7) \<and> take (length (?rows (Suc i))) bl = ?rows (Suc i))"
      using neon_image_run[OF prod.collapse[symmetric, of "ds ! i"] ready assms(6) keep0 bl(3) room assms(14,3)] bl(1,2,4) rows by auto
  qed (use bl0 in \<open>auto simp: ssd_rows_def\<close>)
  then obtain bl where bl: "loop num (neon_image Q F S (of_int_f F 1) ds) (0, concat bl0) = Inr (length (?rows num), concat bl)" "length bl = ?n" "\<forall>r\<in>set bl. length r = 7"
      "take (length (?rows num)) bl = ?rows num" by blast
  let ?k = "length (?rows num)"
  have k: "?k \<le> ?n" using ssd_rows_length[OF assms(14) keep0] .
  have len: "length (concat xs) = length xs * 7" if "\<forall>r\<in>set xs. length r = 7" for xs :: "'a list list" using that by (induction xs) simp_all
  have "take (?k * 7) (concat bl) = concat (?rows num)"
  proof -
    have "concat bl = concat (?rows num) @ concat (drop ?k bl)" using bl(4) by (metis append_take_drop_id concat_append)
    moreover have "length (concat (?rows num)) = ?k * 7" using bl(3,4) by (intro len) (metis in_set_takeD)
    ultimately show ?thesis by simp
  qed
  moreover have "?k * 7 + (?n * 7 - ?k * 7) = length (concat bl)" using len[OF bl(3)] bl(2) k by simp
  ultimately have "loop_from (?k * 7) (?n * 7 - ?k * 7) (\<lambda>k. put_elem k (of_int_f F (-1))) (concat bl) = Inr (written F ?n (?rows num))"
    using fill_run[of "?k * 7" "?n * 7 - ?k * 7" "concat bl" "of_int_f F (-1)"] by (simp add: written_def diff_mult_distrib)
  moreover have "nat (int num * sp_keep_topk S * 7) = ?n * 7" using assms(4) by (simp add: nat_mult_distrib)
  ultimately show ?thesis
    using assms(1,2) ms(1) ds(1) bl(1) bl0(1) by (simp add: neon_run_def Let_def bind_res_def with_data_def P_def)
qed

text \<open>
  C9: both versions of the SSD layer agree.  With bit patterns that compare like numbers and the laws
  of floating-point arithmetic that the vector instructions rely on, the vector version with an
  approximation of the exponential function gives the output the portable version gives with that
  function, unless nothing is detected at all: then it writes no row, whereas the portable version
  writes one with the number of each image.  Both call the same sorts, however these place equal scores.
\<close>

theorem ssd_neon_agrees:
  assumes "CpuFunc.dim loc 0 = Inr num" "CpuFunc.dim prior 2 = Inr w" "0 < w div 4" "sp_code_type S = ''CENTER_SIZE''" "0 \<le> sp_top_k S" "0 < sp_keep_topk S"
    and "0 < sp_obj_threshold S" "sp_share_location S \<Longrightarrow> sp_background_label_id S \<noteq> -1" "vector_laws F" "bits_ok ival (sp_obj_threshold S)"
    and "num * (w div 4 * num_loc_classes S) * 4 \<le> length (t_data loc)" "num * (w div 4 * sp_num_classes S) \<le> length (t_data conf)" "8 * (w div 4) \<le> length (t_data prior)"
    and "\<And>k. k < w div 4 \<Longrightarrow> 0 < fsub F (t_data prior ! (k * 4 + 2)) (t_data prior ! (k * 4)) \<and> 0 < fsub F (t_data prior ! (k * 4 + 3)) (t_data prior ! (k * 4 + 1))"
    and "length (t_data top0) = num * nat (sp_keep_topk S) * 7" "sorts_ok Q"
  shows "SSDDetectionFunc_run_neon Q F E ival S [loc, conf, prior] top0 =
    (if ssd_rows Q (F\<lparr>fexp := E\<rparr>) S (t_data loc) (t_data conf) (t_data prior) (w div 4) num = [] then Inr (top0\<lparr>t_data := replicate (num * nat (sp_keep_topk S) * 7) (of_int_f F (-1))\<rparr>)
     else SSDDetectionFunc_run Q (F\<lparr>fexp := E\<rparr>) S [loc, conf, prior] top0)"
proof -
  have "SSDDetectionFunc_run_neon Q F E ival S [loc, conf, prior] top0 =
      Inr (top0\<lparr>t_data := written F (num * nat (sp_keep_topk S)) (ssd_rows Q (F\<lparr>fexp := E\<rparr>) S (t_data loc) (t_data conf) (t_data prior) (w div 4) num)\<rparr>)"
    using neon_run_output[OF assms(1,2,5-16)] assms(4) by (simp add: SSDDetectionFunc_run_neon_def assert_res_def code_type_of_def bind_res_def)
  moreover have "SSDDetectionFunc_run Q (F\<lparr>fexp := E\<rparr>) S [loc, conf, prior] top0 =
      Inr (top0\<lparr>t_data := ssd_output Q (F\<lparr>fexp := E\<rparr>) S (t_data loc) (t_data conf) (t_data prior) (w div 4) num\<rparr>)"
    using assms by (intro ssd_run_output) simp_all
  ultimately show ?thesis by (simp add: ssd_output_def written_def Let_def)
qed

text \<open>The numbers and the detections of the example before, with the exponential function as its own approximation.\<close>

theorem ssd_neon_agrees_witness:
  "SSDDetectionFunc_run_neon demo_sorts real_ops exp (\<lambda>v. if v > 1 / 2 then 1 else 0) demo_ssd
     [demo_tensor [1, 12] (replicate 12 0), demo_tensor [1, 6] demo_conf, demo_tensor [1, 2, 12] demo_prior] (demo_tensor [1, 1, 2, 7] (replicate 14 0)) =
     Inr (demo_tensor [1, 1, 2, 7] [0, 1, 9 / 10, 0, 0, 2, 2, -1, -1, -1, -1, -1, -1, -1])"
proof -
  have same: "real_ops\<lparr>fexp := exp\<rparr> = real_ops" by (simp add: real_ops_def)
  have laws: "vector_laws real_ops" "bits_ok (\<lambda>v. if v > 1 / 2 then 1 else 0) (1 / 2 :: real)" by (auto simp: vector_laws_def real_ops_def bits_ok_def)
  have "SSDDetectionFunc_run demo_sorts real_ops demo_ssd [demo_tensor [1, 12] (replicate 12 0), demo_tensor [1, 6] demo_conf, demo_tensor [1, 2, 12] demo_prior]
     (demo_tensor [1, 1, 2, 7] (replicate 14 0)) = Inr (demo_tensor [1, 1, 2, 7] [0, 1, 9 / 10, 0, 0, 2, 2, -1, -1, -1, -1, -1, -1, -1])"
    using ssd_run_output[of "demo_tensor [1, 12] (replicate 12 0)" 1 "demo_tensor [1, 2, 12] demo_prior" 12 demo_ssd "demo_tensor [1, 6] demo_conf" real_ops "demo_tensor [1, 1, 2, 7] (replicate 14 0)" demo_sorts,
      unfolded demo_ssd_inputs demo_ssd_simps demo_ssd_output] demo_ssd_priors by (simp add: demo_sorts_ok)
  then show ?thesis
    using ssd_neon_agrees[of "demo_tensor [1, 12] (replicate 12 0)" 1 "demo_tensor [1, 2, 12] demo_prior" 12 demo_ssd real_ops "\<lambda>v. if v > 1 / 2 then 1 else 0"
        "demo_tensor [1, 6] demo_conf" "demo_tensor [1, 1, 2, 7] (replicate 14 0)" demo_sorts exp, unfolded demo_ssd_inputs demo_ssd_simps same demo_ssd_rows] demo_ssd_priors laws by (simp add: demo_sorts_ok)
qed

end
