(* ===== verification/Spec2Isabelle.thy ===== *)
theory Spec2Isabelle
  imports CviPrelude MemPool RingQueue TaskPool ModelStream DeviceMem ChipMem DmaBuf DmaConvert RtState CviRt SharedMem Neuron
    ImageSize Program Placement Inference Model ModelLoad Runtime Handles TensorNames
    KernelFunc KernelTile KernelLight Md5 SectionTool ModelTool ModelMerge ModelCompress Pmu PmuSpec Simulator SimMem SimRun CpuFunc CpuLayers CpuGather CpuReduce Detect Suppress SsdDetect SsdSpec SsdNeon SsdPlace
begin

text \<open>
  A model of the CVITEK TPU runtime (\<^verbatim>\<open>src/src\<close>, headers in \<^verbatim>\<open>src/include\<close>) and its properties.

  \<^bold>\<open>The program.\<close>  An application registers a cvimodel and gets a handle
  (\<^verbatim>\<open>common/runtime.cpp\<close>).  The model (\<^verbatim>\<open>common/model.cpp\<close>) is read from a stream (\<^verbatim>\<open>stream.cpp\<close>): header, flatbuffer,
  weights, command buffers and custom functions (\<^verbatim>\<open>section.cpp\<close>).  From it a program (\<^verbatim>\<open>program.cpp\<close>) is
  loaded: its neuron memory, partly shared between models (\<^verbatim>\<open>shared_mem.cpp\<close>), its tensors
  (\<^verbatim>\<open>neuron.cpp\<close>) and its routines.  An inference loads the inputs, runs the routines one after the other,
  on the TPU through command buffers or on the processor, and stores the outputs; asynchronous
  inference goes through a pool of worker threads over a ring queue (\<^verbatim>\<open>taskpool.cpp\<close>, \<^verbatim>\<open>taskpool.hpp\<close>).
  Underneath, a chip-independent interface (\<^verbatim>\<open>soc/common/cvi_rt_base.cpp\<close>) calls the device memory of the chip
  (\<^verbatim>\<open>soc/common/cvi_device_mem.cpp\<close> and \<^verbatim>\<open>soc/18*x\<close>), which talks to the kernel driver.  A best-fit memory
  pool (\<^verbatim>\<open>common/mmpool.cpp\<close>) serves the simulator (\<^verbatim>\<open>cmodel\<close>), a second implementation of the interface
  that runs command buffers in software.  Layers the TPU cannot compute run on the processor
  (\<^verbatim>\<open>common/cpu_function\<close>).  The tools (\<^verbatim>\<open>src/tool\<close>) inspect and run models.

  \<^bold>\<open>How code becomes definitions.\<close>  An operation is a function from the state to a fault (failed
  assertion, null or stale pointer, access out of range, use of an uninitialised variable) or its
  result and the new state (\<^verbatim>\<open>('s, 'a) sm\<close> in \<^verbatim>\<open>CviPrelude\<close>); error codes are results.  Objects live in heaps
  by address, a pointer is an address or nothing.  Unsigned integers of the code are naturals with
  the wrap-around written out (\<^verbatim>\<open>add64\<close>, \<^verbatim>\<open>mul32\<close>, \<^verbatim>\<open>to_u32\<close>), signed ones integers reduced by \<^verbatim>\<open>to_s32\<close>, flags and bit
  patterns words.  Host and mapped memory is a function from addresses to bytes.  The kernel is a
  function from the log of earlier calls to the answer, so every property holds for every driver.
  What is not under \<^verbatim>\<open>src\<close> (driver, cvikernel, flatbuffers decoder, LZ4, loader of shared libraries,
  CPU functions, system allocator) is a field of the environments \<^verbatim>\<open>env\<close> and \<^verbatim>\<open>rtenv\<close>.

  \<^bold>\<open>Theories.\<close>
  \<^item> \<^verbatim>\<open>CviPrelude\<close>: integers, faults, the state-passing operations and their inversion rules
    (collection \<^verbatim>\<open>dm_inv\<close>), result codes, containers.
  \<^item> \<^verbatim>\<open>MemPool\<close> (\<^verbatim>\<open>mmpool.cpp\<close>): allocation is sound, best-fit and undone by release, the free slots are the gaps
    between the live blocks, and a pool can always be emptied; locale \<^verbatim>\<open>block_allocator\<close>.
  \<^item> \<^verbatim>\<open>RingQueue\<close>, \<^verbatim>\<open>TaskPool\<close> (\<^verbatim>\<open>taskpool.hpp\<close>, \<^verbatim>\<open>taskpool.cpp\<close>): the queue is a bounded fifo (locale \<^verbatim>\<open>bounded_fifo\<close>); the pool
    is a step relation over clients, workers and the destructor, with waiting clients and workers
    never losing a wake-up, and three reachable deadlocks.
  \<^item> \<^verbatim>\<open>ModelStream\<close> (\<^verbatim>\<open>stream.cpp\<close>, \<^verbatim>\<open>section.cpp\<close>): the three streams agree (locale \<^verbatim>\<open>base_stream\<close>); loading of functions.
  \<^item> \<^verbatim>\<open>DeviceMem\<close> (\<^verbatim>\<open>cvi_device_mem.cpp\<close>) and \<^verbatim>\<open>ChipMem\<close> (the four chips): cache ranges, leak freedom of allocation,
    copies, sub-buffers, submission and waiting; release undoes allocation on every chip (locale
    \<^verbatim>\<open>mem_provider\<close>).
  \<^item> \<^verbatim>\<open>DmaBuf\<close> (\<^verbatim>\<open>bm_dmabuf.c\<close>), \<^verbatim>\<open>DmaConvert\<close>: the conversion of a command buffer stays inside the dma buffer whose
    size was computed from the same commands, and the descriptors count the commands of its segments.
  \<^item> \<^verbatim>\<open>RtState\<close>: the objects above the device layer and the state that holds them; \<^verbatim>\<open>CviRt\<close>
    (\<^verbatim>\<open>cvi_rt_base.cpp\<close>): a synchronous run is one submission and the wait for it.
  \<^item> \<^verbatim>\<open>SharedMem\<close> (\<^verbatim>\<open>alloc.cpp\<close>, \<^verbatim>\<open>shared_mem.cpp\<close>): the pool counts its users (locale \<^verbatim>\<open>shared_pool\<close>, which extends
    \<^verbatim>\<open>mem_provider\<close> and is interpreted for the four chips).
  \<^item> \<^verbatim>\<open>Neuron\<close> (\<^verbatim>\<open>neuron.cpp\<close>, \<^verbatim>\<open>kernel_function/tdmaCopy.cpp\<close>) and \<^verbatim>\<open>ImageSize\<close>: data survives load and store, sizes of
    images suffice, failures of preloading.
  \<^item> \<^verbatim>\<open>KernelFunc\<close> (\<^verbatim>\<open>kernel_function\<close>), \<^verbatim>\<open>KernelTile\<close>, \<^verbatim>\<open>KernelLight\<close>: the hand-written kernels as the instructions they emit; their tiles
    fit the local memory, cover the result once and are made from the operands they need (locale
    \<^verbatim>\<open>tile_collect\<close> for loops over tiles).  The kernel library is a parameter.
  \<^item> \<^verbatim>\<open>Program\<close> (\<^verbatim>\<open>program.cpp\<close>), \<^verbatim>\<open>Placement\<close>, \<^verbatim>\<open>Inference\<close>: tensors lie where the command buffers look for them;
    routines run in order; results of routines are dropped.
  \<^item> \<^verbatim>\<open>Model\<close> (\<^verbatim>\<open>model.cpp\<close>), \<^verbatim>\<open>ModelLoad\<close>: header, version check, sections.
  \<^item> \<^verbatim>\<open>Runtime\<close> (\<^verbatim>\<open>runtime.cpp\<close>), \<^verbatim>\<open>Handles\<close>, \<^verbatim>\<open>TensorNames\<close>: models live exactly as long as their handles, over every
    history of calls (frames by the locale \<^verbatim>\<open>framed\<close>); tensor descriptions and their lookup.
  \<^item> \<^verbatim>\<open>Simulator\<close> (\<^verbatim>\<open>cmodel/*.cpp\<close>), \<^verbatim>\<open>SimMem\<close>, \<^verbatim>\<open>SimRun\<close>: allocated device memory never overlaps, over every
    history of operations, and sub-buffers lie inside it; a buffer that was loaded gives each engine its own
    commands, in both ways of running it.  The
    simulated chip is a parameter whose memory keeps what is written.
  \<^item> \<^verbatim>\<open>CpuFunc\<close> (\<^verbatim>\<open>cpu_function\<close>: transposition, pixel shuffle, embedding, gathering, argmax, maxima, running sums,
    preprocessing): \<^verbatim>\<open>CpuLayers\<close> has the loops and the layers that move every element once (locale
    \<^verbatim>\<open>scatter\<close>, interpreted for both), \<^verbatim>\<open>CpuGather\<close> the gathering by multi-indices, \<^verbatim>\<open>CpuReduce\<close> maxima and sums.
  \<^item> \<^verbatim>\<open>Detect\<close> (\<^verbatim>\<open>yolo_detection.cpp\<close>, \<^verbatim>\<open>frcn_detection.cpp\<close>, \<^verbatim>\<open>retinaface_detection.hpp\<close>), \<^verbatim>\<open>Suppress\<close>: what the suppression of
    overlapping boxes keeps (locale \<^verbatim>\<open>overlap_test\<close>, interpreted for Yolo and Faster R-CNN) and where the
    one of faces goes wrong.  The floating-point operations and the sorting of faces are parameters.
  \<^item> \<^verbatim>\<open>SsdDetect\<close>, \<^verbatim>\<open>SsdNeon\<close> (\<^verbatim>\<open>ssd_detection.cpp\<close>, portable and for vector instructions), \<^verbatim>\<open>SsdSpec\<close>, \<^verbatim>\<open>SsdPlace\<close>: the portable layer
    computes a plain description of it and uses only boxes it decoded; the other version agrees with
    it.  Bit patterns, the fast exponential function and the order the library's sorts give to equal
    scores are parameters.
  \<^item> \<^verbatim>\<open>Pmu\<close> (\<^verbatim>\<open>soc/181x/tpu_pmu.cpp\<close>), \<^verbatim>\<open>PmuSpec\<close>: the totals of the performance counters are sums over the events, the
    layers the runs of events; where the time counter and the unterminated arrays spoil them.
  \<^item> \<^verbatim>\<open>Md5\<close> (\<^verbatim>\<open>tool/md5.cpp\<close>), \<^verbatim>\<open>SectionTool\<close> (\<^verbatim>\<open>tool/cvimodel_tool.cpp\<close>): the streaming digest is the one of RFC 1321; the digest of a
    section is that of the bytes that are stored for it.
  \<^item> \<^verbatim>\<open>ModelTool\<close> (\<^verbatim>\<open>tool/cvimodel_tool.cpp\<close>, class \<^verbatim>\<open>Model\<close>), \<^verbatim>\<open>ModelMerge\<close>, \<^verbatim>\<open>ModelCompress\<close>: a merged file serves every routine and every
    weight of the models it was made of, exactly the models whose weights agree are merged, and
    compressing command buffers loses nothing.  The flatbuffers decoder and builder, LZ4, the order of
    equal elements in \<^verbatim>\<open>std::sort\<close> and the external encrypter are parameters.

  \<^bold>\<open>Loops and bounds.\<close>  Loops over containers are structural.  The polling loop of \<^verbatim>\<open>wait_dmabuf\<close> has
  fuel (\<^verbatim>\<open>env_wait_fuel\<close>); \<^verbatim>\<open>wait_loop_returns\<close> shows how much is enough for one
  submission and \<^verbatim>\<open>wait_cmdbuf_all_returns\<close> for all that are pending.  The three rounds of an allocation and
  of a preload are the constants of the code.  The loops over a command buffer make at most one
  round per byte, which is their fuel; \<^verbatim>\<open>dmabuf_convert_fits\<close> shows that they end.

  \<^bold>\<open>Not modelled.\<close>  The tables the performance counters are printed to, the cvikernel glue
  of the chips, the CPU layers that are only floating-point formulas, the
  printing of the tools, the vendored LZ4, the bindings and the samples.  \<^verbatim>\<open>forwardAsync\<close> and
  \<^verbatim>\<open>forwardWait\<close> are modelled in the task pool only, where a task is its result; running a CPU layer is
  a parameter of inference.  Allocation on the host heap and threads do not fail; floating-point
  values of the runtime are bit patterns, those of the layers elements of an ordered type.

  \<^bold>\<open>Plan.\<close>  Next are the proposal layer and the interpolation and quantisation layers.
\<close>

end
